(* ===== verification/GoPrelude.thy ===== *)
theory GoPrelude
  imports Main "HOL-Library.Word" "HOL-Library.AList" "HOL-Library.Sublist"
begin

text \<open>
  The vocabulary the component theories share: Go strings as byte lists with the functions of
  package \<open>strings\<close> the sources use, Go maps as association lists with distinct keys, 64-bit
  integers with their wrap-around written out, durations and instants in nanoseconds, and the
  notion of a reachable state with the interface of an invariant.

  Strings. A Go string is a sequence of bytes, here a \<^typ>\<open>char list\<close>. \<open>strings.TrimSpace\<close>
  removes the 25 code points of Unicode's White\_Space property, each given by its UTF-8 bytes.
  Case mapping (\<open>strings.ToLower\<close>, \<open>strings.EqualFold\<close>) is modelled on the ASCII letters;
  letters outside ASCII are left as they are.

  Maps. \<open>map[K]V\<close> is an association list. The order of the list is the order in which a
  \<open>range\<close> loop visits the map: Go leaves that order open, and the theorems hold for every list.
\<close>

section \<open>Collections of facts\<close>

named_theorems go_string \<open>facts about the string functions\<close>
named_theorems go_map \<open>facts about maps as association lists\<close>
named_theorems wf_intro \<open>introduction rules for the well-formedness predicates\<close>

section \<open>Strings\<close>

text \<open>\<open>unicode.IsSpace\<close>: the UTF-8 bytes of each white-space code point.\<close>

definition ws_runes :: "string list" where
  "ws_runes =
     [[CHR 0x20], [CHR 0x09], [CHR 0x0A], [CHR 0x0B], [CHR 0x0C], [CHR 0x0D],
      [CHR 0xC2, CHR 0x85], [CHR 0xC2, CHR 0xA0], [CHR 0xE1, CHR 0x9A, CHR 0x80],
      [CHR 0xE2, CHR 0x80, CHR 0x80], [CHR 0xE2, CHR 0x80, CHR 0x81], [CHR 0xE2, CHR 0x80, CHR 0x82],
      [CHR 0xE2, CHR 0x80, CHR 0x83], [CHR 0xE2, CHR 0x80, CHR 0x84], [CHR 0xE2, CHR 0x80, CHR 0x85],
      [CHR 0xE2, CHR 0x80, CHR 0x86], [CHR 0xE2, CHR 0x80, CHR 0x87], [CHR 0xE2, CHR 0x80, CHR 0x88],
      [CHR 0xE2, CHR 0x80, CHR 0x89], [CHR 0xE2, CHR 0x80, CHR 0x8A], [CHR 0xE2, CHR 0x80, CHR 0xA8],
      [CHR 0xE2, CHR 0x80, CHR 0xA9], [CHR 0xE2, CHR 0x80, CHR 0xAF], [CHR 0xE2, CHR 0x81, CHR 0x9F],
      [CHR 0xE3, CHR 0x80, CHR 0x80]]"

text \<open>The rest of a list after a given prefix, and after the first prefix of a list that fits.\<close>

fun strip_prefix :: "'a list \<Rightarrow> 'a list \<Rightarrow> 'a list option" where
  "strip_prefix [] s = Some s"
| "strip_prefix (p # ps) [] = None"
| "strip_prefix (p # ps) (c # s) = (if p = c then strip_prefix ps s else None)"

fun strip_any :: "'a list list \<Rightarrow> 'a list \<Rightarrow> 'a list option" where
  "strip_any [] s = None"
| "strip_any (p # ps) s = (case strip_prefix p s of Some r \<Rightarrow> Some r | None \<Rightarrow> strip_any ps s)"

function strip_while :: "'a list list \<Rightarrow> 'a list \<Rightarrow> 'a list" where
  "strip_while ps s =
     (case strip_any ps s of
        None \<Rightarrow> s
      | Some r \<Rightarrow> if length r < length s then strip_while ps r else s)"
  by pat_completeness auto
termination
  by (relation "measure (\<lambda>(ps, s). length s)") auto

declare strip_while.simps [simp del]

text \<open>\<open>strings.TrimSpace\<close>: strip the white space on the left, then on the right.\<close>

definition TrimSpace :: "string \<Rightarrow> string" where
  "TrimSpace s = rev (strip_while (map rev ws_runes) (rev (strip_while ws_runes s)))"

text \<open>\<open>strings.ToLower\<close> and \<open>strings.EqualFold\<close> on the ASCII letters.\<close>

definition lower_table :: "(char \<times> char) list" where
  "lower_table = zip ''ABCDEFGHIJKLMNOPQRSTUVWXYZ'' ''abcdefghijklmnopqrstuvwxyz''"

definition char_lower :: "char \<Rightarrow> char" where
  "char_lower c = (case map_of lower_table c of Some d \<Rightarrow> d | None \<Rightarrow> c)"

definition ToLower :: "string \<Rightarrow> string" where
  "ToLower s = map char_lower s"

definition EqualFold :: "string \<Rightarrow> string \<Rightarrow> bool" where
  "EqualFold a b \<longleftrightarrow> ToLower a = ToLower b"

text \<open>\<open>strings.Split(s, sep)\<close> and \<open>strings.Join(ss, sep)\<close> for a separator of one byte.\<close>

fun Split :: "char \<Rightarrow> string \<Rightarrow> string list" where
  "Split sep [] = [[]]"
| "Split sep (c # s) =
     (if c = sep then [] # Split sep s
      else (case Split sep s of [] \<Rightarrow> [[c]] | w # ws \<Rightarrow> (c # w) # ws))"

fun Join :: "string \<Rightarrow> string list \<Rightarrow> string" where
  "Join sep [] = []"
| "Join sep [s] = s"
| "Join sep (s # t # ss) = s @ sep @ Join sep (t # ss)"

definition nl :: char where "nl = CHR 0x0A"

text \<open>\<open>strings.Contains(s, t)\<close>.\<close>

definition contains :: "string \<Rightarrow> string \<Rightarrow> bool" where
  "contains s t = list_ex (\<lambda>i. prefix t (drop i s)) [0..<Suc (length s)]"

text \<open>\<open>strings.Fields(s)\<close>: the words between runs of white space; \<open>w\<close> is the word being read.\<close>

function fields_from :: "string \<Rightarrow> string \<Rightarrow> string list" where
  "fields_from w [] = (if w = [] then [] else [w])"
| "fields_from w (c # s) =
     (case strip_any ws_runes (c # s) of
        None \<Rightarrow> fields_from (w @ [c]) s
      | Some r \<Rightarrow> (if w = [] then [] else [w]) @ (if length r \<le> length s then fields_from [] r else []))"
  by pat_completeness auto
termination
  by (relation "measure (\<lambda>(w, s). length s)") auto

definition Fields :: "string \<Rightarrow> string list" where
  "Fields s = fields_from [] s"

section \<open>Integers, durations and instants\<close>

text \<open>A Go \<open>int\<close> or \<open>int64\<close> is a value of \<^typ>\<open>int\<close> in the signed 64-bit range; arithmetic that can
  leave the range is wrapped back by \<open>wrap64\<close>.\<close>

definition wrap64 :: "int \<Rightarrow> int" where
  "wrap64 x = (x + 2 ^ 63) mod 2 ^ 64 - 2 ^ 63"

abbreviation minInt64 :: int where "minInt64 \<equiv> - (2 ^ 63)"
abbreviation maxInt64 :: int where "maxInt64 \<equiv> 2 ^ 63 - 1"

text \<open>Instants (\<open>time.Time\<close>) and durations are nanosecond counts. \<open>t.Sub(u)\<close> saturates at the ends
  of the 64-bit range of a duration; a multiplication of durations wraps.\<close>

type_synonym gotime = int
type_synonym duration = int

definition Millisecond :: duration where "Millisecond = 1000000"
definition Second :: duration where "Second = 1000000000"

definition time_sub :: "gotime \<Rightarrow> gotime \<Rightarrow> duration" where
  "time_sub t u = max minInt64 (min maxInt64 (t - u))"

definition millis :: "int \<Rightarrow> duration" where
  "millis n = wrap64 (n * Millisecond)"

section \<open>Reachable states\<close>

inductive reachable :: "('s \<Rightarrow> bool) \<Rightarrow> ('s \<Rightarrow> 's \<Rightarrow> bool) \<Rightarrow> 's \<Rightarrow> bool"
  for init :: "'s \<Rightarrow> bool" and step :: "'s \<Rightarrow> 's \<Rightarrow> bool" where
  reach_init: "init s \<Longrightarrow> reachable init step s"
| reach_step: "reachable init step s \<Longrightarrow> step s t \<Longrightarrow> reachable init step t"

text \<open>The contract of an invariant: the starting states have it and every step keeps it.\<close>

locale inv_system =
  fixes init :: "'s \<Rightarrow> bool" and step :: "'s \<Rightarrow> 's \<Rightarrow> bool" and inv :: "'s \<Rightarrow> bool"
  assumes init_inv: "init s \<Longrightarrow> inv s"
    and step_inv: "inv s \<Longrightarrow> step s t \<Longrightarrow> inv t"
begin

lemma reachable_inv: "reachable init step s \<Longrightarrow> inv s"
  by (induction rule: reachable.induct) (auto intro: init_inv step_inv)

text \<open>Steps taken from a state with the invariant never leave it.\<close>

lemma rtranclp_inv: "step\<^sup>*\<^sup>* s t \<Longrightarrow> inv s \<Longrightarrow> inv t"
  by (induction rule: rtranclp_induct) (auto intro: step_inv)

end

section \<open>Lemmas on strings\<close>

lemma strip_prefix_Some: "strip_prefix p s = Some r \<longleftrightarrow> s = p @ r"
  by (induction p s rule: strip_prefix.induct) auto

lemma strip_any_Some: "strip_any ps s = Some r \<Longrightarrow> \<exists>p \<in> set ps. s = p @ r"
  by (induction ps) (auto split: option.splits simp: strip_prefix_Some)

lemma strip_prefix_None: "strip_prefix p s = None \<longleftrightarrow> \<not> prefix p s"
  by (induction p s rule: strip_prefix.induct) auto

lemma strip_any_None: "strip_any ps s = None \<longleftrightarrow> (\<forall>p \<in> set ps. \<not> prefix p s)"
proof (induction ps)
  case Nil
  then show ?case by simp
next
  case (Cons p ps)
  then show ?case
    using strip_prefix_None [of p s] by (cases "strip_prefix p s") auto
qed

lemma strip_any_None_prefix: "strip_any ps s = None \<Longrightarrow> prefix t s \<Longrightarrow> strip_any ps t = None"
  by (auto simp: strip_any_None dest: prefix_order.order_trans)

lemma strip_while_None: "strip_any ps s = None \<Longrightarrow> strip_while ps s = s"
  by (simp add: strip_while.simps)

lemma strip_while_suffix: "suffix (strip_while ps s) s"
proof (induction ps s rule: strip_while.induct)
  case (1 ps s)
  show ?case
  proof (cases "strip_any ps s")
    case None
    then show ?thesis by (simp add: strip_while_None)
  next
    case (Some r)
    then have "suffix r s" by (auto dest: strip_any_Some simp: suffix_def)
    with Some "1" show ?thesis
      by (subst strip_while.simps) (auto intro: suffix_order.order_trans)
  qed
qed

lemma strip_while_stops:
  "[] \<notin> set ps \<Longrightarrow> strip_any ps (strip_while ps s) = None"
proof (induction ps s rule: strip_while.induct)
  case (1 ps s)
  show ?case
  proof (cases "strip_any ps s")
    case None
    then show ?thesis by (simp add: strip_while_None)
  next
    case (Some r)
    then obtain p where "p \<in> set ps" "s = p @ r" by (auto dest: strip_any_Some)
    with "1.prems" have "length r < length s" by (cases p) auto
    with Some "1" show ?thesis by (subst strip_while.simps) simp
  qed
qed

lemma ws_runes_nonempty: "[] \<notin> set ws_runes" "[] \<notin> set (map rev ws_runes)"
  by (simp_all add: ws_runes_def)

lemma TrimSpace_idem [simp, go_string]: "TrimSpace (TrimSpace s) = TrimSpace s"
proof -
  let ?t = "strip_while ws_runes s"
  let ?u = "strip_while (map rev ws_runes) (rev ?t)"
  have "prefix (rev ?u) ?t"
    using strip_while_suffix [of "map rev ws_runes" "rev ?t"] by (simp add: suffix_to_prefix)
  with strip_while_stops [OF ws_runes_nonempty(1)]
  have "strip_any ws_runes (rev ?u) = None" by (rule strip_any_None_prefix)
  then have left: "strip_while ws_runes (rev ?u) = rev ?u" by (rule strip_while_None)
  have "strip_while (map rev ws_runes) ?u = ?u"
    by (rule strip_while_None [OF strip_while_stops [OF ws_runes_nonempty(2)]])
  with left show ?thesis by (simp add: TrimSpace_def)
qed

lemma TrimSpace_Nil [simp, go_string]: "TrimSpace [] = []"
  by (simp add: TrimSpace_def strip_while_None strip_any_None ws_runes_def)

lemma length_TrimSpace: "length (TrimSpace s) \<le> length s"
proof -
  have "length (TrimSpace s) \<le> length (strip_while ws_runes s)"
    using suffix_length_le [OF strip_while_suffix [of "map rev ws_runes" "rev (strip_while ws_runes s)"]]
    by (simp add: TrimSpace_def)
  also have "\<dots> \<le> length s" by (rule suffix_length_le [OF strip_while_suffix])
  finally show ?thesis .
qed

lemma lower_table_fixed: "map_of lower_table c = Some d \<Longrightarrow> map_of lower_table d = None"
proof -
  have "\<forall>d \<in> snd ` set lower_table. map_of lower_table d = None"
    by (simp add: lower_table_def)
  then show "map_of lower_table c = Some d \<Longrightarrow> map_of lower_table d = None"
    by (force dest: map_of_SomeD)
qed

lemma char_lower_idem [simp]: "char_lower (char_lower c) = char_lower c"
  by (auto simp: char_lower_def dest: lower_table_fixed split: option.splits)

lemma ToLower_idem [simp, go_string]: "ToLower (ToLower s) = ToLower s"
  by (simp add: ToLower_def)

lemma EqualFold_refl [simp, go_string]: "EqualFold s s"
  by (simp add: EqualFold_def)

lemma EqualFold_sym: "EqualFold a b \<Longrightarrow> EqualFold b a"
  by (simp add: EqualFold_def)

lemma EqualFold_trans: "EqualFold a b \<Longrightarrow> EqualFold b c \<Longrightarrow> EqualFold a c"
  by (simp add: EqualFold_def)

lemma Split_not_Nil [simp]: "Split sep s \<noteq> []"
  by (cases "(sep, s)" rule: Split.cases) (auto split: list.splits)

text \<open>Joining with the separator undoes the split.\<close>

lemma Join_Cons: "ss \<noteq> [] \<Longrightarrow> Join sep (s # ss) = s @ sep @ Join sep ss"
  by (cases ss) auto

lemma Join_head: "Join sep ((c # w) # ws) = c # Join sep (w # ws)"
  by (cases ws) auto

lemma Join_Split [go_string]: "Join [sep] (Split sep s) = s"
proof (induction s)
  case Nil
  then show ?case by simp
next
  case (Cons c s)
  then show ?case
    by (cases "Split sep s") (auto simp: Join_Cons Join_head)
qed

lemma Split_no_sep: "w \<in> set (Split sep s) \<Longrightarrow> sep \<notin> set w"
  by (induction sep s arbitrary: w rule: Split.induct) (auto split: list.splits if_splits)

section \<open>Lemmas on integers\<close>

lemma wrap64_id: "minInt64 \<le> x \<Longrightarrow> x \<le> maxInt64 \<Longrightarrow> wrap64 x = x"
  by (simp add: wrap64_def)

lemma wrap64_range: "minInt64 \<le> wrap64 x" "wrap64 x \<le> maxInt64"
proof -
  have "0 \<le> (x + 2 ^ 63) mod 2 ^ 64" "(x + 2 ^ 63) mod 2 ^ 64 < 2 ^ 64" by simp_all
  then show "minInt64 \<le> wrap64 x" "wrap64 x \<le> maxInt64" by (simp_all add: wrap64_def)
qed

section \<open>Lemmas on maps as association lists\<close>

text \<open>A map has one entry for a key.\<close>

abbreviation keys :: "('k \<times> 'v) list \<Rightarrow> 'k list" where
  "keys m \<equiv> map fst m"

lemma keys_update [go_map]: "set (keys (AList.update k v m)) = insert k (set (keys m))"
  by (induction m) auto

lemma distinct_keys_update [go_map, wf_intro]:
  "distinct (keys m) \<Longrightarrow> distinct (keys (AList.update k v m))"
  by (simp add: distinct_update)

lemma distinct_keys_delete [go_map, wf_intro]:
  "distinct (keys m) \<Longrightarrow> distinct (keys (AList.delete k m))"
  by (simp add: distinct_delete)

lemma distinct_keys_filter [go_map, wf_intro]:
  "distinct (keys m) \<Longrightarrow> distinct (keys (filter P m))"
  by (induction m) auto

lemma length_update_same [go_map]: "k \<in> set (keys m) \<Longrightarrow> length (AList.update k v m) = length m"
  by (induction m) auto

lemma alist_filter [go_map]:
  "distinct (keys m) \<Longrightarrow>
   map_of (filter P m) k = (case map_of m k of Some v \<Rightarrow> if P (k, v) then Some v else None | None \<Rightarrow> None)"
  by (induction m) (auto split: option.splits simp: map_of_eq_None_iff rev_image_eqI)

lemma alist_update [go_map]: "map_of (AList.update k v m) k' = (if k' = k then Some v else map_of m k')"
  by (simp add: update_conv')

lemma alist_delete [go_map]: "map_of (AList.delete k m) k' = (if k' = k then None else map_of m k')"
  by (simp add: delete_conv')

end
