(* ===== verification/GoChan.thy ===== *)
theory GoChan
  imports GoPrelude
begin

text \<open>
  Buffered Go channels and the heap they live in. A channel is a value with a capacity, a buffer
  and a closed flag; components refer to it by its index in the heap, as Go code refers to it by
  reference. Sending on a closed channel and closing a closed channel panic: the heap records
  that in a sticky flag, and the component theories prove that the flag is never set.
\<close>

section \<open>Channels\<close>

record 'a chan =
  ch_cap :: nat
  ch_buf :: "'a list"
  ch_closed :: bool

definition make_chan :: "nat \<Rightarrow> 'a chan" where
  "make_chan n = \<lparr>ch_cap = n, ch_buf = [], ch_closed = False\<rparr>"

record 'a cheap =
  cells :: "'a chan list"
  panicked :: bool

definition empty_heap :: "'a cheap" where
  "empty_heap = \<lparr>cells = [], panicked = False\<rparr>"

text \<open>\<open>make(chan T, n)\<close>: a fresh channel and its reference.\<close>

definition new_chan :: "nat \<Rightarrow> 'a cheap \<Rightarrow> nat \<times> 'a cheap" where
  "new_chan n h = (length (cells h), h\<lparr>cells := cells h @ [make_chan n]\<rparr>)"

definition panic :: "'a cheap \<Rightarrow> 'a cheap" where
  "panic h = h\<lparr>panicked := True\<rparr>"

definition open_at :: "'a cheap \<Rightarrow> nat \<Rightarrow> bool" where
  "open_at h i \<longleftrightarrow> i < length (cells h) \<and> \<not> ch_closed (cells h ! i)"

text \<open>\<open>close(ch)\<close>: closing a closed (or nil) channel panics.\<close>

definition close_at :: "nat \<Rightarrow> 'a cheap \<Rightarrow> 'a cheap" where
  "close_at i h =
     (if open_at h i then h\<lparr>cells := (cells h)[i := (cells h ! i)\<lparr>ch_closed := True\<rparr>]\<rparr>
      else panic h)"

text \<open>\<open>select { case ch <- x: default: }\<close>: a full channel drops the value, a closed one panics.\<close>

definition try_send :: "'a \<Rightarrow> nat \<Rightarrow> 'a cheap \<Rightarrow> 'a cheap" where
  "try_send x i h =
     (if \<not> open_at h i then panic h
      else if length (ch_buf (cells h ! i)) < ch_cap (cells h ! i)
      then h\<lparr>cells := (cells h)[i := (cells h ! i)\<lparr>ch_buf := ch_buf (cells h ! i) @ [x]\<rparr>]\<rparr>
      else h)"

text \<open>\<open>v, ok := <-ch\<close>: the oldest buffered value, the closed mark once the buffer is drained, or
  a blocked receiver.\<close>

datatype 'a received = Received 'a | ReceivedClosed | ReceiveBlocks

definition recv :: "nat \<Rightarrow> 'a cheap \<Rightarrow> 'a received \<times> 'a cheap" where
  "recv i h =
     (if i < length (cells h) then
        (case ch_buf (cells h ! i) of
           x # xs \<Rightarrow> (Received x, h\<lparr>cells := (cells h)[i := (cells h ! i)\<lparr>ch_buf := xs\<rparr>]\<rparr>)
         | [] \<Rightarrow> (if ch_closed (cells h ! i) then ReceivedClosed else ReceiveBlocks, h))
      else (ReceiveBlocks, h))"

text \<open>Wake a waiter: a non-blocking send followed by a close.\<close>

definition wake :: "nat \<Rightarrow> unit cheap \<Rightarrow> unit cheap" where
  "wake i h = close_at i (try_send () i h)"

text \<open>References that are all open and all different.\<close>

definition open_refs :: "'a cheap \<Rightarrow> nat list \<Rightarrow> bool" where
  "open_refs h is \<longleftrightarrow> distinct is \<and> (\<forall>i \<in> set is. open_at h i)"

section \<open>Lemmas\<close>

lemma open_at_empty [simp]: "\<not> open_at empty_heap i"
  by (simp add: open_at_def empty_heap_def)

lemma length_cells_ops [simp]:
  "length (cells (close_at i h)) = length (cells h)"
  "length (cells (try_send x i h)) = length (cells h)"
  by (simp_all add: close_at_def try_send_def panic_def)

lemma open_at_new [simp]:
  "new_chan n h = (i, h') \<Longrightarrow> open_at h' j \<longleftrightarrow> open_at h j \<or> j = i"
  by (auto simp: new_chan_def open_at_def nth_append make_chan_def)

lemma new_chan_fresh: "new_chan n h = (i, h') \<Longrightarrow> \<not> open_at h i"
  by (auto simp: new_chan_def open_at_def)

lemma new_chan_panicked [simp]: "new_chan n h = (i, h') \<Longrightarrow> panicked h' = panicked h"
  by (auto simp: new_chan_def)

lemma close_at_cells: "j \<noteq> i \<Longrightarrow> cells (close_at i h) ! j = cells h ! j"
  by (simp add: close_at_def panic_def)

lemma try_send_cells: "j \<noteq> i \<Longrightarrow> cells (try_send x i h) ! j = cells h ! j"
  by (simp add: try_send_def panic_def)

lemma open_at_try_send [simp]: "open_at (try_send x i h) j = open_at h j"
  by (cases "j = i") (auto simp: open_at_def try_send_def panic_def nth_list_update)

lemma panicked_try_send [simp]: "open_at h i \<Longrightarrow> panicked (try_send x i h) = panicked h"
  by (simp add: try_send_def)

lemma open_refs_try_send [simp]: "open_refs (try_send x i h) is = open_refs h is"
  by (simp add: open_refs_def)

lemma open_refs_Nil [simp]: "open_refs h []"
  by (simp add: open_refs_def)

lemma open_refs_Cons [simp]: "open_refs h (i # is) \<longleftrightarrow> i \<notin> set is \<and> open_at h i \<and> open_refs h is"
  by (auto simp: open_refs_def)

lemma open_refs_append [simp]:
  "open_refs h (is @ js) \<longleftrightarrow> open_refs h is \<and> open_refs h js \<and> set is \<inter> set js = {}"
  by (auto simp: open_refs_def)

lemma open_refs_new:
  "new_chan n h = (i, h') \<Longrightarrow> open_refs h is \<Longrightarrow> open_refs h' (is @ [i])"
  by (auto simp: open_refs_def dest: new_chan_fresh)

text \<open>
  What closing operations have in common: on an open channel they do not panic, they close that
  channel and they touch no other one. Draining a list of open references with such an
  operation closes exactly the references of the list.
\<close>

locale finisher =
  fixes fin :: "nat \<Rightarrow> 'a cheap \<Rightarrow> 'a cheap"
  assumes fin_panicked: "open_at h i \<Longrightarrow> panicked (fin i h) = panicked h"
    and fin_open: "open_at h i \<Longrightarrow> open_at (fin i h) j \<longleftrightarrow> open_at h j \<and> j \<noteq> i"
    and fin_cells: "j \<noteq> i \<Longrightarrow> cells (fin i h) ! j = cells h ! j"
    and fin_length: "length (cells (fin i h)) = length (cells h)"
begin

lemma fold_fin_length [simp]: "length (cells (fold fin is h)) = length (cells h)"
  by (induction "is" arbitrary: h) (auto simp: fin_length)

lemma fold_fin_panicked: "open_refs h is \<Longrightarrow> panicked (fold fin is h) = panicked h"
proof (induction "is" arbitrary: h)
  case Nil
  then show ?case by simp
next
  case (Cons i "is")
  then have "open_refs (fin i h) is" by (auto simp: open_refs_def fin_open)
  with Cons show ?case by (simp add: fin_panicked)
qed

lemma fold_fin_open: "open_refs h is \<Longrightarrow> open_at (fold fin is h) j \<longleftrightarrow> open_at h j \<and> j \<notin> set is"
proof (induction "is" arbitrary: h)
  case Nil
  then show ?case by simp
next
  case (Cons i "is")
  then have "open_refs (fin i h) is" by (auto simp: open_refs_def fin_open)
  with Cons show ?case by (auto simp: fin_open)
qed

lemma fold_fin_cells: "j \<notin> set is \<Longrightarrow> cells (fold fin is h) ! j = cells h ! j"
  by (induction "is" arbitrary: h) (auto simp: fin_cells)

lemma fold_fin_refs:
  "open_refs h is \<Longrightarrow> open_refs h js \<Longrightarrow> set is \<inter> set js = {} \<Longrightarrow> open_refs (fold fin is h) js"
  by (auto simp: open_refs_def fold_fin_open)

end

interpretation closing: finisher close_at
proof unfold_locales
  fix h :: "'a cheap" and i j
  show "open_at h i \<Longrightarrow> panicked (close_at i h) = panicked h"
    by (simp add: close_at_def)
  show "open_at h i \<Longrightarrow> open_at (close_at i h) j \<longleftrightarrow> open_at h j \<and> j \<noteq> i"
    by (auto simp: close_at_def open_at_def nth_list_update)
  show "j \<noteq> i \<Longrightarrow> cells (close_at i h) ! j = cells h ! j"
    by (rule close_at_cells)
qed simp

interpretation waking: finisher wake
proof unfold_locales
  fix h :: "unit cheap" and i j
  show "open_at h i \<Longrightarrow> panicked (wake i h) = panicked h"
    by (simp add: wake_def closing.fin_panicked)
  show "open_at h i \<Longrightarrow> open_at (wake i h) j \<longleftrightarrow> open_at h j \<and> j \<noteq> i"
    by (simp add: wake_def closing.fin_open)
  show "j \<noteq> i \<Longrightarrow> cells (wake i h) ! j = cells h ! j"
    by (simp add: wake_def close_at_cells try_send_cells)
qed (simp add: wake_def)

text \<open>A waiter that was woken receives at once: either the token or the closed mark.\<close>

lemma recv_woken: "open_at h i \<Longrightarrow> fst (recv i (wake i h)) \<noteq> ReceiveBlocks"
  by (auto simp: recv_def wake_def close_at_def try_send_def open_at_def split: list.splits)

end
