(* ===== verification/GoValue.thy ===== *)
theory GoValue
  imports GoPrelude
begin

text \<open>
  Values of Go's \<open>interface{}\<close> as the sources meet them: decoded JSON and argument maps. A float64 is
  kept as its 64 IEEE bits. A nil map and an empty map are told apart (\<open>VMap None\<close> against
  \<open>VMap (Some [])\<close>), because the clone helpers turn the second into the first. A byte slice of type
  \<open>json.RawMessage\<close> is its bytes; nil and empty agree. The model has value semantics: a clone is a
  new value, so what a clone theorem says is which value the copy has.
\<close>

datatype gval =
    VNil
  | VBool bool
  | VInt int
  | VFloat "64 word"
  | VString string
  | VNumber string
  | VRaw string
  | VList "gval list"
  | VMap "(string \<times> gval) list option"

type_synonym gmap = "(string \<times> gval) list option"

definition gmap_get :: "gmap \<Rightarrow> string \<Rightarrow> gval option" where
  "gmap_get m k = (case m of None \<Rightarrow> None | Some kvs \<Rightarrow> map_of kvs k)"

definition gmap_len :: "gmap \<Rightarrow> nat" where
  "gmap_len m = (case m of None \<Rightarrow> 0 | Some kvs \<Rightarrow> length kvs)"

text \<open>\<open>if len(input) == 0 { return nil }\<close>\<close>

definition nil_if_empty :: "'a list option \<Rightarrow> 'a list option" where
  "nil_if_empty m = (if m = Some [] then None else m)"

primrec deepCloneValue :: "gval \<Rightarrow> gval" where
  "deepCloneValue VNil = VNil"
| "deepCloneValue (VBool b) = VBool b"
| "deepCloneValue (VInt i) = VInt i"
| "deepCloneValue (VFloat w) = VFloat w"
| "deepCloneValue (VString s) = VString s"
| "deepCloneValue (VNumber s) = VNumber s"
| "deepCloneValue (VRaw s) = VRaw s"
| "deepCloneValue (VList xs) = VList (map deepCloneValue xs)"
| "deepCloneValue (VMap m) = VMap (nil_if_empty (map_option (map (map_prod id deepCloneValue)) m))"

definition deepCloneMap :: "gmap \<Rightarrow> gmap" where
  "deepCloneMap m = nil_if_empty (map_option (map (map_prod id deepCloneValue)) m)"

section \<open>Lemmas\<close>

lemma nil_if_empty_map [simp]:
  "nil_if_empty (map_option (map f) (nil_if_empty m)) = nil_if_empty (map_option (map f) m)"
  by (cases m) (auto simp: nil_if_empty_def)

lemma deepCloneValue_idem [simp]: "deepCloneValue (deepCloneValue v) = deepCloneValue v"
proof (induction v)
  case (VMap m)
  then have "map_option (map (map_prod id deepCloneValue \<circ> map_prod id deepCloneValue)) m
           = map_option (map (map_prod id deepCloneValue)) m"
    by (cases m) (fastforce simp: map_prod_def)+
  then show ?case by (simp add: option.map_comp comp_def)
qed auto

lemma deepCloneMap_idem [simp]: "deepCloneMap (deepCloneMap m) = deepCloneMap m"
  using deepCloneValue_idem [of "VMap m"] by (simp add: deepCloneMap_def)

text \<open>The clone answers every lookup with the clone of the original's answer.\<close>

lemma map_of_map_prod: "map_of (map (map_prod id f) kvs) k = map_option f (map_of kvs k)"
  by (induction kvs) auto

lemma gmap_get_deepCloneMap: "gmap_get (deepCloneMap m) k = map_option deepCloneValue (gmap_get m k)"
  by (auto simp: gmap_get_def deepCloneMap_def nil_if_empty_def map_of_map_prod split: option.splits)

lemma gmap_len_deepCloneMap [simp]: "gmap_len (deepCloneMap m) = gmap_len m"
  by (auto simp: gmap_len_def deepCloneMap_def nil_if_empty_def split: option.splits)

end
