(* ===== verification/AsyncTypes.thy ===== *)
theory AsyncTypes
  imports GoChan GoValue
begin

text \<open>
  The data of the async operation manager, \<open>protocol/async/manager.go\<close>: one record per struct of the
  source, with the source's fields in the source's order. \<open>State\<close> is a Go string type with six named
  values; any other string can occur, so it stays a string.

  Code outside the repository appears as the parameters collected in \<open>async_env\<close>: the execution
  modes of package \<open>viant/mcp\<close> (\<open>norm_mode\<close>, \<open>mode_waits\<close>). Two library functions whose values do
  not matter here are parameters as well: the JSON encoder of the digest view, which may refuse a
  malformed raw message, and the MD5 sum.
\<close>

section \<open>State\<close>

type_synonym State = string

definition StateStarted :: State where "StateStarted = ''started''"
definition StateRunning :: State where "StateRunning = ''running''"
definition StateWaiting :: State where "StateWaiting = ''waiting''"
definition StateCompleted :: State where "StateCompleted = ''completed''"
definition StateFailed :: State where "StateFailed = ''failed''"
definition StateCanceled :: State where "StateCanceled = ''canceled''"

lemmas State_defs = StateStarted_def StateRunning_def StateWaiting_def
  StateCompleted_def StateFailed_def StateCanceled_def

definition DefaultPercentSignalThreshold :: int where "DefaultPercentSignalThreshold = 5"
definition DefaultMaxPollFailures :: int where "DefaultMaxPollFailures = 3"
definition DefaultIdleTimeoutMs :: int where "DefaultIdleTimeoutMs = 600000"

text \<open>The payload fields of \<open>Extracted\<close> (\<open>extract.go\<close>).\<close>

record Extracted =
  ex_Status :: string
  ex_Message :: string
  ex_MessageKind :: string
  ex_Percent :: "int option"
  ex_KeyData :: string
  ex_Error :: string

record OperationRecord =
  op_OriginalRequestArgs :: gmap
  op_RequestOwnerID :: string
  op_ID :: string
  op_ParentConvID :: string
  op_ParentTurnID :: string
  op_ToolCallID :: string
  op_ToolMessageID :: string
  op_ToolName :: string
  op_StatusToolName :: string
  op_StatusOperationIDArg :: string
  op_SameToolRecall :: bool
  op_StatusArgs :: gmap
  op_CancelToolName :: string
  op_RequestArgsDigest :: string
  op_RequestArgs :: gmap
  op_OperationIntent :: string
  op_OperationSummary :: string
  op_ExecutionMode :: string
  op_TerminalCarrierBeforeModel :: bool
  op_State :: State
  op_Status :: string
  op_Message :: string
  op_MessageKind :: string
  op_Percent :: "int option"
  op_LastSignaledPercent :: "int option"
  op_KeyData :: string
  op_Error :: string
  op_CreatedAt :: gotime
  op_UpdatedAt :: gotime
  op_LastPayloadChangeAt :: gotime
  op_TimeoutAt :: "gotime option"
  op_TimeoutMs :: int
  op_IdleTimeoutMs :: int
  op_PollIntervalMs :: int
  op_PollFailures :: int
  op_changeDigest :: string
  op_pendingChange :: bool
  op_terminalPayload :: "Extracted option"

record RegisterInput =
  ri_OriginalRequestArgs :: gmap
  ri_ID :: string
  ri_ParentConvID :: string
  ri_ParentTurnID :: string
  ri_ToolCallID :: string
  ri_ToolMessageID :: string
  ri_ToolName :: string
  ri_StatusToolName :: string
  ri_StatusOperationIDArg :: string
  ri_SameToolRecall :: bool
  ri_StatusArgs :: gmap
  ri_CancelToolName :: string
  ri_RequestArgsDigest :: string
  ri_RequestArgs :: gmap
  ri_OperationIntent :: string
  ri_OperationSummary :: string
  ri_ExecutionMode :: string
  ri_TerminalCarrierBeforeModel :: bool
  ri_Status :: string
  ri_Message :: string
  ri_MessageKind :: string
  ri_Percent :: "int option"
  ri_KeyData :: string
  ri_Error :: string
  ri_TimeoutMs :: int
  ri_IdleTimeoutMs :: int
  ri_PollIntervalMs :: int

record UpdateInput =
  ui_ID :: string
  ui_Status :: string
  ui_Message :: string
  ui_MessageKind :: string
  ui_Percent :: "int option"
  ui_KeyData :: string
  ui_Error :: string
  ui_State :: State

record ChangeEvent =
  ev_OperationID :: string
  ev_PriorDigest :: string
  ev_NewDigest :: string
  ev_Status :: string
  ev_Message :: string
  ev_MessageKind :: string
  ev_Percent :: "int option"
  ev_KeyData :: string
  ev_Error :: string
  ev_State :: State
  ev_ChangedAt :: gotime
  ev_ToolName :: string
  ev_Intent :: string
  ev_Summary :: string
  ev_Conversation :: string
  ev_TurnID :: string

record AggregatedItem =
  it_OperationID :: string
  it_ToolName :: string
  it_OperationIntent :: string
  it_OperationSummary :: string
  it_State :: State
  it_Reason :: string
  it_Detail :: string
  it_Payload :: string

record AggregatedResult =
  ar_Items :: "AggregatedItem list"
  ar_OpsStillActive :: bool

record Filter =
  fl_ConversationID :: string
  fl_Tool :: string
  fl_ExecutionMode :: string

record PendingOp =
  po_OperationID :: string
  po_Tool :: string
  po_StatusTool :: string
  po_OperationIDArg :: string
  po_SameToolRecall :: bool
  po_StatusArgs :: gmap
  po_ExecutionMode :: string
  po_State :: State
  po_Intent :: string
  po_Summary :: string
  po_UpdatedAt :: gotime

record changeSubscription =
  sub_targets :: "string list"
  sub_ch :: nat

text \<open>
  The manager. The two channel heaps hold the waiter channels and the subscription channels. A
  \<open>context.CancelFunc\<close> is a number; \<open>m_canceled\<close> lists those that were called. The \<open>sync.WaitGroup\<close> is
  its counter, the atomic counters are 64-bit words. \<open>m_exited\<close> lists the \<open>done\<close> channels that the
  sweeper goroutines closed on exit.
\<close>

record Manager =
  m_ops :: "(string \<times> OperationRecord) list"
  m_pollers :: "string list"
  m_pollerCancels :: "(string \<times> nat) list"
  m_waiters :: "(string \<times> nat list) list"
  m_turnSignals :: "(string \<times> 64 word) list"
  m_subscriptions :: "(64 word \<times> changeSubscription) list"
  m_nextSubID :: "64 word"
  m_gcCancels :: "nat list"
  m_gcDone :: "nat list"
  m_pollerWG :: int
  m_closed :: bool
  m_registerCount :: "64 word"
  m_registerOverwriteCount :: "64 word"
  m_updateCount :: "64 word"
  m_updateChangedCount :: "64 word"
  m_sweepPruneCount :: "64 word"
  m_subscribeCount :: "64 word"
  m_unsubscribeCount :: "64 word"
  m_wheap :: "unit cheap"
  m_sheap :: "ChangeEvent cheap"
  m_canceled :: "nat list"
  m_exited :: "nat list"

record ManagerStats =
  st_RegisterCount :: "64 word"
  st_RegisterOverwriteCount :: "64 word"
  st_UpdateCount :: "64 word"
  st_UpdateChangedCount :: "64 word"
  st_SweepPruneCount :: "64 word"
  st_SubscribeCount :: "64 word"
  st_UnsubscribeCount :: "64 word"
  st_ActiveOps :: nat
  st_ActiveSubscriptions :: nat
  st_ActivePollers :: nat

record digestView =
  dv_Status :: string
  dv_Message :: string
  dv_State :: string
  dv_KeyData :: string

record async_env =
  norm_mode :: "string \<Rightarrow> string \<Rightarrow> string"
  mode_waits :: "string \<Rightarrow> bool"
  json_marshal :: "digestView \<Rightarrow> string option"
  md5_hex :: "string \<Rightarrow> string"

end
