(* ===== verification/AsyncManager.thy ===== *)
theory AsyncManager
  imports AsyncTypes
begin

text \<open>
  The operations of the async operation manager, \<open>protocol/async/manager.go\<close>. Every method body that
  runs under \<open>m.mu\<close> is one definition, a function of the manager's state. A method that blocks is
  split at the points where it gives up the lock. Goroutines are the environment: they call the
  definitions in any order. The clock is an argument of each operation that reads it.
\<close>

section \<open>Helpers\<close>

definition turnKey :: "string \<Rightarrow> string \<Rightarrow> string" where
  "turnKey convID turnID = TrimSpace convID @ ''|'' @ TrimSpace turnID"

definition rec_key :: "OperationRecord \<Rightarrow> string" where
  "rec_key r = turnKey (op_ParentConvID r) (op_ParentTurnID r)"

text \<open>Pointers to integers are options, raw messages are byte lists: cloning them copies a value.\<close>

definition cloneIntPtr :: "int option \<Rightarrow> int option" where
  [simp]: "cloneIntPtr v = (case v of None \<Rightarrow> None | Some x \<Rightarrow> Some x)"

definition cloneJSON :: "string \<Rightarrow> string" where
  [simp]: "cloneJSON v = (if length v = 0 then [] else v)"

definition cloneExtracted :: "Extracted option \<Rightarrow> Extracted option" where
  "cloneExtracted input = (case input of None \<Rightarrow> None
     | Some e \<Rightarrow> Some (e\<lparr>ex_Percent := cloneIntPtr (ex_Percent e), ex_KeyData := cloneJSON (ex_KeyData e)\<rparr>))"

definition cloneRecord :: "OperationRecord \<Rightarrow> OperationRecord" where
  "cloneRecord r = r\<lparr>op_Percent := cloneIntPtr (op_Percent r),
     op_LastSignaledPercent := cloneIntPtr (op_LastSignaledPercent r),
     op_KeyData := cloneJSON (op_KeyData r),
     op_terminalPayload := cloneExtracted (op_terminalPayload r),
     op_RequestArgs := deepCloneMap (op_RequestArgs r),
     op_OriginalRequestArgs := deepCloneMap (op_OriginalRequestArgs r),
     op_StatusArgs := deepCloneMap (op_StatusArgs r)\<rparr>"

definition equalIntPtr :: "int option \<Rightarrow> int option \<Rightarrow> bool" where
  "equalIntPtr a b = (case (a, b) of (None, None) \<Rightarrow> True | (Some x, Some y) \<Rightarrow> x = y | _ \<Rightarrow> False)"

definition jsonEqual :: "string \<Rightarrow> string \<Rightarrow> bool" where
  "jsonEqual a b \<longleftrightarrow> a = b"

definition Terminal :: "OperationRecord \<Rightarrow> bool" where
  "Terminal r \<longleftrightarrow> op_State r \<in> {StateCompleted, StateFailed, StateCanceled}"

definition TerminalPayload :: "OperationRecord \<Rightarrow> Extracted option" where
  "TerminalPayload r = (if \<not> Terminal r then None else cloneExtracted (op_terminalPayload r))"

definition DeriveState :: "string \<Rightarrow> string \<Rightarrow> State \<Rightarrow> State" where
  "DeriveState status errMsg requested =
     (if requested \<noteq> [] then requested
      else let s = ToLower (TrimSpace status) in
        if s \<in> set [''completed'', ''complete'', ''succeeded'', ''success'', ''done''] then StateCompleted
        else if s \<in> set [''failed'', ''error'', ''rejected''] then StateFailed
        else if s \<in> set [''canceled'', ''cancelled'', ''cancel''] then StateCanceled
        else if s \<in> set [''queued'', ''pending'', ''waiting'', ''waiting_for_user''] then StateWaiting
        else if s \<in> set [''running'', ''open'', ''processing''] then StateRunning
        else if TrimSpace errMsg \<noteq> [] then StateFailed
        else StateStarted)"

definition newTerminalPayload ::
  "State \<Rightarrow> string \<Rightarrow> string \<Rightarrow> string \<Rightarrow> int option \<Rightarrow> string \<Rightarrow> string \<Rightarrow> Extracted" where
  "newTerminalPayload state status message messageKind percent keyData errMsg =
     (let status1 = TrimSpace status;
          status2 = (if status1 = [] \<or> DeriveState status1 errMsg [] \<noteq> state then TrimSpace state else status1)
      in \<lparr>ex_Status = status2, ex_Message = TrimSpace message, ex_MessageKind = TrimSpace messageKind,
          ex_Percent = cloneIntPtr percent, ex_KeyData = cloneJSON keyData, ex_Error = TrimSpace errMsg\<rparr>)"

text \<open>A failed encoding leaves the payload nil, and the digest is that of the empty string.\<close>

definition changeDigest :: "async_env \<Rightarrow> string \<Rightarrow> string \<Rightarrow> State \<Rightarrow> string \<Rightarrow> string" where
  "changeDigest env status message state keyData =
     md5_hex env (case json_marshal env
         \<lparr>dv_Status = TrimSpace status, dv_Message = TrimSpace message,
          dv_State = TrimSpace state, dv_KeyData = cloneJSON keyData\<rparr> of
        None \<Rightarrow> [] | Some payload \<Rightarrow> payload)"

definition rec_digest :: "async_env \<Rightarrow> OperationRecord \<Rightarrow> string" where
  "rec_digest env r = changeDigest env (op_Status r) (op_Message r) (op_State r) (op_KeyData r)"

definition shouldSignalPercentChange :: "int option \<Rightarrow> int option \<Rightarrow> bool" where
  "shouldSignalPercentChange previous current =
     (case current of None \<Rightarrow> False
      | Some c \<Rightarrow> (case previous of None \<Rightarrow> True
         | Some p \<Rightarrow> let diff = wrap64 (c - p); diff' = (if diff < 0 then wrap64 (- diff) else diff)
                    in diff' \<ge> DefaultPercentSignalThreshold))"

section \<open>Construction and statistics\<close>

definition NewManager :: Manager where
  "NewManager = \<lparr>m_ops = [], m_pollers = [], m_pollerCancels = [], m_waiters = [], m_turnSignals = [],
     m_subscriptions = [], m_nextSubID = 0, m_gcCancels = [], m_gcDone = [], m_pollerWG = 0, m_closed = False,
     m_registerCount = 0, m_registerOverwriteCount = 0, m_updateCount = 0, m_updateChangedCount = 0,
     m_sweepPruneCount = 0, m_subscribeCount = 0, m_unsubscribeCount = 0,
     m_wheap = empty_heap, m_sheap = empty_heap, m_canceled = [], m_exited = []\<rparr>"

definition Stats :: "Manager \<Rightarrow> ManagerStats" where
  "Stats m = \<lparr>st_RegisterCount = m_registerCount m, st_RegisterOverwriteCount = m_registerOverwriteCount m,
     st_UpdateCount = m_updateCount m, st_UpdateChangedCount = m_updateChangedCount m,
     st_SweepPruneCount = m_sweepPruneCount m, st_SubscribeCount = m_subscribeCount m,
     st_UnsubscribeCount = m_unsubscribeCount m, st_ActiveOps = length (m_ops m),
     st_ActiveSubscriptions = length (m_subscriptions m), st_ActivePollers = length (m_pollers m)\<rparr>"

section \<open>Waiters of a turn\<close>

definition waiters_of :: "Manager \<Rightarrow> string \<Rightarrow> nat list" where
  "waiters_of m key = (case map_of (m_waiters m) key of None \<Rightarrow> [] | Some ws \<Rightarrow> ws)"

definition signalLocked :: "string \<Rightarrow> Manager \<Rightarrow> Manager" where
  "signalLocked key m = m\<lparr>m_waiters := AList.delete key (m_waiters m),
     m_wheap := fold wake (waiters_of m key) (m_wheap m)\<rparr>"

text \<open>The first occurrence of the channel is removed; an empty list removes the entry.\<close>

definition removeWaiterLocked :: "string \<Rightarrow> nat \<Rightarrow> Manager \<Rightarrow> Manager" where
  "removeWaiterLocked key target m =
     (let waiters = waiters_of m key in
      if waiters = [] then m
      else let waiters' = remove1 target waiters in
        if waiters' = [] then m\<lparr>m_waiters := AList.delete key (m_waiters m)\<rparr>
        else m\<lparr>m_waiters := AList.update key waiters' (m_waiters m)\<rparr>)"

definition turnSignal_of :: "Manager \<Rightarrow> string \<Rightarrow> 64 word" where
  "turnSignal_of m key = (case map_of (m_turnSignals m) key of None \<Rightarrow> 0 | Some v \<Rightarrow> v)"

definition TurnSignalVersion :: "string \<Rightarrow> string \<Rightarrow> Manager \<Rightarrow> 64 word" where
  "TurnSignalVersion convID turnID m = turnSignal_of m (turnKey convID turnID)"

definition SignalTurn :: "string \<Rightarrow> string \<Rightarrow> Manager \<Rightarrow> bool \<times> Manager" where
  "SignalTurn convID turnID m =
     (if TrimSpace convID = [] \<or> TrimSpace turnID = [] then (False, m)
      else let key = turnKey convID turnID in
        if m_closed m then (False, m)
        else let waiting = (length (waiters_of m key) > 0);
                 m' = m\<lparr>m_turnSignals := AList.update key (turnSignal_of m key + 1) (m_turnSignals m)\<rparr>
             in (waiting, signalLocked key m'))"

text \<open>\<open>WaitForChangeSince\<close> up to its \<open>select\<close>: it returns at once or parks on a fresh channel.\<close>

datatype wait_result = WaitReturns | WaitParks nat

definition WaitForChangeSince_begin :: "string \<Rightarrow> string \<Rightarrow> 64 word \<Rightarrow> Manager \<Rightarrow> wait_result \<times> Manager" where
  "WaitForChangeSince_begin convID turnID signalAfter m =
     (let key = turnKey convID turnID in
      if \<exists>r \<in> set (map snd (m_ops m)). rec_key r = key \<and> op_pendingChange r then (WaitReturns, m)
      else if turnSignal_of m key \<noteq> signalAfter then (WaitReturns, m)
      else let (ch, h) = new_chan 1 (m_wheap m) in
        (WaitParks ch, m\<lparr>m_wheap := h,
           m_waiters := AList.update key (waiters_of m key @ [ch]) (m_waiters m)\<rparr>))"

text \<open>The branches of the \<open>select\<close>: a receive on the channel, or the context's end, which still
  prefers a token that is already there (result \<open>True\<close>: no error).\<close>

definition WaitForChangeSince_recv :: "nat \<Rightarrow> Manager \<Rightarrow> unit received \<times> Manager" where
  "WaitForChangeSince_recv ch m =
     (case recv ch (m_wheap m) of (r, h) \<Rightarrow> (r, m\<lparr>m_wheap := h\<rparr>))"

definition WaitForChangeSince_ctxDone :: "nat \<Rightarrow> Manager \<Rightarrow> bool \<times> Manager" where
  "WaitForChangeSince_ctxDone ch m =
     (case recv ch (m_wheap m) of
        (ReceiveBlocks, _) \<Rightarrow> (False, m)
      | (_, h) \<Rightarrow> (True, m\<lparr>m_wheap := h\<rparr>))"

text \<open>The locked section after an unsuccessful look at the channel.\<close>

definition WaitForChangeSince_leave :: "string \<Rightarrow> string \<Rightarrow> nat \<Rightarrow> Manager \<Rightarrow> Manager" where
  "WaitForChangeSince_leave convID turnID ch m = removeWaiterLocked (turnKey convID turnID) ch m"

text \<open>\<open>WaitForChange\<close> reads the version in one locked section (state \<open>m0\<close>) and waits in another.\<close>

definition WaitForChange_begin :: "string \<Rightarrow> string \<Rightarrow> Manager \<Rightarrow> Manager \<Rightarrow> wait_result \<times> Manager" where
  "WaitForChange_begin convID turnID m0 m = WaitForChangeSince_begin convID turnID (TurnSignalVersion convID turnID m0) m"

section \<open>Pollers\<close>

definition AdmitPoller :: "string \<Rightarrow> nat option \<Rightarrow> Manager \<Rightarrow> bool \<times> Manager" where
  "AdmitPoller opid0 cancel m =
     (let opid = TrimSpace opid0 in
      if opid = [] then (False, m)
      else if m_closed m then (False, m)
      else if opid \<in> set (m_pollers m) then (False, m)
      else let m1 = m\<lparr>m_pollers := m_pollers m @ [opid]\<rparr>;
               m2 = (case cancel of None \<Rightarrow> m1
                     | Some c \<Rightarrow> m1\<lparr>m_pollerCancels := AList.update opid c (m_pollerCancels m1)\<rparr>)
           in (True, m2\<lparr>m_pollerWG := m_pollerWG m2 + 1\<rparr>))"

definition TryStartPoller :: "string \<Rightarrow> Manager \<Rightarrow> bool \<times> Manager" where
  "TryStartPoller opid0 m =
     (let opid = TrimSpace opid0 in
      if opid = [] then (False, m)
      else if m_closed m then (False, m)
      else if opid \<in> set (m_pollers m) then (False, m)
      else (True, m\<lparr>m_pollers := m_pollers m @ [opid], m_pollerWG := m_pollerWG m + 1\<rparr>))"

text \<open>Calling a stored cancel function, and calling it and forgetting it.\<close>

definition fire_cancel :: "string \<Rightarrow> Manager \<Rightarrow> Manager" where
  "fire_cancel opid m = (case map_of (m_pollerCancels m) opid of None \<Rightarrow> m
     | Some c \<Rightarrow> m\<lparr>m_canceled := c # m_canceled m\<rparr>)"

definition drop_cancel :: "string \<Rightarrow> Manager \<Rightarrow> Manager" where
  "drop_cancel opid m = (fire_cancel opid m)\<lparr>m_pollerCancels := AList.delete opid (m_pollerCancels m)\<rparr>"

definition FinishPoller :: "string \<Rightarrow> Manager \<Rightarrow> Manager" where
  "FinishPoller opid0 m =
     (let opid = TrimSpace opid0 in
      if opid = [] then m
      else let wasRegistered = (opid \<in> set (m_pollers m));
               m1 = (if wasRegistered then m\<lparr>m_pollers := removeAll opid (m_pollers m)\<rparr> else m);
               m2 = drop_cancel opid m1
           in if wasRegistered then m2\<lparr>m_pollerWG := m_pollerWG m2 - 1\<rparr> else m2)"

definition StorePollerCancel :: "string \<Rightarrow> nat option \<Rightarrow> Manager \<Rightarrow> Manager" where
  "StorePollerCancel opid cancel m =
     (case cancel of None \<Rightarrow> m
      | Some c \<Rightarrow> if TrimSpace opid = [] then m
                 else m\<lparr>m_pollerCancels := AList.update (TrimSpace opid) c (m_pollerCancels m)\<rparr>)"

definition CancelTurnPollers :: "string \<Rightarrow> string \<Rightarrow> Manager \<Rightarrow> Manager" where
  "CancelTurnPollers convID turnID m =
     fold (\<lambda>r. fire_cancel (op_ID r))
       (filter (\<lambda>r. rec_key r = turnKey convID turnID) (map snd (m_ops m))) m"

section \<open>Registration and lookup\<close>

definition new_record :: "async_env \<Rightarrow> string \<Rightarrow> gotime \<Rightarrow> RegisterInput \<Rightarrow> OperationRecord" where
  "new_record env owner now input =
     \<lparr>op_OriginalRequestArgs = deepCloneMap (ri_OriginalRequestArgs input),
      op_RequestOwnerID = owner,
      op_ID = TrimSpace (ri_ID input),
      op_ParentConvID = TrimSpace (ri_ParentConvID input),
      op_ParentTurnID = TrimSpace (ri_ParentTurnID input),
      op_ToolCallID = TrimSpace (ri_ToolCallID input),
      op_ToolMessageID = TrimSpace (ri_ToolMessageID input),
      op_ToolName = TrimSpace (ri_ToolName input),
      op_StatusToolName = TrimSpace (ri_StatusToolName input),
      op_StatusOperationIDArg = TrimSpace (ri_StatusOperationIDArg input),
      op_SameToolRecall = ri_SameToolRecall input,
      op_StatusArgs = deepCloneMap (ri_StatusArgs input),
      op_CancelToolName = TrimSpace (ri_CancelToolName input),
      op_RequestArgsDigest = TrimSpace (ri_RequestArgsDigest input),
      op_RequestArgs = deepCloneMap (ri_RequestArgs input),
      op_OperationIntent = TrimSpace (ri_OperationIntent input),
      op_OperationSummary = TrimSpace (ri_OperationSummary input),
      op_ExecutionMode = norm_mode env (ri_ExecutionMode input) ''wait'',
      op_TerminalCarrierBeforeModel = ri_TerminalCarrierBeforeModel input,
      op_State = [],
      op_Status = TrimSpace (ri_Status input),
      op_Message = TrimSpace (ri_Message input),
      op_MessageKind = TrimSpace (ri_MessageKind input),
      op_Percent = cloneIntPtr (ri_Percent input),
      op_LastSignaledPercent = cloneIntPtr (ri_Percent input),
      op_KeyData = cloneJSON (ri_KeyData input),
      op_Error = TrimSpace (ri_Error input),
      op_CreatedAt = now, op_UpdatedAt = now, op_LastPayloadChangeAt = now,
      op_TimeoutAt = (if ri_TimeoutMs input > 0 then Some (now + millis (ri_TimeoutMs input)) else None),
      op_TimeoutMs = ri_TimeoutMs input,
      op_IdleTimeoutMs = (if ri_IdleTimeoutMs input \<le> 0 then DefaultIdleTimeoutMs else ri_IdleTimeoutMs input),
      op_PollIntervalMs = ri_PollIntervalMs input,
      op_PollFailures = 0,
      op_changeDigest = [],
      op_pendingChange = True,
      op_terminalPayload = None\<rparr>"

definition register_terminal :: "RegisterInput \<Rightarrow> OperationRecord \<Rightarrow> OperationRecord" where
  "register_terminal input r =
     (if Terminal r
      then r\<lparr>op_terminalPayload := Some (newTerminalPayload (op_State r) (op_Status r) (op_Message r)
                (op_MessageKind r) (op_Percent r) (ri_KeyData input) (op_Error r))\<rparr>
      else r)"

definition registered_record :: "async_env \<Rightarrow> string \<Rightarrow> gotime \<Rightarrow> RegisterInput \<Rightarrow> OperationRecord" where
  "registered_record env owner now input =
     (let r0 = new_record env owner now input;
          r1 = r0\<lparr>op_State := DeriveState (op_Status r0) (ri_Error input) []\<rparr>;
          r2 = register_terminal input r1
      in r2\<lparr>op_changeDigest := rec_digest env r2\<rparr>)"

definition count_register :: "bool \<Rightarrow> Manager \<Rightarrow> Manager" where
  "count_register existed m =
     (let m1 = (if existed then m\<lparr>m_registerOverwriteCount := m_registerOverwriteCount m + 1\<rparr> else m)
      in m1\<lparr>m_registerCount := m_registerCount m1 + 1\<rparr>)"

definition put_op :: "string \<Rightarrow> OperationRecord \<Rightarrow> Manager \<Rightarrow> Manager" where
  "put_op opid r m = m\<lparr>m_ops := AList.update opid r (m_ops m)\<rparr>"

definition Register ::
  "async_env \<Rightarrow> string \<Rightarrow> gotime \<Rightarrow> RegisterInput \<Rightarrow> Manager \<Rightarrow> (OperationRecord \<times> bool) \<times> Manager" where
  "Register env owner now input m =
     (let existed = (map_of (m_ops m) (TrimSpace (ri_ID input)) \<noteq> None);
          r = registered_record env owner now input;
          m1 = put_op (op_ID r) r (count_register existed m)
      in ((r, existed), signalLocked (rec_key r) m1))"

definition Get :: "string \<Rightarrow> Manager \<Rightarrow> OperationRecord option" where
  "Get opid m = map_option cloneRecord (map_of (m_ops m) (TrimSpace opid))"

text \<open>The three assignments of \<open>BindToolCarrier\<close>: a blank argument leaves its field alone.\<close>

definition bind_field :: "string \<Rightarrow> string \<Rightarrow> string \<times> bool" where
  "bind_field arg old = (let v = TrimSpace arg in if v \<noteq> [] \<and> v \<noteq> old then (v, True) else (old, False))"

definition bind_carrier :: "string \<Rightarrow> string \<Rightarrow> string \<Rightarrow> OperationRecord \<Rightarrow> OperationRecord \<times> bool" where
  "bind_carrier toolCallID toolMessageID toolName r =
     (let (v1, c1) = bind_field toolCallID (op_ToolCallID r);
          (v2, c2) = bind_field toolMessageID (op_ToolMessageID r);
          (v3, c3) = bind_field toolName (op_ToolName r)
      in (r\<lparr>op_ToolCallID := v1, op_ToolMessageID := v2, op_ToolName := v3\<rparr>, c1 \<or> c2 \<or> c3))"

definition BindToolCarrier ::
  "string \<Rightarrow> string \<Rightarrow> string \<Rightarrow> string \<Rightarrow> Manager \<Rightarrow> (OperationRecord option \<times> bool) \<times> Manager" where
  "BindToolCarrier opid toolCallID toolMessageID toolName m =
     (case map_of (m_ops m) (TrimSpace opid) of None \<Rightarrow> ((None, False), m)
      | Some r \<Rightarrow> (case bind_carrier toolCallID toolMessageID toolName r of
          (r1, changed) \<Rightarrow> ((Some (cloneRecord r1), changed), put_op (TrimSpace opid) r1 m)))"

section \<open>Change publication\<close>

definition allTargetsTerminalLocked :: "Manager \<Rightarrow> string list \<Rightarrow> bool" where
  "allTargetsTerminalLocked m targets =
     list_all (\<lambda>opID. case map_of (m_ops m) opID of None \<Rightarrow> True | Some r \<Rightarrow> Terminal r) targets"

definition change_event :: "OperationRecord \<Rightarrow> string \<Rightarrow> string \<Rightarrow> ChangeEvent" where
  "change_event r priorDigest newDigest =
     \<lparr>ev_OperationID = op_ID r, ev_PriorDigest = priorDigest, ev_NewDigest = newDigest,
      ev_Status = op_Status r, ev_Message = op_Message r, ev_MessageKind = op_MessageKind r,
      ev_Percent = cloneIntPtr (op_Percent r), ev_KeyData = cloneJSON (op_KeyData r), ev_Error = op_Error r,
      ev_State = op_State r, ev_ChangedAt = op_UpdatedAt r, ev_ToolName = op_ToolName r,
      ev_Intent = op_OperationIntent r, ev_Summary = op_OperationSummary r,
      ev_Conversation = op_ParentConvID r, ev_TurnID = op_ParentTurnID r\<rparr>"

text \<open>The loop over the subscriptions: those that list the operation get the event; one whose targets
  are all terminal is closed and leaves the map.\<close>

fun publish_loop ::
  "(string list \<Rightarrow> bool) \<Rightarrow> string \<Rightarrow> ChangeEvent \<Rightarrow> (64 word \<times> changeSubscription) list \<Rightarrow> ChangeEvent cheap
   \<Rightarrow> (64 word \<times> changeSubscription) list \<times> ChangeEvent cheap" where
  "publish_loop allTerm opID ev [] h = ([], h)"
| "publish_loop allTerm opID ev ((opid, sub) # subs) h =
     (if opID \<notin> set (sub_targets sub)
      then (case publish_loop allTerm opID ev subs h of (subs', h') \<Rightarrow> ((opid, sub) # subs', h'))
      else let h1 = try_send ev (sub_ch sub) h in
        if allTerm (sub_targets sub)
        then publish_loop allTerm opID ev subs (close_at (sub_ch sub) h1)
        else (case publish_loop allTerm opID ev subs h1 of (subs', h') \<Rightarrow> ((opid, sub) # subs', h')))"

definition publishChangeLocked :: "OperationRecord \<Rightarrow> string \<Rightarrow> string \<Rightarrow> Manager \<Rightarrow> Manager" where
  "publishChangeLocked r priorDigest newDigest m =
     (if m_subscriptions m = [] then m
      else case publish_loop (allTargetsTerminalLocked m) (op_ID r) (change_event r priorDigest newDigest)
                  (m_subscriptions m) (m_sheap m) of
        (subs, h) \<Rightarrow> m\<lparr>m_subscriptions := subs, m_sheap := h\<rparr>)"

section \<open>Updates\<close>

text \<open>The assignments of \<open>Update\<close> to the record, one definition per \<open>if\<close> of the body, each with the
  \<open>changed\<close> flag it passes on. (The body's last assignment stores the trimmed error a second time and
  changes nothing.)\<close>

definition upd_status :: "UpdateInput \<Rightarrow> OperationRecord \<times> bool \<Rightarrow> OperationRecord \<times> bool" where
  "upd_status input rc = (let status = TrimSpace (ui_Status input) in
     if status \<noteq> [] \<and> status \<noteq> op_Status (fst rc) then ((fst rc)\<lparr>op_Status := status\<rparr>, True) else rc)"

definition upd_message :: "UpdateInput \<Rightarrow> OperationRecord \<times> bool \<Rightarrow> OperationRecord \<times> bool" where
  "upd_message input rc = (let msg = TrimSpace (ui_Message input) in
     if msg \<noteq> op_Message (fst rc) then ((fst rc)\<lparr>op_Message := msg\<rparr>, True) else rc)"

definition upd_messageKind :: "UpdateInput \<Rightarrow> OperationRecord \<times> bool \<Rightarrow> OperationRecord \<times> bool" where
  "upd_messageKind input rc = (let kind = TrimSpace (ui_MessageKind input) in
     if kind \<noteq> op_MessageKind (fst rc) then ((fst rc)\<lparr>op_MessageKind := kind\<rparr>, True) else rc)"

definition percent_changed :: "UpdateInput \<Rightarrow> OperationRecord \<Rightarrow> bool" where
  "percent_changed input r \<longleftrightarrow> \<not> equalIntPtr (op_Percent r) (ui_Percent input)"

definition upd_percent :: "UpdateInput \<Rightarrow> OperationRecord \<times> bool \<Rightarrow> OperationRecord \<times> bool" where
  "upd_percent input rc =
     (if percent_changed input (fst rc) then ((fst rc)\<lparr>op_Percent := cloneIntPtr (ui_Percent input)\<rparr>, True) else rc)"

definition upd_keyData :: "UpdateInput \<Rightarrow> OperationRecord \<times> bool \<Rightarrow> OperationRecord \<times> bool" where
  "upd_keyData input rc =
     (if length (ui_KeyData input) > 0 \<and> \<not> jsonEqual (op_KeyData (fst rc)) (ui_KeyData input)
      then ((fst rc)\<lparr>op_KeyData := cloneJSON (ui_KeyData input)\<rparr>, True) else rc)"

definition upd_error :: "UpdateInput \<Rightarrow> OperationRecord \<times> bool \<Rightarrow> OperationRecord \<times> bool" where
  "upd_error input rc = (let errMsg = TrimSpace (ui_Error input) in
     if errMsg \<noteq> op_Error (fst rc) then ((fst rc)\<lparr>op_Error := errMsg\<rparr>, True) else rc)"

definition upd_state :: "UpdateInput \<Rightarrow> OperationRecord \<times> bool \<Rightarrow> OperationRecord \<times> bool" where
  "upd_state input rc =
     (let newState = DeriveState (op_Status (fst rc)) (op_Error (fst rc)) (ui_State input) in
      if op_State (fst rc) \<noteq> newState then ((fst rc)\<lparr>op_State := newState\<rparr>, True) else rc)"

definition update_fields :: "UpdateInput \<Rightarrow> OperationRecord \<Rightarrow> OperationRecord \<times> bool" where
  "update_fields input r =
     upd_state input (upd_error input (upd_keyData input (upd_percent input
       (upd_messageKind input (upd_message input (upd_status input (r, False)))))))"

definition update_terminal :: "UpdateInput \<Rightarrow> bool \<Rightarrow> bool \<Rightarrow> OperationRecord \<Rightarrow> OperationRecord" where
  "update_terminal input wasTerminal changed r =
     (if Terminal r \<and> (\<not> wasTerminal \<or> changed \<or> op_terminalPayload r = None)
      then let terminalKeyData =
                 (case op_terminalPayload r of
                    Some p \<Rightarrow> if wasTerminal \<and> length (ui_KeyData input) = 0 then ex_KeyData p else ui_KeyData input
                  | None \<Rightarrow> ui_KeyData input)
           in r\<lparr>op_terminalPayload := Some (newTerminalPayload (op_State r) (op_Status r) (op_Message r)
                   (op_MessageKind r) (op_Percent r) terminalKeyData (op_Error r))\<rparr>
      else r)"

text \<open>Whether a changed record is worth a signal, and the record that remembers the signalled percentage.\<close>

definition update_signal :: "async_env \<Rightarrow> bool \<Rightarrow> OperationRecord \<Rightarrow> bool \<times> OperationRecord" where
  "update_signal env percentChanged r =
     (if rec_digest env r \<noteq> op_changeDigest r then (True, r)
      else if percentChanged \<and> shouldSignalPercentChange (op_LastSignaledPercent r) (op_Percent r)
      then (True, r\<lparr>op_LastSignaledPercent := cloneIntPtr (op_Percent r)\<rparr>)
      else (False, r))"

definition mark_signalled :: "async_env \<Rightarrow> OperationRecord \<Rightarrow> OperationRecord" where
  "mark_signalled env r =
     (let r1 = r\<lparr>op_changeDigest := rec_digest env r\<rparr>;
          r2 = (if op_LastSignaledPercent r1 = None \<and> op_Percent r1 \<noteq> None
                then r1\<lparr>op_LastSignaledPercent := cloneIntPtr (op_Percent r1)\<rparr> else r1)
      in r2\<lparr>op_LastPayloadChangeAt := op_UpdatedAt r2, op_pendingChange := True\<rparr>)"

definition Update ::
  "async_env \<Rightarrow> gotime \<Rightarrow> UpdateInput \<Rightarrow> Manager \<Rightarrow> (OperationRecord option \<times> bool) \<times> Manager" where
  "Update env now input m =
     (case map_of (m_ops m) (TrimSpace (ui_ID input)) of None \<Rightarrow> ((None, False), m)
      | Some rec0 \<Rightarrow>
        let m1 = m\<lparr>m_updateCount := m_updateCount m + 1\<rparr>;
            wasTerminal = Terminal rec0;
            (rec1, changed) = update_fields input rec0;
            rec2 = (update_terminal input wasTerminal changed rec1)\<lparr>op_UpdatedAt := now\<rparr>;
            put = put_op (TrimSpace (ui_ID input))
        in if \<not> changed then ((Some rec2, False), put rec2 m1)
           else let m2 = m1\<lparr>m_updateChangedCount := m_updateChangedCount m1 + 1\<rparr>;
                    (meaningfulSignal, rec3) = update_signal env (percent_changed input rec0) rec2
                in if \<not> meaningfulSignal then ((Some rec3, True), put rec3 m2)
                   else let rec4 = mark_signalled env rec3;
                            m3 = put rec4 m2;
                            m4 = signalLocked (rec_key rec4) m3;
                            m5 = publishChangeLocked rec4 (op_changeDigest rec3) (rec_digest env rec3) m4
                        in ((Some rec4, True), m5))"

definition poll_failed_once :: "gotime \<Rightarrow> string \<Rightarrow> OperationRecord \<Rightarrow> OperationRecord" where
  "poll_failed_once now errMsg r =
     r\<lparr>op_PollFailures := wrap64 (op_PollFailures r + 1), op_Error := TrimSpace errMsg, op_UpdatedAt := now\<rparr>"

definition poll_failed_for_good :: "async_env \<Rightarrow> OperationRecord \<Rightarrow> OperationRecord" where
  "poll_failed_for_good env r =
     (let r2 = r\<lparr>op_State := StateFailed, op_Status := ''failed''\<rparr>;
          r3 = r2\<lparr>op_terminalPayload := Some (newTerminalPayload (op_State r2) (op_Status r2) [] [] None [] (op_Error r2)),
                  op_pendingChange := True\<rparr>
      in r3\<lparr>op_changeDigest := rec_digest env r3\<rparr>)"

definition RecordPollFailure ::
  "async_env \<Rightarrow> gotime \<Rightarrow> string \<Rightarrow> string \<Rightarrow> bool \<Rightarrow> Manager \<Rightarrow> (OperationRecord option \<times> bool) \<times> Manager" where
  "RecordPollFailure env now opid errMsg transient m =
     (case map_of (m_ops m) (TrimSpace opid) of None \<Rightarrow> ((None, False), m)
      | Some r \<Rightarrow>
        let r1 = poll_failed_once now errMsg r
        in if transient \<and> op_PollFailures r1 < DefaultMaxPollFailures
           then ((Some (cloneRecord r1), False), put_op (TrimSpace opid) r1 m)
           else let r4 = poll_failed_for_good env r1
                in ((Some (cloneRecord r4), True), signalLocked (rec_key r4) (put_op (TrimSpace opid) r4 m)))"

definition poll_failures_reset :: "gotime \<Rightarrow> OperationRecord \<Rightarrow> OperationRecord" where
  "poll_failures_reset now r = r\<lparr>op_PollFailures := 0, op_UpdatedAt := now\<rparr>"

definition ResetPollFailures :: "gotime \<Rightarrow> string \<Rightarrow> Manager \<Rightarrow> (OperationRecord option \<times> bool) \<times> Manager" where
  "ResetPollFailures now opid m =
     (case map_of (m_ops m) (TrimSpace opid) of None \<Rightarrow> ((None, False), m)
      | Some r \<Rightarrow>
        if op_PollFailures r = 0 then ((Some (cloneRecord r), False), m)
        else let r1 = poll_failures_reset now r
             in ((Some (cloneRecord r1), True), put_op (TrimSpace opid) r1 m))"

section \<open>Queries\<close>

definition ActiveOps :: "string \<Rightarrow> string \<Rightarrow> Manager \<Rightarrow> OperationRecord list" where
  "ActiveOps convID turnID m =
     map cloneRecord (filter (\<lambda>r. rec_key r = turnKey convID turnID \<and> \<not> Terminal r) (map snd (m_ops m)))"

definition OperationsForTurn :: "string \<Rightarrow> string \<Rightarrow> Manager \<Rightarrow> OperationRecord list" where
  "OperationsForTurn convID turnID m =
     map cloneRecord (filter (\<lambda>r. TrimSpace (op_ParentConvID r) = TrimSpace convID \<and>
       TrimSpace (op_ParentTurnID r) = TrimSpace turnID) (map snd (m_ops m)))"

definition pending_op :: "OperationRecord \<Rightarrow> PendingOp" where
  "pending_op r = \<lparr>po_OperationID = op_ID r, po_Tool = op_ToolName r, po_StatusTool = op_StatusToolName r,
     po_OperationIDArg = op_StatusOperationIDArg r, po_SameToolRecall = op_SameToolRecall r,
     po_StatusArgs = deepCloneMap (op_StatusArgs r), po_ExecutionMode = op_ExecutionMode r,
     po_State = op_State r, po_Intent = op_OperationIntent r, po_Summary = op_OperationSummary r,
     po_UpdatedAt = op_UpdatedAt r\<rparr>"

definition ListOperations :: "Filter \<Rightarrow> Manager \<Rightarrow> PendingOp list" where
  "ListOperations f m =
     (let convID = TrimSpace (fl_ConversationID f); toolFilter = TrimSpace (fl_Tool f);
          modeFilter = TrimSpace (ToLower (fl_ExecutionMode f))
      in map pending_op (filter (\<lambda>r. \<not> Terminal r \<and>
           (convID \<noteq> [] \<longrightarrow> TrimSpace (op_ParentConvID r) = convID) \<and>
           (toolFilter \<noteq> [] \<longrightarrow> EqualFold (TrimSpace (op_ToolName r)) toolFilter) \<and>
           (modeFilter \<noteq> [] \<longrightarrow> ToLower (TrimSpace (op_ExecutionMode r)) = modeFilter)) (map snd (m_ops m))))"

definition HasActiveWaitOps :: "async_env \<Rightarrow> string \<Rightarrow> string \<Rightarrow> Manager \<Rightarrow> bool" where
  "HasActiveWaitOps env convID turnID m =
     list_ex (\<lambda>r. mode_waits env (op_ExecutionMode r)) (ActiveOps convID turnID m)"

definition ActiveWaitOps :: "async_env \<Rightarrow> string \<Rightarrow> string \<Rightarrow> Manager \<Rightarrow> OperationRecord list" where
  "ActiveWaitOps env convID turnID m =
     filter (\<lambda>r. mode_waits env (op_ExecutionMode r)) (ActiveOps convID turnID m)"

definition TerminalFailure :: "string \<Rightarrow> string \<Rightarrow> Manager \<Rightarrow> OperationRecord option" where
  "TerminalFailure convID turnID m =
     map_option cloneRecord (find (\<lambda>r. rec_key r = turnKey convID turnID \<and>
       op_State r \<in> {StateFailed, StateCanceled}) (map snd (m_ops m)))"

definition FindActiveByRequest ::
  "async_env \<Rightarrow> string \<Rightarrow> string \<Rightarrow> string \<Rightarrow> string \<Rightarrow> Manager \<Rightarrow> OperationRecord option" where
  "FindActiveByRequest env convID0 turnID0 toolName0 digest0 m =
     (let convID = TrimSpace convID0; turnID = TrimSpace turnID0; toolName = TrimSpace toolName0;
          digest = TrimSpace digest0
      in if convID = [] \<or> turnID = [] \<or> toolName = [] \<or> digest = [] then None
         else map_option cloneRecord (find (\<lambda>r. \<not> Terminal r \<and> mode_waits env (op_ExecutionMode r) \<and>
           rec_key r = turnKey convID turnID \<and> EqualFold (TrimSpace (op_ToolName r)) toolName \<and>
           op_RequestArgsDigest r = digest) (map snd (m_ops m))))"

definition has_change :: "string \<Rightarrow> OperationRecord \<Rightarrow> bool" where
  "has_change key r \<longleftrightarrow> rec_key r = key \<and> op_pendingChange r"

definition consume_change :: "string \<Rightarrow> OperationRecord \<Rightarrow> OperationRecord" where
  "consume_change key r = (if has_change key r then r\<lparr>op_pendingChange := False\<rparr> else r)"

definition ConsumeChanged :: "string \<Rightarrow> string \<Rightarrow> Manager \<Rightarrow> OperationRecord list \<times> Manager" where
  "ConsumeChanged convID turnID m =
     (let key = turnKey convID turnID
      in (map (cloneRecord \<circ> consume_change key) (filter (has_change key) (map snd (m_ops m))),
          m\<lparr>m_ops := map (\<lambda>(k, r). (k, consume_change key r)) (m_ops m)\<rparr>))"

text \<open>\<open>WaitForNextPoll\<close> up to its timer: the delay it arms, or none. The \<open>n\<close>-th reading of the clock by
  \<open>time.Until\<close> is \<open>clk n\<close>.\<close>

fun poll_delay :: "(nat \<Rightarrow> gotime) \<Rightarrow> gotime \<Rightarrow> nat \<Rightarrow> duration \<Rightarrow> OperationRecord list \<Rightarrow> duration option" where
  "poll_delay clk now n delay [] = Some delay"
| "poll_delay clk now n delay (r # rs) =
     (if op_PollIntervalMs r \<le> 0 then poll_delay clk now n delay rs
      else let nextAt = op_UpdatedAt r + millis (op_PollIntervalMs r) in
        if nextAt \<le> now then None
        else let nextDelay = time_sub nextAt (clk n) in
          poll_delay clk now (Suc n) (if delay = 0 \<or> nextDelay < delay then nextDelay else delay) rs)"

definition WaitForNextPoll ::
  "async_env \<Rightarrow> (nat \<Rightarrow> gotime) \<Rightarrow> gotime \<Rightarrow> string \<Rightarrow> string \<Rightarrow> Manager \<Rightarrow> duration option" where
  "WaitForNextPoll env clk now convID turnID m =
     (let waitOps = ActiveWaitOps env convID turnID m in
      if waitOps = [] then None
      else case poll_delay clk now 0 0 waitOps of None \<Rightarrow> None
           | Some delay \<Rightarrow> if delay \<le> 0 then None else Some delay)"

section \<open>Subscriptions and the barrier\<close>

definition sub_ids :: "string list \<Rightarrow> string list" where
  "sub_ids opIDs = remdups (filter (\<lambda>s. s \<noteq> []) (map TrimSpace opIDs))"

definition Subscribe :: "string list \<Rightarrow> Manager \<Rightarrow> (nat \<times> 64 word) \<times> Manager" where
  "Subscribe opIDs m =
     (let (ch, h) = new_chan 16 (m_sheap m);
          m1 = m\<lparr>m_sheap := h\<rparr>;
          targets = sub_ids opIDs
      in if targets = [] \<or> allTargetsTerminalLocked m1 targets
         then ((ch, 0), m1\<lparr>m_sheap := close_at ch (m_sheap m1)\<rparr>)
         else let subID = m_nextSubID m1 + 1
              in ((ch, subID), m1\<lparr>m_nextSubID := subID,
                    m_subscriptions := AList.update subID \<lparr>sub_targets = targets, sub_ch = ch\<rparr> (m_subscriptions m1),
                    m_subscribeCount := m_subscribeCount m1 + 1\<rparr>))"

definition Unsubscribe :: "64 word \<Rightarrow> Manager \<Rightarrow> Manager" where
  "Unsubscribe subID m =
     (if subID = 0 then m
      else case map_of (m_subscriptions m) subID of None \<Rightarrow> m
           | Some sub \<Rightarrow> m\<lparr>m_subscriptions := AList.delete subID (m_subscriptions m),
               m_unsubscribeCount := m_unsubscribeCount m + 1,
               m_sheap := close_at (sub_ch sub) (m_sheap m)\<rparr>)"

definition aggregatedReason :: "OperationRecord \<Rightarrow> bool \<Rightarrow> string" where
  "aggregatedReason r idle =
     (if idle then ''running_idle''
      else if op_State r = StateCompleted then ''success''
      else if op_State r = StateFailed then ''failure''
      else if op_State r = StateCanceled then ''canceled''
      else if op_State r = StateWaiting then ''waiting''
      else if op_State r = StateRunning then ''running''
      else if op_State r = StateStarted then ''started''
      else TrimSpace (op_State r))"

definition idleAt :: "OperationRecord \<Rightarrow> gotime" where
  "idleAt r = op_LastPayloadChangeAt r +
     millis (if op_IdleTimeoutMs r \<le> 0 then DefaultIdleTimeoutMs else op_IdleTimeoutMs r)"

definition base_item :: "OperationRecord \<Rightarrow> AggregatedItem" where
  "base_item r = \<lparr>it_OperationID = op_ID r, it_ToolName = op_ToolName r,
     it_OperationIntent = op_OperationIntent r, it_OperationSummary = op_OperationSummary r,
     it_State = op_State r, it_Reason = [], it_Detail = op_Message r, it_Payload = cloneJSON (op_KeyData r)\<rparr>"

record await_acc =
  aw_result :: AggregatedResult
  aw_done :: bool
  aw_next :: duration

text \<open>One pass of the loop of \<open>evaluateAwait\<close> over an operation id; \<open>until\<close> is the clock that
  \<open>time.Until\<close> reads in that pass.\<close>

definition await_item :: "Manager \<Rightarrow> gotime \<Rightarrow> gotime \<Rightarrow> string \<Rightarrow> await_acc \<Rightarrow> await_acc" where
  "await_item m now until opID acc =
     (let opid = TrimSpace opID in
      if opid = [] then acc
      else case map_of (m_ops m) opid of None \<Rightarrow> acc
      | Some r \<Rightarrow>
        let add = (\<lambda>reason active a. a\<lparr>aw_result := \<lparr>ar_Items = ar_Items (aw_result a) @ [(base_item r)\<lparr>it_Reason := reason\<rparr>],
                     ar_OpsStillActive = (ar_OpsStillActive (aw_result a) \<or> active)\<rparr>\<rparr>)
        in if Terminal r then add (aggregatedReason r False) False acc
           else if idleAt r \<le> now then add ''running_idle'' True acc
           else let wait = time_sub (idleAt r) until
                in add (TrimSpace (op_State r)) True
                     (acc\<lparr>aw_done := False, aw_next := (if wait > 0 \<and> wait < aw_next acc then wait else aw_next acc)\<rparr>))"

fun await_loop :: "Manager \<Rightarrow> gotime \<Rightarrow> (nat \<Rightarrow> gotime) \<Rightarrow> nat \<Rightarrow> string list \<Rightarrow> await_acc \<Rightarrow> await_acc" where
  "await_loop m now clk n [] acc = acc"
| "await_loop m now clk n (opID # opIDs) acc =
     await_loop m now clk (Suc n) opIDs (await_item m now (clk n) opID acc)"

definition evaluateAwait ::
  "gotime \<Rightarrow> (nat \<Rightarrow> gotime) \<Rightarrow> string list \<Rightarrow> Manager \<Rightarrow> AggregatedResult \<times> bool \<times> duration" where
  "evaluateAwait now clk opIDs m =
     (let nextWait0 = millis DefaultIdleTimeoutMs;
          nextWait1 = (if nextWait0 \<le> 0 then Second else nextWait0);
          acc = await_loop m now clk 0 opIDs
                  \<lparr>aw_result = \<lparr>ar_Items = [], ar_OpsStillActive = False\<rparr>, aw_done = True, aw_next = nextWait1\<rparr>
      in if aw_done acc then (aw_result acc, True, 0)
         else let nextWait = (if aw_next acc \<le> 0 then Millisecond else aw_next acc)
              in if list_ex (\<lambda>item. it_Reason item = ''running_idle'') (ar_Items (aw_result acc))
                 then (aw_result acc, True, 0)
                 else (aw_result acc, False, nextWait))"

text \<open>
  The goroutine of \<open>AwaitTerminal\<close>. It evaluates, subscribes and then reacts to what its \<open>select\<close>
  reports; \<open>AwaitDone None\<close> is an exit without a result. Leaving releases the subscription.
\<close>

datatype await_state = AwaitPolling nat "64 word" | AwaitDone "AggregatedResult option"
datatype await_event = CtxDone | SubReceived ChangeEvent | SubClosed | TimerFired

definition AwaitTerminal_first :: "gotime \<Rightarrow> (nat \<Rightarrow> gotime) \<Rightarrow> string list \<Rightarrow> Manager \<Rightarrow> AggregatedResult option" where
  "AwaitTerminal_first now clk opIDs m =
     (case evaluateAwait now clk opIDs m of (result, finished, _) \<Rightarrow> if finished then Some result else None)"

definition AwaitTerminal_subscribe :: "string list \<Rightarrow> Manager \<Rightarrow> await_state \<times> Manager" where
  "AwaitTerminal_subscribe opIDs m = (case Subscribe opIDs m of ((ch, subID), m') \<Rightarrow> (AwaitPolling ch subID, m'))"

definition AwaitTerminal_step ::
  "gotime \<Rightarrow> (nat \<Rightarrow> gotime) \<Rightarrow> string list \<Rightarrow> await_event \<Rightarrow> await_state \<Rightarrow> Manager \<Rightarrow> await_state \<times> Manager" where
  "AwaitTerminal_step now clk opIDs e st m =
     (case st of AwaitDone res \<Rightarrow> (AwaitDone res, m)
      | AwaitPolling ch subID \<Rightarrow>
        (case e of
           CtxDone \<Rightarrow> (AwaitDone None, Unsubscribe subID m)
         | SubClosed \<Rightarrow> (AwaitDone (AwaitTerminal_first now clk opIDs m), Unsubscribe subID m)
         | _ \<Rightarrow> (case AwaitTerminal_first now clk opIDs m of
                   Some result \<Rightarrow> (AwaitDone (Some result), Unsubscribe subID m)
                 | None \<Rightarrow> (AwaitPolling ch subID, m))))"

section \<open>Garbage collection and shutdown\<close>

definition opHasSubscriptionLocked :: "string \<Rightarrow> Manager \<Rightarrow> bool" where
  "opHasSubscriptionLocked opid m = list_ex (\<lambda>sub. opid \<in> set (sub_targets sub)) (map snd (m_subscriptions m))"

definition dropOpLocked :: "string \<Rightarrow> Manager \<Rightarrow> Manager" where
  "dropOpLocked opid m =
     (let m1 = m\<lparr>m_ops := AList.delete opid (m_ops m)\<rparr>;
          m2 = drop_cancel opid m1
      in m2\<lparr>m_waiters := AList.delete opid (m_waiters m2)\<rparr>)"

definition prunable :: "async_env \<Rightarrow> gotime \<Rightarrow> duration \<Rightarrow> Manager \<Rightarrow> string \<Rightarrow> OperationRecord \<Rightarrow> bool" where
  "prunable env now maxAge m opid r \<longleftrightarrow>
     \<not> opHasSubscriptionLocked opid m \<and> \<not> time_sub now (op_UpdatedAt r) < maxAge \<and>
     \<not> (\<not> Terminal r \<and> mode_waits env (op_ExecutionMode r))"

fun sweep_loop ::
  "async_env \<Rightarrow> gotime \<Rightarrow> duration \<Rightarrow> (string \<times> OperationRecord) list \<Rightarrow> Manager \<Rightarrow> nat \<Rightarrow> Manager \<times> nat" where
  "sweep_loop env now maxAge [] m pruned = (m, pruned)"
| "sweep_loop env now maxAge ((opid, r) # rest) m pruned =
     (if prunable env now maxAge m opid r
      then sweep_loop env now maxAge rest (dropOpLocked opid m) (Suc pruned)
      else sweep_loop env now maxAge rest m pruned)"

definition Sweep :: "async_env \<Rightarrow> gotime \<Rightarrow> duration \<Rightarrow> Manager \<Rightarrow> nat \<times> Manager" where
  "Sweep env now maxAge m =
     (if maxAge \<le> 0 then (0, m)
      else case sweep_loop env now maxAge (m_ops m) m 0 of
        (m1, pruned) \<Rightarrow>
          (pruned, if pruned > 0 then m1\<lparr>m_sweepPruneCount := m_sweepPruneCount m1 + of_nat pruned\<rparr> else m1))"

text \<open>\<open>StartGC\<close> registers a sweeper by its cancel function and its \<open>done\<close> channel; a sweeper that exits
  calls its cancel function and closes \<open>done\<close>. The result is whether a goroutine was launched.\<close>

definition StartGC :: "bool \<Rightarrow> nat \<Rightarrow> nat \<Rightarrow> duration \<Rightarrow> duration \<Rightarrow> Manager \<Rightarrow> bool \<times> Manager" where
  "StartGC ctxNil cancel finish interval maxAge m =
     (if ctxNil \<or> interval \<le> 0 \<or> maxAge \<le> 0 then (False, m)
      else if m_closed m then (False, m\<lparr>m_canceled := cancel # m_canceled m, m_exited := finish # m_exited m\<rparr>)
      else (True, m\<lparr>m_gcCancels := m_gcCancels m @ [cancel], m_gcDone := m_gcDone m @ [finish]\<rparr>))"

definition gc_exit :: "nat \<Rightarrow> nat \<Rightarrow> Manager \<Rightarrow> Manager" where
  "gc_exit cancel finish m = m\<lparr>m_canceled := cancel # m_canceled m, m_exited := finish # m_exited m\<rparr>"

text \<open>\<open>Close\<close> under the lock. The result is what it waits for afterwards: the \<open>done\<close> channels of the
  sweepers; \<open>Close_returns\<close> says when the waiting is over. (The sweepers' cancel functions are called
  right after the lock is released; the model counts them in the same step.)\<close>

definition Close :: "Manager \<Rightarrow> nat list \<times> Manager" where
  "Close m =
     (if m_closed m then ([], m)
      else (m_gcDone m,
        m\<lparr>m_closed := True, m_gcCancels := [], m_gcDone := [],
          m_canceled := m_gcCancels m @ map snd (m_pollerCancels m) @ m_canceled m,
          m_pollerCancels := [],
          m_sheap := fold (\<lambda>ch h. if open_at h ch then close_at ch h else h) (map (sub_ch \<circ> snd) (m_subscriptions m)) (m_sheap m),
          m_subscriptions := [],
          m_wheap := fold wake (concat (map snd (m_waiters m))) (m_wheap m),
          m_waiters := [],
          m_turnSignals := []\<rparr>))"

definition Close_returns :: "nat list \<Rightarrow> Manager \<Rightarrow> bool" where
  "Close_returns waitFor m \<longleftrightarrow> set waitFor \<subseteq> set (m_exited m) \<and> m_pollerWG m = 0"

end
