(* ===== verification/AsyncInvariant.thy ===== *)
theory AsyncInvariant
  imports AsyncManager "HOL-Library.Multiset"
begin

text \<open>
  The invariant of the async operation manager, and that every operation keeps it. It has one part
  per group of fields: the operation records, the pollers, the waiters, the subscriptions and the
  sweepers. The parts on channels say that every channel the manager holds is open and held once,
  which is why no operation panics.
\<close>

section \<open>The invariant\<close>

definition payload_ok :: "OperationRecord \<Rightarrow> bool" where
  "payload_ok r \<longleftrightarrow> (Terminal r \<longrightarrow>
     (\<exists>p. op_terminalPayload r = Some p \<and> DeriveState (ex_Status p) (ex_Error p) [] = op_State r))"

definition rec_inv :: "async_env \<Rightarrow> OperationRecord \<Rightarrow> bool" where
  "rec_inv env r \<longleftrightarrow> op_changeDigest r = rec_digest env r \<and> payload_ok r"

definition ops_inv :: "async_env \<Rightarrow> Manager \<Rightarrow> bool" where
  "ops_inv env m \<longleftrightarrow> distinct (keys (m_ops m)) \<and>
     (\<forall>k r. map_of (m_ops m) k = Some r \<longrightarrow> op_ID r = k \<and> TrimSpace k = k \<and> rec_inv env r)"

definition poll_inv :: "Manager \<Rightarrow> bool" where
  "poll_inv m \<longleftrightarrow> distinct (m_pollers m) \<and> m_pollerWG m = int (length (m_pollers m)) \<and>
     distinct (keys (m_pollerCancels m))"

definition wait_inv :: "Manager \<Rightarrow> bool" where
  "wait_inv m \<longleftrightarrow> distinct (keys (m_waiters m)) \<and>
     open_refs (m_wheap m) (concat (map snd (m_waiters m))) \<and> \<not> panicked (m_wheap m)"

definition sub_refs :: "(64 word \<times> changeSubscription) list \<Rightarrow> nat list" where
  "sub_refs subs = map (sub_ch \<circ> snd) subs"

definition subs_inv :: "Manager \<Rightarrow> bool" where
  "subs_inv m \<longleftrightarrow> distinct (keys (m_subscriptions m)) \<and>
     open_refs (m_sheap m) (sub_refs (m_subscriptions m)) \<and> \<not> panicked (m_sheap m)"

definition gc_inv :: "Manager \<Rightarrow> bool" where
  "gc_inv m \<longleftrightarrow> (m_closed m \<longrightarrow> m_gcCancels m = [] \<and> m_gcDone m = [])"

definition mgr_inv :: "async_env \<Rightarrow> Manager \<Rightarrow> bool" where
  "mgr_inv env m \<longleftrightarrow> ops_inv env m \<and> poll_inv m \<and> wait_inv m \<and> subs_inv m \<and> gc_inv m"

lemmas inv_defs = ops_inv_def poll_inv_def wait_inv_def subs_inv_def gc_inv_def

section \<open>Lists of references\<close>

lemma open_refs_mset: "mset xs = mset ys \<Longrightarrow> open_refs h xs = open_refs h ys"
  by (metis open_refs_def mset_eq_setD mset_eq_imp_distinct_iff)

lemma concat_delete:
  "distinct (keys ws) \<Longrightarrow>
   mset (concat (map snd ws)) =
     mset (case map_of ws k of None \<Rightarrow> [] | Some l \<Rightarrow> l) + mset (concat (map snd (AList.delete k ws)))"
proof (induction ws)
  case (Cons w ws)
  then show ?case
  proof (cases "fst w = k")
    case True
    with Cons.prems have "AList.delete k ws = ws" by (intro delete_id) auto
    with True show ?thesis by (cases w) simp
  next
    case False
    with Cons show ?thesis by (cases w) simp
  qed
qed simp

lemma concat_update:
  "distinct (keys ws) \<Longrightarrow>
   mset (concat (map snd (AList.update k l ws))) = mset l + mset (concat (map snd (AList.delete k ws)))"
  by (induction ws) auto

lemma sub_refs_simps [simp]:
  "sub_refs [] = []" "sub_refs ((i, s) # subs) = sub_ch s # sub_refs subs"
  by (simp_all add: sub_refs_def)

lemma sub_refs_delete:
  "distinct (keys subs) \<Longrightarrow> map_of subs i = Some s \<Longrightarrow>
   mset (sub_refs subs) = add_mset (sub_ch s) (mset (sub_refs (AList.delete i subs)))"
  by (induction subs) (auto simp: sub_refs_def split: if_splits)

lemma sub_refs_update:
  "distinct (keys subs) \<Longrightarrow>
   mset (sub_refs (AList.update i s subs)) = add_mset (sub_ch s) (mset (sub_refs (AList.delete i subs)))"
  by (induction subs) (auto simp: sub_refs_def)

lemma sub_refs_delete_subset: "set (sub_refs (AList.delete i subs)) \<subseteq> set (sub_refs subs)"
  by (auto simp: sub_refs_def AList.delete_eq)

section \<open>Frames: which operation touches which fields\<close>

lemma signalLocked_frame [simp]:
  "m_ops (signalLocked k m) = m_ops m" "m_pollers (signalLocked k m) = m_pollers m"
  "m_pollerCancels (signalLocked k m) = m_pollerCancels m" "m_pollerWG (signalLocked k m) = m_pollerWG m"
  "m_subscriptions (signalLocked k m) = m_subscriptions m" "m_sheap (signalLocked k m) = m_sheap m"
  "m_closed (signalLocked k m) = m_closed m" "m_gcCancels (signalLocked k m) = m_gcCancels m"
  "m_gcDone (signalLocked k m) = m_gcDone m"
  by (simp_all add: signalLocked_def)

lemma publish_frame [simp]:
  "m_ops (publishChangeLocked r p n m) = m_ops m" "m_pollers (publishChangeLocked r p n m) = m_pollers m"
  "m_pollerCancels (publishChangeLocked r p n m) = m_pollerCancels m"
  "m_pollerWG (publishChangeLocked r p n m) = m_pollerWG m" "m_waiters (publishChangeLocked r p n m) = m_waiters m"
  "m_wheap (publishChangeLocked r p n m) = m_wheap m" "m_closed (publishChangeLocked r p n m) = m_closed m"
  "m_gcCancels (publishChangeLocked r p n m) = m_gcCancels m" "m_gcDone (publishChangeLocked r p n m) = m_gcDone m"
  by (simp_all add: publishChangeLocked_def split: prod.splits)

lemma cancel_frame [simp]:
  "m_ops (fire_cancel i m) = m_ops m" "m_pollers (fire_cancel i m) = m_pollers m"
  "m_pollerCancels (fire_cancel i m) = m_pollerCancels m" "m_pollerWG (fire_cancel i m) = m_pollerWG m"
  "m_waiters (fire_cancel i m) = m_waiters m" "m_wheap (fire_cancel i m) = m_wheap m"
  "m_subscriptions (fire_cancel i m) = m_subscriptions m" "m_sheap (fire_cancel i m) = m_sheap m"
  "m_closed (fire_cancel i m) = m_closed m" "m_gcCancels (fire_cancel i m) = m_gcCancels m"
  "m_gcDone (fire_cancel i m) = m_gcDone m"
  by (simp_all add: fire_cancel_def split: option.splits)

lemma drop_cancel_frame [simp]:
  "m_ops (drop_cancel i m) = m_ops m" "m_pollers (drop_cancel i m) = m_pollers m"
  "m_pollerCancels (drop_cancel i m) = AList.delete i (m_pollerCancels m)"
  "m_pollerWG (drop_cancel i m) = m_pollerWG m" "m_waiters (drop_cancel i m) = m_waiters m"
  "m_wheap (drop_cancel i m) = m_wheap m" "m_subscriptions (drop_cancel i m) = m_subscriptions m"
  "m_sheap (drop_cancel i m) = m_sheap m" "m_closed (drop_cancel i m) = m_closed m"
  "m_gcCancels (drop_cancel i m) = m_gcCancels m" "m_gcDone (drop_cancel i m) = m_gcDone m"
  by (simp_all add: drop_cancel_def)

section \<open>Records\<close>

lemma Terminal_cases: "Terminal r \<Longrightarrow> op_State r = ''completed'' \<or> op_State r = ''failed'' \<or> op_State r = ''canceled''"
  by (auto simp: Terminal_def State_defs)

lemma derive_terminal:
  "DeriveState ''completed'' e [] = ''completed''" "DeriveState ''failed'' e [] = ''failed''"
  "DeriveState ''canceled'' e [] = ''canceled''"
  "TrimSpace ''completed'' = ''completed''" "TrimSpace ''failed'' = ''failed''" "TrimSpace ''canceled'' = ''canceled''"
proof -
  show trims: "TrimSpace ''completed'' = ''completed''" "TrimSpace ''failed'' = ''failed''"
    "TrimSpace ''canceled'' = ''canceled''" by code_simp+
  have lowers: "ToLower ''completed'' = ''completed''" "ToLower ''failed'' = ''failed''"
    "ToLower ''canceled'' = ''canceled''" by code_simp+
  show "DeriveState ''completed'' e [] = ''completed''" "DeriveState ''failed'' e [] = ''failed''"
    "DeriveState ''canceled'' e [] = ''canceled''"
    by (simp_all add: DeriveState_def trims lowers State_defs)
qed

lemma DeriveState_trim [simp]:
  "DeriveState (TrimSpace s) e q = DeriveState s e q" "DeriveState s (TrimSpace e) q = DeriveState s e q"
  by (simp_all add: DeriveState_def)

text \<open>The status of a terminal payload always reads back as the terminal state.\<close>

lemma newTerminalPayload_state:
  assumes "Terminal r"
  shows "DeriveState (ex_Status (newTerminalPayload (op_State r) s msg k pc kd e))
           (ex_Error (newTerminalPayload (op_State r) s msg k pc kd e)) [] = op_State r"
  using Terminal_cases [OF assms]
  by (auto simp: newTerminalPayload_def Let_def derive_terminal)

section \<open>Waiters\<close>

lemma waiters_of_refs:
  assumes "wait_inv m"
  shows "open_refs (m_wheap m) (waiters_of m k @ concat (map snd (AList.delete k (m_waiters m))))"
proof -
  have eq: "mset (waiters_of m k @ concat (map snd (AList.delete k (m_waiters m)))) = mset (concat (map snd (m_waiters m)))"
    using assms concat_delete [of "m_waiters m" k] by (simp add: wait_inv_def waiters_of_def)
  show ?thesis unfolding open_refs_mset [OF eq] using assms by (simp add: wait_inv_def)
qed

lemma signalLocked_wait [wf_intro]:
  assumes "wait_inv m"
  shows "wait_inv (signalLocked k m)"
proof -
  note refs = waiters_of_refs [OF assms, of k]
  then have "open_refs (fold wake (waiters_of m k) (m_wheap m)) (concat (map snd (AList.delete k (m_waiters m))))"
    by (intro waking.fold_fin_refs) simp_all
  with assms refs show ?thesis
    by (simp add: wait_inv_def signalLocked_def distinct_keys_delete waking.fold_fin_panicked)
qed

lemma delete_waiters_refs:
  "wait_inv m \<Longrightarrow> wait_inv (m\<lparr>m_waiters := AList.delete k (m_waiters m)\<rparr>)"
  using waiters_of_refs [of m k] by (simp add: wait_inv_def distinct_keys_delete)

lemma update_waiters_refs:
  assumes "wait_inv m" "open_refs h (ws @ concat (map snd (AList.delete k (m_waiters m))))" "\<not> panicked h"
  shows "wait_inv (m\<lparr>m_wheap := h, m_waiters := AList.update k ws (m_waiters m)\<rparr>)"
proof -
  have eq: "mset (concat (map snd (AList.update k ws (m_waiters m)))) =
        mset (ws @ concat (map snd (AList.delete k (m_waiters m))))"
    using assms(1) by (simp add: wait_inv_def concat_update)
  have "open_refs h (concat (map snd (AList.update k ws (m_waiters m))))"
    using assms(2) by (simp only: open_refs_mset [OF eq])
  with assms show ?thesis by (simp add: wait_inv_def distinct_keys_update)
qed

lemma removeWaiterLocked_wait [wf_intro]:
  assumes "wait_inv m"
  shows "wait_inv (removeWaiterLocked k ch m)"
proof -
  have "open_refs (m_wheap m) (remove1 ch (waiters_of m k) @ concat (map snd (AList.delete k (m_waiters m))))"
    using waiters_of_refs [OF assms, of k] by (auto simp: open_refs_def dest: in_set_remove1)
  then have "wait_inv (m\<lparr>m_waiters := AList.update k (remove1 ch (waiters_of m k)) (m_waiters m)\<rparr>)"
    using assms update_waiters_refs [OF assms, of "m_wheap m" "remove1 ch (waiters_of m k)" k]
    by (simp add: wait_inv_def)
  with assms show ?thesis
    by (simp add: removeWaiterLocked_def Let_def delete_waiters_refs)
qed

lemma removeWaiterLocked_frame [simp]:
  "m_ops (removeWaiterLocked k ch m) = m_ops m" "m_pollers (removeWaiterLocked k ch m) = m_pollers m"
  "m_pollerCancels (removeWaiterLocked k ch m) = m_pollerCancels m"
  "m_pollerWG (removeWaiterLocked k ch m) = m_pollerWG m"
  "m_subscriptions (removeWaiterLocked k ch m) = m_subscriptions m"
  "m_sheap (removeWaiterLocked k ch m) = m_sheap m" "m_wheap (removeWaiterLocked k ch m) = m_wheap m"
  "m_closed (removeWaiterLocked k ch m) = m_closed m"
  "m_gcCancels (removeWaiterLocked k ch m) = m_gcCancels m" "m_gcDone (removeWaiterLocked k ch m) = m_gcDone m"
  by (simp_all add: removeWaiterLocked_def Let_def)

text \<open>Receiving neither closes nor reopens a channel.\<close>

lemma recv_open [simp]: "recv i h = (r, h') \<Longrightarrow> open_at h' j = open_at h j"
  by (auto simp: recv_def open_at_def nth_list_update split: if_splits list.splits)

lemma recv_panicked [simp]: "recv i h = (r, h') \<Longrightarrow> panicked h' = panicked h"
  by (auto simp: recv_def split: if_splits list.splits)

lemma recv_refs [simp]: "recv i h = (r, h') \<Longrightarrow> open_refs h' js = open_refs h js"
  by (auto simp: open_refs_def)

section \<open>Subscriptions\<close>

lemma close_refs: "open_refs h (i # js) \<Longrightarrow> open_refs (close_at i h) js \<and> panicked (close_at i h) = panicked h"
  by (auto simp: open_refs_def closing.fin_open closing.fin_panicked)

lemma publish_loop_refs:
  assumes "publish_loop allTerm opid ev subs h = (subs', h')" "open_refs h (sub_refs subs @ js)"
  shows "open_refs h' (sub_refs subs' @ js) \<and> panicked h' = panicked h"
  using assms
proof (induction allTerm opid ev subs h arbitrary: js subs' h' rule: publish_loop.induct)
  case (1 allTerm opid ev h)
  then show ?case by simp
next
  case (2 allTerm opid ev i sub subs h)
  let ?h1 = "try_send ev (sub_ch sub) h"
  have here: "open_at h (sub_ch sub)" "open_refs h (sub_refs subs @ sub_ch sub # js)"
    using "2.prems"(2) by auto
  show ?case
  proof (cases "opid \<in> set (sub_targets sub)")
    case False
    obtain subs1 h1 where loop: "publish_loop allTerm opid ev subs h = (subs1, h1)" by fastforce
    from "2.IH"(1) [OF False loop here(2)] False "2.prems"(1) loop show ?thesis by auto
  next
    case True
    show ?thesis
    proof (cases "allTerm (sub_targets sub)")
      case True
      have "open_refs (close_at (sub_ch sub) ?h1) (sub_refs subs @ js) \<and>
            panicked (close_at (sub_ch sub) ?h1) = panicked h"
        using close_refs [of ?h1 "sub_ch sub" "sub_refs subs @ js"] here by auto
      moreover have "publish_loop allTerm opid ev subs (close_at (sub_ch sub) ?h1) = (subs', h')"
        using True \<open>opid \<in> set (sub_targets sub)\<close> "2.prems"(1) by (simp add: Let_def)
      ultimately show ?thesis
        using "2.IH"(2) [OF _ refl True] \<open>opid \<in> set (sub_targets sub)\<close> by metis
    next
      case False
      obtain subs1 h1 where loop: "publish_loop allTerm opid ev subs ?h1 = (subs1, h1)" by fastforce
      have "open_refs ?h1 (sub_refs subs @ sub_ch sub # js)" using here(2) by simp
      from "2.IH"(3) [OF _ refl False loop this] \<open>opid \<in> set (sub_targets sub)\<close>
      have "open_refs h1 (sub_refs subs1 @ sub_ch sub # js) \<and> panicked h1 = panicked ?h1" by simp
      with False \<open>opid \<in> set (sub_targets sub)\<close> "2.prems"(1) loop here(1) show ?thesis
        by (auto simp: Let_def)
    qed
  qed
qed

text \<open>The loop keeps the subscriptions that do not list the operation or still have a live target.\<close>

lemma publish_loop_filter:
  "fst (publish_loop allTerm opid ev subs h) =
   filter (\<lambda>(i, sub). \<not> (opid \<in> set (sub_targets sub) \<and> allTerm (sub_targets sub))) subs"
proof (induction subs arbitrary: h)
  case (Cons s subs)
  then show ?case by (cases s) (simp add: Let_def case_prod_beta)
qed simp

lemma publish_subs [wf_intro]:
  assumes "subs_inv m"
  shows "subs_inv (publishChangeLocked r p n m)"
proof -
  obtain subs h where loop:
    "publish_loop (allTargetsTerminalLocked m) (op_ID r) (change_event r p n) (m_subscriptions m) (m_sheap m) = (subs, h)"
    by fastforce
  have "distinct (keys subs)"
    using publish_loop_filter [of "allTargetsTerminalLocked m" "op_ID r" "change_event r p n" "m_subscriptions m" "m_sheap m"]
      assms by (simp add: loop subs_inv_def distinct_keys_filter)
  with publish_loop_refs [OF loop, of "[]"] assms show ?thesis
    by (simp add: subs_inv_def publishChangeLocked_def loop)
qed

lemma subs_inv_cong:
  "m_subscriptions m' = m_subscriptions m \<Longrightarrow> m_sheap m' = m_sheap m \<Longrightarrow> subs_inv m' = subs_inv m"
  by (simp add: subs_inv_def)

lemma delete_subs_refs:
  assumes "subs_inv m" "map_of (m_subscriptions m) i = Some s"
  shows "open_refs (close_at (sub_ch s) (m_sheap m)) (sub_refs (AList.delete i (m_subscriptions m))) \<and>
         \<not> panicked (close_at (sub_ch s) (m_sheap m))"
proof -
  have eq: "mset (sub_refs (m_subscriptions m)) = mset (sub_ch s # sub_refs (AList.delete i (m_subscriptions m)))"
    using assms by (simp add: subs_inv_def sub_refs_delete)
  have "open_refs (m_sheap m) (sub_ch s # sub_refs (AList.delete i (m_subscriptions m)))"
    using assms(1) unfolding subs_inv_def open_refs_mset [OF eq] by blast
  from close_refs [OF this] assms(1) show ?thesis by (simp add: subs_inv_def)
qed

section \<open>Updates of a record\<close>

lemma rec_digest_frame [simp]:
  "rec_digest env (r\<lparr>op_UpdatedAt := t\<rparr>) = rec_digest env r"
  "rec_digest env (r\<lparr>op_changeDigest := d\<rparr>) = rec_digest env r"
  "rec_digest env (r\<lparr>op_terminalPayload := p\<rparr>) = rec_digest env r"
  "rec_digest env (r\<lparr>op_LastSignaledPercent := pc\<rparr>) = rec_digest env r"
  "rec_digest env (r\<lparr>op_LastPayloadChangeAt := t\<rparr>) = rec_digest env r"
  "rec_digest env (r\<lparr>op_pendingChange := b\<rparr>) = rec_digest env r"
  "rec_digest env (r\<lparr>op_PollFailures := i\<rparr>) = rec_digest env r"
  "rec_digest env (r\<lparr>op_Error := e\<rparr>) = rec_digest env r"
  "rec_digest env (r\<lparr>op_ToolCallID := e\<rparr>) = rec_digest env r"
  "rec_digest env (r\<lparr>op_ToolMessageID := e\<rparr>) = rec_digest env r"
  "rec_digest env (r\<lparr>op_ToolName := e\<rparr>) = rec_digest env r"
  by (simp_all add: rec_digest_def)

lemma rec_key_UpdatedAt [simp]: "rec_key (r\<lparr>op_UpdatedAt := t\<rparr>) = rec_key r"
  by (simp add: rec_key_def)

lemma Terminal_cong: "op_State r' = op_State r \<Longrightarrow> Terminal r' = Terminal r"
  by (simp add: Terminal_def)

lemma payload_ok_cong:
  "op_State r' = op_State r \<Longrightarrow> op_terminalPayload r' = op_terminalPayload r \<Longrightarrow> payload_ok r' = payload_ok r"
  by (simp add: payload_ok_def Terminal_def)

lemma payload_ok_new [simp]:
  "payload_ok (r\<lparr>op_terminalPayload := Some (newTerminalPayload (op_State r) s msg k pc kd e)\<rparr>)"
  unfolding payload_ok_def
  using newTerminalPayload_state [of r s msg k pc kd e] by (auto simp: Terminal_def)

lemmas upd_defs = upd_status_def upd_message_def upd_messageKind_def upd_percent_def upd_keyData_def
  upd_error_def upd_state_def Let_def

text \<open>What the assignments leave alone, and that a pair whose flag stays down is unchanged.\<close>

definition upd_keeps :: "OperationRecord \<times> bool \<Rightarrow> OperationRecord \<times> bool \<Rightarrow> bool" where
  "upd_keeps rc rc' \<longleftrightarrow> op_ID (fst rc') = op_ID (fst rc) \<and> rec_key (fst rc') = rec_key (fst rc) \<and>
     op_terminalPayload (fst rc') = op_terminalPayload (fst rc) \<and>
     op_changeDigest (fst rc') = op_changeDigest (fst rc) \<and>
     op_ExecutionMode (fst rc') = op_ExecutionMode (fst rc) \<and> (snd rc' \<or> rc' = rc)"

lemma upd_keeps_refl: "upd_keeps rc rc"
  by (simp add: upd_keeps_def)

lemma upd_keeps_trans: "upd_keeps a b \<Longrightarrow> upd_keeps b c \<Longrightarrow> upd_keeps a c"
  by (auto simp: upd_keeps_def)

lemma upd_steps:
  "upd_keeps rc (upd_status i rc)" "upd_keeps rc (upd_message i rc)" "upd_keeps rc (upd_messageKind i rc)"
  "upd_keeps rc (upd_percent i rc)" "upd_keeps rc (upd_keyData i rc)" "upd_keeps rc (upd_error i rc)"
  "upd_keeps rc (upd_state i rc)"
  by (simp_all add: upd_defs upd_keeps_def rec_key_def)

lemma update_fields_keeps: "upd_keeps (r, False) (update_fields input r)"
  unfolding update_fields_def by (meson upd_steps upd_keeps_trans)

lemma update_fields_frame:
  assumes "update_fields input r = (r', c)"
  shows "op_ID r' = op_ID r" "rec_key r' = rec_key r" "op_terminalPayload r' = op_terminalPayload r"
    "op_changeDigest r' = op_changeDigest r" "op_ExecutionMode r' = op_ExecutionMode r"
  using update_fields_keeps [of r input] by (simp_all add: assms upd_keeps_def)

text \<open>A call that reports no change has left the record as it was.\<close>

lemma update_fields_unchanged: "update_fields input r = (r', False) \<Longrightarrow> r' = r"
  using update_fields_keeps [of r input] by (simp add: upd_keeps_def)

lemma update_terminal_frame [simp]:
  "op_ID (update_terminal i w c r) = op_ID r" "rec_key (update_terminal i w c r) = rec_key r"
  "op_changeDigest (update_terminal i w c r) = op_changeDigest r"
  "op_State (update_terminal i w c r) = op_State r"
  "rec_digest env (update_terminal i w c r) = rec_digest env r"
  by (simp_all add: update_terminal_def Let_def rec_key_def)

lemma update_terminal_ok:
  assumes "w \<Longrightarrow> \<not> c \<Longrightarrow> payload_ok r"
  shows "payload_ok (update_terminal i w c r)"
proof (cases "Terminal r \<and> (\<not> w \<or> c \<or> op_terminalPayload r = None)")
  case True
  then show ?thesis by (simp add: update_terminal_def Let_def)
next
  case False
  with assms show ?thesis by (auto simp: update_terminal_def payload_ok_def)
qed

lemma update_signal_frame:
  assumes "update_signal env pc r = (b, r')"
  shows "op_ID r' = op_ID r" "rec_digest env r' = rec_digest env r" "op_State r' = op_State r"
    "op_terminalPayload r' = op_terminalPayload r" "op_changeDigest r' = op_changeDigest r" "rec_key r' = rec_key r"
    "\<not> b \<Longrightarrow> op_changeDigest r = rec_digest env r"
  using assms by (auto simp: update_signal_def rec_key_def split: if_splits)

lemma mark_signalled_frame [simp]:
  "op_ID (mark_signalled env r) = op_ID r" "op_changeDigest (mark_signalled env r) = rec_digest env r"
  "rec_digest env (mark_signalled env r) = rec_digest env r" "op_State (mark_signalled env r) = op_State r"
  "op_terminalPayload (mark_signalled env r) = op_terminalPayload r" "op_pendingChange (mark_signalled env r)"
  "rec_key (mark_signalled env r) = rec_key r"
  by (simp_all add: mark_signalled_def Let_def rec_key_def)

section \<open>Operation records\<close>

lemma put_op_frame [simp]:
  "m_ops (put_op k r m) = AList.update k r (m_ops m)" "m_pollers (put_op k r m) = m_pollers m"
  "m_pollerCancels (put_op k r m) = m_pollerCancels m" "m_pollerWG (put_op k r m) = m_pollerWG m"
  "m_waiters (put_op k r m) = m_waiters m" "m_wheap (put_op k r m) = m_wheap m"
  "m_subscriptions (put_op k r m) = m_subscriptions m" "m_sheap (put_op k r m) = m_sheap m"
  "m_closed (put_op k r m) = m_closed m" "m_gcCancels (put_op k r m) = m_gcCancels m"
  "m_gcDone (put_op k r m) = m_gcDone m"
  by (simp_all add: put_op_def)

lemma count_register_frame [simp]:
  "m_ops (count_register x m) = m_ops m" "m_pollers (count_register x m) = m_pollers m"
  "m_pollerCancels (count_register x m) = m_pollerCancels m" "m_pollerWG (count_register x m) = m_pollerWG m"
  "m_waiters (count_register x m) = m_waiters m" "m_wheap (count_register x m) = m_wheap m"
  "m_subscriptions (count_register x m) = m_subscriptions m" "m_sheap (count_register x m) = m_sheap m"
  "m_closed (count_register x m) = m_closed m" "m_gcCancels (count_register x m) = m_gcCancels m"
  "m_gcDone (count_register x m) = m_gcDone m"
  by (simp_all add: count_register_def Let_def)

lemma put_ops [wf_intro]:
  "ops_inv env m \<Longrightarrow> op_ID r = k \<Longrightarrow> TrimSpace k = k \<Longrightarrow> rec_inv env r \<Longrightarrow> ops_inv env (put_op k r m)"
  by (auto simp: ops_inv_def distinct_keys_update alist_update split: if_splits)

lemma ops_inv_get: "ops_inv env m \<Longrightarrow> map_of (m_ops m) k = Some r \<Longrightarrow> op_ID r = k \<and> rec_inv env r"
  by (simp add: ops_inv_def)

lemma ops_inv_cong: "m_ops m' = m_ops m \<Longrightarrow> ops_inv env m' = ops_inv env m"
  by (simp add: ops_inv_def)

lemma register_terminal_frame [simp]:
  "op_ID (register_terminal i r) = op_ID r" "op_State (register_terminal i r) = op_State r"
  "rec_key (register_terminal i r) = rec_key r" "rec_digest env (register_terminal i r) = rec_digest env r"
  "op_pendingChange (register_terminal i r) = op_pendingChange r"
  by (simp_all add: register_terminal_def rec_key_def)

lemma register_terminal_ok [simp]: "payload_ok (register_terminal i r)"
  by (cases "Terminal r") (simp_all add: register_terminal_def, simp add: payload_ok_def)

lemma new_record_ID [simp]: "op_ID (new_record env owner now input) = TrimSpace (ri_ID input)"
  by (simp add: new_record_def)

lemma registered_record_inv: "op_ID (registered_record env owner now input) = TrimSpace (ri_ID input)"
  "rec_inv env (registered_record env owner now input)"
proof -
  define r1 where "r1 = (new_record env owner now input)\<lparr>op_State := DeriveState (op_Status (new_record env owner now input)) (ri_Error input) []\<rparr>"
  let ?r2 = "register_terminal input r1"
  have eq: "registered_record env owner now input = ?r2\<lparr>op_changeDigest := rec_digest env ?r2\<rparr>"
    by (simp add: registered_record_def Let_def r1_def)
  show "op_ID (registered_record env owner now input) = TrimSpace (ri_ID input)" by (simp add: eq r1_def)
  show "rec_inv env (registered_record env owner now input)"
    unfolding eq using payload_ok_cong [of "?r2\<lparr>op_changeDigest := rec_digest env ?r2\<rparr>" ?r2]
    by (simp add: rec_inv_def)
qed

text \<open>
  What \<open>Update\<close> makes of the record of the operation: the record it stores, whether it reports a
  change and whether it signals.
\<close>

definition updated_record ::
  "async_env \<Rightarrow> gotime \<Rightarrow> UpdateInput \<Rightarrow> OperationRecord \<Rightarrow> OperationRecord \<times> bool \<times> bool" where
  "updated_record env now input r =
     (case update_fields input r of (r1, c) \<Rightarrow>
        let r2 = (update_terminal input (Terminal r) c r1)\<lparr>op_UpdatedAt := now\<rparr> in
        if \<not> c then (r2, False, False)
        else case update_signal env (percent_changed input r) r2 of
          (b, r3) \<Rightarrow> if \<not> b then (r3, True, False) else (mark_signalled env r3, True, True))"

definition count_update :: "bool \<Rightarrow> Manager \<Rightarrow> Manager" where
  "count_update changed m =
     (let m1 = m\<lparr>m_updateCount := m_updateCount m + 1\<rparr>
      in if changed then m1\<lparr>m_updateChangedCount := m_updateChangedCount m1 + 1\<rparr> else m1)"

lemma count_update_frame [simp]:
  "m_ops (count_update x m) = m_ops m" "m_pollers (count_update x m) = m_pollers m"
  "m_pollerCancels (count_update x m) = m_pollerCancels m" "m_pollerWG (count_update x m) = m_pollerWG m"
  "m_waiters (count_update x m) = m_waiters m" "m_wheap (count_update x m) = m_wheap m"
  "m_subscriptions (count_update x m) = m_subscriptions m" "m_sheap (count_update x m) = m_sheap m"
  "m_closed (count_update x m) = m_closed m" "m_gcCancels (count_update x m) = m_gcCancels m"
  "m_gcDone (count_update x m) = m_gcDone m"
  by (simp_all add: count_update_def Let_def)

lemma updated_record_inv:
  assumes "rec_inv env r" "updated_record env now input r = (r', c, b)"
  shows "op_ID r' = op_ID r" "rec_key r' = rec_key r" "rec_inv env r'" "b \<Longrightarrow> c"
proof -
  obtain r1 c1 where f: "update_fields input r = (r1, c1)" by fastforce
  define r2 where "r2 = (update_terminal input (Terminal r) c1 r1)\<lparr>op_UpdatedAt := now\<rparr>"
  obtain b3 r3 where g: "update_signal env (percent_changed input r) r2 = (b3, r3)" by fastforce
  note fr = update_fields_frame [OF f] and sf = update_signal_frame [OF g]
  have same: "\<not> c1 \<Longrightarrow> r1 = r" using update_fields_unchanged [of input r r1] f by simp
  have "payload_ok (update_terminal input (Terminal r) c1 r1)"
    using assms(1) same by (intro update_terminal_ok) (auto simp: rec_inv_def)
  then have ok: "payload_ok r2" unfolding r2_def payload_ok_def Terminal_def by simp
  then have ok3: "payload_ok r3" "payload_ok (mark_signalled env r3)"
    using payload_ok_cong [of r3 r2] payload_ok_cong [of "mark_signalled env r3" r3] sf by simp_all
  have ids: "op_ID r2 = op_ID r" "rec_key r2 = rec_key r" using fr by (simp_all add: r2_def)
  have eq: "(r', c, b) = (if \<not> c1 then (r2, False, False) else if \<not> b3 then (r3, True, False)
      else (mark_signalled env r3, True, True))"
    using assms(2) g by (auto simp: updated_record_def f r2_def [symmetric] split: if_splits)
  have "\<not> c1 \<Longrightarrow> rec_inv env r2" using assms(1) same ok by (simp add: rec_inv_def r2_def)
  moreover have "\<not> b3 \<Longrightarrow> rec_inv env r3" using sf ok3 by (simp add: rec_inv_def)
  moreover have "rec_inv env (mark_signalled env r3)" using ok3 by (simp add: rec_inv_def)
  ultimately show "op_ID r' = op_ID r" "rec_key r' = rec_key r" "rec_inv env r'" "b \<Longrightarrow> c"
    using eq ids sf by (auto split: if_splits)
qed

text \<open>\<open>Update\<close> in terms of the record it makes.\<close>

lemma Update_eq:
  assumes "map_of (m_ops m) (TrimSpace (ui_ID input)) = Some r" "rec_inv env r"
    and "updated_record env now input r = (r', c, b)"
  shows "Update env now input m = ((Some r', c),
    (let m1 = put_op (TrimSpace (ui_ID input)) r' (count_update c m)
     in if b then publishChangeLocked r' (op_changeDigest r) (rec_digest env r') (signalLocked (rec_key r') m1) else m1))"
proof -
  obtain r1 c1 where f: "update_fields input r = (r1, c1)" by fastforce
  define r2 where "r2 = (update_terminal input (Terminal r) c1 r1)\<lparr>op_UpdatedAt := now\<rparr>"
  obtain b3 r3 where g: "update_signal env (percent_changed input r) r2 = (b3, r3)" by fastforce
  note sf = update_signal_frame [OF g]
  have d: "op_changeDigest r3 = op_changeDigest r"
    using sf update_fields_frame [OF f] by (simp add: r2_def)
  have eq: "(r', c, b) = (if \<not> c1 then (r2, False, False) else if \<not> b3 then (r3, True, False)
      else (mark_signalled env r3, True, True))"
    using assms(3) g by (auto simp: updated_record_def f r2_def [symmetric] split: if_splits)
  have "Update env now input m =
     (let put = put_op (TrimSpace (ui_ID input)) in
      if \<not> c1 then ((Some r2, False), put r2 (count_update False m))
      else if \<not> b3 then ((Some r3, True), put r3 (count_update True m))
      else ((Some (mark_signalled env r3), True),
            publishChangeLocked (mark_signalled env r3) (op_changeDigest r3) (rec_digest env r3)
              (signalLocked (rec_key (mark_signalled env r3)) (put (mark_signalled env r3) (count_update True m)))))"
    using g by (cases c1) (simp_all add: Update_def assms(1) f r2_def count_update_def Let_def)
  with eq d show ?thesis by (auto simp: Let_def split: if_splits)
qed

lemma Update_missing: "map_of (m_ops m) (TrimSpace (ui_ID input)) = None \<Longrightarrow> Update env now input m = ((None, False), m)"
  by (simp add: Update_def)

lemma poll_failed_once_inv:
  "op_ID (poll_failed_once now e r) = op_ID r" "rec_inv env (poll_failed_once now e r) = rec_inv env r"
  using payload_ok_cong [of "poll_failed_once now e r" r]
  by (simp_all add: rec_inv_def poll_failed_once_def)

lemma poll_failed_for_good_inv:
  "op_ID (poll_failed_for_good env r) = op_ID r" "rec_inv env (poll_failed_for_good env r)"
proof -
  define r2 where "r2 = r\<lparr>op_State := StateFailed, op_Status := ''failed''\<rparr>"
  define r3 where "r3 = r2\<lparr>op_terminalPayload := Some (newTerminalPayload (op_State r2) (op_Status r2) [] [] None [] (op_Error r2))\<rparr>"
  have eq: "poll_failed_for_good env r = r3\<lparr>op_pendingChange := True, op_changeDigest := rec_digest env r3\<rparr>"
    by (simp add: poll_failed_for_good_def Let_def r3_def r2_def)
  have "payload_ok r3" unfolding r3_def by simp
  then show "rec_inv env (poll_failed_for_good env r)"
    unfolding eq using payload_ok_cong [of "r3\<lparr>op_pendingChange := True, op_changeDigest := rec_digest env r3\<rparr>" r3]
    by (simp add: rec_inv_def)
  show "op_ID (poll_failed_for_good env r) = op_ID r" by (simp add: eq r3_def r2_def)
qed

lemma RecordPollFailure_ops:
  assumes "ops_inv env m"
  shows "ops_inv env (snd (RecordPollFailure env now opid errMsg transient m))"
proof (cases "map_of (m_ops m) (TrimSpace opid)")
  case (Some r)
  note old = ops_inv_get [OF assms Some]
  let ?r1 = "poll_failed_once now errMsg r"
  have "ops_inv env (put_op (TrimSpace opid) ?r1 m)" "ops_inv env (put_op (TrimSpace opid) (poll_failed_for_good env ?r1) m)"
    using old by (auto intro!: put_ops [OF assms] simp: poll_failed_once_inv poll_failed_for_good_inv)
  then show ?thesis
    by (simp add: RecordPollFailure_def Let_def Some ops_inv_cong [OF signalLocked_frame(1)])
qed (use assms in \<open>simp add: RecordPollFailure_def\<close>)

lemma poll_failures_reset_inv:
  "op_ID (poll_failures_reset now r) = op_ID r" "rec_inv env (poll_failures_reset now r) = rec_inv env r"
  using payload_ok_cong [of "poll_failures_reset now r" r]
  by (simp_all add: rec_inv_def poll_failures_reset_def)

lemma ResetPollFailures_ops:
  assumes "ops_inv env m"
  shows "ops_inv env (snd (ResetPollFailures now opid m))"
proof (cases "map_of (m_ops m) (TrimSpace opid)")
  case (Some r)
  have "ops_inv env (put_op (TrimSpace opid) (poll_failures_reset now r) m)"
    using ops_inv_get [OF assms Some] by (auto intro!: put_ops [OF assms] simp: poll_failures_reset_inv)
  with assms show ?thesis by (simp add: ResetPollFailures_def Let_def Some)
qed (use assms in \<open>simp add: ResetPollFailures_def\<close>)

text \<open>Binding a carrier writes three identity fields, which the invariant does not read.\<close>

lemma bind_carrier_inv:
  assumes "bind_carrier a b c r = (r', ch)"
  shows "op_ID r' = op_ID r" "rec_inv env r' = rec_inv env r"
proof -
  obtain x y z where r': "r' = r\<lparr>op_ToolCallID := x, op_ToolMessageID := y, op_ToolName := z\<rparr>"
    using assms by (auto simp: bind_carrier_def split: prod.splits)
  show "op_ID r' = op_ID r" by (simp add: r')
  show "rec_inv env r' = rec_inv env r"
    using payload_ok_cong [of r' r] by (simp add: r' rec_inv_def)
qed

lemma BindToolCarrier_ops:
  assumes "ops_inv env m"
  shows "ops_inv env (snd (BindToolCarrier opid a b c m))"
proof (cases "map_of (m_ops m) (TrimSpace opid)")
  case (Some r)
  obtain r' ch where eq: "bind_carrier a b c r = (r', ch)" by fastforce
  have "ops_inv env (put_op (TrimSpace opid) r' m)"
    using ops_inv_get [OF assms Some] by (auto intro!: put_ops [OF assms] simp: bind_carrier_inv [OF eq])
  then show ?thesis by (simp add: BindToolCarrier_def Some eq)
qed (use assms in \<open>simp add: BindToolCarrier_def\<close>)

lemma consume_change_inv:
  "op_ID (consume_change k r) = op_ID r" "rec_inv env (consume_change k r) = rec_inv env r"
  using payload_ok_cong [of "consume_change k r" r]
  by (simp_all add: rec_inv_def consume_change_def)

lemma ConsumeChanged_ops:
  assumes "ops_inv env m"
  shows "ops_inv env (snd (ConsumeChanged convID turnID m))"
proof -
  let ?f = "consume_change (turnKey convID turnID)"
  have keys: "keys (m_ops (snd (ConsumeChanged convID turnID m))) = keys (m_ops m)"
    by (simp add: ConsumeChanged_def Let_def case_prod_beta comp_def)
  have look: "map_of (m_ops (snd (ConsumeChanged convID turnID m))) k = map_option ?f (map_of (m_ops m) k)" for k
    by (simp add: ConsumeChanged_def Let_def map_of_map [where f = ?f, unfolded comp_def])
  show ?thesis
    using assms unfolding ops_inv_def keys look by (auto simp: consume_change_inv)
qed

end
