(* ===== verification/AsyncSystem.thy ===== *)
theory AsyncSystem
  imports AsyncInvariant
begin

text \<open>
  The async operation manager as a transition system: any goroutine may run any operation at any
  time. Every operation keeps the invariant of \<open>AsyncInvariant\<close>, so it holds in every reachable
  state; that no channel operation ever panics is part of it.
\<close>

section \<open>Steps\<close>

inductive mgr_step :: "async_env \<Rightarrow> Manager \<Rightarrow> Manager \<Rightarrow> bool" for env :: async_env where
  step_Register: "mgr_step env m (snd (Register env owner now input m))"
| step_Update: "mgr_step env m (snd (Update env now uinput m))"
| step_BindToolCarrier: "mgr_step env m (snd (BindToolCarrier opid a b c m))"
| step_RecordPollFailure: "mgr_step env m (snd (RecordPollFailure env now opid errMsg transient m))"
| step_ResetPollFailures: "mgr_step env m (snd (ResetPollFailures now opid m))"
| step_ConsumeChanged: "mgr_step env m (snd (ConsumeChanged convID turnID m))"
| step_AdmitPoller: "mgr_step env m (snd (AdmitPoller opid cancel m))"
| step_TryStartPoller: "mgr_step env m (snd (TryStartPoller opid m))"
| step_FinishPoller: "mgr_step env m (FinishPoller opid m)"
| step_StorePollerCancel: "mgr_step env m (StorePollerCancel opid cancel m)"
| step_CancelTurnPollers: "mgr_step env m (CancelTurnPollers convID turnID m)"
| step_SignalTurn: "mgr_step env m (snd (SignalTurn convID turnID m))"
| step_Wait: "mgr_step env m (snd (WaitForChangeSince_begin convID turnID v m))"
| step_WaitRecv: "mgr_step env m (snd (WaitForChangeSince_recv ch m))"
| step_WaitCtxDone: "mgr_step env m (snd (WaitForChangeSince_ctxDone ch m))"
| step_WaitLeave: "mgr_step env m (WaitForChangeSince_leave convID turnID ch m)"
| step_Subscribe: "mgr_step env m (snd (Subscribe opIDs m))"
| step_SubRecv: "recv ch (m_sheap m) = (r, h) \<Longrightarrow> mgr_step env m (m\<lparr>m_sheap := h\<rparr>)"
| step_Unsubscribe: "mgr_step env m (Unsubscribe subID m)"
| step_AwaitSubscribe: "mgr_step env m (snd (AwaitTerminal_subscribe opIDs m))"
| step_AwaitStep: "mgr_step env m (snd (AwaitTerminal_step now clk opIDs e st m))"
| step_Sweep: "mgr_step env m (snd (Sweep env now maxAge m))"
| step_StartGC: "mgr_step env m (snd (StartGC ctxNil cancelID finish interval maxAge m))"
| step_gc_exit: "mgr_step env m (gc_exit cancelID finish m)"
| step_Close: "mgr_step env m (snd (Close m))"

section \<open>Every operation keeps the invariant\<close>

lemma mgr_inv_init: "mgr_inv env NewManager"
  by (simp add: mgr_inv_def inv_defs NewManager_def empty_heap_def)

text \<open>Operations on the records: the other fields are framed.\<close>

lemma mgr_invI:
  assumes "mgr_inv env m" "ops_inv env m'" "wait_inv m'" "subs_inv m'"
    and "m_pollers m' = m_pollers m" "m_pollerWG m' = m_pollerWG m" "m_pollerCancels m' = m_pollerCancels m"
    and "m_closed m' = m_closed m" "m_gcCancels m' = m_gcCancels m" "m_gcDone m' = m_gcDone m"
  shows "mgr_inv env m'"
  using assms by (simp add: mgr_inv_def poll_inv_def gc_inv_def)

lemma wait_inv_cong: "m_waiters m' = m_waiters m \<Longrightarrow> m_wheap m' = m_wheap m \<Longrightarrow> wait_inv m' = wait_inv m"
  by (simp add: wait_inv_def)

lemma mgr_inv_parts:
  "mgr_inv env m \<Longrightarrow> ops_inv env m" "mgr_inv env m \<Longrightarrow> poll_inv m" "mgr_inv env m \<Longrightarrow> wait_inv m"
  "mgr_inv env m \<Longrightarrow> subs_inv m" "mgr_inv env m \<Longrightarrow> gc_inv m"
  by (simp_all add: mgr_inv_def)

text \<open>An operation that stores records, wakes a turn and publishes.\<close>

lemma mgr_inv_store:
  assumes "mgr_inv env m" "ops_inv env m'"
    and "m_waiters m' = m_waiters m" "m_wheap m' = m_wheap m"
    and "m_subscriptions m' = m_subscriptions m" "m_sheap m' = m_sheap m"
    and "m_pollers m' = m_pollers m" "m_pollerWG m' = m_pollerWG m" "m_pollerCancels m' = m_pollerCancels m"
    and "m_closed m' = m_closed m" "m_gcCancels m' = m_gcCancels m" "m_gcDone m' = m_gcDone m"
  shows "mgr_inv env m'" "mgr_inv env (signalLocked k m')" "mgr_inv env (publishChangeLocked r p n (signalLocked k m'))"
proof -
  have w: "wait_inv m'" and s: "subs_inv m'"
    using assms wait_inv_cong [of m' m] subs_inv_cong [of m' m] by (simp_all add: mgr_inv_def)
  show m': "mgr_inv env m'" using assms w s by (intro mgr_invI [OF assms(1)])
  have ws: "wait_inv (signalLocked k m')" using w by (rule signalLocked_wait)
  have ss: "subs_inv (signalLocked k m')" using s by (simp add: subs_inv_def)
  show sig: "mgr_inv env (signalLocked k m')"
    using assms ws ss by (intro mgr_invI [OF assms(1)]) (simp_all add: ops_inv_def)
  have "wait_inv (publishChangeLocked r p n (signalLocked k m'))" using ws by (simp add: wait_inv_def)
  then show "mgr_inv env (publishChangeLocked r p n (signalLocked k m'))"
    using assms publish_subs [OF ss] by (intro mgr_invI [OF assms(1)]) (simp_all add: ops_inv_def)
qed

lemma Register_inv:
  assumes "mgr_inv env m"
  shows "mgr_inv env (snd (Register env owner now input m))"
proof -
  define r where "r = registered_record env owner now input"
  define m1 where "m1 = put_op (op_ID r) r (count_register (map_of (m_ops m) (TrimSpace (ri_ID input)) \<noteq> None) m)"
  have "rec_inv env r" "TrimSpace (op_ID r) = op_ID r" by (simp_all add: r_def registered_record_inv)
  moreover have "ops_inv env (count_register (map_of (m_ops m) (TrimSpace (ri_ID input)) \<noteq> None) m)"
    using mgr_inv_parts(1) [OF assms] by (simp add: ops_inv_def)
  ultimately have "ops_inv env m1" unfolding m1_def by (intro put_ops) simp_all
  then have "mgr_inv env (signalLocked (rec_key r) m1)"
    by (intro mgr_inv_store(2) [OF assms]) (simp_all add: m1_def)
  then show ?thesis by (simp add: Register_def Let_def r_def m1_def)
qed

lemma Update_inv:
  assumes "mgr_inv env m"
  shows "mgr_inv env (snd (Update env now input m))"
proof (cases "map_of (m_ops m) (TrimSpace (ui_ID input))")
  case None
  with assms show ?thesis by (simp add: Update_missing)
next
  case (Some r)
  obtain r' c b where u: "updated_record env now input r = (r', c, b)" by (metis surj_pair)
  define m1 where "m1 = put_op (TrimSpace (ui_ID input)) r' (count_update c m)"
  note old = ops_inv_get [OF mgr_inv_parts(1) [OF assms] Some]
  note new = updated_record_inv [OF conjunct2 [OF old] u]
  have "ops_inv env (count_update c m)" using mgr_inv_parts(1) [OF assms] by (simp add: ops_inv_def)
  then have "ops_inv env m1" unfolding m1_def using new(1,3) old by (intro put_ops) simp_all
  then have "mgr_inv env m1"
    "mgr_inv env (publishChangeLocked r' (op_changeDigest r) (rec_digest env r') (signalLocked (rec_key r') m1))"
    by (intro mgr_inv_store [OF assms]; simp add: m1_def)+
  then show ?thesis
    unfolding Update_eq [OF Some conjunct2 [OF old] u] by (simp add: Let_def m1_def)
qed

text \<open>The frames of the remaining record operations.\<close>

lemma RecordPollFailure_inv:
  assumes "mgr_inv env m"
  shows "mgr_inv env (snd (RecordPollFailure env now opid errMsg transient m))"
proof (cases "map_of (m_ops m) (TrimSpace opid)")
  case (Some r)
  note old = ops_inv_get [OF mgr_inv_parts(1) [OF assms] Some]
  let ?r1 = "poll_failed_once now errMsg r"
  let ?r4 = "poll_failed_for_good env ?r1"
  have "ops_inv env (put_op (TrimSpace opid) ?r1 m)" "ops_inv env (put_op (TrimSpace opid) ?r4 m)"
    using old by (auto intro!: put_ops [OF mgr_inv_parts(1) [OF assms]]
      simp: poll_failed_once_inv poll_failed_for_good_inv)
  then have "mgr_inv env (put_op (TrimSpace opid) ?r1 m)"
    "mgr_inv env (signalLocked (rec_key ?r4) (put_op (TrimSpace opid) ?r4 m))"
    by (intro mgr_inv_store(1,2) [OF assms]; simp)+
  then show ?thesis by (simp add: RecordPollFailure_def Let_def Some)
qed (use assms in \<open>simp add: RecordPollFailure_def\<close>)

lemma ResetPollFailures_inv:
  assumes "mgr_inv env m"
  shows "mgr_inv env (snd (ResetPollFailures now opid m))"
  using ResetPollFailures_ops [OF mgr_inv_parts(1) [OF assms]]
  by (intro mgr_inv_store(1) [OF assms])
    (simp_all add: ResetPollFailures_def Let_def split: option.splits)

lemma BindToolCarrier_inv:
  assumes "mgr_inv env m"
  shows "mgr_inv env (snd (BindToolCarrier opid a b c m))"
  using BindToolCarrier_ops [OF mgr_inv_parts(1) [OF assms]]
  by (intro mgr_inv_store(1) [OF assms])
    (simp_all add: BindToolCarrier_def case_prod_beta split: option.splits)

lemma ConsumeChanged_inv:
  assumes "mgr_inv env m"
  shows "mgr_inv env (snd (ConsumeChanged convID turnID m))"
  using ConsumeChanged_ops [OF mgr_inv_parts(1) [OF assms]]
  by (intro mgr_inv_store(1) [OF assms]) (simp_all add: ConsumeChanged_def Let_def)

text \<open>Operations on the pollers leave the records and the channels alone.\<close>

lemma mgr_inv_pollers:
  assumes "mgr_inv env m" "poll_inv m'" "m_ops m' = m_ops m"
    and "m_waiters m' = m_waiters m" "m_wheap m' = m_wheap m"
    and "m_subscriptions m' = m_subscriptions m" "m_sheap m' = m_sheap m"
    and "m_closed m' = m_closed m" "m_gcCancels m' = m_gcCancels m" "m_gcDone m' = m_gcDone m"
  shows "mgr_inv env m'"
  using assms wait_inv_cong [of m' m] subs_inv_cong [of m' m] ops_inv_cong [of m' m]
  by (simp add: mgr_inv_def gc_inv_def)

lemma AdmitPoller_inv:
  assumes "mgr_inv env m"
  shows "mgr_inv env (snd (AdmitPoller opid cancel m))"
  using mgr_inv_parts(2) [OF assms]
  by (intro mgr_inv_pollers [OF assms])
    (simp_all add: AdmitPoller_def Let_def poll_inv_def distinct_keys_update split: option.splits)

lemma TryStartPoller_inv:
  assumes "mgr_inv env m"
  shows "mgr_inv env (snd (TryStartPoller opid m))"
  using mgr_inv_parts(2) [OF assms]
  by (intro mgr_inv_pollers [OF assms]) (simp_all add: TryStartPoller_def Let_def poll_inv_def)

lemma length_removeAll_distinct: "distinct xs \<Longrightarrow> x \<in> set xs \<Longrightarrow> int (length (removeAll x xs)) = int (length xs) - 1"
  by (induction xs) auto

lemma FinishPoller_inv:
  assumes "mgr_inv env m"
  shows "mgr_inv env (FinishPoller opid m)"
  using mgr_inv_parts(2) [OF assms]
  by (intro mgr_inv_pollers [OF assms])
    (simp_all add: FinishPoller_def Let_def poll_inv_def distinct_keys_delete distinct_removeAll length_removeAll_distinct)

lemma StorePollerCancel_inv:
  assumes "mgr_inv env m"
  shows "mgr_inv env (StorePollerCancel opid cancel m)"
  using mgr_inv_parts(2) [OF assms]
  by (intro mgr_inv_pollers [OF assms])
    (simp_all add: StorePollerCancel_def poll_inv_def distinct_keys_update split: option.splits)

lemma fire_cancel_inv: "mgr_inv env m \<Longrightarrow> mgr_inv env (fire_cancel opid m)"
  by (rule mgr_inv_pollers) (simp_all add: mgr_inv_def poll_inv_def)

lemma CancelTurnPollers_inv:
  assumes "mgr_inv env m"
  shows "mgr_inv env (CancelTurnPollers convID turnID m)"
proof -
  have "mgr_inv env (fold (\<lambda>r. fire_cancel (op_ID r)) rs m)" for rs
    using assms by (induction rs arbitrary: m) (simp_all add: fire_cancel_inv)
  then show ?thesis by (simp add: CancelTurnPollers_def)
qed

text \<open>Operations on the waiters of a turn.\<close>

lemma SignalTurn_inv:
  assumes "mgr_inv env m"
  shows "mgr_inv env (snd (SignalTurn convID turnID m))"
proof -
  have "mgr_inv env (signalLocked k (m\<lparr>m_turnSignals := s\<rparr>))" for k s
    using mgr_inv_parts(1) [OF assms] by (intro mgr_inv_store(2) [OF assms]) (simp_all add: ops_inv_def)
  with assms show ?thesis by (simp add: SignalTurn_def Let_def)
qed

lemma mgr_inv_waiters:
  assumes "mgr_inv env m" "wait_inv m'" "m_ops m' = m_ops m" "m_pollers m' = m_pollers m"
    and "m_pollerWG m' = m_pollerWG m" "m_pollerCancels m' = m_pollerCancels m"
    and "m_subscriptions m' = m_subscriptions m" "m_sheap m' = m_sheap m"
    and "m_closed m' = m_closed m" "m_gcCancels m' = m_gcCancels m" "m_gcDone m' = m_gcDone m"
  shows "mgr_inv env m'"
  using assms subs_inv_cong [of m' m] ops_inv_cong [of m' m]
  by (simp add: mgr_inv_def gc_inv_def poll_inv_def)

lemma Wait_inv:
  assumes "mgr_inv env m"
  shows "mgr_inv env (snd (WaitForChangeSince_begin convID turnID v m))"
proof -
  let ?k = "turnKey convID turnID"
  obtain ch h where new: "new_chan 1 (m_wheap m) = (ch, h)" by fastforce
  note w = mgr_inv_parts(3) [OF assms]
  have "open_refs h (concat (map snd (AList.delete ?k (m_waiters m))) @ waiters_of m ?k @ [ch])"
    using open_refs_new [OF new waiters_of_refs [OF w, of ?k]] by auto
  then have "open_refs h ((waiters_of m ?k @ [ch]) @ concat (map snd (AList.delete ?k (m_waiters m))))"
    by auto
  then have "wait_inv (m\<lparr>m_wheap := h, m_waiters := AList.update ?k (waiters_of m ?k @ [ch]) (m_waiters m)\<rparr>)"
    using w new by (intro update_waiters_refs) (simp_all add: wait_inv_def)
  then have "mgr_inv env (m\<lparr>m_wheap := h, m_waiters := AList.update ?k (waiters_of m ?k @ [ch]) (m_waiters m)\<rparr>)"
    by (rule mgr_inv_waiters [OF assms]) simp_all
  with assms show ?thesis by (simp add: WaitForChangeSince_begin_def Let_def new [unfolded One_nat_def])
qed

lemma wait_recv_inv:
  assumes "mgr_inv env m" "recv ch (m_wheap m) = (r, h)"
  shows "mgr_inv env (m\<lparr>m_wheap := h\<rparr>)"
  using mgr_inv_parts(3) [OF assms(1)] assms(2)
  by (intro mgr_inv_waiters [OF assms(1)]) (simp_all add: wait_inv_def)

lemma WaitRecv_inv: "mgr_inv env m \<Longrightarrow> mgr_inv env (snd (WaitForChangeSince_recv ch m))"
  by (auto simp: WaitForChangeSince_recv_def wait_recv_inv split: prod.splits)

lemma WaitCtxDone_inv:
  assumes "mgr_inv env m"
  shows "mgr_inv env (snd (WaitForChangeSince_ctxDone ch m))" "mgr_inv env (WaitForChangeSince_leave convID turnID ch m)"
proof -
  show "mgr_inv env (snd (WaitForChangeSince_ctxDone ch m))"
    using assms by (auto simp: WaitForChangeSince_ctxDone_def wait_recv_inv split: prod.splits received.splits)
  show "mgr_inv env (WaitForChangeSince_leave convID turnID ch m)"
    unfolding WaitForChangeSince_leave_def using removeWaiterLocked_wait [OF mgr_inv_parts(3) [OF assms]]
    by (intro mgr_inv_waiters [OF assms]) simp_all
qed

text \<open>Operations on the subscriptions.\<close>

lemma mgr_inv_subs:
  assumes "mgr_inv env m" "subs_inv m'" "m_ops m' = m_ops m" "m_pollers m' = m_pollers m"
    and "m_pollerWG m' = m_pollerWG m" "m_pollerCancels m' = m_pollerCancels m"
    and "m_waiters m' = m_waiters m" "m_wheap m' = m_wheap m"
    and "m_closed m' = m_closed m" "m_gcCancels m' = m_gcCancels m" "m_gcDone m' = m_gcDone m"
  shows "mgr_inv env m'"
  using assms wait_inv_cong [of m' m] ops_inv_cong [of m' m]
  by (simp add: mgr_inv_def gc_inv_def poll_inv_def)

lemma SubRecv_inv:
  assumes "mgr_inv env m" "recv ch (m_sheap m) = (r, h)"
  shows "mgr_inv env (m\<lparr>m_sheap := h\<rparr>)"
  using mgr_inv_parts(4) [OF assms(1)] assms(2)
  by (intro mgr_inv_subs [OF assms(1)]) (simp_all add: subs_inv_def)

lemma add_subs_refs:
  assumes "subs_inv m" "new_chan n (m_sheap m) = (ch, h)" "sub_ch s = ch"
  shows "open_refs h (sub_refs (AList.update i s (m_subscriptions m)))"
    "open_refs (close_at ch h) (sub_refs (m_subscriptions m))" "panicked (close_at ch h) = panicked h"
proof -
  have refs: "open_refs h (sub_refs (m_subscriptions m) @ [ch])"
    using assms(1) by (intro open_refs_new [OF assms(2)]) (simp add: subs_inv_def)
  then show "open_refs (close_at ch h) (sub_refs (m_subscriptions m))" "panicked (close_at ch h) = panicked h"
    using close_refs [of h ch "sub_refs (m_subscriptions m)"] by auto
  have eq: "mset (sub_refs (AList.update i s (m_subscriptions m))) = mset (ch # sub_refs (AList.delete i (m_subscriptions m)))"
    using assms by (simp add: subs_inv_def sub_refs_update)
  have "open_refs h (ch # sub_refs (AList.delete i (m_subscriptions m)))"
    using refs sub_refs_delete_subset [of i "m_subscriptions m"]
    by (auto simp: open_refs_def sub_refs_def AList.delete_eq distinct_map_filter)
  then show "open_refs h (sub_refs (AList.update i s (m_subscriptions m)))"
    unfolding open_refs_mset [OF eq] .
qed

lemma Subscribe_inv:
  assumes "mgr_inv env m"
  shows "mgr_inv env (snd (Subscribe opIDs m))"
proof -
  obtain ch h where new: "new_chan 16 (m_sheap m) = (ch, h)" by fastforce
  let ?s = "\<lparr>sub_targets = sub_ids opIDs, sub_ch = ch\<rparr>"
  note s = mgr_inv_parts(4) [OF assms]
  note refs = add_subs_refs [OF s new, of ?s, simplified]
  have "mgr_inv env (m\<lparr>m_sheap := close_at ch h\<rparr>)"
    using s new refs(2,3) by (intro mgr_inv_subs [OF assms]) (simp_all add: subs_inv_def)
  moreover have "mgr_inv env (m\<lparr>m_sheap := h, m_nextSubID := m_nextSubID m + 1,
      m_subscriptions := AList.update (m_nextSubID m + 1) ?s (m_subscriptions m),
      m_subscribeCount := m_subscribeCount m + 1\<rparr>)"
    using s new refs(1) by (intro mgr_inv_subs [OF assms]) (simp_all add: subs_inv_def distinct_keys_update)
  ultimately show ?thesis by (simp add: Subscribe_def new Let_def)
qed

lemma Unsubscribe_inv:
  assumes "mgr_inv env m"
  shows "mgr_inv env (Unsubscribe subID m)"
proof (cases "map_of (m_subscriptions m) subID")
  case (Some s)
  note refs = delete_subs_refs [OF mgr_inv_parts(4) [OF assms] Some]
  have "mgr_inv env (m\<lparr>m_subscriptions := AList.delete subID (m_subscriptions m),
     m_unsubscribeCount := m_unsubscribeCount m + 1, m_sheap := close_at (sub_ch s) (m_sheap m)\<rparr>)"
    using mgr_inv_parts(4) [OF assms] refs
    by (intro mgr_inv_subs [OF assms]) (simp_all add: subs_inv_def distinct_keys_delete)
  with assms Some show ?thesis by (simp add: Unsubscribe_def)
qed (use assms in \<open>simp add: Unsubscribe_def\<close>)

lemma AwaitTerminal_inv:
  assumes "mgr_inv env m"
  shows "mgr_inv env (snd (AwaitTerminal_subscribe opIDs m))"
    "mgr_inv env (snd (AwaitTerminal_step now clk opIDs e st m))"
  using assms Subscribe_inv [OF assms, of opIDs]
  by (auto simp: AwaitTerminal_subscribe_def AwaitTerminal_step_def Unsubscribe_inv
      split: prod.splits await_state.splits await_event.splits option.splits)

text \<open>Garbage collection and shutdown.\<close>

lemma dropOpLocked_inv:
  assumes "mgr_inv env m"
  shows "mgr_inv env (dropOpLocked opid m)"
proof -
  let ?m1 = "drop_cancel opid (m\<lparr>m_ops := AList.delete opid (m_ops m)\<rparr>)"
  have "wait_inv ?m1" using mgr_inv_parts(3) [OF assms] by (simp add: wait_inv_def)
  then have "wait_inv (dropOpLocked opid m)"
    using delete_waiters_refs [of ?m1 opid] by (simp add: dropOpLocked_def Let_def)
  moreover have "ops_inv env (dropOpLocked opid m)"
    using mgr_inv_parts(1) [OF assms]
    by (simp add: dropOpLocked_def Let_def ops_inv_def distinct_keys_delete alist_delete)
  ultimately show ?thesis
    using assms by (simp add: mgr_inv_def dropOpLocked_def Let_def poll_inv_def subs_inv_def gc_inv_def distinct_keys_delete)
qed

lemma sweep_loop_inv: "mgr_inv env m \<Longrightarrow> mgr_inv env (fst (sweep_loop env now maxAge ops m n))"
  by (induction env now maxAge ops m n rule: sweep_loop.induct) (simp_all add: dropOpLocked_inv)

lemma Sweep_inv:
  assumes "mgr_inv env m"
  shows "mgr_inv env (snd (Sweep env now maxAge m))"
proof -
  have "mgr_inv env (m1\<lparr>m_sweepPruneCount := c\<rparr>)" if "mgr_inv env m1" for m1 c
    using that by (simp add: mgr_inv_def inv_defs)
  with assms sweep_loop_inv [OF assms, of now maxAge "m_ops m" 0] show ?thesis
    by (simp add: Sweep_def case_prod_beta)
qed

lemma StartGC_inv:
  assumes "mgr_inv env m"
  shows "mgr_inv env (snd (StartGC ctxNil cancel finish interval maxAge m))" "mgr_inv env (gc_exit cancel finish m)"
  using assms by (simp_all add: StartGC_def gc_exit_def mgr_inv_def inv_defs)

text \<open>Closing the channels one by one; those still open at their turn are all of them.\<close>

lemma close_all_eq:
  "open_refs h is \<Longrightarrow> fold (\<lambda>ch h. if open_at h ch then close_at ch h else h) is h = fold close_at is h"
proof (induction "is" arbitrary: h)
  case (Cons i "is")
  then have "open_refs (close_at i h) is" using close_refs by blast
  with Cons show ?case by simp
qed simp

lemma Close_inv:
  assumes "mgr_inv env m"
  shows "mgr_inv env (snd (Close m))"
proof -
  let ?w = "fold wake (concat (map snd (m_waiters m))) (m_wheap m)"
  let ?s = "fold (\<lambda>ch h. if open_at h ch then close_at ch h else h) (map (sub_ch \<circ> snd) (m_subscriptions m)) (m_sheap m)"
  have "\<not> panicked ?w" using mgr_inv_parts(3) [OF assms] by (simp add: wait_inv_def waking.fold_fin_panicked)
  moreover have "\<not> panicked ?s"
    using mgr_inv_parts(4) [OF assms] by (simp add: subs_inv_def sub_refs_def close_all_eq closing.fold_fin_panicked)
  ultimately show ?thesis using assms by (simp add: Close_def mgr_inv_def inv_defs)
qed

section \<open>Reachable managers\<close>

lemma mgr_step_inv: "mgr_step env m m' \<Longrightarrow> mgr_inv env m \<Longrightarrow> mgr_inv env m'"
  by (induction rule: mgr_step.induct)
    (simp_all add: Register_inv Update_inv BindToolCarrier_inv RecordPollFailure_inv ResetPollFailures_inv
      ConsumeChanged_inv AdmitPoller_inv TryStartPoller_inv FinishPoller_inv StorePollerCancel_inv
      CancelTurnPollers_inv SignalTurn_inv Wait_inv WaitRecv_inv WaitCtxDone_inv Subscribe_inv SubRecv_inv
      Unsubscribe_inv AwaitTerminal_inv Sweep_inv StartGC_inv Close_inv)

interpretation mgr: inv_system "\<lambda>m. m = NewManager" "mgr_step env" "mgr_inv env" for env
  by unfold_locales (auto simp: mgr_inv_init intro: mgr_step_inv)

end
