(* ===== verification/AsyncProps.thy ===== *)
theory AsyncProps
  imports AsyncSystem
begin

text \<open>
  What the async operation manager promises: the safety properties of every reachable state, the
  functional behaviour of the operations on each branch, that waiters are not lost, and what the
  barrier, the garbage collector and the shutdown do.
\<close>

section \<open>A concrete manager\<close>

text \<open>An environment and a manager with one completed and one running operation, on which the
  properties are instantiated.\<close>

definition demo_env :: async_env where
  "demo_env = \<lparr>norm_mode = (\<lambda>mode dflt. if mode = [] then dflt else mode), mode_waits = (\<lambda>mode. mode = ''wait''),
     json_marshal = (\<lambda>v. Some (dv_Status v @ ''/'' @ dv_Message v @ ''/'' @ dv_State v @ ''/'' @ dv_KeyData v)),
     md5_hex = (\<lambda>s. s)\<rparr>"

definition demo_register :: "string \<Rightarrow> string \<Rightarrow> RegisterInput" where
  "demo_register opid status = \<lparr>ri_OriginalRequestArgs = None, ri_ID = opid, ri_ParentConvID = ''c'', ri_ParentTurnID = ''t'',
     ri_ToolCallID = [], ri_ToolMessageID = [], ri_ToolName = ''tool'', ri_StatusToolName = [], ri_StatusOperationIDArg = [],
     ri_SameToolRecall = False, ri_StatusArgs = None, ri_CancelToolName = [], ri_RequestArgsDigest = ''d'', ri_RequestArgs = None,
     ri_OperationIntent = [], ri_OperationSummary = [], ri_ExecutionMode = [], ri_TerminalCarrierBeforeModel = False,
     ri_Status = status, ri_Message = [], ri_MessageKind = [], ri_Percent = None, ri_KeyData = [], ri_Error = [],
     ri_TimeoutMs = 0, ri_IdleTimeoutMs = 0, ri_PollIntervalMs = 0\<rparr>"

definition demo_update :: "string \<Rightarrow> string \<Rightarrow> UpdateInput" where
  "demo_update opid status = \<lparr>ui_ID = opid, ui_Status = status, ui_Message = ''m'', ui_MessageKind = [], ui_Percent = Some 50,
     ui_KeyData = [], ui_Error = [], ui_State = []\<rparr>"

definition demo_mgr :: Manager where
  "demo_mgr = snd (Register demo_env ''u'' 5 (demo_register ''b'' ''running'')
     (snd (Register demo_env ''u'' 5 (demo_register '' a '' ''Done'') NewManager)))"

lemma demo_reachable: "reachable (\<lambda>m. m = NewManager) (mgr_step demo_env) demo_mgr"
  unfolding demo_mgr_def by (rule reach_step, rule reach_step, rule reach_init, rule refl) (rule step_Register)+

section \<open>Every reachable state\<close>

text \<open>C2: no interleaving of the manager's operations ever sends on a closed channel or closes a
  channel twice: in every reachable state neither channel heap has panicked.\<close>

theorem manager_never_panics:
  assumes "reachable (\<lambda>m. m = NewManager) (mgr_step env) m"
  shows "\<not> panicked (m_wheap m) \<and> \<not> panicked (m_sheap m)"
  using mgr.reachable_inv [OF assms] by (simp add: mgr_inv_def wait_inv_def subs_inv_def)

theorem manager_never_panics_witness: "\<not> panicked (m_wheap demo_mgr) \<and> \<not> panicked (m_sheap demo_mgr)"
  by (rule manager_never_panics [OF demo_reachable])

text \<open>In every reachable state an operation has at most one poller and the wait group's counter
  equals the number of pollers, so it is never negative and \<open>Close\<close> waits for each of them.\<close>

theorem pollers_counted:
  assumes "reachable (\<lambda>m. m = NewManager) (mgr_step env) m"
  shows "distinct (m_pollers m) \<and> m_pollerWG m = int (length (m_pollers m)) \<and> m_pollerWG m \<ge> 0"
  using mgr.reachable_inv [OF assms] by (simp add: mgr_inv_def poll_inv_def)

definition demo_polled :: Manager where
  "demo_polled = snd (AdmitPoller ''b'' (Some 1) demo_mgr)"

lemma demo_polled_reachable: "reachable (\<lambda>m. m = NewManager) (mgr_step demo_env) demo_polled"
  unfolding demo_polled_def by (rule reach_step [OF demo_reachable step_AdmitPoller])

text \<open>C28: in every reachable state the record that \<open>Get\<close> returns for a terminal operation carries a
  terminal payload, and the state derived from that payload's status and error is the operation's.\<close>

theorem terminal_payload_consistent:
  assumes "reachable (\<lambda>m. m = NewManager) (mgr_step env) m" "Get opid m = Some r" "Terminal r"
  shows "\<exists>p. TerminalPayload r = Some p \<and> DeriveState (ex_Status p) (ex_Error p) [] = op_State r"
proof -
  obtain r0 where r0: "map_of (m_ops m) (TrimSpace opid) = Some r0" "r = cloneRecord r0"
    using assms(2) by (auto simp: Get_def)
  have "rec_inv env r0"
    using mgr.reachable_inv [OF assms(1)] ops_inv_get [OF _ r0(1)] by (auto simp: mgr_inv_def)
  moreover have "Terminal r0" using assms(3) r0(2) by (simp add: Terminal_def cloneRecord_def)
  ultimately obtain p where "op_terminalPayload r0 = Some p" "DeriveState (ex_Status p) (ex_Error p) [] = op_State r0"
    by (auto simp: rec_inv_def payload_ok_def)
  with assms(3) r0(2) show ?thesis
    by (auto simp: TerminalPayload_def cloneRecord_def cloneExtracted_def)
qed

definition demo_done :: OperationRecord where
  "demo_done = the (Get ''a'' demo_mgr)"

lemma demo_done: "Get ''a'' demo_mgr = Some demo_done" "Terminal demo_done" "op_State demo_done = ''completed''"
  by code_simp+

theorem terminal_payload_consistent_witness:
  "Terminal demo_done \<and> (\<exists>p. TerminalPayload demo_done = Some p \<and> DeriveState (ex_Status p) (ex_Error p) [] = ''completed'')"
  using terminal_payload_consistent [OF demo_reachable demo_done(1,2)] demo_done by simp

section \<open>Registration\<close>

lemma Register_state:
  "snd (Register env owner now input m) =
     (let r = registered_record env owner now input
      in signalLocked (rec_key r) (put_op (op_ID r) r (count_register (map_of (m_ops m) (TrimSpace (ri_ID input)) \<noteq> None) m)))"
  by (simp add: Register_def Let_def)

text \<open>A registered operation is found again under its trimmed id, as the record \<open>Register\<close>
  returned, with its change still to be consumed; every other operation is found as before, and the
  second result tells whether the id was in use.\<close>

theorem Register_Get:
  "Get opid (snd (Register env owner now input m)) =
     (if TrimSpace opid = TrimSpace (ri_ID input)
      then Some (cloneRecord (fst (fst (Register env owner now input m)))) else Get opid m) \<and>
   op_pendingChange (fst (fst (Register env owner now input m))) \<and>
   (snd (fst (Register env owner now input m)) \<longleftrightarrow> Get (ri_ID input) m \<noteq> None)"
proof -
  have "op_pendingChange (registered_record env owner now input)"
    by (simp add: registered_record_def Let_def new_record_def register_terminal_def)
  then show ?thesis
    by (simp add: Get_def Register_def Let_def alist_update registered_record_inv)
qed

section \<open>Updates\<close>

text \<open>Each assignment of \<open>Update\<close> writes its own field and no other.\<close>

lemma upd_status_frame [simp]:
  "op_Message (fst (upd_status i rc)) = op_Message (fst rc)" "op_MessageKind (fst (upd_status i rc)) = op_MessageKind (fst rc)"
  "op_Percent (fst (upd_status i rc)) = op_Percent (fst rc)" "op_KeyData (fst (upd_status i rc)) = op_KeyData (fst rc)"
  "op_Error (fst (upd_status i rc)) = op_Error (fst rc)" "op_State (fst (upd_status i rc)) = op_State (fst rc)"
  by (simp_all add: upd_status_def Let_def)

lemma upd_message_frame [simp]:
  "op_Status (fst (upd_message i rc)) = op_Status (fst rc)" "op_MessageKind (fst (upd_message i rc)) = op_MessageKind (fst rc)"
  "op_Percent (fst (upd_message i rc)) = op_Percent (fst rc)" "op_KeyData (fst (upd_message i rc)) = op_KeyData (fst rc)"
  "op_Error (fst (upd_message i rc)) = op_Error (fst rc)" "op_State (fst (upd_message i rc)) = op_State (fst rc)"
  by (simp_all add: upd_message_def Let_def)

lemma upd_messageKind_frame [simp]:
  "op_Status (fst (upd_messageKind i rc)) = op_Status (fst rc)" "op_Message (fst (upd_messageKind i rc)) = op_Message (fst rc)"
  "op_Percent (fst (upd_messageKind i rc)) = op_Percent (fst rc)" "op_KeyData (fst (upd_messageKind i rc)) = op_KeyData (fst rc)"
  "op_Error (fst (upd_messageKind i rc)) = op_Error (fst rc)" "op_State (fst (upd_messageKind i rc)) = op_State (fst rc)"
  by (simp_all add: upd_messageKind_def Let_def)

lemma upd_percent_frame [simp]:
  "op_Status (fst (upd_percent i rc)) = op_Status (fst rc)" "op_Message (fst (upd_percent i rc)) = op_Message (fst rc)"
  "op_MessageKind (fst (upd_percent i rc)) = op_MessageKind (fst rc)" "op_KeyData (fst (upd_percent i rc)) = op_KeyData (fst rc)"
  "op_Error (fst (upd_percent i rc)) = op_Error (fst rc)" "op_State (fst (upd_percent i rc)) = op_State (fst rc)"
  by (simp_all add: upd_percent_def Let_def)

lemma upd_keyData_frame [simp]:
  "op_Status (fst (upd_keyData i rc)) = op_Status (fst rc)" "op_Message (fst (upd_keyData i rc)) = op_Message (fst rc)"
  "op_MessageKind (fst (upd_keyData i rc)) = op_MessageKind (fst rc)" "op_Percent (fst (upd_keyData i rc)) = op_Percent (fst rc)"
  "op_Error (fst (upd_keyData i rc)) = op_Error (fst rc)" "op_State (fst (upd_keyData i rc)) = op_State (fst rc)"
  by (simp_all add: upd_keyData_def Let_def)

lemma upd_error_frame [simp]:
  "op_Status (fst (upd_error i rc)) = op_Status (fst rc)" "op_Message (fst (upd_error i rc)) = op_Message (fst rc)"
  "op_MessageKind (fst (upd_error i rc)) = op_MessageKind (fst rc)" "op_Percent (fst (upd_error i rc)) = op_Percent (fst rc)"
  "op_KeyData (fst (upd_error i rc)) = op_KeyData (fst rc)" "op_State (fst (upd_error i rc)) = op_State (fst rc)"
  by (simp_all add: upd_error_def Let_def)

lemma upd_state_frame [simp]:
  "op_Status (fst (upd_state i rc)) = op_Status (fst rc)" "op_Message (fst (upd_state i rc)) = op_Message (fst rc)"
  "op_MessageKind (fst (upd_state i rc)) = op_MessageKind (fst rc)" "op_Percent (fst (upd_state i rc)) = op_Percent (fst rc)"
  "op_KeyData (fst (upd_state i rc)) = op_KeyData (fst rc)" "op_Error (fst (upd_state i rc)) = op_Error (fst rc)"
  by (simp_all add: upd_state_def Let_def)

lemma upd_written [simp]:
  "op_Status (fst (upd_status i rc)) = (if TrimSpace (ui_Status i) = [] then op_Status (fst rc) else TrimSpace (ui_Status i))"
  "op_Message (fst (upd_message i rc)) = TrimSpace (ui_Message i)"
  "op_MessageKind (fst (upd_messageKind i rc)) = TrimSpace (ui_MessageKind i)"
  "op_Percent (fst (upd_percent i rc)) = ui_Percent i"
  "op_KeyData (fst (upd_keyData i rc)) = (if ui_KeyData i = [] then op_KeyData (fst rc) else ui_KeyData i)"
  "op_Error (fst (upd_error i rc)) = TrimSpace (ui_Error i)"
  "op_State (fst (upd_state i rc)) = DeriveState (op_Status (fst rc)) (op_Error (fst rc)) (ui_State i)"
  by (auto simp: upd_defs percent_changed_def equalIntPtr_def jsonEqual_def split: option.splits)

lemma upd_idle:
  "TrimSpace (ui_Status i) = [] \<or> op_Status r = TrimSpace (ui_Status i) \<Longrightarrow> upd_status i (r, c) = (r, c)"
  "op_Message r = TrimSpace (ui_Message i) \<Longrightarrow> upd_message i (r, c) = (r, c)"
  "op_MessageKind r = TrimSpace (ui_MessageKind i) \<Longrightarrow> upd_messageKind i (r, c) = (r, c)"
  "op_Percent r = ui_Percent i \<Longrightarrow> upd_percent i (r, c) = (r, c)"
  "ui_KeyData i = [] \<or> op_KeyData r = ui_KeyData i \<Longrightarrow> upd_keyData i (r, c) = (r, c)"
  "op_Error r = TrimSpace (ui_Error i) \<Longrightarrow> upd_error i (r, c) = (r, c)"
  "op_State r = DeriveState (op_Status r) (op_Error r) (ui_State i) \<Longrightarrow> upd_state i (r, c) = (r, c)"
  by (auto simp: upd_defs percent_changed_def equalIntPtr_def jsonEqual_def split: option.splits)

text \<open>A record that agrees with an input on every payload field is left unchanged by it.\<close>

definition agrees :: "UpdateInput \<Rightarrow> OperationRecord \<Rightarrow> bool" where
  "agrees i r \<longleftrightarrow> (TrimSpace (ui_Status i) = [] \<or> op_Status r = TrimSpace (ui_Status i)) \<and>
     op_Message r = TrimSpace (ui_Message i) \<and> op_MessageKind r = TrimSpace (ui_MessageKind i) \<and>
     op_Percent r = ui_Percent i \<and> (ui_KeyData i = [] \<or> op_KeyData r = ui_KeyData i) \<and>
     op_Error r = TrimSpace (ui_Error i) \<and> op_State r = DeriveState (op_Status r) (op_Error r) (ui_State i)"

lemma update_fields_agrees: "agrees i (fst (update_fields i r))"
  by (simp add: agrees_def update_fields_def)

lemma agrees_stable: "agrees i r \<Longrightarrow> update_fields i r = (r, False)"
  by (simp add: agrees_def update_fields_def upd_idle)

text \<open>The fields that \<open>agrees\<close> reads survive the rest of \<open>Update\<close>.\<close>

lemma agrees_frame [simp]:
  "agrees i (update_terminal j w c r) = agrees i r" "agrees i (mark_signalled env r) = agrees i r"
  "agrees i (r\<lparr>op_UpdatedAt := t\<rparr>) = agrees i r" "agrees i (r\<lparr>op_LastSignaledPercent := pc\<rparr>) = agrees i r"
  by (simp_all add: agrees_def update_terminal_def mark_signalled_def Let_def)

lemma updated_record_agrees: "updated_record env now i r = (r', c, b) \<Longrightarrow> agrees i r'"
  using update_fields_agrees [of i r]
  by (auto simp: updated_record_def update_signal_def Let_def split: prod.splits if_splits)

lemma Update_record:
  assumes "mgr_inv env m" "map_of (m_ops m) (TrimSpace (ui_ID i)) = Some r"
    and "updated_record env now i r = (r', c, b)"
  shows "fst (Update env now i m) = (Some r', c)"
    "m_ops (snd (Update env now i m)) = AList.update (TrimSpace (ui_ID i)) r' (m_ops m)"
  using Update_eq [OF assms(2) _ assms(3)] ops_inv_get [OF mgr_inv_parts(1) [OF assms(1)] assms(2)]
  by (simp_all add: Let_def)

text \<open>Updates are idempotent: repeating an update (at a later time) reports no change, signals
  nobody and publishes nothing, whatever the record was before the first one.\<close>

theorem Update_idempotent:
  assumes "reachable (\<lambda>m. m = NewManager) (mgr_step env) m" "Get (ui_ID i) m \<noteq> None"
    and "m1 = snd (Update env now i m)" "m2 = snd (Update env now' i m1)"
  shows "snd (fst (Update env now' i m1)) = False \<and> m_wheap m2 = m_wheap m1 \<and> m_sheap m2 = m_sheap m1 \<and>
         m_subscriptions m2 = m_subscriptions m1 \<and> m_updateChangedCount m2 = m_updateChangedCount m1"
proof -
  note inv = mgr.reachable_inv [OF assms(1)]
  have inv1: "mgr_inv env m1" unfolding assms(3) by (rule Update_inv [OF inv])
  obtain r where r: "map_of (m_ops m) (TrimSpace (ui_ID i)) = Some r" using assms(2) by (auto simp: Get_def)
  obtain r' c b where u: "updated_record env now i r = (r', c, b)" by (metis surj_pair)
  have r1: "map_of (m_ops m1) (TrimSpace (ui_ID i)) = Some r'"
    unfolding assms(3) Update_record(2) [OF inv r u] by (simp add: alist_update)
  have "update_fields i r' = (r', False)" by (rule agrees_stable [OF updated_record_agrees [OF u]])
  then obtain r'' where "updated_record env now' i r' = (r'', False, False)"
    by (simp add: updated_record_def Let_def)
  from Update_eq [OF r1 _ this] ops_inv_get [OF mgr_inv_parts(1) [OF inv1] r1]
  have "Update env now' i m1 = ((Some r'', False), put_op (TrimSpace (ui_ID i)) r'' (count_update False m1))"
    by simp
  with assms(4) show ?thesis by (simp add: count_update_def put_op_def Let_def)
qed

section \<open>Waiters of a turn\<close>

text \<open>A waiter is parked on its channel, or its channel is ready: a receive does not block.\<close>

definition parked :: "Manager \<Rightarrow> string \<Rightarrow> nat \<Rightarrow> bool" where
  "parked m key ch \<longleftrightarrow> ch \<in> set (waiters_of m key)"

definition woken :: "Manager \<Rightarrow> nat \<Rightarrow> bool" where
  "woken m ch \<longleftrightarrow> fst (recv ch (m_wheap m)) \<noteq> ReceiveBlocks"

lemma recv_closed: "i < length (cells h) \<Longrightarrow> \<not> open_at h i \<Longrightarrow> fst (recv i h) \<noteq> ReceiveBlocks"
  by (auto simp: recv_def open_at_def split: list.splits)

lemma fold_wake_woken:
  assumes "open_refs h is" "ch \<in> set is"
  shows "fst (recv ch (fold wake is h)) \<noteq> ReceiveBlocks"
proof (rule recv_closed)
  show "ch < length (cells (fold wake is h))"
    using assms waking.fold_fin_length [of "is" h] by (auto simp: open_refs_def open_at_def)
  show "\<not> open_at (fold wake is h) ch" using assms by (simp add: waking.fold_fin_open)
qed

lemma parked_refs: "wait_inv m \<Longrightarrow> parked m key ch \<Longrightarrow> open_refs (m_wheap m) (waiters_of m key)"
  using waiters_of_refs [of m key] by simp

text \<open>Signalling a turn wakes its waiters and leaves those of the other turns parked.\<close>

lemma signal_wakes:
  assumes "wait_inv m" "parked m key ch"
  shows "if k = key then woken (signalLocked k m) ch else parked (signalLocked k m) key ch"
  using assms fold_wake_woken [OF parked_refs [OF assms], of ch]
  by (simp add: parked_def woken_def signalLocked_def waiters_of_def alist_delete)

lemma parked_cong: "m_waiters m' = m_waiters m \<Longrightarrow> parked m' key ch = parked m key ch"
  by (simp add: parked_def waiters_of_def)

lemma woken_cong: "m_wheap m' = m_wheap m \<Longrightarrow> woken m' ch = woken m ch"
  by (simp add: woken_def)

lemma parked_remove:
  assumes "parked m key ch" "ch' \<noteq> ch \<or> key' \<noteq> key"
  shows "parked (removeWaiterLocked key' ch' m) key ch"
proof (cases "key' = key")
  case True
  with assms have "ch \<in> set (remove1 ch' (waiters_of m key))" by (simp add: parked_def)
  with True show ?thesis
    by (auto simp: parked_def removeWaiterLocked_def Let_def waiters_of_def alist_update)
next
  case False
  with assms show ?thesis
    by (simp add: parked_def removeWaiterLocked_def Let_def waiters_of_def alist_delete alist_update)
qed

lemma parked_signal_store:
  assumes "wait_inv m" "parked m key ch" "m_waiters m' = m_waiters m" "m_wheap m' = m_wheap m"
  shows "parked (signalLocked k m') key ch \<or> woken (signalLocked k m') ch"
  using signal_wakes [of m' key ch k] assms wait_inv_cong [of m' m] parked_cong [of m' m]
  by (auto split: if_splits)

lemma parked_Register:
  assumes "wait_inv m" "parked m key ch"
  shows "parked (snd (Register env owner now input m)) key ch \<or> woken (snd (Register env owner now input m)) ch"
  unfolding Register_state Let_def by (rule parked_signal_store [OF assms]) simp_all

lemma parked_Update:
  assumes "mgr_inv env m" "parked m key ch"
  shows "parked (snd (Update env now i m)) key ch \<or> woken (snd (Update env now i m)) ch"
proof (cases "map_of (m_ops m) (TrimSpace (ui_ID i))")
  case (Some r)
  obtain r' c b where u: "updated_record env now i r = (r', c, b)" by (metis surj_pair)
  let ?m1 = "put_op (TrimSpace (ui_ID i)) r' (count_update c m)"
  have "parked (signalLocked (rec_key r') ?m1) key ch \<or> woken (signalLocked (rec_key r') ?m1) ch"
    by (rule parked_signal_store [OF mgr_inv_parts(3) [OF assms(1)] assms(2)]) simp_all
  moreover have "parked ?m1 key ch" using assms(2) parked_cong [of ?m1 m] by simp
  ultimately show ?thesis
    using Update_eq [OF Some _ u] ops_inv_get [OF mgr_inv_parts(1) [OF assms(1)] Some]
    by (simp add: Let_def parked_cong [of "publishChangeLocked _ _ _ _", OF publish_frame(5)]
        woken_cong [of "publishChangeLocked _ _ _ _", OF publish_frame(6)])
qed (use assms in \<open>simp add: Update_missing\<close>)

lemma parked_RecordPollFailure:
  assumes "wait_inv m" "parked m key ch"
  shows "parked (snd (RecordPollFailure env now opid e tr m)) key ch \<or> woken (snd (RecordPollFailure env now opid e tr m)) ch"
proof (cases "map_of (m_ops m) (TrimSpace opid)")
  case (Some r)
  let ?r1 = "poll_failed_once now e r"
  let ?r4 = "poll_failed_for_good env ?r1"
  have "parked (signalLocked (rec_key ?r4) (put_op (TrimSpace opid) ?r4 m)) key ch \<or>
        woken (signalLocked (rec_key ?r4) (put_op (TrimSpace opid) ?r4 m)) ch"
    by (rule parked_signal_store [OF assms]) simp_all
  moreover have "parked (put_op (TrimSpace opid) ?r1 m) key ch" using assms(2) parked_cong [of "put_op (TrimSpace opid) ?r1 m" m] by simp
  ultimately show ?thesis by (simp add: RecordPollFailure_def Let_def Some)
qed (use assms in \<open>simp add: RecordPollFailure_def\<close>)

lemma parked_SignalTurn:
  assumes "wait_inv m" "parked m key ch"
  shows "parked (snd (SignalTurn c t m)) key ch \<or> woken (snd (SignalTurn c t m)) ch"
proof -
  have "parked (signalLocked k (m\<lparr>m_turnSignals := s\<rparr>)) key ch \<or> woken (signalLocked k (m\<lparr>m_turnSignals := s\<rparr>)) ch" for k s
    by (rule parked_signal_store [OF assms]) simp_all
  with assms show ?thesis by (simp add: SignalTurn_def Let_def)
qed

lemma parked_Wait: "parked m key ch \<Longrightarrow> parked (snd (WaitForChangeSince_begin c t v m)) key ch"
  by (auto simp: WaitForChangeSince_begin_def Let_def parked_def waiters_of_def alist_update split: prod.splits option.splits)

text \<open>The waiters an expiring context leaves behind: all but its own.\<close>

lemma parked_leave:
  "parked m key ch \<Longrightarrow> parked (WaitForChangeSince_leave c t ch' m) key ch \<or> (ch' = ch \<and> turnKey c t = key)"
  using parked_remove [of m key ch ch' "turnKey c t"] by (auto simp: WaitForChangeSince_leave_def)

lemma waiters_of_dropOp: "waiters_of (dropOpLocked opid m) key = (if opid = key then [] else waiters_of m key)"
  by (simp add: dropOpLocked_def Let_def waiters_of_def alist_delete)

lemma ops_dropOp [simp]: "m_ops (dropOpLocked opid m) = AList.delete opid (m_ops m)"
  by (simp add: dropOpLocked_def Let_def)

lemma waiters_of_sweep_loop:
  "key \<notin> set (keys ops) \<Longrightarrow> waiters_of (fst (sweep_loop env now maxAge ops m n)) key = waiters_of m key"
  by (induction env now maxAge ops m n rule: sweep_loop.induct) (auto simp: waiters_of_dropOp)

lemma parked_eq: "waiters_of m' key = waiters_of m key \<Longrightarrow> parked m key ch \<Longrightarrow> parked m' key ch"
  by (simp add: parked_def)

lemma parked_Sweep:
  assumes "parked m key ch" "map_of (m_ops m) key = None"
  shows "parked (snd (Sweep env now maxAge m)) key ch"
proof -
  have "waiters_of (m1\<lparr>m_sweepPruneCount := n\<rparr>) key = waiters_of m1 key" for m1 n
    by (simp add: waiters_of_def)
  then show ?thesis
    using waiters_of_sweep_loop [of key "m_ops m" env now maxAge m 0] assms
    by (intro parked_eq [OF _ assms(1)]) (simp add: Sweep_def case_prod_beta map_of_eq_None_iff)
qed

lemma woken_Close:
  assumes "wait_inv m" "parked m key ch"
  shows "parked (snd (Close m)) key ch \<or> woken (snd (Close m)) ch"
proof -
  have "ch \<in> set (concat (map snd (m_waiters m)))"
    using assms(2) by (cases "map_of (m_waiters m) key") (force simp: parked_def waiters_of_def dest: map_of_SomeD)+
  with assms fold_wake_woken [of "m_wheap m" "concat (map snd (m_waiters m))" ch] show ?thesis
    by (simp add: Close_def woken_def wait_inv_def)
qed

text \<open>Operations that do not touch the waiters.\<close>

lemma waiters_frames:
  "m_waiters (snd (BindToolCarrier opid a b c m)) = m_waiters m"
  "m_waiters (snd (ResetPollFailures now opid m)) = m_waiters m"
  "m_waiters (snd (ConsumeChanged convID turnID m)) = m_waiters m"
  "m_waiters (snd (AdmitPoller opid cancel m)) = m_waiters m"
  "m_waiters (snd (TryStartPoller opid m)) = m_waiters m"
  "m_waiters (FinishPoller opid m) = m_waiters m"
  "m_waiters (StorePollerCancel opid cancel m) = m_waiters m"
  "m_waiters (snd (WaitForChangeSince_recv ch m)) = m_waiters m"
  "m_waiters (snd (WaitForChangeSince_ctxDone ch m)) = m_waiters m"
  "m_waiters (snd (Subscribe opIDs m)) = m_waiters m"
  "m_waiters (Unsubscribe subID m) = m_waiters m"
  "m_waiters (snd (StartGC ctxNil cancelID finish interval maxAge m)) = m_waiters m"
  "m_waiters (gc_exit cancelID finish m) = m_waiters m"
  by (simp_all add: BindToolCarrier_def ResetPollFailures_def ConsumeChanged_def AdmitPoller_def TryStartPoller_def
      FinishPoller_def StorePollerCancel_def WaitForChangeSince_recv_def WaitForChangeSince_ctxDone_def Subscribe_def Unsubscribe_def
      StartGC_def gc_exit_def Let_def case_prod_beta split: option.splits received.splits)

lemma waiters_frame_cancel: "m_waiters (CancelTurnPollers convID turnID m) = m_waiters m"
proof -
  have "m_waiters (fold (\<lambda>r. fire_cancel (op_ID r)) rs m) = m_waiters m" for rs
    by (induction rs arbitrary: m) simp_all
  then show ?thesis by (simp add: CancelTurnPollers_def)
qed

lemma waiters_frame_await:
  "m_waiters (snd (AwaitTerminal_subscribe opIDs m)) = m_waiters m"
  "m_waiters (snd (AwaitTerminal_step now clk opIDs e st m)) = m_waiters m"
  by (simp_all add: AwaitTerminal_subscribe_def AwaitTerminal_step_def waiters_frames case_prod_beta
      split: await_state.splits await_event.splits option.splits)

text \<open>C10: no lost waiters: as long as no operation has the key of a turn for its id, whatever operation runs
  next, a waiter parked on the turn stays parked or its channel becomes ready, unless its own context ended
  (it then leaves the list itself). The side condition is needed: \<open>dropOpLocked\<close> deletes the waiters stored
  under an operation id, so dropping an operation with that id loses them.\<close>

theorem waiter_never_lost:
  assumes "mgr_inv env m" "mgr_step env m m'" "parked m key ch" "map_of (m_ops m) key = None"
  shows "parked m' key ch \<or> woken m' ch \<or>
    (\<exists>convID turnID. turnKey convID turnID = key \<and> m' = WaitForChangeSince_leave convID turnID ch m)"
proof -
  note w = mgr_inv_parts(3) [OF assms(1)]
  have frame: "parked n key ch" if "m_waiters n = m_waiters m" for n
    using parked_cong [OF that] assms(3) by simp
  from assms(2) show ?thesis
  proof (cases rule: mgr_step.cases)
    case step_WaitLeave
    then show ?thesis using parked_leave [OF assms(3)] by metis
  next
    case step_Sweep
    then show ?thesis using parked_Sweep [OF assms(3,4)] by metis
  next
    case step_Wait
    then show ?thesis using parked_Wait [OF assms(3)] by metis
  next
    case step_Register
    then show ?thesis using parked_Register [OF w assms(3)] by metis
  next
    case step_Update
    then show ?thesis using parked_Update [OF assms(1,3)] by metis
  next
    case step_RecordPollFailure
    then show ?thesis using parked_RecordPollFailure [OF w assms(3)] by metis
  next
    case step_SignalTurn
    then show ?thesis using parked_SignalTurn [OF w assms(3)] by metis
  next
    case step_Close
    then show ?thesis using woken_Close [OF w assms(3)] by metis
  qed (simp_all add: frame waiters_frames waiters_frame_cancel waiters_frame_await)
qed

definition demo_parked :: Manager where
  "demo_parked = snd (WaitForChangeSince_begin ''c'' ''t'' 0 (snd (ConsumeChanged ''c'' ''t'' demo_mgr)))"

lemma demo_parked_reachable: "reachable (\<lambda>m. m = NewManager) (mgr_step demo_env) demo_parked"
  unfolding demo_parked_def by (rule reach_step [OF reach_step [OF demo_reachable step_ConsumeChanged] step_Wait])

lemma demo_parked: "parked demo_parked ''c|t'' 0" "map_of (m_ops demo_parked) ''c|t'' = None"
  by code_simp+

theorem waiter_never_lost_witness:
  "parked demo_parked ''c|t'' 0 \<and> (let m' = snd (SignalTurn ''c'' ''t'' demo_parked) in parked m' ''c|t'' 0 \<or> woken m' 0)"
proof -
  have "parked (snd (SignalTurn ''c'' ''t'' demo_parked)) ''c|t'' 0 \<or> woken (snd (SignalTurn ''c'' ''t'' demo_parked)) 0 \<or>
      (\<exists>convID turnID. turnKey convID turnID = ''c|t'' \<and>
         snd (SignalTurn ''c'' ''t'' demo_parked) = WaitForChangeSince_leave convID turnID 0 demo_parked)"
    by (rule waiter_never_lost [OF mgr.reachable_inv [OF demo_parked_reachable] step_SignalTurn demo_parked])
  moreover have "woken (snd (SignalTurn ''c'' ''t'' demo_parked)) 0" by code_simp
  ultimately show ?thesis using demo_parked by (simp add: Let_def)
qed

text \<open>C27: signals are not lost. A signal to a turn makes every waiter parked on it ready and reports
  that there was one; a caller that read the turn's version before the signal and starts to wait
  after it returns at once instead of parking.\<close>

theorem SignalTurn_wakes:
  assumes "reachable (\<lambda>m. m = NewManager) (mgr_step env) m" "\<not> m_closed m"
    and "TrimSpace convID \<noteq> []" "TrimSpace turnID \<noteq> []" "m' = snd (SignalTurn convID turnID m)"
  shows "(parked m (turnKey convID turnID) ch \<longrightarrow> woken m' ch \<and> fst (SignalTurn convID turnID m)) \<and>
    TurnSignalVersion convID turnID m' = TurnSignalVersion convID turnID m + 1 \<and>
    WaitForChangeSince_begin convID turnID (TurnSignalVersion convID turnID m) m' = (WaitReturns, m')"
proof -
  let ?k = "turnKey convID turnID"
  let ?m1 = "m\<lparr>m_turnSignals := AList.update ?k (turnSignal_of m ?k + 1) (m_turnSignals m)\<rparr>"
  have m': "SignalTurn convID turnID m = (waiters_of m ?k \<noteq> [], m')" "m' = signalLocked ?k ?m1"
    using assms(2-5) by (simp_all add: SignalTurn_def Let_def)
  have "wait_inv ?m1" using mgr_inv_parts(3) [OF mgr.reachable_inv [OF assms(1)]] by (simp add: wait_inv_def)
  then have "parked m ?k ch \<longrightarrow> woken m' ch \<and> fst (SignalTurn convID turnID m)"
    using signal_wakes [of ?m1 ?k ch ?k] m' parked_cong [of ?m1 m ?k ch] by (auto simp: parked_def)
  moreover have v: "turnSignal_of m' ?k = turnSignal_of m ?k + 1"
    by (simp add: m'(2) signalLocked_def turnSignal_of_def alist_update)
  ultimately show ?thesis by (simp add: TurnSignalVersion_def WaitForChangeSince_begin_def Let_def)
qed

theorem SignalTurn_wakes_witness:
  "parked demo_parked (turnKey ''c'' ''t'') 0 \<and> woken (snd (SignalTurn ''c'' ''t'' demo_parked)) 0 \<and>
   fst (SignalTurn ''c'' ''t'' demo_parked)"
proof -
  have "\<not> m_closed demo_parked" "TrimSpace ''c'' \<noteq> []" "TrimSpace ''t'' \<noteq> []" "parked demo_parked (turnKey ''c'' ''t'') 0"
    by code_simp+
  with SignalTurn_wakes [OF demo_parked_reachable _ _ _ refl, of "''c''" "''t''" 0] show ?thesis by blast
qed

end
