(* ===== verification/AsyncBehaviour.thy ===== *)
theory AsyncBehaviour
  imports AsyncProps
begin

text \<open>
  The functional behaviour of the rest of the async operation manager: the garbage collector, the
  shutdown, the publication of changes, the barrier of \<open>AwaitTerminal\<close>, poll failures and the queries
  by turn and by request.
\<close>

section \<open>Garbage collection\<close>

lemma subscriptions_dropOp [simp]: "m_subscriptions (dropOpLocked opid m) = m_subscriptions m"
  by (simp add: dropOpLocked_def Let_def)

lemma prunable_cong: "m_subscriptions m' = m_subscriptions m \<Longrightarrow> prunable env now maxAge m' = prunable env now maxAge m"
  by (simp add: prunable_def opHasSubscriptionLocked_def fun_eq_iff)

lemma sweep_loop_spec:
  "m_ops (fst (sweep_loop env now maxAge ops m n)) =
     filter (\<lambda>kr. fst kr \<notin> fst ` set (filter (\<lambda>(k, r). prunable env now maxAge m k r) ops)) (m_ops m) \<and>
   snd (sweep_loop env now maxAge ops m n) = n + length (filter (\<lambda>(k, r). prunable env now maxAge m k r) ops)"
proof (induction ops arbitrary: m n)
  case (Cons kr ops)
  obtain k r where kr: "kr = (k, r)" by (cases kr)
  have eq: "prunable env now maxAge (dropOpLocked k m) = prunable env now maxAge m"
    by (rule prunable_cong) simp
  show ?case
    using Cons.IH [of "dropOpLocked k m" "Suc n"] Cons.IH [of m n]
    by (cases "prunable env now maxAge m k r") (auto simp: kr eq AList.delete_eq intro!: filter_cong)
qed simp

lemma sweep_loop_ops:
  assumes "distinct (keys (m_ops m))"
  shows "m_ops (fst (sweep_loop env now maxAge (m_ops m) m n)) = filter (\<lambda>(k, r). \<not> prunable env now maxAge m k r) (m_ops m)"
proof -
  have one: "r' = r" if "(k, r) \<in> set (m_ops m)" "(k, r') \<in> set (m_ops m)" for k r r'
    using eq_key_imp_eq_value [OF assms that(2,1)] .
  have "fst kr \<notin> fst ` set (filter (\<lambda>(k, r). prunable env now maxAge m k r) (m_ops m)) \<longleftrightarrow>
      \<not> prunable env now maxAge m (fst kr) (snd kr)" if "kr \<in> set (m_ops m)" for kr
    using that one [of "fst kr" "snd kr"] by (force simp: image_iff)
  then show ?thesis by (simp add: sweep_loop_spec case_prod_beta cong: filter_cong)
qed

text \<open>A sweep with a positive age removes exactly the prunable operations (old enough, without a
  subscription, and not both live and waited for), keeps the others as they were, and returns how
  many it removed.\<close>

theorem Sweep_exact:
  assumes "reachable (\<lambda>m. m = NewManager) (mgr_step env) m" "maxAge > 0"
  shows "m_ops (snd (Sweep env now maxAge m)) = filter (\<lambda>(k, r). \<not> prunable env now maxAge m k r) (m_ops m) \<and>
         fst (Sweep env now maxAge m) + length (m_ops (snd (Sweep env now maxAge m))) = length (m_ops m)"
proof -
  let ?P = "\<lambda>(k, r). prunable env now maxAge m k r"
  have d: "distinct (keys (m_ops m))"
    using mgr_inv_parts(1) [OF mgr.reachable_inv [OF assms(1)]] by (simp add: ops_inv_def)
  have ops: "m_ops (snd (Sweep env now maxAge m)) = filter (\<lambda>(k, r). \<not> prunable env now maxAge m k r) (m_ops m)"
    using assms(2) sweep_loop_ops [OF d, of env now maxAge 0] by (simp add: Sweep_def case_prod_beta)
  moreover have "fst (Sweep env now maxAge m) = length (filter ?P (m_ops m))"
    using assms(2) conjunct2 [OF sweep_loop_spec [of env now maxAge "m_ops m" m 0]] by (simp add: Sweep_def case_prod_beta)
  moreover have "length (filter ?P (m_ops m)) + length (filter (\<lambda>kr. \<not> ?P kr) (m_ops m)) = length (m_ops m)"
    by (rule sum_length_filter_compl)
  moreover have "(\<lambda>kr. \<not> ?P kr) = (\<lambda>(k, r). \<not> prunable env now maxAge m k r)" by auto
  ultimately show ?thesis by simp
qed

text \<open>C29: a sweep never removes an operation that a subscription lists, nor a live one of a waiting
  mode, at whatever age.\<close>

theorem Sweep_keeps_watched:
  assumes "reachable (\<lambda>m. m = NewManager) (mgr_step env) m" "map_of (m_ops m) k = Some r"
    and "opHasSubscriptionLocked k m \<or> (\<not> Terminal r \<and> mode_waits env (op_ExecutionMode r))"
  shows "map_of (m_ops (snd (Sweep env now maxAge m))) k = Some r"
proof -
  have d: "distinct (keys (m_ops m))"
    using mgr_inv_parts(1) [OF mgr.reachable_inv [OF assms(1)]] by (simp add: ops_inv_def)
  have "\<not> prunable env now maxAge m k r" using assms(3) by (auto simp: prunable_def)
  then show ?thesis
    using assms(2) d sweep_loop_ops [OF d, of env now maxAge 0]
    by (simp add: Sweep_def case_prod_beta alist_filter)
qed

theorem Sweep_keeps_watched_witness:
  "\<exists>r. map_of (m_ops (snd (Sweep demo_env 1000000 1 demo_mgr))) ''b'' = Some r \<and> op_State r = ''running''"
proof -
  let ?r = "the (map_of (m_ops demo_mgr) ''b'')"
  have "map_of (m_ops demo_mgr) ''b'' = Some ?r" "\<not> Terminal ?r \<and> mode_waits demo_env (op_ExecutionMode ?r)"
    "op_State ?r = ''running''" by code_simp+
  with Sweep_keeps_watched [OF demo_reachable, of "''b''" ?r 1000000 1] show ?thesis by blast
qed

section \<open>Shutdown\<close>

lemma close_all_closed: "open_refs h is \<Longrightarrow> i \<in> set is \<Longrightarrow>
   \<not> open_at (fold (\<lambda>ch h. if open_at h ch then close_at ch h else h) is h) i"
  by (simp add: close_all_eq closing.fold_fin_open)

text \<open>After \<open>Close\<close> every waiter's channel is ready, every subscription's channel is closed and no
  subscription is left, every stored cancel function of a poller or sweeper has been called, no new
  poller and no sweeper is admitted, and a second \<open>Close\<close> changes nothing.\<close>

theorem Close_shuts_down:
  assumes "reachable (\<lambda>m. m = NewManager) (mgr_step env) m" "\<not> m_closed m" "m' = snd (Close m)"
  shows "(\<forall>key ch. parked m key ch \<longrightarrow> woken m' ch) \<and>
    (\<forall>sub \<in> set (map snd (m_subscriptions m)). \<not> open_at (m_sheap m') (sub_ch sub)) \<and> m_subscriptions m' = [] \<and>
    set (m_gcCancels m) \<union> set (map snd (m_pollerCancels m)) \<subseteq> set (m_canceled m') \<and>
    \<not> fst (AdmitPoller opid cancel m') \<and> \<not> fst (TryStartPoller opid m') \<and>
    \<not> fst (StartGC ctxNil cancelID finish interval maxAge m') \<and> Close m' = ([], m')"
proof -
  note inv = mgr.reachable_inv [OF assms(1)]
  have m': "m_closed m'" "m_subscriptions m' = []" "m_waiters m' = []"
    "m_canceled m' = m_gcCancels m @ map snd (m_pollerCancels m) @ m_canceled m"
    "m_sheap m' = fold (\<lambda>ch h. if open_at h ch then close_at ch h else h) (sub_refs (m_subscriptions m)) (m_sheap m)"
    using assms(2,3) by (simp_all add: Close_def sub_refs_def)
  have "woken m' ch" if "parked m key ch" for key ch
    using woken_Close [OF mgr_inv_parts(3) [OF inv] that] assms(3) m'(3) by (simp add: parked_def waiters_of_def)
  moreover have "\<not> open_at (m_sheap m') (sub_ch sub)" if "sub \<in> set (map snd (m_subscriptions m))" for sub
    using mgr_inv_parts(4) [OF inv] that unfolding m'(5)
    by (intro close_all_closed) (auto simp: subs_inv_def sub_refs_def)
  ultimately show ?thesis
    using m' by (auto simp: AdmitPoller_def TryStartPoller_def StartGC_def Close_def Let_def)
qed

section \<open>Publication\<close>

lemma publish_loop_cells:
  assumes "ch \<notin> set (sub_refs subs)"
  shows "cells (snd (publish_loop allTerm opid ev subs h)) ! ch = cells h ! ch"
  using assms
proof (induction subs arbitrary: h)
  case (Cons s subs)
  then show ?case by (cases s) (simp add: Let_def case_prod_beta try_send_cells close_at_cells)
qed simp

lemma try_send_cell:
  "open_at h i \<Longrightarrow> length (ch_buf (cells h ! i)) < ch_cap (cells h ! i) \<Longrightarrow>
   cells (try_send x i h) ! i = (cells h ! i)\<lparr>ch_buf := ch_buf (cells h ! i) @ [x]\<rparr>"
  by (simp add: try_send_def open_at_def)

lemma close_at_cell: "open_at h i \<Longrightarrow> cells (close_at i h) ! i = (cells h ! i)\<lparr>ch_closed := True\<rparr>"
  by (simp add: close_at_def open_at_def)

text \<open>What the loop does to the channel of one subscription that lists the operation and has room.\<close>

definition published_cell :: "bool \<Rightarrow> ChangeEvent \<Rightarrow> ChangeEvent chan \<Rightarrow> ChangeEvent chan" where
  "published_cell fin ev c = (let c' = c\<lparr>ch_buf := ch_buf c @ [ev]\<rparr> in if fin then c'\<lparr>ch_closed := True\<rparr> else c')"

lemma publish_loop_delivers:
  assumes "open_refs h (sub_refs subs)" "(i, sub) \<in> set subs" "opid \<in> set (sub_targets sub)"
    and "length (ch_buf (cells h ! sub_ch sub)) < ch_cap (cells h ! sub_ch sub)"
  shows "cells (snd (publish_loop allTerm opid ev subs h)) ! sub_ch sub =
         published_cell (allTerm (sub_targets sub)) ev (cells h ! sub_ch sub)"
  using assms
proof (induction subs arbitrary: h)
  case (Cons s subs)
  obtain j sub' where s: "s = (j, sub')" by (cases s)
  let ?h1 = "try_send ev (sub_ch sub') h"
  have ref: "open_at h (sub_ch sub')" "sub_ch sub' \<notin> set (sub_refs subs)" "open_refs h (sub_refs subs)"
    using Cons.prems(1) by (simp_all add: s)
  show ?case
  proof (cases "(i, sub) = s")
    case True
    with s ref Cons.prems(3,4) show ?thesis
      by (simp add: Let_def case_prod_beta publish_loop_cells published_cell_def close_at_cell try_send_cell)
  next
    case False
    with Cons.prems(2) have sub: "(i, sub) \<in> set subs" by simp
    then have ne: "sub_ch sub \<noteq> sub_ch sub'" using ref(2) by (force simp: sub_refs_def)
    have "open_refs (close_at (sub_ch sub') ?h1) (sub_refs subs)"
      using close_refs [of ?h1 "sub_ch sub'" "sub_refs subs"] ref by simp
    with ne sub ref(3) Cons.prems(3,4) Cons.IH [of h] Cons.IH [of ?h1] Cons.IH [of "close_at (sub_ch sub') ?h1"]
    show ?thesis by (simp add: s Let_def case_prod_beta try_send_cells close_at_cells)
  qed
qed simp

text \<open>Publishing a change of an operation appends the event to the channel of every subscription
  that lists the operation and has room, closes the channels whose targets are now all terminal, and
  keeps exactly the other subscriptions.\<close>

theorem publishChange_spec:
  assumes "reachable (\<lambda>m. m = NewManager) (mgr_step env) m" "(i, sub) \<in> set (m_subscriptions m)"
    and "op_ID r \<in> set (sub_targets sub)"
    and "length (ch_buf (cells (m_sheap m) ! sub_ch sub)) < ch_cap (cells (m_sheap m) ! sub_ch sub)"
    and "m' = publishChangeLocked r prior digest m" "fin = allTargetsTerminalLocked m (sub_targets sub)"
  shows "ch_buf (cells (m_sheap m') ! sub_ch sub) = ch_buf (cells (m_sheap m) ! sub_ch sub) @ [change_event r prior digest] \<and>
    (open_at (m_sheap m') (sub_ch sub) \<longleftrightarrow> \<not> fin) \<and> ((i, sub) \<in> set (m_subscriptions m') \<longleftrightarrow> \<not> fin)"
proof -
  have s: "open_refs (m_sheap m) (sub_refs (m_subscriptions m))"
    using mgr_inv_parts(4) [OF mgr.reachable_inv [OF assms(1)]] by (simp add: subs_inv_def)
  let ?loop = "publish_loop (allTargetsTerminalLocked m) (op_ID r) (change_event r prior digest) (m_subscriptions m) (m_sheap m)"
  have m': "m_subscriptions m' = fst ?loop" "m_sheap m' = snd ?loop"
    using assms(2,5) by (auto simp: publishChangeLocked_def case_prod_beta)
  have len: "length (cells (snd (publish_loop a opid e ss h))) = length (cells h)" for a opid e ss h
    by (induction ss arbitrary: h) (auto simp: Let_def case_prod_beta)
  have "open_at (m_sheap m) (sub_ch sub)" using s assms(2) by (force simp: open_refs_def sub_refs_def)
  with publish_loop_delivers [OF s assms(2-4), of "allTargetsTerminalLocked m" "change_event r prior digest"] assms(2,3,6)
  show ?thesis
    by (auto simp: m' len publish_loop_filter published_cell_def Let_def open_at_def)
qed

definition demo_subscribed :: Manager where
  "demo_subscribed = snd (Subscribe [''b''] demo_mgr)"

lemma demo_subscribed_reachable: "reachable (\<lambda>m. m = NewManager) (mgr_step demo_env) demo_subscribed"
  unfolding demo_subscribed_def by (rule reach_step [OF demo_reachable step_Subscribe])

section \<open>The barrier\<close>

text \<open>The records the barrier looks at, and the reason it gives for each.\<close>

definition awaited :: "Manager \<Rightarrow> string list \<Rightarrow> OperationRecord list" where
  "awaited m opIDs = List.map_filter (\<lambda>o'. if TrimSpace o' = [] then None else map_of (m_ops m) (TrimSpace o')) opIDs"

definition idle_at :: "gotime \<Rightarrow> OperationRecord \<Rightarrow> bool" where
  "idle_at now r \<longleftrightarrow> \<not> Terminal r \<and> idleAt r \<le> now"

definition await_reason :: "gotime \<Rightarrow> OperationRecord \<Rightarrow> string" where
  "await_reason now r = (if Terminal r then aggregatedReason r False
     else if idleAt r \<le> now then ''running_idle'' else TrimSpace (op_State r))"

lemma awaited_Cons:
  "awaited m (o' # os) = (if TrimSpace o' = [] then [] else case map_of (m_ops m) (TrimSpace o') of None \<Rightarrow> [] | Some r \<Rightarrow> [r]) @ awaited m os"
  by (auto simp: awaited_def List.map_filter_def)

lemma await_item_spec:
  assumes "rs = (if TrimSpace o' = [] then [] else case map_of (m_ops m) (TrimSpace o') of None \<Rightarrow> [] | Some r \<Rightarrow> [r])"
  shows "ar_Items (aw_result (await_item m now u o' acc)) = ar_Items (aw_result acc) @ map (\<lambda>r. (base_item r)\<lparr>it_Reason := await_reason now r\<rparr>) rs"
    "ar_OpsStillActive (aw_result (await_item m now u o' acc)) = (ar_OpsStillActive (aw_result acc) \<or> (\<exists>r \<in> set rs. \<not> Terminal r))"
    "aw_done (await_item m now u o' acc) = (aw_done acc \<and> (\<forall>r \<in> set rs. Terminal r \<or> idleAt r \<le> now))"
    "0 < aw_next acc \<Longrightarrow> 0 < aw_next (await_item m now u o' acc) \<and> aw_next (await_item m now u o' acc) \<le> aw_next acc"
  using assms by (simp_all add: await_item_def Let_def await_reason_def split: option.splits)

lemma await_loop_spec:
  "ar_Items (aw_result (await_loop m now clk n os acc)) = ar_Items (aw_result acc) @ map (\<lambda>r. (base_item r)\<lparr>it_Reason := await_reason now r\<rparr>) (awaited m os)"
  "ar_OpsStillActive (aw_result (await_loop m now clk n os acc)) = (ar_OpsStillActive (aw_result acc) \<or> (\<exists>r \<in> set (awaited m os). \<not> Terminal r))"
  "aw_done (await_loop m now clk n os acc) = (aw_done acc \<and> (\<forall>r \<in> set (awaited m os). Terminal r \<or> idleAt r \<le> now))"
  "0 < aw_next acc \<Longrightarrow> 0 < aw_next (await_loop m now clk n os acc) \<and> aw_next (await_loop m now clk n os acc) \<le> aw_next acc"
proof (induction os arbitrary: n acc)
  case Nil
  { case 1 show ?case by (simp add: awaited_def List.map_filter_def) }
  { case 2 show ?case by (simp add: awaited_def List.map_filter_def) }
  { case 3 show ?case by (simp add: awaited_def List.map_filter_def) }
  { case 4 then show ?case by simp }
next
  case (Cons o' os)
  note item = await_item_spec [OF refl, where m = m and now = now and o' = o']
  { case 1 show ?case by (simp only: await_loop.simps Cons.IH(1) item(1) awaited_Cons map_append append_assoc) }
  { case 2 show ?case by (simp only: await_loop.simps Cons.IH(2) item(2) awaited_Cons) auto }
  { case 3 show ?case by (simp only: await_loop.simps Cons.IH(3) item(3) awaited_Cons) auto }
  { case (4 n acc) show ?case using Cons.IH(4) [of "await_item m now (clk n) o' acc" "Suc n"] item(4) [OF 4, of "clk n"] by auto }
qed

lemma default_wait: "millis DefaultIdleTimeoutMs = 600000000000"
  by (simp add: millis_def DefaultIdleTimeoutMs_def Millisecond_def wrap64_def)

lemma aggregatedReason_not_idle: "Terminal r \<Longrightarrow> aggregatedReason r False \<noteq> ''running_idle''"
  by (auto simp: Terminal_def aggregatedReason_def State_defs)

lemma await_reason_idle:
  "await_reason now r = ''running_idle'' \<longleftrightarrow> \<not> Terminal r \<and> (idleAt r \<le> now \<or> TrimSpace (op_State r) = ''running_idle'')"
  by (simp add: await_reason_def aggregatedReason_not_idle)

text \<open>The barrier reports one item per known awaited operation, in the order asked. It is over
  exactly when each of them is terminal or idle, or when one live operation has been idle past its
  timeout; otherwise it waits for a positive time of at most ten minutes.\<close>

theorem evaluateAwait_spec:
  assumes "evaluateAwait now clk opIDs m = (result, finished, wait)"
  shows "ar_Items result = map (\<lambda>r. (base_item r)\<lparr>it_Reason := await_reason now r\<rparr>) (awaited m opIDs) \<and>
    ar_OpsStillActive result = (\<exists>r \<in> set (awaited m opIDs). \<not> Terminal r) \<and>
    (finished \<longleftrightarrow> (\<forall>r \<in> set (awaited m opIDs). Terminal r \<or> idleAt r \<le> now) \<or>
       (\<exists>r \<in> set (awaited m opIDs). await_reason now r = ''running_idle'')) \<and>
    (if finished then wait = 0 else 0 < wait \<and> wait \<le> 600 * Second)"
proof -
  define acc where "acc = await_loop m now clk 0 opIDs
    \<lparr>aw_result = \<lparr>ar_Items = [], ar_OpsStillActive = False\<rparr>, aw_done = True, aw_next = 600000000000\<rparr>"
  note spec = await_loop_spec [where m = m and now = now and clk = clk and n = 0 and os = opIDs and acc =
    "\<lparr>aw_result = \<lparr>ar_Items = [], ar_OpsStillActive = False\<rparr>, aw_done = True, aw_next = 600000000000\<rparr>", folded acc_def]
  have eq: "(result, finished, wait) = (if aw_done acc then (aw_result acc, True, 0)
     else if list_ex (\<lambda>item. it_Reason item = ''running_idle'') (ar_Items (aw_result acc)) then (aw_result acc, True, 0)
     else (aw_result acc, False, if aw_next acc \<le> 0 then Millisecond else aw_next acc))"
    unfolding assms [symmetric] by (simp add: evaluateAwait_def Let_def default_wait acc_def)
  have idle: "list_ex (\<lambda>item. it_Reason item = ''running_idle'') (ar_Items (aw_result acc)) \<longleftrightarrow>
      (\<exists>r \<in> set (awaited m opIDs). await_reason now r = ''running_idle'')"
    by (simp add: spec(1) list_ex_iff)
  have "result = aw_result acc" using eq by (auto split: if_splits)
  moreover have "finished \<longleftrightarrow> aw_done acc \<or> (\<exists>r \<in> set (awaited m opIDs). await_reason now r = ''running_idle'')"
    using eq unfolding idle by (auto split: if_splits)
  moreover have "if finished then wait = 0 else 0 < wait \<and> wait \<le> 600 * Second"
    using eq spec(4) by (auto simp: Second_def split: if_splits)
  ultimately show ?thesis using spec(1-3) by simp
qed

section \<open>Poll failures\<close>

text \<open>A failed poll ends the operation exactly when the failure is permanent or it is the third
  one; it is then stored as failed, otherwise its state is kept and the failure counted. In neither
  case does the call touch a subscription or a subscription channel: the failure is signalled to the
  turn's waiters only.\<close>

theorem RecordPollFailure_spec:
  assumes "Get opid m = Some r" "0 \<le> op_PollFailures r" "op_PollFailures r < maxInt64"
    and "RecordPollFailure env now opid errMsg transient m = ((res, terminal), m')"
  shows "(terminal \<longleftrightarrow> \<not> transient \<or> op_PollFailures r + 1 \<ge> 3) \<and> res = Get opid m' \<and>
    (\<exists>r'. Get opid m' = Some r' \<and> op_PollFailures r' = op_PollFailures r + 1 \<and> op_Error r' = TrimSpace errMsg \<and>
       op_State r' = (if terminal then StateFailed else op_State r)) \<and>
    m_subscriptions m' = m_subscriptions m \<and> m_sheap m' = m_sheap m"
proof -
  obtain r0 where r0: "map_of (m_ops m) (TrimSpace opid) = Some r0" "r = cloneRecord r0"
    using assms(1) by (auto simp: Get_def)
  let ?r1 = "poll_failed_once now errMsg r0"
  have n: "op_PollFailures ?r1 = op_PollFailures r + 1"
    using assms(2,3) wrap64_id [of "op_PollFailures r + 1"] by (simp add: poll_failed_once_def r0(2) cloneRecord_def)
  have st: "op_State (poll_failed_for_good env ?r1) = StateFailed" "op_PollFailures (poll_failed_for_good env ?r1) = op_PollFailures ?r1"
    "op_Error (poll_failed_for_good env ?r1) = op_Error ?r1" "op_State ?r1 = op_State r" "op_Error ?r1 = TrimSpace errMsg"
    by (simp_all add: poll_failed_for_good_def Let_def poll_failed_once_def r0(2) cloneRecord_def)
  have clone: "op_State (cloneRecord x) = op_State x" "op_PollFailures (cloneRecord x) = op_PollFailures x"
    "op_Error (cloneRecord x) = op_Error x" for x by (simp_all add: cloneRecord_def)
  show ?thesis
    using assms(4) n st
    by (auto simp: RecordPollFailure_def Let_def r0(1) Get_def alist_update clone DefaultMaxPollFailures_def split: if_splits)
qed

section \<open>Queries\<close>

text \<open>What \<open>FindActiveByRequest\<close> looks for.\<close>

definition is_request :: "async_env \<Rightarrow> string \<Rightarrow> string \<Rightarrow> string \<Rightarrow> string \<Rightarrow> OperationRecord \<Rightarrow> bool" where
  "is_request env convID turnID toolName digest r \<longleftrightarrow> \<not> Terminal r \<and> mode_waits env (op_ExecutionMode r) \<and>
     rec_key r = turnKey convID turnID \<and> EqualFold (TrimSpace (op_ToolName r)) (TrimSpace toolName) \<and>
     op_RequestArgsDigest r = TrimSpace digest"

lemma is_request_clone: "is_request env c t n d (cloneRecord r) = is_request env c t n d r"
  by (simp add: is_request_def cloneRecord_def Terminal_def rec_key_def)

lemma turnKey_trim [simp]: "turnKey (TrimSpace c) (TrimSpace t) = turnKey c t"
  by (simp add: turnKey_def)

lemma ops_stored:
  assumes "ops_inv env m" "r \<in> set (map snd (m_ops m))"
  shows "Get (op_ID r) m = Some (cloneRecord r)"
proof -
  obtain k where "(k, r) \<in> set (m_ops m)" using assms(2) by auto
  then have "map_of (m_ops m) k = Some r" using assms(1) by (simp add: ops_inv_def)
  then show ?thesis using assms(1) by (auto simp: ops_inv_def Get_def)
qed

text \<open>The lookup by request finds a live waiting operation of the turn with the same tool and the
  same arguments digest, and finds one whenever there is one; the record it returns is the stored one.\<close>

theorem FindActiveByRequest_spec:
  assumes "reachable (\<lambda>m. m = NewManager) (mgr_step env) m"
    and "TrimSpace convID \<noteq> []" "TrimSpace turnID \<noteq> []" "TrimSpace toolName \<noteq> []" "TrimSpace digest \<noteq> []"
  shows "case FindActiveByRequest env convID turnID toolName digest m of
      Some r \<Rightarrow> is_request env convID turnID toolName digest r \<and> Get (op_ID r) m = Some r
    | None \<Rightarrow> \<forall>opid r. Get opid m = Some r \<longrightarrow> \<not> is_request env convID turnID toolName digest r"
proof -
  note inv = mgr_inv_parts(1) [OF mgr.reachable_inv [OF assms(1)]]
  have eq: "FindActiveByRequest env convID turnID toolName digest m =
      map_option cloneRecord (find (is_request env convID turnID toolName digest) (map snd (m_ops m)))"
    using assms(2-5) by (simp add: FindActiveByRequest_def Let_def is_request_def [abs_def])
  show ?thesis
  proof (cases "find (is_request env convID turnID toolName digest) (map snd (m_ops m))")
    case None
    then have none: "\<not> is_request env convID turnID toolName digest r" if "r \<in> set (map snd (m_ops m))" for r
      using that by (auto simp: find_None_iff)
    have "\<not> is_request env convID turnID toolName digest r" if "Get opid m = Some r" for opid r
      using that none by (force simp: Get_def is_request_clone dest: map_of_SomeD)
    with None show ?thesis by (simp add: eq)
  next
    case (Some r)
    then have "is_request env convID turnID toolName digest r" "r \<in> set (map snd (m_ops m))"
      unfolding find_Some_iff by (metis nth_mem)+
    with Some ops_stored [OF inv, of r] show ?thesis
      by (simp add: eq is_request_clone) (simp add: cloneRecord_def)
  qed
qed

text \<open>\<open>ConsumeChanged\<close> returns the operations of the turn whose change is pending, each once: a
  second call returns none, and the pending changes of every other turn are untouched.\<close>

theorem ConsumeChanged_spec:
  assumes "ConsumeChanged convID turnID m = (out, m')"
  shows "map op_ID out = map op_ID (filter (has_change (turnKey convID turnID)) (map snd (m_ops m))) \<and>
    fst (ConsumeChanged convID turnID m') = [] \<and>
    (\<forall>key. key \<noteq> turnKey convID turnID \<longrightarrow>
       filter (has_change key) (map snd (m_ops m')) = filter (has_change key) (map snd (m_ops m)))"
proof -
  let ?k = "turnKey convID turnID"
  have eqs: "out = map (cloneRecord \<circ> consume_change ?k) (filter (has_change ?k) (map snd (m_ops m)))"
    "map snd (m_ops m') = map (consume_change ?k) (map snd (m_ops m))"
    using assms by (auto simp: ConsumeChanged_def Let_def)
  have "has_change ?k (consume_change ?k r) = False" for r
    by (auto simp: consume_change_def has_change_def)
  moreover have "filter (has_change key) (map (consume_change ?k) rs) = filter (has_change key) rs" if "key \<noteq> ?k" for key rs
  proof -
    have "has_change key (consume_change ?k r) = has_change key r \<and> (has_change key r \<longrightarrow> consume_change ?k r = r)" for r
      using that by (simp add: consume_change_def has_change_def rec_key_def)
    then show ?thesis by (induction rs) simp_all
  qed
  ultimately have "fst (ConsumeChanged convID turnID m') = []"
    "\<forall>key. key \<noteq> ?k \<longrightarrow> filter (has_change key) (map snd (m_ops m')) = filter (has_change key) (map snd (m_ops m))"
    unfolding eqs(2) by (simp add: eqs(2) ConsumeChanged_def Let_def filter_empty_conv del: map_map, blast)
  moreover have "op_ID (cloneRecord r) = op_ID r" for r by (simp add: cloneRecord_def)
  ultimately show ?thesis by (simp add: eqs(1) comp_def consume_change_inv)
qed

lemma sep_split: "a @ x # s = b @ x # s' \<Longrightarrow> x \<notin> set a \<Longrightarrow> x \<notin> set b \<Longrightarrow> a = b \<and> s = s'"
proof (induction a arbitrary: b)
  case Nil
  then show ?case by (cases b) auto
next
  case (Cons y a)
  then show ?case by (cases b) auto
qed

text \<open>Turn keys tell turns apart: when conversation ids contain no \<open>|\<close>, two keys are equal exactly
  when the trimmed conversation and turn ids are.\<close>

theorem turnKey_inj:
  assumes "CHR ''|'' \<notin> set (TrimSpace c)" "CHR ''|'' \<notin> set (TrimSpace c')"
  shows "turnKey c t = turnKey c' t' \<longleftrightarrow> TrimSpace c = TrimSpace c' \<and> TrimSpace t = TrimSpace t'"
  using assms sep_split [of "TrimSpace c" "CHR ''|''" "TrimSpace t" "TrimSpace c'" "TrimSpace t'"]
  by (auto simp: turnKey_def)

theorem turnKey_inj_witness: "turnKey ''conv'' ''t1'' \<noteq> turnKey ''conv'' ''t2''"
proof -
  have "CHR ''|'' \<notin> set (TrimSpace ''conv'')" "TrimSpace ''t1'' \<noteq> TrimSpace ''t2''" by code_simp+
  with turnKey_inj [of "''conv''" "''conv''" "''t1''" "''t2''"] show ?thesis by simp
qed

text \<open>Cancelling a turn calls the stored cancel functions of exactly the pollers of that turn's
  operations and forgets none of them.\<close>

theorem CancelTurnPollers_scope:
  assumes "reachable (\<lambda>m. m = NewManager) (mgr_step env) m" "m' = CancelTurnPollers convID turnID m"
  shows "set (m_canceled m') = set (m_canceled m) \<union>
      {c. \<exists>opid r. map_of (m_ops m) opid = Some r \<and> rec_key r = turnKey convID turnID \<and> map_of (m_pollerCancels m) opid = Some c} \<and>
    m_pollerCancels m' = m_pollerCancels m"
proof -
  note inv = mgr_inv_parts(1) [OF mgr.reachable_inv [OF assms(1)]]
  have step: "set (m_canceled (fire_cancel i n)) = set (m_canceled n) \<union> set_option (map_of (m_pollerCancels n) i)" for i n
    by (auto simp: fire_cancel_def split: option.splits)
  have all: "set (m_canceled (fold (\<lambda>r. fire_cancel (op_ID r)) rs n)) =
        set (m_canceled n) \<union> {c. \<exists>r \<in> set rs. map_of (m_pollerCancels n) (op_ID r) = Some c} \<and>
      m_pollerCancels (fold (\<lambda>r. fire_cancel (op_ID r)) rs n) = m_pollerCancels n" for rs n
    by (induction rs arbitrary: n) (auto simp: step)
  have "(\<exists>r \<in> set (filter (\<lambda>r. rec_key r = turnKey convID turnID) (map snd (m_ops m))). map_of (m_pollerCancels m) (op_ID r) = Some c) \<longleftrightarrow>
      (\<exists>opid r. map_of (m_ops m) opid = Some r \<and> rec_key r = turnKey convID turnID \<and> map_of (m_pollerCancels m) opid = Some c)" for c
  proof
    assume "\<exists>r \<in> set (filter (\<lambda>r. rec_key r = turnKey convID turnID) (map snd (m_ops m))). map_of (m_pollerCancels m) (op_ID r) = Some c"
    then obtain k r where "(k, r) \<in> set (m_ops m)" "rec_key r = turnKey convID turnID" "map_of (m_pollerCancels m) (op_ID r) = Some c"
      by auto
    moreover then have "map_of (m_ops m) k = Some r" using inv by (simp add: ops_inv_def)
    ultimately show "\<exists>opid r. map_of (m_ops m) opid = Some r \<and> rec_key r = turnKey convID turnID \<and> map_of (m_pollerCancels m) opid = Some c"
      using ops_inv_get [OF inv] by metis
  next
    assume "\<exists>opid r. map_of (m_ops m) opid = Some r \<and> rec_key r = turnKey convID turnID \<and> map_of (m_pollerCancels m) opid = Some c"
    then obtain k r where r: "map_of (m_ops m) k = Some r" "rec_key r = turnKey convID turnID" "map_of (m_pollerCancels m) k = Some c"
      by blast
    moreover have "r \<in> set (map snd (m_ops m))" using map_of_SomeD [OF r(1)] by force
    ultimately show "\<exists>r \<in> set (filter (\<lambda>r. rec_key r = turnKey convID turnID) (map snd (m_ops m))). map_of (m_pollerCancels m) (op_ID r) = Some c"
      using ops_inv_get [OF inv r(1)] by auto
  qed
  with all [of "filter (\<lambda>r. rec_key r = turnKey convID turnID) (map snd (m_ops m))" m] assms(2)
  show ?thesis by (simp add: CancelTurnPollers_def)
qed

theorem CancelTurnPollers_scope_witness: "1 \<in> set (m_canceled (CancelTurnPollers ''c'' ''t'' demo_polled))"
proof -
  let ?r = "the (map_of (m_ops demo_polled) ''b'')"
  have "map_of (m_ops demo_polled) ''b'' = Some ?r" "rec_key ?r = turnKey ''c'' ''t''"
    "map_of (m_pollerCancels demo_polled) ''b'' = Some 1" by code_simp+
  with CancelTurnPollers_scope [OF demo_polled_reachable refl, of "''c''" "''t''"] show ?thesis by blast
qed

end
