(* ===== verification/StreamBus.thy ===== *)
theory StreamBus
  imports GoChan
begin

text \<open>
  The in-memory streaming bus, \<open>runtime/streaming/memory.go\<close>. Publishers number the events of a
  stream and hand them to the subscribers; a subscriber whose buffer is full is closed with the
  reason \<open>overflow\<close> so that it never stalls a publisher.

  A subscription is referred to by its position in the list of all subscriptions ever made, as Go
  refers to it by pointer; the registry maps the subscription's id to it. Events are values: the bus
  writes the sequence number before it shares the event and nothing afterwards. The part of an event
  that the bus does not read is the type parameter \<open>'p\<close>. Log output is left out.
\<close>

section \<open>Data\<close>

record 'p Event =
  se_StreamID :: string
  se_ConversationID :: string
  se_EventSeq :: int
  se_rest :: 'p

definition ReasonClosed :: string where "ReasonClosed = ''closed''"
definition ReasonOverflow :: string where "ReasonOverflow = ''overflow''"

record 'p memorySub =
  ms_id :: string
  ms_filter :: "('p Event \<Rightarrow> bool) option"
  ms_ch :: nat
  ms_closed :: bool
  ms_reason :: string
  ms_lastSeq :: int

record 'p MemoryBus =
  b_closed :: bool
  b_defaultBuffer :: int
  b_subs :: "(string \<times> nat) list"
  b_seq :: "(string \<times> int) list"
  b_all :: "'p memorySub list"
  b_heap :: "'p Event cheap"

datatype bus_error = ErrClosed

record 'p subscribeConfig =
  sc_buffer :: int
  sc_filter :: "('p Event \<Rightarrow> bool) option"

section \<open>Operations\<close>

definition WithBuffer :: "int \<Rightarrow> 'p subscribeConfig \<Rightarrow> 'p subscribeConfig" where
  "WithBuffer n c = c\<lparr>sc_buffer := n\<rparr>"

definition WithFilter :: "('p Event \<Rightarrow> bool) option \<Rightarrow> 'p subscribeConfig \<Rightarrow> 'p subscribeConfig" where
  "WithFilter f c = c\<lparr>sc_filter := f\<rparr>"

definition NewMemoryBus :: "int \<Rightarrow> 'p MemoryBus" where
  "NewMemoryBus buffer = \<lparr>b_closed = False, b_defaultBuffer = (if buffer \<le> 0 then 64 else buffer),
     b_subs = [], b_seq = [], b_all = [], b_heap = empty_heap\<rparr>"

text \<open>The locked section of \<open>Publish\<close>: the numbered event and the subscriptions it goes to.\<close>

definition stream_of :: "'p Event \<Rightarrow> string" where
  "stream_of event = (if se_ConversationID event = [] then se_StreamID event else se_ConversationID event)"

definition seq_of :: "'p MemoryBus \<Rightarrow> string \<Rightarrow> int" where
  "seq_of b sid = (case map_of (b_seq b) sid of None \<Rightarrow> 0 | Some n \<Rightarrow> n)"

definition Publish_begin :: "'p Event \<Rightarrow> 'p MemoryBus \<Rightarrow> (bus_error + 'p Event \<times> nat list) \<times> 'p MemoryBus" where
  "Publish_begin event b =
     (if b_closed b then (Inl ErrClosed, b)
      else let streamID = stream_of event;
               (event', b') =
                 (if streamID \<noteq> [] \<and> se_EventSeq event = 0
                  then let n = wrap64 (seq_of b streamID + 1)
                       in (event\<lparr>se_EventSeq := n\<rparr>, b\<lparr>b_seq := AList.update streamID n (b_seq b)\<rparr>)
                  else (event, b))
           in (Inr (event', map snd (b_subs b')), b'))"

definition removeSubLocked :: "string \<Rightarrow> 'p MemoryBus \<Rightarrow> 'p MemoryBus" where
  "removeSubLocked sid b = b\<lparr>b_subs := AList.delete sid (b_subs b)\<rparr>"

text \<open>\<open>deliver\<close> to the subscription at position \<open>i\<close>. When the publisher's context is done and the
  channel has room both cases of the \<open>select\<close> are ready; \<open>pickDone\<close> is the choice it makes.\<close>

definition deliver :: "bool \<Rightarrow> bool \<Rightarrow> nat \<Rightarrow> 'p Event \<Rightarrow> 'p MemoryBus \<Rightarrow> 'p MemoryBus" where
  "deliver ctxDone pickDone i event b =
     (let s = b_all b ! i in
      if ms_closed s then b
      else let s1 = (if se_EventSeq event > ms_lastSeq s then s\<lparr>ms_lastSeq := se_EventSeq event\<rparr> else s);
               b1 = b\<lparr>b_all := (b_all b)[i := s1]\<rparr>;
               c = cells (b_heap b) ! ms_ch s;
               room = (length (ch_buf c) < ch_cap c)
           in if ctxDone \<and> (\<not> room \<or> pickDone) then b1
              else if room then b1\<lparr>b_heap := try_send event (ms_ch s) (b_heap b1)\<rparr>
              else removeSubLocked (ms_id s)
                     (b1\<lparr>b_all := (b_all b1)[i := s1\<lparr>ms_reason := ReasonOverflow, ms_closed := True\<rparr>],
                         b_heap := close_at (ms_ch s) (b_heap b1)\<rparr>))"

definition deliver_if :: "bool \<Rightarrow> bool \<Rightarrow> 'p Event \<Rightarrow> nat \<Rightarrow> 'p MemoryBus \<Rightarrow> 'p MemoryBus" where
  "deliver_if ctxDone pickDone event i b =
     (case ms_filter (b_all b ! i) of
        Some f \<Rightarrow> if f event then deliver ctxDone pickDone i event b else b
      | None \<Rightarrow> deliver ctxDone pickDone i event b)"

text \<open>An undisturbed \<open>Publish\<close>; a nil event is ignored.\<close>

definition Publish :: "bool \<Rightarrow> bool \<Rightarrow> 'p Event option \<Rightarrow> 'p MemoryBus \<Rightarrow> bus_error option \<times> 'p MemoryBus" where
  "Publish ctxDone pickDone event b =
     (case event of None \<Rightarrow> (None, b)
      | Some e \<Rightarrow> (case Publish_begin e b of
          (Inl err, b') \<Rightarrow> (Some err, b')
        | (Inr (e', subs), b') \<Rightarrow> (None, fold (deliver_if ctxDone pickDone e') subs b')))"

text \<open>\<open>uid\<close> is the id that \<open>uuid.NewString\<close> returns.\<close>

definition subscribe :: "string \<Rightarrow> ('p Event \<Rightarrow> bool) option \<Rightarrow> int \<Rightarrow> 'p MemoryBus \<Rightarrow> (bus_error + nat) \<times> 'p MemoryBus" where
  "subscribe uid f buffer0 b =
     (let buffer = (if buffer0 \<le> 0 then b_defaultBuffer b else buffer0) in
      if b_closed b then (Inl ErrClosed, b)
      else let (ch, h) = new_chan (nat buffer) (b_heap b);
               i = length (b_all b);
               sub = \<lparr>ms_id = uid, ms_filter = f, ms_ch = ch, ms_closed = False, ms_reason = [], ms_lastSeq = 0\<rparr>
           in (Inr i, b\<lparr>b_heap := h, b_all := b_all b @ [sub], b_subs := AList.update uid i (b_subs b)\<rparr>))"

definition bus_Subscribe :: "string \<Rightarrow> ('p Event \<Rightarrow> bool) option \<Rightarrow> 'p MemoryBus \<Rightarrow> (bus_error + nat) \<times> 'p MemoryBus" where
  "bus_Subscribe uid f b = subscribe uid f (b_defaultBuffer b) b"

definition SubscribeOpts ::
  "string \<Rightarrow> ('p subscribeConfig \<Rightarrow> 'p subscribeConfig) option list \<Rightarrow> 'p MemoryBus \<Rightarrow> (bus_error + nat) \<times> 'p MemoryBus" where
  "SubscribeOpts uid opts b =
     (let cfg = fold (\<lambda>o' c. case o' of None \<Rightarrow> c | Some f \<Rightarrow> f c) opts \<lparr>sc_buffer = b_defaultBuffer b, sc_filter = None\<rparr>
      in subscribe uid (sc_filter cfg) (sc_buffer cfg) b)"

definition closeWithReason :: "string \<Rightarrow> nat \<Rightarrow> 'p MemoryBus \<Rightarrow> 'p MemoryBus" where
  "closeWithReason reason i b =
     (let s = b_all b ! i in
      if ms_closed s then b
      else removeSubLocked (ms_id s)
             (b\<lparr>b_all := (b_all b)[i := s\<lparr>ms_closed := True, ms_reason := reason\<rparr>],
                b_heap := close_at (ms_ch s) (b_heap b)\<rparr>))"

definition sub_Close :: "nat \<Rightarrow> 'p MemoryBus \<Rightarrow> 'p MemoryBus" where
  "sub_Close i b = closeWithReason ReasonClosed i b"

text \<open>\<open>Close\<close>: the locked section, then the closing of each subscription it took out.\<close>

definition bus_Close_begin :: "'p MemoryBus \<Rightarrow> nat list \<times> 'p MemoryBus" where
  "bus_Close_begin b = (map snd (b_subs b), b\<lparr>b_subs := [], b_closed := True\<rparr>)"

definition bus_Close :: "'p MemoryBus \<Rightarrow> 'p MemoryBus" where
  "bus_Close b = (case bus_Close_begin b of (subs, b') \<Rightarrow> fold (closeWithReason ReasonClosed) subs b')"

definition Reason :: "nat \<Rightarrow> 'p MemoryBus \<Rightarrow> string" where "Reason i b = ms_reason (b_all b ! i)"
definition LastSeq :: "nat \<Rightarrow> 'p MemoryBus \<Rightarrow> int" where "LastSeq i b = ms_lastSeq (b_all b ! i)"

section \<open>The bus as a transition system\<close>

text \<open>Deliveries of several publishers interleave with each other and with everything else: a step
  delivers any event to any subscription, which includes every interleaving of \<open>Publish\<close>.\<close>

inductive bus_step :: "'p MemoryBus \<Rightarrow> 'p MemoryBus \<Rightarrow> bool" where
  bus_publish: "bus_step b (snd (Publish_begin e b))"
| bus_deliver: "i < length (b_all b) \<Longrightarrow> bus_step b (deliver ctxDone pickDone i e b)"
| bus_subscribe: "bus_step b (snd (subscribe uid f buffer b))"
| bus_recv: "recv ch (b_heap b) = (r, h) \<Longrightarrow> bus_step b (b\<lparr>b_heap := h\<rparr>)"
| bus_closeSub: "i < length (b_all b) \<Longrightarrow> bus_step b (closeWithReason reason i b)"
| bus_closeAll: "bus_step b (snd (bus_Close_begin b))"
| bus_remove: "bus_step b (removeSubLocked sid b)"

text \<open>A subscription is closed exactly when its channel is; channels are not shared; the registry
  names subscriptions that exist.\<close>

definition bus_inv :: "'p MemoryBus \<Rightarrow> bool" where
  "bus_inv b \<longleftrightarrow> \<not> panicked (b_heap b) \<and> distinct (map ms_ch (b_all b)) \<and>
     (\<forall>s \<in> set (b_all b). ms_ch s < length (cells (b_heap b)) \<and> (open_at (b_heap b) (ms_ch s) \<longleftrightarrow> \<not> ms_closed s)) \<and>
     distinct (keys (b_subs b)) \<and>
     (\<forall>(k, i) \<in> set (b_subs b). i < length (b_all b) \<and> ms_id (b_all b ! i) = k \<and> \<not> ms_closed (b_all b ! i))"

lemma bus_inv_sub:
  assumes "bus_inv b" "i < length (b_all b)"
  shows "ms_ch (b_all b ! i) < length (cells (b_heap b))" "open_at (b_heap b) (ms_ch (b_all b ! i)) \<longleftrightarrow> \<not> ms_closed (b_all b ! i)"
  using assms nth_mem [of i "b_all b"] by (auto simp: bus_inv_def)

lemma bus_inv_other:
  "bus_inv b \<Longrightarrow> i < length (b_all b) \<Longrightarrow> j < length (b_all b) \<Longrightarrow> ms_ch (b_all b ! i) = ms_ch (b_all b ! j) \<longleftrightarrow> i = j"
  using nth_eq_iff_index_eq [of "map ms_ch (b_all b)" i j] by (auto simp: bus_inv_def)

lemma removeSubLocked_inv: "bus_inv b \<Longrightarrow> bus_inv (removeSubLocked sid b)"
  by (auto simp: bus_inv_def removeSubLocked_def AList.delete_eq distinct_keys_filter)

text \<open>Replacing a subscription and its channel together; a subscription that closes leaves the registry.\<close>

definition registry_ok :: "'p MemoryBus \<Rightarrow> bool" where
  "registry_ok b \<longleftrightarrow> (\<forall>(k, i) \<in> set (b_subs b). i < length (b_all b) \<and> ms_id (b_all b ! i) = k \<and> \<not> ms_closed (b_all b ! i))"

lemma registry_replace:
  assumes "registry_ok b" "ms_id s = ms_id (b_all b ! i)" "ms_closed s \<longrightarrow> subs = AList.delete (ms_id s) (b_subs b)"
    and "\<not> ms_closed s \<longrightarrow> subs = b_subs b"
  shows "registry_ok (b\<lparr>b_all := (b_all b)[i := s], b_heap := h, b_subs := subs\<rparr>)"
proof -
  have "j < length ((b_all b)[i := s]) \<and> ms_id ((b_all b)[i := s] ! j) = k \<and> \<not> ms_closed ((b_all b)[i := s] ! j)"
    if "(k, j) \<in> set subs" for k j
  proof -
    have "(k, j) \<in> set (b_subs b)" "ms_closed s \<Longrightarrow> k \<noteq> ms_id s"
      using that assms(3,4) by (cases "ms_closed s"; auto simp: AList.delete_eq)+
    then show ?thesis using assms(1,2) by (cases "j = i") (auto simp: registry_ok_def)
  qed
  then show ?thesis by (auto simp: registry_ok_def)
qed

lemma bus_inv_alt: "bus_inv b \<longleftrightarrow> \<not> panicked (b_heap b) \<and> distinct (map ms_ch (b_all b)) \<and>
     (\<forall>s \<in> set (b_all b). ms_ch s < length (cells (b_heap b)) \<and> (open_at (b_heap b) (ms_ch s) \<longleftrightarrow> \<not> ms_closed s)) \<and>
     distinct (keys (b_subs b)) \<and> registry_ok b"
  by (simp add: bus_inv_def registry_ok_def)

lemma bus_inv_replace:
  assumes "bus_inv b" "i < length (b_all b)" "ms_ch s = ms_ch (b_all b ! i)" "ms_id s = ms_id (b_all b ! i)"
    and "\<not> panicked h" "length (cells h) = length (cells (b_heap b))"
    and "open_at h (ms_ch s) \<longleftrightarrow> \<not> ms_closed s"
    and "\<And>c. c \<noteq> ms_ch s \<Longrightarrow> open_at h c = open_at (b_heap b) c"
    and "ms_closed s \<longrightarrow> subs = AList.delete (ms_id s) (b_subs b)" "\<not> ms_closed s \<longrightarrow> subs = b_subs b"
  shows "bus_inv (b\<lparr>b_all := (b_all b)[i := s], b_heap := h, b_subs := subs\<rparr>)"
proof -
  have chs: "map ms_ch ((b_all b)[i := s]) = map ms_ch (b_all b)"
    using assms(2,3) by (intro nth_equalityI) (auto simp: nth_list_update)
  have "ms_ch t < length (cells h) \<and> (open_at h (ms_ch t) \<longleftrightarrow> \<not> ms_closed t)" if "t \<in> set ((b_all b)[i := s])" for t
  proof -
    from that have "\<exists>j < length (b_all b). (b_all b)[i := s] ! j = t" unfolding in_set_conv_nth by simp
    then obtain j where j: "j < length (b_all b)" "t = (b_all b)[i := s] ! j" by blast
    show ?thesis
    proof (cases "j = i")
      case True
      then show ?thesis using j assms(2,3,6,7) bus_inv_sub [OF assms(1,2)] by simp
    next
      case False
      then show ?thesis using j assms(2,3,6,8) bus_inv_sub [OF assms(1) j(1)] bus_inv_other [OF assms(1,2) j(1)] by auto
    qed
  qed
  moreover have "registry_ok (b\<lparr>b_all := (b_all b)[i := s], b_heap := h, b_subs := subs\<rparr>)"
    using assms(1,4,9,10) by (intro registry_replace) (simp_all add: bus_inv_alt)
  moreover have "distinct (keys subs)"
    using assms(1,9,10) by (cases "ms_closed s") (simp_all add: bus_inv_alt distinct_keys_delete)
  ultimately show ?thesis using assms(1,5) chs by (simp add: bus_inv_alt)
qed

lemma deliver_inv:
  assumes "bus_inv b" "i < length (b_all b)"
  shows "bus_inv (deliver ctxDone pickDone i e b)"
proof (cases "ms_closed (b_all b ! i)")
  case False
  define s where "s = b_all b ! i"
  define s1 where "s1 = (if se_EventSeq e > ms_lastSeq s then s\<lparr>ms_lastSeq := se_EventSeq e\<rparr> else s)"
  have op: "open_at (b_heap b) (ms_ch s)" using bus_inv_sub(2) [OF assms] False by (simp add: s_def)
  have s1: "ms_ch s1 = ms_ch s" "ms_closed s1 = ms_closed s" "ms_id s1 = ms_id s" by (simp_all add: s1_def)
  have p: "\<not> panicked (b_heap b)" using assms(1) by (simp add: bus_inv_def)
  have "bus_inv (b\<lparr>b_all := (b_all b)[i := s1]\<rparr>)"
    using bus_inv_replace [OF assms, of s1 "b_heap b" "b_subs b"] s1 op p False by (simp add: s_def)
  moreover have "bus_inv (b\<lparr>b_all := (b_all b)[i := s1], b_heap := try_send e (ms_ch s) (b_heap b)\<rparr>)"
    using bus_inv_replace [OF assms, of s1 "try_send e (ms_ch s) (b_heap b)" "b_subs b"] s1 op p False by (simp add: s_def)
  moreover have "bus_inv (b\<lparr>b_all := (b_all b)[i := s1\<lparr>ms_reason := ReasonOverflow, ms_closed := True\<rparr>],
      b_heap := close_at (ms_ch s) (b_heap b), b_subs := AList.delete (ms_id s) (b_subs b)\<rparr>)"
    using bus_inv_replace [OF assms, of "s1\<lparr>ms_reason := ReasonOverflow, ms_closed := True\<rparr>" "close_at (ms_ch s) (b_heap b)"
        "AList.delete (ms_id s) (b_subs b)"]
      s1 op p by (simp add: s_def closing.fin_open closing.fin_panicked)
  ultimately show ?thesis
    using False by (simp add: deliver_def Let_def s_def [symmetric] s1_def [symmetric] removeSubLocked_def)
qed (use assms in \<open>simp add: deliver_def\<close>)

lemma closeWithReason_inv:
  assumes "bus_inv b" "i < length (b_all b)"
  shows "bus_inv (closeWithReason reason i b)"
proof (cases "ms_closed (b_all b ! i)")
  case False
  let ?s = "b_all b ! i"
  have op: "open_at (b_heap b) (ms_ch ?s)" using bus_inv_sub(2) [OF assms] False by simp
  have "bus_inv (b\<lparr>b_all := (b_all b)[i := ?s\<lparr>ms_closed := True, ms_reason := reason\<rparr>],
      b_heap := close_at (ms_ch ?s) (b_heap b), b_subs := AList.delete (ms_id ?s) (b_subs b)\<rparr>)"
    using assms(1) by (intro bus_inv_replace [OF assms]) (simp_all add: op closing.fin_open closing.fin_panicked bus_inv_def)
  then show ?thesis using False by (simp add: closeWithReason_def Let_def removeSubLocked_def)
qed (use assms in \<open>simp add: closeWithReason_def\<close>)

lemma update_entries: "set (AList.update k v xs) \<subseteq> insert (k, v) (set xs)"
  by (induction xs) auto

lemma subscribe_inv:
  assumes "bus_inv b"
  shows "bus_inv (snd (subscribe uid f buffer b))"
proof -
  obtain ch h where new: "new_chan (nat (if buffer \<le> 0 then b_defaultBuffer b else buffer)) (b_heap b) = (ch, h)"
    by fastforce
  define s where "s = \<lparr>ms_id = uid, ms_filter = f, ms_ch = ch, ms_closed = False, ms_reason = [], ms_lastSeq = 0\<rparr>"
  have ch: "ch = length (cells (b_heap b))" "length (cells h) = Suc ch" using new by (auto simp: new_chan_def)
  have old: "ms_ch t < ch" "open_at (b_heap b) (ms_ch t) \<longleftrightarrow> \<not> ms_closed t" if "t \<in> set (b_all b)" for t
    using assms that by (auto simp: bus_inv_def ch(1))
  have "distinct (map ms_ch (b_all b @ [s]))" using assms old(1) by (auto simp: bus_inv_def s_def)
  moreover have "ms_ch t < length (cells h) \<and> (open_at h (ms_ch t) \<longleftrightarrow> \<not> ms_closed t)" if "t \<in> set (b_all b @ [s])" for t
    using that old [of t] open_at_new [OF new, of "ms_ch t"] ch(2) by (auto simp: s_def)
  moreover have "registry_ok (b\<lparr>b_heap := h, b_all := b_all b @ [s], b_subs := AList.update uid (length (b_all b)) (b_subs b)\<rparr>)"
    using assms update_entries [of uid "length (b_all b)" "b_subs b"]
    by (fastforce simp: bus_inv_alt registry_ok_def nth_append s_def)
  ultimately have "bus_inv (b\<lparr>b_heap := h, b_all := b_all b @ [s], b_subs := AList.update uid (length (b_all b)) (b_subs b)\<rparr>)"
    using assms new by (simp add: bus_inv_alt distinct_keys_update)
  with assms new show ?thesis by (simp add: subscribe_def Let_def s_def)
qed

lemma recv_heap:
  assumes "recv i h = (r, h')"
  shows "open_at h' j = open_at h j" "panicked h' = panicked h" "length (cells h') = length (cells h)"
  using assms by (auto simp: recv_def open_at_def nth_list_update split: if_splits list.splits)

lemma bus_step_inv: "bus_step b b' \<Longrightarrow> bus_inv b \<Longrightarrow> bus_inv b'"
proof (induction rule: bus_step.induct)
  case (bus_publish b e)
  then show ?case by (simp add: Publish_begin_def Let_def bus_inv_def)
next
  case (bus_recv ch b r h)
  then show ?case by (simp add: bus_inv_def recv_heap [OF bus_recv(1)])
qed (simp_all add: deliver_inv subscribe_inv closeWithReason_inv removeSubLocked_inv, simp add: bus_inv_def bus_Close_begin_def)

lemma NewMemoryBus_inv: "bus_inv (NewMemoryBus n)"
  by (simp add: NewMemoryBus_def bus_inv_def empty_heap_def)

interpretation bus: inv_system "\<lambda>b. \<exists>n. b = NewMemoryBus n" bus_step bus_inv
  by unfold_locales (blast intro: NewMemoryBus_inv bus_step_inv)+

section \<open>Properties\<close>

definition demo_bus :: "unit MemoryBus" where
  "demo_bus = snd (subscribe ''s2'' (Some (\<lambda>e. se_ConversationID e = ''c2'')) 1 (snd (subscribe ''s1'' None 1 (NewMemoryBus 0))))"

definition demo_event :: "unit Event" where
  "demo_event = \<lparr>se_StreamID = ''x'', se_ConversationID = ''c1'', se_EventSeq = 0, se_rest = ()\<rparr>"

lemma demo_bus_reachable: "reachable (\<lambda>b. \<exists>n. b = NewMemoryBus n) bus_step demo_bus"
  unfolding demo_bus_def
  by (rule reach_step, rule reach_step, rule reach_init, blast) (rule bus_subscribe)+

text \<open>C11: whatever publishers, subscribers and the shutdown do concurrently, the bus never sends on
  a closed channel nor closes one twice, and a subscription's channel is open exactly while the
  subscription is not closed.\<close>

theorem bus_never_panics:
  assumes "reachable (\<lambda>b. \<exists>n. b = NewMemoryBus n) bus_step b"
  shows "\<not> panicked (b_heap b) \<and> (\<forall>s \<in> set (b_all b). open_at (b_heap b) (ms_ch s) \<longleftrightarrow> \<not> ms_closed s)"
  using bus.reachable_inv [OF assms] by (simp add: bus_inv_def)

theorem bus_never_panics_witness: "\<not> panicked (b_heap (deliver False False 0 demo_event demo_bus))"
proof -
  have "0 < length (b_all demo_bus)" by code_simp
  from bus_never_panics [OF reach_step [OF demo_bus_reachable bus_deliver [OF this]]] show ?thesis by blast
qed

text \<open>The steps as operations that compute, so that a run of the bus is a list of them: any interleaving of
  publications (on any stream, with or without a number of their own), deliveries, subscriptions,
  receives and closings. A run returns the events published, each with what was made of it.\<close>

datatype 'p bus_op =
    Publishes "'p Event"
  | Delivers bool bool nat "'p Event"
  | Subscribes string "('p Event \<Rightarrow> bool) option" int
  | Receives nat
  | ClosesSub string nat
  | ClosesAll
  | Removes string

fun bus_do :: "'p bus_op \<Rightarrow> 'p MemoryBus \<Rightarrow> ('p Event \<times> 'p Event) list \<times> 'p MemoryBus" where
  "bus_do (Publishes e) b = (case Publish_begin e b of (Inl err, b') \<Rightarrow> ([], b') | (Inr (e', subs), b') \<Rightarrow> ([(e, e')], b'))"
| "bus_do (Delivers ctxDone pickDone i e) b = ([], deliver ctxDone pickDone i e b)"
| "bus_do (Subscribes uid f buffer) b = ([], snd (subscribe uid f buffer b))"
| "bus_do (Receives ch) b = ([], b\<lparr>b_heap := snd (recv ch (b_heap b))\<rparr>)"
| "bus_do (ClosesSub reason i) b = ([], closeWithReason reason i b)"
| "bus_do ClosesAll b = ([], snd (bus_Close_begin b))"
| "bus_do (Removes sid) b = ([], removeSubLocked sid b)"

fun bus_run :: "'p bus_op list \<Rightarrow> 'p MemoryBus \<Rightarrow> ('p Event \<times> 'p Event) list \<times> 'p MemoryBus" where
  "bus_run [] b = ([], b)"
| "bus_run (x # xs) b = (case bus_do x b of (ps, b1) \<Rightarrow> case bus_run xs b1 of (qs, b2) \<Rightarrow> (ps @ qs, b2))"

lemma bus_step_do: "bus_step b b' \<Longrightarrow> \<exists>x. b' = snd (bus_do x b)"
proof (induction rule: bus_step.induct)
  case (bus_publish b e)
  have "snd (Publish_begin e b) = snd (bus_do (Publishes e) b)" by (simp split: prod.split sum.split)
  then show ?case by blast
next
  case (bus_recv ch b r h)
  then have "b\<lparr>b_heap := h\<rparr> = snd (bus_do (Receives ch) b)" by simp
  then show ?case by blast
qed (metis bus_do.simps snd_conv)+

text \<open>The events that the bus numbers for a stream.\<close>

definition numbered :: "string \<Rightarrow> ('p Event \<times> 'p Event) list \<Rightarrow> ('p Event \<times> 'p Event) list" where
  "numbered sid ps = filter (\<lambda>(e, e'). stream_of e = sid \<and> se_EventSeq e = 0) ps"

lemma seq_of_quiet:
  "seq_of (deliver ctxDone pickDone i e b) sid = seq_of b sid" "seq_of (snd (subscribe uid f buffer b)) sid = seq_of b sid"
  "seq_of (closeWithReason reason i b) sid = seq_of b sid" "seq_of (snd (bus_Close_begin b)) sid = seq_of b sid"
  "seq_of (removeSubLocked k b) sid = seq_of b sid" "seq_of (b\<lparr>b_heap := h\<rparr>) sid = seq_of b sid"
  by (simp_all add: seq_of_def deliver_def subscribe_def closeWithReason_def bus_Close_begin_def removeSubLocked_def Let_def split: prod.split)

lemma bus_do_seq:
  assumes "bus_do x b = (ps, b1)" "sid \<noteq> []" "0 \<le> seq_of b sid" "seq_of b sid < maxInt64"
  shows "numbered sid ps = [] \<and> seq_of b1 sid = seq_of b sid \<or>
    (\<exists>e. ps = [(e, e\<lparr>se_EventSeq := seq_of b sid + 1\<rparr>)] \<and> numbered sid ps = ps \<and> seq_of b1 sid = seq_of b sid + 1)"
proof (cases x)
  case (Publishes e)
  have w: "wrap64 (seq_of b sid + 1) = seq_of b sid + 1" using assms(3,4) by (intro wrap64_id) simp_all
  show ?thesis
  proof (cases "\<not> b_closed b \<and> stream_of e \<noteq> [] \<and> se_EventSeq e = 0")
    case True
    then show ?thesis using assms(1,2) w
      by (cases "stream_of e = sid") (auto simp: Publishes Publish_begin_def Let_def numbered_def seq_of_def alist_update)
  next
    case False
    then show ?thesis using assms(1,2) by (auto simp: Publishes Publish_begin_def Let_def numbered_def split: if_splits)
  qed
qed (use assms(1) in \<open>auto simp: seq_of_quiet numbered_def\<close>)

lemma bus_do_unnumbered:
  assumes "bus_do x b = (ps, b1)" "sid \<noteq> []" "numbered sid ps = []"
  shows "seq_of b1 sid = seq_of b sid"
proof (cases x)
  case (Publishes e)
  then show ?thesis using assms
    by (auto simp: numbered_def Publish_begin_def Let_def seq_of_def alist_update split: if_splits)
qed (use assms(1) in \<open>auto simp: seq_of_quiet\<close>)

lemma bus_do_kept:
  "bus_do x b = (ps, b1) \<Longrightarrow> list_all (\<lambda>(e, e'). e' = e\<lparr>se_EventSeq := se_EventSeq e'\<rparr> \<and> (se_EventSeq e \<noteq> 0 \<longrightarrow> e' = e)) ps"
  by (cases x) (auto simp: Publish_begin_def Let_def split: if_splits)

text \<open>C30: the bus numbers the events of each stream consecutively: in every run of the bus (any
  interleaving of publications on all streams, deliveries, subscriptions, receives and closings) the
  events of a stream published without a number of their own get the numbers that follow the last
  number given for that stream, one by one in the order of publication; an event that has a number
  keeps it and does not move the numbering, and nothing else of an event changes.\<close>

theorem events_numbered_in_order:
  assumes "sid \<noteq> []" "bus_run xs b = (ps, b')"
    and "0 \<le> seq_of b sid" "seq_of b sid + int (length (numbered sid ps)) \<le> maxInt64"
  shows "map (\<lambda>(e, e'). se_EventSeq e') (numbered sid ps) = map (\<lambda>i. seq_of b sid + 1 + int i) [0..<length (numbered sid ps)] \<and>
    seq_of b' sid = seq_of b sid + int (length (numbered sid ps)) \<and>
    list_all (\<lambda>(e, e'). e' = e\<lparr>se_EventSeq := se_EventSeq e'\<rparr> \<and> (se_EventSeq e \<noteq> 0 \<longrightarrow> e' = e)) ps"
  using assms
proof (induction xs arbitrary: b ps)
  case (Cons x xs)
  obtain ps1 b1 qs where r: "bus_do x b = (ps1, b1)" "bus_run xs b1 = (qs, b')" "ps = ps1 @ qs"
    using Cons.prems(2) by (auto split: prod.splits)
  note kept = bus_do_kept [OF r(1)]
  have n: "numbered sid ps = numbered sid ps1 @ numbered sid qs" by (simp add: numbered_def r(3))
  show ?case
  proof (cases "numbered sid ps1 = [] \<and> seq_of b1 sid = seq_of b sid")
    case True
    with Cons.IH [OF Cons.prems(1) r(2)] Cons.prems(3,4) n kept show ?thesis by (simp add: r(3))
  next
    case False
    have "seq_of b sid < maxInt64"
    proof (rule ccontr)
      assume "\<not> seq_of b sid < maxInt64"
      then have "length (numbered sid ps1) = 0" using Cons.prems(4) n by (simp del: length_0_conv)
      then have "numbered sid ps1 = []" by simp
      with bus_do_unnumbered [OF r(1) Cons.prems(1)] have "seq_of b1 sid = seq_of b sid" by simp
      with False \<open>numbered sid ps1 = []\<close> show False by simp
    qed
    from bus_do_seq [OF r(1) Cons.prems(1,3) this] False obtain e where
      e: "ps1 = [(e, e\<lparr>se_EventSeq := seq_of b sid + 1\<rparr>)]" "numbered sid ps1 = ps1" "seq_of b1 sid = seq_of b sid + 1" by blast
    with Cons.IH [OF Cons.prems(1) r(2)] Cons.prems(3,4) n kept show ?thesis
      by (simp add: r(3) upt_conv_Cons map_Suc_upt [symmetric] comp_def add.assoc del: upt_Suc)
  qed
qed (simp add: numbered_def)

theorem events_numbered_in_order_witness:
  "case bus_run [Publishes demo_event, Publishes (demo_event\<lparr>se_EventSeq := 7\<rparr>), Delivers False False 0 demo_event,
      Publishes (demo_event\<lparr>se_ConversationID := ''c2''\<rparr>), Publishes demo_event] demo_bus of
    (ps, b') \<Rightarrow> map (\<lambda>(e, e'). se_EventSeq e') (numbered ''c1'' ps) = [1, 2]"
proof -
  let ?xs = "[Publishes demo_event, Publishes (demo_event\<lparr>se_EventSeq := 7\<rparr>), Delivers False False 0 demo_event,
      Publishes (demo_event\<lparr>se_ConversationID := ''c2''\<rparr>), Publishes demo_event]"
  obtain ps b' where r: "bus_run ?xs demo_bus = (ps, b')" by (metis surj_pair)
  have "(case bus_run ?xs demo_bus of (ps, b') \<Rightarrow> length (numbered ''c1'' ps) = 2) \<and> seq_of demo_bus ''c1'' = 0" by code_simp
  then have *: "length (numbered ''c1'' ps) = 2" "seq_of demo_bus ''c1'' = 0" by (simp_all only: r prod.case)
  from events_numbered_in_order [OF _ r, of "''c1''"] * have "map (\<lambda>(e, e'). se_EventSeq e') (numbered ''c1'' ps) = [1, 2]"
    by (simp add: upt_rec)
  then show ?thesis by (simp only: r prod.case)
qed

text \<open>The buffer of a subscription.\<close>

definition sub_chan :: "nat \<Rightarrow> 'p MemoryBus \<Rightarrow> 'p Event chan" where
  "sub_chan i b = cells (b_heap b) ! ms_ch (b_all b ! i)"

definition sub_full :: "nat \<Rightarrow> 'p MemoryBus \<Rightarrow> bool" where
  "sub_full i b \<longleftrightarrow> \<not> length (ch_buf (sub_chan i b)) < ch_cap (sub_chan i b)"

lemma deliver_live:
  assumes "bus_inv b" "i < length (b_all b)" "\<not> ms_closed (b_all b ! i)" "b' = deliver False pick i e b"
  shows "LastSeq i b' = max (LastSeq i b) (se_EventSeq e)"
    "\<not> sub_full i b \<Longrightarrow> ch_buf (sub_chan i b') = ch_buf (sub_chan i b) @ [e] \<and> \<not> ms_closed (b_all b' ! i) \<and> b_subs b' = b_subs b"
    "sub_full i b \<Longrightarrow> ch_buf (sub_chan i b') = ch_buf (sub_chan i b) \<and> ms_closed (b_all b' ! i) \<and> Reason i b' = ReasonOverflow \<and>
       map_of (b_subs b') (ms_id (b_all b ! i)) = None"
proof -
  let ?s = "b_all b ! i"
  have op: "open_at (b_heap b) (ms_ch ?s)" using bus_inv_sub(2) [OF assms(1,2)] assms(3) by simp
  then have lt: "ms_ch ?s < length (cells (b_heap b))" by (simp add: open_at_def)
  show "LastSeq i b' = max (LastSeq i b) (se_EventSeq e)"
    using assms(2-4) by (auto simp: deliver_def Let_def LastSeq_def removeSubLocked_def)
  show "\<not> sub_full i b \<Longrightarrow> ch_buf (sub_chan i b') = ch_buf (sub_chan i b) @ [e] \<and> \<not> ms_closed (b_all b' ! i) \<and> b_subs b' = b_subs b"
    using assms(2-4) op lt by (auto simp: deliver_def Let_def sub_full_def sub_chan_def try_send_def)
  show "sub_full i b \<Longrightarrow> ch_buf (sub_chan i b') = ch_buf (sub_chan i b) \<and> ms_closed (b_all b' ! i) \<and> Reason i b' = ReasonOverflow \<and>
       map_of (b_subs b') (ms_id (b_all b ! i)) = None"
    using assms(2-4) op lt
    by (auto simp: deliver_def Let_def sub_full_def sub_chan_def removeSubLocked_def Reason_def close_at_def alist_delete)
qed

text \<open>Delivery to a live subscription with room appends the event (first in, first out); to a full
  one it closes the subscription with the reason \<open>overflow\<close>, takes it out of the registry and drops the
  event, whose number \<open>LastSeq\<close> nevertheless counts.\<close>

theorem deliver_spec:
  assumes "reachable (\<lambda>b. \<exists>n. b = NewMemoryBus n) bus_step b" "i < length (b_all b)" "\<not> ms_closed (b_all b ! i)"
    and "b' = deliver False pick i e b"
  shows "LastSeq i b' = max (LastSeq i b) (se_EventSeq e) \<and>
    (if sub_full i b
     then ch_buf (sub_chan i b') = ch_buf (sub_chan i b) \<and> ms_closed (b_all b' ! i) \<and> Reason i b' = ReasonOverflow \<and>
       map_of (b_subs b') (ms_id (b_all b ! i)) = None
     else ch_buf (sub_chan i b') = ch_buf (sub_chan i b) @ [e] \<and> \<not> ms_closed (b_all b' ! i) \<and> b_subs b' = b_subs b)"
  using deliver_live [OF bus.reachable_inv [OF assms(1)] assms(2-4)] by simp

text \<open>An operation on one subscription leaves the others alone.\<close>

definition untouched :: "nat \<Rightarrow> 'p MemoryBus \<Rightarrow> 'p MemoryBus \<Rightarrow> bool" where
  "untouched i b b' \<longleftrightarrow> b_all b' ! i = b_all b ! i \<and> sub_chan i b' = sub_chan i b"

lemma untouched_trans: "untouched i a b \<Longrightarrow> untouched i b c \<Longrightarrow> untouched i a c"
  by (simp add: untouched_def)

lemma untouched_refl [simp]: "untouched i b b"
  by (simp add: untouched_def)

lemma deliver_other:
  assumes "bus_inv b" "i < length (b_all b)" "j < length (b_all b)" "i \<noteq> j"
  shows "untouched i b (deliver c p j e b)" "untouched i b (closeWithReason r j b)"
proof -
  have ne: "ms_ch (b_all b ! i) \<noteq> ms_ch (b_all b ! j)" using bus_inv_other [OF assms(1-3)] assms(4) by simp
  show "untouched i b (deliver c p j e b)"
    using ne assms(4)
    by (simp add: untouched_def sub_chan_def deliver_def Let_def removeSubLocked_def try_send_cells close_at_cells)
  show "untouched i b (closeWithReason r j b)"
    using ne assms(4)
    by (simp add: untouched_def sub_chan_def closeWithReason_def Let_def removeSubLocked_def close_at_cells)
qed

lemma length_all [simp]:
  "length (b_all (deliver c p j e b)) = length (b_all b)" "length (b_all (deliver_if c p e j b)) = length (b_all b)"
  "length (b_all (closeWithReason r j b)) = length (b_all b)"
  by (simp_all add: deliver_if_def deliver_def closeWithReason_def Let_def removeSubLocked_def split: option.splits)

text \<open>A pass over different subscriptions handles each of them as if it were alone.\<close>

lemma fold_subs:
  assumes "bus_inv b" "distinct js" "\<forall>j \<in> set js. j < length (b_all b)" "i \<in> set js"
    and step: "\<And>b j. bus_inv b \<Longrightarrow> j < length (b_all b) \<Longrightarrow> bus_inv (f j b)"
    and len: "\<And>b j. length (b_all (f j b)) = length (b_all b)"
    and other: "\<And>b j k. bus_inv b \<Longrightarrow> k < length (b_all b) \<Longrightarrow> j < length (b_all b) \<Longrightarrow> k \<noteq> j \<Longrightarrow> untouched k b (f j b)"
  shows "\<exists>b0. bus_inv b0 \<and> length (b_all b0) = length (b_all b) \<and> untouched i b b0 \<and> untouched i (f i b0) (fold f js b)"
  using assms(1-4)
proof (induction js arbitrary: b)
  case (Cons j js)
  have j: "j < length (b_all b)" "bus_inv (f j b)" "distinct js" "j \<notin> set js" "\<forall>k \<in> set js. k < length (b_all (f j b))"
    using Cons.prems step len by auto
  show ?case
  proof (cases "i = j")
    case True
    have "untouched i c (fold f js c)" if "bus_inv c" "length (b_all c) = length (b_all b)" "set js \<subseteq> {k. k < length (b_all b) \<and> k \<noteq> i}" for c js
      using that
    proof (induction js arbitrary: c)
      case (Cons k ks)
      have "untouched i c (f k c)" using Cons.prems other [of c i k] j(1) True by auto
      moreover have "untouched i (f k c) (fold f ks (f k c))"
        using Cons.prems step [of c k] len by (intro Cons.IH) auto
      ultimately show ?case using untouched_trans by auto
    qed simp
    from this [of "f i b" js] show ?thesis
      using True j len Cons.prems(1,3) by (intro exI [of _ b]) auto
  next
    case False
    obtain b0 where b0: "bus_inv b0" "length (b_all b0) = length (b_all (f j b))" "untouched i (f j b) b0"
        "untouched i (f i b0) (fold f js (f j b))"
      using Cons.IH [OF j(2,3,5)] False Cons.prems(4) by auto
    have "untouched i b (f j b)" using False Cons.prems j(1) by (intro other) auto
    then have "untouched i b b0" using b0(3) by (rule untouched_trans)
    moreover have "length (b_all b0) = length (b_all b)" using b0(2) len [of j b] by (rule trans)
    moreover have "untouched i (f i b0) (fold f (j # js) b)" using b0(4) by simp
    ultimately have "\<exists>b0. bus_inv b0 \<and> length (b_all b0) = length (b_all b) \<and> untouched i b b0 \<and> untouched i (f i b0) (fold f (j # js) b)"
      using b0(1) by blast
    then show ?thesis by blast
  qed
qed simp

lemma bus_inv_entry:
  "bus_inv b \<Longrightarrow> (k, i) \<in> set (b_subs b) \<Longrightarrow> i < length (b_all b) \<and> ms_id (b_all b ! i) = k \<and> \<not> ms_closed (b_all b ! i)"
  unfolding bus_inv_def by blast

lemma registered:
  assumes "bus_inv b"
  shows "distinct (map snd (b_subs b))" "\<forall>i \<in> set (map snd (b_subs b)). i < length (b_all b) \<and> \<not> ms_closed (b_all b ! i)"
proof -
  have "inj_on snd (set (b_subs b))"
  proof (rule inj_onI)
    fix x y assume xy: "x \<in> set (b_subs b)" "y \<in> set (b_subs b)" and eq: "snd x = snd y"
    obtain k i l j where "x = (k, i)" "y = (l, j)" by (metis prod.exhaust)
    with xy eq bus_inv_entry [OF assms, of k i] bus_inv_entry [OF assms, of l i] show "x = y" by simp
  qed
  moreover have "distinct (b_subs b)" using assms by (simp add: bus_inv_def distinct_map)
  ultimately show "distinct (map snd (b_subs b))" by (simp add: distinct_map)
  show "\<forall>i \<in> set (map snd (b_subs b)). i < length (b_all b) \<and> \<not> ms_closed (b_all b ! i)"
    using bus_inv_entry [OF assms] by force
qed

lemma deliver_if_inv: "bus_inv b \<Longrightarrow> i < length (b_all b) \<Longrightarrow> bus_inv (deliver_if c p e i b)"
  by (auto simp: deliver_if_def deliver_inv split: option.splits)

lemma deliver_if_other:
  "bus_inv b \<Longrightarrow> k < length (b_all b) \<Longrightarrow> j < length (b_all b) \<Longrightarrow> k \<noteq> j \<Longrightarrow> untouched k b (deliver_if c p e j b)"
  by (auto simp: deliver_if_def deliver_other split: option.splits)

definition accepts :: "'p MemoryBus \<Rightarrow> nat \<Rightarrow> 'p Event \<Rightarrow> bool" where
  "accepts b i e \<longleftrightarrow> (case ms_filter (b_all b ! i) of None \<Rightarrow> True | Some f \<Rightarrow> f e)"

lemma Publish_begin_frame:
  assumes "Publish_begin e b = (Inr (e', subs), b0)"
  shows "b_all b0 = b_all b" "b_heap b0 = b_heap b" "b_subs b0 = b_subs b" "subs = map snd (b_subs b)"
  using assms by (auto simp: Publish_begin_def Let_def split: if_splits)

text \<open>An undisturbed publication reaches every registered subscriber independently of the others:
  one whose filter accepts the numbered event and whose buffer has room gets it appended, a full one
  is closed with the reason \<open>overflow\<close>, and one whose filter rejects it is left as it was.\<close>

theorem Publish_fanout:
  assumes "reachable (\<lambda>b. \<exists>n. b = NewMemoryBus n) bus_step b" "i \<in> set (map snd (b_subs b))"
    and "Publish_begin e b = (Inr (e', subs), b0)" "Publish False pick (Some e) b = (err, b')"
  shows "err = None \<and> ch_buf (sub_chan i b') = ch_buf (sub_chan i b) @ (if accepts b i e' \<and> \<not> sub_full i b then [e'] else []) \<and>
    (ms_closed (b_all b' ! i) \<longleftrightarrow> accepts b i e' \<and> sub_full i b) \<and>
    Reason i b' = (if accepts b i e' \<and> sub_full i b then ReasonOverflow else Reason i b)"
proof -
  note inv = bus.reachable_inv [OF assms(1)] and reg = registered [OF bus.reachable_inv [OF assms(1)]]
  note fr = Publish_begin_frame [OF assms(3)]
  have inv0: "bus_inv b0" using inv fr by (simp add: bus_inv_def)
  have b': "err = None" "b' = fold (deliver_if False pick e') subs b0" using assms(3,4) by (auto simp: Publish_def)
  obtain b1 where b1: "bus_inv b1" "length (b_all b1) = length (b_all b0)" "untouched i b0 b1"
      "untouched i (deliver_if False pick e' i b1) b'"
    using fold_subs [OF inv0, of subs i "deliver_if False pick e'"] reg assms(2) fr
    by (auto simp: b'(2) deliver_if_inv deliver_if_other)
  have same: "b_all b1 ! i = b_all b ! i" "sub_chan i b1 = sub_chan i b"
    using b1(3) fr by (auto simp: untouched_def sub_chan_def)
  have i: "i < length (b_all b1)" "\<not> ms_closed (b_all b1 ! i)" using b1(2) fr same reg assms(2) by auto
  have full: "sub_full i b1 = sub_full i b" "Reason i b1 = Reason i b" using same by (simp_all add: sub_full_def Reason_def)
  have d: "deliver_if False pick e' i b1 = (if accepts b i e' then deliver False pick i e' b1 else b1)"
    using same by (auto simp: deliver_if_def accepts_def split: option.splits)
  have r: "\<not> sub_full i b1 \<Longrightarrow> Reason i (deliver False pick i e' b1) = Reason i b1"
    using i by (auto simp: deliver_def Let_def Reason_def sub_full_def sub_chan_def)
  show ?thesis
    using b1(4) deliver_live [OF b1(1) i refl, of pick e'] same i full r b'(1)
    by (auto simp: d untouched_def Reason_def split: if_splits)
qed

text \<open>After \<open>Close\<close> every subscription that was registered is closed with the reason \<open>closed\<close>,
  keeps the events already in its buffer, and the registry is empty; publishing and subscribing are
  then refused with \<open>ErrClosed\<close>.\<close>

lemma fold_close_subs: "b_subs b = [] \<Longrightarrow> b_closed b \<Longrightarrow>
  b_subs (fold (closeWithReason r) js b) = [] \<and> b_closed (fold (closeWithReason r) js b)"
  by (induction js arbitrary: b) (simp_all add: closeWithReason_def Let_def removeSubLocked_def)

theorem bus_Close_spec:
  assumes "reachable (\<lambda>b. \<exists>n. b = NewMemoryBus n) bus_step b" "b' = bus_Close b"
  shows "(\<forall>i \<in> set (map snd (b_subs b)). ms_closed (b_all b' ! i) \<and> Reason i b' = ReasonClosed \<and>
      ch_buf (sub_chan i b') = ch_buf (sub_chan i b)) \<and> b_subs b' = [] \<and>
    fst (Publish c pick (Some e) b') = Some ErrClosed \<and> subscribe uid f buffer b' = (Inl ErrClosed, b')"
proof -
  note inv = bus.reachable_inv [OF assms(1)]
  define b0 where "b0 = b\<lparr>b_subs := [], b_closed := True\<rparr>"
  have b': "b' = fold (closeWithReason ReasonClosed) (map snd (b_subs b)) b0"
    unfolding assms(2) by (simp add: bus_Close_def bus_Close_begin_def b0_def)
  have inv0: "bus_inv b0" using inv by (simp add: bus_inv_def b0_def)
  have fr: "b_all b0 = b_all b" "b_heap b0 = b_heap b" "b_subs b0 = []" "b_closed b0" by (simp_all add: b0_def)
  have one: "ms_closed (b_all b' ! i) \<and> Reason i b' = ReasonClosed \<and> ch_buf (sub_chan i b') = ch_buf (sub_chan i b)"
    if "i \<in> set (map snd (b_subs b))" for i
  proof -
    have reg: "i < length (b_all b)" "\<not> ms_closed (b_all b ! i)" using registered(2) [OF inv] that by auto
    have "\<exists>b1. bus_inv b1 \<and> length (b_all b1) = length (b_all b0) \<and> untouched i b0 b1 \<and>
        untouched i (closeWithReason ReasonClosed i b1) b'"
      unfolding b'
    proof (rule fold_subs [OF inv0])
      show "distinct (map snd (b_subs b))" "\<forall>j \<in> set (map snd (b_subs b)). j < length (b_all b0)"
        using registered [OF inv] fr by simp_all
      show "i \<in> set (map snd (b_subs b))" using that .
    qed (simp_all add: closeWithReason_inv deliver_other)
    then obtain b1 where b1: "bus_inv b1" "length (b_all b1) = length (b_all b0)" "untouched i b0 b1"
        "untouched i (closeWithReason ReasonClosed i b1) b'" by blast
    have same: "b_all b1 ! i = b_all b ! i" "sub_chan i b1 = sub_chan i b"
      using b1(3) fr by (auto simp: untouched_def sub_chan_def)
    have i: "i < length (b_all b1)" "\<not> ms_closed (b_all b1 ! i)" using b1(2) fr same reg by auto
    then have "open_at (b_heap b1) (ms_ch (b_all b1 ! i))" using bus_inv_sub(2) [OF b1(1)] by simp
    then have "ms_ch (b_all b1 ! i) < length (cells (b_heap b1))" "open_at (b_heap b1) (ms_ch (b_all b1 ! i))"
      by (simp_all add: open_at_def)
    then have "ms_closed (b_all (closeWithReason ReasonClosed i b1) ! i)" "Reason i (closeWithReason ReasonClosed i b1) = ReasonClosed"
      "ch_buf (sub_chan i (closeWithReason ReasonClosed i b1)) = ch_buf (sub_chan i b1)"
      using i by (simp_all add: closeWithReason_def Let_def removeSubLocked_def Reason_def sub_chan_def close_at_def)
    then show ?thesis using b1(4) same by (auto simp: untouched_def Reason_def)
  qed
  moreover have "b_subs b' = []" "b_closed b'" using fold_close_subs [OF fr(3,4)] by (simp_all add: b')
  ultimately show ?thesis by (simp add: Publish_def Publish_begin_def subscribe_def)
qed

end
