(* ===== verification/GoalModel.thy ===== *)
theory GoalModel
  imports GoPrelude
begin

text \<open>
  The domain model and the policy of autonomous goals, \<open>service/goal/{goal,spec,status,controller}.go\<close>:
  the controller maps a snapshot of a conversation to one action. Enumerations of the source are Go
  string types, so they stay strings here. Parameters: the SHA-256 sum in hexadecimal, the JSON
  encoder and decoder of a controller spec.
\<close>

section \<open>Status\<close>

type_synonym Status = string
type_synonym PauseReason = string

definition StatusActive :: Status where "StatusActive = ''active''"
definition StatusPaused :: Status where "StatusPaused = ''paused''"
definition StatusBlocked :: Status where "StatusBlocked = ''blocked''"
definition StatusComplete :: Status where "StatusComplete = ''complete''"
definition StatusBudgetLimited :: Status where "StatusBudgetLimited = ''budget_limited''"
definition StatusUsageLimited :: Status where "StatusUsageLimited = ''usage_limited''"

lemmas Status_defs = StatusActive_def StatusPaused_def StatusBlocked_def StatusComplete_def
  StatusBudgetLimited_def StatusUsageLimited_def

definition PauseReasonHumanReviewCheckpoint :: PauseReason where
  "PauseReasonHumanReviewCheckpoint = ''human_review_checkpoint''"

datatype goal_error =
    UnknownStatus string
  | UnknownContinueMode string
  | UnknownOnTurnFinished string
  | UnknownOnAsyncCompleted string
  | NegativeMaxAutonomousTurns
  | NegativeWakeDelaySeconds
  | NegativeMaxConsecutiveNoProgress
  | EncodeSpecError string
  | DecodeSpecError string
  | InGoal string goal_error
  | InvokerRequired
  | InvokerError string
  | ReaderReturned

definition ParseStatus :: "string \<Rightarrow> goal_error + Status" where
  "ParseStatus value =
     (if value \<in> set [StatusActive, StatusPaused, StatusBlocked, StatusComplete, StatusBudgetLimited, StatusUsageLimited]
      then Inr value else Inl (UnknownStatus value))"

definition IsActive :: "Status \<Rightarrow> bool" where
  "IsActive s \<longleftrightarrow> s = StatusActive"

definition IsTerminal :: "Status \<Rightarrow> bool" where
  "IsTerminal s \<longleftrightarrow> s \<in> set [StatusComplete, StatusBlocked, StatusBudgetLimited, StatusUsageLimited]"

section \<open>Controller specification\<close>

definition ContinueModeIdleOnly :: string where "ContinueModeIdleOnly = ''idle_only''"
definition ContinueModeManualOnly :: string where "ContinueModeManualOnly = ''manual_only''"
definition TurnPolicyEvaluate :: string where "TurnPolicyEvaluate = ''evaluate''"
definition TurnPolicyWait :: string where "TurnPolicyWait = ''wait''"
definition AsyncPolicyEvaluate :: string where "AsyncPolicyEvaluate = ''evaluate''"
definition AsyncPolicyWait :: string where "AsyncPolicyWait = ''wait''"

record ControllerSpec =
  cs_ContinueMode :: string
  cs_OnTurnFinished :: string
  cs_OnAsyncCompleted :: string
  cs_WakeDelaySeconds :: "int option"
  cs_MaxAutonomousTurns :: "int option"
  cs_MaxConsecutiveNoProgress :: "int option"

definition negative :: "int option \<Rightarrow> bool" where
  "negative v = (case v of None \<Rightarrow> False | Some n \<Rightarrow> n < 0)"

definition Validate :: "ControllerSpec \<Rightarrow> goal_error option" where
  "Validate s =
     (if cs_ContinueMode s \<notin> set [ContinueModeIdleOnly, ContinueModeManualOnly] then Some (UnknownContinueMode (cs_ContinueMode s))
      else if cs_OnTurnFinished s \<notin> set [TurnPolicyEvaluate, TurnPolicyWait] then Some (UnknownOnTurnFinished (cs_OnTurnFinished s))
      else if cs_OnAsyncCompleted s \<notin> set [AsyncPolicyEvaluate, AsyncPolicyWait] then Some (UnknownOnAsyncCompleted (cs_OnAsyncCompleted s))
      else if negative (cs_MaxAutonomousTurns s) then Some NegativeMaxAutonomousTurns
      else if negative (cs_WakeDelaySeconds s) then Some NegativeWakeDelaySeconds
      else if negative (cs_MaxConsecutiveNoProgress s) then Some NegativeMaxConsecutiveNoProgress
      else None)"

text \<open>\<open>Encode\<close> and \<open>DecodeControllerSpec\<close> over a JSON encoder and decoder.\<close>

definition Encode :: "(ControllerSpec \<Rightarrow> string + string) \<Rightarrow> ControllerSpec \<Rightarrow> goal_error + string" where
  "Encode marshal s = (case Validate s of Some err \<Rightarrow> Inl err
     | None \<Rightarrow> (case marshal s of Inl err \<Rightarrow> Inl (EncodeSpecError err) | Inr data \<Rightarrow> Inr data))"

definition DecodeControllerSpec :: "(string \<Rightarrow> string + ControllerSpec) \<Rightarrow> string \<Rightarrow> goal_error + ControllerSpec option" where
  "DecodeControllerSpec unmarshal raw =
     (if TrimSpace raw = [] then Inr None
      else case unmarshal raw of Inl err \<Rightarrow> Inl (DecodeSpecError err)
        | Inr spec \<Rightarrow> (case Validate spec of Some err \<Rightarrow> Inl err | None \<Rightarrow> Inr (Some spec)))"

section \<open>Goals\<close>

record Goal =
  g_ID :: string
  g_ConversationID :: string
  g_Objective :: string
  g_Status :: Status
  g_StatusReason :: string
  g_PauseReason :: PauseReason
  g_Controller :: "ControllerSpec option"
  g_TokenBudget :: "int option"
  g_TokensUsed :: int
  g_TimeUsedSeconds :: int
  g_AutonomousTurnsUsed :: int
  g_ConsecutiveNoProgress :: int
  g_LastContinuationFingerprint :: string
  g_CreatedAt :: gotime
  g_UpdatedAt :: "gotime option"

definition BudgetExceeded :: "Goal option \<Rightarrow> bool" where
  "BudgetExceeded g = (case g of None \<Rightarrow> False
     | Some g \<Rightarrow> (case g_TokenBudget g of None \<Rightarrow> False | Some b \<Rightarrow> g_TokensUsed g \<ge> b))"

definition Autonomous :: "Goal option \<Rightarrow> bool" where
  "Autonomous g = (case g of None \<Rightarrow> False
     | Some g \<Rightarrow> (case g_Controller g of None \<Rightarrow> False | Some c \<Rightarrow> cs_ContinueMode c = ContinueModeIdleOnly))"

record ContinuationHint =
  ch_Reason :: string
  ch_Preview :: string
  ch_Payload :: string

definition ContinuationFingerprint :: "(string \<Rightarrow> string) \<Rightarrow> ContinuationHint option \<Rightarrow> string" where
  "ContinuationFingerprint sha256_hex h = (case h of None \<Rightarrow> []
     | Some h \<Rightarrow> sha256_hex (TrimSpace (ch_Reason h) @ [CHR 0x0A] @ TrimSpace (ch_Preview h) @ [CHR 0x0A] @ TrimSpace (ch_Payload h)))"

section \<open>The controller\<close>

record Snapshot =
  sn_Goal :: "Goal option"
  sn_TurnRunning :: bool
  sn_QueuedUserTurns :: int
  sn_PendingElicitation :: bool
  sn_PendingApproval :: bool
  sn_PendingAsync :: bool
  sn_UsageLimited :: bool
  sn_ConsecutiveNoProgress :: int
  sn_AutonomousTurnsUsed :: int
  sn_Continuation :: "ContinuationHint option"

type_synonym ActionKind = string

definition ActionNone :: ActionKind where "ActionNone = ''none''"
definition ActionQueueTurn :: ActionKind where "ActionQueueTurn = ''queue_turn''"
definition ActionPauseGoal :: ActionKind where "ActionPauseGoal = ''pause_goal''"
definition ActionBlockGoal :: ActionKind where "ActionBlockGoal = ''block_goal''"
definition ActionCompleteGoal :: ActionKind where "ActionCompleteGoal = ''complete_goal''"
definition ActionBudgetLimited :: ActionKind where "ActionBudgetLimited = ''budget_limited''"
definition ActionUsageLimited :: ActionKind where "ActionUsageLimited = ''usage_limited''"
definition ActionScheduleWakeup :: ActionKind where "ActionScheduleWakeup = ''schedule_wakeup''"

lemmas Action_defs = ActionNone_def ActionQueueTurn_def ActionPauseGoal_def ActionBlockGoal_def ActionCompleteGoal_def
  ActionBudgetLimited_def ActionUsageLimited_def ActionScheduleWakeup_def

record Action =
  ac_Kind :: ActionKind
  ac_Reason :: string
  ac_Status :: Status
  ac_PauseReason :: PauseReason
  ac_Continuation :: "ContinuationHint option"
  ac_WakeDelaySeconds :: int

definition no_action :: Action where
  "no_action = \<lparr>ac_Kind = [], ac_Reason = [], ac_Status = [], ac_PauseReason = [], ac_Continuation = None, ac_WakeDelaySeconds = 0\<rparr>"

definition none_because :: "string \<Rightarrow> Action" where
  "none_because reason = no_action\<lparr>ac_Kind := ActionNone, ac_Reason := reason\<rparr>"

definition reached :: "int option \<Rightarrow> int \<Rightarrow> bool" where
  "reached limit n = (case limit of None \<Rightarrow> False | Some l \<Rightarrow> n \<ge> l)"

text \<open>The part of \<open>Evaluate\<close> after the autonomy check, for the goal's controller spec.\<close>

definition Evaluate_spec :: "ControllerSpec \<Rightarrow> Snapshot \<Rightarrow> Action" where
  "Evaluate_spec spec s =
     (if reached (cs_MaxConsecutiveNoProgress spec) (sn_ConsecutiveNoProgress s)
      then no_action\<lparr>ac_Kind := ActionBlockGoal, ac_Status := StatusBlocked,
             ac_Reason := ''no progress across consecutive autonomous turns''\<rparr>
      else if reached (cs_MaxAutonomousTurns spec) (sn_AutonomousTurnsUsed s)
      then no_action\<lparr>ac_Kind := ActionPauseGoal, ac_Status := StatusPaused,
             ac_PauseReason := PauseReasonHumanReviewCheckpoint, ac_Reason := ''autonomous turn limit reached''\<rparr>
      else if sn_Continuation s = None then none_because ''no explicit continuation signal''
      else if cs_OnTurnFinished spec = TurnPolicyWait then none_because ''turn policy is wait''
      else case cs_WakeDelaySeconds spec of
          Some d \<Rightarrow> if d > 0
            then no_action\<lparr>ac_Kind := ActionScheduleWakeup, ac_Reason := ''delay active goal continuation'',
                   ac_Continuation := sn_Continuation s, ac_WakeDelaySeconds := d\<rparr>
            else no_action\<lparr>ac_Kind := ActionQueueTurn, ac_Reason := ''continue active goal'', ac_Continuation := sn_Continuation s\<rparr>
        | None \<Rightarrow> no_action\<lparr>ac_Kind := ActionQueueTurn, ac_Reason := ''continue active goal'', ac_Continuation := sn_Continuation s\<rparr>)"

definition Evaluate :: "Snapshot option \<Rightarrow> Action" where
  "Evaluate s =
     (case s of None \<Rightarrow> none_because ''no goal''
      | Some s \<Rightarrow> (case sn_Goal s of None \<Rightarrow> none_because ''no goal''
        | Some g \<Rightarrow>
          if \<not> IsActive (g_Status g) then none_because ''goal is not active''
          else if BudgetExceeded (Some g)
          then no_action\<lparr>ac_Kind := ActionBudgetLimited, ac_Status := StatusBudgetLimited, ac_Reason := ''token budget exhausted''\<rparr>
          else if sn_UsageLimited s
          then no_action\<lparr>ac_Kind := ActionUsageLimited, ac_Status := StatusUsageLimited, ac_Reason := ''provider or runtime usage limit reached''\<rparr>
          else if sn_TurnRunning s then none_because ''a turn is currently running''
          else if sn_QueuedUserTurns s > 0 then none_because ''user work is queued''
          else if sn_PendingElicitation s then none_because ''an elicitation is pending''
          else if sn_PendingApproval s then none_because ''an approval is pending''
          else if sn_PendingAsync s then none_because ''async work is still active''
          else case g_Controller g of
              None \<Rightarrow> none_because ''autonomous continuation is not enabled''
            | Some spec \<Rightarrow> if \<not> Autonomous (Some g) then none_because ''autonomous continuation is not enabled''
                else Evaluate_spec spec s))"

section \<open>Properties\<close>

text \<open>The conversation is idle, and the controller may act on the goal.\<close>

definition idle :: "Snapshot \<Rightarrow> bool" where
  "idle s \<longleftrightarrow> \<not> sn_TurnRunning s \<and> sn_QueuedUserTurns s \<le> 0 \<and> \<not> sn_PendingElicitation s \<and> \<not> sn_PendingApproval s \<and> \<not> sn_PendingAsync s"

definition may_act :: "Snapshot \<Rightarrow> Goal \<Rightarrow> ControllerSpec \<Rightarrow> bool" where
  "may_act s g spec \<longleftrightarrow> sn_Goal s = Some g \<and> IsActive (g_Status g) \<and> \<not> BudgetExceeded (Some g) \<and> \<not> sn_UsageLimited s \<and>
     idle s \<and> g_Controller g = Some spec \<and> cs_ContinueMode spec = ContinueModeIdleOnly"

text \<open>C31: the controller continues a goal, now or after a delay, exactly when the goal is active, within
  its budgets, the conversation idle, autonomy enabled, neither guard has tripped, the turn policy is
  not to wait and there is an explicit hint; the action then carries that hint and the configured delay.\<close>

theorem Evaluate_continues:
  "ac_Kind (Evaluate (Some s)) \<in> {ActionQueueTurn, ActionScheduleWakeup} \<longleftrightarrow>
     (\<exists>g spec h. may_act s g spec \<and> \<not> reached (cs_MaxConsecutiveNoProgress spec) (sn_ConsecutiveNoProgress s) \<and>
        \<not> reached (cs_MaxAutonomousTurns spec) (sn_AutonomousTurnsUsed s) \<and> cs_OnTurnFinished spec \<noteq> TurnPolicyWait \<and>
        sn_Continuation s = Some h \<and> ac_Continuation (Evaluate (Some s)) = Some h \<and>
        ac_WakeDelaySeconds (Evaluate (Some s)) = (case cs_WakeDelaySeconds spec of Some d \<Rightarrow> max 0 d | None \<Rightarrow> 0) \<and>
        (ac_Kind (Evaluate (Some s)) = ActionScheduleWakeup \<longleftrightarrow> ac_WakeDelaySeconds (Evaluate (Some s)) > 0))"
proof (cases "\<exists>g spec. may_act s g spec")
  case True
  then obtain g spec where m: "may_act s g spec" by blast
  then have e: "Evaluate (Some s) = Evaluate_spec spec s"
    by (simp add: may_act_def Evaluate_def idle_def Autonomous_def)
  have u: "may_act s g' spec' \<longleftrightarrow> g' = g \<and> spec' = spec" for g' spec'
    using m by (auto simp: may_act_def)
  show ?thesis
    unfolding e by (auto simp: u Evaluate_spec_def Action_defs no_action_def none_because_def split: option.splits if_splits)
next
  case False
  have "ac_Kind (Evaluate (Some s)) \<in> {ActionNone, ActionBudgetLimited, ActionUsageLimited}"
  proof (cases "sn_Goal s")
    case (Some g)
    show ?thesis
      using False Some unfolding may_act_def
      by (cases "g_Controller g") (auto simp: Evaluate_def none_because_def no_action_def idle_def Autonomous_def)
  qed (simp add: Evaluate_def none_because_def)
  with False show ?thesis by (auto simp: Action_defs)
qed

text \<open>What the fields of an action say for each kind.\<close>

definition lifecycle_ok :: "Action \<Rightarrow> bool" where
  "lifecycle_ok a \<longleftrightarrow> (ac_Kind a = ActionBlockGoal \<longrightarrow> ac_Status a = StatusBlocked) \<and>
   (ac_Kind a = ActionBudgetLimited \<longrightarrow> ac_Status a = StatusBudgetLimited) \<and>
   (ac_Kind a = ActionUsageLimited \<longrightarrow> ac_Status a = StatusUsageLimited) \<and>
   (ac_Kind a = ActionPauseGoal \<longrightarrow> ac_Status a = StatusPaused \<and>
      ac_PauseReason a = PauseReasonHumanReviewCheckpoint) \<and>
   (ac_Kind a \<in> {ActionNone, ActionQueueTurn, ActionScheduleWakeup} \<longrightarrow> ac_Status a = []) \<and>
   (ac_Status a \<noteq> [] \<longrightarrow> IsTerminal (ac_Status a) \<or> ac_Kind a = ActionPauseGoal) \<and>
   ac_Kind a \<noteq> ActionCompleteGoal"

lemma lifecycle_none: "lifecycle_ok (none_because r)"
  by (simp add: lifecycle_ok_def none_because_def no_action_def Action_defs)

lemma lifecycle_Evaluate_spec: "lifecycle_ok (Evaluate_spec spec s)"
proof -
  have "lifecycle_ok (no_action\<lparr>ac_Kind := ActionBlockGoal, ac_Status := StatusBlocked, ac_Reason := r\<rparr>)"
    "lifecycle_ok (no_action\<lparr>ac_Kind := ActionPauseGoal, ac_Status := StatusPaused,
       ac_PauseReason := PauseReasonHumanReviewCheckpoint, ac_Reason := r\<rparr>)"
    "lifecycle_ok (no_action\<lparr>ac_Kind := ActionScheduleWakeup, ac_Reason := r, ac_Continuation := h, ac_WakeDelaySeconds := d\<rparr>)"
    "lifecycle_ok (no_action\<lparr>ac_Kind := ActionQueueTurn, ac_Reason := r, ac_Continuation := h\<rparr>)" for r h d
    by (simp_all add: lifecycle_ok_def no_action_def Action_defs Status_defs IsTerminal_def)
  then show ?thesis unfolding Evaluate_spec_def by (simp add: lifecycle_none split: option.split)
qed

lemma lifecycle_Evaluate: "lifecycle_ok (Evaluate s)"
proof -
  have "lifecycle_ok (no_action\<lparr>ac_Kind := ActionBudgetLimited, ac_Status := StatusBudgetLimited, ac_Reason := r\<rparr>)"
    "lifecycle_ok (no_action\<lparr>ac_Kind := ActionUsageLimited, ac_Status := StatusUsageLimited, ac_Reason := r\<rparr>)" for r
    by (simp_all add: lifecycle_ok_def no_action_def Action_defs Status_defs IsTerminal_def)
  then show ?thesis unfolding Evaluate_def by (simp add: lifecycle_none lifecycle_Evaluate_spec split: option.split)
qed

text \<open>The kinds \<open>Evaluate\<close> can return.\<close>

definition known_kind :: "Action \<Rightarrow> bool" where
  "known_kind a \<longleftrightarrow> ac_Kind a \<in> set [ActionNone, ActionQueueTurn, ActionPauseGoal, ActionBlockGoal, ActionBudgetLimited,
     ActionUsageLimited, ActionScheduleWakeup]"

lemma known_kind_Evaluate: "known_kind (Evaluate s)"
proof -
  have [simp]: "known_kind (none_because r)" for r by (simp add: known_kind_def none_because_def)
  have [simp]: "known_kind (Evaluate_spec spec sn)" for spec sn
    by (simp add: Evaluate_spec_def split: option.split) (simp add: known_kind_def)
  show ?thesis by (simp add: Evaluate_def split: option.split) (simp add: known_kind_def)
qed

text \<open>Every lifecycle action leads to the status its kind names, a terminal one except for the pause
  at the human review checkpoint; an inactive goal is never acted on, and completion is never the
  controller's decision.\<close>

theorem Evaluate_lifecycle:
  "(ac_Kind (Evaluate s) = ActionBlockGoal \<longrightarrow> ac_Status (Evaluate s) = StatusBlocked) \<and>
   (ac_Kind (Evaluate s) = ActionBudgetLimited \<longrightarrow> ac_Status (Evaluate s) = StatusBudgetLimited) \<and>
   (ac_Kind (Evaluate s) = ActionUsageLimited \<longrightarrow> ac_Status (Evaluate s) = StatusUsageLimited) \<and>
   (ac_Kind (Evaluate s) = ActionPauseGoal \<longrightarrow> ac_Status (Evaluate s) = StatusPaused \<and>
      ac_PauseReason (Evaluate s) = PauseReasonHumanReviewCheckpoint) \<and>
   (ac_Kind (Evaluate s) \<in> {ActionNone, ActionQueueTurn, ActionScheduleWakeup} \<longrightarrow> ac_Status (Evaluate s) = []) \<and>
   (ac_Status (Evaluate s) \<noteq> [] \<longrightarrow> IsTerminal (ac_Status (Evaluate s)) \<or> ac_Kind (Evaluate s) = ActionPauseGoal) \<and>
   ac_Kind (Evaluate s) \<noteq> ActionCompleteGoal"
  using lifecycle_Evaluate [of s] unfolding lifecycle_ok_def .

definition limited_snapshot :: Snapshot where
  "limited_snapshot = \<lparr>sn_Goal = Some \<lparr>g_ID = ''g'', g_ConversationID = ''c'', g_Objective = ''o'', g_Status = StatusActive,
       g_StatusReason = [], g_PauseReason = [], g_Controller = None, g_TokenBudget = Some 10, g_TokensUsed = 12,
       g_TimeUsedSeconds = 0, g_AutonomousTurnsUsed = 0, g_ConsecutiveNoProgress = 0, g_LastContinuationFingerprint = [],
       g_CreatedAt = 0, g_UpdatedAt = None\<rparr>,
     sn_TurnRunning = False, sn_QueuedUserTurns = 0, sn_PendingElicitation = False, sn_PendingApproval = False,
     sn_PendingAsync = False, sn_UsageLimited = False, sn_ConsecutiveNoProgress = 0, sn_AutonomousTurnsUsed = 0,
     sn_Continuation = None\<rparr>"

definition demo_spec :: ControllerSpec where
  "demo_spec = \<lparr>cs_ContinueMode = ''idle_only'', cs_OnTurnFinished = ''evaluate'', cs_OnAsyncCompleted = ''wait'',
     cs_WakeDelaySeconds = None, cs_MaxAutonomousTurns = Some 5, cs_MaxConsecutiveNoProgress = Some 2\<rparr>"

definition demo_unmarshal :: "string \<Rightarrow> string + ControllerSpec" where
  "demo_unmarshal raw = (if raw = ''mode=idle_only'' then Inr demo_spec else Inl ''bad'')"

end
