(* ===== verification/Usage.thy ===== *)
theory Usage
  imports GoPrelude "HOL-Library.Char_ord" "HOL-Library.List_Lexorder"
begin

text \<open>
  The token usage aggregator, \<open>runtime/usage/usage.go\<close>: token counts per model. Counts are Go
  \<open>int\<close>s of 64 bits. The lock is not part of the model: each method is one step.
\<close>

section \<open>Data and operations\<close>

record Stat =
  PromptTokens :: int
  CompletionTokens :: int
  EmbeddingTokens :: int
  CachedTokens :: int

text \<open>\<open>PerModel\<close>: a nil map is the empty map, it is made on the first \<open>ensure\<close>.\<close>

type_synonym Aggregator = "(string \<times> Stat) list"

text \<open>The fields of \<open>llm.Usage\<close> that the aggregator reads.\<close>

record llm_Usage =
  lu_PromptTokens :: int
  lu_CompletionTokens :: int
  lu_TotalTokens :: int
  lu_PromptCachedTokens :: int

definition zero_stat :: Stat where
  "zero_stat = \<lparr>PromptTokens = 0, CompletionTokens = 0, EmbeddingTokens = 0, CachedTokens = 0\<rparr>"

definition ensure :: "string \<Rightarrow> Aggregator \<Rightarrow> Stat \<times> Aggregator" where
  "ensure model a = (case map_of a model of
      Some s \<Rightarrow> (s, a)
    | None \<Rightarrow> (zero_stat, AList.update model zero_stat a))"

definition Add :: "string \<Rightarrow> int \<Rightarrow> int \<Rightarrow> int \<Rightarrow> int \<Rightarrow> Aggregator \<Rightarrow> Aggregator" where
  "Add model prompt completion emb cached a =
     (case ensure model a of (s, a1) \<Rightarrow>
        AList.update model
          \<lparr>PromptTokens = wrap64 (PromptTokens s + prompt), CompletionTokens = wrap64 (CompletionTokens s + completion),
           EmbeddingTokens = wrap64 (EmbeddingTokens s + emb), CachedTokens = wrap64 (CachedTokens s + cached)\<rparr> a1)"

definition OnUsage :: "string \<Rightarrow> llm_Usage option \<Rightarrow> Aggregator \<Rightarrow> Aggregator" where
  "OnUsage model u a = (case u of None \<Rightarrow> a
     | Some u \<Rightarrow>
        let emb = wrap64 (lu_TotalTokens u - wrap64 (lu_PromptTokens u + lu_CompletionTokens u));
            emb' = (if emb < 0 then 0 else emb)
        in Add model (lu_PromptTokens u) (lu_CompletionTokens u) emb' (lu_PromptCachedTokens u) a)"

text \<open>A sum of \<open>int\<close>s, wrapped at every addition.\<close>

definition wsum :: "int list \<Rightarrow> int" where
  "wsum xs = fold (\<lambda>x acc. wrap64 (acc + x)) xs 0"

definition Totals :: "Aggregator \<Rightarrow> int \<times> int \<times> int \<times> int" where
  "Totals a = (wsum (map (PromptTokens \<circ> snd) a), wsum (map (CompletionTokens \<circ> snd) a),
     wsum (map (EmbeddingTokens \<circ> snd) a), wsum (map (CachedTokens \<circ> snd) a))"

definition Keys :: "Aggregator \<Rightarrow> string list" where
  "Keys a = sort (keys a)"

section \<open>Properties\<close>

lemma wrap64_mod: "wrap64 x = wrap64 y \<longleftrightarrow> x mod 2 ^ 64 = y mod 2 ^ 64"
proof -
  have "wrap64 x = wrap64 y \<longleftrightarrow> (x + 2 ^ 63) mod 2 ^ 64 = (y + 2 ^ 63) mod 2 ^ 64" by (simp add: wrap64_def)
  also have "\<dots> \<longleftrightarrow> x mod 2 ^ 64 = y mod 2 ^ 64" by (simp only: mod_eq_dvd_iff add_diff_cancel_right)
  finally show ?thesis .
qed

lemma wrap64_mod_self: "wrap64 x mod 2 ^ 64 = x mod 2 ^ 64"
  unfolding wrap64_def by (metis add_diff_cancel mod_diff_left_eq)

lemma wrap64_wrap [simp]: "wrap64 (wrap64 x + y) = wrap64 (x + y)" "wrap64 (x + wrap64 y) = wrap64 (x + y)"
  by (simp_all only: wrap64_mod) (metis wrap64_mod_self mod_add_left_eq, metis wrap64_mod_self mod_add_right_eq)

lemma wsum_acc: "fold (\<lambda>x acc. wrap64 (acc + x)) xs (wrap64 s) = wrap64 (s + sum_list xs)"
  by (induction xs arbitrary: s) (simp_all add: add.assoc)

lemma wsum_eq: "wsum xs = wrap64 (sum_list xs)"
  using wsum_acc [of xs 0] wrap64_id [of 0] by (simp add: wsum_def)

text \<open>The sum over a map after one entry changed.\<close>

lemma sum_update:
  "distinct (keys a) \<Longrightarrow>
   sum_list (map (f \<circ> snd) (AList.update k v a)) =
     sum_list (map (f \<circ> snd) a) + f v - (case map_of a k of None \<Rightarrow> 0 | Some w \<Rightarrow> (f w :: int))"
proof (induction a)
  case (Cons x a)
  then show ?case by (cases x) (auto split: option.splits simp: map_of_eq_None_iff)
qed simp

lemma ensure_spec:
  assumes "distinct (keys a)" "ensure m a = (s, a1)"
  shows "distinct (keys a1)" "map_of a1 m = Some s" "f zero_stat = 0 \<Longrightarrow> sum_list (map (f \<circ> snd) a1) = (sum_list (map (f \<circ> snd) a) :: int)"
  using assms sum_update [OF assms(1), of f m zero_stat]
  by (auto simp: ensure_def distinct_keys_update alist_update split: option.splits)

text \<open>Adding counts for a model adds them to the totals, up to the wrap-around of 64-bit
  integers, whatever the other models are; no total depends on the order of the map.\<close>

theorem Totals_Add:
  assumes "distinct (keys a)" "Totals a = (p, c, e, k)"
  shows "Totals (Add model dp dc de dk a) = (wrap64 (p + dp), wrap64 (c + dc), wrap64 (e + de), wrap64 (k + dk))"
proof -
  obtain s a1 where en: "ensure model a = (s, a1)" by fastforce
  note sp = ensure_spec [OF assms(1) en]
  note up = sum_update [OF sp(1), where k = model]
  have one: "wrap64 (sum_list (map (f \<circ> snd) (AList.update model v a1))) = wrap64 (sum_list (map (f \<circ> snd) a) + d)"
    if "f zero_stat = 0" "f v = wrap64 (f s + d)" for f :: "Stat \<Rightarrow> int" and v d
  proof -
    have "sum_list (map (f \<circ> snd) (AList.update model v a1)) = (sum_list (map (f \<circ> snd) a) - f s) + wrap64 (f s + d)"
      using up [of f v] sp(2) sp(3) [where f = f, OF that(1)] that(2) by simp
    then show ?thesis by (simp only: wrap64_wrap) simp
  qed
  show ?thesis
    using assms(2) by (auto simp: Totals_def wsum_eq Add_def en one zero_stat_def)
qed

end
