(* ===== verification/GoalRuntime.thy ===== *)
theory GoalRuntime
  imports GoalModel Usage
begin

text \<open>
  The goal runtime, \<open>service/goal/{runtime,store,records}.go\<close>: what happens to a goal after a turn, over
  the interface \<open>Store\<close>; and the store the program uses, which translates the interface to reads and
  sparse patches of the Datly goal component. The component's runtime (\<open>github.com/viant/datly\<close>) is the
  parameter \<open>invoker\<close>; the hooks the repository gives it (\<open>internal/datly/goal/write/lifecycle.go\<close>) are
  modelled. \<open>'db\<close> is the state of the database.
\<close>

section \<open>The interface\<close>

type_synonym 'db store_write = "'db \<Rightarrow> goal_error option \<times> 'db"

record 'db Store =
  st_Current :: "'db \<Rightarrow> string \<Rightarrow> goal_error + Goal option"
  st_RecordUsage :: "string \<Rightarrow> int \<Rightarrow> int \<Rightarrow> 'db store_write"
  st_Transition :: "string \<Rightarrow> Status \<Rightarrow> string \<Rightarrow> 'db store_write"
  st_Pause :: "string \<Rightarrow> PauseReason \<Rightarrow> 'db store_write"
  st_UpdateControllerState :: "string \<Rightarrow> int \<Rightarrow> int \<Rightarrow> string \<Rightarrow> 'db store_write"

section \<open>The runtime\<close>

record projectedControllerState =
  pj_autonomousTurnsUsed :: int
  pj_consecutiveNoProgress :: int
  pj_fingerprint :: string
  pj_ready :: bool

record AfterTurnInput =
  at_ConversationID :: string
  at_TurnStatus :: string
  at_RequestTime :: "gotime option"
  at_Usage :: "Aggregator option"
  at_TurnRunning :: bool
  at_QueuedUserTurns :: int
  at_PendingElicitation :: bool
  at_PendingApproval :: bool
  at_PendingAsync :: bool
  at_UsageLimited :: bool
  at_ConsecutiveNoProgress :: int
  at_AutonomousTurnsUsed :: int
  at_Continuation :: "ContinuationHint option"
  at_ProgressFingerprint :: string

text \<open>The runtime's environment: the store, whether a deactivation hook is set, the SHA-256 sum, and the
  conversion of a duration to whole seconds through \<open>float64\<close>.\<close>

record 'db Runtime =
  rt_store :: "'db Store option"
  rt_onDeactivate :: bool
  rt_sha256_hex :: "string \<Rightarrow> string"
  rt_seconds :: "duration \<Rightarrow> int"

definition inUsageTotals :: "Aggregator option \<Rightarrow> int \<times> int \<times> int \<times> int" where
  "inUsageTotals agg = (case agg of None \<Rightarrow> (0, 0, 0, 0) | Some a \<Rightarrow> Totals a)"

definition defaultContinuationHint :: "Goal option \<Rightarrow> ContinuationHint option" where
  "defaultContinuationHint goal =
     (case goal of None \<Rightarrow> None
      | Some g \<Rightarrow>
        let objective = TrimSpace (g_Objective g) in
        if objective = [] then None
        else Some \<lparr>ch_Reason = ''continue active goal'', ch_Preview = ''Continue goal: '' @ objective,
               ch_Payload = ''Continue working toward the active goal.'' @ [nl] @ ''Goal: '' @ objective @ [nl] @
                 ''Use the existing conversation context and take the next concrete step.''\<rparr>)"

definition projectControllerState ::
  "(string \<Rightarrow> string) \<Rightarrow> Goal option \<Rightarrow> ContinuationHint option \<Rightarrow> string \<Rightarrow> projectedControllerState" where
  "projectControllerState sha goal continuation progressFingerprint =
     (case (goal, continuation) of
        (Some g, Some h) \<Rightarrow>
          if \<not> Autonomous (Some g)
          then \<lparr>pj_autonomousTurnsUsed = 0, pj_consecutiveNoProgress = 0, pj_fingerprint = [], pj_ready = False\<rparr>
          else let fp0 = TrimSpace progressFingerprint;
                   fingerprint = (if fp0 = [] then ContinuationFingerprint sha (Some h) else fp0);
                   consecutive = (if g_LastContinuationFingerprint g \<noteq> [] \<and> g_LastContinuationFingerprint g = fingerprint
                                  then wrap64 (g_ConsecutiveNoProgress g + 1) else 0)
               in \<lparr>pj_autonomousTurnsUsed = wrap64 (g_AutonomousTurnsUsed g + 1), pj_consecutiveNoProgress = consecutive,
                   pj_fingerprint = fingerprint, pj_ready = True\<rparr>
      | _ \<Rightarrow> \<lparr>pj_autonomousTurnsUsed = 0, pj_consecutiveNoProgress = 0, pj_fingerprint = [], pj_ready = False\<rparr>)"

definition projectedOrFallback :: "bool \<Rightarrow> int \<Rightarrow> int \<Rightarrow> int" where
  "projectedOrFallback hasProjected projected fallback = (if hasProjected then projected else fallback)"

text \<open>What \<open>AfterTurn\<close> returns: the action, the goal, the error, the calls of the deactivation hook and
  the database.\<close>

type_synonym 'db outcome = "Action \<times> Goal option \<times> goal_error option \<times> (string \<times> string) list \<times> 'db"

definition succeeded :: "AfterTurnInput \<Rightarrow> bool" where
  "succeeded inp = EqualFold (TrimSpace (at_TurnStatus inp)) ''succeeded''"

text \<open>The accounting of a successful turn: the goal to go on with, or the outcome to return at once.\<close>

definition account_usage ::
  "'db Runtime \<Rightarrow> 'db Store \<Rightarrow> gotime \<Rightarrow> AfterTurnInput \<Rightarrow> string \<Rightarrow> Goal \<Rightarrow> 'db \<Rightarrow> 'db outcome + Goal \<times> 'db" where
  "account_usage r S now inp conversationID goal db =
     (if \<not> succeeded inp then Inr (goal, db)
      else case inUsageTotals (at_Usage inp) of (prompt, completion, emb, _) \<Rightarrow>
        let tokenDelta = wrap64 (wrap64 (prompt + completion) + emb) in
        if \<not> (tokenDelta > 0 \<or> at_RequestTime inp \<noteq> None) then Inr (goal, db)
        else let elapsed = (case at_RequestTime inp of None \<Rightarrow> 0
                            | Some t \<Rightarrow> let e = rt_seconds r (time_sub now t) in if e < 0 then 0 else e)
          in case st_RecordUsage S (g_ID goal) (wrap64 (g_TokensUsed goal + tokenDelta)) (wrap64 (g_TimeUsedSeconds goal + elapsed)) db of
              (Some err, db1) \<Rightarrow> Inl (no_action, Some goal, Some err, [], db1)
            | (None, db1) \<Rightarrow> (case st_Current S db1 conversationID of
                Inl err \<Rightarrow> Inl (no_action, None, Some err, [], db1)
              | Inr None \<Rightarrow> Inl (none_because ''goal missing after usage update'', None, None, [], db1)
              | Inr (Some goal1) \<Rightarrow> Inr (goal1, db1)))"

text \<open>Storing the projected counters when they are ready.\<close>

definition store_projected :: "'db Store \<Rightarrow> string \<Rightarrow> bool \<Rightarrow> projectedControllerState \<Rightarrow> 'db store_write" where
  "store_projected S goalID want p db =
     (if want \<and> pj_ready p
      then st_UpdateControllerState S goalID (pj_autonomousTurnsUsed p) (pj_consecutiveNoProgress p) (pj_fingerprint p) db
      else (None, db))"

text \<open>\<open>goal, _ = r.store.Current(...)\<close>: a failed read gives a nil goal.\<close>

definition reread :: "'db Store \<Rightarrow> 'db \<Rightarrow> string \<Rightarrow> Goal option" where
  "reread S db conversationID = (case st_Current S db conversationID of Inl err \<Rightarrow> None | Inr g \<Rightarrow> g)"

definition apply_action ::
  "'db Runtime \<Rightarrow> 'db Store \<Rightarrow> string \<Rightarrow> Goal \<Rightarrow> projectedControllerState \<Rightarrow> Action \<Rightarrow> 'db \<Rightarrow> 'db outcome" where
  "apply_action r S conversationID goal projected action db =
     (let hook = (if rt_onDeactivate r then [(conversationID, g_ID goal)] else []) in
      if ac_Kind action = ActionPauseGoal then
        (case store_projected S (g_ID goal) True projected db of
           (Some err, db1) \<Rightarrow> (action, Some goal, Some err, [], db1)
         | (None, db1) \<Rightarrow> (case st_Pause S (g_ID goal) (ac_PauseReason action) db1 of
             (Some err, db2) \<Rightarrow> (action, Some goal, Some err, [], db2)
           | (None, db2) \<Rightarrow> (action, reread S db2 conversationID, None, hook, db2)))
      else if ac_Kind action \<in> set [ActionBlockGoal, ActionCompleteGoal, ActionBudgetLimited, ActionUsageLimited] then
        (case store_projected S (g_ID goal) (ac_Kind action = ActionBlockGoal \<or> ac_Kind action = ActionCompleteGoal) projected db of
           (Some err, db1) \<Rightarrow> (action, Some goal, Some err, [], db1)
         | (None, db1) \<Rightarrow> (case st_Transition S (g_ID goal) (ac_Status action) (ac_Reason action) db1 of
             (Some err, db2) \<Rightarrow> (action, Some goal, Some err, [], db2)
           | (None, db2) \<Rightarrow> (action, reread S db2 conversationID, None, hook, db2)))
      else if ac_Kind action \<in> set [ActionQueueTurn, ActionScheduleWakeup] \<and> pj_ready projected then
        (case store_projected S (g_ID goal) True projected db of
           (Some err, db1) \<Rightarrow> (action, Some goal, Some err, [], db1)
         | (None, db1) \<Rightarrow> (action, reread S db1 conversationID, None, [], db1))
      else (action, Some goal, None, [], db))"

definition AfterTurn_snapshot :: "AfterTurnInput \<Rightarrow> Goal \<Rightarrow> ContinuationHint option \<Rightarrow> projectedControllerState \<Rightarrow> Snapshot" where
  "AfterTurn_snapshot inp goal continuation projected =
     \<lparr>sn_Goal = Some goal, sn_TurnRunning = at_TurnRunning inp, sn_QueuedUserTurns = at_QueuedUserTurns inp,
      sn_PendingElicitation = at_PendingElicitation inp, sn_PendingApproval = at_PendingApproval inp,
      sn_PendingAsync = at_PendingAsync inp, sn_UsageLimited = at_UsageLimited inp,
      sn_ConsecutiveNoProgress = projectedOrFallback (pj_ready projected) (pj_consecutiveNoProgress projected) (at_ConsecutiveNoProgress inp),
      sn_AutonomousTurnsUsed = projectedOrFallback (pj_ready projected) (pj_autonomousTurnsUsed projected) (at_AutonomousTurnsUsed inp),
      sn_Continuation = continuation\<rparr>"

definition continuation_for :: "AfterTurnInput \<Rightarrow> Goal \<Rightarrow> ContinuationHint option" where
  "continuation_for inp goal =
     (if at_Continuation inp = None \<and> succeeded inp \<and> Autonomous (Some goal)
      then defaultContinuationHint (Some goal) else at_Continuation inp)"

definition AfterTurn :: "'db Runtime option \<Rightarrow> gotime \<Rightarrow> AfterTurnInput option \<Rightarrow> 'db \<Rightarrow> 'db outcome" where
  "AfterTurn rt now inp0 db =
     (case (rt, inp0) of
        (Some r, Some inp) \<Rightarrow> (case rt_store r of
            None \<Rightarrow> (none_because ''goal runtime not configured'', None, None, [], db)
          | Some S \<Rightarrow>
            let conversationID = TrimSpace (at_ConversationID inp) in
            if conversationID = [] then (none_because ''missing conversation id'', None, None, [], db)
            else (case st_Current S db conversationID of
                Inl err \<Rightarrow> (none_because ''no goal'', None, Some err, [], db)
              | Inr None \<Rightarrow> (none_because ''no goal'', None, None, [], db)
              | Inr (Some goal0) \<Rightarrow>
                (case account_usage r S now inp conversationID goal0 db of
                   Inl out \<Rightarrow> out
                 | Inr (goal, db1) \<Rightarrow>
                   let continuation = continuation_for inp goal;
                       projected = projectControllerState (rt_sha256_hex r) (Some goal) continuation (TrimSpace (at_ProgressFingerprint inp));
                       action = Evaluate (Some (AfterTurn_snapshot inp goal continuation projected))
                   in apply_action r S conversationID goal projected action db1)))
      | _ \<Rightarrow> (none_because ''goal runtime not configured'', None, None, [], db))"

definition rt_Current :: "'db Runtime option \<Rightarrow> 'db \<Rightarrow> string \<Rightarrow> goal_error + Goal option" where
  "rt_Current rt db conversationID = (case rt of None \<Rightarrow> Inr None
     | Some r \<Rightarrow> (case rt_store r of None \<Rightarrow> Inr None | Some S \<Rightarrow> st_Current S db conversationID))"

section \<open>The Datly store\<close>

text \<open>A row as the reader returns it, and a sparse row for the writer: a field is \<open>None\<close> when its set
  marker is down, \<open>Some None\<close> for an explicit NULL.\<close>

record GoalView =
  gv_Id :: string
  gv_ConversationId :: string
  gv_Objective :: string
  gv_Status :: string
  gv_TokenBudget :: "int option"
  gv_TokensUsed :: int
  gv_TimeUsedSeconds :: int
  gv_AutonomousTurnsUsed :: int
  gv_ConsecutiveNoProgress :: int
  gv_CreatedAt :: gotime
  gv_StatusReason :: "string option"
  gv_PauseReason :: "string option"
  gv_ControllerSpec :: "string option"
  gv_LastContinuationFingerprint :: "string option"
  gv_UpdatedAt :: "gotime option"

record GoalRow =
  gw_ShouldDelete :: bool
  gw_Id :: string
  gw_ConversationId :: "string option option"
  gw_Objective :: "string option option"
  gw_Status :: "string option option"
  gw_StatusReason :: "string option option"
  gw_PauseReason :: "string option option"
  gw_ControllerSpec :: "string option option"
  gw_LastContinuationFingerprint :: "string option option"
  gw_TokenBudget :: "int option option"
  gw_TokensUsed :: "int option option"
  gw_TimeUsedSeconds :: "int option option"
  gw_AutonomousTurnsUsed :: "int option option"
  gw_ConsecutiveNoProgress :: "int option option"
  gw_CreatedAt :: "gotime option option"
  gw_UpdatedAt :: "gotime option option"

definition new_row :: "string \<Rightarrow> GoalRow" where
  "new_row goalID = \<lparr>gw_ShouldDelete = False, gw_Id = goalID, gw_ConversationId = None, gw_Objective = None, 
     gw_Status = None, gw_StatusReason = None, gw_PauseReason = None, gw_ControllerSpec = None, gw_LastContinuationFingerprint = None, gw_TokenBudget = None, 
     gw_TokensUsed = None, gw_TimeUsedSeconds = None, gw_AutonomousTurnsUsed = None, 
     gw_ConsecutiveNoProgress = None, gw_CreatedAt = None, gw_UpdatedAt = None\<rparr>"

text \<open>The component runtime: reading by conversation id gives an error, no usable output, or the rows;
  writing gives an error or not, and a new database.\<close>

record 'db invoker =
  iv_read :: "'db \<Rightarrow> string \<Rightarrow> string + GoalView list option"
  iv_patch :: "'db \<Rightarrow> GoalRow \<Rightarrow> string option \<times> 'db"

definition toDomain :: "(string \<Rightarrow> string + ControllerSpec) \<Rightarrow> GoalView \<Rightarrow> goal_error + Goal" where
  "toDomain unmarshal view =
     (case ParseStatus (gv_Status view) of Inl err \<Rightarrow> Inl (InGoal (gv_Id view) err)
      | Inr status \<Rightarrow>
        (case (case gv_ControllerSpec view of None \<Rightarrow> Inr None | Some raw \<Rightarrow> DecodeControllerSpec unmarshal raw) of
           Inl err \<Rightarrow> Inl (InGoal (gv_Id view) err)
         | Inr spec \<Rightarrow> Inr
            \<lparr>g_ID = gv_Id view, g_ConversationID = gv_ConversationId view, g_Objective = gv_Objective view,
             g_Status = status, g_StatusReason = (case gv_StatusReason view of None \<Rightarrow> [] | Some s \<Rightarrow> s),
             g_PauseReason = (case gv_PauseReason view of None \<Rightarrow> [] | Some s \<Rightarrow> s), g_Controller = spec,
             g_TokenBudget = gv_TokenBudget view, g_TokensUsed = gv_TokensUsed view,
             g_TimeUsedSeconds = gv_TimeUsedSeconds view, g_AutonomousTurnsUsed = gv_AutonomousTurnsUsed view,
             g_ConsecutiveNoProgress = gv_ConsecutiveNoProgress view,
             g_LastContinuationFingerprint = (case gv_LastContinuationFingerprint view of None \<Rightarrow> [] | Some s \<Rightarrow> s),
             g_CreatedAt = gv_CreatedAt view, g_UpdatedAt = gv_UpdatedAt view\<rparr>))"

definition ds_read :: "'db invoker option \<Rightarrow> 'db \<Rightarrow> string \<Rightarrow> goal_error + GoalView option" where
  "ds_read ivk db conversationID =
     (case ivk of None \<Rightarrow> Inl InvokerRequired
      | Some iv \<Rightarrow> (case iv_read iv db conversationID of
          Inl err \<Rightarrow> Inl (InvokerError err)
        | Inr None \<Rightarrow> Inl ReaderReturned
        | Inr (Some []) \<Rightarrow> Inr None
        | Inr (Some (v # _)) \<Rightarrow> Inr (Some v)))"

definition ds_patch :: "'db invoker option \<Rightarrow> GoalRow \<Rightarrow> 'db store_write" where
  "ds_patch ivk row db =
     (case ivk of None \<Rightarrow> (Some InvokerRequired, db)
      | Some iv \<Rightarrow> (case iv_patch iv db row of (err, db') \<Rightarrow> (map_option InvokerError err, db')))"

definition ds_Current :: "'db invoker option \<Rightarrow> (string \<Rightarrow> string + ControllerSpec) \<Rightarrow> 'db \<Rightarrow> string \<Rightarrow> goal_error + Goal option" where
  "ds_Current ivk unmarshal db conversationID =
     (case ds_read ivk db conversationID of
        Inl err \<Rightarrow> Inl err
      | Inr None \<Rightarrow> Inr None
      | Inr (Some view) \<Rightarrow> (case toDomain unmarshal view of Inl err \<Rightarrow> Inl err | Inr g \<Rightarrow> Inr (Some g)))"

definition usage_row :: "string \<Rightarrow> int \<Rightarrow> int \<Rightarrow> GoalRow" where
  "usage_row goalID tokens secs = (new_row goalID)\<lparr>gw_TokensUsed := Some (Some tokens), gw_TimeUsedSeconds := Some (Some secs)\<rparr>"

definition transition_row :: "string \<Rightarrow> Status \<Rightarrow> string \<Rightarrow> GoalRow" where
  "transition_row goalID status reason =
     (let row = (new_row goalID)\<lparr>gw_Status := Some (Some status)\<rparr>
      in if reason \<noteq> [] then row\<lparr>gw_StatusReason := Some (Some reason)\<rparr> else row)"

definition pause_row :: "string \<Rightarrow> PauseReason \<Rightarrow> GoalRow" where
  "pause_row goalID reason =
     (let row = (new_row goalID)\<lparr>gw_Status := Some (Some StatusPaused)\<rparr>
      in if reason \<noteq> [] then row\<lparr>gw_PauseReason := Some (Some reason)\<rparr> else row)"

definition controller_row :: "string \<Rightarrow> int \<Rightarrow> int \<Rightarrow> string \<Rightarrow> GoalRow" where
  "controller_row goalID turns noProgress fingerprint =
     (new_row goalID)\<lparr>gw_AutonomousTurnsUsed := Some (Some turns), gw_ConsecutiveNoProgress := Some (Some noProgress),
       gw_LastContinuationFingerprint := Some (Some fingerprint)\<rparr>"

definition dataStore :: "'db invoker option \<Rightarrow> (string \<Rightarrow> string + ControllerSpec) \<Rightarrow> 'db Store" where
  "dataStore ivk unmarshal = \<lparr>st_Current = ds_Current ivk unmarshal,
     st_RecordUsage = (\<lambda>goalID tokens secs. ds_patch ivk (usage_row goalID tokens secs)),
     st_Transition = (\<lambda>goalID status reason. ds_patch ivk (transition_row goalID status reason)),
     st_Pause = (\<lambda>goalID reason. ds_patch ivk (pause_row goalID reason)),
     st_UpdateControllerState = (\<lambda>goalID turns noProgress fp. ds_patch ivk (controller_row goalID turns noProgress fp))\<rparr>"

text \<open>\<open>Apply\<close> and \<open>Get\<close> of the repository interface.\<close>

record Mutation =
  mu_ID :: string
  mu_Delete :: bool
  mu_ConversationID :: "string option option"
  mu_Objective :: "string option option"
  mu_Status :: "string option option"
  mu_StatusReason :: "string option option"
  mu_PauseReason :: "string option option"
  mu_ControllerSpec :: "string option option"
  mu_LastContinuationFingerprint :: "string option option"
  mu_TokenBudget :: "int option option"
  mu_TokensUsed :: "int option option"
  mu_TimeUsedSeconds :: "int option option"
  mu_AutonomousTurnsUsed :: "int option option"
  mu_ConsecutiveNoProgress :: "int option option"

definition mutation_row :: "Mutation \<Rightarrow> GoalRow" where
  "mutation_row f = (new_row (mu_ID f))\<lparr>gw_ShouldDelete := mu_Delete f,
     gw_ConversationId := mu_ConversationID f, gw_Objective := mu_Objective f,
     gw_Status := mu_Status f, gw_StatusReason := mu_StatusReason f,
     gw_PauseReason := mu_PauseReason f, gw_ControllerSpec := mu_ControllerSpec f, gw_LastContinuationFingerprint := mu_LastContinuationFingerprint f,
     gw_TokenBudget := mu_TokenBudget f, gw_TokensUsed := mu_TokensUsed f, gw_TimeUsedSeconds := mu_TimeUsedSeconds f, gw_AutonomousTurnsUsed := mu_AutonomousTurnsUsed f,
     gw_ConsecutiveNoProgress := mu_ConsecutiveNoProgress f\<rparr>"

definition Apply :: "'db invoker option \<Rightarrow> Mutation \<Rightarrow> 'db store_write" where
  "Apply ivk mutation = ds_patch ivk (mutation_row mutation)"

section \<open>The writer's hooks\<close>

text \<open>\<open>Init\<close> completes the row (a field whose marker is down gets its default), \<open>Validate\<close> refuses it.\<close>

definition dflt :: "'a \<Rightarrow> 'a option option \<Rightarrow> 'a option option" where
  "dflt v f = (case f of None \<Rightarrow> Some (Some v) | Some x \<Rightarrow> Some x)"

definition lc_Init :: "gotime \<Rightarrow> GoalView option \<Rightarrow> GoalRow \<Rightarrow> GoalRow" where
  "lc_Init now previous row =
     (let row1 = (if previous = None
                  then row\<lparr>gw_CreatedAt := dflt now (gw_CreatedAt row), gw_TokensUsed := dflt 0 (gw_TokensUsed row),
                         gw_TimeUsedSeconds := dflt 0 (gw_TimeUsedSeconds row),
                         gw_AutonomousTurnsUsed := dflt 0 (gw_AutonomousTurnsUsed row),
                         gw_ConsecutiveNoProgress := dflt 0 (gw_ConsecutiveNoProgress row),
                         gw_LastContinuationFingerprint := dflt [] (gw_LastContinuationFingerprint row)\<rparr>
                  else row)
      in row1\<lparr>gw_UpdatedAt := dflt now (gw_UpdatedAt row1)\<rparr>)"

definition blank_field :: "string option option \<Rightarrow> bool" where
  "blank_field f = (case f of Some (Some v) \<Rightarrow> TrimSpace v = [] | _ \<Rightarrow> True)"

definition lc_Validate :: "GoalView option \<Rightarrow> GoalRow \<Rightarrow> string option" where
  "lc_Validate previous row =
     (if TrimSpace (gw_Id row) = [] then Some ''id is required''
      else if previous \<noteq> None then None
      else if blank_field (gw_ConversationId row) then Some ''conversation_id is required for insert''
      else if blank_field (gw_Objective row) then Some ''objective is required for insert''
      else if blank_field (gw_Status row) then Some ''status is required for insert''
      else None)"

section \<open>The goal table\<close>

text \<open>An invoker over a table of goals, as the SQL of the component has it: the reader selects the rows of
  a conversation in table order, the writer runs the hooks and merges the marked fields into the row
  of the same id, adds a new row or deletes one. A NULL for a required column is refused. The database
  is the clock and the rows.\<close>

type_synonym goal_table = "gotime \<times> GoalView list"

definition merged :: "'a option option \<Rightarrow> 'a option \<Rightarrow> 'a option" where
  "merged f old = (case f of None \<Rightarrow> old | Some v \<Rightarrow> v)"

definition required :: "'a option option \<Rightarrow> 'a \<Rightarrow> 'a" where
  "required f old = (case f of Some (Some v) \<Rightarrow> v | _ \<Rightarrow> old)"

definition null_required :: "GoalRow \<Rightarrow> bool" where
  "null_required row \<longleftrightarrow> gw_ConversationId row = Some None \<or> gw_Objective row = Some None \<or> gw_Status row = Some None \<or>
     gw_TokensUsed row = Some None \<or> gw_TimeUsedSeconds row = Some None \<or> gw_AutonomousTurnsUsed row = Some None \<or>
     gw_ConsecutiveNoProgress row = Some None \<or> gw_CreatedAt row = Some None"

definition merge_row :: "GoalRow \<Rightarrow> GoalView \<Rightarrow> GoalView" where
  "merge_row row v = v\<lparr>gv_ConversationId := required (gw_ConversationId row) (gv_ConversationId v),
     gv_Objective := required (gw_Objective row) (gv_Objective v), gv_Status := required (gw_Status row) (gv_Status v),
     gv_TokenBudget := merged (gw_TokenBudget row) (gv_TokenBudget v), gv_TokensUsed := required (gw_TokensUsed row) (gv_TokensUsed v),
     gv_TimeUsedSeconds := required (gw_TimeUsedSeconds row) (gv_TimeUsedSeconds v),
     gv_AutonomousTurnsUsed := required (gw_AutonomousTurnsUsed row) (gv_AutonomousTurnsUsed v),
     gv_ConsecutiveNoProgress := required (gw_ConsecutiveNoProgress row) (gv_ConsecutiveNoProgress v),
     gv_CreatedAt := required (gw_CreatedAt row) (gv_CreatedAt v), gv_StatusReason := merged (gw_StatusReason row) (gv_StatusReason v),
     gv_PauseReason := merged (gw_PauseReason row) (gv_PauseReason v), gv_ControllerSpec := merged (gw_ControllerSpec row) (gv_ControllerSpec v),
     gv_LastContinuationFingerprint := merged (gw_LastContinuationFingerprint row) (gv_LastContinuationFingerprint v),
     gv_UpdatedAt := merged (gw_UpdatedAt row) (gv_UpdatedAt v)\<rparr>"

definition blank_view :: "string \<Rightarrow> GoalView" where
  "blank_view goalID = \<lparr>gv_Id = goalID, gv_ConversationId = [], gv_Objective = [], gv_Status = [], gv_TokenBudget = None,
     gv_TokensUsed = 0, gv_TimeUsedSeconds = 0, gv_AutonomousTurnsUsed = 0, gv_ConsecutiveNoProgress = 0, gv_CreatedAt = 0,
     gv_StatusReason = None, gv_PauseReason = None, gv_ControllerSpec = None, gv_LastContinuationFingerprint = None, gv_UpdatedAt = None\<rparr>"

definition table_read :: "goal_table \<Rightarrow> string \<Rightarrow> string + GoalView list option" where
  "table_read db conversationID =
     (if TrimSpace conversationID = [] then Inl ''goal read requires a conversation ID''
      else Inr (Some (filter (\<lambda>v. gv_ConversationId v = conversationID) (snd db))))"

definition table_patch :: "goal_table \<Rightarrow> GoalRow \<Rightarrow> string option \<times> goal_table" where
  "table_patch db row0 =
     (let previous = find (\<lambda>v. gv_Id v = gw_Id row0) (snd db); row = lc_Init (fst db) previous row0
      in case lc_Validate previous row of Some err \<Rightarrow> (Some err, db)
         | None \<Rightarrow>
           if gw_ShouldDelete row then (None, (fst db, filter (\<lambda>v. gv_Id v \<noteq> gw_Id row) (snd db)))
           else if null_required row then (Some ''null in a required column'', db)
           else if previous = None then (None, (fst db, snd db @ [merge_row row (blank_view (gw_Id row))]))
           else (None, (fst db, map (\<lambda>v. if gv_Id v = gw_Id row then merge_row row v else v) (snd db))))"

definition table_invoker :: "goal_table invoker" where
  "table_invoker = \<lparr>iv_read = table_read, iv_patch = table_patch\<rparr>"

section \<open>The actions of the runtime\<close>

lemma lifecycle_ok_zero: "lifecycle_ok no_action"
  by (simp add: lifecycle_ok_def no_action_def Action_defs)

lemma AfterTurn_lifecycle:
  assumes "AfterTurn rt now inp db = (a, g', e, hooks, db')"
  shows "lifecycle_ok a"
proof -
  have "lifecycle_ok (fst (apply_action r S c g p (Evaluate s) db))" for r :: "'a Runtime" and S c g p s db
    using lifecycle_Evaluate [of s] by (simp add: apply_action_def Let_def split: prod.split option.split)
  moreover have "account_usage r S now i c g db = Inl out \<Longrightarrow> lifecycle_ok (fst out)" for r :: "'a Runtime" and S i c g db out
    by (auto simp: account_usage_def Let_def lifecycle_ok_zero lifecycle_none split: if_splits prod.splits option.splits sum.splits)
  ultimately have "lifecycle_ok (fst (AfterTurn rt now inp db))"
    by (simp add: AfterTurn_def Let_def lifecycle_none split: option.split sum.split prod.split)
  then show ?thesis by (simp add: assms)
qed

section \<open>The contract of the interface\<close>

text \<open>What a client relies on: a successful write changes the fields it names in the current goal of the
  conversation, and leaves the status alone unless it names it.\<close>

locale goal_store =
  fixes S :: "'db Store"
  assumes usage_law: "st_Current S db c = Inr (Some g) \<Longrightarrow> st_RecordUsage S (g_ID g) tk sc db = (None, db') \<Longrightarrow>
      \<exists>g'. st_Current S db' c = Inr (Some g') \<and> g_ID g' = g_ID g \<and> g_Status g' = g_Status g \<and> g_TokensUsed g' = tk \<and> g_TimeUsedSeconds g' = sc"
    and transition_law: "st_Current S db c = Inr (Some g) \<Longrightarrow> ParseStatus st = Inr st \<Longrightarrow> st_Transition S (g_ID g) st why db = (None, db') \<Longrightarrow>
      \<exists>g'. st_Current S db' c = Inr (Some g') \<and> g_ID g' = g_ID g \<and> g_Status g' = st"
    and pause_law: "st_Current S db c = Inr (Some g) \<Longrightarrow> st_Pause S (g_ID g) pr db = (None, db') \<Longrightarrow>
      \<exists>g'. st_Current S db' c = Inr (Some g') \<and> g_ID g' = g_ID g \<and> g_Status g' = StatusPaused \<and> (pr \<noteq> [] \<longrightarrow> g_PauseReason g' = pr)"
    and controller_law: "st_Current S db c = Inr (Some g) \<Longrightarrow> st_UpdateControllerState S (g_ID g) n k fp db = (None, db') \<Longrightarrow>
      \<exists>g'. st_Current S db' c = Inr (Some g') \<and> g_ID g' = g_ID g \<and> g_Status g' = g_Status g \<and> g_AutonomousTurnsUsed g' = n \<and>
        g_ConsecutiveNoProgress g' = k \<and> g_LastContinuationFingerprint g' = fp"
begin

lemma store_projected_current:
  assumes "st_Current S db c = Inr (Some g)" "store_projected S (g_ID g) want p db = (None, db')"
  shows "\<exists>g'. st_Current S db' c = Inr (Some g') \<and> g_ID g' = g_ID g \<and> g_Status g' = g_Status g"
  using assms controller_law [OF assms(1)] by (fastforce simp: store_projected_def split: if_splits)

text \<open>A lifecycle action that was applied without an error is what the store then holds.\<close>

lemma apply_lifecycle:
  assumes "st_Current S db c = Inr (Some g)" "apply_action r S c g p a db = (a', g', None, hooks, db')"
    and "a = Evaluate s" "ac_Status a \<noteq> []"
  shows "a' = a \<and> (\<exists>g1. g' = Some g1 \<and> st_Current S db' c = Inr (Some g1) \<and> g_ID g1 = g_ID g \<and> g_Status g1 = ac_Status a \<and>
     (ac_Kind a = ActionPauseGoal \<longrightarrow> g_PauseReason g1 = ac_PauseReason a))"
proof -
  note ok = lifecycle_Evaluate [of s, folded assms(3), unfolded lifecycle_ok_def]
  have parse: "ParseStatus (ac_Status a) = Inr (ac_Status a)" if "ac_Kind a \<noteq> ActionPauseGoal"
    using ok assms(4) that by (auto simp: ParseStatus_def IsTerminal_def)
  show ?thesis
  proof (cases "ac_Kind a = ActionPauseGoal")
    case True
    obtain db1 where db1: "store_projected S (g_ID g) True p db = (None, db1)" "st_Pause S (g_ID g) (ac_PauseReason a) db1 = (None, db')"
      and out: "a' = a" "g' = reread S db' c"
      using assms(2) True by (auto simp: apply_action_def Let_def split: prod.splits option.splits)
    obtain g0 where g0: "st_Current S db1 c = Inr (Some g0)" "g_ID g0 = g_ID g"
      using store_projected_current [OF assms(1) db1(1)] by blast
    have "ac_PauseReason a \<noteq> []" "ac_Status a = StatusPaused" using ok True by (auto simp: PauseReasonHumanReviewCheckpoint_def)
    with pause_law [OF g0(1), of "ac_PauseReason a" db'] db1(2) g0(2) out show ?thesis by (auto simp: reread_def)
  next
    case False
    have kinds: "ac_Kind a \<in> set [ActionBlockGoal, ActionCompleteGoal, ActionBudgetLimited, ActionUsageLimited]"
      using ok assms(4) False known_kind_Evaluate [of s, folded assms(3)] by (auto simp: known_kind_def)
    let ?want = "ac_Kind a = ActionBlockGoal \<or> ac_Kind a = ActionCompleteGoal"
    obtain e1 db1 where sp: "store_projected S (g_ID g) ?want p db = (e1, db1)" by fastforce
    obtain e2 db2 where tr: "st_Transition S (g_ID g) (ac_Status a) (ac_Reason a) db1 = (e2, db2)" by fastforce
    have "e1 = None \<and> e2 = None \<and> db2 = db' \<and> a' = a \<and> g' = reread S db' c"
      using assms(2) unfolding apply_action_def Let_def if_not_P [OF False] if_P [OF kinds]
      by (auto simp: sp tr split: option.splits)
    then have db1: "store_projected S (g_ID g) ?want p db = (None, db1)"
        "st_Transition S (g_ID g) (ac_Status a) (ac_Reason a) db1 = (None, db')" and out: "a' = a" "g' = reread S db' c"
      using sp tr by simp_all
    obtain g0 where g0: "st_Current S db1 c = Inr (Some g0)" "g_ID g0 = g_ID g"
      using store_projected_current [OF assms(1) db1(1)] by blast
    from transition_law [OF g0(1) parse [OF False], of "ac_Reason a" db'] db1(2) g0(2) out False show ?thesis
      by (auto simp: reread_def)
  qed
qed

lemma account_current:
  assumes "st_Current S db c = Inr (Some g)" "account_usage r S now inp c g db = Inr (g1, db1)"
  shows "st_Current S db1 c = Inr (Some g1) \<and> g_Status g1 = g_Status g"
  using assms usage_law [OF assms(1)]
  by (fastforce simp: account_usage_def Let_def split: if_splits prod.splits option.splits sum.splits)

lemma account_stops:
  "account_usage r S now inp c g db = Inl (a, g', e, hooks, db') \<Longrightarrow>
   ac_Status a = [] \<and> hooks = [] \<and> (e \<noteq> None \<or> ac_Kind a = ActionNone \<and> g' = None)"
  by (auto simp: account_usage_def Let_def no_action_def none_because_def split: if_splits prod.splits option.splits sum.splits)

text \<open>What an error-free \<open>AfterTurn\<close> did: nothing, or the controller's action on the current goal.\<close>

lemma AfterTurn_cases:
  assumes "rt_store r = Some S" "AfterTurn (Some r) now (Some inp) db = (a, g', None, hooks, db')"
    and "st_Current S db (TrimSpace (at_ConversationID inp)) = Inr (Some g0)" "TrimSpace (at_ConversationID inp) \<noteq> []"
  obtains "ac_Status a = []" "hooks = []" "ac_Kind a = ActionNone" "account_usage r S now inp (TrimSpace (at_ConversationID inp)) g0 db = Inl (a, g', None, hooks, db')"
    | g db1 p s where "st_Current S db1 (TrimSpace (at_ConversationID inp)) = Inr (Some g)" "g_Status g = g_Status g0"
        "sn_Goal s = Some g" "apply_action r S (TrimSpace (at_ConversationID inp)) g p (Evaluate (Some s)) db1 = (a, g', None, hooks, db')"
proof (cases "account_usage r S now inp (TrimSpace (at_ConversationID inp)) g0 db")
  case (Inl out)
  then have "out = (a, g', None, hooks, db')" using assms by (simp add: AfterTurn_def Let_def)
  with Inl account_stops that(1) show ?thesis by blast
next
  case (Inr gd)
  obtain g db1 where gd: "gd = (g, db1)" by (cases gd)
  let ?c = "continuation_for inp g"
  let ?p = "projectControllerState (rt_sha256_hex r) (Some g) ?c (TrimSpace (at_ProgressFingerprint inp))"
  have "apply_action r S (TrimSpace (at_ConversationID inp)) g ?p (Evaluate (Some (AfterTurn_snapshot inp g ?c ?p))) db1 = (a, g', None, hooks, db')"
    using assms Inr by (simp add: AfterTurn_def Let_def gd)
  moreover have "sn_Goal (AfterTurn_snapshot inp g ?c ?p) = Some g" by (simp add: AfterTurn_snapshot_def)
  moreover have "st_Current S db1 (TrimSpace (at_ConversationID inp)) = Inr (Some g)" "g_Status g = g_Status g0"
    using account_current [OF assms(3), of r now inp g db1] Inr gd by simp_all
  ultimately show ?thesis using that(2) by blast
qed

lemma lifecycle_stored:
  assumes "rt_store r = Some S" "AfterTurn (Some r) now (Some inp) db = (a, g', None, hooks, db')" "ac_Status a \<noteq> []"
  shows "\<exists>g1. g' = Some g1 \<and> st_Current S db' (TrimSpace (at_ConversationID inp)) = Inr (Some g1) \<and> g_Status g1 = ac_Status a \<and>
     (ac_Kind a = ActionPauseGoal \<longrightarrow> g_PauseReason g1 = ac_PauseReason a)"
proof -
  let ?c = "TrimSpace (at_ConversationID inp)"
  have c: "?c \<noteq> []" using assms by (auto simp: AfterTurn_def Let_def none_because_def no_action_def)
  obtain g0 where g0: "st_Current S db ?c = Inr (Some g0)"
    using assms c by (auto simp: AfterTurn_def Let_def none_because_def no_action_def split: sum.splits option.splits)
  show ?thesis
  proof (rule AfterTurn_cases [OF assms(1,2) g0 c])
    fix g db1 p s
    assume ap: "st_Current S db1 ?c = Inr (Some g)" "apply_action r S ?c g p (Evaluate (Some s)) db1 = (a, g', None, hooks, db')"
    have "a = Evaluate (Some s)" using ap(2) by (auto simp: apply_action_def Let_def split: if_splits option.splits prod.splits)
    with apply_lifecycle [OF ap refl] assms(3) show ?thesis by auto
  qed (use assms(3) in simp)
qed

lemma stopped_status:
  assumes "rt_store r = Some S" "AfterTurn (Some r) now (Some inp) db = (a, g', None, hooks, db')" "ac_Status a \<noteq> []"
  shows "\<not> IsActive (ac_Status a)"
proof -
  have "lifecycle_ok a"
    using assms(2) by (rule AfterTurn_lifecycle)
  then show ?thesis using assms(3) by (auto simp: lifecycle_ok_def IsActive_def IsTerminal_def Status_defs)
qed

lemma inactive_stays:
  assumes "rt_store r = Some S" "AfterTurn (Some r) now (Some inp) db = (a, g', None, hooks, db')"
    and "st_Current S db (TrimSpace (at_ConversationID inp)) = Inr (Some g0)" "\<not> IsActive (g_Status g0)"
  shows "ac_Kind a = ActionNone \<and> hooks = [] \<and>
     (\<exists>g1. st_Current S db' (TrimSpace (at_ConversationID inp)) = Inr (Some g1) \<and> g_Status g1 = g_Status g0)"
proof (cases "TrimSpace (at_ConversationID inp) = []")
  case True
  with assms show ?thesis by (auto simp: AfterTurn_def none_because_def)
next
  case False
  show ?thesis
  proof (rule AfterTurn_cases [OF assms(1-3) False])
    assume stop: "account_usage r S now inp (TrimSpace (at_ConversationID inp)) g0 db = Inl (a, g', None, hooks, db')"
    then have False using usage_law [OF assms(3)]
      by (fastforce simp: account_usage_def Let_def split: if_splits prod.splits option.splits sum.splits)
    then show ?thesis ..
  next
    fix g db1 p s
    assume g: "st_Current S db1 (TrimSpace (at_ConversationID inp)) = Inr (Some g)" "g_Status g = g_Status g0" "sn_Goal s = Some g"
      "apply_action r S (TrimSpace (at_ConversationID inp)) g p (Evaluate (Some s)) db1 = (a, g', None, hooks, db')"
    have "Evaluate (Some s) = none_because ''goal is not active''" using assms(4) g(2,3) by (simp add: Evaluate_def)
    with g(4) have "a = none_because ''goal is not active''" "hooks = []" "db' = db1"
      by (auto simp: apply_action_def Let_def none_because_def Action_defs)
    with g(1,2) show ?thesis by (simp add: none_because_def)
  qed
qed

end

text \<open>Several turns of a conversation, one after the other: what each call returned and the database after
  the last one.\<close>

fun AfterTurns :: "'db Runtime \<Rightarrow> (gotime \<times> AfterTurnInput) list \<Rightarrow> 'db \<Rightarrow>
    (Action \<times> Goal option \<times> goal_error option \<times> (string \<times> string) list) list \<times> 'db" where
  "AfterTurns r [] db = ([], db)"
| "AfterTurns r ((now, inp) # ts) db =
     (case AfterTurn (Some r) now (Some inp) db of (a, g, e, hooks, db1) \<Rightarrow>
       case AfterTurns r ts db1 of (outs, db2) \<Rightarrow> ((a, g, e, hooks) # outs, db2))"

lemma continuing_spec:
  assumes "ac_Kind (Evaluate (Some s)) \<in> {ActionQueueTurn, ActionScheduleWakeup}"
  shows "\<exists>g spec h. may_act s g spec \<and> \<not> reached (cs_MaxConsecutiveNoProgress spec) (sn_ConsecutiveNoProgress s) \<and> sn_Continuation s = Some h"
  using assms
  by (auto simp: Evaluate_def Evaluate_spec_def may_act_def idle_def Autonomous_def Action_defs none_because_def no_action_def
      split: option.splits if_splits)

text \<open>The count of turns without progress that a turn with this fingerprint finds, and what the accounting
  and the counters leave alone in a goal.\<close>

definition next_count :: "Goal \<Rightarrow> string \<Rightarrow> int" where
  "next_count g fp = (if g_LastContinuationFingerprint g \<noteq> [] \<and> g_LastContinuationFingerprint g = fp
     then wrap64 (g_ConsecutiveNoProgress g + 1) else 0)"

definition quiet_turn :: "AfterTurnInput \<Rightarrow> bool" where
  "quiet_turn inp \<longleftrightarrow> \<not> at_TurnRunning inp \<and> at_QueuedUserTurns inp \<le> 0 \<and> \<not> at_PendingElicitation inp \<and>
     \<not> at_PendingApproval inp \<and> \<not> at_PendingAsync inp \<and> \<not> at_UsageLimited inp"

definition kept_goal :: "Goal \<Rightarrow> Goal \<Rightarrow> bool" where
  "kept_goal g g' \<longleftrightarrow> g_Controller g' = g_Controller g \<and> g_Status g' = g_Status g \<and> g_Objective g' = g_Objective g \<and>
     g_TokenBudget g' = g_TokenBudget g"

text \<open>The frame of the contract: a write of the counters or of the usage leaves every other field of the
  goal (but the time of the update) as it is, and an accounting that fails loses neither the goal nor its status.\<close>

locale framed_goal_store = goal_store S for S :: "'db Store" +
  assumes usage_frame: "st_Current S db c = Inr (Some g) \<Longrightarrow> st_RecordUsage S (g_ID g) tk sc db = (None, db') \<Longrightarrow>
      \<exists>u. st_Current S db' c = Inr (Some (g\<lparr>g_TokensUsed := tk, g_TimeUsedSeconds := sc, g_UpdatedAt := u\<rparr>))"
    and controller_frame: "st_Current S db c = Inr (Some g) \<Longrightarrow> st_UpdateControllerState S (g_ID g) n k fp db = (None, db') \<Longrightarrow>
      \<exists>u. st_Current S db' c = Inr (Some (g\<lparr>g_AutonomousTurnsUsed := n, g_ConsecutiveNoProgress := k,
        g_LastContinuationFingerprint := fp, g_UpdatedAt := u\<rparr>))"
    and usage_failure: "st_Current S db c = Inr (Some g) \<Longrightarrow> st_RecordUsage S (g_ID g) tk sc db = (Some e, db') \<Longrightarrow>
      \<exists>g'. st_Current S db' c = Inr (Some g') \<and> g_ID g' = g_ID g \<and> g_Status g' = g_Status g"
begin

lemma account_fails:
  assumes "account_usage r S now inp c g db = Inl (a, g', Some err, hooks, db')"
  shows "a = no_action \<and> hooks = [] \<and> (\<exists>tk sc. st_RecordUsage S (g_ID g) tk sc db = (Some err, db')) \<or>
    (\<exists>tk sc db1. st_RecordUsage S (g_ID g) tk sc db = (None, db1) \<and> st_Current S db1 c = Inl err)"
  using assms unfolding account_usage_def Let_def
  by (simp split: if_splits prod.splits option.splits sum.splits) blast+

text \<open>A call on an inactive goal, also when its accounting fails.\<close>

lemma inactive_call:
  assumes "rt_store r = Some S" "AfterTurn (Some r) now (Some inp) db = (a, g', e, hooks, db')"
    and "st_Current S db c = Inr (Some g0)" "TrimSpace (at_ConversationID inp) = c" "\<not> IsActive (g_Status g0)"
  shows "(ac_Kind a = ActionNone \<or> e \<noteq> None \<and> a = no_action) \<and> hooks = [] \<and>
     (\<exists>g1. st_Current S db' c = Inr (Some g1) \<and> g_Status g1 = g_Status g0)"
proof (cases e)
  case None
  with inactive_stays [OF assms(1), of now inp db a g' hooks db' g0] assms show ?thesis by simp
next
  case (Some err)
  have c: "c \<noteq> []" using assms(2,4) Some by (auto simp: AfterTurn_def Let_def assms(1))
  show ?thesis
  proof (cases "account_usage r S now inp c g0 db")
    case (Inl out)
    then have "out = (a, g', Some err, hooks, db')" using assms c Some by (simp add: AfterTurn_def Let_def)
    with Inl have acc: "account_usage r S now inp c g0 db = Inl (a, g', Some err, hooks, db')" by simp
    from account_fails [OF acc] show ?thesis
    proof
      assume "a = no_action \<and> hooks = [] \<and> (\<exists>tk sc. st_RecordUsage S (g_ID g0) tk sc db = (Some err, db'))"
      with usage_failure [OF assms(3)] Some show ?thesis by blast
    next
      assume "\<exists>tk sc db1. st_RecordUsage S (g_ID g0) tk sc db = (None, db1) \<and> st_Current S db1 c = Inl err"
      with usage_law [OF assms(3)] have False by fastforce
      then show ?thesis ..
    qed
  next
    case (Inr gd)
    obtain g db1 where gd: "gd = (g, db1)" by (cases gd)
    have "g_Status g = g_Status g0" using account_current [OF assms(3), of r now inp g db1] Inr gd by simp
    then have "Evaluate (Some (AfterTurn_snapshot inp g h p)) = none_because ''goal is not active''" for h p
      using assms(5) by (simp add: Evaluate_def AfterTurn_snapshot_def)
    then have False using assms(1-4) c Inr Some
      by (simp add: AfterTurn_def Let_def gd apply_action_def none_because_def Action_defs)
    then show ?thesis ..
  qed
qed

lemma inactive_calls:
  assumes "rt_store r = Some S" "AfterTurns r ts db = (outs, db')" "list_all (\<lambda>(now, inp). TrimSpace (at_ConversationID inp) = c) ts"
    and "st_Current S db c = Inr (Some g0)" "\<not> IsActive (g_Status g0)"
  shows "list_all (\<lambda>(a, g', e, hooks). (ac_Kind a = ActionNone \<or> e \<noteq> None \<and> a = no_action) \<and> hooks = []) outs \<and>
     (\<exists>g1. st_Current S db' c = Inr (Some g1) \<and> g_Status g1 = g_Status g0)"
  using assms(2-5)
proof (induction ts arbitrary: db outs g0)
  case (Cons t ts)
  obtain now inp where t: "t = (now, inp)" by (cases t)
  obtain a g' e hooks db1 where r: "AfterTurn (Some r) now (Some inp) db = (a, g', e, hooks, db1)" by (metis surj_pair)
  obtain outs1 where rs: "AfterTurns r ts db1 = (outs1, db')" "outs = (a, g', e, hooks) # outs1"
    using Cons.prems(1) by (auto simp: t r split: prod.splits)
  obtain g1 where one: "(ac_Kind a = ActionNone \<or> e \<noteq> None \<and> a = no_action) \<and> hooks = []"
      "st_Current S db1 c = Inr (Some g1)" "g_Status g1 = g_Status g0"
    using inactive_call [OF assms(1) r Cons.prems(3) _ Cons.prems(4)] Cons.prems(2) by (auto simp: t)
  with Cons.IH [OF rs(1) _ one(2)] Cons.prems(2,4) show ?case by (auto simp: rs(2))
qed auto

text \<open>A call without an error hands the goal it has accounted to the controller.\<close>

lemma AfterTurn_judges:
  assumes "rt_store r = Some S" "AfterTurn (Some r) now (Some inp) db = (a, g', None, hooks, db')"
    and "st_Current S db c = Inr (Some g)" "TrimSpace (at_ConversationID inp) = c" "c \<noteq> []"
  obtains tk sc u db1 g1 h p where "g1 = g\<lparr>g_TokensUsed := tk, g_TimeUsedSeconds := sc, g_UpdatedAt := u\<rparr>"
    "st_Current S db1 c = Inr (Some g1)" "h = continuation_for inp g1"
    "p = projectControllerState (rt_sha256_hex r) (Some g1) h (TrimSpace (at_ProgressFingerprint inp))"
    "a = Evaluate (Some (AfterTurn_snapshot inp g1 h p))" "apply_action r S c g1 p a db1 = (a, g', None, hooks, db')"
proof (cases "account_usage r S now inp c g db")
  case (Inl out)
  then have "out = (a, g', None, hooks, db')" using assms by (simp add: AfterTurn_def Let_def)
  with Inl usage_law [OF assms(3)] have False
    by (fastforce simp: account_usage_def Let_def split: if_splits prod.splits option.splits sum.splits)
  then show ?thesis ..
next
  case (Inr gd)
  obtain g1 db1 where gd: "gd = (g1, db1)" by (cases gd)
  have "g1 = g \<and> db1 = db \<or> (\<exists>tk sc. st_RecordUsage S (g_ID g) tk sc db = (None, db1) \<and> st_Current S db1 c = Inr (Some g1))"
    using Inr unfolding gd account_usage_def Let_def
    by (simp split: if_splits prod.splits option.splits sum.splits) blast+
  then have "\<exists>tk sc u. g1 = g\<lparr>g_TokensUsed := tk, g_TimeUsedSeconds := sc, g_UpdatedAt := u\<rparr> \<and> st_Current S db1 c = Inr (Some g1)"
  proof
    assume "g1 = g \<and> db1 = db"
    with assms(3) have "g1 = g\<lparr>g_TokensUsed := g_TokensUsed g, g_TimeUsedSeconds := g_TimeUsedSeconds g, g_UpdatedAt := g_UpdatedAt g\<rparr>"
      "st_Current S db1 c = Inr (Some g1)" by simp_all
    then show ?thesis by blast
  next
    assume "\<exists>tk sc. st_RecordUsage S (g_ID g) tk sc db = (None, db1) \<and> st_Current S db1 c = Inr (Some g1)"
    with usage_frame [OF assms(3)] show ?thesis by fastforce
  qed
  then obtain tk sc u where g1: "g1 = g\<lparr>g_TokensUsed := tk, g_TimeUsedSeconds := sc, g_UpdatedAt := u\<rparr>" "st_Current S db1 c = Inr (Some g1)"
    by blast
  let ?h = "continuation_for inp g1"
  let ?p = "projectControllerState (rt_sha256_hex r) (Some g1) ?h (TrimSpace (at_ProgressFingerprint inp))"
  have ap: "apply_action r S c g1 ?p (Evaluate (Some (AfterTurn_snapshot inp g1 ?h ?p))) db1 = (a, g', None, hooks, db')"
    using assms Inr by (simp add: AfterTurn_def Let_def gd)
  then have "a = Evaluate (Some (AfterTurn_snapshot inp g1 ?h ?p))"
    by (auto simp: apply_action_def Let_def split: if_splits option.splits prod.splits)
  with that [OF g1 refl refl] ap show ?thesis by simp
qed

text \<open>What a call stores that continues the goal.\<close>

lemma AfterTurn_continues:
  assumes "rt_store r = Some S" "AfterTurn (Some r) now (Some inp) db = (a, g', None, hooks, db')"
    and "st_Current S db c = Inr (Some g)" "TrimSpace (at_ConversationID inp) = c" "ac_Kind a \<in> {ActionQueueTurn, ActionScheduleWakeup}"
    and "TrimSpace (at_ProgressFingerprint inp) = fp" "fp \<noteq> []" "g_Controller g = Some spec"
  shows "\<not> reached (cs_MaxConsecutiveNoProgress spec) (next_count g fp) \<and>
    (\<exists>g1. st_Current S db' c = Inr (Some g1) \<and> kept_goal g g1 \<and> g_LastContinuationFingerprint g1 = fp \<and>
       g_ConsecutiveNoProgress g1 = next_count g fp)"
proof -
  have "c \<noteq> []" using assms(2,4,5) by (auto simp: AfterTurn_def Let_def assms(1) none_because_def Action_defs)
  from AfterTurn_judges [OF assms(1-4) this] obtain tk sc u db1 g1 h p where
    g1: "g1 = g\<lparr>g_TokensUsed := tk, g_TimeUsedSeconds := sc, g_UpdatedAt := u\<rparr>"
    and cur: "st_Current S db1 c = Inr (Some g1)"
    and p: "p = projectControllerState (rt_sha256_hex r) (Some g1) h (TrimSpace (at_ProgressFingerprint inp))"
    and a: "a = Evaluate (Some (AfterTurn_snapshot inp g1 h p))"
    and ap: "apply_action r S c g1 p a db1 = (a, g', None, hooks, db')" by metis
  let ?s = "AfterTurn_snapshot inp g1 h p"
  from continuing_spec [OF assms(5) [unfolded a]] obtain k where k: "may_act ?s g1 spec" "\<not> reached (cs_MaxConsecutiveNoProgress spec) (sn_ConsecutiveNoProgress ?s)"
    "sn_Continuation ?s = Some k" using assms(8) by (auto simp: g1 AfterTurn_snapshot_def may_act_def)
  have auto: "Autonomous (Some g1)" "h = Some k" using k by (auto simp: may_act_def Autonomous_def AfterTurn_snapshot_def)
  have fp: "TrimSpace fp = fp" using assms(6) by auto
  have p': "pj_ready p" "pj_fingerprint p = fp" "pj_consecutiveNoProgress p = next_count g fp"
    using auto assms(7) fp by (simp_all add: p projectControllerState_def Let_def next_count_def g1 assms(6))
  have "sn_ConsecutiveNoProgress ?s = next_count g fp" by (simp add: AfterTurn_snapshot_def projectedOrFallback_def p')
  with k(2) have nr: "\<not> reached (cs_MaxConsecutiveNoProgress spec) (next_count g fp)" by simp
  have "ac_Kind a \<notin> {ActionPauseGoal, ActionBlockGoal, ActionCompleteGoal, ActionBudgetLimited, ActionUsageLimited}"
    using assms(5) by (auto simp: Action_defs)
  with ap assms(5) p'(1) have "st_UpdateControllerState S (g_ID g1) (pj_autonomousTurnsUsed p) (pj_consecutiveNoProgress p) (pj_fingerprint p) db1 = (None, db')"
    by (auto simp: apply_action_def Let_def store_projected_def split: prod.splits option.splits)
  from controller_frame [OF cur this] nr show ?thesis by (auto simp: p' kept_goal_def g1)
qed

lemma AfterTurn_blocks:
  assumes "rt_store r = Some S" "AfterTurn (Some r) now (Some inp) db = (a, g', None, hooks, db')"
    and "st_Current S db c = Inr (Some g)" "TrimSpace (at_ConversationID inp) = c" "c \<noteq> []"
    and "TrimSpace (at_ProgressFingerprint inp) = fp" "fp \<noteq> []" "g_Controller g = Some spec"
    and "IsActive (g_Status g)" "Autonomous (Some g)" "g_TokenBudget g = None" "quiet_turn inp"
    and "at_Continuation inp \<noteq> None \<or> succeeded inp \<and> TrimSpace (g_Objective g) \<noteq> []"
  shows "ac_Kind a = ActionBlockGoal \<longleftrightarrow> reached (cs_MaxConsecutiveNoProgress spec) (next_count g fp)"
proof -
  from AfterTurn_judges [OF assms(1-5)] obtain tk sc u g1 h p where
    g1: "g1 = g\<lparr>g_TokensUsed := tk, g_TimeUsedSeconds := sc, g_UpdatedAt := u\<rparr>" and h: "h = continuation_for inp g1"
    and p: "p = projectControllerState (rt_sha256_hex r) (Some g1) h (TrimSpace (at_ProgressFingerprint inp))"
    and a: "a = Evaluate (Some (AfterTurn_snapshot inp g1 h p))" by metis
  let ?s = "AfterTurn_snapshot inp g1 h p"
  have auto: "Autonomous (Some g1)" using assms(10) by (simp add: Autonomous_def g1)
  then have "h \<noteq> None" using assms(13)
    by (auto simp: h continuation_for_def defaultContinuationHint_def Let_def g1)
  then obtain k where k: "h = Some k" by blast
  have fp: "TrimSpace fp = fp" using assms(6) by auto
  have p': "pj_ready p" "pj_consecutiveNoProgress p = next_count g fp"
    using auto assms(7) fp by (simp_all add: p k projectControllerState_def Let_def next_count_def g1 assms(6))
  have "may_act ?s g1 spec"
    using assms(8-12) by (simp add: may_act_def AfterTurn_snapshot_def idle_def quiet_turn_def g1 Autonomous_def BudgetExceeded_def)
  then have "a = Evaluate_spec spec ?s" by (simp add: a may_act_def Evaluate_def idle_def Autonomous_def)
  moreover have "sn_ConsecutiveNoProgress ?s = next_count g fp" by (simp add: AfterTurn_snapshot_def projectedOrFallback_def p')
  ultimately show ?thesis
    by (simp add: Evaluate_spec_def Action_defs none_because_def no_action_def split: option.split)
qed

lemma continued_calls:
  assumes "rt_store r = Some S" "fp \<noteq> []" "cs_MaxConsecutiveNoProgress spec = Some limit" "limit \<le> maxInt64"
    and "AfterTurns r ts db = (outs, db')" "list_all (\<lambda>(now, inp). TrimSpace (at_ConversationID inp) = c \<and> TrimSpace (at_ProgressFingerprint inp) = fp) ts"
    and "list_all (\<lambda>(a, g', e, hooks). e = None \<and> ac_Kind a \<in> {ActionQueueTurn, ActionScheduleWakeup}) outs"
    and "st_Current S db c = Inr (Some g)" "g_Controller g = Some spec" "next_count g fp = int m"
  shows "\<exists>g1. st_Current S db' c = Inr (Some g1) \<and> kept_goal g g1 \<and> next_count g1 fp = int (m + length ts)"
  using assms(5-)
proof (induction ts arbitrary: db outs g m)
  case (Cons t ts)
  obtain now inp where t: "t = (now, inp)" by (cases t)
  obtain a g' e hooks db1 where r: "AfterTurn (Some r) now (Some inp) db = (a, g', e, hooks, db1)" by (metis surj_pair)
  obtain outs1 where rs: "AfterTurns r ts db1 = (outs1, db')" "outs = (a, g', e, hooks) # outs1"
    using Cons.prems(1) by (auto simp: t r split: prod.splits)
  have e: "e = None" "ac_Kind a \<in> {ActionQueueTurn, ActionScheduleWakeup}" using Cons.prems(3) by (auto simp: rs(2))
  obtain g1 where g1: "\<not> reached (cs_MaxConsecutiveNoProgress spec) (int m)" "st_Current S db1 c = Inr (Some g1)"
      "kept_goal g g1" "g_LastContinuationFingerprint g1 = fp" "g_ConsecutiveNoProgress g1 = int m"
    using AfterTurn_continues [OF assms(1) r [unfolded e(1)] Cons.prems(4) _ e(2) _ assms(2) Cons.prems(5)] Cons.prems(2,6) by (auto simp: t)
  have "int m < limit" using g1(1) by (simp add: assms(3) reached_def)
  with assms(4) have "wrap64 (int m + 1) = int m + 1" by (intro wrap64_id) simp_all
  with g1(4,5) assms(2) have "next_count g1 fp = int (Suc m)" by (simp add: next_count_def)
  moreover have "g_Controller g1 = Some spec" using g1(3) Cons.prems(5) by (simp add: kept_goal_def)
  ultimately obtain g2 where "st_Current S db' c = Inr (Some g2)" "kept_goal g1 g2" "next_count g2 fp = int (Suc m + length ts)"
    using Cons.IH [OF rs(1) _ _ g1(2), of "Suc m"] Cons.prems(2,3) by (auto simp: rs(2))
  with g1(3) show ?case by (auto simp: kept_goal_def)
qed (auto simp: kept_goal_def)

end

section \<open>The Datly store keeps the contract\<close>

text \<open>A sparse patch of the current goal that keeps its conversation changes the current goal alone.\<close>

lemma table_patch_current:
  assumes "ds_Current (Some table_invoker) um db c = Inr (Some g)" "gw_Id row = g_ID g" "\<not> gw_ShouldDelete row" "gw_ConversationId row = None"
    and "ds_patch (Some table_invoker) row db = (None, db')"
  obtains v where "toDomain um v = Inr g" "gv_Id v = g_ID g"
    "ds_Current (Some table_invoker) um db' c =
       (case toDomain um (merge_row (row\<lparr>gw_UpdatedAt := dflt (fst db) (gw_UpdatedAt row)\<rparr>) v) of Inl e \<Rightarrow> Inl e | Inr g' \<Rightarrow> Inr (Some g'))"
proof -
  have c: "TrimSpace c \<noteq> []" using assms(1) by (auto simp: ds_Current_def ds_read_def table_invoker_def table_read_def split: if_splits)
  then obtain v vs where v: "filter (\<lambda>v. gv_ConversationId v = c) (snd db) = v # vs" "toDomain um v = Inr g"
    using assms(1)
    by (auto simp: ds_Current_def ds_read_def table_invoker_def table_read_def split: list.splits sum.splits)
  have vid: "gv_Id v = g_ID g" using v(2) by (auto simp: toDomain_def split: sum.splits option.splits)
  have "v \<in> set (filter (\<lambda>v. gv_ConversationId v = c) (snd db))" by (simp add: v(1))
  then have "v \<in> set (snd db)" by simp
  then have "find (\<lambda>v. gv_Id v = gw_Id row) (snd db) \<noteq> None" using vid assms(2) by (auto simp: find_None_iff)
  then obtain y where prev: "find (\<lambda>v. gv_Id v = gw_Id row) (snd db) = Some y" by blast
  let ?row = "row\<lparr>gw_UpdatedAt := dflt (fst db) (gw_UpdatedAt row)\<rparr>"
  let ?f = "\<lambda>v. if gv_Id v = gw_Id row then merge_row ?row v else v"
  have init: "lc_Init (fst db) (Some y) row = ?row" by (simp add: lc_Init_def)
  have db': "db' = (fst db, map ?f (snd db))"
    using assms(3,5) by (auto simp: ds_patch_def table_invoker_def table_patch_def Let_def prev init split: option.splits if_splits)
  have keep: "gv_ConversationId (?f w) = gv_ConversationId w" for w
    using assms(4) by (simp add: merge_row_def required_def)
  have "filter (\<lambda>v. gv_ConversationId v = c) (map ?f (snd db)) = map ?f (v # vs)"
    using v(1) by (simp add: filter_map comp_def keep)
  then have "ds_Current (Some table_invoker) um db' c = (case toDomain um (merge_row ?row v) of Inl e \<Rightarrow> Inl e | Inr g' \<Rightarrow> Inr (Some g'))"
    using c vid assms(2) by (simp add: ds_Current_def ds_read_def table_invoker_def table_read_def db')
  with that v(2) vid show ?thesis by blast
qed

lemma toDomain_fields:
  assumes "toDomain um v = Inr g" "gv_ControllerSpec v' = gv_ControllerSpec v" "ParseStatus (gv_Status v') = Inr st" "gv_Id v' = gv_Id v"
  shows "\<exists>g'. toDomain um v' = Inr g' \<and> g_ID g' = g_ID g \<and> g_Status g' = st \<and> g_TokensUsed g' = gv_TokensUsed v' \<and>
    g_TimeUsedSeconds g' = gv_TimeUsedSeconds v' \<and> g_AutonomousTurnsUsed g' = gv_AutonomousTurnsUsed v' \<and>
    g_ConsecutiveNoProgress g' = gv_ConsecutiveNoProgress v' \<and>
    g_PauseReason g' = (case gv_PauseReason v' of None \<Rightarrow> [] | Some s \<Rightarrow> s) \<and>
    g_LastContinuationFingerprint g' = (case gv_LastContinuationFingerprint v' of None \<Rightarrow> [] | Some s \<Rightarrow> s)"
  using assms by (auto simp: toDomain_def split: sum.splits)

lemma toDomain_status: "toDomain um v = Inr g \<Longrightarrow> ParseStatus (gv_Status v) = Inr (g_Status g)"
  by (auto simp: toDomain_def split: sum.splits)

lemmas row_defs = usage_row_def transition_row_def pause_row_def controller_row_def new_row_def Let_def
lemmas merge_defs = merge_row_def required_def merged_def dflt_def

lemma ParseStatus_paused: "ParseStatus StatusPaused = Inr StatusPaused"
  by (simp add: ParseStatus_def)

interpretation table: goal_store "dataStore (Some table_invoker) um" for um
proof unfold_locales
  fix db db' :: goal_table and c g tk sc
  assume a: "st_Current (dataStore (Some table_invoker) um) db c = Inr (Some g)"
    "st_RecordUsage (dataStore (Some table_invoker) um) (g_ID g) tk sc db = (None, db')"
  from table_patch_current [of um db c g "usage_row (g_ID g) tk sc" db'] a obtain v where
    v: "toDomain um v = Inr g" "ds_Current (Some table_invoker) um db' c = (case toDomain um (merge_row
      ((usage_row (g_ID g) tk sc)\<lparr>gw_UpdatedAt := dflt (fst db) (gw_UpdatedAt (usage_row (g_ID g) tk sc))\<rparr>) v) of Inl e \<Rightarrow> Inl e | Inr g' \<Rightarrow> Inr (Some g'))"
    by (auto simp: dataStore_def row_defs)
  from toDomain_fields [OF v(1), of "merge_row ((usage_row (g_ID g) tk sc)\<lparr>gw_UpdatedAt := dflt (fst db) (gw_UpdatedAt (usage_row (g_ID g) tk sc))\<rparr>) v"]
    toDomain_status [OF v(1)] v(2)
  show "\<exists>g'. st_Current (dataStore (Some table_invoker) um) db' c = Inr (Some g') \<and> g_ID g' = g_ID g \<and> g_Status g' = g_Status g \<and>
      g_TokensUsed g' = tk \<and> g_TimeUsedSeconds g' = sc"
    by (auto simp: dataStore_def row_defs merge_defs)
next
  fix db db' :: goal_table and c g st why
  assume a: "st_Current (dataStore (Some table_invoker) um) db c = Inr (Some g)" "ParseStatus st = Inr st"
    "st_Transition (dataStore (Some table_invoker) um) (g_ID g) st why db = (None, db')"
  let ?r = "transition_row (g_ID g) st why"
  from table_patch_current [of um db c g ?r db'] a obtain v where
    v: "toDomain um v = Inr g" "ds_Current (Some table_invoker) um db' c =
      (case toDomain um (merge_row (?r\<lparr>gw_UpdatedAt := dflt (fst db) (gw_UpdatedAt ?r)\<rparr>) v) of Inl e \<Rightarrow> Inl e | Inr g' \<Rightarrow> Inr (Some g'))"
    by (auto simp: dataStore_def row_defs split: if_splits)
  from toDomain_fields [OF v(1), of "merge_row (?r\<lparr>gw_UpdatedAt := dflt (fst db) (gw_UpdatedAt ?r)\<rparr>) v"] a(2) v(2)
  show "\<exists>g'. st_Current (dataStore (Some table_invoker) um) db' c = Inr (Some g') \<and> g_ID g' = g_ID g \<and> g_Status g' = st"
    by (auto simp: dataStore_def row_defs merge_defs split: if_splits)
next
  fix db db' :: goal_table and c g pr
  assume a: "st_Current (dataStore (Some table_invoker) um) db c = Inr (Some g)"
    "st_Pause (dataStore (Some table_invoker) um) (g_ID g) pr db = (None, db')"
  let ?r = "pause_row (g_ID g) pr"
  from table_patch_current [of um db c g ?r db'] a obtain v where
    v: "toDomain um v = Inr g" "ds_Current (Some table_invoker) um db' c =
      (case toDomain um (merge_row (?r\<lparr>gw_UpdatedAt := dflt (fst db) (gw_UpdatedAt ?r)\<rparr>) v) of Inl e \<Rightarrow> Inl e | Inr g' \<Rightarrow> Inr (Some g'))"
    by (auto simp: dataStore_def row_defs split: if_splits)
  from toDomain_fields [OF v(1), of "merge_row (?r\<lparr>gw_UpdatedAt := dflt (fst db) (gw_UpdatedAt ?r)\<rparr>) v"] ParseStatus_paused v(2)
  show "\<exists>g'. st_Current (dataStore (Some table_invoker) um) db' c = Inr (Some g') \<and> g_ID g' = g_ID g \<and> g_Status g' = StatusPaused \<and>
      (pr \<noteq> [] \<longrightarrow> g_PauseReason g' = pr)"
    by (auto simp: dataStore_def row_defs merge_defs split: if_splits)
next
  fix db db' :: goal_table and c g n k fp
  assume a: "st_Current (dataStore (Some table_invoker) um) db c = Inr (Some g)"
    "st_UpdateControllerState (dataStore (Some table_invoker) um) (g_ID g) n k fp db = (None, db')"
  let ?r = "controller_row (g_ID g) n k fp"
  from table_patch_current [of um db c g ?r db'] a obtain v where
    v: "toDomain um v = Inr g" "ds_Current (Some table_invoker) um db' c =
      (case toDomain um (merge_row (?r\<lparr>gw_UpdatedAt := dflt (fst db) (gw_UpdatedAt ?r)\<rparr>) v) of Inl e \<Rightarrow> Inl e | Inr g' \<Rightarrow> Inr (Some g'))"
    by (auto simp: dataStore_def row_defs)
  from toDomain_fields [OF v(1), of "merge_row (?r\<lparr>gw_UpdatedAt := dflt (fst db) (gw_UpdatedAt ?r)\<rparr>) v"] toDomain_status [OF v(1)] v(2)
  show "\<exists>g'. st_Current (dataStore (Some table_invoker) um) db' c = Inr (Some g') \<and> g_ID g' = g_ID g \<and> g_Status g' = g_Status g \<and>
      g_AutonomousTurnsUsed g' = n \<and> g_ConsecutiveNoProgress g' = k \<and> g_LastContinuationFingerprint g' = fp"
    by (auto simp: dataStore_def row_defs merge_defs)
qed

lemma table_failure: "ds_patch (Some table_invoker) row db = (Some e, db') \<Longrightarrow> db' = db"
  by (auto simp: ds_patch_def table_invoker_def table_patch_def Let_def split: option.splits if_splits)

interpretation table_frame: framed_goal_store "dataStore (Some table_invoker) um" for um
proof unfold_locales
  fix db db' :: goal_table and c g tk sc
  assume a: "st_Current (dataStore (Some table_invoker) um) db c = Inr (Some g)"
    "st_RecordUsage (dataStore (Some table_invoker) um) (g_ID g) tk sc db = (None, db')"
  let ?r = "usage_row (g_ID g) tk sc"
  from table_patch_current [of um db c g ?r db'] a obtain v where
    v: "toDomain um v = Inr g" "ds_Current (Some table_invoker) um db' c =
      (case toDomain um (merge_row (?r\<lparr>gw_UpdatedAt := dflt (fst db) (gw_UpdatedAt ?r)\<rparr>) v) of Inl e \<Rightarrow> Inl e | Inr g' \<Rightarrow> Inr (Some g'))"
    by (auto simp: dataStore_def row_defs)
  show "\<exists>u. st_Current (dataStore (Some table_invoker) um) db' c = Inr (Some (g\<lparr>g_TokensUsed := tk, g_TimeUsedSeconds := sc, g_UpdatedAt := u\<rparr>))"
    using v by (auto simp: dataStore_def toDomain_def row_defs merge_defs split: sum.splits)
next
  fix db db' :: goal_table and c g n k fp
  assume a: "st_Current (dataStore (Some table_invoker) um) db c = Inr (Some g)"
    "st_UpdateControllerState (dataStore (Some table_invoker) um) (g_ID g) n k fp db = (None, db')"
  let ?r = "controller_row (g_ID g) n k fp"
  from table_patch_current [of um db c g ?r db'] a obtain v where
    v: "toDomain um v = Inr g" "ds_Current (Some table_invoker) um db' c =
      (case toDomain um (merge_row (?r\<lparr>gw_UpdatedAt := dflt (fst db) (gw_UpdatedAt ?r)\<rparr>) v) of Inl e \<Rightarrow> Inl e | Inr g' \<Rightarrow> Inr (Some g'))"
    by (auto simp: dataStore_def row_defs)
  show "\<exists>u. st_Current (dataStore (Some table_invoker) um) db' c = Inr (Some (g\<lparr>g_AutonomousTurnsUsed := n,
      g_ConsecutiveNoProgress := k, g_LastContinuationFingerprint := fp, g_UpdatedAt := u\<rparr>))"
    using v by (auto simp: dataStore_def toDomain_def row_defs merge_defs split: sum.splits)
next
  fix db db' :: goal_table and c g tk sc e
  assume "st_Current (dataStore (Some table_invoker) um) db c = Inr (Some g)"
    "st_RecordUsage (dataStore (Some table_invoker) um) (g_ID g) tk sc db = (Some e, db')"
  then show "\<exists>g'. st_Current (dataStore (Some table_invoker) um) db' c = Inr (Some g') \<and> g_ID g' = g_ID g \<and> g_Status g' = g_Status g"
    using table_failure [of "usage_row (g_ID g) tk sc" db e db'] by (simp add: dataStore_def)
qed

section \<open>Properties\<close>

definition demo_runtime :: "goal_table Runtime" where
  "demo_runtime = \<lparr>rt_store = Some (dataStore (Some table_invoker) demo_unmarshal), rt_onDeactivate = True,
     rt_sha256_hex = (\<lambda>s. ''h'' @ s), rt_seconds = (\<lambda>d. d div Second)\<rparr>"

definition demo_view :: GoalView where
  "demo_view = \<lparr>gv_Id = ''g1'', gv_ConversationId = ''c1'', gv_Objective = ''ship it'', gv_Status = ''active'', gv_TokenBudget = Some 100,
     gv_TokensUsed = 90, gv_TimeUsedSeconds = 0, gv_AutonomousTurnsUsed = 0, gv_ConsecutiveNoProgress = 0, gv_CreatedAt = 0,
     gv_StatusReason = None, gv_PauseReason = None, gv_ControllerSpec = Some ''mode=idle_only'', gv_LastContinuationFingerprint = None,
     gv_UpdatedAt = None\<rparr>"

definition demo_turn :: AfterTurnInput where
  "demo_turn = \<lparr>at_ConversationID = '' c1'', at_TurnStatus = ''Succeeded'', at_RequestTime = None,
     at_Usage = Some (Add ''m'' 10 5 0 0 []), at_TurnRunning = False, at_QueuedUserTurns = 0, at_PendingElicitation = False,
     at_PendingApproval = False, at_PendingAsync = False, at_UsageLimited = False, at_ConsecutiveNoProgress = 0,
     at_AutonomousTurnsUsed = 0, at_Continuation = None, at_ProgressFingerprint = ''p''\<rparr>"

lemma demo_store: "rt_store demo_runtime = Some (dataStore (Some table_invoker) demo_unmarshal)"
  by (simp add: demo_runtime_def)

text \<open>C17: over any store that keeps its contract, a lifecycle decision that \<open>AfterTurn\<close> reports without
  an error is durable: the goal it returns is the store's current one and has the decided status (and
  the pause reason).\<close>

theorem AfterTurn_persists:
  assumes "goal_store S" "rt_store r = Some S" "AfterTurn (Some r) now (Some inp) db = (a, g', None, hooks, db')" "ac_Status a \<noteq> []"
  shows "\<exists>g1. g' = Some g1 \<and> st_Current S db' (TrimSpace (at_ConversationID inp)) = Inr (Some g1) \<and> g_Status g1 = ac_Status a \<and>
     (ac_Kind a = ActionPauseGoal \<longrightarrow> g_PauseReason g1 = ac_PauseReason a)"
  by (rule goal_store.lifecycle_stored [OF assms])

theorem AfterTurn_persists_witness:
  "\<exists>a g1 hooks db'. AfterTurn (Some demo_runtime) 0 (Some demo_turn) (5, [demo_view]) = (a, Some g1, None, hooks, db') \<and>
     ac_Kind a = ActionBudgetLimited \<and> g_Status g1 = StatusBudgetLimited"
proof -
  obtain a g' e hooks db' where r: "AfterTurn (Some demo_runtime) 0 (Some demo_turn) (5, [demo_view]) = (a, g', e, hooks, db')"
    by (metis surj_pair)
  have "(case AfterTurn (Some demo_runtime) 0 (Some demo_turn) (5, [demo_view]) of (a, g', e, hooks, db') \<Rightarrow>
      ac_Kind a = ActionBudgetLimited \<and> ac_Status a = StatusBudgetLimited \<and> StatusBudgetLimited \<noteq> [] \<and> e = None)"
    by code_simp
  then have "ac_Kind a = ActionBudgetLimited" "ac_Status a = StatusBudgetLimited" "ac_Status a \<noteq> []" "e = None" by (auto simp: r)
  with AfterTurn_persists [OF table.goal_store_axioms demo_store, of 0 demo_turn "(5, [demo_view])" a g' hooks db'] r
  show ?thesis by auto
qed

text \<open>C32: a goal that a turn stopped (paused, blocked or limited) stays stopped: however many turns of
  the conversation follow, whatever they report and whether or not their accounting fails, no
  \<open>AfterTurn\<close> takes an action or calls the hook, and the stored goal keeps its status. The turns follow
  each other: a user who resumes the goal in between starts anew.\<close>

theorem stopped_goal_stays_stopped:
  assumes "framed_goal_store S" "rt_store r = Some S" "AfterTurn (Some r) now (Some inp) db = (a, g', None, hooks, db1)" "ac_Status a \<noteq> []"
    and "list_all (\<lambda>(now', inp'). TrimSpace (at_ConversationID inp') = TrimSpace (at_ConversationID inp)) turns"
    and "AfterTurns r turns db1 = (outs, db2)"
  shows "list_all (\<lambda>(a', g'', e, hooks'). (ac_Kind a' = ActionNone \<or> e \<noteq> None \<and> a' = no_action) \<and> hooks' = []) outs \<and>
    (\<exists>g2. st_Current S db2 (TrimSpace (at_ConversationID inp)) = Inr (Some g2) \<and> g_Status g2 = ac_Status a)"
proof -
  have S: "goal_store S" using assms(1) by (simp add: framed_goal_store_def)
  obtain g1 where g1: "st_Current S db1 (TrimSpace (at_ConversationID inp)) = Inr (Some g1)" "g_Status g1 = ac_Status a"
    using goal_store.lifecycle_stored [OF S assms(2-4)] by auto
  have "\<not> IsActive (g_Status g1)"
    using goal_store.stopped_status [OF S assms(2-4)] g1(2) by simp
  with framed_goal_store.inactive_calls [OF assms(1,2,6,5) g1(1)] g1(2) show ?thesis by simp
qed

theorem stopped_goal_stays_stopped_witness:
  "\<exists>a g' hooks db1 outs db2. AfterTurn (Some demo_runtime) 0 (Some demo_turn) (5, [demo_view]) = (a, g', None, hooks, db1) \<and>
     ac_Status a = StatusBudgetLimited \<and> AfterTurns demo_runtime [(9, demo_turn), (11, demo_turn), (12, demo_turn)] db1 = (outs, db2) \<and>
     length outs = 3 \<and> list_all (\<lambda>(a', g'', e, hooks'). (ac_Kind a' = ActionNone \<or> e \<noteq> None \<and> a' = no_action) \<and> hooks' = []) outs"
proof -
  obtain a g' e hooks db1 where r: "AfterTurn (Some demo_runtime) 0 (Some demo_turn) (5, [demo_view]) = (a, g', e, hooks, db1)"
    by (metis surj_pair)
  let ?turns = "[(9, demo_turn), (11, demo_turn), (12, demo_turn)]"
  obtain outs db2 where r': "AfterTurns demo_runtime ?turns db1 = (outs, db2)" by (metis surj_pair)
  have "(case AfterTurn (Some demo_runtime) 0 (Some demo_turn) (5, [demo_view]) of (a, g', e, hooks, db1) \<Rightarrow>
      ac_Status a = StatusBudgetLimited \<and> StatusBudgetLimited \<noteq> [] \<and> e = None)"
    by code_simp
  then have *: "ac_Status a = StatusBudgetLimited" "ac_Status a \<noteq> []" "e = None" by (auto simp: r)
  have "length outs = 3" using r' by (auto split: prod.splits)
  with stopped_goal_stays_stopped [OF table_frame.framed_goal_store_axioms demo_store, of 0 demo_turn "(5, [demo_view])" a g' hooks db1
      ?turns outs db2] r r' * show ?thesis by auto
qed

text \<open>C33: a stalled goal is blocked: when each of \<open>n\<close> turns one after the other reports the same progress
  fingerprint (a new one for the goal) and is answered by continuing the goal, the next turn that
  reports it again blocks the goal exactly when the configured limit is at most \<open>n\<close>, and then the
  stored goal is blocked. The next turn has a hint or a goal text to continue with and finds the
  conversation idle; the goal is active, autonomous and has no token budget. (A goal whose turn policy
  is to wait is never continued, so its count never grows.)\<close>

theorem stalled_goal_is_blocked:
  assumes "framed_goal_store S" "rt_store r = Some S" "st_Current S db c = Inr (Some g)" "c \<noteq> []"
    and "IsActive (g_Status g)" "Autonomous (Some g)" "g_TokenBudget g = None"
    and "g_Controller g = Some spec" "cs_MaxConsecutiveNoProgress spec = Some limit" "limit \<le> maxInt64"
    and "list_all (\<lambda>(now', inp'). TrimSpace (at_ConversationID inp') = c \<and> TrimSpace (at_ProgressFingerprint inp') = fp) (turns @ [(now, inp)])"
    and "fp \<noteq> []" "g_LastContinuationFingerprint g \<noteq> fp"
    and "AfterTurns r turns db = (outs, db1)"
    and "list_all (\<lambda>(a', g', e, hooks'). e = None \<and> ac_Kind a' \<in> {ActionQueueTurn, ActionScheduleWakeup}) outs"
    and "AfterTurn (Some r) now (Some inp) db1 = (a, g2, None, hooks, db2)" "quiet_turn inp"
    and "at_Continuation inp \<noteq> None \<or> succeeded inp \<and> TrimSpace (g_Objective g) \<noteq> []"
  shows "(ac_Kind a = ActionBlockGoal \<longleftrightarrow> limit \<le> int (length turns)) \<and>
    (ac_Kind a = ActionBlockGoal \<longrightarrow> (\<exists>g3. st_Current S db2 c = Inr (Some g3) \<and> g_Status g3 = StatusBlocked))"
proof
  have S: "goal_store S" using assms(1) by (simp add: framed_goal_store_def)
  have c: "TrimSpace (at_ConversationID inp) = c" and fp: "TrimSpace (at_ProgressFingerprint inp) = fp"
    and ts: "list_all (\<lambda>(now', inp'). TrimSpace (at_ConversationID inp') = c \<and> TrimSpace (at_ProgressFingerprint inp') = fp) turns"
    using assms(11) by simp_all
  have "next_count g fp = int 0" using assms(13) by (simp add: next_count_def)
  from framed_goal_store.continued_calls [OF assms(1,2,12,9,10,14) ts assms(15) assms(3,8) this]
  obtain g1 where g1: "st_Current S db1 c = Inr (Some g1)" "kept_goal g g1" "next_count g1 fp = int (length turns)" by auto
  have "ac_Kind a = ActionBlockGoal \<longleftrightarrow> reached (cs_MaxConsecutiveNoProgress spec) (next_count g1 fp)"
    by (rule framed_goal_store.AfterTurn_blocks [OF assms(1,2,16) g1(1) c assms(4) fp assms(12)])
      (use assms(5-8,17,18) g1(2) in \<open>simp_all add: kept_goal_def Autonomous_def\<close>)
  then show "ac_Kind a = ActionBlockGoal \<longleftrightarrow> limit \<le> int (length turns)" by (simp add: assms(9) g1(3) reached_def)
  show "ac_Kind a = ActionBlockGoal \<longrightarrow> (\<exists>g3. st_Current S db2 c = Inr (Some g3) \<and> g_Status g3 = StatusBlocked)"
  proof
    assume "ac_Kind a = ActionBlockGoal"
    then have "ac_Status a = StatusBlocked" using AfterTurn_lifecycle [OF assms(16)] by (simp add: lifecycle_ok_def)
    then show "\<exists>g3. st_Current S db2 c = Inr (Some g3) \<and> g_Status g3 = StatusBlocked"
      using goal_store.lifecycle_stored [OF S assms(2,16)] c by (auto simp: StatusBlocked_def)
  qed
qed

definition open_view :: GoalView where
  "open_view = demo_view\<lparr>gv_TokenBudget := None\<rparr>"

theorem stalled_goal_is_blocked_witness:
  "case AfterTurns demo_runtime [(0, demo_turn), (1, demo_turn)] (5, [open_view]) of (outs, db1) \<Rightarrow>
     list_all (\<lambda>(a', g', e, hooks'). e = None \<and> ac_Kind a' = ActionQueueTurn) outs \<and>
     (case AfterTurn (Some demo_runtime) 2 (Some demo_turn) db1 of (a, g2, e, hooks, db2) \<Rightarrow> ac_Kind a = ActionBlockGoal)"
proof -
  obtain outs db1 where r: "AfterTurns demo_runtime [(0, demo_turn), (1, demo_turn)] (5, [open_view]) = (outs, db1)" by (metis surj_pair)
  obtain a g2 e hooks db2 where r': "AfterTurn (Some demo_runtime) 2 (Some demo_turn) db1 = (a, g2, e, hooks, db2)" by (metis surj_pair)
  have "(case AfterTurns demo_runtime [(0, demo_turn), (1, demo_turn)] (5, [open_view]) of (outs, db1) \<Rightarrow>
      list_all (\<lambda>(a', g', e, hooks'). e = None \<and> ac_Kind a' = ActionQueueTurn) outs \<and>
      (case AfterTurn (Some demo_runtime) 2 (Some demo_turn) db1 of (a, g2, e, hooks, db2) \<Rightarrow> e = None))"
    by code_simp
  then have outs: "list_all (\<lambda>(a', g', e, hooks'). e = None \<and> ac_Kind a' = ActionQueueTurn) outs" "e = None" by (simp_all only: r r' prod.case)
  then have outs': "list_all (\<lambda>(a', g', e, hooks'). e = None \<and> ac_Kind a' \<in> {ActionQueueTurn, ActionScheduleWakeup}) outs"
    by (auto simp: list_all_iff)
  have "(case st_Current (dataStore (Some table_invoker) demo_unmarshal) (5, [open_view]) ''c1'' of Inr (Some g) \<Rightarrow>
      IsActive (g_Status g) \<and> Autonomous (Some g) \<and> g_TokenBudget g = None \<and> g_Controller g = Some demo_spec \<and>
      g_LastContinuationFingerprint g \<noteq> ''p'' \<and> TrimSpace (g_Objective g) \<noteq> [] | _ \<Rightarrow> False)" by code_simp
  then obtain g where g: "st_Current (dataStore (Some table_invoker) demo_unmarshal) (5, [open_view]) ''c1'' = Inr (Some g)"
      "IsActive (g_Status g)" "Autonomous (Some g)" "g_TokenBudget g = None" "g_Controller g = Some demo_spec"
      "g_LastContinuationFingerprint g \<noteq> ''p''" "TrimSpace (g_Objective g) \<noteq> []"
    by (auto split: sum.splits option.splits)
  have more: "cs_MaxConsecutiveNoProgress demo_spec = Some 2" "TrimSpace (at_ConversationID demo_turn) = ''c1''"
      "TrimSpace (at_ProgressFingerprint demo_turn) = ''p''" "quiet_turn demo_turn" "succeeded demo_turn" by code_simp+
  have "ac_Kind a = ActionBlockGoal \<longleftrightarrow> 2 \<le> int (length [(0::gotime, demo_turn), (1, demo_turn)])"
    by (rule stalled_goal_is_blocked [OF table_frame.framed_goal_store_axioms demo_store g(1) _ g(2-5) more(1) _ _ _ g(6) r outs'
          r' [unfolded outs(2)] more(4), THEN conjunct1]) (use g(7) more in simp_all)
  then have "ac_Kind a = ActionBlockGoal" by simp
  with outs(1) show ?thesis by (simp only: r r' prod.case)
qed

end
