(* ===== verification/GoUtf8.thy ===== *)
theory GoUtf8
  imports GoPrelude
begin

text \<open>
  The runes of a Go string: a \<open>range\<close> loop over a string decodes UTF-8 and takes an invalid byte as a
  rune of its own. A rune is kept as its bytes.
\<close>

text \<open>The width of the first rune of a nonempty string: that of a valid UTF-8 sequence, otherwise 1, as a
  \<open>range\<close> loop over a string counts it.\<close>

definition byte_in :: "nat \<Rightarrow> nat \<Rightarrow> char \<Rightarrow> bool" where
  "byte_in lo hi c \<longleftrightarrow> lo \<le> of_char c \<and> (of_char c :: nat) \<le> hi"

abbreviation "cont \<equiv> byte_in 0x80 0xBF"

definition valid2 :: "string \<Rightarrow> bool" where
  "valid2 s = (case s of a # b # _ \<Rightarrow> byte_in 0xC2 0xDF a \<and> cont b | _ \<Rightarrow> False)"

definition valid3 :: "string \<Rightarrow> bool" where
  "valid3 s = (case s of a # b # c # _ \<Rightarrow>
      (byte_in 0xE0 0xE0 a \<and> byte_in 0xA0 0xBF b \<or> byte_in 0xE1 0xEC a \<and> cont b \<or>
       byte_in 0xED 0xED a \<and> byte_in 0x80 0x9F b \<or> byte_in 0xEE 0xEF a \<and> cont b) \<and> cont c | _ \<Rightarrow> False)"

definition valid4 :: "string \<Rightarrow> bool" where
  "valid4 s = (case s of a # b # c # d # _ \<Rightarrow>
      (byte_in 0xF0 0xF0 a \<and> byte_in 0x90 0xBF b \<or> byte_in 0xF1 0xF3 a \<and> cont b \<or>
       byte_in 0xF4 0xF4 a \<and> byte_in 0x80 0x8F b) \<and> cont c \<and> cont d | _ \<Rightarrow> False)"

definition rune_width :: "string \<Rightarrow> nat" where
  "rune_width s = (if valid2 s then 2 else if valid3 s then 3 else if valid4 s then 4 else 1)"

lemma rune_width_pos [simp]: "0 < rune_width s"
  by (simp add: rune_width_def)

text \<open>The runes of a string, as byte sequences.\<close>

function runes :: "string \<Rightarrow> string list" where
  "runes s = (if s = [] then [] else take (rune_width s) s # runes (drop (rune_width s) s))"
  by pat_completeness auto
termination
  by (relation "measure length") auto

declare runes.simps [simp del]

lemma runes_Nil [simp]: "runes [] = []"
  by (simp add: runes.simps)

lemma runes_Nil_iff [simp]: "runes s = [] \<longleftrightarrow> s = []"
  by (subst runes.simps) simp

lemma take_prefix: "prefix p s \<Longrightarrow> take (length p) s = p"
  by (auto simp: prefix_def)

lemma valid_take:
  "valid2 (take k s) \<longleftrightarrow> 2 \<le> k \<and> valid2 s" "valid3 (take k s) \<longleftrightarrow> 3 \<le> k \<and> valid3 s" "valid4 (take k s) \<longleftrightarrow> 4 \<le> k \<and> valid4 s"
  by (auto simp: valid2_def valid3_def valid4_def take_Cons split: list.splits nat.splits)

lemma rune_width_take: "rune_width s \<le> k \<Longrightarrow> rune_width (take k s) = rune_width s"
  by (auto simp: rune_width_def valid_take split: if_splits)

lemma rune_width_le: "s \<noteq> [] \<Longrightarrow> rune_width s \<le> length s"
  by (auto simp: rune_width_def valid2_def valid3_def valid4_def Suc_le_eq split: list.splits)

lemma concat_runes: "concat (runes s) = s"
  by (induction s rule: runes.induct) (subst runes.simps, simp)

lemma runes_prefix: "prefix (concat (take n (runes s))) s"
  by (metis append_take_drop_id concat_append concat_runes prefixI)

text \<open>Cutting at a rune boundary does not change the runes before it.\<close>

lemma runes_take: "runes (concat (take n (runes s))) = take n (runes s)"
proof (induction n arbitrary: s)
  case 0
  then show ?case by (simp add: runes.simps)
next
  case (Suc n)
  show ?case
  proof (cases "s = []")
    case False
    let ?w = "rune_width s"
    let ?p = "concat (take n (runes (drop ?w s)))"
    have r: "runes s = take ?w s # runes (drop ?w s)" using False by (simp add: runes.simps [of s])
    have p: "take (length ?p) (drop ?w s) = ?p" by (rule take_prefix [OF runes_prefix])
    have cut: "take ?w s @ ?p = take (?w + length ?p) s"
      unfolding take_add p ..
    have len: "length (take ?w s) = ?w" using rune_width_le [OF False] by simp
    have "rune_width (take ?w s @ ?p) = ?w" unfolding cut by (rule rune_width_take) simp
    moreover have "take ?w s @ ?p \<noteq> []" using len rune_width_pos [of s] by (metis append_is_Nil_conv list.size(3) less_irrefl)
    ultimately have "runes (take ?w s @ ?p) = take ?w s # runes ?p"
      using len by (simp add: runes.simps [of "take ?w s @ ?p"])
    with Suc.IH [of "drop ?w s"] show ?thesis by (simp add: r)
  qed (simp add: runes.simps)
qed

end
