(* ===== verification/TextClip.thy ===== *)
theory TextClip
  imports GoUtf8
begin

text \<open>
  Clipping of text, \<open>internal/textutil/{textclip,truncate}.go\<close>: by byte range, by line range, by size from
  either end, and by runes. A slice expression or an index out of range panics in Go; here it gives
  \<open>Panic\<close>, and the properties show that it never does. Parameter: the regular expression of
  \<open>ExtractSignatures\<close>.
\<close>

section \<open>Slices\<close>

datatype 'a clip_result = Ok 'a | Err string | Panic

definition slice :: "'a list \<Rightarrow> int \<Rightarrow> int \<Rightarrow> 'a list option" where
  "slice xs lo hi = (if 0 \<le> lo \<and> lo \<le> hi \<and> hi \<le> int (length xs)
     then Some (take (nat (hi - lo)) (drop (nat lo) xs)) else None)"

definition index :: "'a list \<Rightarrow> int \<Rightarrow> 'a option" where
  "index xs i = (if 0 \<le> i \<and> i < int (length xs) then Some (xs ! nat i) else None)"

section \<open>Ranges\<close>

record IntRange =
  From :: "int option"
  To :: "int option"

record BytesRange =
  OffsetBytes :: int
  LengthBytes :: int

record LineRange =
  StartLine :: int
  LineCount :: int

definition rngOK :: "IntRange option \<Rightarrow> bool" where
  "rngOK r = (case r of None \<Rightarrow> False
     | Some r \<Rightarrow> (case (From r, To r) of (Some f, Some t) \<Rightarrow> f \<ge> 0 \<and> t \<ge> f | _ \<Rightarrow> False))"

definition from_of :: "IntRange \<Rightarrow> int" where "from_of r = (case From r of Some f \<Rightarrow> f | None \<Rightarrow> 0)"
definition to_of :: "IntRange \<Rightarrow> int" where "to_of r = (case To r of Some t \<Rightarrow> t | None \<Rightarrow> 0)"

definition ClipBytes :: "string \<Rightarrow> IntRange option \<Rightarrow> (string \<times> int \<times> int) clip_result" where
  "ClipBytes b r =
     (case r of None \<Rightarrow> Ok (b, 0, int (length b))
      | Some rg \<Rightarrow>
        if \<not> rngOK r then Err ''invalid byteRange''
        else let start0 = from_of rg; end0 = to_of rg;
                 start1 = (if start0 < 0 then 0 else start0);
                 start = (if start1 > int (length b) then int (length b) else start1);
                 end1 = (if end0 < start then start else end0);
                 fin = (if end1 > int (length b) then int (length b) else end1)
             in (case slice b start fin of None \<Rightarrow> Panic | Some s \<Rightarrow> Ok (s, start, fin)))"

definition ClipBytesByRange :: "string \<Rightarrow> BytesRange \<Rightarrow> (string \<times> int \<times> int) clip_result" where
  "ClipBytesByRange b br =
     (if OffsetBytes br \<le> 0 \<and> LengthBytes br \<le> 0 then Ok (b, 0, int (length b))
      else let start = OffsetBytes br;
               fin = (if LengthBytes br > 0 then wrap64 (start + LengthBytes br) else int (length b))
           in ClipBytes b (Some \<lparr>From = Some start, To = Some fin\<rparr>))"

text \<open>The loop of \<open>ClipLines\<close> that collects the offsets at which lines start.\<close>

fun line_starts :: "int \<Rightarrow> int \<Rightarrow> string \<Rightarrow> int list" where
  "line_starts n i [] = []"
| "line_starts n i (c # cs) =
     (if c = nl \<and> i + 1 < n then (i + 1) # line_starts n (i + 1) cs else line_starts n (i + 1) cs)"

definition ClipLines :: "string \<Rightarrow> IntRange option \<Rightarrow> (string \<times> int \<times> int) clip_result" where
  "ClipLines b r =
     (case r of None \<Rightarrow> Ok (b, 0, int (length b))
      | Some rg \<Rightarrow>
        if \<not> rngOK r then Err ''invalid lineRange''
        else let starts = 0 # line_starts (int (length b)) 0 b;
                 total = int (length starts);
                 from0 = from_of rg; to0 = to_of rg;
                 from1 = (if from0 < 0 then 0 else from0);
                 from2 = (if from1 > total then total else from1);
                 to1 = (if to0 < from2 then from2 else to0);
                 to2 = (if to1 > total then total else to1)
             in (case (if from2 < total then index starts from2 else Some (int (length b))) of None \<Rightarrow> Panic
                 | Some start \<Rightarrow>
                   (case (if to2 - 1 < total - 1 then map_option (\<lambda>s. s - 1) (index starts to2) else Some (int (length b))) of
                      None \<Rightarrow> Panic
                    | Some end0 \<Rightarrow>
                      let fin = (if end0 < start then start else end0)
                      in (case slice b start fin of None \<Rightarrow> Panic | Some s \<Rightarrow> Ok (s, start, fin)))))"

definition ClipLinesByRange :: "string \<Rightarrow> LineRange \<Rightarrow> (string \<times> int \<times> int) clip_result" where
  "ClipLinesByRange b lr =
     (if StartLine lr \<le> 0 \<and> LineCount lr \<le> 0 then Ok (b, 0, int (length b))
      else let from0 = wrap64 (StartLine lr - 1);
               from1 = (if from0 < 0 then 0 else from0);
               to1 = (if LineCount lr > 0 then wrap64 (from1 + LineCount lr) else wrap64 (from1 + 1000000000))
           in ClipLines b (Some \<lparr>From = Some from1, To = Some to1\<rparr>))"

section \<open>Head and tail\<close>

definition remaining :: "int \<Rightarrow> int \<Rightarrow> int" where
  "remaining totalSize returned = (if totalSize \<le> returned then 0 else wrap64 (totalSize - returned))"

definition ClipHead :: "string \<Rightarrow> int \<Rightarrow> int \<Rightarrow> int \<Rightarrow> (string \<times> int \<times> int) clip_result" where
  "ClipHead txt totalSize maxBytes maxLines =
     (if maxLines \<le> 0 then
        (case (if maxBytes > 0 \<and> int (length txt) > maxBytes then slice txt 0 maxBytes else Some txt) of
           None \<Rightarrow> Panic
         | Some head \<Rightarrow> Ok (head, int (length head), remaining totalSize (int (length head))))
      else
        let lines = Split nl txt in
        (case (if int (length lines) > maxLines then slice lines 0 maxLines else Some lines) of
           None \<Rightarrow> Panic
         | Some lines' \<Rightarrow>
           let head = Join [nl] lines' in Ok (head, int (length head), remaining totalSize (int (length head)))))"

definition ClipTail :: "string \<Rightarrow> int \<Rightarrow> int \<Rightarrow> int \<Rightarrow> (string \<times> int \<times> int) clip_result" where
  "ClipTail txt totalSize maxBytes maxLines =
     (if maxLines \<le> 0 then
        (case (if maxBytes > 0 \<and> int (length txt) > maxBytes
               then slice txt (int (length txt) - maxBytes) (int (length txt)) else Some txt) of
           None \<Rightarrow> Panic
         | Some tl' \<Rightarrow> Ok (tl', int (length tl'), remaining totalSize (int (length tl'))))
      else
        let lines = Split nl txt in
        (case (if int (length lines) > maxLines
               then slice lines (int (length lines) - maxLines) (int (length lines)) else Some lines) of
           None \<Rightarrow> Panic
         | Some lines' \<Rightarrow>
           let tl' = Join [nl] lines' in Ok (tl', int (length tl'), remaining totalSize (int (length tl')))))"

text \<open>\<open>ExtractSignatures\<close>: the loop over the lines, which stops when enough was collected.\<close>

fun collect_sigs :: "(string \<Rightarrow> bool) \<Rightarrow> int \<Rightarrow> string list \<Rightarrow> string list \<Rightarrow> string list" where
  "collect_sigs re maxBytes [] sigs = sigs"
| "collect_sigs re maxBytes (line # lines) sigs =
     (if TrimSpace line = [] then collect_sigs re maxBytes lines sigs
      else let sigs' = (if re line then sigs @ [line] else sigs) in
        if maxBytes > 0 \<and> int (length (Join [nl] sigs')) \<ge> maxBytes then sigs'
        else collect_sigs re maxBytes lines sigs')"

definition ExtractSignatures :: "(string \<Rightarrow> bool) \<Rightarrow> string \<Rightarrow> int \<Rightarrow> string clip_result" where
  "ExtractSignatures re txt maxBytes =
     (let result = Join [nl] (collect_sigs re maxBytes (Split nl txt) []) in
      if maxBytes > 0 \<and> int (length result) > maxBytes
      then (case slice result 0 maxBytes of None \<Rightarrow> Panic | Some s \<Rightarrow> Ok s) else Ok result)"

section \<open>Cutting by runes\<close>

text \<open>The offset of rune \<open>n\<close>: where the loop of \<open>RuneTruncate\<close> returns, if it does.\<close>

function rune_offset :: "int \<Rightarrow> int \<Rightarrow> nat \<Rightarrow> string \<Rightarrow> nat option" where
  "rune_offset n i idx s =
     (if s = [] then None
      else if i = n then Some idx
      else rune_offset n (i + 1) (idx + rune_width s) (drop (rune_width s) s))"
  by pat_completeness auto
termination
  by (relation "measure (\<lambda>(n, i, idx, s). length s)") auto

declare rune_offset.simps [simp del]

definition RuneTruncate :: "string \<Rightarrow> int \<Rightarrow> string" where
  "RuneTruncate s n =
     (if n \<le> 0 \<or> s = [] then []
      else case rune_offset n 0 0 s of Some idx \<Rightarrow> take idx s | None \<Rightarrow> s)"

definition Head :: "string \<Rightarrow> int \<Rightarrow> string clip_result" where
  "Head s n = (if n \<le> 0 then Ok [] else if int (length s) \<le> n then Ok s
     else case slice s 0 n of None \<Rightarrow> Panic | Some t \<Rightarrow> Ok t)"

definition Tail :: "string \<Rightarrow> int \<Rightarrow> string clip_result" where
  "Tail s n = (if n \<le> 0 then Ok [] else if int (length s) \<le> n then Ok s
     else case slice s (int (length s) - n) (int (length s)) of None \<Rightarrow> Panic | Some t \<Rightarrow> Ok t)"

section \<open>Lines\<close>

text \<open>The lines \<open>ClipLines\<close> counts: a newline separates two lines unless it is the last byte.\<close>

fun text_lines :: "string \<Rightarrow> string list" where
  "text_lines [] = [[]]"
| "text_lines (c # cs) =
     (if c = nl \<and> cs \<noteq> [] then [] # text_lines cs
      else (case text_lines cs of [] \<Rightarrow> [[c]] | w # ws \<Rightarrow> (c # w) # ws))"

abbreviation "line_bytes ls \<equiv> concat (map (\<lambda>l. l @ [nl]) ls)"

lemma text_lines_not_Nil [simp]: "text_lines b \<noteq> []"
  by (induction b) (auto split: list.splits)

lemma Join_text_lines: "Join [nl] (text_lines b) = b"
proof (induction b)
  case (Cons c cs)
  then show ?case by (cases "text_lines cs") (auto simp: Join_Cons Join_head)
qed simp

lemma Join_parts: "k < length ls \<Longrightarrow> Join [nl] ls = line_bytes (take k ls) @ Join [nl] (drop k ls)"
proof (induction k arbitrary: ls)
  case (Suc k)
  then obtain l ls' where ls: "ls = l # ls'" "k < length ls'" by (cases ls) auto
  then have "ls' \<noteq> []" by auto
  with Suc.IH [of ls'] ls show ?case by (simp add: Join_Cons)
qed simp

lemma Join_line_bytes: "ls \<noteq> [] \<Longrightarrow> Join [nl] ls @ [nl] = line_bytes ls"
proof (induction ls)
  case (Cons l ls)
  then show ?case by (cases ls) (auto simp: Join_Cons)
qed simp

lemma starts_offsets:
  "length (line_starts (i + int (length b)) i b) = length (text_lines b) - 1 \<and>
   (\<forall>k < length (text_lines b). (i # line_starts (i + int (length b)) i b) ! k = i + int (length (line_bytes (take k (text_lines b)))))"
proof (induction b arbitrary: i)
  case (Cons c cs)
  let ?r = "line_starts (i + 1 + int (length cs)) (i + 1) cs"
  have len: "length ?r = length (text_lines cs) - 1"
    and offs: "\<And>k. k < length (text_lines cs) \<Longrightarrow> ((i + 1) # ?r) ! k = i + 1 + int (length (line_bytes (take k (text_lines cs))))"
    using Cons.IH [of "i + 1"] by auto
  obtain w ws where ws: "text_lines cs = w # ws" by (cases "text_lines cs") auto
  show ?case
  proof (cases "c = nl \<and> cs \<noteq> []")
    case True
    then have "line_starts (i + int (length (c # cs))) i (c # cs) = (i + 1) # ?r" by (cases cs) (simp_all add: algebra_simps)
    moreover have "(i # (i + 1) # ?r) ! k = i + int (length (line_bytes (take k ([] # text_lines cs))))"
      if "k < Suc (length (text_lines cs))" for k
      using that offs [of "k - 1"] by (cases k) simp_all
    ultimately show ?thesis using True len by (auto simp: ws)
  next
    case False
    then have e: "line_starts (i + int (length (c # cs))) i (c # cs) = ?r" by (cases cs) (auto simp: algebra_simps)
    have "(i # ?r) ! k = i + int (length (line_bytes (take k ((c # w) # ws))))" if "k < length (text_lines cs)" for k
      using offs [OF that] by (cases k) (simp_all add: ws)
    with False len e show ?thesis by (auto simp: ws)
  qed
qed simp

text \<open>The offset at which line \<open>k\<close> starts, and the bounds of the slice that \<open>ClipLines\<close> takes.\<close>

definition line_offset :: "string \<Rightarrow> int \<Rightarrow> int" where
  "line_offset b k = int (length (line_bytes (take (nat k) (text_lines b))))"

definition clip_start :: "string \<Rightarrow> int \<Rightarrow> int" where
  "clip_start b f = (if f < int (length (text_lines b)) then line_offset b f else int (length b))"

definition clip_end :: "string \<Rightarrow> int \<Rightarrow> int \<Rightarrow> int" where
  "clip_end b f t = max (clip_start b f) (if t < int (length (text_lines b)) then line_offset b t - 1 else int (length b))"

lemma starts_length: "length (0 # line_starts (int (length b)) 0 b) = length (text_lines b)"
  using starts_offsets [of 0 b] by (simp add: Suc_leI)

lemma index_starts:
  "0 \<le> k \<Longrightarrow> k < int (length (text_lines b)) \<Longrightarrow> index (0 # line_starts (int (length b)) 0 b) k = Some (line_offset b k)"
  using starts_offsets [of 0 b] by (simp add: index_def starts_length [simplified] line_offset_def nat_less_iff)

lemma ClipLines_eq:
  assumes "0 \<le> f" "f \<le> t"
  shows "ClipLines b (Some \<lparr>From = Some f, To = Some t\<rparr>) =
    (case slice b (clip_start b f) (clip_end b f t) of None \<Rightarrow> Panic | Some s \<Rightarrow> Ok (s, clip_start b f, clip_end b f t))"
proof -
  define starts where "starts = 0 # line_starts (int (length b)) 0 b"
  have len: "length starts = length (text_lines b)" unfolding starts_def by (rule starts_length)
  have i: "index starts k = Some (line_offset b k)" if "0 \<le> k" "k < int (length (text_lines b))" for k
    unfolding starts_def using that by (rule index_starts)
  show ?thesis
    unfolding ClipLines_def using assms len
    by (cases "f < int (length (text_lines b))"; cases "t < int (length (text_lines b))"; cases "t = int (length (text_lines b))")
      (simp_all add: rngOK_def from_of_def to_of_def Let_def starts_def [symmetric] clip_start_def clip_end_def i max_def split: option.split)
qed

lemma slice_middle: "b = p @ m @ c # r \<Longrightarrow> slice b (int (length p)) (int (length (p @ m @ [c])) - 1) = Some m"
  by (simp add: slice_def)

lemma append_parts: "b = p @ r \<Longrightarrow> length p \<le> length b \<and> drop (length p) b = r"
  by simp

text \<open>The text up to a line, and from it on.\<close>

lemma text_parts:
  assumes "0 \<le> k" "k < int (length (text_lines b))"
  shows "b = line_bytes (take (nat k) (text_lines b)) @ Join [nl] (drop (nat k) (text_lines b))"
proof -
  have "nat k < length (text_lines b)" using assms by (simp add: nat_less_iff)
  from Join_parts [OF this, folded Join_text_lines] show ?thesis by (simp add: Join_text_lines)
qed

lemma text_split:
  assumes "0 \<le> k" "k < int (length (text_lines b))"
  shows "line_offset b k \<le> int (length b)" "drop (nat (line_offset b k)) b = Join [nl] (drop (nat k) (text_lines b))"
  using append_parts [OF text_parts [OF assms]] by (simp_all add: line_offset_def)

lemma slice_lines:
  assumes "0 \<le> f" "f < t" "t < int (length (text_lines b))"
  shows "slice b (line_offset b f) (line_offset b t - 1) = Some (Join [nl] (take (nat (t - f)) (drop (nat f) (text_lines b))))"
proof -
  let ?L = "text_lines b"
  define M where "M = take (nat (t - f)) (drop (nat f) ?L)"
  have M: "M \<noteq> []" "take (nat t) ?L = take (nat f) ?L @ M"
    using assms by (simp_all add: M_def take_add [symmetric] nat_add_distrib [symmetric])
  have lb: "line_bytes (take (nat t) ?L) = line_bytes (take (nat f) ?L) @ Join [nl] M @ [nl]"
    unfolding M(2) Join_line_bytes [OF M(1)] by simp
  have "b = line_bytes (take (nat t) ?L) @ Join [nl] (drop (nat t) ?L)" using assms by (intro text_parts) simp_all
  then have "b = line_bytes (take (nat f) ?L) @ Join [nl] M @ nl # Join [nl] (drop (nat t) ?L)" unfolding lb by simp
  from slice_middle [OF this] show ?thesis unfolding line_offset_def lb M_def [symmetric] .
qed

text \<open>A valid line range never panics and gives exactly the lines of the range, joined by newlines,
  as the slice of the bytes between the offsets returned; ranges past the end are cut off.\<close>

theorem ClipLines_spec:
  assumes "0 \<le> f" "f \<le> t"
  shows "\<exists>start fin. ClipLines b (Some \<lparr>From = Some f, To = Some t\<rparr>) =
      Ok (Join [nl] (take (nat (t - f)) (drop (nat f) (text_lines b))), start, fin) \<and>
    slice b start fin = Some (Join [nl] (take (nat (t - f)) (drop (nat f) (text_lines b))))"
proof -
  let ?n = "int (length (text_lines b))"
  have "slice b (clip_start b f) (clip_end b f t) = Some (Join [nl] (take (nat (t - f)) (drop (nat f) (text_lines b))))"
  proof (cases "f < ?n \<and> t < ?n \<and> f < t")
    case True
    have "line_offset b f \<le> line_offset b t - 1"
      using slice_lines [OF assms(1), of t b] True by (auto simp: slice_def split: if_splits)
    then show ?thesis using slice_lines [OF assms(1), of t b] True by (simp add: clip_start_def clip_end_def max_def)
  next
    case False
    then consider "f \<ge> ?n" | "f < ?n" "t \<ge> ?n" | "f < ?n" "t = f" using assms by linarith
    then show ?thesis
    proof cases
      case 1
      then show ?thesis using assms by (simp add: clip_start_def clip_end_def slice_def nat_less_iff)
    next
      case 2
      note s = text_split [OF assms(1) 2(1)]
      have "take (nat (t - f)) (drop (nat f) (text_lines b)) = drop (nat f) (text_lines b)" using 2 by simp
      moreover have "length b - nat (line_offset b f) = length (Join [nl] (drop (nat f) (text_lines b)))"
        using arg_cong [OF s(2), of length] by simp
      moreover have "0 \<le> line_offset b f" by (simp add: line_offset_def)
      ultimately show ?thesis using 2 s by (simp add: clip_start_def clip_end_def slice_def nat_diff_distrib)
    next
      case 3
      then show ?thesis using text_split(1) [OF assms(1) 3(1)]
        by (simp add: clip_start_def clip_end_def slice_def max_def line_offset_def)
    qed
  qed
  then show ?thesis using ClipLines_eq [OF assms] by auto
qed

section \<open>Head and tail\<close>

lemma Split_Join: "ls \<noteq> [] \<Longrightarrow> \<forall>l \<in> set ls. sep \<notin> set l \<Longrightarrow> Split sep (Join [sep] ls) = ls"
proof (induction ls)
  case (Cons l ls)
  have one: "sep \<notin> set l \<Longrightarrow> Split sep l = [l]" for l by (induction l) auto
  have more: "sep \<notin> set l \<Longrightarrow> Split sep (l @ sep # s) = l # Split sep s" for l s by (induction l) auto
  show ?case using Cons one more by (cases ls) auto
qed simp

definition fits :: "string \<Rightarrow> int \<Rightarrow> int \<Rightarrow> bool" where
  "fits txt maxBytes maxLines \<longleftrightarrow>
     (if maxLines > 0 then int (length (Split nl txt)) \<le> maxLines else maxBytes > 0 \<longrightarrow> int (length txt) \<le> maxBytes)"

lemma slice_take: "0 \<le> n \<Longrightarrow> n \<le> int (length xs) \<Longrightarrow> slice xs 0 n = Some (take (nat n) xs)"
  by (simp add: slice_def)

lemma slice_drop: "0 \<le> n \<Longrightarrow> n \<le> int (length xs) \<Longrightarrow> slice xs (int (length xs) - n) (int (length xs)) = Some (drop (length xs - nat n) xs)"
  by (simp add: slice_def nat_diff_distrib)

text \<open>The number of lines is one more than the number of newlines, so a longer part that fits would have
  to go on past a newline.\<close>

lemma length_Split: "length (Split sep s) = Suc (count_list s sep)"
  by (induction s) (auto split: list.splits)

lemma fits_count:
  "maxLines > 0 \<Longrightarrow> fits s maxBytes maxLines \<longleftrightarrow> int (count_list s nl) < maxLines"
  by (auto simp: fits_def length_Split)

lemma longest_prefix:
  assumes "txt = h @ nl # r" "maxLines > 0" "int (count_list h nl) + 1 = maxLines" "prefix p txt" "fits p maxBytes maxLines"
  shows "length p \<le> length h"
proof (rule ccontr)
  assume "\<not> length p \<le> length h"
  moreover have "prefix (h @ [nl]) txt" by (simp add: assms(1))
  ultimately have "prefix (h @ [nl]) p" using assms(4) by (metis length_append_singleton not_less_eq_eq prefix_length_prefix)
  then have "count_list p nl \<ge> Suc (count_list h nl)" by (auto simp: prefix_def)
  with assms(2,3,5) show False by (simp add: fits_count)
qed

lemma longest_suffix:
  assumes "txt = r @ nl # h" "maxLines > 0" "int (count_list h nl) + 1 = maxLines" "suffix p txt" "fits p maxBytes maxLines"
  shows "length p \<le> length h"
proof (rule ccontr)
  assume "\<not> length p \<le> length h"
  moreover have "suffix (nl # h) txt" by (simp add: assms(1) suffix_def)
  ultimately have "suffix (nl # h) p" using assms(4) by (metis length_Cons not_less_eq_eq suffix_length_suffix)
  then have "count_list p nl \<ge> Suc (count_list h nl)" by (auto simp: suffix_def)
  with assms(2,3,5) show False by (simp add: fits_count)
qed

lemma Join_split_at:
  assumes "0 < k" "k < length ls"
  shows "Join [sep] ls = Join [sep] (take k ls) @ sep # Join [sep] (drop k ls)"
  using assms
proof (induction k arbitrary: ls)
  case (Suc k)
  then obtain l l' ls' where ls: "ls = l # l' # ls'" by (cases ls; cases "tl ls") auto
  with Suc show ?case by (cases k) (auto simp: Join_Cons)
qed simp

lemma remaining_range: "totalSize \<le> maxInt64 \<Longrightarrow> remaining totalSize (int n) = max 0 (totalSize - int n)"
  by (simp add: remaining_def wrap64_id)

lemma clip_lines:
  assumes "maxLines > 0" "int (length (Split nl txt)) > maxLines"
  defines "h \<equiv> Join [nl] (take (nat maxLines) (Split nl txt))" and "t \<equiv> Join [nl] (drop (length (Split nl txt) - nat maxLines) (Split nl txt))"
  shows "ClipHead txt totalSize maxBytes maxLines = Ok (h, int (length h), remaining totalSize (int (length h)))"
    and "ClipTail txt totalSize maxBytes maxLines = Ok (t, int (length t), remaining totalSize (int (length t)))"
    and "Split nl h = take (nat maxLines) (Split nl txt)" "Split nl t = drop (length (Split nl txt) - nat maxLines) (Split nl txt)"
    and "\<exists>r. txt = h @ nl # r" "\<exists>r. txt = r @ nl # t"
proof -
  let ?ls = "Split nl txt"
  let ?k = "length ?ls - nat maxLines"
  have noNL: "\<forall>l \<in> set ?ls. nl \<notin> set l" using Split_no_sep by blast
  have ks: "0 < nat maxLines" "nat maxLines < length ?ls" "0 < ?k" "?k < length ?ls" using assms(1,2) by auto
  show "ClipHead txt totalSize maxBytes maxLines = Ok (h, int (length h), remaining totalSize (int (length h)))"
    "ClipTail txt totalSize maxBytes maxLines = Ok (t, int (length t), remaining totalSize (int (length t)))"
    using slice_take [of maxLines ?ls] slice_drop [of maxLines ?ls] assms(1,2) by (simp_all add: ClipHead_def ClipTail_def Let_def h_def t_def)
  show "Split nl h = take (nat maxLines) ?ls" "Split nl t = drop ?k ?ls"
    unfolding h_def t_def using ks noNL by (auto intro!: Split_Join dest: in_set_takeD in_set_dropD)
  show "\<exists>r. txt = h @ nl # r" using Join_split_at [OF ks(1,2), of nl] by (auto simp: h_def Join_Split)
  show "\<exists>r. txt = r @ nl # t" using Join_split_at [OF ks(3,4), of nl] by (auto simp: t_def Join_Split)
qed

lemma clip_whole:
  assumes "fits txt maxBytes maxLines"
  shows "ClipHead txt totalSize maxBytes maxLines = Ok (txt, int (length txt), remaining totalSize (int (length txt)))"
    "ClipTail txt totalSize maxBytes maxLines = Ok (txt, int (length txt), remaining totalSize (int (length txt)))"
proof -
  have b: "\<not> (maxBytes > 0 \<and> int (length txt) > maxBytes)" if "maxLines \<le> 0" using assms that by (auto simp: fits_def)
  have l: "\<not> int (length (Split nl txt)) > maxLines" if "\<not> maxLines \<le> 0" using assms that by (auto simp: fits_def)
  show "ClipHead txt totalSize maxBytes maxLines = Ok (txt, int (length txt), remaining totalSize (int (length txt)))"
    "ClipTail txt totalSize maxBytes maxLines = Ok (txt, int (length txt), remaining totalSize (int (length txt)))"
    by (cases "maxLines \<le> 0"; simp add: ClipHead_def ClipTail_def Let_def Join_Split if_not_P [OF b] if_not_P [OF l])+
qed

lemma clip_bytes:
  assumes "maxLines \<le> 0" "maxBytes > 0" "int (length txt) > maxBytes"
  shows "ClipHead txt totalSize maxBytes maxLines = Ok (take (nat maxBytes) txt, maxBytes, remaining totalSize maxBytes)"
    "ClipTail txt totalSize maxBytes maxLines = Ok (drop (length txt - nat maxBytes) txt, maxBytes, remaining totalSize maxBytes)"
  using assms slice_take [of maxBytes "txt"] slice_drop [of maxBytes "txt"] by (simp_all add: ClipHead_def ClipTail_def Let_def)

text \<open>C34: \<open>ClipHead\<close> returns the longest prefix of the text within its bound (on lines when a line bound is
  set, on bytes otherwise) and \<open>ClipTail\<close> the longest such suffix; neither panics. With a line bound
  these are exactly the first and the last lines, whole. The length of the part is returned with it,
  and the bytes left of the reported total size.\<close>

theorem ClipHead_ClipTail_spec:
  assumes "totalSize \<le> maxInt64"
  shows "(\<exists>head. ClipHead txt totalSize maxBytes maxLines = Ok (head, int (length head), max 0 (totalSize - int (length head))) \<and>
      prefix head txt \<and> fits head maxBytes maxLines \<and>
      (\<forall>p. prefix p txt \<and> fits p maxBytes maxLines \<longrightarrow> length p \<le> length head) \<and>
      (maxLines > 0 \<longrightarrow> Split nl head = take (nat maxLines) (Split nl txt))) \<and>
   (\<exists>tail'. ClipTail txt totalSize maxBytes maxLines = Ok (tail', int (length tail'), max 0 (totalSize - int (length tail'))) \<and>
      suffix tail' txt \<and> fits tail' maxBytes maxLines \<and>
      (\<forall>p. suffix p txt \<and> fits p maxBytes maxLines \<longrightarrow> length p \<le> length tail') \<and>
      (maxLines > 0 \<longrightarrow> Split nl tail' = drop (length (Split nl txt) - nat maxLines) (Split nl txt)))"
proof -
  note rem = remaining_range [OF assms]
  consider (whole) "fits txt maxBytes maxLines" | (bytes) "maxLines \<le> 0" "maxBytes > 0" "int (length txt) > maxBytes"
    | (lines) "maxLines > 0" "int (length (Split nl txt)) > maxLines" unfolding fits_def by (cases "maxLines > 0"; cases "maxBytes > 0"; force)
  then show ?thesis
  proof cases
    case whole
    have "maxLines > 0 \<longrightarrow> take (nat maxLines) (Split nl txt) = Split nl txt \<and> length (Split nl txt) - nat maxLines = 0"
      using whole by (auto simp: fits_def)
    then show ?thesis using clip_whole [OF whole, of totalSize] whole rem by (auto dest: prefix_length_le suffix_length_le)
  next
    case bytes
    have "fits p maxBytes maxLines \<longleftrightarrow> length p \<le> nat maxBytes" for p using bytes by (auto simp: fits_def)
    then show ?thesis
      using clip_bytes [OF bytes, of totalSize] bytes rem [of "nat maxBytes"]
      by (simp add: take_is_prefix suffix_drop min_def)
  next
    case lines
    note cl = clip_lines [OF lines]
    let ?h = "Join [nl] (take (nat maxLines) (Split nl txt))" and ?t = "Join [nl] (drop (length (Split nl txt) - nat maxLines) (Split nl txt))"
    obtain r r' where parts: "txt = ?h @ nl # r" "txt = r' @ nl # ?t" using cl(5,6) by blast
    have n: "int (count_list ?h nl) + 1 = maxLines" "int (count_list ?t nl) + 1 = maxLines"
      using length_Split [of nl ?h] length_Split [of nl ?t] cl(3,4) lines by simp_all
    then have "fits ?h maxBytes maxLines" "fits ?t maxBytes maxLines" using lines(1) by (simp_all add: fits_count)
    moreover have "prefix ?h txt" "suffix ?t txt" using parts by (metis prefixI, metis suffixI append_Cons append.assoc append_Nil)
    ultimately show ?thesis
      using cl(1,2) [of totalSize maxBytes] cl(3,4) rem longest_prefix [OF parts(1) lines(1) n(1)] longest_suffix [OF parts(2) lines(1) n(2)] lines(1) by auto
  qed
qed

theorem ClipHead_ClipTail_spec_witness:
  "ClipHead ''a#b'' 9 5 0 = Ok (''a#b'', 3, 6) \<and> ClipTail (''a'' @ [nl] @ ''b'') 3 0 1 = Ok (''b'', 1, 2)"
proof -
  obtain head where h: "ClipHead ''a#b'' 9 5 0 = Ok (head, int (length head), max 0 (9 - int (length head)))" "prefix head ''a#b''"
      "\<forall>p. prefix p ''a#b'' \<and> fits p 5 0 \<longrightarrow> length p \<le> length head"
    using ClipHead_ClipTail_spec [of 9 "''a#b''" 5 0] by auto
  have "length ''a#b'' \<le> length head" using h(3) [rule_format, of "''a#b''"] by (simp add: fits_def)
  then have "head = ''a#b''" using h(2) by (metis prefix_length_le le_antisym prefix_def append_eq_conv_conj take_all)
  with h(1) have "ClipHead ''a#b'' 9 5 0 = Ok (''a#b'', 3, 6)" by simp
  moreover have "ClipTail (''a'' @ [nl] @ ''b'') 3 0 1 = Ok (''b'', 1, 2)" by code_simp
  ultimately show ?thesis ..
qed

section \<open>Cutting at a rune\<close>

lemma rune_offset_runes:
  "i \<le> n \<Longrightarrow> rune_offset n i idx s =
     (if n - i < int (length (runes s)) then Some (idx + length (concat (take (nat (n - i)) (runes s)))) else None)"
proof (induction n i idx s rule: rune_offset.induct)
  case (1 n i idx s)
  show ?case
  proof (cases "s = [] \<or> i = n")
    case True
    then show ?thesis
    proof
      assume "s = []"
      then show ?thesis using "1.prems" by (simp add: rune_offset.simps [of n i idx "[]"])
    next
      assume "i = n"
      then show ?thesis by (auto simp: rune_offset.simps [of n n idx s] rune_offset.simps [of n n idx "[]"])
    qed
  next
    case False
    let ?w = "rune_width s"
    have r: "runes s = take ?w s # runes (drop ?w s)" using False by (simp add: runes.simps [of s])
    have "nat (n - i) = Suc (nat (n - (i + 1)))" using False "1.prems" by linarith
    moreover have "rune_offset n i idx s = rune_offset n (i + 1) (idx + ?w) (drop ?w s)"
      using False by (simp add: rune_offset.simps [of n i idx s])
    ultimately show ?thesis
      using False "1.IH" "1.prems" rune_width_le [of s] by (simp add: r)
  qed
qed

text \<open>C40: truncating to \<open>n\<close> runes gives a prefix whose runes are the first \<open>n\<close> runes of the string: no rune is
  split, invalid bytes count as one rune each, and a string of at most \<open>n\<close> runes is unchanged.\<close>

theorem RuneTruncate_spec:
  "prefix (RuneTruncate s n) s \<and> runes (RuneTruncate s n) = take (nat n) (runes s) \<and>
   (int (length (runes s)) \<le> n \<longrightarrow> RuneTruncate s n = s)"
proof (cases "n \<le> 0 \<or> s = []")
  case True
  moreover have "s = []" if "int (length (runes s)) \<le> n" "n \<le> 0"
  proof -
    have "length (runes s) = 0" using that by linarith
    then show ?thesis by simp
  qed
  ultimately show ?thesis by (auto simp: RuneTruncate_def)
next
  case False
  have eq: "RuneTruncate s n = concat (take (nat n) (runes s))"
  proof (cases "n < int (length (runes s))")
    case True
    with take_prefix [OF runes_prefix [of "nat n" s]] True False rune_offset_runes [of 0 n 0 s] show ?thesis by (simp add: RuneTruncate_def)
  next
    case big: False
    with False rune_offset_runes [of 0 n 0 s] show ?thesis by (simp add: RuneTruncate_def concat_runes)
  qed
  show ?thesis by (simp add: eq runes_prefix runes_take concat_runes)
qed

theorem RuneTruncate_spec_witness:
  "RuneTruncate [CHR 0xC3, CHR 0xA9, CHR 0x80, CHR ''a''] 2 = [CHR 0xC3, CHR 0xA9, CHR 0x80] \<and> RuneTruncate ''ab'' 2 = ''ab''"
proof -
  have "RuneTruncate [CHR 0xC3, CHR 0xA9, CHR 0x80, CHR ''a''] 2 = [CHR 0xC3, CHR 0xA9, CHR 0x80]" "int (length (runes ''ab'')) \<le> 2" by code_simp+
  then show ?thesis using RuneTruncate_spec [of "''ab''" 2] by simp
qed

end
