(* ===== verification/ClientSession.thy ===== *)
theory ClientSession
  imports GoValue
begin

text \<open>
  The request-scoped frontend tools, \<open>runtime/clienttool/session.go\<close>: the definitions a client sends, the
  calls deferred to it, the errors that poison a scope, and the metadata of a definition. A session is
  guarded by one mutex, so a method is a function from the session to its result and the new session.

  Parameters (\<open>codec\<close>): the canonical tool name of \<open>github.com/viant/mcp/client/toolname\<close>, and what
  \<open>encoding/json\<close> makes of a value that is marshalled and decoded again (\<open>clone\<close>). The persistence
  callback of a deferral is a function on the state \<open>'w\<close> of the outside world.
\<close>

section \<open>Data\<close>

record ToolDefinition =
  def_DiscoveryNamespace :: string
  def_SourceMCPServer :: string
  def_SourceResourceURI :: string
  def_SourceProviderIdentity :: string
  def_Tier :: string
  def_AlwaysInclude :: bool
  def_Name :: string
  def_Description :: string
  def_Parameters :: gmap
  def_Required :: "string list"
  def_OutputSchema :: gmap
  def_Strict :: bool
  def_Cacheable :: bool

record PendingCall =
  pc_RecoveryObservedAt :: string
  pc_DeadlineAt :: string
  pc_Metadata :: string
  pc_ProtocolID :: string
  pc_ID :: string
  pc_Name :: string
  pc_Arguments :: gmap
  pc_ToolMessageID :: string
  pc_AssistantMessageID :: string
  pc_ConversationID :: string
  pc_TurnID :: string
  pc_Iteration :: int

record Dependency =
  dep_ID :: string
  dep_ParentCall :: PendingCall
  dep_ChildConversationID :: string
  dep_ChildTurnID :: string
  dep_ChildAgentID :: string
  dep_ExecutionMode :: string
  dep_ResultAdapter :: string
  dep_Waiting :: bool

text \<open>An \<open>error\<close> is its message.\<close>

type_synonym error = string

record Session =
  se_definitions :: "ToolDefinition list"
  se_byName :: "(string \<times> nat) list"
  se_pending :: "PendingCall list"
  se_err :: "error option"
  se_unscopedErr :: "error option"
  se_scopeErrors :: "(string \<times> error) list"
  se_dependencies :: "(string \<times> Dependency) list"
  se_dependencyOrder :: "string list"
  se_metadata :: "(string \<times> string) list"

record codec =
  cd_Canonical :: "string \<Rightarrow> string"
  cd_definition :: "ToolDefinition \<Rightarrow> error + ToolDefinition"
  cd_args :: "gmap \<Rightarrow> error + gmap"
  cd_call :: "PendingCall \<Rightarrow> PendingCall"
  cd_dependency :: "Dependency \<Rightarrow> error + Dependency"
  cd_json :: "PendingCall \<Rightarrow> string"
  cd_object :: "string \<Rightarrow> bool"

section \<open>Definitions\<close>

definition canonical :: "codec \<Rightarrow> string \<Rightarrow> string" where
  "canonical c name = ToLower (cd_Canonical c (TrimSpace name))"

definition empty_session :: Session where
  "empty_session = \<lparr>se_definitions = [], se_byName = [], se_pending = [], se_err = None, se_unscopedErr = None,
     se_scopeErrors = [], se_dependencies = [], se_dependencyOrder = [], se_metadata = []\<rparr>"

fun add_definitions :: "codec \<Rightarrow> ToolDefinition list \<Rightarrow> Session \<Rightarrow> error + Session" where
  "add_definitions c [] s = Inr s"
| "add_definitions c (d # ds) s =
     (if TrimSpace (def_Name d) = [] then Inl ''client tool name is required''
      else let key = canonical c (def_Name d) in
        if map_of (se_byName s) key \<noteq> None then Inl (''duplicate client tool alias: '' @ def_Name d)
        else case cd_definition c d of
            Inl e \<Rightarrow> Inl (''client tool '' @ def_Name d @ '': '' @ e)
          | Inr copied \<Rightarrow> add_definitions c ds
              (s\<lparr>se_byName := AList.update key (length (se_definitions s)) (se_byName s),
                 se_definitions := se_definitions s @ [copied]\<rparr>))"

definition NewSession :: "codec \<Rightarrow> ToolDefinition list \<Rightarrow> error + Session" where
  "NewSession c defs = add_definitions c defs empty_session"

text \<open>\<open>Lookup\<close> returns a clone of the definition; \<open>clone_definition\<close> is a clone whose error is dropped, which
  leaves what was decoded.\<close>

definition Lookup :: "codec \<Rightarrow> (ToolDefinition \<Rightarrow> ToolDefinition) \<Rightarrow> string \<Rightarrow> Session \<Rightarrow> ToolDefinition option" where
  "Lookup c clone_definition name s =
     (case map_of (se_byName s) (canonical c name) of
        None \<Rightarrow> None
      | Some i \<Rightarrow> Some (clone_definition (se_definitions s ! i)))"

fun ValidateBackend :: "codec \<Rightarrow> ToolDefinition list \<Rightarrow> Session \<Rightarrow> error option" where
  "ValidateBackend c [] s = None"
| "ValidateBackend c (d # ds) s =
     (if map_of (se_byName s) (canonical c (def_Name d)) \<noteq> None
      then Some (''client tool collides with backend tool: '' @ def_Name d)
      else ValidateBackend c ds s)"

text \<open>\<open>RestrictManaged\<close>: the loop keeps the definitions and builds the index anew.\<close>

fun restrict_loop :: "codec \<Rightarrow> string set \<Rightarrow> string set \<Rightarrow> ToolDefinition list \<Rightarrow>
    ToolDefinition list \<times> (string \<times> nat) list \<Rightarrow> ToolDefinition list \<times> (string \<times> nat) list" where
  "restrict_loop c managed allowed [] acc = acc"
| "restrict_loop c managed allowed (d # ds) (kept, idx) =
     (if def_Name d \<in> managed \<and> def_Name d \<notin> allowed then restrict_loop c managed allowed ds (kept, idx)
      else restrict_loop c managed allowed ds
             (kept @ [d], AList.update (canonical c (def_Name d)) (length kept) idx))"

definition RestrictManaged :: "codec \<Rightarrow> string set \<Rightarrow> string set \<Rightarrow> Session \<Rightarrow> Session" where
  "RestrictManaged c managed allowed s =
     (let (kept, idx) = restrict_loop c managed allowed (se_definitions s) ([], []) in
      s\<lparr>se_definitions := kept, se_byName := idx\<rparr>)"

section \<open>Errors\<close>

definition first_error :: "error option \<Rightarrow> error \<Rightarrow> error option" where
  "first_error old e = (if old = None then Some e else old)"

definition RecordError :: "error option \<Rightarrow> Session \<Rightarrow> Session" where
  "RecordError err s =
     (case err of None \<Rightarrow> s
      | Some e \<Rightarrow> s\<lparr>se_err := first_error (se_err s) e, se_unscopedErr := Some e\<rparr>)"

definition Error :: "Session \<Rightarrow> error option" where
  "Error s = se_err s"

definition turnKey :: "string \<Rightarrow> string \<Rightarrow> string" where
  "turnKey conversationID turnID = conversationID @ [CHR 0x00] @ turnID"

definition put_scope_error :: "string \<Rightarrow> error \<Rightarrow> Session \<Rightarrow> Session" where
  "put_scope_error key e s =
     (if map_of (se_scopeErrors s) key = None then s\<lparr>se_scopeErrors := AList.update key e (se_scopeErrors s)\<rparr> else s)"

definition RecordErrorForTurn :: "string \<Rightarrow> string \<Rightarrow> error option \<Rightarrow> Session \<Rightarrow> Session" where
  "RecordErrorForTurn conversationID turnID err s =
     (case err of None \<Rightarrow> s
      | Some e \<Rightarrow> put_scope_error (turnKey conversationID turnID) e (s\<lparr>se_err := first_error (se_err s) e\<rparr>))"

definition ErrorForTurn :: "string \<Rightarrow> string \<Rightarrow> Session \<Rightarrow> error option" where
  "ErrorForTurn conversationID turnID s =
     (case se_unscopedErr s of Some e \<Rightarrow> Some e
      | None \<Rightarrow> map_of (se_scopeErrors s) (turnKey conversationID turnID))"

section \<open>Deferral\<close>

text \<open>The closure \<open>fail\<close> of \<open>deferForScope\<close>.\<close>

definition defer_fail :: "string \<Rightarrow> string \<Rightarrow> error \<Rightarrow> Session \<Rightarrow> Session" where
  "defer_fail conversationID turnID e s =
     (let s1 = (if conversationID = [] \<and> turnID = [] then s\<lparr>se_unscopedErr := Some e\<rparr>
                else put_scope_error (turnKey conversationID turnID) e s)
      in s1\<lparr>se_err := first_error (se_err s1) e\<rparr>)"

text \<open>The pending call that a deferral repeats: same id, and same turn unless the deferral has none.\<close>

definition repeats :: "string \<Rightarrow> string \<Rightarrow> string \<Rightarrow> PendingCall \<Rightarrow> bool" where
  "repeats conversationID turnID opid p \<longleftrightarrow>
     pc_ID p = opid \<and> (conversationID = [] \<and> turnID = [] \<or> pc_ConversationID p = conversationID \<and> pc_TurnID p = turnID)"

definition admitted :: "codec \<Rightarrow> string \<Rightarrow> string \<Rightarrow> gmap \<Rightarrow> Session \<Rightarrow> PendingCall \<Rightarrow> PendingCall" where
  "admitted c opid name copied s p =
     p\<lparr>pc_ID := opid, pc_Name := name, pc_Arguments := copied,
       pc_Metadata := (case map_of (se_metadata s) (canonical c name) of None \<Rightarrow> [] | Some md \<Rightarrow> md)\<rparr>"

definition deferForScope :: "codec \<Rightarrow> string \<Rightarrow> string \<Rightarrow> string \<Rightarrow> string \<Rightarrow> gmap \<Rightarrow>
    ('w \<Rightarrow> (error + PendingCall) \<times> 'w) \<Rightarrow> Session \<Rightarrow> 'w \<Rightarrow> (error + PendingCall) \<times> Session \<times> 'w" where
  "deferForScope c conversationID turnID opid name args persist s w =
     (let fail = (\<lambda>e s w. (Inl e, defer_fail conversationID turnID e s, w)) in
      case se_unscopedErr s of
        Some e \<Rightarrow> (Inl e, s, w)
      | None \<Rightarrow>
        (case map_of (se_scopeErrors s) (turnKey conversationID turnID) of
           Some e \<Rightarrow> (Inl e, s, w)
         | None \<Rightarrow>
           if TrimSpace opid = [] then fail ''client tool call id is required'' s w
           else (case cd_args c args of
               Inl e \<Rightarrow> fail e s w
             | Inr copied \<Rightarrow>
               (case find (repeats conversationID turnID opid) (se_pending s) of
                  Some p \<Rightarrow>
                    if canonical c (pc_Name p) \<noteq> canonical c name \<or> pc_Arguments p \<noteq> copied
                    then fail (''conflicting duplicate client tool call: '' @ opid) s w
                    else (Inr (cd_call c p), s, w)
                | None \<Rightarrow>
                  (case persist w of
                     (Inl e, w') \<Rightarrow> fail e s w'
                   | (Inr p, w') \<Rightarrow>
                     let p' = admitted c opid name copied s p
                     in (Inr (cd_call c p'), s\<lparr>se_pending := se_pending s @ [p']\<rparr>, w'))))))"

definition Defer :: "codec \<Rightarrow> string \<Rightarrow> string \<Rightarrow> gmap \<Rightarrow> ('w \<Rightarrow> (error + PendingCall) \<times> 'w) \<Rightarrow>
    Session \<Rightarrow> 'w \<Rightarrow> (error + PendingCall) \<times> Session \<times> 'w" where
  "Defer c opid name args persist s w = deferForScope c [] [] opid name args persist s w"

definition DeferForTurn :: "codec \<Rightarrow> string \<Rightarrow> string \<Rightarrow> string \<Rightarrow> string \<Rightarrow> gmap \<Rightarrow>
    ('w \<Rightarrow> (error + PendingCall) \<times> 'w) \<Rightarrow> Session \<Rightarrow> 'w \<Rightarrow> (error + PendingCall) \<times> Session \<times> 'w" where
  "DeferForTurn c conversationID turnID opid name args persist s w =
     deferForScope c conversationID turnID opid name args persist s w"

text \<open>\<open>Pending\<close> clones the list as a whole and drops an error; for the calls of a session, which hold decoded
  arguments, that is the clone of each.\<close>

definition PendingForTurn :: "codec \<Rightarrow> string \<Rightarrow> string \<Rightarrow> Session \<Rightarrow> PendingCall list" where
  "PendingForTurn c conversationID turnID s =
     map (cd_call c) (filter (\<lambda>p. pc_ConversationID p = conversationID \<and> pc_TurnID p = turnID) (se_pending s))"

section \<open>Metadata\<close>

definition SetMetadata :: "codec \<Rightarrow> string \<Rightarrow> string \<Rightarrow> Session \<Rightarrow> error option \<times> Session" where
  "SetMetadata c name metadata s =
     (if map_of (se_byName s) (canonical c name) = None then (Some (''unknown client tool: '' @ name), s)
      else if \<not> cd_object c metadata then (Some ''client tool metadata requires a JSON object'', s)
      else (None, s\<lparr>se_metadata := AList.update (canonical c name) metadata (se_metadata s)\<rparr>))"

definition Metadata :: "codec \<Rightarrow> string \<Rightarrow> Session \<Rightarrow> string" where
  "Metadata c name s = (case map_of (se_metadata s) (canonical c name) of None \<Rightarrow> [] | Some md \<Rightarrow> md)"

section \<open>A repeated deferral\<close>

lemma find_append: "find P (xs @ ys) = (case find P xs of Some x \<Rightarrow> Some x | None \<Rightarrow> find P ys)"
  by (induction xs) auto

text \<open>The successful outcomes of a deferral: the call is a repetition, or it was persisted.\<close>

lemma deferForScope_Inr:
  assumes "deferForScope c conversationID turnID opid name args persist s w = (Inr r, s', w')"
  obtains copied p where "se_unscopedErr s = None" "map_of (se_scopeErrors s) (turnKey conversationID turnID) = None"
    "TrimSpace opid \<noteq> []" "cd_args c args = Inr copied" "find (repeats conversationID turnID opid) (se_pending s) = Some p"
    "canonical c (pc_Name p) = canonical c name" "pc_Arguments p = copied" "r = cd_call c p" "s' = s" "w' = w"
  | copied p where "se_unscopedErr s = None" "map_of (se_scopeErrors s) (turnKey conversationID turnID) = None"
    "TrimSpace opid \<noteq> []" "cd_args c args = Inr copied" "find (repeats conversationID turnID opid) (se_pending s) = None"
    "persist w = (Inr p, w')" "r = cd_call c (admitted c opid name copied s p)"
    "s' = s\<lparr>se_pending := se_pending s @ [admitted c opid name copied s p]\<rparr>"
  using assms
  by (auto simp: deferForScope_def Let_def split: option.splits if_splits sum.splits prod.splits)

lemma deferForScope_again:
  assumes "se_unscopedErr s = None" "map_of (se_scopeErrors s) (turnKey conversationID turnID) = None"
    "TrimSpace opid \<noteq> []" "cd_args c args = Inr copied" "find (repeats conversationID turnID opid) (se_pending s) = Some p"
    "canonical c (pc_Name p) = canonical c name" "pc_Arguments p = copied"
  shows "deferForScope c conversationID turnID opid name args persist s w = (Inr (cd_call c p), s, w)"
  using assms by (simp add: deferForScope_def)

text \<open>A deferral that succeeded can be repeated: it returns the same call, keeps the session, and does not
  call the persistence again, provided that the persistence returned a call of the turn it was asked for.\<close>

theorem Defer_once:
  assumes "deferForScope c conversationID turnID opid name args persist s w = (Inr r, s', w')"
    and "\<And>p w''. persist w = (Inr p, w'') \<Longrightarrow> pc_ConversationID p = conversationID \<and> pc_TurnID p = turnID"
  shows "deferForScope c conversationID turnID opid name args persist' s' v = (Inr r, s', v)"
  using assms(1)
proof (cases rule: deferForScope_Inr)
  case (1 copied p)
  then show ?thesis using deferForScope_again [of s conversationID turnID opid c args copied p name persist' v] by simp
next
  case (2 copied p)
  have "repeats conversationID turnID opid (admitted c opid name copied s p)"
    using assms(2) [OF 2(6)] by (simp add: repeats_def admitted_def)
  with 2 have "find (repeats conversationID turnID opid) (se_pending s') = Some (admitted c opid name copied s p)"
    by (simp add: find_append)
  then show ?thesis
    using 2 deferForScope_again [of s' conversationID turnID opid c args copied "admitted c opid name copied s p" name persist' v]
    by (simp add: admitted_def)
qed

definition demo_codec :: codec where
  "demo_codec = \<lparr>cd_Canonical = (\<lambda>n. n), cd_definition = Inr, cd_args = Inr, cd_call = (\<lambda>p. p), cd_dependency = Inr,
     cd_json = (\<lambda>p. pc_ID p @ pc_Name p), cd_object = (\<lambda>md. md \<noteq> [])\<rparr>"

definition demo_call :: "string \<Rightarrow> string \<Rightarrow> PendingCall" where
  "demo_call opid turn = \<lparr>pc_RecoveryObservedAt = [], pc_DeadlineAt = [], pc_Metadata = [], pc_ProtocolID = [], pc_ID = opid,
     pc_Name = ''pick'', pc_Arguments = None, pc_ToolMessageID = ''m'', pc_AssistantMessageID = [], pc_ConversationID = ''c'',
     pc_TurnID = turn, pc_Iteration = 0\<rparr>"

text \<open>A persistence that counts its calls.\<close>

definition demo_persist :: "nat \<Rightarrow> (error + PendingCall) \<times> nat" where
  "demo_persist n = (Inr (demo_call [] ''t''), Suc n)"

end
