(* ===== verification/ClientDependency.thy ===== *)
theory ClientDependency
  imports ClientSession
begin

text \<open>
  The causal waiting edges of a session, \<open>runtime/clienttool/dependency.go\<close>: an edge leads from the turn of
  a parent call to a child turn. \<open>RegisterDependency\<close> keeps the edges acyclic with a depth-first search,
  which is modelled with its visited set and shown to decide reachability.
\<close>

section \<open>The search\<close>

definition AgentRunResultV1 :: string where "AgentRunResultV1 = ''agently.agents.run.v1''"

definition parent_turn :: "Dependency \<Rightarrow> string" where
  "parent_turn d = turnKey (pc_ConversationID (dep_ParentCall d)) (pc_TurnID (dep_ParentCall d))"

definition child_turn :: "Dependency \<Rightarrow> string" where
  "child_turn d = turnKey (dep_ChildConversationID d) (dep_ChildTurnID d)"

text \<open>\<open>walk\<close> is the closure of \<open>reachableLocked\<close>, \<open>walk_edges\<close> its loop over the dependencies. The visited set is
  threaded through; it grows by nodes that are the start or the child of an edge, so the search ends.\<close>

function walk :: "(Dependency \<Rightarrow> bool) \<Rightarrow> Dependency list \<Rightarrow> string \<Rightarrow> string \<Rightarrow> string set \<Rightarrow> bool \<times> string set"
  and walk_edges :: "(Dependency \<Rightarrow> bool) \<Rightarrow> Dependency list \<Rightarrow> string \<Rightarrow> Dependency list \<Rightarrow> string \<Rightarrow> string set \<Rightarrow> bool \<times> string set" where
  "walk use deps dst current visited =
     (if current = dst then (True, visited)
      else if current \<in> visited then (False, visited)
      else walk_edges use deps dst deps current (insert current visited))"
| "walk_edges use deps dst [] current visited = (False, visited)"
| "walk_edges use deps dst (e # es) current visited =
     (if use e \<and> parent_turn e = current
      then (case walk use deps dst (child_turn e) visited of
              (True, visited') \<Rightarrow> (True, visited')
            | (False, visited') \<Rightarrow> walk_edges use deps dst es current visited')
      else walk_edges use deps dst es current visited)"
  by pat_completeness auto


lemma visited_grows_dom:
  "walk_walk_edges_dom (Inl (use, deps, dst, current, visited)) \<Longrightarrow> visited \<subseteq> snd (walk use deps dst current visited)"
  "walk_walk_edges_dom (Inr (use, deps, dst, es, current, visited)) \<Longrightarrow>
     visited \<subseteq> snd (walk_edges use deps dst es current visited)"
proof (induction use deps dst current visited and use deps dst es current visited rule: walk_walk_edges.pinduct)
  case (1 use deps dst current visited)
  then show ?case by (auto simp: walk.psimps)
next
  case (2 use deps dst current visited)
  then show ?case by (simp add: walk_edges.psimps)
next
  case (3 use deps dst e es current visited)
  obtain r visited' where w: "walk use deps dst (child_turn e) visited = (r, visited')" by fastforce
  show ?case
  proof (cases "use e \<and> parent_turn e = current")
    case True
    with 3 w have "visited \<subseteq> visited'" by simp
    moreover have "\<not> r \<Longrightarrow> visited' \<subseteq> snd (walk_edges use deps dst es current visited')"
      using 3 True w by simp
    ultimately show ?thesis using 3 True w by (cases r) (auto simp: walk_edges.psimps)
  next
    case False
    with 3 show ?thesis by (cases "use e") (simp_all add: walk_edges.psimps)
  qed
qed

text \<open>The nodes a search may still add, and how many edges of the current loop are left.\<close>

definition fresh :: "Dependency list \<Rightarrow> string set \<Rightarrow> string set" where
  "fresh es visited = child_turn ` set es - visited"

fun search_size where
  "search_size (Inl (use, deps, dst, current, visited)) = (card (insert current (child_turn ` set deps) - visited), 0)"
| "search_size (Inr (use, deps, dst, es, current, visited)) = (card (fresh (es @ deps) visited), Suc (length es))"

termination walk
proof (relation "inv_image (less_than <*lex*> less_than) search_size", goal_cases)
  case 1
  show ?case by (intro wf_inv_image wf_lex_prod wf_less_than)
next
  case (2 use deps dst current visited)
  have "insert current (child_turn ` set deps) - visited = insert current (fresh deps (insert current visited))"
    using 2 by (auto simp: fresh_def)
  then show ?case by (simp add: fresh_def image_Un)
next
  case (3 use deps dst e es current visited)
  have "card (insert (child_turn e) (child_turn ` set deps) - visited) \<le> card (fresh ((e # es) @ deps) visited)"
    by (rule card_mono) (auto simp: fresh_def)
  then show ?case by auto
next
  case (4 use deps dst e es current visited r visited')
  then have "visited \<subseteq> visited'" using visited_grows_dom(1) [of use deps dst "child_turn e" visited]
    by (metis snd_conv)
  then have "card (fresh (es @ deps) visited') \<le> card (fresh ((e # es) @ deps) visited)"
    by (intro card_mono) (auto simp: fresh_def)
  then show ?case by auto
next
  case (5 use deps dst e es current visited)
  have "card (fresh (es @ deps) visited) \<le> card (fresh ((e # es) @ deps) visited)"
    by (intro card_mono) (auto simp: fresh_def)
  then show ?case by auto
qed

declare walk.simps [simp del]


definition reachableLocked :: "(string \<times> Dependency) list \<Rightarrow> string \<Rightarrow> string \<Rightarrow> bool list \<Rightarrow> bool" where
  "reachableLocked deps src dst waitingOnly =
     fst (walk (\<lambda>e. waitingOnly = [] \<or> \<not> hd waitingOnly \<or> dep_Waiting e) (map snd deps) dst src {})"

section \<open>Operations\<close>

definition incomplete :: "Dependency \<Rightarrow> bool" where
  "incomplete d \<longleftrightarrow> dep_ID d = [] \<or> pc_ID (dep_ParentCall d) = [] \<or> pc_ToolMessageID (dep_ParentCall d) = [] \<or>
     pc_ConversationID (dep_ParentCall d) = [] \<or> pc_TurnID (dep_ParentCall d) = [] \<or>
     dep_ChildConversationID d = [] \<or> dep_ChildTurnID d = []"

definition steals_child :: "Dependency \<Rightarrow> Dependency \<Rightarrow> bool" where
  "steals_child d e \<longleftrightarrow> child_turn e = child_turn d \<and>
     (dep_ID e \<noteq> dep_ID d \<or> pc_ID (dep_ParentCall e) \<noteq> pc_ID (dep_ParentCall d))"

definition RegisterDependency :: "codec \<Rightarrow> Dependency \<Rightarrow> Session \<Rightarrow> error option \<times> Session" where
  "RegisterDependency c d s =
     (if incomplete d then (Some ''dependency requires original parent call and child turn identity'', s)
      else if dep_ResultAdapter d \<noteq> AgentRunResultV1
      then (Some (''unknown dependency result adapter: '' @ dep_ResultAdapter d), s)
      else if \<exists>e \<in> set (map snd (se_dependencies s)). steals_child d e
      then (Some ''child turn already belongs to another dependency'', s)
      else if parent_turn d = child_turn d \<or> reachableLocked (se_dependencies s) (child_turn d) (parent_turn d) []
      then (Some ''cyclic client tool dependency'', s)
      else (case cd_dependency c d of
          Inl e \<Rightarrow> (Some e, s)
        | Inr copied \<Rightarrow>
          (case map_of (se_dependencies s) (dep_ID d) of
             Some previous \<Rightarrow>
               if cd_json c (dep_ParentCall previous) \<noteq> cd_json c (dep_ParentCall d) \<or>
                  dep_ChildTurnID previous \<noteq> dep_ChildTurnID d \<or>
                  dep_ChildConversationID previous \<noteq> dep_ChildConversationID d
               then (Some ''conflicting dependency identity'', s) else (None, s)
           | None \<Rightarrow>
               (None, s\<lparr>se_dependencies := AList.update (dep_ID d) copied (se_dependencies s),
                        se_dependencyOrder := se_dependencyOrder s @ [dep_ID d]\<rparr>))))"

definition MarkDependencyWaiting :: "string \<Rightarrow> Session \<Rightarrow> error option \<times> Session" where
  "MarkDependencyWaiting opid s =
     (case map_of (se_dependencies s) opid of
        None \<Rightarrow> (Some (''unknown dependency '' @ opid), s)
      | Some edge \<Rightarrow> (None, s\<lparr>se_dependencies := AList.update opid (edge\<lparr>dep_Waiting := True\<rparr>) (se_dependencies s)\<rparr>))"

definition PendingForSubtree :: "codec \<Rightarrow> string \<Rightarrow> string \<Rightarrow> Session \<Rightarrow> PendingCall list" where
  "PendingForSubtree c conversationID turnID s =
     map (cd_call c) (filter (\<lambda>p. reachableLocked (se_dependencies s) (turnKey conversationID turnID)
       (turnKey (pc_ConversationID p) (pc_TurnID p)) [True]) (se_pending s))"

text \<open>An id of the order that is not in the map would read the zero \<open>Dependency\<close>, which is not waiting; the
  clone's error is dropped.\<close>

definition WaitingDependencies :: "(Dependency \<Rightarrow> Dependency) \<Rightarrow> string \<Rightarrow> string \<Rightarrow> Session \<Rightarrow> Dependency list" where
  "WaitingDependencies clone_dependency conversationID turnID s =
     map clone_dependency (filter (\<lambda>edge. dep_Waiting edge \<and>
         reachableLocked (se_dependencies s) (turnKey conversationID turnID) (parent_turn edge) [True])
       (List.map_filter (map_of (se_dependencies s)) (se_dependencyOrder s)))"

definition WaitingOnCall :: "string \<Rightarrow> string \<Rightarrow> string \<Rightarrow> Session \<Rightarrow> bool" where
  "WaitingOnCall conversationID turnID callID s \<longleftrightarrow>
     (\<exists>edge \<in> set (map snd (se_dependencies s)). dep_Waiting edge \<and>
        pc_ConversationID (dep_ParentCall edge) = conversationID \<and> pc_TurnID (dep_ParentCall edge) = turnID \<and>
        pc_ID (dep_ParentCall edge) = callID)"

record ChildResult =
  cr_Content :: string
  cr_Status :: string
  cr_ConversationID :: string
  cr_TurnID :: string
  cr_Error :: string

text \<open>\<open>FormatDependencyResult\<close>: the body has the answer, status, error, conversation and message id;
  \<open>marshal\<close> is its JSON.\<close>

definition FormatDependencyResult ::
  "(string \<times> string \<times> string \<times> string \<times> string \<Rightarrow> error + string) \<Rightarrow> Dependency \<Rightarrow> ChildResult \<Rightarrow> error + string \<times> string" where
  "FormatDependencyResult marshal d r =
     (if dep_ResultAdapter d \<noteq> AgentRunResultV1
      then Inl (''unknown dependency result adapter: '' @ dep_ResultAdapter d)
      else if cr_ConversationID r \<noteq> dep_ChildConversationID d \<or> cr_TurnID r \<noteq> dep_ChildTurnID d
      then Inl ''dependency child result identity mismatch''
      else if cr_Status r \<notin> {''succeeded'', ''completed'', ''failed'', ''canceled'', ''cancelled''}
      then Inl (''child result is not terminal: '' @ cr_Status r)
      else (case marshal (cr_Content r, cr_Status r, cr_Error r, cr_ConversationID r, cr_TurnID r) of
          Inl e \<Rightarrow> Inl e
        | Inr body \<Rightarrow> Inr (body, cr_Error r)))"

section \<open>The search decides reachability\<close>

definition edges :: "(Dependency \<Rightarrow> bool) \<Rightarrow> Dependency list \<Rightarrow> (string \<times> string) set" where
  "edges use deps = {(parent_turn e, child_turn e) | e. e \<in> set deps \<and> use e}"

lemma walk_sound:
  "fst (walk use deps dst current visited) \<Longrightarrow> (current, dst) \<in> (edges use deps)\<^sup>*"
  "fst (walk_edges use deps dst es current visited) \<Longrightarrow>
     \<exists>e \<in> set es. use e \<and> parent_turn e = current \<and> (child_turn e, dst) \<in> (edges use deps)\<^sup>*"
proof (induction use deps dst current visited and use deps dst es current visited rule: walk_walk_edges.induct)
  case (1 use deps dst current visited)
  show ?case
  proof (cases "current = dst")
    case False
    with 1 obtain e where "e \<in> set deps" "use e" "parent_turn e = current" "(child_turn e, dst) \<in> (edges use deps)\<^sup>*"
      by (auto simp: walk.simps [of use deps dst current visited] split: if_splits)
    then show ?thesis by (auto simp: edges_def intro: converse_rtrancl_into_rtrancl)
  qed simp
qed (auto split: if_splits prod.splits bool.splits)

lemma walk_complete:
  "walk use deps dst current visited = (False, visited') \<Longrightarrow> dst \<notin> visited \<Longrightarrow>
     visited \<subseteq> visited' \<and> dst \<notin> visited' \<and> current \<in> visited' \<and> (edges use deps) `` (visited' - visited) \<subseteq> visited'"
  "walk_edges use deps dst es current visited = (False, visited') \<Longrightarrow> dst \<notin> visited \<Longrightarrow>
     visited \<subseteq> visited' \<and> dst \<notin> visited' \<and> edges (\<lambda>e. use e \<and> parent_turn e = current) es `` {current} \<subseteq> visited' \<and>
     (edges use deps) `` (visited' - visited) \<subseteq> visited'"
proof (induction use deps dst current visited and use deps dst es current visited arbitrary: visited' and visited'
    rule: walk_walk_edges.induct)
  case (1 use deps dst current visited)
  show ?case
  proof (cases "current = dst \<or> current \<in> visited")
    case True
    with "1.prems" show ?thesis by (auto simp: walk.simps [of use deps dst current visited] split: if_splits)
  next
    case False
    with "1.prems" have w: "walk_edges use deps dst deps current (insert current visited) = (False, visited')"
      by (simp add: walk.simps [of use deps dst current visited])
    have "edges (\<lambda>e. use e \<and> parent_turn e = current) deps `` {current} = edges use deps `` {current}"
      by (auto simp: edges_def)
    moreover have "visited' - visited \<subseteq> insert current (visited' - insert current visited)" by auto
    ultimately show ?thesis using "1.IH" [OF _ _ w] False "1.prems"(2) by blast
  qed
next
  case (2 use deps dst current visited)
  then show ?case by (auto simp: edges_def)
next
  case (3 use deps dst e es current visited)
  obtain r v where w: "walk use deps dst (child_turn e) visited = (r, v)" by fastforce
  have E: "edges P (e # es) = edges P es \<union> (if P e then {(parent_turn e, child_turn e)} else {})" for P
    by (auto simp: edges_def)
  show ?case
  proof (cases "use e \<and> parent_turn e = current")
    case True
    with "3.prems" w have "\<not> r" "walk_edges use deps dst es current v = (False, visited')" by (auto split: bool.splits)
    note rest = this
    have first: "visited \<subseteq> v \<and> dst \<notin> v \<and> child_turn e \<in> v \<and> edges use deps `` (v - visited) \<subseteq> v"
      using "3.IH"(1) [OF True] w rest "3.prems"(2) by simp
    then have "v \<subseteq> visited' \<and> dst \<notin> visited' \<and> edges (\<lambda>e. use e \<and> parent_turn e = current) es `` {current} \<subseteq> visited' \<and>
        edges use deps `` (visited' - v) \<subseteq> visited'"
      using "3.IH"(2) [OF True, of False v] w rest by simp
    moreover from this first have "edges use deps `` (visited' - visited) \<subseteq> visited'" by blast
    ultimately show ?thesis using first True unfolding E by auto
  next
    case False
    with 3 show ?thesis unfolding E by auto
  qed
qed


text \<open>C20: the depth-first search of \<open>reachableLocked\<close>, whatever the order in which the map is visited, ends and
  decides whether the second turn is reached from the first along the registered (waiting) edges.\<close>

theorem reachable_spec:
  "reachableLocked deps src dst waitingOnly \<longleftrightarrow>
     (src, dst) \<in> (edges (\<lambda>e. waitingOnly = [] \<or> \<not> hd waitingOnly \<or> dep_Waiting e) (map snd deps))\<^sup>*"
proof -
  define use :: "Dependency \<Rightarrow> bool" where "use = (\<lambda>e. waitingOnly = [] \<or> \<not> hd waitingOnly \<or> dep_Waiting e)"
  obtain r v where w: "walk use (map snd deps) dst src {} = (r, v)" by fastforce
  have "(src, dst) \<notin> (edges use (map snd deps))\<^sup>*" if "\<not> r"
  proof -
    have v: "dst \<notin> v" "src \<in> v" "edges use (map snd deps) `` v \<subseteq> v"
      using walk_complete(1) [of use "map snd deps" dst src "{}" v] w that by auto
    have "(edges use (map snd deps))\<^sup>* `` {src} \<subseteq> v"
      using Image_closed_trancl [OF v(3)] v(2) by auto
    then show ?thesis using v(1) by auto
  qed
  moreover have "(src, dst) \<in> (edges use (map snd deps))\<^sup>*" if r using walk_sound(1) [of use "map snd deps" dst src "{}"] w that by simp
  ultimately have "fst (walk use (map snd deps) dst src {}) \<longleftrightarrow> (src, dst) \<in> (edges use (map snd deps))\<^sup>*"
    unfolding w fst_conv by blast
  then show ?thesis unfolding reachableLocked_def use_def .
qed

definition waiting_chain :: "(string \<times> Dependency) list" where
  "waiting_chain = map (\<lambda>(k, p, q, w). (k, \<lparr>dep_ID = k, dep_ParentCall = demo_call k p, dep_ChildConversationID = ''c'',
     dep_ChildTurnID = q, dep_ChildAgentID = [], dep_ExecutionMode = [], dep_ResultAdapter = AgentRunResultV1, dep_Waiting = w\<rparr>))
     [(''1'', ''a'', ''b'', True), (''2'', ''b'', ''d'', False)]"

theorem reachable_spec_witness:
  "(turnKey ''c'' ''a'', turnKey ''c'' ''b'') \<in> (edges (\<lambda>e. [True] = [] \<or> \<not> hd [True] \<or> dep_Waiting e) (map snd waiting_chain))\<^sup>* \<and>
   (turnKey ''c'' ''a'', turnKey ''c'' ''d'') \<notin> (edges (\<lambda>e. [True] = [] \<or> \<not> hd [True] \<or> dep_Waiting e) (map snd waiting_chain))\<^sup>*"
proof -
  have "reachableLocked waiting_chain (turnKey ''c'' ''a'') (turnKey ''c'' ''b'') [True]"
    "\<not> reachableLocked waiting_chain (turnKey ''c'' ''a'') (turnKey ''c'' ''d'') [True]"
    by (simp add: reachableLocked_def waiting_chain_def walk.simps parent_turn_def child_turn_def demo_call_def turnKey_def)+
  then show ?thesis unfolding reachable_spec by blast
qed

section \<open>The session as a transition system\<close>

text \<open>JSON keeps strings that are valid UTF-8. These are the inputs whose names and identities survive the clone.\<close>

definition kept_definition :: "codec \<Rightarrow> ToolDefinition \<Rightarrow> bool" where
  "kept_definition c d \<longleftrightarrow> (case cd_definition c d of Inl e \<Rightarrow> True | Inr d' \<Rightarrow> def_Name d' = def_Name d)"

definition kept_dependency :: "codec \<Rightarrow> Dependency \<Rightarrow> bool" where
  "kept_dependency c d \<longleftrightarrow> (case cd_dependency c d of Inl e \<Rightarrow> True
     | Inr d' \<Rightarrow> dep_ID d' = dep_ID d \<and> parent_turn d' = parent_turn d \<and> child_turn d' = child_turn d)"

definition new_session :: "codec \<Rightarrow> Session \<Rightarrow> bool" where
  "new_session c s \<longleftrightarrow> (\<exists>defs. (\<forall>d \<in> set defs. kept_definition c d) \<and> NewSession c defs = Inr s)"

inductive session_step :: "codec \<Rightarrow> Session \<Rightarrow> Session \<Rightarrow> bool" for c :: codec where
  step_RecordError: "session_step c s (RecordError err s)"
| step_RecordErrorForTurn: "session_step c s (RecordErrorForTurn conversationID turnID err s)"
| step_defer: "session_step c s (fst (snd (deferForScope c conversationID turnID opid name args (\<lambda>_. (res, ())) s ())))"
| step_SetMetadata: "session_step c s (snd (SetMetadata c name md s))"
| step_RestrictManaged: "session_step c s (RestrictManaged c managed allowed s)"
| step_RegisterDependency: "kept_dependency c d \<Longrightarrow> session_step c s (snd (RegisterDependency c d s))"
| step_MarkDependencyWaiting: "session_step c s (snd (MarkDependencyWaiting opid s))"

text \<open>The index names each definition by its canonical name.\<close>

definition index_ok :: "codec \<Rightarrow> ToolDefinition list \<Rightarrow> (string \<times> nat) list \<Rightarrow> bool" where
  "index_ok c defs idx \<longleftrightarrow> distinct (map (canonical c \<circ> def_Name) defs) \<and>
     (\<forall>key. map_of idx key = map_of (zip (map (canonical c \<circ> def_Name) defs) [0..<length defs]) key)"

definition turn_edge :: "Dependency \<Rightarrow> string \<times> string" where "turn_edge d = (parent_turn d, child_turn d)"

definition deps_ok :: "(string \<times> Dependency) list \<Rightarrow> string list \<Rightarrow> bool" where
  "deps_ok deps order \<longleftrightarrow> distinct (keys deps) \<and> distinct order \<and> set order = set (keys deps) \<and>
     map (dep_ID \<circ> snd) deps = keys deps \<and> acyclic (set (map (turn_edge \<circ> snd) deps)) \<and>
     distinct (map (child_turn \<circ> snd) deps)"

definition session_inv :: "codec \<Rightarrow> Session \<Rightarrow> bool" where
  "session_inv c s \<longleftrightarrow> index_ok c (se_definitions s) (se_byName s) \<and> deps_ok (se_dependencies s) (se_dependencyOrder s)"

lemma index_ok_Nil: "index_ok c [] []"
  by (simp add: index_ok_def)

lemma index_ok_snoc:
  assumes "index_ok c defs idx" "map_of idx (canonical c (def_Name d)) = None"
  shows "index_ok c (defs @ [d]) (AList.update (canonical c (def_Name d)) (length defs) idx)"
proof -
  have fresh: "canonical c (def_Name d) \<notin> set (map (canonical c \<circ> def_Name) defs)"
    using assms by (simp add: index_ok_def map_of_zip_is_None)
  then have "map_of (zip (map (canonical c \<circ> def_Name) defs) [0..<length defs]) (canonical c (def_Name d)) = None"
    by (simp add: map_of_zip_is_None)
  note none = this
  have "map_of (AList.update (canonical c (def_Name d)) (length defs) idx) key =
      map_of (zip (map (canonical c \<circ> def_Name) (defs @ [d])) [0..<length (defs @ [d])]) key" for key
    using assms(1)
    by (cases "key = canonical c (def_Name d)") (simp_all add: none index_ok_def alist_update map_of_append map_add_def split: option.split)
  with fresh show ?thesis using assms(1) by (simp add: index_ok_def)
qed

lemma index_ok_None:
  "index_ok c defs idx \<Longrightarrow> map_of idx key = None \<longleftrightarrow> key \<notin> (canonical c \<circ> def_Name) ` set defs"
  by (simp add: index_ok_def map_of_zip_is_None)

lemma add_definitions_index:
  "add_definitions c defs s = Inr s' \<Longrightarrow> \<forall>d \<in> set defs. kept_definition c d \<Longrightarrow>
   index_ok c (se_definitions s) (se_byName s) \<Longrightarrow>
   index_ok c (se_definitions s') (se_byName s') \<and> se_dependencies s' = se_dependencies s \<and> se_dependencyOrder s' = se_dependencyOrder s"
proof (induction c defs s rule: add_definitions.induct)
  case (2 c d ds s)
  then obtain d' where d': "TrimSpace (def_Name d) \<noteq> []" "map_of (se_byName s) (canonical c (def_Name d)) = None" "cd_definition c d = Inr d'"
    by (auto simp: Let_def split: if_splits sum.splits)
  have "def_Name d' = def_Name d" using 2(3) d'(3) by (simp add: kept_definition_def)
  with d' 2 index_ok_snoc [of c "se_definitions s" "se_byName s" d'] show ?case by (simp add: Let_def)
qed simp

lemma restrict_loop_index:
  "restrict_loop c managed allowed ds (kept, idx) = (kept', idx') \<Longrightarrow> index_ok c kept idx \<Longrightarrow>
   distinct (map (canonical c \<circ> def_Name) (kept @ ds)) \<Longrightarrow> index_ok c kept' idx'"
proof (induction c managed allowed ds "(kept, idx)" arbitrary: kept idx rule: restrict_loop.induct)
  case (2 c managed allowed d ds kept idx)
  have "map_of idx (canonical c (def_Name d)) = None" using 2(4,5) by (auto simp: index_ok_None)
  with 2 index_ok_snoc [of c kept idx d] show ?case by (auto split: if_splits)
qed simp

lemma edges_all: "edges (\<lambda>_. True) (map snd deps) = set (map (turn_edge \<circ> snd) deps)"
  by (auto simp: edges_def turn_edge_def)

lemma update_fresh: "k \<notin> set (keys m) \<Longrightarrow> AList.update k v m = m @ [(k, v)]"
  by (induction m) auto

lemma deps_ok_register:
  assumes "deps_ok deps order" "map_of deps (dep_ID d) = None" "parent_turn d \<noteq> child_turn d"
    and "\<not> reachableLocked deps (child_turn d) (parent_turn d) []" "\<forall>e \<in> snd ` set deps. \<not> steals_child d e"
    and "dep_ID d' = dep_ID d" "parent_turn d' = parent_turn d" "child_turn d' = child_turn d"
  shows "deps_ok (AList.update (dep_ID d) d' deps) (order @ [dep_ID d])"
proof -
  have k: "dep_ID d \<notin> set (keys deps)" using assms(2) by (simp add: map_of_eq_None_iff)
  have "dep_ID e \<in> set (map (dep_ID \<circ> snd) deps)" if "e \<in> snd ` set deps" for e using that by auto
  moreover have "map (dep_ID \<circ> snd) deps = keys deps" using assms(1) by (simp add: deps_ok_def)
  ultimately have "dep_ID e \<noteq> dep_ID d" if "e \<in> snd ` set deps" for e using that k by metis
  then have "child_turn d \<notin> set (map (child_turn \<circ> snd) deps)"
    using assms(5) by (force simp: steals_child_def)
  moreover have "(child_turn d, parent_turn d) \<notin> (set (map (turn_edge \<circ> snd) deps))\<^sup>*"
    using assms(4) by (simp add: reachable_spec edges_all)
  ultimately show ?thesis
    using assms(1,6-8) k by (simp add: deps_ok_def update_fresh turn_edge_def)
qed

lemma RegisterDependency_deps:
  assumes "deps_ok (se_dependencies s) (se_dependencyOrder s)" "kept_dependency c d"
  shows "deps_ok (se_dependencies (snd (RegisterDependency c d s))) (se_dependencyOrder (snd (RegisterDependency c d s)))"
proof (cases "snd (RegisterDependency c d s) = s")
  case False
  then obtain d' where d': "cd_dependency c d = Inr d'" "map_of (se_dependencies s) (dep_ID d) = None"
    "parent_turn d \<noteq> child_turn d" "\<not> reachableLocked (se_dependencies s) (child_turn d) (parent_turn d) []"
    "\<forall>e \<in> snd ` set (se_dependencies s). \<not> steals_child d e"
    "snd (RegisterDependency c d s) = s\<lparr>se_dependencies := AList.update (dep_ID d) d' (se_dependencies s),
       se_dependencyOrder := se_dependencyOrder s @ [dep_ID d]\<rparr>"
    by (auto simp: RegisterDependency_def split: if_splits sum.splits option.splits)
  then show ?thesis using deps_ok_register [OF assms(1) d'(2-5), of d'] assms(2) by (simp add: kept_dependency_def)
qed (use assms in simp)

lemma map_snd_update:
  "distinct (keys m) \<Longrightarrow> map_of m k = Some v \<Longrightarrow> f v' = f v \<Longrightarrow> map (f \<circ> snd) (AList.update k v' m) = map (f \<circ> snd) m"
  by (induction m) (auto split: if_splits)

lemma deps_ok_waiting:
  assumes "deps_ok deps order" "map_of deps opid = Some edge"
  shows "deps_ok (AList.update opid (edge\<lparr>dep_Waiting := True\<rparr>) deps) order"
proof -
  have "distinct (keys deps)" using assms(1) by (simp add: deps_ok_def)
  note same = map_snd_update [OF this assms(2), where v' = "edge\<lparr>dep_Waiting := True\<rparr>"]
  have "opid \<in> set (keys deps)" using assms(2) by (auto dest: map_of_SomeD intro: rev_image_eqI)
  then have "keys (AList.update opid (edge\<lparr>dep_Waiting := True\<rparr>) deps) = keys deps" by (induction deps) auto
  then show ?thesis
    using assms(1) same [of dep_ID] same [of turn_edge] same [of child_turn]
    unfolding deps_ok_def by (simp add: turn_edge_def parent_turn_def child_turn_def del: map_map)
qed

lemma session_framed:
  "se_definitions s' = se_definitions s \<Longrightarrow> se_byName s' = se_byName s \<Longrightarrow> se_dependencies s' = se_dependencies s \<Longrightarrow>
   se_dependencyOrder s' = se_dependencyOrder s \<Longrightarrow> session_inv c s' = session_inv c s"
  by (simp add: session_inv_def)

lemma RestrictManaged_inv: "session_inv c s \<Longrightarrow> session_inv c (RestrictManaged c managed allowed s)"
  using restrict_loop_index [of c managed allowed "se_definitions s" "[]" "[]", OF surjective_pairing]
  by (auto simp: session_inv_def RestrictManaged_def case_prod_beta index_ok_Nil index_ok_def)

lemma deferForScope_frame:
  assumes "deferForScope c conversationID turnID opid name args persist s w = (r, s', w')"
  shows "se_definitions s' = se_definitions s \<and> se_byName s' = se_byName s \<and> se_dependencies s' = se_dependencies s \<and>
     se_dependencyOrder s' = se_dependencyOrder s"
  using assms
  by (auto simp: deferForScope_def defer_fail_def put_scope_error_def Let_def split: option.splits if_splits sum.splits prod.splits)

interpretation session: inv_system "new_session c" "session_step c" "session_inv c" for c
proof
  show "session_inv c s" if "new_session c s" for s
    using that add_definitions_index [of c _ empty_session s]
    by (auto simp: new_session_def NewSession_def session_inv_def empty_session_def index_ok_Nil deps_ok_def acyclic_def)
next
  fix s t
  assume inv: "session_inv c s" and "session_step c s t"
  from this(2) show "session_inv c t"
  proof cases
    case (step_defer conversationID turnID opid name args res)
    obtain r s' w where d: "deferForScope c conversationID turnID opid name args (\<lambda>_. (res, ())) s () = (r, s', w)"
      by (rule prod_cases3)
    from deferForScope_frame [OF d] show ?thesis using inv step_defer d by (simp add: session_inv_def)
  next
    case (step_RegisterDependency d)
    have "se_definitions t = se_definitions s" "se_byName t = se_byName s"
      unfolding step_RegisterDependency by (auto simp: RegisterDependency_def split: sum.splits option.splits)
    then show ?thesis using inv RegisterDependency_deps step_RegisterDependency by (simp add: session_inv_def)
  next
    case (step_MarkDependencyWaiting opid)
    then show ?thesis using inv deps_ok_waiting
      by (auto simp: MarkDependencyWaiting_def session_inv_def split: option.splits)
  next
    case step_RestrictManaged
    then show ?thesis using inv RestrictManaged_inv by simp
  next
    case step_RecordError
    then show ?thesis using inv by (simp add: RecordError_def session_inv_def split: option.split)
  next
    case step_RecordErrorForTurn
    then show ?thesis using inv
      by (simp add: RecordErrorForTurn_def put_scope_error_def session_inv_def split: option.split)
  next
    case step_SetMetadata
    then show ?thesis using inv by (auto simp: SetMetadata_def session_inv_def)
  qed
qed

section \<open>Properties of a session\<close>

definition demo_definition :: "string \<Rightarrow> ToolDefinition" where
  "demo_definition name = \<lparr>def_DiscoveryNamespace = [], def_SourceMCPServer = [], def_SourceResourceURI = [],
     def_SourceProviderIdentity = [], def_Tier = [], def_AlwaysInclude = False, def_Name = name, def_Description = [],
     def_Parameters = None, def_Required = [], def_OutputSchema = None, def_Strict = False, def_Cacheable = False\<rparr>"

definition demo_dependency :: "string \<Rightarrow> string \<Rightarrow> string \<Rightarrow> Dependency" where
  "demo_dependency opid parent child = \<lparr>dep_ID = opid, dep_ParentCall = demo_call (''call'' @ opid) parent, dep_ChildConversationID = ''c'',
     dep_ChildTurnID = child, dep_ChildAgentID = [], dep_ExecutionMode = [], dep_ResultAdapter = AgentRunResultV1, dep_Waiting = False\<rparr>"

definition demo_session :: Session where
  "demo_session = (case NewSession demo_codec [demo_definition '' Pick'', demo_definition ''show''] of Inr s \<Rightarrow> s)"

definition demo_session2 :: Session where
  "demo_session2 = snd (MarkDependencyWaiting ''2'' (snd (RegisterDependency demo_codec (demo_dependency ''2'' ''t2'' ''t3'')
     (snd (RegisterDependency demo_codec (demo_dependency ''1'' ''t1'' ''t2'') demo_session)))))"

lemma demo_session_reachable: "reachable (new_session demo_codec) (session_step demo_codec) demo_session"
proof (rule reach_init)
  have "NewSession demo_codec [demo_definition '' Pick'', demo_definition ''show''] = Inr demo_session" by code_simp
  then show "new_session demo_codec demo_session"
    unfolding new_session_def
    by (intro exI [of _ "[demo_definition '' Pick'', demo_definition ''show'']"]) (simp add: kept_definition_def demo_codec_def)
qed

lemma demo_session2_reachable: "reachable (new_session demo_codec) (session_step demo_codec) demo_session2"
  unfolding demo_session2_def
  by (rule reach_step [OF reach_step [OF reach_step [OF demo_session_reachable step_RegisterDependency] step_RegisterDependency] step_MarkDependencyWaiting])
    (simp_all add: kept_dependency_def demo_codec_def)

text \<open>C9: in every reachable session the waiting edges form a forest: they have no cycle, and no two dependencies
  share a child turn; the registration order lists each dependency once.\<close>

theorem dependencies_acyclic:
  assumes "reachable (new_session c) (session_step c) s"
  shows "acyclic (edges (\<lambda>_. True) (map snd (se_dependencies s))) \<and>
    distinct (map (child_turn \<circ> snd) (se_dependencies s)) \<and>
    distinct (se_dependencyOrder s) \<and> set (se_dependencyOrder s) = set (keys (se_dependencies s))"
  using session.reachable_inv [OF assms] by (simp add: session_inv_def deps_ok_def edges_all)

theorem dependencies_acyclic_witness:
  "se_dependencyOrder demo_session2 = [''1'', ''2''] \<and>
   (turnKey ''c'' ''t1'', turnKey ''c'' ''t1'') \<notin> (edges (\<lambda>_. True) (map snd (se_dependencies demo_session2)))\<^sup>+ \<and>
   fst (RegisterDependency demo_codec (demo_dependency ''3'' ''t3'' ''t1'') demo_session2) = Some ''cyclic client tool dependency''"
proof -
  have "se_dependencyOrder demo_session2 = [''1'', ''2'']"
    "fst (RegisterDependency demo_codec (demo_dependency ''3'' ''t3'' ''t1'') demo_session2) = Some ''cyclic client tool dependency''"
    by code_simp+
  then show ?thesis using dependencies_acyclic [OF demo_session2_reachable] by (auto simp: acyclic_def)
qed

text \<open>In every reachable session, restricted or not, \<open>Lookup\<close> finds exactly the definitions the session has:
  a name is found if and only if some definition has its canonical name, which then is the one returned.\<close>

theorem Lookup_spec:
  assumes "reachable (new_session c) (session_step c) s"
  shows "Lookup c cl name s = map_option cl (find (\<lambda>d. canonical c (def_Name d) = canonical c name) (se_definitions s))"
proof -
  have ok: "index_ok c (se_definitions s) (se_byName s)"
    using session.reachable_inv [OF assms] by (simp add: session_inv_def)
  have "map_option (\<lambda>i. se_definitions s ! i) (map_of (se_byName s) key) =
      find (\<lambda>d. canonical c (def_Name d) = key) (se_definitions s)" for key
  proof (cases "find (\<lambda>d. canonical c (def_Name d) = key) (se_definitions s)")
    case None
    then have "map_of (se_byName s) key = None" unfolding index_ok_None [OF ok] by (auto simp: find_None_iff)
    then show ?thesis using None by simp
  next
    case (Some d)
    then obtain i where i: "i < length (se_definitions s)" "canonical c (def_Name (se_definitions s ! i)) = key" "d = se_definitions s ! i"
      by (auto simp: find_Some_iff)
    have "map_of (zip (map (canonical c \<circ> def_Name) (se_definitions s)) [0..<length (se_definitions s)])
        (map (canonical c \<circ> def_Name) (se_definitions s) ! i) = Some ([0..<length (se_definitions s)] ! i)"
      using ok i by (intro map_of_zip_nth) (simp_all add: index_ok_def)
    then have "map_of (se_byName s) key = Some i" using ok i by (simp add: index_ok_def)
    then show ?thesis using i Some by simp
  qed
  from this [of "canonical c name", symmetric] show ?thesis
    by (simp add: Lookup_def split: option.split)
qed

section \<open>Poisoned scopes\<close>

text \<open>Errors are only ever added: an unscoped one is replaced by another, the first one of a turn stays.\<close>

definition errors_kept :: "Session \<Rightarrow> Session \<Rightarrow> bool" where
  "errors_kept s t \<longleftrightarrow> (se_unscopedErr s \<noteq> None \<longrightarrow> se_unscopedErr t \<noteq> None) \<and>
     (\<forall>key e. map_of (se_scopeErrors s) key = Some e \<longrightarrow> map_of (se_scopeErrors t) key = Some e)"

lemma errors_kept_refl [simp]: "errors_kept s s"
  by (simp add: errors_kept_def)

lemma errors_kept_trans: "errors_kept s t \<Longrightarrow> errors_kept t u \<Longrightarrow> errors_kept s u"
  by (auto simp: errors_kept_def)

lemma errors_kept_same: "se_unscopedErr t = se_unscopedErr s \<Longrightarrow> se_scopeErrors t = se_scopeErrors s \<Longrightarrow> errors_kept s t"
  by (simp add: errors_kept_def)

lemma errors_kept_put: "errors_kept s (put_scope_error key e (s\<lparr>se_err := err\<rparr>))" "errors_kept s ((put_scope_error key e s)\<lparr>se_err := err\<rparr>)"
  by (auto simp: errors_kept_def put_scope_error_def alist_update)

text \<open>The outcomes of a deferral, as they change the session.\<close>

definition defer_outcome :: "string \<Rightarrow> string \<Rightarrow> Session \<Rightarrow> (error + PendingCall) \<times> Session \<times> 'w \<Rightarrow> bool" where
  "defer_outcome conversationID turnID s res \<longleftrightarrow>
     (case res of
        (Inr r, s', w') \<Rightarrow> s' = s \<or> (\<exists>p. s' = s\<lparr>se_pending := se_pending s @ [p]\<rparr>)
      | (Inl e, s', w') \<Rightarrow> s' = s \<and> ErrorForTurn conversationID turnID s = Some e \<or>
          s' = defer_fail conversationID turnID e s \<and> se_unscopedErr s = None \<and>
          map_of (se_scopeErrors s) (turnKey conversationID turnID) = None)"

lemma deferForScope_outcome: "defer_outcome conversationID turnID s (deferForScope c conversationID turnID opid name args persist s w)"
  unfolding deferForScope_def Let_def
  by (auto simp: defer_outcome_def ErrorForTurn_def split: option.split sum.split prod.split)

lemma defer_fail_kept: "errors_kept s (defer_fail conversationID turnID e s)"
  by (auto simp: defer_fail_def Let_def errors_kept_def put_scope_error_def alist_update)

lemma defer_fail_poisons:
  assumes "map_of (se_scopeErrors s) (turnKey conversationID turnID) = None"
  shows "se_unscopedErr (defer_fail conversationID turnID e s) \<noteq> None \<or>
     map_of (se_scopeErrors (defer_fail conversationID turnID e s)) (turnKey conversationID turnID) = Some e"
  using assms by (cases "conversationID = [] \<and> turnID = []") (auto simp: defer_fail_def put_scope_error_def Let_def alist_update)

lemma session_step_errors: "session_step c s t \<Longrightarrow> errors_kept s t"
proof (induction rule: session_step.induct)
  case (step_defer s conversationID turnID opid name args res)
  show ?case
    using deferForScope_outcome [of conversationID turnID s c opid name args "\<lambda>_. (res, ())" "()"]
    by (auto simp: defer_outcome_def defer_fail_kept errors_kept_same split: prod.splits sum.splits)
next
  case (step_RecordErrorForTurn s conversationID turnID err)
  then show ?case by (simp add: RecordErrorForTurn_def errors_kept_put split: option.split)
next
  case (step_RecordError s err)
  then show ?case by (simp add: RecordError_def errors_kept_def split: option.split)
next
  case (step_SetMetadata s name md)
  then show ?case by (simp add: SetMetadata_def errors_kept_same)
next
  case (step_RestrictManaged s managed allowed)
  then show ?case by (simp add: RestrictManaged_def errors_kept_same split: prod.split)
next
  case (step_RegisterDependency d s)
  show ?case by (auto simp: RegisterDependency_def errors_kept_same split: sum.split option.split)
next
  case (step_MarkDependencyWaiting s opid)
  show ?case by (auto simp: MarkDependencyWaiting_def errors_kept_same split: option.split)
qed

lemma session_steps_errors: "(session_step c)\<^sup>*\<^sup>* s t \<Longrightarrow> errors_kept s t"
  by (induction rule: rtranclp_induct) (auto intro: errors_kept_trans session_step_errors)

text \<open>A deferral that failed poisons its turn for good: after any further operations the turn has an error,
  every later deferral in it fails with that error without calling the persistence and without changing the
  session, and unless an unscoped error was recorded it is the error of the first failure.\<close>

theorem failed_scope_stays_failed:
  assumes "deferForScope c conversationID turnID opid name args persist s w = (Inl e, s1, w1)"
    and "(session_step c)\<^sup>*\<^sup>* s1 t"
  shows "\<exists>e'. ErrorForTurn conversationID turnID t = Some e' \<and>
     deferForScope c conversationID turnID opid' name' args' persist' t v = (Inl e', t, v) \<and>
     (e' = e \<or> se_unscopedErr t = Some e')"
proof -
  have s1: "se_unscopedErr s1 \<noteq> None \<or> map_of (se_scopeErrors s1) (turnKey conversationID turnID) = Some e"
    using deferForScope_outcome [of conversationID turnID s c opid name args persist w] assms(1)
      defer_fail_poisons [of s conversationID turnID e]
    by (auto simp: defer_outcome_def ErrorForTurn_def split: option.splits)
  have "errors_kept s1 t" using assms(2) by (rule session_steps_errors)
  with s1 have "se_unscopedErr t \<noteq> None \<or> map_of (se_scopeErrors t) (turnKey conversationID turnID) = Some e"
    by (auto simp: errors_kept_def)
  then show ?thesis by (cases "se_unscopedErr t") (simp_all add: ErrorForTurn_def deferForScope_def)
qed

end
