(* ===== verification/Cron.thy ===== *)
theory Cron
  imports GoPrelude
begin

text \<open>
  Cron expressions, \<open>service/scheduler/cron.go\<close>: parsing a field to a set of integers, matching an instant
  and searching the next match. The counting loops run on wrapping 64-bit integers and may not end, so
  they are partial functions and parsing returns \<open>None\<close> when it does not return. Parameter: the calendar
  of a location, that is the fields of an instant and \<open>time.Date\<close>.
\<close>

section \<open>Numbers and loops\<close>

definition digit_val :: "char \<Rightarrow> int" where
  "digit_val c = int (of_char c) - 48"

fun atoi_from :: "int \<Rightarrow> string \<Rightarrow> int option" where
  "atoi_from n [] = Some n"
| "atoi_from n (c # s) =
     (if (of_char c :: nat) < 48 \<or> (of_char c :: nat) > 57 then None
      else atoi_from (wrap64 (wrap64 (n * 10) + digit_val c)) s)"

definition atoiSafe :: "string \<Rightarrow> int option" where
  "atoiSafe s = atoi_from 0 s"

text \<open>\<open>for i := init; i <= fin; i += step\<close>: the values of \<open>i\<close> the body sees.\<close>

partial_function (option) counted :: "int \<Rightarrow> int \<Rightarrow> int \<Rightarrow> int list option" where
  "counted i fin step =
     (if i \<le> fin then Option.bind (counted (wrap64 (i + step)) fin step) (\<lambda>xs. Some (i # xs)) else Some [])"

section \<open>Fields\<close>

text \<open>The steps of a token: what follows a single slash, if that is a positive number.\<close>

definition token_step :: "string \<Rightarrow> string \<times> int" where
  "token_step tok =
     (case Split (CHR ''/'') tok of
        [a, b] \<Rightarrow> (a, case atoiSafe b of Some v \<Rightarrow> if v > 0 then v else 1 | None \<Rightarrow> 1)
      | _ \<Rightarrow> (tok, 1))"

text \<open>\<open>strings.SplitN(tok, "-", 2)\<close>\<close>

fun split_dash :: "string \<Rightarrow> (string \<times> string) option" where
  "split_dash [] = None"
| "split_dash (c # s) = (if c = CHR ''-'' then Some ([], s) else map_option (\<lambda>(a, b). (c # a, b)) (split_dash s))"

definition within :: "int \<Rightarrow> int \<Rightarrow> int list \<Rightarrow> int set" where
  "within lo hi xs = set (filter (\<lambda>v. lo \<le> v \<and> v \<le> hi) xs)"

text \<open>One pass of the loop over the tokens: the values the token adds, or an error.\<close>

definition token_values :: "int \<Rightarrow> int \<Rightarrow> string \<Rightarrow> (string + int set) option" where
  "token_values lo hi tok0 =
     (let (tok, step) = token_step tok0 in
      if tok = ''*'' then map_option (\<lambda>xs. Inr (set xs)) (counted lo hi step)
      else case split_dash tok of
          Some (x, y) \<Rightarrow>
            (case (atoiSafe x, atoiSafe y) of
               (Some a, Some b) \<Rightarrow>
                 let (init, fin) = (if a > b then (b, a) else (a, b)) in
                 map_option (\<lambda>xs. Inr (within lo hi xs)) (counted init fin step)
             | _ \<Rightarrow> Some (Inl (''invalid range: '' @ tok)))
        | None \<Rightarrow>
            (case atoiSafe tok of
               Some v \<Rightarrow> Some (Inr (within lo hi [v]))
             | None \<Rightarrow> Some (Inl (''invalid token: '' @ tok))))"

fun tokens_values :: "int \<Rightarrow> int \<Rightarrow> string list \<Rightarrow> int set \<Rightarrow> (string + int set) option" where
  "tokens_values lo hi [] vs = Some (if vs = {} then Inl ''empty set'' else Inr vs)"
| "tokens_values lo hi (tok # toks) vs =
     (let tok = TrimSpace tok in
      if tok = [] then tokens_values lo hi toks vs
      else case token_values lo hi tok of
          None \<Rightarrow> None
        | Some (Inl e) \<Rightarrow> Some (Inl e)
        | Some (Inr new) \<Rightarrow> tokens_values lo hi toks (vs \<union> new))"

definition parseCronField :: "string \<Rightarrow> int \<Rightarrow> int \<Rightarrow> (string + int set) option" where
  "parseCronField s0 lo hi =
     (let s = TrimSpace s0 in
      if s = ''*'' \<or> s = ''?'' then map_option (\<lambda>xs. Inr (set xs)) (counted lo hi 1)
      else tokens_values lo hi (Split (CHR '','') s) {})"

section \<open>Expressions\<close>

record cronSpec =
  cs_min :: "int set"
  cs_hour :: "int set"
  cs_dom :: "int set"
  cs_mon :: "int set"
  cs_dow :: "int set"

text \<open>A field of the expression, with the name its error is wrapped in.\<close>

definition cron_field :: "string \<Rightarrow> string \<Rightarrow> int \<Rightarrow> int \<Rightarrow> (int set \<Rightarrow> (string + 'a) option) \<Rightarrow> (string + 'a) option" where
  "cron_field name s lo hi k =
     (case parseCronField s lo hi of
        None \<Rightarrow> None
      | Some (Inl e) \<Rightarrow> Some (Inl (name @ '': '' @ e))
      | Some (Inr vs) \<Rightarrow> k vs)"

definition parseCron :: "string \<Rightarrow> (string + cronSpec) option" where
  "parseCron expr =
     (case Fields expr of
        m # h # d # mo # w # _ \<Rightarrow>
          cron_field ''minute'' m 0 59 (\<lambda>mins.
          cron_field ''hour'' h 0 23 (\<lambda>hours.
          cron_field ''dom'' d 1 31 (\<lambda>doms.
          cron_field ''month'' mo 1 12 (\<lambda>mons.
          cron_field ''dow'' w 0 6 (\<lambda>dows.
            Some (Inr \<lparr>cs_min = mins, cs_hour = hours, cs_dom = doms, cs_mon = mons, cs_dow = dows\<rparr>))))))
      | _ \<Rightarrow> Some (Inl (''invalid cron expr: '' @ expr)))"

section \<open>Matching\<close>

record calendar =
  cal_Minute :: "gotime \<Rightarrow> int"
  cal_Hour :: "gotime \<Rightarrow> int"
  cal_Day :: "gotime \<Rightarrow> int"
  cal_Month :: "gotime \<Rightarrow> int"
  cal_Weekday :: "gotime \<Rightarrow> int"
  cal_Year :: "gotime \<Rightarrow> int"
  cal_Date :: "int \<Rightarrow> int \<Rightarrow> int \<Rightarrow> int \<Rightarrow> int \<Rightarrow> gotime"

definition cronMatch :: "calendar \<Rightarrow> cronSpec \<Rightarrow> gotime \<Rightarrow> bool" where
  "cronMatch cal spec t \<longleftrightarrow>
     (if cal_Minute cal t \<notin> cs_min spec then False
      else if cal_Hour cal t \<notin> cs_hour spec then False
      else if cal_Day cal t \<notin> cs_dom spec then False
      else if cal_Month cal t \<notin> cs_mon spec then False
      else if cal_Weekday cal t \<notin> cs_dow spec then False
      else True)"

definition Minute :: duration where "Minute = 60 * Second"

fun scan_minutes :: "calendar \<Rightarrow> cronSpec \<Rightarrow> nat \<Rightarrow> gotime \<Rightarrow> gotime" where
  "scan_minutes cal spec 0 t = t"
| "scan_minutes cal spec (Suc n) t = (if cronMatch cal spec t then t else scan_minutes cal spec n (t + Minute))"

definition cronNext :: "calendar \<Rightarrow> cronSpec \<Rightarrow> gotime \<Rightarrow> gotime" where
  "cronNext cal spec from = scan_minutes cal spec 525600 (from + Minute)"

section \<open>The loops\<close>

text \<open>A loop whose last step stays in the range of the integers counts from the first value to the last.\<close>

lemma counted_small:
  assumes "0 < step" "minInt64 \<le> i" "fin + step \<le> maxInt64"
  shows "counted i fin step = Some (map (\<lambda>k. i + int k * step) [0..<nat ((fin - i) div step + 1)])"
  using assms(2)
proof (induction "nat (fin + step - i)" arbitrary: i rule: less_induct)
  case less
  show ?case
  proof (cases "i \<le> fin")
    case True
    have w: "wrap64 (i + step) = i + step" using True less.prems assms by (intro wrap64_id) simp_all
    have "(fin - i) div step = (fin - (i + step)) div step + 1"
      using div_add_self2 [of step "fin - (i + step)"] assms(1) by simp
    moreover have "(fin - i) div step \<ge> 0" using True assms(1) by (simp add: pos_imp_zdiv_nonneg_iff)
    ultimately have n: "nat ((fin - i) div step + 1) = Suc (nat ((fin - (i + step)) div step + 1))" by simp
    have "counted (i + step) fin step = Some (map (\<lambda>k. (i + step) + int k * step) [0..<nat ((fin - (i + step)) div step + 1)])"
      using True assms less.prems by (intro less.hyps) simp_all
    moreover have "map (\<lambda>k. i + int k * step) [0..<Suc m] = i # map (\<lambda>k. (i + step) + int k * step) [0..<m]" for m
      by (simp only: map_upt_Suc) (simp add: algebra_simps)
    ultimately show ?thesis
      using True unfolding n by (subst counted.simps) (simp add: w del: upt_Suc)
  next
    case False
    then have "(fin - i) div step < 0" using assms(1) by (simp add: div_neg_pos_less0)
    then show ?thesis using False by (subst counted.simps) simp
  qed
qed

lemma counted_set:
  assumes "0 < step" "minInt64 \<le> i" "fin + step \<le> maxInt64"
  shows "\<exists>xs. counted i fin step = Some xs \<and> set xs \<subseteq> {i..fin} \<and> (i \<le> fin \<longrightarrow> i \<in> set xs)"
proof -
  have "i + int k * step \<le> fin" if "k < nat ((fin - i) div step + 1)" for k
  proof -
    have "int k \<le> (fin - i) div step" using that by linarith
    then have "int k * step \<le> (fin - i) div step * step" using assms(1) by (simp add: mult_right_mono)
    also have "\<dots> \<le> fin - i" using div_mult_mod_eq [of "fin - i" step] assms(1) pos_mod_sign [of step "fin - i"] by linarith
    finally show ?thesis by simp
  qed
  moreover have "0 < nat ((fin - i) div step + 1)" if "i \<le> fin" using that assms(1) by (simp add: pos_imp_zdiv_nonneg_iff add_pos_nonneg add.commute)
  ultimately show ?thesis
    unfolding counted_small [OF assms] using assms(1)
    by (auto simp: image_iff intro!: bexI [of _ 0])
qed

text \<open>A loop up to the greatest integer never ends: the comparison never fails.\<close>

lemma counted_maxInt64: "i \<le> maxInt64 \<Longrightarrow> counted i maxInt64 step = None"
proof -
  have "counted i fin step = Some xs \<Longrightarrow> fin = maxInt64 \<Longrightarrow> \<not> i \<le> maxInt64" for xs fin
  proof (induction i fin step xs rule: counted.raw_induct [rotated, consumes 1])
    case (1 counted i fin step xs)
    show ?case
    proof
      assume "i \<le> maxInt64"
      with 1 obtain ys where "counted (wrap64 (i + step)) fin step = Some ys" by (auto split: bind_splits)
      with 1 wrap64_range(2) [of "i + step"] show False by blast
    qed
  qed
  then show "i \<le> maxInt64 \<Longrightarrow> counted i maxInt64 step = None" by (cases "counted i maxInt64 step") auto
qed

section \<open>Parsing\<close>

lemma atoi_from_bounds:
  "atoi_from n s = Some v \<Longrightarrow> 0 \<le> n \<Longrightarrow> (n + 1) * 10 ^ length s \<le> 10 ^ 18 \<Longrightarrow> 0 \<le> v \<and> v < (n + 1) * 10 ^ length s"
proof (induction n s rule: atoi_from.induct)
  case (2 n c s)
  have d: "0 \<le> digit_val c" "digit_val c \<le> 9" and v: "atoi_from (wrap64 (wrap64 (n * 10) + digit_val c)) s = Some v"
    using 2(2) by (auto simp: digit_val_def split: if_splits)
  have le: "(n * 10 + digit_val c + 1) * 10 ^ length s \<le> (n + 1) * 10 ^ length (c # s)"
  proof -
    have "(n * 10 + digit_val c + 1) * 10 ^ length s \<le> (10 * (n + 1)) * 10 ^ length s"
      using d by (intro mult_right_mono) simp_all
    then show ?thesis by (simp add: algebra_simps)
  qed
  have "n * 10 + digit_val c + 1 \<le> (n * 10 + digit_val c + 1) * 10 ^ length s"
    using d 2(3) mult_left_mono [of 1 "10 ^ length s" "n * 10 + digit_val c + 1"] by simp
  then have "n * 10 + digit_val c + 1 \<le> 10 ^ 18" using le 2(4) by linarith
  then have w: "wrap64 (wrap64 (n * 10) + digit_val c) = n * 10 + digit_val c"
    using d 2(3) by (simp add: wrap64_id)
  have ok: "\<not> ((of_char c :: nat) < 48 \<or> (of_char c :: nat) > 57)" using 2(2) by (auto split: if_splits)
  have "0 \<le> v \<and> v < (n * 10 + digit_val c + 1) * 10 ^ length s"
    using 2(1) [OF ok] v le 2(3,4) d unfolding w by linarith
  then show ?case using le by linarith
qed simp

lemma atoiSafe_bounds: "atoiSafe s = Some v \<Longrightarrow> length s \<le> 18 \<Longrightarrow> 0 \<le> v \<and> v < 10 ^ 18"
proof -
  assume v: "atoiSafe s = Some v" and l: "length s \<le> 18"
  have "(10::int) ^ length s \<le> 10 ^ 18" using l by (intro power_increasing) simp_all
  then show ?thesis using atoi_from_bounds [of 0 s v] v by (simp add: atoiSafe_def)
qed

lemma Split_length: "w \<in> set (Split sep s) \<Longrightarrow> length w \<le> length s"
proof (induction sep s arbitrary: w rule: Split.induct)
  case (2 sep c s)
  obtain v vs where "Split sep s = v # vs" by (cases "Split sep s") auto
  with 2 show ?case by (fastforce split: if_splits)
qed simp

lemma token_step_bounds:
  assumes "length tok \<le> 18"
  shows "length (fst (token_step tok)) \<le> 18 \<and> 0 < snd (token_step tok) \<and> snd (token_step tok) < 10 ^ 18"
proof (cases "\<exists>a b. Split (CHR ''/'') tok = [a, b]")
  case True
  then obtain a b where s: "Split (CHR ''/'') tok = [a, b]" by blast
  have "length a \<le> length tok" "length b \<le> length tok"
    using Split_length [of a "CHR ''/''" tok] Split_length [of b "CHR ''/''" tok] unfolding s by simp_all
  then show ?thesis using s assms atoiSafe_bounds [of b] by (auto simp: token_step_def split: option.split)
next
  case False
  then have "token_step tok = (tok, 1)"
    by (auto simp: token_step_def split: list.split)
  then show ?thesis using assms by simp
qed

lemma split_dash_length: "split_dash s = Some (a, b) \<Longrightarrow> length a \<le> length s \<and> length b \<le> length s"
  by (induction s arbitrary: a) (auto split: if_splits)

lemma within_subset: "within lo hi xs \<subseteq> {lo..hi}"
  by (auto simp: within_def)

text \<open>What parsing a short string gives: a set of values in the range, or an error, but always something.\<close>

definition returns_within :: "int \<Rightarrow> int \<Rightarrow> (string + int set) option \<Rightarrow> bool" where
  "returns_within lo hi r \<longleftrightarrow> (case r of None \<Rightarrow> False | Some (Inl e) \<Rightarrow> True | Some (Inr vs) \<Rightarrow> vs \<subseteq> {lo..hi})"

lemma token_values_returns:
  assumes "length tok \<le> 18" "0 \<le> lo" "hi \<le> 59"
  shows "returns_within lo hi (token_values lo hi tok)"
proof -
  obtain tk step where ts: "token_step tok = (tk, step)" by fastforce
  with token_step_bounds [OF assms(1)] have b: "length tk \<le> 18" "0 < step" "step < 10 ^ 18" by simp_all
  have star: "returns_within lo hi (map_option (\<lambda>xs. Inr (set xs)) (counted lo hi step))"
    using counted_set [of step lo hi] b assms by (auto simp: returns_within_def)
  have range: "returns_within lo hi (map_option (\<lambda>xs. Inr (within lo hi xs)) (counted x y step))" if "0 \<le> x" "y < 10 ^ 18" for x y
    using counted_set [of step x y] b that within_subset by (auto simp: returns_within_def)
  show ?thesis
  proof (cases "split_dash tk")
    case None
    then show ?thesis using ts star within_subset
      by (auto simp: token_values_def Let_def returns_within_def split: option.split)
  next
    case (Some xy)
    then obtain x y where xy: "split_dash tk = Some (x, y)" by (cases xy) auto
    have "length x \<le> 18" "length y \<le> 18" using split_dash_length [OF xy] b by simp_all
    then have "0 \<le> u \<and> u < 10 ^ 18" if "atoiSafe x = Some u \<or> atoiSafe y = Some u" for u using atoiSafe_bounds that by blast
    then show ?thesis
      using ts star range xy
      by (cases "atoiSafe x"; cases "atoiSafe y") (auto simp: token_values_def Let_def returns_within_def)
  qed
qed

lemma tokens_values_returns:
  assumes "\<forall>tok \<in> set toks. length tok \<le> 18" "0 \<le> lo" "hi \<le> 59" "vs \<subseteq> {lo..hi}"
  shows "returns_within lo hi (tokens_values lo hi toks vs) \<and> tokens_values lo hi toks vs \<noteq> Some (Inr {})"
  using assms
proof (induction lo hi toks vs rule: tokens_values.induct)
  case (2 lo hi tok toks vs)
  show ?case
  proof (cases "TrimSpace tok = []")
    case False
    have "length (TrimSpace tok) \<le> 18" using length_TrimSpace [of tok] "2.prems"(1) by simp
    then have "returns_within lo hi (token_values lo hi (TrimSpace tok))" using "2.prems" by (intro token_values_returns)
    then consider e where "token_values lo hi (TrimSpace tok) = Some (Inl e)"
      | new where "token_values lo hi (TrimSpace tok) = Some (Inr new)" "new \<subseteq> {lo..hi}"
      by (auto simp: returns_within_def split: option.splits sum.splits)
    then show ?thesis
    proof cases
      case (2 new)
      then have "returns_within lo hi (tokens_values lo hi toks (vs \<union> new)) \<and> tokens_values lo hi toks (vs \<union> new) \<noteq> Some (Inr {})"
        using "2.IH"(2) [OF refl False 2(1) refl] "2.prems" by simp
      with False 2(1) show ?thesis by (simp add: Let_def)
    qed (use False in \<open>simp add: Let_def returns_within_def\<close>)
  qed (use 2 in \<open>simp add: Let_def\<close>)
qed (simp add: returns_within_def)

lemma parseCronField_ok:
  assumes "length s \<le> 18" "0 \<le> lo" "lo \<le> hi" "hi \<le> 59"
  shows "returns_within lo hi (parseCronField s lo hi) \<and> parseCronField s lo hi \<noteq> Some (Inr {})"
proof (cases "TrimSpace s = ''*'' \<or> TrimSpace s = ''?''")
  case True
  obtain xs where "counted lo hi 1 = Some xs" "set xs \<subseteq> {lo..hi}" "lo \<in> set xs"
    using counted_set [of 1 lo hi] assms by auto
  then show ?thesis using True by (auto simp: parseCronField_def returns_within_def)
next
  case False
  have "\<forall>tok \<in> set (Split (CHR '','') (TrimSpace s)). length tok \<le> 18"
    using Split_length length_TrimSpace [of s] assms(1) by fastforce
  with False tokens_values_returns [of "Split (CHR '','') (TrimSpace s)" lo hi "{}"] assms show ?thesis
    by (simp add: parseCronField_def Let_def)
qed

definition field_ok :: "int \<Rightarrow> int \<Rightarrow> int set \<Rightarrow> bool" where
  "field_ok lo hi vs \<longleftrightarrow> vs \<noteq> {} \<and> vs \<subseteq> {lo..hi}"

definition spec_ok :: "cronSpec \<Rightarrow> bool" where
  "spec_ok s \<longleftrightarrow> field_ok 0 59 (cs_min s) \<and> field_ok 0 23 (cs_hour s) \<and> field_ok 1 31 (cs_dom s) \<and>
     field_ok 1 12 (cs_mon s) \<and> field_ok 0 6 (cs_dow s)"

lemma cron_field_step:
  assumes "length s \<le> 18" "0 \<le> lo" "lo \<le> hi" "hi \<le> 59"
    and "\<And>vs. field_ok lo hi vs \<Longrightarrow> \<exists>r. k vs = Some r \<and> (\<forall>x. r = Inr x \<longrightarrow> P x)"
  shows "\<exists>r. cron_field name s lo hi k = Some r \<and> (\<forall>x. r = Inr x \<longrightarrow> P x)"
  using parseCronField_ok [OF assms(1-4)] assms(5)
  by (auto simp: cron_field_def returns_within_def field_ok_def split: option.splits sum.splits)

text \<open>C35: parsing a cron expression whose fields have at most 18 bytes returns: an error, or a specification in
  which no field is empty and every value is in the range of its field.\<close>

theorem parseCron_returns:
  assumes "\<forall>f \<in> set (Fields expr). length f \<le> 18"
  shows "\<exists>r. parseCron expr = Some r \<and> (\<forall>spec. r = Inr spec \<longrightarrow> spec_ok spec)"
proof (cases "\<exists>m h d mo w rest. Fields expr = m # h # d # mo # w # rest")
  case True
  then obtain m h d mo w rest where f: "Fields expr = m # h # d # mo # w # rest" by blast
  have l: "length m \<le> 18" "length h \<le> 18" "length d \<le> 18" "length mo \<le> 18" "length w \<le> 18"
    using assms unfolding f by simp_all
  show ?thesis
    unfolding parseCron_def f list.case
    by (intro cron_field_step l exI [of _ "Inr _"] conjI) (auto simp: spec_ok_def)
next
  case False
  then have "parseCron expr = Some (Inl (''invalid cron expr: '' @ expr))"
    by (auto simp: parseCron_def split: list.split)
  then show ?thesis by simp
qed

theorem parseCron_returns_witness:
  "\<exists>r. parseCron ''0 9 * * 1-5'' = Some r \<and> (\<forall>spec. r = Inr spec \<longrightarrow> spec_ok spec)"
  by (rule parseCron_returns) code_simp

text \<open>A field with a range up to the greatest integer makes the parser loop for ever.\<close>

lemma parseCron_diverges: "parseCron ''0-9223372036854775807 * * * *'' = None"
proof -
  have f: "Fields ''0-9223372036854775807 * * * *'' = [''0-9223372036854775807'', ''*'', ''*'', ''*'', ''*'']" by code_simp
  have s: "Split (CHR '','') (TrimSpace ''0-9223372036854775807'') = [''0-9223372036854775807'']"
    "TrimSpace ''0-9223372036854775807'' = ''0-9223372036854775807''"
    "token_step ''0-9223372036854775807'' = (''0-9223372036854775807'', 1)"
    "split_dash ''0-9223372036854775807'' = Some (''0'', ''9223372036854775807'')"
    "atoiSafe ''0'' = Some 0" "atoiSafe ''9223372036854775807'' = Some maxInt64" by code_simp+
  have "parseCronField ''0-9223372036854775807'' 0 59 = None"
    using counted_maxInt64 [of 0 1] by (simp add: parseCronField_def token_values_def Let_def s)
  then show ?thesis by (simp add: parseCron_def f cron_field_def)
qed

section \<open>The next match\<close>

lemma scan_minutes_spec:
  "\<exists>k \<le> n. scan_minutes cal spec n t = t + int k * Minute \<and> (\<forall>j < k. \<not> cronMatch cal spec (t + int j * Minute)) \<and>
     (k < n \<longrightarrow> cronMatch cal spec (t + int k * Minute))"
proof (induction cal spec n t rule: scan_minutes.induct)
  case (2 cal spec n t)
  show ?case
  proof (cases "cronMatch cal spec t")
    case True
    then show ?thesis by (intro exI [of _ 0]) simp
  next
    case False
    with 2 obtain k where k: "k \<le> n" "scan_minutes cal spec n (t + Minute) = t + Minute + int k * Minute"
      "\<forall>j < k. \<not> cronMatch cal spec (t + Minute + int j * Minute)" "k < n \<longrightarrow> cronMatch cal spec (t + Minute + int k * Minute)"
      by blast
    have "\<not> cronMatch cal spec (t + int j * Minute)" if "j < Suc k" for j
      using that k(3) False by (cases j) (auto simp: algebra_simps)
    with k False show ?thesis by (intro exI [of _ "Suc k"]) (simp add: algebra_simps)
  qed
qed simp

lemma cronNext_later:
  "from + Minute \<le> cronNext cal spec from \<and>
   (cronMatch cal spec (cronNext cal spec from) \<or> (\<forall>j \<in> {1..525600}. \<not> cronMatch cal spec (from + j * Minute)))"
proof -
  obtain k where k: "k \<le> 525600" "cronNext cal spec from = from + Minute + int k * Minute"
    "\<forall>j < k. \<not> cronMatch cal spec (from + Minute + int j * Minute)"
    "k < 525600 \<longrightarrow> cronMatch cal spec (from + Minute + int k * Minute)"
    using scan_minutes_spec [of 525600 cal spec "from + Minute"] unfolding cronNext_def by blast
  have "0 \<le> int k * Minute" by (simp add: Minute_def Second_def)
  moreover have "cronMatch cal spec (cronNext cal spec from) \<or> (\<forall>j \<in> {1..525600}. \<not> cronMatch cal spec (from + j * Minute))"
  proof (cases "k < 525600")
    case False
    have "\<not> cronMatch cal spec (from + j * Minute)" if "j \<in> {1..525600}" for j
      using k(3) [rule_format, of "nat (j - 1)"] that False by (simp add: algebra_simps nat_less_iff)
    then show ?thesis by blast
  qed (use k in simp)
  ultimately show ?thesis using k(2) by simp
qed

text \<open>C36: \<open>cronNext\<close> returns the first of the next 525600 minutes that matches; when none of them does, it returns
  the minute after them, whether that matches or not.\<close>

theorem cronNext_spec:
  "(\<exists>k \<in> {1..525600}. cronNext cal spec from = from + k * Minute \<and> cronMatch cal spec (from + k * Minute) \<and>
      (\<forall>j \<in> {1..<k}. \<not> cronMatch cal spec (from + j * Minute))) \<or>
   cronNext cal spec from = from + 525601 * Minute \<and> (\<forall>j \<in> {1..525600}. \<not> cronMatch cal spec (from + j * Minute))"
proof -
  obtain k where k: "k \<le> 525600" "cronNext cal spec from = from + Minute + int k * Minute"
    "\<forall>j < k. \<not> cronMatch cal spec (from + Minute + int j * Minute)"
    "k < 525600 \<longrightarrow> cronMatch cal spec (from + Minute + int k * Minute)"
    using scan_minutes_spec [of 525600 cal spec "from + Minute"] unfolding cronNext_def by blast
  have none: "\<not> cronMatch cal spec (from + j * Minute)" if "1 \<le> j" "j \<le> int k" for j
    using k(3) [rule_format, of "nat (j - 1)"] that by (simp add: algebra_simps nat_less_iff)
  show ?thesis
  proof (cases "k < 525600")
    case True
    with k none show ?thesis by (intro disjI1 bexI [of _ "int k + 1"]) (auto simp: algebra_simps)
  next
    case False
    with k(1) have "k = 525600" by simp
    with k none show ?thesis by (intro disjI2) (auto simp: algebra_simps)
  qed
qed

text \<open>A calendar of numbered days in one endless month.\<close>

definition demo_calendar :: calendar where
  "demo_calendar = \<lparr>cal_Minute = (\<lambda>t. t div Minute mod 60), cal_Hour = (\<lambda>t. t div Minute div 60 mod 24),
     cal_Day = (\<lambda>t. t div Minute div 60 div 24 + 1), cal_Month = (\<lambda>t. 1), cal_Weekday = (\<lambda>t. 1), cal_Year = (\<lambda>t. 1),
     cal_Date = (\<lambda>y mo d h mi. (((d - 1) * 24 + h) * 60 + mi) * Minute)\<rparr>"

definition demo_spec :: cronSpec where
  "demo_spec = \<lparr>cs_min = {3}, cs_hour = {0}, cs_dom = {1}, cs_mon = {1}, cs_dow = {1}\<rparr>"

theorem cronNext_spec_witness: "cronNext demo_calendar demo_spec 0 = 3 * Minute"
proof -
  have m: "cronMatch demo_calendar demo_spec (0 + 3 * Minute)" "\<not> cronMatch demo_calendar demo_spec (0 + 1 * Minute)"
    "\<not> cronMatch demo_calendar demo_spec (0 + 2 * Minute)" by code_simp+
  from cronNext_spec [of demo_calendar demo_spec 0] show ?thesis
  proof (elim disjE bexE conjE)
    fix k assume k: "k \<in> {1..525600}" "cronNext demo_calendar demo_spec 0 = 0 + k * Minute"
      "cronMatch demo_calendar demo_spec (0 + k * Minute)" "\<forall>j \<in> {1..<k}. \<not> cronMatch demo_calendar demo_spec (0 + j * Minute)"
    have "\<not> 3 < k" using k(4) m(1) by auto
    moreover have "k \<noteq> 1" "k \<noteq> 2" using k(3) m(2,3) by auto
    ultimately have "k = 3" using k(1) by auto
    with k(2) show ?thesis by simp
  next
    assume "\<forall>j \<in> {1..525600}. \<not> cronMatch demo_calendar demo_spec (0 + j * Minute)"
    then show ?thesis using m(1) by (auto dest: bspec [of _ _ 3])
  qed
qed

end
