(* ===== verification/Scheduler.thy ===== *)
theory Scheduler
  imports Cron
begin

text \<open>
  The scheduler's due pass, \<open>service/scheduler/{service_due,service_stale,service_runs,service_control,
  service_convert}.go\<close>: when a schedule is due, which runs are stale, and the pass \<open>RunDue\<close> that claims a
  schedule, cleans up, and starts at most one run for it.

  \<open>'w\<close> is the state of the outside world. The store, the clock, new ids, the semaphore, the start of the
  goroutine that executes a run and the cancelling of a conversation are functions on it (\<open>Service\<close>). An
  instant of 0 is Go's zero time. Schedules and runs have the columns the pass reads.
\<close>

section \<open>Data\<close>

type_synonym error = string

record ScheduleView =
  sc_Id :: string
  sc_AgentRef :: string
  sc_Enabled :: bool
  sc_ScheduleType :: string
  sc_TimeoutSeconds :: int
  sc_Timezone :: string
  sc_CreatedByUserId :: "string option"
  sc_UserCredUrl :: "string option"
  sc_StartAt :: "gotime option"
  sc_EndAt :: "gotime option"
  sc_CronExpr :: "string option"
  sc_IntervalSeconds :: "int option"
  sc_NextRunAt :: "gotime option"
  sc_LastRunAt :: "gotime option"
  sc_CreatedAt :: gotime
  sc_UpdatedAt :: "gotime option"

record RunView =
  rn_Id :: string
  rn_ScheduleId :: string
  rn_Status :: string
  rn_ConversationId :: "string option"
  rn_CreatedAt :: gotime
  rn_StartedAt :: "gotime option"
  rn_CompletedAt :: "gotime option"
  rn_ScheduledFor :: "gotime option"
  rn_LeaseUntil :: "gotime option"
  rn_ErrorMessage :: "string option"

text \<open>Sparse patches: \<open>None\<close> leaves a column alone, \<open>Some None\<close> sets it to NULL.\<close>

record SchedulePatch =
  sp_Id :: string
  sp_LastRunAt :: "gotime option"
  sp_LastStatus :: "string option"
  sp_LastError :: "string option option"
  sp_NextRunAt :: "gotime option option"

record RunPatch =
  rp_Id :: string
  rp_ScheduleID :: "string option"
  rp_ConversationKind :: "string option"
  rp_Status :: "string option"
  rp_ScheduledFor :: "gotime option"
  rp_CreatedAt :: "gotime option"
  rp_AgentID :: "string option"
  rp_EffectiveUserID :: "string option"
  rp_UserCredURL :: "string option"
  rp_CompletedAt :: "gotime option"
  rp_ErrorMessage :: "string option"

definition schedule_patch :: "string \<Rightarrow> SchedulePatch" where
  "schedule_patch opid = \<lparr>sp_Id = opid, sp_LastRunAt = None, sp_LastStatus = None, sp_LastError = None, sp_NextRunAt = None\<rparr>"

definition run_patch :: "string \<Rightarrow> RunPatch" where
  "run_patch opid = \<lparr>rp_Id = opid, rp_ScheduleID = None, rp_ConversationKind = None, rp_Status = None, rp_ScheduledFor = None,
     rp_CreatedAt = None, rp_AgentID = None, rp_EffectiveUserID = None, rp_UserCredURL = None, rp_CompletedAt = None, rp_ErrorMessage = None\<rparr>"

record 'w Store =
  st_ListForRunDue :: "'w \<Rightarrow> (error + ScheduleView option list) \<times> 'w"
  st_PatchSchedule :: "SchedulePatch \<Rightarrow> 'w \<Rightarrow> error option \<times> 'w"
  st_PatchRuns :: "RunPatch list \<Rightarrow> 'w \<Rightarrow> error option \<times> 'w"
  st_ListRunsForDue :: "string \<Rightarrow> gotime option \<Rightarrow> string list \<Rightarrow> 'w \<Rightarrow> (error + RunView option list) \<times> 'w"
  st_TryClaimSchedule :: "string \<Rightarrow> string \<Rightarrow> gotime \<Rightarrow> 'w \<Rightarrow> (error + bool) \<times> 'w"
  st_ReleaseScheduleLease :: "string \<Rightarrow> string \<Rightarrow> 'w \<Rightarrow> 'w"

record 'w Service =
  sv_store :: "'w Store option"
  sv_agent :: bool
  sv_leaseOwner :: string
  sv_leaseTTL :: duration
  sv_execSem :: bool
  sv_effectiveUser :: string
  sv_location :: "string \<Rightarrow> calendar"
  sv_Now :: "'w \<Rightarrow> gotime"
  sv_NewID :: "'w \<Rightarrow> string \<times> 'w"
  sv_acquire :: "'w \<Rightarrow> error option \<times> 'w"
  sv_launch :: "ScheduleView \<Rightarrow> string \<Rightarrow> gotime \<Rightarrow> 'w \<Rightarrow> 'w"
  sv_cancelConversation :: "string \<Rightarrow> string \<Rightarrow> 'w \<Rightarrow> 'w"
  sv_formatTime :: "gotime \<Rightarrow> string"
  sv_formatDuration :: "duration \<Rightarrow> string"
  sv_formatRounded :: "duration \<Rightarrow> string"

section \<open>Helpers\<close>

definition isSet :: "gotime option \<Rightarrow> bool" where
  "isSet t \<longleftrightarrow> (case t of None \<Rightarrow> False | Some x \<Rightarrow> x \<noteq> 0)"

definition valueOrEmpty :: "string option \<Rightarrow> string" where
  "valueOrEmpty v = (case v of None \<Rightarrow> [] | Some s \<Rightarrow> TrimSpace s)"

definition scheduleUserID :: "'w Service \<Rightarrow> ScheduleView \<Rightarrow> string" where
  "scheduleUserID s row =
     (let userID = TrimSpace (sv_effectiveUser s) in
      if userID \<noteq> [] then userID
      else case sc_CreatedByUserId row of
          None \<Rightarrow> ''system''
        | Some u \<Rightarrow> let owner = TrimSpace u in if owner \<noteq> [] then owner else ''system'')"

definition hasActiveRun :: "RunView list \<Rightarrow> bool" where
  "hasActiveRun runs \<longleftrightarrow> list_ex (\<lambda>r. \<not> isSet (rn_CompletedAt r)) runs"

definition findCompletedRunForSlot :: "RunView list \<Rightarrow> gotime \<Rightarrow> RunView option" where
  "findCompletedRunForSlot runs scheduledFor =
     find (\<lambda>r. \<not> (rn_ScheduledFor r = None \<or> \<not> isSet (rn_CompletedAt r)) \<and> rn_ScheduledFor r = Some scheduledFor) runs"

section \<open>When a schedule is due\<close>

definition truncateToMinute :: "calendar \<Rightarrow> gotime \<Rightarrow> gotime" where
  "truncateToMinute cal t = cal_Date cal (cal_Year cal t) (cal_Month cal t) (cal_Day cal t) (cal_Hour cal t) (cal_Minute cal t)"

definition nextCronAfter :: "calendar \<Rightarrow> cronSpec \<Rightarrow> gotime \<Rightarrow> gotime \<Rightarrow> gotime" where
  "nextCronAfter cal spec base now =
     (let nxt = cronNext cal spec (truncateToMinute cal base) in
      if nxt > now then nxt else cronNext cal spec (truncateToMinute cal now))"

text \<open>The division of durations truncates towards zero.\<close>

definition quot64 :: "int \<Rightarrow> int \<Rightarrow> int" where
  "quot64 a b = wrap64 (sgn a * sgn b * (\<bar>a\<bar> div \<bar>b\<bar>))"

definition nextIntervalAfter :: "gotime \<Rightarrow> duration \<Rightarrow> gotime \<Rightarrow> gotime" where
  "nextIntervalAfter base interval now =
     (let nxt = base + interval in
      if nxt > now then nxt
      else let elapsed = time_sub now base;
               steps = wrap64 (quot64 elapsed interval + 1);
               nxt = base + wrap64 (steps * interval)
           in if \<not> nxt > now then nxt + interval else nxt)"

definition scheduleRecomputeBase :: "gotime \<Rightarrow> ScheduleView \<Rightarrow> gotime" where
  "scheduleRecomputeBase now row =
     (case (sc_LastRunAt row, sc_UpdatedAt row) of
        (last', updated) \<Rightarrow>
          if isSet last' then the last'
          else if isSet updated then the updated
          else if sc_CreatedAt row \<noteq> 0 then sc_CreatedAt row
          else now)"

definition isCron :: "ScheduleView \<Rightarrow> bool" where
  "isCron row \<longleftrightarrow> EqualFold (TrimSpace (sc_ScheduleType row)) ''cron'' \<and> valueOrEmpty (sc_CronExpr row) \<noteq> []"

text \<open>The outcome of a computation of the pass: it may not return (\<open>None\<close>, in the cron parser), fail, or give a
  value.\<close>

definition parse_schedule :: "ScheduleView \<Rightarrow> (error + cronSpec) option" where
  "parse_schedule row =
     map_option (\<lambda>r. case r of Inl e \<Rightarrow> Inl (''invalid cron expr for schedule '' @ sc_Id row @ '': '' @ e) | Inr spec \<Rightarrow> Inr spec)
       (parseCron (valueOrEmpty (sc_CronExpr row)))"

definition store_next :: "'w Store \<Rightarrow> ScheduleView \<Rightarrow> gotime \<Rightarrow> 'w \<Rightarrow> (error + bool \<times> gotime) \<times> 'w" where
  "store_next st row nxt w =
     (case st_PatchSchedule st ((schedule_patch (sc_Id row))\<lparr>sp_NextRunAt := Some (Some nxt)\<rparr>) w of
        (Some e, w') \<Rightarrow> (Inl e, w')
      | (None, w') \<Rightarrow> (Inr (False, nxt), w'))"

definition isDue :: "'w Service \<Rightarrow> 'w Store \<Rightarrow> ScheduleView \<Rightarrow> gotime \<Rightarrow> 'w \<Rightarrow> ((error + bool \<times> gotime) \<times> 'w) option" where
  "isDue s st row now w =
     (if (case sc_StartAt row of None \<Rightarrow> False | Some t \<Rightarrow> now < t) then Some (Inr (False, now), w)
      else if (case sc_EndAt row of None \<Rightarrow> False | Some t \<Rightarrow> \<not> now < t) then Some (Inr (False, now), w)
      else if isCron row then
        (case parse_schedule row of
           None \<Rightarrow> None
         | Some (Inl e) \<Rightarrow> Some (Inl e, w)
         | Some (Inr spec) \<Rightarrow>
             if \<not> isSet (sc_NextRunAt row)
             then Some (store_next st row
               (nextCronAfter (sv_location s (TrimSpace (sc_Timezone row))) spec (scheduleRecomputeBase (sv_Now s w) row) now) w)
             else Some (Inr (\<not> now < the (sc_NextRunAt row), the (sc_NextRunAt row)), w))
      else if isSet (sc_NextRunAt row) then Some (Inr (\<not> now < the (sc_NextRunAt row), the (sc_NextRunAt row)), w)
      else case sc_IntervalSeconds row of
          Some secs \<Rightarrow>
            let interval = wrap64 (secs * Second) in
            if interval \<le> 0 then Some (Inr (False, now), w)
            else Some (store_next st row (nextIntervalAfter (scheduleRecomputeBase (sv_Now s w) row) interval now) w)
        | None \<Rightarrow> Some (Inr (False, now), w))"

section \<open>Stale runs\<close>

definition defaultRunStartTimeout :: duration where "defaultRunStartTimeout = 2 * Minute"
definition defaultStaleRunTimeout :: duration where "defaultStaleRunTimeout = 20 * Minute"
definition staleRunGrace :: duration where "staleRunGrace = 15 * Second"

record staleRunDetails =
  sd_Cause :: string
  sd_RunStart :: gotime
  sd_Timeout :: duration
  sd_LeaseUntil :: gotime
  sd_Deadline :: gotime
  sd_DetectedAt :: gotime
  sd_RunAge :: duration
  sd_OverdueBy :: duration

definition maxDuration :: "duration \<Rightarrow> duration \<Rightarrow> duration" where
  "maxDuration a b = (if a > b then a else b)"

text \<open>\<open>Duration.Round(time.Second)\<close> is part of \<open>formatRounded\<close>.\<close>

definition stale_message :: "(gotime \<Rightarrow> string) \<Rightarrow> (duration \<Rightarrow> string) \<Rightarrow> (duration \<Rightarrow> string) \<Rightarrow> staleRunDetails \<Rightarrow> string \<Rightarrow> string" where
  "stale_message formatTime formatDuration formatRounded d status0 =
     (let status = TrimSpace status0;
          tail' = '' grace='' @ formatDuration staleRunGrace @ '' detected_at='' @ formatTime (sd_DetectedAt d) @
            '' run_age='' @ formatRounded (sd_RunAge d) @ '' overdue_by='' @ formatRounded (sd_OverdueBy d);
          start = '' status='' @ status @ '' run_start='' @ formatTime (sd_RunStart d) @ '' timeout='' @ formatDuration (sd_Timeout d)
      in if sd_Cause d = ''lease_expired''
         then ''stale scheduled run detected: cause='' @ sd_Cause d @ start @ '' lease_until='' @ formatTime (sd_LeaseUntil d) @ tail'
         else if sd_Cause d = ''timeout_exceeded''
         then ''stale scheduled run detected: cause='' @ sd_Cause d @ start @ '' deadline='' @ formatTime (sd_Deadline d) @ tail'
         else ''stale scheduled run detected: cause=unknown'' @ start @ '' detected_at='' @ formatTime (sd_DetectedAt d) @
           '' run_age='' @ formatRounded (sd_RunAge d))"

definition isStaleRun :: "ScheduleView \<Rightarrow> RunView \<Rightarrow> gotime \<Rightarrow> (staleRunDetails \<times> bool) option" where
  "isStaleRun row run now =
     (if isSet (rn_CompletedAt run) then None
      else let runStart = (if isSet (rn_StartedAt run) then the (rn_StartedAt run) else rn_CreatedAt run) in
        if runStart = 0 then None
        else let timeout = (if sc_TimeoutSeconds row > 0 then wrap64 (sc_TimeoutSeconds row * Second) else defaultStaleRunTimeout);
                 d = \<lparr>sd_Cause = ''timeout_exceeded'', sd_RunStart = runStart, sd_Timeout = timeout, sd_LeaseUntil = 0,
                      sd_Deadline = 0, sd_DetectedAt = now, sd_RunAge = time_sub now runStart, sd_OverdueBy = 0\<rparr>
             in if isSet (rn_LeaseUntil run)
                then let leaseUntil = the (rn_LeaseUntil run); staleAfter = leaseUntil + staleRunGrace
                     in Some (d\<lparr>sd_Cause := ''lease_expired'', sd_LeaseUntil := leaseUntil,
                          sd_OverdueBy := maxDuration 0 (time_sub now staleAfter)\<rparr>, now > staleAfter)
                else let deadline = runStart + timeout; staleAfter = deadline + staleRunGrace
                     in Some (d\<lparr>sd_Deadline := deadline, sd_OverdueBy := maxDuration 0 (time_sub now staleAfter)\<rparr>, now > staleAfter))"

definition staleActiveRunReason :: "'w Service \<Rightarrow> ScheduleView \<Rightarrow> RunView \<Rightarrow> gotime \<Rightarrow> string option" where
  "staleActiveRunReason s row run now =
     (case isStaleRun row run now of
        Some (details, True) \<Rightarrow>
          Some (stale_message (sv_formatTime s) (sv_formatDuration s) (sv_formatRounded s) details (valueOrEmpty (Some (rn_Status run))))
      | _ \<Rightarrow> None)"

definition stalePendingRunReason :: "'w Service \<Rightarrow> ScheduleView \<Rightarrow> RunView \<Rightarrow> gotime \<Rightarrow> string option" where
  "stalePendingRunReason s row run now =
     (if \<not> EqualFold (TrimSpace (rn_Status run)) ''pending'' \<or> isSet (rn_CompletedAt run) then None
      else if isSet (rn_StartedAt run) then None
      else if valueOrEmpty (rn_ConversationId run) \<noteq> [] \<or> rn_CreatedAt run = 0 then None
      else if isSet (rn_ScheduledFor run) \<and> \<not> the (rn_ScheduledFor run) < now then None
      else let staleAfter0 = (if sc_TimeoutSeconds row > 0 then wrap64 (sc_TimeoutSeconds row * Second) else defaultRunStartTimeout);
               staleAfter1 = (if staleAfter0 < 3 * Minute then 3 * Minute else staleAfter0);
               leaseWindow = wrap64 (sv_leaseTTL s * 3);
               staleAfter2 = (if leaseWindow > staleAfter1 then leaseWindow else staleAfter1);
               staleAfter = wrap64 (staleAfter2 + staleRunGrace);
               age = time_sub now (rn_CreatedAt run)
           in if age < staleAfter then None
              else Some (''stale pending run detected: pending without conversation/start for '' @ sv_formatRounded s age))"

section \<open>The due pass\<close>

definition setNextRunAt :: "'w Service \<Rightarrow> ScheduleView \<Rightarrow> SchedulePatch \<Rightarrow> gotime \<Rightarrow> (error + SchedulePatch) option" where
  "setNextRunAt s row mut now =
     (if isCron row then
        map_option (\<lambda>r. case r of
            Inl e \<Rightarrow> Inl e
          | Inr spec \<Rightarrow> Inr (mut\<lparr>sp_NextRunAt :=
              Some (Some (nextCronAfter (sv_location s (TrimSpace (sc_Timezone row))) spec now now))\<rparr>)) (parse_schedule row)
      else case sc_IntervalSeconds row of
          Some secs \<Rightarrow> Some (Inr (mut\<lparr>sp_NextRunAt := Some (Some (now + wrap64 (secs * Second)))\<rparr>))
        | None \<Rightarrow>
            if EqualFold (TrimSpace (sc_ScheduleType row)) ''adhoc''
            then Some (Inr (mut\<lparr>sp_NextRunAt := Some None\<rparr>)) else Some (Inr mut))"

definition result_patch :: "ScheduleView \<Rightarrow> string \<Rightarrow> string \<Rightarrow> gotime option \<Rightarrow> SchedulePatch" where
  "result_patch row lastStatus lastError lastRunAt =
     (let m0 = schedule_patch (sc_Id row);
          m1 = (if isSet lastRunAt then m0\<lparr>sp_LastRunAt := lastRunAt\<rparr> else m0);
          m2 = (if TrimSpace lastStatus \<noteq> []
                then let m = m1\<lparr>sp_LastStatus := Some (TrimSpace lastStatus)\<rparr>
                     in if EqualFold (TrimSpace lastStatus) ''succeeded'' \<and> TrimSpace lastError = []
                        then m\<lparr>sp_LastError := Some None\<rparr> else m
                else m1)
      in if TrimSpace lastError \<noteq> [] then m2\<lparr>sp_LastError := Some (Some (TrimSpace lastError))\<rparr> else m2)"

definition patchScheduleResult ::
  "'w Service \<Rightarrow> 'w Store \<Rightarrow> ScheduleView \<Rightarrow> string \<Rightarrow> string \<Rightarrow> gotime option \<Rightarrow> bool \<Rightarrow> gotime \<Rightarrow> 'w \<Rightarrow> (error option \<times> 'w) option" where
  "patchScheduleResult s st row lastStatus lastError lastRunAt updateNext now w =
     (let mut = result_patch row lastStatus lastError lastRunAt in
      case (if updateNext then setNextRunAt s row mut now else Some (Inr mut)) of
        None \<Rightarrow> None
      | Some (Inl e) \<Rightarrow> Some (Some e, w)
      | Some (Inr mut') \<Rightarrow> Some (st_PatchSchedule st mut' w))"

definition failedRunCopy :: "RunView \<Rightarrow> string \<Rightarrow> gotime \<Rightarrow> RunView" where
  "failedRunCopy run reason now =
     (let c = run\<lparr>rn_Status := ''failed'', rn_CompletedAt := Some now\<rparr> in
      if TrimSpace reason \<noteq> [] then c\<lparr>rn_ErrorMessage := Some (TrimSpace reason)\<rparr> else c)"

definition fail_patch :: "RunView \<Rightarrow> string \<Rightarrow> gotime \<Rightarrow> RunPatch" where
  "fail_patch run reason now =
     (let p = (run_patch (rn_Id run))\<lparr>rp_Status := Some ''failed'', rp_CompletedAt := Some now\<rparr> in
      if TrimSpace reason \<noteq> [] then p\<lparr>rp_ErrorMessage := Some reason\<rparr> else p)"

definition failStaleRun :: "'w Service \<Rightarrow> 'w Store \<Rightarrow> ScheduleView \<Rightarrow> RunView \<Rightarrow> string \<Rightarrow> gotime \<Rightarrow> 'w \<Rightarrow> (error option \<times> 'w) option" where
  "failStaleRun s st row run reason now w =
     (case st_PatchRuns st [fail_patch run reason now] w of
        (Some e, w1) \<Rightarrow> Some (Some (''patch stale run '' @ rn_Id run @ '': '' @ e), w1)
      | (None, w1) \<Rightarrow>
          let conversationID = valueOrEmpty (rn_ConversationId run);
              w2 = (if conversationID \<noteq> [] then sv_cancelConversation s conversationID ''canceled'' w1 else w1);
              lastRunAt = (if isSet (rn_CompletedAt run) then the (rn_CompletedAt run) else now)
          in map_option (\<lambda>r. (None, snd r)) (patchScheduleResult s st row ''failed'' reason (Some lastRunAt) False now w2))"

definition stale_reason :: "'w Service \<Rightarrow> ScheduleView \<Rightarrow> RunView \<Rightarrow> gotime \<Rightarrow> string option" where
  "stale_reason s row run now =
     (case stalePendingRunReason s row run now of Some r \<Rightarrow> Some r | None \<Rightarrow> staleActiveRunReason s row run now)"

fun cleanupStaleRuns :: "'w Service \<Rightarrow> 'w Store \<Rightarrow> ScheduleView \<Rightarrow> RunView list \<Rightarrow> gotime \<Rightarrow> 'w \<Rightarrow> ((error + RunView list) \<times> 'w) option" where
  "cleanupStaleRuns s st row [] now w = Some (Inr [], w)"
| "cleanupStaleRuns s st row (run # runs) now w =
     (case stale_reason s row run now of
        Some reason \<Rightarrow>
          (case failStaleRun s st row run reason now w of
             None \<Rightarrow> None
           | Some (Some e, w') \<Rightarrow> Some (Inl e, w')
           | Some (None, w') \<Rightarrow>
               (case cleanupStaleRuns s st row runs now w' of
                  Some (Inr rest, w'') \<Rightarrow> Some (Inr (failedRunCopy run reason now # rest), w'')
                | r \<Rightarrow> r))
      | None \<Rightarrow>
          (case cleanupStaleRuns s st row runs now w of
             Some (Inr rest, w'') \<Rightarrow> Some (Inr (run # rest), w'')
           | r \<Rightarrow> r))"

text \<open>The closure \<open>add\<close> of \<open>getRunsForDueCheck\<close>: items with a blank or a seen id are skipped.\<close>

fun add_runs :: "RunView option list \<Rightarrow> string list \<times> RunView list \<Rightarrow> string list \<times> RunView list" where
  "add_runs [] acc = acc"
| "add_runs (None # items) acc = add_runs items acc"
| "add_runs (Some item # items) (seen, runs) =
     (let opid = TrimSpace (rn_Id item) in
      if opid = [] \<or> opid \<in> set seen then add_runs items (seen, runs)
      else add_runs items (opid # seen, runs @ [item]))"

definition done_statuses :: "string list" where
  "done_statuses = [''succeeded'', ''failed'', ''skipped'', ''canceled'']"

definition getRunsForDueCheck :: "'w Store \<Rightarrow> string \<Rightarrow> gotime \<Rightarrow> bool \<Rightarrow> 'w \<Rightarrow> (error + RunView list) \<times> 'w" where
  "getRunsForDueCheck st scheduleID scheduledFor includeScheduledSlot w =
     (let (r1, w1) =
        (if includeScheduledSlot
         then (case st_ListRunsForDue st scheduleID (Some scheduledFor) [] w of
             (Inl e, w') \<Rightarrow> (Inl e, w')
           | (Inr slotRuns, w') \<Rightarrow> (Inr (add_runs slotRuns ([], [])), w'))
         else (Inr ([], []), w))
      in case r1 of
          Inl e \<Rightarrow> (Inl e, w1)
        | Inr acc \<Rightarrow>
            (case st_ListRunsForDue st scheduleID None done_statuses w1 of
               (Inl e, w2) \<Rightarrow> (Inl e, w2)
             | (Inr activeRuns, w2) \<Rightarrow> (Inr (snd (add_runs activeRuns acc)), w2)))"

definition new_run :: "'w Service \<Rightarrow> ScheduleView \<Rightarrow> string \<Rightarrow> gotime \<Rightarrow> gotime \<Rightarrow> RunPatch" where
  "new_run s row runID scheduledFor now =
     (let p0 = (run_patch runID)\<lparr>rp_ScheduleID := Some (sc_Id row), rp_ConversationKind := Some ''scheduled'',
            rp_Status := Some ''pending'', rp_ScheduledFor := Some scheduledFor, rp_CreatedAt := Some now,
            rp_AgentID := Some (TrimSpace (sc_AgentRef row))\<rparr>;
          userID = scheduleUserID s row;
          p1 = (if userID \<noteq> [] then p0\<lparr>rp_EffectiveUserID := Some userID\<rparr> else p0);
          cred = valueOrEmpty (sc_UserCredUrl row)
      in if cred \<noteq> [] then p1\<lparr>rp_UserCredURL := Some cred\<rparr> else p1)"

definition enqueueAndLaunch ::
  "'w Service \<Rightarrow> 'w Store \<Rightarrow> ScheduleView \<Rightarrow> gotime \<Rightarrow> bool \<Rightarrow> 'w \<Rightarrow> (error option \<times> 'w) option" where
  "enqueueAndLaunch s st row scheduledFor advanceNext w =
     (let (runID, w0) = sv_NewID s w; now = sv_Now s w0 in
      case st_PatchRuns st [new_run s row runID scheduledFor now] w0 of
        (Some e, w1) \<Rightarrow> Some (Some e, w1)
      | (None, w1) \<Rightarrow>
          (case (if advanceNext then patchScheduleResult s st row [] [] None True now w1 else Some (None, w1)) of
             None \<Rightarrow> None
           | Some (Some e, w2) \<Rightarrow> Some (Some e, w2)
           | Some (None, w2) \<Rightarrow>
               (case (if sv_execSem s then sv_acquire s w2 else (None, w2)) of
                  (Some e, w3) \<Rightarrow> Some (Some e, w3)
                | (None, w3) \<Rightarrow> Some (None, sv_launch s row runID scheduledFor w3))))"

text \<open>What the pass does for a schedule it has claimed (the inner function of \<open>RunDue\<close>): an error, or whether it
  started a run.\<close>

definition claimed_pass ::
  "'w Service \<Rightarrow> 'w Store \<Rightarrow> ScheduleView \<Rightarrow> gotime \<Rightarrow> bool \<Rightarrow> gotime \<Rightarrow> bool \<Rightarrow> 'w \<Rightarrow> ((error + bool) \<times> 'w) option" where
  "claimed_pass s st row now due scheduledFor includeSlot w =
     (case getRunsForDueCheck st (sc_Id row) scheduledFor includeSlot w of
        (Inl e, w1) \<Rightarrow> Some (Inl e, w1)
      | (Inr runs0, w1) \<Rightarrow>
          (case cleanupStaleRuns s st row runs0 now w1 of
             None \<Rightarrow> None
           | Some (Inl e, w2) \<Rightarrow> Some (Inl e, w2)
           | Some (Inr runs, w2) \<Rightarrow>
               if \<not> sc_Enabled row \<or> \<not> due then Some (Inr False, w2)
               else case findCompletedRunForSlot runs scheduledFor of
                   Some terminal \<Rightarrow>
                     let lastRunAt = (if isSet (rn_CompletedAt terminal) then the (rn_CompletedAt terminal) else scheduledFor)
                     in map_option (\<lambda>r. (Inr False, snd r))
                          (patchScheduleResult s st row (rn_Status terminal) (valueOrEmpty (rn_ErrorMessage terminal)) (Some lastRunAt) True now w2)
                 | None \<Rightarrow>
                     if hasActiveRun runs then Some (Inr False, w2)
                     else map_option (\<lambda>r. case r of (Some e, w3) \<Rightarrow> (Inl e, w3) | (None, w3) \<Rightarrow> (Inr True, w3))
                            (enqueueAndLaunch s st row scheduledFor True w2)))"

definition due_row :: "'w Service \<Rightarrow> 'w Store \<Rightarrow> ScheduleView \<Rightarrow> 'w \<Rightarrow> ((error + bool) \<times> 'w) option" where
  "due_row s st row w =
     (let now = sv_Now s w in
      case (if sc_Enabled row then isDue s st row now w else Some (Inr (False, now), w)) of
        None \<Rightarrow> None
      | Some (Inl e, w1) \<Rightarrow> Some (Inl e, w1)
      | Some (Inr (due, scheduledFor), w1) \<Rightarrow>
          let includeSlot = (sc_Enabled row \<and> due \<and> isSet (sc_NextRunAt row)) in
          (case getRunsForDueCheck st (sc_Id row) scheduledFor includeSlot w1 of
             (Inl e, w2) \<Rightarrow> Some (Inl e, w2)
           | (Inr runs, w2) \<Rightarrow>
               if runs = [] \<and> (\<not> sc_Enabled row \<or> \<not> due) then Some (Inr False, w2)
               else (case st_TryClaimSchedule st (sc_Id row) (sv_leaseOwner s) (now + sv_leaseTTL s) w2 of
                   (Inl e, w3) \<Rightarrow> Some (Inl e, w3)
                 | (Inr False, w3) \<Rightarrow> Some (Inr False, w3)
                 | (Inr True, w3) \<Rightarrow>
                     map_option (\<lambda>(r, w4). (r, st_ReleaseScheduleLease st (sc_Id row) (sv_leaseOwner s) w4))
                       (claimed_pass s st row now due scheduledFor includeSlot w3))))"

fun due_rows :: "'w Service \<Rightarrow> 'w Store \<Rightarrow> ScheduleView option list \<Rightarrow> nat \<Rightarrow> 'w \<Rightarrow> ((nat \<times> error option) \<times> 'w) option" where
  "due_rows s st [] started w = Some ((started, None), w)"
| "due_rows s st (None # rows) started w = due_rows s st rows started w"
| "due_rows s st (Some row # rows) started w =
     (case due_row s st row w of
        None \<Rightarrow> None
      | Some (Inl e, w') \<Rightarrow> Some ((started, Some e), w')
      | Some (Inr b, w') \<Rightarrow> due_rows s st rows (if b then Suc started else started) w')"

definition RunDue :: "'w Service option \<Rightarrow> 'w \<Rightarrow> ((nat \<times> error option) \<times> 'w) option" where
  "RunDue srv w =
     (case srv of None \<Rightarrow> Some ((0, Some ''scheduler service not initialized''), w)
      | Some s \<Rightarrow>
        (case sv_store s of None \<Rightarrow> Some ((0, Some ''scheduler service not initialized''), w)
         | Some st \<Rightarrow>
             if \<not> sv_agent s then Some ((0, Some ''scheduler service not initialized''), w)
             else (case st_ListForRunDue st w of
                 (Inl e, w') \<Rightarrow> Some ((0, Some e), w')
               | (Inr rows, w') \<Rightarrow> due_rows s st rows 0 w')))"

section \<open>The next run\<close>

text \<open>The next run of an interval schedule is the first instant after now on the grid of the interval from its
  base, as long as the elapsed time and the interval stay within 64 bits.\<close>

theorem nextIntervalAfter_spec:
  assumes "0 < interval" "minInt64 \<le> now - base" "now - base + interval \<le> maxInt64" "interval \<le> maxInt64"
  shows "\<exists>k \<ge> 1. nextIntervalAfter base interval now = base + k * interval \<and> base + k * interval > now \<and>
     (k = 1 \<or> base + (k - 1) * interval \<le> now)"
proof (cases "base + interval > now")
  case True
  then show ?thesis by (intro exI [of _ 1]) (simp add: nextIntervalAfter_def)
next
  case False
  let ?q = "(now - base) div interval"
  have e: "time_sub now base = now - base" using assms by (simp add: time_sub_def)
  have "0 < ?q" using False pos_imp_zdiv_pos_iff [OF assms(1), of "now - base"] by simp
  then have q: "1 \<le> ?q" by simp
  have dm: "?q * interval + (now - base) mod interval = now - base" by (rule div_mult_mod_eq)
  have ge: "?q * interval \<le> now - base" using dm pos_mod_sign [OF assms(1), of "now - base"] by linarith
  have "(?q + 1) * interval = ?q * interval + interval" by (simp add: algebra_simps)
  then have qi: "?q * interval \<le> now - base" "now - base < (?q + 1) * interval"
    using dm ge pos_mod_bound [OF assms(1), of "now - base"] by linarith+
  have "?q * 1 \<le> ?q * interval" using q assms(1) by (intro mult_left_mono) simp_all
  then have "?q \<le> now - base" using ge by linarith
  then have w: "wrap64 ?q = ?q" "wrap64 (?q + 1) = ?q + 1" using q assms by (intro wrap64_id; linarith)+
  have "sgn (now - base) * sgn interval * (\<bar>now - base\<bar> div \<bar>interval\<bar>) = ?q"
    using False assms(1) by simp
  then have steps: "wrap64 (quot64 (now - base) interval + 1) = ?q + 1" by (simp add: quot64_def w)
  have "(?q + 1) * interval \<le> maxInt64" using qi(1) assms(3) by (simp add: algebra_simps)
  moreover have "0 \<le> (?q + 1) * interval" using q assms(1) by simp
  ultimately have m: "wrap64 ((?q + 1) * interval) = (?q + 1) * interval" by (intro wrap64_id) simp_all
  have "nextIntervalAfter base interval now = base + (?q + 1) * interval"
    using False qi(2) by (simp add: nextIntervalAfter_def Let_def e steps m)
  then show ?thesis using q qi by (intro exI [of _ "?q + 1"]) simp
qed

text \<open>The next run of a cron schedule is after now and, if any of the year's minutes from the base or from now
  matches, it matches the expression. It is assumed that truncating an instant to its minute goes back by
  less than a minute.\<close>

theorem nextCronAfter_spec:
  assumes "\<And>t. truncateToMinute cal t \<le> t \<and> t < truncateToMinute cal t + Minute"
  shows "nextCronAfter cal spec base now > now \<and>
    (cronMatch cal spec (nextCronAfter cal spec base now) \<or>
     (\<exists>t \<in> {base, now}. \<forall>j \<in> {1..525600}. \<not> cronMatch cal spec (truncateToMinute cal t + j * Minute)))"
proof -
  have nxt: "cronNext cal spec (truncateToMinute cal t) > t \<and>
     (cronMatch cal spec (cronNext cal spec (truncateToMinute cal t)) \<or>
      (\<forall>j \<in> {1..525600}. \<not> cronMatch cal spec (truncateToMinute cal t + j * Minute)))" for t
    using cronNext_later [of "truncateToMinute cal t" cal spec] assms [of t] by auto
  from nxt [of base] nxt [of now] show ?thesis by (auto simp: nextCronAfter_def Let_def)
qed

lemma demo_truncates: "truncateToMinute demo_calendar t \<le> t \<and> t < truncateToMinute demo_calendar t + Minute"
proof -
  have M: "0 < Minute" by (simp add: Minute_def Second_def)
  have "truncateToMinute demo_calendar t =
      ((t div Minute div 60 div 24 * 24 + t div Minute div 60 mod 24) * 60 + t div Minute mod 60) * Minute"
    by (simp only: truncateToMinute_def demo_calendar_def calendar.simps add_diff_cancel_right')
  also have "t div Minute div 60 div 24 * 24 + t div Minute div 60 mod 24 = t div Minute div 60" by (rule div_mult_mod_eq)
  also have "t div Minute div 60 * 60 + t div Minute mod 60 = t div Minute" by (rule div_mult_mod_eq)
  finally have "truncateToMinute demo_calendar t = t div Minute * Minute" .
  then show ?thesis
    using div_mult_mod_eq [of t Minute] pos_mod_sign [OF M, of t] pos_mod_bound [OF M, of t] by linarith
qed

end
