(* ===== verification/SchedulerRuns.thy ===== *)
theory SchedulerRuns
  imports Scheduler
begin

text \<open>
  The promise of the due pass: whatever happens, a pass never leaves a schedule with two unfinished runs.
  \<open>run_store\<close> states what the pass relies on of the store and the other services, over the abstract
  view \<open>runs\<close> of the runs in the store.
\<close>

section \<open>What the pass relies on\<close>

definition upd :: "'a option \<Rightarrow> 'a \<Rightarrow> 'a" where
  "upd v old = (case v of None \<Rightarrow> old | Some x \<Rightarrow> x)"

definition apply_patch :: "RunPatch \<Rightarrow> RunView \<Rightarrow> RunView" where
  "apply_patch p r = r\<lparr>rn_ScheduleId := upd (rp_ScheduleID p) (rn_ScheduleId r), rn_Status := upd (rp_Status p) (rn_Status r),
     rn_CreatedAt := upd (rp_CreatedAt p) (rn_CreatedAt r), rn_CompletedAt := upd (map_option Some (rp_CompletedAt p)) (rn_CompletedAt r),
     rn_ScheduledFor := upd (map_option Some (rp_ScheduledFor p)) (rn_ScheduledFor r),
     rn_ErrorMessage := upd (map_option Some (rp_ErrorMessage p)) (rn_ErrorMessage r)\<rparr>"

definition blank_run :: "string \<Rightarrow> RunView" where
  "blank_run opid = \<lparr>rn_Id = opid, rn_ScheduleId = [], rn_Status = [], rn_ConversationId = None, rn_CreatedAt = 0, rn_StartedAt = None,
     rn_CompletedAt = None, rn_ScheduledFor = None, rn_LeaseUntil = None, rn_ErrorMessage = None\<rparr>"

text \<open>A patch changes the run with its id, or inserts it.\<close>

definition patch_runs :: "RunPatch \<Rightarrow> RunView list \<Rightarrow> RunView list" where
  "patch_runs p rs =
     (if rp_Id p \<in> rn_Id ` set rs then map (\<lambda>r. if rn_Id r = rp_Id p then apply_patch p r else r) rs
      else rs @ [apply_patch p (blank_run (rp_Id p))])"

definition unfinished :: "RunView \<Rightarrow> bool" where
  "unfinished r \<longleftrightarrow> rn_Status r \<notin> set done_statuses \<and> \<not> isSet (rn_CompletedAt r)"

definition live :: "RunView list \<Rightarrow> string \<Rightarrow> string set" where
  "live rs sid = {rn_Id r | r. r \<in> set rs \<and> rn_ScheduleId r = sid \<and> unfinished r}"

text \<open>Run ids are distinct and not blank.\<close>

definition ids_ok :: "RunView list \<Rightarrow> bool" where
  "ids_ok rs \<longleftrightarrow> distinct (map (TrimSpace \<circ> rn_Id) rs) \<and> [] \<notin> set (map (TrimSpace \<circ> rn_Id) rs)"

text \<open>An operation that creates no run and does not reopen one.\<close>

definition quiet :: "RunView list \<Rightarrow> RunView list \<Rightarrow> bool" where
  "quiet rs rs' \<longleftrightarrow> map rn_Id rs' = map rn_Id rs \<and> (\<forall>sid. live rs' sid \<subseteq> live rs sid)"

definition listed :: "RunView list \<Rightarrow> string \<Rightarrow> gotime option \<Rightarrow> string list \<Rightarrow> RunView set" where
  "listed rs sid slot excluded =
     {r \<in> set rs. rn_ScheduleId r = sid \<and> (slot = None \<or> rn_ScheduledFor r = slot) \<and> rn_Status r \<notin> set excluded}"

text \<open>The list of runs has every row that matches. The store asks the reader for them without a limit of its own
  (\<open>listRunsForDueNative\<close> gives no selectors), so a schedule has fewer such rows than a default page of the
  reader, which is configured outside the repository.\<close>

definition run_store :: "'w Service \<Rightarrow> 'w Store \<Rightarrow> ('w \<Rightarrow> RunView list) \<Rightarrow> bool" where
  "run_store s st runs \<longleftrightarrow>
     (\<forall>sid slot excluded w. case st_ListRunsForDue st sid slot excluded w of
        (Inl e, w') \<Rightarrow> runs w' = runs w
      | (Inr rows, w') \<Rightarrow> runs w' = runs w \<and> set rows = Some ` listed (runs w) sid slot excluded) \<and>
     (\<forall>p w. case st_PatchRuns st [p] w of
        (None, w') \<Rightarrow> runs w' = patch_runs p (runs w)
      | (Some e, w') \<Rightarrow> runs w' = runs w) \<and>
     (\<forall>w. case sv_NewID s w of (opid, w') \<Rightarrow>
        runs w' = runs w \<and> TrimSpace opid \<noteq> [] \<and> TrimSpace opid \<notin> TrimSpace ` rn_Id ` set (runs w)) \<and>
     (\<forall>p w. quiet (runs w) (runs (snd (st_PatchSchedule st p w)))) \<and>
     (\<forall>a b t w. quiet (runs w) (runs (snd (st_TryClaimSchedule st a b t w)))) \<and>
     (\<forall>a b w. quiet (runs w) (runs (st_ReleaseScheduleLease st a b w))) \<and>
     (\<forall>w. quiet (runs w) (runs (snd (st_ListForRunDue st w)))) \<and>
     (\<forall>w. quiet (runs w) (runs (snd (sv_acquire s w)))) \<and>
     (\<forall>row opid t w. quiet (runs w) (runs (sv_launch s row opid t w))) \<and>
     (\<forall>a b w. quiet (runs w) (runs (sv_cancelConversation s a b w)))"

definition one_live :: "RunView list \<Rightarrow> bool" where
  "one_live rs \<longleftrightarrow> (\<forall>sid. \<exists>x. live rs sid \<subseteq> {x})"

section \<open>Lemmas on runs\<close>

lemma quiet_refl [simp]: "quiet rs rs"
  by (simp add: quiet_def)

lemma quiet_trans: "quiet a b \<Longrightarrow> quiet b c \<Longrightarrow> quiet a c"
  unfolding quiet_def by (metis order_trans)

lemma quiet_ids: "quiet a b \<Longrightarrow> ids_ok a \<Longrightarrow> ids_ok b"
  unfolding quiet_def ids_ok_def by (metis list.map_comp)

lemma quiet_live: "quiet a b \<Longrightarrow> live b sid \<subseteq> live a sid"
  by (simp add: quiet_def)

lemma quiet_one_live: "quiet a b \<Longrightarrow> one_live a \<Longrightarrow> one_live b"
  unfolding quiet_def one_live_def by (meson order_trans)

lemma fail_patch_fields [simp]:
  "rp_Id (fail_patch run reason now) = rn_Id run" "rp_Status (fail_patch run reason now) = Some ''failed''"
  "rp_ScheduleID (fail_patch run reason now) = None" "rp_CompletedAt (fail_patch run reason now) = Some now"
  by (simp_all add: fail_patch_def run_patch_def Let_def)

lemma apply_patch_fields [simp]:
  "rn_Id (apply_patch p r) = rn_Id r" "rn_Status (apply_patch p r) = upd (rp_Status p) (rn_Status r)"
  "rn_ScheduleId (apply_patch p r) = upd (rp_ScheduleID p) (rn_ScheduleId r)"
  "rn_CompletedAt (apply_patch p r) = upd (map_option Some (rp_CompletedAt p)) (rn_CompletedAt r)"
  by (simp_all add: apply_patch_def)

text \<open>Marking an existing run as failed takes it out of the live runs.\<close>

lemma patch_runs_failed:
  assumes "rn_Id run \<in> rn_Id ` set rs"
  shows "map rn_Id (patch_runs (fail_patch run reason now) rs) = map rn_Id rs"
    "live (patch_runs (fail_patch run reason now) rs) sid \<subseteq> live rs sid - {rn_Id run}"
proof -
  have p: "patch_runs (fail_patch run reason now) rs =
      map (\<lambda>r. if rn_Id r = rn_Id run then apply_patch (fail_patch run reason now) r else r) rs"
    using assms by (simp add: patch_runs_def)
  show "map rn_Id (patch_runs (fail_patch run reason now) rs) = map rn_Id rs" by (simp add: p)
  show "live (patch_runs (fail_patch run reason now) rs) sid \<subseteq> live rs sid - {rn_Id run}"
    by (auto simp: p live_def unfinished_def upd_def done_statuses_def split: if_splits)
qed

lemma new_run_fields [simp]:
  "rp_Id (new_run s row opid slot now) = opid" "rp_ScheduleID (new_run s row opid slot now) = Some (sc_Id row)"
  by (simp_all add: new_run_def run_patch_def Let_def)

lemma patch_runs_new:
  assumes "TrimSpace opid \<notin> TrimSpace ` rn_Id ` set rs" "TrimSpace opid \<noteq> []" "ids_ok rs"
  shows "ids_ok (patch_runs (new_run s row opid slot now) rs)"
    "live (patch_runs (new_run s row opid slot now) rs) sid \<subseteq> live rs sid \<union> (if sid = sc_Id row then {opid} else {})"
proof -
  have p: "patch_runs (new_run s row opid slot now) rs = rs @ [apply_patch (new_run s row opid slot now) (blank_run opid)]"
    using assms(1) by (auto simp: patch_runs_def)
  have b: "rn_Id (blank_run opid) = opid" by (simp add: blank_run_def)
  show "ids_ok (patch_runs (new_run s row opid slot now) rs)"
    using assms by (auto simp: p ids_ok_def b image_iff)
  show "live (patch_runs (new_run s row opid slot now) rs) sid \<subseteq> live rs sid \<union> (if sid = sc_Id row then {opid} else {})"
    by (auto simp: p live_def b upd_def)
qed

section \<open>The contract, law by law\<close>

lemma run_store_list:
  assumes "run_store s st runs"
  shows "st_ListRunsForDue st sid slot excluded w = (Inl e, w') \<Longrightarrow> runs w' = runs w"
    "st_ListRunsForDue st sid slot excluded w = (Inr rows, w') \<Longrightarrow> runs w' = runs w \<and> set rows = Some ` listed (runs w) sid slot excluded"
  using assms unfolding run_store_def by (metis (mono_tags, lifting) case_prod_conv sum.case)+

lemma run_store_patch:
  assumes "run_store s st runs"
  shows "st_PatchRuns st [p] w = (None, w') \<Longrightarrow> runs w' = patch_runs p (runs w)"
    "st_PatchRuns st [p] w = (Some e, w') \<Longrightarrow> runs w' = runs w"
  using assms unfolding run_store_def by (metis (mono_tags, lifting) case_prod_conv option.case)+

lemma run_store_id:
  assumes "run_store s st runs" "sv_NewID s w = (opid, w')"
  shows "runs w' = runs w" "TrimSpace opid \<noteq> []" "TrimSpace opid \<notin> TrimSpace ` rn_Id ` set (runs w)"
  using assms unfolding run_store_def by (metis (mono_tags, lifting) case_prod_conv)+

lemma run_store_quiet:
  assumes "run_store s st runs"
  shows "quiet (runs w) (runs (snd (st_PatchSchedule st p w)))" "quiet (runs w) (runs (snd (st_TryClaimSchedule st a b t w)))"
    "quiet (runs w) (runs (st_ReleaseScheduleLease st a b w))" "quiet (runs w) (runs (snd (st_ListForRunDue st w)))"
    "quiet (runs w) (runs (snd (sv_acquire s w)))" "quiet (runs w) (runs (sv_launch s row opid t w))"
    "quiet (runs w) (runs (sv_cancelConversation s a b w))"
  using assms by (simp_all add: run_store_def)

lemma quiet_snd:
  assumes "run_store s st runs"
  shows "st_PatchSchedule st p w = (r, w') \<Longrightarrow> quiet (runs w) (runs w')"
    "st_TryClaimSchedule st a b t w = (r', w') \<Longrightarrow> quiet (runs w) (runs w')"
    "st_ListForRunDue st w = (r'', w') \<Longrightarrow> quiet (runs w) (runs w')"
    "sv_acquire s w = (r, w') \<Longrightarrow> quiet (runs w) (runs w')"
  using run_store_quiet [OF assms] by (metis snd_conv)+

section \<open>The pass, part by part\<close>

lemma add_runs_spec:
  assumes "add_runs items (seen, acc) = (seen', rs)" "set seen = TrimSpace ` rn_Id ` set acc"
  shows "set acc \<subseteq> set rs \<and> set rs \<subseteq> set acc \<union> {x. Some x \<in> set items} \<and> set seen' = TrimSpace ` rn_Id ` set rs \<and>
    (\<forall>x. Some x \<in> set items \<longrightarrow> TrimSpace (rn_Id x) \<noteq> [] \<longrightarrow> TrimSpace (rn_Id x) \<in> TrimSpace ` rn_Id ` set rs)"
  using assms
proof (induction items "(seen, acc)" arbitrary: seen acc rule: add_runs.induct)
  case (3 item items seen acc)
  show ?case
  proof (cases "TrimSpace (rn_Id item) = [] \<or> TrimSpace (rn_Id item) \<in> set seen")
    case True
    then have "add_runs items (seen, acc) = (seen', rs)" using 3(3) by (simp add: Let_def)
    from 3(1) [OF refl True this 3(4)] True 3(4) show ?thesis by auto
  next
    case False
    then have "add_runs items (TrimSpace (rn_Id item) # seen, acc @ [item]) = (seen', rs)" using 3(3) by (simp add: Let_def)
    from 3(2) [OF refl False this] 3(4) show ?thesis by auto
  qed
qed auto

lemma ids_ok_unique:
  "ids_ok rs \<Longrightarrow> x \<in> set rs \<Longrightarrow> y \<in> set rs \<Longrightarrow> TrimSpace (rn_Id x) = TrimSpace (rn_Id y) \<Longrightarrow> x = y"
  by (auto simp: ids_ok_def distinct_map inj_on_def)

lemma ids_ok_nonblank: "ids_ok rs \<Longrightarrow> x \<in> set rs \<Longrightarrow> TrimSpace (rn_Id x) \<noteq> []"
  by (auto simp: ids_ok_def image_iff)

text \<open>The check sees every unfinished run of the schedule.\<close>

lemma getRunsForDueCheck_spec:
  assumes c: "run_store s st runs" and ids: "ids_ok (runs w)"
    and r: "getRunsForDueCheck st sid slot incl w = (res, w')"
  shows "runs w' = runs w \<and> (case res of Inl e \<Rightarrow> True
     | Inr rs \<Rightarrow> set rs \<subseteq> set (runs w) \<and> (\<forall>x \<in> set (runs w). rn_ScheduleId x = sid \<longrightarrow> unfinished x \<longrightarrow> x \<in> set rs))"
proof -
  obtain r1 w1 where first: "(if incl then (case st_ListRunsForDue st sid (Some slot) [] w of
        (Inl e, w') \<Rightarrow> (Inl e, w') | (Inr slotRuns, w') \<Rightarrow> (Inr (add_runs slotRuns ([], [])), w')) else (Inr ([], []), w)) = (r1, w1)"
    by fastforce
  have r1: "runs w1 = runs w \<and> (case r1 of Inl e \<Rightarrow> True
      | Inr (seen, acc) \<Rightarrow> set acc \<subseteq> set (runs w) \<and> set seen = TrimSpace ` rn_Id ` set acc)"
  proof (cases incl)
    case True
    obtain l w2 where l: "st_ListRunsForDue st sid (Some slot) [] w = (l, w2)" by fastforce
    show ?thesis
    proof (cases l)
      case (Inl e)
      then show ?thesis using True first l run_store_list(1) [OF c, of sid "Some slot" "[]" w e w2] by auto
    next
      case (Inr rows)
      obtain seen acc where a: "add_runs rows ([], []) = (seen, acc)" by fastforce
      from add_runs_spec [OF a] have "set acc \<subseteq> {x. Some x \<in> set rows}" "set seen = TrimSpace ` rn_Id ` set acc" by auto
      then show ?thesis
        using True first l Inr a run_store_list(2) [OF c, of sid "Some slot" "[]" w rows w2] by (auto simp: listed_def)
    qed
  qed (use first in auto)
  show ?thesis
  proof (cases r1)
    case (Inl e)
    then show ?thesis using r first r1 by (auto simp: getRunsForDueCheck_def Let_def)
  next
    case (Inr sa)
    obtain seen acc where sa: "sa = (seen, acc)" by fastforce
    obtain l w2 where l: "st_ListRunsForDue st sid None done_statuses w1 = (l, w2)" by fastforce
    show ?thesis
    proof (cases l)
      case (Inl e)
      then show ?thesis
        using r first r1 Inr l run_store_list(1) [OF c, of sid None done_statuses w1 e w2] by (auto simp: getRunsForDueCheck_def Let_def)
    next
      case rows: (Inr rows)
      have w2: "runs w2 = runs w" "set rows = Some ` listed (runs w) sid None done_statuses"
        using run_store_list(2) [OF c, of sid None done_statuses w1 rows w2] l rows r1 by simp_all
      obtain seen' rs where a: "add_runs rows (seen, acc) = (seen', rs)" by fastforce
      have res: "res = Inr rs" "w' = w2" using r first Inr sa l rows a by (auto simp: getRunsForDueCheck_def Let_def)
      from r1 Inr sa have acc: "set acc \<subseteq> set (runs w)" "set seen = TrimSpace ` rn_Id ` set acc" by auto
      note spec = add_runs_spec [OF a acc(2)]
      have sub: "set rs \<subseteq> set (runs w)" using spec acc(1) w2(2) by (auto simp: listed_def)
      have "x \<in> set rs" if x: "x \<in> set (runs w)" "rn_ScheduleId x = sid" "unfinished x" for x
      proof -
        have "Some x \<in> set rows" using x w2(2) by (auto simp: listed_def unfinished_def)
        then obtain y where "y \<in> set rs" "TrimSpace (rn_Id y) = TrimSpace (rn_Id x)"
          using spec ids_ok_nonblank [OF ids x(1)] by (metis (no_types, lifting) imageE)
        then show ?thesis using ids_ok_unique [OF ids, of y x] sub x(1) by auto
      qed
      with sub res w2(1) show ?thesis by simp
    qed
  qed
qed

lemma patchScheduleResult_quiet:
  assumes "run_store s st runs" "patchScheduleResult s st row a b l u now w = Some (r, w')"
  shows "quiet (runs w) (runs w')"
  using assms(2) quiet_snd(1) [OF assms(1)]
  by (auto simp: patchScheduleResult_def Let_def split: option.splits sum.splits if_splits)

lemma failStaleRun_spec:
  assumes c: "run_store s st runs" and run: "rn_Id run \<in> rn_Id ` set (runs w)"
    and f: "failStaleRun s st row run reason now w = Some (r, w')"
  shows "quiet (runs w) (runs w') \<and> (r = None \<longrightarrow> (\<forall>sid. rn_Id run \<notin> live (runs w') sid))"
proof -
  obtain e w1 where p: "st_PatchRuns st [fail_patch run reason now] w = (e, w1)" by fastforce
  show ?thesis
  proof (cases e)
    case (Some x)
    then show ?thesis using f p run_store_patch(2) [OF c, of "fail_patch run reason now" w x w1] by (auto simp: failStaleRun_def)
  next
    case None
    have w1: "runs w1 = patch_runs (fail_patch run reason now) (runs w)" using run_store_patch(1) [OF c] p None by simp
    define w2 where "w2 = (if valueOrEmpty (rn_ConversationId run) \<noteq> []
      then sv_cancelConversation s (valueOrEmpty (rn_ConversationId run)) ''canceled'' w1 else w1)"
    have q2: "quiet (runs w1) (runs w2)" using run_store_quiet(7) [OF c] by (simp add: w2_def)
    from f p None obtain r0 where "r = None"
      "patchScheduleResult s st row ''failed'' reason (Some (if isSet (rn_CompletedAt run) then the (rn_CompletedAt run) else now)) False now w2 = Some (r0, w')"
      by (auto simp: failStaleRun_def Let_def w2_def)
    then have q: "quiet (runs w1) (runs w')" using quiet_trans [OF q2] patchScheduleResult_quiet [OF c] by blast
    note dead = patch_runs_failed [OF run, of reason now]
    have "quiet (runs w) (runs w1)" using dead by (auto simp: quiet_def w1)
    moreover have "rn_Id run \<notin> live (runs w') sid" for sid
      using dead(2) [of sid] quiet_live [OF q, of sid] unfolding w1 by blast
    ultimately show ?thesis using quiet_trans [OF _ q] by blast
  qed
qed

text \<open>The clean-up is quiet, and every run it keeps as it was is returned unchanged; the others are dead.\<close>

lemma cleanupStaleRuns_spec:
  assumes "run_store s st runs" "cleanupStaleRuns s st row rs now w = Some (res, w')" "rn_Id ` set rs \<subseteq> rn_Id ` set (runs w)"
  shows "quiet (runs w) (runs w') \<and>
    (\<forall>rs'. res = Inr rs' \<longrightarrow> (\<forall>x \<in> set rs. x \<in> set rs' \<or> (\<forall>sid. rn_Id x \<notin> live (runs w') sid)))"
  using assms
proof (induction s st row rs now w arbitrary: res w' rule: cleanupStaleRuns.induct)
  case (2 s st row run rs now w)
  note c = "2.prems"(1)
  show ?case
  proof (cases "stale_reason s row run now")
    case None
    with "2.prems"(2) obtain res1 where rest: "cleanupStaleRuns s st row rs now w = Some (res1, w')"
      and res: "res = (case res1 of Inl e \<Rightarrow> Inl e | Inr rest \<Rightarrow> Inr (run # rest))"
      by (auto split: option.splits sum.splits)
    from "2.IH"(1) [OF None c rest] "2.prems"(3) res show ?thesis by (auto split: sum.splits)
  next
    case (Some reason)
    with "2.prems"(2) obtain e w1 where f: "failStaleRun s st row run reason now w = Some (e, w1)" by (auto split: option.splits)
    note dead = failStaleRun_spec [OF c _ f]
    have run: "rn_Id run \<in> rn_Id ` set (runs w)" using "2.prems"(3) by simp
    show ?thesis
    proof (cases e)
      case (Some x)
      then show ?thesis using "2.prems"(2) \<open>stale_reason s row run now = Some reason\<close> f dead [OF run] by auto
    next
      case None
      with "2.prems"(2) Some f obtain res1 where rest: "cleanupStaleRuns s st row rs now w1 = Some (res1, w')"
        and res: "res = (case res1 of Inl e \<Rightarrow> Inl e | Inr rest \<Rightarrow> Inr (failedRunCopy run reason now # rest))"
        by (auto split: option.splits sum.splits)
      have q: "quiet (runs w) (runs w1)" "\<And>sid. rn_Id run \<notin> live (runs w1) sid" using dead [OF run] None by auto
      have "rn_Id ` set (runs w1) = rn_Id ` set (runs w)" using q(1) unfolding quiet_def by (metis set_map)
      then have sub: "rn_Id ` set rs \<subseteq> rn_Id ` set (runs w1)" using "2.prems"(3) by simp
      note IH = "2.IH"(2) [OF Some f [unfolded None] refl refl c rest sub]
      have "rn_Id run \<notin> live (runs w') sid" for sid using q(2) [of sid] quiet_live [OF conjunct1 [OF IH], of sid] by blast
      with IH quiet_trans [OF q(1)] res show ?thesis by (auto split: sum.splits)
    qed
  qed
qed simp

lemma enqueueAndLaunch_spec:
  assumes c: "run_store s st runs" and ids: "ids_ok (runs w)" and e: "enqueueAndLaunch s st row slot adv w = Some (r, w')"
  shows "ids_ok (runs w') \<and> (\<exists>n. \<forall>sid. live (runs w') sid \<subseteq> live (runs w) sid \<union> (if sid = sc_Id row then {n} else {}))"
proof -
  obtain n w0 where i: "sv_NewID s w = (n, w0)" by fastforce
  obtain x w1 where p: "st_PatchRuns st [new_run s row n slot (sv_Now s w0)] w0 = (x, w1)" by fastforce
  note id = run_store_id [OF c i]
  show ?thesis
  proof (cases x)
    case (Some y)
    then have "runs w' = runs w" using e i p run_store_patch(2) [OF c] id(1) by (auto simp: enqueueAndLaunch_def Let_def)
    then show ?thesis using ids by auto
  next
    case None
    then have w1: "runs w1 = patch_runs (new_run s row n slot (sv_Now s w0)) (runs w)" using run_store_patch(1) [OF c] p id(1) by simp
    from e i p None obtain y w2 where
      a: "(if adv then patchScheduleResult s st row [] [] None True (sv_Now s w0) w1 else Some (None, w1)) = Some (y, w2)"
      by (auto simp: enqueueAndLaunch_def Let_def split: option.splits)
    have q2: "quiet (runs w1) (runs w2)" using a patchScheduleResult_quiet [OF c] by (auto split: if_splits)
    obtain z w3 where acq: "(if sv_execSem s then sv_acquire s w2 else (None, w2)) = (z, w3)" by fastforce
    have q3: "quiet (runs w2) (runs w3)" using acq quiet_snd(4) [OF c] by (auto split: if_splits)
    have "w' = w2 \<or> w' = w3 \<or> w' = sv_launch s row n slot w3"
      using e i p None a acq by (auto simp: enqueueAndLaunch_def Let_def split: option.splits)
    then have q: "quiet (runs w1) (runs w')"
      using q2 q3 run_store_quiet(6) [OF c] quiet_trans by metis
    note new = patch_runs_new [OF id(3,2) ids, of s row slot "sv_Now s w0", folded w1]
    have "live (runs w') sid \<subseteq> live (runs w) sid \<union> (if sid = sc_Id row then {n} else {})" for sid
      using quiet_live [OF q, of sid] new(2) [of sid] by (meson order_trans)
    then show ?thesis using quiet_ids [OF q new(1)] by blast
  qed
qed

text \<open>What the parts of a pass keep of the store's runs.\<close>

definition runs_ok :: "RunView list \<Rightarrow> bool" where
  "runs_ok rs \<longleftrightarrow> ids_ok rs \<and> one_live rs"

lemma quiet_runs_ok: "quiet a b \<Longrightarrow> runs_ok a \<Longrightarrow> runs_ok b"
  using quiet_ids quiet_one_live by (auto simp: runs_ok_def)

lemma claimed_pass_ok:
  assumes c: "run_store s st runs" and ok: "runs_ok (runs w)" and e: "claimed_pass s st row now due slot incl w = Some (r, w')"
  shows "runs_ok (runs w')"
proof -
  have ids: "ids_ok (runs w)" using ok by (simp add: runs_ok_def)
  obtain g w1 where g: "getRunsForDueCheck st (sc_Id row) slot incl w = (g, w1)" by fastforce
  note gs = getRunsForDueCheck_spec [OF c ids g]
  show ?thesis
  proof (cases g)
    case (Inl x)
    then show ?thesis using e g gs ok by (auto simp: claimed_pass_def)
  next
    case (Inr rs0)
    with gs have w1: "runs w1 = runs w" and sub: "set rs0 \<subseteq> set (runs w)"
      and all: "\<And>x. x \<in> set (runs w) \<Longrightarrow> rn_ScheduleId x = sc_Id row \<Longrightarrow> unfinished x \<Longrightarrow> x \<in> set rs0" by auto
    from e g Inr obtain res w2 where cl: "cleanupStaleRuns s st row rs0 now w1 = Some (res, w2)"
      by (auto simp: claimed_pass_def split: option.splits)
    have "rn_Id ` set rs0 \<subseteq> rn_Id ` set (runs w1)" using sub w1 by auto
    note cs = cleanupStaleRuns_spec [OF c cl this]
    have q: "quiet (runs w) (runs w2)" using cs w1 by simp
    have ok2: "runs_ok (runs w2)" by (rule quiet_runs_ok [OF q ok])
    have keep: "runs_ok (runs w')" if "patchScheduleResult s st row a b l u now w2 = Some (x, w')" for a b l u x
      using patchScheduleResult_quiet [OF c that] ok2 by (rule quiet_runs_ok)
    show ?thesis
    proof (cases "\<exists>rs. res = Inr rs \<and> sc_Enabled row \<and> due \<and> findCompletedRunForSlot rs slot = None \<and> \<not> hasActiveRun rs")
      case False
      then show ?thesis using e g Inr cl ok2 keep
        by (auto simp: claimed_pass_def Let_def split: sum.splits if_splits option.splits)
    next
      case True
      then obtain rs where rs: "res = Inr rs" "\<not> hasActiveRun rs" and b: "sc_Enabled row" "due" "findCompletedRunForSlot rs slot = None" by blast
      from e g Inr cl rs b obtain x where en: "enqueueAndLaunch s st row slot True w2 = Some (x, w')"
        by (auto simp: claimed_pass_def split: option.splits)
      have "live (runs w2) (sc_Id row) = {}"
      proof (rule ccontr)
        assume "live (runs w2) (sc_Id row) \<noteq> {}"
        then obtain i where i: "i \<in> live (runs w2) (sc_Id row)" "i \<in> live (runs w) (sc_Id row)" using quiet_live [OF q] by blast
        then obtain y where y: "y \<in> set (runs w)" "rn_Id y = i" "rn_ScheduleId y = sc_Id row" "unfinished y" by (auto simp: live_def)
        then have "y \<in> set rs" using cs rs(1) all [OF y(1,3,4)] i(1) by blast
        then show False using rs(2) y(4) by (auto simp: hasActiveRun_def unfinished_def list_ex_iff)
      qed
      note none = this
      obtain n where ids': "ids_ok (runs w')"
        and new: "\<And>sid. live (runs w') sid \<subseteq> live (runs w2) sid \<union> (if sid = sc_Id row then {n} else {})"
        using enqueueAndLaunch_spec [OF c _ en] ok2 unfolding runs_ok_def by blast
      have "\<exists>x. live (runs w') sid \<subseteq> {x}" for sid
      proof (cases "sid = sc_Id row")
        case True
        then have "live (runs w') sid \<subseteq> {n}" using new [of sid] none by simp
        then show ?thesis ..
      next
        case False
        obtain x where "live (runs w2) sid \<subseteq> {x}" using ok2 unfolding runs_ok_def one_live_def by blast
        then have "live (runs w') sid \<subseteq> {x}" using new [of sid] False by simp
        then show ?thesis ..
      qed
      then show ?thesis using ids' by (simp add: runs_ok_def one_live_def)
    qed
  qed
qed

lemma isDue_quiet:
  assumes c: "run_store s st runs" and d: "isDue s st row now w = Some (r, w')"
  shows "quiet (runs w) (runs w')"
proof -
  have n: "store_next st row nxt w = (x, w') \<Longrightarrow> quiet (runs w) (runs w')" for nxt x
    using quiet_snd(1) [OF c] by (auto simp: store_next_def split: prod.splits option.splits)
  show ?thesis using d n by (auto simp: isDue_def Let_def split: if_splits option.splits sum.splits)
qed

lemma due_row_ok:
  assumes c: "run_store s st runs" and ok: "runs_ok (runs w)" and d: "due_row s st row w = Some (r, w')"
  shows "runs_ok (runs w')"
proof -
  let ?now = "sv_Now s w"
  from d obtain x w1 where x: "(if sc_Enabled row then isDue s st row ?now w else Some (Inr (False, ?now), w)) = Some (x, w1)"
    by (auto simp: due_row_def Let_def split: option.splits)
  have ok1: "runs_ok (runs w1)"
  proof (cases "sc_Enabled row")
    case True
    then have "isDue s st row ?now w = Some (x, w1)" using x by simp
    then show ?thesis by (rule quiet_runs_ok [OF isDue_quiet [OF c] ok])
  qed (use x ok in auto)
  show ?thesis
  proof (cases x)
    case (Inl e)
    then show ?thesis using d x ok1 by (simp add: due_row_def Let_def)
  next
    case (Inr ds)
    obtain due slot where ds: "ds = (due, slot)" by fastforce
    let ?incl = "sc_Enabled row \<and> due \<and> isSet (sc_NextRunAt row)"
    obtain g w2 where g: "getRunsForDueCheck st (sc_Id row) slot ?incl w1 = (g, w2)" by fastforce
    have "runs w2 = runs w1" using getRunsForDueCheck_spec [OF c _ g] ok1 by (simp add: runs_ok_def)
    then have ok2: "runs_ok (runs w2)" using ok1 by simp
    obtain t w3 where t: "st_TryClaimSchedule st (sc_Id row) (sv_leaseOwner s) (?now + sv_leaseTTL s) w2 = (t, w3)" by fastforce
    have ok3: "runs_ok (runs w3)" using quiet_runs_ok [OF quiet_snd(2) [OF c t] ok2] .
    have ok4: "runs_ok (runs (st_ReleaseScheduleLease st a b w4))" if "claimed_pass s st row ?now due slot ?incl w3 = Some (y, w4)" for a b y w4
      using quiet_runs_ok [OF run_store_quiet(3) [OF c] claimed_pass_ok [OF c ok3 that]] .
    show ?thesis
      using d x Inr ds g t ok2 ok3 ok4
      by (auto simp: due_row_def Let_def split: sum.splits if_splits bool.splits)
  qed
qed

lemma due_rows_ok:
  "run_store s st runs \<Longrightarrow> runs_ok (runs w) \<Longrightarrow> due_rows s st rows n w = Some (r, w') \<Longrightarrow> runs_ok (runs w')"
proof (induction s st rows n w arbitrary: r w' rule: due_rows.induct)
  case (3 s st row rows started w)
  then obtain x w1 where x: "due_row s st row w = Some (x, w1)" by (auto split: option.splits)
  have ok: "runs_ok (runs w1)" by (rule due_row_ok [OF "3.prems"(1,2) x])
  show ?case
  proof (cases x)
    case (Inr b)
    with "3.prems"(3) x have "due_rows s st rows (if b then Suc started else started) w1 = Some (r, w')" by simp
    then show ?thesis by (rule "3.IH" [OF x refl Inr "3.prems"(1) ok])
  qed (use "3.prems" x ok in auto)
qed auto

text \<open>C3: the due pass never leaves a schedule with two unfinished runs: if the runs of the store have distinct ids
  and no schedule has two unfinished ones, then so it is after the pass, whichever errors occur in it.\<close>

theorem RunDue_one_unfinished:
  assumes "\<And>st. sv_store s = Some st \<Longrightarrow> run_store s st runs" "runs_ok (runs w)" "RunDue (Some s) w = Some (r, w')"
  shows "runs_ok (runs w')"
proof -
  from assms(3) consider "w' = w"
    | st x where "sv_store s = Some st" "st_ListForRunDue st w = (Inl x, w')"
    | st rows w1 where "sv_store s = Some st" "st_ListForRunDue st w = (Inr rows, w1)" "due_rows s st rows 0 w1 = Some (r, w')"
    by (auto simp: RunDue_def split: option.splits if_splits sum.splits prod.splits)
  then show ?thesis
  proof cases
    case 1
    then show ?thesis using assms(2) by simp
  next
    case (2 st x)
    show ?thesis by (rule quiet_runs_ok [OF quiet_snd(3) [OF assms(1) [OF 2(1)] 2(2)] assms(2)])
  next
    case (3 st rows w1)
    note c = assms(1) [OF 3(1)]
    show ?thesis using due_rows_ok [OF c quiet_runs_ok [OF quiet_snd(3) [OF c 3(2)] assms(2)] 3(3)] .
  qed
qed

section \<open>An example\<close>

text \<open>A store of one interval schedule over a list of runs, whose new ids are longer than all others.\<close>

definition demo_row :: ScheduleView where
  "demo_row = \<lparr>sc_Id = ''s1'', sc_AgentRef = ''coder'', sc_Enabled = True, sc_ScheduleType = ''interval'', sc_TimeoutSeconds = 0,
     sc_Timezone = [], sc_CreatedByUserId = None, sc_UserCredUrl = None, sc_StartAt = None, sc_EndAt = None, sc_CronExpr = None,
     sc_IntervalSeconds = Some 60, sc_NextRunAt = Some 5, sc_LastRunAt = None, sc_CreatedAt = 1, sc_UpdatedAt = None\<rparr>"

definition demo_store :: "RunView list Store" where
  "demo_store = \<lparr>st_ListForRunDue = (\<lambda>w. (Inr [None, Some demo_row], w)), st_PatchSchedule = (\<lambda>p w. (None, w)),
     st_PatchRuns = (\<lambda>ps w. (None, fold patch_runs ps w)),
     st_ListRunsForDue = (\<lambda>sid slot excluded w. (Inr (map Some (filter (\<lambda>r. rn_ScheduleId r = sid \<and>
       (slot = None \<or> rn_ScheduledFor r = slot) \<and> rn_Status r \<notin> set excluded) w)), w)),
     st_TryClaimSchedule = (\<lambda>a b t w. (Inr True, w)), st_ReleaseScheduleLease = (\<lambda>a b w. w)\<rparr>"

definition fresh_id :: "RunView list \<Rightarrow> string" where
  "fresh_id rs = replicate (Suc (sum_list (map (length \<circ> rn_Id) rs))) (CHR ''x'')"

definition demo_service :: "RunView list Service" where
  "demo_service = \<lparr>sv_store = Some demo_store, sv_agent = True, sv_leaseOwner = ''me'', sv_leaseTTL = Minute, sv_execSem = False,
     sv_effectiveUser = [], sv_location = (\<lambda>_. demo_calendar), sv_Now = (\<lambda>_. 9), sv_NewID = (\<lambda>w. (fresh_id w, w)),
     sv_acquire = (\<lambda>w. (None, w)), sv_launch = (\<lambda>row opid t w. w), sv_cancelConversation = (\<lambda>a b w. w),
     sv_formatTime = (\<lambda>t. []), sv_formatDuration = (\<lambda>t. []), sv_formatRounded = (\<lambda>t. [])\<rparr>"

lemma TrimSpace_xs: "TrimSpace (replicate (Suc k) (CHR ''x'')) = replicate (Suc k) (CHR ''x'')"
proof -
  have "strip_any ws_runes (CHR ''x'' # s) = None" "strip_any (map rev ws_runes) (CHR ''x'' # s) = None" for s
    by (simp_all add: ws_runes_def)
  then have "strip_while ws_runes (replicate (Suc k) (CHR ''x'')) = replicate (Suc k) (CHR ''x'')"
    "strip_while (map rev ws_runes) (replicate (Suc k) (CHR ''x'')) = replicate (Suc k) (CHR ''x'')"
    by (simp_all add: strip_while_None)
  then show ?thesis unfolding TrimSpace_def by (simp only: rev_replicate)
qed

lemma demo_run_store: "run_store demo_service demo_store (\<lambda>w. w)"
proof -
  have "TrimSpace (fresh_id w) \<noteq> []" "TrimSpace (fresh_id w) \<notin> TrimSpace ` rn_Id ` set w" for w
  proof -
    have len: "length (TrimSpace (fresh_id w)) = Suc (sum_list (map (length \<circ> rn_Id) w))"
      unfolding fresh_id_def TrimSpace_xs by simp
    then show "TrimSpace (fresh_id w) \<noteq> []" by auto
    have "length (TrimSpace (rn_Id r)) \<le> sum_list (map (length \<circ> rn_Id) w)" if "r \<in> set w" for r
      using length_TrimSpace [of "rn_Id r"] member_le_sum_list [of "length (rn_Id r)" "map (length \<circ> rn_Id) w"] that by force
    with len show "TrimSpace (fresh_id w) \<notin> TrimSpace ` rn_Id ` set w" by fastforce
  qed
  then show ?thesis by (auto simp: run_store_def demo_service_def demo_store_def listed_def)
qed

theorem RunDue_one_unfinished_witness:
  "\<exists>w'. RunDue (Some demo_service) [] = Some ((1, None), w') \<and> runs_ok w' \<and> map rn_Id w' = [''x''] \<and>
     (\<exists>w''. RunDue (Some demo_service) w' = Some ((0, None), w'') \<and> runs_ok w'')"
proof -
  define w' where "w' = [apply_patch (new_run demo_service demo_row ''x'' 5 9) (blank_run ''x'')]"
  have first: "RunDue (Some demo_service) [] = Some ((1, None), w')" unfolding w'_def by code_simp
  have second: "RunDue (Some demo_service) w' = Some ((0, None), w')" unfolding w'_def by code_simp
  have "runs_ok ((\<lambda>w. w) w')"
  proof (rule RunDue_one_unfinished [OF _ _ first])
    fix st assume "sv_store demo_service = Some st"
    then have "st = demo_store" by (simp add: demo_service_def)
    then show "run_store demo_service st (\<lambda>w. w)" using demo_run_store by simp
  next
    show "runs_ok []" by (simp add: runs_ok_def ids_ok_def one_live_def live_def)
  qed
  then have ok: "runs_ok w'" .
  have ids: "map rn_Id w' = [''x'']" unfolding w'_def by code_simp
  show ?thesis by (intro exI [of _ w'] conjI first ok ids second)
qed

end
