(* ===== verification/PatchPath.thy ===== *)
theory PatchPath
  imports GoPrelude
begin

text \<open>
  Where a patch may write, \<open>protocol/tool/service/system/patch/session.go\<close>: a path of a patch is resolved
  against the working directory, and a path that leads outside is refused. The functions of packages
  \<open>path\<close> and \<open>path/filepath\<close> are modelled as they work on Unix, lexically: symbolic links are not
  followed, as in the source.

  Parameters (\<open>path_env\<close>): the current directory, \<open>None\<close> when the system cannot tell it, and the functions
  \<open>Base\<close> and \<open>Join\<close> of \<open>github.com/viant/afs/url\<close>, which split a URL and put it together.
\<close>

section \<open>Paths of the standard library\<close>

abbreviation slash :: char where "slash \<equiv> CHR 0x2F"

definition dotdot :: string where "dotdot = ''..''"
definition dot :: string where "dot = ''.''"

definition IsAbs :: "string \<Rightarrow> bool" where
  "IsAbs p = (case p of [] \<Rightarrow> False | c # _ \<Rightarrow> c = slash)"

text \<open>The elements of a path, and what \<open>Clean\<close> makes of them: \<open>st\<close> holds the elements so far, the last one first.\<close>

definition segs :: "string \<Rightarrow> string list" where
  "segs p = filter (\<lambda>s. s \<noteq> []) (Split slash p)"

fun clean_segs :: "bool \<Rightarrow> string list \<Rightarrow> string list \<Rightarrow> string list" where
  "clean_segs rooted [] st = rev st"
| "clean_segs rooted (s # ss) st =
     (if s = [] \<or> s = dot then clean_segs rooted ss st
      else if s = dotdot then
        (case st of
           [] \<Rightarrow> clean_segs rooted ss (if rooted then [] else [dotdot])
         | t # st' \<Rightarrow> if t = dotdot then clean_segs rooted ss (dotdot # st) else clean_segs rooted ss st')
      else clean_segs rooted ss (s # st))"

definition render :: "bool \<Rightarrow> string list \<Rightarrow> string" where
  "render rooted ss = (if rooted then slash # Join [slash] ss else if ss = [] then dot else Join [slash] ss)"

definition Clean :: "string \<Rightarrow> string" where
  "Clean p = render (IsAbs p) (clean_segs (IsAbs p) (Split slash p) [])"

definition path_Join :: "string list \<Rightarrow> string" where
  "path_Join ps = (let qs = dropWhile (\<lambda>p. p = []) ps in if qs = [] then [] else Clean (Join [slash] qs))"

text \<open>\<open>filepath.Rel\<close> of two absolute clean paths: climb from what the base has in excess, then descend.\<close>

fun rel_segs :: "string list \<Rightarrow> string list \<Rightarrow> string list" where
  "rel_segs (b # bs) (t # ts) = (if b = t then rel_segs bs ts else map (\<lambda>_. dotdot) (b # bs) @ t # ts)"
| "rel_segs bs ts = map (\<lambda>_. dotdot) bs @ ts"

definition Rel :: "string \<Rightarrow> string \<Rightarrow> string" where
  "Rel base target =
     (if Clean target = Clean base then dot else Join [slash] (rel_segs (segs (Clean base)) (segs (Clean target))))"

section \<open>Resolving a path\<close>

record path_env =
  pe_Getwd :: "string option"
  pe_urlBase :: "string \<Rightarrow> string \<times> string"
  pe_urlJoin :: "string \<Rightarrow> string list \<Rightarrow> string"

datatype path_error =
    EmptyPath
  | NoWorkdir string
  | NoTarget string
  | OutsideWorkdir string string
  | ResolvesOutside string string

definition Abs :: "path_env \<Rightarrow> string \<Rightarrow> string option" where
  "Abs env p = (if IsAbs p then Some (Clean p)
     else case pe_Getwd env of None \<Rightarrow> None | Some wd \<Rightarrow> Some (path_Join [wd, p]))"

definition scheme_sep :: string where "scheme_sep = '':'' @ [slash, slash]"

fun escapes :: "nat \<Rightarrow> string list \<Rightarrow> bool" where
  "escapes depth [] = False"
| "escapes depth (s # ss) =
     (if s = [] \<or> s = dot then escapes depth ss
      else if s = dotdot then (if depth = 0 then True else escapes (depth - 1) ss)
      else escapes (depth + 1) ss)"

definition relativePathEscapesBase :: "string \<Rightarrow> bool" where
  "relativePathEscapesBase value = escapes 0 (Split slash value)"

definition containsFilesystemPath :: "string \<Rightarrow> string \<Rightarrow> bool" where
  "containsFilesystemPath base target =
     (let rel = Rel base target in
      rel = dot \<or> (rel \<noteq> dotdot \<and> \<not> prefix (dotdot @ [slash]) rel \<and> \<not> IsAbs rel))"

definition file_base :: "string \<Rightarrow> bool" where
  "file_base baseURL \<longleftrightarrow> baseURL = ''file'' @ scheme_sep @ ''localhost'' \<or> baseURL = ''file'' @ scheme_sep"

definition TrimPrefix :: "string \<Rightarrow> string \<Rightarrow> string" where
  "TrimPrefix s p = (case strip_prefix p s of Some r \<Rightarrow> r | None \<Rightarrow> s)"

definition cleanURLPath :: "string \<Rightarrow> string" where
  "cleanURLPath value =
     (let clean = Clean ([slash] @ TrimPrefix (TrimSpace value) [slash]) in
      if clean = dot \<or> clean = [] then [slash] else clean)"

definition containsURLPath :: "string \<Rightarrow> string \<Rightarrow> bool" where
  "containsURLPath base0 target0 =
     (let base = cleanURLPath base0; target = cleanURLPath target0 in
      if base = [slash] then prefix [slash] target
      else target = base \<or> prefix (base @ [slash]) target)"

definition filesystem_target :: "path_env \<Rightarrow> string \<Rightarrow> string \<Rightarrow> string \<Rightarrow> path_error + string" where
  "filesystem_target env base path directory =
     (if contains path scheme_sep then
        (case pe_urlBase env path of (baseURL, targetPath) \<Rightarrow>
           if \<not> file_base baseURL then Inl (OutsideWorkdir path directory) else Inr (Clean targetPath))
      else if IsAbs path then Inr (Clean path)
      else if relativePathEscapesBase path then Inl (ResolvesOutside path directory)
      else Inr (Clean (path_Join [base, path])))"

definition resolveFilesystemPath :: "path_env \<Rightarrow> string \<Rightarrow> string \<Rightarrow> path_error + string" where
  "resolveFilesystemPath env path directory =
     (case Abs env (Clean directory) of
        None \<Rightarrow> Inl (NoWorkdir directory)
      | Some base \<Rightarrow>
          (case filesystem_target env base path directory of
             Inl e \<Rightarrow> Inl e
           | Inr target0 \<Rightarrow>
               (case Abs env target0 of
                  None \<Rightarrow> Inl (NoTarget path)
                | Some target \<Rightarrow>
                    if \<not> containsFilesystemPath base target then Inl (ResolvesOutside path directory) else Inr target)))"

definition url_target :: "path_env \<Rightarrow> string \<Rightarrow> string \<Rightarrow> string \<Rightarrow> string \<Rightarrow> path_error + string \<times> string" where
  "url_target env baseURL basePath path directory =
     (if contains path scheme_sep then
        (case pe_urlBase env path of (targetBaseURL, targetPath) \<Rightarrow>
           if targetBaseURL \<noteq> baseURL then Inl (OutsideWorkdir path directory)
           else Inr (targetBaseURL, cleanURLPath targetPath))
      else if IsAbs path then
        (if \<not> file_base baseURL then Inl (OutsideWorkdir path directory) else Inr (baseURL, cleanURLPath path))
      else if relativePathEscapesBase path then Inl (ResolvesOutside path directory)
      else Inr (baseURL, cleanURLPath (path_Join [basePath, path])))"

definition resolveURLPath :: "path_env \<Rightarrow> string \<Rightarrow> string \<Rightarrow> path_error + string" where
  "resolveURLPath env path directory =
     (case pe_urlBase env directory of (baseURL, basePath0) \<Rightarrow>
        let basePath = cleanURLPath basePath0 in
        (case url_target env baseURL basePath path directory of
           Inl e \<Rightarrow> Inl e
         | Inr (targetBaseURL, targetPath) \<Rightarrow>
             if \<not> containsURLPath basePath targetPath then Inl (ResolvesOutside path directory)
             else if targetPath = [slash] then Inr (pe_urlJoin env targetBaseURL [])
             else Inr (pe_urlJoin env targetBaseURL [targetPath])))"

definition resolvePath :: "path_env \<Rightarrow> string \<Rightarrow> string \<Rightarrow> path_error + string" where
  "resolvePath env path0 directory0 =
     (let path = TrimSpace path0; directory = TrimSpace directory0 in
      if path = [] then Inl EmptyPath
      else if directory = [] then Inr path
      else if contains directory scheme_sep then resolveURLPath env path directory
      else resolveFilesystemPath env path directory)"

section \<open>Clean absolute paths\<close>

definition tidy :: "string list \<Rightarrow> bool" where
  "tidy ss \<longleftrightarrow> (\<forall>s \<in> set ss. s \<noteq> [] \<and> s \<noteq> dot \<and> s \<noteq> dotdot \<and> slash \<notin> set s)"

lemma tidy_simps [simp]:
  "tidy []" "tidy (s # ss) \<longleftrightarrow> s \<noteq> [] \<and> s \<noteq> dot \<and> s \<noteq> dotdot \<and> slash \<notin> set s \<and> tidy ss"
  "tidy (ss @ ts) \<longleftrightarrow> tidy ss \<and> tidy ts" "tidy (rev ss) \<longleftrightarrow> tidy ss"
  by (auto simp: tidy_def)

lemma Split_append: "Split sep (x @ sep # y) = Split sep x @ Split sep y"
  by (induction x) (auto split: list.splits)

lemma Split_plain: "sep \<notin> set s \<Longrightarrow> Split sep s = [s]"
  by (induction s) auto

lemma Split_Join_plain: "ss \<noteq> [] \<Longrightarrow> \<forall>s \<in> set ss. sep \<notin> set s \<Longrightarrow> Split sep (Join [sep] ss) = ss"
  by (induction "[sep]" ss rule: Join.induct) (auto simp: Split_plain Split_append)

lemma Split_render: "tidy ss \<Longrightarrow> Split slash (render True ss) = [] # (if ss = [] then [[]] else ss)"
  by (simp add: render_def Split_Join_plain tidy_def)

lemma filter_tidy: "tidy ss \<Longrightarrow> filter (\<lambda>s. s \<noteq> []) ss = ss"
  by (simp add: tidy_def filter_id_conv)

lemma segs_render: "tidy ss \<Longrightarrow> segs (render True ss) = ss"
  by (simp add: segs_def Split_render filter_tidy)

lemma render_inj: "tidy ss \<Longrightarrow> tidy ts \<Longrightarrow> render True ss = render True ts \<longleftrightarrow> ss = ts"
  by (metis segs_render)

lemma IsAbs_render [simp]: "IsAbs (render True ss)"
  by (simp add: IsAbs_def render_def)

lemma clean_segs_tidy: "\<forall>s \<in> set ss. slash \<notin> set s \<Longrightarrow> tidy st \<Longrightarrow> tidy (clean_segs True ss st)"
  by (induction "True" ss st rule: clean_segs.induct) (auto split: list.splits)

lemma clean_segs_push: "tidy xs \<Longrightarrow> clean_segs True (xs @ ss) st = clean_segs True ss (rev xs @ st)"
  by (induction xs arbitrary: st) auto

lemma Clean_abs: "IsAbs p \<Longrightarrow> \<exists>T. Clean p = render True T \<and> tidy T"
  by (auto simp: Clean_def intro!: exI clean_segs_tidy dest: Split_no_sep)

lemma Clean_render: "tidy T \<Longrightarrow> Clean (render True T) = render True T"
  using clean_segs_push [of T "[]" "[]"] by (simp add: Clean_def Split_render)

lemma IsAbs_append: "IsAbs p \<Longrightarrow> IsAbs (p @ q)"
  by (cases p) (auto simp: IsAbs_def)

lemma path_Join_abs: "IsAbs p \<Longrightarrow> path_Join [p, q] = Clean (p @ slash # q)"
  by (cases p) (auto simp: path_Join_def IsAbs_def)

definition cwd_absolute :: "path_env \<Rightarrow> bool" where
  "cwd_absolute env \<longleftrightarrow> (case pe_Getwd env of None \<Rightarrow> True | Some wd \<Rightarrow> IsAbs wd)"

lemma Abs_clean: "cwd_absolute env \<Longrightarrow> Abs env p = Some q \<Longrightarrow> \<exists>T. q = render True T \<and> tidy T"
  using Clean_abs IsAbs_append
  by (auto simp: Abs_def cwd_absolute_def path_Join_abs split: if_splits option.splits)

lemma Abs_render [simp]: "tidy T \<Longrightarrow> Abs env (render True T) = Some (render True T)"
  by (simp add: Abs_def Clean_render)

section \<open>Containment\<close>

lemma rel_prefix: "rel_segs bs (bs @ ts) = ts"
  by (induction bs) (simp, cases ts, auto)

lemma rel_not_prefix: "\<not> prefix bs ts \<Longrightarrow> \<exists>rest. rel_segs bs ts = dotdot # rest"
  by (induction bs ts rule: rel_segs.induct) (auto simp: neq_Nil_conv)

lemma Join_first:
  "x \<noteq> [] \<Longrightarrow> slash \<notin> set x \<Longrightarrow> IsAbs (Join [slash] (x # xs)) = False"
  by (cases xs; cases x) (auto simp: IsAbs_def)

lemma Join_dotdot:
  assumes "slash \<notin> set x" "x \<noteq> dotdot" "\<forall>s \<in> set xs. slash \<notin> set s"
  shows "Join [slash] (x # xs) \<noteq> dotdot \<and> \<not> prefix (dotdot @ [slash]) (Join [slash] (x # xs))"
proof -
  let ?j = "Join [slash] (x # xs)"
  have split: "Split slash ?j = x # xs" using assms by (simp add: Split_Join_plain)
  have "?j \<noteq> dotdot" using split assms(2) by (auto simp: dotdot_def)
  moreover have "?j \<noteq> (dotdot @ [slash]) @ r" for r
    using split assms(2) Split_append [of slash dotdot r] by (auto simp: Split_plain dotdot_def)
  ultimately show ?thesis by (auto simp: prefix_def)
qed

lemma containsFilesystemPath_iff:
  assumes "tidy B" "tidy T"
  shows "containsFilesystemPath (render True B) (render True T) \<longleftrightarrow> prefix B T"
proof (cases "prefix B T")
  case True
  then obtain X where X: "T = B @ X" by (auto simp: prefix_def)
  show ?thesis
  proof (cases X)
    case Nil
    with X show ?thesis by (simp add: containsFilesystemPath_def Rel_def)
  next
    case (Cons x xs)
    with X assms have "tidy (x # xs)" by simp
    with Join_first [of x xs] Join_dotdot [of x xs]
    have "\<not> IsAbs (Join [slash] X)" "Join [slash] X \<noteq> dotdot" "\<not> prefix (dotdot @ [slash]) (Join [slash] X)"
      using Cons by (auto simp: tidy_def)
    with True X Cons assms show ?thesis
      by (simp add: containsFilesystemPath_def Rel_def Clean_render segs_render rel_prefix render_inj Let_def)
  qed
next
  case False
  then obtain rest where rest: "rel_segs B T = dotdot # rest" using rel_not_prefix by blast
  have "B \<noteq> T" using False by auto
  then have "Rel (render True B) (render True T) = Join [slash] (dotdot # rest)"
    using assms rest by (simp add: Rel_def Clean_render segs_render render_inj)
  then have "Rel (render True B) (render True T) = dotdot \<or> prefix (dotdot @ [slash]) (Rel (render True B) (render True T))"
    by (cases rest) auto
  moreover have "Rel (render True B) (render True T) \<noteq> dot" using calculation by (auto simp: dot_def dotdot_def)
  ultimately show ?thesis using False by (auto simp: containsFilesystemPath_def Let_def)
qed

lemma cleanURLPath_render: "\<exists>T. cleanURLPath v = render True T \<and> tidy T"
proof -
  obtain T where T: "Clean ([slash] @ TrimPrefix (TrimSpace v) [slash]) = render True T" "tidy T"
    using Clean_abs [of "[slash] @ TrimPrefix (TrimSpace v) [slash]"] by (auto simp: IsAbs_def)
  moreover have "render True T \<noteq> dot" "render True T \<noteq> []" by (simp_all add: render_def dot_def)
  ultimately show ?thesis by (auto simp: cleanURLPath_def Let_def)
qed

definition trimmed :: "string list \<Rightarrow> bool" where
  "trimmed T \<longleftrightarrow> TrimSpace (render True T) = render True T"

lemma cleanURLPath_trimmed: "tidy T \<Longrightarrow> trimmed T \<Longrightarrow> cleanURLPath (render True T) = render True T"
proof -
  assume "tidy T" "trimmed T"
  then have "Clean ([slash] @ TrimPrefix (TrimSpace (render True T)) [slash]) = render True T"
    using Clean_render [of T] by (simp add: trimmed_def TrimPrefix_def) (simp add: render_def)
  then show ?thesis by (simp add: cleanURLPath_def Let_def render_def dot_def)
qed

lemma containsURLPath_prefix:
  assumes "tidy B" "tidy T" "trimmed B" "trimmed T" "containsURLPath (render True B) (render True T)"
  shows "prefix B T"
proof (cases "B = []")
  case False
  then have "render True B \<noteq> [slash]" using assms(1) by (cases B rule: list.exhaust; cases "tl B") (auto simp: render_def)
  with assms have "render True T = render True B \<or> prefix (render True B @ [slash]) (render True T)"
    by (simp add: containsURLPath_def cleanURLPath_trimmed Let_def)
  then show ?thesis
  proof
    assume "render True T = render True B"
    with assms show ?thesis by (simp add: render_inj)
  next
    assume "prefix (render True B @ [slash]) (render True T)"
    then obtain r where "render True T = render True B @ slash # r" by (auto simp: prefix_def)
    then have "Split slash (render True T) = Split slash (render True B) @ Split slash r" by (simp add: Split_append)
    then have "[] # (if T = [] then [[]] else T) = ([] # B) @ Split slash r"
      using assms False by (simp only: Split_render if_False)
    with assms False show ?thesis by (cases B) (auto simp: prefix_def split: if_splits)
  qed
qed simp

section \<open>Patches stay inside the working directory\<close>

lemma filesystem_inside:
  assumes "resolveFilesystemPath env path directory = Inr target" "cwd_absolute env"
  shows "\<exists>B T. Abs env (Clean directory) = Some (render True B) \<and> target = render True T \<and>
     tidy B \<and> tidy T \<and> prefix B T"
proof -
  obtain base where base: "Abs env (Clean directory) = Some base"
    using assms(1) by (auto simp: resolveFilesystemPath_def split: option.splits)
  with assms obtain target0 where t: "Abs env target0 = Some target" "containsFilesystemPath base target"
    by (auto simp: resolveFilesystemPath_def split: option.splits sum.splits if_splits)
  from Abs_clean [OF assms(2) base] Abs_clean [OF assms(2) t(1)] obtain B T where
    "base = render True B" "tidy B" "target = render True T" "tidy T" by blast
  with base t show ?thesis using containsFilesystemPath_iff by blast
qed

text \<open>C23: a path that is resolved against a working directory of the file system lies in it: the elements of the
  directory, made absolute, are the first elements of the result, which has no dots left. Whatever the path is,
  absolute, relative or a file URL, nothing else gets through.\<close>

theorem resolveFilesystemPath_confined:
  assumes "resolveFilesystemPath env path directory = Inr target" "cwd_absolute env"
  shows "\<exists>B T. Abs env (Clean directory) = Some (render True B) \<and> target = render True T \<and>
     tidy B \<and> tidy T \<and> prefix B T"
  using assms by (rule filesystem_inside)

definition demo_path_env :: path_env where
  "demo_path_env = \<lparr>pe_Getwd = Some ''/home'', pe_urlBase = (\<lambda>u. (''file'' @ scheme_sep @ ''localhost'', drop (length (''file'' @ scheme_sep @ ''localhost'')) u)),
     pe_urlJoin = (\<lambda>u ps. u @ concat ps)\<rparr>"

theorem resolveFilesystemPath_confined_witness:
  "\<exists>B T. Abs demo_path_env (Clean ''work'') = Some (render True B) \<and> ''/home/work/x'' = render True T \<and>
     tidy B \<and> tidy T \<and> prefix B T"
proof -
  have "resolveFilesystemPath demo_path_env ''a/.././x'' ''work'' = Inr ''/home/work/x''" "cwd_absolute demo_path_env" by code_simp+
  then show ?thesis by (rule resolveFilesystemPath_confined)
qed

lemma url_target_clean: "url_target env server base path directory = Inr (u, p) \<Longrightarrow> u = server \<and> (\<exists>v. p = cleanURLPath v)"
  by (auto simp: url_target_def split: prod.splits if_splits)

text \<open>The same for a working directory given as a URL, for results without white space at the end: the
  result is the URL of a path below that of the working directory, on the same server. The restriction is needed, see \<open>trailing_space\<close>.\<close>

theorem resolveURLPath_confined:
  assumes "resolveURLPath env path directory = Inr target"
  shows "\<exists>server basePath B T. pe_urlBase env directory = (server, basePath) \<and> cleanURLPath basePath = render True B \<and>
     target = pe_urlJoin env server (if T = [] then [] else [render True T]) \<and> tidy B \<and> tidy T \<and>
     (trimmed B \<and> trimmed T \<longrightarrow> prefix B T)"
proof -
  obtain server basePath where s: "pe_urlBase env directory = (server, basePath)" by (cases "pe_urlBase env directory") auto
  obtain B where B: "cleanURLPath basePath = render True B" "tidy B" using cleanURLPath_render by blast
  obtain u p where up: "url_target env server (cleanURLPath basePath) path directory = Inr (u, p)"
    "containsURLPath (cleanURLPath basePath) p" "target = pe_urlJoin env u (if p = [slash] then [] else [p])"
    using assms s by (auto simp: resolveURLPath_def Let_def split: sum.splits if_splits)
  from url_target_clean [OF up(1)] obtain v where
    v: "containsURLPath (cleanURLPath basePath) (cleanURLPath v)"
    "target = pe_urlJoin env server (if cleanURLPath v = [slash] then [] else [cleanURLPath v])"
    using up by auto
  obtain T where T: "cleanURLPath v = render True T" "tidy T" using cleanURLPath_render by blast
  have "render True T = [slash] \<longleftrightarrow> T = []" using T(2) render_inj [of T "[]"] by (simp add: render_def)
  with v T B have "target = pe_urlJoin env server (if T = [] then [] else [render True T])"
    "trimmed B \<and> trimmed T \<longrightarrow> prefix B T"
    using containsURLPath_prefix [OF B(2) T(2)] by simp_all
  with s B T(2) show ?thesis by blast
qed

text \<open>The check trims the target once more than the target that is used: a sibling whose name is that of the
  working directory and a space gets through.\<close>

lemma trailing_space:
  "resolveURLPath demo_path_env (''file'' @ scheme_sep @ ''localhost/w /.'') (''file'' @ scheme_sep @ ''localhost/w'') =
     Inr (''file'' @ scheme_sep @ ''localhost/w '')"
  by code_simp

section \<open>Relative paths\<close>

text \<open>How far a sequence of elements climbs: the height after it, starting from 0.\<close>

definition step :: "string \<Rightarrow> int" where
  "step s = (if s = [] \<or> s = dot then 0 else if s = dotdot then -1 else 1)"

definition height :: "string list \<Rightarrow> int" where
  "height ss = sum_list (map step ss)"

lemma escapes_height: "escapes d ss \<longleftrightarrow> (\<exists>k. int d + height (take k ss) < 0)"
proof (induction d ss rule: escapes.induct)
  case (1 depth)
  then show ?case by (simp add: height_def)
next
  case (2 d s ss)
  have shift: "(\<exists>k. int d + height (take k (s # ss)) < 0) \<longleftrightarrow> (\<exists>k. int d + step s + height (take k ss) < 0)"
  proof
    assume "\<exists>k. int d + height (take k (s # ss)) < 0"
    then obtain k where k: "int d + height (take k (s # ss)) < 0" by blast
    then show "\<exists>k. int d + step s + height (take k ss) < 0"
      by (cases k) (auto simp: height_def add.assoc intro: exI [of _ "k - 1"])
  next
    assume "\<exists>k. int d + step s + height (take k ss) < 0"
    then obtain k where "int d + step s + height (take k ss) < 0" by blast
    then have "int d + height (take (Suc k) (s # ss)) < 0" by (simp add: height_def add.assoc)
    then show "\<exists>k. int d + height (take k (s # ss)) < 0" by blast
  qed
  show ?case
  proof (cases "s = dotdot \<and> d = 0")
    case True
    then have "int d + step s + height (take 0 ss) < 0" by (simp add: step_def height_def dot_def dotdot_def)
    then have "\<exists>k. int d + step s + height (take k ss) < 0" by blast
    with True show ?thesis unfolding shift by (simp add: dot_def dotdot_def)
  next
    case False
    then show ?thesis unfolding shift using "2.IH" by (auto simp: step_def algebra_simps of_nat_diff)
  qed
qed

lemma clean_segs_above:
  "\<not> escapes (length Y) ss \<Longrightarrow> tidy Y \<Longrightarrow> \<forall>s \<in> set ss. slash \<notin> set s \<Longrightarrow>
   clean_segs True ss (Y @ rev B) = B @ clean_segs True ss Y"
proof (induction ss arbitrary: Y)
  case (Cons s ss)
  consider "s = [] \<or> s = dot" | "s = dotdot" | "s \<noteq> []" "s \<noteq> dot" "s \<noteq> dotdot" by blast
  then show ?case
  proof cases
    case 2
    then obtain t Y' where "Y = t # Y'" using Cons.prems(1) by (cases Y) (auto simp: dot_def dotdot_def)
    with 2 Cons show ?thesis by (simp add: dot_def dotdot_def)
  next
    case 3
    with Cons.IH [of "s # Y"] Cons.prems show ?thesis by simp
  qed (use Cons in auto)
qed simp

text \<open>A relative path resolves exactly when no beginning of it climbs above the working directory, and then
  to the directory's elements followed by those that remain of the path.\<close>

theorem resolveFilesystemPath_relative:
  assumes "\<not> contains path scheme_sep" "\<not> IsAbs path" "tidy B" "Abs env (Clean directory) = Some (render True B)"
  shows "resolveFilesystemPath env path directory =
     (if \<exists>k. height (take k (Split slash path)) < 0 then Inl (ResolvesOutside path directory)
      else Inr (render True (B @ clean_segs True (Split slash path) [])))"
proof (cases "escapes 0 (Split slash path)")
  case True
  with assms escapes_height [of 0 "Split slash path"] show ?thesis
    by (simp add: resolveFilesystemPath_def filesystem_target_def relativePathEscapesBase_def)
next
  case False
  let ?ss = "Split slash path"
  let ?T = "B @ clean_segs True ?ss []"
  have plain: "\<forall>s \<in> set ?ss. slash \<notin> set s" using Split_no_sep by blast
  then have T: "tidy ?T" using assms(3) clean_segs_tidy [of ?ss "[]"] by simp
  have "clean_segs True (Split slash (render True B @ slash # path)) [] = clean_segs True ?ss (rev B)"
    using assms(3) clean_segs_push [of B ?ss "[]"] by (simp add: Split_append Split_render)
  also have "\<dots> = ?T" using clean_segs_above [of "[]" ?ss B] False plain by simp
  finally have "Clean (render True B @ slash # path) = render True ?T" by (simp add: Clean_def IsAbs_append)
  then have "Clean (path_Join [render True B, path]) = render True ?T" using T by (simp add: path_Join_abs Clean_render)
  with assms False T escapes_height [of 0 ?ss] show ?thesis
    by (simp add: resolveFilesystemPath_def filesystem_target_def relativePathEscapesBase_def containsFilesystemPath_iff)
qed

end
