(* ===== verification/PatchUpdate.thy ===== *)
theory PatchUpdate
  imports GoUtf8
begin

text \<open>
  How the patch tool edits a file, \<open>protocol/tool/service/system/patch/{seek_sequence,update}.go\<close>: the old
  lines of a chunk are searched in the file with four grades of leniency, every chunk becomes a replacement
  of a range of lines, and the replacements are applied from the last to the first.

  The index into the lines is a natural number; the result of the search is an integer, \<open>-1\<close> for not found.
  \<open>sort.Slice\<close> sorts up to twelve elements by insertion, which is stable as the sort of the model is; beyond it is
  not. This matters for equal starts only, that is for several insertions at the end of the file, which the
  theorems leave out.
\<close>

section \<open>Searching a sequence of lines\<close>

text \<open>\<open>strings.TrimRight\<close> with the cutset of a space, a tab, a carriage return and a newline.\<close>

definition trim_end :: "string \<Rightarrow> string" where
  "trim_end s = rev (dropWhile (\<lambda>c. c \<in> set [CHR 0x20, CHR 0x09, CHR 0x0D, CHR 0x0A]) (rev s))"

text \<open>The rune classes of \<open>normalizePunctuation\<close>, by their UTF-8 bytes.\<close>

definition dash_runes :: "string list" where
  "dash_runes = [[CHR 0xE2, CHR 0x80, CHR 0x90], [CHR 0xE2, CHR 0x80, CHR 0x91], [CHR 0xE2, CHR 0x80, CHR 0x92],
     [CHR 0xE2, CHR 0x80, CHR 0x93], [CHR 0xE2, CHR 0x80, CHR 0x94], [CHR 0xE2, CHR 0x80, CHR 0x95], [CHR 0xE2, CHR 0x88, CHR 0x92]]"

definition quote_runes :: "string list" where
  "quote_runes = [[CHR 0xE2, CHR 0x80, CHR 0x98], [CHR 0xE2, CHR 0x80, CHR 0x99], [CHR 0xE2, CHR 0x80, CHR 0x9A], [CHR 0xE2, CHR 0x80, CHR 0x9B]]"

definition double_quote_runes :: "string list" where
  "double_quote_runes = [[CHR 0xE2, CHR 0x80, CHR 0x9C], [CHR 0xE2, CHR 0x80, CHR 0x9D], [CHR 0xE2, CHR 0x80, CHR 0x9E], [CHR 0xE2, CHR 0x80, CHR 0x9F]]"

definition space_runes :: "string list" where
  "space_runes = [[CHR 0xC2, CHR 0xA0], [CHR 0xE2, CHR 0x80, CHR 0x82], [CHR 0xE2, CHR 0x80, CHR 0x83], [CHR 0xE2, CHR 0x80, CHR 0x84],
     [CHR 0xE2, CHR 0x80, CHR 0x85], [CHR 0xE2, CHR 0x80, CHR 0x86], [CHR 0xE2, CHR 0x80, CHR 0x87], [CHR 0xE2, CHR 0x80, CHR 0x88],
     [CHR 0xE2, CHR 0x80, CHR 0x89], [CHR 0xE2, CHR 0x80, CHR 0x8A], [CHR 0xE2, CHR 0x80, CHR 0xAF], [CHR 0xE2, CHR 0x81, CHR 0x9F],
     [CHR 0xE3, CHR 0x80, CHR 0x80]]"

text \<open>An invalid byte decodes to U+FFFD and is written as such.\<close>

definition write_rune :: "string \<Rightarrow> string" where
  "write_rune r =
     (case r of [c] \<Rightarrow> if (of_char c :: nat) < 0x80 then r else [CHR 0xEF, CHR 0xBF, CHR 0xBD] | _ \<Rightarrow> r)"

definition normalize_rune :: "string \<Rightarrow> string" where
  "normalize_rune r =
     (if r \<in> set dash_runes then ''-''
      else if r \<in> set quote_runes then [CHR 0x27]
      else if r \<in> set double_quote_runes then [CHR 0x22]
      else if r \<in> set space_runes then '' ''
      else write_rune r)"

definition normalizePunctuation :: "string \<Rightarrow> string" where
  "normalizePunctuation s = concat (map normalize_rune (runes (TrimSpace s)))"

text \<open>The inner loop: lines \<open>i, i+1, \<dots>\<close> against the pattern, up to the normalisation \<open>f\<close>.\<close>

fun match_at :: "(string \<Rightarrow> string) \<Rightarrow> string list \<Rightarrow> nat \<Rightarrow> string list \<Rightarrow> bool" where
  "match_at f lines i [] = True"
| "match_at f lines i (p # pat) = (f (lines ! i) = f p \<and> match_at f lines (Suc i) pat)"

definition equalSlice :: "string list \<Rightarrow> string list \<Rightarrow> bool" where
  "equalSlice a b \<longleftrightarrow> length a = length b \<and> list_all (\<lambda>i. a ! i = b ! i) [0..<length a]"

text \<open>\<open>for i := searchStart; i <= maxStart; i++\<close> with the return in its body.\<close>

function first_from :: "(nat \<Rightarrow> bool) \<Rightarrow> nat \<Rightarrow> nat \<Rightarrow> nat option" where
  "first_from ok i maxStart =
     (if i \<le> maxStart then if ok i then Some i else first_from ok (Suc i) maxStart else None)"
  by pat_completeness auto
termination
  by (relation "measure (\<lambda>(ok, i, maxStart). Suc maxStart - i)") auto

declare first_from.simps [simp del]

definition seekSequence :: "string list \<Rightarrow> string list \<Rightarrow> nat \<Rightarrow> bool \<Rightarrow> int" where
  "seekSequence lines pat start eof =
     (if pat = [] then int start
      else if length pat > length lines then -1
      else
        let searchStart = (if eof \<and> length lines \<ge> length pat then length lines - length pat else start);
            maxStart = length lines - length pat in
        case first_from (\<lambda>i. equalSlice (take (length pat) (drop i lines)) pat) searchStart maxStart of
          Some i \<Rightarrow> int i
        | None \<Rightarrow>
          (case first_from (\<lambda>i. match_at trim_end lines i pat) searchStart maxStart of
             Some i \<Rightarrow> int i
           | None \<Rightarrow>
             (case first_from (\<lambda>i. match_at TrimSpace lines i pat) searchStart maxStart of
                Some i \<Rightarrow> int i
              | None \<Rightarrow>
                (case first_from (\<lambda>i. match_at normalizePunctuation lines i pat) searchStart maxStart of
                   Some i \<Rightarrow> int i
                 | None \<Rightarrow> -1))))"

section \<open>Applying chunks\<close>

record UpdateChunk =
  ChangeContext :: string
  OldLines :: "string list"
  NewLines :: "string list"
  IsEOF :: bool

record replacement =
  rp_start :: nat
  rp_oldLen :: nat
  rp_newLines :: "string list"

datatype patch_error =
    ContextNotFound string string
  | LinesNotFound string "string list"

text \<open>The second attempt of a chunk whose old lines end with an empty line: without that line.\<close>

definition drop_blank_tail :: "string list \<Rightarrow> string list" where
  "drop_blank_tail ls = (if ls \<noteq> [] \<and> List.last ls = [] then butlast ls else ls)"

definition locate :: "string list \<Rightarrow> nat \<Rightarrow> UpdateChunk \<Rightarrow> int \<times> string list \<times> string list" where
  "locate lines lineIndex chunk =
     (let pat = OldLines chunk; newSlice = NewLines chunk;
          found = seekSequence lines pat lineIndex (IsEOF chunk) in
      if found < 0 \<and> pat \<noteq> [] \<and> List.last pat = []
      then (seekSequence lines (butlast pat) lineIndex (IsEOF chunk), butlast pat, drop_blank_tail newSlice)
      else (found, pat, newSlice))"

definition insertionIdx :: "string list \<Rightarrow> nat" where
  "insertionIdx lines = (if lines \<noteq> [] \<and> List.last lines = [] then length lines - 1 else length lines)"

definition after_context :: "string list \<Rightarrow> string \<Rightarrow> nat \<Rightarrow> UpdateChunk \<Rightarrow> patch_error + nat" where
  "after_context lines path lineIndex chunk =
     (if ChangeContext chunk = [] then Inr lineIndex
      else let idx = seekSequence lines [ChangeContext chunk] lineIndex False in
        if idx < 0 then Inl (ContextNotFound (ChangeContext chunk) path) else Inr (nat idx + 1))"

fun chunk_loop :: "string list \<Rightarrow> string \<Rightarrow> nat \<Rightarrow> UpdateChunk list \<Rightarrow> replacement list \<Rightarrow> patch_error + replacement list" where
  "chunk_loop lines path lineIndex [] reps = Inr reps"
| "chunk_loop lines path lineIndex (chunk # chunks) reps =
     (case after_context lines path lineIndex chunk of
        Inl e \<Rightarrow> Inl e
      | Inr lineIndex1 \<Rightarrow>
          if OldLines chunk = []
          then chunk_loop lines path lineIndex1 chunks
                 (reps @ [\<lparr>rp_start = insertionIdx lines, rp_oldLen = 0, rp_newLines = NewLines chunk\<rparr>])
          else
            case locate lines lineIndex1 chunk of (found, pat, newSlice) \<Rightarrow>
              if found < 0 then Inl (LinesNotFound path (OldLines chunk))
              else chunk_loop lines path (nat found + length pat) chunks
                     (reps @ [\<lparr>rp_start = nat found, rp_oldLen = length pat, rp_newLines = newSlice\<rparr>]))"

definition computeReplacements :: "string list \<Rightarrow> string \<Rightarrow> UpdateChunk list \<Rightarrow> patch_error + replacement list" where
  "computeReplacements lines path chunks =
     (case chunk_loop lines path 0 chunks [] of Inl e \<Rightarrow> Inl e | Inr reps \<Rightarrow> Inr (sort_key rp_start reps))"

definition apply_one :: "replacement \<Rightarrow> string list \<Rightarrow> string list" where
  "apply_one r out =
     (let e = min (rp_start r + rp_oldLen r) (length out) in
      take (rp_start r) out @ rp_newLines r @ drop e out)"

fun applyReplacements :: "string list \<Rightarrow> replacement list \<Rightarrow> string list" where
  "applyReplacements lines [] = lines"
| "applyReplacements lines (r # reps) = apply_one r (applyReplacements lines reps)"

definition file_lines :: "string \<Rightarrow> string list" where
  "file_lines oldData = (let ls = Split nl oldData in if ls \<noteq> [] \<and> List.last ls = [] then butlast ls else ls)"

definition join_lines :: "string list \<Rightarrow> string" where
  "join_lines newLines = Join [nl] (if newLines = [] \<or> List.last newLines \<noteq> [] then newLines @ [[]] else newLines)"

definition applyUpdate :: "string \<Rightarrow> UpdateChunk list \<Rightarrow> string \<Rightarrow> patch_error + string" where
  "applyUpdate oldData chunks path =
     (case computeReplacements (file_lines oldData) path chunks of
        Inl e \<Rightarrow> Inl e
      | Inr reps \<Rightarrow> Inr (join_lines (applyReplacements (file_lines oldData) reps)))"

section \<open>The search\<close>

definition levels :: "(string \<Rightarrow> string) list" where
  "levels = [id, trim_end, TrimSpace, normalizePunctuation]"

text \<open>A pattern fits at \<open>i\<close> in the grade \<open>f\<close>.\<close>

definition hit :: "(string \<Rightarrow> string) \<Rightarrow> string list \<Rightarrow> string list \<Rightarrow> nat \<Rightarrow> bool" where
  "hit f lines pat i \<longleftrightarrow> i + length pat \<le> length lines \<and> map f (take (length pat) (drop i lines)) = map f pat"

lemma equalSlice_eq: "equalSlice a b \<longleftrightarrow> a = b"
  by (auto simp: equalSlice_def list_all_iff intro: nth_equalityI)

lemma first_from_Some:
  "first_from ok i m = Some k \<longleftrightarrow> i \<le> k \<and> k \<le> m \<and> ok k \<and> (\<forall>j. i \<le> j \<and> j < k \<longrightarrow> \<not> ok j)"
proof (induction ok i m rule: first_from.induct)
  case (1 ok i m)
  show ?case
  proof (cases "i \<le> m \<and> \<not> ok i")
    case True
    with "1.IH" have "first_from ok i m = Some k \<longleftrightarrow> Suc i \<le> k \<and> k \<le> m \<and> ok k \<and> (\<forall>j. Suc i \<le> j \<and> j < k \<longrightarrow> \<not> ok j)"
      by (simp add: first_from.simps [of ok i m])
    also have "\<dots> \<longleftrightarrow> i \<le> k \<and> k \<le> m \<and> ok k \<and> (\<forall>j. i \<le> j \<and> j < k \<longrightarrow> \<not> ok j)"
      using True by (metis Suc_leD Suc_leI le_neq_implies_less)
    finally show ?thesis .
  next
    case False
    then show ?thesis by (auto simp: first_from.simps [of ok i m] not_le)
  qed
qed

lemma first_from_None: "first_from ok i m = None \<longleftrightarrow> (\<forall>j. i \<le> j \<and> j \<le> m \<longrightarrow> \<not> ok j)"
proof (induction ok i m rule: first_from.induct)
  case (1 ok i m)
  show ?case
  proof (cases "i \<le> m \<and> \<not> ok i")
    case True
    with "1.IH" have "first_from ok i m = None \<longleftrightarrow> (\<forall>j. Suc i \<le> j \<and> j \<le> m \<longrightarrow> \<not> ok j)"
      by (simp add: first_from.simps [of ok i m])
    with True show ?thesis by (metis Suc_leD Suc_leI le_neq_implies_less)
  next
    case False
    then show ?thesis by (auto simp: first_from.simps [of ok i m] not_le)
  qed
qed

lemma match_at_map:
  "i + length pat \<le> length lines \<Longrightarrow> match_at f lines i pat \<longleftrightarrow> map f (take (length pat) (drop i lines)) = map f pat"
proof (induction pat arbitrary: i)
  case (Cons p pat)
  then have "drop i lines = lines ! i # drop (Suc i) lines" by (simp add: Cons_nth_drop_Suc)
  with Cons.IH [of "Suc i"] Cons.prems show ?case by simp
qed simp

lemma ok_hit:
  "j \<le> length lines - length pat \<Longrightarrow> length pat \<le> length lines \<Longrightarrow> match_at f lines j pat \<longleftrightarrow> hit f lines pat j"
  "j \<le> length lines - length pat \<Longrightarrow> length pat \<le> length lines \<Longrightarrow>
     equalSlice (take (length pat) (drop j lines)) pat \<longleftrightarrow> hit id lines pat j"
  by (auto simp: match_at_map hit_def equalSlice_eq le_diff_conv2)

text \<open>The result of the four loops, each grade by its first position.\<close>

fun search :: "(string \<Rightarrow> string) list \<Rightarrow> string list \<Rightarrow> string list \<Rightarrow> nat \<Rightarrow> int" where
  "search [] lines pat s = -1"
| "search (f # fs) lines pat s =
     (case first_from (hit f lines pat) s (length lines - length pat) of Some i \<Rightarrow> int i | None \<Rightarrow> search fs lines pat s)"

definition search_start :: "string list \<Rightarrow> string list \<Rightarrow> nat \<Rightarrow> bool \<Rightarrow> nat" where
  "search_start lines pat start eof = (if eof then length lines - length pat else start)"

lemma first_from_cong:
  assumes "\<And>j. j \<le> m \<Longrightarrow> ok j = ok' j"
  shows "first_from ok i m = first_from ok' i m"
proof (cases "first_from ok' i m")
  case None
  with assms have "first_from ok i m = None" by (simp add: first_from_None)
  with None show ?thesis by simp
next
  case (Some k)
  then have k: "i \<le> k" "k \<le> m" "ok' k" by (auto simp: first_from_Some)
  have no: "\<not> ok' j" if "i \<le> j" "j < k" for j using that Some by (auto simp: first_from_Some)
  have "\<not> ok j" if "i \<le> j" "j < k" for j using that no k(2) assms [of j] by simp
  then have "first_from ok i m = Some k" using k assms [of k] by (simp add: first_from_Some)
  with Some show ?thesis by simp
qed

lemma seek_search:
  assumes "pat \<noteq> []" "length pat \<le> length lines"
  shows "seekSequence lines pat start eof = search levels lines pat (search_start lines pat start eof)"
proof -
  let ?m = "length lines - length pat"
  have f: "first_from (\<lambda>i. match_at f lines i pat) s ?m = first_from (hit f lines pat) s ?m" for f s
    by (rule first_from_cong) (simp add: ok_hit assms)
  have e: "first_from (\<lambda>i. equalSlice (take (length pat) (drop i lines)) pat) s ?m = first_from (hit id lines pat) s ?m" for s
    by (rule first_from_cong) (simp add: ok_hit assms)
  show ?thesis using assms by (simp add: seekSequence_def Let_def f e levels_def search_start_def cong: option.case_cong)
qed

lemma search_neg:
  "search fs lines pat s < 0 \<longleftrightarrow> (\<forall>f \<in> set fs. \<forall>j. s \<le> j \<and> j \<le> length lines - length pat \<longrightarrow> \<not> hit f lines pat j)"
  by (induction fs) (auto split: option.split simp: first_from_None first_from_Some)

lemma search_found:
  "search fs lines pat s = int i \<Longrightarrow>
   \<exists>pre f post. fs = pre @ f # post \<and> s \<le> i \<and> hit f lines pat i \<and> (\<forall>j. s \<le> j \<and> j < i \<longrightarrow> \<not> hit f lines pat j) \<and>
     (\<forall>g \<in> set pre. \<forall>j. s \<le> j \<and> j \<le> length lines - length pat \<longrightarrow> \<not> hit g lines pat j)"
proof (induction fs)
  case (Cons f fs)
  show ?case
  proof (cases "first_from (hit f lines pat) s (length lines - length pat)")
    case None
    with Cons obtain pre g post where "fs = pre @ g # post" "s \<le> i" "hit g lines pat i"
      "\<forall>j. s \<le> j \<and> j < i \<longrightarrow> \<not> hit g lines pat j"
      "\<forall>g \<in> set pre. \<forall>j. s \<le> j \<and> j \<le> length lines - length pat \<longrightarrow> \<not> hit g lines pat j" by auto
    with None show ?thesis by (intro exI [of _ "f # pre"] exI [of _ g] exI [of _ post]) (simp add: first_from_None)
  next
    case (Some k)
    with Cons.prems have "k = i" by simp
    with Some show ?thesis by (intro exI [of _ "[]"] exI [of _ f] exI [of _ fs]) (simp add: first_from_Some)
  qed
qed simp

text \<open>The search by its grades.\<close>

lemma seek_grades:
  assumes "pat \<noteq> []"
  shows "(seekSequence lines pat start eof < 0 \<longleftrightarrow>
            (\<forall>f \<in> set levels. \<forall>j. search_start lines pat start eof \<le> j \<longrightarrow> \<not> hit f lines pat j)) \<and>
         (\<forall>i. seekSequence lines pat start eof = int i \<longrightarrow>
            (\<exists>pre f post. levels = pre @ f # post \<and> search_start lines pat start eof \<le> i \<and> hit f lines pat i \<and>
               (\<forall>j. search_start lines pat start eof \<le> j \<and> j < i \<longrightarrow> \<not> hit f lines pat j) \<and>
               (\<forall>g \<in> set pre. \<forall>j. search_start lines pat start eof \<le> j \<longrightarrow> \<not> hit g lines pat j)))"
proof (cases "length pat \<le> length lines")
  case True
  let ?s = "search_start lines pat start eof"
  have out: "(\<forall>j. ?s \<le> j \<and> j \<le> length lines - length pat \<longrightarrow> \<not> hit f lines pat j) \<longleftrightarrow> (\<forall>j. ?s \<le> j \<longrightarrow> \<not> hit f lines pat j)" for f
    by (auto simp: hit_def)
  show ?thesis
    using search_neg [of levels lines pat ?s] search_found [of levels lines pat ?s]
    unfolding seek_search [OF assms True] out by blast
next
  case False
  with assms show ?thesis by (auto simp: seekSequence_def hit_def)
qed

text \<open>The search fails exactly when no grade fits anywhere from the start on (or, with the end-of-file mark,
  at the end). Otherwise it gives the first position of the strictest grade that fits at all.\<close>

theorem seekSequence_spec:
  assumes "pat \<noteq> []"
  shows "(seekSequence lines pat start eof < 0 \<longleftrightarrow>
            (\<forall>f \<in> set levels. \<forall>j. search_start lines pat start eof \<le> j \<longrightarrow> \<not> hit f lines pat j)) \<and>
         (\<forall>i. seekSequence lines pat start eof = int i \<longrightarrow>
            (\<exists>pre f post. levels = pre @ f # post \<and> search_start lines pat start eof \<le> i \<and> hit f lines pat i \<and>
               (\<forall>j. search_start lines pat start eof \<le> j \<and> j < i \<longrightarrow> \<not> hit f lines pat j) \<and>
               (\<forall>g \<in> set pre. \<forall>j. search_start lines pat start eof \<le> j \<longrightarrow> \<not> hit g lines pat j)))"
  using assms by (rule seek_grades)

section \<open>The edit\<close>

definition edit :: "UpdateChunk \<Rightarrow> string list \<Rightarrow> string list \<Rightarrow> bool" where
  "edit c old new \<longleftrightarrow> old = OldLines c \<and> new = NewLines c \<or>
     OldLines c \<noteq> [] \<and> List.last (OldLines c) = [] \<and> old = butlast (OldLines c) \<and> new = drop_blank_tail (NewLines c)"

definition fits :: "string list \<Rightarrow> string list \<Rightarrow> bool" where
  "fits old found \<longleftrightarrow> (\<exists>f \<in> set levels. map f found = map f old)"

definition context_in :: "UpdateChunk \<Rightarrow> string list \<Rightarrow> bool" where
  "context_in c keep \<longleftrightarrow> ChangeContext c = [] \<or> (\<exists>l \<in> set keep. fits [ChangeContext c] [l])"

text \<open>What an update may do to the lines of a file: keep lines, exchange lines that fit the old lines of the
  next chunk for its new lines, and go on behind them; a last chunk without old lines adds its lines at the end.\<close>

inductive patched :: "UpdateChunk list \<Rightarrow> string list \<Rightarrow> string list \<Rightarrow> bool" where
  patched_done: "patched [] rest rest"
| patched_chunk: "edit c old new \<Longrightarrow> fits old found \<Longrightarrow> context_in c keep \<Longrightarrow> patched cs rest rest' \<Longrightarrow>
    patched (c # cs) (keep @ found @ rest) (keep @ new @ rest')"
| patched_end: "OldLines c = [] \<Longrightarrow> context_in c rest \<Longrightarrow> patched [c] rest (rest @ NewLines c)"

text \<open>Replacements from left to right, and the shape the chunks give them.\<close>

fun splice :: "nat \<Rightarrow> string list \<Rightarrow> replacement list \<Rightarrow> string list" where
  "splice p lines [] = drop p lines"
| "splice p lines (r # rs) = take (rp_start r - p) (drop p lines) @ rp_newLines r @ splice (rp_start r + rp_oldLen r) lines rs"

fun in_order :: "nat \<Rightarrow> nat \<Rightarrow> replacement list \<Rightarrow> bool" where
  "in_order n p [] = (p \<le> n)"
| "in_order n p (r # rs) = (p \<le> rp_start r \<and> rp_start r + rp_oldLen r \<le> n \<and> in_order n (rp_start r + rp_oldLen r) rs)"

lemma in_order_ge: "in_order n p rs \<Longrightarrow> r \<in> set rs \<Longrightarrow> p \<le> rp_start r"
  by (induction n p rs rule: in_order.induct) (auto intro: le_trans dest: add_leD1)

lemma in_order_sort: "in_order n p rs \<Longrightarrow> sort_key rp_start rs = rs"
proof (rule sort_key_id_if_sorted)
  show "in_order n p rs \<Longrightarrow> sorted (map rp_start rs)"
    by (induction n p rs rule: in_order.induct) (auto dest: in_order_ge add_leD1)
qed

text \<open>Applying from the last to the first is the same as one pass from left to right.\<close>

lemma apply_splice:
  "in_order (length lines) p rs \<Longrightarrow> applyReplacements lines rs = take p lines @ splice p lines rs"
proof (induction rs arbitrary: p)
  case (Cons r rs)
  let ?q = "rp_start r + rp_oldLen r"
  have q: "p \<le> rp_start r" "?q \<le> length lines" using Cons.prems by auto
  have "take (rp_start r) lines = take p lines @ take (rp_start r - p) (drop p lines)"
    using q by (metis le_add_diff_inverse take_add)
  with q Cons show ?case by (simp add: apply_one_def Let_def min_def)
qed simp

section \<open>What the chunks become\<close>

lemma fits_refl: "fits old old"
  by (auto simp: fits_def levels_def)

lemma hit_window:
  "hit f lines pat i \<Longrightarrow> f \<in> set levels \<Longrightarrow> fits pat (take (length pat) (drop i lines)) \<and> i + length pat \<le> length lines"
  by (auto simp: hit_def fits_def)

text \<open>A search that succeeds gives a place behind the start, if it is not bound to the end of the file.\<close>

lemma seek_found:
  assumes "seekSequence lines pat start eof = int i" "start \<le> length lines"
  shows "fits pat (take (length pat) (drop i lines)) \<and> i + length pat \<le> length lines \<and> (\<not> eof \<or> start = 0 \<longrightarrow> start \<le> i)"
proof (cases "pat = []")
  case True
  then show ?thesis using assms by (simp add: seekSequence_def fits_refl)
next
  case False
  then obtain f where "f \<in> set levels" "search_start lines pat start eof \<le> i" "hit f lines pat i"
    using seek_grades [OF False, of lines start eof] assms(1) by (metis in_set_conv_decomp)
  with hit_window [of f lines pat i] show ?thesis by (auto simp: search_start_def)
qed

lemma seek_int: "\<not> seekSequence lines pat start eof < 0 \<Longrightarrow> seekSequence lines pat start eof = int (nat (seekSequence lines pat start eof))"
  by simp

lemma locate_found:
  assumes "locate lines li c = (found, pat, newSlice)" "\<not> found < 0" "li \<le> length lines" "IsEOF c \<longrightarrow> li = 0"
  shows "edit c pat newSlice \<and> fits pat (take (length pat) (drop (nat found) lines)) \<and>
         li \<le> nat found \<and> nat found + length pat \<le> length lines"
proof -
  have f: "found = seekSequence lines pat li (IsEOF c)" and e: "edit c pat newSlice"
    using assms(1) by (auto simp: locate_def Let_def edit_def split: if_splits)
  then have "seekSequence lines pat li (IsEOF c) = int (nat found)" using assms(2) by simp
  from seek_found [OF this assms(3)] e assms(4) show ?thesis by auto
qed

lemma after_context_found:
  assumes "after_context lines path li c = Inr li1" "li \<le> length lines"
  shows "li \<le> li1 \<and> li1 \<le> length lines \<and> (li1 \<le> k \<longrightarrow> context_in c (take (k - li) (drop li lines)))"
proof (cases "ChangeContext c = []")
  case True
  then show ?thesis using assms by (simp add: after_context_def context_in_def)
next
  case False
  let ?s = "seekSequence lines [ChangeContext c] li False"
  have "\<not> ?s < 0" and li1: "li1 = Suc (nat ?s)"
    using assms False by (auto simp: after_context_def Let_def split: if_splits)
  then have "?s = int (nat ?s)" by simp
  from seek_found [OF this assms(2)] have s: "fits [ChangeContext c] (take 1 (drop (nat ?s) lines))" "nat ?s < length lines" "li \<le> nat ?s" by auto
  have "take 1 (drop (nat ?s) lines) = [lines ! nat ?s]" using s(2) by (simp add: take_Suc hd_drop_conv_nth)
  moreover have "lines ! nat ?s \<in> set (take (k - li) (drop li lines))" if "li1 \<le> k"
    using that s li1 by (auto simp: in_set_conv_nth intro!: exI [of _ "nat ?s - li"])
  ultimately show ?thesis using s li1 by (auto simp: context_in_def)
qed

text \<open>An end-of-file mark is trusted on the first chunk only: it searches the end of the original file, whatever
  the chunks before it have taken.\<close>

fun eof_first :: "UpdateChunk list \<Rightarrow> bool" where
  "eof_first [] = True"
| "eof_first (c # cs) = ((IsEOF c \<longrightarrow> OldLines c = [] \<or> ChangeContext c = []) \<and> (\<forall>d \<in> set cs. IsEOF d \<longrightarrow> OldLines d = []))"

text \<open>A chunk without old lines is the last one, in a file that does not end with an empty line.\<close>

fun insertion_last :: "string list \<Rightarrow> UpdateChunk list \<Rightarrow> bool" where
  "insertion_last lines [] = True"
| "insertion_last lines (c # cs) =
     ((OldLines c = [] \<longrightarrow> cs = [] \<and> insertionIdx lines = length lines) \<and> insertion_last lines cs)"

lemma take_drop_split:
  "li \<le> k \<Longrightarrow> drop li xs = take (k - li) (drop li xs) @ take n (drop k xs) @ drop (k + n) (xs :: 'a list)"
  by (metis append_take_drop_id drop_drop le_add_diff_inverse2 add.commute)

lemma chunk_loop_patched:
  assumes "chunk_loop lines path li chunks reps0 = Inr reps" "li \<le> length lines"
    "insertion_last lines chunks" "eof_first chunks" "li = 0 \<or> (\<forall>c \<in> set chunks. IsEOF c \<longrightarrow> OldLines c = [])"
  shows "\<exists>rs. reps = reps0 @ rs \<and> in_order (length lines) li rs \<and> patched chunks (drop li lines) (splice li lines rs)"
  using assms
proof (induction chunks arbitrary: li reps0)
  case Nil
  then show ?case by (auto intro: patched_done)
next
  case (Cons c cs)
  obtain li1 where li1: "after_context lines path li c = Inr li1"
    using Cons.prems(1) by (cases "after_context lines path li c") auto
  note ctx = after_context_found [OF li1 Cons.prems(2)]
  show ?case
  proof (cases "OldLines c = []")
    case True
    let ?r = "\<lparr>rp_start = length lines, rp_oldLen = 0, rp_newLines = NewLines c\<rparr>"
    have "cs = []" "reps = reps0 @ [?r]" using True Cons.prems(1,3) li1 by auto
    moreover have "context_in c (drop li lines)" using ctx Cons.prems(2) by (metis le_refl take_all length_drop)
    ultimately show ?thesis using patched_end [OF True] Cons.prems(2) by (intro exI [of _ "[?r]"]) simp
  next
    case False
    obtain found pat newSlice where loc: "locate lines li1 c = (found, pat, newSlice)" by (cases "locate lines li1 c") auto
    let ?r = "\<lparr>rp_start = nat found, rp_oldLen = length pat, rp_newLines = newSlice\<rparr>"
    have loop: "chunk_loop lines path (nat found + length pat) cs (reps0 @ [?r]) = Inr reps" and pos: "\<not> found < 0"
      using Cons.prems(1) False li1 loc by (auto split: if_splits)
    have "IsEOF c \<longrightarrow> li1 = 0" using Cons.prems(4,5) False li1 by (auto simp: after_context_def)
    with locate_found [OF loc pos] ctx have e: "edit c pat newSlice" "fits pat (take (length pat) (drop (nat found) lines))"
      "li1 \<le> nat found" "nat found + length pat \<le> length lines" by auto
    have marks: "\<forall>d \<in> set cs. IsEOF d \<longrightarrow> OldLines d = []" "insertion_last lines cs"
      using Cons.prems(3,4) unfolding eof_first.simps insertion_last.simps by blast+
    have "eof_first cs" using marks(1) by (cases cs) simp_all
    with Cons.IH [OF loop e(4) marks(2)] marks(1) obtain rs where rs: "reps = (reps0 @ [?r]) @ rs" "in_order (length lines) (nat found + length pat) rs"
      "patched cs (drop (nat found + length pat) lines) (splice (nat found + length pat) lines rs)" by blast
    have le: "li \<le> nat found" using conjunct1 [OF ctx] e(3) by (rule le_trans)
    have "context_in c (take (nat found - li) (drop li lines))" using ctx e(3) by blast
    from patched_chunk [OF e(1,2) this rs(3)]
    have "patched (c # cs) (drop li lines) (splice li lines (?r # rs))"
      using take_drop_split [OF le, of lines "length pat"] by simp
    moreover have "in_order (length lines) li (?r # rs)" using rs(2) le e(4) by simp
    moreover have "reps = reps0 @ (?r # rs)" using rs(1) by simp
    ultimately show ?thesis by blast
  qed
qed

text \<open>C15: an update that succeeds changes the file only as its chunks say. The lines of the new file come from those
  of the old one by exchanging, from the top to the bottom, a run of lines that fits the old lines of each chunk for its new
  lines, behind a line that fits the chunk's context, and a last chunk without old lines adds its lines at the end; all
  other lines stay. The theorem is about chunks of this kind: chunks with old lines, at most the last one without
  (then the file does not end with an empty line), and no end-of-file mark on a chunk with old lines after the first
  chunk or behind a context. For others it does not hold (\<open>eof_chunk_lost\<close>, \<open>insertion_lost\<close>).\<close>

theorem applyUpdate_sound:
  assumes "applyUpdate oldData chunks path = Inr newData" "insertion_last (file_lines oldData) chunks" "eof_first chunks"
  shows "\<exists>newLines. patched chunks (file_lines oldData) newLines \<and> newData = join_lines newLines"
proof -
  let ?ls = "file_lines oldData"
  obtain reps where loop: "chunk_loop ?ls path 0 chunks [] = Inr reps" and
    new: "newData = join_lines (applyReplacements ?ls (sort_key rp_start reps))"
    using assms(1) by (auto simp: applyUpdate_def computeReplacements_def split: sum.splits)
  from chunk_loop_patched [OF loop _ assms(2,3)]
  have "in_order (length ?ls) 0 reps" "patched chunks ?ls (splice 0 ?ls reps)" by auto
  with new show ?thesis by (auto simp: in_order_sort apply_splice [of _ 0])
qed

theorem applyUpdate_sound_witness:
  "let c = \<lparr>ChangeContext = [], OldLines = [''b''], NewLines = [''x'', ''y''], IsEOF = True\<rparr>;
       d = \<lparr>ChangeContext = [], OldLines = [], NewLines = [''z''], IsEOF = False\<rparr>; text = ''a'' @ [nl] @ ''b'' @ [nl];
       new = ''a'' @ [nl] @ ''x'' @ [nl] @ ''y'' @ [nl] @ ''z'' @ [nl] in
   applyUpdate text [c, d] ''p'' = Inr new \<and> (\<exists>newLines. patched [c, d] (file_lines text) newLines \<and> join_lines newLines = new)"
proof -
  let ?c = "\<lparr>ChangeContext = [], OldLines = [''b''], NewLines = [''x'', ''y''], IsEOF = True\<rparr>"
  let ?text = "''a'' @ [nl] @ ''b'' @ [nl]"
  let ?d = "\<lparr>ChangeContext = [], OldLines = [], NewLines = [''z''], IsEOF = False\<rparr>"
  have run: "applyUpdate ?text [?c, ?d] ''p'' = Inr (''a'' @ [nl] @ ''x'' @ [nl] @ ''y'' @ [nl] @ ''z'' @ [nl])"
    and "insertionIdx (file_lines ?text) = length (file_lines ?text)" by code_simp+
  from applyUpdate_sound [OF run] this run show ?thesis by (auto simp: Let_def)
qed

section \<open>Patches that apply\<close>

text \<open>The old lines of the chunks occur in the file literally, one after the other.\<close>

inductive exact :: "UpdateChunk list \<Rightarrow> string list \<Rightarrow> bool" where
  exact_done: "exact [] rest"
| exact_chunk: "exact cs rest \<Longrightarrow> exact (c # cs) (keep @ OldLines c @ rest)"

inductive_cases exact_ConsE: "exact (c # cs) ls"

lemma exact_append: "exact cs rest \<Longrightarrow> exact cs (keep @ rest)"
proof (induction rule: exact.cases [consumes 1])
  case (exact_chunk cs' rest' c keep')
  then show ?case using exact.exact_chunk [of cs' rest' c "keep @ keep'"] by simp
qed (simp add: exact_done)

lemma exact_grow: "exact cs (drop li lines) \<Longrightarrow> li' \<le> li \<Longrightarrow> exact cs (drop li' lines)"
  by (metis append_take_drop_id drop_drop exact_append le_add_diff_inverse2)

text \<open>A literal occurrence stops the search there or before.\<close>

lemma seek_exact:
  assumes "pat \<noteq> []" "hit id lines pat i" "start \<le> i"
  shows "\<exists>k \<le> i. seekSequence lines pat start False = int k"
proof -
  let ?k = "seekSequence lines pat start False"
  note found = seek_grades [OF assms(1), of lines start False]
  have "id \<in> set levels" by (simp add: levels_def)
  with assms found have "\<not> ?k < 0" by (auto simp: search_start_def)
  then have k: "?k = int (nat ?k)" by simp
  from mp [OF spec [OF conjunct2 [OF found], of "nat ?k"] this] obtain pre f post where split: "levels = pre @ f # post" and
    first: "\<forall>j. start \<le> j \<and> j < nat ?k \<longrightarrow> \<not> hit f lines pat j" and
    strict: "\<forall>g \<in> set pre. \<forall>j. start \<le> j \<longrightarrow> \<not> hit g lines pat j"
    by (auto simp: search_start_def)
  have "pre = []"
  proof (rule ccontr)
    assume "pre \<noteq> []"
    with split have "id \<in> set pre" by (cases pre) (auto simp: levels_def)
    with strict assms show False by blast
  qed
  with split have "f = id" by (simp add: levels_def)
  with first assms have "nat ?k \<le> i" by (meson not_le)
  with k show ?thesis by blast
qed

lemma chunk_loop_exact:
  "exact chunks (drop li lines) \<Longrightarrow> li \<le> length lines \<Longrightarrow>
   \<forall>c \<in> set chunks. OldLines c \<noteq> [] \<and> ChangeContext c = [] \<and> \<not> IsEOF c \<Longrightarrow>
   \<exists>reps. chunk_loop lines path li chunks reps0 = Inr reps"
proof (induction chunks arbitrary: li reps0)
  case (Cons c cs)
  let ?n = "length (OldLines c)"
  obtain keep rest where at: "drop li lines = keep @ OldLines c @ rest" and rest: "exact cs rest"
    using Cons.prems(1) by (auto elim: exact_ConsE)
  let ?i = "li + length keep"
  have d: "drop ?i lines = OldLines c @ rest" by (metis add.commute append_eq_conv_conj at drop_drop)
  then have "length lines - ?i = ?n + length rest" by (metis length_append length_drop)
  moreover have "OldLines c \<noteq> []" using Cons.prems(3) by simp
  ultimately have fit: "?i + ?n \<le> length lines" by (cases "?i \<le> length lines") auto
  with d have "hit id lines (OldLines c) ?i" by (simp add: hit_def)
  with seek_exact [OF \<open>OldLines c \<noteq> []\<close>, of lines ?i li] obtain k where
    k: "k \<le> ?i" "seekSequence lines (OldLines c) li False = int k" by auto
  have "rest = drop (?i + ?n) lines" by (metis add.commute append_eq_conv_conj d drop_drop)
  with rest have "exact cs (drop (k + ?n) lines)" using k(1) by (auto intro: exact_grow)
  with Cons.IH [of "k + ?n"] Cons.prems(3) k fit obtain reps where
    "chunk_loop lines path (k + ?n) cs (reps0 @ [\<lparr>rp_start = k, rp_oldLen = ?n, rp_newLines = NewLines c\<rparr>]) = Inr reps"
    by fastforce
  with k Cons.prems(3) show ?case by (simp add: after_context_def locate_def)
qed simp

text \<open>A patch whose old lines occur in the file literally and in order always applies: searching the first
  place for a chunk never takes it past the place of a later one.\<close>

theorem applyUpdate_complete:
  assumes "exact chunks (file_lines oldData)"
    "\<forall>c \<in> set chunks. OldLines c \<noteq> [] \<and> ChangeContext c = [] \<and> \<not> IsEOF c"
  shows "\<exists>newData. applyUpdate oldData chunks path = Inr newData"
  using chunk_loop_exact [of chunks 0 "file_lines oldData" path "[]"] assms
  by (auto simp: applyUpdate_def computeReplacements_def)

section \<open>Patches that go wrong\<close>

text \<open>Why \<open>applyUpdate_sound\<close> excludes some chunks. A chunk with an end-of-file mark after a chunk that took the
  same line is lost without an error:\<close>

lemma eof_chunk_lost:
  "applyUpdate (''a'' @ [nl] @ ''b'' @ [nl])
     [\<lparr>ChangeContext = [], OldLines = [''a'', ''b''], NewLines = [''x''], IsEOF = False\<rparr>,
      \<lparr>ChangeContext = [], OldLines = [''b''], NewLines = [''y''], IsEOF = True\<rparr>] ''p'' = Inr (''x'' @ [nl])"
  by code_simp

text \<open>A chunk that only adds lines, in a file that ends with an empty line which another chunk takes, is lost:\<close>

lemma insertion_lost:
  "applyUpdate (''a'' @ [nl, nl])
     [\<lparr>ChangeContext = [], OldLines = [], NewLines = [''new''], IsEOF = False\<rparr>,
      \<lparr>ChangeContext = [], OldLines = [''a'', []], NewLines = [''b''], IsEOF = False\<rparr>] ''p'' = Inr (''b'' @ [nl])"
  by code_simp

text \<open>An empty line at the end of the file does not survive an update of another line:\<close>

lemma blank_tail_lost:
  "applyUpdate (''a'' @ [nl, nl]) [\<lparr>ChangeContext = [], OldLines = [''a''], NewLines = [''b''], IsEOF = False\<rparr>] ''p'' =
     Inr (''b'' @ [nl])"
  by code_simp

end
