(* ===== verification/PatchSession.thy ===== *)
theory PatchSession
  imports PatchPath PatchUpdate
begin

text \<open>
  The patch session, \<open>protocol/tool/service/system/patch/{session,snapshot,diff}.go\<close>: file operations that are
  tracked so that they can be listed, committed or rolled back, and patches made of them.

  Parameters (\<open>fs_env\<close>): the file service \<open>github.com/viant/afs\<close> with its URL functions, the clock
  of the backup names, the unified diff of \<open>difflib\<close>. \<open>'w\<close> is the state of the outside world, to which
  the files belong. The mutex is not part of the model: a method is one step.

  A change entry is referred to by its position in \<open>order\<close>, as Go refers to it by pointer; \<open>changes\<close> has
  the same entries and is read nowhere.
\<close>

section \<open>Data\<close>

datatype session_error =
    FsError string
  | DeleteError "session_error option"
  | AlreadyCommitted
  | OldEmpty
  | OldNewIdentical
  | NoSuchFile string
  | OldNotFound string
  | NegativeExpected
  | WrongOccurrences int nat string
  | Ambiguous nat string
  | BadPath path_error
  | BadPatch patch_error
  | RollbackErrors "session_error list"
  | RollbackStep string string session_error

record DiffStats =
  Added :: int
  Removed :: int

record 'w fs_env =
  fs_Exists :: "string \<Rightarrow> 'w \<Rightarrow> bool \<times> string option"
  fs_Download :: "string \<Rightarrow> 'w \<Rightarrow> string + string"
  fs_Upload :: "string \<Rightarrow> string \<Rightarrow> 'w \<Rightarrow> string option \<times> 'w"
  fs_Delete :: "string \<Rightarrow> 'w \<Rightarrow> string option \<times> 'w"
  fs_Move :: "string \<Rightarrow> string \<Rightarrow> 'w \<Rightarrow> string option \<times> 'w"
  fs_Create :: "string \<Rightarrow> 'w \<Rightarrow> string option \<times> 'w"
  fs_stamp :: "'w \<Rightarrow> string"
  fs_parent :: "string \<Rightarrow> string"
  fs_join :: "string \<Rightarrow> string \<Rightarrow> string"
  fs_unified :: "string \<Rightarrow> string \<Rightarrow> string \<Rightarrow> int \<Rightarrow> string + string"
  fs_paths :: path_env

record changeEntry =
  ce_kind :: string
  ce_orig :: string
  ce_url :: string
  ce_backup :: string
  ce_alive :: bool
  ce_diff :: string

record Session =
  ss_tempDir :: string
  ss_order :: "changeEntry list"
  ss_byCurrent :: "(string \<times> nat) list"
  ss_byOrigin :: "(string \<times> nat) list"
  ss_committed :: bool

definition create :: string where "create = ''create''"
definition updated :: string where "updated = ''updated''"
definition deleted :: string where "deleted = ''delete''"

lemmas kind_defs = create_def updated_def deleted_def

type_synonym 'w session_op = "Session \<Rightarrow> 'w \<Rightarrow> session_error option \<times> Session \<times> 'w"

definition new_session :: "string \<Rightarrow> Session" where
  "new_session tempDir = \<lparr>ss_tempDir = tempDir, ss_order = [], ss_byCurrent = [], ss_byOrigin = [], ss_committed = False\<rparr>"

section \<open>Diffs\<close>

definition count_lines :: "string \<Rightarrow> DiffStats" where
  "count_lines p = fold (\<lambda>l st.
     if prefix ''+'' l \<and> \<not> prefix ''+++'' l then st\<lparr>Added := Added st + 1\<rparr>
     else if prefix ''-'' l \<and> \<not> prefix ''---'' l then st\<lparr>Removed := Removed st + 1\<rparr>
     else st) (Split nl p) \<lparr>Added = 0, Removed = 0\<rparr>"

definition GenerateDiff :: "'w fs_env \<Rightarrow> string \<Rightarrow> string \<Rightarrow> string \<Rightarrow> int \<Rightarrow> string + (string \<times> DiffStats)" where
  "GenerateDiff env old new path contextLines =
     (let n = (if contextLines \<le> 0 then 3 else contextLines) in
      if old = new then Inr ([], \<lparr>Added = 0, Removed = 0\<rparr>)
      else case fs_unified env old new path n of
        Inl e \<Rightarrow> Inl e
      | Inr p \<Rightarrow> Inr (p, count_lines p))"

text \<open>A diff whose errors are ignored, of data whose read errors are ignored.\<close>

definition data_or_empty :: "'w fs_env \<Rightarrow> string \<Rightarrow> 'w \<Rightarrow> string" where
  "data_or_empty env url w = (case fs_Download env url w of Inl e \<Rightarrow> [] | Inr d \<Rightarrow> d)"

definition diff_of :: "'w fs_env \<Rightarrow> string \<Rightarrow> string \<Rightarrow> string \<Rightarrow> string" where
  "diff_of env old new path = (case GenerateDiff env old new path 3 of Inl e \<Rightarrow> [] | Inr (d, st) \<Rightarrow> d)"

section \<open>Tracking\<close>

definition current :: "Session \<Rightarrow> string \<Rightarrow> nat option" where
  "current s path = map_of (ss_byCurrent s) path"

definition mod_entry :: "nat \<Rightarrow> (changeEntry \<Rightarrow> changeEntry) \<Rightarrow> Session \<Rightarrow> Session" where
  "mod_entry i f s = s\<lparr>ss_order := (ss_order s)[i := f (ss_order s ! i)]\<rparr>"

definition set_current :: "string \<Rightarrow> nat \<Rightarrow> Session \<Rightarrow> Session" where
  "set_current url i s = s\<lparr>ss_byCurrent := AList.update url i (ss_byCurrent s)\<rparr>"

definition del_current :: "string \<Rightarrow> Session \<Rightarrow> Session" where
  "del_current url s = s\<lparr>ss_byCurrent := AList.delete url (ss_byCurrent s)\<rparr>"

definition set_origin :: "string \<Rightarrow> nat \<Rightarrow> Session \<Rightarrow> Session" where
  "set_origin orig i s = s\<lparr>ss_byOrigin := AList.update orig i (ss_byOrigin s)\<rparr>"

definition append_entry :: "string \<Rightarrow> string \<Rightarrow> Session \<Rightarrow> nat \<times> Session" where
  "append_entry orig url s =
     (let i = length (ss_order s);
          s1 = s\<lparr>ss_order := ss_order s @ [\<lparr>ce_kind = [], ce_orig = orig, ce_url = url, ce_backup = [], ce_alive = True, ce_diff = []\<rparr>]\<rparr>;
          s2 = (if url \<noteq> [] then set_current url i s1 else s1);
          s3 = (if orig \<noteq> [] then set_origin orig i s2 else s2) in
      (i, s3))"

definition ensureEntry :: "string \<Rightarrow> string \<Rightarrow> Session \<Rightarrow> nat \<times> Session" where
  "ensureEntry orig url s =
     (case (if url \<noteq> [] then current s url else None) of
        Some i \<Rightarrow> (i, s)
      | None \<Rightarrow>
         (case (if orig \<noteq> [] then map_of (ss_byOrigin s) orig else None) of
            Some i \<Rightarrow> (i, s)
          | None \<Rightarrow> append_entry orig url s))"

definition entry_at :: "string \<Rightarrow> string \<Rightarrow> string \<Rightarrow> Session \<Rightarrow> nat \<times> Session" where
  "entry_at path orig url s = (case current s path of Some i \<Rightarrow> (i, s) | None \<Rightarrow> ensureEntry orig url s)"

definition trackAdd :: "'w fs_env \<Rightarrow> 'w \<Rightarrow> string \<Rightarrow> Session \<Rightarrow> Session" where
  "trackAdd env w path s =
     (case entry_at path [] path s of (i, s1) \<Rightarrow>
        mod_entry i (\<lambda>e. e\<lparr>ce_kind := create, ce_alive := True, ce_diff := diff_of env [] (data_or_empty env path w) path\<rparr>) s1)"

text \<open>The missing origin of an entry that was not created by the session.\<close>

definition fill_origin :: "nat \<Rightarrow> string \<Rightarrow> Session \<Rightarrow> Session" where
  "fill_origin i path s =
     (if ce_orig (ss_order s ! i) = [] then set_origin path i (mod_entry i (\<lambda>e. e\<lparr>ce_orig := path\<rparr>) s) else s)"

definition trackMove :: "string \<Rightarrow> string \<Rightarrow> Session \<Rightarrow> Session" where
  "trackMove src dst s =
     (case current s src of
        None \<Rightarrow>
          (case ensureEntry src dst s of (i, s1) \<Rightarrow>
             mod_entry i (\<lambda>e. e\<lparr>ce_kind := updated, ce_alive := True, ce_diff := []\<rparr>) s1)
      | Some i \<Rightarrow>
          let s1 = set_current dst i (mod_entry i (\<lambda>e. e\<lparr>ce_url := dst\<rparr>) (del_current src s));
              s2 = mod_entry i (\<lambda>e. if ce_kind e = [] then e\<lparr>ce_kind := updated\<rparr> else e) s1 in
          if ce_kind (ss_order s2 ! i) \<noteq> create then fill_origin i src s2 else s2)"

definition trackUpdate :: "'w fs_env \<Rightarrow> 'w \<Rightarrow> string \<Rightarrow> string \<Rightarrow> Session \<Rightarrow> Session" where
  "trackUpdate env w path backup s =
     (case entry_at path path path s of (i, s1) \<Rightarrow>
        let s2 = mod_entry i (\<lambda>e. if ce_kind e \<noteq> create \<and> ce_backup e = [] then e\<lparr>ce_backup := backup\<rparr> else e) s1;
            s3 = mod_entry i (\<lambda>e. if ce_kind e = [] then e\<lparr>ce_kind := updated\<rparr> else e) s2;
            s4 = (if ce_kind (ss_order s3 ! i) \<noteq> create then fill_origin i path s3 else s3) in
        mod_entry i (\<lambda>e. e\<lparr>ce_url := path, ce_alive := True,
            ce_diff := diff_of env (if ce_backup e \<noteq> [] then data_or_empty env (ce_backup e) w else []) (data_or_empty env path w) path\<rparr>) s4)"

definition mark_deleted :: "'w fs_env \<Rightarrow> 'w \<Rightarrow> string \<Rightarrow> string \<Rightarrow> nat \<Rightarrow> Session \<Rightarrow> Session" where
  "mark_deleted env w path backup i s =
     mod_entry i (\<lambda>e. e\<lparr>ce_kind := deleted, ce_url := [], ce_alive := True,
         ce_diff := diff_of env (data_or_empty env backup w) [] path\<rparr>)
       (fill_origin i path (mod_entry i (\<lambda>e. if ce_backup e = [] then e\<lparr>ce_backup := backup\<rparr> else e) s))"

definition trackDelete :: "'w fs_env \<Rightarrow> 'w \<Rightarrow> string \<Rightarrow> string \<Rightarrow> Session \<Rightarrow> Session" where
  "trackDelete env w path backup s =
     (case current s path of
        Some i \<Rightarrow>
          if ce_kind (ss_order s ! i) = create
          then let s1 = del_current path (mod_entry i (\<lambda>e. e\<lparr>ce_alive := False\<rparr>) s); orig = ce_orig (ss_order s ! i) in
            (if orig \<noteq> [] then s1\<lparr>ss_byOrigin := AList.delete orig (ss_byOrigin s1)\<rparr> else s1)
          else mark_deleted env w path backup i s
      | None \<Rightarrow> (case ensureEntry path [] s of (i, s1) \<Rightarrow> mark_deleted env w path backup i s1))"

section \<open>Operations\<close>

text \<open>A copy of the file in the session's directory; the name ends with the nanoseconds of the clock.\<close>

definition backup :: "'w fs_env \<Rightarrow> string \<Rightarrow> string \<Rightarrow> 'w \<Rightarrow> (string + string) \<times> 'w" where
  "backup env tempDir path w =
     (case fs_Download env path w of
        Inl e \<Rightarrow> (Inl e, w)
      | Inr data \<Rightarrow>
          let rel = TrimPrefix path [slash];
              dst = fs_join env tempDir (rel @ ''.'' @ fs_stamp env w @ ''.bak'') in
          (case fs_Create env (fs_parent env dst) w of
             (Some e, w1) \<Rightarrow> (Inl e, w1)
           | (None, w1) \<Rightarrow>
               (case fs_Upload env dst data w1 of (Some e, w2) \<Rightarrow> (Inl e, w2) | (None, w2) \<Rightarrow> (Inr dst, w2))))"

definition Delete :: "'w fs_env \<Rightarrow> string \<Rightarrow> 'w session_op" where
  "Delete env path s w =
     (if ss_committed s then (Some (DeleteError (Some AlreadyCommitted)), s, w)
      else case fs_Exists env path w of (exists, err) \<Rightarrow>
        if err \<noteq> None \<or> \<not> exists then (Some (DeleteError (map_option FsError err)), s, w)
        else (case backup env (ss_tempDir s) path w of
           (Inl e, w1) \<Rightarrow> (Some (DeleteError (Some (FsError e))), s, w1)
         | (Inr b, w1) \<Rightarrow>
             (case fs_Delete env path w1 of
                (Some e, w2) \<Rightarrow> (Some (DeleteError (Some (FsError e))), s, w2)
              | (None, w2) \<Rightarrow> (None, trackDelete env w2 path b s, w2))))"

definition Move :: "'w fs_env \<Rightarrow> string \<Rightarrow> string \<Rightarrow> 'w session_op" where
  "Move env src dst s w =
     (if ss_committed s then (Some AlreadyCommitted, s, w)
      else case fs_Exists env src w of (exists, err) \<Rightarrow>
        if err \<noteq> None \<or> \<not> exists then (map_option FsError err, s, w)
        else (case fs_Create env (fs_parent env dst) w of
           (Some e, w1) \<Rightarrow> (Some (FsError e), s, w1)
         | (None, w1) \<Rightarrow>
             (case fs_Move env src dst w1 of
                (Some e, w2) \<Rightarrow> (Some (FsError e), s, w2)
              | (None, w2) \<Rightarrow> (None, trackMove src dst s, w2))))"

definition backup_and_write :: "'w fs_env \<Rightarrow> string \<Rightarrow> string \<Rightarrow> 'w session_op" where
  "backup_and_write env path newData s w =
     (case backup env (ss_tempDir s) path w of
        (Inl e, w1) \<Rightarrow> (Some (FsError e), s, w1)
      | (Inr b, w1) \<Rightarrow>
          (case fs_Upload env path newData w1 of
             (Some e, w2) \<Rightarrow> (Some (FsError e), s, w2)
           | (None, w2) \<Rightarrow> (None, trackUpdate env w2 path b s, w2)))"

definition Update :: "'w fs_env \<Rightarrow> string \<Rightarrow> string \<Rightarrow> 'w session_op" where
  "Update env path newData s w =
     (if ss_committed s then (Some AlreadyCommitted, s, w)
      else case fs_Exists env path w of (exists, err) \<Rightarrow>
        if err \<noteq> None \<or> \<not> exists then (map_option FsError err, s, w)
        else backup_and_write env path newData s w)"

text \<open>\<open>strings.Count\<close> and \<open>strings.Replace\<close> for a text that is not empty; a negative limit is none.\<close>

function occurrences :: "string \<Rightarrow> string \<Rightarrow> nat" where
  "occurrences old s =
     (if old = [] \<or> s = [] then 0
      else case strip_prefix old s of Some r \<Rightarrow> Suc (occurrences old r) | None \<Rightarrow> occurrences old (tl s))"
  by pat_completeness auto
termination
  by (relation "measure (\<lambda>(old, s). length s)") (auto simp: strip_prefix_Some)

function replace_n :: "string \<Rightarrow> string \<Rightarrow> int \<Rightarrow> string \<Rightarrow> string" where
  "replace_n old new n s =
     (if old = [] \<or> s = [] \<or> n = 0 then s
      else case strip_prefix old s of
        Some r \<Rightarrow> new @ replace_n old new (n - 1) r
      | None \<Rightarrow> hd s # replace_n old new n (tl s))"
  by pat_completeness auto
termination
  by (relation "measure (\<lambda>(old, new, n, s). length s)") (auto simp: strip_prefix_Some)

declare occurrences.simps [simp del] replace_n.simps [simp del]

definition check_replace :: "string \<Rightarrow> nat \<Rightarrow> bool \<Rightarrow> int \<Rightarrow> session_error option" where
  "check_replace path n replaceAll expected =
     (if n = 0 then Some (OldNotFound path)
      else if expected < 0 then Some NegativeExpected
      else if expected > 0 \<and> int n \<noteq> expected then Some (WrongOccurrences expected n path)
      else if \<not> replaceAll \<and> n \<noteq> 1 then Some (Ambiguous n path)
      else None)"

text \<open>\<open>Replace\<close> also returns the number of replacements and the statistics of the diff.\<close>

definition Replace :: "'w fs_env \<Rightarrow> string \<Rightarrow> string \<Rightarrow> string \<Rightarrow> bool \<Rightarrow> int \<Rightarrow> Session \<Rightarrow> 'w \<Rightarrow>
    (session_error + nat \<times> DiffStats) \<times> Session \<times> 'w" where
  "Replace env path oldText newText replaceAll expected s w =
     (if ss_committed s then (Inl AlreadyCommitted, s, w)
      else if oldText = [] then (Inl OldEmpty, s, w)
      else if oldText = newText then (Inl OldNewIdentical, s, w)
      else case fs_Exists env path w of (exists, err) \<Rightarrow>
        (case err of
           Some e \<Rightarrow> (Inl (FsError e), s, w)
         | None \<Rightarrow>
           if \<not> exists then (Inl (NoSuchFile path), s, w)
           else (case fs_Download env path w of
              Inl e \<Rightarrow> (Inl (FsError e), s, w)
            | Inr oldData \<Rightarrow>
                let n = occurrences oldText oldData in
                (case check_replace path n replaceAll expected of
                   Some e \<Rightarrow> (Inl e, s, w)
                 | None \<Rightarrow>
                     let newData = replace_n oldText newText (if replaceAll then -1 else 1) oldData in
                     (case GenerateDiff env oldData newData path 3 of
                        Inl e \<Rightarrow> (Inl (FsError e), s, w)
                      | Inr (_, stats) \<Rightarrow>
                          (case backup_and_write env path newData s w of
                             (Some e, s1, w1) \<Rightarrow> (Inl e, s1, w1)
                           | (None, s1, w1) \<Rightarrow> (Inr (if replaceAll then n else 1, stats), s1, w1)))))))"

definition Add :: "'w fs_env \<Rightarrow> string \<Rightarrow> string \<Rightarrow> 'w session_op" where
  "Add env path data s w =
     (if ss_committed s then (Some AlreadyCommitted, s, w)
      else case fs_Create env (fs_parent env path) w of
        (Some e, w1) \<Rightarrow> (Some (FsError e), s, w1)
      | (None, w1) \<Rightarrow>
          (case fs_Upload env path data w1 of
             (Some e, w2) \<Rightarrow> (Some (FsError e), s, w2)
           | (None, w2) \<Rightarrow> (None, trackAdd env w2 path s, w2)))"

definition HasCreatedChange :: "Session \<Rightarrow> string \<Rightarrow> bool" where
  "HasCreatedChange s path =
     (case current s (TrimSpace path) of None \<Rightarrow> False
      | Some i \<Rightarrow> ce_alive (ss_order s ! i) \<and> ce_kind (ss_order s ! i) = create)"

section \<open>Commit and rollback\<close>

definition contains_fold :: "string \<Rightarrow> string \<Rightarrow> bool" where
  "contains_fold s t = contains (ToLower s) t"

text \<open>Write the backup of an entry to its origin.\<close>

definition restore :: "'w fs_env \<Rightarrow> changeEntry \<Rightarrow> 'w \<Rightarrow> session_error list \<times> 'w" where
  "restore env e w =
     (if ce_backup e \<noteq> [] \<and> ce_orig e \<noteq> [] then
        (case fs_Download env (ce_backup e) w of
           Inl err \<Rightarrow> ([RollbackStep ''read backup'' (ce_backup e) (FsError err)], w)
         | Inr data \<Rightarrow>
             (case fs_Create env (fs_parent env (ce_orig e)) w of
                (Some err, w1) \<Rightarrow> ([RollbackStep ''mkdir'' (fs_parent env (ce_orig e)) (FsError err)], w1)
              | (None, w1) \<Rightarrow>
                  (case fs_Upload env (ce_orig e) data w1 of
                     (Some err, w2) \<Rightarrow> ([RollbackStep ''restore'' (ce_orig e) (FsError err)], w2)
                   | (None, w2) \<Rightarrow> ([], w2))))
      else ([], w))"

definition move_back :: "'w fs_env \<Rightarrow> changeEntry \<Rightarrow> 'w \<Rightarrow> session_error list \<times> 'w" where
  "move_back env e w =
     (if ce_url e \<noteq> [] \<and> ce_orig e \<noteq> [] \<and> ce_url e \<noteq> ce_orig e \<and> fst (fs_Exists env (ce_url e) w) then
        (case fs_Move env (ce_url e) (ce_orig e) w of
           (Some err, w1) \<Rightarrow> ([RollbackStep ''move'' (ce_url e @ ''->'' @ ce_orig e) (FsError err)], w1)
         | (None, w1) \<Rightarrow> ([], w1))
      else ([], w))"

definition undo :: "'w fs_env \<Rightarrow> changeEntry \<Rightarrow> 'w \<Rightarrow> session_error list \<times> 'w" where
  "undo env e w =
     (if \<not> ce_alive e \<or> ce_kind e = [] then ([], w)
      else if ce_kind e = create then
        (if ce_url e \<noteq> [] then
           (case fs_Delete env (ce_url e) w of
              (Some err, w1) \<Rightarrow> (if \<not> contains_fold err ''not found'' then [RollbackStep ''delete'' (ce_url e) (FsError err)] else [], w1)
            | (None, w1) \<Rightarrow> ([], w1))
         else ([], w))
      else if ce_kind e = updated then
        (case move_back env e w of (errs, w1) \<Rightarrow> case restore env e w1 of (errs', w2) \<Rightarrow> (errs @ errs', w2))
      else if ce_kind e = deleted then restore env e w
      else ([], w))"

fun undo_all :: "'w fs_env \<Rightarrow> changeEntry list \<Rightarrow> 'w \<Rightarrow> session_error list \<times> 'w" where
  "undo_all env [] w = ([], w)"
| "undo_all env (e # es) w =
     (case undo env e w of (errs, w1) \<Rightarrow> case undo_all env es w1 of (errs', w2) \<Rightarrow> (errs @ errs', w2))"

definition cleared :: "Session \<Rightarrow> Session" where
  "cleared s = s\<lparr>ss_order := [], ss_byCurrent := [], ss_byOrigin := []\<rparr>"

definition Rollback :: "'w fs_env \<Rightarrow> 'w session_op" where
  "Rollback env s w =
     (if ss_committed s then (None, s, w)
      else case undo_all env (rev (ss_order s)) w of (errs, w1) \<Rightarrow>
        (case fs_Delete env (ss_tempDir s) w1 of (err, w2) \<Rightarrow>
           let errs' = errs @ (case err of None \<Rightarrow> [] | Some e \<Rightarrow> [RollbackStep ''cleanup'' [] (FsError e)]) in
           (if errs' \<noteq> [] then Some (RollbackErrors errs') else None, cleared s, w2)))"

definition Commit :: "'w fs_env \<Rightarrow> 'w session_op" where
  "Commit env s w =
     (if ss_committed s then (None, s, w)
      else case fs_Delete env (ss_tempDir s) w of (err, w1) \<Rightarrow>
        (map_option FsError err, (cleared s)\<lparr>ss_committed := True\<rparr>, w1))"

section \<open>Listing changes\<close>

record Change =
  ch_Kind :: string
  ch_OrigURL :: string
  ch_URL :: string
  ch_Diff :: string

definition Snapshot :: "Session \<Rightarrow> Change list" where
  "Snapshot s =
     map (\<lambda>e. \<lparr>ch_Kind = ce_kind e, ch_OrigURL = ce_orig e, ch_URL = ce_url e, ch_Diff = ce_diff e\<rparr>)
       (filter (\<lambda>e. \<not> (\<not> ce_alive e \<or> ce_kind e = [])) (ss_order s))"

record PreviewOutput =
  pv_Kind :: string
  pv_OrigURL :: string
  pv_URL :: string
  pv_Current :: string
  pv_Previous :: string
  pv_Diff :: string
  pv_Status :: string

definition read_optional :: "'w fs_env \<Rightarrow> string \<Rightarrow> 'w \<Rightarrow> string + string" where
  "read_optional env url w = (if url \<noteq> [] then fs_Download env url w else Inr [])"

definition Preview :: "'w fs_env \<Rightarrow> string \<Rightarrow> Session \<Rightarrow> 'w \<Rightarrow> session_error + PreviewOutput" where
  "Preview env url s w =
     (case (case current s url of Some i \<Rightarrow> Some i | None \<Rightarrow> map_of (ss_byOrigin s) url) of
        None \<Rightarrow> Inl (NoSuchFile url)
      | Some i \<Rightarrow>
          let e = ss_order s ! i in
          if \<not> ce_alive e then Inl (NoSuchFile url)
          else (case read_optional env (ce_url e) w of
             Inl err \<Rightarrow> Inl (FsError err)
           | Inr cur \<Rightarrow>
               (case read_optional env (ce_backup e) w of
                  Inl err \<Rightarrow> Inl (FsError err)
                | Inr prev \<Rightarrow>
                    Inr \<lparr>pv_Kind = ce_kind e, pv_OrigURL = ce_orig e, pv_URL = ce_url e, pv_Current = cur,
                         pv_Previous = prev, pv_Diff = ce_diff e, pv_Status = ''ok''\<rparr>)))"

section \<open>Patches\<close>

datatype Hunk =
    AddFile string string
  | DeleteFile string
  | UpdateFile string string "UpdateChunk list"

definition with_path :: "'w fs_env \<Rightarrow> string \<Rightarrow> string \<Rightarrow> (string \<Rightarrow> 'w session_op) \<Rightarrow> 'w session_op" where
  "with_path env path directory f s w =
     (case resolvePath (fs_paths env) path directory of Inl e \<Rightarrow> (Some (BadPath e), s, w) | Inr p \<Rightarrow> f p s w)"

definition apply_chunks :: "'w fs_env \<Rightarrow> UpdateChunk list \<Rightarrow> string \<Rightarrow> 'w session_op" where
  "apply_chunks env chunks path s w =
     (if chunks = [] then (None, s, w)
      else case fs_Download env path w of
        Inl e \<Rightarrow> (Some (FsError e), s, w)
      | Inr oldData \<Rightarrow>
          (case applyUpdate oldData chunks path of
             Inl e \<Rightarrow> (Some (BadPatch e), s, w)
           | Inr newContent \<Rightarrow> Update env path newContent s w))"

fun apply_hunk :: "'w fs_env \<Rightarrow> string \<Rightarrow> Hunk \<Rightarrow> 'w session_op" where
  "apply_hunk env dir (AddFile path contents) s w = with_path env path dir (\<lambda>p. Add env p contents) s w"
| "apply_hunk env dir (DeleteFile path) s w = with_path env path dir (Delete env) s w"
| "apply_hunk env dir (UpdateFile path movePath chunks) s w =
     with_path env path dir (\<lambda>p s w.
       if movePath = [] then apply_chunks env chunks p s w
       else with_path env movePath dir (\<lambda>newPath s w.
         if chunks = [] then Move env p newPath s w
         else (case Move env p newPath s w of
            (Some e, s1, w1) \<Rightarrow> (Some e, s1, w1)
          | (None, s1, w1) \<Rightarrow> apply_chunks env chunks newPath s1 w1)) s w) s w"

fun applyParsedHunks :: "'w fs_env \<Rightarrow> Hunk list \<Rightarrow> string \<Rightarrow> 'w session_op" where
  "applyParsedHunks env [] dir s w = (None, s, w)"
| "applyParsedHunks env (h # hs) dir s w =
     (case apply_hunk env dir h s w of
        (Some e, s1, w1) \<Rightarrow> (Some e, s1, w1)
      | (None, s1, w1) \<Rightarrow> applyParsedHunks env hs dir s1 w1)"

end
