(* ===== verification/PatchRollback.thy ===== *)
theory PatchRollback
  imports PatchSession
begin

text \<open>
  A rollback undoes a patch session. The files are an abstract view of the world, \<open>files w p\<close>, which the
  file service reads and writes (\<open>fs_ok\<close>). The invariant of a session relates the tracked entries to the
  files at its start; it is kept by six elementary changes, of which the operations are made.
\<close>

section \<open>What the session relies on\<close>

text \<open>An operation of the file service changes the files or fails and leaves them alone.\<close>

definition does :: "('w \<Rightarrow> string \<Rightarrow> string option) \<Rightarrow> 'w \<Rightarrow> string option \<times> 'w \<Rightarrow> (string \<Rightarrow> string option) \<Rightarrow> bool" where
  "does files w r F \<longleftrightarrow> (case r of (None, w') \<Rightarrow> files w' = F | (Some e, w') \<Rightarrow> files w' = files w)"

text \<open>\<open>temp\<close> holds of the paths in the session's own directory, where backups get fresh names.\<close>

text \<open>\<open>Exists\<close> answers truthfully also when it reports an error: \<open>Rollback\<close> reads the answer and drops the error
  (\<open>exists_error_ignored\<close> shows what an untruthful answer does). A call that fails leaves the files alone.\<close>

definition fs_ok :: "'w fs_env \<Rightarrow> ('w \<Rightarrow> string \<Rightarrow> string option) \<Rightarrow> string \<Rightarrow> (string \<Rightarrow> bool) \<Rightarrow> bool" where
  "fs_ok env files tempDir temp \<longleftrightarrow>
     (\<forall>p w. fst (fs_Exists env p w) \<longleftrightarrow> files w p \<noteq> None) \<and>
     (\<forall>p w d. fs_Download env p w = Inr d \<longrightarrow> files w p = Some d) \<and>
     (\<forall>p d w. does files w (fs_Upload env p d w) ((files w)(p \<mapsto> d))) \<and>
     (\<forall>p w. \<not> temp p \<longrightarrow> does files w (fs_Delete env p w) ((files w)(p := None))) \<and>
     (\<forall>p w e w'. fs_Delete env p w = (Some e, w') \<and> contains_fold e ''not found'' \<longrightarrow> files w p = None) \<and>
     (\<forall>p q w. does files w (fs_Move env p q w) ((files w)(p := None, q := files w p))) \<and>
     (\<forall>p w. files (snd (fs_Create env p w)) = files w) \<and>
     (\<forall>w q. \<not> temp q \<longrightarrow> files (snd (fs_Delete env tempDir w)) q = files w q) \<and>
     (\<forall>p w. let b = fs_join env tempDir (TrimPrefix p [slash] @ ''.'' @ fs_stamp env w @ ''.bak'') in
        temp b \<and> b \<noteq> [] \<and> files w b = None)"

section \<open>The invariant\<close>

definition live :: "changeEntry list \<Rightarrow> nat \<Rightarrow> bool" where
  "live es i \<longleftrightarrow> i < length es \<and> ce_alive (es ! i)"

text \<open>An entry knows how to restore the file at its origin: from its backup, or by moving the file back.\<close>

definition entry_ok :: "(string \<Rightarrow> bool) \<Rightarrow> (string \<Rightarrow> string option) \<Rightarrow> (string \<Rightarrow> string option) \<Rightarrow> changeEntry \<Rightarrow> bool" where
  "entry_ok user F0 F e \<longleftrightarrow>
     (ce_kind e = create \<and> ce_orig e = [] \<and> user (ce_url e) \<or>
      ce_kind e = updated \<and> user (ce_orig e) \<and> user (ce_url e) \<or>
      ce_kind e = deleted \<and> user (ce_orig e) \<and> ce_url e = [] \<and> ce_backup e \<noteq> []) \<and>
     (ce_backup e \<noteq> [] \<longrightarrow> \<not> user (ce_backup e)) \<and>
     (ce_url e \<noteq> [] \<longrightarrow> F (ce_url e) \<noteq> None) \<and>
     (ce_orig e \<noteq> [] \<longrightarrow> F0 (ce_orig e) \<noteq> None \<and>
        (if ce_backup e \<noteq> [] then F (ce_backup e) = F0 (ce_orig e) else F (ce_url e) = F0 (ce_orig e)))"

definition entries_ok :: "(string \<Rightarrow> bool) \<Rightarrow> (string \<Rightarrow> string option) \<Rightarrow> (string \<Rightarrow> string option) \<Rightarrow> changeEntry list \<Rightarrow> bool" where
  "entries_ok user F0 F es \<longleftrightarrow> (\<forall>i. live es i \<longrightarrow> entry_ok user F0 F (es ! i))"

text \<open>The registries find the live entries. A deleted entry can stay registered under its last place, which is empty.\<close>

definition current_ok :: "(string \<Rightarrow> bool) \<Rightarrow> (string \<Rightarrow> string option) \<Rightarrow> changeEntry list \<Rightarrow> (string \<rightharpoonup> nat) \<Rightarrow> bool" where
  "current_ok user F es C \<longleftrightarrow>
     (\<forall>i. live es i \<and> ce_url (es ! i) \<noteq> [] \<longrightarrow> C (ce_url (es ! i)) = Some i) \<and>
     (\<forall>p i. C p = Some i \<longrightarrow> live es i \<and> user p \<and> (ce_url (es ! i) = p \<or> ce_kind (es ! i) = deleted \<and> F p = None))"

definition origin_ok :: "changeEntry list \<Rightarrow> (string \<rightharpoonup> nat) \<Rightarrow> bool" where
  "origin_ok es M \<longleftrightarrow>
     (\<forall>i. live es i \<and> ce_orig (es ! i) \<noteq> [] \<longrightarrow> M (ce_orig (es ! i)) = Some i) \<and>
     (\<forall>p i. M p = Some i \<longrightarrow> p \<noteq> [] \<and> live es i \<and> ce_orig (es ! i) = p)"

definition is_url :: "changeEntry list \<Rightarrow> string \<Rightarrow> bool" where
  "is_url es p \<longleftrightarrow> (\<exists>i. live es i \<and> ce_url (es ! i) = p)"

definition is_orig :: "changeEntry list \<Rightarrow> string \<Rightarrow> bool" where
  "is_orig es p \<longleftrightarrow> (\<exists>i. live es i \<and> ce_orig (es ! i) = p)"

text \<open>A file that no entry has is as it was; one that only is an origin is gone; one that only is a place is new.\<close>

definition files_ok :: "(string \<Rightarrow> bool) \<Rightarrow> (string \<Rightarrow> string option) \<Rightarrow> (string \<Rightarrow> string option) \<Rightarrow> changeEntry list \<Rightarrow> bool" where
  "files_ok user F0 F es \<longleftrightarrow>
     (\<forall>p. user p \<and> \<not> is_url es p \<longrightarrow> F p = (if is_orig es p then None else F0 p)) \<and>
     (\<forall>p. user p \<and> is_url es p \<and> \<not> is_orig es p \<longrightarrow> F0 p = None)"

text \<open>No entry sits at the origin of a later one, so undoing from the last to the first overwrites nothing.\<close>

definition order_ok :: "changeEntry list \<Rightarrow> bool" where
  "order_ok es \<longleftrightarrow> (\<forall>i j. live es i \<and> live es j \<and> i < j \<and> ce_url (es ! i) \<noteq> [] \<longrightarrow> ce_url (es ! i) \<noteq> ce_orig (es ! j))"

definition tracked :: "(string \<Rightarrow> bool) \<Rightarrow> (string \<Rightarrow> string option) \<Rightarrow> (string \<Rightarrow> string option) \<Rightarrow>
    changeEntry list \<Rightarrow> (string \<rightharpoonup> nat) \<Rightarrow> (string \<rightharpoonup> nat) \<Rightarrow> bool" where
  "tracked user F0 F es C M \<longleftrightarrow> \<not> user [] \<and> entries_ok user F0 F es \<and> current_ok user F es C \<and> origin_ok es M \<and>
     files_ok user F0 F es \<and> order_ok es"

section \<open>Elementary changes\<close>

lemma live_append [simp]: "live (es @ [e]) i \<longleftrightarrow> live es i \<or> i = length es \<and> ce_alive e"
  by (auto simp: live_def nth_append)

lemma nth_append_live: "live es i \<Longrightarrow> (es @ [e]) ! i = es ! i"
  by (simp add: live_def nth_append)

lemma live_update [simp]: "live (es[i := e]) j \<longleftrightarrow> (if j = i \<and> i < length es then ce_alive e else live es j)"
  by (auto simp: live_def)

lemma nth_update: "i < length es \<Longrightarrow> es[i := e] ! j = (if j = i then e else es ! j)"
  by simp

lemma is_url_append: "is_url (es @ [e]) p \<longleftrightarrow> is_url es p \<or> ce_alive e \<and> ce_url e = p"
  by (auto simp: is_url_def nth_append_live)

lemma is_orig_append: "is_orig (es @ [e]) p \<longleftrightarrow> is_orig es p \<or> ce_alive e \<and> ce_orig e = p"
  by (auto simp: is_orig_def nth_append_live)

text \<open>A write to a fresh path of the session's directory.\<close>

lemma tracked_temp:
  assumes inv: "tracked user F0 F es C M" and b: "\<not> user b" "F b = None"
  shows "tracked user F0 (F(b := v)) es C M"
proof -
  have "entries_ok user F0 (F(b := v)) es"
    using inv b by (auto simp: tracked_def entries_ok_def entry_ok_def split: if_splits)
  moreover have "current_ok user (F(b := v)) es C"
    using inv b by (fastforce simp: tracked_def current_ok_def)
  moreover have "files_ok user F0 (F(b := v)) es"
    using inv b by (auto simp: tracked_def files_ok_def)
  ultimately show ?thesis using inv by (simp add: tracked_def)
qed

text \<open>A file the session creates.\<close>

lemma tracked_create:
  assumes inv: "tracked user F0 F es C M" and p: "user p" "F p = None" "C p = None"
    and e: "ce_kind e = create" "ce_orig e = []" "ce_url e = p" "ce_backup e = []" "ce_alive e"
  shows "tracked user F0 (F(p \<mapsto> d)) (es @ [e]) (C(p \<mapsto> length es)) M"
proof -
  have no_url: "\<not> is_url es p" using inv p by (auto simp: tracked_def current_ok_def is_url_def)
  have p0: "p \<noteq> []" using inv p by (auto simp: tracked_def)
  have "entries_ok user F0 (F(p \<mapsto> d)) (es @ [e])"
    using inv p e by (auto simp: tracked_def entries_ok_def entry_ok_def nth_append_live kind_defs split: if_splits)
  moreover have "current_ok user (F(p \<mapsto> d)) (es @ [e]) (C(p \<mapsto> length es))"
    using inv p e by (auto simp: tracked_def current_ok_def nth_append_live)
  moreover have "origin_ok (es @ [e]) M" using inv e by (auto simp: tracked_def origin_ok_def nth_append_live)
  moreover have "files_ok user F0 (F(p \<mapsto> d)) (es @ [e])"
    using inv p e no_url p0 by (auto simp: tracked_def files_ok_def is_url_append is_orig_append split: if_splits)
  moreover have "order_ok (es @ [e])"
    using inv e by (auto simp: tracked_def order_ok_def nth_append_live live_def nth_append)
  ultimately show ?thesis using inv by (simp add: tracked_def)
qed

text \<open>A file that is tracked for the first time, unchanged so far.\<close>

lemma untracked_file:
  assumes inv: "tracked user F0 F es C M" and p: "user p" "F p \<noteq> None" "C p = None"
  shows "\<not> is_url es p" "\<not> is_orig es p" "F0 p = F p" "M p = None"
proof -
  show u: "\<not> is_url es p" using inv p by (auto simp: tracked_def current_ok_def is_url_def)
  then show o: "\<not> is_orig es p" using inv p by (auto simp: tracked_def files_ok_def)
  with u show "F0 p = F p" using inv p by (simp add: tracked_def files_ok_def)
  show "M p = None" using inv o by (cases "M p") (auto simp: tracked_def origin_ok_def is_orig_def)
qed

lemma tracked_adopt:
  assumes inv: "tracked user F0 F es C M" and p: "user p" "F p \<noteq> None" "C p = None"
    and e: "ce_kind e = updated" "ce_orig e = p" "ce_url e = p" "ce_backup e = []" "ce_alive e"
  shows "tracked user F0 F (es @ [e]) (C(p \<mapsto> length es)) (M(p \<mapsto> length es))"
proof -
  note new = untracked_file [OF inv p]
  have p0: "p \<noteq> []" using inv p by (auto simp: tracked_def)
  have "entries_ok user F0 F (es @ [e])"
    using inv p e new(3) by (auto simp: tracked_def entries_ok_def entry_ok_def nth_append_live kind_defs)
  moreover have "current_ok user F (es @ [e]) (C(p \<mapsto> length es))"
    using inv p e by (auto simp: tracked_def current_ok_def nth_append_live)
  moreover have "origin_ok (es @ [e]) (M(p \<mapsto> length es))"
    using inv e new(2,4) p0 by (auto simp: tracked_def origin_ok_def nth_append_live is_orig_def)
  moreover have "files_ok user F0 F (es @ [e])"
    using inv e p0 by (auto simp: tracked_def files_ok_def is_url_append is_orig_append)
  moreover have "order_ok (es @ [e])"
    using inv e new(1) by (auto simp: tracked_def order_ok_def nth_append_live live_def nth_append is_url_def)
  ultimately show ?thesis using inv by (simp add: tracked_def)
qed

text \<open>A write to a tracked file; the backup is of the file before, if there was none.\<close>

definition backed_up :: "(string \<Rightarrow> bool) \<Rightarrow> (string \<Rightarrow> string option) \<Rightarrow> string \<Rightarrow> changeEntry \<Rightarrow> changeEntry \<Rightarrow> bool" where
  "backed_up user F p e e' \<longleftrightarrow> ce_backup e' = ce_backup e \<and> (ce_kind e = create \<or> ce_backup e \<noteq> []) \<or>
     ce_backup e = [] \<and> ce_backup e' \<noteq> [] \<and> \<not> user (ce_backup e') \<and> F (ce_backup e') = F p"

lemma is_url_same:
  "live es i \<Longrightarrow> ce_url e' = ce_url (es ! i) \<Longrightarrow> ce_alive e' \<Longrightarrow> is_url (es[i := e']) p = is_url es p"
  by (auto simp: is_url_def live_def nth_list_update)

lemma is_orig_same:
  "live es i \<Longrightarrow> ce_orig e' = ce_orig (es ! i) \<Longrightarrow> ce_alive e' \<Longrightarrow> is_orig (es[i := e']) p = is_orig es p"
  by (auto simp: is_orig_def live_def nth_list_update)

lemma live_alive: "live es i \<Longrightarrow> i < length es \<and> ce_alive (es ! i)"
  by (simp add: live_def)

lemma tracked_url_inj:
  assumes "tracked user F0 F es C M" "live es i" "live es j" "ce_url (es ! i) = p" "ce_url (es ! j) = p" "p \<noteq> []"
  shows "i = j"
  using assms by (auto simp: tracked_def current_ok_def) (metis option.inject)

lemma current_at:
  "tracked user F0 F es C M \<Longrightarrow> C p = Some i \<Longrightarrow>
   live es i \<and> user p \<and> (ce_url (es ! i) = p \<or> ce_kind (es ! i) = deleted \<and> F p = None)"
  by (simp add: tracked_def current_ok_def)

lemma entry_at_live: "tracked user F0 F es C M \<Longrightarrow> live es i \<Longrightarrow> entry_ok user F0 F (es ! i)"
  by (simp add: tracked_def entries_ok_def)

lemma registered_place:
  assumes "tracked user F0 F es C M" "live es i" "ce_url (es ! i) = p" "user p" "C r = Some i"
  shows "r = p"
  using current_at [OF assms(1,5)] entry_at_live [OF assms(1,2)] assms
  by (auto simp: entry_ok_def kind_defs tracked_def)

lemma origin_ok_same:
  "origin_ok es M \<Longrightarrow> live es i \<Longrightarrow> ce_orig e' = ce_orig (es ! i) \<Longrightarrow> ce_alive e' \<Longrightarrow> origin_ok (es[i := e']) M"
  by (auto simp: origin_ok_def live_def nth_list_update)

lemma tracked_touch:
  assumes inv: "tracked user F0 F es C M" and i: "live es i" "ce_url (es ! i) = p" "user p"
    and e: "ce_kind e' = ce_kind (es ! i)" "ce_orig e' = ce_orig (es ! i)" "ce_url e' = p" "ce_alive e'"
      "backed_up user F p (es ! i) e'"
  shows "tracked user F0 (F(p \<mapsto> d)) (es[i := e']) C M"
proof -
  have p0: "p \<noteq> []" using inv i by (auto simp: tracked_def)
  note len = live_alive [OF i(1)]
  have "entry_ok user F0 (F(p \<mapsto> d)) e'"
    using inv i e p0 by (auto simp: tracked_def entries_ok_def entry_ok_def backed_up_def kind_defs split: if_splits)
  moreover have "entry_ok user F0 (F(p \<mapsto> d)) (es ! j)" if "live es j" "j \<noteq> i" for j
    using inv that tracked_url_inj [OF inv i(1) that(1) i(2) _ p0] i(3)
    by (auto simp: tracked_def entries_ok_def entry_ok_def split: if_splits)
  ultimately have "entries_ok user F0 (F(p \<mapsto> d)) (es[i := e'])"
    using len by (auto simp: entries_ok_def nth_update)
  moreover have "current_ok user (F(p \<mapsto> d)) (es[i := e']) C"
    using inv i e len p0 by (auto simp: tracked_def current_ok_def nth_list_update)
  moreover have "origin_ok (es[i := e']) M" using inv i e by (auto simp: tracked_def intro: origin_ok_same)
  moreover have "files_ok user F0 (F(p \<mapsto> d)) (es[i := e'])"
  proof -
    have "is_url es p" using i by (auto simp: is_url_def)
    with inv i e show ?thesis by (auto simp: tracked_def files_ok_def is_url_same is_orig_same)
  qed
  moreover have "order_ok (es[i := e'])" using inv i e len by (auto simp: tracked_def order_ok_def nth_list_update)
  ultimately show ?thesis using inv by (simp add: tracked_def)
qed

text \<open>A tracked file that moves to a free place, which is not the origin of a later entry.\<close>

lemma is_url_move:
  assumes "live es i" "ce_url e' = q" "ce_alive e'" "\<And>j. live es j \<Longrightarrow> j \<noteq> i \<Longrightarrow> ce_url (es ! j) \<noteq> ce_url (es ! i)"
  shows "is_url (es[i := e']) p \<longleftrightarrow> p = q \<or> (is_url es p \<and> p \<noteq> ce_url (es ! i))"
proof -
  have "is_url (es[i := e']) p \<longleftrightarrow> p = q \<or> (\<exists>j. live es j \<and> j \<noteq> i \<and> ce_url (es ! j) = p)"
    using assms(1-3) live_alive [OF assms(1)] by (auto simp: is_url_def nth_list_update split: if_splits)
  also have "\<dots> \<longleftrightarrow> p = q \<or> (is_url es p \<and> p \<noteq> ce_url (es ! i))" using assms(4) by (auto simp: is_url_def)
  finally show ?thesis .
qed

lemma is_url_drop:
  assumes "live es i" "\<not> ce_alive e' \<or> ce_url e' \<noteq> p" "\<And>j. live es j \<Longrightarrow> j \<noteq> i \<Longrightarrow> ce_url (es ! j) \<noteq> ce_url (es ! i)"
  shows "is_url (es[i := e']) p \<longleftrightarrow> is_url es p \<and> p \<noteq> ce_url (es ! i)"
proof -
  have "is_url (es[i := e']) p \<longleftrightarrow> (\<exists>j. live es j \<and> j \<noteq> i \<and> ce_url (es ! j) = p)"
    using assms(2) live_alive [OF assms(1)] unfolding is_url_def by (metis live_update nth_update)
  also have "\<dots> \<longleftrightarrow> is_url es p \<and> p \<noteq> ce_url (es ! i)" using assms(3) by (auto simp: is_url_def)
  finally show ?thesis .
qed

lemma tracked_relocate:
  assumes inv: "tracked user F0 F es C M" and i: "live es i" "ce_url (es ! i) = p" "user p"
    and q: "user q" "F q = None" "C q = None" "\<forall>j. live es j \<and> i < j \<longrightarrow> ce_orig (es ! j) \<noteq> q"
    and e: "ce_kind e' = ce_kind (es ! i)" "ce_orig e' = ce_orig (es ! i)" "ce_url e' = q" "ce_alive e'" "ce_backup e' = ce_backup (es ! i)"
  shows "tracked user F0 (F(p := None, q := F p)) (es[i := e']) (C(p := None, q \<mapsto> i)) M"
proof -
  have p0: "p \<noteq> []" "q \<noteq> []" using inv i q by (auto simp: tracked_def)
  note len = live_alive [OF i(1)]
  have Fp: "F p \<noteq> None" using inv i p0 by (auto simp: tracked_def entries_ok_def entry_ok_def)
  then have pq: "p \<noteq> q" using q by auto
  have not_q: "ce_url (es ! j) \<noteq> q" if "live es j" for j
    using inv that q(3) p0 by (auto simp: tracked_def current_ok_def)
  have only: "ce_url (es ! j) \<noteq> p" if "live es j" "j \<noteq> i" for j
    using tracked_url_inj [OF inv i(1) that(1) i(2) _ p0(1)] that(2) by blast
  have "entry_ok user F0 (F(p := None, q := F p)) e'"
    using inv i q e p0 pq by (auto simp: tracked_def entries_ok_def entry_ok_def kind_defs split: if_splits)
  moreover have "entry_ok user F0 (F(p := None, q := F p)) (es ! j)" if "live es j" "j \<noteq> i" for j
    using inv that only [OF that] not_q [OF that(1)] i(3) q(1) by (auto simp: tracked_def entries_ok_def entry_ok_def split: if_splits)
  ultimately have "entries_ok user F0 (F(p := None, q := F p)) (es[i := e'])"
    using len by (auto simp: entries_ok_def nth_update)
  moreover have "current_ok user (F(p := None, q := F p)) (es[i := e']) (C(p := None, q \<mapsto> i))"
  proof -
    have "C r \<noteq> Some i" if "r \<noteq> p" for r using that registered_place [OF inv i, of r] by auto
    then show ?thesis using inv i q e len p0 pq only not_q
      by (auto simp: tracked_def current_ok_def nth_list_update)
  qed
  moreover have "origin_ok (es[i := e']) M" using inv i e by (auto simp: tracked_def intro: origin_ok_same)
  moreover have "files_ok user F0 (F(p := None, q := F p)) (es[i := e'])"
  proof -
    have u: "is_url (es[i := e']) r \<longleftrightarrow> r = q \<or> (is_url es r \<and> r \<noteq> p)" for r
      using is_url_move [OF i(1) e(3,4)] only i(2) by simp
    have "is_url es p" "\<not> is_url es q" using i not_q by (auto simp: is_url_def)
    then show ?thesis using inv i q e pq unfolding files_ok_def u is_orig_same [OF i(1) e(2,4)]
      by (auto simp: tracked_def files_ok_def split: if_splits)
  qed
  moreover have "order_ok (es[i := e'])"
    using inv i e len q(4) by (auto simp: tracked_def order_ok_def nth_list_update)
  ultimately show ?thesis using inv by (simp add: tracked_def)
qed

text \<open>A created file that is deleted again is forgotten.\<close>

lemma tracked_drop:
  assumes inv: "tracked user F0 F es C M" and i: "live es i" "ce_url (es ! i) = p" "user p" "ce_kind (es ! i) = create"
    and e: "\<not> ce_alive e'"
  shows "tracked user F0 (F(p := None)) (es[i := e']) (C(p := None)) M"
proof -
  have p0: "p \<noteq> []" using inv i by (auto simp: tracked_def)
  note len = live_alive [OF i(1)]
  have o: "ce_orig (es ! i) = []" using inv i by (auto simp: tracked_def entries_ok_def entry_ok_def kind_defs)
  have only: "ce_url (es ! j) \<noteq> p" if "live es j" "j \<noteq> i" for j
    using tracked_url_inj [OF inv i(1) that(1) i(2) _ p0] that(2) by blast
  have "entries_ok user F0 (F(p := None)) (es[i := e'])"
    using inv only i(3) e len by (fastforce simp: tracked_def entries_ok_def entry_ok_def nth_update split: if_splits)
  moreover have "current_ok user (F(p := None)) (es[i := e']) (C(p := None))"
  proof -
    have "C r \<noteq> Some i" if "r \<noteq> p" for r using that registered_place [OF inv i(1-3), of r] by auto
    then show ?thesis using inv i e len only by (auto simp: tracked_def current_ok_def nth_list_update)
  qed
  moreover have "origin_ok (es[i := e']) M"
  proof -
    have "M r \<noteq> Some i" for r using inv o by (auto simp: tracked_def origin_ok_def)
    then show ?thesis using inv o e len by (auto simp: tracked_def origin_ok_def nth_list_update)
  qed
  moreover have "files_ok user F0 (F(p := None)) (es[i := e'])"
  proof -
    have u: "is_url (es[i := e']) r \<longleftrightarrow> is_url es r \<and> r \<noteq> p" for r
      using is_url_drop [OF i(1), of e' r] e only i(2) by simp
    have m: "is_orig (es[i := e']) r \<longleftrightarrow> is_orig es r" if "user r" for r
    proof -
      have "r \<noteq> []" using inv that by (auto simp: tracked_def)
      then have "live (es[i := e']) j \<and> ce_orig (es[i := e'] ! j) = r \<longleftrightarrow> live es j \<and> ce_orig (es ! j) = r" for j
        using e len o by (cases "j = i") (auto simp: live_def)
      then show ?thesis unfolding is_orig_def by blast
    qed
    have "is_url es p" using i by (auto simp: is_url_def)
    then show ?thesis using inv i p0 unfolding files_ok_def u
      by (auto simp: tracked_def files_ok_def m split: if_splits)
  qed
  moreover have "order_ok (es[i := e'])" using inv e len by (auto simp: tracked_def order_ok_def nth_list_update)
  ultimately show ?thesis using inv by (simp add: tracked_def)
qed

text \<open>A tracked file that is deleted keeps its entry and its backup.\<close>

lemma tracked_delete:
  assumes inv: "tracked user F0 F es C M" and i: "live es i" "ce_url (es ! i) = p" "user p" "ce_kind (es ! i) = updated"
    and e: "ce_kind e' = deleted" "ce_orig e' = ce_orig (es ! i)" "ce_url e' = []" "ce_alive e'" "backed_up user F p (es ! i) e'"
  shows "tracked user F0 (F(p := None)) (es[i := e']) C M"
proof -
  have p0: "p \<noteq> []" using inv i by (auto simp: tracked_def)
  note len = live_alive [OF i(1)]
  have only: "ce_url (es ! j) \<noteq> p" if "live es j" "j \<noteq> i" for j
    using tracked_url_inj [OF inv i(1) that(1) i(2) _ p0] that(2) by blast
  have "entry_ok user F0 (F(p := None)) e'"
    using entry_at_live [OF inv i(1)] i e p0 by (auto simp: entry_ok_def backed_up_def kind_defs split: if_splits)
  moreover have "entry_ok user F0 (F(p := None)) (es ! j)" if "live es j" "j \<noteq> i" for j
    using entry_at_live [OF inv that(1)] only [OF that] i(3) by (auto simp: entry_ok_def split: if_splits)
  ultimately have "entries_ok user F0 (F(p := None)) (es[i := e'])"
    using len by (auto simp: entries_ok_def nth_update)
  moreover have "current_ok user (F(p := None)) (es[i := e']) C"
  proof -
    have "C r \<noteq> Some i" if "r \<noteq> p" for r using that registered_place [OF inv i(1-3), of r] by auto
    then show ?thesis using inv i e len by (auto simp: tracked_def current_ok_def nth_list_update)
  qed
  moreover have "origin_ok (es[i := e']) M" using inv i e by (auto simp: tracked_def intro: origin_ok_same)
  moreover have "files_ok user F0 (F(p := None)) (es[i := e'])"
  proof -
    have u: "is_url (es[i := e']) r \<longleftrightarrow> is_url es r \<and> r \<noteq> p" if "r \<noteq> []" for r
      using is_url_drop [OF i(1), of e' r] e only i(2) that by simp
    have "is_url es p" using i by (auto simp: is_url_def)
    moreover have "r \<noteq> []" if "user r" for r using inv that by (auto simp: tracked_def)
    ultimately show ?thesis using inv i p0 unfolding files_ok_def is_orig_same [OF i(1) e(2,4)]
      by (auto simp: tracked_def files_ok_def u split: if_splits)
  qed
  moreover have "order_ok (es[i := e'])"
    using inv i e len by (auto simp: tracked_def order_ok_def nth_list_update)
  ultimately show ?thesis using inv by (simp add: tracked_def)
qed

section \<open>Tracking keeps the invariant\<close>

definition tracks :: "(string \<Rightarrow> bool) \<Rightarrow> (string \<Rightarrow> string option) \<Rightarrow> (string \<Rightarrow> string option) \<Rightarrow> Session \<Rightarrow> bool" where
  "tracks user F0 F s \<longleftrightarrow> tracked user F0 F (ss_order s) (map_of (ss_byCurrent s)) (map_of (ss_byOrigin s))"

named_theorems session_simps

lemma mod_entry_simps [session_simps]:
  "ss_order (mod_entry i f s) = (ss_order s)[i := f (ss_order s ! i)]"
  "ss_byCurrent (mod_entry i f s) = ss_byCurrent s" "ss_byOrigin (mod_entry i f s) = ss_byOrigin s"
  by (simp_all add: mod_entry_def)

lemma registry_simps [session_simps]:
  "ss_order (set_current url i s) = ss_order s" "ss_order (del_current url s) = ss_order s" "ss_order (set_origin url i s) = ss_order s"
  "map_of (ss_byCurrent (set_current url i s)) = (map_of (ss_byCurrent s))(url \<mapsto> i)" "ss_byOrigin (set_current url i s) = ss_byOrigin s"
  "map_of (ss_byCurrent (del_current url s)) = (map_of (ss_byCurrent s))(url := None)" "ss_byOrigin (del_current url s) = ss_byOrigin s"
  "map_of (ss_byOrigin (set_origin url i s)) = (map_of (ss_byOrigin s))(url \<mapsto> i)" "ss_byCurrent (set_origin url i s) = ss_byCurrent s"
  by (simp_all add: set_current_def del_current_def set_origin_def update_conv' delete_conv')

lemma fill_origin_id: "ce_orig (ss_order s ! i) \<noteq> [] \<Longrightarrow> fill_origin i path s = s"
  by (simp add: fill_origin_def)

lemma append_entry_eq:
  "append_entry orig url s = (i, s') \<Longrightarrow> i = length (ss_order s) \<and>
     ss_order s' = ss_order s @ [\<lparr>ce_kind = [], ce_orig = orig, ce_url = url, ce_backup = [], ce_alive = True, ce_diff = []\<rparr>] \<and>
     map_of (ss_byCurrent s') = (if url = [] then map_of (ss_byCurrent s) else (map_of (ss_byCurrent s))(url \<mapsto> i)) \<and>
     map_of (ss_byOrigin s') = (if orig = [] then map_of (ss_byOrigin s) else (map_of (ss_byOrigin s))(orig \<mapsto> i))"
  by (auto simp: append_entry_def Let_def session_simps)

text \<open>Where a file may be added: at a free place that no entry has been at, or over a file the session created.\<close>

definition free_place :: "(string \<Rightarrow> string option) \<Rightarrow> Session \<Rightarrow> string \<Rightarrow> bool" where
  "free_place F s p \<longleftrightarrow> F p = None \<and> current s p = None"

definition created_here :: "Session \<Rightarrow> string \<Rightarrow> bool" where
  "created_here s p \<longleftrightarrow> (\<exists>i. current s p = Some i \<and> ce_kind (ss_order s ! i) = create)"

lemma placed_entry:
  assumes "tracks user F0 F s" "current s p = Some i" "F p \<noteq> None \<or> ce_kind (ss_order s ! i) = create"
  shows "live (ss_order s) i" "user p" "ce_url (ss_order s ! i) = p"
    "ce_kind (ss_order s ! i) = create \<and> ce_orig (ss_order s ! i) = [] \<or>
     ce_kind (ss_order s ! i) = updated \<and> ce_orig (ss_order s ! i) \<noteq> []"
proof -
  have inv: "tracked user F0 F (ss_order s) (map_of (ss_byCurrent s)) (map_of (ss_byOrigin s))" using assms(1) by (simp add: tracks_def)
  note c = current_at [OF inv assms(2) [unfolded current_def]]
  with assms(3) show l: "live (ss_order s) i" and u: "user p" and url: "ce_url (ss_order s ! i) = p" by (auto simp: kind_defs)
  have "p \<noteq> []" using inv u by (auto simp: tracked_def)
  then show "ce_kind (ss_order s ! i) = create \<and> ce_orig (ss_order s ! i) = [] \<or>
     ce_kind (ss_order s ! i) = updated \<and> ce_orig (ss_order s ! i) \<noteq> []"
    using entry_at_live [OF inv l] url inv by (auto simp: entry_ok_def tracked_def)
qed

lemma trackAdd_tracks:
  assumes inv: "tracks user F0 F s" and p: "user p" "free_place F s p \<or> created_here s p"
  shows "tracks user F0 (F(p \<mapsto> d)) (trackAdd env w p s)"
proof (cases "current s p")
  case None
  then have free: "F p = None" using p(2) by (auto simp: free_place_def created_here_def)
  have p0: "p \<noteq> []" using inv p by (auto simp: tracks_def tracked_def)
  obtain i s1 where a: "append_entry [] p s = (i, s1)" by (cases "append_entry [] p s") auto
  with None p0 have "trackAdd env w p s =
     mod_entry i (\<lambda>e. e\<lparr>ce_kind := create, ce_alive := True, ce_diff := diff_of env [] (data_or_empty env p w) p\<rparr>) s1"
    by (simp add: trackAdd_def entry_at_def ensureEntry_def)
  with append_entry_eq [OF a] p0 None free show ?thesis
    using tracked_create [OF inv [unfolded tracks_def] p(1) free]
    by (simp add: tracks_def session_simps current_def list_update_append)
next
  case (Some i)
  then have k: "ce_kind (ss_order s ! i) = create" using p(2) by (auto simp: free_place_def created_here_def)
  note e = placed_entry [OF inv Some disjI2 [OF k]]
  show ?thesis using tracked_touch [OF inv [unfolded tracks_def] e(1,3) p(1)] Some k e(3)
    by (simp add: trackAdd_def entry_at_def tracks_def session_simps backed_up_def)
qed

lemma trackUpdate_tracks:
  assumes inv: "tracks user F0 F s" and p: "user p" "F p \<noteq> None" and b: "b \<noteq> []" "\<not> user b" "F b = F p"
  shows "tracks user F0 (F(p \<mapsto> d)) (trackUpdate env w p b s)"
proof (cases "current s p")
  case None
  have p0: "p \<noteq> []" using inv p by (auto simp: tracks_def tracked_def)
  have c: "map_of (ss_byCurrent s) p = None" using None by (simp add: current_def)
  note new = untracked_file [OF inv [unfolded tracks_def] p c]
  obtain i s1 where a: "append_entry p p s = (i, s1)" by (cases "append_entry p p s") auto
  let ?e = "\<lparr>ce_kind = updated, ce_orig = p, ce_url = p, ce_backup = [], ce_alive = True, ce_diff = []\<rparr>"
  have inv1: "tracked user F0 F (ss_order s @ [?e]) ((map_of (ss_byCurrent s))(p \<mapsto> i)) ((map_of (ss_byOrigin s))(p \<mapsto> i))"
    using tracked_adopt [OF inv [unfolded tracks_def] p c, of ?e] append_entry_eq [OF a] by simp
  have en: "entry_at p p p s = (i, s1)" using None p0 new(4) a by (simp add: entry_at_def ensureEntry_def)
  note fin = tracked_touch [OF inv1, of i p "?e\<lparr>ce_backup := b, ce_diff := x\<rparr>" d for x]
  show ?thesis using fin append_entry_eq [OF a] p p0 b en
    by (simp add: trackUpdate_def tracks_def session_simps list_update_append kind_defs fill_origin_def backed_up_def)
next
  case (Some i)
  note e = placed_entry [OF inv Some disjI1 [OF p(2)]]
  note len = live_alive [OF e(1)]
  show ?thesis using tracked_touch [OF inv [unfolded tracks_def] e(1,3) p(1)] Some e(3,4) b len
    by (auto simp: trackUpdate_def entry_at_def tracks_def session_simps backed_up_def kind_defs fill_origin_def)
qed

text \<open>Where a file may move: to a free place that is not the origin of a later entry.\<close>

definition may_move :: "(string \<Rightarrow> string option) \<Rightarrow> Session \<Rightarrow> string \<Rightarrow> string \<Rightarrow> bool" where
  "may_move F s src dst \<longleftrightarrow> free_place F s dst \<and>
     (\<forall>i j. current s src = Some i \<and> live (ss_order s) j \<and> i < j \<longrightarrow> ce_orig (ss_order s ! j) \<noteq> dst)"

lemma trackMove_tracks:
  assumes inv: "tracks user F0 F s" and p: "user p" "F p \<noteq> None" and q: "user q" "may_move F s p q"
  shows "tracks user F0 (F(p := None, q := F p)) (trackMove p q s)"
proof (cases "current s p")
  case None
  have p0: "p \<noteq> []" "q \<noteq> []" using inv p q by (auto simp: tracks_def tracked_def)
  have c: "map_of (ss_byCurrent s) p = None" using None by (simp add: current_def)
  have pq: "p \<noteq> q" "F q = None" "current s q = None" using p q by (auto simp: may_move_def free_place_def)
  note new = untracked_file [OF inv [unfolded tracks_def] p c]
  obtain i s1 where a: "append_entry p q s = (i, s1)" by (cases "append_entry p q s") auto
  note ap = append_entry_eq [OF a]
  let ?e = "\<lparr>ce_kind = updated, ce_orig = p, ce_url = p, ce_backup = [], ce_alive = True, ce_diff = []\<rparr>"
  have inv1: "tracked user F0 F (ss_order s @ [?e]) ((map_of (ss_byCurrent s))(p \<mapsto> i)) ((map_of (ss_byOrigin s))(p \<mapsto> i))"
    using tracked_adopt [OF inv [unfolded tracks_def] p c, of ?e] ap by simp
  have en: "ensureEntry p q s = (i, s1)" using pq p0 new(4) a by (simp add: ensureEntry_def)
  have late: "\<forall>j. live (ss_order s @ [?e]) j \<and> i < j \<longrightarrow> ce_orig ((ss_order s @ [?e]) ! j) \<noteq> q"
    using ap by (auto simp: live_def)
  have cur: "(map_of (ss_byCurrent s))(p := None, q \<mapsto> n) = (map_of (ss_byCurrent s))(q \<mapsto> n)" for n
    using c by (auto simp: fun_eq_iff)
  from tracked_relocate [OF inv1 _ _ p(1) q(1) pq(2) _ late, of "?e\<lparr>ce_url := q\<rparr>"] ap pq
  have "tracked user F0 (F(p := None, q := F p)) (ss_order s @ [?e\<lparr>ce_url := q\<rparr>])
     ((map_of (ss_byCurrent s))(q \<mapsto> i)) ((map_of (ss_byOrigin s))(p \<mapsto> i))"
    by (simp add: current_def cur list_update_append)
  with None en ap p0 show ?thesis
    by (simp add: trackMove_def tracks_def session_simps list_update_append)
next
  case (Some i)
  note e = placed_entry [OF inv Some disjI1 [OF p(2)]]
  note len = live_alive [OF e(1)]
  have q': "F q = None" "map_of (ss_byCurrent s) q = None"
    "\<forall>j. live (ss_order s) j \<and> i < j \<longrightarrow> ce_orig (ss_order s ! j) \<noteq> q"
    using q Some by (auto simp: may_move_def free_place_def current_def)
  show ?thesis using tracked_relocate [OF inv [unfolded tracks_def] e(1,3) p(1) q(1) q', of "(ss_order s ! i)\<lparr>ce_url := q\<rparr>"] Some e(4) len
    by (auto simp: trackMove_def Let_def tracks_def session_simps kind_defs fill_origin_def)
qed

text \<open>A registration that is out of date can go.\<close>

lemma tracked_forget:
  assumes "tracked user F0 F es C M" "C p = Some i" "ce_url (es ! i) \<noteq> p"
  shows "tracked user F0 F es (C(p := None)) M"
proof -
  have "current_ok user F es (C(p := None))"
    using assms by (auto simp: tracked_def current_ok_def)
  then show ?thesis using assms by (simp add: tracked_def)
qed

lemma trackDelete_tracks:
  assumes inv: "tracks user F0 F s" and p: "user p" "F p \<noteq> None" and b: "b \<noteq> []" "\<not> user b" "F b = F p"
  shows "tracks user F0 (F(p := None)) (trackDelete env w p b s)"
proof (cases "current s p")
  case None
  have p0: "p \<noteq> []" using inv p by (auto simp: tracks_def tracked_def)
  have c: "map_of (ss_byCurrent s) p = None" using None by (simp add: current_def)
  note new = untracked_file [OF inv [unfolded tracks_def] p c]
  obtain i s1 where a: "append_entry p [] s = (i, s1)" by (cases "append_entry p [] s") auto
  note ap = append_entry_eq [OF a]
  let ?e = "\<lparr>ce_kind = updated, ce_orig = p, ce_url = p, ce_backup = [], ce_alive = True, ce_diff = []\<rparr>"
  have inv1: "tracked user F0 F (ss_order s @ [?e]) ((map_of (ss_byCurrent s))(p \<mapsto> i)) ((map_of (ss_byOrigin s))(p \<mapsto> i))"
    using tracked_adopt [OF inv [unfolded tracks_def] p c, of ?e] ap by simp
  have en: "ensureEntry p [] s = (i, s1)" using p0 new(4) a by (simp add: ensureEntry_def)
  have touched: "tracked user F0 (F(p := None)) (ss_order s @ [?e\<lparr>ce_kind := deleted, ce_url := [], ce_backup := b, ce_diff := x\<rparr>])
     ((map_of (ss_byCurrent s))(p \<mapsto> i)) ((map_of (ss_byOrigin s))(p \<mapsto> i))" for x
    using tracked_delete [OF inv1, of i p "?e\<lparr>ce_kind := deleted, ce_url := [], ce_backup := b, ce_diff := x\<rparr>"] ap p b
    by (simp add: backed_up_def)
  have cur: "(map_of (ss_byCurrent s))(p := None) = map_of (ss_byCurrent s)" using c by (auto simp: fun_eq_iff)
  have "tracked user F0 (F(p := None)) (ss_order s @ [?e\<lparr>ce_kind := deleted, ce_url := [], ce_backup := b, ce_diff := x\<rparr>])
     (map_of (ss_byCurrent s)) ((map_of (ss_byOrigin s))(p \<mapsto> i))" for x
    using tracked_forget [OF touched, of p i x] ap p0 by (simp add: cur)
  with None en ap p0 b show ?thesis
    by (simp add: trackDelete_def mark_deleted_def tracks_def session_simps fill_origin_def list_update_append)
next
  case (Some i)
  note e = placed_entry [OF inv Some disjI1 [OF p(2)]]
  note len = live_alive [OF e(1)]
  show ?thesis
  proof (cases "ce_kind (ss_order s ! i) = create")
    case True
    with e(4) have "ce_orig (ss_order s ! i) = []" by (auto simp: kind_defs)
    with True Some tracked_drop [OF inv [unfolded tracks_def] e(1,3) p(1) True, of "(ss_order s ! i)\<lparr>ce_alive := False\<rparr>"]
    show ?thesis by (simp add: trackDelete_def Let_def tracks_def session_simps)
  next
    case False
    with e(4) have k: "ce_kind (ss_order s ! i) = updated" "ce_orig (ss_order s ! i) \<noteq> []" by auto
    show ?thesis using tracked_delete [OF inv [unfolded tracks_def] e(1,3) p(1) k(1)] Some k b len
      by (auto simp: trackDelete_def mark_deleted_def tracks_def session_simps fill_origin_def backed_up_def kind_defs)
  qed
qed

section \<open>Operations keep the invariant\<close>

definition user :: "(string \<Rightarrow> bool) \<Rightarrow> string \<Rightarrow> bool" where
  "user temp p \<longleftrightarrow> p \<noteq> [] \<and> \<not> temp p"

definition same_meta :: "Session \<Rightarrow> Session \<Rightarrow> bool" where
  "same_meta s s' \<longleftrightarrow> ss_committed s' = ss_committed s \<and> ss_tempDir s' = ss_tempDir s"

lemma meta_simps [session_simps]:
  "same_meta s (mod_entry i f s') = same_meta s s'" "same_meta s (set_current url i s') = same_meta s s'"
  "same_meta s (del_current url s') = same_meta s s'" "same_meta s (set_origin url i s') = same_meta s s'"
  "same_meta s (s'\<lparr>ss_byOrigin := m\<rparr>) = same_meta s s'" "same_meta s (s'\<lparr>ss_order := es\<rparr>) = same_meta s s'"
  by (simp_all add: same_meta_def mod_entry_def set_current_def del_current_def set_origin_def)

lemma same_meta_refl [simp]: "same_meta s s"
  by (simp add: same_meta_def)

lemma fill_origin_meta [session_simps]: "same_meta s (fill_origin i p s') = same_meta s s'"
  by (simp add: fill_origin_def session_simps)

lemma ensureEntry_meta: "ensureEntry orig url s = (i, s') \<Longrightarrow> same_meta s s'"
  by (auto simp: ensureEntry_def append_entry_def Let_def session_simps split: option.splits if_splits)

lemma entry_at_meta: "entry_at p orig url s = (i, s') \<Longrightarrow> same_meta s s'"
  by (auto simp: entry_at_def dest: ensureEntry_meta split: option.splits)

lemma trackAdd_meta: "same_meta s (trackAdd env w p s)"
  by (cases "entry_at p [] p s") (simp add: trackAdd_def session_simps entry_at_meta)

lemma trackMove_meta: "same_meta s (trackMove p q s)"
  by (cases "ensureEntry p q s") (simp add: trackMove_def Let_def session_simps ensureEntry_meta split: option.split)

lemma trackUpdate_meta: "same_meta s (trackUpdate env w p b s)"
  by (cases "entry_at p p p s") (simp add: trackUpdate_def Let_def session_simps entry_at_meta)

lemma trackDelete_meta: "same_meta s (trackDelete env w p b s)"
  by (cases "ensureEntry p [] s")
    (simp add: trackDelete_def mark_deleted_def Let_def session_simps ensureEntry_meta split: option.split)

lemmas track_meta = trackAdd_meta trackMove_meta trackUpdate_meta trackDelete_meta

text \<open>The laws of the file service, one at a time.\<close>

lemma fs_okD:
  assumes "fs_ok env files tempDir temp"
  shows "fst (fs_Exists env p w) \<longleftrightarrow> files w p \<noteq> None"
    "fs_Download env p w = Inr d \<Longrightarrow> files w p = Some d"
    "fs_Upload env p d w = (None, w') \<Longrightarrow> files w' = (files w)(p \<mapsto> d)"
    "fs_Upload env p d w = (Some e, w') \<Longrightarrow> files w' = files w"
    "\<not> temp p \<Longrightarrow> fs_Delete env p w = (None, w') \<Longrightarrow> files w' = (files w)(p := None)"
    "\<not> temp p \<Longrightarrow> fs_Delete env p w = (Some e, w') \<Longrightarrow> files w' = files w"
    "fs_Delete env p w = (Some e, w') \<Longrightarrow> contains_fold e ''not found'' \<Longrightarrow> files w p = None"
    "fs_Move env p q w = (None, w') \<Longrightarrow> files w' = (files w)(p := None, q := files w p)"
    "fs_Move env p q w = (Some e, w') \<Longrightarrow> files w' = files w"
    "fs_Create env p w = (r, w') \<Longrightarrow> files w' = files w"
    "\<not> temp q \<Longrightarrow> fs_Delete env tempDir w = (r, w') \<Longrightarrow> files w' q = files w q"
proof -
  have l1: "\<forall>p w. fst (fs_Exists env p w) \<longleftrightarrow> files w p \<noteq> None"
    using assms unfolding fs_ok_def by (elim conjE)
  have l2: "\<forall>p w d. fs_Download env p w = Inr d \<longrightarrow> files w p = Some d"
    using assms unfolding fs_ok_def by (elim conjE)
  have l3: "\<forall>p d w. does files w (fs_Upload env p d w) ((files w)(p \<mapsto> d))"
    using assms unfolding fs_ok_def by (elim conjE)
  have l4: "\<forall>p w. \<not> temp p \<longrightarrow> does files w (fs_Delete env p w) ((files w)(p := None))"
    using assms unfolding fs_ok_def by (elim conjE)
  have l5: "\<forall>p w e w'. fs_Delete env p w = (Some e, w') \<and> contains_fold e ''not found'' \<longrightarrow> files w p = None"
    using assms unfolding fs_ok_def by (elim conjE)
  have l6: "\<forall>p q w. does files w (fs_Move env p q w) ((files w)(p := None, q := files w p))"
    using assms unfolding fs_ok_def by (elim conjE)
  have l7: "\<forall>p w. files (snd (fs_Create env p w)) = files w"
    using assms unfolding fs_ok_def by (elim conjE)
  have l8: "\<forall>w q. \<not> temp q \<longrightarrow> files (snd (fs_Delete env tempDir w)) q = files w q"
    using assms unfolding fs_ok_def by (elim conjE)
  show "fst (fs_Exists env p w) \<longleftrightarrow> files w p \<noteq> None" using l1 [rule_format, of p w] .
  show "fs_Download env p w = Inr d \<Longrightarrow> files w p = Some d" using l2 [rule_format, of p w d] by simp
  show "fs_Upload env p d w = (None, w') \<Longrightarrow> files w' = (files w)(p \<mapsto> d)"
    "fs_Upload env p d w = (Some e, w') \<Longrightarrow> files w' = files w"
    using l3 [rule_format, of w p d] by (simp_all add: does_def)
  show "\<not> temp p \<Longrightarrow> fs_Delete env p w = (None, w') \<Longrightarrow> files w' = (files w)(p := None)"
    "\<not> temp p \<Longrightarrow> fs_Delete env p w = (Some e, w') \<Longrightarrow> files w' = files w"
    using l4 [rule_format, of p w] by (simp_all add: does_def)
  show "fs_Delete env p w = (Some e, w') \<Longrightarrow> contains_fold e ''not found'' \<Longrightarrow> files w p = None"
    using l5 [rule_format, of p w e w'] by simp
  show "fs_Move env p q w = (None, w') \<Longrightarrow> files w' = (files w)(p := None, q := files w p)"
    "fs_Move env p q w = (Some e, w') \<Longrightarrow> files w' = files w"
    using l6 [rule_format, of w p q] by (simp_all add: does_def)
  show "fs_Create env p w = (r, w') \<Longrightarrow> files w' = files w"
    using l7 [rule_format, of p w] by simp
  show "\<not> temp q \<Longrightarrow> fs_Delete env tempDir w = (r, w') \<Longrightarrow> files w' q = files w q"
    using l8 [rule_format, of q w] by simp
qed

lemma fs_ok_backup:
  "fs_ok env files tempDir temp \<Longrightarrow> b = fs_join env tempDir (TrimPrefix p [slash] @ ''.'' @ fs_stamp env w @ ''.bak'') \<Longrightarrow>
   temp b \<and> b \<noteq> [] \<and> files w b = None"
  unfolding fs_ok_def Let_def by (elim conjE allE) auto

text \<open>A backup leaves the user's files alone, whether it succeeds or not.\<close>

lemma backup_tracks:
  assumes ok: "fs_ok env files tempDir temp" and inv: "tracks (user temp) F0 (files w) s" and run: "backup env tempDir p w = (r, w')"
  shows "tracks (user temp) F0 (files w') s" "\<not> temp q \<Longrightarrow> files w' q = files w q"
    "r = Inr b \<Longrightarrow> b \<noteq> [] \<and> temp b \<and> files w' b = files w p"
proof -
  let ?b = "fs_join env tempDir (TrimPrefix p [slash] @ ''.'' @ fs_stamp env w @ ''.bak'')"
  note b = fs_ok_backup [OF ok refl, of p w]
  have cases: "files w' = files w \<and> (\<exists>e. r = Inl e) \<or> r = Inr ?b \<and> (\<exists>d. files w p = Some d \<and> files w' = (files w)(?b \<mapsto> d))"
  proof (cases "fs_Download env p w")
    case (Inl e)
    have "r = Inl e" "w' = w" using run Inl by (simp_all add: backup_def)
    then show ?thesis by simp
  next
    case (Inr d)
    obtain c w1 where c: "fs_Create env (fs_parent env ?b) w = (c, w1)" by (cases "fs_Create env (fs_parent env ?b) w") auto
    obtain u w2 where u: "fs_Upload env ?b d w1 = (u, w2)" by (cases "fs_Upload env ?b d w1") auto
    have "files w p = Some d" "files w1 = files w" "files w2 = (if u = None then (files w1)(?b \<mapsto> d) else files w1)"
      using fs_okD(2) [OF ok Inr] fs_okD(10) [OF ok c] fs_okD(3,4) [OF ok] u by (cases u; auto)+
    then show ?thesis using run Inr c u by (cases c; cases u) (auto simp: backup_def Let_def)
  qed
  have "\<not> user temp ?b" using b by (simp add: user_def)
  then have "tracks (user temp) F0 ((files w)(?b := v)) s" for v
    using inv b by (auto simp: tracks_def intro: tracked_temp)
  with cases inv show "tracks (user temp) F0 (files w') s" by auto
  show "\<not> temp q \<Longrightarrow> files w' q = files w q" using cases b by auto
  show "r = Inr b \<Longrightarrow> b \<noteq> [] \<and> temp b \<and> files w' b = files w p" using cases b by auto
qed

definition patch_inv :: "('w \<Rightarrow> string \<Rightarrow> string option) \<Rightarrow> string \<Rightarrow> (string \<Rightarrow> bool) \<Rightarrow> (string \<Rightarrow> string option) \<Rightarrow> Session \<times> 'w \<Rightarrow> bool" where
  "patch_inv files tempDir temp F0 x \<longleftrightarrow> \<not> ss_committed (fst x) \<and> ss_tempDir (fst x) = tempDir \<and>
     tracks (user temp) F0 (files (snd x)) (fst x)"

lemma patch_invI:
  "patch_inv files tempDir temp F0 (s, w) \<Longrightarrow> same_meta s s' \<Longrightarrow> tracks (user temp) F0 (files w') s' \<Longrightarrow>
   patch_inv files tempDir temp F0 (s', w')"
  by (simp add: patch_inv_def same_meta_def)

lemma patch_inv_world:
  "patch_inv files tempDir temp F0 (s, w) \<Longrightarrow> files w' = files w \<Longrightarrow> patch_inv files tempDir temp F0 (s, w')"
  by (simp add: patch_inv_def)

lemma Add_inv:
  assumes ok: "fs_ok env files tempDir temp" and inv: "patch_inv files tempDir temp F0 (s, w)" and p: "user temp p"
    and place: "free_place (files w) s p \<or> created_here s p"
  shows "patch_inv files tempDir temp F0 (snd (Add env p d s w))"
proof -
  obtain c w1 where c: "fs_Create env (fs_parent env p) w = (c, w1)" by (cases "fs_Create env (fs_parent env p) w") auto
  obtain u w2 where u: "fs_Upload env p d w1 = (u, w2)" by (cases "fs_Upload env p d w1") auto
  have f: "files w1 = files w" "files w2 = (if u = None then (files w)(p \<mapsto> d) else files w)"
    using fs_okD(10) [OF ok c] fs_okD(3,4) [OF ok] u by (cases u; auto)+
  have "tracks (user temp) F0 ((files w)(p \<mapsto> d)) (trackAdd env w2 p s)"
    using inv p place by (auto simp: patch_inv_def intro: trackAdd_tracks)
  then have "patch_inv files tempDir temp F0 (trackAdd env w2 p s, w2)" if "u = None"
    using that f by (auto intro: patch_invI [OF inv track_meta(1)])
  then show ?thesis using inv c u f by (cases c; cases u) (auto simp: Add_def patch_inv_def)
qed

lemma Move_inv:
  assumes ok: "fs_ok env files tempDir temp" and inv: "patch_inv files tempDir temp F0 (s, w)" and p: "user temp p" "user temp q"
    and may: "may_move (files w) s p q"
  shows "patch_inv files tempDir temp F0 (snd (Move env p q s w))"
proof (cases "fs_Exists env p w")
  case (Pair found err)
  obtain c w1 where c: "fs_Create env (fs_parent env q) w = (c, w1)" by (cases "fs_Create env (fs_parent env q) w") auto
  obtain u w2 where u: "fs_Move env p q w1 = (u, w2)" by (cases "fs_Move env p q w1") auto
  have f: "files w1 = files w" "files w2 = (if u = None then (files w)(p := None, q := files w p) else files w)"
    using fs_okD(10) [OF ok c] fs_okD(8,9) [OF ok] u by (cases u; auto)+
  have "tracks (user temp) F0 ((files w)(p := None, q := files w p)) (trackMove p q s)" if "found"
    using fs_okD(1) [OF ok, of p w] that Pair inv p may by (auto simp: patch_inv_def intro: trackMove_tracks)
  then have "patch_inv files tempDir temp F0 (trackMove p q s, w2)" if "u = None" "found"
    using that f by (auto intro: patch_invI [OF inv track_meta(2)])
  then show ?thesis using inv c u f Pair by (cases c; cases u) (auto simp: Move_def patch_inv_def)
qed

lemma write_inv:
  assumes ok: "fs_ok env files tempDir temp" and inv: "patch_inv files tempDir temp F0 (s, w)" and p: "user temp p" "files w p \<noteq> None"
  shows "patch_inv files tempDir temp F0 (snd (backup_and_write env p d s w))"
proof -
  have tr: "tracks (user temp) F0 (files w) s" and t: "ss_tempDir s = tempDir" using inv by (simp_all add: patch_inv_def)
  obtain b w1 where b: "backup env tempDir p w = (b, w1)" by (cases "backup env tempDir p w") auto
  note bk = backup_tracks [OF ok tr b]
  have inv1: "patch_inv files tempDir temp F0 (s, w1)" using inv bk(1) by (simp add: patch_inv_def)
  show ?thesis
  proof (cases b)
    case (Inl e)
    with inv1 b t show ?thesis by (simp add: backup_and_write_def)
  next
    case (Inr bb)
    obtain u w2 where u: "fs_Upload env p d w1 = (u, w2)" by (cases "fs_Upload env p d w1") auto
    have "files w1 p = files w p" using bk(2) [of p] p(1) by (simp add: user_def)
    with bk(1) bk(3) [of bb] Inr p have "tracks (user temp) F0 ((files w1)(p \<mapsto> d)) (trackUpdate env w2 p bb s)"
      by (auto simp: user_def intro!: trackUpdate_tracks)
    moreover have "files w2 = (if u = None then (files w1)(p \<mapsto> d) else files w1)"
      using fs_okD(3,4) [OF ok] u by (cases u; auto)
    ultimately have t2: "u = None \<Longrightarrow> tracks (user temp) F0 (files w2) (trackUpdate env w2 p bb s)" and f2: "u \<noteq> None \<Longrightarrow> files w2 = files w1"
      by auto
    have "patch_inv files tempDir temp F0 (trackUpdate env w2 p bb s, w2)" if "u = None"
      by (rule patch_invI [OF inv1 track_meta(3)]) (rule t2 [OF that])
    moreover have "patch_inv files tempDir temp F0 (s, w2)" if "u \<noteq> None"
      by (rule patch_inv_world [OF inv1 f2 [OF that]])
    ultimately show ?thesis using b t Inr u by (cases u) (auto simp: backup_and_write_def)
  qed
qed

lemma Update_file_inv:
  assumes "fs_ok env files tempDir temp" "patch_inv files tempDir temp F0 (s, w)" "user temp p"
  shows "patch_inv files tempDir temp F0 (snd (Update env p d s w))"
  using write_inv [OF assms, of d] assms(2) fs_okD(1) [OF assms(1), of p w]
  by (auto simp: Update_def split: prod.splits)

lemma snd_result:
  "snd (case r of (Some e, s1, w1) \<Rightarrow> (f e, s1, w1) | (None, s1, w1) \<Rightarrow> (g, s1, w1)) = snd r"
  by (auto split: prod.splits option.splits)

lemma Replace_state:
  "snd (Replace env p old new replaceAll n s w) = (s, w) \<or>
   (\<exists>d. snd (Replace env p old new replaceAll n s w) = snd (backup_and_write env p d s w)) \<and> fst (fs_Exists env p w)"
proof -
  obtain found err where x: "fs_Exists env p w = (found, err)" by (cases "fs_Exists env p w") auto
  show ?thesis
  proof (cases "ss_committed s \<or> old = [] \<or> old = new \<or> err \<noteq> None \<or> \<not> found")
    case True
    then show ?thesis by (auto simp: Replace_def x split: option.split)
  next
    case False
    then have "snd (Replace env p old new replaceAll n s w) = (s, w) \<or>
        (\<exists>d. snd (Replace env p old new replaceAll n s w) = snd (backup_and_write env p d s w))"
      by (cases "fs_Download env p w")
        (auto simp: Replace_def x Let_def snd_result split: option.split sum.split prod.split)
    with False x show ?thesis by auto
  qed
qed

lemma Replace_inv:
  assumes "fs_ok env files tempDir temp" "patch_inv files tempDir temp F0 (s, w)" "user temp p"
  shows "patch_inv files tempDir temp F0 (snd (Replace env p old new replaceAll n s w))"
  using Replace_state [of env p old new replaceAll n s w] write_inv [OF assms] assms(2) fs_okD(1) [OF assms(1), of p w]
  by auto

lemma Delete_inv:
  assumes ok: "fs_ok env files tempDir temp" and inv: "patch_inv files tempDir temp F0 (s, w)" and p: "user temp p"
  shows "patch_inv files tempDir temp F0 (snd (Delete env p s w))"
proof (cases "fs_Exists env p w")
  case (Pair found err)
  have tr: "tracks (user temp) F0 (files w) s" and t: "ss_tempDir s = tempDir" using inv by (simp_all add: patch_inv_def)
  obtain b w1 where b: "backup env tempDir p w = (b, w1)" by (cases "backup env tempDir p w") auto
  note bk = backup_tracks [OF ok tr b]
  have inv1: "patch_inv files tempDir temp F0 (s, w1)" using inv bk(1) by (simp add: patch_inv_def)
  show ?thesis
  proof (cases b)
    case (Inl e)
    with inv inv1 b t Pair show ?thesis by (simp add: Delete_def)
  next
    case (Inr bb)
    obtain u w2 where u: "fs_Delete env p w1 = (u, w2)" by (cases "fs_Delete env p w1") auto
    have "files w1 p = files w p" using bk(2) [of p] p by (simp add: user_def)
    with bk(1) bk(3) [of bb] Inr p fs_okD(1) [OF ok, of p w] Pair
    have "found \<Longrightarrow> tracks (user temp) F0 ((files w1)(p := None)) (trackDelete env w2 p bb s)"
      by (auto simp: user_def intro!: trackDelete_tracks)
    moreover have "files w2 = (if u = None then (files w1)(p := None) else files w1)"
      using fs_okD(5,6) [OF ok] u p by (cases u; auto simp: user_def)
    ultimately have t2: "u = None \<Longrightarrow> found \<Longrightarrow> tracks (user temp) F0 (files w2) (trackDelete env w2 p bb s)" and f2: "u \<noteq> None \<Longrightarrow> files w2 = files w1"
      by auto
    have "patch_inv files tempDir temp F0 (trackDelete env w2 p bb s, w2)" if "u = None" "found"
      by (rule patch_invI [OF inv1 track_meta(4)]) (rule t2 [OF that])
    moreover have "patch_inv files tempDir temp F0 (s, w2)" if "u \<noteq> None"
      by (rule patch_inv_world [OF inv1 f2 [OF that]])
    ultimately show ?thesis using inv b t Inr u Pair by (cases u) (auto simp: Delete_def)
  qed
qed

section \<open>Undoing\<close>

text \<open>What undoing one entry without an error does to the files.\<close>

lemma restore_files:
  assumes ok: "fs_ok env files tempDir temp" and run: "restore env e w = ([], w')" and o: "ce_orig e \<noteq> []"
    and b: "ce_backup e \<noteq> [] \<Longrightarrow> files w (ce_backup e) = v" "ce_backup e = [] \<Longrightarrow> files w (ce_orig e) = v"
  shows "files w' = (files w)(ce_orig e := v)"
proof (cases "ce_backup e = []")
  case True
  with run b(2) show ?thesis by (auto simp: restore_def fun_eq_iff)
next
  case False
  with run o obtain d w1 where d: "fs_Download env (ce_backup e) w = Inr d" and
    c: "fs_Create env (fs_parent env (ce_orig e)) w = (None, w1)" and
    u: "fs_Upload env (ce_orig e) d w1 = (None, w')"
    by (auto simp: restore_def split: sum.splits prod.splits option.splits)
  have "files w (ce_backup e) = Some d" "files w1 = files w" "files w' = (files w1)(ce_orig e \<mapsto> d)"
    using fs_okD(2) [OF ok d] fs_okD(10) [OF ok c] fs_okD(3) [OF ok u] by simp_all
  with b(1) False show ?thesis by simp
qed

lemma move_back_files:
  assumes ok: "fs_ok env files tempDir temp" and run: "move_back env e w = ([], w')"
    and e: "ce_url e \<noteq> []" "ce_orig e \<noteq> []" "files w (ce_url e) \<noteq> None"
  shows "files w' = (if ce_url e = ce_orig e then files w else (files w)(ce_url e := None, ce_orig e := files w (ce_url e)))"
proof (cases "ce_url e = ce_orig e")
  case True
  with run show ?thesis by (simp add: move_back_def)
next
  case False
  with run e fs_okD(1) [OF ok, of "ce_url e" w] have "fs_Move env (ce_url e) (ce_orig e) w = (None, w')"
    by (auto simp: move_back_def split: prod.splits option.splits)
  from fs_okD(8) [OF ok this] False show ?thesis by simp
qed

lemma undo_files:
  assumes ok: "fs_ok env files tempDir temp" and run: "undo env e w = ([], w')" and alive: "ce_alive e"
    and e: "entry_ok (user temp) F0 (files w) e"
  shows "files w' p = (if p \<noteq> [] \<and> p = ce_orig e then F0 p else if p \<noteq> [] \<and> p = ce_url e then None else files w p)"
proof -
  have u0: "\<not> user temp []" by (simp add: user_def)
  consider "ce_kind e = create" "ce_orig e = []" "user temp (ce_url e)"
    | "ce_kind e = updated" "user temp (ce_orig e)" "user temp (ce_url e)"
    | "ce_kind e = deleted" "user temp (ce_orig e)" "ce_url e = []" "ce_backup e \<noteq> []"
    using e by (auto simp: entry_ok_def)
  then show ?thesis
  proof cases
    case 1
    have "files w' = (files w)(ce_url e := None)"
    proof (cases "fs_Delete env (ce_url e) w")
      case (Pair r w1)
      with run 1 alive have w': "w' = w1" "r = None \<or> (\<exists>x. r = Some x \<and> contains_fold x ''not found'')"
        by (auto simp: undo_def user_def kind_defs split: option.splits if_splits)
      show ?thesis
      proof (cases r)
        case None
        with fs_okD(5) [OF ok, of "ce_url e" w w1] 1 Pair w' show ?thesis by (simp add: user_def)
      next
        case (Some x)
        with fs_okD(6,7) [OF ok, of "ce_url e" w x w1] 1 Pair w' show ?thesis by (auto simp: user_def fun_eq_iff)
      qed
    qed
    with 1 show ?thesis by (auto simp: user_def)
  next
    case 2
    then obtain w1 where m: "move_back env e w = ([], w1)" and r: "restore env e w1 = ([], w')"
      using run alive by (auto simp: undo_def kind_defs split: prod.splits)
    have ne: "ce_url e \<noteq> []" "ce_orig e \<noteq> []" "files w (ce_url e) \<noteq> None" using e 2 by (auto simp: entry_ok_def user_def)
    note f1 = move_back_files [OF ok m ne]
    have "files w' = (files w1)(ce_orig e := F0 (ce_orig e))"
    proof (rule restore_files [OF ok r ne(2)])
      show "files w1 (ce_backup e) = F0 (ce_orig e)" if "ce_backup e \<noteq> []"
        using e 2 u0 that unfolding f1 by (auto simp: entry_ok_def)
      show "files w1 (ce_orig e) = F0 (ce_orig e)" if "ce_backup e = []"
        using e ne that unfolding f1 by (auto simp: entry_ok_def)
    qed
    with f1 ne show ?thesis by auto
  next
    case 3
    then have r: "restore env e w = ([], w')" using run alive by (simp add: undo_def kind_defs)
    have ne: "ce_orig e \<noteq> []" using 3 by (simp add: user_def)
    have "files w' = (files w)(ce_orig e := F0 (ce_orig e))"
      by (rule restore_files [OF ok r ne]) (use e 3 ne in \<open>auto simp: entry_ok_def\<close>)
    with 3 ne show ?thesis by simp
  qed
qed

text \<open>The files when the entries from \<open>k\<close> on are undone: the others can still restore theirs, and every file that
  none of them has is as it was.\<close>

definition undone :: "(string \<Rightarrow> bool) \<Rightarrow> (string \<Rightarrow> string option) \<Rightarrow> changeEntry list \<Rightarrow> nat \<Rightarrow> (string \<Rightarrow> string option) \<Rightarrow> bool" where
  "undone usr F0 es k G \<longleftrightarrow>
     (\<forall>i < k. live es i \<longrightarrow> entry_ok usr F0 G (es ! i)) \<and>
     (\<forall>p. usr p \<and> (\<forall>i < k. live es i \<longrightarrow> ce_url (es ! i) \<noteq> p \<and> ce_orig (es ! i) \<noteq> p) \<longrightarrow> G p = F0 p)"

lemma undone_start: "tracked usr F0 F es C M \<Longrightarrow> undone usr F0 es (length es) F"
  by (auto simp: undone_def tracked_def entries_ok_def files_ok_def is_url_def is_orig_def live_def)

lemma undone_step:
  assumes inv: "tracked usr F0 F es C M" and k: "live es k" and un: "undone usr F0 es (Suc k) G"
    and G': "\<And>p. G' p = (if p \<noteq> [] \<and> p = ce_orig (es ! k) then F0 p else if p \<noteq> [] \<and> p = ce_url (es ! k) then None else G p)"
  shows "undone usr F0 es k G'"
proof -
  let ?e = "es ! k"
  have u0: "\<not> usr []" using inv by (simp add: tracked_def)
  have ek: "entry_ok usr F0 G ?e" using un k by (simp add: undone_def)
  have later: "ce_url (es ! i) \<noteq> ce_orig (es ! j)" if "live es i" "live es j" "i < j" "ce_url (es ! i) \<noteq> []" for i j
    using inv that by (auto simp: tracked_def order_ok_def)
  have "entry_ok usr F0 G' (es ! i)" if i: "i < k" "live es i" for i
  proof -
    have e: "entry_ok usr F0 G (es ! i)" using un i by (simp add: undone_def)
    have "ce_url (es ! i) \<noteq> ce_url ?e" if "ce_url (es ! i) \<noteq> []"
      using tracked_url_inj [OF inv i(2) k refl _ that] i by auto
    moreover have "ce_url (es ! i) \<noteq> ce_orig ?e" if "ce_url (es ! i) \<noteq> []" using later [OF i(2) k i(1) that] .
    ultimately have url: "G' (ce_url (es ! i)) = G (ce_url (es ! i))" by (auto simp: G')
    have "\<not> usr (ce_backup (es ! i))" if "ce_backup (es ! i) \<noteq> []" using e that by (simp add: entry_ok_def)
    moreover have "ce_orig ?e = [] \<or> usr (ce_orig ?e)" "ce_url ?e = [] \<or> usr (ce_url ?e)"
      using ek unfolding entry_ok_def by blast+
    ultimately have "G' (ce_backup (es ! i)) = G (ce_backup (es ! i))" if "ce_backup (es ! i) \<noteq> []"
      using that by (auto simp: G')
    with e url show ?thesis by (auto simp: entry_ok_def)
  qed
  moreover have "G' p = F0 p" if p: "usr p" "\<forall>i < k. live es i \<longrightarrow> ce_url (es ! i) \<noteq> p \<and> ce_orig (es ! i) \<noteq> p" for p
  proof -
    have p0: "p \<noteq> []" using p u0 by auto
    consider "p = ce_orig ?e" | "p \<noteq> ce_orig ?e" "p = ce_url ?e" | "p \<noteq> ce_orig ?e" "p \<noteq> ce_url ?e" by blast
    then show ?thesis
    proof cases
      case 2
      have "ce_orig (es ! j) \<noteq> p" if "live es j" for j
        using p(2) later [OF k that] 2 p0 that by (cases j k rule: linorder_cases) auto
      then have "\<not> is_orig es p" "is_url es p" using k 2 by (auto simp: is_orig_def is_url_def)
      with inv p have "F0 p = None" by (auto simp: tracked_def files_ok_def)
      with 2 p0 show ?thesis by (simp add: G')
    next
      case 3
      then have "\<forall>i < Suc k. live es i \<longrightarrow> ce_url (es ! i) \<noteq> p \<and> ce_orig (es ! i) \<noteq> p"
        using p(2) by (auto simp: less_Suc_eq)
      with un p(1) have "G p = F0 p" by (auto simp: undone_def)
      with 3 show ?thesis by (simp add: G')
    qed (use p0 in \<open>simp add: G'\<close>)
  qed
  ultimately show ?thesis by (simp add: undone_def)
qed

lemma undo_all_files:
  assumes ok: "fs_ok env files tempDir temp" and inv: "tracked (user temp) F0 F es C M"
  shows "k \<le> length es \<Longrightarrow> undone (user temp) F0 es k (files w) \<Longrightarrow> undo_all env (rev (take k es)) w = ([], w') \<Longrightarrow>
    undone (user temp) F0 es 0 (files w')"
proof (induction k arbitrary: w)
  case (Suc k)
  let ?e = "es ! k"
  have "rev (take (Suc k) es) = ?e # rev (take k es)" using Suc.prems(1) by (simp add: take_Suc_conv_app_nth)
  with Suc.prems(3) obtain w1 where u: "undo env ?e w = ([], w1)" and rest: "undo_all env (rev (take k es)) w1 = ([], w')"
    by (auto split: prod.splits)
  have "undone (user temp) F0 es k (files w1)"
  proof (cases "ce_alive ?e")
    case True
    then have l: "live es k" using Suc.prems(1) by (simp add: live_def)
    have e: "entry_ok (user temp) F0 (files w) ?e" using Suc.prems(2) l by (simp add: undone_def)
    show ?thesis using undone_step [OF inv l Suc.prems(2), of "files w1"] undo_files [OF ok u True e] by blast
  next
    case False
    then have "w1 = w" "\<not> live es k" using u by (auto simp: undo_def live_def)
    with Suc.prems(2) show ?thesis by (auto simp: undone_def less_Suc_eq)
  qed
  with Suc.IH rest Suc.prems(1) show ?case by simp
qed simp

section \<open>Rollback restores the files\<close>

text \<open>What may happen in a session: any operation, on files outside the session's own directory; a file is added
  at a free place or over one the session created, and moves to a free place.\<close>

inductive patch_step :: "'w fs_env \<Rightarrow> ('w \<Rightarrow> string \<Rightarrow> string option) \<Rightarrow> (string \<Rightarrow> bool) \<Rightarrow> Session \<times> 'w \<Rightarrow> Session \<times> 'w \<Rightarrow> bool"
  for env :: "'w fs_env" and files :: "'w \<Rightarrow> string \<Rightarrow> string option" and temp :: "string \<Rightarrow> bool" where
  patch_Add: "user temp p \<Longrightarrow> free_place (files w) s p \<or> created_here s p \<Longrightarrow> patch_step env files temp (s, w) (snd (Add env p d s w))"
| patch_Move: "user temp p \<Longrightarrow> user temp q \<Longrightarrow> may_move (files w) s p q \<Longrightarrow> patch_step env files temp (s, w) (snd (Move env p q s w))"
| patch_Update: "user temp p \<Longrightarrow> patch_step env files temp (s, w) (snd (Update env p d s w))"
| patch_Replace: "user temp p \<Longrightarrow> patch_step env files temp (s, w) (snd (Replace env p old new replaceAll n s w))"
| patch_Delete: "user temp p \<Longrightarrow> patch_step env files temp (s, w) (snd (Delete env p s w))"

definition patch_start :: "string \<Rightarrow> ('w \<Rightarrow> string \<Rightarrow> string option) \<Rightarrow> (string \<Rightarrow> string option) \<Rightarrow> Session \<times> 'w \<Rightarrow> bool" where
  "patch_start tempDir files F0 x \<longleftrightarrow> fst x = new_session tempDir \<and> files (snd x) = F0"

lemma patch_start_inv: "patch_start tempDir files F0 x \<Longrightarrow> patch_inv files tempDir temp F0 x"
  by (auto simp: patch_start_def patch_inv_def new_session_def tracks_def tracked_def user_def entries_ok_def
      current_ok_def origin_ok_def files_ok_def order_ok_def live_def is_url_def is_orig_def)

lemma patch_step_inv:
  "patch_step env files temp x y \<Longrightarrow> fs_ok env files tempDir temp \<Longrightarrow> patch_inv files tempDir temp F0 x \<Longrightarrow> patch_inv files tempDir temp F0 y"
  by (induction rule: patch_step.induct) (simp_all only: Add_inv Move_inv Update_file_inv Replace_inv Delete_inv)

text \<open>C1: after any such session, a rollback that reports no error has put every file of the user back to what
  it was when the session started: changed files have their content, moved and deleted ones are at their place
  again, created ones are gone. The operations of the session may have failed on the way, the file service may fail
  whenever it likes.\<close>

theorem Rollback_restores:
  assumes ok: "fs_ok env files tempDir temp"
    and run: "reachable (patch_start tempDir files F0) (patch_step env files temp) (s, w)"
    and rollback: "Rollback env s w = (None, s', w')"
    and p: "p \<noteq> []" "\<not> temp p"
  shows "files w' p = F0 p"
proof -
  have inv: "patch_inv files tempDir temp F0 (s, w)"
    using run by (rule reachable.induct) (auto intro: patch_start_inv patch_step_inv [OF _ ok])
  then have tr: "tracked (user temp) F0 (files w) (ss_order s) (map_of (ss_byCurrent s)) (map_of (ss_byOrigin s))"
    and c: "\<not> ss_committed s" and t: "ss_tempDir s = tempDir" by (simp_all add: patch_inv_def tracks_def)
  obtain w1 r where u: "undo_all env (rev (take (length (ss_order s)) (ss_order s))) w = ([], w1)" and
    d: "fs_Delete env tempDir w1 = (r, w')"
    using rollback c t by (auto simp: Rollback_def Let_def split: prod.splits if_splits)
  have "undone (user temp) F0 (ss_order s) 0 (files w1)"
    by (rule undo_all_files [OF ok tr _ undone_start [OF tr] u]) simp
  with p have "files w1 p = F0 p" by (simp add: undone_def user_def)
  with fs_okD(11) [OF ok p(2) d] show ?thesis by simp
qed

section \<open>A file service\<close>

text \<open>A file service over a list of files, with backup names that are longer than every name there is.\<close>

definition demo_temp :: string where "demo_temp = ''/tmp''"

definition demo_fs :: "(string \<times> string) list fs_env" where
  "demo_fs = \<lparr>fs_Exists = (\<lambda>p w. (map_of w p \<noteq> None, None)),
     fs_Download = (\<lambda>p w. case map_of w p of None \<Rightarrow> Inl ''not found'' | Some d \<Rightarrow> Inr d),
     fs_Upload = (\<lambda>p d w. (None, AList.update p d w)),
     fs_Delete = (\<lambda>p w. if p = demo_temp then (None, filter (\<lambda>kv. \<not> prefix demo_temp (fst kv)) w)
        else if map_of w p = None then (Some ''not found'', w) else (None, AList.delete p w)),
     fs_Move = (\<lambda>p q w. case map_of w p of None \<Rightarrow> (Some ''not found'', w) | Some d \<Rightarrow> (None, AList.update q d (AList.delete p w))),
     fs_Create = (\<lambda>p w. (None, w)),
     fs_stamp = (\<lambda>w. replicate (Suc (sum_list (map (length \<circ> fst) w))) CHR ''0''),
     fs_parent = id, fs_join = (\<lambda>t n. t @ [slash] @ n), fs_unified = (\<lambda>old new p n. Inr []), fs_paths = demo_path_env\<rparr>"

lemma key_length: "map_of w p = Some d \<Longrightarrow> length p \<le> sum_list (map (length \<circ> fst) w)"
  by (induction w) (auto split: if_splits)

lemma map_of_filter_key: "P k \<Longrightarrow> map_of (filter (\<lambda>kv. P (fst kv)) w) k = map_of w k"
  by (induction w) auto

lemma demo_fs_ok: "fs_ok demo_fs map_of demo_temp (prefix demo_temp)"
  unfolding fs_ok_def Let_def
proof (intro conjI allI impI)
  fix p q d e w w'
  let ?b = "fs_join demo_fs demo_temp (TrimPrefix p [slash] @ ''.'' @ fs_stamp demo_fs w @ ''.bak'')"
  show "fst (fs_Exists demo_fs p w) \<longleftrightarrow> map_of w p \<noteq> None" by (simp add: demo_fs_def)
  show "map_of w p = Some d" if "fs_Download demo_fs p w = Inr d" using that by (simp add: demo_fs_def split: option.splits)
  show "does map_of w (fs_Upload demo_fs p d w) ((map_of w)(p \<mapsto> d))" by (simp add: demo_fs_def does_def update_conv')
  show "does map_of w (fs_Delete demo_fs p w) ((map_of w)(p := None))" if "\<not> prefix demo_temp p"
    using that by (auto simp: demo_fs_def does_def delete_conv')
  show "map_of w p = None" if "fs_Delete demo_fs p w = (Some e, w') \<and> contains_fold e ''not found''"
    using that by (auto simp: demo_fs_def split: if_splits)
  show "does map_of w (fs_Move demo_fs p q w) ((map_of w)(p := None, q := map_of w p))"
    by (auto simp: demo_fs_def does_def update_conv' delete_conv' fun_eq_iff split: option.split)
  show "map_of (snd (fs_Create demo_fs p w)) = map_of w" by (simp add: demo_fs_def)
  show "map_of (snd (fs_Delete demo_fs demo_temp w)) q = map_of w q" if "\<not> prefix demo_temp q"
    using that by (simp add: demo_fs_def map_of_filter_key [where P = "\<lambda>k. \<not> prefix demo_temp k"])
  show "prefix demo_temp ?b" "?b \<noteq> []" by (simp_all add: demo_fs_def)
  show "map_of w ?b = None"
  proof (rule ccontr)
    assume "map_of w ?b \<noteq> None"
    with key_length [of w ?b] show False by (auto simp: demo_fs_def)
  qed
qed

definition demo_run :: "Session \<times> (string \<times> string) list" where
  "demo_run = snd (Move demo_fs ''/a'' ''/b'' (new_session demo_temp) [(''/a'', ''1'')])"

definition demo_run2 :: "Session \<times> (string \<times> string) list" where
  "demo_run2 = snd (Update demo_fs ''/b'' ''2'' (fst demo_run) (snd demo_run))"

theorem Rollback_restores_witness:
  "map_of (snd demo_run2) ''/a'' = None \<and> map_of (snd (snd (Rollback demo_fs (fst demo_run2) (snd demo_run2)))) ''/a'' = Some ''1''"
proof -
  let ?F0 = "map_of [(''/a'', ''1'')]"
  let ?R = "reachable (patch_start demo_temp map_of ?F0) (patch_step demo_fs map_of (prefix demo_temp))"
  have r0: "?R (new_session demo_temp, [(''/a'', ''1'')])" by (rule reach_init) (simp add: patch_start_def)
  have u1: "user (prefix demo_temp) ''/a''" and u: "user (prefix demo_temp) ''/b''" by code_simp+
  have "patch_step demo_fs map_of (prefix demo_temp) (new_session demo_temp, [(''/a'', ''1'')]) demo_run"
    unfolding demo_run_def
    by (rule patch_Move [OF u1 u]) (simp add: may_move_def free_place_def current_def new_session_def)
  with reach_step [OF r0] have r1: "?R (fst demo_run, snd demo_run)" by simp
  have r2: "?R (fst demo_run2, snd demo_run2)"
    using reach_step [OF r1 patch_Update [OF u]] unfolding demo_run2_def by simp
  have e: "fst (Rollback demo_fs (fst demo_run2) (snd demo_run2)) = None" "map_of (snd demo_run2) ''/a'' = None" by code_simp+
  then obtain s' w' where "Rollback demo_fs (fst demo_run2) (snd demo_run2) = (None, s', w')"
    by (cases "Rollback demo_fs (fst demo_run2) (snd demo_run2)") auto
  moreover from Rollback_restores [OF demo_fs_ok r2 this, of "''/a''"]
  have "map_of w' ''/a'' = ?F0 ''/a''" by (simp add: demo_temp_def)
  ultimately show ?thesis using e by simp
qed

section \<open>Sessions a rollback does not undo\<close>

text \<open>Why \<open>patch_step\<close> restricts additions and moves. A file that is added over an existing one is deleted:\<close>

lemma add_over_file:
  "case Add demo_fs ''/a'' ''2'' (new_session demo_temp) [(''/a'', ''1'')] of (r, s, w) \<Rightarrow>
     r = None \<and> fst (Rollback demo_fs s w) = None \<and> map_of (snd (snd (Rollback demo_fs s w))) ''/a'' = None"
  by code_simp

text \<open>A file that was updated, deleted and added again is neither deleted nor restored:\<close>

lemma add_after_delete:
  "case Update demo_fs ''/a'' ''2'' (new_session demo_temp) [(''/a'', ''1'')] of (r1, s1, w1) \<Rightarrow>
   case Delete demo_fs ''/a'' s1 w1 of (r2, s2, w2) \<Rightarrow>
   case Add demo_fs ''/a'' ''3'' s2 w2 of (r3, s3, w3) \<Rightarrow>
     r1 = None \<and> r2 = None \<and> r3 = None \<and> fst (Rollback demo_fs s3 w3) = None \<and>
     map_of (snd (snd (Rollback demo_fs s3 w3))) ''/a'' = Some ''3''"
  by code_simp

text \<open>Two files that change places through a third name lose one content:\<close>

lemma swap_by_moves:
  "case Move demo_fs ''/a'' ''/t'' (new_session demo_temp) [(''/a'', ''1''), (''/b'', ''2'')] of (r1, s1, w1) \<Rightarrow>
   case Move demo_fs ''/b'' ''/a'' s1 w1 of (r2, s2, w2) \<Rightarrow>
   case Move demo_fs ''/t'' ''/b'' s2 w2 of (r3, s3, w3) \<Rightarrow>
     r1 = None \<and> r2 = None \<and> r3 = None \<and> fst (Rollback demo_fs s3 w3) = None \<and>
     map_of (snd (snd (Rollback demo_fs s3 w3))) ''/a'' = Some ''2'' \<and>
     map_of (snd (snd (Rollback demo_fs s3 w3))) ''/b'' = None"
  by code_simp

text \<open>When a file cannot be restored for the moment, its backup is deleted all the same:\<close>

definition stuck_fs :: "(string \<times> string) list fs_env" where
  "stuck_fs = demo_fs\<lparr>fs_Upload := \<lambda>p d w. (Some ''read-only'', w)\<rparr>"

lemma failed_restore_loses_backup:
  "case Update demo_fs ''/a'' ''2'' (new_session demo_temp) [(''/a'', ''1'')] of (r, s, w) \<Rightarrow>
     r = None \<and> ''1'' \<in> set (map snd w) \<and>
     (case Rollback stuck_fs s w of (r', s', w') \<Rightarrow> r' \<noteq> None \<and> ss_order s' = [] \<and> w' = [(''/a'', ''2'')])"
  by code_simp

text \<open>A moved file is not put back when \<open>Exists\<close> fails with the answer no: the rollback reports no error.\<close>

definition blind_fs :: "(string \<times> string) list fs_env" where
  "blind_fs = demo_fs\<lparr>fs_Exists := \<lambda>p w. (False, Some ''timeout'')\<rparr>"

lemma exists_error_ignored:
  "case Move demo_fs ''/a'' ''/b'' (new_session demo_temp) [(''/a'', ''1'')] of (r, s, w) \<Rightarrow>
     r = None \<and> fst (Rollback blind_fs s w) = None \<and> map_of (snd (snd (Rollback blind_fs s w))) ''/a'' = None"
  by code_simp

end
