(* ===== verification/PatchApply.thy ===== *)
theory PatchApply
  imports PatchRollback
begin

text \<open>
  What the operations of a patch session do to the files of the user: which file each of them touches, that a
  patch as a whole stays inside its working directory, and what an exact replacement does.
\<close>

section \<open>Frames\<close>

text \<open>Files outside a set of paths, and outside the session's own directory, are left alone.\<close>

definition outside_same :: "('w \<Rightarrow> string \<Rightarrow> string option) \<Rightarrow> (string \<Rightarrow> bool) \<Rightarrow> string set \<Rightarrow> 'w \<Rightarrow> 'w \<Rightarrow> bool" where
  "outside_same files temp P w w' \<longleftrightarrow> (\<forall>q. \<not> temp q \<and> q \<notin> P \<longrightarrow> files w' q = files w q)"

lemma outside_same_refl [simp]: "outside_same files temp P w w"
  by (simp add: outside_same_def)

lemma outside_same_trans: "outside_same files temp P w w1 \<Longrightarrow> outside_same files temp P w1 w2 \<Longrightarrow> outside_same files temp P w w2"
  by (simp add: outside_same_def)

lemma outside_same_mono: "outside_same files temp P w w' \<Longrightarrow> P \<subseteq> Q \<Longrightarrow> outside_same files temp Q w w'"
  by (auto simp: outside_same_def)

lemma service_frames:
  assumes ok: "fs_ok env files tempDir temp"
  shows "fs_Upload env p d w = (r, w') \<Longrightarrow> outside_same files temp {p} w w'"
    "\<not> temp p \<Longrightarrow> fs_Delete env p w = (r, w') \<Longrightarrow> outside_same files temp {p} w w'"
    "fs_Move env p q w = (r, w') \<Longrightarrow> outside_same files temp {p, q} w w'"
    "fs_Create env p w = (r, w') \<Longrightarrow> outside_same files temp {} w w'"
proof -
  show "fs_Upload env p d w = (r, w') \<Longrightarrow> outside_same files temp {p} w w'"
    using fs_okD(3,4) [OF ok, of p d w] by (cases r) (auto simp: outside_same_def)
  show "\<not> temp p \<Longrightarrow> fs_Delete env p w = (r, w') \<Longrightarrow> outside_same files temp {p} w w'"
    using fs_okD(5,6) [OF ok, of p w] by (cases r) (auto simp: outside_same_def)
  show "fs_Move env p q w = (r, w') \<Longrightarrow> outside_same files temp {p, q} w w'"
    using fs_okD(8,9) [OF ok, of p q w] by (cases r) (auto simp: outside_same_def)
  show "fs_Create env p w = (r, w') \<Longrightarrow> outside_same files temp {} w w'"
    using fs_okD(10) [OF ok, of p w] by (auto simp: outside_same_def)
qed

lemma backup_frame:
  assumes ok: "fs_ok env files tempDir temp" and run: "backup env tempDir p w = (r, w')"
  shows "outside_same files temp {} w w'"
proof (cases "fs_Download env p w")
  case (Inl e)
  with run show ?thesis by (simp add: backup_def)
next
  case (Inr d)
  let ?b = "fs_join env tempDir (TrimPrefix p [slash] @ ''.'' @ fs_stamp env w @ ''.bak'')"
  obtain c w1 where c: "fs_Create env (fs_parent env ?b) w = (c, w1)" by (cases "fs_Create env (fs_parent env ?b) w") auto
  obtain u w2 where u: "fs_Upload env ?b d w1 = (u, w2)" by (cases "fs_Upload env ?b d w1") auto
  have "temp ?b" using fs_ok_backup [OF ok refl] by blast
  with service_frames(1) [OF ok u] service_frames(4) [OF ok c]
  have "outside_same files temp {} w w1" "outside_same files temp {} w w2" by (auto simp: outside_same_def)
  with run Inr c u show ?thesis by (cases c; cases u) (auto simp: backup_def Let_def)
qed

text \<open>An operation of a session touches its paths only, keeps the session's directory, and does so whatever fails.\<close>

definition frames :: "('w \<Rightarrow> string \<Rightarrow> string option) \<Rightarrow> (string \<Rightarrow> bool) \<Rightarrow> string set \<Rightarrow> Session \<Rightarrow> 'w \<Rightarrow>
    'e option \<times> Session \<times> 'w \<Rightarrow> bool" where
  "frames files temp P s w x \<longleftrightarrow> ss_tempDir (fst (snd x)) = ss_tempDir s \<and> outside_same files temp P w (snd (snd x))"

lemma frames_keep: "frames files temp P s w (r, s, w)"
  by (simp add: frames_def)

lemma meta_tempDir: "same_meta s s' \<Longrightarrow> ss_tempDir s' = ss_tempDir s"
  by (simp add: same_meta_def)

lemmas track_tempDir = track_meta [THEN meta_tempDir]

lemma Add_frames:
  assumes ok: "fs_ok env files (ss_tempDir s) temp"
  shows "frames files temp {p} s w (Add env p d s w)"
proof -
  obtain c w1 where c: "fs_Create env (fs_parent env p) w = (c, w1)" by (cases "fs_Create env (fs_parent env p) w") auto
  obtain u w2 where u: "fs_Upload env p d w1 = (u, w2)" by (cases "fs_Upload env p d w1") auto
  have "outside_same files temp {p} w w1" using service_frames(4) [OF ok c] by (rule outside_same_mono) simp
  moreover from this have "outside_same files temp {p} w w2"
    using service_frames(1) [OF ok u] by (rule outside_same_trans)
  ultimately show ?thesis using c u by (cases c; cases u) (auto simp: Add_def frames_def track_tempDir)
qed

lemma Move_frames:
  assumes ok: "fs_ok env files (ss_tempDir s) temp"
  shows "frames files temp {p, q} s w (Move env p q s w)"
proof -
  obtain c w1 where c: "fs_Create env (fs_parent env q) w = (c, w1)" by (cases "fs_Create env (fs_parent env q) w") auto
  obtain u w2 where u: "fs_Move env p q w1 = (u, w2)" by (cases "fs_Move env p q w1") auto
  have "outside_same files temp {p, q} w w1" using service_frames(4) [OF ok c] by (rule outside_same_mono) simp
  moreover from this have "outside_same files temp {p, q} w w2"
    using service_frames(3) [OF ok u] by (rule outside_same_trans)
  ultimately show ?thesis using c u
    by (cases c; cases u) (auto simp: Move_def frames_def track_tempDir split: prod.split)
qed

lemma write_frames:
  assumes ok: "fs_ok env files (ss_tempDir s) temp"
  shows "frames files temp {p} s w (backup_and_write env p d s w)"
proof -
  obtain b w1 where b: "backup env (ss_tempDir s) p w = (b, w1)" by (cases "backup env (ss_tempDir s) p w") auto
  obtain u w2 where u: "fs_Upload env p d w1 = (u, w2)" by (cases "fs_Upload env p d w1") auto
  have "outside_same files temp {p} w w1" using backup_frame [OF ok b] by (rule outside_same_mono) simp
  moreover from this have "outside_same files temp {p} w w2"
    using service_frames(1) [OF ok u] by (rule outside_same_trans)
  ultimately show ?thesis using b u
    by (cases b; cases u) (auto simp: backup_and_write_def frames_def track_tempDir)
qed

lemma Update_frames:
  "fs_ok env files (ss_tempDir s) temp \<Longrightarrow> frames files temp {p} s w (Update env p d s w)"
  using write_frames [of env files s temp p w d] by (auto simp: Update_def frames_keep split: prod.split)

lemma Delete_frames:
  assumes ok: "fs_ok env files (ss_tempDir s) temp" and p: "\<not> temp p"
  shows "frames files temp {p} s w (Delete env p s w)"
proof -
  obtain b w1 where b: "backup env (ss_tempDir s) p w = (b, w1)" by (cases "backup env (ss_tempDir s) p w") auto
  obtain u w2 where u: "fs_Delete env p w1 = (u, w2)" by (cases "fs_Delete env p w1") auto
  have "outside_same files temp {p} w w1" using backup_frame [OF ok b] by (rule outside_same_mono) simp
  moreover from this have "outside_same files temp {p} w w2"
    using service_frames(2) [OF ok p u] by (rule outside_same_trans)
  ultimately show ?thesis using b u
    by (cases b; cases u) (auto simp: Delete_def frames_def track_tempDir split: prod.split)
qed

section \<open>Patches stay inside the working directory\<close>

definition in_workdir :: "path_env \<Rightarrow> string \<Rightarrow> string set" where
  "in_workdir penv dir = {q. \<exists>B T. Abs penv (Clean (TrimSpace dir)) = Some (render True B) \<and> tidy B \<and>
     q = render True T \<and> tidy T \<and> prefix B T}"

definition local_workdir :: "path_env \<Rightarrow> string \<Rightarrow> bool" where
  "local_workdir penv dir \<longleftrightarrow> TrimSpace dir \<noteq> [] \<and> \<not> contains (TrimSpace dir) scheme_sep \<and> cwd_absolute penv"

lemma resolvePath_inside: "resolvePath penv path dir = Inr p \<Longrightarrow> local_workdir penv dir \<Longrightarrow> p \<in> in_workdir penv dir"
  using filesystem_inside [of penv "TrimSpace path" "TrimSpace dir" p]
  by (fastforce simp: resolvePath_def local_workdir_def in_workdir_def Let_def split: if_splits)

lemma frames_mono: "frames files temp P s w x \<Longrightarrow> P \<subseteq> Q \<Longrightarrow> frames files temp Q s w x"
  by (auto simp: frames_def intro: outside_same_mono)

lemma frames_trans:
  "frames files temp P s w (r, s1, w1) \<Longrightarrow> frames files temp P s1 w1 x \<Longrightarrow> frames files temp P s w x"
  by (auto simp: frames_def intro: outside_same_trans)

text \<open>The places a hunk names: those of a file it changes or removes, and those of a file it puts there.\<close>

definition resolved :: "path_env \<Rightarrow> string \<Rightarrow> string \<Rightarrow> string set" where
  "resolved penv dir path = {p. resolvePath penv path dir = Inr p}"

fun sources :: "path_env \<Rightarrow> string \<Rightarrow> Hunk \<Rightarrow> string set" where
  "sources penv dir (AddFile path contents) = {}"
| "sources penv dir (DeleteFile path) = resolved penv dir path"
| "sources penv dir (UpdateFile path movePath chunks) = resolved penv dir path"

fun targets :: "path_env \<Rightarrow> string \<Rightarrow> Hunk \<Rightarrow> string set" where
  "targets penv dir (AddFile path contents) = resolved penv dir path"
| "targets penv dir (DeleteFile path) = {}"
| "targets penv dir (UpdateFile path movePath chunks) = (if movePath = [] then {} else resolved penv dir movePath)"

abbreviation touched :: "path_env \<Rightarrow> string \<Rightarrow> Hunk \<Rightarrow> string set" where
  "touched penv dir h \<equiv> sources penv dir h \<union> targets penv dir h"

lemma touched_inside: "local_workdir penv dir \<Longrightarrow> touched penv dir h \<subseteq> in_workdir penv dir"
  by (cases h) (auto simp: resolved_def dest: resolvePath_inside)

lemma with_path_frames:
  assumes "\<And>p. p \<in> resolved (fs_paths env) dir path \<Longrightarrow> frames files temp P s w (f p s w)"
  shows "frames files temp P s w (with_path env path dir f s w)"
  using assms by (auto simp: with_path_def frames_keep resolved_def split: sum.split)

lemma apply_chunks_frames:
  "fs_ok env files (ss_tempDir s) temp \<Longrightarrow> frames files temp {p} s w (apply_chunks env chunks p s w)"
  by (auto simp: apply_chunks_def frames_keep Update_frames split: sum.split)

text \<open>A second step after a first that may have failed.\<close>

lemma frames_then:
  assumes "frames files temp P s w x" "\<And>s1 w1. ss_tempDir s1 = ss_tempDir s \<Longrightarrow> frames files temp P s1 w1 (g s1 w1)"
  shows "frames files temp P s w (case x of (Some e, s1, w1) \<Rightarrow> (Some e, s1, w1) | (None, s1, w1) \<Rightarrow> g s1 w1)"
proof (cases x)
  case (fields r s1 w1)
  then have "ss_tempDir s1 = ss_tempDir s" using assms(1) by (simp add: frames_def)
  from assms(2) [OF this, of w1] assms(1) fields show ?thesis by (cases r) (auto intro: frames_trans)
qed

lemma apply_hunk_frames:
  assumes ok: "fs_ok env files (ss_tempDir s) temp" and temp: "\<forall>q \<in> touched (fs_paths env) dir h. \<not> temp q"
  shows "frames files temp (touched (fs_paths env) dir h) s w (apply_hunk env dir h s w)"
proof (cases h)
  case (AddFile path contents)
  then show ?thesis using Add_frames [OF ok] by (auto intro!: with_path_frames intro: frames_mono)
next
  case (DeleteFile path)
  then show ?thesis using Delete_frames [OF ok] temp by (auto intro!: with_path_frames intro: frames_mono)
next
  case (UpdateFile path movePath chunks)
  let ?T = "touched (fs_paths env) dir h"
  have upd: "frames files temp ?T s' w' (apply_chunks env chunks p s' w')" if "p \<in> ?T" "ss_tempDir s' = ss_tempDir s" for p s' w'
    using apply_chunks_frames [of env files s' temp p w' chunks] ok that by (auto intro: frames_mono)
  have move: "frames files temp ?T s w (Move env p q s w)" if "p \<in> ?T" "q \<in> ?T" for p q
    using Move_frames [OF ok] that by (auto intro: frames_mono)
  show ?thesis unfolding UpdateFile apply_hunk.simps
    using upd move UpdateFile by (auto intro!: with_path_frames frames_then)
qed

lemma applyParsedHunks_frames:
  "fs_ok env files (ss_tempDir s) temp \<Longrightarrow> \<forall>h \<in> set hs. \<forall>q \<in> touched (fs_paths env) dir h. \<not> temp q \<Longrightarrow>
    frames files temp (\<Union>h \<in> set hs. touched (fs_paths env) dir h) s w (applyParsedHunks env hs dir s w)"
proof (induction hs arbitrary: s w)
  case (Cons h hs)
  let ?P = "\<Union>h \<in> set (h # hs). touched (fs_paths env) dir h"
  have "frames files temp ?P s w (apply_hunk env dir h s w)"
    by (rule frames_mono [OF apply_hunk_frames [OF Cons.prems(1)]]) (use Cons.prems(2) in auto)
  moreover have "frames files temp ?P s1 w1 (applyParsedHunks env hs dir s1 w1)" if "ss_tempDir s1 = ss_tempDir s" for s1 w1
    by (rule frames_mono [OF Cons.IH]) (use Cons.prems that in auto)
  ultimately show ?case unfolding applyParsedHunks.simps by (rule frames_then)
qed (simp add: frames_keep)

text \<open>Whatever a patch says, and wherever it fails, applying it changes no file outside the working directory,
  other than the session's backups.\<close>

theorem applyParsedHunks_confined:
  assumes "fs_ok env files (ss_tempDir s) temp" "local_workdir (fs_paths env) dir"
    "\<forall>q \<in> in_workdir (fs_paths env) dir. \<not> temp q" "q \<notin> in_workdir (fs_paths env) dir" "\<not> temp q"
  shows "files (snd (snd (applyParsedHunks env hunks dir s w))) q = files w q"
proof -
  note inside = touched_inside [OF assms(2)]
  have "frames files temp (\<Union>h \<in> set hunks. touched (fs_paths env) dir h) s w (applyParsedHunks env hunks dir s w)"
    using assms(3) inside by (intro applyParsedHunks_frames [OF assms(1)]) blast
  then show ?thesis using inside assms(4,5) unfolding frames_def outside_same_def by blast
qed

lemma demo_workdir:
  "q \<in> in_workdir demo_path_env ''work'' \<longleftrightarrow> (\<exists>T. q = render True (''home'' # ''work'' # T) \<and> tidy (''home'' # ''work'' # T))"
proof -
  have a: "Abs demo_path_env (Clean (TrimSpace ''work'')) = Some (render True [''home'', ''work''])" "tidy [''home'', ''work'']" by code_simp+
  then have "in_workdir demo_path_env ''work'' = {q. \<exists>T. q = render True T \<and> tidy T \<and> prefix [''home'', ''work''] T}"
    using render_inj [of "[''home'', ''work'']"] by (auto simp: in_workdir_def)
  then show ?thesis by (auto simp: prefix_def)
qed

section \<open>Exact replacement\<close>

text \<open>The pieces between the occurrences.\<close>

lemma replace_pieces:
  "old \<noteq> [] \<Longrightarrow> \<exists>ps. s = Join old ps \<and> length ps = Suc (occurrences old s) \<and> (\<forall>p \<in> set ps. \<not> sublist old p) \<and>
     (\<forall>n. n < 0 \<or> int (occurrences old s) \<le> n \<longrightarrow> replace_n old new n s = Join new ps)"
proof (induction old s rule: occurrences.induct)
  case (1 old s)
  show ?case
  proof (cases "s = []")
    case True
    with "1.prems" show ?thesis
      by (intro exI [of _ "[[]]"]) (simp add: occurrences.simps [of old "[]"] replace_n.simps [of old new _ "[]"])
  next
    case False
    with "1.prems" have nn: "\<not> (old = [] \<or> s = [])" by simp
    show ?thesis
    proof (cases "strip_prefix old s")
      case None
      have occ: "occurrences old s = occurrences old (tl s)" using False None "1.prems" by (simp add: occurrences.simps [of old s])
      obtain ps where ps: "tl s = Join old ps" "length ps = Suc (occurrences old (tl s))" "\<forall>p \<in> set ps. \<not> sublist old p"
        "\<forall>n. n < 0 \<or> int (occurrences old (tl s)) \<le> n \<longrightarrow> replace_n old new n (tl s) = Join new ps"
        using "1.IH"(1) [OF nn None "1.prems"] by blast
      then obtain p0 rest where p0: "ps = p0 # rest" by (cases ps) auto
      let ?qs = "(hd s # p0) # rest"
      have s: "s = Join old ?qs" using ps(1) p0 False by (cases s) (auto simp: Join_head)
      have "\<not> prefix old s" using None by (simp add: strip_prefix_None)
      moreover have "prefix (hd s # p0) s"
      proof -
        have "prefix q (Join old (q # rest))" for q by (cases rest) auto
        with s show ?thesis by metis
      qed
      ultimately have "\<not> prefix old (hd s # p0)" using prefix_order.trans by blast
      then have "\<not> sublist old (hd s # p0)" using ps(3) p0 by (simp add: sublist_Cons_right)
      moreover have "replace_n old new n s = Join new ?qs" if "n < 0 \<or> int (occurrences old s) \<le> n" for n
      proof (cases "n = 0")
        case True
        then have "rest = []" using that occ ps(2) p0 by simp
        with True s show ?thesis by (simp add: replace_n.simps [of old new 0 s])
      next
        case n: False
        have "replace_n old new n (tl s) = Join new (p0 # rest)" using ps(4) that occ p0 by auto
        with n None False "1.prems" show ?thesis by (simp add: replace_n.simps [of old new n s] Join_head)
      qed
      ultimately show ?thesis using s ps p0 occ by (intro exI [of _ ?qs]) auto
    next
      case (Some r)
      then have s: "s = old @ r" by (simp add: strip_prefix_Some)
      have occ: "occurrences old s = Suc (occurrences old r)" using False Some "1.prems" by (simp add: occurrences.simps [of old s])
      obtain ps where ps: "r = Join old ps" "length ps = Suc (occurrences old r)" "\<forall>p \<in> set ps. \<not> sublist old p"
        "\<forall>n. n < 0 \<or> int (occurrences old r) \<le> n \<longrightarrow> replace_n old new n r = Join new ps"
        using "1.IH"(2) [OF nn Some "1.prems"] by blast
      have "ps \<noteq> []" using ps(2) by auto
      then have "replace_n old new n s = Join new ([] # ps)" if "n < 0 \<or> int (occurrences old s) \<le> n" for n
        using ps(4) that occ Some False "1.prems" by (auto simp: replace_n.simps [of old new n s] Join_Cons)
      with s ps occ \<open>ps \<noteq> []\<close> "1.prems" show ?thesis by (intro exI [of _ "[] # ps"]) (auto simp: Join_Cons)
    qed
  qed
qed

lemma check_replace_None:
  "check_replace path n replaceAll expected = None \<longleftrightarrow>
     n \<noteq> 0 \<and> expected \<ge> 0 \<and> (expected > 0 \<longrightarrow> int n = expected) \<and> (replaceAll \<or> n = 1)"
  by (auto simp: check_replace_def)

lemma Replace_success:
  assumes "Replace env p old new replaceAll expected s w = (Inr (n, stats), s', w')"
  shows "\<exists>data. fs_Download env p w = Inr data \<and> old \<noteq> [] \<and> old \<noteq> new \<and> n = occurrences old data \<and>
     check_replace p n replaceAll expected = None \<and>
     backup_and_write env p (replace_n old new (if replaceAll then -1 else 1) data) s w = (None, s', w')"
proof -
  obtain found err where x: "fs_Exists env p w = (found, err)" by (cases "fs_Exists env p w") auto
  have ok: "\<not> ss_committed s" "old \<noteq> []" "old \<noteq> new" "err = None" "found"
    using assms by (auto simp: Replace_def x split: if_splits option.splits)
  with assms obtain data where d: "fs_Download env p w = Inr data"
    by (auto simp: Replace_def x split: sum.splits)
  let ?n = "occurrences old data"
  let ?r = "replace_n old new (if replaceAll then -1 else 1) data"
  have c: "check_replace p ?n replaceAll expected = None"
    using assms ok d by (auto simp: Replace_def x Let_def split: option.splits)
  then have one: "\<not> replaceAll \<Longrightarrow> ?n = 1" by (simp add: check_replace_None)
  obtain diff st where g: "GenerateDiff env data ?r p 3 = Inr (diff, st)"
    using assms ok d c by (auto simp: Replace_def x Let_def split: sum.splits)
  obtain res s1 w1 where b: "backup_and_write env p ?r s w = (res, s1, w1)" by (cases "backup_and_write env p ?r s w") auto
  have "res = None" "s1 = s'" "w1 = w'" "n = (if replaceAll then ?n else 1)"
    using assms ok d c g b by (cases res; simp add: Replace_def x)+
  with ok d c b one show ?thesis by auto
qed

lemma write_success:
  assumes "fs_ok env files (ss_tempDir s) temp" "backup_and_write env p d s w = (None, s', w')"
  shows "files w' p = Some d"
  using assms(2) fs_okD(3) [OF assms(1)]
  by (auto simp: backup_and_write_def split: prod.splits sum.splits option.splits)

text \<open>An exact replacement that succeeds splits the file at the occurrences of the old text, found from left to right,
  and joins the pieces, none of which contains the old text, with the new text. It reports their number,
  which is what the caller expected, and 1 unless all were asked for. No other file changes.\<close>

theorem Replace_spec:
  assumes ok: "fs_ok env files (ss_tempDir s) temp" and p: "\<not> temp p"
    and run: "Replace env p old new replaceAll expected s w = (Inr (n, stats), s', w')"
  shows "\<exists>ps. files w p = Some (Join old ps) \<and> files w' p = Some (Join new ps) \<and> length ps = Suc n \<and>
     (\<forall>piece \<in> set ps. \<not> sublist old piece) \<and> 0 < n \<and> (0 < expected \<longrightarrow> int n = expected) \<and> (replaceAll \<or> n = 1) \<and>
     (\<forall>q. \<not> temp q \<and> q \<noteq> p \<longrightarrow> files w' q = files w q)"
proof -
  obtain data where d: "fs_Download env p w = Inr data" "old \<noteq> []" "n = occurrences old data"
    "check_replace p n replaceAll expected = None"
    "backup_and_write env p (replace_n old new (if replaceAll then -1 else 1) data) s w = (None, s', w')"
    using Replace_success [OF run] by blast
  obtain ps where ps: "data = Join old ps" "length ps = Suc (occurrences old data)" "\<forall>p \<in> set ps. \<not> sublist old p"
    "\<forall>k. k < 0 \<or> int (occurrences old data) \<le> k \<longrightarrow> replace_n old new k data = Join new ps"
    using replace_pieces [OF d(2)] by blast
  have "replace_n old new (if replaceAll then -1 else 1) data = Join new ps"
    using ps(4) d(3,4) by (auto simp: check_replace_None)
  with write_success [OF ok d(5)] have "files w' p = Some (Join new ps)" by simp
  moreover have "files w' q = files w q" if "\<not> temp q" "q \<noteq> p" for q
    using write_frames [OF ok, of p w "replace_n old new (if replaceAll then -1 else 1) data"] d(5) that
    by (simp add: frames_def outside_same_def)
  ultimately show ?thesis using fs_okD(2) [OF ok d(1)] ps d(3,4) by (intro exI [of _ ps]) (auto simp: check_replace_None)
qed

text \<open>Occurrences that overlap count once, so a text that fits at two places can pass as unambiguous:\<close>

lemma overlapping_occurrences:
  "case Replace demo_fs ''/a'' ''aa'' ''b'' False 0 (new_session demo_temp) [(''/a'', ''aaa'')] of (r, s, w) \<Rightarrow>
     (case r of Inl e \<Rightarrow> False | Inr (n, st) \<Rightarrow> n = 1) \<and> map_of w ''/a'' = Some ''ba''"
  by code_simp

end
