(* ===== verification/PatchParse.thy ===== *)
theory PatchParse
  imports PatchSession
begin

text \<open>
  The parser of the patch text, \<open>protocol/tool/service/system/patch/parser.go\<close>.

  The tokenizer \<open>github.com/viant/parsly\<close> is a parameter: a call gives the token it matched and the number of
  bytes the cursor moved. The cursor is the rest of the input; a position behind the end is the empty rest.
\<close>

section \<open>Tokens\<close>

datatype token =
    tokBeginPatch
  | tokEndPatch
  | tokAddFile
  | tokDeleteFile
  | tokUpdateFile
  | tokMoveTo
  | tokChunkHeaderCtx
  | tokChunkHeaderSimple

fun fragment :: "token \<Rightarrow> string" where
  "fragment tokBeginPatch = ''*** Begin Patch''"
| "fragment tokEndPatch = ''*** End Patch''"
| "fragment tokAddFile = ''*** Add File:''"
| "fragment tokDeleteFile = ''*** Delete File:''"
| "fragment tokUpdateFile = ''*** Update File:''"
| "fragment tokMoveTo = ''*** Move to:''"
| "fragment tokChunkHeaderCtx = ''@@ ''"
| "fragment tokChunkHeaderSimple = ''@@''"

datatype token_match = Matched token | EndOfInput | NoMatch

text \<open>\<open>MatchOne\<close>, and \<open>MatchAfterOptional\<close> with optional white space first.\<close>

record lexer =
  MatchOne :: "token \<Rightarrow> string \<Rightarrow> token_match \<times> nat"
  MatchAfterOptional :: "token list \<Rightarrow> string \<Rightarrow> token_match \<times> nat"

datatype parse_error = SyntaxError | TrailingContent | MissingEnd | NoHeader string | EmptyChunk string

section \<open>The cursor\<close>

definition consumeUntil :: "char \<Rightarrow> string \<Rightarrow> string \<times> string" where
  "consumeUntil delim s =
     (case dropWhile (\<lambda>c. c \<noteq> delim) s of [] \<Rightarrow> (s, []) | _ # r \<Rightarrow> (takeWhile (\<lambda>c. c \<noteq> delim) s, r))"

definition consumeLine :: "string \<Rightarrow> string" where
  "consumeLine s = snd (consumeUntil nl s)"

definition peekLine :: "string \<Rightarrow> string" where
  "peekLine s = takeWhile (\<lambda>c. c \<noteq> nl) s"

definition ascii_space :: "char list" where
  "ascii_space = [CHR 0x20, CHR 0x09, nl, CHR 0x0D, CHR 0x0B, CHR 0x0C]"

definition skipWhitespace :: "string \<Rightarrow> string" where
  "skipWhitespace s = dropWhile (\<lambda>c. c \<in> set ascii_space) s"

text \<open>A path: the trimmed rest of the line.\<close>

definition rest_of_line :: "string \<Rightarrow> string \<times> string" where
  "rest_of_line s = (case consumeUntil nl s of (t, r) \<Rightarrow> (TrimSpace t, r))"

lemma consumeUntil_length: "length (snd (consumeUntil delim s)) \<le> length s"
  "s \<noteq> [] \<Longrightarrow> length (snd (consumeUntil delim s)) < length s"
  using length_dropWhile_le [of "\<lambda>c. c \<noteq> delim" s]
  by (auto simp: consumeUntil_def split: list.split)

lemma rest_of_line_length: "length (snd (rest_of_line s)) \<le> length s"
  using consumeUntil_length(1) [of nl s] by (auto simp: rest_of_line_def split: prod.split)

lemma peekLine_Nil [simp]: "peekLine [] = []"
  by (simp add: peekLine_def)

lemma peekLine_ConsD: "peekLine s = c # l \<Longrightarrow> s \<noteq> [] \<and> hd s = c"
  by (cases s) (auto simp: peekLine_def split: if_splits)

section \<open>Hunks\<close>

function add_lines :: "string \<Rightarrow> string \<times> string" where
  "add_lines s =
     (let line = peekLine s in
      if line = [] \<or> hd line \<noteq> CHR ''+'' then ([], s)
      else case consumeUntil nl (tl s) of (t, r) \<Rightarrow> case add_lines r of (b, r') \<Rightarrow> (t @ [nl] @ b, r'))"
  by pat_completeness auto
termination
proof (relation "measure length", simp_all)
  fix s t r
  assume "peekLine s \<noteq> [] \<and> hd (peekLine s) = CHR ''+''" "(t, r) = consumeUntil nl (tl s)"
  moreover from this have "s \<noteq> []" by auto
  ultimately show "length r < length s"
    using consumeUntil_length(1) [of nl "tl s"] by (cases s) (auto simp: snd_def split: prod.splits)
qed

declare add_lines.simps [simp del]

definition parseAddFile :: "string \<Rightarrow> Hunk \<times> string" where
  "parseAddFile s = (case rest_of_line s of (path, r) \<Rightarrow> case add_lines r of (contents, r') \<Rightarrow> (AddFile path contents, r'))"

definition parseDeleteFile :: "string \<Rightarrow> Hunk \<times> string" where
  "parseDeleteFile s = (case rest_of_line s of (path, r) \<Rightarrow> (DeleteFile path, r))"

text \<open>The line loop: old lines, new lines, the end-of-file mark and the rest.\<close>

function chunk_lines :: "string list \<Rightarrow> string list \<Rightarrow> string \<Rightarrow> string list \<times> string list \<times> bool \<times> string" where
  "chunk_lines old new s =
     (if s = [] then (old, new, False, s)
      else let l = peekLine s in
        if prefix ''*** End of File'' l then (old, new, True, consumeLine s)
        else if prefix ''@@'' l then (old, new, False, s)
        else if prefix ''***'' l then (old, new, False, s)
        else if l = [] then chunk_lines (old @ [[]]) (new @ [[]]) (consumeLine s)
        else if hd l = CHR ''+'' then (case consumeUntil nl (tl s) of (t, r) \<Rightarrow> chunk_lines old (new @ [t]) r)
        else if hd l = CHR ''-'' then (case consumeUntil nl (tl s) of (t, r) \<Rightarrow> chunk_lines (old @ [t]) new r)
        else if hd l = CHR '' '' then (case consumeUntil nl (tl s) of (t, r) \<Rightarrow> chunk_lines (old @ [t]) (new @ [t]) r)
        else (old, new, False, s))"
  by pat_completeness auto

lemma tl_consumed: "s \<noteq> [] \<Longrightarrow> (t, r) = consumeUntil nl (tl s) \<Longrightarrow> length r < length s"
  using consumeUntil_length(1) [of nl "tl s"] by (cases s) (auto simp: snd_def split: prod.splits)

termination chunk_lines
  by (relation "measure (\<lambda>(old, new, s). length s)") (auto simp: consumeLine_def consumeUntil_length(2) dest: tl_consumed)

declare chunk_lines.simps [simp del]

lemma chunk_lines_shrinks:
  "chunk_lines old new s = (old', new', eof, r) \<Longrightarrow>
     length r \<le> length s \<and> ((old', new') = (old, new) \<or> length r < length s)"
proof (induction old new s arbitrary: old' new' eof r rule: chunk_lines.induct)
  case (1 old new s)
  show ?case
  proof (cases "s = []")
    case True
    with "1.prems" show ?thesis by (simp add: chunk_lines.simps)
  next
    case False
    have line: "length (consumeLine s) < length s" using False by (simp add: consumeLine_def consumeUntil_length(2))
    have rest: "length (snd (consumeUntil nl (tl s))) < length s" using tl_consumed [OF False prod.collapse] .
    show ?thesis
      using "1.prems" "1.IH" [OF False refl] False line rest
      by (subst (asm) chunk_lines.simps)
        (fastforce simp: Let_def split: if_splits prod.splits dest: less_le_trans less_imp_le)
  qed
qed

text \<open>The header of a chunk: its context and the rest of the input.\<close>

definition chunk_header :: "lexer \<Rightarrow> bool \<Rightarrow> string \<Rightarrow> string \<Rightarrow> parse_error + string \<times> string" where
  "chunk_header lx firstChunk path s =
     (case MatchAfterOptional lx [tokChunkHeaderCtx, tokChunkHeaderSimple] s of (m, n) \<Rightarrow>
        if m = Matched tokChunkHeaderCtx then Inr (rest_of_line (drop n s))
        else if m = Matched tokChunkHeaderSimple then Inr ([], snd (consumeUntil nl (drop n s)))
        else if \<not> firstChunk then Inl (NoHeader path)
        else Inr ([], drop n s))"

lemma chunk_header_length: "chunk_header lx first path s = Inr (c, r) \<Longrightarrow> length r \<le> length s"
  using rest_of_line_length [of "drop (snd (MatchAfterOptional lx [tokChunkHeaderCtx, tokChunkHeaderSimple] s)) s"]
    consumeUntil_length(1) [of nl "drop (snd (MatchAfterOptional lx [tokChunkHeaderCtx, tokChunkHeaderSimple] s)) s"]
  by (auto simp: chunk_header_def split: prod.splits if_splits)

function parse_chunks :: "lexer \<Rightarrow> string \<Rightarrow> bool \<Rightarrow> UpdateChunk list \<Rightarrow> string \<Rightarrow> parse_error + UpdateChunk list \<times> string" where
  "parse_chunks lx path firstChunk chunks s =
     (if prefix ''***'' (peekLine s) then Inr (chunks, s)
      else case chunk_header lx firstChunk path s of
        Inl e \<Rightarrow> Inl e
      | Inr (changeCtx, s1) \<Rightarrow>
          (case chunk_lines [] [] s1 of (oldLines, newLines, isEOF, s2) \<Rightarrow>
             if oldLines = [] \<and> newLines = [] then Inl (EmptyChunk path)
             else
               let chunks' = chunks @ [\<lparr>ChangeContext = changeCtx, OldLines = oldLines, NewLines = newLines, IsEOF = isEOF\<rparr>] in
               if \<not> prefix ''@@'' (peekLine s2) then Inr (chunks', s2) else parse_chunks lx path False chunks' s2))"
  by pat_completeness auto

lemma chunk_consumed:
  assumes "chunk_header lx first path s = Inr (c, s1)" "chunk_lines [] [] s1 = (old, new, eof, s2)" "old \<noteq> [] \<or> new \<noteq> []"
  shows "length s2 < length s"
  using chunk_header_length [OF assms(1)] chunk_lines_shrinks [OF assms(2)] assms(3) by auto

termination parse_chunks
proof (relation "measure (\<lambda>(lx, path, first, chunks, s). length s)", goal_cases)
  case (2 lx path first chunks s b c s1 old new' new eof' eof s2 chunks')
  then have "chunk_header lx first path s = Inr (c, s1)" "chunk_lines [] [] s1 = (old, new, eof, s2)" "old \<noteq> [] \<or> new \<noteq> []"
    by simp_all
  from chunk_consumed [OF this] show ?case by simp
qed simp

declare parse_chunks.simps [simp del]

definition parseUpdateFile :: "lexer \<Rightarrow> string \<Rightarrow> parse_error + Hunk \<times> string" where
  "parseUpdateFile lx s =
     (case rest_of_line s of (path, s1) \<Rightarrow>
      case MatchAfterOptional lx [tokMoveTo] s1 of (m, n) \<Rightarrow>
      case (if m = Matched tokMoveTo then rest_of_line (drop n s1) else ([], drop n s1)) of (movePath, s2) \<Rightarrow>
        (case parse_chunks lx path True [] s2 of
           Inl e \<Rightarrow> Inl e
         | Inr (chunks, s3) \<Rightarrow> Inr (UpdateFile path movePath chunks, s3)))"

section \<open>The patch\<close>

text \<open>The loop over the hunks. Whether it ends depends on the tokenizer: \<open>None\<close> when it does not.\<close>

partial_function (option) parse_hunks :: "lexer \<Rightarrow> Hunk list \<Rightarrow> string \<Rightarrow> (parse_error + Hunk list) option" where
  "parse_hunks lx hunks s =
     (case MatchAfterOptional lx [tokEndPatch, tokAddFile, tokDeleteFile, tokUpdateFile] s of (m, n) \<Rightarrow>
      let s1 = drop n s in
      if m = Matched tokEndPatch then
        Some (if skipWhitespace (consumeLine s1) \<noteq> [] then Inl TrailingContent else Inr hunks)
      else if m = Matched tokAddFile then (case parseAddFile s1 of (h, s2) \<Rightarrow> parse_hunks lx (hunks @ [h]) s2)
      else if m = Matched tokDeleteFile then (case parseDeleteFile s1 of (h, s2) \<Rightarrow> parse_hunks lx (hunks @ [h]) s2)
      else if m = Matched tokUpdateFile then
        (case parseUpdateFile lx s1 of Inl e \<Rightarrow> Some (Inl e) | Inr (h, s2) \<Rightarrow> parse_hunks lx (hunks @ [h]) s2)
      else if m = EndOfInput then Some (Inl MissingEnd)
      else Some (Inl SyntaxError))"

declare parse_hunks.simps [code]

definition Parse :: "lexer \<Rightarrow> string \<Rightarrow> (parse_error + Hunk list) option" where
  "Parse lx patchText =
     (let s = TrimSpace patchText in
      case MatchOne lx tokBeginPatch s of (m, n) \<Rightarrow>
        if m \<noteq> Matched tokBeginPatch then Some (Inl SyntaxError)
        else parse_hunks lx [] (consumeLine (drop n s)))"

section \<open>The tokenizer's contract\<close>

definition unspaced :: "string \<Rightarrow> bool" where
  "unspaced s \<longleftrightarrow> s = [] \<or> hd s \<notin> set ascii_space"

text \<open>What the parser needs of \<open>parsly\<close>: a fragment at the cursor is matched and consumed; without white space at the
  cursor, \<open>MatchAfterOptional\<close> takes the first candidate at the cursor and does not move when there is none; a match
  is not empty and lies in the input.\<close>

definition lexer_ok :: "lexer \<Rightarrow> bool" where
  "lexer_ok lx \<longleftrightarrow>
     (\<forall>t s. prefix (fragment t) s \<longrightarrow> MatchOne lx t s = (Matched t, length (fragment t))) \<and>
     (\<forall>ts s. unspaced s \<longrightarrow> MatchAfterOptional lx ts s =
        (case find (\<lambda>t. prefix (fragment t) s) ts of
           Some t \<Rightarrow> (Matched t, length (fragment t))
         | None \<Rightarrow> (if s = [] then EndOfInput else NoMatch, 0)))"

definition lexer_moves :: "lexer \<Rightarrow> bool" where
  "lexer_moves lx \<longleftrightarrow> (\<forall>ts s t n. MatchAfterOptional lx ts s = (Matched t, n) \<longrightarrow> 0 < n \<and> n \<le> length s)"

lemma lexer_ok_one: "lexer_ok lx \<Longrightarrow> prefix (fragment t) s \<Longrightarrow> MatchOne lx t s = (Matched t, length (fragment t))"
  by (simp add: lexer_ok_def)

lemma lexer_ok_after:
  "lexer_ok lx \<Longrightarrow> unspaced s \<Longrightarrow> MatchAfterOptional lx ts s =
     (case find (\<lambda>t. prefix (fragment t) s) ts of
        Some t \<Rightarrow> (Matched t, length (fragment t)) | None \<Rightarrow> (if s = [] then EndOfInput else NoMatch, 0))"
  by (simp add: lexer_ok_def)

section \<open>Patch texts\<close>

text \<open>A patch as it is written: the lines of a chunk with their marks; a blank line stands for an empty context line.\<close>

datatype diff_line = Context string | Removed_line string | Added_line string | Blank

datatype written =
    Write_add string "string list"
  | Write_delete string
  | Write_update string string "(string \<times> diff_line list \<times> bool) list"

fun line_text :: "diff_line \<Rightarrow> string" where
  "line_text (Context t) = CHR '' '' # t"
| "line_text (Removed_line t) = CHR ''-'' # t"
| "line_text (Added_line t) = CHR ''+'' # t"
| "line_text Blank = []"

fun old_of :: "diff_line \<Rightarrow> string list" where
  "old_of (Context t) = [t]"
| "old_of (Removed_line t) = [t]"
| "old_of (Added_line t) = []"
| "old_of Blank = [[]]"

fun new_of :: "diff_line \<Rightarrow> string list" where
  "new_of (Context t) = [t]"
| "new_of (Removed_line t) = []"
| "new_of (Added_line t) = [t]"
| "new_of Blank = [[]]"

definition line :: "string \<Rightarrow> string" where "line t = t @ [nl]"

lemma line_append: "line t @ r = t @ nl # r"
  by (simp add: line_def)

fun chunk_text :: "string \<times> diff_line list \<times> bool \<Rightarrow> string" where
  "chunk_text (ctx, dls, eof) =
     line (if ctx = [] then ''@@'' else ''@@ '' @ ctx) @ concat (map (\<lambda>l. line (line_text l)) dls) @
     (if eof then line ''*** End of File'' else [])"

fun hunk_text :: "written \<Rightarrow> string" where
  "hunk_text (Write_add path ls) = line (''*** Add File: '' @ path) @ concat (map (\<lambda>l. line (CHR ''+'' # l)) ls)"
| "hunk_text (Write_delete path) = line (''*** Delete File: '' @ path)"
| "hunk_text (Write_update path movePath cs) =
     line (''*** Update File: '' @ path) @ (if movePath = [] then [] else line (''*** Move to: '' @ movePath)) @
     concat (map chunk_text cs)"

definition patch_text :: "written list \<Rightarrow> string" where
  "patch_text ws = line ''*** Begin Patch'' @ concat (map hunk_text ws) @ ''*** End Patch''"

text \<open>What it means.\<close>

fun chunk_meaning :: "string \<times> diff_line list \<times> bool \<Rightarrow> UpdateChunk" where
  "chunk_meaning (ctx, dls, eof) =
     \<lparr>ChangeContext = ctx, OldLines = concat (map old_of dls), NewLines = concat (map new_of dls), IsEOF = eof\<rparr>"

fun meaning :: "written \<Rightarrow> Hunk" where
  "meaning (Write_add path ls) = AddFile path (concat (map line ls))"
| "meaning (Write_delete path) = DeleteFile path"
| "meaning (Write_update path movePath cs) = UpdateFile path movePath (map chunk_meaning cs)"

definition one_line :: "string \<Rightarrow> bool" where "one_line s \<longleftrightarrow> nl \<notin> set s"

definition tidy_line :: "string \<Rightarrow> bool" where "tidy_line s \<longleftrightarrow> one_line s \<and> TrimSpace s = s"

fun writable :: "written \<Rightarrow> bool" where
  "writable (Write_add path ls) = (tidy_line path \<and> (\<forall>l \<in> set ls. one_line l))"
| "writable (Write_delete path) = tidy_line path"
| "writable (Write_update path movePath cs) =
     (tidy_line path \<and> tidy_line movePath \<and>
      (\<forall>(ctx, dls, eof) \<in> set cs. tidy_line ctx \<and> dls \<noteq> [] \<and> (\<forall>l \<in> set dls. one_line (line_text l))))"

section \<open>Reading what was written\<close>

lemma consumeUntil_line: "one_line t \<Longrightarrow> consumeUntil nl (t @ nl # r) = (t, r)"
  by (auto simp: consumeUntil_def one_line_def dropWhile_append takeWhile_append)

lemma consumeLine_line: "one_line t \<Longrightarrow> consumeLine (t @ nl # r) = r"
  by (simp add: consumeLine_def consumeUntil_line)

lemma peekLine_line: "one_line t \<Longrightarrow> peekLine (t @ nl # r) = t"
  by (auto simp: peekLine_def one_line_def takeWhile_append)

lemma TrimSpace_space: "TrimSpace (CHR '' '' # s) = TrimSpace s"
proof -
  have "strip_while ws_runes (CHR '' '' # s) = strip_while ws_runes s"
    by (subst strip_while.simps) (simp add: ws_runes_def)
  then show ?thesis by (simp add: TrimSpace_def)
qed

lemma rest_of_line_line:
  "tidy_line t \<Longrightarrow> rest_of_line (t @ nl # r) = (t, r)"
  "tidy_line t \<Longrightarrow> rest_of_line (CHR '' '' # t @ nl # r) = (t, r)"
  using consumeUntil_line [of t r] consumeUntil_line [of "CHR '' '' # t" r]
  by (simp_all add: rest_of_line_def tidy_line_def one_line_def TrimSpace_space nl_def)

lemma prefix_peekLine: "one_line p \<Longrightarrow> prefix p (peekLine s) \<longleftrightarrow> prefix p s"
proof (induction p arbitrary: s)
  case (Cons c p)
  then show ?case by (cases s) (auto simp: peekLine_def one_line_def)
qed simp

text \<open>The next thing in a patch text is a mark that starts with three stars.\<close>

definition starred :: "string \<Rightarrow> bool" where "starred s \<longleftrightarrow> prefix ''***'' s"

lemma starred_hunk [simp]: "starred (hunk_text w @ r)"
  by (cases w) (simp_all add: starred_def line_def)

lemma starred_rest: "starred (concat (map hunk_text ws) @ ''*** End Patch'')"
proof (cases ws)
  case (Cons w ws')
  then show ?thesis using starred_hunk [of w "concat (map hunk_text ws') @ ''*** End Patch''"] by simp
qed (simp add: starred_def)

lemma starred_facts:
  assumes "starred s"
  shows "s \<noteq> []" "hd s = CHR ''*''" "unspaced s" "prefix ''***'' (peekLine s)" "\<not> prefix ''@@'' (peekLine s)"
proof -
  obtain r where s: "s = ''***'' @ r" using assms by (auto simp: starred_def prefix_def)
  then show "s \<noteq> []" "hd s = CHR ''*''" "unspaced s" by (simp_all add: unspaced_def ascii_space_def nl_def)
  have "one_line ''***''" "one_line ''@@''" by (simp_all add: one_line_def nl_def)
  then show "prefix ''***'' (peekLine s)" "\<not> prefix ''@@'' (peekLine s)" by (simp_all add: prefix_peekLine s)
qed

lemma add_lines_text:
  "\<forall>l \<in> set ls. one_line l \<Longrightarrow> starred r \<Longrightarrow> add_lines (concat (map (\<lambda>l. line (CHR ''+'' # l)) ls) @ r) = (concat (map line ls), r)"
proof (induction ls)
  case Nil
  then have "hd (peekLine r) = CHR ''*''" using starred_facts(4) [OF Nil(2)] by (auto simp: prefix_def)
  then show ?case by (subst add_lines.simps) simp
next
  case (Cons l ls)
  let ?r = "concat (map (\<lambda>l. line (CHR ''+'' # l)) ls) @ r"
  have "one_line (CHR ''+'' # l)" using Cons.prems by (simp add: one_line_def nl_def)
  then have "peekLine ((CHR ''+'' # l) @ nl # ?r) = CHR ''+'' # l" by (rule peekLine_line)
  moreover have "consumeUntil nl (l @ nl # ?r) = (l, ?r)" using Cons.prems by (simp add: consumeUntil_line)
  ultimately show ?case using Cons by (subst add_lines.simps) (simp add: line_append)
qed

lemma chunk_lines_text:
  "\<forall>l \<in> set dls. one_line (line_text l) \<Longrightarrow>
     chunk_lines old new (concat (map (\<lambda>l. line (line_text l)) dls) @ r) =
     chunk_lines (old @ concat (map old_of dls)) (new @ concat (map new_of dls)) r"
proof (induction dls arbitrary: old new)
  case (Cons d dls)
  let ?r = "concat (map (\<lambda>l. line (line_text l)) dls) @ r"
  have one: "one_line (line_text d)" using Cons.prems by simp
  note facts = peekLine_line [OF one, of ?r] consumeLine_line [OF one, of ?r]
  have "chunk_lines old new (line_text d @ nl # ?r) = chunk_lines (old @ old_of d) (new @ new_of d) ?r"
  proof (cases d)
    case (Context t)
    then have "one_line t" using one by (simp add: one_line_def)
    with facts Context show ?thesis by (subst chunk_lines.simps) (simp add: consumeUntil_line)
  next
    case (Removed_line t)
    then have "one_line t" using one by (simp add: one_line_def)
    with facts Removed_line show ?thesis by (subst chunk_lines.simps) (simp add: consumeUntil_line)
  next
    case (Added_line t)
    then have "one_line t" using one by (simp add: one_line_def)
    with facts Added_line show ?thesis by (subst chunk_lines.simps) (simp add: consumeUntil_line)
  next
    case Blank
    with facts show ?thesis by (subst chunk_lines.simps) simp
  qed
  with Cons show ?case by (simp add: line_append)
qed simp

lemma chunk_lines_stop: "prefix ''***'' r \<and> \<not> prefix ''*** End of File'' r \<or> prefix ''@@'' r \<Longrightarrow> chunk_lines old new r = (old, new, False, r)"
proof -
  assume r: "prefix ''***'' r \<and> \<not> prefix ''*** End of File'' r \<or> prefix ''@@'' r"
  have "one_line ''***''" "one_line ''@@''" "one_line ''*** End of File''" by (simp_all add: one_line_def nl_def)
  then have "prefix ''***'' (peekLine r) = prefix ''***'' r" "prefix ''@@'' (peekLine r) = prefix ''@@'' r"
    "prefix ''*** End of File'' (peekLine r) = prefix ''*** End of File'' r" by (simp_all add: prefix_peekLine)
  with r show ?thesis by (subst chunk_lines.simps) (auto simp: prefix_def)
qed

lemma chunk_lines_eof: "chunk_lines old new (line ''*** End of File'' @ r) = (old, new, True, r)"
proof -
  have "one_line ''*** End of File''" by (simp add: one_line_def nl_def)
  from peekLine_line [OF this, of r] consumeLine_line [OF this, of r] show ?thesis
    by (subst chunk_lines.simps) (simp add: line_def)
qed

text \<open>What may follow a hunk.\<close>

definition follows :: "string \<Rightarrow> bool" where "follows r \<longleftrightarrow> starred r \<and> \<not> prefix ''*** End of File'' r \<and> \<not> prefix ''*** Move to:'' r"

lemma follows_rest: "follows (concat (map hunk_text ws) @ ''*** End Patch'')"
proof (cases ws)
  case (Cons w ws')
  then show ?thesis by (cases w) (simp_all add: follows_def starred_def line_def)
qed (simp add: follows_def starred_def)

lemma chunk_lines_chunk:
  assumes "\<forall>l \<in> set dls. one_line (line_text l)" "follows r \<or> prefix ''@@'' r"
  shows "chunk_lines [] [] (concat (map (\<lambda>l. line (line_text l)) dls) @ (if eof then line ''*** End of File'' else []) @ r) =
    (concat (map old_of dls), concat (map new_of dls), eof, r)"
  using assms by (cases eof) (auto simp: chunk_lines_text chunk_lines_eof follows_def starred_def intro!: chunk_lines_stop)

lemma chunk_header_text:
  assumes lx: "lexer_ok lx" and ctx: "tidy_line ctx"
  shows "chunk_header lx first path (line (if ctx = [] then ''@@'' else ''@@ '' @ ctx) @ r) = Inr (ctx, r)"
proof -
  let ?s = "line (if ctx = [] then ''@@'' else ''@@ '' @ ctx) @ r"
  have "unspaced ?s" by (simp add: unspaced_def line_def ascii_space_def nl_def)
  note m = lexer_ok_after [OF lx this, of "[tokChunkHeaderCtx, tokChunkHeaderSimple]"]
  show ?thesis
  proof (cases "ctx = []")
    case True
    with m have "MatchAfterOptional lx [tokChunkHeaderCtx, tokChunkHeaderSimple] ?s = (Matched tokChunkHeaderSimple, 2)"
      by (simp add: line_def nl_def)
    with True show ?thesis using consumeUntil_line [of "[]" r]
      by (simp add: chunk_header_def line_def one_line_def)
  next
    case False
    with m have "MatchAfterOptional lx [tokChunkHeaderCtx, tokChunkHeaderSimple] ?s = (Matched tokChunkHeaderCtx, 3)"
      by (simp add: line_def)
    with False ctx show ?thesis by (simp add: chunk_header_def line_def rest_of_line_line)
  qed
qed

lemma parse_chunks_text:
  assumes lx: "lexer_ok lx"
  shows "\<forall>(ctx, dls, eof) \<in> set cs. tidy_line ctx \<and> dls \<noteq> [] \<and> (\<forall>l \<in> set dls. one_line (line_text l)) \<Longrightarrow> follows r \<Longrightarrow>
    parse_chunks lx path first acc (concat (map chunk_text cs) @ r) = Inr (acc @ map chunk_meaning cs, r)"
proof (induction cs arbitrary: first acc)
  case Nil
  then show ?case using starred_facts(4) [of r] by (subst parse_chunks.simps) (simp add: follows_def)
next
  case (Cons c cs)
  obtain ctx dls eof where c: "c = (ctx, dls, eof)" by (cases c) auto
  let ?r = "concat (map chunk_text cs) @ r"
  let ?s = "concat (map (\<lambda>l. line (line_text l)) dls) @ (if eof then line ''*** End of File'' else []) @ ?r"
  let ?head = "line (if ctx = [] then ''@@'' else ''@@ '' @ ctx)"
  have one: "one_line ''***''" "one_line ''@@''" by (simp_all add: one_line_def nl_def)
  have nxt: "follows ?r \<or> prefix ''@@'' ?r" using Cons.prems(2) by (cases cs) (auto simp: line_def)
  have h: "chunk_header lx first path (?head @ ?s) = Inr (ctx, ?s)"
    using chunk_header_text [OF lx] Cons.prems(1) c by auto
  have l: "chunk_lines [] [] ?s = (concat (map old_of dls), concat (map new_of dls), eof, ?r)"
    using Cons.prems(1) c nxt by (intro chunk_lines_chunk) auto
  have ne: "\<not> (concat (map old_of dls) = [] \<and> concat (map new_of dls) = [])"
  proof -
    obtain d ds where "dls = d # ds" using Cons.prems(1) c by (cases dls) auto
    then show ?thesis by (cases d) auto
  qed
  have first: "\<not> prefix ''***'' (peekLine (?head @ ?s))" by (simp add: prefix_peekLine [OF one(1)] line_def)
  have step: "parse_chunks lx path first acc (?head @ ?s) =
     (let chunks' = acc @ [chunk_meaning c] in
      if \<not> prefix ''@@'' (peekLine ?r) then Inr (chunks', ?r) else parse_chunks lx path False chunks' ?r)"
    using h l ne first c by (subst parse_chunks.simps) auto
  show ?case
  proof (cases "cs = []")
    case True
    with step Cons.prems(2) c show ?thesis using starred_facts(5) [of r] by (simp add: follows_def)
  next
    case False
    then have "prefix ''@@'' ?r" by (cases cs) (auto simp: line_def)
    then have "prefix ''@@'' (peekLine ?r)" by (simp only: prefix_peekLine [OF one(2)])
    with step Cons c show ?thesis by simp
  qed
qed

lemma parseUpdateFile_text:
  assumes lx: "lexer_ok lx" and path: "tidy_line path" "tidy_line movePath" and r: "follows r"
    and cs: "\<forall>(ctx, dls, eof) \<in> set cs. tidy_line ctx \<and> dls \<noteq> [] \<and> (\<forall>l \<in> set dls. one_line (line_text l))"
  shows "parseUpdateFile lx (CHR '' '' # path @ nl # (if movePath = [] then [] else line (''*** Move to: '' @ movePath)) @ concat (map chunk_text cs) @ r) =
    Inr (UpdateFile path movePath (map chunk_meaning cs), r)"
proof -
  let ?cs = "concat (map chunk_text cs) @ r"
  let ?move = "if movePath = [] then [] else line (''*** Move to: '' @ movePath)"
  have cs': "unspaced ?cs \<and> \<not> prefix ''*** Move to:'' ?cs"
  proof (cases cs)
    case Nil
    with r show ?thesis by (auto simp: follows_def dest: starred_facts(3))
  next
    case (Cons c cs')
    then show ?thesis by (cases c) (auto simp: line_append unspaced_def ascii_space_def nl_def)
  qed
  have "MatchAfterOptional lx [tokMoveTo] (?move @ ?cs) =
    (if movePath = [] then (if ?cs = [] then EndOfInput else NoMatch, 0) else (Matched tokMoveTo, 12))"
  proof (cases "movePath = []")
    case True
    with cs' lexer_ok_after [OF lx conjunct1 [OF cs'], of "[tokMoveTo]"] show ?thesis by simp
  next
    case False
    then have "unspaced (?move @ ?cs)" by (simp add: line_append unspaced_def ascii_space_def nl_def)
    with False lexer_ok_after [OF lx this, of "[tokMoveTo]"] show ?thesis by (simp add: line_append)
  qed
  with rest_of_line_line(2) [OF path(1)] rest_of_line_line(2) [OF path(2)] parse_chunks_text [OF lx cs r]
  show ?thesis by (auto simp: parseUpdateFile_def line_append)
qed

lemma parse_hunks_text:
  assumes lx: "lexer_ok lx"
  shows "\<forall>w \<in> set ws. writable w \<Longrightarrow>
    parse_hunks lx acc (concat (map hunk_text ws) @ ''*** End Patch'') = Some (Inr (acc @ map meaning ws))"
proof (induction ws arbitrary: acc)
  case Nil
  have "MatchAfterOptional lx [tokEndPatch, tokAddFile, tokDeleteFile, tokUpdateFile] ''*** End Patch'' = (Matched tokEndPatch, 13)"
    using lexer_ok_after [OF lx, of "''*** End Patch''"] by (simp add: unspaced_def ascii_space_def nl_def)
  then show ?case by (subst parse_hunks.simps) (simp add: consumeLine_def consumeUntil_def skipWhitespace_def)
next
  case (Cons w ws)
  let ?r = "concat (map hunk_text ws) @ ''*** End Patch''"
  note rest = follows_rest [of ws]
  have star: "unspaced (hunk_text w @ ?r)" using starred_facts(3) [OF starred_hunk] .
  note m = lexer_ok_after [OF lx star, of "[tokEndPatch, tokAddFile, tokDeleteFile, tokUpdateFile]"]
  have "parse_hunks lx acc (hunk_text w @ ?r) = parse_hunks lx (acc @ [meaning w]) ?r"
  proof (cases w)
    case (Write_add path ls)
    with m have "MatchAfterOptional lx [tokEndPatch, tokAddFile, tokDeleteFile, tokUpdateFile] (hunk_text w @ ?r) = (Matched tokAddFile, 13)"
      by (simp add: line_append)
    moreover have "starred ?r" using rest by (simp add: follows_def)
    ultimately show ?thesis using Write_add Cons.prems
      by (subst parse_hunks.simps) (simp add: line_append parseAddFile_def rest_of_line_line add_lines_text [unfolded line_append])
  next
    case (Write_delete path)
    with m have "MatchAfterOptional lx [tokEndPatch, tokAddFile, tokDeleteFile, tokUpdateFile] (hunk_text w @ ?r) = (Matched tokDeleteFile, 16)"
      by (simp add: line_append)
    with Write_delete Cons.prems show ?thesis
      by (subst parse_hunks.simps) (simp add: line_append parseDeleteFile_def rest_of_line_line)
  next
    case (Write_update path movePath cs)
    with m have "MatchAfterOptional lx [tokEndPatch, tokAddFile, tokDeleteFile, tokUpdateFile] (hunk_text w @ ?r) = (Matched tokUpdateFile, 16)"
      by (simp add: line_append)
    with Write_update Cons.prems parseUpdateFile_text [OF lx _ _ rest, of path movePath cs] show ?thesis
      by (subst parse_hunks.simps) (simp add: line_append)
  qed
  with Cons show ?case by simp
qed

lemma TrimSpace_patch: "TrimSpace (''*** Begin Patch'' @ s @ ''Patch'') = ''*** Begin Patch'' @ s @ ''Patch''"
proof -
  let ?t = "''*** Begin Patch'' @ s @ ''Patch''"
  have "strip_any ws_runes ?t = None" by (simp add: ws_runes_def)
  moreover have "strip_any (map rev ws_runes) (rev ?t) = None" by (simp add: ws_runes_def)
  ultimately show ?thesis by (simp add: TrimSpace_def strip_while_None del: append.simps)
qed

lemma Parse_text:
  assumes lx: "lexer_ok lx" and ws: "\<forall>w \<in> set ws. writable w"
  shows "Parse lx (patch_text ws) = Some (Inr (map meaning ws))"
proof -
  let ?body = "concat (map hunk_text ws) @ ''*** End Patch''"
  have shape: "patch_text ws = ''*** Begin Patch'' @ (nl # concat (map hunk_text ws) @ ''*** End '') @ ''Patch''"
    by (simp add: patch_text_def line_append)
  have trim: "TrimSpace (patch_text ws) = patch_text ws" unfolding shape by (rule TrimSpace_patch)
  have "MatchOne lx tokBeginPatch (patch_text ws) = (Matched tokBeginPatch, 15)"
    using lexer_ok_one [OF lx, of tokBeginPatch "patch_text ws"] by (simp add: patch_text_def line_append)
  moreover have "consumeLine (drop 15 (patch_text ws)) = ?body"
    using consumeLine_line [of "[]" ?body] by (simp add: patch_text_def line_append one_line_def)
  ultimately show ?thesis using parse_hunks_text [OF lx ws, of "[]"] by (simp add: Parse_def trim Let_def)
qed

text \<open>C16: a patch that was written down is read back: for every list of hunks with paths and contexts on one line and
  without surrounding blanks, and chunks of at least one line, the parser returns exactly the hunks, each
  with its contents or its old and new lines in order.\<close>

theorem Parse_roundtrip:
  assumes "lexer_ok lx" "\<forall>w \<in> set ws. writable w"
  shows "Parse lx (patch_text ws) = Some (Inr (map meaning ws))"
  using assms by (rule Parse_text)

text \<open>A tokenizer.\<close>

definition demo_lexer :: lexer where
  "demo_lexer = \<lparr>MatchOne = (\<lambda>t s. if prefix (fragment t) s then (Matched t, length (fragment t)) else (NoMatch, 0)),
     MatchAfterOptional = (\<lambda>ts s. let r = skipWhitespace s; n = length s - length r in
       case find (\<lambda>t. prefix (fragment t) r) ts of
         Some t \<Rightarrow> (Matched t, n + length (fragment t)) | None \<Rightarrow> (if r = [] then EndOfInput else NoMatch, n))\<rparr>"

lemma demo_lexer_ok: "lexer_ok demo_lexer"
proof -
  have "skipWhitespace s = s" if "unspaced s" for s using that by (cases s) (auto simp: unspaced_def skipWhitespace_def)
  then show ?thesis by (auto simp: lexer_ok_def demo_lexer_def Let_def split: option.split)
qed

definition demo_written :: "written list" where
  "demo_written = [Write_add ''a'' [''x''], Write_update ''b'' ''c'' [(''f'', [Context ''1'', Removed_line ''2'', Added_line ''3''], True)]]"

theorem Parse_roundtrip_witness:
  "Parse demo_lexer (patch_text demo_written) = Some (Inr [AddFile ''a'' (''x'' @ [nl]),
     UpdateFile ''b'' ''c'' [\<lparr>ChangeContext = ''f'', OldLines = [''1'', ''2''], NewLines = [''1'', ''3''], IsEOF = True\<rparr>]])"
proof -
  have "\<forall>w \<in> set demo_written. writable w" by code_simp
  from Parse_roundtrip [OF demo_lexer_ok this] show ?thesis by (simp add: demo_written_def line_append line_def)
qed

section \<open>Every text\<close>

text \<open>What the hunks the parser returns have in common.\<close>

definition chunk_ok :: "UpdateChunk \<Rightarrow> bool" where
  "chunk_ok c \<longleftrightarrow> tidy_line (ChangeContext c) \<and> (OldLines c \<noteq> [] \<or> NewLines c \<noteq> []) \<and>
     (\<forall>l \<in> set (OldLines c) \<union> set (NewLines c). one_line l)"

fun hunk_ok :: "Hunk \<Rightarrow> bool" where
  "hunk_ok (AddFile path contents) = (tidy_line path \<and> (contents \<noteq> [] \<longrightarrow> List.last contents = nl))"
| "hunk_ok (DeleteFile path) = tidy_line path"
| "hunk_ok (UpdateFile path movePath chunks) = (tidy_line path \<and> tidy_line movePath \<and> (\<forall>c \<in> set chunks. chunk_ok c))"

lemma set_TrimSpace: "set (TrimSpace s) \<subseteq> set s"
proof -
  have sub: "set (strip_while ps s) \<subseteq> set s" for ps and s :: string using strip_while_suffix [of ps s] by (rule set_mono_suffix)
  from sub [of ws_runes s] sub [of "map rev ws_runes" "rev (strip_while ws_runes s)"]
  show ?thesis by (auto simp: TrimSpace_def)
qed

lemma consumeUntil_one_line: "one_line (fst (consumeUntil nl s))"
proof (cases "dropWhile (\<lambda>c. c \<noteq> nl) s")
  case Nil
  then have "nl \<notin> set s" by (auto simp: dropWhile_eq_Nil_conv)
  then show ?thesis unfolding consumeUntil_def one_line_def Nil by simp
next
  case (Cons c r)
  then show ?thesis by (auto simp: consumeUntil_def one_line_def dest: set_takeWhileD)
qed

lemma rest_of_line_tidy: "rest_of_line s = (t, r) \<Longrightarrow> tidy_line t"
  using consumeUntil_one_line [of s] set_TrimSpace [of "fst (consumeUntil nl s)"]
  by (auto simp: rest_of_line_def tidy_line_def one_line_def split: prod.splits)

lemma add_lines_last: "fst (add_lines s) \<noteq> [] \<Longrightarrow> List.last (fst (add_lines s)) = nl"
proof (induction s rule: add_lines.induct)
  case (1 s)
  show ?case
  proof (cases "peekLine s = [] \<or> hd (peekLine s) \<noteq> CHR ''+''")
    case True
    with "1.prems" show ?thesis by (subst (asm) add_lines.simps) (simp add: Let_def)
  next
    case False
    obtain t r where r: "consumeUntil nl (tl s) = (t, r)" by (cases "consumeUntil nl (tl s)") auto
    obtain b r' where b: "add_lines r = (b, r')" by (cases "add_lines r") auto
    have "fst (add_lines s) = t @ [nl] @ b" using False r b by (subst add_lines.simps) (simp add: Let_def)
    moreover have "b \<noteq> [] \<Longrightarrow> List.last b = nl" using "1.IH" [OF refl False] r b by simp
    ultimately show ?thesis by (cases "b = []") auto
  qed
qed

lemma add_lines_length: "length (snd (add_lines s)) \<le> length s"
proof (induction s rule: add_lines.induct)
  case (1 s)
  show ?case
  proof (cases "peekLine s = [] \<or> hd (peekLine s) \<noteq> CHR ''+''")
    case True
    then show ?thesis by (subst add_lines.simps) (simp add: Let_def)
  next
    case False
    obtain t r where r: "consumeUntil nl (tl s) = (t, r)" by (cases "consumeUntil nl (tl s)") auto
    obtain b r' where b: "add_lines r = (b, r')" by (cases "add_lines r") auto
    have "snd (add_lines s) = r'" using False r b by (subst add_lines.simps) (simp add: Let_def)
    moreover have "length r' \<le> length r" using "1.IH" [OF refl False] r b by simp
    moreover have "length r \<le> length s" using consumeUntil_length(1) [of nl "tl s"] r by simp
    ultimately show ?thesis by simp
  qed
qed

lemma chunk_lines_one_line:
  "chunk_lines old new s = (old', new', eof, r) \<Longrightarrow> \<forall>l \<in> set old \<union> set new. one_line l \<Longrightarrow> \<forall>l \<in> set old' \<union> set new'. one_line l"
proof (induction old new s rule: chunk_lines.induct)
  case (1 old new s)
  obtain t q where q: "consumeUntil nl (tl s) = (t, q)" by (cases "consumeUntil nl (tl s)") auto
  then have t: "one_line t" using consumeUntil_one_line [of "tl s"] by simp
  have e: "one_line []" by (simp add: one_line_def)
  show ?case
  proof (cases "s = []")
    case True
    with 1 show ?thesis by (simp add: chunk_lines.simps)
  next
    case False
    note IH = "1.IH" [OF False refl] and eq = "1.prems"(1) [unfolded chunk_lines.simps [of old new s]]
    show ?thesis using eq "1.prems"(2) False q t e IH by (simp add: Let_def split: if_splits)
  qed
qed

lemma parse_chunks_ok:
  "parse_chunks lx path first acc s = Inr (chunks, r) \<Longrightarrow> \<forall>c \<in> set acc. chunk_ok c \<Longrightarrow>
     (\<forall>c \<in> set chunks. chunk_ok c) \<and> length r \<le> length s"
proof (induction lx path first acc s rule: parse_chunks.induct)
  case (1 lx path first acc s)
  show ?case
  proof (cases "prefix ''***'' (peekLine s)")
    case True
    with "1.prems" show ?thesis by (simp add: parse_chunks.simps)
  next
    case False
    obtain ctx s1 where h: "chunk_header lx first path s = Inr (ctx, s1)"
      using "1.prems"(1) False by (subst (asm) parse_chunks.simps) (auto split: sum.splits)
    obtain old new eof s2 where l: "chunk_lines [] [] s1 = (old, new, eof, s2)" by (cases "chunk_lines [] [] s1") auto
    let ?c = "\<lparr>ChangeContext = ctx, OldLines = old, NewLines = new, IsEOF = eof\<rparr>"
    have ne: "\<not> (old = [] \<and> new = [])"
      using "1.prems"(1) False h l by (subst (asm) parse_chunks.simps) (auto split: if_splits)
    have "tidy_line ctx"
      using h by (auto simp: chunk_header_def tidy_line_def one_line_def split: prod.splits if_splits
          dest: rest_of_line_tidy [unfolded tidy_line_def one_line_def])
    then have c: "chunk_ok ?c" using ne chunk_lines_one_line [OF l] by (auto simp: chunk_ok_def)
    have len: "length s2 < length s" using chunk_consumed [OF h l] ne by blast
    have step: "(if \<not> prefix ''@@'' (peekLine s2) then Inr (acc @ [?c], s2) else parse_chunks lx path False (acc @ [?c]) s2) = Inr (chunks, r)"
      using "1.prems"(1) False h l ne by (subst (asm) parse_chunks.simps) (simp add: Let_def)
    show ?thesis
    proof (cases "prefix ''@@'' (peekLine s2)")
      case True
      then have "(\<forall>c \<in> set chunks. chunk_ok c) \<and> length r \<le> length s2"
        using "1.IH" [OF False h refl l [symmetric] refl refl ne refl] step c "1.prems"(2) by auto
      with len show ?thesis by simp
    next
      case False
      with step c len "1.prems"(2) show ?thesis by auto
    qed
  qed
qed

lemma parseUpdateFile_ok:
  "parseUpdateFile lx s = Inr (h, r) \<Longrightarrow> hunk_ok h \<and> length r \<le> length s"
proof -
  assume run: "parseUpdateFile lx s = Inr (h, r)"
  obtain path s1 where p: "rest_of_line s = (path, s1)" by (cases "rest_of_line s") auto
  obtain m n where m: "MatchAfterOptional lx [tokMoveTo] s1 = (m, n)" by (cases "MatchAfterOptional lx [tokMoveTo] s1") auto
  obtain mv s2 where mv: "(if m = Matched tokMoveTo then rest_of_line (drop n s1) else ([], drop n s1)) = (mv, s2)"
    by (cases "if m = Matched tokMoveTo then rest_of_line (drop n s1) else ([], drop n s1)") auto
  obtain chunks where c: "parse_chunks lx path True [] s2 = Inr (chunks, r)" "h = UpdateFile path mv chunks"
    using run p m mv by (auto simp: parseUpdateFile_def split: sum.splits)
  have "length s1 \<le> length s" "length s2 \<le> length s1"
    using rest_of_line_length [of s] rest_of_line_length [of "drop n s1"] p mv by (auto split: if_splits)
  moreover have "tidy_line mv" using mv by (auto split: if_splits dest: rest_of_line_tidy simp: tidy_line_def one_line_def)
  ultimately show ?thesis using parse_chunks_ok [OF c(1)] c(2) rest_of_line_tidy [OF p] by auto
qed

lemma parse_hunks_ok:
  assumes lx: "lexer_moves lx"
  shows "\<forall>h \<in> set hunks. hunk_ok h \<Longrightarrow>
    \<exists>r. parse_hunks lx hunks s = Some r \<and> (\<forall>hs. r = Inr hs \<longrightarrow> (\<forall>h \<in> set hs. hunk_ok h))"
proof (induction "length s" arbitrary: hunks s rule: less_induct)
  case less
  obtain m n where m: "MatchAfterOptional lx [tokEndPatch, tokAddFile, tokDeleteFile, tokUpdateFile] s = (m, n)"
    by (cases "MatchAfterOptional lx [tokEndPatch, tokAddFile, tokDeleteFile, tokUpdateFile] s") auto
  have moved: "length (drop n s) < length s" if "m = Matched t" for t
    using lx m that unfolding lexer_moves_def by (metis diff_less length_drop less_le_trans)
  let ?goal = "\<lambda>x. \<exists>r. x = Some r \<and> (\<forall>hs. r = Inr hs \<longrightarrow> (\<forall>h \<in> set hs. hunk_ok h))"
  have again: "?goal (parse_hunks lx (hunks @ [h]) r)" if "m = Matched t" "hunk_ok h" "length r \<le> length (drop n s)" for t h r
    using less.hyps [of r "hunks @ [h]"] moved [OF that(1)] that less.prems by auto
  consider "m = Matched tokEndPatch" | "m = Matched tokAddFile" | "m = Matched tokDeleteFile" | "m = Matched tokUpdateFile"
    | "m \<notin> Matched ` {tokEndPatch, tokAddFile, tokDeleteFile, tokUpdateFile}" by auto
  then show ?case
  proof cases
    case 1
    with m less.prems show ?thesis by (subst parse_hunks.simps) simp
  next
    case 2
    obtain p r1 where p: "rest_of_line (drop n s) = (p, r1)" by (cases "rest_of_line (drop n s)") auto
    obtain c r2 where c: "add_lines r1 = (c, r2)" by (cases "add_lines r1") auto
    have "length r2 \<le> length (drop n s)"
      using rest_of_line_length [of "drop n s"] add_lines_length [of r1] p c by simp
    moreover have "hunk_ok (AddFile p c)" using rest_of_line_tidy [OF p] add_lines_last [of r1] c by simp
    ultimately have "?goal (parse_hunks lx (hunks @ [AddFile p c]) r2)" using again [OF 2] by blast
    with 2 m p c show ?thesis by (subst parse_hunks.simps) (simp add: parseAddFile_def)
  next
    case 3
    obtain p r1 where p: "rest_of_line (drop n s) = (p, r1)" by (cases "rest_of_line (drop n s)") auto
    have "?goal (parse_hunks lx (hunks @ [DeleteFile p]) r1)"
      using again [OF 3, of "DeleteFile p" r1] rest_of_line_length [of "drop n s"] rest_of_line_tidy [OF p] p by simp
    with 3 m p show ?thesis by (subst parse_hunks.simps) (simp add: parseDeleteFile_def)
  next
    case 4
    show ?thesis
    proof (cases "parseUpdateFile lx (drop n s)")
      case (Inl e)
      with 4 m show ?thesis by (subst parse_hunks.simps) simp
    next
      case (Inr hr)
      then obtain h r where u: "parseUpdateFile lx (drop n s) = Inr (h, r)" by (cases hr) auto
      with again [OF 4, of h r] parseUpdateFile_ok [OF u] have "?goal (parse_hunks lx (hunks @ [h]) r)" by blast
      with 4 m u show ?thesis by (subst parse_hunks.simps) simp
    qed
  next
    case 5
    with m show ?thesis by (subst parse_hunks.simps) auto
  qed
qed

text \<open>C37: parsing any text returns, with an error or with hunks. No hunk is malformed: paths and contexts are one line
  without surrounding blanks, an added file is empty or ends its last line, and every chunk has a line.\<close>

theorem Parse_returns:
  assumes "lexer_moves lx"
  shows "\<exists>r. Parse lx patchText = Some r \<and> (\<forall>hs. r = Inr hs \<longrightarrow> (\<forall>h \<in> set hs. hunk_ok h))"
  using parse_hunks_ok [OF assms, of "[]"] by (auto simp: Parse_def Let_def split: prod.split)

lemma skipWhitespace_length: "length (skipWhitespace s) \<le> length s"
  by (simp add: skipWhitespace_def length_dropWhile_le)

lemma demo_lexer_moves: "lexer_moves demo_lexer"
  unfolding lexer_moves_def
proof (intro allI impI)
  fix ts s t n
  assume m: "MatchAfterOptional demo_lexer ts s = (Matched t, n)"
  let ?r = "skipWhitespace s"
  have "prefix (fragment t) ?r" "n = length s - length ?r + length (fragment t)"
    using m by (auto simp: demo_lexer_def Let_def find_Some_iff split: option.splits if_splits)
  moreover from this(1) have "length (fragment t) \<le> length ?r" by (rule prefix_length_le)
  moreover have "0 < length (fragment t)" by (cases t) simp_all
  ultimately show "0 < n \<and> n \<le> length s" using skipWhitespace_length [of s] by linarith
qed

theorem Parse_returns_witness:
  "Parse demo_lexer (''*** Begin Patch'' @ [nl] @ ''*** Update File: a'' @ [nl] @ ''@@'') = Some (Inl (EmptyChunk ''a'')) \<and>
   (\<exists>r. Parse demo_lexer ''*** Begin Patch'' = Some r \<and> (\<forall>hs. r = Inr hs \<longrightarrow> (\<forall>h \<in> set hs. hunk_ok h)))"
proof
  show "Parse demo_lexer (''*** Begin Patch'' @ [nl] @ ''*** Update File: a'' @ [nl] @ ''@@'') = Some (Inl (EmptyChunk ''a''))"
    by code_simp
qed (rule Parse_returns [OF demo_lexer_moves])

end
