(* ===== verification/PatchDiff.thy ===== *)
theory PatchDiff
  imports PatchApply PatchParse
begin

text \<open>
  Unified diffs and the entry point for patches of both formats: \<open>applyHunks\<close> and \<open>ApplyPatch\<close> of
  \<open>protocol/tool/service/system/patch/session.go\<close>.

  Parameters (\<open>text_env\<close>): the tokenizer of the patch parser and \<open>ParseMultiFileDiff\<close> of
  \<open>github.com/sourcegraph/go-diff\<close>. The writer is a \<open>bytes.Buffer\<close>, whose writes do not fail.
\<close>

section \<open>Hunks of a unified diff\<close>

record diff_hunk =
  OrigStartLine :: int
  Body :: string

record FileDiff =
  OrigName :: string
  NewName :: string
  Hunks :: "diff_hunk list"

datatype hunk_error = ContextMismatch nat | DeleteMismatch nat | UnexpectedTag char

text \<open>\<open>strings.SplitAfter(s, "\n")\<close>.\<close>

fun SplitAfter :: "string \<Rightarrow> string list" where
  "SplitAfter [] = [[]]"
| "SplitAfter (c # s) =
     (if c = nl then [c] # SplitAfter s
      else (case SplitAfter s of [] \<Rightarrow> [[c]] | l # ls \<Rightarrow> (c # l) # ls))"

definition squeeze :: "string \<Rightarrow> string" where
  "squeeze s = filter (\<lambda>c. c \<noteq> CHR '' '' \<and> c \<noteq> CHR 0x09 \<and> c \<noteq> CHR 0x0D) s"

definition linesEqual :: "string \<Rightarrow> string \<Rightarrow> bool" where
  "linesEqual a b =
     (if a = b then True
      else if (a = [] \<and> b = [nl]) \<or> (a = [nl] \<and> b = []) then True
      else squeeze a = squeeze b)"

text \<open>The lines before a hunk are copied: the new position and the output.\<close>

function copy_until :: "string list \<Rightarrow> int \<Rightarrow> nat \<Rightarrow> string \<Rightarrow> nat \<times> string" where
  "copy_until oldLines targetIdx origIdx out =
     (if int origIdx < targetIdx \<and> origIdx < length oldLines
      then copy_until oldLines targetIdx (Suc origIdx) (out @ oldLines ! origIdx)
      else (origIdx, out))"
  by pat_completeness auto
termination
  by (relation "measure (\<lambda>(oldLines, t, i, out). length oldLines - i)") auto

declare copy_until.simps [simp del]

fun hunk_body :: "string list \<Rightarrow> string list \<Rightarrow> nat \<Rightarrow> string \<Rightarrow> hunk_error + nat \<times> string" where
  "hunk_body oldLines [] origIdx out = Inr (origIdx, out)"
| "hunk_body oldLines (hl # hls) origIdx out =
     (if hl = [] then hunk_body oldLines hls origIdx out
      else let tag = hd hl; line = tl hl in
        if tag = CHR '' '' then
          (if length oldLines \<le> origIdx \<or> \<not> linesEqual (oldLines ! origIdx) line then Inl (ContextMismatch (origIdx + 1))
           else hunk_body oldLines hls (Suc origIdx)
             (if \<not> (oldLines ! origIdx = [] \<and> line = [nl]) then out @ line else out))
        else if tag = CHR ''-'' then
          (if length oldLines \<le> origIdx \<or> \<not> linesEqual (oldLines ! origIdx) line then Inl (DeleteMismatch (origIdx + 1))
           else hunk_body oldLines hls (Suc origIdx) out)
        else if tag = CHR ''+'' then hunk_body oldLines hls origIdx (out @ line)
        else if tag = CHR 0x5C then hunk_body oldLines hls origIdx out
        else Inl (UnexpectedTag tag))"

fun hunk_loop :: "string list \<Rightarrow> diff_hunk list \<Rightarrow> nat \<Rightarrow> string \<Rightarrow> hunk_error + nat \<times> string" where
  "hunk_loop oldLines [] origIdx out = Inr (origIdx, out)"
| "hunk_loop oldLines (h # hs) origIdx out =
     (case copy_until oldLines (OrigStartLine h - 1) origIdx out of (origIdx1, out1) \<Rightarrow>
        (case hunk_body oldLines (SplitAfter (Body h)) origIdx1 out1 of
           Inl e \<Rightarrow> Inl e
         | Inr (origIdx2, out2) \<Rightarrow> hunk_loop oldLines hs origIdx2 out2))"

definition applyHunks :: "string \<Rightarrow> diff_hunk list \<Rightarrow> hunk_error + string" where
  "applyHunks oldData hunks =
     (let oldLines = SplitAfter oldData in
      case hunk_loop oldLines hunks 0 [] of
        Inl e \<Rightarrow> Inl e
      | Inr (origIdx, out) \<Rightarrow> Inr (snd (copy_until oldLines (int (length oldLines)) origIdx out)))"

section \<open>Applying a patch\<close>

record text_env =
  tx_lexer :: lexer
  tx_diff :: "string \<Rightarrow> string + FileDiff list"

datatype apply_error =
    SessionFailed session_error
  | ParseFailed parse_error
  | DiffFailed string
  | NoHunks
  | HunkFailed hunk_error

definition dev_null :: string where "dev_null = ''/dev/null''"

definition lifted :: "session_error option \<times> Session \<times> 'w \<Rightarrow> apply_error option \<times> Session \<times> 'w" where
  "lifted x = (case x of (e, s, w) \<Rightarrow> (map_option SessionFailed e, s, w))"

definition orig_name :: "FileDiff \<Rightarrow> string" where "orig_name fd = TrimPrefix (OrigName fd) ''a/''"
definition new_name :: "FileDiff \<Rightarrow> string" where "new_name fd = TrimPrefix (NewName fd) ''b/''"

text \<open>The null device is left as it is: the old name is compared as the patch writes it, the new one without
  its leading \<open>b/\<close> (so that \<open>b//dev/null\<close> is not resolved either).\<close>

definition diff_paths :: "path_env \<Rightarrow> string \<Rightarrow> FileDiff \<Rightarrow> path_error + string \<times> string" where
  "diff_paths penv dir fd =
     (case (if OrigName fd \<noteq> dev_null then resolvePath penv (orig_name fd) dir else Inr (orig_name fd)) of
        Inl e \<Rightarrow> Inl e
      | Inr orig \<Rightarrow>
          (case (if new_name fd \<noteq> dev_null then resolvePath penv (new_name fd) dir else Inr (new_name fd)) of
             Inl e \<Rightarrow> Inl e
           | Inr newer \<Rightarrow> Inr (orig, newer)))"

definition apply_file :: "'w fs_env \<Rightarrow> string \<Rightarrow> FileDiff \<Rightarrow> Session \<Rightarrow> 'w \<Rightarrow> apply_error option \<times> Session \<times> 'w" where
  "apply_file env dir fd s w =
     (case diff_paths (fs_paths env) dir fd of
        Inl e \<Rightarrow> (Some (SessionFailed (BadPath e)), s, w)
      | Inr (orig, newer) \<Rightarrow>
          if NewName fd \<noteq> dev_null \<and> OrigName fd = dev_null then
            (case applyHunks [] (Hunks fd) of
               Inl e \<Rightarrow> (Some (HunkFailed e), s, w)
             | Inr data \<Rightarrow> lifted (Add env newer data s w))
          else if NewName fd = dev_null \<and> OrigName fd \<noteq> dev_null then lifted (Delete env orig s w)
          else if orig \<noteq> newer \<and> Hunks fd = [] then lifted (Move env orig newer s w)
          else
            (case fs_Download env orig w of
               Inl e \<Rightarrow> (Some (SessionFailed (FsError e)), s, w)
             | Inr oldData \<Rightarrow>
                 (case applyHunks oldData (Hunks fd) of
                    Inl e \<Rightarrow> (Some (HunkFailed e), s, w)
                  | Inr data \<Rightarrow>
                      if orig \<noteq> newer then
                        (case lifted (Move env orig newer s w) of
                           (Some e, s1, w1) \<Rightarrow> (Some e, s1, w1)
                         | (None, s1, w1) \<Rightarrow> lifted (Update env newer data s1 w1))
                      else lifted (Update env orig data s w))))"

fun apply_files :: "'w fs_env \<Rightarrow> string \<Rightarrow> FileDiff list \<Rightarrow> Session \<Rightarrow> 'w \<Rightarrow> apply_error option \<times> Session \<times> 'w" where
  "apply_files env dir [] s w = (None, s, w)"
| "apply_files env dir (fd # fds) s w =
     (case apply_file env dir fd s w of
        (Some e, s1, w1) \<Rightarrow> (Some e, s1, w1)
      | (None, s1, w1) \<Rightarrow> apply_files env dir fds s1 w1)"

text \<open>\<open>None\<close>: the parser does not return.\<close>

definition ApplyPatch :: "'w fs_env \<Rightarrow> text_env \<Rightarrow> string \<Rightarrow> string \<Rightarrow> Session \<Rightarrow> 'w \<Rightarrow> (apply_error option \<times> Session \<times> 'w) option" where
  "ApplyPatch env tx patchText0 dir s w =
     (let patchText = TrimSpace patchText0 in
      if prefix ''*** Begin Patch'' patchText then
        map_option (\<lambda>r. case r of
            Inl e \<Rightarrow> (Some (ParseFailed e), s, w)
          | Inr hunks \<Rightarrow> lifted (applyParsedHunks env hunks dir s w)) (Parse (tx_lexer tx) patchText)
      else Some (case tx_diff tx patchText of
          Inl e \<Rightarrow> (Some (DiffFailed e), s, w)
        | Inr mfd \<Rightarrow> if mfd = [] then (Some NoHunks, s, w) else apply_files env dir mfd s w))"

section \<open>What a diff does\<close>

text \<open>A diff between two texts, as kept lines and the hunks between them.\<close>

datatype diff_item = Same string | Minus string | Plus string

fun item_text :: "diff_item \<Rightarrow> string" where
  "item_text (Same l) = CHR '' '' # l"
| "item_text (Minus l) = CHR ''-'' # l"
| "item_text (Plus l) = CHR ''+'' # l"

fun old_side :: "diff_item list \<Rightarrow> string list" where
  "old_side [] = []"
| "old_side (Same l # xs) = l # old_side xs"
| "old_side (Minus l # xs) = l # old_side xs"
| "old_side (Plus l # xs) = old_side xs"

fun new_side :: "diff_item list \<Rightarrow> string list" where
  "new_side [] = []"
| "new_side (Same l # xs) = l # new_side xs"
| "new_side (Minus l # xs) = new_side xs"
| "new_side (Plus l # xs) = l # new_side xs"

type_synonym block = "string list \<times> diff_item list"

definition old_lines :: "block list \<Rightarrow> string list" where
  "old_lines bs = concat (map (\<lambda>(kept, items). kept @ old_side items) bs)"

definition new_lines :: "block list \<Rightarrow> string list" where
  "new_lines bs = concat (map (\<lambda>(kept, items). kept @ new_side items) bs)"

text \<open>The hunks as a unified diff numbers them: a hunk starts at its first old line, or names the line before it when it
  has none. \<open>n\<close> lines come before.\<close>

fun hunks_of :: "nat \<Rightarrow> block list \<Rightarrow> diff_hunk list" where
  "hunks_of n [] = []"
| "hunks_of n ((kept, items) # bs) =
     \<lparr>OrigStartLine = int (n + length kept) + (if old_side items = [] then 0 else 1), Body = concat (map item_text items)\<rparr> #
       hunks_of (n + length kept + length (old_side items)) bs"

text \<open>The hunks for which the code's position is that of the diff: those with an old line, and one at the top.\<close>

fun placed :: "nat \<Rightarrow> block list \<Rightarrow> bool" where
  "placed n [] = True"
| "placed n ((kept, items) # bs) =
     ((old_side items = [] \<longrightarrow> n + length kept = 0) \<and> placed (n + length kept + length (old_side items)) bs)"

definition whole :: "string \<Rightarrow> bool" where
  "whole l \<longleftrightarrow> (\<exists>t. l = line t \<and> one_line t)"

definition whole_blocks :: "block list \<Rightarrow> bool" where
  "whole_blocks bs \<longleftrightarrow> (\<forall>(kept, items) \<in> set bs. \<forall>l \<in> set kept \<union> set (old_side items) \<union> set (new_side items). whole l)"

lemma SplitAfter_line: "one_line t \<Longrightarrow> SplitAfter (line t @ s) = line t # SplitAfter s"
  by (induction t) (auto simp: line_def one_line_def)

lemma SplitAfter_whole: "\<forall>l \<in> set ls. whole l \<Longrightarrow> SplitAfter (concat ls) = ls @ [[]]"
  by (induction ls) (auto simp: whole_def SplitAfter_line)

lemma linesEqual_refl [simp]: "linesEqual l l"
  by (simp add: linesEqual_def)

lemma copy_until_spec:
  "i \<le> length ls \<Longrightarrow>
     copy_until ls (int (i + n)) i out = (let m = min n (length ls - i) in (i + m, out @ concat (take m (drop i ls))))"
proof (induction n arbitrary: i out)
  case 0
  then show ?case by (subst copy_until.simps) simp
next
  case (Suc n)
  show ?case
  proof (cases "i < length ls")
    case True
    then have "drop i ls = ls ! i # drop (Suc i) ls" by (simp add: Cons_nth_drop_Suc)
    moreover have "length ls - i = Suc (length ls - Suc i)" using True by simp
    moreover have "copy_until ls (int (i + Suc n)) i out = copy_until ls (int (Suc i + n)) (Suc i) (out @ ls ! i)"
      using True by (subst copy_until.simps) simp
    ultimately show ?thesis using True Suc.IH [of "Suc i" "out @ ls ! i"] by (simp add: Let_def del: of_nat_add of_nat_Suc)
  next
    case False
    with Suc.prems show ?thesis by (subst copy_until.simps) simp
  qed
qed

lemma copy_kept:
  "copy_until (pre @ kept @ post) (int (length pre + length kept)) (length pre) out = (length pre + length kept, out @ concat kept)"
  using copy_until_spec [of "length pre" "pre @ kept @ post" "length kept" out] by (simp add: Let_def)

lemma copy_rest: "copy_until (pre @ post) (int (length (pre @ post))) (length pre) out = (length (pre @ post), out @ concat post)"
  using copy_kept [of pre post "[]" out] by simp

lemma copy_none: "t \<le> int i \<Longrightarrow> copy_until ls t i out = (i, out)"
  by (subst copy_until.simps) simp

lemma item_not_Nil [simp]: "item_text x \<noteq> []"
  by (cases x) simp_all

lemma hunk_body_items:
  "old = pre @ old_side items @ post \<Longrightarrow> \<forall>l \<in> set (old_side items). l \<noteq> [] \<Longrightarrow>
    hunk_body old (map item_text items @ [[]]) (length pre) out =
    Inr (length pre + length (old_side items), out @ concat (new_side items))"
proof (induction items arbitrary: pre out rule: old_side.induct)
  case (2 l xs)
  then show ?case using "2.IH" [of "pre @ [l]" "out @ l"] by simp
next
  case (3 l xs)
  then show ?case using "3.IH" [of "pre @ [l]" out] by simp
qed simp_all

lemma hunk_loop_blocks:
  "old = pre @ old_lines bs @ post \<Longrightarrow> whole_blocks bs \<Longrightarrow> placed (length pre) bs \<Longrightarrow>
    hunk_loop old (hunks_of (length pre) bs) (length pre) out =
    Inr (length pre + length (old_lines bs), out @ concat (new_lines bs))"
proof (induction bs arbitrary: pre out)
  case (Cons b bs)
  obtain kept items where b: "b = (kept, items)" by (cases b) auto
  let ?pre = "pre @ kept"
  let ?start = "int (length pre + length kept) + (if old_side items = [] then 0 else 1)"
  have old: "old = pre @ kept @ (old_side items @ old_lines bs @ post)" using Cons.prems(1) b by (simp add: old_lines_def)
  have copy: "copy_until old (?start - 1) (length pre) out = (length ?pre, out @ concat kept)"
  proof (cases "old_side items = []")
    case True
    with Cons.prems(3) b have "pre = []" "kept = []" by auto
    with True show ?thesis by (simp add: copy_none)
  next
    case False
    then show ?thesis unfolding old using copy_kept [of pre kept "old_side items @ old_lines bs @ post" out] by simp
  qed
  have whole: "\<forall>l \<in> set (old_side items) \<union> set (new_side items). whole l" "whole_blocks bs"
    using Cons.prems(2) b by (auto simp: whole_blocks_def)
  have item: "\<exists>t. item_text x = line t \<and> one_line t" if "x \<in> set items" for x
  proof -
    have "case x of Same l \<Rightarrow> whole l | Minus l \<Rightarrow> whole l | Plus l \<Rightarrow> whole l"
      using that whole(1) by (induction items rule: old_side.induct) auto
    then obtain t where "x = Same (line t) \<or> x = Minus (line t) \<or> x = Plus (line t)" "one_line t"
      by (cases x) (auto simp: whole_def)
    then show ?thesis
      by (intro exI [of _ "case x of Same l \<Rightarrow> CHR '' '' # t | Minus l \<Rightarrow> CHR ''-'' # t | Plus l \<Rightarrow> CHR ''+'' # t"])
        (auto simp: line_def one_line_def nl_def)
  qed
  then have "SplitAfter (concat (map item_text items)) = map item_text items @ [[]]"
    by (intro SplitAfter_whole) (auto simp: whole_def)
  moreover have "hunk_body old (map item_text items @ [[]]) (length ?pre) (out @ concat kept) =
      Inr (length ?pre + length (old_side items), (out @ concat kept) @ concat (new_side items))"
  proof (rule hunk_body_items)
    show "old = ?pre @ old_side items @ old_lines bs @ post" by (simp add: old)
    show "\<forall>l \<in> set (old_side items). l \<noteq> []" using whole(1) by (auto simp: whole_def line_def)
  qed
  moreover have "hunk_loop old (hunks_of (length (?pre @ old_side items)) bs) (length (?pre @ old_side items)) (out @ concat kept @ concat (new_side items)) =
      Inr (length (?pre @ old_side items) + length (old_lines bs), (out @ concat kept @ concat (new_side items)) @ concat (new_lines bs))"
    by (rule Cons.IH) (use old whole(2) Cons.prems(3) b in \<open>auto simp: add.assoc\<close>)
  ultimately show ?case using copy b by (simp add: old_lines_def new_lines_def add.assoc)
qed (simp add: old_lines_def new_lines_def)

text \<open>C38: applying a unified diff of two texts to the first gives the second, for diffs each of whose hunks has an old line
  (kept or removed) or stands at the top of the text, whatever the hunks and the kept lines between them are; lines end
  with a newline. A hunk that only adds lines further down is misplaced (\<open>insertion_misplaced\<close>).\<close>

theorem applyHunks_roundtrip:
  assumes "whole_blocks bs" "\<forall>l \<in> set rest. whole l" "placed 0 bs"
  shows "applyHunks (concat (old_lines bs @ rest)) (hunks_of 0 bs) = Inr (concat (new_lines bs @ rest))"
proof -
  have side: "\<forall>l \<in> set (old_lines bs @ rest). whole l"
    using assms(1,2) by (fastforce simp: old_lines_def whole_blocks_def)
  let ?old = "old_lines bs @ rest @ [[]]"
  have lines: "SplitAfter (concat (old_lines bs) @ concat rest) = ?old" using SplitAfter_whole [OF side] by simp
  have "hunk_loop ?old (hunks_of 0 bs) 0 [] = Inr (length (old_lines bs), concat (new_lines bs))"
    using hunk_loop_blocks [of ?old "[]" bs "rest @ [[]]" "[]"] assms(1,3) by simp
  moreover have "snd (copy_until ?old (int (length ?old)) (length (old_lines bs)) (concat (new_lines bs))) = concat (new_lines bs) @ concat rest"
    using copy_rest [of "old_lines bs" "rest @ [[]]" "concat (new_lines bs)"] by simp
  ultimately show ?thesis unfolding applyHunks_def Let_def concat_append lines by simp
qed

definition demo_blocks :: "block list" where
  "demo_blocks = [([line ''1''], [Same (line ''2''), Minus (line ''3''), Plus (line ''x'')]), ([line ''4''], [Minus (line ''5'')])]"

theorem applyHunks_roundtrip_witness:
  "applyHunks (concat (map line [''1'', ''2'', ''3'', ''4'', ''5'', ''6''])) (hunks_of 0 demo_blocks) = Inr (concat (map line [''1'', ''2'', ''x'', ''4'', ''6'']))"
proof -
  have "whole (line [c])" if "c \<noteq> nl" for c using that by (auto simp: whole_def one_line_def)
  then have "whole_blocks demo_blocks" "\<forall>l \<in> set [line ''6'']. whole l" by (simp_all add: whole_blocks_def demo_blocks_def nl_def)
  moreover have "placed 0 demo_blocks" by (simp add: demo_blocks_def)
  ultimately show ?thesis using applyHunks_roundtrip [of demo_blocks "[line ''6'']"]
    by (simp add: demo_blocks_def old_lines_def new_lines_def)
qed

text \<open>A diff without context lines numbers an insertion by the line before it: its lines go one line too high.\<close>

lemma insertion_misplaced:
  "applyHunks (concat (map line [''1'', ''2''])) (hunks_of 0 [([line ''1''], [Plus (line ''x'')])]) =
     Inr (concat (map line [''x'', ''1'', ''2'']))"
  by code_simp

text \<open>Context lines are taken from the patch, not from the file: a patch may change blanks it shows as context.\<close>

lemma context_rewritten:
  "applyHunks (line (CHR 0x09 # ''a b'')) [\<lparr>OrigStartLine = 1, Body = line '' ab''\<rparr>] = Inr (line ''ab'')"
  by code_simp

section \<open>Which files a patch touches\<close>

definition file_sources :: "path_env \<Rightarrow> string \<Rightarrow> FileDiff \<Rightarrow> string set" where
  "file_sources penv dir fd = (if OrigName fd = dev_null then {} else resolved penv dir (orig_name fd))"

definition file_targets :: "path_env \<Rightarrow> string \<Rightarrow> FileDiff \<Rightarrow> string set" where
  "file_targets penv dir fd =
     (if new_name fd \<noteq> dev_null then resolved penv dir (new_name fd)
      else if NewName fd \<noteq> dev_null \<or> OrigName fd = dev_null then {dev_null} else {})"

text \<open>The files a patch changes or removes, and those it puts somewhere.\<close>

definition parsed :: "text_env \<Rightarrow> string \<Rightarrow> Hunk list" where
  "parsed tx text = (if prefix ''*** Begin Patch'' (TrimSpace text)
     then (case Parse (tx_lexer tx) (TrimSpace text) of Some (Inr hs) \<Rightarrow> hs | _ \<Rightarrow> []) else [])"

definition diffs :: "text_env \<Rightarrow> string \<Rightarrow> FileDiff list" where
  "diffs tx text = (if prefix ''*** Begin Patch'' (TrimSpace text) then []
     else (case tx_diff tx (TrimSpace text) of Inr fds \<Rightarrow> fds | Inl _ \<Rightarrow> []))"

definition patch_sources :: "path_env \<Rightarrow> text_env \<Rightarrow> string \<Rightarrow> string \<Rightarrow> string set" where
  "patch_sources penv tx text dir =
     (\<Union>h \<in> set (parsed tx text). sources penv dir h) \<union> (\<Union>fd \<in> set (diffs tx text). file_sources penv dir fd)"

definition patch_targets :: "path_env \<Rightarrow> text_env \<Rightarrow> string \<Rightarrow> string \<Rightarrow> string set" where
  "patch_targets penv tx text dir =
     (\<Union>h \<in> set (parsed tx text). targets penv dir h) \<union> (\<Union>fd \<in> set (diffs tx text). file_targets penv dir fd)"

lemma lifted_frames: "frames files temp P s w x \<Longrightarrow> frames files temp P s w (lifted x)"
  by (cases x) (simp add: lifted_def frames_def)

lemma null_names: "OrigName fd = dev_null \<Longrightarrow> orig_name fd = dev_null" "NewName fd = dev_null \<Longrightarrow> new_name fd = dev_null"
proof -
  have "TrimPrefix dev_null ''a/'' = dev_null" "TrimPrefix dev_null ''b/'' = dev_null" by code_simp+
  then show "OrigName fd = dev_null \<Longrightarrow> orig_name fd = dev_null" "NewName fd = dev_null \<Longrightarrow> new_name fd = dev_null"
    by (simp_all add: orig_name_def new_name_def)
qed

lemma diff_paths_cases:
  "diff_paths penv dir fd = Inr (orig, newer) \<Longrightarrow>
     (if OrigName fd = dev_null then orig = dev_null else orig \<in> file_sources penv dir fd) \<and>
     (if NewName fd = dev_null then newer = dev_null else newer \<in> file_targets penv dir fd)"
  by (auto simp: diff_paths_def file_sources_def file_targets_def resolved_def null_names split: sum.splits if_splits)

lemma apply_file_frames:
  assumes ok: "fs_ok env files (ss_tempDir s) temp"
    and temp: "\<forall>q \<in> file_sources (fs_paths env) dir fd \<union> file_targets (fs_paths env) dir fd. \<not> temp q"
  shows "frames files temp (file_sources (fs_paths env) dir fd \<union> file_targets (fs_paths env) dir fd) s w (apply_file env dir fd s w)"
proof (cases "diff_paths (fs_paths env) dir fd")
  case (Inl e)
  then show ?thesis by (simp add: apply_file_def frames_keep)
next
  case (Inr p)
  then obtain orig newer where p: "diff_paths (fs_paths env) dir fd = Inr (orig, newer)" by (cases p) auto
  let ?T = "file_sources (fs_paths env) dir fd \<union> file_targets (fs_paths env) dir fd"
  note wh = diff_paths_cases [OF p]
  have add: "newer \<in> ?T \<Longrightarrow> frames files temp ?T s w (lifted (Add env newer d s w))" for d
    by (intro lifted_frames frames_mono [OF Add_frames [OF ok]]) auto
  have del: "orig \<in> ?T \<Longrightarrow> frames files temp ?T s w (lifted (Delete env orig s w))"
    by (intro lifted_frames frames_mono [OF Delete_frames [OF ok]]) (use temp in auto)
  have move: "orig \<in> ?T \<Longrightarrow> newer \<in> ?T \<Longrightarrow> frames files temp ?T s w (lifted (Move env orig newer s w))"
    by (intro lifted_frames frames_mono [OF Move_frames [OF ok]]) auto
  have upd: "q \<in> ?T \<Longrightarrow> ss_tempDir s' = ss_tempDir s \<Longrightarrow> frames files temp ?T s' w' (lifted (Update env q d s' w'))" for q s' w' d
    by (intro lifted_frames frames_mono [OF Update_frames]) (use ok in auto)
  show ?thesis
  proof (cases "OrigName fd = dev_null")
    case True
    with wh have "newer \<in> ?T" "orig = dev_null" by (auto simp: file_targets_def null_names split: if_splits)
    moreover from this True wh have "NewName fd = dev_null \<Longrightarrow> orig = newer" by simp
    ultimately show ?thesis using p True add upd [of newer s w]
      by (cases "NewName fd = dev_null") (auto simp: apply_file_def frames_keep split: sum.split)
  next
    case False
    with wh have o: "orig \<in> ?T" by simp
    show ?thesis
    proof (cases "NewName fd = dev_null")
      case True
      with False o p del show ?thesis by (simp add: apply_file_def)
    next
      case new: False
      with wh have n: "newer \<in> ?T" by simp
      have "frames files temp ?T s w (case lifted (Move env orig newer s w) of (Some e, s1, w1) \<Rightarrow> (Some e, s1, w1)
          | (None, s1, w1) \<Rightarrow> lifted (Update env newer d s1 w1))" for d
        using move [OF o n] upd [OF n] by (rule frames_then)
      with False new p move [OF o n] upd [OF o refl] show ?thesis
        by (auto simp: apply_file_def frames_keep split: sum.split)
    qed
  qed
qed

lemma apply_files_frames:
  "fs_ok env files (ss_tempDir s) temp \<Longrightarrow>
    \<forall>fd \<in> set fds. \<forall>q \<in> file_sources (fs_paths env) dir fd \<union> file_targets (fs_paths env) dir fd. \<not> temp q \<Longrightarrow>
    frames files temp (\<Union>fd \<in> set fds. file_sources (fs_paths env) dir fd \<union> file_targets (fs_paths env) dir fd) s w
      (apply_files env dir fds s w)"
proof (induction fds arbitrary: s w)
  case (Cons fd fds)
  let ?P = "\<Union>fd \<in> set (fd # fds). file_sources (fs_paths env) dir fd \<union> file_targets (fs_paths env) dir fd"
  have "frames files temp ?P s w (apply_file env dir fd s w)"
    by (rule frames_mono [OF apply_file_frames [OF Cons.prems(1)]]) (use Cons.prems(2) in auto)
  moreover have "frames files temp ?P s1 w1 (apply_files env dir fds s1 w1)" if "ss_tempDir s1 = ss_tempDir s" for s1 w1
    by (rule frames_mono [OF Cons.IH]) (use Cons.prems that in auto)
  ultimately show ?case unfolding apply_files.simps by (rule frames_then)
qed (simp add: frames_keep)

lemma ApplyPatch_frames:
  assumes ok: "fs_ok env files (ss_tempDir s) temp"
    and temp: "\<forall>q \<in> patch_sources (fs_paths env) tx text dir \<union> patch_targets (fs_paths env) tx text dir. \<not> temp q"
    and run: "ApplyPatch env tx text dir s w = Some x"
  shows "frames files temp (patch_sources (fs_paths env) tx text dir \<union> patch_targets (fs_paths env) tx text dir) s w x"
proof (cases "prefix ''*** Begin Patch'' (TrimSpace text)")
  case True
  then obtain r where r: "Parse (tx_lexer tx) (TrimSpace text) = Some r"
    using run by (auto simp: ApplyPatch_def Let_def)
  show ?thesis
  proof (cases r)
    case (Inl e)
    with run True r show ?thesis by (auto simp: ApplyPatch_def Let_def frames_keep)
  next
    case (Inr hs)
    with True r have hs: "parsed tx text = hs" by (simp add: parsed_def)
    have "frames files temp (\<Union>h \<in> set hs. touched (fs_paths env) dir h) s w (lifted (applyParsedHunks env hs dir s w))"
      by (intro lifted_frames applyParsedHunks_frames [OF ok]) (use temp hs in \<open>auto simp: patch_sources_def patch_targets_def\<close>)
    then have "frames files temp (\<Union>h \<in> set hs. touched (fs_paths env) dir h) s w x"
      using run True r Inr by (auto simp: ApplyPatch_def Let_def)
    then show ?thesis by (rule frames_mono) (auto simp: patch_sources_def patch_targets_def hs)
  qed
next
  case False
  show ?thesis
  proof (cases "tx_diff tx (TrimSpace text)")
    case (Inl e)
    with run False show ?thesis by (auto simp: ApplyPatch_def Let_def frames_keep)
  next
    case (Inr fds)
    with False have fds: "diffs tx text = fds" by (simp add: diffs_def)
    have "frames files temp (\<Union>fd \<in> set fds. file_sources (fs_paths env) dir fd \<union> file_targets (fs_paths env) dir fd) s w (apply_files env dir fds s w)"
      by (rule apply_files_frames [OF ok]) (use temp fds in \<open>auto simp: patch_sources_def patch_targets_def\<close>)
    then have "frames files temp (\<Union>fd \<in> set fds. file_sources (fs_paths env) dir fd \<union> file_targets (fs_paths env) dir fd) s w x"
      using run False Inr by (auto simp: ApplyPatch_def Let_def frames_keep split: if_splits)
    then show ?thesis by (rule frames_mono) (auto simp: patch_sources_def patch_targets_def fds)
  qed
qed

lemma patch_inside:
  "local_workdir penv dir \<Longrightarrow> patch_sources penv tx text dir \<union> patch_targets penv tx text dir \<subseteq> in_workdir penv dir \<union> {dev_null}"
  using touched_inside [of penv dir]
  by (auto simp: patch_sources_def patch_targets_def file_sources_def file_targets_def resolved_def
      dest: resolvePath_inside split: if_splits)

end
