(* ===== verification/PatchService.thy ===== *)
theory PatchService
  imports PatchDiff
begin

text \<open>
  The service \<open>system/patch\<close>, \<open>protocol/tool/service/system/patch/{registry,observation_contract}.go\<close>, with the
  record of what a turn has read, \<open>protocol/tool/service/observation/state.go\<close>: a session per conversation, and
  edits only of files whose current content was read.

  Parameters (\<open>service_env\<close>): the file service, the readers of patches, SHA-256 in hexadecimal, the directory for
  temporary files, \<open>url.Join\<close> of \<open>github.com/viant/afs\<close>, new UUIDs and the clock as it is printed. The
  conversation's id and the record of what was read come with the context: \<open>None\<close> when there is no record.
\<close>

section \<open>What was read\<close>

record 'w service_env =
  sv_fs :: "'w fs_env"
  sv_text :: text_env
  sv_sha :: "string \<Rightarrow> string"
  sv_tempBase :: string
  sv_join :: "string \<Rightarrow> string list \<Rightarrow> string"
  sv_uuid :: "'w \<Rightarrow> string"
  sv_now :: "'w \<Rightarrow> string"

record Metadata =
  md_Token :: string
  md_SHA256 :: string
  md_Size :: int
  md_ContentComplete :: bool
  md_ObservedAt :: string

record Record =
  rd_URI :: string
  rd_Canonical :: string
  rd_SHA256 :: string
  rd_Size :: int
  rd_ObservedAt :: string

type_synonym observed = "(string \<times> Record) list option"

datatype service_error =
    NotRead
  | ChangedSinceRead
  | PatchRequired
  | WorkdirRequired
  | PathRequired
  | ApplyFailed apply_error
  | NoSession string

definition MetadataFor :: "'w service_env \<Rightarrow> string \<Rightarrow> bool \<Rightarrow> string \<Rightarrow> Metadata" where
  "MetadataFor env data contentComplete observedAt =
     (let hash = sv_sha env data in
      \<lparr>md_Token = ''sha256:'' @ hash, md_SHA256 = hash, md_Size = int (length data),
       md_ContentComplete = contentComplete, md_ObservedAt = observedAt\<rparr>)"

definition isWindowsAbsPath :: "string \<Rightarrow> bool" where
  "isWindowsAbsPath v \<longleftrightarrow> \<not> (length v < 2 \<or> v ! 1 \<noteq> CHR '':'') \<and>
     (of_char (hd v) \<in> {97..122 :: nat} \<or> of_char (hd v) \<in> {65..90 :: nat})"

definition TrimRight_slash :: "string \<Rightarrow> string" where
  "TrimRight_slash s = rev (dropWhile (\<lambda>c. c = slash) (rev s))"

definition CanonicalURI :: "path_env \<Rightarrow> string \<Rightarrow> string" where
  "CanonicalURI penv uri =
     (let v = TrimSpace uri in
      if v = [] then []
      else if prefix (''file'' @ scheme_sep) (ToLower v) then
        (case pe_urlBase penv v of (_, path) \<Rightarrow> if TrimSpace path = [] then [] else Clean path)
      else if IsAbs v \<or> isWindowsAbsPath v then Clean v
      else TrimRight_slash v)"

definition RecordRead :: "'w service_env \<Rightarrow> string \<Rightarrow> string \<Rightarrow> bool \<Rightarrow> 'w \<Rightarrow> observed \<Rightarrow> Metadata \<times> observed" where
  "RecordRead env uri data contentComplete w obs =
     (let metadata = MetadataFor env data contentComplete (sv_now env w) in
      case obs of None \<Rightarrow> (metadata, None)
      | Some records \<Rightarrow>
          let canonical = CanonicalURI (fs_paths (sv_fs env)) uri in
          if canonical = [] then (metadata, obs)
          else (metadata, Some (AList.update canonical
            \<lparr>rd_URI = TrimSpace uri, rd_Canonical = canonical, rd_SHA256 = md_SHA256 metadata, rd_Size = md_Size metadata,
             rd_ObservedAt = md_ObservedAt metadata\<rparr> records)))"

definition VerifyCurrent :: "'w service_env \<Rightarrow> observed \<Rightarrow> string \<Rightarrow> string \<Rightarrow> 'w \<Rightarrow> service_error option" where
  "VerifyCurrent env obs uri data w =
     (case obs of None \<Rightarrow> None
      | Some records \<Rightarrow>
          let canonical = CanonicalURI (fs_paths (sv_fs env)) uri in
          if canonical = [] then Some NotRead
          else let cur = MetadataFor env data True (sv_now env w) in
            (case map_of records canonical of
               None \<Rightarrow> Some NotRead
             | Some r \<Rightarrow>
                 if rd_SHA256 r \<noteq> md_SHA256 cur \<or> rd_Size r \<noteq> md_Size cur then Some ChangedSinceRead else None))"

section \<open>Read before modify\<close>

fun validate_paths :: "'w service_env \<Rightarrow> observed \<Rightarrow> Session \<Rightarrow> 'w \<Rightarrow> string set \<Rightarrow> string list \<Rightarrow> service_error option" where
  "validate_paths env obs sess w seen [] = None"
| "validate_paths env obs sess w seen (path0 # paths) =
     (let path = TrimSpace path0 in
      if path = [] then validate_paths env obs sess w seen paths
      else let key = CanonicalURI (fs_paths (sv_fs env)) path in
        if key = [] then Some NotRead
        else if key \<in> seen then validate_paths env obs sess w seen paths
        else if HasCreatedChange sess path then validate_paths env obs sess w (insert key seen) paths
        else (case fs_Download (sv_fs env) path w of
           Inl e \<Rightarrow> Some NotRead
         | Inr data \<Rightarrow>
             (case VerifyCurrent env obs path data w of
                Some e \<Rightarrow> Some e
              | None \<Rightarrow> validate_paths env obs sess w (insert key seen) paths)))"

definition validateObservedPaths :: "'w service_env \<Rightarrow> observed \<Rightarrow> Session \<Rightarrow> 'w \<Rightarrow> string list \<Rightarrow> service_error option" where
  "validateObservedPaths env obs sess w paths = (if obs = None then None else validate_paths env obs sess w {} paths)"

definition and_path :: "path_env \<Rightarrow> string \<Rightarrow> string \<Rightarrow> path_error + string list \<Rightarrow> path_error + string list" where
  "and_path penv path dir rest =
     (case resolvePath penv path dir of Inl e \<Rightarrow> Inl e | Inr p \<Rightarrow> map_sum id (\<lambda>ps. p # ps) rest)"

fun observedPathsForParsedHunks :: "path_env \<Rightarrow> string \<Rightarrow> Hunk list \<Rightarrow> path_error + string list" where
  "observedPathsForParsedHunks penv dir [] = Inr []"
| "observedPathsForParsedHunks penv dir (AddFile path contents # hs) = observedPathsForParsedHunks penv dir hs"
| "observedPathsForParsedHunks penv dir (DeleteFile path # hs) = and_path penv path dir (observedPathsForParsedHunks penv dir hs)"
| "observedPathsForParsedHunks penv dir (UpdateFile path movePath chunks # hs) =
     and_path penv path dir (observedPathsForParsedHunks penv dir hs)"

fun observed_diff_paths :: "path_env \<Rightarrow> string \<Rightarrow> FileDiff list \<Rightarrow> path_error + string list" where
  "observed_diff_paths penv dir [] = Inr []"
| "observed_diff_paths penv dir (fd # fds) =
     (if OrigName fd = dev_null then observed_diff_paths penv dir fds
      else and_path penv (orig_name fd) dir (observed_diff_paths penv dir fds))"

definition path_result :: "path_error + string list \<Rightarrow> service_error + string list" where
  "path_result r = map_sum (\<lambda>e. ApplyFailed (SessionFailed (BadPath e))) id r"

text \<open>\<open>None\<close>: the parser does not return.\<close>

definition observedPathsForPatch :: "path_env \<Rightarrow> text_env \<Rightarrow> string \<Rightarrow> string \<Rightarrow> (service_error + string list) option" where
  "observedPathsForPatch penv tx patchText0 workdir =
     (let patchText = TrimSpace patchText0 in
      if patchText = [] then Some (Inl PatchRequired)
      else if prefix ''*** Begin Patch'' patchText then
        map_option (\<lambda>r. case r of
            Inl e \<Rightarrow> Inl (ApplyFailed (ParseFailed e))
          | Inr hunks \<Rightarrow> path_result (observedPathsForParsedHunks penv workdir hunks)) (Parse (tx_lexer tx) patchText)
      else Some (case tx_diff tx patchText of
          Inl e \<Rightarrow> Inl (ApplyFailed (DiffFailed e))
        | Inr mfd \<Rightarrow> if mfd = [] then Inl (ApplyFailed NoHunks) else path_result (observed_diff_paths penv workdir mfd)))"

definition validatePatchObservations :: "'w service_env \<Rightarrow> observed \<Rightarrow> Session \<Rightarrow> string \<Rightarrow> string \<Rightarrow> 'w \<Rightarrow> service_error option option" where
  "validatePatchObservations env obs sess patchText workdir w =
     (if obs = None then Some None
      else map_option (\<lambda>r. case r of Inl e \<Rightarrow> Some e | Inr paths \<Rightarrow> validateObservedPaths env obs sess w paths)
        (observedPathsForPatch (fs_paths (sv_fs env)) (sv_text env) patchText workdir))"

section \<open>Sessions of conversations\<close>

type_synonym Service = "(string \<times> Session) list"

definition keep_char :: "string \<Rightarrow> bool" where
  "keep_char r \<longleftrightarrow> (case r of
       [c] \<Rightarrow> (of_char c \<in> {97..122 :: nat} \<or> of_char c \<in> {65..90 :: nat} \<or> of_char c \<in> {48..57 :: nat} \<or> c = CHR ''-'' \<or> c = CHR ''_'')
     | _ \<Rightarrow> False)"

definition sanitizeID :: "string \<Rightarrow> string" where
  "sanitizeID inp =
     (let s = TrimSpace inp in
      if s = [] then ''_'' else concat (map (\<lambda>r. if keep_char r then r else ''_'') (runes s)))"

definition temp_parent :: "'w service_env \<Rightarrow> string \<Rightarrow> string" where
  "temp_parent env convID =
     (let base = (if sv_tempBase env = [] then ''/tmp'' else sv_tempBase env) in
      sv_join env (''file'' @ scheme_sep @ [slash] @ dropWhile (\<lambda>c. c = slash) base) [''agently'', sanitizeID convID])"

definition session_dir :: "'w service_env \<Rightarrow> string \<Rightarrow> 'w \<Rightarrow> string" where
  "session_dir env convID w = sv_join env (temp_parent env convID) [''onpatch-'' @ sv_uuid env w]"

definition NewSessionFor :: "'w service_env \<Rightarrow> string \<Rightarrow> 'w \<Rightarrow> (string + Session) \<times> 'w" where
  "NewSessionFor env convID w =
     (case fs_Create (sv_fs env) (temp_parent env convID) w of
        (Some e, w1) \<Rightarrow> (Inl e, w1)
      | (None, w1) \<Rightarrow>
          let tmp = session_dir env convID w1 in
          (case fs_Create (sv_fs env) tmp w1 of
             (Some e, w2) \<Rightarrow> (Inl e, w2)
           | (None, w2) \<Rightarrow> (Inr (new_session tmp), w2)))"

definition conv_key :: "string \<Rightarrow> string" where
  "conv_key convID = (if convID = [] then ''_global'' else convID)"

definition sessionForContext :: "'w service_env \<Rightarrow> string \<Rightarrow> Service \<Rightarrow> 'w \<Rightarrow> (service_error + Session) \<times> Service \<times> 'w" where
  "sessionForContext env convID0 sv w =
     (let convID = conv_key convID0 in
      case map_of sv convID of
        Some sess \<Rightarrow> (Inr sess, sv, w)
      | None \<Rightarrow>
          (case NewSessionFor env convID w of
             (Inl e, w1) \<Rightarrow> (Inl (NoSession e), sv, w1)
           | (Inr sess, w1) \<Rightarrow> (Inr sess, AList.update convID sess sv, w1)))"

section \<open>Methods\<close>

record ApplyInput =
  ai_Patch :: string
  ai_Workdir :: string

record ApplyOutput =
  ao_Changes :: "Change list"
  ao_Stats :: DiffStats
  ao_Status :: string
  ao_Error :: "service_error option"

record ReplaceInput =
  ri_Workdir :: string
  ri_Path :: string
  ri_Old :: string
  ri_New :: string
  ri_ReplaceAll :: bool
  ri_ExpectedOccurrences :: int

record ReplaceOutput =
  ro_Path :: string
  ro_Replacements :: int
  ro_Stats :: DiffStats
  ro_Status :: string
  ro_Error :: "service_error option"

definition no_stats :: DiffStats where "no_stats = \<lparr>Added = 0, Removed = 0\<rparr>"

text \<open>\<open>patchStats\<close> counts as \<open>GenerateDiff\<close> does.\<close>

definition patchStats :: "string \<Rightarrow> DiffStats" where
  "patchStats p = count_lines p"

text \<open>The session of a conversation after an operation on it.\<close>

definition store :: "string \<Rightarrow> Session \<Rightarrow> Service \<Rightarrow> Service" where
  "store convID s sv = AList.update (conv_key convID) s sv"

definition applyPatch :: "'w service_env \<Rightarrow> observed \<Rightarrow> string \<Rightarrow> ApplyInput \<Rightarrow> Service \<Rightarrow> 'w \<Rightarrow>
    (service_error + Change list \<times> DiffStats) option \<times> Service \<times> 'w" where
  "applyPatch env obs convID input sv w =
     (if TrimSpace (ai_Workdir input) = [] then (Some (Inl WorkdirRequired), sv, w)
      else case sessionForContext env convID sv w of
        (Inl e, sv1, w1) \<Rightarrow> (Some (Inl e), sv1, w1)
      | (Inr sess, sv1, w1) \<Rightarrow>
          (case validatePatchObservations env obs sess (ai_Patch input) (ai_Workdir input) w1 of
             None \<Rightarrow> (None, sv1, w1)
           | Some (Some e) \<Rightarrow> (Some (Inl e), sv1, w1)
           | Some None \<Rightarrow>
               (case ApplyPatch (sv_fs env) (sv_text env) (ai_Patch input) (ai_Workdir input) sess w1 of
                  None \<Rightarrow> (None, sv1, w1)
                | Some (Some e, s2, w2) \<Rightarrow> (Some (Inl (ApplyFailed e)), store convID s2 sv1, w2)
                | Some (None, s2, w2) \<Rightarrow> (Some (Inr (Snapshot s2, patchStats (ai_Patch input))), store convID s2 sv1, w2))))"

text \<open>The output of a method; \<open>None\<close> when the parser does not return.\<close>

definition apply_method :: "'w service_env \<Rightarrow> observed \<Rightarrow> string \<Rightarrow> ApplyInput \<Rightarrow> Service \<Rightarrow> 'w \<Rightarrow> ApplyOutput option \<times> Service \<times> 'w" where
  "apply_method env obs convID input sv w =
     (case applyPatch env obs convID input sv w of (r, sv1, w1) \<Rightarrow>
        (map_option (\<lambda>x. case x of
            Inl e \<Rightarrow> \<lparr>ao_Changes = [], ao_Stats = no_stats, ao_Status = ''error'', ao_Error = Some e\<rparr>
          | Inr (changes, stats) \<Rightarrow> \<lparr>ao_Changes = changes, ao_Stats = stats, ao_Status = ''ok'', ao_Error = None\<rparr>) r, sv1, w1))"

definition replaceText :: "'w service_env \<Rightarrow> observed \<Rightarrow> string \<Rightarrow> ReplaceInput \<Rightarrow> Service \<Rightarrow> 'w \<Rightarrow>
    (service_error + string \<times> nat \<times> DiffStats) \<times> Service \<times> 'w" where
  "replaceText env obs convID input sv w =
     (if TrimSpace (ri_Workdir input) = [] then (Inl WorkdirRequired, sv, w)
      else if TrimSpace (ri_Path input) = [] then (Inl PathRequired, sv, w)
      else case resolvePath (fs_paths (sv_fs env)) (ri_Path input) (ri_Workdir input) of
        Inl e \<Rightarrow> (Inl (ApplyFailed (SessionFailed (BadPath e))), sv, w)
      | Inr path \<Rightarrow>
          (case sessionForContext env convID sv w of
             (Inl e, sv1, w1) \<Rightarrow> (Inl e, sv1, w1)
           | (Inr sess, sv1, w1) \<Rightarrow>
               (case validateObservedPaths env obs sess w1 [path] of
                  Some e \<Rightarrow> (Inl e, sv1, w1)
                | None \<Rightarrow>
                    (case Replace (sv_fs env) path (ri_Old input) (ri_New input) (ri_ReplaceAll input) (ri_ExpectedOccurrences input) sess w1 of
                       (Inl e, s2, w2) \<Rightarrow> (Inl (ApplyFailed (SessionFailed e)), store convID s2 sv1, w2)
                     | (Inr (n, stats), s2, w2) \<Rightarrow> (Inr (path, n, stats), store convID s2 sv1, w2)))))"

definition replace_method :: "'w service_env \<Rightarrow> observed \<Rightarrow> string \<Rightarrow> ReplaceInput \<Rightarrow> Service \<Rightarrow> 'w \<Rightarrow> ReplaceOutput \<times> Service \<times> 'w" where
  "replace_method env obs convID input sv w =
     (case replaceText env obs convID input sv w of
        (Inl e, sv1, w1) \<Rightarrow>
          (\<lparr>ro_Path = [], ro_Replacements = 0, ro_Stats = no_stats, ro_Status = ''error'', ro_Error = Some e\<rparr>, sv1, w1)
      | (Inr (path, n, stats), sv1, w1) \<Rightarrow>
          (\<lparr>ro_Path = path, ro_Replacements = int n, ro_Stats = stats, ro_Status = ''ok'', ro_Error = None\<rparr>, sv1, w1))"

text \<open>\<open>commit\<close> and \<open>rollback\<close> drop the session, with an error or without.\<close>

definition end_session :: "'w session_op \<Rightarrow> string \<Rightarrow> Service \<Rightarrow> 'w \<Rightarrow> session_error option \<times> Service \<times> 'w" where
  "end_session f convID sv w =
     (case map_of sv (conv_key convID) of
        None \<Rightarrow> (None, sv, w)
      | Some sess \<Rightarrow> (case f sess w of (err, s1, w1) \<Rightarrow> (err, AList.delete (conv_key convID) sv, w1)))"

definition commit_method :: "'w service_env \<Rightarrow> string \<Rightarrow> Service \<Rightarrow> 'w \<Rightarrow> session_error option \<times> Service \<times> 'w" where
  "commit_method env convID sv w = end_session (Commit (sv_fs env)) convID sv w"

definition rollback_method :: "'w service_env \<Rightarrow> string \<Rightarrow> Service \<Rightarrow> 'w \<Rightarrow> session_error option \<times> Service \<times> 'w" where
  "rollback_method env convID sv w = end_session (Rollback (sv_fs env)) convID sv w"

definition diff_method :: "'w service_env \<Rightarrow> string \<Rightarrow> string \<Rightarrow> string \<Rightarrow> int \<Rightarrow> string + string \<times> DiffStats" where
  "diff_method env old new path contextLines = GenerateDiff (sv_fs env) old new path contextLines"

record SnapshotChange =
  sc_Kind :: string
  sc_OrigURL :: string
  sc_URL :: string
  sc_HasPrevious :: bool

record SnapshotOutput =
  so_Changes :: "SnapshotChange list"
  so_Status :: string

definition snapshot_method :: "string \<Rightarrow> Service \<Rightarrow> SnapshotOutput" where
  "snapshot_method convID sv =
     (case map_of sv (conv_key convID) of
        None \<Rightarrow> \<lparr>so_Changes = [], so_Status = ''noFound''\<rparr>
      | Some sess \<Rightarrow>
          let changes = Snapshot sess in
          \<lparr>so_Changes = map (\<lambda>c. \<lparr>sc_Kind = ch_Kind c, sc_OrigURL = ch_OrigURL c, sc_URL = ch_URL c,
              sc_HasPrevious = (ch_Kind c \<noteq> create \<and> ch_OrigURL c \<noteq> [])\<rparr>) changes,
           so_Status = (if changes = [] then ''noFound'' else ''ok'')\<rparr>)"

datatype preview_result = NoPreview | PreviewError session_error | Previewed PreviewOutput

definition preview_method :: "'w service_env \<Rightarrow> string \<Rightarrow> string \<Rightarrow> Service \<Rightarrow> 'w \<Rightarrow> preview_result" where
  "preview_method env convID url sv w =
     (case map_of sv (conv_key convID) of
        None \<Rightarrow> NoPreview
      | Some sess \<Rightarrow>
          (case Preview (sv_fs env) (TrimSpace url) sess w of Inl e \<Rightarrow> PreviewError e | Inr p \<Rightarrow> Previewed p))"

section \<open>No edit of a file that was not read\<close>

text \<open>The contract of the file service holds for every directory a session may get; \<open>temp\<close> covers them all.\<close>

definition service_ok :: "'w service_env \<Rightarrow> ('w \<Rightarrow> string \<Rightarrow> string option) \<Rightarrow> (string \<Rightarrow> bool) \<Rightarrow> bool" where
  "service_ok env files temp \<longleftrightarrow> (\<forall>convID w. fs_ok (sv_fs env) files (session_dir env convID w) temp)"

definition sessions_ok :: "'w service_env \<Rightarrow> ('w \<Rightarrow> string \<Rightarrow> string option) \<Rightarrow> (string \<Rightarrow> bool) \<Rightarrow> Service \<Rightarrow> bool" where
  "sessions_ok env files temp sv \<longleftrightarrow> (\<forall>s \<in> snd ` set sv. fs_ok (sv_fs env) files (ss_tempDir s) temp)"

lemma sessionForContext_ok:
  assumes ok: "service_ok env files temp" "sessions_ok env files temp sv"
    and run: "sessionForContext env convID sv w = (r, sv1, w1)"
  shows "files w1 = files w \<and> (\<forall>s. r = Inr s \<longrightarrow> fs_ok (sv_fs env) files (ss_tempDir s) temp \<and>
    (map_of sv (conv_key convID) = Some s \<or> map_of sv (conv_key convID) = None \<and> ss_byCurrent s = []))"
proof (cases "map_of sv (conv_key convID)")
  case (Some s)
  then have "s \<in> snd ` set sv" by (force dest: map_of_SomeD)
  with ok(2) run Some show ?thesis by (auto simp: sessionForContext_def Let_def sessions_ok_def)
next
  case None
  have create: "fs_Create (sv_fs env) p w = (e, w') \<Longrightarrow> files w' = files w" for p w e w'
    using ok(1) fs_okD(10) by (fastforce simp: service_ok_def)
  show ?thesis
    using run None ok(1) create
    by (auto simp: sessionForContext_def NewSessionFor_def Let_def new_session_def service_ok_def split: prod.splits option.splits sum.splits)
qed

lemma and_path_Inr:
  "and_path penv path dir rest = Inr ps \<longleftrightarrow> (\<exists>p qs. resolvePath penv path dir = Inr p \<and> rest = Inr qs \<and> ps = p # qs)"
  by (cases rest) (auto simp: and_path_def split: sum.split)

lemma resolved_single: "resolvePath penv path dir = Inr p \<Longrightarrow> resolved penv dir path = {p}"
  by (auto simp: resolved_def)

lemma observed_hunks: "observedPathsForParsedHunks penv dir hs = Inr paths \<Longrightarrow> set paths = (\<Union>h \<in> set hs. sources penv dir h)"
  by (induction penv dir hs arbitrary: paths rule: observedPathsForParsedHunks.induct) (auto simp: and_path_Inr resolved_single)

lemma observed_diffs: "observed_diff_paths penv dir fds = Inr paths \<Longrightarrow> set paths = (\<Union>fd \<in> set fds. file_sources penv dir fd)"
  by (induction penv dir fds arbitrary: paths rule: observed_diff_paths.induct)
    (auto simp: and_path_Inr resolved_single file_sources_def split: if_splits)

lemma path_result_Inr: "path_result r = Inr ps \<longleftrightarrow> r = Inr ps"
  by (cases r) (simp_all add: path_result_def)

lemma observed_patch:
  assumes "observedPathsForPatch penv tx text dir = Some (Inr paths)"
  shows "set paths = patch_sources penv tx text dir"
proof (cases "prefix ''*** Begin Patch'' (TrimSpace text)")
  case True
  then obtain r where r: "Parse (tx_lexer tx) (TrimSpace text) = Some r"
    using assms by (auto simp: observedPathsForPatch_def Let_def split: if_splits)
  with True assms obtain hs where "r = Inr hs" "observedPathsForParsedHunks penv dir hs = Inr paths"
    by (cases r) (auto simp: observedPathsForPatch_def Let_def path_result_Inr split: if_splits)
  with True r observed_hunks show ?thesis by (simp add: patch_sources_def parsed_def diffs_def)
next
  case False
  with assms obtain fds where "tx_diff tx (TrimSpace text) = Inr fds" "observed_diff_paths penv dir fds = Inr paths"
    by (cases "tx_diff tx (TrimSpace text)") (auto simp: observedPathsForPatch_def Let_def path_result_Inr split: if_splits)
  with False observed_diffs show ?thesis by (simp add: patch_sources_def parsed_def diffs_def)
qed

text \<open>The content of a file is the one that was read.\<close>

definition has_read :: "'w service_env \<Rightarrow> (string \<times> Record) list \<Rightarrow> string \<Rightarrow> string \<Rightarrow> bool" where
  "has_read env records q d \<longleftrightarrow> (\<exists>r. map_of records (CanonicalURI (fs_paths (sv_fs env)) q) = Some r \<and>
     rd_SHA256 r = sv_sha env d \<and> rd_Size r = int (length d))"

definition permitted :: "'w service_env \<Rightarrow> ('w \<Rightarrow> string \<Rightarrow> string option) \<Rightarrow> (string \<times> Record) list \<Rightarrow> Session \<Rightarrow> 'w \<Rightarrow> string \<Rightarrow> bool" where
  "permitted env files records s w q \<longleftrightarrow> HasCreatedChange s q \<or> (\<exists>d. files w q = Some d \<and> has_read env records q d)"

lemma VerifyCurrent_read: "VerifyCurrent env (Some records) q d w = None \<Longrightarrow> has_read env records q d"
  by (auto simp: VerifyCurrent_def has_read_def MetadataFor_def Let_def split: if_splits option.splits)

lemma validate_paths_permit:
  assumes ok: "fs_ok (sv_fs env) files tempDir temp"
  shows "validate_paths env (Some records) s w seen paths = None \<Longrightarrow>
    \<forall>p \<in> set paths. TrimSpace p = p \<and> p \<noteq> [] \<and> CanonicalURI (fs_paths (sv_fs env)) p = p \<Longrightarrow>
    \<forall>p \<in> set paths. p \<in> seen \<or> permitted env files records s w p"
proof (induction paths arbitrary: seen)
  case (Cons p paths)
  let ?next = "validate_paths env (Some records) s w (insert p seen) paths"
  have p: "TrimSpace p = p" "p \<noteq> []" "CanonicalURI (fs_paths (sv_fs env)) p = p" using Cons.prems(2) by auto
  consider "p \<in> seen" "validate_paths env (Some records) s w seen paths = None"
    | "permitted env files records s w p" "?next = None"
  proof (cases "p \<in> seen")
    case True
    with Cons.prems(1) p that(1) show ?thesis by (simp add: Let_def)
  next
    case False
    show ?thesis
    proof (cases "HasCreatedChange s p")
      case True
      with False Cons.prems(1) p that(2) show ?thesis by (simp add: Let_def permitted_def)
    next
      case new: False
      then obtain d where d: "fs_Download (sv_fs env) p w = Inr d" "VerifyCurrent env (Some records) p d w = None" "?next = None"
        using False Cons.prems(1) p by (auto simp: Let_def split: sum.splits option.splits)
      have "permitted env files records s w p"
        using VerifyCurrent_read [OF d(2)] fs_okD(2) [OF ok d(1)] by (auto simp: permitted_def)
      from that(2) [OF this d(3)] show ?thesis .
    qed
  qed
  then show ?case
  proof cases
    case 1
    with Cons.IH [of seen] Cons.prems(2) show ?thesis by auto
  next
    case 2
    with Cons.IH [of "insert p seen"] Cons.prems(2) show ?thesis by auto
  qed
qed simp

lemma canonical_inside:
  assumes "q \<in> in_workdir penv dir" "TrimSpace q = q"
  shows "CanonicalURI penv q = q \<and> q \<noteq> []"
proof -
  obtain T where q: "q = render True T" "tidy T" using assms(1) by (auto simp: in_workdir_def)
  then obtain r where r: "q = slash # r" by (cases q) (auto simp: render_def)
  have "char_lower slash = slash" by code_simp
  then have "\<not> prefix (''file'' @ scheme_sep) (ToLower q)" by (simp add: r ToLower_def)
  moreover have "q \<noteq> []" by (simp add: r)
  ultimately show ?thesis using q assms(2) by (simp add: CanonicalURI_def Let_def Clean_render)
qed

lemma sources_inside: "local_workdir penv dir \<Longrightarrow> patch_sources penv tx text dir \<subseteq> in_workdir penv dir"
  using touched_inside [of penv dir]
  by (auto simp: patch_sources_def file_sources_def resolved_def dest: resolvePath_inside split: if_splits)

text \<open>What a call of \<open>apply\<close> does to the files.\<close>

lemma applyPatch_files:
  assumes ok: "service_ok env files temp" "sessions_ok env files temp sv"
    and dir: "local_workdir (fs_paths (sv_fs env)) (ai_Workdir input)"
    and temp: "\<forall>q \<in> in_workdir (fs_paths (sv_fs env)) (ai_Workdir input) \<union> {dev_null}. \<not> temp q"
    and run: "applyPatch env obs convID input sv w = (r, sv', w')" and q: "\<not> temp q" "files w' q \<noteq> files w q"
  shows "q \<in> patch_sources (fs_paths (sv_fs env)) (sv_text env) (ai_Patch input) (ai_Workdir input) \<union>
      patch_targets (fs_paths (sv_fs env)) (sv_text env) (ai_Patch input) (ai_Workdir input) \<and>
    (\<exists>s w1. files w1 = files w \<and> fs_ok (sv_fs env) files (ss_tempDir s) temp \<and>
      (map_of sv (conv_key convID) = Some s \<or> map_of sv (conv_key convID) = None \<and> ss_byCurrent s = []) \<and>
      validatePatchObservations env obs s (ai_Patch input) (ai_Workdir input) w1 = Some None)"
proof -
  let ?P = "patch_sources (fs_paths (sv_fs env)) (sv_text env) (ai_Patch input) (ai_Workdir input) \<union>
      patch_targets (fs_paths (sv_fs env)) (sv_text env) (ai_Patch input) (ai_Workdir input)"
  have ne: "TrimSpace (ai_Workdir input) \<noteq> []" using dir by (simp add: local_workdir_def)
  obtain sr sv1 w1 where sess: "sessionForContext env convID sv w = (sr, sv1, w1)" by (cases "sessionForContext env convID sv w") auto
  note start = sessionForContext_ok [OF ok sess]
  have sr: "\<exists>s. sr = Inr s" using run ne sess start q(2) by (cases sr) (auto simp: applyPatch_def)
  then obtain s where s: "sr = Inr s" by blast
  have v: "validatePatchObservations env obs s (ai_Patch input) (ai_Workdir input) w1 = Some None"
    using run ne sess s start q(2) by (auto simp: applyPatch_def split: option.splits)
  have "\<exists>x. ApplyPatch (sv_fs env) (sv_text env) (ai_Patch input) (ai_Workdir input) s w1 = Some x \<and> snd (snd x) = w'"
    using run ne sess s start q(2) v by (auto simp: applyPatch_def split: option.splits prod.splits)
  then obtain x where x: "ApplyPatch (sv_fs env) (sv_text env) (ai_Patch input) (ai_Workdir input) s w1 = Some x" "snd (snd x) = w'" by blast
  have "\<forall>q \<in> ?P. \<not> temp q" using patch_inside [OF dir] temp by blast
  from ApplyPatch_frames [OF _ this x(1)] start s have "frames files temp ?P s w1 x" by simp
  with q x(2) start have "q \<in> ?P" by (auto simp: frames_def outside_same_def)
  with start s v show ?thesis by blast
qed

section \<open>A service\<close>

definition demo_service :: "(string \<times> string) list service_env" where
  "demo_service = \<lparr>sv_fs = demo_fs, sv_text = \<lparr>tx_lexer = demo_lexer, tx_diff = (\<lambda>_. Inr [])\<rparr>, sv_sha = id, sv_tempBase = [],
     sv_join = (\<lambda>_ _. demo_temp), sv_uuid = (\<lambda>_. ''0''), sv_now = (\<lambda>_. ''now'')\<rparr>"

lemma demo_service_fields [simp]:
  "sv_fs demo_service = demo_fs" "fs_paths demo_fs = demo_path_env"
  by (simp_all add: demo_service_def demo_fs_def)

lemma demo_service_ok: "service_ok demo_service map_of (prefix demo_temp)" "sessions_ok demo_service map_of (prefix demo_temp) []"
  using demo_fs_ok by (simp_all add: service_ok_def sessions_ok_def session_dir_def demo_service_def)

lemma demo_local: "local_workdir demo_path_env ''work''"
  by code_simp

lemma demo_apart: "\<forall>q \<in> in_workdir demo_path_env ''work'' \<union> {dev_null}. \<not> prefix demo_temp q"
  by (auto simp: demo_workdir render_def demo_temp_def dev_null_def)

lemma demo_elsewhere: "''/home/y'' \<notin> in_workdir demo_path_env ''work''"
proof
  assume "''/home/y'' \<in> in_workdir demo_path_env ''work''"
  then obtain T where "''/home/y'' = render True (''home'' # ''work'' # T)" by (auto simp: demo_workdir)
  then show False by (cases T) (auto simp: render_def)
qed

definition demo_input :: "written list \<Rightarrow> ApplyInput" where
  "demo_input ws = \<lparr>ai_Patch = patch_text ws, ai_Workdir = ''work''\<rparr>"

lemma demo_input_dir [simp]: "ai_Workdir (demo_input ws) = ''work''"
  by (simp add: demo_input_def)

text \<open>C7: whatever a patch says, and wherever it fails, a call of \<open>apply\<close> whose working directory is a path of the file
  system (not a URL) changes no file outside that directory, other than the backups of the session and the null device,
  which a diff may name as its target (\<open>null_device_unresolved\<close>). The session directories lie outside the working
  directory.\<close>

theorem applyPatch_confined:
  assumes "service_ok env files temp" "sessions_ok env files temp sv" "local_workdir (fs_paths (sv_fs env)) (ai_Workdir input)"
    "\<forall>q \<in> in_workdir (fs_paths (sv_fs env)) (ai_Workdir input) \<union> {dev_null}. \<not> temp q"
    "applyPatch env obs convID input sv w = (r, sv', w')" "\<not> temp q" "q \<noteq> dev_null"
    "q \<notin> in_workdir (fs_paths (sv_fs env)) (ai_Workdir input)"
  shows "files w' q = files w q"
  using applyPatch_files [OF assms(1-6)] patch_inside [OF assms(3)] assms(7,8) by blast

theorem applyPatch_confined_witness:
  "case applyPatch demo_service None ''c'' (demo_input [Write_add ''x'' [''1''], Write_delete ''../y'']) [] [(''/home/y'', ''0'')] of (r, sv', w') \<Rightarrow>
     r = Some (Inl (ApplyFailed (SessionFailed (BadPath (ResolvesOutside ''../y'' ''work''))))) \<and>
     map_of w' ''/home/work/x'' = Some (line ''1'') \<and> map_of w' ''/home/y'' = Some ''0''"
proof -
  let ?x = "applyPatch demo_service None ''c'' (demo_input [Write_add ''x'' [''1''], Write_delete ''../y'']) [] [(''/home/y'', ''0'')]"
  obtain r sv' w' where x: "?x = (r, sv', w')" by (cases ?x) auto
  have "fst ?x = Some (Inl (ApplyFailed (SessionFailed (BadPath (ResolvesOutside ''../y'' ''work'')))))"
    "map_of (snd (snd ?x)) ''/home/work/x'' = Some (line ''1'')" by code_simp+
  moreover have "\<not> prefix demo_temp ''/home/y''" "''/home/y'' \<noteq> dev_null" by code_simp+
  then have "map_of w' ''/home/y'' = map_of [(''/home/y'', ''0'')] ''/home/y''"
    using applyPatch_confined [OF demo_service_ok _ _ x] demo_local demo_apart demo_elsewhere by simp
  ultimately show ?thesis by (simp add: x)
qed

text \<open>A new name that becomes the null device without its leading \<open>b/\<close> is not resolved, though it is no null device in
  the patch: the diff is applied to the null device itself.\<close>

lemma null_device_unresolved:
  "diff_paths demo_path_env ''work'' \<lparr>OrigName = ''a/x'', NewName = ''b//dev/null'', Hunks = []\<rparr> = Inr (''/home/work/x'', dev_null)"
  by code_simp

text \<open>C8: with a record of what was read, of the files that a patch updates, deletes or moves away a call of \<open>apply\<close> changes
  or removes only those whose present content is the one that was read last, by hash and size, or which the session
  created; any other file that changes is one that the patch adds or moves a file to. Those targets are not checked, also
  when a file is there (\<open>move_over_unread\<close>), and the names of the updated, deleted and moved files have no surrounding
  blanks (\<open>blank_name_unread\<close>).\<close>

theorem applyPatch_reads_first:
  assumes "service_ok env files temp" "sessions_ok env files temp sv" "local_workdir (fs_paths (sv_fs env)) (ai_Workdir input)"
    "\<forall>q \<in> in_workdir (fs_paths (sv_fs env)) (ai_Workdir input) \<union> {dev_null}. \<not> temp q"
    "applyPatch env (Some records) convID input sv w = (r, sv', w')" "\<not> temp q" "files w' q \<noteq> files w q"
    "\<forall>p \<in> patch_sources (fs_paths (sv_fs env)) (sv_text env) (ai_Patch input) (ai_Workdir input). TrimSpace p = p"
  shows "if q \<in> patch_sources (fs_paths (sv_fs env)) (sv_text env) (ai_Patch input) (ai_Workdir input)
    then (\<exists>s. map_of sv (conv_key convID) = Some s \<and> HasCreatedChange s q) \<or> (\<exists>d. files w q = Some d \<and> has_read env records q d)
    else q \<in> patch_targets (fs_paths (sv_fs env)) (sv_text env) (ai_Patch input) (ai_Workdir input)"
proof -
  let ?S = "patch_sources (fs_paths (sv_fs env)) (sv_text env) (ai_Patch input) (ai_Workdir input)"
  obtain s w1 where q: "q \<in> ?S \<union> patch_targets (fs_paths (sv_fs env)) (sv_text env) (ai_Patch input) (ai_Workdir input)"
    and w1: "files w1 = files w" and ok: "fs_ok (sv_fs env) files (ss_tempDir s) temp"
    and s: "map_of sv (conv_key convID) = Some s \<or> map_of sv (conv_key convID) = None \<and> ss_byCurrent s = []"
    and v: "validatePatchObservations env (Some records) s (ai_Patch input) (ai_Workdir input) w1 = Some None"
    using applyPatch_files [OF assms(1-7)] by blast
  obtain pr where pr: "observedPathsForPatch (fs_paths (sv_fs env)) (sv_text env) (ai_Patch input) (ai_Workdir input) = Some pr"
    "(case pr of Inl e \<Rightarrow> Some e | Inr paths \<Rightarrow> validateObservedPaths env (Some records) s w1 paths) = None"
    using v by (auto simp: validatePatchObservations_def)
  then obtain paths where paths: "observedPathsForPatch (fs_paths (sv_fs env)) (sv_text env) (ai_Patch input) (ai_Workdir input) = Some (Inr paths)"
      "validate_paths env (Some records) s w1 {} paths = None"
    by (cases pr) (auto simp: validateObservedPaths_def)
  have S: "set paths = ?S" by (rule observed_patch [OF paths(1)])
  have "\<forall>p \<in> set paths. TrimSpace p = p \<and> p \<noteq> [] \<and> CanonicalURI (fs_paths (sv_fs env)) p = p"
    using S assms(8) sources_inside [OF assms(3)] canonical_inside by blast
  from validate_paths_permit [OF ok paths(2) this] S
  have "q \<in> ?S \<Longrightarrow> permitted env files records s w1 q" by blast
  moreover have "HasCreatedChange s q \<Longrightarrow> ss_byCurrent s \<noteq> []" by (auto simp: HasCreatedChange_def current_def)
  ultimately show ?thesis using q s w1 by (auto simp: permitted_def)
qed

definition demo_records :: "(string \<times> Record) list" where
  "demo_records = the (snd (RecordRead demo_service ''/home/work/a'' ''1'' True [] (Some [])))"

theorem applyPatch_reads_first_witness:
  "(let (r, sv', w') = applyPatch demo_service (Some []) ''c'' (demo_input [Write_delete ''a'']) [] [(''/home/work/a'', ''1'')] in
     r = Some (Inl NotRead) \<and> map_of w' ''/home/work/a'' = Some ''1'') \<and>
   (let (r, sv', w') = applyPatch demo_service (Some demo_records) ''c'' (demo_input [Write_delete ''a'']) [] [(''/home/work/a'', ''1'')] in
     map_of w' ''/home/work/a'' = None) \<and> (\<exists>d. has_read demo_service demo_records ''/home/work/a'' d)"
proof -
  let ?w = "[(''/home/work/a'', ''1'')]"
  let ?q = "''/home/work/a''"
  let ?x = "applyPatch demo_service (Some demo_records) ''c'' (demo_input [Write_delete ''a'']) [] ?w"
  obtain r sv' w' where x: "?x = (r, sv', w')" by (cases ?x) auto
  have "parsed (sv_text demo_service) (ai_Patch (demo_input [Write_delete ''a''])) = [DeleteFile ''a'']"
    "diffs (sv_text demo_service) (ai_Patch (demo_input [Write_delete ''a''])) = []"
    "resolvePath demo_path_env ''a'' ''work'' = Inr ?q" by code_simp+
  then have S: "patch_sources demo_path_env (sv_text demo_service) (ai_Patch (demo_input [Write_delete ''a''])) ''work'' = {?q}"
    by (simp add: patch_sources_def resolved_single)
  have gone: "map_of (snd (snd ?x)) ?q = None" by code_simp
  then have changed: "map_of w' ?q \<noteq> map_of ?w ?q" by (simp add: x)
  have side: "\<not> prefix demo_temp ?q" "TrimSpace ?q = ?q" by code_simp+
  have "\<exists>d. map_of ?w ?q = Some d \<and> has_read demo_service demo_records ?q d"
    using applyPatch_reads_first [where files = map_of and temp = "prefix demo_temp" and q = ?q and w = ?w,
        OF demo_service_ok _ _ x side(1) changed] demo_local demo_apart S side(2) by simp
  moreover have "let (r, sv', w') = applyPatch demo_service (Some []) ''c'' (demo_input [Write_delete ''a'']) [] ?w in
     r = Some (Inl NotRead) \<and> map_of w' ?q = Some ''1''" by code_simp
  ultimately show ?thesis using gone x by auto
qed

section \<open>What the check does not see\<close>

text \<open>A move onto a file that was never read replaces it.\<close>

lemma move_over_unread:
  "case applyPatch demo_service (Some demo_records) ''c'' (demo_input [Write_update ''a'' ''b'' []]) []
      [(''/home/work/a'', ''1''), (''/home/work/b'', ''2'')] of (r, sv', w') \<Rightarrow>
     map_of w' ''/home/work/b'' = Some ''1'' \<and> (\<forall>d \<in> set (map fst demo_records). d \<noteq> ''/home/work/b'')"
  by code_simp

text \<open>The check trims the names of files, the patch does not: with a name that ends with a blank the file beside it is checked.\<close>

lemma blank_name_unread:
  "case applyPatch demo_service (Some demo_records) ''c'' (demo_input [Write_delete ''a /.'']) []
      [(''/home/work/a'', ''1''), (''/home/work/a '', ''2'')] of (r, sv', w') \<Rightarrow>
     map_of w' ''/home/work/a '' = None \<and> map_of w' ''/home/work/a'' = Some ''1''"
  by code_simp

text \<open>A patch that moves a file that does not exist succeeds and does nothing.\<close>

lemma missing_move_succeeds:
  "case applyPatch demo_service None ''c'' (demo_input [Write_update ''a'' ''b'' []]) [] [] of (r, sv', w') \<Rightarrow>
     r = Some (Inr ([], no_stats)) \<and> w' = []"
  by code_simp

end
