(* ===== verification/Supersession.thy ===== *)
theory Supersession
  imports GoValue
begin

text \<open>
  What of a conversation's history a prompt shows: \<open>service/agent/supersession.go\<close> hides the results of
  cacheable tool calls that newer calls with the same arguments replace, \<open>runtime/projection/context.go\<close>
  carries such decisions, and the part of \<open>service/agent/binding_history.go\<close> that combines them.

  Parameters (\<open>history_env\<close>): MD5, the JSON codec, the decompression of inline bodies (empty when it fails), and the tool registry, by
  the \<open>Cacheable\<close> flag of a tool's definition. A message has the fields that are read here; the generated
  view of a tool call is kept with the fields that are copied and read.
\<close>

section \<open>Messages\<close>

record Payload =
  pl_InlineBody :: "string option"
  pl_Compression :: string

record ToolCallView =
  tc_ToolName :: string
  tc_TraceId :: "string option"
  tc_RequestPayload :: "Payload option"
  tc_ResponsePayload :: "Payload option"

record Message =
  mg_Id :: string
  mg_TurnId :: "string option"
  mg_Role :: string
  mg_Type :: string
  mg_Content :: "string option"
  mg_RawContent :: "string option"
  mg_MessageToolCall :: "ToolCallView option"
  mg_ToolMessage :: "ToolCallView option option list"

record normalizedMsg =
  nm_turnIdx :: int
  nm_msg :: "Message option"

record history_env =
  he_md5 :: "string \<Rightarrow> string"
  he_marshal :: "gmap \<Rightarrow> string option"
  he_unmarshal :: "string \<Rightarrow> gmap option"
  he_gunzip :: "string \<Rightarrow> string"
  he_registry :: "(string \<Rightarrow> bool option) option"

text \<open>The first tool call of a message: \<open>messageToolCall\<close> and the method \<open>firstToolCall\<close> agree.\<close>

fun first_call :: "ToolCallView option option list \<Rightarrow> ToolCallView option" where
  "first_call [] = None"
| "first_call (Some (Some tc) # tms) = Some tc"
| "first_call (Some None # tms) = first_call tms"
| "first_call (None # tms) = first_call tms"

definition messageToolCall :: "Message option \<Rightarrow> ToolCallView option" where
  "messageToolCall msg =
     (case msg of None \<Rightarrow> None
      | Some m \<Rightarrow> (case mg_MessageToolCall m of Some tc \<Rightarrow> Some tc | None \<Rightarrow> first_call (mg_ToolMessage m)))"

definition isConcreteToolResultMessage :: "Message option \<Rightarrow> bool" where
  "isConcreteToolResultMessage msg =
     (case msg of None \<Rightarrow> False
      | Some m \<Rightarrow> ToLower (TrimSpace (mg_Role m)) = ''tool'' \<or> ToLower (TrimSpace (mg_Type m)) = ''tool_op'')"

definition DecodeInlineBody :: "history_env \<Rightarrow> string \<Rightarrow> string \<Rightarrow> string" where
  "DecodeInlineBody env inline compression =
     (if inline = [] then []
      else if \<not> EqualFold (TrimSpace compression) ''gzip'' then inline
      else he_gunzip env inline)"

definition inline_body :: "history_env \<Rightarrow> Payload option \<Rightarrow> string option" where
  "inline_body env p =
     (case p of None \<Rightarrow> None | Some pl \<Rightarrow> map_option (\<lambda>b. DecodeInlineBody env b (pl_Compression pl)) (pl_InlineBody pl))"

definition GetContent :: "history_env \<Rightarrow> Message option \<Rightarrow> string" where
  "GetContent env msg =
     (case msg of None \<Rightarrow> []
      | Some m \<Rightarrow>
          (case Option.bind (messageToolCall msg) (\<lambda>tc. inline_body env (tc_ResponsePayload tc)) of
             Some body \<Rightarrow> body
           | None \<Rightarrow>
               (case mg_RawContent m of
                  Some raw \<Rightarrow> if TrimSpace raw \<noteq> [] then raw else (case mg_Content m of Some c \<Rightarrow> c | None \<Rightarrow> [])
                | None \<Rightarrow> (case mg_Content m of Some c \<Rightarrow> c | None \<Rightarrow> []))))"

definition ToolCallArguments :: "history_env \<Rightarrow> Message option \<Rightarrow> gmap" where
  "ToolCallArguments env msg =
     (case Option.bind (messageToolCall msg) (\<lambda>tc. inline_body env (tc_RequestPayload tc)) of
        None \<Rightarrow> Some []
      | Some body \<Rightarrow>
          let raw = TrimSpace body in
          if raw = [] then Some []
          else (case he_unmarshal env raw of Some parsed \<Rightarrow> parsed | None \<Rightarrow> Some []))"

section \<open>Keys\<close>

primrec sorted_value :: "gval \<Rightarrow> gval" where
  "sorted_value VNil = VNil"
| "sorted_value (VBool b) = VBool b"
| "sorted_value (VInt i) = VInt i"
| "sorted_value (VFloat w) = VFloat w"
| "sorted_value (VString s) = VString s"
| "sorted_value (VNumber s) = VNumber s"
| "sorted_value (VRaw s) = VRaw s"
| "sorted_value (VList xs) = VList (map id xs)"
| "sorted_value (VMap m) = VMap (case map_option (map (map_prod id sorted_value)) m of None \<Rightarrow> Some [] | Some kvs \<Rightarrow> Some kvs)"

definition sortedMapJSON :: "gmap \<Rightarrow> gmap" where
  "sortedMapJSON m = Some (case m of None \<Rightarrow> [] | Some kvs \<Rightarrow> map (map_prod id sorted_value) kvs)"

definition canonicalArgsJSON :: "history_env \<Rightarrow> gmap \<Rightarrow> string" where
  "canonicalArgsJSON env args =
     (if gmap_len args = 0 then ''{}''
      else case he_marshal env (sortedMapJSON args) of None \<Rightarrow> ''{}'' | Some data \<Rightarrow> data)"

definition supersessionKey :: "history_env \<Rightarrow> string \<Rightarrow> gmap \<Rightarrow> string" where
  "supersessionKey env toolName args = he_md5 env (TrimSpace toolName @ ''|'' @ canonicalArgsJSON env args)"

definition isToolCacheable :: "history_env \<Rightarrow> string \<Rightarrow> bool" where
  "isToolCacheable env toolName =
     (case he_registry env of None \<Rightarrow> False
      | Some reg \<Rightarrow> (case reg toolName of None \<Rightarrow> False | Some cacheable \<Rightarrow> cacheable))"

section \<open>Settings\<close>

record SupersessionLimit =
  sl_History :: "int option"
  sl_Turn :: "int option"

record ToolCallSupersession =
  ts_Enabled :: "bool option"
  ts_Limit :: "SupersessionLimit option"

text \<open>\<open>*config.Projection\<close>, by its field \<open>ToolCallSupersession\<close>.\<close>

type_synonym Projection = "ToolCallSupersession option option"

definition settings :: "Projection \<Rightarrow> ToolCallSupersession option" where
  "settings p = (case p of None \<Rightarrow> None | Some t \<Rightarrow> t)"

definition IsSupersessionEnabled :: "Projection \<Rightarrow> bool" where
  "IsSupersessionEnabled p =
     (case settings p of None \<Rightarrow> True | Some t \<Rightarrow> (case ts_Enabled t of Some b \<Rightarrow> b | None \<Rightarrow> True))"

definition SupersessionHistoryLimit :: "Projection \<Rightarrow> int" where
  "SupersessionHistoryLimit p =
     (case Option.bind (settings p) ts_Limit of None \<Rightarrow> 1 | Some l \<Rightarrow> (case sl_History l of None \<Rightarrow> 1 | Some n \<Rightarrow> n))"

definition SupersessionTurnLimit :: "Projection \<Rightarrow> int" where
  "SupersessionTurnLimit p =
     (case Option.bind (settings p) ts_Limit of None \<Rightarrow> 2 | Some l \<Rightarrow> (case sl_Turn l of None \<Rightarrow> 2 | Some n \<Rightarrow> n))"

section \<open>Superseded calls\<close>

record keyEntry =
  ke_idx :: nat
  ke_key :: string

definition entry_key :: "history_env \<Rightarrow> normalizedMsg \<Rightarrow> string option" where
  "entry_key env item =
     (case messageToolCall (nm_msg item) of
        None \<Rightarrow> None
      | Some tc \<Rightarrow>
          let toolName = TrimSpace (tc_ToolName tc) in
          if toolName = [] then None
          else if \<not> isToolCacheable env toolName then None
          else Some (supersessionKey env toolName (ToolCallArguments env (nm_msg item))))"

text \<open>The loop over the messages: \<open>(historyEntries, turnEntries)\<close>.\<close>

fun collect_entries :: "history_env \<Rightarrow> int \<Rightarrow> nat \<Rightarrow> normalizedMsg list \<Rightarrow> keyEntry list \<times> keyEntry list \<Rightarrow> keyEntry list \<times> keyEntry list" where
  "collect_entries env cur i [] acc = acc"
| "collect_entries env cur i (item # items) (hist, turn) =
     (case entry_key env item of
        None \<Rightarrow> collect_entries env cur (Suc i) items (hist, turn)
      | Some key \<Rightarrow>
          let entry = \<lparr>ke_idx = i, ke_key = key\<rparr> in
          if nm_turnIdx item = cur then collect_entries env cur (Suc i) items (hist, turn @ [entry])
          else collect_entries env cur (Suc i) items (hist @ [entry], turn))"

fun group_from :: "(string \<times> keyEntry list) list \<Rightarrow> keyEntry list \<Rightarrow> (string \<times> keyEntry list) list" where
  "group_from m [] = m"
| "group_from m (e # es) =
     group_from (AList.update (ke_key e) ((case map_of m (ke_key e) of None \<Rightarrow> [] | Some xs \<Rightarrow> xs) @ [e]) m) es"

definition groupByKey :: "keyEntry list \<Rightarrow> (string \<times> keyEntry list) list" where
  "groupByKey entries = group_from [] entries"

text \<open>The entries of one key that go: all but the last \<open>limit\<close>. A negative limit slices beyond the length, which
  is outside the model: \<open>None\<close>.\<close>

definition superseded :: "int \<Rightarrow> keyEntry list \<Rightarrow> nat list option" where
  "superseded limit entries =
     (if int (length entries) \<le> limit then Some []
      else let cutoff = int (length entries) - limit in
        if cutoff > int (length entries) then None
        else Some (map ke_idx (take (nat cutoff) (sort_key ke_idx entries))))"

fun superseded_all :: "int \<Rightarrow> (string \<times> keyEntry list) list \<Rightarrow> nat list option" where
  "superseded_all limit [] = Some []"
| "superseded_all limit ((k, es) # groups) =
     (case superseded limit es of None \<Rightarrow> None
      | Some xs \<Rightarrow> map_option (\<lambda>ys. xs @ ys) (superseded_all limit groups))"

definition collectToolCallSupersessionSuppressedIndices :: "history_env \<Rightarrow> normalizedMsg list \<Rightarrow> int \<Rightarrow> Projection \<Rightarrow> nat list option" where
  "collectToolCallSupersessionSuppressedIndices env normalized cur projection =
     (if \<not> IsSupersessionEnabled projection then Some []
      else case collect_entries env cur 0 normalized ([], []) of (hist, turn) \<Rightarrow>
        (case superseded_all (SupersessionHistoryLimit projection) (groupByKey hist) of
           None \<Rightarrow> None
         | Some xs \<Rightarrow>
             map_option (\<lambda>ys. xs @ ys) (superseded_all (SupersessionTurnLimit projection) (groupByKey turn))))"

definition estimateProjectionTokens :: "history_env \<Rightarrow> Message option \<Rightarrow> int" where
  "estimateProjectionTokens env msg =
     (let t = TrimSpace (GetContent env msg) in
      if Option.is_none msg \<or> t = [] then 0 else if length t < 8 then 1 else (int (length t) + 3) div 4)"

definition msg_id :: "normalizedMsg \<Rightarrow> string" where
  "msg_id item = (case nm_msg item of None \<Rightarrow> [] | Some m \<Rightarrow> TrimSpace (mg_Id m))"

fun hide_loop :: "history_env \<Rightarrow> nat list \<Rightarrow> nat list \<Rightarrow> nat \<Rightarrow> normalizedMsg list \<Rightarrow> string list \<times> int" where
  "hide_loop env suppress protected i [] = ([], 0)"
| "hide_loop env suppress protected i (item # items) =
     (case hide_loop env suppress protected (Suc i) items of (hidden, freed) \<Rightarrow>
        if i \<notin> set suppress \<or> i \<in> set protected \<or> msg_id item = [] then (hidden, freed)
        else (msg_id item # hidden, estimateProjectionTokens env (nm_msg item) + freed))"

definition collectToolCallSupersessionHiddenMessageIDsProtected ::
    "history_env \<Rightarrow> normalizedMsg list \<Rightarrow> int \<Rightarrow> Projection \<Rightarrow> nat list \<Rightarrow> (string list \<times> int) option" where
  "collectToolCallSupersessionHiddenMessageIDsProtected env normalized cur projection protected =
     map_option (\<lambda>suppress. if suppress = [] then ([], 0) else hide_loop env suppress protected 0 normalized)
       (collectToolCallSupersessionSuppressedIndices env normalized cur projection)"

definition anchored :: "string \<Rightarrow> normalizedMsg \<Rightarrow> bool" where
  "anchored anchorID item \<longleftrightarrow> nm_msg item \<noteq> None \<and> isConcreteToolResultMessage (nm_msg item) \<and>
     (case messageToolCall (nm_msg item) of None \<Rightarrow> False
      | Some tc \<Rightarrow> (case tc_TraceId tc of None \<Rightarrow> False | Some t \<Rightarrow> TrimSpace t = anchorID))"

definition protectedContinuationToolResultIndices :: "normalizedMsg list \<Rightarrow> string \<Rightarrow> nat list" where
  "protectedContinuationToolResultIndices normalized anchorID0 =
     (let anchorID = TrimSpace anchorID0 in
      if anchorID = [] then [] else filter (\<lambda>i. anchored anchorID (normalized ! i)) [0..<length normalized])"

definition applyToolCallSupersession :: "history_env \<Rightarrow> normalizedMsg list \<Rightarrow> int \<Rightarrow> Projection \<Rightarrow> normalizedMsg list option" where
  "applyToolCallSupersession env normalized cur projection =
     map_option (\<lambda>suppress. if suppress = [] then normalized
         else map (\<lambda>i. normalized ! i) (filter (\<lambda>i. i \<notin> set suppress) [0..<length normalized]))
       (collectToolCallSupersessionSuppressedIndices env normalized cur projection)"

section \<open>Projections\<close>

record ContextProjection =
  cp_Scope :: string
  cp_HiddenTurnIDs :: "string list"
  cp_HiddenMessageIDs :: "string list"
  cp_Reason :: string
  cp_TokensFreed :: int

fun append_unique :: "string set \<Rightarrow> string list \<Rightarrow> string list \<Rightarrow> string list" where
  "append_unique seen dst [] = dst"
| "append_unique seen dst (raw # vs) =
     (let key = TrimSpace raw in
      if key = [] \<or> key \<in> seen then append_unique seen dst vs
      else append_unique (insert key seen) (dst @ [key]) vs)"

definition appendUniqueStrings :: "string list \<Rightarrow> string list \<Rightarrow> string list" where
  "appendUniqueStrings dst vs =
     (if vs = [] then dst else append_unique (set (filter (\<lambda>k. k \<noteq> []) (map TrimSpace dst))) dst vs)"

definition appendUniqueProjectionIDs :: "string list \<Rightarrow> string list \<Rightarrow> string list" where
  "appendUniqueProjectionIDs dst vs = append_unique (set (filter (\<lambda>k. k \<noteq> []) (map TrimSpace dst))) dst vs"

text \<open>The methods of \<open>*ProjectionState\<close>; the state of a nil receiver does not change.\<close>

definition SetScope :: "string \<Rightarrow> ContextProjection \<Rightarrow> ContextProjection" where
  "SetScope scope v = v\<lparr>cp_Scope := TrimSpace scope\<rparr>"

definition HideTurns :: "string list \<Rightarrow> ContextProjection \<Rightarrow> ContextProjection" where
  "HideTurns turnIDs v = (if turnIDs = [] then v else v\<lparr>cp_HiddenTurnIDs := appendUniqueStrings (cp_HiddenTurnIDs v) turnIDs\<rparr>)"

definition HideMessages :: "string list \<Rightarrow> ContextProjection \<Rightarrow> ContextProjection" where
  "HideMessages messageIDs v =
     (if messageIDs = [] then v else v\<lparr>cp_HiddenMessageIDs := appendUniqueStrings (cp_HiddenMessageIDs v) messageIDs\<rparr>)"

definition SetReason :: "string \<Rightarrow> ContextProjection \<Rightarrow> ContextProjection" where
  "SetReason reason v = (if TrimSpace reason = [] then v else v\<lparr>cp_Reason := TrimSpace reason\<rparr>)"

definition AddReason :: "string \<Rightarrow> ContextProjection \<Rightarrow> ContextProjection" where
  "AddReason reason0 v =
     (let reason = TrimSpace reason0; existing = TrimSpace (cp_Reason v) in
      if reason = [] then v
      else if existing = [] then v\<lparr>cp_Reason := reason\<rparr>
      else if EqualFold existing reason then v
      else if contains existing reason then v
      else v\<lparr>cp_Reason := existing @ ''; '' @ reason\<rparr>)"

definition AddTokensFreed :: "int \<Rightarrow> ContextProjection \<Rightarrow> ContextProjection" where
  "AddTokensFreed tokens v = (if tokens = 0 then v else v\<lparr>cp_TokensFreed := wrap64 (cp_TokensFreed v + tokens)\<rparr>)"

definition hidden_set :: "string list \<Rightarrow> string set" where
  "hidden_set ids = set (filter (\<lambda>k. k \<noteq> []) (map TrimSpace ids))"

definition turn_id :: "Message \<Rightarrow> string" where
  "turn_id m = (case mg_TurnId m of None \<Rightarrow> [] | Some t \<Rightarrow> TrimSpace t)"

definition projected_out :: "ContextProjection \<Rightarrow> normalizedMsg \<Rightarrow> bool" where
  "projected_out projection item =
     (case nm_msg item of
        None \<Rightarrow> True
      | Some m \<Rightarrow>
          turn_id m \<noteq> [] \<and> turn_id m \<in> hidden_set (cp_HiddenTurnIDs projection) \<or>
          TrimSpace (mg_Id m) \<noteq> [] \<and> TrimSpace (mg_Id m) \<in> hidden_set (cp_HiddenMessageIDs projection))"

definition applyProjectionToNormalized :: "normalizedMsg list \<Rightarrow> ContextProjection \<Rightarrow> normalizedMsg list" where
  "applyProjectionToNormalized normalized projection =
     (if normalized = [] then normalized
      else if hidden_set (cp_HiddenTurnIDs projection) = {} \<and> hidden_set (cp_HiddenMessageIDs projection) = {} then normalized
      else filter (\<lambda>item. \<not> projected_out projection item) normalized)"

text \<open>The step of the history builder that hides superseded calls. \<open>hasState\<close>: the projection is held in the context.
  The result is the list of messages and the new projection; \<open>None\<close> as above.\<close>

definition supersession_reason :: string where "supersession_reason = ''tool call supersession''"

definition note_hidden :: "bool \<Rightarrow> string list \<Rightarrow> int \<Rightarrow> ContextProjection \<Rightarrow> ContextProjection" where
  "note_hidden hasState hidden freed projection =
     (if hasState then AddTokensFreed freed (AddReason supersession_reason (HideMessages hidden projection))
      else projection\<lparr>cp_HiddenMessageIDs := appendUniqueProjectionIDs (cp_HiddenMessageIDs projection) hidden,
        cp_Reason := (if cp_Reason projection = [] then supersession_reason
          else if \<not> contains (cp_Reason projection) supersession_reason
          then cp_Reason projection @ ''; '' @ supersession_reason else cp_Reason projection),
        cp_TokensFreed := wrap64 (cp_TokensFreed projection + freed)\<rparr>)"

definition hide_superseded :: "history_env \<Rightarrow> bool \<Rightarrow> normalizedMsg list \<Rightarrow> int \<Rightarrow> Projection option \<Rightarrow> string \<Rightarrow> ContextProjection \<Rightarrow>
    (normalizedMsg list \<times> ContextProjection) option" where
  "hide_superseded env hasState normalized currentIdx defaults activeAnchorID projection =
     (case defaults of
        None \<Rightarrow> Some (normalized, projection)
      | Some cfg \<Rightarrow>
          if Option.is_none (he_registry env) \<or> \<not> EqualFold (TrimSpace (cp_Scope projection)) ''conversation'' then Some (normalized, projection)
          else
            let protected = protectedContinuationToolResultIndices normalized activeAnchorID in
            map_option (\<lambda>(hidden, freed).
                if hidden = [] then (normalized, projection)
                else let projection1 = note_hidden hasState hidden freed projection in
                  (applyProjectionToNormalized normalized projection1, projection1))
              (collectToolCallSupersessionHiddenMessageIDsProtected env normalized currentIdx cfg protected))"

section \<open>Which calls are superseded\<close>

text \<open>The calls with the key of call \<open>i\<close> and in its scope (the current turn or the history) that come after it.\<close>

definition later_calls :: "history_env \<Rightarrow> normalizedMsg list \<Rightarrow> int \<Rightarrow> nat \<Rightarrow> nat set" where
  "later_calls env items cur i = {j. i < j \<and> j < length items \<and> entry_key env (items ! j) = entry_key env (items ! i) \<and>
     (nm_turnIdx (items ! j) = cur) = (nm_turnIdx (items ! i) = cur)}"

definition scope_limit :: "Projection \<Rightarrow> int \<Rightarrow> normalizedMsg \<Rightarrow> int" where
  "scope_limit cfg cur item = (if nm_turnIdx item = cur then SupersessionTurnLimit cfg else SupersessionHistoryLimit cfg)"

definition outdated :: "history_env \<Rightarrow> Projection \<Rightarrow> normalizedMsg list \<Rightarrow> int \<Rightarrow> nat \<Rightarrow> bool" where
  "outdated env cfg items cur i \<longleftrightarrow> i < length items \<and> entry_key env (items ! i) \<noteq> None \<and>
     scope_limit cfg cur (items ! i) \<le> int (card (later_calls env items cur i))"

text \<open>The entries of one scope.\<close>

fun entries_of :: "history_env \<Rightarrow> (int \<Rightarrow> bool) \<Rightarrow> nat \<Rightarrow> normalizedMsg list \<Rightarrow> keyEntry list" where
  "entries_of env P i [] = []"
| "entries_of env P i (item # items) =
     (case entry_key env item of
        Some key \<Rightarrow> (if P (nm_turnIdx item) then [\<lparr>ke_idx = i, ke_key = key\<rparr>] else [])
      | None \<Rightarrow> []) @ entries_of env P (Suc i) items"

lemma collect_entries_eq:
  "collect_entries env cur i items (hist, turn) =
     (hist @ entries_of env (\<lambda>t. t \<noteq> cur) i items, turn @ entries_of env (\<lambda>t. t = cur) i items)"
  by (induction items arbitrary: i hist turn) (auto split: option.split simp: Let_def)

lemma entries_of_set:
  "\<lparr>ke_idx = j, ke_key = k\<rparr> \<in> set (entries_of env P i items) \<longleftrightarrow>
     i \<le> j \<and> j < i + length items \<and> entry_key env (items ! (j - i)) = Some k \<and> P (nm_turnIdx (items ! (j - i)))"
proof (induction items arbitrary: i)
  case (Cons item items)
  show ?case
  proof (cases "j = i")
    case True
    with Cons.IH [of "Suc i"] show ?thesis by (auto split: option.split)
  next
    case False
    then have "Suc i \<le> j \<and> j < Suc i + length items \<longleftrightarrow> i \<le> j \<and> j < i + length (item # items)" by auto
    moreover have "(item # items) ! (j - i) = items ! (j - Suc i)" if "i \<le> j" using False that by (simp add: nth_Cons')
    ultimately show ?thesis using Cons.IH [of "Suc i"] False by (auto split: option.split)
  qed
qed simp

lemma entry_eta [simp]: "\<lparr>ke_idx = ke_idx e, ke_key = ke_key e\<rparr> = (e :: keyEntry)"
  by (cases e) simp

lemma entry_eq: "e = \<lparr>ke_idx = j, ke_key = k\<rparr> \<longleftrightarrow> ke_idx e = j \<and> ke_key e = k" for e :: keyEntry
  by (cases e) simp

lemma entries_of_increasing: "sorted_wrt (<) (map ke_idx (entries_of env P i items))"
proof (induction items arbitrary: i)
  case (Cons item items)
  have "i < ke_idx e" if "e \<in> set (entries_of env P (Suc i) items)" for e
  proof -
    have "\<lparr>ke_idx = ke_idx e, ke_key = ke_key e\<rparr> \<in> set (entries_of env P (Suc i) items)" using that by simp
    then show ?thesis unfolding entries_of_set by simp
  qed
  with Cons show ?case by (auto split: option.split simp: sorted_wrt_append)
qed simp

lemma group_from_map:
  "map_of (group_from m es) k =
     (let old = (case map_of m k of None \<Rightarrow> [] | Some xs \<Rightarrow> xs); new = filter (\<lambda>e. ke_key e = k) es in
      if map_of m k = None \<and> new = [] then None else Some (old @ new))"
  by (induction m es rule: group_from.induct) (auto simp: Let_def alist_update split: option.split)

lemma group_from_distinct: "distinct (keys m) \<Longrightarrow> distinct (keys (group_from m es))"
  by (induction m es rule: group_from.induct) (auto simp: distinct_keys_update)

lemma groupByKey_set:
  "(k, es) \<in> set (groupByKey entries) \<longleftrightarrow> es = filter (\<lambda>e. ke_key e = k) entries \<and> es \<noteq> []"
proof -
  have "distinct (keys (groupByKey entries))" by (simp add: groupByKey_def group_from_distinct)
  then have "(k, es) \<in> set (groupByKey entries) \<longleftrightarrow> map_of (groupByKey entries) k = Some es" by simp
  also have "\<dots> \<longleftrightarrow> es = filter (\<lambda>e. ke_key e = k) entries \<and> es \<noteq> []"
    by (auto simp: groupByKey_def group_from_map Let_def)
  finally show ?thesis .
qed

text \<open>Of an increasing list, all but the last \<open>n\<close>: the elements with at least \<open>n\<close> greater ones.\<close>

lemma take_increasing:
  fixes xs :: "nat list"
  assumes "sorted_wrt (<) xs"
  shows "i \<in> set (take (length xs - n) xs) \<longleftrightarrow> i \<in> set xs \<and> n \<le> card {j \<in> set xs. i < j}"
  using assms
proof (induction xs)
  case (Cons x xs)
  have gt: "\<forall>y \<in> set xs. x < y" and srt: "sorted_wrt (<) xs" using Cons.prems by auto
  then have len: "card (set xs) = length xs" by (simp add: strict_sorted_iff distinct_card)
  have later: "{j \<in> set (x # xs). i < j} = {j \<in> set xs. i < j}" if "i \<in> set (x # xs)"
    using gt that by auto
  have all: "{j \<in> set xs. x < j} = set xs" using gt by auto
  have le: "card {j \<in> set xs. i < j} \<le> length xs" using card_mono [of "set xs" "{j \<in> set xs. i < j}"] len by auto
  show ?case
  proof (cases "n \<le> length xs")
    case True
    then have "take (length (x # xs) - n) (x # xs) = x # take (length xs - n) xs" by (simp add: Suc_diff_le)
    with Cons.IH srt gt later all len True show ?thesis by (cases "i = x") auto
  next
    case False
    then have "take (length (x # xs) - n) (x # xs) = []" by simp
    with False later le show ?thesis by force
  qed
qed simp

lemma superseded_eq:
  assumes "0 \<le> limit" "sorted_wrt (<) (map ke_idx es)"
  shows "superseded limit es = Some (take (length es - nat limit) (map ke_idx es))"
proof -
  have "sort_key ke_idx es = es"
    using assms(2) by (intro sort_key_id_if_sorted) (simp add: strict_sorted_iff)
  moreover have "nat (int (length es) - limit) = length es - nat limit" using assms(1) by simp
  ultimately show ?thesis using assms(1) by (auto simp: superseded_def Let_def take_map)
qed

lemma superseded_all_eq:
  "0 \<le> limit \<Longrightarrow> \<forall>(k, es) \<in> set groups. sorted_wrt (<) (map ke_idx es) \<Longrightarrow>
   \<exists>xs. superseded_all limit groups = Some xs \<and> set xs = (\<Union>(k, es) \<in> set groups. set (take (length es - nat limit) (map ke_idx es)))"
proof (induction groups)
  case (Cons g groups)
  obtain k es where "g = (k, es)" by (cases g) auto
  with Cons superseded_eq [of limit es] show ?case by auto
qed simp

lemma sorted_wrt_map_filter: "sorted_wrt (<) (map f xs) \<Longrightarrow> sorted_wrt (<) (map f (filter P xs))" for f :: "'a \<Rightarrow> nat"
  by (induction xs) auto

text \<open>The superseded calls of one scope.\<close>

definition same_key_later :: "history_env \<Rightarrow> (int \<Rightarrow> bool) \<Rightarrow> normalizedMsg list \<Rightarrow> nat \<Rightarrow> nat set" where
  "same_key_later env P items i = {j. i < j \<and> j < length items \<and> entry_key env (items ! j) = entry_key env (items ! i) \<and> P (nm_turnIdx (items ! j))}"

lemma scope_superseded:
  assumes "0 \<le> limit"
  shows "\<exists>xs. superseded_all limit (groupByKey (entries_of env P 0 items)) = Some xs \<and>
    (\<forall>i. i \<in> set xs \<longleftrightarrow> i < length items \<and> entry_key env (items ! i) \<noteq> None \<and> P (nm_turnIdx (items ! i)) \<and>
       limit \<le> int (card (same_key_later env P items i)))"
proof -
  let ?E = "entries_of env P 0 items"
  let ?G = "\<lambda>k. map ke_idx (filter (\<lambda>e. ke_key e = k) ?E)"
  have inc: "sorted_wrt (<) (?G k)" for k by (rule sorted_wrt_map_filter [OF entries_of_increasing])
  have "\<forall>(k, es) \<in> set (groupByKey ?E). sorted_wrt (<) (map ke_idx es)"
    using inc by (auto simp: groupByKey_set)
  from superseded_all_eq [OF assms this] obtain xs where xs: "superseded_all limit (groupByKey ?E) = Some xs"
    "set xs = (\<Union>(k, es) \<in> set (groupByKey ?E). set (take (length es - nat limit) (map ke_idx es)))" by blast
  have mem: "j \<in> set (?G k) \<longleftrightarrow> j < length items \<and> entry_key env (items ! j) = Some k \<and> P (nm_turnIdx (items ! j))" for j k
  proof -
    have "j \<in> set (?G k) \<longleftrightarrow> \<lparr>ke_idx = j, ke_key = k\<rparr> \<in> set ?E"
      by (auto simp: image_iff) 
    then show ?thesis by (simp add: entries_of_set)
  qed
  have "i \<in> set xs \<longleftrightarrow> i < length items \<and> entry_key env (items ! i) \<noteq> None \<and> P (nm_turnIdx (items ! i)) \<and>
       limit \<le> int (card (same_key_later env P items i))" for i
  proof -
    have "i \<in> set xs \<longleftrightarrow> (\<exists>k. i \<in> set (take (length (?G k) - nat limit) (?G k)))"
    proof -
      have "i \<in> set xs \<longleftrightarrow> (\<exists>k es. (k, es) \<in> set (groupByKey ?E) \<and> i \<in> set (take (length es - nat limit) (map ke_idx es)))"
        unfolding xs(2) by blast
      also have "\<dots> \<longleftrightarrow> (\<exists>k. i \<in> set (take (length (?G k) - nat limit) (?G k)))"
      proof
        assume "\<exists>k es. (k, es) \<in> set (groupByKey ?E) \<and> i \<in> set (take (length es - nat limit) (map ke_idx es))"
        then obtain k es where "es = filter (\<lambda>e. ke_key e = k) ?E" "i \<in> set (take (length es - nat limit) (map ke_idx es))"
          unfolding groupByKey_set by blast
        then show "\<exists>k. i \<in> set (take (length (?G k) - nat limit) (?G k))" by (intro exI [of _ k]) simp
      next
        assume "\<exists>k. i \<in> set (take (length (?G k) - nat limit) (?G k))"
        then obtain k where k: "i \<in> set (take (length (?G k) - nat limit) (?G k))" by blast
        then have "filter (\<lambda>e. ke_key e = k) ?E \<noteq> []" by auto
        with k show "\<exists>k es. (k, es) \<in> set (groupByKey ?E) \<and> i \<in> set (take (length es - nat limit) (map ke_idx es))"
          unfolding groupByKey_set by (intro exI [of _ k]) simp
      qed
      finally show ?thesis .
    qed
    also have "\<dots> \<longleftrightarrow> (\<exists>k. i \<in> set (?G k) \<and> nat limit \<le> card {j \<in> set (?G k). i < j})"
      using take_increasing [OF inc] by simp
    also have "\<dots> \<longleftrightarrow> (\<exists>k. i \<in> set (?G k) \<and> nat limit \<le> card (same_key_later env P items i))"
    proof -
      have "{j \<in> set (?G k). i < j} = same_key_later env P items i" if "i \<in> set (?G k)" for k
        using that unfolding mem same_key_later_def by auto
      then have "(i \<in> set (?G k) \<and> nat limit \<le> card {j \<in> set (?G k). i < j}) =
          (i \<in> set (?G k) \<and> nat limit \<le> card (same_key_later env P items i))" for k by (simp cong: conj_cong)
      then show ?thesis by (rule ex_cong1)
    qed
    finally show ?thesis unfolding mem using assms by (simp add: nat_le_iff not_None_eq)
  qed
  with xs(1) show ?thesis by blast
qed

lemma suppressed_iff:
  assumes "0 \<le> SupersessionHistoryLimit cfg" "0 \<le> SupersessionTurnLimit cfg"
  shows "\<exists>xs. collectToolCallSupersessionSuppressedIndices env items cur cfg = Some xs \<and>
     (\<forall>i. i \<in> set xs \<longleftrightarrow> IsSupersessionEnabled cfg \<and> outdated env cfg items cur i)"
proof -
  obtain xs ys where x: "superseded_all (SupersessionHistoryLimit cfg) (groupByKey (entries_of env (\<lambda>t. t \<noteq> cur) 0 items)) = Some xs"
      "\<And>i. i \<in> set xs \<longleftrightarrow> i < length items \<and> entry_key env (items ! i) \<noteq> None \<and> nm_turnIdx (items ! i) \<noteq> cur \<and>
         SupersessionHistoryLimit cfg \<le> int (card (same_key_later env (\<lambda>t. t \<noteq> cur) items i))"
    and y: "superseded_all (SupersessionTurnLimit cfg) (groupByKey (entries_of env (\<lambda>t. t = cur) 0 items)) = Some ys"
      "\<And>i. i \<in> set ys \<longleftrightarrow> i < length items \<and> entry_key env (items ! i) \<noteq> None \<and> nm_turnIdx (items ! i) = cur \<and>
         SupersessionTurnLimit cfg \<le> int (card (same_key_later env (\<lambda>t. t = cur) items i))"
    using scope_superseded [OF assms(1), of env "\<lambda>t. t \<noteq> cur" items] scope_superseded [OF assms(2), of env "\<lambda>t. t = cur" items] by blast
  have l: "later_calls env items cur i = same_key_later env (\<lambda>t. (t = cur) = (nm_turnIdx (items ! i) = cur)) items i" for i
    by (auto simp: later_calls_def same_key_later_def)
  have "i \<in> set (xs @ ys) \<longleftrightarrow> outdated env cfg items cur i" for i
    by (cases "nm_turnIdx (items ! i) = cur") (auto simp: x(2) y(2) outdated_def scope_limit_def l)
  then show ?thesis
    by (auto simp: collectToolCallSupersessionSuppressedIndices_def collect_entries_eq x(1) y(1))
qed

section \<open>What is hidden\<close>

lemma append_unique_set:
  "hidden_set (append_unique seen dst vs) = hidden_set dst \<union> {TrimSpace v |v. v \<in> set vs \<and> TrimSpace v \<noteq> [] \<and> TrimSpace v \<notin> seen}"
proof (induction seen dst vs rule: append_unique.induct)
  case (2 seen dst raw vs)
  show ?case
  proof (cases "TrimSpace raw = [] \<or> TrimSpace raw \<in> seen")
    case True
    with 2 show ?thesis by (auto simp: Let_def)
  next
    case False
    then have "hidden_set (append_unique seen dst (raw # vs)) =
        hidden_set (dst @ [TrimSpace raw]) \<union> {TrimSpace v |v. v \<in> set vs \<and> TrimSpace v \<noteq> [] \<and> TrimSpace v \<notin> insert (TrimSpace raw) seen}"
      using 2 by (simp add: Let_def)
    with False show ?thesis by (auto simp: hidden_set_def)
  qed
qed (simp add: hidden_set_def)

lemma hidden_appendUnique:
  "hidden_set (appendUniqueStrings dst vs) = hidden_set dst \<union> hidden_set vs"
  "hidden_set (appendUniqueProjectionIDs dst vs) = hidden_set dst \<union> hidden_set vs"
  by (auto simp: appendUniqueStrings_def appendUniqueProjectionIDs_def append_unique_set) (auto simp: hidden_set_def)

lemma hidden_set_Nil [simp]: "hidden_set [] = {}"
  by (simp add: hidden_set_def)

lemma note_hidden_sets:
  "hidden_set (cp_HiddenMessageIDs (note_hidden hasState hidden freed v)) = hidden_set (cp_HiddenMessageIDs v) \<union> hidden_set hidden"
  "cp_HiddenTurnIDs (note_hidden hasState hidden freed v) = cp_HiddenTurnIDs v"
  by (auto simp: note_hidden_def HideMessages_def AddReason_def AddTokensFreed_def Let_def hidden_appendUnique)

lemma hide_loop_set:
  "set (fst (hide_loop env suppress protected i items)) =
     {msg_id (items ! j) |j. j < length items \<and> i + j \<in> set suppress \<and> i + j \<notin> set protected \<and> msg_id (items ! j) \<noteq> []}"
proof (induction items arbitrary: i)
  case (Cons item items)
  obtain h f where h: "hide_loop env suppress protected (Suc i) items = (h, f)" by (cases "hide_loop env suppress protected (Suc i) items") auto
  let ?on = "i \<in> set suppress \<and> i \<notin> set protected \<and> msg_id item \<noteq> []"
  have "set (fst (hide_loop env suppress protected i (item # items))) = (if ?on then {msg_id item} else {}) \<union> set h"
    by (simp add: h)
  also have "set h = {msg_id (items ! j) |j. j < length items \<and> Suc i + j \<in> set suppress \<and> Suc i + j \<notin> set protected \<and> msg_id (items ! j) \<noteq> []}"
    using Cons.IH [of "Suc i"] by (simp add: h)
  also have "(if ?on then {msg_id item} else {}) \<union> \<dots> =
      {msg_id ((item # items) ! j) |j. j < length (item # items) \<and> i + j \<in> set suppress \<and> i + j \<notin> set protected \<and> msg_id ((item # items) ! j) \<noteq> []}"
    (is "?l = {?f j |j. ?P j}")
  proof -
    have "{?f j |j. ?P j} = {?f 0 |j::nat. ?P 0} \<union> {?f (Suc j) |j. ?P (Suc j)}"
    proof (intro equalityI subsetI)
      fix x assume "x \<in> {?f j |j. ?P j}"
      then obtain j where "x = ?f j" "?P j" by blast
      then show "x \<in> {?f 0 |j::nat. ?P 0} \<union> {?f (Suc j) |j. ?P (Suc j)}" by (cases j) blast+
    qed blast
    then show ?thesis by auto
  qed
  finally show ?case .
qed simp

lemma filter_nth: "filter P xs = map (\<lambda>i. xs ! i) (filter (\<lambda>i. P (xs ! i)) [0..<length xs])"
  by (metis (no_types, lifting) comp_apply filter_cong filter_map map_nth)

text \<open>The messages a prompt still shows.\<close>

definition stays :: "history_env \<Rightarrow> Projection \<Rightarrow> normalizedMsg list \<Rightarrow> int \<Rightarrow> string \<Rightarrow> nat \<Rightarrow> bool" where
  "stays env cfg items cur anchor i \<longleftrightarrow>
     \<not> (IsSupersessionEnabled cfg \<and> outdated env cfg items cur i) \<or>
     TrimSpace anchor \<noteq> [] \<and> anchored (TrimSpace anchor) (items ! i)"

definition identified :: "normalizedMsg list \<Rightarrow> bool" where
  "identified items \<longleftrightarrow> distinct (map msg_id items) \<and> (\<forall>item \<in> set items. nm_msg item \<noteq> None \<and> msg_id item \<noteq> [])"

lemma msg_id_trimmed: "TrimSpace (msg_id item) = msg_id item"
  by (simp add: msg_id_def split: option.split)

lemma hide_superseded_shows:
  assumes ids: "identified items" and shown: "\<forall>item \<in> set items. \<not> projected_out v item"
    and on: "EqualFold (TrimSpace (cp_Scope v)) ''conversation''" "he_registry env \<noteq> None"
    and lim: "0 \<le> SupersessionHistoryLimit cfg" "0 \<le> SupersessionTurnLimit cfg"
  shows "\<exists>v'. hide_superseded env hasState items cur (Some cfg) anchor v =
     Some (map (\<lambda>i. items ! i) (filter (stays env cfg items cur anchor) [0..<length items]), v')"
proof -
  let ?P = "protectedContinuationToolResultIndices items anchor"
  obtain xs where xs: "collectToolCallSupersessionSuppressedIndices env items cur cfg = Some xs"
    "\<And>i. i \<in> set xs \<longleftrightarrow> IsSupersessionEnabled cfg \<and> outdated env cfg items cur i"
    using suppressed_iff [OF lim, of env items cur] by blast
  obtain hidden freed where h: "(if xs = [] then ([], 0) else hide_loop env xs ?P 0 items) = (hidden, freed)"
    by (cases "if xs = [] then ([], 0) else hide_loop env xs ?P 0 items") auto
  have prot: "i \<in> set ?P \<longleftrightarrow> i < length items \<and> TrimSpace anchor \<noteq> [] \<and> anchored (TrimSpace anchor) (items ! i)" for i
    by (auto simp: protectedContinuationToolResultIndices_def Let_def)
  have mid: "msg_id (items ! i) \<noteq> []" "nm_msg (items ! i) \<noteq> None" if "i < length items" for i
    using ids that by (auto simp: identified_def)
  have inj: "msg_id (items ! i) = msg_id (items ! j) \<longleftrightarrow> i = j" if "i < length items" "j < length items" for i j
    using ids that nth_eq_iff_index_eq [of "map msg_id items" i j] by (auto simp: identified_def)
  have "set hidden = {msg_id (items ! j) |j. j < length items \<and> j \<in> set xs \<and> j \<notin> set ?P \<and> msg_id (items ! j) \<noteq> []}"
    using hide_loop_set [of env xs ?P 0 items] h by (auto split: if_splits)
  then have hid: "msg_id (items ! i) \<in> set hidden \<longleftrightarrow> \<not> stays env cfg items cur anchor i" if "i < length items" for i
    using that mid inj by (auto simp: xs(2) prot stays_def)
  have "hidden_set hidden = set hidden"
  proof -
    have "k = TrimSpace k \<and> k \<noteq> []" if "k \<in> set hidden" for k
      using that \<open>set hidden = _\<close> msg_id_trimmed by auto
    then show ?thesis by (force simp: hidden_set_def)
  qed
  then have out: "projected_out (note_hidden hasState hidden freed v) (items ! i) \<longleftrightarrow> \<not> stays env cfg items cur anchor i" if il: "i < length items" for i
  proof -
    obtain m where m: "nm_msg (items ! i) = Some m" using mid(2) [OF il] by auto
    then have "msg_id (items ! i) = TrimSpace (mg_Id m)" by (simp add: msg_id_def)
    moreover have "\<not> projected_out v (items ! i)" using shown il by (metis nth_mem)
    ultimately show ?thesis using hid [OF il] m mid(1) [OF il] \<open>hidden_set hidden = set hidden\<close>
      by (auto simp: projected_out_def note_hidden_sets)
  qed
  have coll: "collectToolCallSupersessionHiddenMessageIDsProtected env items cur cfg ?P = Some (hidden, freed)"
    using h by (simp add: collectToolCallSupersessionHiddenMessageIDsProtected_def xs(1))
  show ?thesis
  proof (cases "hidden = []")
    case True
    then have "\<forall>i \<in> set [0..<length items]. stays env cfg items cur anchor i" using hid by auto
    then have "map (\<lambda>i. items ! i) (filter (stays env cfg items cur anchor) [0..<length items]) = items"
      by (simp add: filter_True map_nth del: upt_Suc)
    with True coll on show ?thesis by (auto simp: hide_superseded_def Let_def)
  next
    case False
    then obtain k where "k \<in> hidden_set hidden" using \<open>hidden_set hidden = set hidden\<close> by (cases hidden) auto
    then have ne: "hidden_set (cp_HiddenMessageIDs (note_hidden hasState hidden freed v)) \<noteq> {}"
      by (auto simp: note_hidden_sets)
    have "applyProjectionToNormalized items (note_hidden hasState hidden freed v) =
        filter (\<lambda>item. \<not> projected_out (note_hidden hasState hidden freed v) item) items"
      using ne by (auto simp: applyProjectionToNormalized_def)
    also have "\<dots> = map (\<lambda>i. items ! i) (filter (stays env cfg items cur anchor) [0..<length items])"
      unfolding filter_nth [of _ items] using out by (auto intro!: arg_cong [where f = "map ((!) items)"] filter_cong)
    finally show ?thesis using False coll on by (auto simp: hide_superseded_def Let_def)
  qed
qed

text \<open>C18: what superseding hides. In a conversation's prompt whose messages have distinct ids and are all still
  shown, the history builder's step returns, in their order, exactly the messages that stay: a call of a cacheable tool
  is dropped when the configured number of calls with the same tool and arguments follow it in its scope (the current
  turn, or the turns before), unless it is a tool result of the response that the model continues from.\<close>

theorem hide_superseded_spec:
  assumes "identified items" "\<forall>item \<in> set items. \<not> projected_out v item"
    and "EqualFold (TrimSpace (cp_Scope v)) ''conversation''" "he_registry env \<noteq> None"
    and "0 \<le> SupersessionHistoryLimit cfg" "0 \<le> SupersessionTurnLimit cfg"
  shows "\<exists>v'. hide_superseded env hasState items cur (Some cfg) anchor v =
     Some (map (\<lambda>i. items ! i) (filter (stays env cfg items cur anchor) [0..<length items]), v')"
  using assms by (rule hide_superseded_shows)

text \<open>A history: two calls of one tool with the same arguments, the older one goes.\<close>

definition demo_env :: history_env where
  "demo_env = \<lparr>he_md5 = (\<lambda>s. s), he_marshal = (\<lambda>_. Some ''{}''), he_unmarshal = (\<lambda>_. None), he_gunzip = (\<lambda>_. []),
     he_registry = Some (\<lambda>_. Some True)\<rparr>"

definition demo_call :: "string \<Rightarrow> string \<Rightarrow> normalizedMsg" where
  "demo_call mid trace = \<lparr>nm_turnIdx = 0, nm_msg = Some \<lparr>mg_Id = mid, mg_TurnId = None, mg_Role = ''tool'', mg_Type = [],
     mg_Content = Some ''content'', mg_RawContent = None, mg_MessageToolCall = Some \<lparr>tc_ToolName = ''list'', tc_TraceId = Some trace,
       tc_RequestPayload = None, tc_ResponsePayload = None\<rparr>, mg_ToolMessage = []\<rparr>\<rparr>"

definition demo_view :: ContextProjection where
  "demo_view = \<lparr>cp_Scope = ''conversation'', cp_HiddenTurnIDs = [], cp_HiddenMessageIDs = [], cp_Reason = [], cp_TokensFreed = 0\<rparr>"

lemma demo_hides:
  "map_option (map msg_id \<circ> fst) (hide_superseded demo_env False [demo_call ''a'' ''r1'', demo_call ''b'' ''r2''] 5 (Some None) [] demo_view) = Some [''b'']"
  "map_option (map msg_id \<circ> fst) (hide_superseded demo_env False [demo_call ''a'' ''r1'', demo_call ''b'' ''r2''] 5 (Some None) ''r1'' demo_view) = Some [''a'', ''b'']"
  by code_simp+

lemma demo_identified: "identified [demo_call ''a'' ''r1'', demo_call ''b'' ''r2'']"
proof -
  have "msg_id (demo_call ''a'' ''r1'') = ''a''" "msg_id (demo_call ''b'' ''r2'') = ''b''" by code_simp+
  then show ?thesis by (simp add: identified_def demo_call_def)
qed

lemma hide_superseded_spec_witness:
  "\<exists>v'. hide_superseded demo_env False [demo_call ''a'' ''r1'', demo_call ''b'' ''r2''] 5 (Some None) [] demo_view =
     Some (map (\<lambda>i. [demo_call ''a'' ''r1'', demo_call ''b'' ''r2''] ! i)
       (filter (stays demo_env None [demo_call ''a'' ''r1'', demo_call ''b'' ''r2''] 5 []) [0..<2]), v')"
proof -
  have "\<forall>item \<in> set [demo_call ''a'' ''r1'', demo_call ''b'' ''r2'']. \<not> projected_out demo_view item" by code_simp
  moreover have "EqualFold (TrimSpace (cp_Scope demo_view)) ''conversation''" by code_simp
  moreover have "he_registry demo_env \<noteq> None" by (simp add: demo_env_def)
  moreover have "0 \<le> SupersessionHistoryLimit None" "0 \<le> SupersessionTurnLimit None" by code_simp+
  ultimately show ?thesis using hide_superseded_spec [OF demo_identified, of demo_view demo_env None False 5 "[]"]
    by (simp add: numeral_2_eq_2)
qed

end
