(* ===== verification/AguiJson.thy ===== *)
theory AguiJson
  imports Complex_Main GoPrelude
begin

text \<open>
  Decoded JSON and its equality, \<open>runtime/aguistate/patch.go\<close> (\<open>patchEqual\<close>, \<open>numericForm\<close>) and
  \<open>equality.go\<close>. A value is what a decoder with \<open>UseNumber\<close> leaves in an \<open>any\<close>: a number keeps its
  text, an object is a map with distinct keys, here an association list. The meaning of a value,
  \<open>denote\<close>, has a rational number for each text of a number and a function for each object; it is the
  reference against which the comparison by texts is proved.
\<close>

section \<open>Values\<close>

datatype json =
    JNull
  | JBool bool
  | JNum string
  | JStr string
  | JArr "json list"
  | JObj "(string \<times> json) list"

type_synonym obj = "(string \<times> json) list"

section \<open>Numbers as texts\<close>

definition is_digit :: "char \<Rightarrow> bool" where
  "is_digit c \<longleftrightarrow> c \<in> set ''0123456789''"

definition digit_of :: "char \<Rightarrow> nat" where
  "digit_of c = of_char c - 48"

definition char_of_digit :: "nat \<Rightarrow> char" where
  "char_of_digit n = char_of (n + 48)"

definition dval :: "string \<Rightarrow> nat" where
  "dval s = foldl (\<lambda>n c. 10 * n + digit_of c) 0 s"

text \<open>\<open>big.Int.String\<close> and \<open>big.Int.SetString(s, 10)\<close>; the second is used on the exponent of a JSON
  number only, which is a sign that may be missing and digits.\<close>

fun nat_str :: "nat \<Rightarrow> string" where
  "nat_str n = (if n < 10 then [char_of_digit n] else nat_str (n div 10) @ [char_of_digit (n mod 10)])"

declare nat_str.simps [simp del]

definition int_str :: "int \<Rightarrow> string" where
  "int_str x = (if x < 0 then CHR ''-'' # nat_str (nat (- x)) else nat_str (nat x))"

definition bigSetString :: "string \<Rightarrow> int" where
  "bigSetString s =
     (case s of
        [] \<Rightarrow> 0
      | c # r \<Rightarrow> if c = CHR ''-'' then - int (dval r)
                else if c = CHR ''+'' then int (dval r) else int (dval s))"

text \<open>\<open>strings.TrimLeft(s, "0")\<close> and \<open>strings.TrimRight(s, "0")\<close>.\<close>

definition trim_left0 :: "string \<Rightarrow> string" where
  "trim_left0 s = dropWhile ((=) (CHR ''0'')) s"

definition trim_right0 :: "string \<Rightarrow> string" where
  "trim_right0 s = rev (dropWhile ((=) (CHR ''0'')) (rev s))"

definition mark_e :: "char \<Rightarrow> bool" where
  "mark_e c \<longleftrightarrow> c = CHR ''e'' \<or> c = CHR ''E''"

text \<open>A text cut at the first byte of a kind: what is before it, and what is after it if it is there.\<close>

definition cut_at :: "(char \<Rightarrow> bool) \<Rightarrow> string \<Rightarrow> string \<times> string option" where
  "cut_at P s =
     (takeWhile (\<lambda>c. \<not> P c) s,
      case dropWhile (\<lambda>c. \<not> P c) s of [] \<Rightarrow> None | c # r \<Rightarrow> Some r)"

definition cut_sign :: "string \<Rightarrow> string \<times> string" where
  "cut_sign s = (case s of [] \<Rightarrow> ([], []) | c # r \<Rightarrow> if c = CHR ''-'' then (''-'', r) else ([], s))"

definition numericForm :: "string \<Rightarrow> string" where
  "numericForm v =
     (let (sign, v) = cut_sign v;
          (v, ex) = cut_at mark_e v;
          e = (case ex of None \<Rightarrow> 0 | Some x \<Rightarrow> bigSetString x);
          (ip, fp) = cut_at ((=) (CHR ''.'')) v;
          (v, e) = (case fp of None \<Rightarrow> (v, e) | Some f \<Rightarrow> (ip @ f, e - int (length f)));
          v = trim_left0 v
      in if v = [] then ''0''
         else let stripped = trim_right0 v
              in sign @ stripped @ ''e'' @ int_str (e + int (length v - length stripped)))"

section \<open>Semantic equality\<close>

lemma size_json_obj: "kv \<in> set av \<Longrightarrow> size (snd kv) < size (JObj av)"
  by (induction av) (auto simp: less_Suc_eq_le intro: le_trans trans_le_add1 trans_le_add2)

lemma size_json_arr: "p \<in> set (zip av bv) \<Longrightarrow> size (fst p) < size (JArr av)"
proof -
  assume "p \<in> set (zip av bv)"
  then have "fst p \<in> set av" by (metis prod.collapse set_zip_leftD)
  then show ?thesis by (induction av) auto
qed

function patchEqual :: "json \<Rightarrow> json \<Rightarrow> bool" where
  "patchEqual (JNum a) b = (case b of JNum b' \<Rightarrow> numericForm a = numericForm b' | _ \<Rightarrow> False)"
| "patchEqual (JObj av) b =
     (case b of
        JObj bv \<Rightarrow> length av = length bv \<and>
          (\<forall>kv \<in> set av. case map_of bv (fst kv) of None \<Rightarrow> False | Some w \<Rightarrow> patchEqual (snd kv) w)
      | _ \<Rightarrow> False)"
| "patchEqual (JArr av) b =
     (case b of
        JArr bv \<Rightarrow> length av = length bv \<and> (\<forall>p \<in> set (zip av bv). patchEqual (fst p) (snd p))
      | _ \<Rightarrow> False)"
| "patchEqual JNull b = (b = JNull)"
| "patchEqual (JBool x) b = (b = JBool x)"
| "patchEqual (JStr x) b = (b = JStr x)"
  by pat_completeness auto
termination
  by (relation "measure (\<lambda>(a, b). size a)") (auto dest: size_json_obj size_json_arr)

text \<open>\<open>EqualJSON\<close>. Decoding the two texts is a parameter: it fails on a text that is not JSON.\<close>

definition EqualJSON :: "(string \<Rightarrow> json option) \<Rightarrow> string \<Rightarrow> string \<Rightarrow> bool option" where
  "EqualJSON decode_json left right =
     (case (decode_json left, decode_json right) of
        (Some a, Some b) \<Rightarrow> Some (patchEqual a b)
      | _ \<Rightarrow> None)"

section \<open>The meaning of a value\<close>

text \<open>The grammar of RFC 8259: a sign that may be missing, a whole part without leading zeros, a
  fraction and an exponent that may be missing.\<close>

definition digits :: "string \<Rightarrow> bool" where
  "digits s \<longleftrightarrow> s \<noteq> [] \<and> (\<forall>c \<in> set s. is_digit c)"

definition unsigned :: "string \<Rightarrow> string" where
  "unsigned x = (case x of [] \<Rightarrow> [] | c # r \<Rightarrow> if c = CHR ''-'' \<or> c = CHR ''+'' then r else x)"

definition json_number :: "string \<Rightarrow> bool" where
  "json_number s \<longleftrightarrow>
     (let (v, ex) = cut_at mark_e (snd (cut_sign s));
          (ip, fp) = cut_at ((=) (CHR ''.'')) v
      in digits ip \<and> (ip = ''0'' \<or> hd ip \<noteq> CHR ''0'')
         \<and> (case fp of None \<Rightarrow> True | Some f \<Rightarrow> digits f)
         \<and> (case ex of None \<Rightarrow> True | Some x \<Rightarrow> digits (unsigned x)))"

definition number_value :: "string \<Rightarrow> rat" where
  "number_value s =
     (let (v, ex) = cut_at mark_e (snd (cut_sign s));
          (ip, fp) = cut_at ((=) (CHR ''.'')) v;
          whole = of_nat (dval ip);
          part = (case fp of None \<Rightarrow> 0 | Some f \<Rightarrow> of_nat (dval f) / 10 ^ length f);
          scale = (case ex of None \<Rightarrow> 1 | Some x \<Rightarrow> 10 powi bigSetString x)
      in (if fst (cut_sign s) = [] then 1 else -1) * (whole + part) * scale)"

datatype meaning =
    MNull
  | MBool bool
  | MNum rat
  | MStr string
  | MArr "meaning list"
  | MObj "string \<Rightarrow> meaning option"

primrec denote :: "json \<Rightarrow> meaning" where
  "denote JNull = MNull"
| "denote (JBool b) = MBool b"
| "denote (JNum s) = MNum (number_value s)"
| "denote (JStr s) = MStr s"
| "denote (JArr vs) = MArr (map denote vs)"
| "denote (JObj kvs) = MObj (map_of (map (map_prod id denote) kvs))"

text \<open>What a decoder produces: numbers of the grammar and distinct keys, at every depth.\<close>

primrec json_ok :: "json \<Rightarrow> bool" where
  "json_ok JNull = True"
| "json_ok (JBool b) = True"
| "json_ok (JNum s) = json_number s"
| "json_ok (JStr s) = True"
| "json_ok (JArr vs) = list_all id (map json_ok vs)"
| "json_ok (JObj kvs) = (distinct (map fst kvs) \<and> list_all id (map snd (map (map_prod id json_ok) kvs)))"

section \<open>Lemmas on digits\<close>

lemma dval_Nil [simp]: "dval [] = 0" by (simp add: dval_def)

lemma dval_snoc [simp]: "dval (s @ [c]) = 10 * dval s + digit_of c" by (simp add: dval_def)

lemma dval_append: "dval (s @ t) = dval s * 10 ^ length t + dval t"
  by (induction t rule: rev_induct) (auto simp: algebra_simps simp flip: append_assoc)

lemma is_digit_iff: "is_digit c \<longleftrightarrow> c = char_of_digit (digit_of c) \<and> digit_of c < 10"
proof
  have "list_all (\<lambda>c. c = char_of_digit (digit_of c) \<and> digit_of c < 10) ''0123456789''" by code_simp
  then show "is_digit c \<Longrightarrow> c = char_of_digit (digit_of c) \<and> digit_of c < 10"
    unfolding is_digit_def list_all_iff by blast
next
  have "list_all (\<lambda>n. is_digit (char_of_digit n)) [0..<10]" by code_simp
  then have "\<forall>n < 10. is_digit (char_of_digit n)" by (simp only: list_all_iff set_upt) simp
  then show "c = char_of_digit (digit_of c) \<and> digit_of c < 10 \<Longrightarrow> is_digit c" by metis
qed

lemma digit_of_char [simp]: "n < 10 \<Longrightarrow> digit_of (char_of_digit n) = n"
proof -
  have "list_all (\<lambda>n. digit_of (char_of_digit n) = n) [0..<10]" by code_simp
  then show "n < 10 \<Longrightarrow> digit_of (char_of_digit n) = n" by (simp only: list_all_iff set_upt) simp
qed

lemma digit_inj: "is_digit c \<Longrightarrow> is_digit d \<Longrightarrow> digit_of c = digit_of d \<Longrightarrow> c = d"
  by (metis is_digit_iff)

lemma digit_lt: "is_digit c \<Longrightarrow> digit_of c < 10" by (simp add: is_digit_iff)

lemma digit_zero: "is_digit c \<Longrightarrow> digit_of c = 0 \<longleftrightarrow> c = CHR ''0''"
  by (auto simp: is_digit_def digit_of_def)

lemma is_digit_char [simp]: "n < 10 \<Longrightarrow> is_digit (char_of_digit n)"
  by (simp add: is_digit_iff)

lemma dval_bounds:
  assumes "\<forall>c \<in> set s. is_digit c"
  shows "dval s < 10 ^ length s"
  using assms
proof (induction s rule: rev_induct)
  case (snoc c s)
  then have "dval s < 10 ^ length s" "digit_of c < 10" by (auto dest: digit_lt)
  then show ?case by simp
qed simp

text \<open>Digits without a leading zero are fixed by their value.\<close>

lemma dval_pos:
  assumes "s \<noteq> []" "hd s \<noteq> CHR ''0''" "\<forall>c \<in> set s. is_digit c"
  shows "10 ^ (length s - 1) \<le> dval s"
proof -
  obtain c r where s: "s = [c] @ r" using assms(1) by (cases s) auto
  then have "digit_of c > 0" using assms digit_zero [of c] by auto
  moreover have "dval s = digit_of c * 10 ^ length r + dval r"
    unfolding s dval_append by (simp add: dval_def)
  ultimately show ?thesis using s by (simp add: trans_le_add1)
qed

lemma dval_inj_same:
  assumes "length s = length t" "dval s = dval t" "\<forall>c \<in> set s. is_digit c" "\<forall>c \<in> set t. is_digit c"
  shows "s = t"
  using assms
proof (induction s arbitrary: t rule: rev_induct)
  case (snoc c s)
  then obtain t' d where t: "t = t' @ [d]" by (cases t rule: rev_cases) auto
  have "digit_of c < 10" "digit_of d < 10" using snoc.prems t by (auto intro: digit_lt)
  moreover have "10 * dval s + digit_of c = 10 * dval t' + digit_of d" using snoc.prems t by simp
  ultimately have "dval s = dval t'" "digit_of c = digit_of d" by presburger+
  then show ?case using snoc t by (auto intro: digit_inj)
qed simp

lemma dval_inj:
  assumes "dval s = dval t" "\<forall>c \<in> set s. is_digit c" "\<forall>c \<in> set t. is_digit c"
    "s \<noteq> []" "t \<noteq> []" "hd s \<noteq> CHR ''0''" "hd t \<noteq> CHR ''0''"
  shows "s = t"
proof -
  have le: "length u \<le> length w"
    if "10 ^ (length u - 1) \<le> dval u" "dval w < 10 ^ length w" "dval u = dval w" for u w :: string
  proof -
    have "(10 :: nat) ^ (length u - 1) < 10 ^ length w" using that by linarith
    then have "length u - 1 < length w" by (rule power_less_imp_less_exp [rotated]) simp
    then show ?thesis by linarith
  qed
  have "length s = length t"
    by (intro antisym le dval_pos dval_bounds) (use assms in auto)
  then show ?thesis using assms by (intro dval_inj_same)
qed

lemma nat_str_digits: "c \<in> set (nat_str n) \<Longrightarrow> is_digit c"
proof (induction n arbitrary: c rule: nat_str.induct)
  case (1 n)
  then show ?case
    by (cases "n < 10") (auto simp: nat_str.simps [of n])
qed

lemma nat_str_inj [simp]: "nat_str m = nat_str n \<longleftrightarrow> m = n"
proof -
  have "dval (nat_str n) = n" for n
    by (induction n rule: nat_str.induct) (subst nat_str.simps, auto simp: dval_def)
  then show ?thesis by metis
qed

lemma int_str_inj: "int_str x = int_str y \<Longrightarrow> x = y"
proof -
  have no: "nat_str n \<noteq> CHR ''-'' # s" for n s
    using nat_str_digits [of "CHR ''-''" n] by (auto simp: is_digit_def)
  show "int_str x = int_str y \<Longrightarrow> x = y"
    by (auto simp: int_str_def no no [symmetric] eq_nat_nat_iff split: if_splits)
qed

lemma dval_drop0: "dval (dropWhile ((=) (CHR ''0'')) s) = dval s"
proof -
  have "dval s = dval (takeWhile ((=) (CHR ''0'')) s @ dropWhile ((=) (CHR ''0'')) s)" by simp
  moreover have "dval (replicate n (CHR ''0'')) = 0" for n
    by (induction n) (auto simp: dval_def digit_of_def)
  moreover have "takeWhile ((=) (CHR ''0'')) s = replicate (length (takeWhile ((=) (CHR ''0'')) s)) (CHR ''0'')"
    by (metis (full_types) replicate_length_same set_takeWhileD)
  ultimately show ?thesis by (metis dval_append mult_zero_left add_0)
qed

lemma trim_right0_split: "\<exists>k. s = trim_right0 s @ replicate k (CHR ''0'') \<and> k = length s - length (trim_right0 s)"
proof -
  let ?r = "takeWhile ((=) (CHR ''0'')) (rev s)"
  have r: "?r = replicate (length ?r) (CHR ''0'')"
    by (metis (full_types) replicate_length_same set_takeWhileD)
  have "rev s = ?r @ dropWhile ((=) (CHR ''0'')) (rev s)" by simp
  then have "s = rev (dropWhile ((=) (CHR ''0'')) (rev s)) @ rev ?r" by (metis rev_append rev_rev_ident)
  then have "s = trim_right0 s @ replicate (length ?r) (CHR ''0'')"
    by (metis r rev_replicate trim_right0_def)
  then show ?thesis by (metis add_diff_cancel_left' length_append length_replicate)
qed

section \<open>The form of a number is its value\<close>

text \<open>Sign, digits and exponent of a text, and what the two readings make of them.\<close>

lemma number_parts:
  assumes "json_number s"
  obtains sgn D e where
    "sgn = [] \<or> sgn = ''-''" "\<forall>c \<in> set D. is_digit c"
    "numericForm s =
       (let v = trim_left0 D
        in if v = [] then ''0''
           else sgn @ trim_right0 v @ ''e'' @ int_str (e + int (length v - length (trim_right0 v))))"
    "number_value s = (if sgn = [] then 1 else -1) * of_nat (dval D) * 10 powi e"
proof -
  obtain v ex where v: "cut_at mark_e (snd (cut_sign s)) = (v, ex)" by fastforce
  obtain ip fp where ip: "cut_at ((=) (CHR ''.'')) v = (ip, fp)" by fastforce
  define sgn where "sgn = fst (cut_sign s)"
  define e where "e = (case ex of None \<Rightarrow> 0 | Some x \<Rightarrow> bigSetString x)"
  define f where "f = (case fp of None \<Rightarrow> [] | Some f \<Rightarrow> f)"
  have sgn: "sgn = [] \<or> sgn = ''-''" by (auto simp: sgn_def cut_sign_def split: list.splits)
  have whole: "v = ip" if "fp = None"
  proof -
    have "dropWhile (\<lambda>c. CHR ''.'' \<noteq> c) v = []"
      using ip that by (auto simp: cut_at_def split: list.splits)
    then have "takeWhile (\<lambda>c. CHR ''.'' \<noteq> c) v = v"
      by (metis append_Nil2 takeWhile_dropWhile_id)
    moreover have "ip = takeWhile (\<lambda>c. CHR ''.'' \<noteq> c) v" using ip by (auto simp: cut_at_def)
    ultimately show ?thesis by (rule trans [OF sym sym])
  qed
  have dg: "\<forall>c \<in> set (ip @ f). is_digit c"
    using assms v ip by (auto simp: json_number_def digits_def f_def Let_def split: option.splits)
  have nf: "numericForm s =
       (let v = trim_left0 (ip @ f)
        in if v = [] then ''0''
           else sgn @ trim_right0 v @ ''e'' @ int_str (e - int (length f) + int (length v - length (trim_right0 v))))"
    using v ip whole
    by (cases fp) (auto simp: numericForm_def Let_def sgn_def e_def f_def split: prod.splits)
  have "number_value s = (if sgn = [] then 1 else -1)
          * (of_nat (dval ip) + of_nat (dval f) / 10 ^ length f) * 10 powi e"
    using v ip
    by (cases fp; cases ex) (auto simp: number_value_def Let_def sgn_def e_def f_def)
  moreover have "(of_nat (dval ip) + of_nat (dval f) / 10 ^ length f) * 10 powi e
      = (of_nat (dval (ip @ f)) * 10 powi (e - int (length f)) :: rat)"
    by (simp add: dval_append power_int_diff field_simps)
  ultimately have "number_value s = (if sgn = [] then 1 else -1)
      * of_nat (dval (ip @ f)) * 10 powi (e - int (length f))"
    by (simp only: mult.assoc)
  then show ?thesis using that [OF sgn dg nf] by blast
qed

lemma power_form_unique:
  fixes m n :: nat and a b :: int
  assumes eq: "of_nat m * 10 powi a = (of_nat n * 10 powi b :: rat)"
    and m: "\<not> 10 dvd m" and n: "\<not> 10 dvd n"
  shows "m = n \<and> a = b"
proof -
  have le: "a \<ge> b"
    if eq: "of_nat m * 10 powi a = (of_nat n * 10 powi b :: rat)" and "\<not> 10 dvd m" for m n a b
  proof (rule ccontr)
    assume "\<not> b \<le> a"
    define k where "k = nat (b - a)"
    have k: "b = a + int k" "k > 0" using \<open>\<not> b \<le> a\<close> by (auto simp: k_def)
    have "of_nat m * 10 powi a = (of_nat n * 10 ^ k * 10 powi a :: rat)"
      using eq k by (simp add: power_int_add)
    then have "of_nat m = (of_nat (n * 10 ^ k) :: rat)" by simp
    then have "m = n * 10 ^ k" by (simp only: of_nat_eq_iff)
    then show False using that(2) k(2) by (simp add: dvd_power)
  qed
  have "a = b" using le [OF eq m] le [OF eq [symmetric] n] by simp
  then show ?thesis using eq by simp
qed

text \<open>What is left of the digits: none for the value 0, otherwise digits that neither begin nor end with 0.\<close>

lemma stripped_digits:
  assumes "\<forall>c \<in> set D. is_digit c" and v: "v = trim_left0 D" and ne: "v \<noteq> []"
  defines "t \<equiv> trim_right0 v"
  shows "t \<noteq> []" "hd t \<noteq> CHR ''0''" "\<forall>c \<in> set t. is_digit c" "\<not> 10 dvd dval t"
    "dval D = dval t * 10 ^ (length v - length t)"
proof -
  have hd: "hd v \<noteq> CHR ''0''" using ne v hd_dropWhile [of "(=) (CHR ''0'')" D] by (auto simp: trim_left0_def)
  have dv: "\<forall>c \<in> set v. is_digit c" using assms(1) v by (auto simp: trim_left0_def dest: set_dropWhileD)
  obtain k where k: "v = t @ replicate k (CHR ''0'')" "k = length v - length t"
    using trim_right0_split [of v] t_def by blast
  show t: "t \<noteq> []"
  proof
    assume "t = []"
    then have "v = replicate k (CHR ''0'')" using k(1) by simp
    then show False using hd ne by (metis hd_replicate replicate_empty)
  qed
  then show "hd t \<noteq> CHR ''0''" using k(1) hd by (metis hd_append2)
  show dt: "\<forall>c \<in> set t. is_digit c" using dv k by (metis Un_iff set_append)
  have last: "last t \<noteq> CHR ''0''"
    using t hd_dropWhile [of "(=) (CHR ''0'')" "rev v"] by (auto simp: t_def trim_right0_def last_rev)
  obtain r c where r: "t = r @ [c]" using t by (cases t rule: rev_cases) auto
  then have "digit_of c \<noteq> 0" "digit_of c < 10" using last dt by (auto simp: digit_zero digit_lt)
  then show "\<not> 10 dvd dval t" using r by (auto simp: dvd_add_right_iff dest: dvd_imp_le)
  have "dval (replicate k (CHR ''0'')) = 0" by (induction k) (auto simp: dval_def digit_of_def)
  then have "dval v = dval t * 10 ^ k" using k(1) dval_append [of t "replicate k (CHR ''0'')"] by simp
  then show "dval D = dval t * 10 ^ (length v - length t)"
    using k(2) v dval_drop0 [of D] by (simp add: trim_left0_def)
qed

lemma trim_left0_Nil:
  assumes "\<forall>c \<in> set D. is_digit c"
  shows "trim_left0 D = [] \<longleftrightarrow> dval D = 0"
proof
  assume "trim_left0 D = []"
  then show "dval D = 0" using dval_drop0 [of D] unfolding trim_left0_def by (metis dval_Nil)
next
  assume z: "dval D = 0"
  show "trim_left0 D = []"
  proof (rule ccontr)
    assume ne: "trim_left0 D \<noteq> []"
    note T = stripped_digits [OF assms refl ne]
    have "dval (trim_right0 (trim_left0 D)) = 0" using T(5) z by simp
    then show False using T(4) by simp
  qed
qed

text \<open>The form of a value other than 0 is never \<open>"0"\<close>, and the three parts of a form can be read back.\<close>

lemma form_not_zero:
  assumes "s = [] \<or> s = ''-''"
  shows "s @ t @ ''e'' @ x \<noteq> ''0''"
proof
  assume "s @ t @ ''e'' @ x = ''0''"
  then have "CHR ''e'' \<in> set ''0''" by (metis Un_iff list.set_intros(1) set_append append_Cons)
  then show False by simp
qed

lemma form_inj:
  assumes "s = [] \<or> s = ''-''" "s' = [] \<or> s' = ''-''"
    and "\<forall>c \<in> set t. is_digit c" "\<forall>c \<in> set t'. is_digit c" "t \<noteq> []" "t' \<noteq> []"
  shows "s @ t @ ''e'' @ int_str x = s' @ t' @ ''e'' @ int_str y \<longleftrightarrow> s = s' \<and> t = t' \<and> x = y"
proof
  assume eq: "s @ t @ ''e'' @ int_str x = s' @ t' @ ''e'' @ int_str y"
  have nd: "\<not> is_digit (CHR ''-'')" "\<not> is_digit (CHR ''e'')" by (simp_all add: is_digit_def)
  have ss: "s = s'" using eq assms nd by (cases t; cases t') auto
  then have eq': "t @ CHR ''e'' # int_str x = t' @ CHR ''e'' # int_str y" using eq by simp
  have tw: "takeWhile is_digit (u @ CHR ''e'' # w) = u" if "\<forall>c \<in> set u. is_digit c" for u w
    using that nd by (simp add: takeWhile_append)
  have "t = t'" using eq' tw assms(3,4) by metis
  then show "s = s' \<and> t = t' \<and> x = y" using eq' ss by (auto dest: int_str_inj)
qed simp

lemma signed_eq:
  fixes x y :: rat
  assumes "0 < x" "0 < y"
  shows "- x \<noteq> y" "x \<noteq> - y"
  using assms by linarith+

theorem numericForm_iff:
  assumes "json_number a" "json_number b"
  shows "numericForm a = numericForm b \<longleftrightarrow> number_value a = number_value b"
proof -
  obtain s D e where s: "s = [] \<or> s = ''-''" and D: "\<forall>c \<in> set D. is_digit c"
    and fa: "numericForm a = (let v = trim_left0 D in if v = [] then ''0''
           else s @ trim_right0 v @ ''e'' @ int_str (e + int (length v - length (trim_right0 v))))"
    and va: "number_value a = (if s = [] then 1 else -1) * of_nat (dval D) * 10 powi e"
    using number_parts [OF assms(1)] by blast
  obtain s' D' e' where s': "s' = [] \<or> s' = ''-''" and D': "\<forall>c \<in> set D'. is_digit c"
    and fb: "numericForm b = (let v = trim_left0 D' in if v = [] then ''0''
           else s' @ trim_right0 v @ ''e'' @ int_str (e' + int (length v - length (trim_right0 v))))"
    and vb: "number_value b = (if s' = [] then 1 else -1) * of_nat (dval D') * 10 powi e'"
    using number_parts [OF assms(2)] by blast
  show ?thesis
  proof (cases "dval D = 0 \<or> dval D' = 0")
    case True
    have zero: "x = 0 \<longleftrightarrow> f = ''0''"
      if "s = [] \<or> s = ''-''" "\<forall>c \<in> set D. is_digit c"
        "f = (let v = trim_left0 D in if v = [] then ''0''
           else s @ trim_right0 v @ ''e'' @ int_str (e + int (length v - length (trim_right0 v))))"
        "x = (if s = [] then 1 else -1) * of_nat (dval D) * 10 powi e"
      for x :: rat and f s D e
      using trim_left0_Nil [OF that(2)] form_not_zero [OF that(1)] that(3,4) by (simp add: Let_def)
    have "number_value a = 0 \<or> number_value b = 0" using True va vb by auto
    then show ?thesis using zero [OF s D fa va] zero [OF s' D' fb vb] by metis
  next
    case False
    then have ne: "trim_left0 D \<noteq> []" "trim_left0 D' \<noteq> []"
      using trim_left0_Nil [OF D] trim_left0_Nil [OF D'] by auto
    let ?t = "trim_right0 (trim_left0 D)" and ?t' = "trim_right0 (trim_left0 D')"
    let ?k = "length (trim_left0 D) - length ?t" and ?k' = "length (trim_left0 D') - length ?t'"
    note T = stripped_digits [OF D refl ne(1)] and T' = stripped_digits [OF D' refl ne(2)]
    have va': "number_value a = (if s = [] then 1 else -1) * (of_nat (dval ?t) * 10 powi (e + int ?k))"
      using va T(5) by (simp add: power_int_add)
    have vb': "number_value b = (if s' = [] then 1 else -1) * (of_nat (dval ?t') * 10 powi (e' + int ?k'))"
      using vb T'(5) by (simp add: power_int_add)
    define x y :: rat
      where "x = of_nat (dval ?t) * 10 powi (e + int ?k)" and "y = of_nat (dval ?t') * 10 powi (e' + int ?k')"
    have "0 < dval ?t" "0 < dval ?t'" using T(4) T'(4) by (metis dvd_0_right gr0I)+
    then have pos: "0 < x" "0 < y" by (simp_all add: x_def y_def)
    have "number_value a = number_value b \<longleftrightarrow> s = s' \<and> x = y"
      unfolding va' vb' x_def [symmetric] y_def [symmetric] using s s' signed_eq [OF pos] by auto
    also have "\<dots> \<longleftrightarrow> s = s' \<and> dval ?t = dval ?t' \<and> e + int ?k = e' + int ?k'"
      unfolding x_def y_def using power_form_unique [OF _ T(4) T'(4)] by auto
    also have "\<dots> \<longleftrightarrow> s = s' \<and> ?t = ?t' \<and> e + int ?k = e' + int ?k'"
      using dval_inj [OF _ T(3) T'(3) T(1) T'(1) T(2) T'(2)] by auto
    also have "\<dots> \<longleftrightarrow> numericForm a = numericForm b"
      unfolding fa fb Let_def using ne form_inj [OF s s' T(3) T'(3) T(1) T'(1)] by simp
    finally show ?thesis by simp
  qed
qed

section \<open>The comparison decides equality of values\<close>

text \<open>Comparing sizes and looking up each key of the first map relates two maps key by key.\<close>

lemma maps_related:
  assumes da: "distinct (map fst av)" and db: "distinct (map fst bv)"
  shows "length av = length bv
      \<and> (\<forall>kv \<in> set av. case map_of bv (fst kv) of None \<Rightarrow> False | Some w \<Rightarrow> R (snd kv) w)
    \<longleftrightarrow> (\<forall>k. rel_option R (map_of av k) (map_of bv k))"
proof
  assume L: "length av = length bv
      \<and> (\<forall>kv \<in> set av. case map_of bv (fst kv) of None \<Rightarrow> False | Some w \<Rightarrow> R (snd kv) w)"
  then have sub: "set (map fst av) \<subseteq> set (map fst bv)"
    by (force split: option.splits dest: map_of_SomeD)
  moreover have "card (set (map fst av)) = card (set (map fst bv))"
    using L distinct_card [OF da] distinct_card [OF db] by (metis length_map)
  ultimately have eq: "set (map fst av) = set (map fst bv)" by (meson card_subset_eq List.finite_set)
  show "\<forall>k. rel_option R (map_of av k) (map_of bv k)"
  proof
    fix k
    show "rel_option R (map_of av k) (map_of bv k)"
    proof (cases "map_of av k")
      case None
      then have "map_of bv k = None" using eq by (simp add: map_of_eq_None_iff)
      with None show ?thesis by simp
    next
      case (Some v)
      then have "(k, v) \<in> set av" by (rule map_of_SomeD)
      then show ?thesis using L Some by (fastforce split: option.splits)
    qed
  qed
next
  assume R: "\<forall>k. rel_option R (map_of av k) (map_of bv k)"
  have "map_of av k = None \<longleftrightarrow> map_of bv k = None" for k using R [rule_format, of k] by (auto simp: rel_option_iff split: option.splits)
  then have "set (map fst av) = set (map fst bv)" by (metis map_of_eq_None_iff subsetI subset_antisym set_map)
  then have "length av = length bv" using distinct_card [OF da] distinct_card [OF db] by simp
  moreover have "case map_of bv (fst kv) of None \<Rightarrow> False | Some w \<Rightarrow> R (snd kv) w" if "kv \<in> set av" for kv
    using R [rule_format, of "fst kv"] map_of_is_SomeI [OF da, of "fst kv" "snd kv"] that
    by (auto simp: rel_option_iff split: option.splits)
  ultimately show "length av = length bv
      \<and> (\<forall>kv \<in> set av. case map_of bv (fst kv) of None \<Rightarrow> False | Some w \<Rightarrow> R (snd kv) w)" by blast
qed

lemma rel_option_map_eq: "rel_option (\<lambda>v w. f v = g w) x y \<longleftrightarrow> map_option f x = map_option g y"
  by (cases x; cases y) auto

lemma map_of_map_snd: "map_of (map (map_prod id f) kvs) k = map_option f (map_of kvs k)"
  by (induction kvs) auto

lemma denote_obj: "denote (JObj av) = denote (JObj bv) \<longleftrightarrow>
    (\<forall>k. rel_option (\<lambda>v w. denote v = denote w) (map_of av k) (map_of bv k))"
  by (simp add: rel_option_map_eq fun_eq_iff map_of_map_snd)

lemma json_ok_arr: "json_ok (JArr vs) \<longleftrightarrow> (\<forall>v \<in> set vs. json_ok v)"
  by (simp add: list_all_iff)

lemma json_ok_obj:
  "json_ok (JObj kvs) \<longleftrightarrow> distinct (map fst kvs) \<and> (\<forall>kv \<in> set kvs. json_ok (snd kv))"
  by (auto simp: list_all_iff)

lemma denote_inv [simp]:
  "denote b = MNull \<longleftrightarrow> b = JNull" "MNull = denote b \<longleftrightarrow> b = JNull"
  "denote b = MBool x \<longleftrightarrow> b = JBool x" "MBool x = denote b \<longleftrightarrow> b = JBool x"
  "denote b = MStr s \<longleftrightarrow> b = JStr s" "MStr s = denote b \<longleftrightarrow> b = JStr s"
  by (cases b; auto)+

theorem patchEqual_denote:
  "json_ok a \<Longrightarrow> json_ok b \<Longrightarrow> patchEqual a b \<longleftrightarrow> denote a = denote b"
proof (induction a b rule: patchEqual.induct)
  case (1 a b)
  then show ?case by (cases b) (auto simp: numericForm_iff)
next
  case (2 av b)
  show ?case
  proof (cases b)
    case (JObj bv)
    have ih: "patchEqual (snd kv) w \<longleftrightarrow> denote (snd kv) = denote w"
      if "kv \<in> set av" "map_of bv (fst kv) = Some w" for kv w
      using "2.IH" [OF JObj that] "2.prems" that JObj
      by (metis json_ok_obj map_of_SomeD snd_conv)
    have "patchEqual (JObj av) b \<longleftrightarrow> length av = length bv
        \<and> (\<forall>kv \<in> set av. case map_of bv (fst kv) of None \<Rightarrow> False | Some w \<Rightarrow> denote (snd kv) = denote w)"
      unfolding JObj by (auto simp: ih split: option.splits)
    also have "\<dots> \<longleftrightarrow> denote (JObj av) = denote (JObj bv)"
      unfolding denote_obj
      using maps_related [of av bv "\<lambda>v w. denote v = denote w"] "2.prems" JObj by (simp add: json_ok_obj)
    finally show ?thesis using JObj by simp
  qed auto
next
  case (3 av b)
  show ?case
  proof (cases b)
    case (JArr bv)
    have ih: "patchEqual (fst p) (snd p) \<longleftrightarrow> denote (fst p) = denote (snd p)" if "p \<in> set (zip av bv)" for p
      using "3.IH" [OF JArr that] "3.prems" that JArr
      by (metis json_ok_arr set_zip_leftD set_zip_rightD prod.collapse)
    have "patchEqual (JArr av) b \<longleftrightarrow> length av = length bv \<and> (\<forall>p \<in> set (zip av bv). denote (fst p) = denote (snd p))"
      unfolding JArr using ih by auto
    also have "\<dots> \<longleftrightarrow> map denote av = map denote bv"
      by (fastforce simp: list_eq_iff_nth_eq set_zip)
    finally show ?thesis using JArr by simp
  qed auto
qed auto

text \<open>C12: Two decoded JSON values are equal for a patch's \<open>test\<close> and for \<open>EqualJSON\<close> exactly when they mean the
  same: numbers are compared as rational numbers whatever their notation or size, objects whatever the
  order of their members. So the comparison is an equivalence relation, and it never goes through a
  floating point number.\<close>

theorem patchEqual_decides:
  assumes "json_ok a" "json_ok b"
  shows "patchEqual a b \<longleftrightarrow> denote a = denote b"
  using assms by (rule patchEqual_denote)

lemma patchEqual_decides_witness:
  "patchEqual (JArr [JNum ''-120e-1'', JObj [(''a'', JNull), (''b'', JNum ''0.00'')]])
              (JArr [JNum ''-12.0'', JObj [(''b'', JNum ''0E7''), (''a'', JNull)]])
   \<longleftrightarrow> denote (JArr [JNum ''-120e-1'', JObj [(''a'', JNull), (''b'', JNum ''0.00'')]])
       = denote (JArr [JNum ''-12.0'', JObj [(''b'', JNum ''0E7''), (''a'', JNull)]])"
  by (rule patchEqual_decides) code_simp+

lemma demo_equal:
  "patchEqual (JNum ''1e400'') (JNum ''10.0e399'')"
  "\<not> patchEqual (JNum ''9007199254740993'') (JNum ''9007199254740992'')"
  "\<not> patchEqual (JObj [(''a'', JNull)]) (JObj [(''b'', JNull)])"
  by code_simp+

end
