(* ===== verification/AguiPatch.thy ===== *)
theory AguiPatch
  imports AguiJson
begin

text \<open>
  JSON Patch on the shared state, \<open>runtime/aguistate/patch.go\<close>: JSON pointers, the checks made before an
  operation reaches the patch library, and \<open>ApplyPatchJSON\<close>. Texts are taken decoded: encoding a value and
  decoding it again is the identity. Parameters: the schema's verdict on an event (\<open>agui.ValidateEvent\<close>) and
  the library's application of one operation to a document.
\<close>

section \<open>Pointers\<close>

text \<open>\<open>strings.ReplaceAll\<close> of a text of two bytes by one byte.\<close>

fun ReplaceAll2 :: "char \<Rightarrow> char \<Rightarrow> char \<Rightarrow> string \<Rightarrow> string" where
  "ReplaceAll2 a b c (x # y # s) =
     (if x = a \<and> y = b then c # ReplaceAll2 a b c s else x # ReplaceAll2 a b c (y # s))"
| "ReplaceAll2 a b c s = s"

definition pointerTokens :: "string \<Rightarrow> string list" where
  "pointerTokens path =
     (if path = [] then []
      else map (\<lambda>p. ReplaceAll2 (CHR ''~'') (CHR ''0'') (CHR ''~'')
                      (ReplaceAll2 (CHR ''~'') (CHR ''1'') (CHR ''/'') p))
             (Split (CHR ''/'') (drop 1 path)))"

definition properPointerPrefix :: "string \<Rightarrow> string \<Rightarrow> bool" where
  "properPointerPrefix from_path path =
     (let a = pointerTokens from_path; b = pointerTokens path
      in if length a \<ge> length b then False else list_all (\<lambda>i. a ! i = b ! i) [0..<length a])"

text \<open>\<open>strconv.Atoi\<close> of a text of digits fails when the value leaves the 64-bit range.\<close>

definition arrayIndex :: "string \<Rightarrow> nat option" where
  "arrayIndex token =
     (if token = [] \<or> 1 < length token \<and> hd token = CHR ''0'' then None
      else if \<not> list_all is_digit token then None
      else if int (dval token) \<le> maxInt64 then Some (dval token) else None)"

fun pointer_from :: "json \<Rightarrow> string list \<Rightarrow> json option" where
  "pointer_from v [] = Some v"
| "pointer_from (JObj kvs) (t # ts) =
     (case map_of kvs t of None \<Rightarrow> None | Some child \<Rightarrow> pointer_from child ts)"
| "pointer_from (JArr vs) (t # ts) =
     (case arrayIndex t of
        None \<Rightarrow> None
      | Some i \<Rightarrow> if i \<ge> length vs then None else pointer_from (vs ! i) ts)"
| "pointer_from _ (t # ts) = None"

definition patchPointer :: "json \<Rightarrow> string \<Rightarrow> json option" where
  "patchPointer v path = pointer_from v (pointerTokens path)"

fun array_pointer_ok :: "bool \<Rightarrow> json \<Rightarrow> string list \<Rightarrow> bool" where
  "array_pointer_ok app v [] = True"
| "array_pointer_ok app (JObj kvs) (t # ts) =
     (case map_of kvs t of None \<Rightarrow> True | Some child \<Rightarrow> array_pointer_ok app child ts)"
| "array_pointer_ok app (JArr vs) (t # ts) =
     (if t = ''-'' \<and> ts = [] \<and> app then True
      else (case arrayIndex t of
              None \<Rightarrow> False
            | Some i \<Rightarrow> if i \<ge> length vs then True else array_pointer_ok app (vs ! i) ts))"
| "array_pointer_ok app _ (t # ts) = True"

definition validateArrayPointer :: "json \<Rightarrow> string \<Rightarrow> bool \<Rightarrow> bool" where
  "validateArrayPointer v path app = array_pointer_ok app v (pointerTokens path)"

section \<open>Applying a patch\<close>

datatype json_patch_error =
    PatchInvalid
  | PatchNotOperations
  | PatchNotWrapped
  | MoveIntoDescendant
  | BadArrayIndex
  | NoPatchValue
  | PatchTestFailed string
  | PatchLibrary

definition state_key :: string where "state_key = ''__agui_state''"

text \<open>\<open>json.Unmarshal(operation[k], &s)\<close> with its error ignored: anything but a string leaves \<open>""\<close>.\<close>

definition op_string :: "obj \<Rightarrow> string \<Rightarrow> string" where
  "op_string operation k = (case map_of operation k of Some (JStr s) \<Rightarrow> s | _ \<Rightarrow> [])"

text \<open>A document read as \<open>map[string]json.RawMessage\<close>, and a member that is missing read as \<open>null\<close>.\<close>

definition as_members :: "json \<Rightarrow> obj option" where
  "as_members v = (case v of JObj kvs \<Rightarrow> Some kvs | JNull \<Rightarrow> Some [] | _ \<Rightarrow> None)"

definition member_or_null :: "obj \<Rightarrow> string \<Rightarrow> json" where
  "member_or_null kvs k = (case map_of kvs k of None \<Rightarrow> JNull | Some v \<Rightarrow> v)"

definition adjust_operation :: "string \<Rightarrow> string \<Rightarrow> string \<Rightarrow> obj \<Rightarrow> obj" where
  "adjust_operation kind path from_path operation =
     (let adjusted = AList.update ''path'' (JStr (CHR ''/'' # state_key @ path)) operation
      in if kind = ''move'' \<or> kind = ''copy''
         then AList.update ''from'' (JStr (CHR ''/'' # state_key @ from_path)) adjusted
         else adjusted)"

text \<open>One turn of the loop over the operations.\<close>

definition patch_operation :: "(json \<Rightarrow> obj \<Rightarrow> json option) \<Rightarrow> json \<Rightarrow> obj \<Rightarrow> json_patch_error + json" where
  "patch_operation lib wrapped operation =
     (let kind = op_string operation ''op''; path = op_string operation ''path'';
          from_path = op_string operation ''from''
      in case as_members wrapped of
           None \<Rightarrow> Inl PatchNotWrapped
         | Some current \<Rightarrow>
             let value = member_or_null current state_key
             in if kind = ''move'' \<and> properPointerPrefix from_path path then Inl MoveIntoDescendant
                else if \<not> validateArrayPointer value path (kind = ''add'' \<or> kind = ''copy'' \<or> kind = ''move'')
                then Inl BadArrayIndex
                else if (kind = ''move'' \<or> kind = ''copy'') \<and> \<not> validateArrayPointer value from_path False
                then Inl BadArrayIndex
                else if kind = ''test''
                then (case map_of operation ''value'' of
                        None \<Rightarrow> Inl NoPatchValue
                      | Some expected \<Rightarrow>
                          (case patchPointer value path of
                             None \<Rightarrow> Inl (PatchTestFailed path)
                           | Some actual \<Rightarrow>
                               if patchEqual actual expected then Inr wrapped else Inl (PatchTestFailed path)))
                else (case lib wrapped (adjust_operation kind path from_path operation) of
                        None \<Rightarrow> Inl PatchLibrary
                      | Some w \<Rightarrow> if kind = ''remove'' \<and> path = [] then Inr (JObj [(state_key, JNull)]) else Inr w))"

fun patch_operations :: "(json \<Rightarrow> obj \<Rightarrow> json option) \<Rightarrow> json \<Rightarrow> obj list \<Rightarrow> json_patch_error + json" where
  "patch_operations lib wrapped [] = Inr wrapped"
| "patch_operations lib wrapped (operation # rest) =
     (case patch_operation lib wrapped operation of
        Inl e \<Rightarrow> Inl e
      | Inr w \<Rightarrow> patch_operations lib w rest)"

fun all_members :: "json list \<Rightarrow> obj list option" where
  "all_members [] = Some []"
| "all_members (v # vs) =
     (case (as_members v, all_members vs) of (Some m, Some ms) \<Rightarrow> Some (m # ms) | _ \<Rightarrow> None)"

definition ApplyPatchJSON ::
  "(obj \<Rightarrow> bool) \<Rightarrow> (json \<Rightarrow> obj \<Rightarrow> json option) \<Rightarrow> json \<Rightarrow> json \<Rightarrow> json_patch_error + json" where
  "ApplyPatchJSON valid_event lib state patch =
     (if \<not> valid_event [(''type'', JStr ''STATE_DELTA''), (''delta'', patch)] then Inl PatchInvalid
      else case (case patch of JArr vs \<Rightarrow> all_members vs | JNull \<Rightarrow> Some [] | _ \<Rightarrow> None) of
             None \<Rightarrow> Inl PatchNotOperations
           | Some operations \<Rightarrow>
               (case patch_operations lib (JObj [(state_key, state)]) operations of
                  Inl e \<Rightarrow> Inl e
                | Inr w \<Rightarrow>
                    (case as_members w of
                       None \<Rightarrow> Inl PatchNotWrapped
                     | Some result \<Rightarrow> Inr (member_or_null result state_key))))"

section \<open>Pointers and reference tokens\<close>

text \<open>The pointer of RFC 6901 that names a list of reference tokens.\<close>

definition escape_char :: "char \<Rightarrow> string" where
  "escape_char c = (if c = CHR ''~'' then ''~0'' else if c = CHR ''/'' then ''~1'' else [c])"

definition escape_token :: "string \<Rightarrow> string" where
  "escape_token t = concat (map escape_char t)"

definition pointer_of :: "string list \<Rightarrow> string" where
  "pointer_of ts = concat (map (\<lambda>t. CHR ''/'' # escape_token t) ts)"

lemma ReplaceAll2_other [simp]: "x \<noteq> a \<Longrightarrow> ReplaceAll2 a b c (x # s) = x # ReplaceAll2 a b c s"
  by (cases s) auto

text \<open>After \<open>~1\<close> is replaced only the tildes of the token are still escaped.\<close>

lemma replace_slash:
  "ReplaceAll2 (CHR ''~'') (CHR ''1'') (CHR ''/'') (escape_token t)
   = concat (map (\<lambda>c. if c = CHR ''~'' then ''~0'' else [c]) t)"
  by (induction t) (auto simp: escape_token_def escape_char_def)

lemma replace_tilde:
  "ReplaceAll2 (CHR ''~'') (CHR ''0'') (CHR ''~'') (concat (map (\<lambda>c. if c = CHR ''~'' then ''~0'' else [c]) t)) = t"
  by (induction t) auto

lemma escape_no_slash: "CHR ''/'' \<notin> set (escape_token t)"
  by (induction t) (auto simp: escape_token_def escape_char_def)

lemma Split_prefix: "sep \<notin> set w \<Longrightarrow> Split sep (w @ sep # s) = w # Split sep s"
  by (induction w) auto

lemma Split_word: "sep \<notin> set w \<Longrightarrow> Split sep w = [w]"
  by (induction w) auto

lemma Split_pointer: "Split (CHR ''/'') (escape_token t @ pointer_of ts) = map escape_token (t # ts)"
proof (induction ts arbitrary: t)
  case Nil
  then show ?case by (simp add: pointer_of_def Split_word escape_no_slash)
next
  case (Cons u ts)
  have "escape_token t @ pointer_of (u # ts) = escape_token t @ CHR ''/'' # (escape_token u @ pointer_of ts)"
    by (simp add: pointer_of_def)
  then show ?case using Cons.IH [of u] Split_prefix [OF escape_no_slash, of t] by simp
qed

lemma pointerTokens_pointer_of: "pointerTokens (pointer_of ts) = ts"
proof (cases ts)
  case Nil
  then show ?thesis by (simp add: pointerTokens_def pointer_of_def)
next
  case (Cons t us)
  then have "pointer_of ts = CHR ''/'' # (escape_token t @ pointer_of us)" by (simp add: pointer_of_def)
  then have "pointerTokens (pointer_of ts)
      = map (\<lambda>p. ReplaceAll2 (CHR ''~'') (CHR ''0'') (CHR ''~'')
                   (ReplaceAll2 (CHR ''~'') (CHR ''1'') (CHR ''/'') p)) (map escape_token (t # us))"
    using Split_pointer [of t us] by (simp add: pointerTokens_def)
  also have "\<dots> = t # us" by (simp add: replace_slash replace_tilde map_idI)
  finally show ?thesis using Cons by simp
qed

lemma properPointerPrefix_iff:
  "properPointerPrefix a b \<longleftrightarrow> strict_prefix (pointerTokens a) (pointerTokens b)"
proof -
  let ?a = "pointerTokens a" and ?b = "pointerTokens b"
  have "(length ?a < length ?b \<and> (\<forall>i < length ?a. ?a ! i = ?b ! i)) \<longleftrightarrow> strict_prefix ?a ?b" (is "?l \<longleftrightarrow> _")
  proof
    assume l: ?l
    then have "?a = take (length ?a) ?b" by (simp add: list_eq_iff_nth_eq)
    then show "strict_prefix ?a ?b" using l by (metis nat_neq_iff prefix_order.le_less take_is_prefix)
  next
    assume "strict_prefix ?a ?b"
    then show ?l by (auto elim!: strict_prefixE' simp: nth_append)
  qed
  then show ?thesis by (auto simp: properPointerPrefix_def Let_def list_all_iff)
qed

text \<open>Escaping the tokens of a location and joining them with slashes gives a pointer from which the code reads
  the same tokens back, whatever bytes the tokens hold: the empty token, \<open>~\<close>, \<open>/\<close> and \<open>~1\<close> included.\<close>

theorem pointerTokens_roundtrip: "pointerTokens (pointer_of ts) = ts"
  by (rule pointerTokens_pointer_of)

section \<open>Operations that test\<close>

definition is_test :: "obj \<Rightarrow> bool" where
  "is_test operation \<longleftrightarrow> op_string operation ''op'' = ''test''"

text \<open>A test holds of a state: its pointer is well formed, names a member, and the member means the value.\<close>

definition test_holds :: "json \<Rightarrow> obj \<Rightarrow> bool" where
  "test_holds state operation \<longleftrightarrow>
     validateArrayPointer state (op_string operation ''path'') False \<and>
     (\<exists>actual expected. patchPointer state (op_string operation ''path'') = Some actual
        \<and> map_of operation ''value'' = Some expected \<and> denote actual = denote expected)"

lemma pointer_from_ok: "json_ok v \<Longrightarrow> pointer_from v ts = Some w \<Longrightarrow> json_ok w"
proof (induction v ts arbitrary: w rule: pointer_from.induct)
  case (2 kvs t ts)
  then show ?case
    by (auto simp: json_ok_obj split: option.splits simp del: json_ok.simps dest!: map_of_SomeD)
next
  case (3 vs t ts)
  then show ?case by (auto simp: json_ok_arr split: option.splits if_splits simp del: json_ok.simps)
qed auto

lemma patch_operation_test:
  assumes "is_test operation" "json_ok state" "json_ok (JObj operation)"
  shows "(\<exists>w. patch_operation lib (JObj [(state_key, state)]) operation = Inr w)
           \<longleftrightarrow> test_holds state operation"
    and "patch_operation lib (JObj [(state_key, state)]) operation = Inr w
           \<Longrightarrow> w = JObj [(state_key, state)]"
proof -
  have eq: "patchEqual a e \<longleftrightarrow> denote a = denote e"
    if "patchPointer state (op_string operation ''path'') = Some a" "map_of operation ''value'' = Some e" for a e
    using that assms
    by (intro patchEqual_denote) (auto simp: patchPointer_def json_ok_obj dest: pointer_from_ok map_of_SomeD
        simp del: json_ok.simps)
  show "(\<exists>w. patch_operation lib (JObj [(state_key, state)]) operation = Inr w) \<longleftrightarrow> test_holds state operation"
    using assms(1) eq
    by (auto simp: patch_operation_def is_test_def test_holds_def Let_def as_members_def member_or_null_def
        split: option.splits)
  show "patch_operation lib (JObj [(state_key, state)]) operation = Inr w \<Longrightarrow> w = JObj [(state_key, state)]"
    using assms(1)
    by (auto simp: patch_operation_def is_test_def Let_def as_members_def split: option.splits if_splits)
qed

lemma patch_operations_tests:
  assumes "\<forall>operation \<in> set ops. is_test operation \<and> json_ok (JObj operation)" "json_ok state"
  shows "(\<exists>w. patch_operations lib (JObj [(state_key, state)]) ops = Inr w)
           \<longleftrightarrow> (\<forall>operation \<in> set ops. test_holds state operation)"
    and "patch_operations lib (JObj [(state_key, state)]) ops = Inr w \<Longrightarrow> w = JObj [(state_key, state)]"
  using assms(1)
proof (induction ops)
  case (Cons operation ops)
  note T = patch_operation_test [of operation state lib]
  case 1
  then show ?case
    using Cons.IH(1) T assms(2)
    by (cases "patch_operation lib (JObj [(state_key, state)]) operation") auto
  case 2
  then show ?case
    using Cons.IH(2) T assms(2)
    by (cases "patch_operation lib (JObj [(state_key, state)]) operation") auto
qed simp_all

lemma all_members_JObj: "all_members (map JObj ops) = Some ops"
  by (induction ops) (auto simp: as_members_def)

text \<open>C1: A patch made of tests only never changes the state and never reaches the patch library: it is accepted
  exactly when the schema accepts it and every test's pointer names a member that means the expected value.\<close>

theorem ApplyPatchJSON_tests:
  assumes "json_ok state" "\<forall>operation \<in> set ops. is_test operation \<and> json_ok (JObj operation)"
    and "valid_event [(''type'', JStr ''STATE_DELTA''), (''delta'', JArr (map JObj ops))]"
  shows "ApplyPatchJSON valid_event lib state (JArr (map JObj ops)) = Inr v
    \<longleftrightarrow> v = state \<and> (\<forall>operation \<in> set ops. test_holds state operation)"
  using patch_operations_tests [OF assms(2,1), of lib] assms(3)
  by (cases "patch_operations lib (JObj [(state_key, state)]) ops")
    (auto simp: ApplyPatchJSON_def all_members_JObj as_members_def member_or_null_def)

lemma ApplyPatchJSON_tests_witness:
  "ApplyPatchJSON (\<lambda>_. True) (\<lambda>_ _. None) (JArr [JNum ''1.0''])
     (JArr (map JObj [[(''op'', JStr ''test''), (''path'', JStr ''/0''), (''value'', JNum ''10e-1'')]])) = Inr (JArr [JNum ''1.0''])
   \<longleftrightarrow> JArr [JNum ''1.0''] = JArr [JNum ''1.0'']
     \<and> (\<forall>operation \<in> set [[(''op'', JStr ''test''), (''path'', JStr ''/0''), (''value'', JNum ''10e-1'')]].
          test_holds (JArr [JNum ''1.0'']) operation)"
  by (rule ApplyPatchJSON_tests) code_simp+

lemma demo_patch:
  "ApplyPatchJSON (\<lambda>_. True) (\<lambda>_ _. None) (JArr [JNum ''1.0''])
     (JArr [JObj [(''op'', JStr ''test''), (''path'', JStr ''/0''), (''value'', JNum ''10e-1'')]])
   = Inr (JArr [JNum ''1.0''])"
  "ApplyPatchJSON (\<lambda>_. True) (\<lambda>_ _. None) (JArr [JNum ''1.0''])
     (JArr [JObj [(''op'', JStr ''test''), (''path'', JStr ''/00''), (''value'', JNum ''1'')]])
   = Inl BadArrayIndex"
  "ApplyPatchJSON (\<lambda>_. True) (\<lambda>_ _. None) (JObj [])
     (JArr [JObj [(''op'', JStr ''move''), (''from'', JStr ''/a''), (''path'', JStr ''/a/b'')]])
   = Inl MoveIntoDescendant"
  by code_simp+

end
