(* ===== verification/AguiProjection.thy ===== *)
theory AguiProjection
  imports AguiPatch
begin

text \<open>
  The projection of AG-UI events into messages and shared state, \<open>runtime/aguistate/projection.go\<close> and
  \<open>history.go\<close>: the state, and what one normalized event does to it (\<open>apply\<close>). Maps from names are
  association lists; the owners of entities are keyed by kind and id together, and the key of a step is the
  pair \<open>stepKey\<close> encodes. A write to a nil map is the error \<open>GoPanic\<close>. Parameters (\<open>agui_env\<close>): the
  schema's verdict on an event and the JSON Patch library.
\<close>

section \<open>The state\<close>

record chunk =
  ck_Kind :: string
  ck_ID :: string
  ck_Fields :: obj

record Projection =
  p_State :: json
  p_Messages :: "obj list"
  p_Errored :: bool
  p_ReasoningMessages :: "(string \<times> string) list"
  p_Owners :: "((string \<times> string) \<times> string) list"
  p_Running :: bool
  p_ThreadID :: string
  p_RunID :: string
  p_Text :: "(string \<times> string) list"
  p_Tools :: "(string \<times> string) list"
  p_ToolParents :: "(string \<times> string) list"
  p_Steps :: "((string \<times> string) \<times> bool) list"
  p_Reasoning :: "(string \<times> string) list"
  p_Subagents :: "(string \<times> bool) list"
  p_Chunks :: "(string \<times> chunk) list"
  p_ChunkOrder :: "string list"

record agui_env =
  valid_event :: "obj \<Rightarrow> bool"
  valid_message :: "obj \<Rightarrow> bool"
  patch_library :: "json \<Rightarrow> obj \<Rightarrow> json option"

datatype agui_error =
    InvalidEvent
  | InvalidInput
  | AfterRunError
  | RunAlreadyActive
  | OutsideRun
  | RunIdentityMismatch
  | RunEndedOpen
  | MessageAlreadyOpen
  | MessageNotOpen
  | OwnerDisagrees
  | ToolAlreadyOpen
  | ToolNotOpen
  | SpanState
  | StepState
  | SubagentState
  | PatchFailed json_patch_error
  | ActivityNotObject
  | NotNormalized
  | ChunkOwnerChanged
  | AmbiguousChunk
  | ChunkNeedsIdentity
  | ChunkFieldChanged string
  | ChunkNeedsName
  | GoPanic

section \<open>Objects\<close>

definition field :: "obj \<Rightarrow> string \<Rightarrow> string" where
  "field ob k = (case map_of ob k of Some (JStr s) \<Rightarrow> s | _ \<Rightarrow> [])"

text \<open>\<open>object(o[k])\<close>\<close>

definition get_object :: "obj \<Rightarrow> string \<Rightarrow> obj option" where
  "get_object ob k = (case map_of ob k of Some (JObj kvs) \<Rightarrow> Some kvs | _ \<Rightarrow> None)"

definition has_key :: "obj \<Rightarrow> string \<Rightarrow> bool" where
  "has_key ob k \<longleftrightarrow> map_of ob k \<noteq> None"

definition put :: "string \<Rightarrow> json \<Rightarrow> obj \<Rightarrow> obj" where
  "put k v ob = AList.update k v ob"

definition mergeMetadata :: "obj \<Rightarrow> obj \<Rightarrow> obj" where
  "mergeMetadata target e =
     (case get_object e ''metadata'' of
        None \<Rightarrow> target
      | Some incoming \<Rightarrow>
          let metadata = (case get_object target ''metadata'' of None \<Rightarrow> [] | Some m \<Rightarrow> m)
          in put ''metadata'' (JObj (fold (\<lambda>kv. put (fst kv) (snd kv)) incoming metadata)) target)"

definition lane :: "obj \<Rightarrow> string" where
  "lane ob = field ob ''subagentRunId''"

definition tagged :: "obj \<Rightarrow> bool" where
  "tagged ob \<longleftrightarrow> has_key ob ''subagentRunId''"

definition ownerKey :: "obj \<Rightarrow> string" where
  "ownerKey ob = (if tagged ob then ''tag:'' @ field ob ''subagentRunId'' else ''parent:'')"

definition attribution :: "string \<Rightarrow> string" where
  "attribution owner = (case strip_prefix ''tag:'' owner of Some r \<Rightarrow> r | None \<Rightarrow> [])"

definition stepKey :: "obj \<Rightarrow> string \<times> string" where
  "stepKey ob = (ownerKey ob, field ob ''stepName'')"

definition inherit :: "obj \<Rightarrow> string list \<Rightarrow> obj \<Rightarrow> obj" where
  "inherit src ks dst =
     fold (\<lambda>k d. case map_of src k of None \<Rightarrow> d | Some v \<Rightarrow> put k v d) ks dst"

text \<open>\<open>m["toolCalls"].([]any)\<close>, an absent or other value giving no calls.\<close>

definition tool_calls :: "obj \<Rightarrow> json list" where
  "tool_calls m = (case map_of m ''toolCalls'' of Some (JArr vs) \<Rightarrow> vs | _ \<Rightarrow> [])"

definition is_call :: "string \<Rightarrow> json \<Rightarrow> bool" where
  "is_call i v = (case v of JObj c \<Rightarrow> field c ''id'' = i | _ \<Rightarrow> False)"

text \<open>Changing the first element of a kind where it stands.\<close>

fun update_first :: "('a \<Rightarrow> bool) \<Rightarrow> ('a \<Rightarrow> 'a) \<Rightarrow> 'a list \<Rightarrow> 'a list" where
  "update_first P f [] = []"
| "update_first P f (x # xs) = (if P x then f x # xs else x # update_first P f xs)"

definition has_id :: "string \<Rightarrow> obj \<Rightarrow> bool" where
  "has_id i m \<longleftrightarrow> field m ''id'' = i"

definition message :: "obj list \<Rightarrow> string \<Rightarrow> obj option" where
  "message ms i = find (has_id i) ms"

definition set_message :: "string \<Rightarrow> (obj \<Rightarrow> obj) \<Rightarrow> obj list \<Rightarrow> obj list" where
  "set_message i f ms = update_first (has_id i) f ms"

text \<open>\<open>tool\<close>: the first call of that id in the first assistant message that has one.\<close>

definition owns_call :: "string \<Rightarrow> obj \<Rightarrow> bool" where
  "owns_call i m \<longleftrightarrow> field m ''role'' = ''assistant'' \<and> list_ex (is_call i) (tool_calls m)"

definition tool :: "obj list \<Rightarrow> string \<Rightarrow> obj option" where
  "tool ms i =
     (case find (owns_call i) ms of
        None \<Rightarrow> None
      | Some m \<Rightarrow> (case find (is_call i) (tool_calls m) of Some (JObj c) \<Rightarrow> Some c | _ \<Rightarrow> None))"

definition map_obj :: "(obj \<Rightarrow> obj) \<Rightarrow> json \<Rightarrow> json" where
  "map_obj f v = (case v of JObj c \<Rightarrow> JObj (f c) | _ \<Rightarrow> v)"

definition set_tool :: "string \<Rightarrow> (obj \<Rightarrow> obj) \<Rightarrow> obj list \<Rightarrow> obj list" where
  "set_tool i f ms =
     update_first (owns_call i)
       (\<lambda>m. put ''toolCalls'' (JArr (update_first (is_call i) (map_obj f) (tool_calls m))) m) ms"

section \<open>Owners\<close>

definition owner :: "Projection \<Rightarrow> string \<Rightarrow> string \<Rightarrow> string option" where
  "owner p kind i = map_of (p_Owners p) (kind, i)"

definition set_owner :: "string \<Rightarrow> string \<Rightarrow> string \<Rightarrow> Projection \<Rightarrow> Projection" where
  "set_owner kind i w p = p\<lparr>p_Owners := AList.update (kind, i) w (p_Owners p)\<rparr>"

definition checkOwner :: "Projection \<Rightarrow> string \<Rightarrow> string \<Rightarrow> obj \<Rightarrow> bool" where
  "checkOwner p kind i e =
     (if \<not> tagged e then True
      else (case owner p kind i of None \<Rightarrow> True | Some w \<Rightarrow> w = ownerKey e))"

definition ensure_owner :: "string \<Rightarrow> string \<Rightarrow> string \<Rightarrow> Projection \<Rightarrow> Projection" where
  "ensure_owner kind i w p = (if owner p kind i = None then set_owner kind i w p else p)"

definition seed :: "bool \<Rightarrow> string \<Rightarrow> string \<Rightarrow> string \<Rightarrow> Projection \<Rightarrow> Projection" where
  "seed authoritative kind i w p =
     (if authoritative \<or> owner p kind i = None then set_owner kind i w p else p)"

definition message_kind :: "obj \<Rightarrow> string" where
  "message_kind m =
     (let role = field m ''role'' in if role = ''reasoning'' \<or> role = ''activity'' then role else ''message'')"

definition seed_message :: "bool \<Rightarrow> obj \<Rightarrow> Projection \<Rightarrow> Projection" where
  "seed_message authoritative m p =
     fold (\<lambda>v q. case v of JObj c \<Rightarrow> seed authoritative ''tool'' (field c ''id'') (ownerKey m) q | _ \<Rightarrow> q)
       (tool_calls m) (seed authoritative (message_kind m) (field m ''id'') (ownerKey m) p)"

definition seedOwners :: "obj list \<Rightarrow> bool \<Rightarrow> Projection \<Rightarrow> Projection" where
  "seedOwners ms authoritative p = fold (seed_message authoritative) ms p"

definition index_tools :: "obj list \<Rightarrow> (string \<times> string) list" where
  "index_tools ms =
     fold (\<lambda>m acc. fold (\<lambda>v acc. case v of JObj c \<Rightarrow> AList.update (field c ''id'') (field m ''id'') acc | _ \<Rightarrow> acc)
                        (tool_calls m) acc) ms []"

definition indexTools :: "Projection \<Rightarrow> Projection" where
  "indexTools p = p\<lparr>p_ToolParents := index_tools (p_Messages p)\<rparr>"

text \<open>\<open>New\<close>. The two texts are taken decoded; \<open>None\<close> stands for an empty text.\<close>

definition decode_objects :: "json \<Rightarrow> obj list option" where
  "decode_objects v = (case v of JArr vs \<Rightarrow> all_members vs | JNull \<Rightarrow> Some [] | _ \<Rightarrow> None)"

definition empty_projection :: Projection where
  "empty_projection =
     \<lparr>p_State = JObj [], p_Messages = [], p_Errored = False, p_ReasoningMessages = [], p_Owners = [],
      p_Running = False, p_ThreadID = [], p_RunID = [], p_Text = [], p_Tools = [], p_ToolParents = [],
      p_Steps = [], p_Reasoning = [], p_Subagents = [], p_Chunks = [], p_ChunkOrder = []\<rparr>"

definition New :: "agui_env \<Rightarrow> json option \<Rightarrow> json option \<Rightarrow> agui_error + Projection" where
  "New env state messages =
     (let p = (case state of None \<Rightarrow> empty_projection | Some s \<Rightarrow> empty_projection\<lparr>p_State := s\<rparr>)
      in case (case messages of None \<Rightarrow> Some [] | Some ms \<Rightarrow> decode_objects ms) of
           None \<Rightarrow> Inl InvalidInput
         | Some ms \<Rightarrow>
             if \<not> list_all (valid_message env) ms then Inl InvalidInput
             else Inr (p\<lparr>p_Messages := ms, p_ToolParents := index_tools ms\<rparr>))"

definition Snapshot :: "Projection \<Rightarrow> json \<times> json" where
  "Snapshot p = (p_State p, JArr (map JObj (p_Messages p)))"

section \<open>Runs\<close>

definition RunStarted :: "obj \<Rightarrow> Projection \<Rightarrow> agui_error + Projection" where
  "RunStarted e p =
     (if p_Running p then Inl RunAlreadyActive
      else
        let p = p\<lparr>p_Errored := False, p_Owners := [], p_ReasoningMessages := [], p_Text := [], p_Tools := [],
                  p_Steps := [], p_Reasoning := [], p_Subagents := [], p_Running := True,
                  p_ThreadID := field e ''threadId'', p_RunID := field e ''runId''\<rparr>
        in case get_object e ''input'' of
             None \<Rightarrow> Inr (indexTools p)
           | Some input \<Rightarrow>
               (case decode_objects (member_or_null input ''messages'') of
                  None \<Rightarrow> Inl InvalidInput
                | Some history \<Rightarrow>
                    let p = seedOwners history False p
                    in Inr (indexTools
                         (p\<lparr>p_Messages := fold (\<lambda>m ms. if message ms (field m ''id'') = None then ms @ [m] else ms)
                                                history (p_Messages p)\<rparr>))))"

definition RunEnded :: "string \<Rightarrow> obj \<Rightarrow> Projection \<Rightarrow> agui_error + Projection" where
  "RunEnded typ e p =
     (if typ = ''RUN_FINISHED'' \<and> (field e ''threadId'' \<noteq> p_ThreadID p \<or> field e ''runId'' \<noteq> p_RunID p)
      then Inl RunIdentityMismatch
      else if typ = ''RUN_FINISHED'' \<and>
              (p_Text p \<noteq> [] \<or> p_ReasoningMessages p \<noteq> [] \<or> p_Tools p \<noteq> [] \<or> p_Steps p \<noteq> [] \<or> p_Reasoning p \<noteq> [])
      then Inl RunEndedOpen
      else if typ = ''RUN_FINISHED'' \<and> list_ex snd (p_Subagents p) then Inl RunEndedOpen
      else Inr (p\<lparr>p_Running := False, p_Errored := (typ = ''RUN_ERROR'')\<rparr>))"

section \<open>Text and reasoning messages\<close>

text \<open>The map of open messages and the kind of owner: \<open>Text\<close> or \<open>ReasoningMessages\<close>.\<close>

definition open_messages :: "bool \<Rightarrow> Projection \<Rightarrow> (string \<times> string) list" where
  "open_messages reasoning p = (if reasoning then p_ReasoningMessages p else p_Text p)"

definition set_open :: "bool \<Rightarrow> (string \<times> string) list \<Rightarrow> Projection \<Rightarrow> Projection" where
  "set_open reasoning m p = (if reasoning then p\<lparr>p_ReasoningMessages := m\<rparr> else p\<lparr>p_Text := m\<rparr>)"

definition kind_of :: "bool \<Rightarrow> string" where
  "kind_of reasoning = (if reasoning then ''reasoning'' else ''message'')"

definition MessageStart :: "bool \<Rightarrow> obj \<Rightarrow> Projection \<Rightarrow> agui_error + Projection" where
  "MessageStart reasoning e p =
     (let i = field e ''messageId''; kind = kind_of reasoning
      in if map_of (open_messages reasoning p) i \<noteq> None then Inl MessageAlreadyOpen
         else if \<not> checkOwner p kind i e then Inl OwnerDisagrees
         else
           let p = ensure_owner kind i (ownerKey e) p;
               w = (case owner p kind i of Some w \<Rightarrow> w | None \<Rightarrow> []);
               p = set_open reasoning (AList.update i (attribution w) (open_messages reasoning p)) p
           in if message (p_Messages p) i \<noteq> None then Inr p
              else
                let role = (if reasoning then ''reasoning''
                            else if field e ''role'' = [] then ''assistant'' else field e ''role'');
                    m = inherit e [''name'', ''subagentRunId'']
                          [(''id'', JStr i), (''role'', JStr role), (''content'', JStr [])]
                in Inr (p\<lparr>p_Messages := p_Messages p @ [m]\<rparr>))"

definition append_content :: "string \<Rightarrow> obj \<Rightarrow> obj" where
  "append_content delta m =
     (if field m ''role'' \<noteq> ''activity'' then put ''content'' (JStr (field m ''content'' @ delta)) m else m)"

definition MessageContent :: "bool \<Rightarrow> obj \<Rightarrow> Projection \<Rightarrow> agui_error + Projection" where
  "MessageContent reasoning e p =
     (let i = field e ''messageId''
      in if map_of (open_messages reasoning p) i = None then Inl MessageNotOpen
         else if \<not> checkOwner p (kind_of reasoning) i e then Inl OwnerDisagrees
         else Inr (p\<lparr>p_Messages := set_message i (append_content (field e ''delta'')) (p_Messages p)\<rparr>))"

definition MessageEnd :: "bool \<Rightarrow> obj \<Rightarrow> Projection \<Rightarrow> agui_error + Projection" where
  "MessageEnd reasoning e p =
     (let i = field e ''messageId''
      in if map_of (open_messages reasoning p) i = None then Inl MessageNotOpen
         else if \<not> checkOwner p (kind_of reasoning) i e then Inl OwnerDisagrees
         else Inr (set_open reasoning (AList.delete i (open_messages reasoning p)) p))"

section \<open>Tool calls\<close>

text \<open>The owner a call takes: its own, its parent message's when it has no tag, or what was recorded.\<close>

definition tool_owner :: "obj \<Rightarrow> Projection \<Rightarrow> agui_error + string" where
  "tool_owner e p =
     (let i = field e ''toolCallId'';
          parentOwner = (if has_key e ''parentMessageId'' then owner p ''message'' (field e ''parentMessageId'')
                         else None)
      in if parentOwner \<noteq> None \<and> tagged e \<and> parentOwner \<noteq> Some (ownerKey e) then Inl OwnerDisagrees
         else if \<not> checkOwner p ''tool'' i e then Inl OwnerDisagrees
         else case owner p ''tool'' i of
                Some w \<Rightarrow>
                  if parentOwner \<noteq> None \<and> \<not> tagged e \<and> parentOwner \<noteq> Some w then Inl OwnerDisagrees else Inr w
              | None \<Rightarrow>
                  Inr (case parentOwner of
                         Some pw \<Rightarrow> if tagged e then ownerKey e else pw
                       | None \<Rightarrow> ownerKey e))"

definition new_call :: "string \<Rightarrow> obj \<Rightarrow> json" where
  "new_call i e =
     JObj [(''id'', JStr i), (''type'', JStr ''function''),
           (''function'', JObj [(''name'', member_or_null e ''toolCallName''), (''arguments'', JStr [])])]"

definition add_call :: "json \<Rightarrow> obj \<Rightarrow> obj" where
  "add_call c m = put ''toolCalls'' (JArr (tool_calls m @ [c])) m"

definition ToolStart :: "obj \<Rightarrow> Projection \<Rightarrow> agui_error + Projection" where
  "ToolStart e p =
     (let i = field e ''toolCallId''
      in if map_of (p_Tools p) i \<noteq> None then Inl ToolAlreadyOpen
         else case tool_owner e p of
                Inl err \<Rightarrow> Inl err
              | Inr w \<Rightarrow>
                  let p = ensure_owner ''tool'' i w p;
                      p = p\<lparr>p_Tools := AList.update i (attribution w) (p_Tools p)\<rparr>
                  in case tool (p_Messages p) i of
                       Some existing \<Rightarrow>
                         (case get_object existing ''function'' of
                            None \<Rightarrow> Inl GoPanic
                          | Some f \<Rightarrow>
                              Inr (p\<lparr>p_Messages := set_tool i
                                     (put ''function'' (JObj (put ''name'' (member_or_null e ''toolCallName'') f)))
                                     (p_Messages p)\<rparr>))
                     | None \<Rightarrow>
                         let parentID = field e ''parentMessageId'';
                             parent = message (p_Messages p) parentID;
                             other = (case parent of None \<Rightarrow> False | Some m \<Rightarrow> field m ''role'' \<noteq> ''assistant'')
                         in if parentID \<noteq> [] \<and> \<not> other \<and> parent \<noteq> None
                            then Inr (p\<lparr>p_Messages := set_message parentID (add_call (new_call i e)) (p_Messages p),
                                        p_ToolParents := AList.update i parentID (p_ToolParents p)\<rparr>)
                            else
                              let parentID = (if parentID = [] \<or> other then i else parentID);
                                  m = inherit e [''subagentRunId'']
                                        [(''id'', JStr parentID), (''role'', JStr ''assistant''), (''toolCalls'', JArr [])]
                              in Inr (p\<lparr>p_Messages := p_Messages p @ [add_call (new_call i e) m],
                                        p_ToolParents := AList.update i parentID (p_ToolParents p)\<rparr>))"

definition ToolArgs :: "obj \<Rightarrow> Projection \<Rightarrow> agui_error + Projection" where
  "ToolArgs e p =
     (let i = field e ''toolCallId''
      in if map_of (p_Tools p) i = None then Inl ToolNotOpen
         else if \<not> checkOwner p ''tool'' i e then Inl OwnerDisagrees
         else case tool (p_Messages p) i of
                None \<Rightarrow> Inr p
              | Some call \<Rightarrow>
                  (case get_object call ''function'' of
                     None \<Rightarrow> Inl GoPanic
                   | Some f \<Rightarrow>
                       Inr (p\<lparr>p_Messages := set_tool i
                              (put ''function'' (JObj (put ''arguments'' (JStr (field f ''arguments'' @ field e ''delta'')) f)))
                              (p_Messages p)\<rparr>)))"

definition ToolEnd :: "obj \<Rightarrow> Projection \<Rightarrow> agui_error + Projection" where
  "ToolEnd e p =
     (let i = field e ''toolCallId''
      in if map_of (p_Tools p) i = None then Inl ToolNotOpen
         else if \<not> checkOwner p ''tool'' i e then Inl OwnerDisagrees
         else Inr (p\<lparr>p_Tools := AList.delete i (p_Tools p)\<rparr>))"

text \<open>Where a result goes: after the tool messages that follow the message owning the call, or at the end.\<close>

fun result_index :: "string \<Rightarrow> obj list \<Rightarrow> nat" where
  "result_index i [] = 0"
| "result_index i (m # ms) =
     (if owns_call i m then Suc (length (takeWhile (\<lambda>q. field q ''role'' = ''tool'') ms))
      else Suc (result_index i ms))"

definition ToolResult :: "obj \<Rightarrow> Projection \<Rightarrow> agui_error + Projection" where
  "ToolResult e p =
     (let i = field e ''messageId''; callID = field e ''toolCallId'';
          p = set_owner ''message'' i (ownerKey e) p;
          m = mergeMetadata (inherit e [''subagentRunId'']
                [(''id'', JStr i), (''role'', JStr ''tool''), (''toolCallId'', JStr callID),
                 (''content'', member_or_null e ''content'')]) e;
          n = result_index callID (p_Messages p)
      in Inr (p\<lparr>p_Messages := take n (p_Messages p) @ m # drop n (p_Messages p)\<rparr>))"

section \<open>Shared state and activities\<close>

definition patch :: "agui_env \<Rightarrow> json \<Rightarrow> json \<Rightarrow> agui_error + json" where
  "patch env v operations =
     (case ApplyPatchJSON (valid_event env) (patch_library env) v operations of
        Inl err \<Rightarrow> Inl (PatchFailed err)
      | Inr w \<Rightarrow> Inr w)"

definition StateDelta :: "agui_env \<Rightarrow> obj \<Rightarrow> Projection \<Rightarrow> agui_error + Projection" where
  "StateDelta env e p =
     (case patch env (p_State p) (member_or_null e ''delta'') of
        Inl err \<Rightarrow> Inl err
      | Inr w \<Rightarrow> Inr (p\<lparr>p_State := w\<rparr>))"

definition fill_activity :: "obj \<Rightarrow> obj \<Rightarrow> obj" where
  "fill_activity e m =
     inherit e [''subagentRunId'', ''parentSubagentRunId'']
       (put ''content'' (member_or_null e ''content'')
         (put ''activityType'' (member_or_null e ''activityType'') (AList.delete ''subagentRunId'' m)))"

definition ActivitySnapshot :: "obj \<Rightarrow> Projection \<Rightarrow> Projection" where
  "ActivitySnapshot e p =
     (let i = field e ''messageId'';
          p = ensure_owner ''activity'' i (ownerKey e) p;
          blank = [(''id'', JStr i), (''role'', JStr ''activity'')];
          q = set_owner ''activity'' i (ownerKey e) p
      in case message (p_Messages p) i of
           None \<Rightarrow> q\<lparr>p_Messages := p_Messages p @ [fill_activity e blank]\<rparr>
         | Some _ \<Rightarrow>
             if map_of e ''replace'' = Some (JBool False) then p
             else q\<lparr>p_Messages :=
                 set_message i (\<lambda>m. fill_activity e (if field m ''role'' \<noteq> ''activity'' then blank else m))
                   (p_Messages p)\<rparr>)"

definition ActivityDelta :: "agui_env \<Rightarrow> obj \<Rightarrow> Projection \<Rightarrow> agui_error + Projection" where
  "ActivityDelta env e p =
     (let i = field e ''messageId''
      in if \<not> checkOwner p ''activity'' i e then Inl OwnerDisagrees
         else case message (p_Messages p) i of
                None \<Rightarrow> Inr p
              | Some m \<Rightarrow>
                  if field m ''role'' \<noteq> ''activity'' then Inr p
                  else (case patch env (member_or_null m ''content'') (member_or_null e ''patch'') of
                          Inl err \<Rightarrow> Inl err
                        | Inr (JObj w) \<Rightarrow>
                            Inr (p\<lparr>p_Messages :=
                              set_message i (\<lambda>m. put ''activityType'' (member_or_null e ''activityType'')
                                                    (put ''content'' (JObj w) m)) (p_Messages p)\<rparr>)
                        | Inr _ \<Rightarrow> Inl ActivityNotObject))"

section \<open>Reasoning spans, encrypted values, steps and subagents\<close>

definition ReasoningStart :: "obj \<Rightarrow> Projection \<Rightarrow> agui_error + Projection" where
  "ReasoningStart e p =
     (let i = field e ''messageId''
      in if map_of (p_Reasoning p) i \<noteq> None then Inl SpanState
         else if \<not> checkOwner p ''reasoning'' i e then Inl OwnerDisagrees
         else
           let p = ensure_owner ''reasoning'' i (ownerKey e) p;
               w = (case owner p ''reasoning'' i of Some w \<Rightarrow> w | None \<Rightarrow> [])
           in Inr (p\<lparr>p_Reasoning := AList.update i w (p_Reasoning p)\<rparr>))"

definition ReasoningEnd :: "obj \<Rightarrow> Projection \<Rightarrow> agui_error + Projection" where
  "ReasoningEnd e p =
     (let i = field e ''messageId''
      in if map_of (p_Reasoning p) i = None then Inl SpanState
         else if \<not> checkOwner p ''reasoning'' i e then Inl OwnerDisagrees
         else Inr (p\<lparr>p_Reasoning := AList.delete i (p_Reasoning p)\<rparr>))"

definition ReasoningEncryptedValue :: "obj \<Rightarrow> Projection \<Rightarrow> agui_error + Projection" where
  "ReasoningEncryptedValue e p =
     (let i = field e ''entityId''; of_message = (field e ''subtype'' = ''message'');
          kind = (if \<not> of_message then ''tool''
                  else if owner p ''message'' i = None then ''reasoning'' else ''message'');
          set_value = put ''encryptedValue'' (member_or_null e ''encryptedValue'')
      in if \<not> checkOwner p kind i e then Inl OwnerDisagrees
         else if of_message
         then Inr (p\<lparr>p_Messages :=
                set_message i (\<lambda>m. if field m ''role'' \<noteq> ''activity'' then set_value m else m) (p_Messages p)\<rparr>)
         else Inr (p\<lparr>p_Messages := set_tool i set_value (p_Messages p)\<rparr>))"

definition StepStarted :: "obj \<Rightarrow> Projection \<Rightarrow> agui_error + Projection" where
  "StepStarted e p =
     (if map_of (p_Steps p) (stepKey e) = Some True then Inl StepState
      else Inr (p\<lparr>p_Steps := AList.update (stepKey e) True (p_Steps p)\<rparr>))"

definition StepFinished :: "obj \<Rightarrow> Projection \<Rightarrow> agui_error + Projection" where
  "StepFinished e p =
     (if map_of (p_Steps p) (stepKey e) \<noteq> Some True then Inl StepState
      else Inr (p\<lparr>p_Steps := AList.delete (stepKey e) (p_Steps p)\<rparr>))"

definition SubagentStarted :: "obj \<Rightarrow> Projection \<Rightarrow> agui_error + Projection" where
  "SubagentStarted e p =
     (if map_of (p_Subagents p) (lane e) \<noteq> None then Inl SubagentState
      else if member_or_null e ''parentSubagentRunId'' \<noteq> JNull
              \<and> map_of (p_Subagents p) (field e ''parentSubagentRunId'') = None then Inl SubagentState
      else Inr (p\<lparr>p_Subagents := AList.update (lane e) True (p_Subagents p)\<rparr>))"

definition SubagentEnded :: "obj \<Rightarrow> Projection \<Rightarrow> agui_error + Projection" where
  "SubagentEnded e p =
     (if map_of (p_Subagents p) (lane e) \<noteq> Some True then Inl SubagentState
      else Inr (p\<lparr>p_Subagents := AList.update (lane e) False (p_Subagents p)\<rparr>))"

section \<open>Replacing the history\<close>

text \<open>The activity types a snapshot declares itself the authority for: no declaration, a declaration of all
  of them, or of some; a declaration that cannot be read names none.\<close>

datatype authority = Undeclared | AllTypes | OnlyTypes "string list"

fun string_values :: "json list \<Rightarrow> string list option" where
  "string_values [] = Some []"
| "string_values (v # vs) =
     (case (v, string_values vs) of (JStr s, Some ss) \<Rightarrow> Some (s # ss) | _ \<Rightarrow> None)"

definition declared_authority :: "obj \<Rightarrow> authority" where
  "declared_authority e =
     (case get_object e ''metadata'' of
        None \<Rightarrow> Undeclared
      | Some metadata \<Rightarrow>
          (case map_of metadata ''@ag-ui/client'' of
             None \<Rightarrow> Undeclared
           | Some (JObj scope) \<Rightarrow>
               (case map_of scope ''authoritativeActivityTypes'' of
                  None \<Rightarrow> Undeclared
                | Some JNull \<Rightarrow> AllTypes
                | Some (JArr vs) \<Rightarrow> OnlyTypes (case string_values vs of None \<Rightarrow> [] | Some ss \<Rightarrow> ss)
                | Some _ \<Rightarrow> OnlyTypes [])
           | Some _ \<Rightarrow> OnlyTypes []))"

definition preserved :: "authority \<Rightarrow> bool \<Rightarrow> bool \<Rightarrow> obj \<Rightarrow> bool" where
  "preserved auth hasActivity hasReasoning m =
     (if field m ''role'' = ''activity''
      then (case auth of
              Undeclared \<Rightarrow> \<not> hasActivity
            | AllTypes \<Rightarrow> False
            | OnlyTypes ts \<Rightarrow> field m ''activityType'' \<notin> set ts)
      else field m ''role'' = ''reasoning'' \<and> \<not> hasReasoning)"

text \<open>\<open>byID\<close>: the last message of each id.\<close>

definition last_with_id :: "string \<Rightarrow> obj list \<Rightarrow> obj option" where
  "last_with_id i ms = find (has_id i) (rev ms)"

fun merge_history :: "authority \<Rightarrow> obj list \<Rightarrow> obj list \<Rightarrow> obj list" where
  "merge_history auth incoming [] = []"
| "merge_history auth incoming (m # ms) =
     (case last_with_id (field m ''id'') incoming of
        Some replacement \<Rightarrow> replacement # merge_history auth incoming ms
      | None \<Rightarrow>
          if preserved auth (list_ex (\<lambda>q. field q ''role'' = ''activity'') incoming)
               (list_ex (\<lambda>q. field q ''role'' = ''reasoning'') incoming) m
          then m # merge_history auth incoming ms
          else merge_history auth incoming ms)"

definition replaced_history :: "authority \<Rightarrow> obj list \<Rightarrow> obj list \<Rightarrow> obj list" where
  "replaced_history auth incoming ms =
     (let kept = merge_history auth incoming ms
      in kept @ filter (\<lambda>m. \<not> list_ex (has_id (field m ''id'')) kept) incoming)"

definition replaceHistory :: "obj \<Rightarrow> Projection \<Rightarrow> agui_error + Projection" where
  "replaceHistory e p =
     (case decode_objects (member_or_null e ''messages'') of
        None \<Rightarrow> Inl InvalidInput
      | Some incoming \<Rightarrow>
          let p = seedOwners incoming True p
          in Inr (indexTools
               (p\<lparr>p_Messages := replaced_history (declared_authority e) incoming (p_Messages p)\<rparr>)))"

section \<open>One normalized event\<close>

definition event_type :: "obj \<Rightarrow> string" where
  "event_type e = field e ''type''"

definition apply_event :: "agui_env \<Rightarrow> string \<Rightarrow> obj \<Rightarrow> Projection \<Rightarrow> agui_error + Projection" where
  "apply_event env typ e p =
     (if p_Errored p \<and> typ \<noteq> ''RUN_STARTED'' then Inl AfterRunError
      else if typ = ''RUN_STARTED'' then RunStarted e p
      else if \<not> p_Running p \<and> typ \<noteq> ''RUN_ERROR'' then Inl OutsideRun
      else if typ = ''RUN_FINISHED'' \<or> typ = ''RUN_ERROR'' then RunEnded typ e p
      else if typ = ''TEXT_MESSAGE_START'' then MessageStart False e p
      else if typ = ''REASONING_MESSAGE_START'' then MessageStart True e p
      else if typ = ''TEXT_MESSAGE_CONTENT'' then MessageContent False e p
      else if typ = ''REASONING_MESSAGE_CONTENT'' then MessageContent True e p
      else if typ = ''TEXT_MESSAGE_END'' then MessageEnd False e p
      else if typ = ''REASONING_MESSAGE_END'' then MessageEnd True e p
      else if typ = ''TOOL_CALL_START'' then ToolStart e p
      else if typ = ''TOOL_CALL_ARGS'' then ToolArgs e p
      else if typ = ''TOOL_CALL_END'' then ToolEnd e p
      else if typ = ''TOOL_CALL_RESULT'' then ToolResult e p
      else if typ = ''STATE_SNAPSHOT'' then Inr (p\<lparr>p_State := member_or_null e ''snapshot''\<rparr>)
      else if typ = ''STATE_DELTA'' then StateDelta env e p
      else if typ = ''MESSAGES_SNAPSHOT'' then replaceHistory e p
      else if typ = ''ACTIVITY_SNAPSHOT'' then Inr (ActivitySnapshot e p)
      else if typ = ''ACTIVITY_DELTA'' then ActivityDelta env e p
      else if typ = ''REASONING_START'' then ReasoningStart e p
      else if typ = ''REASONING_END'' then ReasoningEnd e p
      else if typ = ''REASONING_ENCRYPTED_VALUE'' then ReasoningEncryptedValue e p
      else if typ = ''STEP_STARTED'' then StepStarted e p
      else if typ = ''STEP_FINISHED'' then StepFinished e p
      else if typ = ''SUBAGENT_STARTED'' then SubagentStarted e p
      else if typ = ''SUBAGENT_FINISHED'' \<or> typ = ''SUBAGENT_ERROR'' then SubagentEnded e p
      else if typ = ''CUSTOM'' \<or> typ = ''RAW'' then Inr p
      else Inl NotNormalized)"

text \<open>The deferred merge of an event's metadata into the message or the call it is about.\<close>

definition merge_event_metadata :: "string \<Rightarrow> obj \<Rightarrow> obj list \<Rightarrow> obj list" where
  "merge_event_metadata typ e ms =
     (let streamed = prefix ''TEXT_MESSAGE_'' typ \<or> prefix ''REASONING_MESSAGE_'' typ
      in if prefix ''TOOL_CALL_'' typ \<and> typ \<noteq> ''TOOL_CALL_RESULT''
         then set_tool (field e ''toolCallId'') (\<lambda>c. mergeMetadata c e) ms
         else if streamed \<or> prefix ''ACTIVITY_'' typ
         then set_message (field e ''messageId'')
                (\<lambda>m. if streamed \<and> field m ''role'' = ''activity'' then m
                     else if typ = ''ACTIVITY_SNAPSHOT'' \<and> field m ''role'' \<noteq> ''activity'' then m
                     else mergeMetadata m e) ms
         else ms)"

definition apply_normalized :: "agui_env \<Rightarrow> obj \<Rightarrow> Projection \<Rightarrow> agui_error + Projection" where
  "apply_normalized env e p =
     (case apply_event env (event_type e) e p of
        Inl err \<Rightarrow> Inl err
      | Inr q \<Rightarrow> Inr (q\<lparr>p_Messages := merge_event_metadata (event_type e) e (p_Messages q)\<rparr>))"

end
