(* ===== verification/AguiNormalize.thy ===== *)
theory AguiNormalize
  imports AguiProjection
begin

text \<open>
  Chunk events and \<open>Apply\<close>, \<open>runtime/aguistate/projection.go\<close>. A producer may stream a message or a call as
  chunks without a start and an end; \<open>normalize\<close> keeps one open chunk stream per attribution (a lane), writes
  the missing start, and closes a lane when something else happens on it. \<open>Apply\<close> normalizes an event, applies
  what came out and answers with the journal entries; it works on a copy, so an error leaves the projection as
  it was. The order of \<open>p_Chunks\<close> is the order a \<open>range\<close> loop visits the map, which Go leaves open.
\<close>

section \<open>Lanes\<close>

definition end_event :: "chunk \<Rightarrow> obj" where
  "end_event c =
     inherit (ck_Fields c) [''subagentRunId'']
       [(''type'', JStr (ck_Kind c @ ''_END'')),
        (if ck_Kind c = ''TOOL_CALL'' then ''toolCallId'' else ''messageId'', JStr (ck_ID c))]"

definition drop_lane :: "string \<Rightarrow> Projection \<Rightarrow> Projection" where
  "drop_lane l p = p\<lparr>p_Chunks := AList.delete l (p_Chunks p), p_ChunkOrder := remove1 l (p_ChunkOrder p)\<rparr>"

definition closeLane :: "string \<Rightarrow> Projection \<times> obj list \<Rightarrow> Projection \<times> obj list" where
  "closeLane l s =
     (case map_of (p_Chunks (fst s)) l of
        None \<Rightarrow> s
      | Some c \<Rightarrow> (drop_lane l (fst s), snd s @ [end_event c]))"

definition strip_suffix :: "string \<Rightarrow> string \<Rightarrow> string option" where
  "strip_suffix suf s = map_option rev (strip_prefix (rev suf) (rev s))"

definition whole_run :: "string list" where
  "whole_run = [''RUN_STARTED'', ''RUN_FINISHED'', ''RUN_ERROR'', ''MESSAGES_SNAPSHOT'']"

definition beside_lanes :: "string list" where
  "beside_lanes = [''RAW'', ''ACTIVITY_SNAPSHOT'', ''ACTIVITY_DELTA'', ''REASONING_ENCRYPTED_VALUE'', ''SUBAGENT_STARTED'']"

definition normalize_plain :: "obj \<Rightarrow> Projection \<Rightarrow> Projection \<times> obj list" where
  "normalize_plain e p =
     (let s = (if event_type e \<in> set whole_run then fold closeLane (p_ChunkOrder p) (p, [])
               else if event_type e \<in> set beside_lanes then (p, [])
               else closeLane (ownerKey e) (p, []))
      in (fst s, snd s @ [e]))"

section \<open>Chunks\<close>

text \<open>The lane a chunk belongs to: that of the stream it names, its own attribution, or, without a name and
  without a tag, the only lane streaming that kind.\<close>

definition chunk_lane :: "string \<Rightarrow> string \<Rightarrow> obj \<Rightarrow> Projection \<Rightarrow> agui_error + string" where
  "chunk_lane kind idKey e p =
     (let l = ownerKey e
      in if has_key e idKey
         then (case find (\<lambda>kc. ck_Kind (snd kc) = kind \<and> ck_ID (snd kc) = field e idKey) (p_Chunks p) of
                 None \<Rightarrow> Inr l
               | Some kc \<Rightarrow> if tagged e \<and> l \<noteq> fst kc then Inl ChunkOwnerChanged else Inr (fst kc))
         else if \<not> tagged e \<and> (case map_of (p_Chunks p) ''parent:'' of None \<Rightarrow> True | Some c \<Rightarrow> ck_Kind c \<noteq> kind)
         then (case filter (\<lambda>kc. ck_Kind (snd kc) = kind) (p_Chunks p) of
                 [] \<Rightarrow> Inr l
               | [kc] \<Rightarrow> Inr (fst kc)
               | _ \<Rightarrow> Inl AmbiguousChunk)
         else Inr l)"

text \<open>Comparing two interface values panics when both hold a map or both hold a slice.\<close>

definition iface_differs :: "json \<Rightarrow> json \<Rightarrow> agui_error + bool" where
  "iface_differs v w =
     (case (v, w) of
        (JObj _, JObj _) \<Rightarrow> Inl GoPanic
      | (JArr _, JArr _) \<Rightarrow> Inl GoPanic
      | _ \<Rightarrow> Inr (v \<noteq> w))"

fun opener_changed :: "obj \<Rightarrow> obj \<Rightarrow> string list \<Rightarrow> agui_error option" where
  "opener_changed e op [] = None"
| "opener_changed e op (k # ks) =
     (case map_of e k of
        None \<Rightarrow> opener_changed e op ks
      | Some v \<Rightarrow>
          (case iface_differs v (member_or_null op k) of
             Inl err \<Rightarrow> Some err
           | Inr True \<Rightarrow> Some (ChunkFieldChanged k)
           | Inr False \<Rightarrow> opener_changed e op ks))"

definition lane_tag :: "string \<Rightarrow> obj \<Rightarrow> obj" where
  "lane_tag l ob =
     (case strip_prefix ''tag:'' l of None \<Rightarrow> ob | Some r \<Rightarrow> put ''subagentRunId'' (JStr r) ob)"

definition start_event :: "string \<Rightarrow> string \<Rightarrow> string \<Rightarrow> string \<Rightarrow> obj \<Rightarrow> obj" where
  "start_event kind idKey i l e =
     (let start = lane_tag l (inherit e [''timestamp'', ''metadata'']
                    [(''type'', JStr (kind @ ''_START'')), (idKey, JStr i)])
      in if kind = ''TOOL_CALL'' then inherit e [''toolCallName'', ''parentMessageId''] start
         else
           let role = (if kind = ''REASONING_MESSAGE'' then ''reasoning''
                       else if field e ''role'' = [] then ''assistant'' else field e ''role'')
           in inherit e [''name''] (put ''role'' (JStr role) start))"

definition content_event :: "string \<Rightarrow> string \<Rightarrow> string \<Rightarrow> string \<Rightarrow> obj \<Rightarrow> obj" where
  "content_event kind idKey i l e =
     lane_tag l (inherit e [''timestamp'', ''metadata'', ''rawEvent'']
       [(''type'', JStr (if kind = ''TOOL_CALL'' then ''TOOL_CALL_ARGS'' else kind @ ''_CONTENT'')),
        (idKey, JStr i),
        (''delta'', case map_of e ''delta'' of Some v \<Rightarrow> v | None \<Rightarrow> JStr [])])"

definition content_of :: "string \<Rightarrow> string \<Rightarrow> string \<Rightarrow> string \<Rightarrow> bool \<Rightarrow> obj \<Rightarrow> obj list" where
  "content_of kind idKey i l continued e =
     (if has_key e ''delta'' \<or> has_key e ''rawEvent'' \<or> has_key e ''metadata'' \<and> continued
      then [content_event kind idKey i l e] else [])"

definition opener_fields :: "string list" where
  "opener_fields = [''role'', ''name'', ''toolCallName'', ''parentMessageId'']"

text \<open>The end of a chunk stream's predecessor is written before the start of the new one.\<close>

definition open_lane ::
  "string \<Rightarrow> string \<Rightarrow> string \<Rightarrow> string \<Rightarrow> obj \<Rightarrow> Projection \<times> obj list \<Rightarrow> agui_error + Projection \<times> obj list" where
  "open_lane kind idKey i l e s =
     (if kind = ''TOOL_CALL'' \<and> \<not> has_key e ''toolCallName'' then Inl ChunkNeedsName
      else
        let start = start_event kind idKey i l e
        in Inr ((fst s)\<lparr>p_Chunks := AList.update l \<lparr>ck_Kind = kind, ck_ID = i, ck_Fields = start\<rparr> (p_Chunks (fst s)),
                        p_ChunkOrder := p_ChunkOrder (fst s) @ [l]\<rparr>,
                snd s @ [start] @ content_of kind idKey i l False e))"

definition normalize_chunk :: "string \<Rightarrow> obj \<Rightarrow> Projection \<Rightarrow> agui_error + Projection \<times> obj list" where
  "normalize_chunk kind e p =
     (let idKey = (if kind = ''TOOL_CALL'' then ''toolCallId'' else ''messageId'')
      in case chunk_lane kind idKey e p of
           Inl err \<Rightarrow> Inl err
         | Inr l \<Rightarrow>
             let prior = map_of (p_Chunks p) l;
                 named = (if has_key e idKey then Some (field e idKey)
                          else case prior of
                                 None \<Rightarrow> None
                               | Some c \<Rightarrow> if ck_Kind c = kind then Some (ck_ID c) else None)
             in case named of
                  None \<Rightarrow> Inl ChunkNeedsIdentity
                | Some i \<Rightarrow>
                    (case prior of
                       Some c \<Rightarrow>
                         if ck_Kind c = kind \<and> ck_ID c = i
                         then (case opener_changed e (ck_Fields c) opener_fields of
                                 Some err \<Rightarrow> Inl err
                               | None \<Rightarrow> Inr (p, content_of kind idKey i l True e))
                         else open_lane kind idKey i l e (closeLane l (p, []))
                     | None \<Rightarrow> open_lane kind idKey i l e (p, [])))"

definition normalize :: "obj \<Rightarrow> Projection \<Rightarrow> agui_error + Projection \<times> obj list" where
  "normalize e p =
     (case strip_suffix ''_CHUNK'' (event_type e) of
        None \<Rightarrow> Inr (normalize_plain e p)
      | Some kind \<Rightarrow> normalize_chunk kind e p)"

section \<open>Apply\<close>

fun apply_all :: "agui_env \<Rightarrow> obj list \<Rightarrow> Projection \<Rightarrow> agui_error + Projection" where
  "apply_all env [] p = Inr p"
| "apply_all env (e # es) p =
     (if \<not> valid_event env e then Inl InvalidEvent
      else case apply_normalized env e p of Inl err \<Rightarrow> Inl err | Inr q \<Rightarrow> apply_all env es q)"

definition Apply :: "agui_env \<Rightarrow> obj \<Rightarrow> Projection \<Rightarrow> agui_error + Projection \<times> obj list" where
  "Apply env e p =
     (if \<not> valid_event env e then Inl InvalidEvent
      else case normalize e p of
             Inl err \<Rightarrow> Inl err
           | Inr (next_p, events) \<Rightarrow>
               (case apply_all env events next_p of
                  Inl err \<Rightarrow> Inl err
                | Inr q \<Rightarrow> Inr (q, events)))"

text \<open>A projection that is fed a stream: a rejected event leaves it as it was and writes nothing.\<close>

fun feed :: "agui_env \<Rightarrow> obj list \<Rightarrow> Projection \<Rightarrow> Projection \<times> obj list" where
  "feed env [] p = (p, [])"
| "feed env (e # es) p =
     (case Apply env e p of
        Inl _ \<Rightarrow> feed env es p
      | Inr (q, out) \<Rightarrow> (case feed env es q of (r, rest) \<Rightarrow> (r, out @ rest)))"

section \<open>A stream\<close>

definition demo_env :: agui_env where
  "demo_env = \<lparr>valid_event = (\<lambda>_. True), valid_message = (\<lambda>_. True), patch_library = (\<lambda>_ _. None)\<rparr>"

definition ev :: "string \<Rightarrow> (string \<times> string) list \<Rightarrow> obj" where
  "ev typ fs = (''type'', JStr typ) # map (map_prod id JStr) fs"

definition run_started :: obj where
  "run_started = ev ''RUN_STARTED'' [(''threadId'', ''t''), (''runId'', ''r'')]"

definition run_finished :: obj where
  "run_finished = ev ''RUN_FINISHED'' [(''threadId'', ''t''), (''runId'', ''r'')]"

definition demo_stream :: "obj list" where
  "demo_stream =
     [run_started,
      ev ''TEXT_MESSAGE_CHUNK'' [(''messageId'', ''a''), (''delta'', ''Hel'')],
      ev ''TEXT_MESSAGE_CHUNK'' [(''delta'', ''lo'')],
      ev ''TOOL_CALL_CHUNK'' [(''toolCallId'', ''c''), (''toolCallName'', ''f''), (''delta'', ''{}'')],
      run_finished]"

lemma demo_feed:
  "map event_type (snd (feed demo_env demo_stream empty_projection))
   = [''RUN_STARTED'', ''TEXT_MESSAGE_START'', ''TEXT_MESSAGE_CONTENT'', ''TEXT_MESSAGE_CONTENT'',
      ''TEXT_MESSAGE_END'', ''TOOL_CALL_START'', ''TOOL_CALL_ARGS'', ''TOOL_CALL_END'', ''RUN_FINISHED'']"
  "map (\<lambda>m. field m ''content'') (p_Messages (fst (feed demo_env demo_stream empty_projection))) = [''Hello'', []]"
  by code_simp+

text \<open>A chunk of a subagent, then the end of its message without a tag.\<close>

definition stuck_stream :: "obj list" where
  "stuck_stream =
     [run_started,
      ev ''TEXT_MESSAGE_CHUNK'' [(''messageId'', ''a''), (''delta'', ''x''), (''subagentRunId'', ''s'')],
      ev ''TEXT_MESSAGE_END'' [(''messageId'', ''a'')]]"

definition stuck_projection :: Projection where
  "stuck_projection = fst (feed demo_env stuck_stream empty_projection)"

lemma demo_stuck:
  "length (snd (feed demo_env stuck_stream empty_projection)) = 4"
  "Apply demo_env run_finished stuck_projection = Inl MessageNotOpen"
  "Apply demo_env (ev ''RUN_ERROR'' []) stuck_projection = Inl MessageNotOpen"
  "Apply demo_env run_started stuck_projection = Inl MessageNotOpen"
  by code_simp+

end
