(* ===== verification/AguiProtocol.thy ===== *)
theory AguiProtocol
  imports AguiNormalize
begin

text \<open>
  What the journal promises its readers. \<open>wire\<close> is a small protocol: a run is on or off, and while it is on
  streams are opened, written and closed, steps and subagents begin and end. It says nothing of messages, owners,
  lanes or patches. Every event the projection accepts and writes is a step of that protocol, so what holds of the
  protocol holds of every journal, whatever was fed.
\<close>

section \<open>The protocol\<close>

datatype stream = TextStream | ThoughtStream | CallStream | SpanStream

record wire =
  w_running :: bool
  w_errored :: bool
  w_ident :: "string \<times> string"
  w_open :: "(stream \<times> string) set"
  w_steps :: "(string \<times> string) set"
  w_subagents :: "string \<Rightarrow> bool option"

definition start_types :: "(string \<times> stream) list" where
  "start_types =
     [(''TEXT_MESSAGE_START'', TextStream), (''REASONING_MESSAGE_START'', ThoughtStream),
      (''TOOL_CALL_START'', CallStream), (''REASONING_START'', SpanStream)]"

definition content_types :: "(string \<times> stream) list" where
  "content_types =
     [(''TEXT_MESSAGE_CONTENT'', TextStream), (''REASONING_MESSAGE_CONTENT'', ThoughtStream),
      (''TOOL_CALL_ARGS'', CallStream)]"

definition end_types :: "(string \<times> stream) list" where
  "end_types =
     [(''TEXT_MESSAGE_END'', TextStream), (''REASONING_MESSAGE_END'', ThoughtStream),
      (''TOOL_CALL_END'', CallStream), (''REASONING_END'', SpanStream)]"

definition other_types :: "string list" where
  "other_types =
     [''TOOL_CALL_RESULT'', ''STATE_SNAPSHOT'', ''STATE_DELTA'', ''MESSAGES_SNAPSHOT'', ''ACTIVITY_SNAPSHOT'',
      ''ACTIVITY_DELTA'', ''REASONING_ENCRYPTED_VALUE'', ''CUSTOM'', ''RAW'']"

definition stream_id :: "stream \<Rightarrow> obj \<Rightarrow> string" where
  "stream_id k e = field e (if k = CallStream then ''toolCallId'' else ''messageId'')"

text \<open>The streams an event opens, writes or closes.\<close>

definition opens :: "obj \<Rightarrow> (stream \<times> string) option" where
  "opens e = map_option (\<lambda>k. (k, stream_id k e)) (map_of start_types (event_type e))"

definition writes :: "obj \<Rightarrow> (stream \<times> string) option" where
  "writes e = map_option (\<lambda>k. (k, stream_id k e)) (map_of content_types (event_type e))"

definition closes :: "obj \<Rightarrow> (stream \<times> string) option" where
  "closes e = map_option (\<lambda>k. (k, stream_id k e)) (map_of end_types (event_type e))"

definition run_ident :: "obj \<Rightarrow> string \<times> string" where
  "run_ident e = (field e ''threadId'', field e ''runId'')"

inductive wire_step :: "wire \<Rightarrow> obj \<Rightarrow> wire \<Rightarrow> bool" where
  run_begins: "event_type e = ''RUN_STARTED'' \<Longrightarrow> \<not> w_running w \<Longrightarrow>
    wire_step w e \<lparr>w_running = True, w_errored = False, w_ident = run_ident e, w_open = {}, w_steps = {},
                   w_subagents = Map.empty\<rparr>"
| run_finishes: "event_type e = ''RUN_FINISHED'' \<Longrightarrow> w_running w \<Longrightarrow> w_ident w = run_ident e \<Longrightarrow>
    w_open w = {} \<Longrightarrow> w_steps w = {} \<Longrightarrow> \<forall>s. w_subagents w s \<noteq> Some True \<Longrightarrow>
    wire_step w e (w\<lparr>w_running := False\<rparr>)"
| run_fails: "event_type e = ''RUN_ERROR'' \<Longrightarrow> \<not> w_errored w \<Longrightarrow>
    wire_step w e (w\<lparr>w_running := False, w_errored := True\<rparr>)"
| stream_opens: "opens e = Some s \<Longrightarrow> w_running w \<Longrightarrow> s \<notin> w_open w \<Longrightarrow>
    wire_step w e (w\<lparr>w_open := insert s (w_open w)\<rparr>)"
| stream_written: "writes e = Some s \<Longrightarrow> w_running w \<Longrightarrow> s \<in> w_open w \<Longrightarrow> wire_step w e w"
| stream_closes: "closes e = Some s \<Longrightarrow> w_running w \<Longrightarrow> s \<in> w_open w \<Longrightarrow>
    wire_step w e (w\<lparr>w_open := w_open w - {s}\<rparr>)"
| step_begins: "event_type e = ''STEP_STARTED'' \<Longrightarrow> w_running w \<Longrightarrow> stepKey e \<notin> w_steps w \<Longrightarrow>
    wire_step w e (w\<lparr>w_steps := insert (stepKey e) (w_steps w)\<rparr>)"
| step_ends: "event_type e = ''STEP_FINISHED'' \<Longrightarrow> w_running w \<Longrightarrow> stepKey e \<in> w_steps w \<Longrightarrow>
    wire_step w e (w\<lparr>w_steps := w_steps w - {stepKey e}\<rparr>)"
| subagent_begins: "event_type e = ''SUBAGENT_STARTED'' \<Longrightarrow> w_running w \<Longrightarrow> w_subagents w (lane e) = None \<Longrightarrow>
    wire_step w e (w\<lparr>w_subagents := (w_subagents w)(lane e \<mapsto> True)\<rparr>)"
| subagent_ends: "event_type e \<in> {''SUBAGENT_FINISHED'', ''SUBAGENT_ERROR''} \<Longrightarrow> w_running w \<Longrightarrow>
    w_subagents w (lane e) = Some True \<Longrightarrow>
    wire_step w e (w\<lparr>w_subagents := (w_subagents w)(lane e \<mapsto> False)\<rparr>)"
| beside: "event_type e \<in> set other_types \<Longrightarrow> w_running w \<Longrightarrow> wire_step w e w"

inductive wire_run :: "wire \<Rightarrow> obj list \<Rightarrow> wire \<Rightarrow> bool" where
  run_nil: "wire_run w [] w"
| run_cons: "wire_step w e v \<Longrightarrow> wire_run v es u \<Longrightarrow> wire_run w (e # es) u"

inductive_cases wire_runE: "wire_run w (e # es) u" "wire_run w [] u"

lemma wire_run_append: "wire_run w es v \<Longrightarrow> wire_run v fs u \<Longrightarrow> wire_run w (es @ fs) u"
  by (induction rule: wire_run.induct) (auto intro: run_cons)

lemma wire_run_split:
  "wire_run w (es @ fs) u \<Longrightarrow> \<exists>v. wire_run w es v \<and> wire_run v fs u"
  by (induction es arbitrary: w) (auto elim!: wire_runE intro: wire_run.intros, blast intro: wire_run.intros)

section \<open>The projection seen as a state of the protocol\<close>

fun stream_map :: "stream \<Rightarrow> Projection \<Rightarrow> (string \<times> string) list" where
  "stream_map TextStream p = p_Text p"
| "stream_map ThoughtStream p = p_ReasoningMessages p"
| "stream_map CallStream p = p_Tools p"
| "stream_map SpanStream p = p_Reasoning p"

definition wire_of :: "Projection \<Rightarrow> wire" where
  "wire_of p =
     \<lparr>w_running = p_Running p, w_errored = p_Errored p, w_ident = (p_ThreadID p, p_RunID p),
      w_open = {(k, i). map_of (stream_map k p) i \<noteq> None},
      w_steps = {k. map_of (p_Steps p) k = Some True},
      w_subagents = map_of (p_Subagents p)\<rparr>"

section \<open>Every accepted event is a step of the protocol\<close>

named_theorems wire_simps \<open>what an operation leaves to the protocol\<close>

lemma stream_map_messages [simp]: "stream_map k (p\<lparr>p_Messages := ms\<rparr>) = stream_map k p"
  by (cases k) auto

lemma stream_map_owners [simp]: "stream_map k (p\<lparr>p_Owners := ow\<rparr>) = stream_map k p"
  by (cases k) auto

lemma stream_map_parents [simp]: "stream_map k (p\<lparr>p_ToolParents := tp\<rparr>) = stream_map k p"
  by (cases k) auto

lemma stream_map_state [simp]: "stream_map k (p\<lparr>p_State := s\<rparr>) = stream_map k p"
  by (cases k) auto

lemma stream_map_lanes [simp]:
  "stream_map k (p\<lparr>p_Chunks := c\<rparr>) = stream_map k p" "stream_map k (p\<lparr>p_ChunkOrder := co\<rparr>) = stream_map k p"
  by (cases k; auto)+

text \<open>Messages, owners, parents of calls, the shared state and the lanes do not show.\<close>

lemma wire_of_hidden [wire_simps]:
  "wire_of (p\<lparr>p_Messages := ms\<rparr>) = wire_of p"
  "wire_of (p\<lparr>p_Owners := ow\<rparr>) = wire_of p"
  "wire_of (p\<lparr>p_ToolParents := tp\<rparr>) = wire_of p"
  "wire_of (p\<lparr>p_State := s\<rparr>) = wire_of p"
  "wire_of (p\<lparr>p_Chunks := c\<rparr>) = wire_of p"
  "wire_of (p\<lparr>p_ChunkOrder := co\<rparr>) = wire_of p"
  by (simp_all add: wire_of_def)

text \<open>The rest of the state: everything the protocol sees apart from the open streams.\<close>

definition same_rest :: "Projection \<Rightarrow> Projection \<Rightarrow> bool" where
  "same_rest p q \<longleftrightarrow> p_Running p = p_Running q \<and> p_Errored p = p_Errored q \<and> p_ThreadID p = p_ThreadID q
     \<and> p_RunID p = p_RunID q \<and> p_Steps p = p_Steps q \<and> p_Subagents p = p_Subagents q"

lemma all_streams:
  "(\<forall>k. P k) \<longleftrightarrow> P TextStream \<and> P ThoughtStream \<and> P CallStream \<and> P SpanStream"
  by (metis stream.exhaust)

lemma wire_of_update:
  assumes "\<forall>j. stream_map j q = (if j = k then AList.update i v (stream_map k p) else stream_map j p)"
    and "same_rest p q"
  shows "wire_of q = (wire_of p)\<lparr>w_open := insert (k, i) (w_open (wire_of p))\<rparr>"
  using assms by (auto simp: wire_of_def same_rest_def update_conv' split: if_splits)

lemma wire_of_delete:
  assumes "\<forall>j. stream_map j q = (if j = k then AList.delete i (stream_map k p) else stream_map j p)"
    and "same_rest p q"
  shows "wire_of q = (wire_of p)\<lparr>w_open := w_open (wire_of p) - {(k, i)}\<rparr>"
  using assms by (auto simp: wire_of_def same_rest_def delete_conv' split: if_splits)

text \<open>Opening and closing a stream of each kind, a step, and a subagent.\<close>

lemma wire_of_opened [wire_simps]:
  "m = p_Text p \<Longrightarrow> wire_of (p\<lparr>p_Text := AList.update i v m\<rparr>)
     = (wire_of p)\<lparr>w_open := insert (TextStream, i) (w_open (wire_of p))\<rparr>"
  "m = p_ReasoningMessages p \<Longrightarrow> wire_of (p\<lparr>p_ReasoningMessages := AList.update i v m\<rparr>)
     = (wire_of p)\<lparr>w_open := insert (ThoughtStream, i) (w_open (wire_of p))\<rparr>"
  "m = p_Tools p \<Longrightarrow> wire_of (p\<lparr>p_Tools := AList.update i v m\<rparr>)
     = (wire_of p)\<lparr>w_open := insert (CallStream, i) (w_open (wire_of p))\<rparr>"
  "m = p_Reasoning p \<Longrightarrow> wire_of (p\<lparr>p_Reasoning := AList.update i v m\<rparr>)
     = (wire_of p)\<lparr>w_open := insert (SpanStream, i) (w_open (wire_of p))\<rparr>"
  by (rule wire_of_update; simp add: all_streams same_rest_def)+

lemma wire_of_closed [wire_simps]:
  "m = p_Text p \<Longrightarrow> wire_of (p\<lparr>p_Text := AList.delete i m\<rparr>)
     = (wire_of p)\<lparr>w_open := w_open (wire_of p) - {(TextStream, i)}\<rparr>"
  "m = p_ReasoningMessages p \<Longrightarrow> wire_of (p\<lparr>p_ReasoningMessages := AList.delete i m\<rparr>)
     = (wire_of p)\<lparr>w_open := w_open (wire_of p) - {(ThoughtStream, i)}\<rparr>"
  "m = p_Tools p \<Longrightarrow> wire_of (p\<lparr>p_Tools := AList.delete i m\<rparr>)
     = (wire_of p)\<lparr>w_open := w_open (wire_of p) - {(CallStream, i)}\<rparr>"
  "m = p_Reasoning p \<Longrightarrow> wire_of (p\<lparr>p_Reasoning := AList.delete i m\<rparr>)
     = (wire_of p)\<lparr>w_open := w_open (wire_of p) - {(SpanStream, i)}\<rparr>"
  by (rule wire_of_delete; simp add: all_streams same_rest_def)+

lemma stream_map_steps [simp]:
  "stream_map k (p\<lparr>p_Steps := st\<rparr>) = stream_map k p"
  "stream_map k (p\<lparr>p_Subagents := sa\<rparr>) = stream_map k p"
  "stream_map k (p\<lparr>p_Running := r\<rparr>) = stream_map k p"
  "stream_map k (p\<lparr>p_Errored := r\<rparr>) = stream_map k p"
  by (cases k; simp)+

lemma wire_of_steps [wire_simps]:
  "wire_of (p\<lparr>p_Steps := AList.update k True (p_Steps p)\<rparr>)
     = (wire_of p)\<lparr>w_steps := insert k (w_steps (wire_of p))\<rparr>"
  "wire_of (p\<lparr>p_Steps := AList.delete k (p_Steps p)\<rparr>)
     = (wire_of p)\<lparr>w_steps := w_steps (wire_of p) - {k}\<rparr>"
  "wire_of (p\<lparr>p_Subagents := AList.update s b (p_Subagents p)\<rparr>)
     = (wire_of p)\<lparr>w_subagents := (w_subagents (wire_of p))(s \<mapsto> b)\<rparr>"
  by (auto simp: wire_of_def update_conv' delete_conv' split: if_splits)

lemma wire_of_ended [wire_simps]:
  "wire_of (p\<lparr>p_Running := False, p_Errored := b\<rparr>)
     = (wire_of p)\<lparr>w_running := False, w_errored := b\<rparr>"
  by (simp add: wire_of_def)

lemma wire_of_sel [simp]:
  "w_running (wire_of p) = p_Running p" "w_errored (wire_of p) = p_Errored p"
  "w_ident (wire_of p) = (p_ThreadID p, p_RunID p)"
  "(k, i) \<in> w_open (wire_of p) \<longleftrightarrow> map_of (stream_map k p) i \<noteq> None"
  "k' \<in> w_steps (wire_of p) \<longleftrightarrow> map_of (p_Steps p) k' = Some True"
  "w_subagents (wire_of p) = map_of (p_Subagents p)"
  by (simp_all add: wire_of_def)

text \<open>Recording owners touches nothing else.\<close>

lemma ensure_owner_form: "\<exists>ow. ensure_owner kind i w p = p\<lparr>p_Owners := ow\<rparr>"
proof (cases "owner p kind i = None")
  case False
  then have "ensure_owner kind i w p = p\<lparr>p_Owners := p_Owners p\<rparr>" by (auto simp: ensure_owner_def)
  then show ?thesis ..
qed (auto simp: ensure_owner_def set_owner_def)

lemma seed_form: "\<exists>ow. seed a kind i w p = p\<lparr>p_Owners := ow\<rparr>"
proof (cases "a \<or> owner p kind i = None")
  case False
  then have "seed a kind i w p = p\<lparr>p_Owners := p_Owners p\<rparr>" by (auto simp: seed_def)
  then show ?thesis ..
qed (auto simp: seed_def set_owner_def)

lemma fold_owners_form:
  assumes "\<And>x p. \<exists>ow. f x p = p\<lparr>p_Owners := ow\<rparr>"
  shows "\<exists>ow. fold f xs p = p\<lparr>p_Owners := ow\<rparr>"
proof (induction xs arbitrary: p)
  case Nil
  have "p = p\<lparr>p_Owners := p_Owners p\<rparr>" by simp
  then show ?case by (metis fold_simps(1))
next
  case (Cons x xs)
  obtain ow where "f x p = p\<lparr>p_Owners := ow\<rparr>" using assms by blast
  then show ?case using Cons.IH [of "f x p"] by auto
qed

lemma seed_message_form: "\<exists>ow. seed_message a m p = p\<lparr>p_Owners := ow\<rparr>"
proof -
  obtain ow where s: "seed a (message_kind m) (field m ''id'') (ownerKey m) p = p\<lparr>p_Owners := ow\<rparr>"
    using seed_form by blast
  have "\<exists>ow'. (case v of JObj c \<Rightarrow> seed a ''tool'' (field c ''id'') (ownerKey m) q | _ \<Rightarrow> q) = q\<lparr>p_Owners := ow'\<rparr>"
    for v q
    by (cases v) (auto intro: seed_form exI [of _ "p_Owners q"])
  then have "\<exists>ow'. seed_message a m p = (p\<lparr>p_Owners := ow\<rparr>)\<lparr>p_Owners := ow'\<rparr>"
    unfolding seed_message_def s by (rule fold_owners_form)
  then show ?thesis by auto
qed

lemma seedOwners_form: "\<exists>ow. seedOwners ms a p = p\<lparr>p_Owners := ow\<rparr>"
  unfolding seedOwners_def by (rule fold_owners_form) (rule seed_message_form)

section \<open>The operations\<close>

definition message_stream :: "bool \<Rightarrow> stream" where
  "message_stream reasoning = (if reasoning then ThoughtStream else TextStream)"

lemma MessageStart_wire:
  assumes "MessageStart r e p = Inr q"
  defines "s \<equiv> (message_stream r, field e ''messageId'')"
  shows "s \<notin> w_open (wire_of p) \<and> wire_of q = (wire_of p)\<lparr>w_open := insert s (w_open (wire_of p))\<rparr>"
proof -
  obtain ow where "ensure_owner (kind_of r) (field e ''messageId'') (ownerKey e) p = p\<lparr>p_Owners := ow\<rparr>"
    using ensure_owner_form by blast
  then show ?thesis
    using assms
    by (cases r)
      (auto simp: MessageStart_def Let_def set_open_def open_messages_def message_stream_def wire_simps
        split: if_splits)
qed

lemma MessageContent_wire:
  assumes "MessageContent r e p = Inr q"
  shows "(message_stream r, field e ''messageId'') \<in> w_open (wire_of p) \<and> wire_of q = wire_of p"
  using assms
  by (cases r) (auto simp: MessageContent_def Let_def open_messages_def message_stream_def wire_simps split: if_splits)

lemma MessageEnd_wire:
  assumes "MessageEnd r e p = Inr q"
  defines "s \<equiv> (message_stream r, field e ''messageId'')"
  shows "s \<in> w_open (wire_of p) \<and> wire_of q = (wire_of p)\<lparr>w_open := w_open (wire_of p) - {s}\<rparr>"
  using assms
  by (cases r)
    (auto simp: MessageEnd_def Let_def open_messages_def set_open_def message_stream_def wire_simps split: if_splits)

lemma ToolStart_wire:
  assumes "ToolStart e p = Inr q"
  defines "s \<equiv> (CallStream, field e ''toolCallId'')"
  shows "s \<notin> w_open (wire_of p) \<and> wire_of q = (wire_of p)\<lparr>w_open := insert s (w_open (wire_of p))\<rparr>"
proof -
  from assms(1) obtain w where closed: "map_of (p_Tools p) (field e ''toolCallId'') = None"
    and w: "tool_owner e p = Inr w"
    by (auto simp: ToolStart_def Let_def split: if_splits sum.splits)
  obtain ow where ow: "ensure_owner ''tool'' (field e ''toolCallId'') w p = p\<lparr>p_Owners := ow\<rparr>"
    using ensure_owner_form by blast
  show ?thesis
    using assms closed w ow
    by (auto simp: ToolStart_def Let_def wire_simps split: if_splits option.splits)
qed

lemma ToolArgs_wire:
  "ToolArgs e p = Inr q \<Longrightarrow> (CallStream, field e ''toolCallId'') \<in> w_open (wire_of p) \<and> wire_of q = wire_of p"
  by (auto simp: ToolArgs_def Let_def wire_simps split: if_splits option.splits)

lemma ToolEnd_wire:
  assumes "ToolEnd e p = Inr q"
  defines "s \<equiv> (CallStream, field e ''toolCallId'')"
  shows "s \<in> w_open (wire_of p) \<and> wire_of q = (wire_of p)\<lparr>w_open := w_open (wire_of p) - {s}\<rparr>"
  using assms by (auto simp: ToolEnd_def Let_def wire_simps split: if_splits)

lemma ReasoningStart_wire:
  assumes "ReasoningStart e p = Inr q"
  defines "s \<equiv> (SpanStream, field e ''messageId'')"
  shows "s \<notin> w_open (wire_of p) \<and> wire_of q = (wire_of p)\<lparr>w_open := insert s (w_open (wire_of p))\<rparr>"
proof -
  obtain ow where "ensure_owner ''reasoning'' (field e ''messageId'') (ownerKey e) p = p\<lparr>p_Owners := ow\<rparr>"
    using ensure_owner_form by blast
  then show ?thesis
    using assms by (auto simp: ReasoningStart_def Let_def wire_simps split: if_splits)
qed

lemma ReasoningEnd_wire:
  assumes "ReasoningEnd e p = Inr q"
  defines "s \<equiv> (SpanStream, field e ''messageId'')"
  shows "s \<in> w_open (wire_of p) \<and> wire_of q = (wire_of p)\<lparr>w_open := w_open (wire_of p) - {s}\<rparr>"
  using assms by (auto simp: ReasoningEnd_def Let_def wire_simps split: if_splits)

text \<open>The operations the protocol does not see.\<close>

lemma hidden_wire:
  "ToolResult e p = Inr q \<Longrightarrow> wire_of q = wire_of p"
  "StateDelta env e p = Inr q \<Longrightarrow> wire_of q = wire_of p"
  "ActivityDelta env e p = Inr q \<Longrightarrow> wire_of q = wire_of p"
  "ReasoningEncryptedValue e p = Inr q \<Longrightarrow> wire_of q = wire_of p"
  by (auto simp: ToolResult_def StateDelta_def ActivityDelta_def ReasoningEncryptedValue_def Let_def set_owner_def
      wire_simps split: if_splits option.splits sum.splits json.splits)

lemma replaceHistory_wire:
  assumes "replaceHistory e p = Inr q"
  shows "wire_of q = wire_of p"
proof -
  from assms obtain incoming where i: "decode_objects (member_or_null e ''messages'') = Some incoming"
    by (auto simp: replaceHistory_def split: option.splits)
  obtain ow where "seedOwners incoming True p = p\<lparr>p_Owners := ow\<rparr>" using seedOwners_form by blast
  then show ?thesis using assms i by (auto simp: replaceHistory_def indexTools_def Let_def wire_simps)
qed

lemma ActivitySnapshot_wire: "wire_of (ActivitySnapshot e p) = wire_of p"
proof -
  obtain ow where "ensure_owner ''activity'' (field e ''messageId'') (ownerKey e) p = p\<lparr>p_Owners := ow\<rparr>"
    using ensure_owner_form by blast
  then show ?thesis
    by (auto simp: ActivitySnapshot_def Let_def set_owner_def wire_simps split: option.splits)
qed

lemma RunStarted_wire:
  assumes "RunStarted e p = Inr q"
  shows "\<not> p_Running p"
    and "wire_of q = \<lparr>w_running = True, w_errored = False, w_ident = run_ident e, w_open = {}, w_steps = {},
      w_subagents = Map.empty\<rparr>"
proof -
  show run: "\<not> p_Running p" using assms by (auto simp: RunStarted_def)
  let ?p = "p\<lparr>p_Errored := False, p_Owners := [], p_ReasoningMessages := [], p_Text := [], p_Tools := [],
              p_Steps := [], p_Reasoning := [], p_Subagents := [], p_Running := True,
              p_ThreadID := field e ''threadId'', p_RunID := field e ''runId''\<rparr>"
  have none: "stream_map k ?p = []" for k by (cases k) auto
  then have fresh: "wire_of ?p = \<lparr>w_running = True, w_errored = False, w_ident = run_ident e, w_open = {},
      w_steps = {}, w_subagents = Map.empty\<rparr>"
    unfolding wire_of_def none by (simp add: run_ident_def)
  show "wire_of q = \<lparr>w_running = True, w_errored = False, w_ident = run_ident e, w_open = {}, w_steps = {},
      w_subagents = Map.empty\<rparr>"
  proof (cases "get_object e ''input''")
    case None
    then have "q = indexTools ?p" using assms run by (simp add: RunStarted_def)
    then show ?thesis unfolding indexTools_def by (simp only: wire_simps fresh)
  next
    case (Some input)
    with assms run obtain history where h: "decode_objects (member_or_null input ''messages'') = Some history"
      by (auto simp: RunStarted_def split: option.splits)
    obtain ow where "seedOwners history False ?p = ?p\<lparr>p_Owners := ow\<rparr>" using seedOwners_form by blast
    then have "\<exists>ms tp. q = ?p\<lparr>p_Owners := ow, p_Messages := ms, p_ToolParents := tp\<rparr>"
      using assms run h Some by (auto simp: RunStarted_def Let_def indexTools_def)
    then show ?thesis using fresh by (metis wire_of_hidden(1) wire_of_hidden(2) wire_of_hidden(3))
  qed
qed

lemma RunFinished_wire:
  assumes "RunEnded ''RUN_FINISHED'' e p = Inr q"
  shows "w_ident (wire_of p) = run_ident e \<and> w_open (wire_of p) = {} \<and> w_steps (wire_of p) = {}
    \<and> (\<forall>s. w_subagents (wire_of p) s \<noteq> Some True)
    \<and> wire_of q = (wire_of p)\<lparr>w_running := False, w_errored := False\<rparr>"
proof -
  have e: "p_Text p = []" "p_ReasoningMessages p = []" "p_Tools p = []" "p_Steps p = []" "p_Reasoning p = []"
    and sub: "\<not> list_ex snd (p_Subagents p)" and ident: "(p_ThreadID p, p_RunID p) = run_ident e"
    and q: "q = p\<lparr>p_Running := False, p_Errored := False\<rparr>"
    using assms by (auto simp: RunEnded_def run_ident_def split: if_splits)
  have "map_of (stream_map k p) i = None" for k i using e by (cases k) auto
  then have "w_open (wire_of p) = {}" by auto
  moreover have "w_steps (wire_of p) = {}" using e by (simp add: wire_of_def)
  moreover have "w_subagents (wire_of p) s \<noteq> Some True" for s
    using sub by (fastforce simp: list_ex_iff dest: map_of_SomeD)
  ultimately show ?thesis using ident q by (simp add: wire_simps)
qed

lemma RunError_wire:
  "RunEnded ''RUN_ERROR'' e p = Inr q \<Longrightarrow> wire_of q = (wire_of p)\<lparr>w_running := False, w_errored := True\<rparr>"
  by (auto simp: RunEnded_def wire_simps)

text \<open>The operations, as steps of the protocol under the type that selects them.\<close>

lemmas wire_types = opens_def writes_def closes_def start_types_def content_types_def end_types_def stream_id_def
  message_stream_def other_types_def

lemma MessageStart_step:
  "MessageStart r e p = Inr q \<Longrightarrow> p_Running p \<Longrightarrow>
     event_type e = (if r then ''REASONING_MESSAGE_START'' else ''TEXT_MESSAGE_START'') \<Longrightarrow> wire_step (wire_of p) e (wire_of q)"
  by (frule MessageStart_wire, auto simp: wire_types intro!: stream_opens split: if_splits)

lemma MessageContent_step:
  "MessageContent r e p = Inr q \<Longrightarrow> p_Running p \<Longrightarrow>
     event_type e = (if r then ''REASONING_MESSAGE_CONTENT'' else ''TEXT_MESSAGE_CONTENT'') \<Longrightarrow> wire_step (wire_of p) e (wire_of q)"
  by (frule MessageContent_wire, auto simp: wire_types intro!: stream_written split: if_splits)

lemma MessageEnd_step:
  "MessageEnd r e p = Inr q \<Longrightarrow> p_Running p \<Longrightarrow>
     event_type e = (if r then ''REASONING_MESSAGE_END'' else ''TEXT_MESSAGE_END'') \<Longrightarrow> wire_step (wire_of p) e (wire_of q)"
  by (frule MessageEnd_wire, auto simp: wire_types intro!: stream_closes split: if_splits)

lemma ToolStart_step:
  "ToolStart e p = Inr q \<Longrightarrow> p_Running p \<Longrightarrow>
     event_type e = ''TOOL_CALL_START'' \<Longrightarrow> wire_step (wire_of p) e (wire_of q)"
  by (frule ToolStart_wire, auto simp: wire_types intro!: stream_opens)

lemma ToolArgs_step:
  "ToolArgs e p = Inr q \<Longrightarrow> p_Running p \<Longrightarrow>
     event_type e = ''TOOL_CALL_ARGS'' \<Longrightarrow> wire_step (wire_of p) e (wire_of q)"
  by (frule ToolArgs_wire, auto simp: wire_types intro!: stream_written)

lemma ToolEnd_step:
  "ToolEnd e p = Inr q \<Longrightarrow> p_Running p \<Longrightarrow>
     event_type e = ''TOOL_CALL_END'' \<Longrightarrow> wire_step (wire_of p) e (wire_of q)"
  by (frule ToolEnd_wire, auto simp: wire_types intro!: stream_closes)

lemma ReasoningStart_step:
  "ReasoningStart e p = Inr q \<Longrightarrow> p_Running p \<Longrightarrow>
     event_type e = ''REASONING_START'' \<Longrightarrow> wire_step (wire_of p) e (wire_of q)"
  by (frule ReasoningStart_wire, auto simp: wire_types intro!: stream_opens)

lemma ReasoningEnd_step:
  "ReasoningEnd e p = Inr q \<Longrightarrow> p_Running p \<Longrightarrow>
     event_type e = ''REASONING_END'' \<Longrightarrow> wire_step (wire_of p) e (wire_of q)"
  by (frule ReasoningEnd_wire, auto simp: wire_types intro!: stream_closes)

lemma step_steps:
  "StepStarted e p = Inr q \<Longrightarrow> p_Running p \<Longrightarrow> event_type e = ''STEP_STARTED'' \<Longrightarrow>
     wire_step (wire_of p) e (wire_of q)"
  "StepFinished e p = Inr q \<Longrightarrow> p_Running p \<Longrightarrow> event_type e = ''STEP_FINISHED'' \<Longrightarrow>
     wire_step (wire_of p) e (wire_of q)"
  by (auto simp: StepStarted_def StepFinished_def wire_simps intro!: step_begins step_ends split: if_splits)

lemma subagent_steps:
  "SubagentStarted e p = Inr q \<Longrightarrow> p_Running p \<Longrightarrow> event_type e = ''SUBAGENT_STARTED'' \<Longrightarrow>
     wire_step (wire_of p) e (wire_of q)"
  "SubagentEnded e p = Inr q \<Longrightarrow> p_Running p \<Longrightarrow> event_type e \<in> {''SUBAGENT_FINISHED'', ''SUBAGENT_ERROR''} \<Longrightarrow>
     wire_step (wire_of p) e (wire_of q)"
  using subagent_begins [of e "wire_of p"] subagent_ends [of e "wire_of p"]
  by (auto simp: SubagentStarted_def SubagentEnded_def wire_simps split: if_splits)

lemmas stream_steps =
  MessageStart_step [of False, simplified] MessageStart_step [of True, simplified]
  MessageContent_step [of False, simplified] MessageContent_step [of True, simplified]
  MessageEnd_step [of False, simplified] MessageEnd_step [of True, simplified]
  ToolStart_step ToolArgs_step ToolEnd_step ReasoningStart_step ReasoningEnd_step

lemma hidden_steps:
  assumes "p_Running p" "event_type e \<in> set other_types"
  shows "ToolResult e p = Inr q \<Longrightarrow> wire_step (wire_of p) e (wire_of q)"
    "StateDelta env e p = Inr q \<Longrightarrow> wire_step (wire_of p) e (wire_of q)"
    "ActivityDelta env e p = Inr q \<Longrightarrow> wire_step (wire_of p) e (wire_of q)"
    "ReasoningEncryptedValue e p = Inr q \<Longrightarrow> wire_step (wire_of p) e (wire_of q)"
    "replaceHistory e p = Inr q \<Longrightarrow> wire_step (wire_of p) e (wire_of q)"
    "wire_step (wire_of p) e (wire_of (ActivitySnapshot e p))"
    "wire_step (wire_of p) e (wire_of (p\<lparr>p_State := st\<rparr>))"
    "wire_step (wire_of p) e (wire_of p)"
  using assms hidden_wire replaceHistory_wire ActivitySnapshot_wire beside [OF assms(2), of "wire_of p"]
  by (simp_all add: wire_simps)

text \<open>A state that is not in error stays so while it runs.\<close>

lemma apply_event_wire:
  assumes "apply_event env (event_type e) e p = Inr q" and inv: "p_Errored p \<longrightarrow> \<not> p_Running p"
  shows "wire_step (wire_of p) e (wire_of q)"
proof -
  let ?t = "event_type e"
  note app = assms(1)
  have err: "?t = ''RUN_STARTED'' \<or> \<not> p_Errored p"
    using app by (auto simp: apply_event_def split: if_splits)
  show ?thesis
  proof (cases "?t = ''RUN_STARTED'' \<or> ?t = ''RUN_FINISHED'' \<or> ?t = ''RUN_ERROR''")
    case True
    then consider "?t = ''RUN_STARTED''" | "?t = ''RUN_FINISHED''" | "?t = ''RUN_ERROR''" by blast
    then show ?thesis
    proof cases
      case 1
      then have "RunStarted e p = Inr q" using app by (simp add: apply_event_def)
      then show ?thesis using RunStarted_wire [of e p q] 1 by (simp add: run_begins)
    next
      case 2
      then have run: "p_Running p" and "RunEnded ''RUN_FINISHED'' e p = Inr q"
        using app by (auto simp: apply_event_def split: if_splits)
      then have f: "w_ident (wire_of p) = run_ident e" "w_open (wire_of p) = {}" "w_steps (wire_of p) = {}"
        "\<forall>s. w_subagents (wire_of p) s \<noteq> Some True"
        and q: "wire_of q = (wire_of p)\<lparr>w_running := False, w_errored := False\<rparr>"
        using RunFinished_wire by blast+
      have "(wire_of p)\<lparr>w_running := False, w_errored := False\<rparr> = (wire_of p)\<lparr>w_running := False\<rparr>"
        using err 2 by (simp add: wire_of_def)
      then show ?thesis unfolding q using f 2 run by (simp only:) (rule run_finishes; simp)
    next
      case 3
      then have "RunEnded ''RUN_ERROR'' e p = Inr q" using app by (simp add: apply_event_def split: if_splits)
      then show ?thesis using RunError_wire [of e p q] 3 err by (simp add: run_fails)
    qed
  next
    case False
    then have run: "w_running (wire_of p)" using app by (auto simp: apply_event_def split: if_splits)
    from app False err run show ?thesis
      unfolding apply_event_def
      by (simp split: if_split_asm)
        ((erule stream_steps step_steps subagent_steps, assumption, simp
           | rule hidden_steps, assumption, simp add: other_types_def, assumption
           | hypsubst, rule hidden_steps, assumption, simp add: other_types_def
           | (auto intro: subagent_steps hidden_steps(7,8) simp: other_types_def)[1])+)
  qed
qed

section \<open>Journals\<close>

definition wire_ok :: "wire \<Rightarrow> bool" where
  "wire_ok w \<longleftrightarrow> (w_errored w \<longrightarrow> \<not> w_running w)"

lemma wire_step_ok: "wire_step w e v \<Longrightarrow> wire_ok w \<Longrightarrow> wire_ok v"
  by (induction rule: wire_step.induct) (auto simp: wire_ok_def)

lemma wire_run_ok: "wire_run w es v \<Longrightarrow> wire_ok w \<Longrightarrow> wire_ok v"
  by (induction rule: wire_run.induct) (auto intro: wire_step_ok)

lemma apply_normalized_wire:
  assumes "apply_normalized env e p = Inr q" "wire_ok (wire_of p)"
  shows "wire_step (wire_of p) e (wire_of q)"
  using assms apply_event_wire [of env e p]
  by (auto simp: apply_normalized_def wire_ok_def wire_simps split: sum.splits)

lemma apply_all_wire:
  "apply_all env es p = Inr q \<Longrightarrow> wire_ok (wire_of p) \<Longrightarrow> wire_run (wire_of p) es (wire_of q)"
proof (induction es arbitrary: p)
  case (Cons e es)
  then obtain r where r: "apply_normalized env e p = Inr r" "apply_all env es r = Inr q"
    by (auto split: if_splits sum.splits)
  then have "wire_step (wire_of p) e (wire_of r)" using Cons.prems(2) apply_normalized_wire by blast
  then show ?case using Cons.IH [OF r(2)] Cons.prems(2) by (auto intro: run_cons wire_step_ok)
qed (auto intro: run_nil)

lemma closeLane_wire [wire_simps]: "wire_of (fst (closeLane l s)) = wire_of (fst s)"
  by (auto simp: closeLane_def drop_lane_def wire_simps split: option.splits)

lemma closeLanes_wire [wire_simps]: "wire_of (fst (fold closeLane ls s)) = wire_of (fst s)"
  by (induction ls arbitrary: s) (auto simp: wire_simps)

lemma normalize_wire:
  assumes "normalize e p = Inr (q, out)"
  shows "wire_of q = wire_of p"
proof -
  have plain: "wire_of (fst (normalize_plain e p)) = wire_of p"
    by (simp add: normalize_plain_def Let_def wire_simps)
  have opened: "wire_of q = wire_of (fst s)" if "open_lane kind idKey i l e s = Inr (q, out)" for kind idKey i l s
    using that by (auto simp: open_lane_def Let_def wire_simps split: if_splits)
  show ?thesis
    using assms plain
    by (auto simp: normalize_def normalize_chunk_def Let_def wire_simps dest!: opened
        split: option.splits sum.splits if_splits)
qed

lemma Apply_wire:
  assumes "Apply env e p = Inr (q, out)" "wire_ok (wire_of p)"
  shows "wire_run (wire_of p) out (wire_of q)"
proof -
  from assms(1) obtain r where r: "normalize e p = Inr (r, out)" "apply_all env out r = Inr q"
    by (auto simp: Apply_def split: if_splits sum.splits)
  have "wire_of r = wire_of p" using r(1) by (rule normalize_wire)
  then show ?thesis using apply_all_wire [OF r(2)] assms(2) by simp
qed

lemma feed_wire:
  "feed env es p = (q, out) \<Longrightarrow> wire_ok (wire_of p) \<Longrightarrow> wire_run (wire_of p) out (wire_of q)"
proof (induction es arbitrary: p out)
  case Nil
  then show ?case by (auto intro: run_nil)
next
  case (Cons e es)
  show ?case
  proof (cases "Apply env e p")
    case (Inl err)
    then show ?thesis using Cons by simp
  next
    case (Inr s)
    obtain r o1 where s: "s = (r, o1)" by fastforce
    obtain o2 where o2: "feed env es r = (q, o2)" "out = o1 @ o2"
      using Cons.prems(1) Inr s by (auto split: prod.splits)
    have step: "wire_run (wire_of p) o1 (wire_of r)"
      using Apply_wire [OF Inr [unfolded s] Cons.prems(2)] .
    then have "wire_run (wire_of r) o2 (wire_of q)"
      using Cons.IH [OF o2(1)] wire_run_ok Cons.prems(2) by blast
    with step show ?thesis unfolding o2(2) by (rule wire_run_append)
  qed
qed

lemma wire_ok_empty [simp]: "wire_ok (wire_of empty_projection)"
  by (simp add: wire_ok_def empty_projection_def)

section \<open>What every journal satisfies\<close>

text \<open>How often a stream was opened and closed in a part of a journal.\<close>

definition opened_times :: "stream \<times> string \<Rightarrow> obj list \<Rightarrow> nat" where
  "opened_times s es = length (filter (\<lambda>e. opens e = Some s) es)"

definition closed_times :: "stream \<times> string \<Rightarrow> obj list \<Rightarrow> nat" where
  "closed_times s es = length (filter (\<lambda>e. closes e = Some s) es)"

text \<open>Only one of the classes of events applies to an event of the protocol.\<close>

lemma opens_type: "opens e = Some s \<Longrightarrow> event_type e \<in> set (map fst start_types)"
  by (auto simp: opens_def dest: map_of_SomeD intro: rev_image_eqI)

lemma closes_type: "closes e = Some s \<Longrightarrow> event_type e \<in> set (map fst end_types)"
  by (auto simp: closes_def dest: map_of_SomeD intro: rev_image_eqI)

lemma writes_type: "writes e = Some s \<Longrightarrow> event_type e \<in> set (map fst content_types)"
  by (auto simp: writes_def dest: map_of_SomeD intro: rev_image_eqI)

lemma opens_None: "event_type e \<notin> set (map fst start_types) \<Longrightarrow> opens e = None"
  using opens_type by (cases "opens e") auto

lemma closes_None: "event_type e \<notin> set (map fst end_types) \<Longrightarrow> closes e = None"
  using closes_type by (cases "closes e") auto

text \<open>Between two starts of a run, openings are closings plus what is left open.\<close>

lemma wire_step_counts:
  assumes "wire_step w e v" "event_type e \<noteq> ''RUN_STARTED''"
  shows "opened_times s [e] + (if s \<in> w_open w then 1 else 0) = closed_times s [e] + (if s \<in> w_open v then 1 else 0)"
proof -
  have neither: "opened_times s [e] = closed_times s [e]"
    if "event_type e \<notin> set (map fst start_types @ map fst end_types)"
    using that opens_None [of e] closes_None [of e] by (simp add: opened_times_def closed_times_def)
  have op: "closes e = None" if "opens e = Some t" for t
    using opens_type [OF that] closes_None [of e] by (auto simp: start_types_def end_types_def)
  have cl: "opens e = None" if "closes e = Some t" for t
    using op that by (cases "opens e") auto
  from assms show ?thesis
  proof (cases rule: wire_step.cases)
    case (stream_opens t)
    then show ?thesis using op [of t] by (auto simp: opened_times_def closed_times_def)
  next
    case (stream_written t)
    then have "event_type e \<notin> set (map fst start_types @ map fst end_types)"
      by (auto dest!: writes_type simp: content_types_def start_types_def end_types_def)
    then show ?thesis using neither stream_written by simp
  next
    case (stream_closes t)
    then show ?thesis using cl [of t] by (auto simp: opened_times_def closed_times_def)
  qed (auto intro!: neither simp: start_types_def end_types_def other_types_def)
qed

lemma wire_run_counts:
  assumes "wire_run w es v" "\<forall>e \<in> set es. event_type e \<noteq> ''RUN_STARTED''"
  shows "opened_times s es + (if s \<in> w_open w then 1 else 0) = closed_times s es + (if s \<in> w_open v then 1 else 0)"
  using assms
proof (induction rule: wire_run.induct)
  case (run_cons w e v es u)
  have "opened_times s (e # es) = opened_times s [e] + opened_times s es"
    "closed_times s (e # es) = closed_times s [e] + closed_times s es"
    by (simp_all add: opened_times_def closed_times_def)
  then show ?case using wire_step_counts [OF run_cons.hyps(1), of s] run_cons.IH run_cons.prems by auto
qed (simp add: opened_times_def closed_times_def)

lemma finish_closed:
  assumes "wire_step w f v" "event_type f = ''RUN_FINISHED''"
  shows "w_open w = {}"
  using assms
  by (cases rule: wire_step.cases)
    (auto dest!: opens_type writes_type closes_type simp: start_types_def content_types_def end_types_def other_types_def)

lemma begin_closed:
  assumes "wire_step w b v" "event_type b = ''RUN_STARTED''"
  shows "w_open v = {}"
  using assms
  by (cases rule: wire_step.cases)
    (auto dest!: opens_type writes_type closes_type simp: start_types_def content_types_def end_types_def other_types_def)

lemma write_open:
  assumes "wire_step w e v" "writes e = Some s"
  shows "s \<in> w_open w"
  using assms writes_type [OF assms(2)]
  by (cases rule: wire_step.cases)
    (auto dest!: opens_type closes_type simp: start_types_def content_types_def end_types_def other_types_def)

lemma balanced_runs:
  assumes j: "snd (feed env events empty_projection) = before @ [b] @ body @ [f] @ rest"
    and b: "event_type b = ''RUN_STARTED''" and f: "event_type f = ''RUN_FINISHED''"
    and body: "\<forall>e \<in> set body. event_type e \<noteq> ''RUN_STARTED''"
  shows "opened_times s body = closed_times s body
    \<and> (\<forall>xs e ys. body = xs @ [e] @ ys \<and> writes e = Some s \<longrightarrow> opened_times s xs = closed_times s xs + 1)"
proof (intro conjI allI impI)
  have "wire_run (wire_of empty_projection) (before @ [b] @ body @ [f] @ rest)
      (wire_of (fst (feed env events empty_projection)))"
    using feed_wire [OF prod.collapse [symmetric], where env = env and es = events and p = empty_projection] j
    by simp
  then obtain w1 w2 w3 w4 where
    r: "wire_run w1 [b] w2" "wire_run w2 body w3" "wire_run w3 [f] w4"
    by (metis wire_run_split)
  have open2: "w_open w2 = {}" using r(1) begin_closed [OF _ b] by (auto elim!: wire_runE)
  have open3: "w_open w3 = {}" using r(3) finish_closed [OF _ f] by (auto elim!: wire_runE)
  show "opened_times s body = closed_times s body"
    using wire_run_counts [OF r(2) body, of s] open2 open3 by simp
  fix xs e ys
  assume e: "body = xs @ [e] @ ys \<and> writes e = Some s"
  then obtain v u where x: "wire_run w2 xs v" "wire_run v [e] u" using r(2) by (metis wire_run_split)
  then have "s \<in> w_open v" using e write_open [of v e _ s] by (auto elim!: wire_runE)
  moreover have "\<forall>e \<in> set xs. event_type e \<noteq> ''RUN_STARTED''" using body e by simp
  ultimately show "opened_times s xs = closed_times s xs + 1"
    using wire_run_counts [OF x(1), of s] open2 by simp
qed

text \<open>C4: Everything the projection writes is a well-formed journal. Feed it any events whatever, in any order: what it
  writes is a run of the protocol, in which nothing is opened twice, written or closed unless it is open, or
  happens outside a run, and a run that finishes has nothing open.\<close>

theorem feed_writes_protocol:
  "wire_run (wire_of empty_projection) (snd (feed env events empty_projection))
     (wire_of (fst (feed env events empty_projection)))"
  by (rule feed_wire) simp_all

text \<open>C19: From the last start of a run to its finish, each text message, reasoning message, tool call and reasoning
  span is closed exactly as often as it is opened, and a piece of its content is written only after one more
  opening than closings.\<close>

theorem finished_run_balanced:
  assumes "snd (feed env events empty_projection) = before @ [b] @ body @ [f] @ rest"
    and "event_type b = ''RUN_STARTED''" "event_type f = ''RUN_FINISHED''"
    and "\<forall>e \<in> set body. event_type e \<noteq> ''RUN_STARTED''"
  shows "opened_times s body = closed_times s body
    \<and> (\<forall>xs e ys. body = xs @ [e] @ ys \<and> writes e = Some s \<longrightarrow> opened_times s xs = closed_times s xs + 1)"
  using assms by (rule balanced_runs)

definition demo_body :: "obj list" where
  "demo_body = take 7 (drop 1 (snd (feed demo_env demo_stream empty_projection)))"

lemma finished_run_balanced_witness:
  "opened_times (TextStream, ''a'') demo_body = closed_times (TextStream, ''a'') demo_body"
proof -
  have "opened_times (TextStream, ''a'') demo_body = closed_times (TextStream, ''a'') demo_body
    \<and> (\<forall>xs e ys. demo_body = xs @ [e] @ ys \<and> writes e = Some (TextStream, ''a'')
        \<longrightarrow> opened_times (TextStream, ''a'') xs = closed_times (TextStream, ''a'') xs + 1)"
    by (rule finished_run_balanced [where env = demo_env and events = demo_stream and before = "[]"
          and b = "hd (snd (feed demo_env demo_stream empty_projection))"
          and f = "last (snd (feed demo_env demo_stream empty_projection))" and rest = "[]"]) code_simp+
  then show ?thesis by blast
qed

end
