(* ===== verification/AguiBehaviour.thy ===== *)
theory AguiBehaviour
  imports AguiProtocol
begin

text \<open>
  What the projection does with chunks and with its history: the lanes of a reachable projection, a message
  streamed as chunks, the history after a snapshot, where a tool result goes, and the streams after which a run
  can no longer be ended.
\<close>

section \<open>The lanes of a projection\<close>

definition same_lanes :: "Projection \<Rightarrow> Projection \<Rightarrow> bool" where
  "same_lanes p q \<longleftrightarrow> p_Chunks p = p_Chunks q \<and> p_ChunkOrder p = p_ChunkOrder q"

lemma lane_set: "l \<in> set (map fst kvs) \<longleftrightarrow> map_of kvs l \<noteq> None"
  by (metis map_of_eq_None_iff set_map)

lemma owners_keep_lanes [simp]:
  "p_Chunks (ensure_owner kind i w p) = p_Chunks p" "p_ChunkOrder (ensure_owner kind i w p) = p_ChunkOrder p"
  "p_Chunks (set_owner kind i w p) = p_Chunks p" "p_ChunkOrder (set_owner kind i w p) = p_ChunkOrder p"
  by (simp_all add: ensure_owner_def set_owner_def)

lemma seedOwners_keeps_lanes [simp]:
  "p_Chunks (seedOwners ms a p) = p_Chunks p" "p_ChunkOrder (seedOwners ms a p) = p_ChunkOrder p"
  using seedOwners_form [of ms a p] by auto

lemma run_lanes:
  "RunStarted e p = Inr q \<Longrightarrow> same_lanes p q" "RunEnded typ e p = Inr q \<Longrightarrow> same_lanes p q"
  by (auto simp: RunStarted_def RunEnded_def same_lanes_def indexTools_def Let_def split: if_splits option.splits)

lemma message_lanes:
  "MessageStart r e p = Inr q \<Longrightarrow> same_lanes p q" "MessageContent r e p = Inr q \<Longrightarrow> same_lanes p q"
  "MessageEnd r e p = Inr q \<Longrightarrow> same_lanes p q"
  by (auto simp: MessageStart_def MessageContent_def MessageEnd_def same_lanes_def set_open_def Let_def
      split: if_splits)

lemma call_lanes:
  "ToolStart e p = Inr q \<Longrightarrow> same_lanes p q" "ToolArgs e p = Inr q \<Longrightarrow> same_lanes p q"
  "ToolEnd e p = Inr q \<Longrightarrow> same_lanes p q" "ToolResult e p = Inr q \<Longrightarrow> same_lanes p q"
  by (auto simp: ToolStart_def ToolArgs_def ToolEnd_def ToolResult_def same_lanes_def Let_def
      split: if_splits option.splits sum.splits)

lemma state_lanes:
  "StateDelta env e p = Inr q \<Longrightarrow> same_lanes p q" "ActivityDelta env e p = Inr q \<Longrightarrow> same_lanes p q"
  "replaceHistory e p = Inr q \<Longrightarrow> same_lanes p q" "same_lanes p (ActivitySnapshot e p)"
  by (auto simp: StateDelta_def ActivityDelta_def replaceHistory_def ActivitySnapshot_def indexTools_def same_lanes_def
      Let_def split: if_splits option.splits sum.splits json.splits)

lemma span_lanes:
  "ReasoningStart e p = Inr q \<Longrightarrow> same_lanes p q" "ReasoningEnd e p = Inr q \<Longrightarrow> same_lanes p q"
  "ReasoningEncryptedValue e p = Inr q \<Longrightarrow> same_lanes p q"
  "StepStarted e p = Inr q \<Longrightarrow> same_lanes p q" "StepFinished e p = Inr q \<Longrightarrow> same_lanes p q"
  "SubagentStarted e p = Inr q \<Longrightarrow> same_lanes p q" "SubagentEnded e p = Inr q \<Longrightarrow> same_lanes p q"
  by (auto simp: ReasoningStart_def ReasoningEnd_def ReasoningEncryptedValue_def StepStarted_def StepFinished_def
      SubagentStarted_def SubagentEnded_def same_lanes_def Let_def split: if_splits option.splits)

lemma same_lanes_state [simp]: "same_lanes p p" "same_lanes p (p\<lparr>p_State := s\<rparr>)"
  by (simp_all add: same_lanes_def)

lemma apply_event_lanes: "apply_event env typ e p = Inr q \<Longrightarrow> same_lanes p q"
  unfolding apply_event_def
  by (simp split: if_split_asm)
    (erule run_lanes message_lanes call_lanes state_lanes span_lanes
      | hypsubst, rule state_lanes(4) same_lanes_state | (auto simp: state_lanes)[1])+

lemma apply_all_lanes: "apply_all env es p = Inr q \<Longrightarrow> same_lanes p q"
proof (induction es arbitrary: p)
  case (Cons e es)
  then obtain r where r: "apply_normalized env e p = Inr r" "apply_all env es r = Inr q"
    by (auto split: if_splits sum.splits)
  then have "same_lanes p r"
    by (auto simp: apply_normalized_def same_lanes_def dest: apply_event_lanes split: sum.splits)
  then show ?case using Cons.IH [OF r(2)] by (simp add: same_lanes_def)
qed simp

section \<open>Closing lanes\<close>

lemma closeLane_parts:
  "p_Chunks (fst (closeLane l s)) = AList.delete l (p_Chunks (fst s))"
  "set (p_ChunkOrder (fst s)) = set (map fst (p_Chunks (fst s))) \<Longrightarrow>
     p_ChunkOrder (fst (closeLane l s)) = remove1 l (p_ChunkOrder (fst s))"
proof -
  have none: "l \<notin> set (map fst (p_Chunks (fst s)))" if "map_of (p_Chunks (fst s)) l = None"
    using that lane_set [of l "p_Chunks (fst s)"] by simp
  show "p_Chunks (fst (closeLane l s)) = AList.delete l (p_Chunks (fst s))"
    using none by (cases "map_of (p_Chunks (fst s)) l") (auto simp: closeLane_def drop_lane_def)
  show "set (p_ChunkOrder (fst s)) = set (map fst (p_Chunks (fst s))) \<Longrightarrow>
      p_ChunkOrder (fst (closeLane l s)) = remove1 l (p_ChunkOrder (fst s))"
    using none
    by (cases "map_of (p_Chunks (fst s)) l") (auto simp: closeLane_def drop_lane_def remove1_idem)
qed

text \<open>What is left after closing lanes.\<close>

definition order_ok :: "Projection \<Rightarrow> bool" where
  "order_ok p \<longleftrightarrow> distinct (p_ChunkOrder p) \<and> distinct (map fst (p_Chunks p))
     \<and> set (p_ChunkOrder p) = set (map fst (p_Chunks p))"

lemma closeLane_order: "order_ok (fst s) \<Longrightarrow> order_ok (fst (closeLane l s))"
  using closeLane_parts [where l = l and s = s] by (auto simp: order_ok_def delete_keys distinct_removeAll)

lemma closeLanes_order:
  "order_ok (fst s) \<Longrightarrow> order_ok (fst (fold closeLane ls s))
     \<and> set (map fst (p_Chunks (fst (fold closeLane ls s)))) = set (map fst (p_Chunks (fst s))) - set ls"
proof (induction ls arbitrary: s)
  case (Cons l ls)
  have "set (map fst (p_Chunks (fst (closeLane l s)))) = set (map fst (p_Chunks (fst s))) - {l}"
    by (auto simp: closeLane_parts delete_keys)
  then show ?case using Cons.IH [OF closeLane_order [OF Cons.prems, of l]] by auto
qed simp

text \<open>Each lane is listed once, in the order of opening, and only a running projection has lanes.\<close>

definition lanes_ok :: "Projection \<Rightarrow> bool" where
  "lanes_ok p \<longleftrightarrow> order_ok p \<and> (p_Chunks p \<noteq> [] \<longrightarrow> p_Running p) \<and> (p_Errored p \<longrightarrow> \<not> p_Running p)"

section \<open>The types of the events that are written\<close>

lemma field_put: "field (put k v ob) k' = (if k = k' then field [(k', v)] k' else field ob k')"
  by (simp add: field_def put_def update_conv')

lemma field_inherit: "k \<notin> set ks \<Longrightarrow> field (inherit src ks dst) k = field dst k"
proof (induction ks arbitrary: dst)
  case (Cons k' ks)
  then show ?case by (auto simp: inherit_def field_put split: option.splits)
qed (simp add: inherit_def)

lemma field_lane_tag: "k \<noteq> ''subagentRunId'' \<Longrightarrow> field (lane_tag l ob) k = field ob k"
  by (auto simp: lane_tag_def field_put split: option.splits)

lemma written_types:
  "event_type (end_event c) = ck_Kind c @ ''_END''"
  "event_type (start_event kind idKey i l e) = kind @ ''_START''"
  "event_type (content_event kind idKey i l e) = (if kind = ''TOOL_CALL'' then ''TOOL_CALL_ARGS'' else kind @ ''_CONTENT'')"
  by (simp_all add: event_type_def end_event_def start_event_def content_event_def Let_def field_inherit
      field_lane_tag field_put) (simp_all add: field_def)

definition run_types :: "string list" where
  "run_types = [''RUN_STARTED'', ''RUN_FINISHED'', ''RUN_ERROR'']"

lemma not_run_type:
  "kind @ ''_END'' \<notin> set run_types" "kind @ ''_START'' \<notin> set run_types" "kind @ ''_CONTENT'' \<notin> set run_types"
  "''TOOL_CALL_ARGS'' \<notin> set run_types"
proof -
  have "last (kind @ ''_END'') = CHR ''D''" "last (kind @ ''_START'') = CHR ''T''" "last (kind @ ''_CONTENT'') = CHR ''T''"
    by simp_all
  have "take 4 (rev (kind @ ''_END'')) = ''DNE_''" "take 4 (rev (kind @ ''_START'')) = ''TRAT''"
    "take 4 (rev (kind @ ''_CONTENT'')) = ''TNET''" by simp_all
  then show "kind @ ''_END'' \<notin> set run_types" "kind @ ''_START'' \<notin> set run_types"
    "kind @ ''_CONTENT'' \<notin> set run_types"
    by (auto simp: run_types_def simp del: rev_append)
  show "''TOOL_CALL_ARGS'' \<notin> set run_types" by (simp add: run_types_def)
qed

lemma closeLane_events:
  "set (snd (closeLane l s)) \<subseteq> set (snd s) \<union> {x. event_type x \<notin> set run_types}"
  by (auto simp: closeLane_def written_types not_run_type split: option.splits)

lemma closeLanes_events:
  "set (snd (fold closeLane ls s)) \<subseteq> set (snd s) \<union> {x. event_type x \<notin> set run_types}"
proof (induction ls arbitrary: s)
  case (Cons l ls)
  show ?case using Cons.IH [of "closeLane l s"] closeLane_events [of l s] by auto
qed simp

text \<open>Apart from the beginning and the end of a run, events are written only while it runs.\<close>

lemma wire_run_running:
  assumes "wire_run w es v" "\<forall>e \<in> set es. event_type e \<notin> set run_types"
  shows "w_running v = w_running w \<and> (es \<noteq> [] \<longrightarrow> w_running w)"
  using assms
proof (induction rule: wire_run.induct)
  case (run_cons w e v es u)
  from run_cons.hyps(1) have "w_running v = w_running w \<and> w_running w"
    using run_cons.prems by (cases rule: wire_step.cases) (auto simp: run_types_def)
  then show ?case using run_cons by auto
qed simp

text \<open>What normalization does to the lanes, and what it writes.\<close>

lemma normalize_plain_lanes:
  assumes "order_ok p" "normalize_plain e p = (q, out)"
  shows "order_ok q" "set (map fst (p_Chunks q)) \<subseteq> set (map fst (p_Chunks p))"
    "event_type e \<in> set whole_run \<Longrightarrow> p_Chunks q = []"
    "\<exists>ends. out = ends @ [e] \<and> (\<forall>x \<in> set ends. event_type x \<notin> set run_types)"
proof -
  have o: "order_ok (fst (p, [] :: obj list))" using assms(1) by simp
  note closed = closeLanes_order [OF o] closeLane_order [OF o]
  have one: "set (map fst (p_Chunks (fst (closeLane l (p, []))))) \<subseteq> set (map fst (p_Chunks p))" for l
    by (auto simp: closeLane_parts delete_keys)
  show "order_ok q" using assms closed by (auto simp: normalize_plain_def Let_def split: if_splits)
  have "set (map fst (p_Chunks (fst (fold closeLane (p_ChunkOrder p) (p, []))))) \<subseteq> set (map fst (p_Chunks p))"
    using closeLanes_order [OF o, of "p_ChunkOrder p"] by auto
  then show "set (map fst (p_Chunks q)) \<subseteq> set (map fst (p_Chunks p))"
    using assms(2) one [of "ownerKey e"] unfolding normalize_plain_def Let_def
    by (simp only: prod.inject split: if_splits) (simp_all only: fst_conv prod.inject; blast)
  show "p_Chunks q = []" if "event_type e \<in> set whole_run"
  proof -
    have "q = fst (fold closeLane (p_ChunkOrder p) (p, []))"
      using assms(2) that by (auto simp: normalize_plain_def Let_def)
    then have "set (map fst (p_Chunks q)) = {}"
      using closeLanes_order [OF o, of "p_ChunkOrder p"] assms(1) by (simp add: order_ok_def)
    then show ?thesis by simp
  qed
  show "\<exists>ends. out = ends @ [e] \<and> (\<forall>x \<in> set ends. event_type x \<notin> set run_types)"
    using assms(2) closeLanes_events [of "p_ChunkOrder p" "(p, [])"] closeLane_events [of "ownerKey e" "(p, [])"]
    by (auto simp: normalize_plain_def Let_def split: if_splits)
qed

lemma open_lane_lanes:
  assumes "order_ok (fst s)" "l \<notin> set (p_ChunkOrder (fst s))" "open_lane kind idKey i l e s = Inr (q, out)"
    and "\<forall>x \<in> set (snd s). event_type x \<notin> set run_types"
  shows "order_ok q \<and> out \<noteq> [] \<and> (\<forall>x \<in> set out. event_type x \<notin> set run_types)"
proof -
  obtain c where q: "p_Chunks q = AList.update l c (p_Chunks (fst s))" "p_ChunkOrder q = p_ChunkOrder (fst s) @ [l]"
    using assms(3) by (auto simp: open_lane_def Let_def split: if_splits)
  have "map fst (p_Chunks q) = map fst (p_Chunks (fst s)) @ [l]"
    using assms(1,2) by (simp add: q update_keys order_ok_def)
  then have "order_ok q" using assms(1,2) by (auto simp: order_ok_def q(2))
  moreover have "out \<noteq> [] \<and> (\<forall>x \<in> set out. event_type x \<notin> set run_types)"
    using assms(3,4)
    by (auto simp: open_lane_def Let_def content_of_def written_types not_run_type split: if_splits)
  ultimately show ?thesis by simp
qed

lemma normalize_chunk_lanes:
  assumes "order_ok p" "normalize_chunk kind e p = Inr (q, out)"
  shows "order_ok q \<and> (p_Chunks p = [] \<longrightarrow> out \<noteq> []) \<and> (\<forall>x \<in> set out. event_type x \<notin> set run_types)"
proof -
  define idKey where "idKey = (if kind = ''TOOL_CALL'' then ''toolCallId'' else ''messageId'')"
  obtain l where l: "chunk_lane kind idKey e p = Inr l"
    using assms(2) by (auto simp: normalize_chunk_def idKey_def Let_def split: sum.splits)
  consider (go_on) c i where "map_of (p_Chunks p) l = Some c" "q = p" "out = content_of kind idKey i l True e"
    | (fresh) i where "map_of (p_Chunks p) l = None" "open_lane kind idKey i l e (p, []) = Inr (q, out)"
    | (other) i where "open_lane kind idKey i l e (closeLane l (p, [])) = Inr (q, out)"
    using assms(2) l
    by (auto simp: normalize_chunk_def idKey_def [symmetric] Let_def split: option.splits if_splits)
  then show ?thesis
  proof cases
    case go_on
    then show ?thesis using assms(1) by (auto simp: content_of_def written_types not_run_type)
  next
    case fresh
    then have "l \<notin> set (p_ChunkOrder p)" using assms(1) lane_set [of l "p_Chunks p"] by (simp add: order_ok_def)
    then show ?thesis using open_lane_lanes [OF _ _ fresh(2)] assms(1) by simp
  next
    case other
    have o: "order_ok (fst (closeLane l (p, [])))" using assms(1) by (simp add: closeLane_order)
    moreover have "l \<notin> set (p_ChunkOrder (fst (closeLane l (p, []))))"
      using o unfolding order_ok_def by (auto simp: closeLane_parts delete_keys)
    ultimately show ?thesis
      using open_lane_lanes [OF _ _ other] closeLane_events [of l "(p, [])"] by auto
  qed
qed

lemma Apply_lanes:
  assumes "Apply env e p = Inr (q, out)" "lanes_ok p"
  shows "lanes_ok q"
proof -
  from assms(1) obtain r where r: "normalize e p = Inr (r, out)" "apply_all env out r = Inr q"
    by (auto simp: Apply_def split: if_splits sum.splits)
  have ok: "order_ok p" "wire_ok (wire_of p)" using assms(2) by (auto simp: lanes_ok_def wire_ok_def)
  have same: "same_lanes r q" using r(2) by (rule apply_all_lanes)
  have run: "wire_run (wire_of p) out (wire_of q)" using Apply_wire [OF assms(1) ok(2)] .
  have err: "p_Errored q \<longrightarrow> \<not> p_Running q" using wire_run_ok [OF run ok(2)] by (simp add: wire_ok_def)
  have "order_ok r \<and> (p_Chunks r \<noteq> [] \<longrightarrow> p_Running q)"
  proof (cases "strip_suffix ''_CHUNK'' (event_type e)")
    case None
    then have n: "normalize_plain e p = (r, out)" using r(1) by (simp add: normalize_def)
    note P = normalize_plain_lanes [OF ok(1) n]
    show ?thesis
    proof (cases "event_type e \<in> set whole_run")
      case True
      then show ?thesis using P(1,3) by simp
    next
      case False
      then have "\<forall>x \<in> set out. event_type x \<notin> set run_types"
        using P(4) by (auto simp: whole_run_def run_types_def)
      then have "p_Running q = p_Running p" using wire_run_running [OF run] by simp
      then show ?thesis using P(1,2) assms(2) by (auto simp: lanes_ok_def)
    qed
  next
    case (Some kind)
    then have "normalize_chunk kind e p = Inr (r, out)" using r(1) by (simp add: normalize_def)
    note C = normalize_chunk_lanes [OF ok(1) this]
    then show ?thesis using wire_run_running [OF run] assms(2) by (auto simp: lanes_ok_def)
  qed
  then show ?thesis using same err by (simp add: lanes_ok_def order_ok_def same_lanes_def)
qed

lemma feed_lanes: "lanes_ok p \<Longrightarrow> lanes_ok (fst (feed env events p))"
proof (induction events arbitrary: p)
  case (Cons e events)
  show ?case
  proof (cases "Apply env e p")
    case (Inr s)
    then have "lanes_ok (fst (feed env events (fst s)))"
      using Cons Apply_lanes [of env e p "fst s" "snd s"] by simp
    then show ?thesis using Inr by (cases s) (auto split: prod.splits)
  qed (simp add: Cons)
qed simp

text \<open>Whatever is fed, the lanes and the list of their order name the same attributions, each once, a projection has
  lanes only while a run is on, and it is never both running and in error. So the end of a run, by finish or by
  error, leaves no chunk stream behind.\<close>

theorem lanes_invariant:
  "lanes_ok (fst (feed env events empty_projection))"
  by (rule feed_lanes) (simp add: lanes_ok_def order_ok_def empty_projection_def)

section \<open>Runs that cannot be ended\<close>

lemma closeLanes_write:
  assumes "map_of (p_Chunks (fst s)) l = Some c" "l \<in> set ls"
  shows "end_event c \<in> set (snd (fold closeLane ls s))"
proof -
  have keeps: "x \<in> set (snd (fold closeLane ls s))" if "x \<in> set (snd s)" for x s ls
    using that
  proof (induction ls arbitrary: s)
    case (Cons l ls)
    then show ?case by (auto simp: closeLane_def split: option.splits)
  qed simp
  show ?thesis
    using assms
  proof (induction ls arbitrary: s)
    case (Cons k ls)
    show ?case
    proof (cases "k = l")
      case True
      then have "end_event c \<in> set (snd (closeLane k s))" using Cons.prems by (simp add: closeLane_def)
      then show ?thesis by (simp add: keeps)
    next
      case False
      then have "map_of (p_Chunks (fst (closeLane k s))) l = Some c"
        using Cons.prems by (simp add: closeLane_parts)
      then show ?thesis using Cons False by simp
    qed
  qed simp
qed

lemma ends_only:
  "set (snd (fold closeLane ls s)) \<subseteq> set (snd s) \<union> range end_event"
proof (induction ls arbitrary: s)
  case (Cons l ls)
  have "set (snd (closeLane l s)) \<subseteq> set (snd s) \<union> range end_event"
    by (auto simp: closeLane_def split: option.splits)
  then show ?case using Cons.IH [of "closeLane l s"] by auto
qed simp

lemma end_event_opens: "opens (end_event c) = None"
proof (rule opens_None)
  have "take 4 (rev (ck_Kind c @ ''_END'')) = ''DNE_''" by simp
  then show "event_type (end_event c) \<notin> set (map fst start_types)"
    unfolding written_types by (auto simp: start_types_def simp del: rev_append)
qed

text \<open>Among events that open nothing, what is closed was open from the beginning.\<close>

lemma wire_run_closes:
  assumes "wire_run w es v" "\<forall>x \<in> set es. opens x = None \<and> event_type x \<notin> set run_types"
    and "x \<in> set es" "closes x = Some s"
  shows "s \<in> w_open w"
  using assms
proof (induction rule: wire_run.induct)
  case (run_cons w e v es u)
  have shrinks: "w_open v \<subseteq> w_open w"
    using run_cons.hyps(1) run_cons.prems(1) by (cases rule: wire_step.cases) (auto simp: run_types_def)
  have here: "s \<in> w_open w" if "closes e = Some s"
    using run_cons.hyps(1) that closes_type [OF that]
    by (cases rule: wire_step.cases)
      (auto dest!: opens_type writes_type simp: start_types_def content_types_def end_types_def other_types_def)
  show ?case using run_cons shrinks here by auto
qed simp

lemma lane_of_closed_stream:
  assumes lane: "map_of (p_Chunks p) l = Some c" and ok: "lanes_ok p"
    and stream: "closes (end_event c) = Some s" "s \<notin> w_open (wire_of p)"
    and e: "event_type e \<in> set whole_run"
  shows "\<exists>err. Apply env e p = Inl err"
proof (rule ccontr)
  assume "\<nexists>err. Apply env e p = Inl err"
  then obtain q out where a: "Apply env e p = Inr (q, out)"
    by (cases "Apply env e p") auto
  have "strip_suffix ''_CHUNK'' (event_type e) = None"
    using e by (auto simp: whole_run_def strip_suffix_def)
  then have n: "normalize e p = Inr (normalize_plain e p)" by (simp add: normalize_def)
  let ?ends = "snd (fold closeLane (p_ChunkOrder p) (p, []))"
  have out: "out = ?ends @ [e]"
    using a n e by (auto simp: Apply_def normalize_plain_def Let_def split: if_splits sum.splits)
  have "wire_ok (wire_of p)" using ok by (simp add: lanes_ok_def wire_ok_def)
  then obtain v where v: "wire_run (wire_of p) ?ends v"
    using Apply_wire [OF a] unfolding out by (metis wire_run_split)
  have quiet: "\<forall>x \<in> set ?ends. opens x = None \<and> event_type x \<notin> set run_types"
    using ends_only [of "p_ChunkOrder p" "(p, [])"] closeLanes_events [of "p_ChunkOrder p" "(p, [])"]
    by (auto simp: end_event_opens)
  have "l \<in> set (p_ChunkOrder p)"
    using lane ok lane_set [of l "p_Chunks p"] by (simp add: lanes_ok_def order_ok_def)
  then have "end_event c \<in> set ?ends" using closeLanes_write [of "(p, [])"] lane by simp
  then show False using wire_run_closes [OF v quiet _ stream(1)] stream(2) by blast
qed

text \<open>C39: A lane whose stream is no longer open blocks the run: its start, its finish and its failure are all refused,
  whatever the library and the schema say. The stream of events in the witness, each accepted, leads there: the
  chunk of a subagent's message, then the end of that message without a tag, which deletes the open message and
  leaves the lane. The code means \<open>RUN_ERROR\<close> to end a run whatever is open.\<close>

theorem closed_lane_blocks_run:
  assumes "map_of (p_Chunks p) l = Some c" "lanes_ok p"
    and "closes (end_event c) = Some s" "s \<notin> w_open (wire_of p)"
    and "event_type e \<in> set whole_run"
  shows "\<exists>err. Apply env e p = Inl err"
  using assms by (rule lane_of_closed_stream)

lemma closed_lane_blocks_run_witness:
  "\<exists>err. Apply demo_env (ev ''RUN_ERROR'' []) stuck_projection = Inl err"
proof (rule closed_lane_blocks_run [of _ "''tag:s''" _ "(TextStream, ''a'')"])
  show "map_of (p_Chunks stuck_projection) ''tag:s'' = Some (snd (hd (p_Chunks stuck_projection)))"
    by code_simp
  show "lanes_ok stuck_projection"
    unfolding stuck_projection_def by (rule feed_lanes) (simp add: lanes_ok_def order_ok_def empty_projection_def)
  show "closes (end_event (snd (hd (p_Chunks stuck_projection)))) = Some (TextStream, ''a'')" by code_simp
  have "map_of (stream_map TextStream stuck_projection) ''a'' = None" by code_simp
  then show "(TextStream, ''a'') \<notin> w_open (wire_of stuck_projection)" by simp
  show "event_type (ev ''RUN_ERROR'' []) \<in> set whole_run" by code_simp
qed

section \<open>A message streamed as chunks\<close>

definition chunk_event :: "string \<Rightarrow> string \<Rightarrow> obj" where
  "chunk_event i d = ev ''TEXT_MESSAGE_CHUNK'' [(''messageId'', i), (''delta'', d)]"

definition text_start :: "string \<Rightarrow> obj" where
  "text_start i = ev ''TEXT_MESSAGE_START'' [(''messageId'', i), (''role'', ''assistant'')]"

definition text_content :: "string \<Rightarrow> string \<Rightarrow> obj" where
  "text_content i d = ev ''TEXT_MESSAGE_CONTENT'' [(''messageId'', i), (''delta'', d)]"

definition text_message :: "string \<Rightarrow> string \<Rightarrow> obj" where
  "text_message i s = [(''id'', JStr i), (''role'', JStr ''assistant''), (''content'', JStr s)]"

text \<open>A projection on which a text message without attribution has been streamed so far.\<close>

definition with_lane :: "Projection \<Rightarrow> string \<Rightarrow> Projection" where
  "with_lane p i = p\<lparr>
     p_Chunks := AList.update ''parent:'' \<lparr>ck_Kind = ''TEXT_MESSAGE'', ck_ID = i, ck_Fields = text_start i\<rparr> (p_Chunks p),
     p_ChunkOrder := p_ChunkOrder p @ [''parent:'']\<rparr>"

definition streaming :: "Projection \<Rightarrow> string \<Rightarrow> string \<Rightarrow> Projection" where
  "streaming p i s = (with_lane p i)\<lparr>
     p_Messages := p_Messages p @ [text_message i s],
     p_Owners := AList.update (''message'', i) ''parent:'' (p_Owners p),
     p_Text := AList.update i [] (p_Text p)\<rparr>"

definition can_stream :: "Projection \<Rightarrow> string \<Rightarrow> bool" where
  "can_stream p i \<longleftrightarrow> p_Running p \<and> \<not> p_Errored p \<and> map_of (p_Chunks p) ''parent:'' = None
     \<and> (\<forall>kc \<in> set (p_Chunks p). \<not> (ck_Kind (snd kc) = ''TEXT_MESSAGE'' \<and> ck_ID (snd kc) = i))
     \<and> map_of (p_Text p) i = None \<and> owner p ''message'' i = None \<and> message (p_Messages p) i = None"

lemma chunk_event_simps [simp]:
  "event_type (chunk_event i d) = ''TEXT_MESSAGE_CHUNK''" "has_key (chunk_event i d) ''messageId''"
  "has_key (chunk_event i d) ''delta''" "field (chunk_event i d) ''messageId'' = i"
  "ownerKey (chunk_event i d) = ''parent:''" "\<not> tagged (chunk_event i d)"
  "\<not> has_key (chunk_event i d) ''metadata''"
  by (simp_all add: chunk_event_def ev_def event_type_def field_def has_key_def ownerKey_def tagged_def)

lemma written_chunk:
  "start_event ''TEXT_MESSAGE'' ''messageId'' i ''parent:'' (chunk_event i d) = text_start i"
  "content_event ''TEXT_MESSAGE'' ''messageId'' i ''parent:'' (chunk_event i d) = text_content i d"
  by (simp_all add: start_event_def content_event_def chunk_event_def text_start_def text_content_def ev_def
      inherit_def lane_tag_def put_def field_def Let_def)

lemma update_absent: "map_of al k = None \<Longrightarrow> AList.update k v al = al @ [(k, v)]"
  by (induction al) (auto split: if_splits)

lemma find_last: "find P xs = None \<Longrightarrow> find P (xs @ [x]) = (if P x then Some x else None)"
  by (induction xs) (auto split: if_splits)

lemma normalize_first_chunk:
  assumes "can_stream p i"
  shows "normalize (chunk_event i d) p = Inr (with_lane p i, [text_start i, text_content i d])"
proof -
  have "find (\<lambda>kc. ck_Kind (snd kc) = ''TEXT_MESSAGE'' \<and> ck_ID (snd kc) = i) (p_Chunks p) = None"
    using assms by (auto simp: find_None_iff can_stream_def)
  then have "chunk_lane ''TEXT_MESSAGE'' ''messageId'' (chunk_event i d) p = Inr ''parent:''"
    by (simp add: chunk_lane_def)
  then show ?thesis
    using assms
    by (simp add: normalize_def strip_suffix_def normalize_chunk_def can_stream_def open_lane_def content_of_def
        written_chunk with_lane_def Let_def)
qed

lemma opener_unchanged: "opener_changed (chunk_event i d) op opener_fields = None"
  by (simp add: opener_fields_def chunk_event_def ev_def)

lemma normalize_next_chunk:
  assumes "can_stream p i"
  shows "normalize (chunk_event i d) (streaming p i s) = Inr (streaming p i s, [text_content i d])"
proof -
  let ?c = "\<lparr>ck_Kind = ''TEXT_MESSAGE'', ck_ID = i, ck_Fields = text_start i\<rparr>"
  have chunks: "p_Chunks (streaming p i s) = p_Chunks p @ [(''parent:'', ?c)]"
    using assms by (simp add: streaming_def with_lane_def can_stream_def update_absent)
  have "find (\<lambda>kc. ck_Kind (snd kc) = ''TEXT_MESSAGE'' \<and> ck_ID (snd kc) = i) (p_Chunks (streaming p i s))
      = Some (''parent:'', ?c)"
    using assms unfolding chunks
    by (subst find_last) (auto simp: find_None_iff can_stream_def)
  then have "chunk_lane ''TEXT_MESSAGE'' ''messageId'' (chunk_event i d) (streaming p i s) = Inr ''parent:''"
    by (simp add: chunk_lane_def)
  moreover have "map_of (p_Chunks (streaming p i s)) ''parent:'' = Some ?c"
    by (simp add: streaming_def with_lane_def update_conv')
  ultimately show ?thesis
    by (simp add: normalize_def strip_suffix_def normalize_chunk_def content_of_def written_chunk opener_unchanged)
qed

lemma mergeMetadata_none: "map_of e ''metadata'' = None \<Longrightarrow> mergeMetadata m e = m"
  by (simp add: mergeMetadata_def get_object_def)

lemma update_first_same: "(\<And>x. f x = x) \<Longrightarrow> update_first P f xs = xs"
  by (induction xs) auto

lemma text_event_simps [simp]:
  "event_type (text_start i) = ''TEXT_MESSAGE_START''" "event_type (text_content i d) = ''TEXT_MESSAGE_CONTENT''"
  "field (text_start i) ''messageId'' = i" "field (text_content i d) ''messageId'' = i"
  "field (text_content i d) ''delta'' = d" "field (text_start i) ''role'' = ''assistant''"
  "ownerKey (text_start i) = ''parent:''" "\<not> tagged (text_start i)" "\<not> tagged (text_content i d)"
  "map_of (text_start i) ''metadata'' = None" "map_of (text_content i d) ''metadata'' = None"
  by (simp_all add: text_start_def text_content_def ev_def event_type_def field_def ownerKey_def tagged_def has_key_def)

text \<open>The metadata of a streamed event: none leaves the messages alone.\<close>

lemma merge_streamed_nothing:
  assumes "map_of e ''metadata'' = None"
  shows "merge_event_metadata ''TEXT_MESSAGE_START'' e ms = ms"
    "merge_event_metadata ''TEXT_MESSAGE_CONTENT'' e ms = ms"
  using assms by (simp_all add: merge_event_metadata_def Let_def set_message_def mergeMetadata_none update_first_same)

lemma update_first_last: "find P xs = None \<Longrightarrow> P x \<Longrightarrow> update_first P f (xs @ [x]) = xs @ [f x]"
  by (induction xs) (auto split: if_splits)

lemma apply_text_start:
  assumes "can_stream p i"
  shows "apply_normalized env (text_start i) (with_lane p i) = Inr (streaming p i [])"
proof -
  have run: "p_Running (with_lane p i)" "\<not> p_Errored (with_lane p i)" "map_of (p_Text (with_lane p i)) i = None"
    "owner (with_lane p i) ''message'' i = None" "message (p_Messages (with_lane p i)) i = None"
    using assms by (simp_all add: with_lane_def can_stream_def owner_def)
  have "MessageStart False (text_start i) (with_lane p i) = Inr (streaming p i [])"
    using run
    by (simp add: MessageStart_def open_messages_def set_open_def kind_of_def checkOwner_def ensure_owner_def
        set_owner_def Let_def owner_def update_conv' attribution_def streaming_def text_message_def inherit_def)
      (simp add: with_lane_def text_start_def ev_def)
  then show ?thesis using run by (simp add: apply_normalized_def apply_event_def merge_streamed_nothing)
qed

lemma apply_text_content:
  assumes "can_stream p i"
  shows "apply_normalized env (text_content i d) (streaming p i s) = Inr (streaming p i (s @ d))"
proof -
  have run: "p_Running (streaming p i s)" "\<not> p_Errored (streaming p i s)"
    "map_of (p_Text (streaming p i s)) i = Some []"
    using assms by (simp_all add: streaming_def with_lane_def can_stream_def update_conv')
  have "has_id i (text_message i s)" by (simp add: has_id_def text_message_def field_def)
  moreover have "append_content d (text_message i s) = text_message i (s @ d)"
    by (simp add: append_content_def text_message_def field_def put_def)
  moreover have "find (has_id i) (p_Messages p) = None" using assms by (simp add: can_stream_def message_def)
  ultimately have "set_message i (append_content d) (p_Messages p @ [text_message i s])
      = p_Messages p @ [text_message i (s @ d)]"
    by (simp add: set_message_def update_first_last)
  then have "MessageContent False (text_content i d) (streaming p i s) = Inr (streaming p i (s @ d))"
    using run by (simp add: MessageContent_def open_messages_def checkOwner_def Let_def) (simp add: streaming_def)
  then show ?thesis using run by (simp add: apply_normalized_def apply_event_def merge_streamed_nothing)
qed

lemma feed_next_chunks:
  assumes "can_stream p i" "\<forall>e. valid_event env e"
  shows "feed env (map (chunk_event i) ds) (streaming p i s)
    = (streaming p i (s @ concat ds), map (text_content i) ds)"
proof (induction ds arbitrary: s)
  case (Cons d ds)
  have "Apply env (chunk_event i d) (streaming p i s) = Inr (streaming p i (s @ d), [text_content i d])"
    using assms by (simp add: Apply_def normalize_next_chunk apply_text_content)
  then show ?case using Cons.IH [of "s @ d"] by simp
qed simp

lemma feed_chunks:
  assumes "can_stream p i" "\<forall>e. valid_event env e"
  shows "feed env (map (chunk_event i) (d # ds)) p
    = (streaming p i (concat (d # ds)), text_start i # map (text_content i) (d # ds))"
proof -
  have "Apply env (chunk_event i d) p = Inr (streaming p i d, [text_start i, text_content i d])"
    using assms by (simp add: Apply_def normalize_first_chunk apply_text_start apply_text_content)
  then show ?thesis using feed_next_chunks [OF assms, of ds d] by simp
qed

text \<open>C21: A message streamed as one or more chunks while a run is on, under an identity that is new to the run and
  with no chunk stream open on its lane, is journalled as one start and one content for each chunk in order, and is in the
  history once, after the messages that were there, with the pieces joined in order as its content.\<close>

theorem chunks_make_message:
  assumes "can_stream p i" "\<forall>e. valid_event env e" "ds \<noteq> []"
  shows "snd (feed env (map (chunk_event i) ds) p) = text_start i # map (text_content i) ds
    \<and> p_Messages (fst (feed env (map (chunk_event i) ds) p)) = p_Messages p @ [text_message i (concat ds)]"
  using feed_chunks [OF assms(1,2), of "hd ds" "tl ds"] assms(3) by (auto simp: streaming_def)

lemma chunks_make_message_witness:
  "snd (feed demo_env (map (chunk_event ''a'') [''Hel'', ''lo'']) (fst (feed demo_env [run_started] empty_projection)))
     = text_start ''a'' # map (text_content ''a'') [''Hel'', ''lo'']
   \<and> p_Messages (fst (feed demo_env (map (chunk_event ''a'') [''Hel'', ''lo''])
        (fst (feed demo_env [run_started] empty_projection))))
     = p_Messages (fst (feed demo_env [run_started] empty_projection)) @ [text_message ''a'' (concat [''Hel'', ''lo''])]"
proof (rule chunks_make_message)
  show "can_stream (fst (feed demo_env [run_started] empty_projection)) ''a''" by code_simp
qed (simp_all add: demo_env_def)

section \<open>The history after a snapshot\<close>

definition ids :: "obj list \<Rightarrow> string list" where
  "ids ms = map (\<lambda>m. field m ''id'') ms"

lemma ids_simps [simp]:
  "ids [] = []" "ids (m # ms) = field m ''id'' # ids ms" "ids (xs @ ys) = ids xs @ ids ys"
  by (simp_all add: ids_def)

lemma in_ids: "i \<in> set (ids ms) \<longleftrightarrow> (\<exists>m \<in> set ms. field m ''id'' = i)"
  by (auto simp: ids_def)

lemma last_with_id_None: "last_with_id i ms = None \<longleftrightarrow> i \<notin> set (ids ms)"
  by (auto simp: last_with_id_def find_None_iff has_id_def ids_def)

lemma last_with_id_Some:
  assumes "last_with_id i ms = Some m"
  shows "m \<in> set ms" "field m ''id'' = i"
  using assms by (auto simp: last_with_id_def find_Some_iff has_id_def in_set_conv_nth rev_nth)
    (metis One_nat_def diff_Suc_less length_greater_0_conv list.size(3) not_less_zero)

lemma last_with_id_unique:
  assumes "distinct (ids ms)" "m \<in> set ms" "field m ''id'' = i"
  shows "last_with_id i ms = Some m"
proof (cases "last_with_id i ms")
  case None
  then show ?thesis using assms by (auto simp: last_with_id_None ids_def)
next
  case (Some m')
  note s = last_with_id_Some [OF Some]
  have "inj_on (\<lambda>m. field m ''id'') (set ms)" using assms(1) by (simp add: ids_def distinct_map)
  then show ?thesis using s assms(2,3) Some by (metis inj_onD)
qed

text \<open>Which messages of the old history stay, and what stands for the others.\<close>

definition kept_old :: "authority \<Rightarrow> obj list \<Rightarrow> obj \<Rightarrow> bool" where
  "kept_old auth incoming m \<longleftrightarrow>
     preserved auth (list_ex (\<lambda>q. field q ''role'' = ''activity'') incoming)
       (list_ex (\<lambda>q. field q ''role'' = ''reasoning'') incoming) m"

definition successor_of :: "authority \<Rightarrow> obj list \<Rightarrow> obj \<Rightarrow> obj list" where
  "successor_of auth incoming m =
     (case last_with_id (field m ''id'') incoming of
        Some replacement \<Rightarrow> [replacement]
      | None \<Rightarrow> if kept_old auth incoming m then [m] else [])"

lemma merge_history_concat: "merge_history auth incoming ms = concat (map (successor_of auth incoming) ms)"
  by (induction ms) (auto simp: successor_of_def kept_old_def split: option.splits)

lemma successor_id: "m' \<in> set (successor_of auth incoming m) \<Longrightarrow> field m' ''id'' = field m ''id''"
  by (auto simp: successor_of_def dest: last_with_id_Some split: option.splits if_splits)

lemma successors_distinct:
  assumes "distinct (ids ms)"
  shows "distinct (ids (concat (map (successor_of auth incoming) ms)))
    \<and> set (ids (concat (map (successor_of auth incoming) ms))) \<subseteq> set (ids ms)"
  using assms
proof (induction ms)
  case (Cons m ms)
  have one: "distinct (ids (successor_of auth incoming m))" "set (ids (successor_of auth incoming m)) \<subseteq> {field m ''id''}"
    by (auto simp: successor_of_def dest: last_with_id_Some split: option.splits)
  show ?case using Cons one by auto
qed simp

lemma replaced_history_form:
  assumes "distinct (ids ms)" "distinct (ids incoming)"
  shows "replaced_history auth incoming ms
    = concat (map (successor_of auth incoming) ms) @ filter (\<lambda>m. field m ''id'' \<notin> set (ids ms)) incoming"
proof -
  let ?kept = "concat (map (successor_of auth incoming) ms)"
  have "list_ex (has_id (field m ''id'')) ?kept \<longleftrightarrow> field m ''id'' \<in> set (ids ms)" if m: "m \<in> set incoming" for m
  proof
    assume "list_ex (has_id (field m ''id'')) ?kept"
    then show "field m ''id'' \<in> set (ids ms)"
      by (auto simp: list_ex_iff has_id_def in_ids dest!: successor_id)
  next
    assume "field m ''id'' \<in> set (ids ms)"
    then obtain o' where o': "o' \<in> set ms" "field o' ''id'' = field m ''id''" by (auto simp: in_ids)
    then have "successor_of auth incoming o' = [m]"
      using last_with_id_unique [OF assms(2) m refl] by (simp add: successor_of_def)
    then have "m \<in> set ?kept" using o'(1) by force
    then show "list_ex (has_id (field m ''id'')) ?kept" by (auto simp: list_ex_iff has_id_def)
  qed
  then show ?thesis
    by (simp add: replaced_history_def Let_def merge_history_concat cong: filter_cong)
qed

lemma replaced_history_set:
  assumes "distinct (ids ms)" "distinct (ids incoming)"
  shows "set (replaced_history auth incoming ms)
    = set incoming \<union> {m \<in> set ms. field m ''id'' \<notin> set (ids incoming) \<and> kept_old auth incoming m}" (is "?l = ?r")
proof
  show "?l \<subseteq> ?r"
    unfolding replaced_history_form [OF assms]
    by (auto simp: successor_of_def last_with_id_None dest: last_with_id_Some split: option.splits if_splits)
next
  have old: "m \<in> ?l" if "m \<in> set ms" "field m ''id'' \<notin> set (ids incoming)" "kept_old auth incoming m" for m
  proof -
    have "successor_of auth incoming m = [m]"
      using that(2,3) last_with_id_None [of "field m ''id''" incoming] by (simp add: successor_of_def)
    then show ?thesis unfolding replaced_history_form [OF assms] using that(1) by force
  qed
  have new: "m \<in> ?l" if m: "m \<in> set incoming" for m
  proof (cases "field m ''id'' \<in> set (ids ms)")
    case True
    then obtain o' where o': "o' \<in> set ms" "field o' ''id'' = field m ''id''" by (auto simp: in_ids)
    then have "successor_of auth incoming o' = [m]"
      using last_with_id_unique [OF assms(2) m refl] by (simp add: successor_of_def)
    then show ?thesis unfolding replaced_history_form [OF assms] using o'(1) by force
  qed (simp add: replaced_history_form [OF assms] m)
  show "?r \<subseteq> ?l" using old new by blast
qed

lemma replaced_history_distinct:
  assumes "distinct (ids ms)" "distinct (ids incoming)"
  shows "distinct (ids (replaced_history auth incoming ms))"
proof -
  have "distinct (ids (filter P incoming))" for P
    using assms(2) by (simp add: ids_def distinct_map inj_on_def)
  then show ?thesis
    unfolding replaced_history_form [OF assms]
    using successors_distinct [OF assms(1), of auth incoming] by (auto simp: in_ids subset_iff) blast
qed

text \<open>C22: A history snapshot is merged without loss and without repetition. Every message it carries is in the new
  history; of the old messages it omits exactly the reasoning and the activities it does not claim stay, unchanged;
  old places keep their order, with the new version in the place of the old, new messages come at the end in the
  snapshot's order; and no identity occurs twice.\<close>

theorem replaced_history_spec:
  assumes "distinct (ids ms)" "distinct (ids incoming)"
  shows "replaced_history auth incoming ms
      = concat (map (successor_of auth incoming) ms) @ filter (\<lambda>m. field m ''id'' \<notin> set (ids ms)) incoming
    \<and> set (replaced_history auth incoming ms)
      = set incoming \<union> {m \<in> set ms. field m ''id'' \<notin> set (ids incoming) \<and> kept_old auth incoming m}
    \<and> distinct (ids (replaced_history auth incoming ms))"
  using replaced_history_form [OF assms] replaced_history_set [OF assms] replaced_history_distinct [OF assms] by blast

definition demo_message :: "string \<Rightarrow> string \<Rightarrow> obj" where
  "demo_message i role = [(''id'', JStr i), (''role'', JStr role)]"

lemma replaced_history_spec_witness:
  "let ms = [demo_message ''a'' ''user'', demo_message ''r'' ''reasoning'', demo_message ''b'' ''user''];
       incoming = [demo_message ''c'' ''user'', demo_message ''a'' ''user'']
   in replaced_history Undeclared incoming ms
      = concat (map (successor_of Undeclared incoming) ms) @ filter (\<lambda>m. field m ''id'' \<notin> set (ids ms)) incoming
    \<and> set (replaced_history Undeclared incoming ms)
      = set incoming \<union> {m \<in> set ms. field m ''id'' \<notin> set (ids incoming) \<and> kept_old Undeclared incoming m}
    \<and> distinct (ids (replaced_history Undeclared incoming ms))"
  unfolding Let_def by (rule replaced_history_spec) code_simp+

lemma demo_history:
  "ids (replaced_history Undeclared [demo_message ''c'' ''user'', demo_message ''a'' ''user'']
     [demo_message ''a'' ''user'', demo_message ''r'' ''reasoning'', demo_message ''b'' ''user''])
   = [''a'', ''r'', ''c'']"
  by code_simp

section \<open>Where a tool result goes\<close>

text \<open>After the first message that owns the call and the tool messages right behind it; at the end when no message
  owns it. Everything else keeps its place.\<close>

lemma result_index_split:
  "(\<exists>xs m ts ys. ms = xs @ m # ts @ ys \<and> (\<forall>x \<in> set xs. \<not> owns_call i x) \<and> owns_call i m
      \<and> (\<forall>q \<in> set ts. field q ''role'' = ''tool'') \<and> (ys \<noteq> [] \<longrightarrow> field (hd ys) ''role'' \<noteq> ''tool'')
      \<and> result_index i ms = length (xs @ m # ts))
   \<or> (\<forall>x \<in> set ms. \<not> owns_call i x) \<and> result_index i ms = length ms"
proof (induction ms)
  case (Cons a ms)
  let ?tool = "\<lambda>q. field q ''role'' = ''tool''"
  show ?case
  proof (cases "owns_call i a")
    case True
    have "a # ms = [] @ a # takeWhile ?tool ms @ dropWhile ?tool ms" by simp
    moreover have "dropWhile ?tool ms \<noteq> [] \<longrightarrow> \<not> ?tool (hd (dropWhile ?tool ms))" using hd_dropWhile by blast
    moreover have "\<forall>q \<in> set (takeWhile ?tool ms). ?tool q" by (auto dest: set_takeWhileD)
    ultimately show ?thesis using True
      by (intro disjI1 exI [of _ "[]"] exI [of _ a] exI [of _ "takeWhile ?tool ms"] exI [of _ "dropWhile ?tool ms"]) simp
  next
    case False
    from Cons show ?thesis
    proof
      assume "\<exists>xs m ts ys. ms = xs @ m # ts @ ys \<and> (\<forall>x \<in> set xs. \<not> owns_call i x) \<and> owns_call i m
        \<and> (\<forall>q \<in> set ts. ?tool q) \<and> (ys \<noteq> [] \<longrightarrow> \<not> ?tool (hd ys)) \<and> result_index i ms = length (xs @ m # ts)"
      then obtain xs m ts ys where "ms = xs @ m # ts @ ys \<and> (\<forall>x \<in> set xs. \<not> owns_call i x) \<and> owns_call i m
        \<and> (\<forall>q \<in> set ts. ?tool q) \<and> (ys \<noteq> [] \<longrightarrow> \<not> ?tool (hd ys)) \<and> result_index i ms = length (xs @ m # ts)"
        by blast
      then show ?thesis using False
        by - (rule disjI1, rule exI [of _ "a # xs"], rule exI [of _ m], rule exI [of _ ts], rule exI [of _ ys], auto)
    qed (use False in simp)
  qed
qed simp

lemma ToolResult_placed:
  assumes "ToolResult e p = Inr q"
  defines "i \<equiv> field e ''toolCallId''"
  shows "(\<exists>xs m ts ys r. p_Messages p = xs @ m # ts @ ys \<and> p_Messages q = xs @ m # ts @ r # ys
      \<and> owns_call i m \<and> (\<forall>x \<in> set xs. \<not> owns_call i x)
      \<and> (\<forall>t \<in> set ts. field t ''role'' = ''tool'') \<and> (ys \<noteq> [] \<longrightarrow> field (hd ys) ''role'' \<noteq> ''tool''))
    \<or> (\<exists>r. p_Messages q = p_Messages p @ [r] \<and> (\<forall>x \<in> set (p_Messages p). \<not> owns_call i x))"
proof -
  obtain r where "p_Messages q = take (result_index i (p_Messages p)) (p_Messages p) @ r
      # drop (result_index i (p_Messages p)) (p_Messages p)"
    using assms by (auto simp: ToolResult_def Let_def set_owner_def)
  note q = this
  show ?thesis
  proof (cases "\<forall>x \<in> set (p_Messages p). \<not> owns_call i x")
    case True
    then have "result_index i (p_Messages p) = length (p_Messages p)"
      using result_index_split [of "p_Messages p" i] by auto
    then show ?thesis using q True by auto
  next
    case False
    then obtain xs m ts ys where s: "p_Messages p = xs @ m # ts @ ys" "\<forall>x \<in> set xs. \<not> owns_call i x" "owns_call i m"
      "\<forall>t \<in> set ts. field t ''role'' = ''tool''" "ys \<noteq> [] \<longrightarrow> field (hd ys) ''role'' \<noteq> ''tool''"
      and n: "result_index i (p_Messages p) = length (xs @ m # ts)"
      using result_index_split [of "p_Messages p" i] by blast
    have "p_Messages q = xs @ m # ts @ r # ys" using q unfolding n unfolding s(1) by simp
    then show ?thesis using s by blast
  qed
qed

end
