(* ===== verification/AguiNative.thy ===== *)
theory AguiNative
  imports AguiProjection
begin

text \<open>
  The events of the runtime, \<open>runtime/streaming/event.go\<close>, and what the AG-UI translator reads from one of
  them: identities, token usage and the presentation it attaches to everything it writes
  (\<open>protocol/agui/translator_presentation.go\<close>, \<open>identity.go\<close>, \<open>tool_status.go\<close>). A record field per field the translator
  reads. JSON values are taken decoded; the zero time is \<open>None\<close>. Parameters (\<open>tr_env\<close>): the schemas, the encoder
  behind \<open>json.Marshal\<close> and the validity of a text, the format of a time, and the JSON Patch library.
\<close>

section \<open>Events\<close>

record EventModel =
  em_Provider :: string
  em_Model :: string

record PlannedToolCall =
  pc_ToolCallID :: string
  pc_ToolName :: string

record UsageSnapshot =
  uz_CacheWriteInputTokens :: int
  uz_Scope :: string
  uz_InputTokens :: int
  uz_OutputTokens :: int
  uz_CachedInputTokens :: int
  uz_ReasoningTokens :: int
  uz_EmbeddingTokens :: int
  uz_TotalTokens :: int

text \<open>The fields of feeds, of the planner and of the aggregate usage stand together in the source as well.\<close>

record FeedFields =
  fd_ID :: string
  fd_Title :: string
  fd_DeveloperOnly :: bool
  fd_Icon :: string
  fd_Accent :: string
  fd_Target :: string
  fd_ItemCount :: int
  fd_Data :: "json option"

record PlannerFields =
  pl_Trigger :: string
  pl_StaticProfile :: string
  pl_StrategyFamily :: string
  pl_Attempt :: int
  pl_Validated :: "bool option"
  pl_SecondPolicy :: string
  pl_OutputPayloadID :: string

record Native =
  n_ProtocolEvent :: obj
  n_ReasoningMessageID :: string
  n_ReasoningSpanID :: string
  n_EncryptedValue :: string
  n_EncryptedEntityID :: string
  n_EncryptedSubtype :: string
  n_ID :: string
  n_ConversationID :: string
  n_TurnID :: string
  n_MessageID :: string
  n_EventSeq :: int
  n_AgentIDUsed :: string
  n_AgentName :: string
  n_AssistantMessageID :: string
  n_ParentMessageID :: string
  n_ResponseID :: string
  n_OperationID :: string
  n_ToolCallID :: string
  n_ToolMessageID :: string
  n_RequestPayloadID :: string
  n_ResponsePayloadID :: string
  n_ProviderRequestPayloadID :: string
  n_ProviderResponsePayloadID :: string
  n_StreamPayloadID :: string
  n_LinkedConversationID :: string
  n_LinkedConversationAgentID :: string
  n_LinkedConversationTitle :: string
  n_ExecutionRole :: string
  n_Phase :: string
  n_PageID :: string
  n_Mode :: string
  n_Type :: string
  n_Patch :: obj
  n_Content :: string
  n_ContentMode :: string
  n_ContentOffset :: "int option"
  n_RenderedContent :: "json option"
  n_Narration :: string
  n_NarrationSource :: string
  n_ToolName :: string
  n_Arguments :: "obj option"
  n_Error :: string
  n_Status :: string
  n_Iteration :: int
  n_PageIndex :: int
  n_PageCount :: int
  n_LatestPage :: bool
  n_Model :: "EventModel option"
  n_Usage :: "UsageSnapshot option"
  n_ToolCallsPlanned :: "PlannedToolCall list"
  n_CreatedAt :: "gotime option"
  n_ResponsePayload :: "obj option"
  n_CompletedAt :: "gotime option"
  n_StartedAt :: "gotime option"
  n_QueueSeq :: int
  n_StartedByMessageID :: string
  n_QueueOrigin :: string
  n_GoalID :: string
  n_StatusReason :: string
  n_ModelCallID :: string
  n_Provider :: string
  n_ModelName :: string
  n_Feed :: FeedFields
  n_Planner :: PlannerFields
  n_UsageInputTokens :: int
  n_UsageOutputTokens :: int
  n_UsageEmbeddingTokens :: int
  n_UsageTotalTokens :: int

text \<open>The zero value of an event.\<close>

definition no_feed :: FeedFields where
  "no_feed = \<lparr>fd_ID = [], fd_Title = [], fd_DeveloperOnly = False, fd_Icon = [], fd_Accent = [], fd_Target = [],
              fd_ItemCount = 0, fd_Data = None\<rparr>"

definition no_planner :: PlannerFields where
  "no_planner = \<lparr>pl_Trigger = [], pl_StaticProfile = [], pl_StrategyFamily = [], pl_Attempt = 0,
                 pl_Validated = None, pl_SecondPolicy = [], pl_OutputPayloadID = []\<rparr>"

definition no_event :: Native where
  "no_event =
     \<lparr>n_ProtocolEvent = [], n_ReasoningMessageID = [], n_ReasoningSpanID = [], n_EncryptedValue = [],
      n_EncryptedEntityID = [], n_EncryptedSubtype = [], n_ID = [], n_ConversationID = [], n_TurnID = [],
      n_MessageID = [], n_EventSeq = 0, n_AgentIDUsed = [], n_AgentName = [], n_AssistantMessageID = [],
      n_ParentMessageID = [], n_ResponseID = [], n_OperationID = [], n_ToolCallID = [],
      n_ToolMessageID = [], n_RequestPayloadID = [], n_ResponsePayloadID = [],
      n_ProviderRequestPayloadID = [], n_ProviderResponsePayloadID = [], n_StreamPayloadID = [],
      n_LinkedConversationID = [], n_LinkedConversationAgentID = [], n_LinkedConversationTitle = [],
      n_ExecutionRole = [], n_Phase = [], n_PageID = [], n_Mode = [], n_Type = [], n_Patch = [],
      n_Content = [], n_ContentMode = [], n_ContentOffset = None, n_RenderedContent = None,
      n_Narration = [], n_NarrationSource = [], n_ToolName = [], n_Arguments = None, n_Error = [],
      n_Status = [], n_Iteration = 0, n_PageIndex = 0, n_PageCount = 0, n_LatestPage = False,
      n_Model = None, n_Usage = None, n_ToolCallsPlanned = [], n_CreatedAt = None,
      n_ResponsePayload = None, n_CompletedAt = None, n_StartedAt = None, n_QueueSeq = 0,
      n_StartedByMessageID = [], n_QueueOrigin = [], n_GoalID = [], n_StatusReason = [],
      n_ModelCallID = [], n_Provider = [], n_ModelName = [], n_Feed = no_feed, n_Planner = no_planner,
      n_UsageInputTokens = 0, n_UsageOutputTokens = 0, n_UsageEmbeddingTokens = 0, n_UsageTotalTokens = 0\<rparr>"

record tr_env =
  ok_event :: "obj \<Rightarrow> bool"
  ok_presentation :: "string \<Rightarrow> obj \<Rightarrow> bool"
  marshal :: "json \<Rightarrow> string option"
  json_valid :: "string \<Rightarrow> bool"
  format_time :: "gotime \<Rightarrow> string"
  patch_content :: "json \<Rightarrow> json \<Rightarrow> json option"
  map_order :: "string list \<Rightarrow> string list"


section \<open>Building objects\<close>

text \<open>A member that is left out when it is empty, and members that hold numbers and booleans.\<close>

definition smem :: "string \<Rightarrow> string \<Rightarrow> obj" where
  "smem k s = (if s = [] then [] else [(k, JStr s)])"

definition num :: "int \<Rightarrow> json" where
  "num n = JNum (int_str n)"

definition str_or :: "string \<Rightarrow> string \<Rightarrow> string" where
  "str_or s d = (if s = [] then d else s)"

section \<open>Identities\<close>

text \<open>\<open>url.PathEscape\<close>: bytes outside the set that may stand in a path segment are written \<open>%XX\<close>.\<close>

definition path_safe :: "char \<Rightarrow> bool" where
  "path_safe c \<longleftrightarrow>
     c \<in> set (''ABCDEFGHIJKLMNOPQRSTUVWXYZ'' @ ''abcdefghijklmnopqrstuvwxyz'' @ ''0123456789'' @ ''-_.~'' @ ''$&+:=@'')"

definition hex_upper :: "nat \<Rightarrow> char" where
  "hex_upper n = ''0123456789ABCDEF'' ! n"

definition escape_byte :: "char \<Rightarrow> string" where
  "escape_byte c =
     (if path_safe c then [c]
      else [CHR ''%'', hex_upper (of_char c div 16), hex_upper (of_char c mod 16)])"

definition PathEscape :: "string \<Rightarrow> string" where
  "PathEscape s = concat (map escape_byte s)"

definition ProtocolToolCallID :: "string \<Rightarrow> string \<Rightarrow> string" where
  "ProtocolToolCallID nativeTurnID nativeOpID =
     (if nativeTurnID = [] \<or> nativeOpID = [] then nativeOpID
      else ''agui.tool/'' @ PathEscape nativeTurnID @ ''/'' @ PathEscape nativeOpID)"

definition modelIdentity :: "Native \<Rightarrow> string" where
  "modelIdentity e =
     (case find (\<lambda>s. s \<noteq> []) [n_ModelCallID e, n_AssistantMessageID e, n_MessageID e, n_ID e, n_ResponseID e] of
        Some s \<Rightarrow> s
      | None \<Rightarrow> [])"

definition ToolStatusPending :: "string \<Rightarrow> bool" where
  "ToolStatusPending status \<longleftrightarrow>
     ToLower (TrimSpace status) \<in> set [''queued'', ''pending'', ''waiting'', ''waiting_for_user'', ''blocked'']"

definition IsInternalMessageMode :: "string \<Rightarrow> bool" where
  "IsInternalMessageMode mode \<longleftrightarrow> ToLower (TrimSpace mode) \<in> set [''router'', ''chain'']"

text \<open>\<open>e.Provider\<close> and \<open>e.ModelName\<close>, completed from \<open>e.Model\<close>.\<close>

definition provider_of :: "Native \<Rightarrow> string" where
  "provider_of e = str_or (n_Provider e) (case n_Model e of None \<Rightarrow> [] | Some m \<Rightarrow> em_Provider m)"

definition model_of :: "Native \<Rightarrow> string" where
  "model_of e = str_or (n_ModelName e) (case n_Model e of None \<Rightarrow> [] | Some m \<Rightarrow> em_Model m)"

section \<open>The presentation of an event\<close>

definition is_standalone :: "Native \<Rightarrow> bool" where
  "is_standalone e \<longleftrightarrow>
     n_Type e = ''assistant'' \<and> n_ModelCallID e = [] \<and> n_PageID e = []
     \<and> map_of (n_Patch e) ''role'' \<noteq> Some (JStr ''user'')
     \<and> map_of (n_Patch e) ''agentlyProjectionSnapshot'' \<noteq> Some (JBool True)
     \<and> \<not> IsInternalMessageMode (n_Mode e)"

definition pending_tool :: "Native \<Rightarrow> bool" where
  "pending_tool e \<longleftrightarrow>
     n_Type e = ''tool_call_waiting'' \<or> (n_ToolCallID e \<noteq> [] \<and> ToolStatusPending (n_Status e))"

definition time_member :: "tr_env \<Rightarrow> string \<Rightarrow> gotime option \<Rightarrow> obj" where
  "time_member env k t = (case t of None \<Rightarrow> [] | Some i \<Rightarrow> [(k, JStr (format_time env i))])"

definition usage_members :: "UsageSnapshot \<Rightarrow> obj" where
  "usage_members u =
     [(''inputTokens'', num (uz_InputTokens u)), (''outputTokens'', num (uz_OutputTokens u)),
      (''cachedInputTokens'', num (uz_CachedInputTokens u)), (''reasoningTokens'', num (uz_ReasoningTokens u)),
      (''embeddingTokens'', num (uz_EmbeddingTokens u)), (''totalTokens'', num (uz_TotalTokens u)),
      (''cacheWriteInputTokens'', num (uz_CacheWriteInputTokens u))]"

definition nativePresentation :: "tr_env \<Rightarrow> Native \<Rightarrow> obj" where
  "nativePresentation env e =
     [(''version'', JStr ''1'')]
     @ smem ''conversationId'' (n_ConversationID e)
     @ smem ''nativeTurnId'' (n_TurnID e)
     @ smem ''nativeMessageId'' (str_or (n_AssistantMessageID e) (n_MessageID e))
     @ (if is_standalone e then [(''messageKind'', JStr ''standalone'')] else [])
     @ smem ''parentMessageId'' (n_ParentMessageID e)
     @ (if n_Type e = ''model_started'' then smem ''nativeUserMessageId'' (n_ParentMessageID e) else [])
     @ smem ''pageId'' (n_PageID e)
     @ smem ''modelCallId''
         (if n_ModelCallID e = [] \<and> n_Type e \<in> set [''model_started'', ''model_completed''] then modelIdentity e
          else n_ModelCallID e)
     @ smem ''nativeToolCallId'' (n_ToolCallID e)
     @ smem ''toolMessageId'' (n_ToolMessageID e)
     @ smem ''executionRole'' (n_ExecutionRole e)
     @ smem ''phase'' (n_Phase e)
     @ smem ''mode'' (n_Mode e)
     @ smem ''status'' (n_Status e)
     @ smem ''agentId'' (n_AgentIDUsed e)
     @ smem ''agentName'' (n_AgentName e)
     @ smem ''provider'' (provider_of e)
     @ smem ''model'' (model_of e)
     @ smem ''requestPayloadId'' (n_RequestPayloadID e)
     @ smem ''responsePayloadId'' (n_ResponsePayloadID e)
     @ smem ''providerRequestPayloadId'' (n_ProviderRequestPayloadID e)
     @ smem ''providerResponsePayloadId'' (n_ProviderResponsePayloadID e)
     @ smem ''streamPayloadId'' (n_StreamPayloadID e)
     @ time_member env ''createdAt'' (n_CreatedAt e)
     @ (if pending_tool e then [] else time_member env ''startedAt'' (n_StartedAt e))
     @ (if pending_tool e then [] else time_member env ''completedAt'' (n_CompletedAt e))
     @ [(''iteration'', num (n_Iteration e))]
     @ (if n_PageID e = [] then []
        else [(''pageIndex'', num (n_PageIndex e)), (''pageCount'', num (n_PageCount e)),
              (''latestPage'', JBool (n_LatestPage e))])
     @ (case n_Usage e of None \<Rightarrow> [] | Some u \<Rightarrow> smem ''usageScope'' (uz_Scope u) @ usage_members u)"

section \<open>AG-UI events\<close>

text \<open>\<open>Event\<close>: its members, whether they are a full standard variant (\<open>Standard\<close>), whether the translator has
  advanced its lanes for it already (\<open>applied\<close>), and the time stamp.\<close>

record tevent =
  te_applied :: bool
  te_standard :: bool
  te_timestamp :: int
  te_fields :: obj

definition plain_event :: "obj \<Rightarrow> tevent" where
  "plain_event fs = \<lparr>te_applied = False, te_standard = False, te_timestamp = 0, te_fields = fs\<rparr>"

definition standardEvent :: "obj \<Rightarrow> tevent" where
  "standardEvent fs = \<lparr>te_applied = True, te_standard = True, te_timestamp = 0, te_fields = fs\<rparr>"

definition StandardEvent :: "tr_env \<Rightarrow> obj \<Rightarrow> tevent option" where
  "StandardEvent env raw =
     (if ok_event env raw
      then Some \<lparr>te_applied = False, te_standard = True, te_timestamp = 0, te_fields = raw\<rparr> else None)"

text \<open>\<open>Event.MarshalJSON\<close>: a standard variant takes the time stamp and is checked against the schema.\<close>

definition with_timestamp :: "tevent \<Rightarrow> obj" where
  "with_timestamp ev =
     (if te_timestamp ev = 0 then te_fields ev else put ''timestamp'' (num (te_timestamp ev)) (te_fields ev))"

definition MarshalJSON :: "tr_env \<Rightarrow> tevent \<Rightarrow> obj option" where
  "MarshalJSON env ev =
     (if te_standard ev \<and> \<not> ok_event env (with_timestamp ev) then None else Some (with_timestamp ev))"

definition scopedBoundary :: "string \<Rightarrow> string \<Rightarrow> string \<Rightarrow> string \<Rightarrow> tevent" where
  "scopedBoundary kind k i w =
     standardEvent ([(''type'', JStr kind), (k, JStr i)] @ smem ''subagentRunId'' w)"

definition members_or_empty :: "obj \<Rightarrow> string \<Rightarrow> obj" where
  "members_or_empty ob k = (case get_object ob k of None \<Rightarrow> [] | Some m \<Rightarrow> m)"

definition annotateNativePresentation :: "tr_env \<Rightarrow> tevent \<Rightarrow> Native \<Rightarrow> tevent" where
  "annotateNativePresentation env ev e =
     (if n_Type e = ''protocol_event'' then ev
      else case MarshalJSON env ev of
             None \<Rightarrow> ev
           | Some fs \<Rightarrow>
               let metadata = members_or_empty fs ''metadata'';
                   agently = members_or_empty metadata ''agently'';
                   p = nativePresentation env e;
                   p = (if field (te_fields ev) ''type'' = ''TOOL_CALL_RESULT'' \<and> n_ToolMessageID e \<noteq> []
                        then put ''nativeMessageId'' (JStr (n_ToolMessageID e)) p else p)
               in ev\<lparr>te_applied := True, te_standard := True,
                     te_fields := put ''metadata'' (JObj (put ''agently'' (JObj (put ''presentation'' (JObj p) agently)) metadata)) fs\<rparr>)"

text \<open>The time stamp of an event is the creation time of its source, in milliseconds.\<close>

definition stamp :: "tr_env \<Rightarrow> Native \<Rightarrow> tevent \<Rightarrow> tevent" where
  "stamp env e ev =
     annotateNativePresentation env
       (case n_CreatedAt e of None \<Rightarrow> ev | Some t \<Rightarrow> ev\<lparr>te_timestamp := t div Millisecond\<rparr>) e"

end
