(* ===== verification/AguiTranslator.thy ===== *)
theory AguiTranslator
  imports AguiNative "HOL-Library.List_Lexorder"
begin

text \<open>
  The AG-UI translator of one run, \<open>protocol/agui/translator.go\<close> and \<open>translator_model.go\<close>: its state and the
  operations that advance its lanes, that is the texts, tool calls, thoughts and steps it has announced. An
  operation returns the events it writes and the new state. A \<open>range\<close> over a local map visits its keys in the order
  the parameter \<open>map_order\<close> gives them. The \<open>append\<close> of the result of a failure replaces, as in the source, the events
  built so far in the same call.
\<close>

section \<open>The state\<close>

record textState =
  tx_subagent :: string
  tx_content :: string
  tx_ended :: bool

record toolState =
  tl_presentation :: "obj option"
  tl_subagent :: string
  tl_args :: string
  tl_ended :: bool
  tl_result :: bool
  tl_parent :: string

record reasoningState =
  rs_subagent :: string
  rs_span :: string
  rs_owner :: string
  rs_content :: string
  rs_ended :: bool

record stepState =
  sp_subagent :: string
  sp_name :: string
  sp_ended :: bool

record usageState =
  us_provider :: string
  us_model :: string
  us_input :: int
  us_output :: int
  us_cached :: int
  us_reasoning :: int
  us_write :: int

record Translator =
  t_nativeTurnID :: string
  t_threadID :: string
  t_runID :: string
  t_started :: bool
  t_done :: bool
  t_texts :: "(string \<times> textState) list"
  t_tools :: "(string \<times> toolState) list"
  t_textOrder :: "string list"
  t_toolOrder :: "string list"
  t_seen :: "int list"
  t_internalMessages :: "string list"
  t_seeded :: bool
  t_messages :: "obj list"
  t_reasonings :: "(string \<times> reasoningState) list"
  t_reasoningOrder :: "string list"
  t_reasoningSpans :: "(string \<times> bool) list"
  t_steps :: "(string \<times> stepState) list"
  t_stepOrder :: "string list"
  t_activeModel :: string
  t_usage :: "(string \<times> usageState) list"
  t_historyErr :: "string option"
  t_currentReasoningSpan :: string
  t_lastChunkText :: string
  t_lastChunkTool :: string
  t_lastChunkReasoning :: string
  t_activeModels :: "(string \<times> string) list"
  t_currentReasoningSpans :: "(string \<times> string) list"

definition NewTranslator :: "string \<Rightarrow> string \<Rightarrow> Translator" where
  "NewTranslator threadID runID =
     \<lparr>t_nativeTurnID = [], t_threadID = threadID, t_runID = runID, t_started = False, t_done = False,
      t_texts = [], t_tools = [], t_textOrder = [], t_toolOrder = [], t_seen = [], t_internalMessages = [],
      t_seeded = False, t_messages = [], t_reasonings = [], t_reasoningOrder = [], t_reasoningSpans = [],
      t_steps = [], t_stepOrder = [], t_activeModel = [], t_usage = [], t_historyErr = None,
      t_currentReasoningSpan = [], t_lastChunkText = [], t_lastChunkTool = [], t_lastChunkReasoning = [],
      t_activeModels = [], t_currentReasoningSpans = []\<rparr>"

text \<open>\<open>SetNativeIdentity\<close>\<close>

definition SetNativeIdentity :: "string \<Rightarrow> Translator \<Rightarrow> Translator option" where
  "SetNativeIdentity turn t =
     (if turn = [] then None
      else if t_started t \<and> t_nativeTurnID t \<noteq> turn then None
      else Some (t\<lparr>t_nativeTurnID := turn\<rparr>))"

definition toolID :: "Translator \<Rightarrow> string \<Rightarrow> string \<Rightarrow> string" where
  "toolID t turnID nativeID =
     (if t_nativeTurnID t = [] then nativeID
      else ProtocolToolCallID (str_or turnID (t_nativeTurnID t)) nativeID)"

section \<open>Writing events\<close>

text \<open>An operation after another, and one operation for each element of a list.\<close>

definition andThen :: "'e list \<times> 's \<Rightarrow> ('s \<Rightarrow> 'e list \<times> 's) \<Rightarrow> 'e list \<times> 's" where
  "andThen r f = (case r of (es, s) \<Rightarrow> (case f s of (fs, s') \<Rightarrow> (es @ fs, s')))"

primrec each :: "('a \<Rightarrow> 's \<Rightarrow> 'e list \<times> 's) \<Rightarrow> 'a list \<Rightarrow> 's \<Rightarrow> 'e list \<times> 's" where
  "each f [] s = ([], s)"
| "each f (x # xs) s = andThen (f x s) (each f xs)"

section \<open>The message graph\<close>

definition saveMessage :: "string \<Rightarrow> obj \<Rightarrow> Translator \<Rightarrow> Translator" where
  "saveMessage i m t =
     (if message (t_messages t) i \<noteq> None then t\<lparr>t_messages := set_message i (\<lambda>_. m) (t_messages t)\<rparr>
      else t\<lparr>t_messages := t_messages t @ [m]\<rparr>)"

definition snapshot_event :: "Translator \<Rightarrow> tevent" where
  "snapshot_event t =
     standardEvent [(''type'', JStr ''MESSAGES_SNAPSHOT''), (''messages'', JArr (map JObj (t_messages t)))]"

section \<open>Start, closing, the end\<close>

definition started_event :: "Translator \<Rightarrow> tevent" where
  "started_event t =
     (let fs = [(''type'', JStr ''RUN_STARTED'')] @ smem ''threadId'' (t_threadID t) @ smem ''runId'' (t_runID t)
               @ [(''protocolVersion'', JStr ''1.0'')]
      in if t_nativeTurnID t = [] then plain_event fs
         else standardEvent
           [(''type'', JStr ''RUN_STARTED''), (''threadId'', JStr (t_threadID t)), (''runId'', JStr (t_runID t)),
            (''protocolVersion'', JStr ''1.0''),
            (''metadata'', JObj [(''agently'', JObj [(''identityVersion'', JStr ''1''),
                                                     (''nativeTurnId'', JStr (t_nativeTurnID t))])])])"

definition Start :: "Translator \<Rightarrow> tevent list \<times> Translator" where
  "Start t = (if t_started t \<or> t_done t then ([], t) else ([started_event t], t\<lparr>t_started := True\<rparr>))"

text \<open>\<open>closeReasoning\<close>: the messages of an owner (of all when it is empty), then the spans nothing is open in.\<close>

definition of_owner :: "string \<Rightarrow> reasoningState \<Rightarrow> bool" where
  "of_owner w s \<longleftrightarrow> w = [] \<or> rs_owner s = w"

definition close_thought :: "string \<Rightarrow> string \<Rightarrow> Translator \<Rightarrow> tevent list \<times> Translator" where
  "close_thought w i t =
     (case map_of (t_reasonings t) i of
        None \<Rightarrow> ([], t)
      | Some s \<Rightarrow>
          if of_owner w s \<and> \<not> rs_ended s
          then ([scopedBoundary ''REASONING_MESSAGE_END'' ''messageId'' i (rs_subagent s)],
                t\<lparr>t_reasonings := AList.update i (s\<lparr>rs_ended := True\<rparr>) (t_reasonings t)\<rparr>)
          else ([], t))"

definition owned_spans :: "string \<Rightarrow> Translator \<Rightarrow> string list" where
  "owned_spans w t =
     remdups (concat (map (\<lambda>i. case map_of (t_reasonings t) i of
                                 None \<Rightarrow> []
                               | Some s \<Rightarrow> if of_owner w s then [rs_span s] else []) (t_reasoningOrder t)))"

definition span_open :: "string \<Rightarrow> Translator \<Rightarrow> bool" where
  "span_open sp t \<longleftrightarrow> list_ex (\<lambda>(_, s). rs_span s = sp \<and> \<not> rs_ended s) (t_reasonings t)"

definition span_subagent :: "string \<Rightarrow> Translator \<Rightarrow> string" where
  "span_subagent sp t =
     (case find (\<lambda>(_, s). rs_span s = sp) (t_reasonings t) of None \<Rightarrow> [] | Some (_, s) \<Rightarrow> rs_subagent s)"

definition end_span :: "string \<Rightarrow> string \<Rightarrow> Translator \<Rightarrow> tevent list \<times> Translator" where
  "end_span sp w t =
     (if \<not> span_open sp t \<and> map_of (t_reasoningSpans t) sp = Some True
      then ([scopedBoundary ''REASONING_END'' ''messageId'' sp w],
            t\<lparr>t_reasoningSpans := AList.update sp False (t_reasoningSpans t)\<rparr>)
      else ([], t))"

definition close_span :: "string \<Rightarrow> Translator \<Rightarrow> tevent list \<times> Translator" where
  "close_span sp t = end_span sp (span_subagent sp t) t"

definition closeReasoning :: "tr_env \<Rightarrow> string \<Rightarrow> Translator \<Rightarrow> tevent list \<times> Translator" where
  "closeReasoning env w t =
     andThen (each (close_thought w) (t_reasoningOrder t) t)
       (each close_span (map_order env (owned_spans w t)))"

definition closeReasoningItem :: "string \<Rightarrow> Translator \<Rightarrow> tevent list \<times> Translator" where
  "closeReasoningItem i t =
     (case map_of (t_reasonings t) i of
        None \<Rightarrow> ([], t)
      | Some s \<Rightarrow>
          if rs_ended s then ([], t)
          else andThen (close_thought [] i t) (end_span (rs_span s) (rs_subagent s)))"

text \<open>An entry of an order has a state (\<open>orders_known\<close>, an invariant), so the source does not meet a nil one.\<close>

definition close_text :: "string \<Rightarrow> Translator \<Rightarrow> tevent list \<times> Translator" where
  "close_text i t =
     (case map_of (t_texts t) i of
        None \<Rightarrow> ([], t)
      | Some s \<Rightarrow>
          if tx_ended s then ([], t)
          else ([scopedBoundary ''TEXT_MESSAGE_END'' ''messageId'' i (tx_subagent s)],
                t\<lparr>t_texts := AList.update i (s\<lparr>tx_ended := True\<rparr>) (t_texts t)\<rparr>))"

definition close_tool :: "string \<Rightarrow> Translator \<Rightarrow> tevent list \<times> Translator" where
  "close_tool i t =
     (case map_of (t_tools t) i of
        None \<Rightarrow> ([], t)
      | Some s \<Rightarrow>
          if tl_ended s then ([], t)
          else ([scopedBoundary ''TOOL_CALL_END'' ''toolCallId'' i (tl_subagent s)],
                t\<lparr>t_tools := AList.update i (s\<lparr>tl_ended := True\<rparr>) (t_tools t)\<rparr>))"

definition close_step :: "string \<Rightarrow> Translator \<Rightarrow> tevent list \<times> Translator" where
  "close_step i t =
     (case map_of (t_steps t) i of
        None \<Rightarrow> ([], t)
      | Some s \<Rightarrow>
          if sp_ended s then ([], t)
          else ([scopedBoundary ''STEP_FINISHED'' ''stepName'' (sp_name s) (sp_subagent s)],
                t\<lparr>t_steps := AList.update i (s\<lparr>sp_ended := True\<rparr>) (t_steps t)\<rparr>))"

definition closeSteps :: "Translator \<Rightarrow> tevent list \<times> Translator" where
  "closeSteps t = each close_step (t_stepOrder t) t"

definition closeOpen :: "tr_env \<Rightarrow> Translator \<Rightarrow> tevent list \<times> Translator" where
  "closeOpen env t =
     andThen (andThen (andThen (closeReasoning env [] t)
       (\<lambda>t. each close_text (t_textOrder t) t))
       (\<lambda>t. each close_tool (t_toolOrder t) t))
       closeSteps"


section \<open>Token usage\<close>

definition bad_usage :: "UsageSnapshot \<Rightarrow> bool" where
  "bad_usage u \<longleftrightarrow> uz_InputTokens u < 0 \<or> uz_OutputTokens u < 0 \<or> uz_CachedInputTokens u < 0
                \<or> uz_ReasoningTokens u < 0 \<or> uz_CacheWriteInputTokens u < 0"

definition recordUsage :: "Native \<Rightarrow> string \<Rightarrow> Translator \<Rightarrow> bool \<times> Translator" where
  "recordUsage e i t =
     (case n_Usage e of
        None \<Rightarrow> (False, t)
      | Some u \<Rightarrow>
          if uz_Scope u \<noteq> ''model_call'' \<or> i = [] then (False, t)
          else if bad_usage u then (False, t\<lparr>t_historyErr := Some ''negative native token usage''\<rparr>)
          else
            let provider = provider_of e; model = model_of e;
                state = \<lparr>us_provider = provider, us_model = model, us_input = uz_InputTokens u,
                         us_output = uz_OutputTokens u, us_cached = uz_CachedInputTokens u,
                         us_reasoning = uz_ReasoningTokens u, us_write = uz_CacheWriteInputTokens u\<rparr>;
                state = (case map_of (t_usage t) i of
                           None \<Rightarrow> state
                         | Some prior \<Rightarrow>
                             state\<lparr>us_provider := str_or provider (us_provider prior),
                                   us_model := str_or model (us_model prior),
                                   us_write := (if us_write state = 0 then us_write prior else us_write state)\<rparr>)
            in if map_of (t_usage t) i = Some state then (False, t)
               else (True, t\<lparr>t_usage := AList.update i state (t_usage t)\<rparr>))"

definition usageFields :: "usageState \<Rightarrow> obj" where
  "usageFields s =
     [(''inputTokens'', num (us_input s)), (''outputTokens'', num (us_output s)),
      (''totalTokens'', num (wrap64 (us_input s + us_output s))), (''cachedInputTokens'', num (us_cached s)),
      (''reasoningTokens'', num (us_reasoning s)), (''cacheWriteInputTokens'', num (us_write s))]
     @ smem ''provider'' (us_provider s) @ smem ''model'' (us_model s)"

definition no_usage :: usageState where
  "no_usage = \<lparr>us_provider = [], us_model = [], us_input = 0, us_output = 0, us_cached = 0, us_reasoning = 0,
               us_write = 0\<rparr>"

definition custom_event :: "string \<Rightarrow> json \<Rightarrow> tevent" where
  "custom_event name v = plain_event [(''type'', JStr ''CUSTOM''), (''name'', JStr name), (''value'', v)]"

definition usageEvent :: "string \<Rightarrow> Translator \<Rightarrow> tevent" where
  "usageEvent i t =
     custom_event ''agently.usage''
       (JObj [(''version'', JStr ''1''), (''scope'', JStr ''model_call''), (''modelCallId'', JStr i),
              (''usage'', JObj (usageFields (case map_of (t_usage t) i of None \<Rightarrow> no_usage | Some s \<Rightarrow> s)))])"

text \<open>\<open>runUsage\<close>: the sums per provider and model, in the order of their keys.\<close>

definition add_usage :: "usageState \<Rightarrow> usageState \<Rightarrow> usageState" where
  "add_usage s x =
     \<lparr>us_provider = us_provider x, us_model = us_model x, us_input = wrap64 (us_input s + us_input x),
      us_output = wrap64 (us_output s + us_output x), us_cached = wrap64 (us_cached s + us_cached x),
      us_reasoning = wrap64 (us_reasoning s + us_reasoning x), us_write = wrap64 (us_write s + us_write x)\<rparr>"

definition usage_key :: "usageState \<Rightarrow> string" where
  "usage_key x = us_provider x @ [CHR 0x00] @ us_model x"

definition usage_groups :: "Translator \<Rightarrow> (string \<times> usageState) list" where
  "usage_groups t =
     fold (\<lambda>(_, x) g. AList.update (usage_key x)
                         (add_usage (case map_of g (usage_key x) of None \<Rightarrow> no_usage | Some s \<Rightarrow> s) x) g)
       (t_usage t) []"

definition usage_entry :: "usageState \<Rightarrow> json" where
  "usage_entry s =
     JObj ([(''inputTokens'', num (us_input s)), (''outputTokens'', num (us_output s)),
            (''totalTokens'', num (wrap64 (us_input s + us_output s)))]
           @ smem ''provider'' (us_provider s) @ smem ''model'' (us_model s)
           @ (if us_cached s = 0 then [] else [(''cachedInputTokens'', num (us_cached s))])
           @ (if us_reasoning s = 0 then [] else [(''reasoningTokens'', num (us_reasoning s))])
           @ (if us_write s = 0 then [] else [(''cacheWriteInputTokens'', num (us_write s))]))"

definition byte_key :: "string \<Rightarrow> nat list" where
  "byte_key s = map of_char s"

definition runUsage :: "Translator \<Rightarrow> json list" where
  "runUsage t = map (\<lambda>(_, s). usage_entry s) (sort_key (\<lambda>(k, _). byte_key k) (usage_groups t))"

section \<open>The end of a run\<close>

definition finished_event :: "string \<Rightarrow> Translator \<Rightarrow> tevent" where
  "finished_event outcome t =
     (let o' = JObj [(''type'', JStr outcome)]; usage = runUsage t
      in if usage \<noteq> []
         then standardEvent [(''type'', JStr ''RUN_FINISHED''), (''threadId'', JStr (t_threadID t)),
                             (''runId'', JStr (t_runID t)), (''outcome'', o'), (''usage'', JArr usage)]
         else plain_event ([(''type'', JStr ''RUN_FINISHED'')] @ smem ''threadId'' (t_threadID t)
                           @ smem ''runId'' (t_runID t) @ [(''outcome'', o')]))"

definition Finish :: "tr_env \<Rightarrow> string \<Rightarrow> Translator \<Rightarrow> tevent list \<times> Translator" where
  "Finish env outcome t =
     (if t_done t then ([], t)
      else andThen (andThen (Start t) (closeOpen env))
             (\<lambda>t. ([finished_event (if outcome = ''cancelled'' then outcome else ''success'') t], t\<lparr>t_done := True\<rparr>)))"

definition error_event :: "string \<Rightarrow> string \<Rightarrow> tevent" where
  "error_event msg code =
     plain_event ([(''type'', JStr ''RUN_ERROR''), (''message'', JStr (str_or msg ''Agent run failed''))]
                  @ smem ''code'' code)"

definition Fail :: "tr_env \<Rightarrow> string \<Rightarrow> string \<Rightarrow> Translator \<Rightarrow> tevent list \<times> Translator" where
  "Fail env msg code t =
     (if t_done t then ([], t)
      else andThen (andThen (Start t) (closeOpen env)) (\<lambda>t. ([error_event msg code], t\<lparr>t_done := True\<rparr>)))"

section \<open>Text\<close>

definition replaceText :: "tr_env \<Rightarrow> string \<Rightarrow> string \<Rightarrow> Translator \<Rightarrow> tevent list \<times> Translator" where
  "replaceText env i content t =
     (case message (t_messages t) i of
        None \<Rightarrow> Fail env ''Authoritative message history is not available for text replacement''
                  ''MISSING_AUTHORITATIVE_HISTORY'' t
      | Some m \<Rightarrow>
          let t = saveMessage i (put ''content'' (JStr content) m) t;
              t = (case map_of (t_texts t) i of
                     None \<Rightarrow> t
                   | Some s \<Rightarrow> t\<lparr>t_texts := AList.update i (s\<lparr>tx_content := content\<rparr>) (t_texts t)\<rparr>)
          in ([snapshot_event t], t))"

text \<open>A message seen for the first time takes the content the graph has for it.\<close>

definition open_text :: "string \<Rightarrow> Translator \<Rightarrow> tevent list \<times> Translator" where
  "open_text i t =
     (if map_of (t_texts t) i \<noteq> None then ([], t)
      else
        let s = \<lparr>tx_subagent = [],
                 tx_content = (case message (t_messages t) i of None \<Rightarrow> [] | Some m \<Rightarrow> field m ''content''),
                 tx_ended = False\<rparr>
        in ([plain_event [(''type'', JStr ''TEXT_MESSAGE_START''), (''messageId'', JStr i), (''role'', JStr ''assistant'')]],
            t\<lparr>t_texts := AList.update i s (t_texts t), t_textOrder := t_textOrder t @ [i]\<rparr>))"

definition write_text :: "string \<Rightarrow> textState \<Rightarrow> string \<Rightarrow> Translator \<Rightarrow> tevent list \<times> Translator" where
  "write_text i s delta t =
     (if delta = [] then ([], t)
      else ([plain_event [(''type'', JStr ''TEXT_MESSAGE_CONTENT''), (''messageId'', JStr i), (''delta'', JStr delta)]],
            t\<lparr>t_texts := AList.update i (s\<lparr>tx_content := tx_content s @ delta\<rparr>) (t_texts t)\<rparr>))"

text \<open>The part of a delta at an offset that is not written yet, \<open>None\<close> when it contradicts what is.\<close>

definition offset_delta :: "string \<Rightarrow> int \<Rightarrow> string \<Rightarrow> string option" where
  "offset_delta written off content =
     (if off < 0 \<or> off > int (length written) then None
      else
        let k = nat off; overlap = length written - k
        in if overlap \<ge> length content
           then (if take (length content) (drop k written) \<noteq> content then None else Some [])
           else if overlap > 0
           then (if drop k written \<noteq> take overlap content then None else Some (drop overlap content))
           else Some content)"

definition offset_error :: "string \<Rightarrow> int \<Rightarrow> string" where
  "offset_error written off =
     (if off < 0 \<or> off > int (length written) then ''Assistant text offset cannot be reconciled''
      else ''Assistant text offset conflicts with emitted content'')"

definition text_event ::
  "tr_env \<Rightarrow> string \<Rightarrow> string \<Rightarrow> bool \<Rightarrow> int option \<Rightarrow> Translator \<Rightarrow> tevent list \<times> Translator" where
  "text_event env i content snapshot off t =
     (let i = str_or i (t_runID t @ ''/assistant'');
          (out, t) = open_text i t
      in case map_of (t_texts t) i of
           None \<Rightarrow> (out, t)
         | Some s \<Rightarrow>
             if tx_ended s
             then (if snapshot \<and> t_seeded t \<and> content \<noteq> tx_content s then replaceText env i content t else ([], t))
             else if snapshot
             then (case strip_prefix (tx_content s) content of
                     Some delta \<Rightarrow> andThen (out, t) (write_text i s delta)
                   | None \<Rightarrow>
                       if t_seeded t then andThen (out, t) (replaceText env i content)
                       else Fail env ''Assistant text replacement is unsupported by this chat profile''
                              ''UNSUPPORTED_TEXT_REPLACEMENT'' t)
             else (case off of
                     None \<Rightarrow> andThen (out, t) (write_text i s content)
                   | Some n \<Rightarrow>
                       (case offset_delta (tx_content s) n content of
                          None \<Rightarrow> Fail env (offset_error (tx_content s) n) ''UNSUPPORTED_TEXT_OFFSET'' t
                        | Some delta \<Rightarrow> andThen (out, t) (write_text i s delta))))"


section \<open>Tool calls\<close>

definition native_call :: "Native \<Rightarrow> string" where
  "native_call e = (if n_ToolCallID e = [] \<and> n_ToolMessageID e = [] then n_ID e else n_ToolCallID e)"

definition tool_parent :: "Translator \<Rightarrow> Native \<Rightarrow> string" where
  "tool_parent t e =
     str_or (if n_AssistantMessageID e = [] \<and> n_ToolMessageID e = [] then n_MessageID e else n_AssistantMessageID e)
       (t_runID t @ ''/assistant'')"

definition open_tool :: "tr_env \<Rightarrow> Native \<Rightarrow> string \<Rightarrow> Translator \<Rightarrow> tevent list \<times> Translator" where
  "open_tool env e i t =
     (if map_of (t_tools t) i \<noteq> None then ([], t)
      else
        let parent = tool_parent t e;
            s = \<lparr>tl_presentation = None, tl_subagent = [], tl_args = [], tl_ended = False, tl_result = False,
                 tl_parent = parent\<rparr>;
            t = t\<lparr>t_tools := AList.update i s (t_tools t), t_toolOrder := t_toolOrder t @ [i]\<rparr>
        in andThen (if map_of (t_texts t) parent = None then text_event env parent [] True None t else ([], t))
             (\<lambda>t. ([plain_event
                     [(''type'', JStr ''TOOL_CALL_START''), (''toolCallId'', JStr i),
                      (''toolCallName'', JStr (str_or (n_ToolName e) ''unknown'')), (''parentMessageId'', JStr parent)]],
                   t)))"

definition settled_types :: "string list" where
  "settled_types = [''tool_call_completed'', ''tool_call_failed'', ''tool_call_canceled'']"

definition tool_execution :: "Native \<Rightarrow> bool" where
  "tool_execution e \<longleftrightarrow>
     (n_ToolMessageID e \<noteq> [] \<or> n_ResponsePayload e \<noteq> None \<or> n_CompletedAt e \<noteq> None
      \<or> n_Status e \<in> set [''completed'', ''failed'', ''canceled'']
      \<or> n_Type e \<in> set [''tool_call_failed'', ''tool_call_canceled''])
     \<and> \<not> ToolStatusPending (n_Status e)"

text \<open>The arguments an event adds to those written: the error is the code of a failure.\<close>

definition tool_args :: "tr_env \<Rightarrow> Native \<Rightarrow> string \<Rightarrow> string + string" where
  "tool_args env e written =
     (let args = (if n_Type e = ''tool_call_delta'' \<and> \<not> tool_execution e \<and> n_OperationID e = [] then n_Content e
                  else [])
      in case n_Arguments e of
           None \<Rightarrow> Inr args
         | Some a \<Rightarrow>
             (case marshal env (JObj a) of
                None \<Rightarrow> Inl ''INVALID_TOOL_ARGUMENTS''
              | Some b \<Rightarrow>
                  if written = [] then Inr b
                  else if \<not> json_valid env written
                  then (case strip_prefix written b of
                          None \<Rightarrow> Inl ''UNSUPPORTED_TOOL_ARGUMENTS''
                        | Some r \<Rightarrow> Inr r)
                  else Inr args))"

definition args_message :: "string \<Rightarrow> string" where
  "args_message code =
     (if code = ''INVALID_TOOL_ARGUMENTS'' then ''Tool arguments cannot be serialized''
      else ''Tool argument snapshot cannot reconcile emitted deltas'')"

definition ends_arguments :: "Native \<Rightarrow> string \<Rightarrow> bool" where
  "ends_arguments e args \<longleftrightarrow>
     (n_Type e = ''tool_call_completed'' \<and> (args \<noteq> [] \<or> n_Arguments e \<noteq> None \<or> tool_execution e))
     \<or> (tool_execution e \<and> n_Arguments e \<noteq> None)
     \<or> n_Type e \<in> set [''tool_call_failed'', ''tool_call_canceled'']"

definition write_args :: "Native \<Rightarrow> string \<Rightarrow> toolState \<Rightarrow> string \<Rightarrow> Translator \<Rightarrow> tevent list \<times> Translator" where
  "write_args e i s args t =
     (let s = s\<lparr>tl_args := tl_args s @ args\<rparr>;
          out = (if args = [] then []
                 else [plain_event [(''type'', JStr ''TOOL_CALL_ARGS''), (''toolCallId'', JStr i), (''delta'', JStr args)]])
      in if ends_arguments e (tl_args s)
         then (out @ [plain_event [(''type'', JStr ''TOOL_CALL_END''), (''toolCallId'', JStr i)]],
               t\<lparr>t_tools := AList.update i (s\<lparr>tl_ended := True\<rparr>) (t_tools t)\<rparr>)
         else (out, t\<lparr>t_tools := AList.update i s (t_tools t)\<rparr>))"

definition marshal_or :: "tr_env \<Rightarrow> json \<Rightarrow> string \<Rightarrow> string" where
  "marshal_or env v d = (case marshal env v of None \<Rightarrow> d | Some b \<Rightarrow> b)"

definition result_content :: "tr_env \<Rightarrow> Native \<Rightarrow> string" where
  "result_content env e =
     (let content = (case n_ResponsePayload e of
                       None \<Rightarrow> n_Content e
                     | Some p \<Rightarrow> marshal_or env (JObj p) (n_Content e))
      in if n_Error e = [] then content
         else marshal_or env (JObj [(''error'', JStr (n_Error e)), (''content'', JStr content)]) [])"

definition write_result :: "tr_env \<Rightarrow> Native \<Rightarrow> string \<Rightarrow> Translator \<Rightarrow> tevent list \<times> Translator" where
  "write_result env e i t =
     (case map_of (t_tools t) i of
        None \<Rightarrow> ([], t)
      | Some s \<Rightarrow>
          if tool_execution e \<and> n_Type e \<in> set settled_types \<and> \<not> tl_result s
          then ([plain_event
                  [(''type'', JStr ''TOOL_CALL_RESULT''), (''toolCallId'', JStr i),
                   (''messageId'', JStr (str_or (n_ToolMessageID e) (i @ ''/result''))),
                   (''content'', JStr (result_content env e))]],
                t\<lparr>t_tools := AList.update i (s\<lparr>tl_result := True\<rparr>) (t_tools t)\<rparr>)
          else ([], t))"

definition tool_event :: "tr_env \<Rightarrow> Native \<Rightarrow> Translator \<Rightarrow> tevent list \<times> Translator" where
  "tool_event env e t =
     (let i = native_call e
      in if i = [] then ([], t)
         else
           let i = toolID t (n_TurnID e) i;
               (out, t) = open_tool env e i t
           in case map_of (t_tools t) i of
                None \<Rightarrow> (out, t)
              | Some s \<Rightarrow>
                  if tl_ended s then andThen (out, t) (write_result env e i)
                  else case tool_args env e (tl_args s) of
                         Inl code \<Rightarrow> Fail env (args_message code) code t
                       | Inr args \<Rightarrow> andThen (andThen (out, t) (write_args e i s args)) (write_result env e i))"

section \<open>Steps and thoughts\<close>

definition open_step :: "Native \<Rightarrow> string \<Rightarrow> Translator \<Rightarrow> tevent list \<times> Translator" where
  "open_step e i t =
     (if map_of (t_steps t) i \<noteq> None then ([], t)
      else
        let s = \<lparr>sp_subagent = [], sp_name = ''model/'' @ i, sp_ended = False\<rparr>;
            metadata = JObj [(''agently'', JObj [(''provider'', JStr (n_Provider e)), (''model'', JStr (n_ModelName e)),
                                                 (''iteration'', num (n_Iteration e))])]
        in ([standardEvent [(''type'', JStr ''STEP_STARTED''), (''stepName'', JStr (sp_name s)), (''metadata'', metadata)]],
            t\<lparr>t_steps := AList.update i s (t_steps t), t_stepOrder := t_stepOrder t @ [i], t_activeModel := i\<rparr>))"

definition record_usage_event :: "Native \<Rightarrow> string \<Rightarrow> Translator \<Rightarrow> tevent list \<times> Translator" where
  "record_usage_event e i t =
     (case recordUsage e i t of (changed, t) \<Rightarrow> (if changed then [usageEvent i t] else [], t))"

definition complete_step :: "tr_env \<Rightarrow> string \<Rightarrow> Translator \<Rightarrow> tevent list \<times> Translator" where
  "complete_step env i t =
     (case map_of (t_steps t) i of
        None \<Rightarrow> ([], t)
      | Some s \<Rightarrow>
          if sp_ended s then ([], t)
          else andThen (closeReasoning env i t)
                 (\<lambda>t. ([standardEvent [(''type'', JStr ''STEP_FINISHED''), (''stepName'', JStr (sp_name s))]],
                       t\<lparr>t_steps := AList.update i (s\<lparr>sp_ended := True\<rparr>) (t_steps t),
                         t_activeModel := (if t_activeModel t = i then [] else t_activeModel t)\<rparr>)))"

definition modelStep :: "tr_env \<Rightarrow> Native \<Rightarrow> bool \<Rightarrow> Translator \<Rightarrow> tevent list \<times> Translator" where
  "modelStep env e completed t =
     (let i = modelIdentity e
      in if i = [] then Fail env ''Native model lifecycle has no call identity'' ''MISSING_MODEL_CALL_ID'' t
         else andThen (andThen (open_step e i t) (record_usage_event e i))
                (\<lambda>t. if completed then complete_step env i t else ([], t)))"

definition thought_id :: "Native \<Rightarrow> string" where
  "thought_id e = str_or (n_ReasoningMessageID e) (str_or (n_ID e) (str_or (n_MessageID e) (modelIdentity e @ ''/reasoning'')))"

definition encrypted_event :: "string \<Rightarrow> string \<Rightarrow> string \<Rightarrow> tevent" where
  "encrypted_event subtype entity v =
     standardEvent [(''type'', JStr ''REASONING_ENCRYPTED_VALUE''), (''subtype'', JStr subtype),
                    (''entityId'', JStr entity), (''encryptedValue'', JStr v)]"

definition open_thought :: "Native \<Rightarrow> string \<Rightarrow> Translator \<Rightarrow> tevent list \<times> Translator" where
  "open_thought e i t =
     (if map_of (t_reasonings t) i \<noteq> None then ([], t)
      else
        let sp = str_or (n_ReasoningSpanID e) (i @ ''/span'');
            s = \<lparr>rs_subagent = [], rs_span = sp, rs_owner = t_activeModel t, rs_content = [], rs_ended = False\<rparr>;
            fresh = (map_of (t_reasoningSpans t) sp \<noteq> Some True)
        in ((if fresh then [standardEvent [(''type'', JStr ''REASONING_START''), (''messageId'', JStr sp)]] else [])
            @ [standardEvent [(''type'', JStr ''REASONING_MESSAGE_START''), (''messageId'', JStr i),
                              (''role'', JStr ''reasoning'')]],
            t\<lparr>t_reasonings := AList.update i s (t_reasonings t), t_reasoningOrder := t_reasoningOrder t @ [i],
              t_reasoningSpans := (if fresh then AList.update sp True (t_reasoningSpans t) else t_reasoningSpans t)\<rparr>))"

definition write_thought :: "Native \<Rightarrow> string \<Rightarrow> reasoningState \<Rightarrow> Translator \<Rightarrow> tevent list \<times> Translator" where
  "write_thought e i s t =
     ((if n_Content e = [] then []
       else [standardEvent [(''type'', JStr ''REASONING_MESSAGE_CONTENT''), (''messageId'', JStr i),
                            (''delta'', JStr (n_Content e))]])
      @ (if n_EncryptedValue e = [] then []
         else [encrypted_event (str_or (n_EncryptedSubtype e) ''message'') (str_or (n_EncryptedEntityID e) i)
                 (n_EncryptedValue e)]),
      t\<lparr>t_reasonings := AList.update i (s\<lparr>rs_content := rs_content s @ n_Content e\<rparr>) (t_reasonings t)\<rparr>)"

definition reasoning_event :: "Native \<Rightarrow> Translator \<Rightarrow> tevent list \<times> Translator" where
  "reasoning_event e t =
     (if n_EncryptedValue e \<noteq> [] \<and> n_EncryptedSubtype e = ''tool-call''
      then ([encrypted_event ''tool-call'' (toolID t (n_TurnID e) (n_EncryptedEntityID e)) (n_EncryptedValue e)], t)
      else
        let i = thought_id e;
            (out, t) = open_thought e i t
        in case map_of (t_reasonings t) i of
             None \<Rightarrow> (out, t)
           | Some s \<Rightarrow> if rs_ended s then ([], t) else andThen (out, t) (write_thought e i s))"

section \<open>Texts of a run\<close>

text \<open>\<open>HasText\<close>\<close>

definition HasText :: "Translator \<Rightarrow> bool" where
  "HasText t \<longleftrightarrow> list_ex (\<lambda>(_, s). tx_content s \<noteq> [] \<and> tx_subagent s = []) (t_texts t)"

end
