(* ===== verification/AguiCapture.thy ===== *)
theory AguiCapture
  imports AguiTranslator
begin

text \<open>
  The history of the translator, \<open>protocol/agui/translator_history.go\<close> and \<open>translator_restore.go\<close>: the message
  graph it keeps while it writes, the seed of a resumed run, and the reading of a journal. A translator with its
  subagents is a tree of \<open>Node\<close>s. \<open>captureStandard\<close> advances the lanes by an event (when \<open>boundary\<close> says so) and the
  graph always; an error stops it where it is found and leaves what was done before. \<open>None\<close> is a Go panic: a write
  to a nil map. Members are matched by their exact names; the schema makes messages and calls objects.
\<close>

section \<open>Subagents\<close>

record Invocation =
  iv_Detached :: bool
  iv_ExecutionMode :: string
  iv_ID :: string
  iv_ConversationID :: string
  iv_TurnID :: string
  iv_Name :: string
  iv_Description :: string
  iv_ParentConversationID :: string
  iv_ParentTurnID :: string
  iv_ParentToolCallID :: string
  iv_ParentMessageID :: string
  iv_ParentInvocationID :: string

datatype Node = Node (nd_tr: Translator) (nd_children: "(string \<times> Subagent) list")
and Subagent = Subagent (sb_inv: Invocation) (sb_node: Node) (sb_started: bool) (sb_done: bool)

definition on_tr :: "(Translator \<Rightarrow> Translator) \<Rightarrow> Node \<Rightarrow> Node" where
  "on_tr f n = Node (f (nd_tr n)) (nd_children n)"

definition set_child :: "string \<Rightarrow> Subagent \<Rightarrow> Node \<Rightarrow> Node" where
  "set_child i s n = Node (nd_tr n) (AList.update i s (nd_children n))"

definition new_child :: "Invocation \<Rightarrow> Translator \<Rightarrow> Subagent" where
  "new_child iv t =
     (let c = NewTranslator (t_threadID t) (iv_ID iv);
          c = (if t_nativeTurnID t = [] then c else c\<lparr>t_nativeTurnID := iv_TurnID iv\<rparr>)
      in Subagent iv (Node (c\<lparr>t_started := True\<rparr>) []) False False)"

definition subagent :: "Invocation \<Rightarrow> Node \<Rightarrow> Subagent \<times> Node" where
  "subagent iv n =
     (case map_of (nd_children n) (iv_ID iv) of
        Some s \<Rightarrow> (s, n)
      | None \<Rightarrow> (let s = new_child iv (nd_tr n) in (s, set_child (iv_ID iv) s n)))"

definition validateInvocation :: "Node \<Rightarrow> Invocation \<Rightarrow> string option" where
  "validateInvocation n iv =
     (let t = nd_tr n;
          prior = map_of (nd_children n) (iv_ID iv);
          own = (t_nativeTurnID t \<noteq> [] \<and> iv_ParentConversationID iv = t_threadID t
                 \<and> iv_ParentTurnID iv = t_nativeTurnID t \<and> iv_ParentInvocationID iv = []);
          nested = list_ex (\<lambda>(_, s). iv_ParentInvocationID iv = iv_ID (sb_inv s)
                      \<and> iv_ParentConversationID iv = iv_ConversationID (sb_inv s)
                      \<and> iv_ParentTurnID iv = iv_TurnID (sb_inv s)) (nd_children n)
      in if iv_ID iv = [] \<or> iv_ConversationID iv = [] \<or> iv_TurnID iv = [] \<or> iv_Name iv = [] \<or> iv_Detached iv
         then Some ''invalid native invocation checkpoint''
         else if (case prior of None \<Rightarrow> False | Some s \<Rightarrow> sb_inv s \<noteq> iv)
         then Some ''invocation checkpoint identity changed''
         else if \<not> own \<and> \<not> nested then Some ''invocation checkpoint does not match a recorded native parent''
         else if iv_ConversationID iv = iv_ParentConversationID iv \<and> iv_TurnID iv = iv_ParentTurnID iv
         then Some ''invocation checkpoint cycles into parent''
         else None)"

section \<open>Reading members\<close>

definition library_error :: string where
  "library_error = ''invalid JSON or JSON Patch''"

text \<open>Members that decode into strings: absent, null or a string.\<close>

definition strings_ok :: "obj \<Rightarrow> string list \<Rightarrow> bool" where
  "strings_ok ob ks \<longleftrightarrow>
     list_all (\<lambda>k. case map_of ob k of None \<Rightarrow> True | Some JNull \<Rightarrow> True | Some (JStr _) \<Rightarrow> True | _ \<Rightarrow> False) ks"

definition bool_member :: "obj \<Rightarrow> string \<Rightarrow> bool \<Rightarrow> bool" where
  "bool_member ob k d = (case map_of ob k of Some (JBool b) \<Rightarrow> b | _ \<Rightarrow> d)"

definition invocation_names :: "string list" where
  "invocation_names =
     [''executionMode'', ''id'', ''conversationId'', ''turnId'', ''name'', ''description'', ''parentConversationId'',
      ''parentTurnId'', ''parentToolCallId'', ''parentMessageId'', ''parentInvocationId'']"

definition decode_invocation :: "obj \<Rightarrow> Invocation" where
  "decode_invocation ob =
     \<lparr>iv_Detached = bool_member ob ''detached'' False, iv_ExecutionMode = field ob ''executionMode'',
      iv_ID = field ob ''id'', iv_ConversationID = field ob ''conversationId'', iv_TurnID = field ob ''turnId'',
      iv_Name = field ob ''name'', iv_Description = field ob ''description'',
      iv_ParentConversationID = field ob ''parentConversationId'', iv_ParentTurnID = field ob ''parentTurnId'',
      iv_ParentToolCallID = field ob ''parentToolCallId'', iv_ParentMessageID = field ob ''parentMessageId'',
      iv_ParentInvocationID = field ob ''parentInvocationId''\<rparr>"

definition invocation_shape :: "obj \<Rightarrow> bool" where
  "invocation_shape ob \<longleftrightarrow>
     strings_ok ob invocation_names
     \<and> (case map_of ob ''detached'' of None \<Rightarrow> True | Some JNull \<Rightarrow> True | Some (JBool _) \<Rightarrow> True | _ \<Rightarrow> False)"

definition int_member :: "obj \<Rightarrow> string \<Rightarrow> int option" where
  "int_member ob k =
     (case map_of ob k of
        None \<Rightarrow> Some 0
      | Some JNull \<Rightarrow> Some 0
      | Some (JNum s) \<Rightarrow>
          if digits (snd (cut_sign s)) \<and> minInt64 \<le> bigSetString s \<and> bigSetString s \<le> maxInt64
          then Some (bigSetString s) else None
      | _ \<Rightarrow> None)"

section \<open>Tools of a history\<close>

definition call_obj :: "json \<Rightarrow> obj" where
  "call_obj v = (case v of JObj c \<Rightarrow> c | _ \<Rightarrow> [])"

text \<open>The messages that decode into what \<open>historicalToolStates\<close> reads of them.\<close>

definition call_shape :: "json \<Rightarrow> bool" where
  "call_shape v \<longleftrightarrow>
     (case v of
        JNull \<Rightarrow> True
      | JObj c \<Rightarrow> strings_ok c [''id'']
          \<and> (case map_of c ''function'' of
               None \<Rightarrow> True | Some JNull \<Rightarrow> True | Some (JObj f) \<Rightarrow> strings_ok f [''arguments''] | _ \<Rightarrow> False)
      | _ \<Rightarrow> False)"

definition message_shape :: "obj \<Rightarrow> bool" where
  "message_shape m \<longleftrightarrow>
     strings_ok m [''id'', ''role'', ''subagentRunId'', ''toolCallId'']
     \<and> (case map_of m ''toolCalls'' of None \<Rightarrow> True | Some JNull \<Rightarrow> True | Some (JArr cs) \<Rightarrow> list_all call_shape cs | _ \<Rightarrow> False)"

definition history_call :: "obj \<Rightarrow> json \<Rightarrow> (string \<times> toolState) list \<Rightarrow> (string \<times> toolState) list" where
  "history_call m v ts =
     (let c = call_obj v
      in AList.update (field c ''id'')
           \<lparr>tl_presentation = None, tl_subagent = field m ''subagentRunId'',
            tl_args = field (members_or_empty c ''function'') ''arguments'', tl_ended = True, tl_result = False,
            tl_parent = field m ''id''\<rparr> ts)"

definition history_receipt :: "obj \<Rightarrow> (string \<times> toolState) list \<Rightarrow> (string \<times> toolState) list" where
  "history_receipt m ts =
     (if field m ''role'' \<noteq> ''tool'' then ts
      else case map_of ts (field m ''toolCallId'') of
             None \<Rightarrow> ts
           | Some s \<Rightarrow> AList.update (field m ''toolCallId'') (s\<lparr>tl_result := True\<rparr>) ts)"

definition historicalToolStates :: "obj list \<Rightarrow> (string \<times> toolState) list option" where
  "historicalToolStates ms =
     (if \<not> list_all message_shape ms then None
      else Some (fold history_receipt ms
             (fold (\<lambda>m ts. if field m ''role'' = ''assistant'' then fold (history_call m) (tool_calls m) ts else ts)
                ms [])))"

definition refresh_one ::
  "(string \<times> toolState) list \<Rightarrow> string \<Rightarrow> (string \<times> toolState) list \<Rightarrow> (string \<times> toolState) list" where
  "refresh_one live i history =
     (case map_of live i of
        None \<Rightarrow> history
      | Some s \<Rightarrow>
          AList.update i
            (case map_of history i of
               None \<Rightarrow> s
             | Some c \<Rightarrow> s\<lparr>tl_args := tl_args c, tl_result := (tl_result s \<or> tl_result c)\<rparr>) history)"

definition refreshHistoricalTools :: "obj list \<Rightarrow> Translator \<Rightarrow> Translator option" where
  "refreshHistoricalTools ms t =
     map_option (\<lambda>history. t\<lparr>t_tools := fold (refresh_one (t_tools t)) (t_toolOrder t) history\<rparr>)
       (historicalToolStates ms)"

text \<open>\<open>SeedMessages\<close>: \<open>None\<close> is an error, which changes nothing.\<close>

definition SeedMessages :: "tr_env \<Rightarrow> obj list \<Rightarrow> Translator \<Rightarrow> Translator option" where
  "SeedMessages env ms t =
     (if \<not> ok_event env [(''type'', JStr ''MESSAGES_SNAPSHOT''), (''messages'', JArr (map JObj ms))] then None
      else if t_textOrder t \<noteq> [] \<or> t_toolOrder t \<noteq> [] then None
      else map_option (\<lambda>tools. t\<lparr>t_messages := ms, t_tools := tools, t_seeded := True\<rparr>) (historicalToolStates ms))"

text \<open>\<open>HasToolResult\<close> asks the subagents too.\<close>

definition own_result :: "Translator \<Rightarrow> string \<Rightarrow> bool" where
  "own_result t i = (case map_of (t_tools t) i of None \<Rightarrow> False | Some s \<Rightarrow> tl_result s)"

fun HasToolResult :: "Node \<Rightarrow> string \<Rightarrow> bool" where
  "HasToolResult (Node t cs) i \<longleftrightarrow>
     own_result t i \<or> list_ex (\<lambda>c. case c of (_, Subagent _ n _ _) \<Rightarrow> HasToolResult n i) cs"

fun HasToolCall :: "Node \<Rightarrow> string \<Rightarrow> string \<Rightarrow> bool" where
  "HasToolCall (Node t cs) turn call \<longleftrightarrow>
     map_of (t_tools t) (toolID t turn call) \<noteq> None
     \<or> list_ex (\<lambda>c. case c of (_, Subagent _ n _ _) \<Rightarrow> HasToolCall n turn call) cs"


section \<open>Lanes\<close>

definition entry_or :: "'v \<Rightarrow> string \<Rightarrow> (string \<times> 'v) list \<Rightarrow> 'v" where
  "entry_or d k m = (case map_of m k of None \<Rightarrow> d | Some v \<Rightarrow> v)"

definition trim_prefix :: "string \<Rightarrow> string \<Rightarrow> string" where
  "trim_prefix p s = (case strip_prefix p s of None \<Rightarrow> s | Some r \<Rightarrow> r)"

definition step_key :: "string \<Rightarrow> string \<Rightarrow> string" where
  "step_key w name =
     (let key = trim_prefix ''model/'' name in if w = [] then key else w @ ''/'' @ key)"

definition add_text :: "string \<Rightarrow> string \<Rightarrow> Translator \<Rightarrow> Translator" where
  "add_text i w t =
     (if map_of (t_texts t) i \<noteq> None then t
      else t\<lparr>t_texts := AList.update i \<lparr>tx_subagent = w, tx_content = [], tx_ended = False\<rparr> (t_texts t),
             t_textOrder := t_textOrder t @ [i]\<rparr>)"

definition add_thought :: "string \<Rightarrow> string \<Rightarrow> Translator \<Rightarrow> Translator" where
  "add_thought i w t =
     (if map_of (t_reasonings t) i \<noteq> None then t
      else t\<lparr>t_reasonings := AList.update i
               \<lparr>rs_subagent = w, rs_span = entry_or [] w (t_currentReasoningSpans t),
                rs_owner = entry_or [] w (t_activeModels t), rs_content = [], rs_ended = False\<rparr> (t_reasonings t),
             t_reasoningOrder := t_reasoningOrder t @ [i]\<rparr>)"

definition on_text :: "string \<Rightarrow> (textState \<Rightarrow> textState) \<Rightarrow> Translator \<Rightarrow> Translator" where
  "on_text i f t =
     (case map_of (t_texts t) i of None \<Rightarrow> t | Some s \<Rightarrow> t\<lparr>t_texts := AList.update i (f s) (t_texts t)\<rparr>)"

definition on_tool :: "string \<Rightarrow> (toolState \<Rightarrow> toolState) \<Rightarrow> Translator \<Rightarrow> Translator" where
  "on_tool i f t =
     (case map_of (t_tools t) i of None \<Rightarrow> t | Some s \<Rightarrow> t\<lparr>t_tools := AList.update i (f s) (t_tools t)\<rparr>)"

definition on_thought :: "string \<Rightarrow> (reasoningState \<Rightarrow> reasoningState) \<Rightarrow> Translator \<Rightarrow> Translator" where
  "on_thought i f t =
     (case map_of (t_reasonings t) i of
        None \<Rightarrow> t | Some s \<Rightarrow> t\<lparr>t_reasonings := AList.update i (f s) (t_reasonings t)\<rparr>)"

definition lane_step_started :: "string \<Rightarrow> string \<Rightarrow> Translator \<Rightarrow> Translator" where
  "lane_step_started w name t =
     (let key = step_key w name;
          t = (case map_of (t_steps t) key of
                 None \<Rightarrow> t\<lparr>t_steps := AList.update key \<lparr>sp_subagent = w, sp_name = name, sp_ended = False\<rparr> (t_steps t),
                           t_stepOrder := t_stepOrder t @ [key]\<rparr>
               | Some s \<Rightarrow> t\<lparr>t_steps := AList.update key (s\<lparr>sp_ended := False\<rparr>) (t_steps t)\<rparr>)
      in t\<lparr>t_activeModels := AList.update w key (t_activeModels t),
           t_activeModel := (if w = [] then key else t_activeModel t)\<rparr>)"

definition lane_step_finished :: "string \<Rightarrow> string \<Rightarrow> Translator \<Rightarrow> Translator" where
  "lane_step_finished w name t =
     (let key = step_key w name;
          t = (case map_of (t_steps t) key of
                 None \<Rightarrow> t | Some s \<Rightarrow> t\<lparr>t_steps := AList.update key (s\<lparr>sp_ended := True\<rparr>) (t_steps t)\<rparr>)
      in t\<lparr>t_activeModels := (if entry_or [] w (t_activeModels t) = key then AList.update w [] (t_activeModels t)
                              else t_activeModels t),
           t_activeModel := (if w = [] \<and> t_activeModel t = key then [] else t_activeModel t)\<rparr>)"

definition lane_tool_started :: "string \<Rightarrow> string \<Rightarrow> string \<Rightarrow> Translator \<Rightarrow> Translator" where
  "lane_tool_started i w parent t =
     (let t = (if map_of (t_tools t) i \<noteq> None then t
               else t\<lparr>t_tools := AList.update i
                        \<lparr>tl_presentation = None, tl_subagent = w, tl_args = [], tl_ended = False, tl_result = False,
                         tl_parent = parent\<rparr> (t_tools t)\<rparr>);
          t = (if i \<in> set (t_toolOrder t) then t else t\<lparr>t_toolOrder := t_toolOrder t @ [i]\<rparr>)
      in on_tool i (\<lambda>s. s\<lparr>tl_ended := False\<rparr>) t)"

text \<open>The first \<open>switch\<close> of \<open>captureStandard\<close> for the types that concern the translator alone.\<close>

definition capture_lane :: "obj \<Rightarrow> Translator \<Rightarrow> Translator" where
  "capture_lane fs t =
     (let kind = field fs ''type''; w = field fs ''subagentRunId''; i = field fs ''messageId'';
          call = field fs ''toolCallId''; delta = field fs ''delta''
      in if kind = ''RUN_FINISHED'' \<or> kind = ''RUN_ERROR'' then t\<lparr>t_done := True\<rparr>
         else if kind = ''STEP_STARTED'' then lane_step_started w (field fs ''stepName'') t
         else if kind = ''STEP_FINISHED'' then lane_step_finished w (field fs ''stepName'') t
         else if kind = ''REASONING_START''
         then t\<lparr>t_reasoningSpans := AList.update i True (t_reasoningSpans t), t_currentReasoningSpan := i,
                t_currentReasoningSpans := AList.update w i (t_currentReasoningSpans t)\<rparr>
         else if kind = ''REASONING_END'' then t\<lparr>t_reasoningSpans := AList.update i False (t_reasoningSpans t)\<rparr>
         else if kind = ''REASONING_MESSAGE_START'' then on_thought i (\<lambda>s. s\<lparr>rs_ended := False\<rparr>) (add_thought i w t)
         else if kind = ''REASONING_MESSAGE_CONTENT'' then on_thought i (\<lambda>s. s\<lparr>rs_content := rs_content s @ delta\<rparr>) t
         else if kind = ''REASONING_MESSAGE_END'' then on_thought i (\<lambda>s. s\<lparr>rs_ended := True\<rparr>) t
         else if kind = ''TEXT_MESSAGE_START'' then on_text i (\<lambda>s. s\<lparr>tx_ended := False\<rparr>) (add_text i w t)
         else if kind = ''TEXT_MESSAGE_CONTENT'' then on_text i (\<lambda>s. s\<lparr>tx_content := tx_content s @ delta\<rparr>) t
         else if kind = ''TEXT_MESSAGE_END'' then on_text i (\<lambda>s. s\<lparr>tx_ended := True\<rparr>) t
         else if kind = ''TOOL_CALL_START'' then lane_tool_started call w (field fs ''parentMessageId'') t
         else if kind = ''TOOL_CALL_ARGS'' then on_tool call (\<lambda>s. s\<lparr>tl_args := tl_args s @ delta\<rparr>) t
         else if kind = ''TOOL_CALL_END'' then on_tool call (\<lambda>s. s\<lparr>tl_ended := True\<rparr>) t
         else if kind = ''TOOL_CALL_RESULT'' then on_tool call (\<lambda>s. s\<lparr>tl_result := True\<rparr>) t
         else t)"

definition capture_run_started :: "obj \<Rightarrow> Node \<Rightarrow> string + Node" where
  "capture_run_started fs n =
     (let t = nd_tr n; agently = members_or_empty (members_or_empty fs ''metadata'') ''agently''
      in if field fs ''threadId'' \<noteq> t_threadID t \<or> field fs ''runId'' \<noteq> t_runID t
         then Inl ''journal run identity mismatch''
         else Inr (on_tr (\<lambda>t. t\<lparr>t_started := True,
                                t_nativeTurnID := (if field agently ''identityVersion'' = ''1''
                                                   then field agently ''nativeTurnId'' else t_nativeTurnID t)\<rparr>) n))"

definition start_child :: "Invocation \<Rightarrow> Node \<Rightarrow> Node" where
  "start_child iv n =
     (case subagent iv n of (Subagent j c _ d, n) \<Rightarrow> set_child (iv_ID iv) (Subagent j c True d) n)"

definition capture_subagent_started :: "obj \<Rightarrow> Node \<Rightarrow> string + Node" where
  "capture_subagent_started fs n =
     (let w = field fs ''subagentRunId''; name = field fs ''name'';
          declared = members_or_empty (members_or_empty (members_or_empty fs ''metadata'') ''agently'') ''invocation'';
          iv = decode_invocation declared
      in if iv_ID iv = [] then Inr (start_child (decode_invocation [(''id'', JStr w), (''name'', JStr name)]) n)
         else if iv_ID iv \<noteq> w \<or> iv_Name iv \<noteq> name then Inl ''subagent metadata does not match event identity''
         else case (if t_nativeTurnID (nd_tr n) = [] then None else validateInvocation n iv) of
                Some err \<Rightarrow> Inl err
              | None \<Rightarrow> Inr (start_child iv n))"

definition finish_child :: "string \<Rightarrow> Node \<Rightarrow> Node" where
  "finish_child w n =
     (case map_of (nd_children n) w of
        None \<Rightarrow> n
      | Some (Subagent iv c st _) \<Rightarrow> set_child w (Subagent iv c st True) n)"

definition capture_boundary :: "obj \<Rightarrow> Node \<Rightarrow> string + Node" where
  "capture_boundary fs n =
     (let kind = field fs ''type''
      in if kind = ''RUN_STARTED'' then capture_run_started fs n
         else if kind = ''SUBAGENT_STARTED'' then capture_subagent_started fs n
         else if kind = ''SUBAGENT_FINISHED'' \<or> kind = ''SUBAGENT_ERROR''
         then Inr (finish_child (field fs ''subagentRunId'') n)
         else Inr (on_tr (capture_lane fs) n))"

section \<open>The graph\<close>

definition mergeEventMetadata :: "obj \<Rightarrow> obj \<Rightarrow> obj" where
  "mergeEventMetadata m fs =
     (let m = (if map_of fs ''metadata'' = None then m
               else put ''metadata''
                 (JObj (fold (\<lambda>kv. put (fst kv) (snd kv)) (members_or_empty fs ''metadata'')
                          (members_or_empty m ''metadata''))) m)
      in case map_of fs ''subagentRunId'' of None \<Rightarrow> m | Some w \<Rightarrow> put ''subagentRunId'' w m)"

definition message_or :: "obj \<Rightarrow> string \<Rightarrow> Translator \<Rightarrow> obj" where
  "message_or d i t = (case message (t_messages t) i of None \<Rightarrow> d | Some m \<Rightarrow> m)"

definition new_message :: "string \<Rightarrow> string \<Rightarrow> obj" where
  "new_message i role = [(''id'', JStr i), (''role'', JStr role), (''content'', JStr [])]"

text \<open>What captures one event: the new state and the error found, or a panic.\<close>

type_synonym captured = "(Translator \<times> string option) option"

definition captured_ok :: "Translator \<Rightarrow> captured" where
  "captured_ok t = Some (t, None)"

definition captured_error :: "string \<Rightarrow> Translator \<Rightarrow> captured" where
  "captured_error err t = Some (t, Some err)"

definition graph_start :: "string \<Rightarrow> string \<Rightarrow> obj \<Rightarrow> Translator \<Rightarrow> captured" where
  "graph_start i role fs t =
     captured_ok (saveMessage i (mergeEventMetadata (message_or (new_message i role) i t) fs) t)"

definition add_content :: "string \<Rightarrow> obj \<Rightarrow> obj" where
  "add_content delta m = put ''content'' (JStr (field m ''content'' @ delta)) m"

definition graph_content :: "string \<Rightarrow> obj \<Rightarrow> Translator \<Rightarrow> captured" where
  "graph_content i fs t =
     (case message (t_messages t) i of
        None \<Rightarrow> captured_error (''content event references missing message '' @ i) t
      | Some m \<Rightarrow>
          captured_ok (saveMessage i (mergeEventMetadata (add_content (field fs ''delta'') m) fs) t))"

definition graph_chunk :: "bool \<Rightarrow> bool \<Rightarrow> obj \<Rightarrow> Translator \<Rightarrow> captured" where
  "graph_chunk thought boundary fs t =
     (let i = str_or (field fs ''messageId'') (if thought then t_lastChunkReasoning t else t_lastChunkText t);
          role = (if thought then ''reasoning'' else str_or (field fs ''role'') ''assistant'');
          w = field fs ''subagentRunId''
      in if i = [] then captured_error ''chunk has no open message identity'' t
         else
           let t = (if thought then t\<lparr>t_lastChunkReasoning := i\<rparr> else t\<lparr>t_lastChunkText := i\<rparr>);
               m = mergeEventMetadata (add_content (field fs ''delta'') (message_or (new_message i role) i t)) fs;
               t = saveMessage i m t
           in captured_ok
                (if \<not> boundary then t
                 else if thought then on_thought i (\<lambda>s. s\<lparr>rs_content := field m ''content''\<rparr>) (add_thought i w t)
                 else on_text i (\<lambda>s. s\<lparr>tx_content := field m ''content''\<rparr>) (add_text i w t)))"


text \<open>\<open>appendToolArguments\<close>: the parent and the function of the call have to be there.\<close>

definition extend_arguments :: "string \<Rightarrow> string \<Rightarrow> json \<Rightarrow> json option" where
  "extend_arguments i delta v =
     (if \<not> is_call i v then Some v
      else case get_object (call_obj v) ''function'' of
             None \<Rightarrow> None
           | Some f \<Rightarrow>
               Some (JObj (put ''function'' (JObj (put ''arguments'' (JStr (field f ''arguments'' @ delta)) f)) (call_obj v))))"

primrec map_all :: "('a \<Rightarrow> 'b option) \<Rightarrow> 'a list \<Rightarrow> 'b list option" where
  "map_all f [] = Some []"
| "map_all f (x # xs) = (case (f x, map_all f xs) of (Some y, Some ys) \<Rightarrow> Some (y # ys) | _ \<Rightarrow> None)"

definition appendToolArguments :: "string \<Rightarrow> string \<Rightarrow> string \<Rightarrow> Translator \<Rightarrow> captured" where
  "appendToolArguments parent i delta t =
     (case message (t_messages t) parent of
        None \<Rightarrow> None
      | Some m \<Rightarrow>
          (case map_all (extend_arguments i delta) (tool_calls m) of
             None \<Rightarrow> None
           | Some cs \<Rightarrow> captured_ok (saveMessage parent (put ''toolCalls'' (JArr cs) m) t)))"

definition call_json :: "string \<Rightarrow> string \<Rightarrow> json" where
  "call_json i name =
     JObj [(''id'', JStr i), (''type'', JStr ''function''),
           (''function'', JObj [(''name'', JStr name), (''arguments'', JStr [])])]"

definition caller_message :: "string \<Rightarrow> obj" where
  "caller_message parent = [(''id'', JStr parent), (''role'', JStr ''assistant'')]"

definition graph_tool :: "bool \<Rightarrow> obj \<Rightarrow> Translator \<Rightarrow> captured" where
  "graph_tool chunk fs t =
     (let i = field fs ''toolCallId''; i = (if chunk then str_or i (t_lastChunkTool t) else i)
      in if chunk \<and> i = [] then captured_error ''tool chunk has no open call identity'' t
         else
           let t = (if chunk then t\<lparr>t_lastChunkTool := i\<rparr> else t);
               state = map_of (t_tools t) i;
               parent = str_or (str_or (field fs ''parentMessageId'') (case state of None \<Rightarrow> [] | Some s \<Rightarrow> tl_parent s))
                          (t_runID t @ ''/assistant'');
               m = message_or (caller_message parent) parent t;
               calls = (if list_ex (is_call i) (tool_calls m) then tool_calls m
                        else tool_calls m @ [call_json i (field fs ''toolCallName'')]);
               t = saveMessage parent (mergeEventMetadata (put ''toolCalls'' (JArr calls) m) fs) t;
               t = (if state \<noteq> None then t
                    else t\<lparr>t_tools := AList.update i
                             \<lparr>tl_presentation = None, tl_subagent = field fs ''subagentRunId'', tl_args = [],
                              tl_ended = False, tl_result = False, tl_parent = parent\<rparr> (t_tools t),
                           t_toolOrder := t_toolOrder t @ [i]\<rparr>)
           in if \<not> chunk then captured_ok t
              else appendToolArguments parent i (field fs ''delta'')
                     (on_tool i (\<lambda>s. s\<lparr>tl_args := tl_args s @ field fs ''delta''\<rparr>) t))"

definition graph_args :: "obj \<Rightarrow> Translator \<Rightarrow> captured" where
  "graph_args fs t =
     (case map_of (t_tools t) (field fs ''toolCallId'') of
        None \<Rightarrow> captured_ok t
      | Some s \<Rightarrow> appendToolArguments (tl_parent s) (field fs ''toolCallId'') (field fs ''delta'') t)"

definition graph_result :: "obj \<Rightarrow> Translator \<Rightarrow> captured" where
  "graph_result fs t =
     (let i = field fs ''messageId'';
          m = [(''id'', JStr i), (''role'', JStr ''tool''), (''toolCallId'', JStr (field fs ''toolCallId'')),
               (''content'', member_or_null fs ''content'')]
              @ (case map_of fs ''error'' of None \<Rightarrow> [] | Some v \<Rightarrow> [(''error'', v)])
      in captured_ok (saveMessage i (mergeEventMetadata m fs) t))"

text \<open>The opaque continuation of a call goes to every call with its id.\<close>

definition encrypt_call :: "obj \<Rightarrow> json \<Rightarrow> json" where
  "encrypt_call fs v =
     (if is_call (field fs ''entityId'') v
      then JObj (put ''encryptedValue'' (member_or_null fs ''encryptedValue'') (call_obj v)) else v)"

definition encrypt_message :: "obj \<Rightarrow> obj \<Rightarrow> Translator \<Rightarrow> Translator" where
  "encrypt_message fs m t =
     (case map_of m ''toolCalls'' of
        Some (JArr cs) \<Rightarrow> saveMessage (field m ''id'') (put ''toolCalls'' (JArr (map (encrypt_call fs) cs)) m) t
      | _ \<Rightarrow> t)"

definition graph_encrypted :: "obj \<Rightarrow> Translator \<Rightarrow> captured" where
  "graph_encrypted fs t =
     (let entity = field fs ''entityId''
      in if field fs ''subtype'' = ''tool-call'' then captured_ok (fold (encrypt_message fs) (t_messages t) t)
         else case message (t_messages t) entity of
                None \<Rightarrow> captured_error (''encrypted reasoning references missing message '' @ entity) t
              | Some m \<Rightarrow> captured_ok (saveMessage entity (put ''encryptedValue'' (member_or_null fs ''encryptedValue'') m) t))"

definition note_presentation :: "obj \<Rightarrow> Translator \<Rightarrow> Translator" where
  "note_presentation fs t =
     (let content = members_or_empty fs ''content''
      in if field fs ''activityType'' = ''agently.tool'' \<and> map_of content ''version'' = Some (JStr ''1'')
         then on_tool (field content ''toolCallId'') (\<lambda>s. s\<lparr>tl_presentation := Some content\<rparr>) t else t)"

definition graph_activity :: "obj \<Rightarrow> Translator \<Rightarrow> captured" where
  "graph_activity fs t =
     (let t = note_presentation fs t;
          i = field fs ''messageId'';
          fresh = [(''id'', JStr i), (''role'', JStr ''activity''), (''activityType'', member_or_null fs ''activityType''),
                   (''content'', member_or_null fs ''content'')];
          m = (case message (t_messages t) i of
                 None \<Rightarrow> fresh
               | Some old \<Rightarrow>
                   if bool_member fs ''replace'' True
                   then fresh @ (case map_of old ''metadata'' of None \<Rightarrow> [] | Some v \<Rightarrow> [(''metadata'', v)])
                   else old)
      in captured_ok (saveMessage i (mergeEventMetadata m fs) t))"

definition graph_delta :: "tr_env \<Rightarrow> obj \<Rightarrow> Translator \<Rightarrow> captured" where
  "graph_delta env fs t =
     (let i = field fs ''messageId''
      in case message (t_messages t) i of
           None \<Rightarrow> captured_error (''activity patch references missing message '' @ i) t
         | Some m \<Rightarrow>
             (case patch_content env (member_or_null m ''content'') (member_or_null fs ''patch'') of
                None \<Rightarrow> captured_error library_error t
              | Some v \<Rightarrow> captured_ok (saveMessage i (mergeEventMetadata (put ''content'' v m) fs) t)))"

text \<open>A snapshot is the new graph: contents and arguments are read from it again.\<close>

definition reread_message :: "obj \<Rightarrow> Translator \<Rightarrow> Translator" where
  "reread_message m t =
     (let i = field m ''id''; content = field m ''content''
      in if field m ''role'' = ''assistant''
         then fold (\<lambda>v. on_tool (field (call_obj v) ''id'')
                          (\<lambda>s. s\<lparr>tl_args := field (members_or_empty (call_obj v) ''function'') ''arguments''\<rparr>))
                (tool_calls m) (on_text i (\<lambda>s. s\<lparr>tx_content := content\<rparr>) t)
         else if field m ''role'' = ''reasoning'' then on_thought i (\<lambda>s. s\<lparr>rs_content := content\<rparr>) t
         else t)"

definition graph_snapshot :: "obj \<Rightarrow> Translator \<Rightarrow> captured" where
  "graph_snapshot fs t =
     (case (if map_of fs ''messages'' = None then None else decode_objects (member_or_null fs ''messages'')) of
        None \<Rightarrow> captured_error library_error t
      | Some ms \<Rightarrow>
          let t = t\<lparr>t_messages := ms\<rparr>
          in case refreshHistoricalTools ms t of
               None \<Rightarrow> captured_error library_error t
             | Some t \<Rightarrow> captured_ok (fold reread_message ms t))"

definition usage_checkpoint :: "obj \<Rightarrow> (string \<times> usageState) option" where
  "usage_checkpoint v =
     (let u = members_or_empty v ''usage''
      in case (int_member u ''inputTokens'', int_member u ''outputTokens'', int_member u ''cachedInputTokens'',
               int_member u ''reasoningTokens'', int_member u ''cacheWriteInputTokens'') of
           (Some a, Some b, Some c, Some d, Some f) \<Rightarrow>
             if strings_ok v [''version'', ''modelCallId''] \<and> strings_ok u [''provider'', ''model'']
                \<and> (case map_of v ''usage'' of None \<Rightarrow> True | Some JNull \<Rightarrow> True | Some (JObj _) \<Rightarrow> True | _ \<Rightarrow> False)
                \<and> field v ''version'' = ''1'' \<and> field v ''modelCallId'' \<noteq> []
             then Some (field v ''modelCallId'',
                        \<lparr>us_provider = field u ''provider'', us_model = field u ''model'', us_input = a, us_output = b,
                         us_cached = c, us_reasoning = d, us_write = f\<rparr>)
             else None
         | _ \<Rightarrow> None)"

definition graph_usage :: "obj \<Rightarrow> Translator \<Rightarrow> Translator" where
  "graph_usage fs t =
     (let v = members_or_empty fs ''value''; w = field fs ''subagentRunId''; scope = field v ''scope''
      in if scope \<noteq> [] \<and> scope \<noteq> ''model_call'' then t
         else case usage_checkpoint v of
                None \<Rightarrow> t
              | Some (call, s) \<Rightarrow>
                  t\<lparr>t_usage := AList.update (if w = [] then call else w @ ''/'' @ call) s (t_usage t)\<rparr>)"

text \<open>The second \<open>switch\<close> of \<open>captureStandard\<close> for the types that concern the translator alone.\<close>

definition capture_graph :: "tr_env \<Rightarrow> bool \<Rightarrow> obj \<Rightarrow> Translator \<Rightarrow> captured" where
  "capture_graph env boundary fs t =
     (let kind = field fs ''type''; i = field fs ''messageId''
      in if kind = ''MESSAGES_SNAPSHOT'' then graph_snapshot fs t
         else if kind = ''TEXT_MESSAGE_START'' then graph_start i (field fs ''role'') fs t
         else if kind = ''REASONING_MESSAGE_START'' then graph_start i ''reasoning'' fs t
         else if kind = ''TEXT_MESSAGE_CONTENT'' \<or> kind = ''REASONING_MESSAGE_CONTENT'' then graph_content i fs t
         else if kind = ''TEXT_MESSAGE_CHUNK'' then graph_chunk False boundary fs t
         else if kind = ''REASONING_MESSAGE_CHUNK'' then graph_chunk True boundary fs t
         else if kind = ''TOOL_CALL_START'' then graph_tool False fs t
         else if kind = ''TOOL_CALL_CHUNK'' then graph_tool True fs t
         else if kind = ''TOOL_CALL_ARGS'' then graph_args fs t
         else if kind = ''TOOL_CALL_RESULT'' then graph_result fs t
         else if kind = ''REASONING_ENCRYPTED_VALUE'' then graph_encrypted fs t
         else if kind = ''ACTIVITY_SNAPSHOT'' then graph_activity fs t
         else if kind = ''ACTIVITY_DELTA'' then graph_delta env fs t
         else captured_ok t)"


section \<open>Capturing events\<close>

text \<open>What capturing does to a translator and its subagents; \<open>None\<close> is a panic.\<close>

type_synonym node_captured = "(Node \<times> string option) option"

definition checkpoint_shape :: "obj \<Rightarrow> bool" where
  "checkpoint_shape v \<longleftrightarrow>
     strings_ok v [''version'', ''phase'']
     \<and> (case map_of v ''invocation'' of
          None \<Rightarrow> True | Some JNull \<Rightarrow> True | Some (JObj iv) \<Rightarrow> invocation_shape iv | _ \<Rightarrow> False)"

definition capture_checkpoint :: "obj \<Rightarrow> Node \<Rightarrow> node_captured" where
  "capture_checkpoint fs n =
     (let value = map_of fs ''value''; v = members_or_empty fs ''value'';
          iv = decode_invocation (members_or_empty v ''invocation'')
      in if value \<noteq> Some JNull \<and> (get_object fs ''value'' = None \<or> \<not> checkpoint_shape v)
         then Some (n, Some library_error)
         else if field v ''version'' \<noteq> ''1'' \<or> field v ''phase'' \<noteq> ''registered''
         then Some (n, Some ''invalid invocation checkpoint version/phase'')
         else case validateInvocation n iv of
                Some err \<Rightarrow> Some (n, Some err)
              | None \<Rightarrow> Some (snd (subagent iv n), None))"

definition capture_content :: "tr_env \<Rightarrow> bool \<Rightarrow> obj \<Rightarrow> Node \<Rightarrow> node_captured" where
  "capture_content env boundary fs n =
     (if field fs ''type'' = ''CUSTOM''
      then (if field fs ''name'' = ''agently.invocation'' then capture_checkpoint fs n
            else if field fs ''name'' = ''agently.usage'' then Some (on_tr (graph_usage fs) n, None)
            else Some (n, None))
      else case capture_graph env boundary fs (nd_tr n) of
             None \<Rightarrow> None
           | Some (t, err) \<Rightarrow> Some (Node t (nd_children n), err))"

definition captureStandard :: "tr_env \<Rightarrow> bool \<Rightarrow> obj \<Rightarrow> Node \<Rightarrow> node_captured" where
  "captureStandard env boundary fs n =
     (case (if boundary then capture_boundary fs n else Inr n) of
        Inl err \<Rightarrow> Some (n, Some err)
      | Inr n \<Rightarrow> capture_content env boundary fs n)"

text \<open>Events that are not standard variants are captured from their own fields.\<close>

definition capture_plain :: "obj \<Rightarrow> Translator \<Rightarrow> captured" where
  "capture_plain fs t =
     (let kind = field fs ''type''; i = field fs ''messageId''; call = field fs ''toolCallId'';
          parent = field fs ''parentMessageId''
      in if kind = ''TEXT_MESSAGE_START''
         then captured_ok (saveMessage i (message_or (new_message i (field fs ''role'')) i t) t)
         else if kind = ''TEXT_MESSAGE_CONTENT''
         then (case message (t_messages t) i of
                 None \<Rightarrow> None
               | Some m \<Rightarrow> captured_ok (saveMessage i (add_content (field fs ''delta'') m) t))
         else if kind = ''TOOL_CALL_START''
         then (let m = message_or (caller_message parent) parent t
               in captured_ok (saveMessage parent
                    (put ''toolCalls'' (JArr (tool_calls m @ [call_json call (field fs ''toolCallName'')])) m) t))
         else if kind = ''TOOL_CALL_ARGS'' then graph_args fs t
         else if kind = ''TOOL_CALL_RESULT''
         then captured_ok (saveMessage i [(''id'', JStr i), (''role'', JStr ''tool''), (''toolCallId'', JStr call),
                                          (''content'', member_or_null fs ''content'')] t)
         else captured_ok t)"

definition capture_event :: "tr_env \<Rightarrow> tevent \<Rightarrow> Node \<Rightarrow> node_captured" where
  "capture_event env ev n =
     (if te_standard ev then captureStandard env (\<not> te_applied ev) (te_fields ev) n
      else case capture_plain (te_fields ev) (nd_tr n) of
             None \<Rightarrow> None
           | Some (t, err) \<Rightarrow> Some (Node t (nd_children n), err))"

text \<open>The first error stays.\<close>

definition note_error :: "string option \<Rightarrow> Node \<Rightarrow> Node" where
  "note_error err n =
     on_tr (\<lambda>t. if t_historyErr t = None then t\<lparr>t_historyErr := err\<rparr> else t) n"

primrec capture :: "tr_env \<Rightarrow> tevent list \<Rightarrow> Node \<Rightarrow> Node option" where
  "capture env [] n = Some n"
| "capture env (ev # evs) n =
     (case capture_event env ev n of
        None \<Rightarrow> None
      | Some (n, err) \<Rightarrow> capture env evs (note_error err n))"

section \<open>Restoring a translator from its journal\<close>

primrec restore_events :: "tr_env \<Rightarrow> obj list \<Rightarrow> Node \<Rightarrow> Node option" where
  "restore_events env [] n = Some n"
| "restore_events env (fs # fss) n =
     (if \<not> ok_event env fs then None
      else case captureStandard env True fs n of
             Some (n, None) \<Rightarrow> restore_events env fss n
           | _ \<Rightarrow> None)"

text \<open>A subagent that has not ended reads the events attributed to it, without the attribution, and the
  snapshots.\<close>

primrec restore_child_events :: "tr_env \<Rightarrow> string \<Rightarrow> obj list \<Rightarrow> Node \<Rightarrow> Node option" where
  "restore_child_events env w [] n = Some n"
| "restore_child_events env w (fs # fss) n =
     (let kind = field fs ''type''
      in if kind \<in> set [''SUBAGENT_STARTED'', ''SUBAGENT_FINISHED'', ''SUBAGENT_ERROR'']
         then restore_child_events env w fss n
         else case (if field fs ''subagentRunId'' = w then Some (AList.delete ''subagentRunId'' fs)
                    else if kind = ''MESSAGES_SNAPSHOT'' then Some fs else None) of
                None \<Rightarrow> restore_child_events env w fss n
              | Some fs \<Rightarrow>
                  (case captureStandard env True fs n of
                     Some (n, None) \<Rightarrow> restore_child_events env w fss n
                   | _ \<Rightarrow> None))"

definition restore_child :: "tr_env \<Rightarrow> obj list \<Rightarrow> Translator \<Rightarrow> string \<times> Subagent \<Rightarrow> (string \<times> Subagent) option" where
  "restore_child env fss t c =
     (case c of (w, Subagent iv child st d) \<Rightarrow>
        if d then Some c
        else
          let fresh = NewTranslator (t_threadID t) w;
              fresh = (if t_nativeTurnID t = [] then fresh else fresh\<lparr>t_nativeTurnID := iv_TurnID iv\<rparr>)
          in case restore_child_events env w fss (Node (fresh\<lparr>t_started := True, t_seeded := True\<rparr>) []) of
               None \<Rightarrow> None
             | Some n \<Rightarrow> Some (w, Subagent iv (on_tr (\<lambda>u. u\<lparr>t_messages := t_messages t\<rparr>) n) st d))"

definition RestoreTranslator :: "tr_env \<Rightarrow> string \<Rightarrow> string \<Rightarrow> obj list \<Rightarrow> Node option" where
  "RestoreTranslator env threadID runID fss =
     (case restore_events env fss (Node (NewTranslator threadID runID) []) of
        None \<Rightarrow> None
      | Some n \<Rightarrow>
          (let t = (nd_tr n)\<lparr>t_seeded := True\<rparr>
           in case map_all (restore_child env fss t) (nd_children n) of
                None \<Rightarrow> None
              | Some cs \<Rightarrow> Some (Node t cs)))"

end
