(* ===== verification/AguiTranslate.thy ===== *)
theory AguiTranslate
  imports AguiCapture
begin

text \<open>
  From a runtime event to AG-UI events: \<open>Translate\<close> and the presentations beside the lanes
  (\<open>protocol/agui/translator.go\<close>, \<open>translator_presentation.go\<close>), the bridge for standard events
  (\<open>translator_model.go\<close>, \<open>translator_approval_receipt.go\<close>) and the subagents (\<open>translator_subagent.go\<close>). What the
  source says of an error of a library is the text \<open>library_error\<close>. \<open>None\<close> is a Go panic.
\<close>

section \<open>Presentations\<close>

definition presentationActivity ::
  "tr_env \<Rightarrow> string \<Rightarrow> string \<Rightarrow> obj \<Rightarrow> Translator \<Rightarrow> tevent list \<times> Translator" where
  "presentationActivity env kind i content t =
     (if i = [] then ([], t)
      else
        let content = put ''version'' (JStr ''1'') content
        in if \<not> ok_presentation env kind content
           then Fail env ''Native presentation descriptor is invalid'' ''INVALID_PRESENTATION'' t
           else ([standardEvent [(''type'', JStr ''ACTIVITY_SNAPSHOT''), (''messageId'', JStr i),
                                 (''activityType'', JStr kind), (''content'', JObj content), (''replace'', JBool True)]], t))"

definition turn_status :: "Native \<Rightarrow> string" where
  "turn_status e =
     entry_or (n_Status e) (n_Type e)
       [(''turn_started'', ''running''), (''turn_queued'', ''queued''), (''turn_completed'', ''completed''),
        (''turn_canceled'', ''canceled''), (''turn_failed'', ''failed'')]"

definition turnPresentation :: "tr_env \<Rightarrow> Native \<Rightarrow> Translator \<Rightarrow> tevent list \<times> Translator" where
  "turnPresentation env e t =
     (if n_TurnID e = [] then ([], t)
      else presentationActivity env ''agently.turn'' (n_TurnID e @ ''/turn'')
             ([(''nativeTurnId'', JStr (n_TurnID e)), (''status'', JStr (turn_status e)),
               (''queueSequence'', JStr (int_str (n_QueueSeq e)))]
              @ smem ''startedByMessageId'' (n_StartedByMessageID e) @ smem ''origin'' (n_QueueOrigin e)
              @ smem ''goalId'' (n_GoalID e) @ smem ''statusReason'' (n_StatusReason e)) t)"

definition feedPresentation :: "tr_env \<Rightarrow> Native \<Rightarrow> Translator \<Rightarrow> tevent list \<times> Translator" where
  "feedPresentation env e t =
     (let f = n_Feed e
      in if fd_ID f = [] then ([], t)
         else presentationActivity env ''agently.feed'' (n_ConversationID e @ ''/feed/'' @ fd_ID f @ ''/activity'')
                ([(''feedId'', JStr (fd_ID f)), (''active'', JBool (n_Type e \<noteq> ''tool_feed_inactive'')),
                  (''title'', JStr (fd_Title f)), (''developerOnly'', JBool (fd_DeveloperOnly f)),
                  (''itemCount'', num (fd_ItemCount f))]
                 @ (if fd_Icon f = [] \<and> fd_Accent f = [] \<and> fd_Target f = [] then []
                    else [(''presentation'', JObj [(''icon'', JStr (fd_Icon f)), (''accent'', JStr (fd_Accent f)),
                                                   (''target'', JStr (fd_Target f))])])
                 @ (case fd_Data f of None \<Rightarrow> [] | Some v \<Rightarrow> [(''data'', v)])) t)"

definition plannedToolsPresentation :: "tr_env \<Rightarrow> Native \<Rightarrow> Translator \<Rightarrow> tevent list \<times> Translator" where
  "plannedToolsPresentation env e t =
     (let i = str_or (n_PageID e) (str_or (n_AssistantMessageID e) (n_MessageID e))
      in if n_ToolCallsPlanned e = [] \<or> i = [] then ([], t)
         else presentationActivity env ''agently.tools-planned'' (i @ ''/planned-tools'')
                [(''calls'', JArr (map (\<lambda>c. JObj [(''toolCallId'', JStr (toolID t (n_TurnID e) (pc_ToolCallID c))),
                                                  (''toolName'', JStr (pc_ToolName c))]) (n_ToolCallsPlanned e)))] t)"

definition plannerPresentation :: "tr_env \<Rightarrow> Native \<Rightarrow> Translator \<Rightarrow> tevent list \<times> Translator" where
  "plannerPresentation env e t =
     (let p = n_Planner e
      in if n_TurnID e = [] then ([], t)
         else presentationActivity env ''agently.planner'' (n_TurnID e @ ''/planner'')
                ([(''status'', JStr (trim_prefix ''planner.'' (n_Type e))), (''attempt'', num (pl_Attempt p)),
                  (''trigger'', JStr (pl_Trigger p)), (''staticProfile'', JStr (pl_StaticProfile p)),
                  (''strategyFamily'', JStr (pl_StrategyFamily p)), (''secondPolicy'', JStr (pl_SecondPolicy p))]
                 @ smem ''outputPayloadId'' (pl_OutputPayloadID p)
                 @ (case pl_Validated p of None \<Rightarrow> [] | Some b \<Rightarrow> [(''validated'', JBool b)])) t)"

definition narrationPresentation :: "tr_env \<Rightarrow> Native \<Rightarrow> Translator \<Rightarrow> tevent list \<times> Translator" where
  "narrationPresentation env e t =
     (let i = str_or (n_MessageID e) (str_or (n_AssistantMessageID e) (n_ToolMessageID e))
      in if i = [] then ([], t)
         else presentationActivity env ''agently.narration'' (i @ ''/narration'')
                [(''text'', JStr (str_or (n_Content e) (n_Narration e))), (''source'', JStr (n_NarrationSource e)),
                 (''status'', JStr (n_Status e)), (''toolCallId'', JStr (toolID t (n_TurnID e) (n_ToolCallID e)))] t)"

definition aggregateUsagePresentation :: "Native \<Rightarrow> tevent list" where
  "aggregateUsagePresentation e =
     (let scope = (case n_Usage e of None \<Rightarrow> [] | Some u \<Rightarrow> uz_Scope u);
          usage = (case n_Usage e of
                     None \<Rightarrow> [(''inputTokens'', num (n_UsageInputTokens e)), (''outputTokens'', num (n_UsageOutputTokens e)),
                              (''embeddingTokens'', num (n_UsageEmbeddingTokens e)),
                              (''totalTokens'', num (n_UsageTotalTokens e))]
                   | Some u \<Rightarrow> usage_members u)
      in if scope = ''model_call'' then []
         else [custom_event ''agently.usage''
                 (JObj [(''version'', JStr ''1''), (''scope'', JStr (str_or scope ''conversation'')),
                        (''nativeTurnId'', JStr (n_TurnID e)), (''usage'', JObj usage)])])"

text \<open>Two presentations are written the same; their members are strings.\<close>

definition same_members :: "obj \<Rightarrow> obj \<Rightarrow> bool" where
  "same_members a b \<longleftrightarrow> list_all (\<lambda>k. map_of a k = map_of b k) (map fst a @ map fst b)"

definition execution_status :: "Native \<Rightarrow> bool \<Rightarrow> string" where
  "execution_status e waiting =
     (if n_Status e \<noteq> [] then n_Status e
      else if waiting then ''waiting_for_user''
      else entry_or [] (n_Type e)
             [(''tool_call_started'', ''running''), (''tool_call_completed'', ''completed''),
              (''tool_call_failed'', ''failed''), (''tool_call_canceled'', ''canceled'')])"

definition execution_value :: "tr_env \<Rightarrow> Native \<Rightarrow> bool \<Rightarrow> string \<Rightarrow> obj \<Rightarrow> obj" where
  "execution_value env e waiting i before =
     fold (\<lambda>kv. put (fst kv) (snd kv))
       ([(''toolCallId'', JStr i), (''phase'', JStr (if waiting then ''waiting'' else ''execution'')),
         (''status'', JStr (execution_status e waiting)), (''version'', JStr ''1'')]
        @ smem ''toolMessageId'' (n_ToolMessageID e)
        @ (if waiting then [] else time_member env ''startedAt'' (n_StartedAt e))
        @ (if waiting then [] else time_member env ''completedAt'' (n_CompletedAt e))) before"

definition toolExecutionPresentation :: "tr_env \<Rightarrow> Native \<Rightarrow> Translator \<Rightarrow> tevent list \<times> Translator" where
  "toolExecutionPresentation env e t =
     (let waiting = (n_Type e = ''tool_call_waiting'' \<or> ToolStatusPending (n_Status e));
          i = toolID t (n_TurnID e) (n_ToolCallID e);
          state = map_of (t_tools t) i;
          before = (case state of None \<Rightarrow> None | Some s \<Rightarrow> tl_presentation s);
          v = execution_value env e waiting i (case before of None \<Rightarrow> [] | Some b \<Rightarrow> b)
      in if n_ToolCallID e = [] then ([], t)
         else if \<not> waiting \<and> n_ToolMessageID e = [] \<and> n_StartedAt e = None \<and> n_CompletedAt e = None \<and> n_OperationID e = []
         then ([], t)
         else if (case before of None \<Rightarrow> False | Some b \<Rightarrow> same_members b v) then ([], t)
         else presentationActivity env ''agently.tool'' (i @ ''/execution'') v
                (on_tool i (\<lambda>s. s\<lparr>tl_presentation := Some v\<rparr>) t))"

definition renderedActivity :: "Native \<Rightarrow> tevent list" where
  "renderedActivity e =
     (let i = str_or (n_AssistantMessageID e) (str_or (n_MessageID e) (n_ID e)); f = n_Feed e
      in if i = [] then []
         else case n_RenderedContent e of
                Some v \<Rightarrow>
                  [standardEvent [(''type'', JStr ''ACTIVITY_SNAPSHOT''), (''messageId'', JStr (i @ ''/activity'')),
                                  (''activityType'', JStr ''agently.rendered-content''),
                                  (''content'', JObj [(''version'', JStr ''1''), (''renderedContent'', v)])]]
              | None \<Rightarrow>
                  (case fd_Data f of
                     None \<Rightarrow> []
                   | Some v \<Rightarrow>
                       if TrimSpace (fd_ID f) = [] \<or> n_Type e \<in> set [''tool_feed_active'', ''tool_feed_inactive''] then []
                       else [standardEvent
                               [(''type'', JStr ''ACTIVITY_SNAPSHOT''), (''messageId'', JStr (fd_ID f @ ''/activity'')),
                                (''activityType'', JStr ''agently.feed''),
                                (''content'', JObj [(''version'', JStr ''1''), (''feedId'', JStr (fd_ID f)), (''data'', v)])]]))"


section \<open>Reserved identities\<close>

text \<open>\<open>reservedNativePresentationEvent\<close> decodes what it reads; what does not decode is not reserved.\<close>

definition object_ok :: "obj \<Rightarrow> string \<Rightarrow> bool" where
  "object_ok ob k \<longleftrightarrow> (case map_of ob k of None \<Rightarrow> True | Some JNull \<Rightarrow> True | Some (JObj _) \<Rightarrow> True | _ \<Rightarrow> False)"

definition array_ok :: "obj \<Rightarrow> string \<Rightarrow> (json \<Rightarrow> bool) \<Rightarrow> bool" where
  "array_ok ob k P \<longleftrightarrow>
     (case map_of ob k of None \<Rightarrow> True | Some JNull \<Rightarrow> True | Some (JArr vs) \<Rightarrow> list_all P vs | _ \<Rightarrow> False)"

definition elements :: "obj \<Rightarrow> string \<Rightarrow> json list" where
  "elements ob k = (case map_of ob k of Some (JArr vs) \<Rightarrow> vs | _ \<Rightarrow> [])"

definition reserved_metadata :: "obj \<Rightarrow> bool" where
  "reserved_metadata ob \<longleftrightarrow>
     list_ex (has_key (members_or_empty (members_or_empty ob ''metadata'') ''agently''))
       [''presentation'', ''identityVersion'', ''nativeTurnId'']"

definition native_activities :: "string list" where
  "native_activities =
     [''agently.turn'', ''agently.tool'', ''agently.feed'', ''agently.planner'', ''agently.tools-planned'',
      ''agently.narration'', ''agently.user-identity'']"

definition reserved_call :: "json \<Rightarrow> bool" where
  "reserved_call v \<longleftrightarrow> reserved_metadata (call_obj v)"

definition reserved_message :: "json \<Rightarrow> bool" where
  "reserved_message v \<longleftrightarrow>
     (let m = call_obj v
      in strings_ok m [''role'', ''activityType''] \<and> object_ok m ''metadata''
         \<and> array_ok m ''toolCalls'' (\<lambda>c. (case c of JObj ob \<Rightarrow> object_ok ob ''metadata'' | JNull \<Rightarrow> True | _ \<Rightarrow> False))
         \<and> (case v of JObj _ \<Rightarrow> True | _ \<Rightarrow> False)
         \<and> (reserved_metadata m \<or> field m ''activityType'' \<in> set native_activities
            \<or> list_ex reserved_call (elements m ''toolCalls'')))"

definition reservedNativePresentationEvent :: "obj \<Rightarrow> bool" where
  "reservedNativePresentationEvent fs \<longleftrightarrow>
     strings_ok fs [''type'', ''name'', ''activityType''] \<and> object_ok fs ''metadata'' \<and> array_ok fs ''messages'' (\<lambda>_. True)
     \<and> (reserved_metadata fs
        \<or> (field fs ''type'' = ''MESSAGES_SNAPSHOT'' \<and> list_ex reserved_message (elements fs ''messages''))
        \<or> (field fs ''type'' \<in> set [''ACTIVITY_SNAPSHOT'', ''ACTIVITY_DELTA'']
           \<and> field fs ''activityType'' \<in> set native_activities)
        \<or> (field fs ''type'' = ''CUSTOM''
           \<and> field fs ''name'' \<in> set [''agently.queue'', ''agently.progress'', ''agently.linked-conversation'',
                                     ''agently.usage'']))"

definition reservedInvocationEvent :: "obj \<Rightarrow> bool" where
  "reservedInvocationEvent fs \<longleftrightarrow>
     (let metadata = members_or_empty fs ''metadata''; agently = members_or_empty metadata ''agently''
      in strings_ok fs [''type'', ''name''] \<and> object_ok fs ''metadata'' \<and> object_ok metadata ''agently''
         \<and> ((field fs ''type'' = ''CUSTOM'' \<and> field fs ''name'' = ''agently.invocation'')
            \<or> has_key agently ''invocation''))"

definition lifecycle_types :: "string list" where
  "lifecycle_types = [''RUN_STARTED'', ''RUN_FINISHED'', ''RUN_ERROR'']"

text \<open>A standard event of the runtime: an event to write, or the message of a failure.\<close>

definition protocol_event :: "tr_env \<Rightarrow> bool \<Rightarrow> obj \<Rightarrow> string + tevent" where
  "protocol_event env trusted raw =
     (if \<not> trusted \<and> reservedNativePresentationEvent raw
      then Inl ''Native presentation identity belongs to trusted producers''
      else if reservedInvocationEvent raw then Inl ''Native invocation ancestry belongs to trusted registration''
      else case StandardEvent env raw of
             None \<Rightarrow> Inl library_error
           | Some ev \<Rightarrow>
               if field raw ''type'' \<in> set lifecycle_types then Inl ''Runtime bridge cannot control run lifecycle''
               else Inr ev)"

section \<open>Translate\<close>

definition close_item :: "Native \<Rightarrow> string \<Rightarrow> Translator \<Rightarrow> tevent list \<times> Translator" where
  "close_item e i t =
     andThen (closeReasoningItem (n_ReasoningMessageID e) t)
       (\<lambda>t. case map_of (t_texts t) i of
              None \<Rightarrow> ([], t)
            | Some s \<Rightarrow>
                if tx_ended s then ([], t)
                else ([plain_event [(''type'', JStr ''TEXT_MESSAGE_END''), (''messageId'', JStr i)]],
                      t\<lparr>t_texts := AList.update i (s\<lparr>tx_ended := True\<rparr>) (t_texts t)\<rparr>))"

definition linked_event :: "Native \<Rightarrow> string \<Rightarrow> Translator \<Rightarrow> tevent" where
  "linked_event e i t =
     custom_event ''agently.linked-conversation''
       (JObj [(''version'', JStr ''1''), (''conversationId'', JStr (n_LinkedConversationID e)),
              (''agentId'', JStr (n_LinkedConversationAgentID e)), (''title'', JStr (n_LinkedConversationTitle e)),
              (''parentToolCallId'', JStr (toolID t (n_TurnID e) (n_ToolCallID e))), (''parentMessageId'', JStr i)])"

definition queue_event :: "Native \<Rightarrow> tevent" where
  "queue_event e =
     custom_event ''agently.queue''
       (JObj ([(''version'', JStr ''1'')] @ smem ''turnId'' (n_TurnID e) @ smem ''sequence'' (int_str (n_QueueSeq e))
              @ smem ''origin'' (n_QueueOrigin e) @ smem ''startedByMessageId'' (n_StartedByMessageID e)))"

definition progress_event :: "Native \<Rightarrow> string \<Rightarrow> Translator \<Rightarrow> tevent" where
  "progress_event e i t =
     custom_event ''agently.progress''
       (JObj ([(''version'', JStr ''1''), (''kind'', JStr (n_Type e))] @ smem ''messageId'' i
              @ smem ''toolCallId'' (toolID t (n_TurnID e) (n_ToolCallID e)) @ smem ''status'' (n_Status e)
              @ smem ''content'' (n_Content e) @ smem ''source'' (n_NarrationSource e)))"

definition from_assistant :: "Native \<Rightarrow> bool" where
  "from_assistant e \<longleftrightarrow>
     (case map_of (n_Patch e) ''role'' of Some (JStr r) \<Rightarrow> r = ''assistant'' | _ \<Rightarrow> True)"

definition tool_types :: "string list" where
  "tool_types = [''tool_call_started'', ''tool_call_delta'', ''tool_call_completed'', ''tool_call_failed'',
                 ''tool_call_canceled'']"

text \<open>The \<open>switch\<close> of \<open>translate\<close>; \<open>known\<close> says that the result of the call was there before.\<close>

definition native_events ::
  "tr_env \<Rightarrow> bool \<Rightarrow> Native \<Rightarrow> string \<Rightarrow> Translator \<Rightarrow> tevent list \<times> Translator" where
  "native_events env known e i t =
     (let ty = n_Type e
      in if ty = ''turn_started'' then turnPresentation env e t
         else if ty = ''turn_completed'' then andThen (turnPresentation env e t) (Finish env ''success'')
         else if ty = ''turn_canceled'' then andThen (turnPresentation env e t) (Finish env ''cancelled'')
         else if ty = ''turn_failed'' then andThen (turnPresentation env e t) (Fail env (n_Error e) ''AGENT_ERROR'')
         else if ty = ''error'' then Fail env (n_Error e) ''AGENT_ERROR'' t
         else if ty = ''text_delta''
         then text_event env i (n_Content e) (n_ContentMode e = ''snapshot'') (n_ContentOffset e) t
         else if ty = ''assistant''
         then (if from_assistant e then text_event env i (n_Content e) True None t else ([], t))
         else if ty = ''item_completed'' then close_item e i t
         else if ty \<in> set tool_types
         then andThen (tool_event env e t) (\<lambda>t. if known then ([], t) else toolExecutionPresentation env e t)
         else if ty \<in> set [''reasoning_delta'', ''reasoning_encrypted_value''] then reasoning_event e t
         else if ty = ''model_started'' then modelStep env e False t
         else if ty = ''model_completed'' then modelStep env e True t
         else if ty = ''usage''
         then andThen (record_usage_event e (modelIdentity e) t) (\<lambda>t. (aggregateUsagePresentation e, t))
         else if ty \<in> set [''tool_feed_active'', ''tool_feed_inactive''] then feedPresentation env e t
         else if ty = ''tool_calls_planned'' then plannedToolsPresentation env e t
         else if ty \<in> set [''planner.selected'', ''planner.output'', ''planner.validated'', ''planner.failed'']
         then plannerPresentation env e t
         else if ty = ''linked_conversation_attached'' then ([linked_event e i t], t)
         else if ty = ''turn_queued'' then andThen ([queue_event e], t) (turnPresentation env e)
         else if ty = ''narration'' then andThen ([progress_event e i t], t) (narrationPresentation env e)
         else if ty = ''tool_call_waiting'' then andThen ([progress_event e i t], t) (toolExecutionPresentation env e)
         else ([], t))"

text \<open>Messages of internal lanes are not shown: an event is dropped (\<open>None\<close>) or loses its content.\<close>

definition base_id :: "Native \<Rightarrow> string" where
  "base_id e = str_or (n_AssistantMessageID e) (n_MessageID e)"

definition note_internal :: "Native \<Rightarrow> Translator \<Rightarrow> Translator" where
  "note_internal e t =
     (if IsInternalMessageMode (n_Mode e) \<and> base_id e \<noteq> []
      then t\<lparr>t_internalMessages := List.insert (base_id e) (t_internalMessages t)\<rparr> else t)"

definition visible_event :: "Native \<Rightarrow> Translator \<Rightarrow> Native option" where
  "visible_event e t =
     (if \<not> IsInternalMessageMode (n_Mode e) \<and> base_id e \<notin> set (t_internalMessages t) then Some e
      else if n_Type e \<in> set [''text_delta'', ''item_completed'', ''reasoning_delta''] then None
      else if n_Type e = ''assistant''
      then (if map_of (n_Patch e) ''role'' = Some (JStr ''user'') then Some e else None)
      else if n_Type e = ''model_completed''
      then Some (e\<lparr>n_Content := [], n_Narration := [], n_RenderedContent := None\<rparr>)
      else Some e)"

definition fail_node :: "tr_env \<Rightarrow> string \<Rightarrow> string \<Rightarrow> tevent list \<Rightarrow> Node \<Rightarrow> (tevent list \<times> Node) option" where
  "fail_node env msg code out n =
     (case Fail env msg code (nd_tr n) of (es, t) \<Rightarrow> Some (out @ es, Node t (nd_children n)))"

text \<open>The events of a call are stamped, captured, and written unless the history has an error.\<close>

definition publish_events ::
  "tr_env \<Rightarrow> Native \<Rightarrow> tevent list \<Rightarrow> tevent list \<times> Translator \<Rightarrow> Node \<Rightarrow> (tevent list \<times> Node) option" where
  "publish_events env e out r n =
     (case r of (es, t) \<Rightarrow>
        let es = map (stamp env e) (es @ (if t_done t then [] else renderedActivity e))
        in case capture env es (Node t (nd_children n)) of
             None \<Rightarrow> None
           | Some n \<Rightarrow>
               (case t_historyErr (nd_tr n) of
                  Some err \<Rightarrow> fail_node env err ''INVALID_NATIVE_SOURCE'' out n
                | None \<Rightarrow> Some (out @ es, n)))"

definition translate :: "tr_env \<Rightarrow> bool \<Rightarrow> Native \<Rightarrow> Node \<Rightarrow> (tevent list \<times> Node) option" where
  "translate env trusted e n =
     (let t = nd_tr n
      in if t_done t then Some ([], n)
         else if 0 < n_EventSeq e \<and> n_EventSeq e \<in> set (t_seen t) then Some ([], n)
         else
           let t = (if 0 < n_EventSeq e then t\<lparr>t_seen := n_EventSeq e # t_seen t\<rparr> else t);
               (out, t) = Start t
           in if n_Type e \<noteq> ''protocol_event'' \<and> \<not> ok_presentation env ''Presentation'' (nativePresentation env e)
              then fail_node env ''Native presentation metadata is invalid'' ''INVALID_PRESENTATION'' out
                     (Node t (nd_children n))
              else
                let t = note_internal e t; n = Node t (nd_children n)
                in case visible_event e t of
                     None \<Rightarrow> Some (out, n)
                   | Some e \<Rightarrow>
                       if n_Type e = ''protocol_event''
                       then (case protocol_event env trusted (n_ProtocolEvent e) of
                               Inl msg \<Rightarrow> fail_node env msg ''INVALID_PROTOCOL_EVENT'' out n
                             | Inr ev \<Rightarrow> publish_events env e out ([ev], t) n)
                       else publish_events env e out
                              (native_events env (HasToolResult n (toolID t (n_TurnID e) (n_ToolCallID e))) e
                                 (str_or (base_id e) (n_ID e)) t) n)"

definition Translate :: "tr_env \<Rightarrow> Native \<Rightarrow> Node \<Rightarrow> (tevent list \<times> Node) option" where
  "Translate env e n = translate env False e n"

text \<open>\<open>CompleteText\<close>: its events are not stamped, and an error of the history does not show.\<close>

definition CompleteText :: "tr_env \<Rightarrow> string \<Rightarrow> string \<Rightarrow> Node \<Rightarrow> (tevent list \<times> Node) option" where
  "CompleteText env i content n =
     (if t_done (nd_tr n) then Some ([], n)
      else
        let (out, t) = Start (nd_tr n); (es, t) = text_event env i content True None t
        in map_option (\<lambda>n. (out @ es, n)) (capture env es (Node t (nd_children n))))"

end
