(* ===== verification/AguiLanes.thy ===== *)
theory AguiLanes
  imports AguiTranslate AguiProtocol
begin

text \<open>
  The lanes of a translator as a state of the AG-UI protocol of \<open>AguiProtocol\<close>. Every operation that does not fail
  writes a run of that protocol from the state of its lanes before to the state after; the end of a run closes
  everything it opened. A failure of the translator itself is told apart, because it may drop events it has advanced
  its lanes for.
\<close>

section \<open>Lanes as a protocol state\<close>

definition live_streams :: "Translator \<Rightarrow> (stream \<times> string) set" where
  "live_streams t =
     {(k, i). case k of
        TextStream \<Rightarrow> \<exists>s. map_of (t_texts t) i = Some s \<and> \<not> tx_ended s
      | ThoughtStream \<Rightarrow> \<exists>s. map_of (t_reasonings t) i = Some s \<and> \<not> rs_ended s
      | CallStream \<Rightarrow> \<exists>s. map_of (t_tools t) i = Some s \<and> \<not> tl_ended s
      | SpanStream \<Rightarrow> map_of (t_reasoningSpans t) i = Some True}"

definition live_steps :: "Translator \<Rightarrow> (string \<times> string) set" where
  "live_steps t = {k. \<exists>i s. map_of (t_steps t) i = Some s \<and> \<not> sp_ended s \<and> k = (''parent:'', sp_name s)}"

text \<open>A translator has no subagents of its own (a \<open>Node\<close> has), so none is open in its state. The theorems on journals
  are about \<open>Translate\<close> alone, which starts none (\<open>AguiRunProps.wire_node_of_run\<close>).\<close>

definition wire_tr :: "Translator \<Rightarrow> wire" where
  "wire_tr t =
     \<lparr>w_running = (t_started t \<and> \<not> t_done t), w_errored = False, w_ident = (t_threadID t, t_runID t),
      w_open = live_streams t, w_steps = live_steps t, w_subagents = Map.empty\<rparr>"

text \<open>Everything open is on the list that closes it, steps have the names of their calls, and an open span belongs
  to a thought.\<close>

definition orders_known :: "Translator \<Rightarrow> bool" where
  "orders_known t \<longleftrightarrow>
     (\<forall>i s. map_of (t_texts t) i = Some s \<longrightarrow> i \<in> set (t_textOrder t))
     \<and> (\<forall>i s. map_of (t_tools t) i = Some s \<and> \<not> tl_ended s \<longrightarrow> i \<in> set (t_toolOrder t))
     \<and> (\<forall>i s. map_of (t_reasonings t) i = Some s \<longrightarrow> i \<in> set (t_reasoningOrder t))
     \<and> (\<forall>i s. map_of (t_steps t) i = Some s \<longrightarrow>
          i \<in> set (t_stepOrder t) \<and> sp_name s = ''model/'' @ i \<and> sp_subagent s = [])
     \<and> (\<forall>i \<in> set (t_textOrder t). map_of (t_texts t) i \<noteq> None)
     \<and> (\<forall>i \<in> set (t_toolOrder t). map_of (t_tools t) i \<noteq> None)
     \<and> (\<forall>i \<in> set (t_reasoningOrder t). map_of (t_reasonings t) i \<noteq> None)
     \<and> (\<forall>i \<in> set (t_stepOrder t). map_of (t_steps t) i \<noteq> None)"

definition spans_known :: "Translator \<Rightarrow> bool" where
  "spans_known t \<longleftrightarrow>
     distinct (keys (t_reasonings t))
     \<and> (\<forall>p. map_of (t_reasoningSpans t) p = Some True \<longrightarrow> (\<exists>i s. map_of (t_reasonings t) i = Some s \<and> rs_span s = p))"

definition lanes_known :: "Translator \<Rightarrow> bool" where
  "lanes_known t \<longleftrightarrow> orders_known t \<and> spans_known t
     \<and> (\<not> t_started t \<longrightarrow> live_streams t = {} \<and> live_steps t = {})"

definition live :: "Translator \<Rightarrow> bool" where
  "live t \<longleftrightarrow> lanes_known t \<and> t_started t \<and> \<not> t_done t"

lemma live_streams_iff [simp]:
  "(TextStream, i) \<in> live_streams t \<longleftrightarrow> (\<exists>s. map_of (t_texts t) i = Some s \<and> \<not> tx_ended s)"
  "(ThoughtStream, i) \<in> live_streams t \<longleftrightarrow> (\<exists>s. map_of (t_reasonings t) i = Some s \<and> \<not> rs_ended s)"
  "(CallStream, i) \<in> live_streams t \<longleftrightarrow> (\<exists>s. map_of (t_tools t) i = Some s \<and> \<not> tl_ended s)"
  "(SpanStream, i) \<in> live_streams t \<longleftrightarrow> map_of (t_reasoningSpans t) i = Some True"
  by (simp_all add: live_streams_def)

lemma streams_eqI:
  fixes A B :: "(stream \<times> string) set"
  assumes "\<And>i. (TextStream, i) \<in> A \<longleftrightarrow> (TextStream, i) \<in> B"
    "\<And>i. (ThoughtStream, i) \<in> A \<longleftrightarrow> (ThoughtStream, i) \<in> B"
    "\<And>i. (CallStream, i) \<in> A \<longleftrightarrow> (CallStream, i) \<in> B"
    "\<And>i. (SpanStream, i) \<in> A \<longleftrightarrow> (SpanStream, i) \<in> B"
  shows "A = B"
proof (rule set_eqI)
  fix x :: "stream \<times> string"
  obtain k i where "x = (k, i)" by (cases x)
  then show "x \<in> A \<longleftrightarrow> x \<in> B" using assms by (cases k) auto
qed

named_theorems lane_simps \<open>how the update of a lane shows\<close>

lemma lane_update [lane_simps]:
  "live_streams (t\<lparr>t_texts := AList.update i s (t_texts t)\<rparr>) =
     (if tx_ended s then live_streams t - {(TextStream, i)} else insert (TextStream, i) (live_streams t))"
  "live_streams (t\<lparr>t_reasonings := AList.update i r (t_reasonings t)\<rparr>) =
     (if rs_ended r then live_streams t - {(ThoughtStream, i)} else insert (ThoughtStream, i) (live_streams t))"
  "live_streams (t\<lparr>t_tools := AList.update i u (t_tools t)\<rparr>) =
     (if tl_ended u then live_streams t - {(CallStream, i)} else insert (CallStream, i) (live_streams t))"
  "live_streams (t\<lparr>t_reasoningSpans := AList.update i b (t_reasoningSpans t)\<rparr>) =
     (if b then insert (SpanStream, i) (live_streams t) else live_streams t - {(SpanStream, i)})"
  by (rule streams_eqI; auto simp: update_conv')+

text \<open>The fields the lanes do not depend on.\<close>

lemma live_streams_cong:
  assumes "t_texts t = t_texts u" "t_reasonings t = t_reasonings u" "t_tools t = t_tools u"
    "t_reasoningSpans t = t_reasoningSpans u"
  shows "live_streams t = live_streams u"
  using assms by (intro streams_eqI) simp_all

lemma live_steps_cong: "t_steps t = t_steps u \<Longrightarrow> live_steps t = live_steps u"
  by (simp add: live_steps_def)

lemma live_steps_update [lane_simps]:
  assumes "\<And>j r. map_of (t_steps t) j = Some r \<Longrightarrow> sp_name r = ''model/'' @ j" "sp_name s = ''model/'' @ i"
  shows "live_steps (t\<lparr>t_steps := AList.update i s (t_steps t)\<rparr>) =
     (if sp_ended s then live_steps t - {(''parent:'', ''model/'' @ i)}
      else insert (''parent:'', ''model/'' @ i) (live_steps t))"
  using assms by (auto simp: live_steps_def update_conv' split: if_splits)

section \<open>Steps of the protocol\<close>

lemma field_Cons [simp]:
  "field ((k, v) # ob) k' = (if k = k' then (case v of JStr s \<Rightarrow> s | _ \<Rightarrow> []) else field ob k')"
  by (auto simp: field_def split: json.splits)

lemma field_Nil [simp]: "field [] k = []"
  by (simp add: field_def)

lemma field_append: "map_of a k = None \<Longrightarrow> field (a @ b) k = field b k"
  by (simp add: field_def map_add_def split: option.splits)

lemma field_smem [simp]: "field (smem k s @ ob) k' = (if k = k' \<and> s \<noteq> [] then s else field ob k')"
  by (auto simp: smem_def)

lemma field_smem_end [simp]: "field (smem k s) k' = (if k = k' then s else [])"
  by (auto simp: smem_def)

lemma type_codes:
  "start_types = [(''TEXT_MESSAGE_START'', TextStream), (''REASONING_MESSAGE_START'', ThoughtStream),
      (''TOOL_CALL_START'', CallStream), (''REASONING_START'', SpanStream)]"
  by (simp add: start_types_def)

text \<open>One event that opens, writes or closes a stream.\<close>

lemma wire_one: "wire_step w e v \<Longrightarrow> wire_run w [e] v"
  by (auto intro: wire_run.intros)

lemma wire_opens:
  "opens e = Some s \<Longrightarrow> w_running w \<Longrightarrow> s \<notin> w_open w \<Longrightarrow> v = w\<lparr>w_open := insert s (w_open w)\<rparr> \<Longrightarrow> wire_run w [e] v"
  by (auto intro: wire_one wire_step.intros)

lemma wire_writes: "writes e = Some s \<Longrightarrow> w_running w \<Longrightarrow> s \<in> w_open w \<Longrightarrow> v = w \<Longrightarrow> wire_run w [e] v"
  by (auto intro: wire_one wire_step.intros)

lemma wire_closes:
  "closes e = Some s \<Longrightarrow> w_running w \<Longrightarrow> s \<in> w_open w \<Longrightarrow> v = w\<lparr>w_open := w_open w - {s}\<rparr> \<Longrightarrow> wire_run w [e] v"
  by (auto intro: wire_one wire_step.intros)

lemma wire_beside: "event_type e \<in> set other_types \<Longrightarrow> w_running w \<Longrightarrow> v = w \<Longrightarrow> wire_run w [e] v"
  by (auto intro: wire_one wire_step.intros)


lemma live_streams_other [lane_simps]:
  "live_streams (t\<lparr>t_started := x0\<rparr>) = live_streams t"
  "live_streams (t\<lparr>t_done := x1\<rparr>) = live_streams t"
  "live_streams (t\<lparr>t_seen := x2\<rparr>) = live_streams t"
  "live_streams (t\<lparr>t_internalMessages := x3\<rparr>) = live_streams t"
  "live_streams (t\<lparr>t_messages := x4\<rparr>) = live_streams t"
  "live_streams (t\<lparr>t_textOrder := x5\<rparr>) = live_streams t"
  "live_streams (t\<lparr>t_toolOrder := x6\<rparr>) = live_streams t"
  "live_streams (t\<lparr>t_reasoningOrder := x7\<rparr>) = live_streams t"
  "live_streams (t\<lparr>t_stepOrder := x8\<rparr>) = live_streams t"
  "live_streams (t\<lparr>t_activeModel := x9\<rparr>) = live_streams t"
  "live_streams (t\<lparr>t_usage := x10\<rparr>) = live_streams t"
  "live_streams (t\<lparr>t_historyErr := x11\<rparr>) = live_streams t"
  "live_streams (t\<lparr>t_seeded := x12\<rparr>) = live_streams t"
  "live_streams (t\<lparr>t_nativeTurnID := x13\<rparr>) = live_streams t"
  "live_streams (t\<lparr>t_steps := x14\<rparr>) = live_streams t"
  by (rule live_streams_cong; simp)+

lemma live_steps_other [lane_simps]:
  "live_steps (t\<lparr>t_started := x0\<rparr>) = live_steps t"
  "live_steps (t\<lparr>t_done := x1\<rparr>) = live_steps t"
  "live_steps (t\<lparr>t_seen := x2\<rparr>) = live_steps t"
  "live_steps (t\<lparr>t_internalMessages := x3\<rparr>) = live_steps t"
  "live_steps (t\<lparr>t_messages := x4\<rparr>) = live_steps t"
  "live_steps (t\<lparr>t_textOrder := x5\<rparr>) = live_steps t"
  "live_steps (t\<lparr>t_toolOrder := x6\<rparr>) = live_steps t"
  "live_steps (t\<lparr>t_reasoningOrder := x7\<rparr>) = live_steps t"
  "live_steps (t\<lparr>t_stepOrder := x8\<rparr>) = live_steps t"
  "live_steps (t\<lparr>t_activeModel := x9\<rparr>) = live_steps t"
  "live_steps (t\<lparr>t_usage := x10\<rparr>) = live_steps t"
  "live_steps (t\<lparr>t_historyErr := x11\<rparr>) = live_steps t"
  "live_steps (t\<lparr>t_seeded := x12\<rparr>) = live_steps t"
  "live_steps (t\<lparr>t_nativeTurnID := x13\<rparr>) = live_steps t"
  "live_steps (t\<lparr>t_texts := x14\<rparr>) = live_steps t"
  "live_steps (t\<lparr>t_tools := x15\<rparr>) = live_steps t"
  "live_steps (t\<lparr>t_reasonings := x16\<rparr>) = live_steps t"
  "live_steps (t\<lparr>t_reasoningSpans := x17\<rparr>) = live_steps t"
  by (rule live_steps_cong; simp)+

section \<open>Operations that advance the lanes\<close>

definition is_rejection :: "tevent \<Rightarrow> bool" where
  "is_rejection v \<longleftrightarrow>
     field (te_fields v) ''type'' = ''RUN_ERROR'' \<and> field (te_fields v) ''code'' \<noteq> ''AGENT_ERROR''"

definition rejects :: "tevent list \<Rightarrow> bool" where
  "rejects evs \<longleftrightarrow> list_ex is_rejection evs"

text \<open>As long as the run goes on, what was written is a run of the protocol from lanes to lanes.\<close>

definition advances :: "Translator \<Rightarrow> tevent list \<times> Translator \<Rightarrow> bool" where
  "advances t r \<longleftrightarrow>
     (\<not> t_done (snd r) \<longrightarrow> live (snd r) \<and> wire_run (wire_tr t) (map te_fields (fst r)) (wire_tr (snd r)))"

lemma rejects_append [simp]: "rejects (a @ b) \<longleftrightarrow> rejects a \<or> rejects b"
  by (simp add: rejects_def)

lemma advances_none: "live t \<Longrightarrow> advances t ([], t)"
  by (auto simp: advances_def live_def intro: wire_run.intros)

lemma andThen_pair [simp]: "andThen ([], t) f = f t"
  by (simp add: andThen_def split: prod.splits)

lemma fst_andThen: "fst (andThen r f) = fst r @ fst (f (snd r))"
  and snd_andThen [simp]: "snd (andThen r f) = snd (f (snd r))"
  by (simp_all add: andThen_def split: prod.splits)

lemma advances_andThen:
  assumes "advances t r" "live (snd r) \<Longrightarrow> advances (snd r) (f (snd r))"
    and "t_done (snd r) \<Longrightarrow> t_done (snd (f (snd r)))"
  shows "advances t (andThen r f)"
proof (cases "t_done (snd r)")
  case True
  then show ?thesis using assms(3) by (simp add: advances_def)
next
  case False
  then have r: "live (snd r)" "wire_run (wire_tr t) (map te_fields (fst r)) (wire_tr (snd r))"
    using assms(1) by (simp_all add: advances_def)
  then show ?thesis
    using assms(2) by (auto simp: advances_def fst_andThen intro: wire_run_append)
qed

lemma advances_each:
  assumes "\<And>x u. live u \<Longrightarrow> advances u (f x u)" "\<And>x u. t_done u \<Longrightarrow> t_done (snd (f x u))"
  shows "live t \<Longrightarrow> advances t (each f xs t)"
    and "t_done t \<Longrightarrow> t_done (snd (each f xs t))"
proof -
  have d: "t_done u \<Longrightarrow> t_done (snd (each f xs u))" for u xs
    by (induction xs arbitrary: u) (auto simp: assms(2))
  then show "t_done t \<Longrightarrow> t_done (snd (each f xs t))" .
  show "live t \<Longrightarrow> advances t (each f xs t)"
  proof (induction xs arbitrary: t)
    case (Cons x xs)
    then show ?case by (auto intro!: advances_andThen assms(1) d)
  qed (simp add: advances_none)
qed

text \<open>One event whose effect on the protocol is that of the lane update.\<close>

lemma advances_one:
  assumes "live u" "wire_run (wire_tr t) [te_fields v] (wire_tr u)"
  shows "advances t ([v], u)"
  using assms by (simp add: advances_def live_def)

lemma wire_tr_sel [simp]:
  "w_open (wire_tr t) = live_streams t" "w_steps (wire_tr t) = live_steps t"
  "w_running (wire_tr t) \<longleftrightarrow> t_started t \<and> \<not> t_done t" "w_errored (wire_tr t) = False"
  "w_ident (wire_tr t) = (t_threadID t, t_runID t)" "w_subagents (wire_tr t) = Map.empty"
  by (simp_all add: wire_tr_def)

lemma wire_tr_eqI:
  assumes "t_started u = t_started t" "t_done u = t_done t" "t_threadID u = t_threadID t" "t_runID u = t_runID t"
    "live_streams u = s" "live_steps u = live_steps t"
  shows "wire_tr u = wire_tr t\<lparr>w_open := s\<rparr>"
  using assms by (simp add: wire_tr_def)

lemma wire_tr_same:
  assumes "t_started u = t_started t" "t_done u = t_done t" "t_threadID u = t_threadID t" "t_runID u = t_runID t"
    "live_streams u = live_streams t" "live_steps u = live_steps t"
  shows "wire_tr u = wire_tr t"
  using assms by (simp add: wire_tr_def)

lemmas event_kind = opens_def writes_def closes_def start_types_def content_types_def end_types_def stream_id_def
  event_type_def other_types_def

lemmas event_forms = plain_event_def standardEvent_def scopedBoundary_def

lemmas lanes_defs = lanes_known_def orders_known_def

text \<open>The updates that leave the spans and their thoughts alone, and the update of a thought.\<close>

lemma spans_known_cong:
  assumes "t_reasonings t = t_reasonings u" "t_reasoningSpans t = t_reasoningSpans u"
  shows "spans_known t = spans_known u"
  using assms by (simp add: spans_known_def)

lemma spans_known_other [simp]:
  "spans_known (t\<lparr>t_started := x0\<rparr>) = spans_known t"
  "spans_known (t\<lparr>t_done := x1\<rparr>) = spans_known t"
  "spans_known (t\<lparr>t_seen := x2\<rparr>) = spans_known t"
  "spans_known (t\<lparr>t_internalMessages := x3\<rparr>) = spans_known t"
  "spans_known (t\<lparr>t_messages := x4\<rparr>) = spans_known t"
  "spans_known (t\<lparr>t_textOrder := x5\<rparr>) = spans_known t"
  "spans_known (t\<lparr>t_toolOrder := x6\<rparr>) = spans_known t"
  "spans_known (t\<lparr>t_reasoningOrder := x7\<rparr>) = spans_known t"
  "spans_known (t\<lparr>t_stepOrder := x8\<rparr>) = spans_known t"
  "spans_known (t\<lparr>t_activeModel := x9\<rparr>) = spans_known t"
  "spans_known (t\<lparr>t_usage := x10\<rparr>) = spans_known t"
  "spans_known (t\<lparr>t_historyErr := x11\<rparr>) = spans_known t"
  "spans_known (t\<lparr>t_seeded := x12\<rparr>) = spans_known t"
  "spans_known (t\<lparr>t_nativeTurnID := x13\<rparr>) = spans_known t"
  "spans_known (t\<lparr>t_texts := x14\<rparr>) = spans_known t"
  "spans_known (t\<lparr>t_tools := x15\<rparr>) = spans_known t"
  "spans_known (t\<lparr>t_steps := x16\<rparr>) = spans_known t"
  by (rule spans_known_cong; simp)+

lemma spans_known_update [simp]:
  assumes "spans_known t" "map_of (t_reasonings t) i = Some s" "rs_span s' = rs_span s"
  shows "spans_known (t\<lparr>t_reasonings := AList.update i s' (t_reasonings t)\<rparr>)"
  unfolding spans_known_def
proof (intro conjI allI impI)
  show "distinct (keys (t_reasonings (t\<lparr>t_reasonings := AList.update i s' (t_reasonings t)\<rparr>)))"
    using assms by (simp add: spans_known_def distinct_update)
next
  fix p
  assume "map_of (t_reasoningSpans (t\<lparr>t_reasonings := AList.update i s' (t_reasonings t)\<rparr>)) p = Some True"
  then obtain j r where "map_of (t_reasonings t) j = Some r" "rs_span r = p"
    using assms(1) by (auto simp: spans_known_def)
  then show "\<exists>j r. map_of (t_reasonings (t\<lparr>t_reasonings := AList.update i s' (t_reasonings t)\<rparr>)) j = Some r \<and> rs_span r = p"
    using assms by (cases "j = i") (auto simp: update_conv')
qed

lemma spans_known_closed [simp]:
  "spans_known t \<Longrightarrow> spans_known (t\<lparr>t_reasoningSpans := AList.update p False (t_reasoningSpans t)\<rparr>)"
  by (auto simp: spans_known_def update_conv' split: if_splits)

lemma open_text_advances: "live t \<Longrightarrow> advances t (open_text i t)"
  unfolding open_text_def Let_def
  apply (cases "map_of (t_texts t) i")
   apply (auto intro!: advances_one advances_none wire_opens [where s = "(TextStream, i)"] wire_tr_eqI
      simp: event_kind event_forms lane_simps)
    apply (auto simp: live_def lanes_defs lane_simps update_conv' split: if_splits)
  done

lemma write_text_advances:
  "live t \<Longrightarrow> map_of (t_texts t) i = Some s \<Longrightarrow> \<not> tx_ended s \<Longrightarrow> advances t (write_text i s delta t)"
  unfolding write_text_def Let_def
  apply (auto intro!: advances_one advances_none wire_writes [where s = "(TextStream, i)"] wire_tr_same
      simp: event_kind event_forms lane_simps)
    apply (auto simp: live_def lanes_defs lane_simps update_conv' split: if_splits)
  done


section \<open>Closing\<close>

lemma close_thought_advances: "live t \<Longrightarrow> advances t (close_thought w i t)"
  unfolding close_thought_def
  apply (cases "map_of (t_reasonings t) i")
   apply (auto intro!: advances_one advances_none wire_closes [where s = "(ThoughtStream, i)"] wire_tr_eqI
      simp: event_kind event_forms lane_simps)
   apply (auto simp: live_def lanes_defs lane_simps update_conv' split: if_splits)
  done

lemma end_span_advances: "live t \<Longrightarrow> advances t (end_span p w t)"
  unfolding end_span_def
  apply (auto intro!: advances_one advances_none wire_closes [where s = "(SpanStream, p)"] wire_tr_eqI
      simp: event_kind event_forms lane_simps)
  apply (auto simp: live_def lanes_defs lane_simps update_conv' split: if_splits)
  done

lemma close_text_advances: "live t \<Longrightarrow> advances t (close_text i t)"
  unfolding close_text_def
  apply (cases "map_of (t_texts t) i")
   apply (auto intro!: advances_one advances_none wire_closes [where s = "(TextStream, i)"] wire_tr_eqI
      simp: event_kind event_forms lane_simps)
  apply (auto simp: live_def lanes_defs lane_simps update_conv' split: if_splits)
  done

lemma close_tool_advances: "live t \<Longrightarrow> advances t (close_tool i t)"
  unfolding close_tool_def
  apply (cases "map_of (t_tools t) i")
   apply (auto intro!: advances_one advances_none wire_closes [where s = "(CallStream, i)"] wire_tr_eqI
      simp: event_kind event_forms lane_simps)
  apply (auto simp: live_def lanes_defs lane_simps update_conv' split: if_splits)
  done

lemma wire_step_ends:
  assumes "event_type e = ''STEP_FINISHED''" "stepKey e = k" "k \<in> live_steps t" "t_started t" "\<not> t_done t"
    and "t_started u = t_started t" "t_done u = t_done t" "t_threadID u = t_threadID t" "t_runID u = t_runID t"
    "live_streams u = live_streams t" "live_steps u = live_steps t - {k}"
  shows "wire_run (wire_tr t) [e] (wire_tr u)"
proof -
  have "wire_tr u = wire_tr t\<lparr>w_steps := w_steps (wire_tr t) - {stepKey e}\<rparr>"
    using assms by (simp add: wire_tr_def)
  moreover have "wire_step (wire_tr t) e (wire_tr t\<lparr>w_steps := w_steps (wire_tr t) - {stepKey e}\<rparr>)"
    using assms by (intro step_ends) simp_all
  ultimately show ?thesis by (simp add: wire_one)
qed

lemma wire_step_begins:
  assumes "event_type e = ''STEP_STARTED''" "stepKey e = k" "k \<notin> live_steps t" "t_started t" "\<not> t_done t"
    and "t_started u = t_started t" "t_done u = t_done t" "t_threadID u = t_threadID t" "t_runID u = t_runID t"
    "live_streams u = live_streams t" "live_steps u = insert k (live_steps t)"
  shows "wire_run (wire_tr t) [e] (wire_tr u)"
proof -
  have "wire_tr u = wire_tr t\<lparr>w_steps := insert (stepKey e) (w_steps (wire_tr t))\<rparr>"
    using assms by (simp add: wire_tr_def)
  moreover have "wire_step (wire_tr t) e (wire_tr t\<lparr>w_steps := insert (stepKey e) (w_steps (wire_tr t))\<rparr>)"
    using assms by (intro step_begins) simp_all
  ultimately show ?thesis by (simp add: wire_one)
qed

lemma live_step_iff:
  "orders_known t \<Longrightarrow> map_of (t_steps t) i = Some s \<Longrightarrow>
   (''parent:'', ''model/'' @ i) \<in> live_steps t \<longleftrightarrow> \<not> sp_ended s"
  by (auto simp: live_steps_def orders_known_def) (metis append_Cons append_Nil)

lemma live_step_none:
  "orders_known t \<Longrightarrow> map_of (t_steps t) i = None \<Longrightarrow> (''parent:'', ''model/'' @ i) \<notin> live_steps t"
  by (auto simp: live_steps_def orders_known_def)

lemmas step_key_simps = stepKey_def ownerKey_def tagged_def has_key_def

text \<open>A step ends, whatever else the event says beside its name.\<close>

lemma step_ended:
  assumes "live t" "map_of (t_steps t) i = Some s" "\<not> sp_ended s"
    and e: "event_type e = ''STEP_FINISHED''" "stepKey e = (''parent:'', ''model/'' @ i)"
    and u: "u = t\<lparr>t_steps := AList.update i (s\<lparr>sp_ended := True\<rparr>) (t_steps t), t_activeModel := a\<rparr>"
  shows "live u" "wire_run (wire_tr t) [e] (wire_tr u)"
proof -
  have o': "orders_known t" and n: "sp_name s = ''model/'' @ i" "sp_subagent s = []"
    using assms(1, 2) by (auto simp: live_def lanes_known_def orders_known_def)
  have names: "\<And>j r. map_of (t_steps t) j = Some r \<Longrightarrow> sp_name r = ''model/'' @ j"
    using o' by (simp add: orders_known_def)
  show "live u"
    using assms(1, 2) n by (auto simp: u live_def lanes_defs lane_simps update_conv' split: if_splits)
  have "live_steps u = live_steps t - {(''parent:'', ''model/'' @ i)}"
    using live_steps_update [where s = "s\<lparr>sp_ended := True\<rparr>" and i = i and t = t, OF names] n by (simp add: u lane_simps)
  then show "wire_run (wire_tr t) [e] (wire_tr u)"
    using assms live_step_iff [OF o' assms(2)]
    by (intro wire_step_ends [OF e]) (simp_all add: u lane_simps live_def)
qed

lemma close_step_advances:
  assumes "live t"
  shows "advances t (close_step i t)"
proof (cases "map_of (t_steps t) i")
  case None
  then show ?thesis by (simp add: close_step_def advances_none assms)
next
  case (Some s)
  show ?thesis
  proof (cases "sp_ended s")
    case True
    then show ?thesis using Some by (simp add: close_step_def advances_none assms)
  next
    case False
    have n: "sp_name s = ''model/'' @ i" "sp_subagent s = []"
      using Some assms by (auto simp: live_def lanes_known_def orders_known_def)
    let ?u = "t\<lparr>t_steps := AList.update i (s\<lparr>sp_ended := True\<rparr>) (t_steps t)\<rparr>"
    have u: "?u = t\<lparr>t_steps := AList.update i (s\<lparr>sp_ended := True\<rparr>) (t_steps t), t_activeModel := t_activeModel t\<rparr>"
      by simp
    let ?e = "te_fields (scopedBoundary ''STEP_FINISHED'' ''stepName'' (sp_name s) (sp_subagent s))"
    have e: "event_type ?e = ''STEP_FINISHED''" "stepKey ?e = (''parent:'', ''model/'' @ i)"
      using n by (simp_all add: event_forms smem_def step_key_simps event_type_def)
    have "advances t ([scopedBoundary ''STEP_FINISHED'' ''stepName'' (sp_name s) (sp_subagent s)], ?u)"
      using step_ended [OF assms Some False e u] by (intro advances_one)
    then show ?thesis using Some False by (simp add: close_step_def)
  qed
qed


section \<open>The end of a run\<close>

named_theorems kept \<open>what an operation leaves alone\<close>

lemma close_keeps [kept]:
  "t_done (snd (close_thought w i t)) = t_done t" "t_started (snd (close_thought w i t)) = t_started t"
  "t_done (snd (end_span p w t)) = t_done t" "t_started (snd (end_span p w t)) = t_started t"
  "t_done (snd (close_span p t)) = t_done t" "t_started (snd (close_span p t)) = t_started t"
  "t_done (snd (close_text i t)) = t_done t" "t_started (snd (close_text i t)) = t_started t"
  "t_done (snd (close_tool i t)) = t_done t" "t_started (snd (close_tool i t)) = t_started t"
  "t_done (snd (close_step i t)) = t_done t" "t_started (snd (close_step i t)) = t_started t"
  "t_threadID (snd (close_thought w i t)) = t_threadID t" "t_runID (snd (close_thought w i t)) = t_runID t"
  by (simp_all add: close_thought_def end_span_def close_span_def close_text_def close_tool_def close_step_def
      split: option.splits)

lemma each_keeps: "(\<And>x u. g (snd (f x u)) = g u) \<Longrightarrow> g (snd (each f xs t)) = g t"
  by (induction xs arbitrary: t) simp_all

lemma each_shrinks:
  "(\<And>x u. live_streams (snd (f x u)) \<subseteq> live_streams u) \<Longrightarrow> live_streams (snd (each f xs t)) \<subseteq> live_streams t"
  by (induction xs arbitrary: t) (simp, force)

lemma each_removes:
  assumes "\<And>x u. live_streams (snd (f x u)) \<subseteq> live_streams u"
    and "\<And>x u. P u \<Longrightarrow> (k, x) \<notin> live_streams (snd (f x u))" "\<And>x u. P u \<Longrightarrow> P (snd (f x u))" "P t" "x \<in> set xs"
  shows "(k, x) \<notin> live_streams (snd (each f xs t))"
  using assms(4, 5)
proof (induction xs arbitrary: t)
  case (Cons y ys)
  show ?case
  proof (cases "x = y")
    case True
    have "(k, x) \<notin> live_streams (snd (f x t))" using assms(2) Cons.prems by blast
    then show ?thesis using True each_shrinks [of f, OF assms(1)] by auto
  next
    case False
    then show ?thesis using Cons.IH [of "snd (f y t)"] Cons.prems assms(3) by simp
  qed
qed simp

lemma close_shrinks:
  "live_streams (snd (close_thought w i t)) \<subseteq> live_streams t"
  "live_streams (snd (end_span p w t)) \<subseteq> live_streams t"
  "live_streams (snd (close_span p t)) \<subseteq> live_streams t"
  "live_streams (snd (close_text i t)) \<subseteq> live_streams t"
  "live_streams (snd (close_tool i t)) \<subseteq> live_streams t"
  "live_streams (snd (close_step i t)) \<subseteq> live_streams t"
  by (auto simp: close_thought_def end_span_def close_span_def close_text_def close_tool_def close_step_def lane_simps
      split: option.splits)

lemma close_removes:
  "(ThoughtStream, i) \<notin> live_streams (snd (close_thought [] i t))"
  "(TextStream, i) \<notin> live_streams (snd (close_text i t))"
  "(CallStream, i) \<notin> live_streams (snd (close_tool i t))"
  by (auto simp: close_thought_def close_text_def close_tool_def of_owner_def update_conv' split: option.splits)

text \<open>When no thought is open, no span is.\<close>

definition thoughtless :: "Translator \<Rightarrow> bool" where
  "thoughtless t \<longleftrightarrow> distinct (keys (t_reasonings t)) \<and> (\<forall>i. (ThoughtStream, i) \<notin> live_streams t)"

lemma thoughtless_span: "thoughtless t \<Longrightarrow> \<not> span_open p t"
  by (force simp: thoughtless_def span_open_def list_ex_iff)

lemma close_span_removes: "thoughtless t \<Longrightarrow> (SpanStream, p) \<notin> live_streams (snd (close_span p t))"
  by (auto simp: close_span_def end_span_def thoughtless_span update_conv')

lemma close_span_thoughtless: "thoughtless t \<Longrightarrow> thoughtless (snd (close_span p t))"
  by (simp add: close_span_def end_span_def thoughtless_def)

lemma closeReasoning_keeps [kept]:
  "t_done (snd (closeReasoning env w t)) = t_done t" "t_started (snd (closeReasoning env w t)) = t_started t"
  by (simp_all add: closeReasoning_def each_keeps kept)

lemma closeReasoning_shrinks: "live_streams (snd (closeReasoning env w t)) \<subseteq> live_streams t"
  unfolding closeReasoning_def
  using each_shrinks [OF close_shrinks(1)] each_shrinks [OF close_shrinks(3)] by fastforce

lemma close_span_advances: "live t \<Longrightarrow> advances t (close_span p t)"
  by (simp add: close_span_def end_span_advances)

lemma closeReasoning_advances: "live t \<Longrightarrow> advances t (closeReasoning env w t)"
  unfolding closeReasoning_def
  by (intro advances_andThen advances_each close_thought_advances close_span_advances)
    (simp_all add: kept each_keeps)

definition map_order_ok :: "tr_env \<Rightarrow> bool" where
  "map_order_ok env \<longleftrightarrow> (\<forall>xs. set (map_order env xs) = set xs)"

lemma advances_live: "advances t r \<Longrightarrow> \<not> t_done (snd r) \<Longrightarrow> live (snd r)"
  by (simp add: advances_def)

lemma live_flags: "live t \<Longrightarrow> \<not> t_done t" "live t \<Longrightarrow> t_started t" "live t \<Longrightarrow> lanes_known t"
  by (simp_all add: live_def)

lemma owned_spans_all:
  "set (owned_spans [] t) = {rs_span s | i s. i \<in> set (t_reasoningOrder t) \<and> map_of (t_reasonings t) i = Some s}"
  by (auto simp: owned_spans_def of_owner_def split: option.splits) (metis option.sel)

lemma closeReasoning_all:
  assumes "live t" "map_order_ok env"
  shows "(ThoughtStream, i) \<notin> live_streams (snd (closeReasoning env [] t))"
    and "(SpanStream, i) \<notin> live_streams (snd (closeReasoning env [] t))"
proof -
  let ?u = "snd (each (close_thought []) (t_reasoningOrder t) t)"
  let ?v = "snd (each close_span (map_order env (owned_spans [] t)) ?u)"
  have v: "snd (closeReasoning env [] t) = ?v" by (simp add: closeReasoning_def)
  have known: "orders_known t" "spans_known t" using assms(1) by (simp_all add: live_def lanes_known_def)
  have adv: "advances t (each (close_thought []) (t_reasoningOrder t) t)"
    by (intro advances_each close_thought_advances) (simp_all add: kept assms(1))
  then have u: "live ?u" by (rule advances_live) (simp add: each_keeps kept live_flags assms(1))
  have none: "(ThoughtStream, j) \<notin> live_streams ?u" for j
  proof (cases "j \<in> set (t_reasoningOrder t)")
    case True
    show ?thesis
      by (rule each_removes [where P = "\<lambda>_. True", OF close_shrinks(1) close_removes(1) _ _ True]) simp_all
  next
    case False
    then have "(ThoughtStream, j) \<notin> live_streams t" using known(1) by (auto simp: orders_known_def)
    then show ?thesis using each_shrinks [of "close_thought []", OF close_shrinks(1)] by blast
  qed
  then have less: "thoughtless ?u" using u by (simp add: thoughtless_def live_def lanes_known_def spans_known_def)
  show "(ThoughtStream, i) \<notin> live_streams (snd (closeReasoning env [] t))"
    unfolding v using none each_shrinks [of close_span, OF close_shrinks(3)] by blast
  show "(SpanStream, i) \<notin> live_streams (snd (closeReasoning env [] t))"
  proof (cases "i \<in> set (owned_spans [] t)")
    case True
    then have i: "i \<in> set (map_order env (owned_spans [] t))" using assms(2) by (simp add: map_order_ok_def)
    show ?thesis
      unfolding v
      by (rule each_removes [where P = thoughtless, OF close_shrinks(3) close_span_removes close_span_thoughtless
            less i])
  next
    case False
    have "(SpanStream, i) \<notin> live_streams t"
    proof
      assume "(SpanStream, i) \<in> live_streams t"
      then obtain j s where js: "map_of (t_reasonings t) j = Some s" "rs_span s = i"
        using known(2) by (auto simp: spans_known_def)
      then have "j \<in> set (t_reasoningOrder t)" using known(1) by (auto simp: orders_known_def)
      then show False using js False by (auto simp: owned_spans_all)
    qed
    moreover have "live_streams ?u \<subseteq> live_streams t" by (rule each_shrinks) (rule close_shrinks)
    ultimately show ?thesis unfolding v using each_shrinks [of close_span, OF close_shrinks(3)] by blast
  qed
qed


lemma close_step_removes:
  "orders_known t \<Longrightarrow> (''parent:'', ''model/'' @ i) \<notin> live_steps (snd (close_step i t))"
  by (auto simp: close_step_def live_steps_def orders_known_def update_conv' split: option.splits if_splits)

lemma close_step_shrinks: "live_steps (snd (close_step i t)) \<subseteq> live_steps t"
  by (auto simp: close_step_def live_steps_def update_conv' split: option.splits if_splits)

lemma close_step_live: "live t \<Longrightarrow> live (snd (close_step i t))"
  using close_step_advances [of t i] by (intro advances_live) (simp_all add: kept live_flags)

lemma each_step_removes:
  "live t \<Longrightarrow> i \<in> set xs \<Longrightarrow> (''parent:'', ''model/'' @ i) \<notin> live_steps (snd (each close_step xs t))"
proof (induction xs arbitrary: t)
  case (Cons x xs)
  have sub: "live_steps (snd (each close_step xs u)) \<subseteq> live_steps u" for u
    by (induction xs arbitrary: u) (simp, use close_step_shrinks in force)
  show ?case
  proof (cases "i = x")
    case True
    have "(''parent:'', ''model/'' @ i) \<notin> live_steps (snd (close_step i t))"
      using Cons.prems by (intro close_step_removes) (simp add: live_def lanes_known_def)
    then show ?thesis using True sub [of "snd (close_step x t)"] by auto
  next
    case False
    then show ?thesis using Cons.IH [of "snd (close_step x t)"] Cons.prems close_step_live by simp
  qed
qed simp

lemma each_step_none:
  assumes "live t"
  shows "live_steps (snd (each close_step (t_stepOrder t) t)) = {}"
proof (rule ccontr)
  assume "live_steps (snd (each close_step (t_stepOrder t) t)) \<noteq> {}"
  then obtain k where k: "k \<in> live_steps (snd (each close_step (t_stepOrder t) t))" by blast
  have "live_steps (snd (each close_step xs u)) \<subseteq> live_steps u" for xs u
    by (induction xs arbitrary: u) (simp, use close_step_shrinks in force)
  then have "k \<in> live_steps t" using k by blast
  then obtain i s where "map_of (t_steps t) i = Some s" "k = (''parent:'', sp_name s)"
    by (auto simp: live_steps_def)
  moreover have o': "orders_known t" using assms by (simp add: live_def lanes_known_def)
  ultimately have "i \<in> set (t_stepOrder t)" "k = (''parent:'', ''model/'' @ i)" by (auto simp: orders_known_def)
  then show False using each_step_removes [OF assms] k by blast
qed

lemma closeOpen_keeps [kept]:
  "t_done (snd (closeOpen env t)) = t_done t" "t_started (snd (closeOpen env t)) = t_started t"
  by (simp_all add: closeOpen_def closeSteps_def each_keeps kept)

lemma closeOpen_advances: "live t \<Longrightarrow> advances t (closeOpen env t)"
  unfolding closeOpen_def closeSteps_def
  by (intro advances_andThen advances_each closeReasoning_advances close_text_advances close_tool_advances
      close_step_advances) (simp_all add: kept each_keeps)

text \<open>Nothing is open when everything has been closed.\<close>

lemma closeOpen_all:
  assumes "live t" "map_order_ok env"
  shows "live_streams (snd (closeOpen env t)) = {}" "live_steps (snd (closeOpen env t)) = {}"
proof -
  let ?a = "snd (closeReasoning env [] t)"
  let ?b = "snd (each close_text (t_textOrder ?a) ?a)"
  let ?c = "snd (each close_tool (t_toolOrder ?b) ?b)"
  let ?d = "snd (each close_step (t_stepOrder ?c) ?c)"
  have d: "snd (closeOpen env t) = ?d" by (simp add: closeOpen_def closeSteps_def)
  have a: "live ?a" by (rule advances_live [OF closeReasoning_advances]) (simp_all add: assms kept live_flags)
  have b: "live ?b"
    by (rule advances_live [OF advances_each(1) [OF close_text_advances]]) (simp_all add: kept each_keeps a live_flags assms)
  have c: "live ?c"
    by (rule advances_live [OF advances_each(1) [OF close_tool_advances]]) (simp_all add: kept each_keeps b live_flags assms)
  have sub: "live_streams ?b \<subseteq> live_streams ?a" "live_streams ?c \<subseteq> live_streams ?b"
    "live_streams ?d \<subseteq> live_streams ?c"
    by (rule each_shrinks, rule close_shrinks)+
  have texts: "(TextStream, i) \<notin> live_streams ?b" for i
  proof (cases "i \<in> set (t_textOrder ?a)")
    case True
    show ?thesis by (rule each_removes [where P = "\<lambda>_. True", OF close_shrinks(4) close_removes(2) _ _ True]) simp_all
  next
    case False
    then have "(TextStream, i) \<notin> live_streams ?a" using a by (auto simp: live_def lanes_defs)
    then show ?thesis using sub by blast
  qed
  have tools: "(CallStream, i) \<notin> live_streams ?c" for i
  proof (cases "i \<in> set (t_toolOrder ?b)")
    case True
    show ?thesis by (rule each_removes [where P = "\<lambda>_. True", OF close_shrinks(5) close_removes(3) _ _ True]) simp_all
  next
    case False
    then have "(CallStream, i) \<notin> live_streams ?b" using b by (auto simp: live_def lanes_defs)
    then show ?thesis using sub by blast
  qed
  have all: "live_streams ?d \<subseteq> live_streams ?c" "live_streams ?c \<subseteq> live_streams ?a"
    "live_streams ?c \<subseteq> live_streams ?b" using sub by blast+
  have "x \<notin> live_streams ?d" for x
  proof -
    obtain k i where "x = (k, i)" by (cases x)
    then show ?thesis
      using all texts tools closeReasoning_all [OF assms] by (cases k) blast+
  qed
  then show "live_streams (snd (closeOpen env t)) = {}" unfolding d by blast
  show "live_steps (snd (closeOpen env t)) = {}" unfolding d by (rule each_step_none [OF c])
qed

text \<open>A run concludes: it is done and the protocol is no longer running.\<close>

definition concludes :: "Translator \<Rightarrow> tevent list \<times> Translator \<Rightarrow> bool" where
  "concludes t r \<longleftrightarrow> t_done (snd r) \<and> (\<exists>w. wire_run (wire_tr t) (map te_fields (fst r)) w \<and> \<not> w_running w)"

lemma concludes_after:
  assumes "advances t r" "\<not> t_done (snd r)" "concludes (snd r) (f (snd r))"
  shows "concludes t (andThen r f)"
  using assms by (auto simp: advances_def concludes_def fst_andThen intro: wire_run_append)

lemma Start_live: "live t \<Longrightarrow> Start t = ([], t)"
  by (simp add: Start_def live_def)

lemma event_type_finished: "event_type (te_fields (finished_event o' t)) = ''RUN_FINISHED''"
  by (simp add: finished_event_def Let_def plain_event_def standardEvent_def event_type_def)

lemma run_ident_finished: "run_ident (te_fields (finished_event o' t)) = (t_threadID t, t_runID t)"
  by (auto simp: finished_event_def Let_def plain_event_def standardEvent_def run_ident_def)

lemma Finish_concludes:
  assumes "live t" "map_order_ok env"
  shows "concludes t (Finish env outcome t)"
proof -
  let ?u = "snd (closeOpen env t)"
  let ?o = "if outcome = ''cancelled'' then outcome else ''success''"
  have u: "live ?u" by (rule advances_live [OF closeOpen_advances]) (simp_all add: assms kept live_flags)
  have "wire_step (wire_tr ?u) (te_fields (finished_event ?o ?u)) ((wire_tr ?u)\<lparr>w_running := False\<rparr>)"
    using u closeOpen_all [OF assms]
    by (intro run_finishes event_type_finished) (simp_all add: live_flags run_ident_finished)
  then have "concludes ?u ([finished_event ?o ?u], ?u\<lparr>t_done := True\<rparr>)"
    by (auto simp: concludes_def dest!: wire_one)
  then have "concludes t (andThen (closeOpen env t) (\<lambda>t. ([finished_event ?o t], t\<lparr>t_done := True\<rparr>)))"
    using u by (intro concludes_after [OF closeOpen_advances [OF assms(1)]]) (simp_all add: live_flags)
  then show ?thesis using assms(1) by (simp add: Finish_def Start_live live_flags)
qed

lemma Fail_concludes:
  assumes "live t"
  shows "concludes t (Fail env msg code t)"
proof -
  let ?u = "snd (closeOpen env t)"
  have u: "live ?u" by (rule advances_live [OF closeOpen_advances]) (simp_all add: assms kept live_flags)
  have "wire_step (wire_tr ?u) (te_fields (error_event msg code)) ((wire_tr ?u)\<lparr>w_running := False, w_errored := True\<rparr>)"
    by (rule run_fails) (simp_all add: error_event_def plain_event_def event_type_def)
  then have "concludes ?u ([error_event msg code], ?u\<lparr>t_done := True\<rparr>)"
    by (auto simp: concludes_def dest!: wire_one)
  then have "concludes t (andThen (closeOpen env t) (\<lambda>t. ([error_event msg code], t\<lparr>t_done := True\<rparr>)))"
    using u by (intro concludes_after [OF closeOpen_advances [OF assms(1)]]) (simp_all add: live_flags)
  then show ?thesis using assms by (simp add: Fail_def Start_live live_flags)
qed

lemma Fail_done [kept]: "t_done (snd (Fail env msg code t))"
  by (simp add: Fail_def)

lemma Finish_done [kept]: "t_done (snd (Finish env outcome t))"
  by (simp add: Finish_def)

text \<open>A failure of the translator itself says so.\<close>

lemma Fail_rejects:
  "\<not> t_done t \<Longrightarrow> code \<noteq> ''AGENT_ERROR'' \<Longrightarrow> rejects (fst (Fail env msg code t))"
  by (simp add: Fail_def fst_andThen rejects_def is_rejection_def error_event_def plain_event_def)

lemma Fail_advances: "advances s (Fail env msg code t)"
  by (simp add: advances_def kept)

section \<open>Text\<close>

lemma open_text_keeps [kept]:
  "t_done (snd (open_text i t)) = t_done t" "t_done (snd (write_text i s d t)) = t_done t"
  by (simp_all add: open_text_def write_text_def Let_def)

lemma open_text_known: "\<exists>s. map_of (t_texts (snd (open_text i t))) i = Some s"
  by (auto simp: open_text_def Let_def update_conv')

lemma open_text_ended:
  "map_of (t_texts (snd (open_text i t))) i = Some s \<Longrightarrow> tx_ended s \<Longrightarrow> open_text i t = ([], t)"
  by (auto simp: open_text_def Let_def update_conv' split: if_splits)

lemma replaceText_done: "t_done t \<Longrightarrow> t_done (snd (replaceText env i c t))"
  by (auto simp: replaceText_def Let_def saveMessage_def Fail_def split: option.splits)

lemma live_saveMessage: "live (saveMessage i m t) = live t" "wire_tr (saveMessage i m t) = wire_tr t"
  "t_texts (saveMessage i m t) = t_texts t" "t_done (saveMessage i m t) = t_done t"
  by (simp_all add: saveMessage_def live_def lanes_defs lane_simps wire_tr_def)

lemma advances_from: "advances s r \<Longrightarrow> wire_tr s = wire_tr t \<Longrightarrow> advances t r"
  unfolding advances_def by metis

lemma replaceText_advances:
  assumes "live t"
  shows "advances t (replaceText env i c t)"
proof (cases "message (t_messages t) i")
  case None
  then show ?thesis using assms by (simp add: replaceText_def Fail_advances live_flags)
next
  case (Some m)
  let ?t = "saveMessage i (put ''content'' (JStr c) m) t"
  let ?u = "case map_of (t_texts ?t) i of
      None \<Rightarrow> ?t | Some s \<Rightarrow> ?t\<lparr>t_texts := AList.update i (s\<lparr>tx_content := c\<rparr>) (t_texts ?t)\<rparr>"
  have t: "live ?t" using assms by (simp add: live_saveMessage)
  have u: "live ?u" "wire_tr ?u = wire_tr ?t"
    using t by (auto simp: live_def lanes_defs lane_simps update_conv' insert_absorb intro!: wire_tr_same
        split: option.splits if_splits)
  have "advances ?t ([snapshot_event ?u], ?u)"
    using t u by (intro advances_one wire_beside)
      (auto simp: snapshot_event_def standardEvent_def event_kind live_flags)
  then have "advances t ([snapshot_event ?u], ?u)" by (rule advances_from) (rule live_saveMessage(2))
  then show ?thesis using Some by (simp add: replaceText_def Let_def)
qed

lemma text_event_done: "t_done t \<Longrightarrow> t_done (snd (text_event env i c snap off t))"
proof -
  assume d: "t_done t"
  let ?i = "str_or i (t_runID t @ ''/assistant'')"
  let ?u = "snd (open_text ?i t)"
  have u: "t_done ?u" using d by (simp add: kept)
  have pair: "open_text ?i t = (fst (open_text ?i t), ?u)" by simp
  show "t_done (snd (text_event env i c snap off t))"
    unfolding text_event_def Let_def
    by (subst pair, unfold prod.case) (auto simp: u d kept replaceText_done split: option.splits)
qed

lemma text_event_advances:
  assumes "live t"
  shows "advances t (text_event env i c snap off t)"
proof -
  let ?i = "str_or i (t_runID t @ ''/assistant'')"
  let ?u = "snd (open_text ?i t)"
  have adv: "advances t (open_text ?i t)" by (rule open_text_advances [OF assms])
  have u: "live ?u" by (rule advances_live [OF adv]) (simp add: kept live_flags assms)
  obtain s where s: "map_of (t_texts ?u) ?i = Some s" using open_text_known by blast
  have wr: "advances t (andThen (open_text ?i t) (write_text ?i s d))" if "\<not> tx_ended s" for d
    using that u s by (intro advances_andThen [OF adv] write_text_advances) (simp_all add: kept)
  have fails: "advances t (Fail env msg code ?u)" for msg code
    by (rule Fail_advances)
  have pair: "open_text ?i t = (fst (open_text ?i t), ?u)" by simp
  show ?thesis
  proof (cases "tx_ended s")
    case True
    then have "open_text ?i t = ([], t)" using open_text_ended [OF s] by simp
    then show ?thesis
      using True s assms
      by (simp add: text_event_def Let_def replaceText_advances advances_none)
  next
    case False
    have replace: "advances t (andThen (open_text ?i t) (replaceText env ?i c))"
      using u by (intro advances_andThen [OF adv] replaceText_advances) (simp_all add: replaceText_done)
    show ?thesis
      unfolding text_event_def Let_def
      using False s wr replace fails
      by (subst pair, unfold prod.case) (auto split: option.splits)
  qed
qed


section \<open>Tool calls\<close>

lemma tool_keeps [kept]:
  "t_done (snd (write_args e i s a t)) = t_done t" "t_done (snd (write_result env e i t)) = t_done t"
  by (auto simp: write_args_def write_result_def Let_def split: option.splits)

text \<open>A new entry for a call, and its start.\<close>

lemma open_tool_done: "t_done t \<Longrightarrow> t_done (snd (open_tool env e i t))"
  by (simp add: open_tool_def Let_def text_event_done)

text \<open>A text event that does not fail has nothing to do with the calls.\<close>

definition with_tools :: "(string \<times> toolState) list \<Rightarrow> string list \<Rightarrow> Translator \<Rightarrow> Translator" where
  "with_tools ts os t = t\<lparr>t_tools := ts, t_toolOrder := os\<rparr>"

lemma with_tools_reads:
  "t_texts (with_tools ts os t) = t_texts t" "t_messages (with_tools ts os t) = t_messages t"
  "t_seeded (with_tools ts os t) = t_seeded t" "t_runID (with_tools ts os t) = t_runID t"
  "t_done (with_tools ts os t) = t_done t" "t_textOrder (with_tools ts os t) = t_textOrder t"
  by (simp_all add: with_tools_def)

lemma open_text_frame:
  "open_text i (with_tools ts os t) = apsnd (with_tools ts os) (open_text i t)"
  "write_text i s d (with_tools ts os t) = apsnd (with_tools ts os) (write_text i s d t)"
  by (simp_all add: open_text_def write_text_def Let_def with_tools_def)

lemma saveMessage_frame: "saveMessage i m (with_tools ts os t) = with_tools ts os (saveMessage i m t)"
  by (simp add: saveMessage_def with_tools_def)

lemma replaceText_frame:
  "\<not> t_done (snd (replaceText env i c (with_tools ts os t))) \<Longrightarrow>
   replaceText env i c (with_tools ts os t) = apsnd (with_tools ts os) (replaceText env i c t)"
  by (auto simp: replaceText_def Let_def with_tools_reads saveMessage_frame kept snapshot_event_def split: option.splits)
    (simp_all add: with_tools_def)

lemma andThen_frame:
  "(\<And>u. \<not> t_done (snd (f (g u))) \<Longrightarrow> f (g u) = apsnd g (f u)) \<Longrightarrow>
   \<not> t_done (snd (andThen (apsnd g r) f)) \<Longrightarrow> andThen (apsnd g r) f = apsnd g (andThen r f)"
proof -
  assume f: "\<And>u. \<not> t_done (snd (f (g u))) \<Longrightarrow> f (g u) = apsnd g (f u)"
    and d: "\<not> t_done (snd (andThen (apsnd g r) f))"
  obtain a u where r: "r = (a, u)" by (cases r)
  have "f (g u) = apsnd g (f u)" by (rule f) (use d r in simp)
  then show ?thesis by (simp add: r andThen_def split_beta)
qed

lemma text_event_frame:
  assumes "\<not> t_done (snd (text_event env i c snap off (with_tools ts os t)))"
  shows "text_event env i c snap off (with_tools ts os t)
    = apsnd (with_tools ts os) (text_event env i c snap off t)"
proof -
  let ?g = "with_tools ts os"
  let ?i = "str_or i (t_runID t @ ''/assistant'')"
  obtain out u where r: "open_text ?i t = (out, u)" by (cases "open_text ?i t")
  obtain s where s: "map_of (t_texts u) ?i = Some s" using open_text_known [of ?i t] r by auto
  have wr: "andThen (out, ?g u) (write_text ?i s d) = apsnd ?g (andThen (out, u) (write_text ?i s d))" for d
    by (simp add: andThen_def open_text_frame split: prod.splits)
  have rep: "andThen (out, ?g u) (replaceText env ?i c) = apsnd ?g (andThen (out, u) (replaceText env ?i c))"
    if "\<not> t_done (snd (andThen (out, ?g u) (replaceText env ?i c)))"
    using that andThen_frame [where g = ?g and r = "(out, u)" and f = "replaceText env ?i c"] replaceText_frame
    by simp
  note form = text_event_def Let_def with_tools_reads open_text_frame r apsnd_conv prod.case
  show ?thesis
  proof (cases "tx_ended s")
    case True
    then show ?thesis
      using assms replaceText_frame [of env ?i c ts os u] unfolding form
      by (cases "snap \<and> t_seeded u \<and> c \<noteq> tx_content s") (auto simp: s with_tools_reads)
  next
    case False
    show ?thesis
    proof (cases snap)
      case True
      then show ?thesis
      proof (cases "strip_prefix (tx_content s) c")
        case None
        then show ?thesis
          using assms False True rep unfolding form by (cases "t_seeded u") (simp_all add: s with_tools_reads kept)
      next
        case (Some d)
        then show ?thesis using False True unfolding form by (simp add: s wr with_tools_reads)
      qed
    next
      case snap: False
      then show ?thesis
      proof (cases off)
        case None
        then show ?thesis using False snap unfolding form by (simp add: s wr with_tools_reads)
      next
        case (Some n)
        then show ?thesis
          using assms False snap unfolding form
          by (cases "offset_delta (tx_content s) n c") (simp_all add: s wr with_tools_reads kept)
      qed
    qed
  qed
qed


lemma text_event_keeps_tools:
  assumes "\<not> t_done (snd (text_event env i c snap off t))"
  shows "t_tools (snd (text_event env i c snap off t)) = t_tools t"
proof -
  have "with_tools (t_tools t) (t_toolOrder t) t = t" by (simp add: with_tools_def)
  then have "text_event env i c snap off t = apsnd (with_tools (t_tools t) (t_toolOrder t)) (text_event env i c snap off t)"
    using text_event_frame [of env i c snap off "t_tools t" "t_toolOrder t" t] assms by simp
  then have "snd (text_event env i c snap off t) = with_tools (t_tools t) (t_toolOrder t) (snd (text_event env i c snap off t))"
    by (metis snd_apsnd)
  then have "t_tools (snd (text_event env i c snap off t))
    = t_tools (with_tools (t_tools t) (t_toolOrder t) (snd (text_event env i c snap off t)))" by (rule arg_cong)
  also have "\<dots> = t_tools t" by (simp add: with_tools_def)
  finally show ?thesis .
qed

text \<open>The start of a call after its entry was made.\<close>

definition start_call :: "Native \<Rightarrow> string \<Rightarrow> string \<Rightarrow> tevent" where
  "start_call e i parent =
     plain_event [(''type'', JStr ''TOOL_CALL_START''), (''toolCallId'', JStr i),
                  (''toolCallName'', JStr (str_or (n_ToolName e) ''unknown'')), (''parentMessageId'', JStr parent)]"

lemma start_call_wire:
  assumes "live u" "map_of (t_tools u) i = None" "\<not> tl_ended s"
  shows "wire_run (wire_tr u) [te_fields (start_call e i p)] (wire_tr (with_tools (AList.update i s (t_tools u)) os u))"
  using assms
  by (intro wire_opens [where s = "(CallStream, i)"] wire_tr_eqI)
    (simp_all add: event_kind start_call_def plain_event_def with_tools_def lane_simps live_flags)

lemma with_tools_live:
  "live u \<Longrightarrow> map_of (t_tools u) i = None \<Longrightarrow> \<not> tl_ended s \<Longrightarrow>
   live (with_tools (AList.update i s (t_tools u)) (t_toolOrder u @ [i]) u)"
  by (auto simp: live_def lanes_defs lane_simps update_conv' with_tools_def)

lemma open_tool_advances:
  assumes "live t"
  shows "advances t (open_tool env e i t)"
proof (cases "map_of (t_tools t) i")
  case (Some s)
  then show ?thesis using assms by (simp add: open_tool_def advances_none)
next
  case None
  let ?p = "tool_parent t e"
  let ?s = "\<lparr>tl_presentation = None, tl_subagent = [], tl_args = [], tl_ended = False, tl_result = False, tl_parent = ?p\<rparr>"
  let ?g = "with_tools (AList.update i ?s (t_tools t)) (t_toolOrder t @ [i])"
  let ?r = "if map_of (t_texts t) ?p = None then text_event env ?p [] True None (?g t) else ([], ?g t)"
  have form: "open_tool env e i t = andThen ?r (\<lambda>u. ([start_call e i ?p], u))"
    using None by (simp add: open_tool_def Let_def start_call_def with_tools_def)
  have g: "live (?g t)" using None assms by (intro with_tools_live) simp_all
  show ?thesis
  proof (cases "map_of (t_texts t) ?p = None")
    case False
    then have form': "open_tool env e i t = ([start_call e i ?p], ?g t)" using form by (auto simp: andThen_def)
    show ?thesis
      unfolding form' using start_call_wire [OF assms None] g by (simp add: advances_def live_flags)
  next
    case True
    let ?r0 = "text_event env ?p [] True None t"
    let ?r1 = "text_event env ?p [] True None (?g t)"
    have r1: "advances (?g t) ?r1" by (rule text_event_advances [OF g])
    have form': "open_tool env e i t = andThen ?r1 (\<lambda>u. ([start_call e i ?p], u))" using form True by simp
    show ?thesis
    proof (cases "t_done (snd ?r1)")
      case True
      then show ?thesis unfolding form' by (simp add: advances_def)
    next
      case False
      have fr: "?r1 = apsnd ?g ?r0" by (rule text_event_frame [OF False])
      then have d: "\<not> t_done (snd ?r0)" using False by (simp add: with_tools_reads)
      have r0: "live (snd ?r0)" "wire_run (wire_tr t) (map te_fields (fst ?r0)) (wire_tr (snd ?r0))"
        using text_event_advances [OF assms, of env ?p "[]" True None] d by (simp_all add: advances_def)
      have tools: "t_tools (snd ?r0) = t_tools t" by (rule text_event_keeps_tools [OF d])
      have "wire_run (wire_tr (snd ?r0)) [te_fields (start_call e i ?p)] (wire_tr (?g (snd ?r0)))"
        using start_call_wire [OF r0(1), of i ?s] None tools by simp
      then have "wire_run (wire_tr t) (map te_fields (fst ?r0) @ [te_fields (start_call e i ?p)]) (wire_tr (?g (snd ?r0)))"
        by (rule wire_run_append [OF r0(2)])
      moreover have "live (?g (snd ?r0))" using r1 False fr by (simp add: advances_def)
      ultimately show ?thesis
        unfolding form' fr by (simp add: andThen_def advances_def split_beta live_flags)
    qed
  qed
qed


lemma open_tool_known: "\<exists>s. map_of (t_tools (snd (open_tool env e i t))) i = Some s"
  if "\<not> t_done (snd (open_tool env e i t))"
proof (cases "map_of (t_tools t) i")
  case (Some s)
  then show ?thesis by (simp add: open_tool_def)
next
  case None
  let ?p = "tool_parent t e"
  let ?s = "\<lparr>tl_presentation = None, tl_subagent = [], tl_args = [], tl_ended = False, tl_result = False, tl_parent = ?p\<rparr>"
  let ?t = "with_tools (AList.update i ?s (t_tools t)) (t_toolOrder t @ [i]) t"
  have "snd (open_tool env e i t)
    = snd (if map_of (t_texts t) ?p = None then text_event env ?p [] True None ?t else ([], ?t))"
    using None by (simp add: open_tool_def Let_def with_tools_def)
  then show ?thesis
    using that text_event_keeps_tools [of env ?p "[]" True None ?t]
    by (auto simp: with_tools_def update_conv' split: if_splits)
qed

lemma write_args_advances:
  assumes "live t" "map_of (t_tools t) i = Some s" "\<not> tl_ended s"
  shows "advances t (write_args e i s a t)"
proof -
  let ?s = "s\<lparr>tl_args := tl_args s @ a\<rparr>"
  let ?u = "t\<lparr>t_tools := AList.update i ?s (t_tools t)\<rparr>"
  let ?v = "t\<lparr>t_tools := AList.update i (?s\<lparr>tl_ended := True\<rparr>) (t_tools t)\<rparr>"
  let ?args = "if a = [] then []
    else [plain_event [(''type'', JStr ''TOOL_CALL_ARGS''), (''toolCallId'', JStr i), (''delta'', JStr a)]]"
  have open': "(CallStream, i) \<in> live_streams t" using assms by simp
  have u: "live ?u" using assms by (auto simp: live_def lanes_defs lane_simps update_conv' split: if_splits)
  have w: "wire_tr ?u = wire_tr t"
    using open' assms by (intro wire_tr_same) (simp_all add: lane_simps insert_absorb del: live_streams_iff)
  have v: "live ?v" using assms by (auto simp: live_def lanes_defs lane_simps update_conv' split: if_splits)
  have args: "wire_run (wire_tr t) (map te_fields ?args) (wire_tr t)"
  proof (cases "a = []")
    case False
    have "wire_run (wire_tr t) [te_fields (plain_event [(''type'', JStr ''TOOL_CALL_ARGS''), (''toolCallId'', JStr i),
        (''delta'', JStr a)])] (wire_tr t)"
      using open' assms
      by (intro wire_writes [where s = "(CallStream, i)"])
        (simp_all add: event_kind plain_event_def live_flags del: live_streams_iff)
    then show ?thesis using False by simp
  qed (simp add: wire_run.intros)
  have "wire_run (wire_tr t) [te_fields (plain_event [(''type'', JStr ''TOOL_CALL_END''), (''toolCallId'', JStr i)])]
      (wire_tr ?v)"
    using open' assms
    by (intro wire_closes [where s = "(CallStream, i)"] wire_tr_eqI)
      (simp_all add: event_kind plain_event_def live_flags lane_simps del: live_streams_iff)
  from wire_run_append [OF args this] show ?thesis
    using u v w args by (simp add: write_args_def Let_def advances_def live_flags)
qed

lemma write_result_advances:
  assumes "live t"
  shows "advances t (write_result env e i t)"
proof (cases "map_of (t_tools t) i")
  case None
  then show ?thesis using assms by (simp add: write_result_def advances_none)
next
  case (Some s)
  let ?u = "t\<lparr>t_tools := AList.update i (s\<lparr>tl_result := True\<rparr>) (t_tools t)\<rparr>"
  have u: "live ?u" using assms Some by (auto simp: live_def lanes_defs lane_simps update_conv' split: if_splits)
  have "live_streams ?u = live_streams t"
    using Some by (intro streams_eqI) (auto simp: update_conv')
  then have "wire_tr ?u = wire_tr t" by (intro wire_tr_same) (simp_all add: lane_simps)
  then show ?thesis
    using Some assms u
    by (auto simp: write_result_def advances_none event_kind plain_event_def live_flags intro!: advances_one wire_beside)
qed

lemma tool_event_done: "t_done t \<Longrightarrow> t_done (snd (tool_event env e t))"
proof -
  assume d: "t_done t"
  let ?i = "toolID t (n_TurnID e) (native_call e)"
  have pair: "open_tool env e ?i t = (fst (open_tool env e ?i t), snd (open_tool env e ?i t))" by simp
  have u: "t_done (snd (open_tool env e ?i t))" by (rule open_tool_done [OF d])
  show ?thesis
    unfolding tool_event_def Let_def
    by (subst pair, unfold prod.case) (auto simp: d u kept split: option.splits sum.splits)
qed

lemma tool_event_advances:
  assumes "live t"
  shows "advances t (tool_event env e t)"
proof (cases "native_call e = []")
  case True
  then show ?thesis using assms by (simp add: tool_event_def advances_none)
next
  case False
  let ?i = "toolID t (n_TurnID e) (native_call e)"
  let ?r = "open_tool env e ?i t"
  have adv: "advances t ?r" by (rule open_tool_advances [OF assms])
  have pair: "?r = (fst ?r, snd ?r)" by simp
  have form: "tool_event env e t =
    (case map_of (t_tools (snd ?r)) ?i of
       None \<Rightarrow> ?r
     | Some s \<Rightarrow> if tl_ended s then andThen ?r (write_result env e ?i)
                else case tool_args env e (tl_args s) of
                       Inl code \<Rightarrow> Fail env (args_message code) code (snd ?r)
                     | Inr args \<Rightarrow> andThen (andThen ?r (write_args e ?i s args)) (write_result env e ?i))"
    using False by (cases "?r") (simp add: tool_event_def Let_def cong: option.case_cong sum.case_cong if_cong)
  show ?thesis
  proof (cases "t_done (snd ?r)")
    case True
    then show ?thesis
      unfolding form by (auto simp: advances_def kept split: option.splits sum.splits)
  next
    case False
    then have u: "live (snd ?r)" using adv by (simp add: advances_def)
    obtain s where s: "map_of (t_tools (snd ?r)) ?i = Some s" using open_tool_known [OF False] by blast
    have result: "advances v (write_result env e ?i v)" if "live v" for v by (rule write_result_advances [OF that])
    show ?thesis
    proof (cases "tl_ended s")
      case True
      then show ?thesis
        unfolding form using s by (simp add: advances_andThen [OF adv] result kept)
    next
      case unended: False
      show ?thesis
      proof (cases "tool_args env e (tl_args s)")
        case (Inl code)
        then show ?thesis
          unfolding form using s unended u by (simp add: Fail_advances)
      next
        case (Inr a)
        have "advances t (andThen ?r (write_args e ?i s a))"
          using s unended by (intro advances_andThen [OF adv] write_args_advances) (simp_all add: kept)
        then have "advances t (andThen (andThen ?r (write_args e ?i s a)) (write_result env e ?i))"
          by (rule advances_andThen) (simp_all add: result kept)
        then show ?thesis
          unfolding form using s unended Inr by simp
      qed
    qed
  qed
qed


section \<open>Steps and thoughts\<close>

lemma open_step_advances:
  assumes "live t"
  shows "advances t (open_step e i t)"
proof (cases "map_of (t_steps t) i")
  case (Some s)
  then show ?thesis using assms by (simp add: open_step_def advances_none)
next
  case None
  let ?s = "\<lparr>sp_subagent = [], sp_name = ''model/'' @ i, sp_ended = False\<rparr>"
  let ?u = "t\<lparr>t_steps := AList.update i ?s (t_steps t), t_stepOrder := t_stepOrder t @ [i], t_activeModel := i\<rparr>"
  have o': "orders_known t" using assms by (simp add: live_def lanes_known_def)
  then have names: "\<And>j r. map_of (t_steps t) j = Some r \<Longrightarrow> sp_name r = ''model/'' @ j"
    by (simp add: orders_known_def)
  have u: "live ?u" using assms None by (auto simp: live_def lanes_defs lane_simps update_conv' split: if_splits)
  have steps: "live_steps ?u = insert (''parent:'', ''model/'' @ i) (live_steps t)"
    using live_steps_update [where s = ?s and i = i and t = t, OF names] by (simp add: lane_simps)
  have "wire_run (wire_tr t) [fs] (wire_tr ?u)"
    if "event_type fs = ''STEP_STARTED''" "stepKey fs = (''parent:'', ''model/'' @ i)" for fs
    using that steps live_step_none [OF o' None] assms
    by (intro wire_step_begins) (simp_all add: lane_simps live_flags)
  then show ?thesis
    using None u
    by (auto simp: open_step_def Let_def standardEvent_def step_key_simps event_type_def intro!: advances_one)
qed

lemma recordUsage_keeps:
  "live (snd (recordUsage e i t)) = live t" "wire_tr (snd (recordUsage e i t)) = wire_tr t"
  "t_done (snd (recordUsage e i t)) = t_done t"
  by (auto simp: recordUsage_def Let_def live_def lanes_defs lane_simps wire_tr_def split: option.splits)

lemma record_usage_event_keeps [kept]: "t_done (snd (record_usage_event e i t)) = t_done t"
  by (simp add: record_usage_event_def recordUsage_keeps split_beta)

lemma advances_beside:
  assumes "live u" "wire_tr u = wire_tr t" "event_type (te_fields v) \<in> set other_types"
  shows "advances t ([v], u)"
proof (rule advances_one [OF assms(1)])
  have "w_running (wire_tr u)" using assms(1) by (simp add: live_def)
  then have "w_running (wire_tr t)" using assms(2) by simp
  then show "wire_run (wire_tr t) [te_fields v] (wire_tr u)"
    by (rule wire_beside [OF assms(3)]) (rule assms(2))
qed

lemma record_usage_event_advances:
  assumes "live t"
  shows "advances t (record_usage_event e i t)"
proof (cases "fst (recordUsage e i t)")
  case True
  have "advances t ([usageEvent i (snd (recordUsage e i t))], snd (recordUsage e i t))"
    using assms by (intro advances_beside)
      (simp_all add: recordUsage_keeps usageEvent_def custom_event_def plain_event_def event_kind)
  then show ?thesis using True by (simp add: record_usage_event_def split_beta)
next
  case False
  have "advances t ([], snd (recordUsage e i t))"
    using assms by (simp add: advances_def recordUsage_keeps wire_run.intros)
  then show ?thesis using False by (simp add: record_usage_event_def split_beta)
qed

lemma complete_step_advances:
  assumes "live t"
  shows "advances t (complete_step env i t)"
proof (cases "map_of (t_steps t) i")
  case None
  then show ?thesis using assms by (simp add: complete_step_def advances_none)
next
  case (Some s)
  show ?thesis
  proof (cases "sp_ended s")
    case True
    then show ?thesis using Some assms by (simp add: complete_step_def advances_none)
  next
    case False
    let ?r = "closeReasoning env i t"
    have steps: "t_steps (snd ?r) = t_steps t"
      by (simp add: closeReasoning_def each_keeps [where g = t_steps] close_thought_def close_span_def end_span_def
          split: option.splits)
    have n: "sp_name s = ''model/'' @ i"
      using Some assms by (auto simp: live_def lanes_known_def orders_known_def)
    have "advances (snd ?r)
        ([standardEvent [(''type'', JStr ''STEP_FINISHED''), (''stepName'', JStr (sp_name s))]],
         (snd ?r)\<lparr>t_steps := AList.update i (s\<lparr>sp_ended := True\<rparr>) (t_steps (snd ?r)),
                  t_activeModel := (if t_activeModel (snd ?r) = i then [] else t_activeModel (snd ?r))\<rparr>)"
      if l: "live (snd ?r)"
    proof (rule advances_one)
      note ended = step_ended [OF l _ False _ _ refl, of i "[(''type'', JStr ''STEP_FINISHED''), (''stepName'', JStr (sp_name s))]"]
      show "live ((snd ?r)\<lparr>t_steps := AList.update i (s\<lparr>sp_ended := True\<rparr>) (t_steps (snd ?r)),
                  t_activeModel := (if t_activeModel (snd ?r) = i then [] else t_activeModel (snd ?r))\<rparr>)"
        by (rule ended(1)) (simp_all add: Some steps n event_type_def step_key_simps)
      show "wire_run (wire_tr (snd ?r))
        [te_fields (standardEvent [(''type'', JStr ''STEP_FINISHED''), (''stepName'', JStr (sp_name s))])]
        (wire_tr ((snd ?r)\<lparr>t_steps := AList.update i (s\<lparr>sp_ended := True\<rparr>) (t_steps (snd ?r)),
                  t_activeModel := (if t_activeModel (snd ?r) = i then [] else t_activeModel (snd ?r))\<rparr>))"
        unfolding standardEvent_def tevent.select_convs
        by (rule ended(2)) (simp_all add: Some steps n event_type_def step_key_simps)
    qed
    then show ?thesis
      using Some False assms by (simp add: complete_step_def advances_andThen closeReasoning_advances)
  qed
qed

lemma complete_step_keeps [kept]: "t_done (snd (complete_step env i t)) = t_done t"
  by (simp add: complete_step_def kept split: option.splits)

lemma open_step_keeps [kept]: "t_done (snd (open_step e i t)) = t_done t"
  by (simp add: open_step_def Let_def)

lemma modelStep_advances: "live t \<Longrightarrow> advances t (modelStep env e c t)"
  by (auto simp: modelStep_def Let_def Fail_advances kept advances_none
      intro!: advances_andThen open_step_advances record_usage_event_advances complete_step_advances)

lemma modelStep_done: "t_done t \<Longrightarrow> t_done (snd (modelStep env e c t))"
  by (simp add: modelStep_def Let_def kept)

lemma spans_known_open [simp]:
  assumes "spans_known t" "map_of (t_reasonings t) i = None" "b \<longrightarrow> rs_span s = p"
  shows "spans_known (t\<lparr>t_reasonings := AList.update i s (t_reasonings t),
                        t_reasoningSpans := (if b then AList.update p True (t_reasoningSpans t)
                                             else t_reasoningSpans t)\<rparr>)"
    (is "spans_known ?u")
  unfolding spans_known_def
proof (intro conjI allI impI)
  show "distinct (keys (t_reasonings ?u))"
    using assms by (simp add: spans_known_def distinct_update)
next
  fix q
  assume q: "map_of (t_reasoningSpans ?u) q = Some True"
  show "\<exists>j r. map_of (t_reasonings ?u) j = Some r \<and> rs_span r = q"
  proof (cases "b \<and> q = p")
    case True
    then show ?thesis using assms(3) by (auto simp: update_conv' intro!: exI [of _ i])
  next
    case False
    then have "map_of (t_reasoningSpans t) q = Some True" using q by (auto simp: update_conv' split: if_splits)
    then obtain j r where "map_of (t_reasonings t) j = Some r" "rs_span r = q"
      using assms(1) by (auto simp: spans_known_def)
    then show ?thesis using assms(2) by (cases "j = i") (auto simp: update_conv' intro!: exI [of _ j])
  qed
qed

lemma open_thought_advances:
  assumes "live t"
  shows "advances t (open_thought e i t)"
proof (cases "map_of (t_reasonings t) i")
  case (Some s)
  then show ?thesis using assms by (simp add: open_thought_def advances_none)
next
  case None
  let ?p = "str_or (n_ReasoningSpanID e) (i @ ''/span'')"
  let ?s = "\<lparr>rs_subagent = [], rs_span = ?p, rs_owner = t_activeModel t, rs_content = [], rs_ended = False\<rparr>"
  let ?b = "map_of (t_reasoningSpans t) ?p \<noteq> Some True"
  let ?spans = "if ?b then AList.update ?p True (t_reasoningSpans t) else t_reasoningSpans t"
  let ?a = "t\<lparr>t_reasoningSpans := ?spans\<rparr>"
  let ?u = "t\<lparr>t_reasonings := AList.update i ?s (t_reasonings t), t_reasoningOrder := t_reasoningOrder t @ [i],
              t_reasoningSpans := ?spans\<rparr>"
  let ?st = "[(''type'', JStr ''REASONING_START''), (''messageId'', JStr ?p)]"
  let ?ms = "[(''type'', JStr ''REASONING_MESSAGE_START''), (''messageId'', JStr i), (''role'', JStr ''reasoning'')]"
  have "spans_known (t\<lparr>t_reasonings := AList.update i ?s (t_reasonings t), t_reasoningSpans := ?spans\<rparr>)"
    using assms None by (intro spans_known_open) (simp_all add: live_def lanes_known_def)
  then have "spans_known ?u" by (rule spans_known_cong [THEN iffD1, rotated 2]) simp_all
  then have u: "live ?u" using assms None by (auto simp: live_def lanes_defs lane_simps update_conv' split: if_splits)
  have first: "wire_run (wire_tr t) (if ?b then [?st] else []) (wire_tr ?a)"
  proof (cases ?b)
    case True
    have "wire_run (wire_tr t) [?st] (wire_tr ?a)"
      using True assms by (intro wire_opens [where s = "(SpanStream, ?p)"] wire_tr_eqI)
        (simp_all add: event_kind lane_simps live_flags)
    then show ?thesis using True by simp
  qed (simp add: wire_run.intros)
  have "live_streams ?u = insert (ThoughtStream, i) (live_streams ?a)"
    by (rule streams_eqI) (auto simp: update_conv')
  then have "wire_run (wire_tr ?a) [?ms] (wire_tr ?u)"
    using None assms by (intro wire_opens [where s = "(ThoughtStream, i)"] wire_tr_eqI)
      (simp_all add: event_kind lane_simps live_flags)
  from wire_run_append [OF first this] show ?thesis
    using None u by (simp add: open_thought_def Let_def advances_def standardEvent_def if_distrib [of "map te_fields"]
        cong: if_cong)
qed


lemma open_thought_known: "\<exists>s. map_of (t_reasonings (snd (open_thought e i t))) i = Some s"
  by (auto simp: open_thought_def Let_def update_conv')

lemma thought_keeps [kept]:
  "t_done (snd (open_thought e i t)) = t_done t" "t_done (snd (write_thought e i s t)) = t_done t"
  "t_done (snd (reasoning_event e t)) = t_done t"
  by (simp_all add: open_thought_def write_thought_def reasoning_event_def Let_def split: prod.splits option.splits)

lemma encrypted_beside:
  "live t \<Longrightarrow> wire_run (wire_tr t) [te_fields (encrypted_event a b c)] (wire_tr t)"
  by (intro wire_beside) (simp_all add: encrypted_event_def standardEvent_def event_kind live_flags)

lemma write_thought_advances:
  assumes "live t" "map_of (t_reasonings t) i = Some s" "\<not> rs_ended s"
  shows "advances t (write_thought e i s t)"
proof -
  let ?u = "t\<lparr>t_reasonings := AList.update i (s\<lparr>rs_content := rs_content s @ n_Content e\<rparr>) (t_reasonings t)\<rparr>"
  have in_open: "(ThoughtStream, i) \<in> live_streams t" using assms by simp
  have u: "live ?u" using assms by (auto simp: live_def lanes_defs lane_simps update_conv' split: if_splits)
  have w: "wire_tr ?u = wire_tr t"
    using in_open assms by (intro wire_tr_same) (simp_all add: lane_simps insert_absorb del: live_streams_iff)
  have content: "wire_run (wire_tr t)
      [[(''type'', JStr ''REASONING_MESSAGE_CONTENT''), (''messageId'', JStr i), (''delta'', JStr d)]] (wire_tr t)" for d
    using in_open assms
    by (intro wire_writes [where s = "(ThoughtStream, i)"]) (simp_all add: event_kind live_flags del: live_streams_iff)
  have enc: "wire_run (wire_tr t) [te_fields (encrypted_event a b c)] (wire_tr t)" for a b c
    by (rule encrypted_beside [OF assms(1)])
  show ?thesis
    using u w content enc wire_run_append [OF content enc]
    by (simp add: write_thought_def advances_def standardEvent_def wire_run.intros)
qed

lemma open_thought_ended:
  "map_of (t_reasonings (snd (open_thought e i t))) i = Some s \<Longrightarrow> rs_ended s \<Longrightarrow> open_thought e i t = ([], t)"
  by (auto simp: open_thought_def Let_def update_conv' split: if_splits)

lemma reasoning_event_advances:
  assumes "live t"
  shows "advances t (reasoning_event e t)"
proof (cases "n_EncryptedValue e \<noteq> [] \<and> n_EncryptedSubtype e = ''tool-call''")
  case True
  then show ?thesis
    using assms encrypted_beside [OF assms] by (simp add: reasoning_event_def advances_def)
next
  case False
  let ?i = "thought_id e"
  let ?r = "open_thought e ?i t"
  have adv: "advances t ?r" by (rule open_thought_advances [OF assms])
  obtain s where s: "map_of (t_reasonings (snd ?r)) ?i = Some s" using open_thought_known by blast
  have form: "reasoning_event e t = (if rs_ended s then ([], snd ?r) else andThen ?r (write_thought e ?i s))"
    using False s by (cases ?r) (auto simp: reasoning_event_def Let_def)
  show ?thesis
  proof (cases "rs_ended s")
    case True
    then show ?thesis using form open_thought_ended [OF s] assms by (simp add: advances_none)
  next
    case False
    have "advances t (andThen ?r (write_thought e ?i s))"
      using s False by (intro advances_andThen [OF adv] write_thought_advances) (simp_all add: kept)
    then show ?thesis using form False by simp
  qed
qed

lemma closeReasoningItem_advances: "live t \<Longrightarrow> advances t (closeReasoningItem i t)"
  by (auto simp: closeReasoningItem_def advances_none kept
      intro!: advances_andThen close_thought_advances end_span_advances split: option.splits)

lemma close_item_advances:
  assumes "live t"
  shows "advances t (close_item e i t)"
  unfolding close_item_def
proof (rule advances_andThen [OF closeReasoningItem_advances [OF assms]])
  let ?u = "snd (closeReasoningItem (n_ReasoningMessageID e) t)"
  assume u: "live ?u"
  show "advances ?u (case map_of (t_texts ?u) i of
      None \<Rightarrow> ([], ?u)
    | Some s \<Rightarrow>
        if tx_ended s then ([], ?u)
        else ([plain_event [(''type'', JStr ''TEXT_MESSAGE_END''), (''messageId'', JStr i)]],
              ?u\<lparr>t_texts := AList.update i (s\<lparr>tx_ended := True\<rparr>) (t_texts ?u)\<rparr>))"
  proof (cases "map_of (t_texts ?u) i")
    case None
    then show ?thesis using u by (simp add: advances_none)
  next
    case (Some s)
    have "advances ?u ([plain_event [(''type'', JStr ''TEXT_MESSAGE_END''), (''messageId'', JStr i)]],
              ?u\<lparr>t_texts := AList.update i (s\<lparr>tx_ended := True\<rparr>) (t_texts ?u)\<rparr>)" if "\<not> tx_ended s"
    proof (rule advances_one)
      show "live (?u\<lparr>t_texts := AList.update i (s\<lparr>tx_ended := True\<rparr>) (t_texts ?u)\<rparr>)"
        using u Some by (auto simp: live_def lanes_defs lane_simps update_conv' split: if_splits)
      show "wire_run (wire_tr ?u) [te_fields (plain_event [(''type'', JStr ''TEXT_MESSAGE_END''), (''messageId'', JStr i)])]
          (wire_tr (?u\<lparr>t_texts := AList.update i (s\<lparr>tx_ended := True\<rparr>) (t_texts ?u)\<rparr>))"
        using that Some u by (intro wire_closes [where s = "(TextStream, i)"] wire_tr_eqI)
          (simp_all add: event_kind plain_event_def lane_simps live_flags)
    qed
    then show ?thesis using Some u by (simp add: advances_none)
  qed
qed (simp add: kept split: option.splits)

end
