(* ===== verification/AguiJournal.thy ===== *)
theory AguiJournal
  imports AguiLanes
begin

text \<open>
  What \<open>Translate\<close> writes: from the operations on lanes (\<open>AguiLanes\<close>) to whole calls. Stamping an event does not
  change what it means to the protocol, and capturing what was written does not touch the lanes. So a run that goes on
  is a run of the protocol, its end closes it, and nothing follows the end.
\<close>

section \<open>Presentations\<close>

lemma presentationActivity_advances: "live t \<Longrightarrow> advances t (presentationActivity env k i c t)"
  by (auto simp: presentationActivity_def Let_def Fail_advances advances_none standardEvent_def event_kind
      intro!: advances_beside)

lemma presentation_done [kept]: "t_done t \<Longrightarrow> t_done (snd (presentationActivity env k i c t))"
  by (simp add: presentationActivity_def Let_def kept)

lemma activities_advance:
  assumes "live t"
  shows "advances t (turnPresentation env e t)" "advances t (feedPresentation env e t)"
    "advances t (plannedToolsPresentation env e t)" "advances t (plannerPresentation env e t)"
    "advances t (narrationPresentation env e t)"
  using assms
  by (simp_all add: turnPresentation_def feedPresentation_def plannedToolsPresentation_def plannerPresentation_def
      narrationPresentation_def Let_def advances_none presentationActivity_advances)

lemma activities_done [kept]:
  assumes "t_done t"
  shows "t_done (snd (turnPresentation env e t))" "t_done (snd (narrationPresentation env e t))"
  using assms
  by (simp_all add: turnPresentation_def narrationPresentation_def Let_def kept)

lemma on_tool_presentation:
  assumes "live t"
  shows "live (on_tool i (\<lambda>s. s\<lparr>tl_presentation := v\<rparr>) t)" "wire_tr (on_tool i (\<lambda>s. s\<lparr>tl_presentation := v\<rparr>) t) = wire_tr t"
proof -
  show "live (on_tool i (\<lambda>s. s\<lparr>tl_presentation := v\<rparr>) t)"
    using assms by (auto simp: on_tool_def live_def lanes_defs lane_simps update_conv' split: option.splits if_splits)
  have "live_streams (on_tool i (\<lambda>s. s\<lparr>tl_presentation := v\<rparr>) t) = live_streams t"
    by (rule streams_eqI) (auto simp: on_tool_def update_conv' split: option.splits)
  then show "wire_tr (on_tool i (\<lambda>s. s\<lparr>tl_presentation := v\<rparr>) t) = wire_tr t"
    by (intro wire_tr_same) (auto simp: on_tool_def lane_simps split: option.splits)
qed

lemma toolExecutionPresentation_advances:
  assumes "live t"
  shows "advances t (toolExecutionPresentation env e t)"
  using assms
  by (auto simp: toolExecutionPresentation_def Let_def advances_none on_tool_presentation
      intro!: advances_from [OF presentationActivity_advances])

lemma on_tool_keeps [kept]: "t_done (on_tool i f t) = t_done t" "t_toolOrder (on_tool i f t) = t_toolOrder t"
  by (simp_all add: on_tool_def split: option.splits)

lemma toolExecutionPresentation_done [kept]: "t_done t \<Longrightarrow> t_done (snd (toolExecutionPresentation env e t))"
  by (simp add: toolExecutionPresentation_def Let_def kept)

section \<open>The events of one source event\<close>

lemma custom_beside: "live t \<Longrightarrow> advances t ([custom_event name v], t)"
  by (rule advances_beside) (simp_all add: custom_event_def plain_event_def event_kind)

lemma aggregate_advances: "live t \<Longrightarrow> advances t (aggregateUsagePresentation e, t)"
  by (auto simp: aggregateUsagePresentation_def Let_def custom_beside advances_none)

lemma concluding_advances [simp]:
  "advances s (andThen r (Finish env o' ))" "advances s (andThen r (Fail env msg code))" "advances s (Fail env msg code t)"
  by (simp_all add: advances_def kept)

lemma native_events_advances:
  assumes "live t"
  shows "advances t (native_events env known e i t)"
  unfolding native_events_def Let_def
  using assms
  by (auto simp: advances_none custom_beside linked_event_def queue_event_def progress_event_def kept
      text_event_advances close_item_advances reasoning_event_advances modelStep_advances activities_advance
      intro!: advances_andThen tool_event_advances record_usage_event_advances toolExecutionPresentation_advances
        aggregate_advances)


section \<open>Stamping\<close>

text \<open>Two events that agree on everything but their metadata and time stamp.\<close>

definition same_event :: "obj \<Rightarrow> obj \<Rightarrow> bool" where
  "same_event a b \<longleftrightarrow> (\<forall>k. k \<noteq> ''metadata'' \<and> k \<noteq> ''timestamp'' \<longrightarrow> map_of a k = map_of b k)"

lemma same_event_field: "same_event a b \<Longrightarrow> k \<noteq> ''metadata'' \<Longrightarrow> k \<noteq> ''timestamp'' \<Longrightarrow> field a k = field b k"
  by (simp add: same_event_def field_def)

lemma same_event_wire:
  assumes "same_event a b"
  shows "event_type a = event_type b" "opens a = opens b" "writes a = writes b" "closes a = closes b"
    "run_ident a = run_ident b" "stepKey a = stepKey b" "lane a = lane b"
proof -
  note f = same_event_field [OF assms]
  show ty: "event_type a = event_type b" by (simp add: event_type_def f)
  have i: "stream_id k a = stream_id k b" for k by (cases k) (simp_all add: stream_id_def f)
  show "opens a = opens b" "writes a = writes b" "closes a = closes b"
    by (simp_all add: opens_def writes_def closes_def ty i)
  show "run_ident a = run_ident b" "lane a = lane b" by (simp_all add: run_ident_def lane_def f)
  have "map_of a ''subagentRunId'' = map_of b ''subagentRunId''" using assms by (simp add: same_event_def)
  then show "stepKey a = stepKey b" by (simp add: step_key_simps f)
qed

lemma wire_step_same:
  assumes "same_event a b" "wire_step w a v"
  shows "wire_step w b v"
proof -
  note s = same_event_wire [OF assms(1)]
  show ?thesis using assms(2)
  proof cases
    case run_begins
    then show ?thesis using wire_step.run_begins [of b w] by (simp add: s)
  next
    case run_finishes
    then show ?thesis using wire_step.run_finishes [of b w] by (simp add: s)
  next
    case run_fails
    then show ?thesis using wire_step.run_fails [of b w] by (simp add: s)
  next
    case (stream_opens x)
    then show ?thesis using wire_step.stream_opens [of b x w] by (simp add: s)
  next
    case (stream_written x)
    then show ?thesis using wire_step.stream_written [of b x w] by (simp add: s)
  next
    case (stream_closes x)
    then show ?thesis using wire_step.stream_closes [of b x w] by (simp add: s)
  next
    case step_begins
    then show ?thesis using wire_step.step_begins [of b w] by (simp add: s)
  next
    case step_ends
    then show ?thesis using wire_step.step_ends [of b w] by (simp add: s)
  next
    case subagent_begins
    then show ?thesis using wire_step.subagent_begins [of b w] by (simp add: s)
  next
    case subagent_ends
    then show ?thesis using wire_step.subagent_ends [of b w] by (simp add: s)
  next
    case beside
    then show ?thesis using wire_step.beside [of b w] by (simp add: s)
  qed
qed

lemma wire_run_same:
  assumes "list_all2 same_event xs ys" "wire_run w xs v"
  shows "wire_run w ys v"
  using assms
  by (induction xs ys arbitrary: w rule: list_all2_induct)
    (auto elim!: wire_runE intro: wire_run.intros wire_step_same)

lemma same_event_put: "same_event fs (put ''metadata'' v fs)" "same_event fs (put ''timestamp'' v fs)"
  by (simp_all add: same_event_def put_def update_conv')

lemma same_event_trans: "same_event a b \<Longrightarrow> same_event b c \<Longrightarrow> same_event a c"
  by (simp add: same_event_def)

lemma same_event_refl [simp]: "same_event a a"
  by (simp add: same_event_def)

lemma with_timestamp_same: "same_event (te_fields v) (with_timestamp v)"
  by (simp add: with_timestamp_def same_event_put)

lemma annotate_same: "same_event (te_fields v) (te_fields (annotateNativePresentation env v e))"
proof (cases "n_Type e = ''protocol_event'' \<or> MarshalJSON env v = None")
  case True
  then show ?thesis by (auto simp: annotateNativePresentation_def)
next
  case False
  then have "MarshalJSON env v = Some (with_timestamp v)" by (auto simp: MarshalJSON_def split: if_splits)
  then show ?thesis
    using False same_event_trans [OF with_timestamp_same same_event_put(1)]
    by (simp add: annotateNativePresentation_def Let_def)
qed

lemma stamp_same: "same_event (te_fields v) (te_fields (stamp env e v))"
proof (cases "n_CreatedAt e")
  case None
  then show ?thesis using annotate_same by (simp add: stamp_def)
next
  case (Some t)
  then show ?thesis using annotate_same [of "v\<lparr>te_timestamp := t div Millisecond\<rparr>" env e] by (simp add: stamp_def)
qed

lemma stamp_wire:
  "wire_run w (map te_fields es) v \<Longrightarrow> wire_run w (map te_fields (map (stamp env e) es)) v"
  by (rule wire_run_same [rotated], assumption) (simp add: list.rel_map list_all2_same stamp_same)

text \<open>A stamped event is a standard variant whose lanes are not advanced again. What the translator writes for native
  events starts no subagent, is no chunk and starts only steps of the model.\<close>

definition chunk_types :: "string list" where
  "chunk_types = [''TEXT_MESSAGE_CHUNK'', ''REASONING_MESSAGE_CHUNK'', ''TOOL_CALL_CHUNK'']"

definition subagent_types :: "string list" where
  "subagent_types = [''SUBAGENT_STARTED'', ''SUBAGENT_FINISHED'', ''SUBAGENT_ERROR'']"

definition restorable :: "obj \<Rightarrow> bool" where
  "restorable fs \<longleftrightarrow>
     field fs ''type'' \<notin> set chunk_types \<and> field fs ''type'' \<notin> set subagent_types
     \<and> (field fs ''type'' = ''CUSTOM'' \<longrightarrow> field fs ''name'' \<noteq> ''agently.invocation'')
     \<and> (field fs ''type'' = ''STEP_STARTED'' \<longrightarrow>
          strip_prefix ''model/'' (field fs ''stepName'') \<noteq> None \<and> map_of fs ''subagentRunId'' = None)"

definition form_ok :: "tevent \<Rightarrow> bool" where
  "form_ok v \<longleftrightarrow> (te_standard v \<longrightarrow> te_applied v) \<and> restorable (te_fields v)"

lemma restorable_same: "same_event a b \<Longrightarrow> restorable a \<Longrightarrow> restorable b"
  by (simp add: restorable_def same_event_def field_def)

lemma stamp_form:
  assumes "n_Type e \<noteq> ''protocol_event''" "form_ok v"
  shows "te_standard (stamp env e v)" "te_applied (stamp env e v)"
proof -
  have "te_standard (annotateNativePresentation env u e) \<and> te_applied (annotateNativePresentation env u e)"
    if "form_ok u" for u
    using assms(1) that
    by (auto simp: annotateNativePresentation_def Let_def MarshalJSON_def form_ok_def split: option.splits)
  then show "te_standard (stamp env e v)" "te_applied (stamp env e v)"
    using assms(2) by (auto simp: stamp_def form_ok_def split: option.splits)
qed


section \<open>Capturing leaves the lanes alone\<close>

definition keeps :: "Translator \<Rightarrow> Translator \<Rightarrow> bool" where
  "keeps t u \<longleftrightarrow>
     (orders_known t \<longrightarrow> orders_known u \<and> live_streams u = live_streams t \<and> live_steps u = live_steps t)
     \<and> (spans_known t \<longrightarrow> spans_known u) \<and> t_started u = t_started t \<and> t_done u = t_done t \<and> t_threadID u = t_threadID t \<and> t_runID u = t_runID t
     \<and> t_toolOrder u = t_toolOrder t \<and> t_historyErr u = t_historyErr t"

lemma keeps_refl [simp]: "keeps t t"
  by (simp add: keeps_def)

lemma keeps_trans: "keeps t u \<Longrightarrow> keeps u v \<Longrightarrow> keeps t v"
  by (auto simp: keeps_def)

lemma keeps_live: "keeps t u \<Longrightarrow> lanes_known t \<Longrightarrow> lanes_known u" "keeps t u \<Longrightarrow> orders_known t \<Longrightarrow> wire_tr u = wire_tr t"
  by (auto simp: keeps_def lanes_known_def wire_tr_def)

lemma keeps_saveMessage [simp]: "keeps t (saveMessage i m t)"
  by (simp add: keeps_def saveMessage_def lanes_defs lane_simps)

lemma keeps_usage [simp]: "keeps t (t\<lparr>t_usage := u\<rparr>)" "keeps t (t\<lparr>t_messages := ms\<rparr>)"
  by (simp_all add: keeps_def lanes_defs lane_simps)

lemma keeps_on_text:
  assumes "\<And>s. tx_ended (f s) = tx_ended s"
  shows "keeps t (on_text i f t)"
proof (cases "map_of (t_texts t) i")
  case None
  then show ?thesis by (simp add: on_text_def)
next
  case (Some s)
  have "live_streams (on_text i f t) = live_streams t"
    using Some assms by (intro streams_eqI) (auto simp: on_text_def update_conv')
  then show ?thesis
    using Some assms by (auto simp: keeps_def on_text_def lanes_defs lane_simps update_conv' split: if_splits)
qed

lemma keeps_on_tool:
  assumes "\<And>s. tl_ended (f s) = tl_ended s"
  shows "keeps t (on_tool i f t)"
proof (cases "map_of (t_tools t) i")
  case None
  then show ?thesis by (simp add: on_tool_def)
next
  case (Some s)
  have "live_streams (on_tool i f t) = live_streams t"
    using Some assms by (intro streams_eqI) (auto simp: on_tool_def update_conv')
  then show ?thesis
    using Some assms by (auto simp: keeps_def on_tool_def lanes_defs lane_simps update_conv' split: if_splits)
qed

lemma keeps_on_thought:
  assumes "\<And>s. rs_ended (f s) = rs_ended s" "\<And>s. rs_span (f s) = rs_span s"
  shows "keeps t (on_thought i f t)"
proof (cases "map_of (t_reasonings t) i")
  case None
  then show ?thesis by (simp add: on_thought_def)
next
  case (Some s)
  have "live_streams (on_thought i f t) = live_streams t"
    using Some assms by (intro streams_eqI) (auto simp: on_thought_def update_conv')
  then show ?thesis
    using Some assms by (auto simp: keeps_def on_thought_def lanes_defs lane_simps update_conv' split: if_splits)
qed

lemma keeps_fold: "(\<And>x u. keeps u (f x u)) \<Longrightarrow> keeps t (fold f xs t)"
  by (induction xs arbitrary: t) (auto intro: keeps_trans)

lemma keeps_reread: "keeps t (reread_message m t)"
proof -
  let ?i = "field m ''id''" and ?c = "field m ''content''"
  let ?a = "\<lambda>v. on_tool (field (call_obj v) ''id'')
    (\<lambda>s. s\<lparr>tl_args := field (members_or_empty (call_obj v) ''function'') ''arguments''\<rparr>)"
  have "keeps u (?a v u)" for v u by (rule keeps_on_tool) simp
  then have calls: "keeps u (fold ?a (tool_calls m) u)" for u by (rule keeps_fold)
  have texts: "keeps t (on_text ?i (\<lambda>s. s\<lparr>tx_content := ?c\<rparr>) t)" by (rule keeps_on_text) simp
  have thoughts: "keeps t (on_thought ?i (\<lambda>s. s\<lparr>rs_content := ?c\<rparr>) t)" by (rule keeps_on_thought) simp_all
  show ?thesis
    using keeps_trans [OF texts calls] thoughts by (simp add: reread_message_def Let_def)
qed

text \<open>The calls of a history are closed; those of the current run keep their state.\<close>

definition all_ended :: "(string \<times> toolState) list \<Rightarrow> bool" where
  "all_ended ts \<longleftrightarrow> (\<forall>i s. map_of ts i = Some s \<longrightarrow> tl_ended s)"

lemma history_calls_ended: "all_ended ts \<Longrightarrow> all_ended (history_call m v ts)" "all_ended ts \<Longrightarrow> all_ended (history_receipt m ts)"
proof -
  show "all_ended ts \<Longrightarrow> all_ended (history_call m v ts)"
    by (simp add: all_ended_def history_call_def Let_def update_conv')
  show "all_ended ts \<Longrightarrow> all_ended (history_receipt m ts)"
    by (cases "map_of ts (field m ''toolCallId'')") (simp_all add: all_ended_def history_receipt_def update_conv')
qed

lemma fold_invariant: "P s \<Longrightarrow> (\<And>x s. P s \<Longrightarrow> P (f x s)) \<Longrightarrow> P (fold f xs s)"
  by (induction xs arbitrary: s) auto

lemma historicalToolStates_ended:
  assumes "historicalToolStates ms = Some h"
  shows "all_ended h"
proof -
  let ?f = "\<lambda>m ts. if field m ''role'' = ''assistant'' then fold (history_call m) (tool_calls m) ts else ts"
  have step: "all_ended (?f m ts)" if "all_ended ts" for m ts
    using fold_invariant [where P = all_ended and f = "history_call m", OF that history_calls_ended(1)] that by simp
  have "all_ended (fold ?f ms [])"
    by (rule fold_invariant [of all_ended]) (simp add: all_ended_def, rule step)
  then have "all_ended (fold history_receipt ms (fold ?f ms []))"
    by (rule fold_invariant [of all_ended]) (rule history_calls_ended(2))
  then show ?thesis using assms by (simp add: historicalToolStates_def split: if_splits)
qed

lemma refresh_one_state:
  "map_of (refresh_one live' i h) j =
     (if j = i \<and> map_of live' i \<noteq> None
      then Some (case map_of h i of None \<Rightarrow> the (map_of live' i)
                 | Some c \<Rightarrow> (the (map_of live' i))\<lparr>tl_args := tl_args c, tl_result := (tl_result (the (map_of live' i)) \<or> tl_result c)\<rparr>)
      else map_of h j)"
  by (auto simp: refresh_one_def update_conv' split: option.splits)

lemma refresh_fold:
  assumes "\<forall>i \<in> set os. map_of live' i \<noteq> None"
  shows "map_option tl_ended (map_of (fold (refresh_one live') os h) j) =
     (if j \<in> set os then map_option tl_ended (map_of live' j) else map_option tl_ended (map_of h j))"
  using assms
proof (induction os arbitrary: h)
  case (Cons i os)
  then have some: "map_of live' i \<noteq> None" by simp
  have "map_option tl_ended (map_of (refresh_one live' i h) j)
    = (if j = i then map_option tl_ended (map_of live' i) else map_option tl_ended (map_of h j))"
    using some by (auto simp: refresh_one_state split: option.splits)
  then show ?case using Cons by (cases "j = i") simp_all
qed simp

lemma keeps_refresh:
  assumes "refreshHistoricalTools ms t = Some u"
  shows "keeps t u"
proof -
  obtain h where h: "historicalToolStates ms = Some h"
    and u: "u = t\<lparr>t_tools := fold (refresh_one (t_tools t)) (t_toolOrder t) h\<rparr>"
    using assms by (auto simp: refreshHistoricalTools_def)
  have "orders_known u \<and> live_streams u = live_streams t \<and> live_steps u = live_steps t" if ok: "orders_known t"
  proof -
    have known: "\<forall>i \<in> set (t_toolOrder t). map_of (t_tools t) i \<noteq> None"
      "\<forall>i s. map_of (t_tools t) i = Some s \<and> \<not> tl_ended s \<longrightarrow> i \<in> set (t_toolOrder t)"
      using ok by (auto simp: orders_known_def)
    have ended: "map_option tl_ended (map_of (t_tools u) j)
        = (if j \<in> set (t_toolOrder t) then map_option tl_ended (map_of (t_tools t) j) else map_option tl_ended (map_of h j))"
      for j
      unfolding u using refresh_fold [OF known(1)] by simp
    have calls: "(CallStream, j) \<in> live_streams u \<longleftrightarrow> (CallStream, j) \<in> live_streams t" for j
    proof -
      have call: "(CallStream, j) \<in> live_streams v \<longleftrightarrow> map_option tl_ended (map_of (t_tools v) j) = Some False" for v
        by auto
      have "map_option tl_ended (map_of h j) \<noteq> Some False" using historicalToolStates_ended [OF h] by (auto simp: all_ended_def)
      moreover have "j \<notin> set (t_toolOrder t) \<Longrightarrow> map_option tl_ended (map_of (t_tools t) j) \<noteq> Some False"
        using known(2) by auto
      ultimately show ?thesis unfolding call using ended [of j] by (metis (no_types, lifting))
    qed
    have streams: "live_streams u = live_streams t"
      by (rule streams_eqI) (use calls in \<open>simp_all only:\<close>, simp_all add: u)
    have dom: "map_of (t_tools u) i \<noteq> None" if "i \<in> set (t_toolOrder t)" for i
      using ended [of i] that known(1) by (cases "map_of (t_tools u) i") auto
    have order: "i \<in> set (t_toolOrder t)" if "map_of (t_tools u) i = Some s" "\<not> tl_ended s" for i s
    proof -
      have "(CallStream, i) \<in> live_streams t" using calls [of i] that by auto
      then show ?thesis using known(2) by auto
    qed
    have "orders_known u"
      using ok dom order by (auto simp: orders_known_def u)
    then show ?thesis using streams by (auto simp: u lane_simps)
  qed
  then show ?thesis by (auto simp: keeps_def u)
qed


text \<open>Events that capturing does not take for something new: no chunk, no unknown call, no invocation.\<close>

definition heard :: "string list \<Rightarrow> obj \<Rightarrow> bool" where
  "heard os fs \<longleftrightarrow>
     field fs ''type'' \<notin> set chunk_types
     \<and> (field fs ''type'' = ''TOOL_CALL_START'' \<longrightarrow> field fs ''toolCallId'' \<in> set os)
     \<and> (field fs ''type'' = ''CUSTOM'' \<longrightarrow> field fs ''name'' \<noteq> ''agently.invocation'')"

lemma keeps_arguments: "appendToolArguments p i d t = Some (u, err) \<Longrightarrow> keeps t u"
  by (auto simp: appendToolArguments_def captured_ok_def split: option.splits)

lemma captured_simps [simp]:
  "captured_ok t = Some (u, err) \<longleftrightarrow> u = t \<and> err = None"
  "captured_error m t = Some (u, err) \<longleftrightarrow> u = t \<and> err = Some m"
  by (auto simp: captured_ok_def captured_error_def)

lemma keeps_encrypted: "keeps t (encrypt_message fs m t)"
  by (simp add: encrypt_message_def split: option.splits json.splits)

lemma keeps_snapshot:
  assumes "graph_snapshot fs t = Some (u, err)"
  shows "keeps t u"
proof (cases "if map_of fs ''messages'' = None then None else decode_objects (member_or_null fs ''messages'')")
  case None
  then show ?thesis using assms unfolding graph_snapshot_def None by simp
next
  case ms: (Some ms)
  let ?t = "t\<lparr>t_messages := ms\<rparr>"
  have t: "keeps t ?t" by simp
  show ?thesis
  proof (cases "refreshHistoricalTools ms ?t")
    case None
    then show ?thesis using assms t unfolding graph_snapshot_def ms by simp
  next
    case (Some v)
    have "keeps v (fold reread_message ms v)" by (rule keeps_fold) (rule keeps_reread)
    then have "keeps t (fold reread_message ms v)"
      using keeps_trans [OF keeps_trans [OF t keeps_refresh [OF Some]]] by blast
    then show ?thesis
      using assms Some unfolding graph_snapshot_def ms by simp
  qed
qed

lemma keeps_activity: "graph_activity fs t = Some (u, err) \<Longrightarrow> keeps t u \<and> err = None"
proof -
  have "keeps t (note_presentation fs t)" by (auto simp: note_presentation_def Let_def intro: keeps_on_tool)
  then show "graph_activity fs t = Some (u, err) \<Longrightarrow> keeps t u \<and> err = None"
    by (auto simp: graph_activity_def Let_def intro: keeps_trans)
qed

lemma capture_graph_keeps:
  assumes "capture_graph env b fs t = Some (u, err)" "heard (t_toolOrder t) fs" "orders_known t"
  shows "keeps t u"
proof -
  have known: "\<forall>i \<in> set (t_toolOrder t). map_of (t_tools t) i \<noteq> None"
    using assms(3) by (auto simp: orders_known_def)
  have tool: "keeps t u" if "graph_tool False fs t = Some (u, err)" "field fs ''toolCallId'' \<in> set (t_toolOrder t)" for u err
    using that known by (auto simp: graph_tool_def Let_def)
  have activity: "keeps t u" if "graph_activity fs t = Some (u, err)" for u err
    using keeps_activity [OF that] by simp
  have enc: "keeps t u" if "graph_encrypted fs t = Some (u, err)" for u err
    using that keeps_fold [of "encrypt_message fs", OF keeps_encrypted]
    by (auto simp: graph_encrypted_def Let_def split: if_splits option.splits)
  have args: "keeps t u" if "graph_args fs t = Some (u, err)" for u err
    using that by (auto simp: graph_args_def intro: keeps_arguments split: option.splits)
  have delta: "keeps t u" if "graph_delta env fs t = Some (u, err)" for u err
    using that by (auto simp: graph_delta_def Let_def split: option.splits)
  have content: "keeps t u" if "graph_content i fs t = Some (u, err)" for u err i
    using that by (auto simp: graph_content_def split: option.splits)
  show ?thesis
    using assms(1, 2) keeps_snapshot [of fs t u err] tool activity enc args delta content
    unfolding capture_graph_def Let_def heard_def chunk_types_def
    by (auto simp: graph_start_def graph_result_def Let_def split: if_splits)
qed


definition event_ok :: "string list \<Rightarrow> tevent \<Rightarrow> bool" where
  "event_ok os v \<longleftrightarrow> heard os (te_fields v) \<and> form_ok v"

definition quiet :: "tevent list \<Rightarrow> bool" where
  "quiet es \<longleftrightarrow> list_all (event_ok []) es"

lemma quiet_mono: "quiet es \<Longrightarrow> list_all (event_ok os) es"
  by (auto simp: quiet_def list_all_iff event_ok_def heard_def)

lemma quiet_simps [simp]:
  "quiet []" "quiet (v # es) \<longleftrightarrow> event_ok [] v \<and> quiet es" "quiet (a @ b) \<longleftrightarrow> quiet a \<and> quiet b"
  by (simp_all add: quiet_def)

lemma quiet_andThen: "quiet (fst r) \<Longrightarrow> (\<And>u. quiet (fst (f u))) \<Longrightarrow> quiet (fst (andThen r f))"
  by (simp add: fst_andThen)

lemma quiet_each: "(\<And>x u. quiet (fst (f x u))) \<Longrightarrow> quiet (fst (each f xs t))"
  by (induction xs arbitrary: t) (auto intro: quiet_andThen)

lemmas event_ok_simps = event_ok_def heard_def form_ok_def restorable_def subagent_types_def chunk_types_def event_forms encrypted_event_def
  usageEvent_def custom_event_def snapshot_event_def started_event_def finished_event_def error_event_def
  linked_event_def queue_event_def progress_event_def Let_def

named_theorems quiets \<open>operations that start no call\<close>

lemma quiet_small [quiets]:
  "quiet (fst (Start t))" "quiet (fst (close_thought w i t))" "quiet (fst (end_span p w t))"
  "quiet (fst (close_text i t))" "quiet (fst (close_tool i t))" "quiet (fst (close_step i t))"
  "quiet (fst (open_text i t))" "quiet (fst (write_text i s d t))" "quiet (fst (write_args e i u a t))"
  "quiet (fst (write_result env e i t))" "quiet (fst (open_step e i t))" "quiet (fst (record_usage_event e i t))"
  "quiet (fst (open_thought e i t))" "quiet (fst (write_thought e i r t))" "quiet (aggregateUsagePresentation e)"
  "quiet (renderedActivity e)"
  by (auto simp: Start_def close_thought_def end_span_def close_text_def close_tool_def close_step_def open_text_def
      write_text_def write_args_def write_result_def open_step_def record_usage_event_def open_thought_def
      write_thought_def aggregateUsagePresentation_def renderedActivity_def event_ok_simps
      split: option.splits prod.splits)

lemma quiet_closing [quiets]:
  "quiet (fst (closeReasoning env w t))" "quiet (fst (closeReasoningItem i t))" "quiet (fst (closeOpen env t))"
  by (auto simp: closeReasoning_def closeReasoningItem_def closeOpen_def closeSteps_def close_span_def
      intro!: quiet_andThen quiet_each quiets split: option.splits)

lemma quiet_end [quiets]:
  "quiet (fst (Finish env o' t))" "quiet (fst (Fail env msg code t))"
  by (auto simp: Finish_def Fail_def event_ok_simps intro!: quiet_andThen quiets)

lemma quiet_replace [quiets]: "quiet (fst (replaceText env i c t))"
  by (auto simp: replaceText_def quiets event_ok_simps split: option.splits)

lemma quiet_text [quiets]: "quiet (fst (text_event env i c snap off t))"
proof -
  let ?i = "str_or i (t_runID t @ ''/assistant'')"
  obtain out u where r: "open_text ?i t = (out, u)" by (cases "open_text ?i t")
  have out: "quiet out" using quiet_small(7) [of ?i t] r by simp
  have a: "quiet (fst (andThen (out, u) f))" if "\<And>v. quiet (fst (f v))" for f :: "Translator \<Rightarrow> tevent list \<times> Translator"
    using out that by (simp add: fst_andThen)
  show ?thesis
    unfolding text_event_def Let_def r prod.case
    by (auto simp: out quiets intro!: a split: option.splits)
qed

lemma quiet_rest [quiets]:
  "quiet (fst (complete_step env i t))" "quiet (fst (close_item e i t))" "quiet (fst (presentationActivity env k i c t))"
  by (auto simp: complete_step_def close_item_def presentationActivity_def Let_def quiets event_ok_simps
      intro!: quiet_andThen split: option.splits)

lemma quiet_model [quiets]: "quiet (fst (modelStep env e b t))" "quiet (fst (reasoning_event e t))"
proof -
  show "quiet (fst (modelStep env e b t))"
    by (auto simp: modelStep_def Let_def quiets intro!: quiet_andThen)
  obtain out u where r: "open_thought e (thought_id e) t = (out, u)" by (cases "open_thought e (thought_id e) t")
  have out: "quiet out" using quiet_small(13) [of e "thought_id e" t] r by simp
  show "quiet (fst (reasoning_event e t))"
    by (auto simp: reasoning_event_def Let_def r out quiets event_ok_simps fst_andThen split: option.splits)
qed

lemma quiet_activities [quiets]:
  "quiet (fst (turnPresentation env e t))" "quiet (fst (feedPresentation env e t))"
  "quiet (fst (plannedToolsPresentation env e t))" "quiet (fst (plannerPresentation env e t))"
  "quiet (fst (narrationPresentation env e t))" "quiet (fst (toolExecutionPresentation env e t))"
  by (simp_all add: turnPresentation_def feedPresentation_def plannedToolsPresentation_def plannerPresentation_def
      narrationPresentation_def toolExecutionPresentation_def Let_def quiets)

text \<open>A call is on its list when its start is written.\<close>

lemma text_event_keeps_order:
  assumes "\<not> t_done (snd (text_event env i c snap off t))"
  shows "t_toolOrder (snd (text_event env i c snap off t)) = t_toolOrder t"
proof -
  have "with_tools (t_tools t) (t_toolOrder t) t = t" by (simp add: with_tools_def)
  then have "text_event env i c snap off t = apsnd (with_tools (t_tools t) (t_toolOrder t)) (text_event env i c snap off t)"
    using text_event_frame [of env i c snap off "t_tools t" "t_toolOrder t" t] assms by simp
  then have "snd (text_event env i c snap off t) = with_tools (t_tools t) (t_toolOrder t) (snd (text_event env i c snap off t))"
    by (metis snd_apsnd)
  then have "t_toolOrder (snd (text_event env i c snap off t))
    = t_toolOrder (with_tools (t_tools t) (t_toolOrder t) (snd (text_event env i c snap off t)))" by (rule arg_cong)
  also have "\<dots> = t_toolOrder t" by (simp add: with_tools_def)
  finally show ?thesis .
qed

lemma open_tool_events:
  assumes "\<not> t_done (snd (open_tool env e i t))"
  shows "list_all (event_ok (t_toolOrder (snd (open_tool env e i t)))) (fst (open_tool env e i t))"
proof (cases "map_of (t_tools t) i")
  case (Some s)
  then show ?thesis by (simp add: open_tool_def)
next
  case None
  let ?p = "tool_parent t e"
  let ?s = "\<lparr>tl_presentation = None, tl_subagent = [], tl_args = [], tl_ended = False, tl_result = False, tl_parent = ?p\<rparr>"
  let ?t = "with_tools (AList.update i ?s (t_tools t)) (t_toolOrder t @ [i]) t"
  let ?r = "if map_of (t_texts t) ?p = None then text_event env ?p [] True None ?t else ([], ?t)"
  have form: "open_tool env e i t = andThen ?r (\<lambda>u. ([start_call e i ?p], u))"
    using None by (simp add: open_tool_def Let_def start_call_def with_tools_def)
  have d: "\<not> t_done (snd ?r)" using assms unfolding form by simp
  have order: "t_toolOrder (snd ?r) = t_toolOrder t @ [i]"
    using d text_event_keeps_order [of env ?p "[]" True None ?t] by (auto simp: with_tools_def)
  have "quiet (fst ?r)" by (simp add: quiets)
  then have "list_all (event_ok (t_toolOrder t @ [i])) (fst ?r)" by (rule quiet_mono)
  then show ?thesis
    unfolding form using order by (simp add: fst_andThen start_call_def event_ok_simps)
qed


lemma later_order [kept]:
  "t_toolOrder (snd (write_args e i s a t)) = t_toolOrder t" "t_toolOrder (snd (write_result env e i t)) = t_toolOrder t"
  by (auto simp: write_args_def write_result_def Let_def split: option.splits)

lemma execution_order:
  "\<not> t_done (snd (toolExecutionPresentation env e t)) \<Longrightarrow>
   t_toolOrder (snd (toolExecutionPresentation env e t)) = t_toolOrder t"
  by (auto simp: toolExecutionPresentation_def presentationActivity_def Let_def kept split: option.splits if_splits)

lemma tool_event_events:
  assumes "\<not> t_done (snd (tool_event env e t))"
  shows "list_all (event_ok (t_toolOrder (snd (tool_event env e t)))) (fst (tool_event env e t))"
proof (cases "native_call e = []")
  case True
  then show ?thesis by (simp add: tool_event_def)
next
  case False
  let ?i = "toolID t (n_TurnID e) (native_call e)"
  let ?r = "open_tool env e ?i t"
  have form: "tool_event env e t =
    (case map_of (t_tools (snd ?r)) ?i of
       None \<Rightarrow> ?r
     | Some s \<Rightarrow> if tl_ended s then andThen ?r (write_result env e ?i)
                else case tool_args env e (tl_args s) of
                       Inl code \<Rightarrow> Fail env (args_message code) code (snd ?r)
                     | Inr args \<Rightarrow> andThen (andThen ?r (write_args e ?i s args)) (write_result env e ?i))"
    using False by (cases "?r") (simp add: tool_event_def Let_def cong: option.case_cong sum.case_cong if_cong)
  have d: "\<not> t_done (snd ?r)" using assms unfolding form by (auto simp: kept split: option.splits sum.splits if_splits)
  note r = open_tool_events [OF d]
  have later: "list_all (event_ok os) (fst (write_args e ?i s a u))" "list_all (event_ok os) (fst (write_result env e ?i u))"
    for os s a u by (rule quiet_mono, rule quiets)+
  have bad: "\<not> t_done (snd (Fail env m c u)) \<Longrightarrow> P" for m c u P by (simp add: kept)
  show ?thesis
    using assms unfolding form
    by (auto simp: r later fst_andThen kept split: option.splits sum.splits if_splits)
qed

lemma native_events_ok:
  assumes "\<not> t_done (snd (native_events env known e i t))"
  shows "list_all (event_ok (t_toolOrder (snd (native_events env known e i t)))) (fst (native_events env known e i t))"
proof (cases "n_Type e \<in> set tool_types")
  case True
  have form: "native_events env known e i t
    = andThen (tool_event env e t) (\<lambda>t. if known then ([], t) else toolExecutionPresentation env e t)"
    using True by (auto simp: native_events_def tool_types_def)
  let ?u = "snd (tool_event env e t)"
  have d: "\<not> t_done ?u"
    using assms toolExecutionPresentation_done [of ?u env e] unfolding form by (auto split: if_splits)
  have order: "t_toolOrder (snd (native_events env known e i t)) = t_toolOrder ?u"
    using assms unfolding form by (auto simp: execution_order)
  have "list_all (event_ok (t_toolOrder ?u)) (fst (toolExecutionPresentation env e ?u))"
    by (rule quiet_mono) (rule quiets)
  then show ?thesis using tool_event_events [OF d] order unfolding form by (simp add: fst_andThen)
next
  case False
  have "quiet (fst (native_events env known e i t))"
    using False unfolding native_events_def Let_def
    by (auto simp: quiets fst_andThen event_ok_simps)
  then show ?thesis by (rule quiet_mono)
qed

section \<open>Calls of Translate\<close>

lemma capture_event_keeps:
  assumes "capture_event env v n = Some (m, err)" "te_standard v" "te_applied v"
    "heard (t_toolOrder (nd_tr n)) (te_fields v)" "orders_known (nd_tr n)"
  shows "keeps (nd_tr n) (nd_tr m) \<and> nd_children m = nd_children n"
proof -
  have c: "capture_content env False (te_fields v) n = Some (m, err)"
    using assms(1-3) by (simp add: capture_event_def captureStandard_def)
  show ?thesis
  proof (cases "field (te_fields v) ''type'' = ''CUSTOM''")
    case True
    then show ?thesis
      using c assms(4) by (auto simp: capture_content_def heard_def on_tr_def graph_usage_def Let_def
          split: if_splits option.splits)
  next
    case False
    then obtain u where "capture_graph env False (te_fields v) (nd_tr n) = Some (u, err)" "m = Node u (nd_children n)"
      using c by (auto simp: capture_content_def split: option.splits)
    then show ?thesis using capture_graph_keeps assms(4, 5) by auto
  qed
qed

text \<open>Capturing keeps the lanes; it only may record an error.\<close>

lemma note_error_lanes:
  "lanes_known (nd_tr (note_error err n)) = lanes_known (nd_tr n)" "wire_tr (nd_tr (note_error err n)) = wire_tr (nd_tr n)"
  "t_toolOrder (nd_tr (note_error err n)) = t_toolOrder (nd_tr n)" "t_done (nd_tr (note_error err n)) = t_done (nd_tr n)"
  "t_started (nd_tr (note_error err n)) = t_started (nd_tr n)" "nd_children (note_error err n) = nd_children n"
  by (simp_all add: note_error_def on_tr_def lanes_defs lane_simps wire_tr_def)

lemma capture_lanes:
  assumes "capture env vs n = Some m" "list_all te_standard vs" "list_all te_applied vs"
    "list_all (\<lambda>v. heard (t_toolOrder (nd_tr n)) (te_fields v)) vs" "lanes_known (nd_tr n)"
  shows "lanes_known (nd_tr m) \<and> wire_tr (nd_tr m) = wire_tr (nd_tr n) \<and> t_done (nd_tr m) = t_done (nd_tr n)
    \<and> t_started (nd_tr m) = t_started (nd_tr n) \<and> nd_children m = nd_children n"
  using assms
proof (induction vs arbitrary: n)
  case (Cons v vs)
  obtain k err where k: "capture_event env v n = Some (k, err)" and rest: "capture env vs (note_error err k) = Some m"
    using Cons.prems(1) by (auto split: option.splits)
  have kp: "keeps (nd_tr n) (nd_tr k) \<and> nd_children k = nd_children n"
    using capture_event_keeps [OF k] Cons.prems by (simp add: lanes_known_def)
  then have "lanes_known (nd_tr k)" "t_toolOrder (nd_tr k) = t_toolOrder (nd_tr n)"
    using Cons.prems(5) keeps_live(1) by (auto simp: keeps_def)
  moreover have "wire_tr (nd_tr k) = wire_tr (nd_tr n)"
    using kp Cons.prems(5) keeps_live(2) by (simp add: lanes_known_def)
  ultimately show ?case
    using Cons.IH [OF rest] Cons.prems kp by (simp add: note_error_lanes keeps_def)
qed simp

lemma done_same [simp]:
  "t_done (saveMessage i m t) = t_done t" "t_done (on_text i f t) = t_done t"
  "t_done (on_tool i g t) = t_done t" "t_done (on_thought i h t) = t_done t"
  "t_done (add_text i w t) = t_done t" "t_done (add_thought i w t) = t_done t"
  "t_done (encrypt_message fs m t) = t_done t" "t_done (note_presentation fs t) = t_done t"
  by (simp_all add: saveMessage_def on_text_def on_tool_def on_thought_def add_text_def add_thought_def
      encrypt_message_def note_presentation_def Let_def split: option.splits json.splits)

lemma fold_done: "(\<And>x u. t_done (f x u) = t_done u) \<Longrightarrow> t_done (fold f xs t) = t_done t"
  by (induction xs arbitrary: t) simp_all

lemma reread_done: "t_done (reread_message m t) = t_done t"
  by (simp add: reread_message_def Let_def fold_done)

lemma snapshot_done: "graph_snapshot fs t = Some (u, err) \<Longrightarrow> t_done u = t_done t"
  using keeps_snapshot [of fs t u err] by (simp add: keeps_def)

lemma arguments_done: "appendToolArguments p i d t = Some (u, err) \<Longrightarrow> t_done u = t_done t"
  using keeps_arguments [of p i d t u err] by (simp add: keeps_def)

lemma graph_tool_done: "graph_tool b fs t = Some (u, err) \<Longrightarrow> t_done u = t_done t"
  by (auto simp: graph_tool_def Let_def dest!: arguments_done split: if_splits option.splits)

lemma capture_graph_done: "capture_graph env b fs t = Some (u, err) \<Longrightarrow> t_done u = t_done t"
  unfolding capture_graph_def Let_def
  by (auto simp: graph_start_def graph_content_def graph_chunk_def graph_args_def graph_result_def
      graph_encrypted_def graph_activity_def graph_delta_def fold_done Let_def
      dest!: snapshot_done graph_tool_done arguments_done split: if_splits option.splits)

lemma capture_event_done:
  assumes "capture_event env v n = Some (m, err)" "te_standard v" "te_applied v"
  shows "t_done (nd_tr m) = t_done (nd_tr n)"
proof -
  have c: "capture_content env False (te_fields v) n = Some (m, err)"
    using assms by (simp add: capture_event_def captureStandard_def)
  show ?thesis
    using c
    by (auto simp: capture_content_def capture_checkpoint_def subagent_def set_child_def on_tr_def graph_usage_def Let_def
        dest!: capture_graph_done split: if_splits option.splits)
qed

lemma capture_done:
  "capture env vs n = Some m \<Longrightarrow> list_all te_standard vs \<Longrightarrow> list_all te_applied vs \<Longrightarrow>
   t_done (nd_tr m) = t_done (nd_tr n)"
proof (induction vs arbitrary: n)
  case (Cons v vs)
  then obtain k err where "capture_event env v n = Some (k, err)" "capture env vs (note_error err k) = Some m"
    by (auto split: option.splits)
  then show ?case using Cons.IH [of "note_error err k"] Cons.prems capture_event_done by (simp add: note_error_lanes)
qed simp


lemma Start_advances:
  assumes "lanes_known t" "\<not> t_done t"
  shows "live (snd (Start t))" "wire_run (wire_tr t) (map te_fields (fst (Start t))) (wire_tr (snd (Start t)))"
proof -
  show "live (snd (Start t))" using assms by (auto simp: Start_def live_def lanes_defs lane_simps)
  show "wire_run (wire_tr t) (map te_fields (fst (Start t))) (wire_tr (snd (Start t)))"
  proof (cases "t_started t")
    case True
    then show ?thesis by (simp add: Start_def wire_run.intros)
  next
    case False
    let ?e = "te_fields (started_event t)"
    have "event_type ?e = ''RUN_STARTED''" "run_ident ?e = (t_threadID t, t_runID t)"
      by (simp_all add: started_event_def Let_def plain_event_def standardEvent_def event_type_def run_ident_def)
    then have "wire_step (wire_tr t) ?e \<lparr>w_running = True, w_errored = False, w_ident = (t_threadID t, t_runID t),
        w_open = {}, w_steps = {}, w_subagents = Map.empty\<rparr>"
      using run_begins [of ?e "wire_tr t"] False by simp
    moreover have "live_streams t = {}" "live_steps t = {}" using assms False by (simp_all add: lanes_known_def)
    ultimately show ?thesis
      using False assms by (simp add: Start_def wire_tr_def lane_simps wire_one)
  qed
qed

lemma rendered_advances:
  assumes "live t"
  shows "advances t (renderedActivity e, t)"
proof (cases "renderedActivity e")
  case Nil
  then show ?thesis using assms by (simp add: advances_none)
next
  case (Cons v vs)
  then have "vs = [] \<and> event_type (te_fields v) \<in> set other_types"
    by (auto simp: renderedActivity_def Let_def standardEvent_def event_kind split: option.splits if_splits)
  then show ?thesis using Cons assms by (simp add: advances_beside)
qed

text \<open>No event is a standard variant that is to be applied again.\<close>

lemma quiet_form: "quiet es \<Longrightarrow> list_all form_ok es"
  by (auto simp: quiet_def list_all_iff event_ok_def)

lemma open_tool_form: "list_all form_ok (fst (open_tool env e i t))"
  using quiet_form [OF quiet_text]
  by (auto simp: open_tool_def Let_def fst_andThen plain_event_def form_ok_def restorable_def chunk_types_def
      subagent_types_def)

lemma tool_event_form: "list_all form_ok (fst (tool_event env e t))"
proof -
  let ?i = "toolID t (n_TurnID e) (native_call e)"
  obtain out u where r: "open_tool env e ?i t = (out, u)" by (cases "open_tool env e ?i t")
  have out: "list_all form_ok out" using open_tool_form [of env e ?i t] r by simp
  have rest: "list_all form_ok (fst (write_args e ?i s a v))" "list_all form_ok (fst (write_result env e ?i v))"
    "list_all form_ok (fst (Fail env m c v))" for s a v m c
    by (rule quiet_form, rule quiets)+
  show ?thesis
    by (auto simp: tool_event_def Let_def r out rest fst_andThen split: option.splits sum.splits)
qed

lemma native_events_form: "list_all form_ok (fst (native_events env known e i t))"
proof (cases "n_Type e \<in> set tool_types")
  case True
  have "native_events env known e i t
    = andThen (tool_event env e t) (\<lambda>t. if known then ([], t) else toolExecutionPresentation env e t)"
    using True by (auto simp: native_events_def tool_types_def)
  moreover have "list_all form_ok (fst (toolExecutionPresentation env e u))" for u
    by (rule quiet_form) (rule quiets)
  ultimately show ?thesis using tool_event_form by (simp add: fst_andThen)
next
  case False
  have "quiet (fst (native_events env known e i t))"
    using False unfolding native_events_def Let_def by (auto simp: quiets fst_andThen event_ok_simps)
  then show ?thesis by (rule quiet_form)
qed

lemma publish_advances:
  assumes "publish_events env e out r n = Some (out', m)" "n_Type e \<noteq> ''protocol_event''" "\<not> t_done (nd_tr m)"
    "advances t r" "\<not> t_done (snd r) \<Longrightarrow> list_all (event_ok (t_toolOrder (snd r))) (fst r)" "list_all form_ok (fst r)"
  shows "live (nd_tr m) \<and> nd_children m = nd_children n \<and>
    (\<exists>es. out' = out @ es \<and> wire_run (wire_tr t) (map te_fields es) (wire_tr (nd_tr m)))"
proof -
  obtain es u where r: "r = (es, u)" by (cases r)
  let ?all = "es @ (if t_done u then [] else renderedActivity e)"
  let ?vs = "map (stamp env e) ?all"
  let ?n = "Node u (nd_children n)"
  obtain k where k: "capture env ?vs ?n = Some k"
    and res: "(case t_historyErr (nd_tr k) of
        Some err \<Rightarrow> fail_node env err ''INVALID_NATIVE_SOURCE'' out k | None \<Rightarrow> Some (out @ ?vs, k)) = Some (out', m)"
    using assms(1) by (auto simp: publish_events_def r Let_def split: option.splits)
  have m: "m = k \<and> out' = out @ ?vs"
  proof (cases "t_historyErr (nd_tr k)")
    case None
    then show ?thesis using res by simp
  next
    case (Some err)
    then have "t_done (nd_tr m)" using res Fail_done [of env err "''INVALID_NATIVE_SOURCE''" "nd_tr k"]
      by (auto simp: fail_node_def split: prod.splits)
    then show ?thesis using assms(3) by simp
  qed
  have "list_all form_ok ?all"
    using assms(6) quiet_form [OF quiet_small(16)] by (simp add: r)
  then have form: "list_all te_standard ?vs" "list_all te_applied ?vs"
    using stamp_form [OF assms(2)] by (auto simp: list_all_iff)
  show ?thesis
  proof (cases "t_done u")
    case True
    then have "t_done (nd_tr k)" using capture_done [OF k form] by simp
    then show ?thesis using m assms(3) by simp
  next
    case False
    have adv: "live u" "wire_run (wire_tr t) (map te_fields es) (wire_tr u)"
      using assms(4) False by (simp_all add: advances_def r)
    have ok: "list_all (event_ok (t_toolOrder u)) ?all"
      using assms(5) False quiet_mono [OF quiet_small(16)] by (simp add: r)
    have "wire_run (wire_tr u) (map te_fields (renderedActivity e)) (wire_tr u)"
      using rendered_advances [OF adv(1), of e] False by (simp add: advances_def)
    then have all: "wire_run (wire_tr t) (map te_fields ?all) (wire_tr u)"
      using wire_run_append [OF adv(2)] False by simp
    have "heard (t_toolOrder u) (te_fields (stamp env e v))" if "v \<in> set ?all" for v
    proof -
      have "heard (t_toolOrder u) (te_fields v)" using ok that by (simp add: list_all_iff event_ok_def)
      then show ?thesis using same_event_field [OF stamp_same [of v env e]] by (simp add: heard_def)
    qed
    then have heard: "list_all (\<lambda>v. heard (t_toolOrder (nd_tr ?n)) (te_fields v)) ?vs"
      unfolding list_all_iff set_map Node.sel by blast
    have "lanes_known (nd_tr k) \<and> wire_tr (nd_tr k) = wire_tr u \<and> t_done (nd_tr k) = t_done u
        \<and> t_started (nd_tr k) = t_started u \<and> nd_children k = nd_children n"
      using capture_lanes [OF k form heard] adv(1) by (simp add: live_def)
    then show ?thesis
      using m stamp_wire [OF all, of env e] adv(1) by (auto simp: live_def)
  qed
qed


lemma note_internal_lanes:
  "live (note_internal e t) = live t" "wire_tr (note_internal e t) = wire_tr t"
  by (simp_all add: note_internal_def live_def lanes_defs lane_simps wire_tr_def)

lemma visible_type: "visible_event e t = Some v \<Longrightarrow> n_Type v = n_Type e"
  by (auto simp: visible_event_def split: if_splits)

lemma lanes_seen: "lanes_known (t\<lparr>t_seen := s\<rparr>) = lanes_known t" "wire_tr (t\<lparr>t_seen := s\<rparr>) = wire_tr t"
  by (simp_all add: lanes_defs lane_simps wire_tr_def)

text \<open>The call after the checks: the state it starts from, and what it writes first.\<close>

definition entered :: "Native \<Rightarrow> Translator \<Rightarrow> Translator" where
  "entered e t = (if 0 < n_EventSeq e then t\<lparr>t_seen := n_EventSeq e # t_seen t\<rparr> else t)"

lemma entered_lanes [simp]: "lanes_known (entered e t) = lanes_known t" "wire_tr (entered e t) = wire_tr t"
  "t_done (entered e t) = t_done t"
  by (simp_all add: entered_def lanes_seen)

definition skips :: "Native \<Rightarrow> Translator \<Rightarrow> bool" where
  "skips e t \<longleftrightarrow> t_done t \<or> (0 < n_EventSeq e \<and> n_EventSeq e \<in> set (t_seen t))"

definition admitted_run :: "Native \<Rightarrow> Translator \<Rightarrow> Translator" where
  "admitted_run e t = note_internal e (snd (Start (entered e t)))"

lemma translate_native:
  assumes "\<not> skips e (nd_tr n)" "n_Type e \<noteq> ''protocol_event''" "ok_presentation env ''Presentation'' (nativePresentation env e)"
  shows "translate env trusted e n =
    (let t = admitted_run e (nd_tr n); m = Node t (nd_children n); out = fst (Start (entered e (nd_tr n)))
     in case visible_event e t of
          None \<Rightarrow> Some (out, m)
        | Some v \<Rightarrow>
            publish_events env v out
              (native_events env (HasToolResult m (toolID t (n_TurnID v) (n_ToolCallID v))) v
                 (str_or (base_id v) (n_ID v)) t) m)"
  using assms
  by (auto simp: translate_def skips_def Let_def split_beta admitted_run_def entered_def visible_type
      split: option.splits)

lemma admitted_lanes:
  assumes "lanes_known t" "\<not> t_done t"
  shows "live (admitted_run e t)"
    "wire_run (wire_tr t) (map te_fields (fst (Start (entered e t)))) (wire_tr (admitted_run e t))"
  using Start_advances [of "entered e t"] assms by (simp_all add: admitted_run_def note_internal_lanes)

lemma translate_skips: "skips e (nd_tr n) \<Longrightarrow> translate env trusted e n = Some ([], n)"
  by (auto simp: translate_def skips_def Let_def)

lemma translate_advances:
  assumes "translate env trusted e n = Some (out, m)" "n_Type e \<noteq> ''protocol_event''" "lanes_known (nd_tr n)"
    "\<not> t_done (nd_tr m)"
  shows "lanes_known (nd_tr m) \<and> wire_run (wire_tr (nd_tr n)) (map te_fields out) (wire_tr (nd_tr m)) \<and> nd_children m = nd_children n"
proof (cases "skips e (nd_tr n)")
  case True
  then show ?thesis using assms(1, 3) by (simp add: translate_skips wire_run.intros)
next
  case False
  then have alive: "\<not> t_done (nd_tr n)" by (simp add: skips_def)
  show ?thesis
  proof (cases "ok_presentation env ''Presentation'' (nativePresentation env e)")
    case bad: False
    then have "t_done (nd_tr m)"
      using assms(1, 2) False Fail_done [of env "''Native presentation metadata is invalid''" "''INVALID_PRESENTATION''"]
      by (auto simp: translate_def skips_def Let_def fail_node_def split_beta split: if_splits)
    then show ?thesis using assms(4) by simp
  next
    case True
    let ?t = "admitted_run e (nd_tr n)"
    let ?m = "Node ?t (nd_children n)"
    let ?out = "fst (Start (entered e (nd_tr n)))"
    note a = admitted_lanes [OF assms(3) alive, of e]
    have form: "(case visible_event e ?t of
          None \<Rightarrow> Some (?out, ?m)
        | Some v \<Rightarrow>
            publish_events env v ?out
              (native_events env (HasToolResult ?m (toolID ?t (n_TurnID v) (n_ToolCallID v))) v
                 (str_or (base_id v) (n_ID v)) ?t) ?m) = Some (out, m)"
      using assms(1) translate_native [OF False assms(2) True] by (simp add: Let_def)
    show ?thesis
    proof (cases "visible_event e ?t")
      case None
      then show ?thesis using form a by (auto simp: live_def)
    next
      case (Some v)
      have v: "n_Type v \<noteq> ''protocol_event''" using visible_type [OF Some] assms(2) by simp
      let ?r = "native_events env (HasToolResult ?m (toolID ?t (n_TurnID v) (n_ToolCallID v))) v
                 (str_or (base_id v) (n_ID v)) ?t"
      have p: "publish_events env v ?out ?r ?m = Some (out, m)" using form Some by simp
      obtain es where "live (nd_tr m)" "out = ?out @ es" "wire_run (wire_tr ?t) (map te_fields es) (wire_tr (nd_tr m))"
          "nd_children m = nd_children ?m"
        using publish_advances [OF p v assms(4) native_events_advances [OF a(1)] native_events_ok native_events_form]
        by blast
      then show ?thesis using wire_run_append [OF a(2)] by (simp add: live_def)
    qed
  qed
qed

primrec translate_all :: "tr_env \<Rightarrow> Native list \<Rightarrow> Node \<Rightarrow> (tevent list \<times> Node) option" where
  "translate_all env [] n = Some ([], n)"
| "translate_all env (e # es) n =
     (case Translate env e n of
        None \<Rightarrow> None
      | Some (out, n) \<Rightarrow> map_option (\<lambda>(rest, n). (out @ rest, n)) (translate_all env es n))"

lemma translate_all_done: "t_done (nd_tr n) \<Longrightarrow> translate_all env es n = Some ([], n)"
  by (induction es) (simp_all add: Translate_def translate_skips skips_def)

lemma translate_all_advances:
  assumes "translate_all env es n = Some (out, m)" "\<forall>e \<in> set es. n_Type e \<noteq> ''protocol_event''"
    "lanes_known (nd_tr n)" "\<not> t_done (nd_tr m)"
  shows "lanes_known (nd_tr m) \<and> wire_run (wire_tr (nd_tr n)) (map te_fields out) (wire_tr (nd_tr m)) \<and> nd_children m = nd_children n"
  using assms
proof (induction es arbitrary: n out)
  case Nil
  then show ?case by (simp add: wire_run.intros)
next
  case (Cons e es)
  obtain o1 k o2 where k: "translate env False e n = Some (o1, k)"
    and rest: "translate_all env es k = Some (o2, m)" and out: "out = o1 @ o2"
    using Cons.prems(1) by (auto simp: Translate_def split: option.splits prod.splits)
  have "\<not> t_done (nd_tr k)" using rest Cons.prems(4) translate_all_done [of k env es] by auto
  then have a: "lanes_known (nd_tr k) \<and> wire_run (wire_tr (nd_tr n)) (map te_fields o1) (wire_tr (nd_tr k)) \<and> nd_children k = nd_children n"
    using translate_advances [OF k] Cons.prems by simp
  then show ?case using Cons.IH [OF rest] Cons.prems wire_run_append out by auto
qed

end
