(* ===== verification/AguiSubagents.thy ===== *)
theory AguiSubagents
  imports AguiTranslate
begin

text \<open>
  The other producers of a run: the bridge for standard events and the restricted seams of trusted producers
  (\<open>protocol/agui/translator_model.go\<close>, \<open>translator_presentation.go\<close>, \<open>translator_approval_receipt.go\<close>), and the
  subagents whose events are written into the run of their parent (\<open>translator_subagent.go\<close>,
  \<open>translator_subagent_presentation.go\<close>). A result is \<open>None\<close> for a Go panic; an error that leaves the translator as it
  was, apart from what it says, is \<open>Inl\<close>.
\<close>

section \<open>Publishing standard events\<close>

text \<open>Start, the given events, and their capture; \<open>historyErr\<close> is the error returned.\<close>

definition publish_all :: "tr_env \<Rightarrow> tevent list \<Rightarrow> Node \<Rightarrow> ((string + tevent list) \<times> Node) option" where
  "publish_all env evs n =
     (case Start (nd_tr n) of (out, t) \<Rightarrow>
        (case capture env (out @ evs) (Node t (nd_children n)) of
           None \<Rightarrow> None
         | Some n \<Rightarrow>
             Some (case t_historyErr (nd_tr n) of None \<Rightarrow> Inr (out @ evs) | Some err \<Rightarrow> Inl err, n)))"

definition publishStandard :: "tr_env \<Rightarrow> obj \<Rightarrow> Node \<Rightarrow> ((string + tevent list) \<times> Node) option" where
  "publishStandard env raw n =
     (if reservedNativePresentationEvent raw
      then Some (Inl ''native presentation identity belongs to trusted producers'', n)
      else if reservedInvocationEvent raw
      then Some (Inl ''native invocation ancestry belongs to trusted registration'', n)
      else case StandardEvent env raw of
             None \<Rightarrow> Some (Inl (''invalid standard runtime event: '' @ library_error), n)
           | Some ev \<Rightarrow>
               if field raw ''type'' \<in> set lifecycle_types
               then Some (Inl ''run lifecycle belongs to the translator'', n)
               else if t_done (nd_tr n) then Some (Inl ''cannot publish after run completion'', n)
               else publish_all env [ev] n)"

definition EmitStandard :: "tr_env \<Rightarrow> obj \<Rightarrow> Node \<Rightarrow> ((string + tevent list) \<times> Node) option" where
  "EmitStandard env raw n = (if \<not> ok_event env raw then Some (Inl library_error, n) else publishStandard env raw n)"

definition EmitNativeUserIdentity ::
  "tr_env \<Rightarrow> string \<Rightarrow> string \<Rightarrow> string \<Rightarrow> Node \<Rightarrow> ((string + tevent list) \<times> Node) option" where
  "EmitNativeUserIdentity env turn client user n =
     (let t = nd_tr n;
          content = [(''version'', JStr ''1''), (''protocolRunId'', JStr (t_runID t)), (''nativeTurnId'', JStr turn),
                     (''clientMessageId'', JStr client), (''clientRequestId'', JStr client),
                     (''nativeUserMessageId'', JStr user)]
      in if t_done t \<or> turn = [] \<or> turn \<noteq> t_nativeTurnID t \<or> client = [] \<or> user = []
         then Some (Inl ''native user identity does not match active translator scope'', n)
         else if \<not> ok_presentation env ''agently.user-identity'' content then Some (Inl library_error, n)
         else case presentationActivity env ''agently.user-identity'' (client @ ''/identity'') content t of
                (evs, t) \<Rightarrow>
                  (case capture env evs (Node t (nd_children n)) of
                     None \<Rightarrow> None
                   | Some n \<Rightarrow> Some (case t_historyErr (nd_tr n) of None \<Rightarrow> Inr evs | Some err \<Rightarrow> Inl err, n)))"

definition ReconcileApprovalReceipt ::
  "tr_env \<Rightarrow> string \<Rightarrow> string \<Rightarrow> obj option \<Rightarrow> obj option \<Rightarrow> Node \<Rightarrow> ((string + tevent list) \<times> Node) option" where
  "ReconcileApprovalReceipt env turn call snapshot result n =
     (let t = nd_tr n
      in if t_done t \<or> turn = [] \<or> t_nativeTurnID t \<noteq> turn \<or> map_of (t_tools t) call = None
         then Some (Inl ''approval receipt requires the registered native turn and tool'', n)
         else if \<not> prefix (''agui.tool/'' @ PathEscape turn @ ''/'') call
         then Some (Inl ''approval receipt tool belongs to another native turn'', n)
         else case (snapshot, result) of
                (Some s, Some r) \<Rightarrow>
                  (case (StandardEvent env s, StandardEvent env r) of
                     (Some descriptor, Some receipt) \<Rightarrow>
                       if \<not> strings_ok s [''type''] \<or> \<not> strings_ok r [''type'', ''toolCallId'']
                          \<or> field s ''type'' \<noteq> ''MESSAGES_SNAPSHOT'' \<or> field r ''type'' \<noteq> ''TOOL_CALL_RESULT''
                          \<or> field r ''toolCallId'' \<noteq> call
                       then Some (Inl ''approval receipt event identity mismatch'', n)
                       else publish_all env [descriptor, receipt] n
                   | _ \<Rightarrow> Some (Inl library_error, n))
              | _ \<Rightarrow> Some (Inl ''approval receipt events are required'', n))"

section \<open>Subagents\<close>

definition invocation_json :: "Invocation \<Rightarrow> json" where
  "invocation_json iv =
     JObj ((if iv_Detached iv then [(''detached'', JBool True)] else [])
           @ smem ''executionMode'' (iv_ExecutionMode iv) @ smem ''id'' (iv_ID iv)
           @ smem ''conversationId'' (iv_ConversationID iv) @ smem ''turnId'' (iv_TurnID iv) @ smem ''name'' (iv_Name iv)
           @ smem ''description'' (iv_Description iv) @ smem ''parentConversationId'' (iv_ParentConversationID iv)
           @ smem ''parentTurnId'' (iv_ParentTurnID iv) @ smem ''parentToolCallId'' (iv_ParentToolCallID iv)
           @ smem ''parentMessageId'' (iv_ParentMessageID iv) @ smem ''parentInvocationId'' (iv_ParentInvocationID iv))"

definition startSubagent :: "Translator \<Rightarrow> Subagent \<Rightarrow> tevent list \<times> Subagent" where
  "startSubagent t s =
     (case s of Subagent iv c started d \<Rightarrow>
        if started \<or> d then ([], s)
        else
          ([standardEvent
              ([(''type'', JStr ''SUBAGENT_STARTED''), (''subagentRunId'', JStr (iv_ID iv)), (''name'', JStr (iv_Name iv)),
                (''metadata'', JObj [(''agently'', JObj [(''invocation'', invocation_json iv)])])]
               @ smem ''description'' (iv_Description iv)
               @ (if iv_ParentToolCallID iv = [] then []
                  else [(''parentToolCallId'', JStr (toolID t (iv_ParentTurnID iv) (iv_ParentToolCallID iv)))])
               @ smem ''parentMessageId'' (iv_ParentMessageID iv)
               @ smem ''parentSubagentRunId'' (iv_ParentInvocationID iv))],
           Subagent iv c True d))"

definition attributedEvent :: "tr_env \<Rightarrow> tevent \<Rightarrow> string \<Rightarrow> tevent option" where
  "attributedEvent env ev w =
     (case MarshalJSON env ev of
        None \<Rightarrow> None
      | Some fs \<Rightarrow> StandardEvent env (put ''subagentRunId'' (JStr w) fs))"

definition boundary_event :: "string \<Rightarrow> string \<Rightarrow> obj \<Rightarrow> tevent" where
  "boundary_event kind w fs = standardEvent ([(''type'', JStr kind), (''subagentRunId'', JStr w)] @ fs)"

definition outcome_member :: "string \<Rightarrow> obj" where
  "outcome_member o' = [(''outcome'', JObj [(''type'', JStr o')])]"

text \<open>An event of the child in the run of the parent: \<open>None\<close> is an invalid event. The snapshots name the
  messages the child wrote.\<close>

definition attribute_message :: "Translator \<Rightarrow> string \<Rightarrow> json \<Rightarrow> json" where
  "attribute_message c w v =
     (case v of
        JObj m \<Rightarrow> JObj (if map_of (t_texts c) (field m ''id'') = None then m else put ''subagentRunId'' (JStr w) m)
      | _ \<Rightarrow> v)"

definition child_event :: "tr_env \<Rightarrow> Invocation \<Rightarrow> Native \<Rightarrow> Translator \<Rightarrow> tevent \<Rightarrow> tevent list option" where
  "child_event env iv e c ev =
     (let kind = field (te_fields ev) ''type''; w = iv_ID iv
      in if kind = ''RUN_STARTED'' then Some []
         else if kind = ''RUN_FINISHED''
         then Some [if n_Type e = ''turn_canceled''
                    then boundary_event ''SUBAGENT_ERROR'' w
                           [(''message'', JStr ''Subagent invocation cancelled''), (''code'', JStr ''CANCELLED'')]
                    else boundary_event ''SUBAGENT_FINISHED'' w
                           (outcome_member (if n_Status e \<in> set [''waiting_for_user'', ''pending''] then ''suspended''
                                            else ''success''))]
         else if kind = ''RUN_ERROR''
         then Some [boundary_event ''SUBAGENT_ERROR'' w
                      [(''message'', JStr (field (te_fields ev) ''message'')), (''code'', JStr (field (te_fields ev) ''code''))]]
         else if kind = ''MESSAGES_SNAPSHOT''
         then map_option (\<lambda>ev. [ev])
                (StandardEvent env
                   (put ''messages'' (JArr (map (attribute_message c w) (elements (te_fields ev) ''messages''))) (te_fields ev)))
         else map_option (\<lambda>ev. [ev]) (attributedEvent env ev w))"

definition ends_child :: "tevent \<Rightarrow> bool" where
  "ends_child ev \<longleftrightarrow> field (te_fields ev) ''type'' \<in> set [''RUN_FINISHED'', ''RUN_ERROR'']"

definition set_done :: "bool \<Rightarrow> Subagent \<Rightarrow> Subagent" where
  "set_done b s = (case s of Subagent iv c st d \<Rightarrow> Subagent iv c st (d \<or> b))"

definition merge_usage :: "string \<Rightarrow> Translator \<Rightarrow> Translator \<Rightarrow> Translator" where
  "merge_usage w c t =
     t\<lparr>t_usage := fold (\<lambda>(i, u). AList.update (w @ ''/'' @ i) u) (t_usage c) (t_usage t)\<rparr>"


definition fail_at :: "tr_env \<Rightarrow> string \<Rightarrow> string \<Rightarrow> Node \<Rightarrow> (tevent list \<times> Node) option" where
  "fail_at env msg code n = fail_node env msg code [] n"

definition queued_child :: "Invocation \<Rightarrow> tevent" where
  "queued_child iv =
     custom_event ''agently.subagent.queue''
       (JObj [(''version'', JStr ''1''), (''invocation'', invocation_json iv), (''status'', JStr ''queued'')])"

text \<open>The child takes the graph of the parent before it translates.\<close>

definition adopt_graph :: "Translator \<Rightarrow> Node \<Rightarrow> Node option" where
  "adopt_graph t c =
     (let u = (nd_tr c)\<lparr>t_messages := t_messages t, t_seeded := t_seeded t\<rparr>
      in map_option (\<lambda>u. Node u (nd_children c))
           (if t_seeded t then refreshHistoricalTools (t_messages t) u else Some u))"

definition with_graph :: "Translator \<Rightarrow> Node \<Rightarrow> Node" where
  "with_graph t c = on_tr (\<lambda>u. u\<lparr>t_messages := t_messages t, t_seeded := t_seeded t\<rparr>) c"

definition forward_events ::
  "tr_env \<Rightarrow> Invocation \<Rightarrow> Native \<Rightarrow> tevent list \<Rightarrow> tevent list \<Rightarrow> Subagent \<Rightarrow> Node \<Rightarrow> (tevent list \<times> Node) option" where
  "forward_events env iv e out evs s n =
     (let c = nd_tr (sb_node s); w = iv_ID iv; attribute = child_event env iv e c
      in case map_all attribute evs of
           None \<Rightarrow>
             fail_at env library_error ''INVALID_SUBAGENT_EVENT''
               (set_child w (set_done (list_ex ends_child (takeWhile (\<lambda>ev. attribute ev \<noteq> None) evs)) s) n)
         | Some outs \<Rightarrow>
             (let out = out @ concat outs; s = set_done (list_ex ends_child evs) s
              in map_option (\<lambda>n. (out, n)) (capture env out (on_tr (merge_usage w c) (set_child w s n)))))"

definition translateSubagent :: "tr_env \<Rightarrow> bool \<Rightarrow> Invocation \<Rightarrow> Native \<Rightarrow> Node \<Rightarrow> (tevent list \<times> Node) option" where
  "translateSubagent env trusted iv e n =
     (if t_done (nd_tr n) \<or> iv_ID iv = [] \<or> n_ConversationID e \<noteq> iv_ConversationID iv
         \<or> n_TurnID e \<noteq> iv_TurnID iv \<or> iv_Detached iv then Some ([], n)
      else
        let (s, n) = subagent iv n
        in if sb_done s \<or> n_Type e = ''linked_conversation_attached'' then Some ([], n)
           else if n_Type e = ''turn_queued'' then Some ([queued_child iv], n)
           else
             let (out, t) = Start (nd_tr n);
                 n = Node t (nd_children n);
                 (st, s) = startSubagent t s;
                 stored = (\<lambda>c. Subagent (sb_inv s) c (sb_started s) (sb_done s))
             in case adopt_graph t (sb_node s) of
                  None \<Rightarrow> fail_node env library_error ''INVALID_AUTHORITATIVE_HISTORY'' (out @ st)
                            (set_child (iv_ID iv) (stored (with_graph t (sb_node s))) n)
                | Some c \<Rightarrow>
                    (case translate env trusted e c of
                       None \<Rightarrow> None
                     | Some (evs, c) \<Rightarrow> forward_events env iv e (out @ st) evs (stored c) n))"

definition TranslateSubagent :: "tr_env \<Rightarrow> Invocation \<Rightarrow> Native \<Rightarrow> Node \<Rightarrow> (tevent list \<times> Node) option" where
  "TranslateSubagent env iv e n = translateSubagent env False iv e n"

definition ReconcileSubagentEvent ::
  "tr_env \<Rightarrow> Invocation \<Rightarrow> obj \<Rightarrow> Node \<Rightarrow> (string + (tevent list \<times> Node)) option" where
  "ReconcileSubagentEvent env iv raw n =
     (if (case map_of (nd_children n) (iv_ID iv) of None \<Rightarrow> True | Some s \<Rightarrow> sb_inv s \<noteq> iv) \<or> iv_Detached iv
      then Some (Inl ''trusted child recovery requires exact causal registration'')
      else if \<not> ok_event env raw then Some (Inl library_error)
      else if field raw ''type'' \<notin> set [''MESSAGES_SNAPSHOT'', ''TOOL_CALL_RESULT'']
      then Some (Inl ''trusted child recovery only accepts messages and tool receipts'')
      else map_option Inr
             (translateSubagent env True iv
                (no_event\<lparr>n_Type := ''protocol_event'', n_ConversationID := iv_ConversationID iv,
                          n_TurnID := iv_TurnID iv, n_ProtocolEvent := raw\<rparr>) n))"

record InvocationResult =
  ir_Invocation :: Invocation
  ir_NativeStatus :: string
  ir_Content :: string
  ir_Error :: string

text \<open>\<open>strings.ToUpper\<close> on the ASCII letters.\<close>

definition char_upper :: "char \<Rightarrow> char" where
  "char_upper c = (case map_of (map (\<lambda>(u, l). (l, u)) lower_table) c of Some u \<Rightarrow> u | None \<Rightarrow> c)"

definition child_outcome :: "InvocationResult \<Rightarrow> tevent" where
  "child_outcome r =
     (let w = iv_ID (ir_Invocation r); st = ir_NativeStatus r
      in if st = ''waiting_for_user'' then boundary_event ''SUBAGENT_FINISHED'' w (outcome_member ''suspended'')
         else if ir_Error r \<noteq> [] \<or> st \<in> set [''failed'', ''canceled'', ''cancelled'']
         then boundary_event ''SUBAGENT_ERROR'' w
                [(''message'', JStr (str_or (ir_Error r) (''Subagent invocation '' @ st))),
                 (''code'', JStr (map char_upper st))]
         else boundary_event ''SUBAGENT_FINISHED'' w [])"

text \<open>The text a child has not streamed, and the closing of its lanes, attributed to it.\<close>

definition answer_child :: "tr_env \<Rightarrow> InvocationResult \<Rightarrow> Node \<Rightarrow> (tevent list \<times> Node) option" where
  "answer_child env r c =
     (if ir_NativeStatus r \<in> set [''succeeded'', ''completed''] \<and> ir_Content r \<noteq> [] \<and> \<not> HasText (nd_tr c)
      then CompleteText env (iv_ID (ir_Invocation r) @ ''/result'') (ir_Content r) c else Some ([], c))"

definition attribute_all :: "tr_env \<Rightarrow> string \<Rightarrow> tevent list \<Rightarrow> tevent list option" where
  "attribute_all env w evs = map_all (\<lambda>ev. attributedEvent env ev w) evs"

definition InvocationReturned :: "tr_env \<Rightarrow> InvocationResult \<Rightarrow> Node \<Rightarrow> (tevent list \<times> Node) option" where
  "InvocationReturned env r n =
     (let iv = ir_Invocation r; w = iv_ID iv
      in if t_done (nd_tr n) \<or> w = [] \<or> iv_Detached iv then Some ([], n)
         else
           let (s, n) = subagent iv n
           in if sb_done s \<or> ir_NativeStatus r \<in> set [''queued'', ''running'', ''pending'']
                 \<or> ir_NativeStatus r = [] \<and> ir_Error r = [] then Some ([], n)
              else
                let (out, t) = Start (nd_tr n);
                    n = Node t (nd_children n);
                    (st, s) = startSubagent t s;
                    stored = (\<lambda>d c. Subagent (sb_inv s) c (sb_started s) d)
                in case answer_child env r (sb_node s) of
                     None \<Rightarrow> None
                   | Some (answer, c) \<Rightarrow>
                       (case attribute_all env w answer of
                          None \<Rightarrow> fail_at env library_error ''INVALID_SUBAGENT_EVENT'' (set_child w (stored False c) n)
                        | Some answer \<Rightarrow>
                            (case closeOpen env (nd_tr c) of (closing, u) \<Rightarrow>
                               let c = Node u (nd_children c)
                               in case attribute_all env w closing of
                                    None \<Rightarrow> fail_at env library_error ''INVALID_SUBAGENT_EVENT''
                                              (set_child w (stored False c) n)
                                  | Some closing \<Rightarrow>
                                      let out = out @ st @ answer @ closing @ [child_outcome r];
                                          c = on_tr (\<lambda>u. u\<lparr>t_done := True\<rparr>) c
                                      in map_option (\<lambda>n. (out, n)) (capture env out (set_child w (stored True c) n)))))"

definition RegisterInvocation :: "tr_env \<Rightarrow> Invocation \<Rightarrow> Node \<Rightarrow> (tevent list \<times> Node) option" where
  "RegisterInvocation env iv n =
     (let t = nd_tr n
      in if t_done t \<or> iv_ID iv = [] then Some ([], n)
         else if iv_Detached iv
         then Some ([custom_event ''agently.linked-run''
                       (JObj [(''version'', JStr ''1''), (''parentRunId'', JStr (t_runID t)),
                              (''invocation'', invocation_json iv)])], n)
         else if t_nativeTurnID t = [] then Some ([], snd (subagent iv n))
         else case validateInvocation n iv of
                Some err \<Rightarrow> fail_at env err ''INVALID_INVOCATION'' n
              | None \<Rightarrow>
                  if map_of (nd_children n) (iv_ID iv) \<noteq> None then Some ([], n)
                  else
                    let n = snd (subagent iv n);
                        (out, t) = Start (nd_tr n);
                        out = out @ [standardEvent
                          [(''type'', JStr ''CUSTOM''), (''name'', JStr ''agently.invocation''),
                           (''value'', JObj [(''version'', JStr ''1''), (''phase'', JStr ''registered''),
                                             (''invocation'', invocation_json iv)])]]
                    in map_option (\<lambda>n. (out, n)) (capture env out (Node t (nd_children n))))"

definition ActiveInvocations :: "Node \<Rightarrow> Invocation list" where
  "ActiveInvocations n = map (\<lambda>(_, s). sb_inv s) (filter (\<lambda>(_, s). sb_started s \<and> \<not> sb_done s) (nd_children n))"

definition RecoverableInvocations :: "Node \<Rightarrow> Invocation list" where
  "RecoverableInvocations n =
     map (\<lambda>(_, s). sb_inv s) (filter (\<lambda>(_, s). \<not> sb_done s \<and> \<not> iv_Detached (sb_inv s)) (nd_children n))"

definition SubagentHasText :: "Node \<Rightarrow> string \<Rightarrow> bool" where
  "SubagentHasText n w =
     (case map_of (nd_children n) w of None \<Rightarrow> False | Some s \<Rightarrow> HasText (nd_tr (sb_node s)))"

end
