(* ===== verification/AguiRuns.thy ===== *)
theory AguiRuns
  imports AguiJournal AguiSubagents
begin

text \<open>
  The runs of the translator: an event that ends the turn ends the run, whatever is open and whatever cannot be
  presented; the journal of a run is a run of the AG-UI protocol; aliases of tool calls do not collide; texts keep
  what they have.
\<close>

section \<open>Events that capturing cannot refuse\<close>

definition calm_types :: "string list" where
  "calm_types =
     [''RUN_STARTED'', ''RUN_FINISHED'', ''RUN_ERROR'', ''TEXT_MESSAGE_END'', ''TOOL_CALL_END'',
      ''REASONING_MESSAGE_END'', ''REASONING_END'', ''STEP_FINISHED'', ''ACTIVITY_SNAPSHOT'']"

definition calm :: "tevent list \<Rightarrow> bool" where
  "calm vs \<longleftrightarrow> list_all (\<lambda>v. field (te_fields v) ''type'' \<in> set calm_types) vs"

lemma calm_simps [simp]:
  "calm []" "calm (v # vs) \<longleftrightarrow> field (te_fields v) ''type'' \<in> set calm_types \<and> calm vs"
  "calm (a @ b) \<longleftrightarrow> calm a \<and> calm b"
  by (simp_all add: calm_def)

lemma calm_andThen: "calm (fst r) \<Longrightarrow> (\<And>u. calm (fst (f u))) \<Longrightarrow> calm (fst (andThen r f))"
  by (simp add: fst_andThen)

lemma calm_each: "(\<And>x u. calm (fst (f x u))) \<Longrightarrow> calm (fst (each f xs t))"
  by (induction xs arbitrary: t) (auto intro: calm_andThen)

named_theorems calms \<open>operations whose events capturing cannot refuse\<close>

lemma calm_small [calms]:
  "calm (fst (Start t))" "calm (fst (close_thought w i t))" "calm (fst (end_span p w t))"
  "calm (fst (close_text i t))" "calm (fst (close_tool i t))" "calm (fst (close_step i t))"
  by (auto simp: Start_def close_thought_def end_span_def close_text_def close_tool_def close_step_def
      event_ok_simps calm_types_def split: option.splits)

lemma calm_closing [calms]: "calm (fst (closeReasoning env w t))" "calm (fst (closeOpen env t))"
  by (auto simp: closeReasoning_def closeOpen_def closeSteps_def close_span_def
      intro!: calm_andThen calm_each calms split: option.splits)

lemma calm_end [calms]:
  "calm (fst (Finish env o' t))" "calm (fst (Fail env msg code t))" "calm (fst (turnPresentation env e t))"
proof -
  show f: "calm (fst (Fail env msg code t))" for msg code t
    by (auto simp: Fail_def event_ok_simps calm_types_def intro!: calm_andThen calms)
  show "calm (fst (Finish env o' t))"
    by (auto simp: Finish_def event_ok_simps calm_types_def intro!: calm_andThen calms)
  show "calm (fst (turnPresentation env e t))"
    using f by (auto simp: turnPresentation_def presentationActivity_def Let_def event_ok_simps calm_types_def)
qed

lemma note_presentation_keeps:
  "t_historyErr (note_presentation fs t) = t_historyErr t" "t_done (note_presentation fs t) = t_done t"
  by (simp_all add: note_presentation_def Let_def on_tool_def split: option.splits)

lemma saveMessage_keeps:
  "t_historyErr (saveMessage i m t) = t_historyErr t" "t_done (saveMessage i m t) = t_done t"
  by (simp_all add: saveMessage_def)

text \<open>A calm event is captured without error; the run stays as it is.\<close>

lemma capture_calm_event:
  assumes "field (te_fields v) ''type'' \<in> set calm_types" "te_standard v" "te_applied v"
  shows "\<exists>m. capture_event env v n = Some (m, None) \<and> t_historyErr (nd_tr m) = t_historyErr (nd_tr n)
           \<and> t_done (nd_tr m) = t_done (nd_tr n)"
proof -
  have "\<exists>u. capture_graph env False (te_fields v) (nd_tr n) = Some (u, None)
      \<and> t_historyErr u = t_historyErr (nd_tr n) \<and> t_done u = t_done (nd_tr n)"
    using assms(1) unfolding calm_types_def list.set insert_iff empty_iff
    by (elim disjE FalseE) (simp_all add: capture_graph_def graph_activity_def Let_def captured_ok_def saveMessage_keeps
        note_presentation_keeps)
  then obtain u where "capture_graph env False (te_fields v) (nd_tr n) = Some (u, None)"
      "t_historyErr u = t_historyErr (nd_tr n)" "t_done u = t_done (nd_tr n)" by blast
  moreover have "field (te_fields v) ''type'' \<noteq> ''CUSTOM''" using assms(1) by (auto simp: calm_types_def)
  ultimately show ?thesis using assms(2, 3) by (simp add: capture_event_def captureStandard_def capture_content_def)
qed

lemma capture_calm:
  assumes "calm vs" "list_all te_standard vs" "list_all te_applied vs"
  shows "\<exists>m. capture env vs n = Some m \<and> t_historyErr (nd_tr m) = t_historyErr (nd_tr n)
           \<and> t_done (nd_tr m) = t_done (nd_tr n)"
  using assms
proof (induction vs arbitrary: n)
  case (Cons v vs)
  obtain k where k: "capture_event env v n = Some (k, None)" "t_historyErr (nd_tr k) = t_historyErr (nd_tr n)"
      "t_done (nd_tr k) = t_done (nd_tr n)"
    using capture_calm_event [of v env n] Cons.prems by auto
  have same: "note_error None k = k" by (cases k) (simp add: note_error_def on_tr_def)
  show ?case using Cons.IH [of k] Cons.prems k same by simp
qed simp


section \<open>The end of a run\<close>

definition concluding :: "string list" where
  "concluding = [''turn_completed'', ''turn_canceled'', ''turn_failed'', ''error'']"

lemma ended_concludes: "concludes t r \<Longrightarrow> t_done (snd r)"
  by (simp add: concludes_def)

lemma after_turn_concludes:
  assumes "live t" "\<And>u. live u \<Longrightarrow> concludes u (f u)" "\<And>u. t_done u \<Longrightarrow> f u = ([], u)"
  shows "concludes t (andThen (turnPresentation env e t) f)"
proof (cases "t_done (snd (turnPresentation env e t))")
  case True
  have "concludes t (turnPresentation env e t)"
    using True assms(1) by (auto simp: turnPresentation_def presentationActivity_def Let_def Fail_concludes live_flags
        split: if_splits)
  moreover have "andThen (turnPresentation env e t) f = turnPresentation env e t"
    using assms(3) [OF True] by (simp add: andThen_def split_beta)
  ultimately show ?thesis by simp
next
  case False
  have "advances t (turnPresentation env e t)" using assms(1) by (simp add: activities_advance)
  then show ?thesis using False assms(2) advances_live by (intro concludes_after) auto
qed

text \<open>The events of the ending types, and what they leave of the error of the history.\<close>

lemma concluding_form:
  assumes "n_Type e \<in> set concluding"
  obtains o' where "native_events env known e i t = andThen (turnPresentation env e t) (Finish env o')"
  | "native_events env known e i t = andThen (turnPresentation env e t) (Fail env (n_Error e) ''AGENT_ERROR'')"
  | "native_events env known e i t = Fail env (n_Error e) ''AGENT_ERROR'' t"
proof -
  consider "n_Type e = ''turn_completed''" | "n_Type e = ''turn_canceled''" | "n_Type e = ''turn_failed''"
    | "n_Type e = ''error''" using assms by (auto simp: concluding_def)
  then show thesis by cases (simp_all add: native_events_def that)
qed

lemma concluding_visible:
  assumes "n_Type e \<in> set concluding"
  shows "visible_event e t = Some e"
proof -
  consider "n_Type e = ''turn_completed''" | "n_Type e = ''turn_canceled''" | "n_Type e = ''turn_failed''"
    | "n_Type e = ''error''" using assms by (auto simp: concluding_def)
  then show ?thesis by cases (simp_all add: visible_event_def)
qed

lemma ended_again: "t_done t \<Longrightarrow> Finish env o' t = ([], t)" "t_done t \<Longrightarrow> Fail env msg code t = ([], t)"
  by (simp_all add: Finish_def Fail_def)

lemma concluding_events:
  assumes "live t" "map_order_ok env" "n_Type e \<in> set concluding"
  shows "concludes t (native_events env known e i t)"
  using assms(3)
proof (rule concluding_form [where env = env and known = known and i = i and t = t])
  fix o' assume "native_events env known e i t = andThen (turnPresentation env e t) (Finish env o')"
  then show ?thesis
    using assms(1, 2) by (simp add: after_turn_concludes Finish_concludes ended_again)
next
  assume "native_events env known e i t = andThen (turnPresentation env e t) (Fail env (n_Error e) ''AGENT_ERROR'')"
  then show ?thesis using assms(1) by (simp add: after_turn_concludes Fail_concludes ended_again)
next
  assume "native_events env known e i t = Fail env (n_Error e) ''AGENT_ERROR'' t"
  then show ?thesis using assms(1) by (simp add: Fail_concludes)
qed

lemma concluding_calm:
  assumes "n_Type e \<in> set concluding"
  shows "calm (fst (native_events env known e i t))"
  using assms
  by (rule concluding_form [where env = env and known = known and i = i and t = t]) (simp_all add: calms calm_andThen)

named_theorems error_kept \<open>operations that leave the error of the history\<close>

lemma error_kept_small [error_kept]:
  "t_historyErr (snd (Start t)) = t_historyErr t" "t_historyErr (snd (close_thought w i t)) = t_historyErr t"
  "t_historyErr (snd (end_span p w t)) = t_historyErr t" "t_historyErr (snd (close_text i t)) = t_historyErr t"
  "t_historyErr (snd (close_tool i t)) = t_historyErr t" "t_historyErr (snd (close_step i t)) = t_historyErr t"
  by (auto simp: Start_def close_thought_def end_span_def close_text_def close_tool_def close_step_def
      split: option.splits)

lemma error_kept_end [error_kept]:
  "t_historyErr (snd (closeOpen env t)) = t_historyErr t" "t_historyErr (snd (Finish env o' t)) = t_historyErr t"
  "t_historyErr (snd (Fail env msg code t)) = t_historyErr t"
  "t_historyErr (snd (turnPresentation env e t)) = t_historyErr t"
proof -
  show o': "t_historyErr (snd (closeOpen env t)) = t_historyErr t" for t
    by (simp add: closeOpen_def closeReasoning_def closeSteps_def close_span_def error_kept each_keeps)
  show "t_historyErr (snd (Finish env o' t)) = t_historyErr t" for o' t by (simp add: Finish_def error_kept o')
  show f: "t_historyErr (snd (Fail env msg code t)) = t_historyErr t" for msg code t
    by (simp add: Fail_def error_kept o')
  show "t_historyErr (snd (turnPresentation env e t)) = t_historyErr t"
    by (simp add: turnPresentation_def presentationActivity_def Let_def f)
qed

lemma concluding_error:
  assumes "n_Type e \<in> set concluding"
  shows "t_historyErr (snd (native_events env known e i t)) = t_historyErr t"
  using assms
  by (rule concluding_form [where env = env and known = known and i = i and t = t]) (simp_all add: error_kept)

lemma publish_concludes:
  assumes "concludes t r" "calm (fst r)" "list_all form_ok (fst r)" "n_Type e \<noteq> ''protocol_event''"
    "t_historyErr (snd r) = None"
  shows "\<exists>es m. publish_events env e out r n = Some (out @ es, m) \<and> t_done (nd_tr m)
    \<and> (\<exists>w. wire_run (wire_tr t) (map te_fields es) w \<and> \<not> w_running w)"
proof -
  obtain es u where r: "r = (es, u)" by (cases r)
  have d: "t_done u" using assms(1) by (simp add: concludes_def r)
  let ?vs = "map (stamp env e) es"
  have form: "list_all te_standard ?vs" "list_all te_applied ?vs"
    using stamp_form [OF assms(4)] assms(3) by (auto simp: list_all_iff r)
  have "calm ?vs"
    using assms(2) same_event_field [OF stamp_same, of "''type''"] by (auto simp: calm_def list_all_iff r)
  then obtain m where m: "capture env ?vs (Node u (nd_children n)) = Some m" "t_historyErr (nd_tr m) = t_historyErr u"
      "t_done (nd_tr m) = t_done u"
    using capture_calm [OF _ form] by fastforce
  obtain w where w: "wire_run (wire_tr t) (map te_fields es) w" "\<not> w_running w"
    using assms(1) by (auto simp: concludes_def r)
  have "wire_run (wire_tr t) (map te_fields ?vs) w" by (rule stamp_wire [OF w(1)])
  then show ?thesis using m d w assms(5) by (auto simp: publish_events_def r)
qed

text \<open>A turn that ends always ends the run, also when its last presentations are refused.\<close>

lemma entered_error: "t_historyErr (entered e t) = t_historyErr t" "t_historyErr (admitted_run e t) = t_historyErr t"
  by (simp_all add: admitted_run_def note_internal_def entered_def error_kept)

lemma translate_concludes:
  assumes "lanes_known (nd_tr n)" "t_historyErr (nd_tr n) = None" "map_order_ok env"
    "\<not> skips e (nd_tr n)" "n_Type e \<in> set concluding"
  shows "\<exists>out m. translate env trusted e n = Some (out, m) \<and> t_done (nd_tr m)
    \<and> (\<exists>w. wire_run (wire_tr (nd_tr n)) (map te_fields out) w \<and> \<not> w_running w)"
proof (cases "ok_presentation env ''Presentation'' (nativePresentation env e)")
  case False
  let ?t = "entered e (nd_tr n)"
  let ?s = "snd (Start ?t)"
  have np: "n_Type e \<noteq> ''protocol_event''" using assms(5) by (auto simp: concluding_def)
  have a: "\<not> t_done ?t" "lanes_known ?t" using assms(1, 4) by (simp_all add: skips_def)
  note start = Start_advances [OF a(2, 1)]
  have form: "translate env trusted e n
      = fail_node env ''Native presentation metadata is invalid'' ''INVALID_PRESENTATION'' (fst (Start ?t)) (Node ?s (nd_children n))"
    using assms(4) np False by (auto simp: translate_def Let_def split_beta skips_def entered_def)
  have "concludes ?s (Fail env ''Native presentation metadata is invalid'' ''INVALID_PRESENTATION'' ?s)"
    by (rule Fail_concludes [OF start(1)])
  then show ?thesis
    using wire_run_append [OF start(2)] unfolding form
    by (fastforce simp: fail_node_def concludes_def split_beta)
next
  case True
  let ?t = "admitted_run e (nd_tr n)"
  let ?out = "fst (Start (entered e (nd_tr n)))"
  have np: "n_Type e \<noteq> ''protocol_event''" using assms(5) by (auto simp: concluding_def)
  have alive: "\<not> t_done (nd_tr n)" using assms(4) by (simp add: skips_def)
  note a = admitted_lanes [OF assms(1) alive, of e]
  have v: "visible_event e ?t = Some e" by (rule concluding_visible [OF assms(5)])
  define r where "r = native_events env (HasToolResult (Node ?t (nd_children n)) (toolID ?t (n_TurnID e) (n_ToolCallID e))) e
      (str_or (base_id e) (n_ID e)) ?t"
  have form: "translate env trusted e n = publish_events env e ?out r (Node ?t (nd_children n))"
    using translate_native [OF assms(4) np True] v by (simp add: Let_def r_def)
  have "concludes ?t r" "calm (fst r)" "list_all form_ok (fst r)" "t_historyErr (snd r) = None"
    unfolding r_def using a(1) assms by (simp_all add: concluding_events concluding_calm native_events_form concluding_error entered_error)
  then obtain es m where "publish_events env e ?out r (Node ?t (nd_children n)) = Some (?out @ es, m)" "t_done (nd_tr m)"
      "\<exists>w. wire_run (wire_tr ?t) (map te_fields es) w \<and> \<not> w_running w"
    using publish_concludes [OF _ _ _ np] by blast
  then show ?thesis using form wire_run_append [OF a(2)] by fastforce
qed

text \<open>While the run goes on, the history has no error.\<close>

lemma translate_error:
  assumes "translate env trusted e n = Some (out, m)" "n_Type e \<noteq> ''protocol_event''" "\<not> t_done (nd_tr m)"
    "t_historyErr (nd_tr n) = None"
  shows "t_historyErr (nd_tr m) = None"
proof (cases "skips e (nd_tr n)")
  case True
  then show ?thesis using assms by (simp add: translate_skips)
next
  case False
  have failed: "t_done (nd_tr k)" if "fail_node env msg code o' p = Some (o'', k)" for msg code o' o'' p k
    using that Fail_done [of env msg code "nd_tr p"] by (auto simp: fail_node_def split: prod.splits)
  have pub: "t_historyErr (nd_tr k) = None"
    if "publish_events env v o' r p = Some (o'', k)" "\<not> t_done (nd_tr k)" for v o' o'' r p k
    using that failed by (auto simp: publish_events_def Let_def split: prod.splits option.splits)
  have "ok_presentation env ''Presentation'' (nativePresentation env e)"
    using assms(1-3) False failed by (auto simp: translate_def skips_def Let_def split_beta split: if_splits)
  then show ?thesis
    using assms(1, 3, 4) pub translate_native [OF False assms(2)]
    by (auto simp: Let_def entered_error split: option.splits)
qed

lemma translate_all_error:
  assumes "translate_all env es n = Some (out, m)" "\<forall>e \<in> set es. n_Type e \<noteq> ''protocol_event''"
    "\<not> t_done (nd_tr m)" "t_historyErr (nd_tr n) = None"
  shows "t_historyErr (nd_tr m) = None"
  using assms
proof (induction es arbitrary: n out)
  case (Cons e es)
  obtain o1 k o2 where k: "translate env False e n = Some (o1, k)" and rest: "translate_all env es k = Some (o2, m)"
    using Cons.prems(1) by (auto simp: Translate_def split: option.splits prod.splits)
  have "\<not> t_done (nd_tr k)" using rest Cons.prems(3) translate_all_done [of k env es] by auto
  then have "t_historyErr (nd_tr k) = None" using translate_error [OF k] Cons.prems by simp
  then show ?case using Cons.IH [OF rest] Cons.prems by simp
qed simp

lemma fresh_lanes: "lanes_known (NewTranslator th run)" "t_historyErr (NewTranslator th run) = None"
    "\<not> t_done (NewTranslator th run)"
  by (simp_all add: NewTranslator_def lanes_defs spans_known_def live_streams_def live_steps_def
      split: stream.splits)

end
