(* ===== verification/AguiRestore.thy ===== *)
theory AguiRestore
  imports AguiRuns
begin

text \<open>
  A translator restored from the journal of a run that goes on has the lanes of the translator that wrote it: reading
  an event back is the step of the protocol that the event is.
\<close>

section \<open>A run that goes on has not been ended\<close>

definition life_types :: "string list" where
  "life_types = [''RUN_FINISHED'', ''RUN_ERROR'']"

definition ongoing :: "tevent list \<Rightarrow> bool" where
  "ongoing vs \<longleftrightarrow> list_all (\<lambda>v. field (te_fields v) ''type'' \<notin> set life_types) vs"

definition goes_on :: "tevent list \<times> Translator \<Rightarrow> bool" where
  "goes_on r \<longleftrightarrow> t_done (snd r) \<or> ongoing (fst r)"

lemma ongoing_simps [simp]:
  "ongoing []" "ongoing (v # vs) \<longleftrightarrow> field (te_fields v) ''type'' \<notin> set life_types \<and> ongoing vs"
  "ongoing (a @ b) \<longleftrightarrow> ongoing a \<and> ongoing b"
  by (simp_all add: ongoing_def)

lemma goes_on_quick: "ongoing (fst r) \<Longrightarrow> goes_on r" "t_done (snd r) \<Longrightarrow> goes_on r" "goes_on ([], t)"
  by (simp_all add: goes_on_def)

lemma goes_on_andThen:
  assumes "goes_on r" "goes_on (f (snd r))" "t_done (snd r) \<Longrightarrow> t_done (snd (f (snd r)))"
  shows "goes_on (andThen r f)"
  using assms by (auto simp: goes_on_def fst_andThen)

lemma ongoing_andThen: "ongoing (fst r) \<Longrightarrow> (\<And>u. ongoing (fst (f u))) \<Longrightarrow> ongoing (fst (andThen r f))"
  by (simp add: fst_andThen)

lemma ongoing_each: "(\<And>x u. ongoing (fst (f x u))) \<Longrightarrow> ongoing (fst (each f xs t))"
  by (induction xs arbitrary: t) (auto intro: ongoing_andThen)

lemma ongoing_small:
  "ongoing (fst (close_thought w i t))" "ongoing (fst (end_span p w t))"
  "ongoing (fst (close_text i t))" "ongoing (fst (close_tool i t))" "ongoing (fst (close_step i t))"
  "ongoing (fst (open_text i t))" "ongoing (fst (write_text i s d t))" "ongoing (fst (write_args e i u a t))"
  "ongoing (fst (write_result env e i t))" "ongoing (fst (open_step e i t))" "ongoing (fst (record_usage_event e i t))"
  "ongoing (fst (open_thought e i t))" "ongoing (fst (write_thought e i r t))" "ongoing (aggregateUsagePresentation e)"
  "ongoing (renderedActivity e)"
  by (auto simp: close_thought_def end_span_def close_text_def close_tool_def close_step_def open_text_def
      write_text_def write_args_def write_result_def open_step_def record_usage_event_def open_thought_def
      write_thought_def aggregateUsagePresentation_def renderedActivity_def event_ok_simps life_types_def
      split: option.splits prod.splits)

lemma ongoing_closing:
  "ongoing (fst (closeReasoning env w t))" "ongoing (fst (closeReasoningItem i t))"
  by (auto simp: closeReasoning_def closeReasoningItem_def close_span_def
      intro!: ongoing_andThen ongoing_each ongoing_small split: option.splits)

lemma ongoing_rest: "ongoing (fst (complete_step env i t))" "ongoing (fst (close_item e i t))"
  by (auto simp: complete_step_def close_item_def Let_def ongoing_closing event_ok_simps life_types_def
      intro!: ongoing_andThen split: option.splits)

lemmas ongoing_ops = ongoing_small ongoing_closing ongoing_rest

lemma ended_goes_on: "goes_on (Fail env msg code t)" "goes_on (Finish env o' t)"
  by (simp_all add: goes_on_def kept)

lemma replace_goes_on: "goes_on (replaceText env i c t)"
  by (auto simp: replaceText_def Let_def kept goes_on_def event_ok_simps life_types_def split: option.splits)

lemma text_goes_on: "goes_on (text_event env i c snap off t)"
proof -
  let ?i = "str_or i (t_runID t @ ''/assistant'')"
  obtain out u where r: "open_text ?i t = (out, u)" by (cases "open_text ?i t")
  have out: "ongoing out" using ongoing_small(6) [of ?i t] r by simp
  have a: "goes_on (andThen (out, u) (write_text ?i s d))" for s d
    using out by (intro goes_on_quick(1)) (simp add: fst_andThen ongoing_ops)
  have b: "goes_on (andThen (out, u) (replaceText env ?i d))" for d
    using out by (intro goes_on_andThen) (simp_all add: goes_on_quick replace_goes_on replaceText_done)
  show ?thesis
    unfolding text_event_def Let_def r prod.case
    using out by (auto simp: a b goes_on_quick ended_goes_on replace_goes_on split: option.splits)
qed

lemma open_tool_goes_on: "goes_on (open_tool env e i t)"
proof -
  have "goes_on (andThen (if P then text_event env p [] True None u else ([], u)) (\<lambda>t. ([start_call e i p], t)))" for P p u
    using text_goes_on [of env p "[]" True None u]
    by (intro goes_on_andThen) (auto simp: goes_on_def start_call_def event_ok_simps life_types_def)
  then show ?thesis by (simp add: open_tool_def Let_def goes_on_quick start_call_def)
qed

lemma tool_goes_on: "goes_on (tool_event env e t)"
proof -
  let ?i = "toolID t (n_TurnID e) (native_call e)"
  let ?r = "open_tool env e ?i t"
  have a: "goes_on (andThen ?r (write_result env e ?i))"
    by (intro goes_on_andThen) (simp_all add: open_tool_goes_on goes_on_quick ongoing_ops kept)
  have b: "goes_on (andThen (andThen ?r (write_args e ?i s d)) (write_result env e ?i))" for s d
    by (intro goes_on_andThen) (simp_all add: open_tool_goes_on goes_on_quick ongoing_ops kept)
  obtain out u where r: "?r = (out, u)" by (cases ?r)
  show ?thesis
    using a b open_tool_goes_on [of env e ?i t]
    by (auto simp: tool_event_def Let_def r goes_on_quick ended_goes_on split: option.splits sum.splits)
qed

lemma thought_goes_on: "goes_on (modelStep env e b t)" "goes_on (reasoning_event e t)"
proof -
  show "goes_on (modelStep env e b t)"
    by (auto simp: modelStep_def Let_def ended_goes_on fst_andThen ongoing_ops intro!: goes_on_quick(1))
  obtain out u where r: "open_thought e (thought_id e) t = (out, u)" by (cases "open_thought e (thought_id e) t")
  have out: "ongoing out" using ongoing_small(12) [of e "thought_id e" t] r by simp
  show "goes_on (reasoning_event e t)"
    by (auto simp: reasoning_event_def Let_def r out ongoing_ops event_ok_simps life_types_def fst_andThen
        intro!: goes_on_quick(1) split: option.splits)
qed

lemma presentation_goes_on:
  "goes_on (presentationActivity env k i c t)" "goes_on (turnPresentation env e t)" "goes_on (feedPresentation env e t)"
  "goes_on (plannedToolsPresentation env e t)" "goes_on (plannerPresentation env e t)"
  "goes_on (narrationPresentation env e t)" "goes_on (toolExecutionPresentation env e t)"
proof -
  show p: "goes_on (presentationActivity env k i c t)" for k i c t
    by (auto simp: presentationActivity_def Let_def kept goes_on_def event_ok_simps life_types_def)
  show "goes_on (turnPresentation env e t)" "goes_on (feedPresentation env e t)"
    "goes_on (plannedToolsPresentation env e t)" "goes_on (plannerPresentation env e t)"
    "goes_on (narrationPresentation env e t)" "goes_on (toolExecutionPresentation env e t)"
    by (simp_all add: turnPresentation_def feedPresentation_def plannedToolsPresentation_def plannerPresentation_def
        narrationPresentation_def toolExecutionPresentation_def Let_def p goes_on_quick)
qed

lemma native_goes_on: "goes_on (native_events env known e i t)"
proof -
  have single: "goes_on ([v], u)" if "field (te_fields v) ''type'' \<notin> set life_types" for v u
    using that by (simp add: goes_on_def)
  have more: "t_done u \<Longrightarrow> t_done (snd (if known then ([], u) else toolExecutionPresentation env e u))" for u
    by (simp add: kept)
  have types: "field (te_fields (linked_event e i t)) ''type'' \<notin> set life_types"
    "field (te_fields (queue_event e)) ''type'' \<notin> set life_types"
    "field (te_fields (progress_event e i t)) ''type'' \<notin> set life_types"
    by (simp_all add: event_ok_simps life_types_def)
  have pairs: "goes_on (andThen (record_usage_event e j t) (Pair (aggregateUsagePresentation e)))"
    "goes_on (andThen ([queue_event e], t) (turnPresentation env e))"
    "goes_on (andThen ([progress_event e i t], t) (narrationPresentation env e))"
    "goes_on (andThen ([progress_event e i t], t) (toolExecutionPresentation env e))" for j
    by (rule goes_on_andThen; simp add: single types presentation_goes_on goes_on_quick(1) ongoing_small kept)+
  have branch: "goes_on (if P then a else b)" if "goes_on a" "goes_on b" for P a b using that by simp
  show ?thesis
    unfolding native_events_def Let_def
    by (intro branch)
      (simp_all add: goes_on_quick ended_goes_on text_goes_on thought_goes_on presentation_goes_on tool_goes_on
        single types pairs goes_on_andThen more kept ongoing_ops)
qed

text \<open>What a call writes while the run goes on can be read back and does not end the run.\<close>

lemma stamp_ongoing: "ongoing vs \<Longrightarrow> ongoing (map (stamp env e) vs)"
  using same_event_field [OF stamp_same, of "''type''"] by (simp add: ongoing_def list_all_iff)

lemma stamp_restorable: "list_all form_ok vs \<Longrightarrow> list_all (\<lambda>v. restorable (te_fields v)) (map (stamp env e) vs)"
  using restorable_same [OF stamp_same] by (auto simp: list_all_iff form_ok_def)

lemma publish_written:
  assumes "publish_events env e out r n = Some (out', m)" "\<not> t_done (nd_tr m)" "n_Type e \<noteq> ''protocol_event''"
    "goes_on r" "list_all form_ok (fst r)"
  shows "\<exists>es. out' = out @ es \<and> ongoing es \<and> list_all (\<lambda>v. restorable (te_fields v)) es"
proof -
  obtain es u where r: "r = (es, u)" by (cases r)
  let ?all = "es @ (if t_done u then [] else renderedActivity e)"
  let ?vs = "map (stamp env e) ?all"
  obtain k where k: "capture env ?vs (Node u (nd_children n)) = Some k"
    and res: "(case t_historyErr (nd_tr k) of
        Some err \<Rightarrow> fail_node env err ''INVALID_NATIVE_SOURCE'' out k | None \<Rightarrow> Some (out @ ?vs, k)) = Some (out', m)"
    using assms(1) by (auto simp: publish_events_def r Let_def split: option.splits)
  have m: "m = k \<and> out' = out @ ?vs"
  proof (cases "t_historyErr (nd_tr k)")
    case None
    then show ?thesis using res by simp
  next
    case (Some err)
    then have "t_done (nd_tr m)" using res Fail_done [of env err "''INVALID_NATIVE_SOURCE''" "nd_tr k"]
      by (auto simp: fail_node_def split: prod.splits)
    then show ?thesis using assms(2) by simp
  qed
  have all: "list_all form_ok ?all" using assms(5) quiet_form [OF quiet_small(16)] by (simp add: r)
  then have "list_all te_standard ?vs" "list_all te_applied ?vs"
    using stamp_form [OF assms(3)] by (auto simp: list_all_iff)
  then have "t_done (nd_tr k) = t_done u" using capture_done [OF k] by simp
  then have "ongoing ?all" using assms(2, 4) m by (simp add: goes_on_def r ongoing_small)
  then show ?thesis using m stamp_ongoing stamp_restorable [OF all] by blast
qed

lemma Start_written:
  "ongoing (fst (Start t))" "list_all (\<lambda>v. restorable (te_fields v)) (fst (Start t))"
  using quiet_form [OF quiet_small(1), of t]
  by (simp_all add: Start_def event_ok_simps life_types_def)

lemma translate_written:
  assumes "translate env trusted e n = Some (out, m)" "n_Type e \<noteq> ''protocol_event''" "\<not> t_done (nd_tr m)"
  shows "ongoing out \<and> list_all (\<lambda>v. restorable (te_fields v)) out"
proof (cases "skips e (nd_tr n)")
  case True
  then show ?thesis using assms by (simp add: translate_skips)
next
  case False
  let ?out = "fst (Start (entered e (nd_tr n)))"
  have "ok_presentation env ''Presentation'' (nativePresentation env e)"
    using assms False Fail_done [of env "''Native presentation metadata is invalid''" "''INVALID_PRESENTATION''"]
    by (auto simp: translate_def skips_def Let_def fail_node_def split_beta split: if_splits)
  note form = translate_native [OF False assms(2) this, of trusted]
  show ?thesis
  proof (cases "visible_event e (admitted_run e (nd_tr n))")
    case None
    then show ?thesis using form assms(1) Start_written by (auto simp: Let_def)
  next
    case (Some v)
    then have v: "n_Type v \<noteq> ''protocol_event''" using visible_type assms(2) by metis
    let ?t = "admitted_run e (nd_tr n)"
    let ?m = "Node ?t (nd_children n)"
    have "publish_events env v ?out
        (native_events env (HasToolResult ?m (toolID ?t (n_TurnID v) (n_ToolCallID v))) v (str_or (base_id v) (n_ID v)) ?t) ?m
        = Some (out, m)"
      using form assms(1) Some by (simp add: Let_def)
    then obtain es where "out = ?out @ es \<and> ongoing es \<and> list_all (\<lambda>v. restorable (te_fields v)) es"
      using publish_written [OF _ assms(3) v native_goes_on native_events_form] by blast
    then show ?thesis using Start_written by simp
  qed
qed

lemma translate_all_written:
  assumes "translate_all env es n = Some (out, m)" "\<forall>e \<in> set es. n_Type e \<noteq> ''protocol_event''" "\<not> t_done (nd_tr m)"
  shows "ongoing out \<and> list_all (\<lambda>v. restorable (te_fields v)) out"
  using assms
proof (induction es arbitrary: n out)
  case (Cons e es)
  obtain o1 k o2 where k: "translate env False e n = Some (o1, k)" and rest: "translate_all env es k = Some (o2, m)"
      and out: "out = o1 @ o2"
    using Cons.prems(1) by (auto simp: Translate_def split: option.splits prod.splits)
  have "\<not> t_done (nd_tr k)" using rest Cons.prems(3) translate_all_done [of k env es] by auto
  then show ?case using translate_written [OF k] Cons.IH [OF rest] Cons.prems out by simp
qed simp

section \<open>Reading an event back\<close>

text \<open>The lanes of a translator that reads a journal.\<close>

definition reads :: "Translator \<Rightarrow> bool" where
  "reads t \<longleftrightarrow> orders_known t \<and> \<not> t_done t \<and> (\<not> t_started t \<longrightarrow> live_streams t = {} \<and> live_steps t = {})"

text \<open>A lane update followed by what capturing does to the graph.\<close>

lemma known_tools: "orders_known t \<Longrightarrow> map_of (t_tools t) i = None \<Longrightarrow> i \<notin> set (t_toolOrder t)"
  by (auto simp: orders_known_def)

lemma live_restored [lane_simps]:
  "live_streams (t\<lparr>t_activeModels := a\<rparr>) = live_streams t" "live_streams (t\<lparr>t_currentReasoningSpan := b\<rparr>) = live_streams t"
  "live_streams (t\<lparr>t_currentReasoningSpans := c\<rparr>) = live_streams t"
  "live_steps (t\<lparr>t_activeModels := a\<rparr>) = live_steps t" "live_steps (t\<lparr>t_currentReasoningSpan := b\<rparr>) = live_steps t"
  "live_steps (t\<lparr>t_currentReasoningSpans := c\<rparr>) = live_steps t"
  "live_steps (t\<lparr>t_reasoningSpans := d\<rparr>) = live_steps t"
  by (rule live_streams_cong live_steps_cong; simp)+

text \<open>The streams that start.\<close>

lemma restored_text:
  fixes i w :: string
  assumes "orders_known t"
  defines "u \<equiv> on_text i (\<lambda>s. s\<lparr>tx_ended := False\<rparr>) (add_text i w t)"
  shows "orders_known u" "wire_tr u = wire_tr t\<lparr>w_open := insert (TextStream, i) (live_streams t)\<rparr>"
proof -
  have ok: "\<forall>i s. map_of (t_texts t) i = Some s \<longrightarrow> i \<in> set (t_textOrder t)" using assms(1) by (simp add: orders_known_def)
  have "\<exists>s. (\<forall>j. map_of (t_texts u) j = (if j = i then Some s else map_of (t_texts t) j)) \<and> \<not> tx_ended s"
    by (cases "map_of (t_texts t) i") (auto simp: u_def on_text_def add_text_def update_conv')
  then obtain s where s: "\<And>j. map_of (t_texts u) j = (if j = i then Some s else map_of (t_texts t) j)" "\<not> tx_ended s"
    by blast
  have order: "set (t_textOrder u) = insert i (set (t_textOrder t))"
    using ok by (cases "map_of (t_texts t) i") (auto simp: u_def on_text_def add_text_def update_conv')
  have rest: "t_reasonings u = t_reasonings t" "t_tools u = t_tools t" "t_reasoningSpans u = t_reasoningSpans t"
    "t_steps u = t_steps t" "t_toolOrder u = t_toolOrder t" "t_reasoningOrder u = t_reasoningOrder t"
    "t_stepOrder u = t_stepOrder t" "t_started u = t_started t" "t_done u = t_done t" "t_threadID u = t_threadID t"
    "t_runID u = t_runID t"
    by (auto simp: u_def on_text_def add_text_def split: option.splits)
  show "orders_known u"
    using assms(1) s(1) order by (auto simp: orders_known_def rest split: if_splits)
  have "live_streams u = insert (TextStream, i) (live_streams t)"
    by (rule streams_eqI) (auto simp: s rest)
  then show "wire_tr u = wire_tr t\<lparr>w_open := insert (TextStream, i) (live_streams t)\<rparr>"
    by (intro wire_tr_eqI live_steps_cong) (simp_all add: rest)
qed

lemma restored_thought:
  fixes i w :: string
  assumes "orders_known t"
  defines "u \<equiv> on_thought i (\<lambda>s. s\<lparr>rs_ended := False\<rparr>) (add_thought i w t)"
  shows "orders_known u" "wire_tr u = wire_tr t\<lparr>w_open := insert (ThoughtStream, i) (live_streams t)\<rparr>"
proof -
  have ok: "\<forall>i s. map_of (t_reasonings t) i = Some s \<longrightarrow> i \<in> set (t_reasoningOrder t)"
    using assms(1) by (simp add: orders_known_def)
  have "\<exists>s. (\<forall>j. map_of (t_reasonings u) j = (if j = i then Some s else map_of (t_reasonings t) j)) \<and> \<not> rs_ended s"
    by (cases "map_of (t_reasonings t) i") (auto simp: u_def on_thought_def add_thought_def update_conv')
  then obtain s where s: "\<And>j. map_of (t_reasonings u) j = (if j = i then Some s else map_of (t_reasonings t) j)"
      "\<not> rs_ended s"
    by blast
  have order: "set (t_reasoningOrder u) = insert i (set (t_reasoningOrder t))"
    using ok by (cases "map_of (t_reasonings t) i") (auto simp: u_def on_thought_def add_thought_def update_conv')
  have rest: "t_texts u = t_texts t" "t_tools u = t_tools t" "t_reasoningSpans u = t_reasoningSpans t"
    "t_steps u = t_steps t" "t_toolOrder u = t_toolOrder t" "t_textOrder u = t_textOrder t"
    "t_stepOrder u = t_stepOrder t" "t_started u = t_started t" "t_done u = t_done t" "t_threadID u = t_threadID t"
    "t_runID u = t_runID t"
    by (auto simp: u_def on_thought_def add_thought_def split: option.splits)
  show "orders_known u"
    using assms(1) s(1) order by (auto simp: orders_known_def rest split: if_splits)
  have "live_streams u = insert (ThoughtStream, i) (live_streams t)"
    by (rule streams_eqI) (auto simp: s rest)
  then show "wire_tr u = wire_tr t\<lparr>w_open := insert (ThoughtStream, i) (live_streams t)\<rparr>"
    by (intro wire_tr_eqI live_steps_cong) (simp_all add: rest)
qed

lemma restored_call:
  fixes i w p :: string
  assumes "orders_known t"
  defines "u \<equiv> lane_tool_started i w p t"
  shows "orders_known u" "wire_tr u = wire_tr t\<lparr>w_open := insert (CallStream, i) (live_streams t)\<rparr>"
    "i \<in> set (t_toolOrder u)"
proof -
  have "\<exists>s. (\<forall>j. map_of (t_tools u) j = (if j = i then Some s else map_of (t_tools t) j)) \<and> \<not> tl_ended s"
    by (cases "map_of (t_tools t) i") (auto simp: u_def on_tool_def lane_tool_started_def Let_def update_conv')
  then obtain s where s: "\<And>j. map_of (t_tools u) j = (if j = i then Some s else map_of (t_tools t) j)" "\<not> tl_ended s"
    by blast
  have order: "set (t_toolOrder u) = insert i (set (t_toolOrder t))"
    by (cases "map_of (t_tools t) i") (auto simp: u_def on_tool_def lane_tool_started_def Let_def update_conv')
  have rest: "t_texts u = t_texts t" "t_reasonings u = t_reasonings t" "t_reasoningSpans u = t_reasoningSpans t"
    "t_steps u = t_steps t" "t_textOrder u = t_textOrder t" "t_reasoningOrder u = t_reasoningOrder t"
    "t_stepOrder u = t_stepOrder t" "t_started u = t_started t" "t_done u = t_done t" "t_threadID u = t_threadID t"
    "t_runID u = t_runID t"
    by (auto simp: u_def on_tool_def lane_tool_started_def Let_def split: option.splits)
  show "orders_known u"
    using assms(1) s(1) order by (auto simp: orders_known_def rest split: if_splits)
  have "live_streams u = insert (CallStream, i) (live_streams t)"
    by (rule streams_eqI) (auto simp: s rest)
  then show "wire_tr u = wire_tr t\<lparr>w_open := insert (CallStream, i) (live_streams t)\<rparr>"
    by (intro wire_tr_eqI live_steps_cong) (simp_all add: rest)
  show "i \<in> set (t_toolOrder u)" by (simp add: order)
qed

text \<open>The streams that end.\<close>

lemma restored_ends:
  assumes "orders_known t"
  shows "orders_known (on_text i (\<lambda>s. s\<lparr>tx_ended := True\<rparr>) t)"
    "wire_tr (on_text i (\<lambda>s. s\<lparr>tx_ended := True\<rparr>) t) = wire_tr t\<lparr>w_open := live_streams t - {(TextStream, i)}\<rparr>"
    "orders_known (on_thought i (\<lambda>s. s\<lparr>rs_ended := True\<rparr>) t)"
    "wire_tr (on_thought i (\<lambda>s. s\<lparr>rs_ended := True\<rparr>) t) = wire_tr t\<lparr>w_open := live_streams t - {(ThoughtStream, i)}\<rparr>"
    "orders_known (on_tool i (\<lambda>s. s\<lparr>tl_ended := True\<rparr>) t)"
    "wire_tr (on_tool i (\<lambda>s. s\<lparr>tl_ended := True\<rparr>) t) = wire_tr t\<lparr>w_open := live_streams t - {(CallStream, i)}\<rparr>"
proof -
  show "orders_known (on_text i (\<lambda>s. s\<lparr>tx_ended := True\<rparr>) t)"
    using assms by (auto simp: orders_known_def on_text_def update_conv' split: option.splits if_splits)
  show "orders_known (on_thought i (\<lambda>s. s\<lparr>rs_ended := True\<rparr>) t)"
    using assms by (auto simp: orders_known_def on_thought_def update_conv' split: option.splits if_splits)
  show "orders_known (on_tool i (\<lambda>s. s\<lparr>tl_ended := True\<rparr>) t)"
    using assms by (auto simp: orders_known_def on_tool_def update_conv' split: option.splits if_splits)
  show "wire_tr (on_text i (\<lambda>s. s\<lparr>tx_ended := True\<rparr>) t) = wire_tr t\<lparr>w_open := live_streams t - {(TextStream, i)}\<rparr>"
    by (cases "map_of (t_texts t) i") (auto simp: on_text_def lane_simps wire_tr_def)
  show "wire_tr (on_thought i (\<lambda>s. s\<lparr>rs_ended := True\<rparr>) t) = wire_tr t\<lparr>w_open := live_streams t - {(ThoughtStream, i)}\<rparr>"
    by (cases "map_of (t_reasonings t) i") (auto simp: on_thought_def lane_simps wire_tr_def intro!: live_steps_cong)
  show "wire_tr (on_tool i (\<lambda>s. s\<lparr>tl_ended := True\<rparr>) t) = wire_tr t\<lparr>w_open := live_streams t - {(CallStream, i)}\<rparr>"
    by (cases "map_of (t_tools t) i") (auto simp: on_tool_def lane_simps wire_tr_def intro!: live_steps_cong)
qed

text \<open>Content, results and what the lanes do not depend on.\<close>

lemma restored_contents:
  assumes "orders_known t"
  shows "orders_known (on_text i (\<lambda>s. s\<lparr>tx_content := f s\<rparr>) t)" "wire_tr (on_text i (\<lambda>s. s\<lparr>tx_content := f s\<rparr>) t) = wire_tr t"
    "orders_known (on_thought i (\<lambda>s. s\<lparr>rs_content := g s\<rparr>) t)" "wire_tr (on_thought i (\<lambda>s. s\<lparr>rs_content := g s\<rparr>) t) = wire_tr t"
    "orders_known (on_tool i (\<lambda>s. s\<lparr>tl_args := h s\<rparr>) t)" "wire_tr (on_tool i (\<lambda>s. s\<lparr>tl_args := h s\<rparr>) t) = wire_tr t"
    "orders_known (on_tool i (\<lambda>s. s\<lparr>tl_result := k s\<rparr>) t)" "wire_tr (on_tool i (\<lambda>s. s\<lparr>tl_result := k s\<rparr>) t) = wire_tr t"
    "t_toolOrder (on_tool i (\<lambda>s. s\<lparr>tl_result := k s\<rparr>) t) = t_toolOrder t"
proof -
  have a: "keeps t (on_text i (\<lambda>s. s\<lparr>tx_content := f s\<rparr>) t)" by (rule keeps_on_text) simp
  have b: "keeps t (on_thought i (\<lambda>s. s\<lparr>rs_content := g s\<rparr>) t)" by (rule keeps_on_thought) simp_all
  have c: "keeps t (on_tool i (\<lambda>s. s\<lparr>tl_args := h s\<rparr>) t)" by (rule keeps_on_tool) simp
  have d: "keeps t (on_tool i (\<lambda>s. s\<lparr>tl_result := k s\<rparr>) t)" by (rule keeps_on_tool) simp
  note known = assms keeps_live(2) [OF a] keeps_live(2) [OF b] keeps_live(2) [OF c] keeps_live(2) [OF d]
  show "orders_known (on_text i (\<lambda>s. s\<lparr>tx_content := f s\<rparr>) t)" "orders_known (on_thought i (\<lambda>s. s\<lparr>rs_content := g s\<rparr>) t)"
    "orders_known (on_tool i (\<lambda>s. s\<lparr>tl_args := h s\<rparr>) t)" "orders_known (on_tool i (\<lambda>s. s\<lparr>tl_result := k s\<rparr>) t)"
    "t_toolOrder (on_tool i (\<lambda>s. s\<lparr>tl_result := k s\<rparr>) t) = t_toolOrder t"
    using a b c d assms by (simp_all add: keeps_def)
  show "wire_tr (on_text i (\<lambda>s. s\<lparr>tx_content := f s\<rparr>) t) = wire_tr t" "wire_tr (on_thought i (\<lambda>s. s\<lparr>rs_content := g s\<rparr>) t) = wire_tr t"
    "wire_tr (on_tool i (\<lambda>s. s\<lparr>tl_args := h s\<rparr>) t) = wire_tr t" "wire_tr (on_tool i (\<lambda>s. s\<lparr>tl_result := k s\<rparr>) t) = wire_tr t"
    using known by simp_all
qed

text \<open>Spans and steps.\<close>

lemma restored_span:
  "orders_known t \<Longrightarrow> orders_known (t\<lparr>t_reasoningSpans := a, t_currentReasoningSpan := b, t_currentReasoningSpans := c\<rparr>)"
  "orders_known t \<Longrightarrow> orders_known (t\<lparr>t_reasoningSpans := a\<rparr>)"
  "wire_tr (t\<lparr>t_reasoningSpans := AList.update i True (t_reasoningSpans t), t_currentReasoningSpan := b, t_currentReasoningSpans := c\<rparr>)
    = wire_tr t\<lparr>w_open := insert (SpanStream, i) (live_streams t)\<rparr>"
  "wire_tr (t\<lparr>t_reasoningSpans := AList.update i False (t_reasoningSpans t)\<rparr>) = wire_tr t\<lparr>w_open := live_streams t - {(SpanStream, i)}\<rparr>"
  by (simp_all add: orders_known_def wire_tr_def lane_simps)

lemma step_keys:
  assumes "restorable fs" "field fs ''type'' = ''STEP_STARTED''"
  obtains i where "field fs ''stepName'' = ''model/'' @ i" "field fs ''subagentRunId'' = []"
    "step_key [] (field fs ''stepName'') = i" "stepKey fs = (''parent:'', ''model/'' @ i)"
proof -
  have "strip_prefix ''model/'' (field fs ''stepName'') \<noteq> None" and w: "map_of fs ''subagentRunId'' = None"
    using assms by (simp_all add: restorable_def)
  then obtain i where i: "field fs ''stepName'' = ''model/'' @ i" using strip_prefix_Some by blast
  show thesis
    by (rule that [of i]) (simp_all add: i w field_def [of fs "''subagentRunId''"] step_key_def trim_prefix_def
        stepKey_def ownerKey_def tagged_def has_key_def Let_def)
qed

lemma restored_step:
  assumes "orders_known t"
  shows "orders_known (lane_step_started [] (''model/'' @ i) t)"
    "wire_tr (lane_step_started [] (''model/'' @ i) t) = wire_tr t\<lparr>w_steps := insert (''parent:'', ''model/'' @ i) (live_steps t)\<rparr>"
    "orders_known (lane_step_finished [] (''model/'' @ i) t)"
    "wire_tr (lane_step_finished [] (''model/'' @ i) t) = wire_tr t\<lparr>w_steps := live_steps t - {(''parent:'', ''model/'' @ i)}\<rparr>"
proof -
  have key: "step_key [] (''model/'' @ i) = i" by (simp add: step_key_def trim_prefix_def)
  have names: "\<And>j r. map_of (t_steps t) j = Some r \<Longrightarrow> sp_name r = ''model/'' @ j"
    using assms by (auto simp: orders_known_def)
  show "orders_known (lane_step_started [] (''model/'' @ i) t)"
    unfolding lane_step_started_def key Let_def
    using assms by (cases "map_of (t_steps t) i") (auto simp: orders_known_def update_conv')
  show "orders_known (lane_step_finished [] (''model/'' @ i) t)"
    unfolding lane_step_finished_def key Let_def
    using assms by (cases "map_of (t_steps t) i") (auto simp: orders_known_def update_conv')
  show "wire_tr (lane_step_started [] (''model/'' @ i) t) = wire_tr t\<lparr>w_steps := insert (''parent:'', ''model/'' @ i) (live_steps t)\<rparr>"
    unfolding lane_step_started_def key Let_def
    using names by (cases "map_of (t_steps t) i") (simp_all add: wire_tr_def lane_simps live_steps_update [OF names])
  show "wire_tr (lane_step_finished [] (''model/'' @ i) t) = wire_tr t\<lparr>w_steps := live_steps t - {(''parent:'', ''model/'' @ i)}\<rparr>"
  proof (cases "map_of (t_steps t) i")
    case None
    then have "(''parent:'', ''model/'' @ i) \<notin> live_steps t" using names by (auto simp: live_steps_def)
    then show ?thesis unfolding lane_step_finished_def key Let_def using None by (simp add: wire_tr_def lane_simps)
  next
    case (Some s)
    then show ?thesis
      unfolding lane_step_finished_def key Let_def
      using names by (simp add: wire_tr_def lane_simps live_steps_update [OF names])
  qed
qed

lemma beside_lane:
  assumes "event_type fs \<in> set other_types"
  shows "field fs ''type'' = ''TOOL_CALL_RESULT'' \<or> (field fs ''type'' \<noteq> ''TOOL_CALL_START'' \<and> capture_lane fs t = t)"
  using assms unfolding event_type_def other_types_def list.set insert_iff empty_iff
  by (elim disjE FalseE) (simp_all add: capture_lane_def Let_def)

text \<open>The lanes take the step of the protocol.\<close>

lemma lane_step:
  assumes "wire_step (wire_tr t) fs w" "orders_known t" "restorable fs" "field fs ''type'' \<notin> set life_types"
    "field fs ''type'' \<noteq> ''RUN_STARTED''"
  shows "orders_known (capture_lane fs t) \<and> wire_tr (capture_lane fs t) = w
    \<and> (field fs ''type'' = ''TOOL_CALL_START'' \<longrightarrow> field fs ''toolCallId'' \<in> set (t_toolOrder (capture_lane fs t)))"
  using assms(1)
proof cases
  case (stream_opens s)
  then consider "field fs ''type'' = ''TEXT_MESSAGE_START''" "s = (TextStream, field fs ''messageId'')"
    | "field fs ''type'' = ''REASONING_MESSAGE_START''" "s = (ThoughtStream, field fs ''messageId'')"
    | "field fs ''type'' = ''TOOL_CALL_START''" "s = (CallStream, field fs ''toolCallId'')"
    | "field fs ''type'' = ''REASONING_START''" "s = (SpanStream, field fs ''messageId'')"
    by (auto simp: event_kind split: if_splits)
  then show ?thesis
    using assms(2) stream_opens
    by cases (simp_all add: capture_lane_def Let_def restored_text restored_thought restored_call restored_span)
next
  case (stream_written s)
  then consider "field fs ''type'' = ''TEXT_MESSAGE_CONTENT''" | "field fs ''type'' = ''REASONING_MESSAGE_CONTENT''"
    | "field fs ''type'' = ''TOOL_CALL_ARGS''"
    by (auto simp: event_kind split: if_splits)
  then show ?thesis
    using assms(2) stream_written by cases (simp_all add: capture_lane_def Let_def restored_contents)
next
  case (stream_closes s)
  then consider "field fs ''type'' = ''TEXT_MESSAGE_END''" "s = (TextStream, field fs ''messageId'')"
    | "field fs ''type'' = ''REASONING_MESSAGE_END''" "s = (ThoughtStream, field fs ''messageId'')"
    | "field fs ''type'' = ''TOOL_CALL_END''" "s = (CallStream, field fs ''toolCallId'')"
    | "field fs ''type'' = ''REASONING_END''" "s = (SpanStream, field fs ''messageId'')"
    by (auto simp: event_kind split: if_splits)
  then show ?thesis
    using assms(2) stream_closes
    by cases (simp_all add: capture_lane_def Let_def restored_ends restored_span)
next
  case step_begins
  then have ty: "field fs ''type'' = ''STEP_STARTED''" by (simp add: event_type_def)
  obtain i where "field fs ''stepName'' = ''model/'' @ i" "field fs ''subagentRunId'' = []" "stepKey fs = (''parent:'', ''model/'' @ i)"
    using step_keys [OF assms(3) ty] by blast
  then show ?thesis using assms(2) step_begins restored_step(1, 2) [OF assms(2), of i] ty by (simp add: capture_lane_def Let_def)
next
  case step_ends
  then have ty: "field fs ''type'' = ''STEP_FINISHED''" by (simp add: event_type_def)
  obtain i where "stepKey fs = (''parent:'', ''model/'' @ i)"
    using step_ends assms(2) by (auto simp: live_steps_def orders_known_def)
  then have "field fs ''stepName'' = ''model/'' @ i" "field fs ''subagentRunId'' = []" "stepKey fs = (''parent:'', ''model/'' @ i)"
    by (auto simp: stepKey_def ownerKey_def tagged_def has_key_def field_def [of fs "''subagentRunId''"] split: if_splits)
  then show ?thesis using step_ends restored_step(3, 4) [OF assms(2), of i] ty by (simp add: capture_lane_def Let_def)
next
  case beside
  then have "field fs ''type'' = ''TOOL_CALL_RESULT'' \<or> (field fs ''type'' \<noteq> ''TOOL_CALL_START'' \<and> capture_lane fs t = t)"
    by (elim beside_lane)
  then show ?thesis
    using assms(2) beside(1) by (elim disjE) (simp_all add: capture_lane_def Let_def restored_contents)
next
  case subagent_begins
  then show ?thesis using assms(3) by (auto simp: restorable_def subagent_types_def event_type_def)
next
  case subagent_ends
  then show ?thesis using assms(3) by (auto simp: restorable_def subagent_types_def event_type_def)
qed (use assms(4, 5) in \<open>auto simp: life_types_def event_type_def\<close>)

section \<open>Reading a journal back\<close>

lemma content_keeps:
  assumes "capture_content env b fs n = Some (m, err)" "orders_known (nd_tr n)" "restorable fs"
    "field fs ''type'' = ''TOOL_CALL_START'' \<longrightarrow> field fs ''toolCallId'' \<in> set (t_toolOrder (nd_tr n))"
  shows "keeps (nd_tr n) (nd_tr m)"
proof (cases "field fs ''type'' = ''CUSTOM''")
  case True
  then show ?thesis
    using assms(1, 3) by (auto simp: capture_content_def restorable_def on_tr_def graph_usage_def Let_def
        split: if_splits option.splits)
next
  case False
  then obtain u where u: "capture_graph env b fs (nd_tr n) = Some (u, err)" "m = Node u (nd_children n)"
    using assms(1) by (auto simp: capture_content_def split: option.splits)
  have "heard (t_toolOrder (nd_tr n)) fs" using assms(3, 4) False by (simp add: heard_def restorable_def)
  then show ?thesis using capture_graph_keeps [OF u(1)] assms(2) u(2) by simp
qed

lemma keeps_reads: "keeps t u \<Longrightarrow> reads t \<Longrightarrow> reads u \<and> wire_tr u = wire_tr t"
  using keeps_live(2) [of t u] by (auto simp: keeps_def reads_def)

lemma run_started_read:
  assumes "wire_step (wire_tr (nd_tr n)) fs w" "reads (nd_tr n)" "field fs ''type'' = ''RUN_STARTED''"
    "captureStandard env True fs n = Some (m, None)"
  shows "reads (nd_tr m) \<and> wire_tr (nd_tr m) = w"
proof -
  let ?t = "nd_tr n"
  have w: "\<not> t_started ?t" "w = \<lparr>w_running = True, w_errored = False, w_ident = run_ident fs, w_open = {}, w_steps = {},
      w_subagents = Map.empty\<rparr>"
    using assms(1-3) by (cases; simp add: event_kind reads_def)+
  obtain k where k: "capture_run_started fs n = Inr k" "capture_content env True fs k = Some (m, None)"
    using assms(3, 4) by (auto simp: captureStandard_def capture_boundary_def split: sum.splits)
  have m: "m = k" using k(2) assms(3) by (cases k) (auto simp: capture_content_def capture_graph_def captured_ok_def)
  have "\<exists>x. nd_tr k = ?t\<lparr>t_started := True, t_nativeTurnID := x\<rparr>" and ident: "run_ident fs = (t_threadID ?t, t_runID ?t)"
    using k(1) by (auto simp: capture_run_started_def Let_def on_tr_def run_ident_def split: if_splits
        intro: exI [of _ "t_nativeTurnID ?t"])
  then obtain x where x: "nd_tr k = ?t\<lparr>t_started := True, t_nativeTurnID := x\<rparr>" by blast
  have "orders_known (nd_tr k)" using assms(2) by (simp add: x(1) reads_def orders_known_def)
  then show ?thesis
    using assms(2) w ident by (simp add: x m reads_def wire_tr_def lane_simps)
qed

lemma event_read:
  assumes "wire_step (wire_tr (nd_tr n)) fs w" "reads (nd_tr n)" "restorable fs" "field fs ''type'' \<notin> set life_types"
    "captureStandard env True fs n = Some (m, None)"
  shows "reads (nd_tr m) \<and> wire_tr (nd_tr m) = w"
proof (cases "field fs ''type'' = ''RUN_STARTED''")
  case True
  then show ?thesis using run_started_read assms by blast
next
  case False
  let ?t = "capture_lane fs (nd_tr n)"
  have "field fs ''type'' \<notin> set subagent_types" using assms(3) by (simp add: restorable_def)
  then have "capture_boundary fs n = Inr (on_tr (capture_lane fs) n)"
    using False by (simp add: capture_boundary_def Let_def subagent_types_def)
  then have c: "capture_content env True fs (on_tr (capture_lane fs) n) = Some (m, None)"
    using assms(5) by (simp add: captureStandard_def)
  have tr: "nd_tr (on_tr (capture_lane fs) n) = ?t" by (simp add: on_tr_def)
  have l: "orders_known ?t" "wire_tr ?t = w"
    "field fs ''type'' = ''TOOL_CALL_START'' \<longrightarrow> field fs ''toolCallId'' \<in> set (t_toolOrder ?t)"
    using lane_step [OF assms(1) _ assms(3, 4) False] assms(2) by (simp_all add: reads_def)
  have r: "w_running w"
    using assms(1, 4) False by cases (auto simp: event_type_def life_types_def)
  then have "reads ?t" using l by (auto simp: reads_def wire_tr_def)
  moreover have "keeps ?t (nd_tr m)" using content_keeps [OF c] l assms(3) by (simp add: tr)
  ultimately show ?thesis using keeps_reads l(2) by blast
qed

lemma journal_read:
  assumes "restore_events env fss n = Some m" "wire_run (wire_tr (nd_tr n)) fss w" "reads (nd_tr n)"
    "list_all restorable fss" "list_all (\<lambda>fs. field fs ''type'' \<notin> set life_types) fss"
  shows "reads (nd_tr m) \<and> wire_tr (nd_tr m) = w"
  using assms
proof (induction fss arbitrary: n)
  case Nil
  then show ?case by (auto elim: wire_runE)
next
  case (Cons fs fss)
  obtain v where v: "wire_step (wire_tr (nd_tr n)) fs v" "wire_run v fss w" using Cons.prems(2) by (auto elim: wire_runE)
  obtain k where k: "captureStandard env True fs n = Some (k, None)" "restore_events env fss k = Some m"
    using Cons.prems(1) by (auto split: if_splits option.splits)
  have "reads (nd_tr k) \<and> wire_tr (nd_tr k) = v" using event_read [OF v(1) _ _ _ k(1)] Cons.prems by simp
  then show ?case using Cons.IH [OF k(2)] v(2) Cons.prems by simp
qed

lemma restored_lanes_helper:
  assumes "translate_all env es (Node (NewTranslator th run) []) = Some (out, m)"
    "\<forall>e \<in> set es. n_Type e \<noteq> ''protocol_event''" "\<not> t_done (nd_tr m)"
    "RestoreTranslator env th run (map te_fields out) = Some k"
  shows "wire_tr (nd_tr k) = wire_tr (nd_tr m)"
proof -
  let ?n = "Node (NewTranslator th run) []"
  have run: "wire_run (wire_tr (nd_tr ?n)) (map te_fields out) (wire_tr (nd_tr m))"
    using translate_all_advances [OF assms(1, 2) _ assms(3)] fresh_lanes by simp
  have forms: "list_all restorable (map te_fields out)" "list_all (\<lambda>fs. field fs ''type'' \<notin> set life_types) (map te_fields out)"
    using translate_all_written [OF assms(1, 2, 3)] by (simp_all add: ongoing_def list_all_iff)
  have "reads (nd_tr ?n)" using fresh_lanes [of th run] by (simp add: reads_def lanes_known_def)
  obtain r where r: "restore_events env (map te_fields out) ?n = Some r" "nd_tr k = nd_tr r\<lparr>t_seeded := True\<rparr>"
    using assms(4) by (auto simp: RestoreTranslator_def Let_def split: option.splits)
  have "wire_tr (nd_tr r) = wire_tr (nd_tr m)"
    using journal_read [OF r(1) run \<open>reads (nd_tr ?n)\<close> forms] by simp
  then show ?thesis by (simp add: r(2) wire_tr_def lane_simps)
qed

end
