(* ===== verification/AguiTexts.thy ===== *)
theory AguiTexts
  imports AguiRuns
begin

text \<open>
  The texts of the translator: deltas that carry their offset may come again and overlap, and the text is written once;
  a first delta that does not start the text breaks the journal. The aliases of tool calls are told apart.
\<close>

section \<open>Deltas with offsets\<close>

text \<open>A delivery of deltas: pieces of a text, none of which starts behind what has come before.\<close>

definition piece :: "string \<Rightarrow> int \<times> string \<Rightarrow> bool" where
  "piece F d \<longleftrightarrow> take (length (snd d)) (drop (nat (fst d)) F) = snd d"

primrec gapless :: "nat \<Rightarrow> (int \<times> string) list \<Rightarrow> bool" where
  "gapless n [] \<longleftrightarrow> True"
| "gapless n (d # ds) \<longleftrightarrow> 0 \<le> fst d \<and> nat (fst d) \<le> n \<and> gapless (max n (nat (fst d) + length (snd d))) ds"

primrec reach :: "nat \<Rightarrow> (int \<times> string) list \<Rightarrow> nat" where
  "reach n [] = n"
| "reach n (d # ds) = reach (max n (nat (fst d) + length (snd d))) ds"

definition deliver_deltas :: "tr_env \<Rightarrow> string \<Rightarrow> (int \<times> string) list \<Rightarrow> Translator \<Rightarrow> tevent list \<times> Translator" where
  "deliver_deltas env i = each (\<lambda>d. text_event env i (snd d) False (Some (fst d)))"

definition written :: "string \<Rightarrow> tevent list \<Rightarrow> string" where
  "written i vs =
     concat (map (\<lambda>v. if field (te_fields v) ''type'' = ''TEXT_MESSAGE_CONTENT'' \<and> field (te_fields v) ''messageId'' = i
                      then field (te_fields v) ''delta'' else []) vs)"

text \<open>The text of a message that is being written, or has not begun.\<close>

definition holds :: "Translator \<Rightarrow> string \<Rightarrow> string \<Rightarrow> bool" where
  "holds t i w \<longleftrightarrow>
     (case map_of (t_texts t) i of
        None \<Rightarrow> message (t_messages t) i = None \<and> w = []
      | Some s \<Rightarrow> \<not> tx_ended s \<and> tx_content s = w)"

lemma written_append [simp]: "written i (a @ b) = written i a @ written i b"
  by (simp add: written_def)

lemma offset_delta_piece:
  assumes "piece F (k, c)" "0 \<le> k" "nat k \<le> n" "n \<le> length F"
  shows "offset_delta (take n F) k c = Some (take (max n (nat k + length c) - n) (drop n F))"
proof -
  have c: "take (length c) (drop (nat k) F) = c" using assms(1) by (simp add: piece_def)
  have rest: "drop (nat k) (take n F) = take (n - nat k) (drop (nat k) F)" by (simp add: drop_take)
  have overlap: "take m (drop (nat k) F) = take m c" if "m \<le> length c" for m
    using c that by (metis min.absorb1 take_take)
  have later: "drop (n - nat k) c = take (nat k + length c - n) (drop n F)"
  proof -
    have "drop (n - nat k) c = drop (n - nat k) (take (length c) (drop (nat k) F))" by (simp only: c)
    also have "\<dots> = take (length c - (n - nat k)) (drop n F)" using assms(3) by (simp add: drop_take)
    also have "length c - (n - nat k) = nat k + length c - n" using assms(3) by simp
    finally show ?thesis .
  qed
  define w where "w = take n F"
  have inside: "take (length c) (drop (nat k) w) = c" if "length c \<le> n - nat k"
    using that c by (simp add: w_def rest min_absorb1)
  have across: "drop (nat k) w = take (n - nat k) c" if "n - nat k < length c"
    using overlap [of "n - nat k"] that by (simp add: w_def rest)
  have len: "length w = n" using assms(4) by (simp add: w_def)
  have range: "\<not> k < 0" "\<not> int n < k" using assms(2, 3) by auto
  have more: "max n (nat k + length c) - n = nat k + length c - n" by simp
  consider "length c \<le> n - nat k" | "n - nat k < length c" "0 < n - nat k" | "n - nat k = 0" "0 < length c" by linarith
  then have "offset_delta w k c = Some (take (nat k + length c - n) (drop n F))"
  proof cases
    case 1
    then show ?thesis using range inside assms(3) by (simp add: offset_delta_def Let_def len)
  next
    case 2
    then show ?thesis using range across later by (simp add: offset_delta_def Let_def len)
  next
    case 3
    then show ?thesis using range later assms(3) by (simp add: offset_delta_def Let_def len)
  qed
  then show ?thesis by (simp add: w_def more)
qed

lemma text_event_piece:
  fixes env :: tr_env and d :: "int \<times> string"
  assumes "holds t i (take n F)" "n \<le> length F" "i \<noteq> []" "piece F d" "0 \<le> fst d" "nat (fst d) \<le> n"
  defines "r \<equiv> text_event env i (snd d) False (Some (fst d)) t"
  shows "written i (fst r) = take (max n (nat (fst d) + length (snd d)) - n) (drop n F)
    \<and> holds (snd r) i (take (max n (nat (fst d) + length (snd d))) F) \<and> t_done (snd r) = t_done t"
proof -
  let ?m = "max n (nat (fst d) + length (snd d))"
  obtain out u where o': "open_text i t = (out, u)" by (cases "open_text i t")
  obtain s where s: "map_of (t_texts u) i = Some s" "\<not> tx_ended s" "tx_content s = take n F" "written i out = []"
      "t_done u = t_done t"
    using o' assms(1)
    by (cases "map_of (t_texts t) i")
      (auto simp: open_text_def holds_def update_conv' written_def Let_def plain_event_def)
  have d: "offset_delta (take n F) (fst d) (snd d) = Some (take (?m - n) (drop n F))"
    using offset_delta_piece [of F "fst d" "snd d" n] assms by simp
  have r: "r = andThen (out, u) (write_text i s (take (?m - n) (drop n F)))"
    using assms(3) s(1-3) d by (simp add: r_def text_event_def str_or_def o' Let_def)
  have joined: "take n F @ take (?m - n) (drop n F) = take ?m F"
    using take_add [of n "?m - n" F] by simp
  show ?thesis
    using s joined unfolding r
    by (auto simp: write_text_def fst_andThen holds_def written_def plain_event_def update_conv')
qed

lemma deliver_pieces:
  assumes "holds t i (take n F)" "n \<le> length F" "i \<noteq> []" "\<forall>d \<in> set ds. piece F d" "gapless n ds"
  shows "written i (fst (deliver_deltas env i ds t)) = take (reach n ds - n) (drop n F)
    \<and> holds (snd (deliver_deltas env i ds t)) i (take (reach n ds) F) \<and> t_done (snd (deliver_deltas env i ds t)) = t_done t
    \<and> n \<le> reach n ds \<and> reach n ds \<le> length F"
  using assms
proof (induction ds arbitrary: n t)
  case (Cons d ds)
  let ?m = "max n (nat (fst d) + length (snd d))"
  let ?r = "text_event env i (snd d) False (Some (fst d)) t"
  have one: "written i (fst ?r) = take (?m - n) (drop n F)" "holds (snd ?r) i (take ?m F)" "t_done (snd ?r) = t_done t"
    using text_event_piece [of t i n F d env] Cons.prems by auto
  have "length (take (length (snd d)) (drop (nat (fst d)) F)) = length (snd d)"
    using Cons.prems(4) by (simp add: piece_def)
  then have m: "?m \<le> length F" using Cons.prems(2, 5) by (auto simp: min_def split: if_splits)
  have ih: "written i (fst (deliver_deltas env i ds (snd ?r))) = take (reach ?m ds - ?m) (drop ?m F)"
    "holds (snd (deliver_deltas env i ds (snd ?r))) i (take (reach ?m ds) F)"
    "t_done (snd (deliver_deltas env i ds (snd ?r))) = t_done (snd ?r)" "?m \<le> reach ?m ds" "reach ?m ds \<le> length F"
    using Cons.IH [OF one(2) m] Cons.prems by auto
  have form: "deliver_deltas env i (d # ds) t = andThen ?r (deliver_deltas env i ds)" by (simp add: deliver_deltas_def)
  have "take (?m - n) (drop n F) @ take (reach ?m ds - ?m) (drop ?m F) = take (reach ?m ds - n) (drop n F)"
  proof -
    have "take (reach ?m ds - n) (drop n F) = take ((?m - n) + (reach ?m ds - ?m)) (drop n F)" using ih(4) by simp
    also have "\<dots> = take (?m - n) (drop n F) @ take (reach ?m ds - ?m) (drop (?m - n) (drop n F))" by (rule take_add)
    finally show ?thesis by simp
  qed
  then show ?case using ih one by (simp add: form fst_andThen)
qed (simp add: deliver_deltas_def written_def)

section \<open>Aliases of tool calls\<close>

lemma hex_upper_inj: "a < 16 \<Longrightarrow> b < 16 \<Longrightarrow> hex_upper a = hex_upper b \<Longrightarrow> a = b"
proof -
  assume "a < 16" "b < 16" "hex_upper a = hex_upper b"
  moreover have "distinct ''0123456789ABCDEF''" by simp
  moreover have "length ''0123456789ABCDEF'' = 16" by simp
  ultimately show "a = b" unfolding hex_upper_def using nth_eq_iff_index_eq by metis
qed

lemma high_digit: "(of_char e :: nat) div 16 < 16"
proof -
  have "(of_char e :: nat) < 16 * 16" using nat_of_char_less_256 [of e] by simp
  then show ?thesis by (rule less_mult_imp_div_less)
qed

lemma path_safe_not: "\<not> path_safe (CHR ''%'')" "\<not> path_safe (CHR ''/'')"
  by (simp_all add: path_safe_def)

lemma escape_byte_inj:
  assumes "escape_byte c @ x = escape_byte d @ y"
  shows "c = d \<and> x = y"
proof -
  have "(of_char e :: nat) div 16 < 16" for e :: char
    by (rule high_digit)
  then have hex: "of_char c div 16 = (of_char d div 16 :: nat) \<and> of_char c mod 16 = (of_char d mod 16 :: nat)"
    if "hex_upper (of_char c div 16) = hex_upper (of_char d div 16)" "hex_upper (of_char c mod 16) = hex_upper (of_char d mod 16)"
    using that hex_upper_inj by simp
  have code: "(of_char c :: nat) = of_char d" if "of_char c div 16 = (of_char d div 16 :: nat) \<and> of_char c mod 16 = (of_char d mod 16 :: nat)"
    using that by (metis div_mult_mod_eq)
  show ?thesis
    using assms path_safe_not hex code
    by (auto simp: escape_byte_def split: if_splits)
qed

lemma PathEscape_inj: "PathEscape s = PathEscape r \<Longrightarrow> s = r"
proof (induction s arbitrary: r)
  case Nil
  then show ?case by (cases r) (auto simp: PathEscape_def escape_byte_def split: if_splits)
next
  case (Cons c s)
  then obtain d r' where r: "r = d # r'" by (cases r) (auto simp: PathEscape_def escape_byte_def split: if_splits)
  then show ?case using Cons escape_byte_inj [of c "PathEscape s" d "PathEscape r'"] by (auto simp: PathEscape_def)
qed

lemma hex_upper_no_slash: "a < 16 \<Longrightarrow> hex_upper a \<noteq> CHR ''/''"
proof -
  assume a: "a < 16"
  have "list_all (\<lambda>c. c \<noteq> CHR ''/'') ''0123456789ABCDEF''" by simp
  then show "hex_upper a \<noteq> CHR ''/''" using a unfolding hex_upper_def by (simp only: list_all_length) simp
qed

lemma path_escape_no_slash: "CHR ''/'' \<notin> set (PathEscape s)"
proof -
  have "CHR ''/'' \<notin> set (escape_byte c)" for c
    using hex_upper_no_slash [OF high_digit [of c]] hex_upper_no_slash [of "of_char c mod 16"] path_safe_not(2)
    by (auto simp: escape_byte_def)
  then show ?thesis by (simp add: PathEscape_def)
qed

lemma split_at_slash:
  "CHR ''/'' \<notin> set a \<Longrightarrow> CHR ''/'' \<notin> set b \<Longrightarrow> a @ CHR ''/'' # x = b @ CHR ''/'' # y \<Longrightarrow> a = b \<and> x = y"
proof (induction a arbitrary: b)
  case Nil
  then show ?case by (cases b) auto
next
  case (Cons c a)
  then show ?case by (cases b) auto
qed

lemma alias_inj:
  assumes "ProtocolToolCallID a b = ProtocolToolCallID c d" "a \<noteq> []" "b \<noteq> []" "c \<noteq> []" "d \<noteq> []"
  shows "a = c \<and> b = d"
proof -
  have "PathEscape a @ CHR ''/'' # PathEscape b = PathEscape c @ CHR ''/'' # PathEscape d"
    using assms by (simp add: ProtocolToolCallID_def)
  then show ?thesis using split_at_slash [OF path_escape_no_slash path_escape_no_slash] PathEscape_inj by blast
qed

section \<open>A first delta that does not start the text\<close>

text \<open>A stream that is neither open nor opened is not closed.\<close>

lemma closing_event:
  assumes "closes e = Some s"
  shows "opens e = None" "writes e = None" "event_type e \<notin> set other_types"
    "event_type e \<notin> {''RUN_STARTED'', ''RUN_FINISHED'', ''RUN_ERROR'', ''STEP_STARTED'', ''STEP_FINISHED'',
       ''SUBAGENT_STARTED'', ''SUBAGENT_FINISHED'', ''SUBAGENT_ERROR''}"
proof -
  consider "event_type e = ''TEXT_MESSAGE_END''" | "event_type e = ''REASONING_MESSAGE_END''"
    | "event_type e = ''TOOL_CALL_END''" | "event_type e = ''REASONING_END''"
    using assms by (auto simp: closes_def end_types_def split: if_splits)
  note kinds = this
  show "opens e = None" by (rule kinds) (simp_all add: opens_def start_types_def)
  show "writes e = None" by (rule kinds) (simp_all add: writes_def content_types_def)
  show "event_type e \<notin> set other_types" by (rule kinds) (simp_all add: other_types_def)
  show "event_type e \<notin> {''RUN_STARTED'', ''RUN_FINISHED'', ''RUN_ERROR'', ''STEP_STARTED'', ''STEP_FINISHED'',
       ''SUBAGENT_STARTED'', ''SUBAGENT_FINISHED'', ''SUBAGENT_ERROR''}"
    by (rule kinds) simp_all
qed

lemma closed_was_open: "wire_step v e u \<Longrightarrow> closes e = Some s \<Longrightarrow> s \<in> w_open v"
  by (cases rule: wire_step.cases, assumption) (use closing_event in force)+

lemma not_opened: "wire_step v e u \<Longrightarrow> s \<notin> w_open v \<Longrightarrow> opens e \<noteq> Some s \<Longrightarrow> s \<notin> w_open u"
  by (cases rule: wire_step.cases, assumption) auto

lemma never_closed:
  assumes "wire_run v es w" "s \<notin> w_open v" "\<forall>e \<in> set es. opens e \<noteq> Some s"
  shows "\<forall>e \<in> set es. closes e \<noteq> Some s"
  using assms
proof (induction rule: wire_run.induct)
  case (run_cons v e u es w)
  then show ?case using closed_was_open [OF run_cons.hyps(1), of s] not_opened [OF run_cons.hyps(1), of s] by auto
qed simp

text \<open>A stream that is open and then is not has been closed, unless a run starts.\<close>

lemma once_closed:
  assumes "wire_run v es w" "s \<in> w_open v" "s \<notin> w_open w" "\<forall>e \<in> set es. event_type e \<noteq> ''RUN_STARTED''"
  shows "\<exists>e \<in> set es. closes e = Some s"
  using assms
proof (induction rule: wire_run.induct)
  case (run_cons v e u es w)
  show ?case
  proof (cases "s \<in> w_open u")
    case True
    then show ?thesis using run_cons by auto
  next
    case False
    have "closes e = Some s" using run_cons.hyps(1) run_cons.prems False by cases auto
    then show ?thesis by simp
  qed
qed simp

text \<open>What closes everything opens nothing.\<close>

definition closing_types :: "string list" where
  "closing_types =
     [''TEXT_MESSAGE_END'', ''TOOL_CALL_END'', ''REASONING_MESSAGE_END'', ''REASONING_END'', ''STEP_FINISHED'']"

definition closers :: "tevent list \<Rightarrow> bool" where
  "closers vs \<longleftrightarrow> list_all (\<lambda>v. field (te_fields v) ''type'' \<in> set closing_types) vs"

lemma closers_simps [simp]:
  "closers []" "closers (v # vs) \<longleftrightarrow> field (te_fields v) ''type'' \<in> set closing_types \<and> closers vs"
  "closers (a @ b) \<longleftrightarrow> closers a \<and> closers b"
  by (simp_all add: closers_def)

lemma closers_andThen: "closers (fst r) \<Longrightarrow> (\<And>u. closers (fst (f u))) \<Longrightarrow> closers (fst (andThen r f))"
  by (simp add: fst_andThen)

lemma closers_each: "(\<And>x u. closers (fst (f x u))) \<Longrightarrow> closers (fst (each f xs t))"
  by (induction xs arbitrary: t) (auto intro: closers_andThen)

lemma closeOpen_closers: "closers (fst (closeOpen env t))"
proof -
  have "closers (fst (close_thought w i t))" "closers (fst (end_span p w t))" "closers (fst (close_text i t))"
    "closers (fst (close_tool i t))" "closers (fst (close_step i t))" for w i p t
    by (auto simp: close_thought_def end_span_def close_text_def close_tool_def close_step_def event_ok_simps
        closing_types_def split: option.splits)
  then show ?thesis
    by (auto simp: closeOpen_def closeReasoning_def closeSteps_def close_span_def intro!: closers_andThen closers_each)
qed

lemma late_delta_helper:
  assumes "live t" "map_order_ok env" "i \<noteq> []" "map_of (t_texts t) i = None" "message (t_messages t) i = None" "k \<noteq> 0"
  shows "t_done (snd (text_event env i c False (Some k) t))
    \<and> \<not> (\<exists>w. wire_run (wire_tr t) (map te_fields (fst (text_event env i c False (Some k) t))) w)"
proof -
  let ?r = "text_event env i c False (Some k) t"
  let ?u = "snd (open_text i t)"
  let ?s = "(TextStream, i)"
  obtain s where s: "map_of (t_texts ?u) i = Some s" "\<not> tx_ended s" "tx_content s = []"
    using assms(4, 5) by (auto simp: open_text_def Let_def update_conv')
  have "offset_delta [] k c = None" using assms(6) by (cases "k < 0") (simp_all add: offset_delta_def)
  moreover obtain out where "open_text i t = (out, ?u)" by (metis prod.collapse)
  ultimately have r: "?r = Fail env (offset_error [] k) ''UNSUPPORTED_TEXT_OFFSET'' ?u"
    using assms(3) s by (simp add: text_event_def str_or_def Let_def split_beta)
  have u: "live ?u" by (rule advances_live [OF open_text_advances [OF assms(1)]]) (simp add: kept live_flags assms(1))
  let ?es = "map te_fields (fst (closeOpen env ?u))"
  let ?err = "te_fields (error_event (offset_error [] k) ''UNSUPPORTED_TEXT_OFFSET'')"
  have es: "map te_fields (fst ?r) = ?es @ [?err]"
    using u by (simp add: r Fail_def Start_live live_flags fst_andThen)
  have types: "\<forall>e \<in> set ?es. field e ''type'' \<in> set closing_types"
    using closeOpen_closers [of env ?u] by (auto simp: closers_def list_all_iff)
  have run: "wire_run (wire_tr ?u) ?es (wire_tr (snd (closeOpen env ?u)))"
    using closeOpen_advances [OF u, of env] assms(1) by (simp add: advances_def kept live_def)
  have open': "?s \<in> w_open (wire_tr ?u)" using s by simp
  have shut: "?s \<notin> w_open (wire_tr (snd (closeOpen env ?u)))" using closeOpen_all(1) [OF u assms(2)] by simp
  have "\<forall>e \<in> set ?es. event_type e \<noteq> ''RUN_STARTED''" using types by (auto simp: closing_types_def event_type_def)
  then obtain e where e: "e \<in> set ?es" "closes e = Some ?s" using once_closed [OF run open' shut] by blast
  have none: "\<forall>e \<in> set (?es @ [?err]). opens e \<noteq> Some ?s"
    using types by (auto simp: closing_types_def opens_def start_types_def event_type_def error_event_def plain_event_def
        split: if_splits)
  have "\<not> wire_run (wire_tr t) (?es @ [?err]) w" for w
    using never_closed [of "wire_tr t" "?es @ [?err]" w ?s] none e assms(4) by auto
  then show ?thesis unfolding es by (simp add: r kept)
qed

end
