(* ===== verification/AguiRunProps.thy ===== *)
theory AguiRunProps
  imports AguiRestore AguiTexts
begin

text \<open>
  The properties of the translator, with concrete runs: what it writes while a run goes on and when it ends, what a
  journal restores, texts delivered more than once, the aliases of tool calls, and the events of a subagent in the run
  of its parent.
\<close>

section \<open>A concrete environment\<close>

text \<open>A schema that accepts everything, and maps visited in the order of their keys.\<close>

definition demo_env :: tr_env where
  "demo_env =
     \<lparr>ok_event = (\<lambda>_. True), ok_presentation = (\<lambda>_ _. True), marshal = (\<lambda>_. Some ''{}''),
      json_valid = (\<lambda>s. s \<noteq> []), format_time = (\<lambda>_. ''2024-01-01T00:00:00Z''), patch_content = (\<lambda>_ p. Some p),
      map_order = (\<lambda>xs. xs)\<rparr>"

definition demo_delta :: Native where
  "demo_delta = no_event\<lparr>n_Type := ''text_delta'', n_MessageID := ''m'', n_Content := ''ab''\<rparr>"

definition demo_start :: Node where
  "demo_start = Node (NewTranslator ''th'' ''r'') []"

definition types_of :: "tevent list \<Rightarrow> string list" where
  "types_of vs = map (\<lambda>v. field (te_fields v) ''type'') vs"

lemma demo_order: "map_order_ok demo_env"
  by (simp add: map_order_ok_def demo_env_def)

lemma demo_written:
  "case translate_all demo_env [demo_delta] demo_start of
     None \<Rightarrow> False
   | Some (out, m) \<Rightarrow> \<not> t_done (nd_tr m)
       \<and> types_of out = [''RUN_STARTED'', ''TEXT_MESSAGE_START'', ''TEXT_MESSAGE_CONTENT'']
       \<and> RestoreTranslator demo_env ''th'' ''r'' (map te_fields out) \<noteq> None"
  by code_simp

text \<open>The same run, taken apart.\<close>

definition demo_out :: "tevent list" where
  "demo_out = (case translate_all demo_env [demo_delta] demo_start of None \<Rightarrow> [] | Some (out, _) \<Rightarrow> out)"

definition demo_node :: Node where
  "demo_node = (case translate_all demo_env [demo_delta] demo_start of None \<Rightarrow> demo_start | Some (_, m) \<Rightarrow> m)"

definition demo_restored :: Node where
  "demo_restored =
     (case RestoreTranslator demo_env ''th'' ''r'' (map te_fields demo_out) of None \<Rightarrow> demo_start | Some k \<Rightarrow> k)"

lemma demo_run:
  "translate_all demo_env [demo_delta] (Node (NewTranslator ''th'' ''r'') []) = Some (demo_out, demo_node)"
  "RestoreTranslator demo_env ''th'' ''r'' (map te_fields demo_out) = Some demo_restored"
  "\<not> t_done (nd_tr demo_node)" "\<forall>e \<in> set [demo_delta]. n_Type e \<noteq> ''protocol_event''"
  using demo_written
  by (auto simp: demo_out_def demo_node_def demo_restored_def demo_start_def demo_delta_def split: option.splits)

section \<open>Runs\<close>

text \<open>C5: While a run goes on, everything the translator has written for native events is a run of the AG-UI protocol,
  and the streams and steps it holds open are those the protocol has open.\<close>

theorem journal_of_run:
  assumes "translate_all env es (Node (NewTranslator th run) []) = Some (out, m)"
    "\<forall>e \<in> set es. n_Type e \<noteq> ''protocol_event''" "\<not> t_done (nd_tr m)"
  shows "wire_run (wire_tr (NewTranslator th run)) (map te_fields out) (wire_tr (nd_tr m))"
  using translate_all_advances [OF assms(1, 2) _ assms(3)] fresh_lanes by simp

lemma journal_of_run_witness:
  "wire_run (wire_tr (NewTranslator ''th'' ''r'')) (map te_fields demo_out) (wire_tr (nd_tr demo_node))"
  by (rule journal_of_run [OF demo_run(1, 4, 3)])

text \<open>The protocol state of a translator with its subagents. A run that is fed through \<open>Translate\<close> alone has none, so its
  state is that of its lanes.\<close>

definition live_subagents :: "Node \<Rightarrow> string \<Rightarrow> bool option" where
  "live_subagents n w =
     (case map_of (nd_children n) w of
        None \<Rightarrow> None
      | Some s \<Rightarrow> if sb_started s then Some (\<not> sb_done s) else None)"

definition wire_node :: "Node \<Rightarrow> wire" where
  "wire_node n = (wire_tr (nd_tr n))\<lparr>w_subagents := live_subagents n\<rparr>"

lemma wire_node_of_run:
  assumes "translate_all env es (Node (NewTranslator th run) []) = Some (out, m)"
    "\<forall>e \<in> set es. n_Type e \<noteq> ''protocol_event''" "\<not> t_done (nd_tr m)"
  shows "wire_node m = wire_tr (nd_tr m)"
  using translate_all_advances [OF assms(1, 2) _ assms(3)] fresh_lanes by (simp add: wire_node_def wire_tr_def live_subagents_def fun_eq_iff)

text \<open>C6: In a run that a fresh translator is fed through \<open>Translate\<close> alone, with native events (no standard events of the
  bridge) and so without subagents, an event that ends the turn, whether it completes, is canceled or fails, ends the run
  when it is delivered for the first time: the call returns, the translator is done, and the whole journal is a run of the
  protocol that is over, so nothing is left open when it has finished. This holds also when the presentation of the event
  is refused. With events of the bridge or with subagents it does not hold: \<open>bridge_end_unopened\<close>,
  \<open>subagent_left_open\<close>.\<close>

theorem ending_event_ends_run:
  assumes "translate_all env es (Node (NewTranslator th run) []) = Some (out, m)"
    "\<forall>e \<in> set es. n_Type e \<noteq> ''protocol_event''" "\<not> t_done (nd_tr m)"
    "map_order_ok env" "n_Type e \<in> {''turn_completed'', ''turn_canceled'', ''turn_failed'', ''error''}"
    "n_EventSeq e \<le> 0 \<or> n_EventSeq e \<notin> set (t_seen (nd_tr m))"
  shows "\<exists>rest k w. Translate env e m = Some (rest, k) \<and> t_done (nd_tr k)
    \<and> wire_run (wire_tr (NewTranslator th run)) (map te_fields (out @ rest)) w \<and> \<not> w_running w"
proof -
  have l: "lanes_known (nd_tr m)" "wire_run (wire_tr (NewTranslator th run)) (map te_fields out) (wire_tr (nd_tr m))"
    using translate_all_advances [OF assms(1, 2) _ assms(3)] fresh_lanes by simp_all
  have h: "t_historyErr (nd_tr m) = None" using translate_all_error [OF assms(1, 2, 3)] fresh_lanes by simp
  have s: "\<not> skips e (nd_tr m)" using assms(3, 6) by (auto simp: skips_def)
  have c: "n_Type e \<in> set concluding" using assms(5) by (simp add: concluding_def)
  obtain rest k w where "translate env False e m = Some (rest, k)" "t_done (nd_tr k)"
      "wire_run (wire_tr (nd_tr m)) (map te_fields rest) w" "\<not> w_running w"
    using translate_concludes [OF l(1) h assms(4) s c] by blast
  then show ?thesis using wire_run_append [OF l(2)] by (auto simp: Translate_def)
qed

lemma ending_event_ends_run_witness:
  "\<exists>rest k w. Translate demo_env (no_event\<lparr>n_Type := ''turn_completed''\<rparr>) demo_node = Some (rest, k) \<and> t_done (nd_tr k)
    \<and> wire_run (wire_tr (NewTranslator ''th'' ''r'')) (map te_fields (demo_out @ rest)) w \<and> \<not> w_running w"
  by (rule ending_event_ends_run [OF demo_run(1, 4, 3) demo_order]) (simp_all add: no_event_def)

text \<open>An event of the bridge is written whatever is open: here the end of a message that was never started.\<close>

lemma bridge_end_unopened:
  "case translate_all demo_env
      [no_event\<lparr>n_Type := ''protocol_event'',
         n_ProtocolEvent := [(''type'', JStr ''TEXT_MESSAGE_END''), (''messageId'', JStr ''x'')]\<rparr>,
       no_event\<lparr>n_Type := ''turn_completed''\<rparr>] demo_start of
     None \<Rightarrow> False
   | Some (out, m) \<Rightarrow> t_done (nd_tr m) \<and> types_of out = [''RUN_STARTED'', ''TEXT_MESSAGE_END'', ''RUN_FINISHED'']"
  by code_simp

text \<open>C13: A translator restored from the journal of a run that goes on is where the one that wrote it was: the run is on,
  its identity is the same, and the same texts, calls, thoughts, spans and steps are open.\<close>

theorem restored_lanes:
  assumes "translate_all env es (Node (NewTranslator th run) []) = Some (out, m)"
    "\<forall>e \<in> set es. n_Type e \<noteq> ''protocol_event''" "\<not> t_done (nd_tr m)"
    "RestoreTranslator env th run (map te_fields out) = Some k"
  shows "wire_tr (nd_tr k) = wire_tr (nd_tr m)"
  by (rule restored_lanes_helper [OF assms])

lemma restored_lanes_witness: "wire_tr (nd_tr demo_restored) = wire_tr (nd_tr demo_node)"
  by (rule restored_lanes [OF demo_run(1, 4, 3, 2)])

section \<open>Texts\<close>

text \<open>C14: Deltas that carry their offsets may be delivered again, overlap and come in pieces: as long as none starts behind
  the text so far, what is written to the stream of a message is the text, once and in order, and the run goes on.\<close>

theorem deltas_written_once:
  assumes "map_of (t_texts t) i = None" "message (t_messages t) i = None" "i \<noteq> []"
    "\<forall>d \<in> set ds. piece F d" "gapless 0 ds"
  shows "written i (fst (deliver_deltas env i ds t)) = take (reach 0 ds) F \<and> t_done (snd (deliver_deltas env i ds t)) = t_done t"
  using deliver_pieces [of t i 0 F ds env] assms by (simp add: holds_def)

lemma deltas_written_once_witness:
  "written ''m'' (fst (deliver_deltas demo_env ''m'' [(0, ''abc''), (1, ''bcd''), (0, ''ab'')] (NewTranslator ''th'' ''r'')))
     = take (reach 0 [(0, ''abc''), (1, ''bcd''), (0, ''ab'')]) ''abcd''
   \<and> t_done (snd (deliver_deltas demo_env ''m'' [(0, ''abc''), (1, ''bcd''), (0, ''ab'')] (NewTranslator ''th'' ''r'')))
     = t_done (NewTranslator ''th'' ''r'')"
  by (rule deltas_written_once) (simp_all add: NewTranslator_def message_def piece_def)

text \<open>C24: A first delta of a message that does not start at its beginning breaks the journal: the run is ended, with the
  end of a message whose start was dropped, and what is written is no run of the protocol.\<close>

theorem late_first_delta:
  assumes "live t" "map_order_ok env" "i \<noteq> []" "map_of (t_texts t) i = None" "message (t_messages t) i = None" "k \<noteq> 0"
  shows "t_done (snd (text_event env i c False (Some k) t))
    \<and> \<not> (\<exists>w. wire_run (wire_tr t) (map te_fields (fst (text_event env i c False (Some k) t))) w)"
  by (rule late_delta_helper [OF assms])

lemma late_first_delta_witness:
  "t_done (snd (text_event demo_env ''m'' ''abc'' False (Some 3) (snd (Start (NewTranslator ''th'' ''r'')))))
   \<and> \<not> (\<exists>w. wire_run (wire_tr (snd (Start (NewTranslator ''th'' ''r''))))
              (map te_fields (fst (text_event demo_env ''m'' ''abc'' False (Some 3) (snd (Start (NewTranslator ''th'' ''r'')))))) w)"
  by (rule late_first_delta [OF Start_advances(1) [OF fresh_lanes(1, 3)] demo_order])
    (simp_all add: Start_def NewTranslator_def message_def)

section \<open>Calls and subagents\<close>

text \<open>C26: The aliases of tool calls tell the calls of all turns apart: two aliases are the same only for the same turn and
  the same operation, whatever bytes their names have.\<close>

theorem tool_aliases_differ:
  assumes "turn \<noteq> []" "op \<noteq> []" "turn' \<noteq> []" "op' \<noteq> []"
  shows "ProtocolToolCallID turn op = ProtocolToolCallID turn' op' \<longleftrightarrow> turn = turn' \<and> op = op'"
  using alias_inj [OF _ assms] by auto

lemma tool_aliases_differ_witness:
  "ProtocolToolCallID ''a/b'' ''c'' = ProtocolToolCallID ''a'' ''b/c'' \<longleftrightarrow> ''a/b'' = ''a'' \<and> ''c'' = ''b/c''"
  by (rule tool_aliases_differ) simp_all

text \<open>What a subagent shows in the run of its parent.\<close>

definition of_child :: "string \<Rightarrow> tevent \<Rightarrow> bool" where
  "of_child w v \<longleftrightarrow>
     field (te_fields v) ''type'' \<notin> {''RUN_FINISHED'', ''RUN_ERROR''}
     \<and> (field (te_fields v) ''type'' \<in> {''RUN_STARTED'', ''MESSAGES_SNAPSHOT''}
        \<or> (field (te_fields v) ''type'' = ''CUSTOM'' \<and> field (te_fields v) ''name'' = ''agently.subagent.queue'')
        \<or> field (te_fields v) ''subagentRunId'' = w)"

lemma field_put_cases: "field (put k v fs) k' = (if k = k' then (case v of JStr s \<Rightarrow> s | _ \<Rightarrow> []) else field fs k')"
  by (auto simp: field_def put_def update_conv' split: json.splits)

lemma child_event_of_child:
  assumes "child_event env iv e c u = Some vs" "v \<in> set vs"
  shows "of_child (iv_ID iv) v"
  using assms
  by (auto simp: child_event_def attributedEvent_def StandardEvent_def MarshalJSON_def with_timestamp_def Let_def
      boundary_event_def standardEvent_def outcome_member_def of_child_def field_put_cases split: if_splits option.splits)

lemma map_all_events: "map_all f xs = Some ys \<Longrightarrow> y \<in> set ys \<Longrightarrow> \<exists>x. f x = Some y"
  by (induction xs arbitrary: ys) (auto split: option.splits)

text \<open>Capturing events other than the ends of a run leaves the run as it is.\<close>

lemma capture_content_done:
  "capture_content env b fs n = Some (m, err) \<Longrightarrow> t_done (nd_tr m) = t_done (nd_tr n)"
  by (auto simp: capture_content_def capture_checkpoint_def subagent_def set_child_def on_tr_def graph_usage_def Let_def
      dest!: capture_graph_done split: if_splits option.splits)

lemma capture_lane_done:
  "field fs ''type'' \<notin> {''RUN_FINISHED'', ''RUN_ERROR''} \<Longrightarrow> t_done (capture_lane fs t) = t_done t"
  by (simp add: capture_lane_def lane_step_started_def lane_step_finished_def lane_tool_started_def Let_def split: option.split)

lemma subagent_tr: "nd_tr (snd (subagent iv n)) = nd_tr n"
  by (simp add: subagent_def set_child_def Let_def split: option.split)

lemma start_child_tr: "nd_tr (start_child iv n) = nd_tr n"
  using subagent_tr [of iv n] by (cases "subagent iv n") (simp add: start_child_def set_child_def split: Subagent.split)

lemma finish_child_tr: "nd_tr (finish_child w n) = nd_tr n"
  by (simp add: finish_child_def set_child_def split: option.split Subagent.split)

lemma capture_boundary_done:
  "capture_boundary fs n = Inr k \<Longrightarrow> field fs ''type'' \<notin> {''RUN_FINISHED'', ''RUN_ERROR''} \<Longrightarrow> t_done (nd_tr k) = t_done (nd_tr n)"
  by (auto simp: capture_boundary_def capture_run_started_def capture_subagent_started_def Let_def on_tr_def capture_lane_done
      start_child_tr finish_child_tr split: if_splits option.splits)

lemma capture_plain_done: "capture_plain fs t = Some (u, err) \<Longrightarrow> t_done u = t_done t"
  by (auto simp: capture_plain_def graph_args_def captured_ok_def Let_def dest!: arguments_done split: if_splits option.splits)

lemma capture_other_done:
  "capture env vs n = Some m \<Longrightarrow> \<forall>v \<in> set vs. field (te_fields v) ''type'' \<notin> {''RUN_FINISHED'', ''RUN_ERROR''} \<Longrightarrow>
   t_done (nd_tr m) = t_done (nd_tr n)"
proof (induction vs arbitrary: n)
  case (Cons v vs)
  then obtain k err where k: "capture_event env v n = Some (k, err)" "capture env vs (note_error err k) = Some m"
    by (auto split: option.splits)
  have "t_done (nd_tr k) = t_done (nd_tr n)"
    using k(1) Cons.prems(2) capture_boundary_done [of "te_fields v" n] capture_content_done [of env _ "te_fields v"] capture_plain_done
    by (fastforce simp: capture_event_def captureStandard_def split: if_splits option.splits sum.splits)
  then show ?case using Cons.IH [OF k(2)] Cons.prems(2) by (simp add: note_error_lanes)
qed simp

text \<open>What a call for a subagent writes and does to the run of the parent: the events of the subagent leave it running;
  it is ended by a failure alone, which writes \<open>RUN_ERROR\<close> last.\<close>

definition child_failure :: "tevent list \<Rightarrow> bool" where
  "child_failure out \<longleftrightarrow> out \<noteq> [] \<and>
     (\<exists>msg. last out \<in> {error_event msg ''INVALID_SUBAGENT_EVENT'', error_event msg ''INVALID_AUTHORITATIVE_HISTORY''})"

definition child_result :: "string \<Rightarrow> tevent list \<Rightarrow> bool \<Rightarrow> bool" where
  "child_result w out ended \<longleftrightarrow> (if ended then child_failure out else \<forall>v \<in> set out. of_child w v)"

lemma fail_last:
  assumes "fail_node env msg code out n = Some (out', m)" "\<not> t_done (nd_tr n)"
  shows "t_done (nd_tr m) \<and> out' \<noteq> [] \<and> last out' = error_event msg code"
  using assms by (auto simp: fail_node_def Fail_def andThen_def split_beta)

lemma forward_of_child:
  assumes "forward_events env iv e out evs s n = Some (out', m)" "\<not> t_done (nd_tr n)" "\<forall>v \<in> set out. of_child (iv_ID iv) v"
  shows "child_result (iv_ID iv) out' (t_done (nd_tr m))"
proof (cases "map_all (child_event env iv e (nd_tr (sb_node s))) evs")
  case None
  then show ?thesis using assms(1,2)
    by (auto simp: forward_events_def Let_def fail_at_def child_result_def child_failure_def set_child_def dest!: fail_last)
next
  case (Some outs)
  let ?n = "on_tr (merge_usage (iv_ID iv) (nd_tr (sb_node s))) (set_child (iv_ID iv) (set_done (list_ex ends_child evs) s) n)"
  have out': "out' = out @ concat outs" "capture env (out @ concat outs) ?n = Some m"
    using assms(1) Some by (auto simp: forward_events_def Let_def)
  have "\<forall>vs \<in> set outs. \<forall>v \<in> set vs. of_child (iv_ID iv) v"
    using map_all_events [OF Some] child_event_of_child by blast
  then have all: "\<forall>v \<in> set out'. of_child (iv_ID iv) v" using assms(3) out'(1) by auto
  then have "\<forall>v \<in> set out'. field (te_fields v) ''type'' \<notin> {''RUN_FINISHED'', ''RUN_ERROR''}" by (simp add: of_child_def)
  then have "t_done (nd_tr m) = t_done (nd_tr ?n)" using capture_other_done [OF out'(2)] out'(1) by simp
  also have "\<dots> = t_done (nd_tr n)" by (simp add: on_tr_def merge_usage_def set_child_def)
  finally show ?thesis using all assms(2) by (simp add: child_result_def)
qed

lemma start_of_child: "\<forall>v \<in> set (fst (startSubagent t s)). of_child (iv_ID (sb_inv s)) v"
  by (cases s) (auto simp: startSubagent_def of_child_def standardEvent_def smem_def)

lemma subagent_inv:
  assumes "\<forall>s. map_of (nd_children n) (iv_ID iv) = Some s \<longrightarrow> iv_ID (sb_inv s) = iv_ID iv"
  shows "iv_ID (sb_inv (fst (subagent iv n))) = iv_ID iv"
  using assms by (auto simp: subagent_def new_child_def Let_def split: option.splits)

lemma Start_of_child: "\<forall>v \<in> set (fst (Start t)). of_child w v"
  by (simp add: Start_def started_event_def of_child_def Let_def plain_event_def standardEvent_def)

lemma Start_keeps_done: "t_done (snd (Start t)) = t_done t"
  by (simp add: Start_def)

lemma translateSubagent_of_child:
  assumes "translateSubagent env trusted iv e n = Some (out, m)" "\<not> t_done (nd_tr n)"
    "\<forall>s. map_of (nd_children n) (iv_ID iv) = Some s \<longrightarrow> iv_ID (sb_inv s) = iv_ID iv"
  shows "child_result (iv_ID iv) out (t_done (nd_tr m))"
proof -
  obtain s k where s: "subagent iv n = (s, k)" by (cases "subagent iv n")
  obtain o1 t where o1: "Start (nd_tr k) = (o1, t)" by (cases "Start (nd_tr k)")
  obtain o2 r where o2: "startSubagent t s = (o2, r)" by (cases "startSubagent t s")
  have inv: "iv_ID (sb_inv s) = iv_ID iv" using subagent_inv [OF assms(3)] s by simp
  have first: "\<forall>v \<in> set (o1 @ o2). of_child (iv_ID iv) v"
    using Start_of_child [of "nd_tr k"] start_of_child [of t s] inv by (auto simp: o1 o2)
  have k: "nd_tr k = nd_tr n" using subagent_tr [of iv n] by (simp add: s)
  have t: "\<not> t_done t" using Start_keeps_done [of "nd_tr k"] assms(2) unfolding o1 by (simp add: k)
  have queued: "of_child (iv_ID iv) (queued_child iv)"
    by (simp add: queued_child_def custom_event_def of_child_def plain_event_def)
  show ?thesis
  proof (cases "n_ConversationID e \<noteq> iv_ConversationID iv \<or> iv_ID iv = [] \<or> n_TurnID e \<noteq> iv_TurnID iv \<or> iv_Detached iv
      \<or> sb_done s \<or> n_Type e \<in> {''linked_conversation_attached'', ''turn_queued''}")
    case True
    then have "(out = [] \<or> out = [queued_child iv]) \<and> nd_tr m = nd_tr n"
      using assms(1,2) k by (auto simp: translateSubagent_def s split: if_splits)
    then show ?thesis using queued assms(2) by (auto simp: child_result_def)
  next
    case False
    let ?stored = "\<lambda>c. Subagent (sb_inv r) c (sb_started r) (sb_done r)"
    show ?thesis
    proof (cases "adopt_graph t (sb_node r)")
      case None
      then have "fail_node env library_error ''INVALID_AUTHORITATIVE_HISTORY'' (o1 @ o2)
          (set_child (iv_ID iv) (?stored (with_graph t (sb_node r))) (Node t (nd_children k))) = Some (out, m)"
        using assms(1,2) False by (simp add: translateSubagent_def s o1 o2)
      from fail_last [OF this] t show ?thesis by (auto simp: child_result_def child_failure_def set_child_def)
    next
      case (Some c)
      then obtain evs c' where "translate env trusted e c = Some (evs, c')"
        "forward_events env iv e (o1 @ o2) evs (?stored c') (Node t (nd_children k)) = Some (out, m)"
        using assms(1,2) False by (auto simp: translateSubagent_def s o1 o2 split: option.splits)
      from forward_of_child [OF this(2)] first t show ?thesis by simp
    qed
  qed
qed

text \<open>C25: What a subagent does shows in the run of its parent under its own id and never ends that run, whatever native
  event comes for it, its own end included. For a parent whose run is on there are two outcomes: the run is still on and
  every event written is attributed to the subagent, apart from the start of the run, the snapshots of the messages (which
  name the owner of each message) and the note that the subagent is queued; or the translator has failed, because an event
  of the subagent is no valid event or the history does not decode, and then the last event written is the \<open>RUN_ERROR\<close> with
  the code that says so. Subagents are kept under their ids.\<close>

theorem child_events_attributed:
  assumes "TranslateSubagent env iv e n = Some (out, m)" "\<not> t_done (nd_tr n)"
    "\<forall>s. map_of (nd_children n) (iv_ID iv) = Some s \<longrightarrow> iv_ID (sb_inv s) = iv_ID iv"
  shows "if t_done (nd_tr m)
    then out \<noteq> [] \<and> (\<exists>msg. last out \<in> {error_event msg ''INVALID_SUBAGENT_EVENT'', error_event msg ''INVALID_AUTHORITATIVE_HISTORY''})
    else \<forall>v \<in> set out. field (te_fields v) ''type'' \<notin> {''RUN_FINISHED'', ''RUN_ERROR''}
      \<and> (field (te_fields v) ''type'' \<in> {''RUN_STARTED'', ''MESSAGES_SNAPSHOT''}
         \<or> (field (te_fields v) ''type'' = ''CUSTOM'' \<and> field (te_fields v) ''name'' = ''agently.subagent.queue'')
         \<or> field (te_fields v) ''subagentRunId'' = iv_ID iv)"
  using translateSubagent_of_child [OF assms(1) [unfolded TranslateSubagent_def] assms(2, 3)]
  by (cases "t_done (nd_tr m)") (simp_all add: child_result_def child_failure_def of_child_def)

definition demo_invocation :: Invocation where
  "demo_invocation = decode_invocation [(''id'', JStr ''w''), (''name'', JStr ''helper''), (''conversationId'', JStr ''c'')]"

definition demo_child :: Native where
  "demo_child = demo_delta\<lparr>n_ConversationID := ''c''\<rparr>"

definition demo_shown :: "tevent list \<times> Node" where
  "demo_shown =
     (case TranslateSubagent demo_env demo_invocation demo_child demo_start of None \<Rightarrow> ([], demo_start) | Some r \<Rightarrow> r)"

lemma demo_shows:
  "case TranslateSubagent demo_env demo_invocation demo_child demo_start of
     None \<Rightarrow> False
   | Some (out, m) \<Rightarrow> \<not> t_done (nd_tr m) \<and> types_of out
       = [''RUN_STARTED'', ''SUBAGENT_STARTED'', ''TEXT_MESSAGE_START'', ''TEXT_MESSAGE_CONTENT'']"
  by code_simp

text \<open>The parent may finish while the subagent is open: nothing ends the subagent.\<close>

lemma subagent_left_open:
  "case TranslateSubagent demo_env demo_invocation demo_child demo_start of
     None \<Rightarrow> False
   | Some (out, m) \<Rightarrow>
       (case Translate demo_env (no_event\<lparr>n_Type := ''turn_completed''\<rparr>) m of
          None \<Rightarrow> False
        | Some (rest, k) \<Rightarrow> t_done (nd_tr k) \<and> types_of rest = [''TEXT_MESSAGE_END'', ''RUN_FINISHED''] \<and> live_subagents k ''w'' = Some True)"
  by code_simp

definition demo_child_end :: Native where
  "demo_child_end = no_event\<lparr>n_Type := ''turn_completed'', n_ConversationID := ''c''\<rparr>"

text \<open>The end of the subagent, in the run of the parent.\<close>

definition demo_ended :: "tevent list \<times> Node" where
  "demo_ended =
     (case TranslateSubagent demo_env demo_invocation demo_child_end (snd demo_shown) of None \<Rightarrow> ([], demo_start) | Some r \<Rightarrow> r)"

lemma demo_ends:
  "case TranslateSubagent demo_env demo_invocation demo_child demo_start of
     None \<Rightarrow> False
   | Some (out, m) \<Rightarrow> \<not> t_done (nd_tr m)
       \<and> (case map_of (nd_children m) ''w'' of None \<Rightarrow> False | Some s \<Rightarrow> iv_ID (sb_inv s) = ''w'')
       \<and> (case TranslateSubagent demo_env demo_invocation demo_child_end m of
            None \<Rightarrow> False
          | Some (out', m') \<Rightarrow> \<not> t_done (nd_tr m') \<and> types_of out' = [''TEXT_MESSAGE_END'', ''SUBAGENT_FINISHED''])"
  by code_simp

lemma child_events_attributed_witness:
  "types_of (fst demo_ended) = [''TEXT_MESSAGE_END'', ''SUBAGENT_FINISHED''] \<and> \<not> t_done (nd_tr (snd demo_ended))
   \<and> list_all (\<lambda>v. field (te_fields v) ''subagentRunId'' = iv_ID demo_invocation) (fst demo_ended)"
proof -
  obtain out m where r: "TranslateSubagent demo_env demo_invocation demo_child demo_start = Some (out, m)" "\<not> t_done (nd_tr m)"
      "\<forall>s. map_of (nd_children m) ''w'' = Some s \<longrightarrow> iv_ID (sb_inv s) = ''w''"
      "demo_shown = (out, m)"
    using demo_ends by (auto simp: demo_shown_def split: option.splits)
  obtain out' m' where r': "TranslateSubagent demo_env demo_invocation demo_child_end m = Some (out', m')" "\<not> t_done (nd_tr m')"
      "types_of out' = [''TEXT_MESSAGE_END'', ''SUBAGENT_FINISHED'']" "demo_ended = (out', m')"
    using demo_ends r(1) by (auto simp: demo_ended_def r(4) split: option.splits)
  have w: "iv_ID demo_invocation = ''w''" by code_simp
  from child_events_attributed [OF r'(1) r(2)] r(3) r'(2,3) show ?thesis
    by (auto simp: r'(4) w types_of_def list_all_iff)
qed

text \<open>A call that has failed still writes its presentation, after the error that ended the run.\<close>

definition demo_partial :: Translator where
  "demo_partial =
     (NewTranslator ''th'' ''r'')\<lparr>t_started := True, t_toolOrder := [''c''],
        t_tools := [(''c'', \<lparr>tl_presentation = None, tl_subagent = [], tl_args = ''ab'', tl_ended = False,
                              tl_result = False, tl_parent = ''m''\<rparr>)]\<rparr>"

definition demo_arguments :: Native where
  "demo_arguments =
     no_event\<lparr>n_Type := ''tool_call_started'', n_ToolCallID := ''c'', n_MessageID := ''m'', n_Arguments := Some [],
              n_StartedAt := Some 0\<rparr>"

lemma presentation_after_failure:
  "types_of (fst (native_events (demo_env\<lparr>json_valid := (\<lambda>_. False)\<rparr>) False demo_arguments ''m'' demo_partial))
   = [''TOOL_CALL_END'', ''RUN_ERROR'', ''ACTIVITY_SNAPSHOT'']"
  by code_simp

end
