(* ===== verification/Spec2Isabelle.thy ===== *)
theory Spec2Isabelle
  imports AsyncBehaviour StreamBus GoalRuntime TextClip ClientDependency SchedulerRuns PatchService Supersession
    AguiBehaviour AguiRunProps
begin

text \<open>
  A verification library for agently-core, the Go runtime of an agent platform. This header says what
  the library models, where it stands in the source and what is proved of it.

  \<^bold>\<open>The program.\<close> A conversation is a sequence of turns. A turn runs the agent loop
  (\<open>src/service/agent\<close>), which calls a language model and executes the tools it asks for. Around the loop
  stand the components this library is about. They keep the state the loop depends on, and they are
  where concurrency, ordering and clocks make the program hard:

  \<^item> a tool that answers later is an operation of the async manager; the loop waits on a barrier until
    the operations of its turn are terminal, pollers update them;
  \<^item> what happens in a turn is published on the streaming bus, which numbers the events of a stream and
    hands them to subscribers of bounded speed;
  \<^item> a tool that runs in the frontend is a deferred call of the client tool session, whose turns wait for
    each other along dependencies;
  \<^item> after a turn the goal runtime adds its token usage to the goal of the conversation and decides whether
    another turn is started;
  \<^item> the scheduler starts turns by cron expressions and intervals, and makes sure that a schedule runs
    once at a time;
  \<^item> the patch tool edits the files of a work directory in a session that can be rolled back;
  \<^item> before the next call of the model the history is projected: calls whose results newer calls replace are
    hidden, and tool results are clipped to ranges and sizes;
  \<^item> what the user interface is told goes through AG-UI: a translator per run turns the events of the bus into
    AG-UI events, and the projection turns those into a journal, messages and shared state that survive the run; from
    the journal the translator is restored.

  \<^bold>\<open>Theories.\<close> Names are those of the source, with a prefix or suffix where they would clash.

  \<^item> \<open>GoPrelude\<close>: Go strings as byte lists with the functions of package \<open>strings\<close>, maps as association
    lists, \<open>wrap64\<close> for 64-bit integers, instants and durations in nanoseconds, reachability and the
    locale \<open>inv_system\<close> of an inductive invariant.
  \<^item> \<open>GoChan\<close>: buffered channels in a heap, with a sticky flag for a send on or a close of a closed channel.
  \<^item> \<open>GoValue\<close>: values of \<open>interface{}\<close>, argument maps, the clone helpers.
  \<^item> \<open>AsyncTypes\<close>, \<open>AsyncManager\<close>: the data and every method of \<open>src/protocol/async/manager.go\<close>. A critical
    section is one function on the record \<open>Manager\<close>; a method that blocks is split where it releases the
    lock (\<open>WaitForChangeSince_begin\<close>, \<open>_recv\<close>, \<open>_ctxDone\<close>, \<open>_leave\<close>; the rounds of \<open>AwaitTerminal\<close>).
    \<open>AsyncInvariant\<close> has the invariant and its preservation, \<open>AsyncSystem\<close> the step relation \<open>mgr_step\<close>,
    \<open>AsyncProps\<close> and \<open>AsyncBehaviour\<close> the properties.
  \<^item> \<open>StreamBus\<close>: \<open>src/runtime/streaming/memory.go\<close>; \<open>Publish\<close> is split between the numbering of an event, the
    snapshot of the subscribers and each delivery, so that publishers and subscribers interleave in
    \<open>bus_step\<close>.
  \<^item> \<open>Usage\<close>: \<open>src/runtime/usage/usage.go\<close>.
  \<^item> \<open>GoalModel\<close>: \<open>src/service/goal/{goal,spec,status,controller}.go\<close>, the decision \<open>Evaluate\<close>;
    \<open>GoalRuntime\<close>: \<open>src/service/goal/{runtime,store,records}.go\<close> and the lifecycle hooks of the goal component,
    that is \<open>AfterTurn\<close> over the interface \<open>Store\<close> and the store the program gives it.
  \<^item> \<open>TextClip\<close>: \<open>src/internal/textutil/{textclip,truncate}.go\<close>.
  \<^item> \<open>ClientSession\<close>, \<open>ClientDependency\<close>: \<open>src/runtime/clienttool/{session,dependency}.go\<close>; \<open>session_step\<close> is the
    step relation over all methods that change a session.
  \<^item> \<open>Cron\<close>: \<open>src/service/scheduler/cron.go\<close>; \<open>Scheduler\<close>: when a schedule is due, stale runs, the pass \<open>RunDue\<close>
    (\<open>service_due.go\<close>, \<open>service_stale.go\<close> and the functions of \<open>service_runs.go\<close>, \<open>service_control.go\<close>,
    \<open>service_convert.go\<close> it uses); \<open>SchedulerRuns\<close>: what the pass promises.
  \<^item> The patch tool, \<open>src/protocol/tool/service/system/patch\<close>: \<open>PatchUpdate\<close> the search for lines and the edit of a
    file by chunks (\<open>seek_sequence.go\<close>, \<open>update.go\<close>), \<open>PatchPath\<close> the resolution of paths against the work
    directory (\<open>session.go\<close>), \<open>PatchSession\<close> the operations of a session, its tracked changes, commit and rollback
    (\<open>session.go\<close>, \<open>snapshot.go\<close>, \<open>diff.go\<close>), \<open>PatchRollback\<close> and \<open>PatchApply\<close> what they promise; \<open>PatchParse\<close>
    the parser of patches (\<open>parser.go\<close>), \<open>PatchDiff\<close> unified diffs and \<open>ApplyPatch\<close>, \<open>PatchService\<close> the methods of
    the service and the record of what was read (\<open>registry.go\<close>, \<open>observation_contract.go\<close>,
    \<open>src/protocol/tool/service/observation/state.go\<close>). \<open>GoUtf8\<close> splits a string into runes.
  \<^item> \<open>Supersession\<close>: \<open>src/service/agent/supersession.go\<close>, \<open>src/runtime/projection/context.go\<close> and the step of
    \<open>src/service/agent/binding_history.go\<close> that applies them.
  \<^item> The AG-UI shared state, \<open>src/runtime/aguistate\<close>: \<open>AguiJson\<close> decoded JSON and its equality (\<open>patch.go\<close>,
    \<open>equality.go\<close>), \<open>AguiPatch\<close> pointers and \<open>ApplyPatchJSON\<close> (\<open>patch.go\<close>), \<open>AguiProjection\<close> the projection and what
    each event type does to it (\<open>projection.go\<close>, \<open>history.go\<close>; one definition for each case of \<open>apply\<close>),
    \<open>AguiNormalize\<close> chunk lanes and \<open>Apply\<close>; \<open>AguiProtocol\<close> the protocol that journals follow, \<open>AguiBehaviour\<close> lanes,
    chunks and history.
  \<^item> The AG-UI translator, \<open>src/protocol/agui\<close>: \<open>AguiNative\<close> the events of the bus (\<open>src/runtime/streaming/event.go\<close>),
    identities, the presentation metadata and the stamping of events; \<open>AguiTranslator\<close> the state of a run and the operations
    on its texts, tool calls, thoughts, steps and token usage (\<open>translator.go\<close>, \<open>translator_model.go\<close>; \<open>text_event\<close>,
    \<open>tool_event\<close> and \<open>reasoning_event\<close> are \<open>text\<close>, \<open>tool\<close> and \<open>reasoning\<close>); \<open>AguiCapture\<close> the message graph, the capture of
    events and \<open>RestoreTranslator\<close> (\<open>translator_history.go\<close>, \<open>translator_restore.go\<close>); \<open>AguiTranslate\<close> the presentations
    (\<open>translator_presentation.go\<close>) and \<open>Translate\<close>; \<open>AguiSubagents\<close> the bridge for standard events, approval receipts and
    subagents (\<open>translator_subagent.go\<close>, \<open>translator_approval_receipt.go\<close>). A translator and its subagents are the
    datatype \<open>Node\<close>; a Go panic is \<open>None\<close>. \<open>AguiLanes\<close> reads the lanes of a translator as a state of the protocol of
    \<open>AguiProtocol\<close> and shows that each operation takes its steps; \<open>AguiJournal\<close> lifts this to calls of \<open>Translate\<close> and
    sequences of them, \<open>AguiRuns\<close> to the end of a run, \<open>AguiRestore\<close> to restored translators; \<open>AguiTexts\<close> has deltas with
    offsets and aliases, \<open>AguiRunProps\<close> the properties with concrete runs.

  \<^bold>\<open>Interfaces.\<close> Locales carry the proofs shared across operations and components. \<open>finisher\<close> (\<open>GoChan\<close>) is what
  closing and waking a list of channels have in common, interpreted by both. \<open>inv_system\<close> (\<open>GoPrelude\<close>) turns the
  preservation by steps into a fact of reachable states; it is interpreted by the manager (\<open>mgr\<close>), the
  bus (\<open>bus\<close>) and the session (\<open>session\<close>). \<open>goal_store\<close> (\<open>GoalRuntime\<close>) is the contract of the interface
  \<open>Store\<close> that \<open>AfterTurn\<close> needs, interpreted by the program's store over a table of goals (\<open>table\<close>);
  \<open>framed_goal_store\<close> extends it by what accounting and the counters of progress leave alone, which is what
  properties of several turns in a row need (\<open>table_frame\<close>).
  The scheduler states its contract with the store as the predicate \<open>run_store\<close> of \<open>SchedulerRuns\<close>, because the
  store stays a parameter there; its witness is a store over a list of runs. It asks that a listing is complete, so a
  page limit of the reader is outside of it. Likewise \<open>fs_ok\<close> of \<open>PatchRollback\<close>
  is the contract of the patch session with the file service: each call does its whole effect or nothing, the
  answer of \<open>Exists\<close> is true even beside an error (\<open>exists_error_ignored\<close> shows what \<open>Rollback\<close> does otherwise), and
  backup names are new; its witness is a service over a list of files. \<open>lexer_ok\<close> of \<open>PatchParse\<close> is the contract of
  the parser with its tokenizer, with a witness that skips blanks and compares fragments.

  \<^bold>\<open>What is shown.\<close>

  \<^item> Manager: no interleaving of its operations sends on or closes a closed channel; a parked waiter is always
    registered under its turn, and a signal of the turn wakes it; pollers are counted exactly; an
    operation that became terminal has a terminal payload that says so; a repeated update changes nothing;
    the barrier ends exactly in the
    four cases of \<open>evaluateAwait\<close>; the collector drops exactly the old unwatched terminal operations; the
    shutdown cancels every poller and admits no other.
  \<^item> Bus: no panic; in every interleaving the events of a stream that are published without a number are numbered
    one after the other; the delivery to a fast, a slow and a
    closed subscriber, the fan-out of a publication and the shutdown.
  \<^item> Goals: \<open>Evaluate\<close> continues a goal exactly under its conditions; its actions respect the life cycle; a
    goal that is not active is never started; \<open>AfterTurn\<close> on the program's store refines the abstract change
    of the goal; a goal that a turn stopped is left alone by all later turns; turns that report the same progress
    count up in the stored goal, and the goal is blocked by the turn at which the count reaches its limit.
  \<^item> Clipping: no slice is out of range on the stated inputs, the line ranges agree with a reference on the
    list of lines, heads and tails are the longest that fit, and truncation to runes keeps exactly the first runes.
  \<^item> Session: a deferral with the same id is stored once, a failed scope refuses every later deferral, the
    search decides reachability (\<open>reachable_spec\<close>) and with it the waiting edges stay acyclic.
  \<^item> Scheduler: parsing returns on every expression of bounded length, the next instant is the first minute
    that matches, intervals advance past the present without a drift, and a pass keeps at most one
    unfinished run per schedule on every path, errors included.
  \<^item> Patches: the text of a patch is read back, and every text is answered; the diff of two texts turns one into the
    other; an update exchanges exactly runs of lines that fit its chunks, in their order, and applies whenever the
    lines occur literally; a resolved path is below its base, and a call of \<open>apply\<close> in a
    directory of the file system writes nothing outside it but backups and \<open>/dev/null\<close> and, with a record of reads,
    updates, deletes and moves only files whose present content was read, while targets of additions and moves are not
    checked; a rollback
    without errors restores every file of the user after any sequence of edits, failed ones included, under
    stated conditions on additions and moves. Counterexamples beside the theorems show what their conditions
    exclude (\<open>add_over_file\<close>, \<open>swap_by_moves\<close>, \<open>insertion_misplaced\<close>, \<open>move_over_unread\<close>, \<open>null_device_unresolved\<close> and others).
  \<^item> Supersession: the step shows exactly the messages with fewer newer calls of their key than the limit, and
    every tool result of the response that the model continues from.
  \<^item> AG-UI: the journal is a run of a small protocol whatever is fed (\<open>wire_step\<close>), so a finished run has closed all it
    opened; lanes exist only while a run is on; chunks make one message with the pieces joined; a snapshot of the history
    loses nothing it carries; equality of JSON is equality of meanings, with numbers as rationals; pointers are
    read back. \<open>closed_lane_blocks_run\<close> shows a sequence of events after which a run cannot be ended.
  \<^item> Translator: what a fresh translator writes for native events is a run of the same protocol while the run goes on, and
    an event that ends the turn ends the run with everything closed; a restored translator has open what the one that wrote
    the journal had; texts delivered more than once are written once; aliases of calls do not collide; the events of a
    subagent carry its id, and its end leaves the run of the parent open. \<open>late_first_delta\<close> and
    \<open>presentation_after_failure\<close> show where a failure breaks the journal.
    Standard events of the bridge (\<open>protocol_event\<close>) and subagents are modelled, but the theorems on journals are about
    native events of the run itself: the source writes what the bridge is given without a check against the open lanes
    (\<open>bridge_end_unopened\<close>) and finishes a run over an open subagent (\<open>subagent_left_open\<close>).

  \<^bold>\<open>Bounds and fuel.\<close> \<open>cronNext\<close> tries 525600 minutes, the source's own bound; the model recurses on that
  count. Loops of \<open>parseCronField\<close> count with wrap-around and may run for ever, so they are partial functions
  with \<open>None\<close> for not returning; fields of at most 18 bytes return, and \<open>parseCron_diverges\<close> shows a field that
  does not. The depth-first search \<open>walk\<close> ends by the number of turns it has not visited. \<open>AwaitTerminal\<close> and the
  parked waits are rounds of a step relation and need no fuel.

  \<^bold>\<open>Parameters.\<close> Code outside \<open>src/\<close> is an argument: the execution modes of \<open>viant/mcp\<close>, JSON, MD5 and SHA-256
  (\<open>async_env\<close>, \<open>codec\<close>), the Datly runtime behind the goal store (\<open>invoker\<close>), the calendar of a location, the
  regular expressions of \<open>ExtractSignatures\<close>, the file service of \<open>viant/afs\<close> with its URLs, the diff library, the
  tokenizer \<open>viant/parsly\<close> and the reader of unified diffs (\<open>fs_env\<close>, \<open>path_env\<close>, \<open>lexer\<close>, \<open>text_env\<close>), the decoding and hashing of tool calls (\<open>history_env\<close>),
  the JSON schema validator and the JSON Patch library (\<open>agui_env\<close>), the schemas of events and presentations, the encoding
  of JSON and of times and the order of a \<open>range\<close> over a map (\<open>tr_env\<close>), the clock and new ids. Laws that properties need of them are
  premises with a witness. Maps are association lists whose order stands for the order in which Go
  visits them; theorems hold for every order. Case mapping is that of ASCII.

  \<^bold>\<open>Not modelled.\<close> The agent loop and its intake, the tool registry and MCP clients, the model providers,
  conversation stores and the Datly components are mostly calls to remote services and generated data access;
  the SDK, the host application, the user interface, reporting and authentication are glue over them. Of the
  scheduler, the goroutine that executes a run, its lease renewal, the watchdog and the run-now request are not modelled.
  Of the history, collecting and rendering messages are not modelled. Of AG-UI, the generated wire types, the decoding of
  wire integers, the emitter and the life cycle of feeds are not modelled. The extraction of async payloads follows paths
  through decoded payloads and the narrator runs timers around a model call; the model matcher computes scores in
  floating point, which HOL does not evaluate.
\<close>

end
